(* ===== verification/Prelude.thy ===== *)
theory Prelude
  imports Complex_Main "HOL-Library.AList"
begin

text \<open>
  Shared vocabulary of the development.  Python's exceptions are values of \<open>py_exc\<close>; an
  operation that may raise returns \<open>py_exc + 'a\<close>, with \<open>Inl\<close> for the exception that leaves
  the function.  A Python dictionary whose order is observable is an association list updated
  with \<open>AList.update\<close> (an existing key keeps its place, a new key goes to the end, exactly as
  in Python 3.7+); where order is not observable a dictionary is a map \<open>'k \<rightharpoonup> 'v\<close>.
  The generic lemmas on folds, lists, maps and counting that several components use are here,
  together with the collections the component proofs are driven by.
\<close>

named_theorems frame_simps \<open>fields an operation leaves unchanged\<close>
named_theorems inv_intros \<open>an operation preserves its component's invariant\<close>

section \<open>Exceptions and results\<close>

datatype py_exc =
    ValueError | KeyError | IndexError | TypeError | AttributeError | AssertionError
  | RuntimeError | NotImplementedError | ZeroDivisionError | StopIteration
  | InputValidationError | SetupError | OtherException string

type_synonym 'a result = "py_exc + 'a"

definition is_ok :: "'a result \<Rightarrow> bool" where
  "is_ok r = (case r of Inl _ \<Rightarrow> False | Inr _ \<Rightarrow> True)"

lemma is_ok_simps [simp]: "is_ok (Inr x)" "\<not> is_ok (Inl e)"
  by (simp_all add: is_ok_def)

lemma is_ok_iff: "is_ok r \<longleftrightarrow> (\<exists>x. r = Inr x)"
  by (cases r) auto

section \<open>Folds that keep an invariant\<close>

lemma foldl_invariant:
  assumes "P s" and "\<And>s x. P s \<Longrightarrow> x \<in> set xs \<Longrightarrow> P (f s x)"
  shows "P (foldl f s xs)"
  using assms by (induction xs arbitrary: s) auto

lemma fold_invariant_simple:
  assumes "P s" and "\<And>s x. P s \<Longrightarrow> x \<in> set xs \<Longrightarrow> P (f x s)"
  shows "P (fold f xs s)"
  using assms by (induction xs arbitrary: s) auto

lemma foldl_preserves_eq:
  assumes "\<And>s x. g (f s x) = g s"
  shows "g (foldl f s xs) = g s"
  using assms by (induction xs arbitrary: s) auto

section \<open>Association lists as ordered dictionaries\<close>

definition dict_keys :: "('k \<times> 'v) list \<Rightarrow> 'k list" where
  "dict_keys d = map fst d"

definition dict_wf :: "('k \<times> 'v) list \<Rightarrow> bool" where
  "dict_wf d = distinct (map fst d)"

lemma dict_wf_empty [simp]: "dict_wf []"
  by (simp add: dict_wf_def)

lemma dict_wf_update [simp]: "dict_wf d \<Longrightarrow> dict_wf (AList.update k v d)"
  by (simp add: dict_wf_def distinct_update)

lemma dict_wf_delete [simp]: "dict_wf d \<Longrightarrow> dict_wf (AList.delete k d)"
  by (simp add: dict_wf_def distinct_delete)

lemma map_of_update [simp]: "map_of (AList.update k v d) = (map_of d)(k \<mapsto> v)"
  by (simp add: update_conv')

lemma keys_update_new: "k \<notin> fst ` set d \<Longrightarrow> AList.update k v d = d @ [(k, v)]"
  by (induction d) auto

lemma keys_update_old: "k \<in> fst ` set d \<Longrightarrow> map fst (AList.update k v d) = map fst d"
  by (induction d) auto

section \<open>Maps and finite domains\<close>

lemma card_dom_upd_new: "finite (dom m) \<Longrightarrow> m k = None \<Longrightarrow> card (dom (m(k \<mapsto> v))) = Suc (card (dom m))"
  by (simp add: domIff)

lemma card_dom_upd_old: "m k = Some v' \<Longrightarrow> card (dom (m(k \<mapsto> v))) = card (dom m)"
  by (simp add: domI insert_absorb)

lemma card_dom_del: "finite (dom m) \<Longrightarrow> m k = Some v \<Longrightarrow> Suc (card (dom (m(k := None)))) = card (dom m)"
proof -
  assume fin: "finite (dom m)" and k: "m k = Some v"
  have "dom (m(k := None)) = dom m - {k}" by auto
  moreover have "k \<in> dom m" using k by auto
  ultimately show ?thesis using card_Suc_Diff1 [OF fin] by metis
qed

lemma card_dom_del_le: "finite (dom m) \<Longrightarrow> card (dom (m(k := None))) \<le> card (dom m)"
  by (rule card_mono) auto

section \<open>Lists\<close>

lemma sum_list_update_add:
  fixes xs :: "'a :: comm_monoid_add list"
  shows "i < length xs \<Longrightarrow> sum_list (xs[i := xs ! i + d]) = sum_list xs + d"
proof (induction xs arbitrary: i)
  case Nil
  then show ?case by simp
next
  case (Cons x xs)
  then show ?case by (cases i) (simp_all add: ac_simps)
qed

lemma sum_list_map_update:
  fixes f :: "'a \<Rightarrow> 'b :: comm_monoid_add"
  assumes "i < length xs" and "f y = f (xs ! i) + d"
  shows "sum_list (map f (xs[i := y])) = sum_list (map f xs) + d"
  using assms by (simp add: map_update sum_list_update_add [of i "map f xs", simplified])

lemma list_all_update: "list_all P xs \<Longrightarrow> P y \<Longrightarrow> list_all P (xs[i := y])"
  by (auto simp: list_all_iff dest!: set_update_subset_insert [THEN subsetD])

end
