(* ===== verification/PyValues.thy ===== *)
theory PyValues
  imports Prelude
begin

text \<open>
  The dynamically typed values the program passes around: dataset rows, resolved configuration
  dictionaries, result files.  A float is an exact rational or one of the three non-finite
  values; rounding of IEEE doubles is not modelled.  A dictionary is an association list in
  insertion order.  The operations below are the parts of Python's semantics the modelled code
  uses: truth testing, \<open>isinstance\<close>, \<open>==\<close> against an integer constant (where
  \<open>True == 1\<close> and \<open>0.0 == 0\<close>), \<open>dict.get\<close> and the merge \<open>{**a, **b}\<close>.
\<close>

datatype pyfloat = Fin rat | PosInf | NegInf | NaN

datatype pyval =
    PNone
  | PBool bool
  | PInt int
  | PFloat pyfloat
  | PStr string
  | PList "pyval list"
  | PTuple "pyval list"
  | PDict "(string \<times> pyval) list"

type_synonym pydict = "(string \<times> pyval) list"

definition float_finite :: "pyfloat \<Rightarrow> bool" where
  "float_finite f = (case f of Fin _ \<Rightarrow> True | _ \<Rightarrow> False)"

fun truthy :: "pyval \<Rightarrow> bool" where
  "truthy PNone = False"
| "truthy (PBool b) = b"
| "truthy (PInt n) = (n \<noteq> 0)"
| "truthy (PFloat f) = (f \<noteq> Fin 0)"
| "truthy (PStr s) = (s \<noteq> [])"
| "truthy (PList xs) = (xs \<noteq> [])"
| "truthy (PTuple xs) = (xs \<noteq> [])"
| "truthy (PDict d) = (d \<noteq> [])"

definition is_none :: "pyval \<Rightarrow> bool" where "is_none v = (v = PNone)"
definition is_dict :: "pyval \<Rightarrow> bool" where "is_dict v = (case v of PDict _ \<Rightarrow> True | _ \<Rightarrow> False)"
definition is_str :: "pyval \<Rightarrow> bool" where "is_str v = (case v of PStr _ \<Rightarrow> True | _ \<Rightarrow> False)"
definition is_list :: "pyval \<Rightarrow> bool" where "is_list v = (case v of PList _ \<Rightarrow> True | _ \<Rightarrow> False)"

text \<open>\<open>isinstance(v, list | tuple)\<close>, together with the elements.\<close>

definition seq_elems :: "pyval \<Rightarrow> pyval list option" where
  "seq_elems v = (case v of PList xs \<Rightarrow> Some xs | PTuple xs \<Rightarrow> Some xs | _ \<Rightarrow> None)"

text \<open>The numeric value Python's comparison operators see: booleans count as 0 and 1.\<close>

definition num_of :: "pyval \<Rightarrow> rat option" where
  "num_of v = (case v of
       PBool b \<Rightarrow> Some (if b then 1 else 0)
     | PInt n \<Rightarrow> Some (of_int n)
     | PFloat (Fin q) \<Rightarrow> Some q
     | _ \<Rightarrow> None)"

text \<open>\<open>v == n\<close> for an integer constant \<open>n\<close>.\<close>

definition eq_int :: "pyval \<Rightarrow> int \<Rightarrow> bool" where
  "eq_int v n = (num_of v = Some (of_int n))"

text \<open>\<open>d.get(k)\<close>: the stored value, or \<open>None\<close>.\<close>

definition dget :: "pydict \<Rightarrow> string \<Rightarrow> pyval" where
  "dget d k = (case map_of d k of None \<Rightarrow> PNone | Some v \<Rightarrow> v)"

text \<open>\<open>{**a, **b}\<close>.\<close>

definition dmerge :: "pydict \<Rightarrow> pydict \<Rightarrow> pydict" where
  "dmerge a b = foldl (\<lambda>d (k, v). AList.update k v d) a b"

text \<open>\<open>xs[i]\<close> on a list: negative indices count from the end, others raise.\<close>

definition list_get :: "'a list \<Rightarrow> int \<Rightarrow> 'a result" where
  "list_get xs i =
     (if 0 \<le> i \<and> i < int (length xs) then Inr (xs ! nat i)
      else if i < 0 \<and> - int (length xs) \<le> i then Inr (xs ! nat (int (length xs) + i))
      else Inl IndexError)"

text \<open>\<open>tuple(v)\<close>: sequences give their elements, strings their characters, dictionaries their
  keys; anything else is not iterable.\<close>

definition py_tuple :: "pyval \<Rightarrow> pyval list result" where
  "py_tuple v = (case v of
       PList xs \<Rightarrow> Inr xs
     | PTuple xs \<Rightarrow> Inr xs
     | PStr s \<Rightarrow> Inr (map (\<lambda>c. PStr [c]) s)
     | PDict d \<Rightarrow> Inr (map (\<lambda>kv. PStr (fst kv)) d)
     | _ \<Rightarrow> Inl TypeError)"

text \<open>Decimal digits, as \<open>str\<close> prints a non-negative integer.\<close>

fun digits :: "nat \<Rightarrow> string" where
  "digits n = (if n < 10 then [char_of (48 + n)] else digits (n div 10) @ [char_of (48 + n mod 10)])"

declare digits.simps [simp del]

lemma list_get_ok: "list_get xs i = Inr x \<Longrightarrow> x \<in> set xs"
  by (auto simp: list_get_def split: if_splits)

lemma list_get_nth: "i < length xs \<Longrightarrow> list_get xs (int i) = Inr (xs ! i)"
  by (simp add: list_get_def)

lemma is_none_simps [simp]:
  "is_none PNone" "\<not> is_none (PBool b)" "\<not> is_none (PInt n)" "\<not> is_none (PFloat f)"
  "\<not> is_none (PStr s)" "\<not> is_none (PList xs)" "\<not> is_none (PTuple xs)" "\<not> is_none (PDict d)"
  by (simp_all add: is_none_def)

lemma num_of_simps [simp]:
  "num_of PNone = None" "num_of (PInt n) = Some (of_int n)" "num_of (PFloat (Fin q)) = Some q"
  "num_of (PBool b) = Some (if b then 1 else 0)" "num_of (PStr s) = None"
  "num_of (PList xs) = None" "num_of (PTuple xs) = None" "num_of (PDict d) = None"
  by (simp_all add: num_of_def)

lemma eq_int_PInt [simp]: "eq_int (PInt m) n \<longleftrightarrow> m = n"
  by (simp add: eq_int_def)

lemma eq_int_PNone [simp]: "\<not> eq_int PNone n"
  by (simp add: eq_int_def)

lemma map_of_dmerge: "map_of (dmerge a b) = map_of a ++ map_of (rev b)"
proof (induction b arbitrary: a)
  case Nil
  then show ?case by (simp add: dmerge_def)
next
  case (Cons p b)
  obtain k v where p: "p = (k, v)" by force
  have "dmerge a (p # b) = dmerge (AList.update k v a) b"
    by (simp add: dmerge_def p)
  with Cons show ?case
    by (simp add: p fun_eq_iff map_add_def split: option.splits)
qed

lemma dmerge_wf: "dict_wf a \<Longrightarrow> dict_wf (dmerge a b)"
  unfolding dmerge_def by (rule foldl_invariant) auto

end
