(* ===== verification/CoreTypes.thy ===== *)
theory CoreTypes
  imports PyValues "HOL-Library.List_Lexorder" "HOL-Library.Char_ord"
begin

text \<open>
  \<open>core/types.py\<close> and \<open>core/record.py\<close>: the event taxonomy with its routing topics, the
  payloads events carry, and the text-model output with the derived views that token metrics
  count (full text, text after the first chunk, chat-message parts).  JSON serialisation of a
  merged tool-call list is \<open>msgspec\<close>'s and enters as the parameter \<open>enc\<close>.
\<close>

section \<open>Event types and topics\<close>

datatype session_event =
    STARTED | ENDED | INTERRUPTED | STOP_LOADGEN | PHASE_START
  | START_PERFORMANCE_TRACKING | STOP_PERFORMANCE_TRACKING

datatype error_event = GENERIC | LOADGEN | SESSION | CLIENT

datatype sample_event = ISSUED | COMPLETE | RECV_FIRST | RECV_NON_FIRST

datatype event_type = SessionEv session_event | ErrorEv error_event | SampleEv sample_event

definition TOPIC_FRAME_SIZE :: nat where "TOPIC_FRAME_SIZE = 40"

fun category :: "event_type \<Rightarrow> string" where
  "category (SessionEv _) = ''session''"
| "category (ErrorEv _) = ''error''"
| "category (SampleEv _) = ''sample''"

fun ev_value :: "event_type \<Rightarrow> string" where
  "ev_value (SessionEv STARTED) = ''started''"
| "ev_value (SessionEv ENDED) = ''ended''"
| "ev_value (SessionEv INTERRUPTED) = ''interrupted''"
| "ev_value (SessionEv STOP_LOADGEN) = ''stop_loadgen''"
| "ev_value (SessionEv PHASE_START) = ''phase_start''"
| "ev_value (SessionEv START_PERFORMANCE_TRACKING) = ''start_performance_tracking''"
| "ev_value (SessionEv STOP_PERFORMANCE_TRACKING) = ''stop_performance_tracking''"
| "ev_value (ErrorEv GENERIC) = ''generic''"
| "ev_value (ErrorEv LOADGEN) = ''loadgen''"
| "ev_value (ErrorEv SESSION) = ''session''"
| "ev_value (ErrorEv CLIENT) = ''client''"
| "ev_value (SampleEv ISSUED) = ''issued''"
| "ev_value (SampleEv COMPLETE) = ''complete''"
| "ev_value (SampleEv RECV_FIRST) = ''recv_first''"
| "ev_value (SampleEv RECV_NON_FIRST) = ''recv_non_first''"

definition all_events :: "event_type list" where
  "all_events =
     [SessionEv STARTED, SessionEv ENDED, SessionEv INTERRUPTED, SessionEv STOP_LOADGEN,
      SessionEv PHASE_START, SessionEv START_PERFORMANCE_TRACKING,
      SessionEv STOP_PERFORMANCE_TRACKING, ErrorEv GENERIC, ErrorEv LOADGEN, ErrorEv SESSION,
      ErrorEv CLIENT, SampleEv ISSUED, SampleEv COMPLETE, SampleEv RECV_FIRST,
      SampleEv RECV_NON_FIRST]"

lemma all_events_complete: "ev \<in> set all_events"
proof (cases ev)
  case (SessionEv x) then show ?thesis by (cases x) (simp_all add: all_events_def)
next
  case (ErrorEv x) then show ?thesis by (cases x) (simp_all add: all_events_def)
next
  case (SampleEv x) then show ?thesis by (cases x) (simp_all add: all_events_def)
qed

text \<open>The metaclass sets \<open>member.topic\<close> to category, dot, value, and pads it with NULs.\<close>

definition topic :: "event_type \<Rightarrow> string" where
  "topic ev = category ev @ ''.'' @ ev_value ev"

definition ljust :: "nat \<Rightarrow> string \<Rightarrow> string" where
  "ljust n s = s @ replicate (n - length s) (CHR 0x00)"

definition topic_bytes_padded :: "event_type \<Rightarrow> string" where
  "topic_bytes_padded ev = ljust TOPIC_FRAME_SIZE (topic ev)"

definition BATCH_TOPIC :: string where
  "BATCH_TOPIC = ljust TOPIC_FRAME_SIZE ''batch''"

text \<open>\<open>topic.split(".")\<close>.\<close>

fun split_dot :: "string \<Rightarrow> string list" where
  "split_dot [] = [[]]"
| "split_dot (c # cs) =
     (if c = CHR ''.'' then [] # split_dot cs
      else (case split_dot cs of [] \<Rightarrow> [[c]] | w # ws \<Rightarrow> (c # w) # ws))"

text \<open>
  \<open>EventTypeMeta.from_topic\<close>: the category must be registered, and the value must be a member
  of that category's enum (\<open>enum_cls(value)\<close> raises \<open>ValueError\<close> otherwise; the registered
  member values and member topics both resolve, but a split part never holds a dot).
\<close>

definition from_topic :: "string \<Rightarrow> event_type result" where
  "from_topic t = (case split_dot t of
       [cat, v] \<Rightarrow>
         (if cat \<notin> set (map category all_events) then Inl ValueError
          else (case List.find (\<lambda>ev. category ev = cat \<and> ev_value ev = v) all_events of
                  None \<Rightarrow> Inl ValueError
                | Some ev \<Rightarrow> Inr ev))
     | _ \<Rightarrow> Inl ValueError)"

section \<open>Payloads and records\<close>

datatype phase_type = PERFORMANCE | ACCURACY | WARMUP

record phase_data =
  pd_phase_type :: phase_type
  pd_drain_after :: bool
  pd_num_turns :: int
  pd_num_trajectories :: int

record error_data =
  error_type :: string
  error_message :: string

text \<open>\<open>ErrorData.__str__\<close>.\<close>

definition error_str :: "error_data \<Rightarrow> string" where
  "error_str e = (if error_message e \<noteq> [] then error_type e @ '': '' @ error_message e
                  else error_type e)"

record prompt_data =
  pr_text :: "string option"
  pr_token_ids :: "pyval list option"
  pr_messages :: "pyval list option"
  pr_tools :: "pyval list option"
  pr_chat_template_kwargs :: "pydict option"
  pr_chat_template :: "string option"
  pr_tool_choice :: "pyval option"

definition empty_prompt :: prompt_data where
  "empty_prompt = \<lparr>pr_text = None, pr_token_ids = None, pr_messages = None, pr_tools = None,
     pr_chat_template_kwargs = None, pr_chat_template = None, pr_tool_choice = None\<rparr>"

text \<open>
  One tool-call fragment of a stream, and the merged call.  An absent key is \<open>None\<close>; a
  fragment without an \<open>index\<close> key counts as index 0.
\<close>

record tool_part =
  tp_index :: "int option"
  tp_id :: "string option"
  tp_type :: "string option"
  tp_name :: "string option"
  tp_arguments :: "string option"

record tool_call =
  tc_type :: string
  tc_id :: "string option"
  tc_name :: "string option"
  tc_arguments :: string

text \<open>\<open>OUTPUT_ELEM_TYPE\<close>: a string when not streaming, a tuple of chunks when streaming.\<close>

datatype output_elem = Whole string | Chunks "string list"

text \<open>The \<open>tool_calls\<close> field: complete calls (dictionaries), or the stream's chunk tuples.\<close>

datatype tool_calls = Flat "tool_part list" | Chunked "tool_part list list"

record text_output =
  to_output :: output_elem
  to_reasoning :: "output_elem option"
  to_tool_calls :: "tool_calls option"

datatype event_data =
    NoData | OutputData text_output | PromptD prompt_data | ErrorD error_data | PhaseD phase_data

record event_record =
  ev_type :: event_type
  ev_timestamp :: int
  ev_uuid :: string
  ev_conv :: string
  ev_turn :: "int option"
  ev_data :: event_data
  ev_finish_reason :: "string option"
  ev_worker_id :: "int option"

definition mk_event :: "event_type \<Rightarrow> int \<Rightarrow> event_record" where
  "mk_event t ts = \<lparr>ev_type = t, ev_timestamp = ts, ev_uuid = [], ev_conv = [], ev_turn = None,
     ev_data = NoData, ev_finish_reason = None, ev_worker_id = None\<rparr>"

definition mk_sample_event ::
    "event_type \<Rightarrow> int \<Rightarrow> string \<Rightarrow> string \<Rightarrow> int option \<Rightarrow> event_data \<Rightarrow> event_record" where
  "mk_sample_event t ts q c n d = (mk_event t ts)\<lparr>ev_uuid := q, ev_conv := c, ev_turn := n, ev_data := d\<rparr>"

record query =
  q_id :: string
  q_data :: pyval
  q_headers :: "(string \<times> string) list"

record query_result =
  qr_id :: string
  qr_output :: "text_output option"
  qr_error :: "error_data option"
  qr_finish_reason :: "string option"
  qr_worker_id :: "int option"
  qr_completed_at :: "int option"

record stream_chunk =
  sc_id :: string
  sc_chunk :: string
  sc_first :: bool

section \<open>Tool-call merging\<close>

definition merge_part :: "tool_call \<Rightarrow> tool_part \<Rightarrow> tool_call" where
  "merge_part tc p = tc
     \<lparr>tc_id := (case tp_id p of Some (c # s) \<Rightarrow> Some (c # s) | _ \<Rightarrow> tc_id tc),
      tc_type := (case tp_type p of Some (c # s) \<Rightarrow> c # s | _ \<Rightarrow> tc_type tc),
      tc_name := (case tp_name p of Some (c # s) \<Rightarrow> Some (c # s) | _ \<Rightarrow> tc_name tc),
      tc_arguments := tc_arguments tc @ (case tp_arguments p of Some s \<Rightarrow> s | None \<Rightarrow> [])\<rparr>"

definition new_call :: tool_call where
  "new_call = \<lparr>tc_type = ''function'', tc_id = None, tc_name = None, tc_arguments = []\<rparr>"

definition part_index :: "tool_part \<Rightarrow> int" where
  "part_index p = (case tp_index p of None \<Rightarrow> 0 | Some i \<Rightarrow> i)"

text \<open>The inner loop body: \<open>setdefault\<close>, then the field updates.\<close>

definition merge_step :: "(int \<times> tool_call) list \<Rightarrow> tool_part \<Rightarrow> (int \<times> tool_call) list" where
  "merge_step m p =
     (let tc = (case map_of m (part_index p) of None \<Rightarrow> new_call | Some tc \<Rightarrow> tc)
      in AList.update (part_index p) (merge_part tc p) m)"

definition merge_chunks :: "tool_part list list \<Rightarrow> tool_call list" where
  "merge_chunks chunks =
     (let m = foldl (foldl merge_step) [] chunks
      in map (\<lambda>i. the (map_of m i)) (sort (map fst m)))"

datatype merged_calls = RawCalls "tool_part list" | Merged "tool_call list"

text \<open>\<open>merge_tool_calls\<close>: nothing for an absent or empty tuple, flat calls unchanged.\<close>

fun merge_tool_calls :: "tool_calls option \<Rightarrow> merged_calls option" where
  "merge_tool_calls None = None"
| "merge_tool_calls (Some (Flat [])) = None"
| "merge_tool_calls (Some (Flat (p # ps))) = Some (RawCalls (p # ps))"
| "merge_tool_calls (Some (Chunked [])) = None"
| "merge_tool_calls (Some (Chunked (c # cs))) = Some (Merged (merge_chunks (c # cs)))"

text \<open>Truth of a merged value: an all-empty stream merges to the empty tuple, which is false.\<close>

fun merged_truthy :: "merged_calls option \<Rightarrow> bool" where
  "merged_truthy None = False"
| "merged_truthy (Some (RawCalls ps)) = (ps \<noteq> [])"
| "merged_truthy (Some (Merged cs)) = (cs \<noteq> [])"

section \<open>Views of a text-model output\<close>

fun elem_truthy :: "output_elem \<Rightarrow> bool" where
  "elem_truthy (Whole s) = (s \<noteq> [])"
| "elem_truthy (Chunks cs) = (cs \<noteq> [])"

definition opt_truthy :: "output_elem option \<Rightarrow> bool" where
  "opt_truthy r = (case r of None \<Rightarrow> False | Some e \<Rightarrow> elem_truthy e)"

fun elem_parts :: "output_elem \<Rightarrow> string list" where
  "elem_parts (Whole s) = [s]"
| "elem_parts (Chunks cs) = cs"

definition elem_text :: "output_elem \<Rightarrow> string" where
  "elem_text e = concat (elem_parts e)"

text \<open>\<open>TextModelOutput.__str__\<close>: reasoning, then output, then the tool calls as JSON.\<close>

definition output_str :: "(merged_calls \<Rightarrow> string) \<Rightarrow> text_output \<Rightarrow> string" where
  "output_str enc o' =
     (let parts1 = (case to_reasoning o' of Some r \<Rightarrow> (if elem_truthy r then elem_parts r else [])
                    | None \<Rightarrow> []);
          parts2 = (if elem_truthy (to_output o') then elem_parts (to_output o') else []);
          tc = merge_tool_calls (to_tool_calls o');
          parts3 = (if merged_truthy tc then [enc (the tc)] else [])
      in concat (parts1 @ parts2 @ parts3))"

text \<open>The tool calls left after the first chunk: a stream that opened with a pure tool-call
  delta (no output and no reasoning at all) loses its first tool-call chunk.\<close>

definition tool_calls_after_first :: "text_output \<Rightarrow> tool_calls option" where
  "tool_calls_after_first o' =
     (case to_tool_calls o' of
        Some (Chunked (c # cs)) \<Rightarrow>
          (if \<not> (elem_truthy (to_output o') \<or> opt_truthy (to_reasoning o'))
           then Some (Chunked cs) else Some (Chunked (c # cs)))
      | tcs \<Rightarrow> tcs)"

definition text_after_first_chunk :: "(merged_calls \<Rightarrow> string) \<Rightarrow> text_output \<Rightarrow> string" where
  "text_after_first_chunk enc o' =
     (let parts1 = (case to_reasoning o' of
             Some (Chunks cs) \<Rightarrow> (if length cs > 1 then tl cs else [])
           | _ \<Rightarrow> []);
          parts2 =
            (if elem_truthy (to_output o') then
               (case to_output o' of
                  Whole s \<Rightarrow>
                    (if parts1 \<noteq> []
                        \<or> (case to_reasoning o' of Some (Chunks cs) \<Rightarrow> cs \<noteq> [] | _ \<Rightarrow> False)
                     then [s] else [])
                | Chunks cs \<Rightarrow>
                    (if parts1 \<noteq> [] \<or> opt_truthy (to_reasoning o') then cs
                     else if length cs > 1 then tl cs
                     else []))
             else []);
          tc = merge_tool_calls (tool_calls_after_first o');
          parts3 = (if merged_truthy tc then [enc (the tc)] else [])
      in concat (parts1 @ parts2 @ parts3))"

definition as_message_parts :: "text_output \<Rightarrow> string \<times> string option \<times> merged_calls option" where
  "as_message_parts o' =
     (elem_text (to_output o'),
      (case to_reasoning o' of
         Some r \<Rightarrow> (if elem_truthy r then Some (elem_text r) else None)
       | None \<Rightarrow> None),
      merge_tool_calls (to_tool_calls o'))"

definition as_message_parts_after_first_chunk ::
    "text_output \<Rightarrow> string \<times> string option \<times> merged_calls option" where
  "as_message_parts_after_first_chunk o' =
     (let reasoning_after = (case to_reasoning o' of
             Some (Chunks cs) \<Rightarrow> (if length cs > 1 then Some (concat (tl cs)) else None)
           | _ \<Rightarrow> None);
          has_reasoning_tail = (reasoning_after \<noteq> None);
          content_after =
            (if elem_truthy (to_output o') then
               (case to_output o' of
                  Whole s \<Rightarrow>
                    (if has_reasoning_tail
                        \<or> (case to_reasoning o' of Some (Chunks cs) \<Rightarrow> cs \<noteq> [] | _ \<Rightarrow> False)
                     then s else [])
                | Chunks cs \<Rightarrow>
                    (if has_reasoning_tail \<or> opt_truthy (to_reasoning o') then concat cs
                     else if length cs > 1 then concat (tl cs)
                     else []))
             else [])
      in (content_after, reasoning_after, merge_tool_calls (tool_calls_after_first o')))"

text \<open>
  The replay parser's copy in \<open>metrics/steady_state_diagnostics.py\<close>, over the fields it reads
  from the logged array (it reconstructs no tool calls).
\<close>

definition replay_text_after_first_chunk :: "output_elem \<Rightarrow> output_elem option \<Rightarrow> string" where
  "replay_text_after_first_chunk output reasoning =
     (let parts1 = (case reasoning of
             Some (Chunks cs) \<Rightarrow> (if length cs > 1 then tl cs else [])
           | _ \<Rightarrow> []);
          parts2 =
            (if elem_truthy output then
               (case output of
                  Whole s \<Rightarrow>
                    (if parts1 \<noteq> []
                        \<or> (opt_truthy reasoning
                           \<and> (case reasoning of Some (Chunks cs) \<Rightarrow> True | _ \<Rightarrow> False))
                     then [s] else [])
                | Chunks cs \<Rightarrow>
                    (if parts1 \<noteq> [] \<or> opt_truthy reasoning then cs
                     else if length cs > 1 then tl cs
                     else []))
             else [])
      in concat (parts1 @ parts2))"

section \<open>Facts\<close>

lemma split_dot_no_dot: "CHR ''.'' \<notin> set s \<Longrightarrow> split_dot s = [s]"
  by (induction s) auto

lemma split_dot_append:
  "CHR ''.'' \<notin> set a \<Longrightarrow> CHR ''.'' \<notin> set b \<Longrightarrow> split_dot (a @ ''.'' @ b) = [a, b]"
  by (induction a) (auto simp: split_dot_no_dot)

lemma events_forall: "list_all P all_events \<Longrightarrow> P ev"
  using all_events_complete [of ev] by (auto simp: list_all_iff)

lemma category_value_no_dot:
  "CHR ''.'' \<notin> set (category ev)" "CHR ''.'' \<notin> set (ev_value ev)"
proof -
  have "list_all (\<lambda>ev. CHR ''.'' \<notin> set (category ev) \<and> CHR ''.'' \<notin> set (ev_value ev)) all_events"
    by code_simp
  from events_forall [OF this] show "CHR ''.'' \<notin> set (category ev)" "CHR ''.'' \<notin> set (ev_value ev)"
    by auto
qed

lemma find_event: "List.find (\<lambda>e. category e = category ev \<and> ev_value e = ev_value ev) all_events = Some ev"
proof -
  have "list_all (\<lambda>ev. List.find (\<lambda>e. category e = category ev \<and> ev_value e = ev_value ev) all_events = Some ev)
      all_events"
    by code_simp
  from events_forall [OF this] show ?thesis .
qed

lemma length_ljust: "length s \<le> n \<Longrightarrow> length (ljust n s) = n"
  by (simp add: ljust_def)

lemma topic_length: "length (topic ev) \<le> TOPIC_FRAME_SIZE"
proof -
  have "list_all (\<lambda>ev. length (topic ev) \<le> TOPIC_FRAME_SIZE) all_events" by code_simp
  from events_forall [OF this] show ?thesis .
qed

lemma topic_no_nul: "CHR 0x00 \<notin> set (topic ev)"
proof -
  have "list_all (\<lambda>ev. CHR 0x00 \<notin> set (topic ev)) all_events" by code_simp
  from events_forall [OF this] show ?thesis .
qed

lemma topic_padded_length: "length (topic_bytes_padded ev) = TOPIC_FRAME_SIZE"
  by (simp add: topic_bytes_padded_def length_ljust topic_length)

lemma batch_topic_length: "length BATCH_TOPIC = TOPIC_FRAME_SIZE"
  by (simp add: BATCH_TOPIC_def length_ljust TOPIC_FRAME_SIZE_def)

lemma ljust_inj:
  assumes "CHR 0x00 \<notin> set a" and "CHR 0x00 \<notin> set b" and "ljust n a = ljust n b"
  shows "a = b"
proof -
  have strip: "takeWhile (\<lambda>c. c \<noteq> CHR 0x00) (ljust n s) = s" if s: "CHR 0x00 \<notin> set s" for s
  proof -
    have all: "c \<noteq> CHR 0x00" if "c \<in> set s" for c using s that by metis
    have "takeWhile (\<lambda>c. c \<noteq> CHR 0x00) (s @ replicate k (CHR 0x00))
        = s @ takeWhile (\<lambda>c. c \<noteq> CHR 0x00) (replicate k (CHR 0x00))" for k
      by (rule takeWhile_append2) (use all in blast)
    then show ?thesis by (simp only: ljust_def takeWhile_replicate) simp
  qed
  show ?thesis using strip [OF assms(1)] strip [OF assms(2)] assms(3) by metis
qed

lemma topic_padded_not_batch: "topic_bytes_padded ev \<noteq> BATCH_TOPIC"
proof
  assume "topic_bytes_padded ev = BATCH_TOPIC"
  then have "topic ev = ''batch''"
    using ljust_inj [OF topic_no_nul] by (simp add: topic_bytes_padded_def BATCH_TOPIC_def)
  then have "CHR ''.'' \<in> set ''batch''" by (metis topic_def in_set_conv_decomp append_Cons append_Nil)
  then show False by simp
qed

lemma output_parts_truthy: "elem_truthy e = False \<Longrightarrow> elem_text e = []"
  by (cases e) (auto simp: elem_text_def)

lemma from_topic_topic: "from_topic (topic ev) = Inr ev"
proof -
  have split: "split_dot (topic ev) = [category ev, ev_value ev]"
    using split_dot_append [OF category_value_no_dot(1) category_value_no_dot(2), of ev ev]
    by (simp add: topic_def)
  have cat: "category ev \<in> set (map category all_events)"
    using all_events_complete [of ev] by auto
  show ?thesis
    unfolding from_topic_def split using cat find_event [of ev] by simp
qed

lemma foldl_foldl_concat: "foldl (foldl f) s xss = foldl f s (concat xss)"
  by (induction xss arbitrary: s) auto

definition parts_at :: "int \<Rightarrow> tool_part list \<Rightarrow> tool_part list" where
  "parts_at i ps = filter (\<lambda>p. part_index p = i) ps"

lemma merge_steps_lookup:
  "map_of (foldl merge_step [] ps) i =
     (if i \<in> part_index ` set ps then Some (foldl merge_part new_call (parts_at i ps)) else None)"
proof (induction ps rule: rev_induct)
  case Nil
  then show ?case by simp
next
  case (snoc p ps)
  have empty: "parts_at i ps = []" if "i \<notin> part_index ` set ps"
    using that by (auto simp: parts_at_def filter_empty_conv)
  show ?case
    using snoc.IH empty
    by (auto simp: merge_step_def Let_def parts_at_def split: option.splits if_splits)
qed

lemma merge_steps_wf: "dict_wf (foldl merge_step [] ps)"
  by (rule foldl_invariant) (auto simp: merge_step_def Let_def)

lemma merge_steps_keys: "fst ` set (foldl merge_step [] ps) = part_index ` set ps"
proof -
  have "dom (map_of (foldl merge_step [] ps)) = part_index ` set ps"
    by (auto simp: merge_steps_lookup dom_def)
  then show ?thesis by (simp add: dom_map_of_conv_image_fst)
qed

lemma foldl_merge_arguments:
  "tc_arguments (foldl merge_part tc ps)
     = tc_arguments tc @ concat (map (\<lambda>p. case tp_arguments p of Some s \<Rightarrow> s | None \<Rightarrow> []) ps)"
  by (induction ps arbitrary: tc) (auto simp: merge_part_def)

section \<open>Properties\<close>

text \<open>Every event type survives the wire: parsing its routing topic gives the event back.\<close>

theorem from_topic_roundtrip: "from_topic (topic ev) = Inr ev"
  by (rule from_topic_topic)

text \<open>The padded topics are a prefix code of fixed width: every event's topic frame has
  the frame size, two events never share a frame, and no event's frame is the batch marker.\<close>

theorem topic_frames:
  "length (topic_bytes_padded ev) = TOPIC_FRAME_SIZE
   \<and> (topic_bytes_padded ev = topic_bytes_padded ev' \<longleftrightarrow> ev = ev')
   \<and> topic_bytes_padded ev \<noteq> BATCH_TOPIC"
proof -
  have "topic ev = topic ev'" if "topic_bytes_padded ev = topic_bytes_padded ev'"
    using that ljust_inj [OF topic_no_nul topic_no_nul] by (simp add: topic_bytes_padded_def)
  then have "ev = ev'" if "topic_bytes_padded ev = topic_bytes_padded ev'"
    using that from_topic_topic by (metis Inr_inject)
  then show ?thesis by (auto simp: topic_padded_length topic_padded_not_batch)
qed

text \<open>The two derived views of the output after the first chunk agree: the text view is the
  reasoning tail, then the content, then the JSON of the remaining tool calls of the
  message-parts view, and without tool calls the replay parser computes the same text.\<close>

theorem after_first_chunk_views_agree:
  "(case as_message_parts_after_first_chunk o' of (content, reasoning, tc) \<Rightarrow>
      text_after_first_chunk enc o' =
        (case reasoning of None \<Rightarrow> [] | Some r \<Rightarrow> r) @ content
        @ (if merged_truthy tc then enc (the tc) else []))
   \<and> text_after_first_chunk enc (o'\<lparr>to_tool_calls := None\<rparr>)
       = replay_text_after_first_chunk (to_output o') (to_reasoning o')"
proof -
  have tl_ne: "tl cs \<noteq> []" if "length cs > 1" for cs :: "string list"
    using that by (cases cs) auto
  show ?thesis
    unfolding text_after_first_chunk_def as_message_parts_after_first_chunk_def
      replay_text_after_first_chunk_def opt_truthy_def tool_calls_after_first_def Let_def
    by (cases "to_reasoning o'"; cases "to_output o'")
       (auto split: output_elem.splits simp: tl_ne)
qed

text \<open>Merging streamed tool calls does not depend on how the stream was cut into chunks:
  the result is one call per tool-call index, in index order, each the fold of the fragments of
  that index in arrival order, so its arguments are the concatenation of their arguments.\<close>

theorem merge_chunks_reference:
  "merge_chunks chunks =
     map (\<lambda>i. foldl merge_part new_call (parts_at i (concat chunks)))
       (sorted_list_of_set (part_index ` set (concat chunks)))
   \<and> map tc_arguments (merge_chunks chunks) =
     map (\<lambda>i. concat (map (\<lambda>p. case tp_arguments p of Some s \<Rightarrow> s | None \<Rightarrow> [])
                 (parts_at i (concat chunks))))
       (sorted_list_of_set (part_index ` set (concat chunks)))"
proof -
  let ?ps = "concat chunks"
  let ?m = "foldl merge_step [] ?ps"
  have "sort (map fst ?m) = sorted_list_of_set (fst ` set ?m)"
    using merge_steps_wf [of ?ps]
    by (simp add: dict_wf_def sorted_list_of_set_sort_remdups distinct_remdups_id
        flip: set_map)
  then have "merge_chunks chunks =
      map (\<lambda>i. the (map_of ?m i)) (sorted_list_of_set (part_index ` set ?ps))"
    by (simp add: merge_chunks_def foldl_foldl_concat Let_def merge_steps_keys)
  also have "\<dots> = map (\<lambda>i. foldl merge_part new_call (parts_at i ?ps))
      (sorted_list_of_set (part_index ` set ?ps))"
    by (rule map_cong) (auto simp: merge_steps_lookup)
  finally show ?thesis
    by (simp add: foldl_merge_arguments new_call_def comp_def)
qed

end
