(* ===== verification/RuntimeSettings.thy ===== *)
theory RuntimeSettings
  imports CoreTypes
begin

text \<open>
  \<open>config/runtime_settings.py\<close>, the load-pattern part of \<open>config/schema.py\<close>, \<open>metrics/metric.py\<close>
  and \<open>load_generator/delay.py\<close>: the immutable settings of a phase, how many samples a phase is
  meant to issue, and the inter-arrival delays of a Poisson load.  Floats are exact rationals.
  The random generator is the stream of integers it draws: \<open>randbelow\<close> reads the next one,
  reduced into range, so every sequence of legal draws is a stream.
\<close>

section \<open>Random generators\<close>

record rng =
  draws :: "nat \<Rightarrow> nat"
  pos :: nat

definition randbelow :: "nat \<Rightarrow> rng \<Rightarrow> nat \<times> rng" where
  "randbelow n r = (draws r (pos r) mod n, r\<lparr>pos := Suc (pos r)\<rparr>)"

lemma randbelow_less: "0 < n \<Longrightarrow> fst (randbelow n r) < n"
  by (simp add: randbelow_def)

section \<open>Target metrics\<close>

datatype metric = Throughput rat | QueryLatency rat | TTFT rat | TPOT rat

fun metric_target_value :: "metric \<Rightarrow> rat" where
  "metric_target_value (Throughput t) = t"
| "metric_target_value (QueryLatency t) = t"
| "metric_target_value (TTFT t) = t"
| "metric_target_value (TPOT t) = t"

definition isclose :: "rat \<Rightarrow> rat \<Rightarrow> rat \<Rightarrow> bool" where
  "isclose rel_tol a b = (\<bar>a - b\<bar> \<le> rel_tol * max \<bar>a\<bar> \<bar>b\<bar>)"

definition REL_TOL :: rat where "REL_TOL = 1 / 10"

fun metric_is_valid :: "metric \<Rightarrow> rat \<Rightarrow> bool" where
  "metric_is_valid (Throughput t) m = isclose REL_TOL m t"
| "metric_is_valid (QueryLatency t) m = isclose REL_TOL m t"
| "metric_is_valid (TTFT t) m = (m \<le> t)"
| "metric_is_valid (TPOT t) m = (m \<le> t)"

text \<open>\<open>QueryLatency.__init__\<close>: a truthy \<open>target_qps\<close> wins over the latency.\<close>

definition mk_query_latency :: "rat option \<Rightarrow> rat option \<Rightarrow> metric result" where
  "mk_query_latency target_latency_ms target_qps =
     (case target_qps of
        Some q \<Rightarrow> (if q \<noteq> 0 then Inr (QueryLatency (1000 / q))
                   else (case target_latency_ms of None \<Rightarrow> Inl AssertionError
                         | Some l \<Rightarrow> Inr (QueryLatency l)))
      | None \<Rightarrow> (case target_latency_ms of None \<Rightarrow> Inl AssertionError
                 | Some l \<Rightarrow> Inr (QueryLatency l)))"

section \<open>Load patterns\<close>

datatype load_pattern_type =
    MAX_THROUGHPUT | POISSON | CONCURRENCY | AGENTIC_INFERENCE | BURST | STEP

record load_pattern =
  lp_type :: load_pattern_type
  lp_target_qps :: "rat option"
  lp_target_concurrency :: "int option"

text \<open>
  \<open>LoadPattern\<close>'s own checks: the two \<open>gt=0\<close> field bounds, then \<open>_validate_completeness\<close>.
\<close>

definition validate_load_pattern :: "load_pattern \<Rightarrow> load_pattern result" where
  "validate_load_pattern lp =
     (if (case lp_target_qps lp of Some q \<Rightarrow> q \<le> 0 | None \<Rightarrow> False) then Inl ValueError
      else if (case lp_target_concurrency lp of Some c \<Rightarrow> c \<le> 0 | None \<Rightarrow> False) then Inl ValueError
      else if lp_type lp = POISSON
              \<and> (case lp_target_qps lp of None \<Rightarrow> True | Some q \<Rightarrow> q \<le> 0) then Inl ValueError
      else if lp_type lp = CONCURRENCY
              \<and> (case lp_target_concurrency lp of None \<Rightarrow> True | Some c \<Rightarrow> c = 0 \<or> c \<le> 0)
           then Inl ValueError
      else if lp_type lp = AGENTIC_INFERENCE
              \<and> (case lp_target_concurrency lp of None \<Rightarrow> True | Some c \<Rightarrow> c = 0 \<or> c \<le> 0)
           then Inl ValueError
      else Inr lp)"

section \<open>Runtime settings\<close>

datatype sample_order_kind = WITHOUT_REPLACEMENT | WITH_REPLACEMENT | SINGLE

record sample_order_spec =
  so_kind :: sample_order_kind
  so_fixed_index :: "int option"

definition spec_without_replacement :: sample_order_spec where
  "spec_without_replacement = \<lparr>so_kind = WITHOUT_REPLACEMENT, so_fixed_index = None\<rparr>"

definition spec_with_replacement :: sample_order_spec where
  "spec_with_replacement = \<lparr>so_kind = WITH_REPLACEMENT, so_fixed_index = None\<rparr>"

definition spec_single :: "int \<Rightarrow> sample_order_spec" where
  "spec_single i = \<lparr>so_kind = SINGLE, so_fixed_index = Some i\<rparr>"

record runtime_settings =
  metric_target :: "metric option"
  reported_metrics :: "metric list"
  max_issue_duration_ms :: "int option"
  n_samples_from_dataset :: int
  n_samples_to_issue :: "int option"
  min_sample_count :: int
  rng_sched :: rng
  rng_sample_index :: rng
  load_pattern :: "load_pattern option"
  min_issue_duration_ms :: "int option"
  sample_order :: sample_order_spec

record runtime_config =
  rc_min_issue_duration_ms :: "int option"
  rc_max_issue_duration_ms :: "int option"
  rc_n_samples_to_issue :: "int option"
  rc_scheduler_rng :: rng
  rc_dataloader_rng :: rng
  rc_load_pattern :: load_pattern

text \<open>
  \<open>_from_config_default\<close>.  The two seeds stand for the generators they seed; the keyword
  overrides are a function on the settings built so far.
\<close>

definition from_config_default ::
    "runtime_config \<Rightarrow> int \<Rightarrow> (runtime_settings \<Rightarrow> runtime_settings) \<Rightarrow> runtime_settings" where
  "from_config_default c dataloader_num_samples overrides =
     (let qps = lp_target_qps (rc_load_pattern c)
      in overrides
        \<lparr>metric_target = map_option Throughput qps,
         reported_metrics = (case qps of None \<Rightarrow> [] | Some q \<Rightarrow> [Throughput q]),
         max_issue_duration_ms = rc_max_issue_duration_ms c,
         n_samples_from_dataset = dataloader_num_samples,
         n_samples_to_issue = rc_n_samples_to_issue c,
         min_sample_count = 1,
         rng_sched = rc_scheduler_rng c,
         rng_sample_index = rc_dataloader_rng c,
         load_pattern = Some (rc_load_pattern c),
         min_issue_duration_ms = rc_min_issue_duration_ms c,
         sample_order = spec_without_replacement\<rparr>)"

definition is_agentic :: "runtime_settings \<Rightarrow> bool" where
  "is_agentic s = (case load_pattern s of Some lp \<Rightarrow> lp_type lp = AGENTIC_INFERENCE | None \<Rightarrow> False)"

text \<open>\<open>if not self.min_issue_duration_ms\<close>: absent and zero both mean one pass.\<close>

definition no_min_duration :: "runtime_settings \<Rightarrow> bool" where
  "no_min_duration s = (case min_issue_duration_ms s of None \<Rightarrow> True | Some d \<Rightarrow> d = 0)"

definition expected_samples :: "metric \<Rightarrow> int \<Rightarrow> rat result" where
  "expected_samples m dur = (case m of
       Throughput t \<Rightarrow> Inr (t * (of_int dur / 1000))
     | QueryLatency t \<Rightarrow> (if t = 0 then Inl ZeroDivisionError else Inr (of_int dur / t))
     | _ \<Rightarrow> Inl NotImplementedError)"

definition align_up :: "int \<Rightarrow> int \<Rightarrow> int" where
  "align_up n result = (if n > 0 \<and> result mod n \<noteq> 0 then result + (n - result mod n) else result)"

definition total_samples_to_issue :: "rat \<Rightarrow> bool \<Rightarrow> runtime_settings \<Rightarrow> int result" where
  "total_samples_to_issue padding_factor align s =
     (case n_samples_to_issue s of
        Some n \<Rightarrow> Inr n
      | None \<Rightarrow>
          if is_agentic s then Inr (n_samples_from_dataset s)
          else if no_min_duration s then Inr (max (min_sample_count s) (n_samples_from_dataset s))
          else (case metric_target s of
              None \<Rightarrow> Inl ValueError
            | Some m \<Rightarrow>
                (case expected_samples m (the (min_issue_duration_ms s)) of
                   Inl e \<Rightarrow> Inl e
                 | Inr q \<Rightarrow>
                     (let result = max (min_sample_count s) \<lceil>q * padding_factor\<rceil>
                      in Inr (if align then align_up (n_samples_from_dataset s) result else result)))))"

definition default_padding :: rat where "default_padding = 11 / 10"

section \<open>Inter-arrival delays\<close>

text \<open>
  \<open>expovariate\<close> is a standard-library draw: \<open>expo r lambd\<close> gives the drawn value and the
  generator after it.  \<open>int()\<close> truncates towards zero.
\<close>

definition trunc :: "rat \<Rightarrow> int" where
  "trunc q = (if q \<ge> 0 then \<lfloor>q\<rfloor> else \<lceil>q\<rceil>)"

definition poisson_delay :: "(rng \<Rightarrow> rat \<Rightarrow> rat \<times> rng) \<Rightarrow> rat \<Rightarrow> rng \<Rightarrow> int \<times> rng" where
  "poisson_delay expo target_qps r =
     (let (v, r') = expo r (target_qps / 1000000000) in (max 1 (trunc v), r'))"

definition poisson_delay_fn ::
    "(rng \<Rightarrow> rat \<Rightarrow> rat \<times> rng) \<Rightarrow> rat \<Rightarrow> (rng \<Rightarrow> int \<times> rng) result" where
  "poisson_delay_fn expo target_qps =
     (if target_qps \<le> 0 then Inl ValueError else Inr (poisson_delay expo target_qps))"

definition make_delay_fn ::
    "(rng \<Rightarrow> rat \<Rightarrow> rat \<times> rng) \<Rightarrow> load_pattern \<Rightarrow> (rng \<Rightarrow> int \<times> rng) result" where
  "make_delay_fn expo lp =
     (if lp_type lp = POISSON then
        (case lp_target_qps lp of
           None \<Rightarrow> Inl ValueError
         | Some q \<Rightarrow> (if q \<le> 0 then Inl ValueError else poisson_delay_fn expo q))
      else Inl ValueError)"

section \<open>Facts\<close>

lemma align_up_bounds:
  assumes "n > 0"
  shows "result \<le> align_up n result" and "align_up n result < result + n"
    and "n dvd align_up n result"
proof -
  have mod: "0 \<le> result mod n" "result mod n < n" using assms by simp_all
  show "result \<le> align_up n result" "align_up n result < result + n"
    using mod unfolding align_up_def by (cases "result mod n = 0"; simp; linarith)+
  have "n dvd (result - result mod n) + n" by (intro dvd_add dvd_minus_mod dvd_refl)
  moreover have "(result - result mod n) + n = result + (n - result mod n)" by simp
  ultimately have "n dvd result + (n - result mod n)" by simp
  then show "n dvd align_up n result"
    using assms by (auto simp: align_up_def mod_0_imp_dvd)
qed

lemma align_up_least:
  assumes "n > 0" "result \<le> m" "n dvd m"
  shows "align_up n result \<le> m"
proof (rule ccontr)
  assume "\<not> align_up n result \<le> m"
  then have "0 < align_up n result - m" "align_up n result - m < n"
    using align_up_bounds(2) [OF assms(1), of result] assms(2) by linarith+
  moreover have "n dvd align_up n result - m"
    using align_up_bounds(3) [OF assms(1)] assms(3) by (rule dvd_diff)
  ultimately show False using zdvd_imp_le by fastforce
qed

section \<open>Properties\<close>

text \<open>A duration-driven phase issues the least multiple of the dataset size that covers both
  the minimum sample count and the padded expected count, so the excess is under one pass.\<close>

theorem total_samples_least_multiple:
  assumes "n_samples_to_issue s = None" "\<not> is_agentic s" "\<not> no_min_duration s"
    and "metric_target s = Some m" "expected_samples m (the (min_issue_duration_ms s)) = Inr q"
    and "0 < n_samples_from_dataset s"
  shows "\<exists>n. total_samples_to_issue pad True s = Inr n
     \<and> n_samples_from_dataset s dvd n \<and> min_sample_count s \<le> n \<and> q * pad \<le> of_int n
     \<and> (\<forall>k. n_samples_from_dataset s dvd k \<longrightarrow> min_sample_count s \<le> k \<longrightarrow> q * pad \<le> of_int k \<longrightarrow> n \<le> k)"
proof -
  let ?d = "n_samples_from_dataset s"
  let ?r = "max (min_sample_count s) \<lceil>q * pad\<rceil>"
  have eq: "total_samples_to_issue pad True s = Inr (align_up ?d ?r)"
    using assms by (simp add: total_samples_to_issue_def Let_def)
  have "?r \<le> align_up ?d ?r" "?d dvd align_up ?d ?r"
    using align_up_bounds(1,3) [OF assms(6)] by blast+
  then have low: "min_sample_count s \<le> align_up ?d ?r" "\<lceil>q * pad\<rceil> \<le> align_up ?d ?r" by linarith+
  have "align_up ?d ?r \<le> k" if "?d dvd k" "min_sample_count s \<le> k" "q * pad \<le> of_int k" for k
    using that by (intro align_up_least [OF assms(6)]) (auto simp: ceiling_le_iff)
  moreover have "q * pad \<le> of_int (align_up ?d ?r)"
    using low(2) by (simp add: ceiling_le_iff)
  ultimately show ?thesis using eq low(1) \<open>?d dvd align_up ?d ?r\<close> by blast
qed

definition example_settings :: runtime_settings where
  "example_settings =
     \<lparr>metric_target = Some (Throughput 100), reported_metrics = [],
      max_issue_duration_ms = None, n_samples_from_dataset = 1000, n_samples_to_issue = None,
      min_sample_count = 1, rng_sched = \<lparr>draws = (\<lambda>_. 0), pos = 0\<rparr>,
      rng_sample_index = \<lparr>draws = (\<lambda>_. 0), pos = 0\<rparr>, load_pattern = None,
      min_issue_duration_ms = Some 10500, sample_order = spec_without_replacement\<rparr>"

theorem total_samples_least_multiple_witness:
  "total_samples_to_issue default_padding True example_settings = Inr 2000
   \<and> (\<exists>n. total_samples_to_issue default_padding True example_settings = Inr n \<and> 1000 dvd n)"
proof -
  have "total_samples_to_issue default_padding True example_settings = Inr 2000"
    by (simp add: total_samples_to_issue_def example_settings_def is_agentic_def no_min_duration_def
        expected_samples_def default_padding_def align_up_def Let_def)
  moreover have "\<exists>n. total_samples_to_issue default_padding True example_settings = Inr n \<and> 1000 dvd n"
    using total_samples_least_multiple [of example_settings "Throughput 100" 1050 default_padding]
    by (auto simp: example_settings_def is_agentic_def no_min_duration_def expected_samples_def)
  ultimately show ?thesis by blast
qed

end
