(* ===== verification/SampleOrder.thy ===== *)
theory SampleOrder
  imports RuntimeSettings "HOL-Library.Multiset"
begin

text \<open>
  \<open>load_generator/sample_order.py\<close>: the four orders in which a phase walks its dataset.  An
  order is an infinite iterator, modelled as a state and a \<open>next\<close> function.  The shuffle is the
  standard library's: from the last position down, each element is swapped with one drawn at or
  below it.  The interface the rest of the load generator relies on (every index drawn is a
  dataset index, and the dataset size never changes) is the locale \<open>sample_source\<close>,
  interpreted on each order and on the dispatching \<open>order_next\<close>.
\<close>

section \<open>random.shuffle\<close>

definition swap_at :: "'a list \<Rightarrow> nat \<Rightarrow> nat \<Rightarrow> 'a list" where
  "swap_at xs i j = xs[i := xs ! j, j := xs ! i]"

fun shuffle_from :: "nat \<Rightarrow> 'a list \<Rightarrow> rng \<Rightarrow> 'a list \<times> rng" where
  "shuffle_from 0 xs r = (xs, r)"
| "shuffle_from (Suc i) xs r =
     (let (j, r') = randbelow (Suc (Suc i)) r in shuffle_from i (swap_at xs (Suc i) j) r')"

definition shuffle :: "'a list \<Rightarrow> rng \<Rightarrow> 'a list \<times> rng" where
  "shuffle xs r = shuffle_from (length xs - 1) xs r"

lemma mset_swap_at: "i < length xs \<Longrightarrow> j < length xs \<Longrightarrow> mset (swap_at xs i j) = mset xs"
  by (simp add: swap_at_def mset_swap)

lemma mset_shuffle_from: "i < length xs \<Longrightarrow> mset (fst (shuffle_from i xs r)) = mset xs"
proof (induction i arbitrary: xs r)
  case 0
  then show ?case by simp
next
  case (Suc i)
  obtain j r' where j: "randbelow (Suc (Suc i)) r = (j, r')" by force
  then have "j < Suc (Suc i)"
    by (metis fst_conv randbelow_less zero_less_Suc)
  then have "mset (swap_at xs (Suc i) j) = mset xs"
    using Suc.prems by (intro mset_swap_at) auto
  moreover have "i < length (swap_at xs (Suc i) j)"
    using Suc.prems by (simp add: swap_at_def)
  ultimately show ?case using Suc.IH j by simp
qed

lemma mset_shuffle [simp]: "mset (fst (shuffle xs r)) = mset xs"
  by (cases xs) (simp_all add: shuffle_def mset_shuffle_from)

lemma length_shuffle [simp]: "length (fst (shuffle xs r)) = length xs"
  by (metis mset_shuffle size_mset)

lemma set_shuffle [simp]: "set (fst (shuffle xs r)) = set xs"
  by (metis mset_shuffle set_mset_mset)

section \<open>The orders\<close>

record without_replacement =
  wr_n :: int
  wr_index_order :: "int list"
  wr_curr_idx :: nat
  wr_rng :: rng

definition range_list :: "int \<Rightarrow> int list" where
  "range_list n = map int [0..<nat n]"

definition without_replacement_init :: "int \<Rightarrow> rng \<Rightarrow> without_replacement result" where
  "without_replacement_init n r =
     (if n \<le> 0 then Inl ValueError
      else Inr \<lparr>wr_n = n, wr_index_order = range_list n, wr_curr_idx = nat n + 1, wr_rng = r\<rparr>)"

definition without_replacement_reset :: "without_replacement \<Rightarrow> without_replacement" where
  "without_replacement_reset s =
     (let (xs, r) = shuffle (wr_index_order s) (wr_rng s)
      in s\<lparr>wr_index_order := xs, wr_rng := r, wr_curr_idx := 0\<rparr>)"

definition without_replacement_next :: "without_replacement \<Rightarrow> int \<times> without_replacement" where
  "without_replacement_next s0 =
     (let s = (if wr_curr_idx s0 \<ge> length (wr_index_order s0) then without_replacement_reset s0 else s0)
      in (wr_index_order s ! wr_curr_idx s, s\<lparr>wr_curr_idx := wr_curr_idx s + 1\<rparr>))"

record sequential =
  sq_n :: int
  sq_curr_idx :: int

definition sequential_init :: "int \<Rightarrow> sequential result" where
  "sequential_init n = (if n \<le> 0 then Inl ValueError else Inr \<lparr>sq_n = n, sq_curr_idx = 0\<rparr>)"

definition sequential_next :: "sequential \<Rightarrow> int \<times> sequential" where
  "sequential_next s = (sq_curr_idx s, s\<lparr>sq_curr_idx := (sq_curr_idx s + 1) mod sq_n s\<rparr>)"

record with_replacement =
  rp_n :: int
  rp_rng :: rng

definition with_replacement_init :: "int \<Rightarrow> rng \<Rightarrow> with_replacement result" where
  "with_replacement_init n r = (if n \<le> 0 then Inl ValueError else Inr \<lparr>rp_n = n, rp_rng = r\<rparr>)"

text \<open>\<open>rng.randint(0, n - 1)\<close>.\<close>

definition with_replacement_next :: "with_replacement \<Rightarrow> int \<times> with_replacement" where
  "with_replacement_next s =
     (let (i, r) = randbelow (nat (rp_n s)) (rp_rng s) in (int i, s\<lparr>rp_rng := r\<rparr>))"

record single =
  sg_n :: int
  sg_sample_index :: int

definition single_init :: "int \<Rightarrow> int \<Rightarrow> single result" where
  "single_init sample_index n =
     (if n \<le> 0 then Inl ValueError
      else if \<not> (0 \<le> sample_index \<and> sample_index < n) then Inl ValueError
      else Inr \<lparr>sg_n = n, sg_sample_index = sample_index\<rparr>)"

definition single_next :: "single \<Rightarrow> int \<times> single" where
  "single_next s = (sg_sample_index s, s)"

datatype order =
    WithoutReplacement without_replacement | Sequential sequential
  | WithReplacement with_replacement | Single single

fun order_next :: "order \<Rightarrow> int \<times> order" where
  "order_next (WithoutReplacement s) = map_prod id WithoutReplacement (without_replacement_next s)"
| "order_next (Sequential s) = map_prod id Sequential (sequential_next s)"
| "order_next (WithReplacement s) = map_prod id WithReplacement (with_replacement_next s)"
| "order_next (Single s) = map_prod id Single (single_next s)"

definition create_sample_order :: "runtime_settings \<Rightarrow> bool \<Rightarrow> order result" where
  "create_sample_order st sequential' =
     (let n = n_samples_from_dataset st; r = rng_sample_index st; spec = sample_order st
      in if sequential' then map_sum id Sequential (sequential_init n)
         else if so_kind spec = SINGLE then
           (case so_fixed_index spec of
              None \<Rightarrow> Inl AssertionError
            | Some i \<Rightarrow> map_sum id Single (single_init i n))
         else if so_kind spec = WITH_REPLACEMENT then
           map_sum id WithReplacement (with_replacement_init n r)
         else map_sum id WithoutReplacement (without_replacement_init n r))"

section \<open>Drawing from an order\<close>

fun draw_many :: "('s \<Rightarrow> int \<times> 's) \<Rightarrow> nat \<Rightarrow> 's \<Rightarrow> int list \<times> 's" where
  "draw_many f 0 s = ([], s)"
| "draw_many f (Suc k) s =
     (let (i, s') = f s; (is', s'') = draw_many f k s' in (i # is', s''))"

lemma length_draw_many [simp]: "length (fst (draw_many f k s)) = k"
proof (induction k arbitrary: s)
  case 0
  then show ?case by simp
next
  case (Suc k)
  show ?case using Suc.IH [of "snd (f s)"] by (auto simp: Let_def split: prod.splits)
qed

lemma draw_many_add:
  "draw_many f (a + b) s =
     (let (xs, s') = draw_many f a s; (ys, s'') = draw_many f b s' in (xs @ ys, s''))"
  by (induction a arbitrary: s) (auto simp: Let_def split: prod.splits)

locale sample_source =
  fixes next_index :: "'s \<Rightarrow> int \<times> 's"
    and invar :: "'s \<Rightarrow> bool"
    and n_of :: "'s \<Rightarrow> int"
  assumes in_range: "invar s \<Longrightarrow> 0 \<le> fst (next_index s) \<and> fst (next_index s) < n_of s"
    and invar_next: "invar s \<Longrightarrow> invar (snd (next_index s))"
    and n_of_next: "invar s \<Longrightarrow> n_of (snd (next_index s)) = n_of s"
begin

lemma draws_in_range: "invar s \<Longrightarrow> set (fst (draw_many next_index k s)) \<subseteq> {0..<n_of s}"
proof (induction k arbitrary: s)
  case 0
  then show ?case by simp
next
  case (Suc k)
  obtain i s' where n: "next_index s = (i, s')" by force
  with Suc.prems have "invar s'" "n_of s' = n_of s" "0 \<le> i" "i < n_of s"
    using in_range [of s] invar_next [of s] n_of_next [of s] by auto
  with Suc.IH [of s'] n show ?case by (auto simp: Let_def split: prod.splits)
qed

lemma draws_invar: "invar s \<Longrightarrow> invar (snd (draw_many next_index k s))"
proof (induction k arbitrary: s)
  case 0
  then show ?case by simp
next
  case (Suc k)
  obtain i s' where n: "next_index s = (i, s')" by force
  with Suc.prems have "invar s'" using invar_next [of s] by auto
  with Suc.IH [of s'] n show ?case by (auto simp: Let_def split: prod.splits)
qed

end

section \<open>The invariants, and the interpretations\<close>

definition wr_inv :: "without_replacement \<Rightarrow> bool" where
  "wr_inv s = (0 < wr_n s \<and> mset (wr_index_order s) = mset (range_list (wr_n s)))"

definition sq_inv :: "sequential \<Rightarrow> bool" where
  "sq_inv s = (0 \<le> sq_curr_idx s \<and> sq_curr_idx s < sq_n s)"

definition rp_inv :: "with_replacement \<Rightarrow> bool" where
  "rp_inv s = (0 < rp_n s)"

definition sg_inv :: "single \<Rightarrow> bool" where
  "sg_inv s = (0 \<le> sg_sample_index s \<and> sg_sample_index s < sg_n s)"

fun order_inv :: "order \<Rightarrow> bool" where
  "order_inv (WithoutReplacement s) = wr_inv s"
| "order_inv (Sequential s) = sq_inv s"
| "order_inv (WithReplacement s) = rp_inv s"
| "order_inv (Single s) = sg_inv s"

fun order_size :: "order \<Rightarrow> int" where
  "order_size (WithoutReplacement s) = wr_n s"
| "order_size (Sequential s) = sq_n s"
| "order_size (WithReplacement s) = rp_n s"
| "order_size (Single s) = sg_n s"

lemma wr_inv_length: "wr_inv s \<Longrightarrow> length (wr_index_order s) = nat (wr_n s)"
  using size_mset [of "wr_index_order s"] by (simp add: wr_inv_def range_list_def flip: size_mset)

lemma wr_inv_set: "wr_inv s \<Longrightarrow> set (wr_index_order s) = {0..<wr_n s}"
proof -
  assume "wr_inv s"
  then have "set (wr_index_order s) = set (range_list (wr_n s))"
    unfolding wr_inv_def by (metis set_mset_mset)
  also have "\<dots> = {0..<wr_n s}"
    by (auto simp: range_list_def image_int_atLeastLessThan)
  finally show ?thesis .
qed

lemma wr_inv_reset: "wr_inv s \<Longrightarrow> wr_inv (without_replacement_reset s)"
  by (auto simp: wr_inv_def without_replacement_reset_def split: prod.splits)
     (metis fst_conv mset_shuffle)

lemma wr_reset_fields [simp]:
  "wr_n (without_replacement_reset s) = wr_n s" "wr_curr_idx (without_replacement_reset s) = 0"
  "length (wr_index_order (without_replacement_reset s)) = length (wr_index_order s)"
  by (auto simp: without_replacement_reset_def split: prod.splits) (metis fst_conv length_shuffle)

lemma wr_next_cases:
  assumes "wr_inv s"
  obtains s' where "wr_inv s'" "wr_n s' = wr_n s" "wr_curr_idx s' < length (wr_index_order s')"
    "without_replacement_next s
       = (wr_index_order s' ! wr_curr_idx s', s'\<lparr>wr_curr_idx := wr_curr_idx s' + 1\<rparr>)"
proof (cases "wr_curr_idx s \<ge> length (wr_index_order s)")
  case True
  have "0 < length (wr_index_order s)" using assms by (simp add: wr_inv_length) (simp add: wr_inv_def)
  with True show ?thesis
    using that [of "without_replacement_reset s"] wr_inv_reset [OF assms]
    by (simp add: without_replacement_next_def Let_def)
next
  case False
  with that [of s] assms show ?thesis by (simp add: without_replacement_next_def Let_def)
qed

interpretation wr: sample_source without_replacement_next wr_inv wr_n
proof unfold_locales
  fix s assume inv: "wr_inv s"
  obtain s' where s': "wr_inv s'" "wr_n s' = wr_n s" "wr_curr_idx s' < length (wr_index_order s')"
    "without_replacement_next s
       = (wr_index_order s' ! wr_curr_idx s', s'\<lparr>wr_curr_idx := wr_curr_idx s' + 1\<rparr>)"
    using wr_next_cases [OF inv] .
  from s'(3) have "wr_index_order s' ! wr_curr_idx s' \<in> {0..<wr_n s'}"
    using wr_inv_set [OF s'(1)] nth_mem by metis
  then show "0 \<le> fst (without_replacement_next s) \<and> fst (without_replacement_next s) < wr_n s"
    using s'(2,4) by simp
  show "wr_inv (snd (without_replacement_next s))" using s'(1,4) by (simp add: wr_inv_def)
  show "wr_n (snd (without_replacement_next s)) = wr_n s" using s'(2,4) by simp
qed

interpretation sq: sample_source sequential_next sq_inv sq_n
  by unfold_locales (auto simp: sequential_next_def sq_inv_def)

interpretation rp: sample_source with_replacement_next rp_inv rp_n
proof unfold_locales
  fix s assume "rp_inv s"
  then have "fst (randbelow (nat (rp_n s)) (rp_rng s)) < nat (rp_n s)"
    by (intro randbelow_less) (simp add: rp_inv_def)
  then show "0 \<le> fst (with_replacement_next s) \<and> fst (with_replacement_next s) < rp_n s"
    by (auto simp: with_replacement_next_def split: prod.splits)
qed (auto simp: with_replacement_next_def rp_inv_def split: prod.splits)

interpretation sg: sample_source single_next sg_inv sg_n
  by unfold_locales (auto simp: single_next_def sg_inv_def)

interpretation ord: sample_source order_next order_inv order_size
proof unfold_locales
  fix s assume inv: "order_inv s"
  show "0 \<le> fst (order_next s) \<and> fst (order_next s) < order_size s"
    using inv wr.in_range sq.in_range rp.in_range sg.in_range by (cases s) auto
  show "order_inv (snd (order_next s))"
    using inv wr.invar_next sq.invar_next rp.invar_next sg.invar_next by (cases s) auto
  show "order_size (snd (order_next s)) = order_size s"
    using inv wr.n_of_next sq.n_of_next rp.n_of_next sg.n_of_next by (cases s) auto
qed

lemma create_sample_order_inv:
  "create_sample_order st b = Inr s \<Longrightarrow> order_inv s \<and> order_size s = n_samples_from_dataset st"
  by (auto simp: create_sample_order_def Let_def sequential_init_def single_init_def
      with_replacement_init_def without_replacement_init_def wr_inv_def sq_inv_def rp_inv_def
      sg_inv_def split: if_splits option.splits)

section \<open>Blocks of a shuffled order\<close>

text \<open>Inside a block, drawing \<open>k\<close> more indices reads the next \<open>k\<close> entries of the current order.\<close>

lemma wr_draw_inside:
  assumes "wr_curr_idx s + k \<le> length (wr_index_order s)"
  shows "draw_many without_replacement_next k s
     = (take k (drop (wr_curr_idx s) (wr_index_order s)), s\<lparr>wr_curr_idx := wr_curr_idx s + k\<rparr>)"
  using assms
proof (induction k arbitrary: s)
  case 0
  then show ?case by simp
next
  case (Suc k)
  let ?s' = "s\<lparr>wr_curr_idx := wr_curr_idx s + 1\<rparr>"
  have "without_replacement_next s = (wr_index_order s ! wr_curr_idx s, ?s')"
    using Suc.prems by (simp add: without_replacement_next_def Let_def)
  moreover have "draw_many without_replacement_next k ?s'
      = (take k (drop (wr_curr_idx s + 1) (wr_index_order s)), ?s'\<lparr>wr_curr_idx := wr_curr_idx s + 1 + k\<rparr>)"
    using Suc.IH [of ?s'] Suc.prems by simp
  moreover have "take (Suc k) (drop (wr_curr_idx s) (wr_index_order s))
      = wr_index_order s ! wr_curr_idx s # take k (drop (wr_curr_idx s + 1) (wr_index_order s))"
    using Suc.prems by (simp add: Cons_nth_drop_Suc [symmetric])
  ultimately show ?case by simp
qed

definition wr_boundary :: "without_replacement \<Rightarrow> bool" where
  "wr_boundary s = (wr_inv s \<and> length (wr_index_order s) \<le> wr_curr_idx s)"

lemma wr_next_at_boundary:
  "wr_boundary s \<Longrightarrow> without_replacement_next s = without_replacement_next (without_replacement_reset s)"
  using wr_inv_length [of s]
  by (auto simp: wr_boundary_def wr_inv_def without_replacement_next_def Let_def)

lemma wr_block:
  assumes "wr_boundary s"
  shows "mset (fst (draw_many without_replacement_next (nat (wr_n s)) s)) = mset (range_list (wr_n s))"
    and "wr_boundary (snd (draw_many without_replacement_next (nat (wr_n s)) s))"
    and "wr_n (snd (draw_many without_replacement_next (nat (wr_n s)) s)) = wr_n s"
proof -
  let ?r = "without_replacement_reset s"
  have inv: "wr_inv s" using assms by (simp add: wr_boundary_def)
  then obtain k where k: "nat (wr_n s) = Suc k" by (cases "nat (wr_n s)") (auto simp: wr_inv_def)
  have eq: "draw_many without_replacement_next (nat (wr_n s)) s
      = draw_many without_replacement_next (nat (wr_n s)) ?r"
    using wr_next_at_boundary [OF assms] by (simp add: k)
  also have "\<dots> = (wr_index_order ?r, ?r\<lparr>wr_curr_idx := nat (wr_n s)\<rparr>)"
    using wr_draw_inside [of ?r "nat (wr_n s)"] wr_inv_length [OF inv] by simp
  finally have eq': "draw_many without_replacement_next (nat (wr_n s)) s
      = (wr_index_order ?r, ?r\<lparr>wr_curr_idx := nat (wr_n s)\<rparr>)" .
  show "mset (fst (draw_many without_replacement_next (nat (wr_n s)) s)) = mset (range_list (wr_n s))"
    using wr_inv_reset [OF inv] by (simp add: eq' wr_inv_def)
  show "wr_boundary (snd (draw_many without_replacement_next (nat (wr_n s)) s))"
    using wr_inv_reset [OF inv] wr_inv_length [OF inv] by (simp add: eq' wr_boundary_def wr_inv_def)
  show "wr_n (snd (draw_many without_replacement_next (nat (wr_n s)) s)) = wr_n s"
    by (simp add: eq')
qed

lemma wr_blocks:
  assumes "wr_boundary s" and "i < k"
  shows "mset (take (nat (wr_n s)) (drop (i * nat (wr_n s))
           (fst (draw_many without_replacement_next (k * nat (wr_n s)) s)))) = mset (range_list (wr_n s))"
  using assms
proof (induction k arbitrary: s i)
  case 0
  then show ?case by simp
next
  case (Suc k)
  let ?n = "nat (wr_n s)"
  obtain xs s1 where d1: "draw_many without_replacement_next ?n s = (xs, s1)" by force
  have xs: "mset xs = mset (range_list (wr_n s))" "wr_boundary s1" "wr_n s1 = wr_n s"
    using wr_block [OF Suc.prems(1)] by (simp_all add: d1)
  have len: "length xs = ?n" using length_draw_many [of without_replacement_next ?n s] by (simp add: d1)
  obtain ys s2 where d2: "draw_many without_replacement_next (k * ?n) s1 = (ys, s2)" by force
  have "fst (draw_many without_replacement_next (Suc k * ?n) s) = xs @ ys"
    using draw_many_add [of without_replacement_next ?n "k * ?n" s] by (simp add: d1 d2)
  moreover have "mset (take ?n (drop (i' * ?n) ys)) = mset (range_list (wr_n s))" if "i' < k" for i'
    using Suc.IH [of s1 i'] xs that by (simp add: d2)
  ultimately show ?case
    using Suc.prems(2) xs(1) len by (cases i) simp_all
qed

lemma wr_init_boundary: "without_replacement_init n r = Inr s \<Longrightarrow> wr_boundary s \<and> wr_n s = n"
  by (auto simp: without_replacement_init_def wr_boundary_def wr_inv_def range_list_def split: if_splits)

lemma sequential_draws:
  assumes "sq_inv s"
  shows "draw_many sequential_next k s
     = (map (\<lambda>i. (sq_curr_idx s + int i) mod sq_n s) [0..<k],
        s\<lparr>sq_curr_idx := (sq_curr_idx s + int k) mod sq_n s\<rparr>)"
  using assms
proof (induction k arbitrary: s)
  case 0
  then show ?case by (simp add: sq_inv_def)
next
  case (Suc k)
  let ?s = "s\<lparr>sq_curr_idx := (sq_curr_idx s + 1) mod sq_n s\<rparr>"
  have "sq_inv ?s" using Suc.prems by (auto simp: sq_inv_def)
  moreover have "(sq_curr_idx s + (1 + int i)) mod sq_n s = (sq_curr_idx ?s + int i) mod sq_n s" for i
    by (simp add: mod_simps ac_simps)
  moreover have "[0..<Suc k] = 0 # map Suc [0..<k]" by (simp add: map_Suc_upt upt_conv_Cons)
  ultimately show ?case
    using Suc.IH [of ?s] Suc.prems
    by (simp add: sequential_next_def sq_inv_def comp_def ac_simps)
qed

section \<open>Properties\<close>

text \<open>Whatever order the settings select, every index a phase draws from it is an index of
  the dataset.\<close>

theorem created_order_in_range:
  assumes "create_sample_order st sequential' = Inr s"
  shows "set (fst (draw_many order_next k s)) \<subseteq> {0..<n_samples_from_dataset st}"
  using ord.draws_in_range [of s k] create_sample_order_inv [OF assms] by simp

theorem created_order_in_range_witness:
  "\<exists>s. create_sample_order example_settings False = Inr s
     \<and> set (fst (draw_many order_next 5 s)) \<subseteq> {0..<1000}"
proof -
  have "\<exists>s. create_sample_order example_settings False = Inr s"
    by (simp add: create_sample_order_def example_settings_def spec_without_replacement_def
        without_replacement_init_def)
  then show ?thesis using created_order_in_range
    by (metis (no_types, lifting) example_settings_def runtime_settings.select_convs(4))
qed

text \<open>C3.  The shuffled order covers the dataset: cutting the draws of a fresh order into blocks
  of the dataset size, every block is a permutation of the indices.\<close>

theorem shuffled_blocks_are_permutations:
  assumes "without_replacement_init n r = Inr s" and "i < k"
  shows "mset (take (nat n) (drop (i * nat n) (fst (draw_many without_replacement_next (k * nat n) s))))
     = mset (range_list n)"
  using wr_blocks [of s i k] wr_init_boundary [OF assms(1)] assms(2) by simp

theorem shuffled_blocks_are_permutations_witness:
  "\<exists>s. without_replacement_init 3 \<lparr>draws = (\<lambda>i. i * i + 1), pos = 0\<rparr> = Inr s
     \<and> mset (take 3 (drop 3 (fst (draw_many without_replacement_next 6 s)))) = {#0, 1, 2#}"
proof -
  obtain s where s: "without_replacement_init 3 \<lparr>draws = (\<lambda>i. i * i + 1), pos = 0\<rparr> = Inr s"
    by (simp add: without_replacement_init_def)
  have n: "nat 3 = (3::nat)" "1 * nat 3 = (3::nat)" "2 * nat 3 = (6::nat)" by simp_all
  have r: "mset (range_list 3) = {#0, 1, 2#}"
    by (simp add: range_list_def upt_rec)
  have "mset (take 3 (drop 3 (fst (draw_many without_replacement_next 6 s)))) = {#0, 1, 2#}"
    using shuffled_blocks_are_permutations [OF s, of 1 2] unfolding n r by simp
  then show ?thesis using s by blast
qed

text \<open>The sequential order (accuracy phases) is the dataset in order, over and over: the
  \<open>i\<close>-th index drawn is \<open>i\<close> modulo the dataset size.\<close>

theorem sequential_order_cycles:
  assumes "sequential_init n = Inr s" and "i < k"
  shows "fst (draw_many sequential_next k s) ! i = int i mod n"
proof -
  have "sq_inv s" "sq_n s = n" "sq_curr_idx s = 0"
    using assms(1) by (auto simp: sequential_init_def sq_inv_def split: if_splits)
  then show ?thesis using sequential_draws [of s k] assms(2) by simp
qed

theorem sequential_order_cycles_witness:
  "sequential_init 3 = Inr \<lparr>sq_n = 3, sq_curr_idx = 0\<rparr>
   \<and> fst (draw_many sequential_next 8 \<lparr>sq_n = 3, sq_curr_idx = 0\<rparr>) ! 7 = 1"
proof -
  have i: "sequential_init 3 = Inr \<lparr>sq_n = 3, sq_curr_idx = 0\<rparr>" by (simp add: sequential_init_def)
  show ?thesis using i sequential_order_cycles [OF i, of 7 8] by simp
qed

end
