(* ===== verification/Datasets.thy ===== *)
theory Datasets
  imports SampleOrder
begin

text \<open>
  The in-memory part of \<open>dataset_manager/dataset.py\<close>: random access to the loaded samples, the
  check that every sample can be salted, and the salted view a warmup phase uses to defeat the
  endpoint's prefix cache.  \<open>random.randbytes(8)\<close> is eight draws below 256.
\<close>

section \<open>State\<close>

record dataset =
  ds_data :: "pyval list option"
  ds_salt_rng :: "rng option"

datatype unsaltable =
    TYPE_MISMATCH | INPUT_TOKENS_SHADOWING | MESSAGES_SHADOWING | PROMPT_MISSING
  | PROMPT_LIST_UNSUPPORTED | PROMPT_TYPE_MISMATCH

definition has_key :: "pydict \<Rightarrow> string \<Rightarrow> bool" where
  "has_key d k = (map_of d k \<noteq> None)"

fun check_unsaltable :: "pyval \<Rightarrow> unsaltable option" where
  "check_unsaltable (PDict d) =
     (if has_key d ''input_tokens'' then Some INPUT_TOKENS_SHADOWING
      else if has_key d ''messages'' then Some MESSAGES_SHADOWING
      else if \<not> has_key d ''prompt'' then Some PROMPT_MISSING
      else if is_list (dget d ''prompt'') then Some PROMPT_LIST_UNSUPPORTED
      else if \<not> is_str (dget d ''prompt'') then Some PROMPT_TYPE_MISMATCH
      else None)"
| "check_unsaltable _ = Some TYPE_MISMATCH"

section \<open>Operations\<close>

text \<open>\<open>validate_saltable\<close> names the first offending sample and its reason.\<close>

fun first_unsaltable :: "nat \<Rightarrow> pyval list \<Rightarrow> (nat \<times> unsaltable) option" where
  "first_unsaltable i [] = None"
| "first_unsaltable i (s # ss) =
     (case check_unsaltable s of Some reason \<Rightarrow> Some (i, reason) | None \<Rightarrow> first_unsaltable (Suc i) ss)"

datatype salt_error = NotLoaded | Unsaltable nat unsaltable

definition validate_saltable :: "dataset \<Rightarrow> salt_error + unit" where
  "validate_saltable ds = (case ds_data ds of
       None \<Rightarrow> Inl NotLoaded
     | Some xs \<Rightarrow> (case first_unsaltable 0 xs of
           Some (i, reason) \<Rightarrow> Inl (Unsaltable i reason)
         | None \<Rightarrow> Inr ()))"

definition with_salt :: "dataset \<Rightarrow> rng \<Rightarrow> salt_error + dataset" where
  "with_salt ds r = (case validate_saltable ds of
       Inl e \<Rightarrow> Inl e
     | Inr _ \<Rightarrow> Inr (ds\<lparr>ds_salt_rng := Some r\<rparr>))"

definition hex_digit :: "nat \<Rightarrow> char" where
  "hex_digit n = ''0123456789abcdef'' ! n"

definition hex_byte :: "nat \<Rightarrow> string" where
  "hex_byte b = [hex_digit (b div 16), hex_digit (b mod 16)]"

fun randbytes :: "nat \<Rightarrow> rng \<Rightarrow> nat list \<times> rng" where
  "randbytes 0 r = ([], r)"
| "randbytes (Suc k) r =
     (let (b, r1) = randbelow 256 r; (bs, r2) = randbytes k r1 in (b # bs, r2))"

text \<open>\<open>_apply_salt\<close>; \<open>data['prompt']\<close> of a missing key raises, and so does a non-dict.  The
  f-string of a prompt that is not a string (excluded by the check) is not rendered here.\<close>

definition salted_prompt :: "nat list \<Rightarrow> string \<Rightarrow> string" where
  "salted_prompt bs p = ''['' @ concat (map hex_byte bs) @ ''] '' @ p"

definition apply_salt :: "rng \<Rightarrow> pyval \<Rightarrow> pyval result \<times> rng" where
  "apply_salt r data =
     (let (bs, r') = randbytes 8 r
      in (case data of
            PDict d \<Rightarrow>
              (case dget d ''prompt'' of
                 PStr p \<Rightarrow> Inr (PDict (dmerge d [(''prompt'', PStr (salted_prompt bs p))]))
               | PNone \<Rightarrow> Inl KeyError
               | _ \<Rightarrow> Inl TypeError)
          | _ \<Rightarrow> Inl TypeError, r'))"

definition load_sample :: "dataset \<Rightarrow> int \<Rightarrow> pyval result \<times> dataset" where
  "load_sample ds index = (case ds_data ds of
       None \<Rightarrow> (Inl AssertionError, ds)
     | Some xs \<Rightarrow>
         (case list_get xs index of
            Inl e \<Rightarrow> (Inl e, ds)
          | Inr data \<Rightarrow>
              (case ds_salt_rng ds of
                 None \<Rightarrow> (Inr data, ds)
               | Some r \<Rightarrow>
                   (let (d, r') = apply_salt r data in (d, ds\<lparr>ds_salt_rng := Some r'\<rparr>)))))"

definition num_samples :: "dataset \<Rightarrow> int result" where
  "num_samples ds = (case ds_data ds of None \<Rightarrow> Inl AssertionError | Some xs \<Rightarrow> Inr (int (length xs)))"

section \<open>Facts\<close>

lemma first_unsaltable_None: "first_unsaltable i xs = None \<longleftrightarrow> (\<forall>x\<in>set xs. check_unsaltable x = None)"
  by (induction xs arbitrary: i) (auto split: option.splits)

lemma check_unsaltable_None:
  "check_unsaltable x = None \<longleftrightarrow>
     (\<exists>d p. x = PDict d \<and> dget d ''prompt'' = PStr p
        \<and> \<not> has_key d ''input_tokens'' \<and> \<not> has_key d ''messages'')"
proof (cases x)
  case (PDict d)
  have "has_key d ''prompt''" if "dget d ''prompt'' = PStr p" for p
    using that by (auto simp: dget_def has_key_def split: option.splits)
  moreover have "is_str v \<longleftrightarrow> (\<exists>p. v = PStr p)" for v by (cases v) (auto simp: is_str_def)
  moreover have "\<not> is_list (PStr p)" for p by (simp add: is_list_def)
  ultimately show ?thesis by (auto simp: PDict)
qed auto

lemma length_randbytes [simp]: "length (fst (randbytes k r)) = k"
  by (induction k arbitrary: r) (auto simp: Let_def split: prod.splits, metis fst_conv)

lemma randbytes_less: "b \<in> set (fst (randbytes k r)) \<Longrightarrow> b < 256"
proof (induction k arbitrary: r)
  case 0
  then show ?case by simp
next
  case (Suc k)
  obtain b1 r1 where b1: "randbelow 256 r = (b1, r1)" by force
  then have "b1 < 256" using randbelow_less [of 256 r] by simp
  with Suc b1 show ?case by (auto simp: Let_def split: prod.splits) (metis fst_conv)
qed

lemma hex_digit_inj: "m < 16 \<Longrightarrow> n < 16 \<Longrightarrow> hex_digit m = hex_digit n \<Longrightarrow> m = n"
proof -
  have d: "distinct ''0123456789abcdef''" by simp
  assume "m < 16" "n < 16" "hex_digit m = hex_digit n"
  then show "m = n" using nth_eq_iff_index_eq [OF d, of m n] by (simp add: hex_digit_def)
qed

lemma hex_byte_inj:
  assumes "a < 256" "b < 256" "hex_byte a = hex_byte b"
  shows "a = b"
proof -
  have "a div 16 = b div 16" "a mod 16 = b mod 16"
    using assms by (auto simp: hex_byte_def intro!: hex_digit_inj)
  then show ?thesis by (metis div_mult_mod_eq)
qed

lemma hex_bytes_inj:
  "length as = length bs \<Longrightarrow> \<forall>a\<in>set as. a < 256 \<Longrightarrow> \<forall>b\<in>set bs. b < 256 \<Longrightarrow>
     concat (map hex_byte as) @ xs = concat (map hex_byte bs) @ ys \<Longrightarrow> as = bs"
proof (induction as bs rule: list_induct2)
  case Nil
  then show ?case by simp
next
  case (Cons a as b bs)
  then have "hex_byte a = hex_byte b" by (simp add: hex_byte_def)
  with Cons have "a = b" by (auto intro: hex_byte_inj)
  with Cons show ?case by simp
qed

lemma load_sample_salted:
  assumes "with_salt ds r = Inr ds'" and "ds_data ds = Some xs" and "list_get xs i = Inr x"
  obtains d p where "x = PDict d" "dget d ''prompt'' = PStr p"
    "load_sample (ds'\<lparr>ds_salt_rng := Some r1\<rparr>) i =
       (Inr (PDict (dmerge d [(''prompt'', PStr (salted_prompt (fst (randbytes 8 r1)) p))])),
        ds'\<lparr>ds_salt_rng := Some (snd (randbytes 8 r1))\<rparr>)"
proof -
  have ds': "ds' = ds\<lparr>ds_salt_rng := Some r\<rparr>" and ok: "\<forall>x\<in>set xs. check_unsaltable x = None"
    using assms(1,2)
    by (auto simp: with_salt_def validate_saltable_def first_unsaltable_None
        split: option.splits prod.splits sum.splits)
  have "check_unsaltable x = None" using ok list_get_ok [OF assms(3)] by blast
  then obtain d p where "x = PDict d" "dget d ''prompt'' = PStr p"
    by (auto simp: check_unsaltable_None)
  then show thesis
    using that [of d p] assms(2,3)
    by (simp add: load_sample_def ds' apply_salt_def case_prod_unfold Let_def)
qed

section \<open>Properties\<close>

text \<open>A salted dataset never fails on a valid index: whatever state its generator is in, the
  sample loaded is the original one with only its prompt changed, to the bracketed 16-digit salt
  followed by the original prompt.\<close>

theorem salted_load_changes_only_prompt:
  assumes "with_salt ds r = Inr ds'" and "ds_data ds = Some xs" and "list_get xs i = Inr x"
  shows "\<exists>d p d'. x = PDict d \<and> map_of d ''prompt'' = Some (PStr p)
     \<and> fst (load_sample (ds'\<lparr>ds_salt_rng := Some r1\<rparr>) i) = Inr (PDict d')
     \<and> map_of d' = (map_of d)(''prompt'' \<mapsto> PStr (salted_prompt (fst (randbytes 8 r1)) p))
     \<and> length (salted_prompt (fst (randbytes 8 r1)) p) = 19 + length p"
proof -
  obtain d p where dp: "x = PDict d" "dget d ''prompt'' = PStr p"
    "load_sample (ds'\<lparr>ds_salt_rng := Some r1\<rparr>) i =
       (Inr (PDict (dmerge d [(''prompt'', PStr (salted_prompt (fst (randbytes 8 r1)) p))])),
        ds'\<lparr>ds_salt_rng := Some (snd (randbytes 8 r1))\<rparr>)"
    using load_sample_salted [OF assms] by blast
  have "map_of d ''prompt'' = Some (PStr p)"
    using dp(2) by (auto simp: dget_def split: option.splits)
  moreover have "length (concat (map hex_byte bs)) = 2 * length bs" for bs
    by (induction bs) (simp_all add: hex_byte_def)
  ultimately show ?thesis using dp(1,3)
    by (auto simp: map_of_dmerge salted_prompt_def fun_eq_iff map_add_def)
qed

theorem salted_load_changes_only_prompt_witness:
  "\<exists>d'. fst (load_sample \<lparr>ds_data = Some [PDict [(''prompt'', PStr ''hi''), (''id'', PInt 3)]],
        ds_salt_rng = Some \<lparr>draws = (\<lambda>i. 17 * i), pos = 0\<rparr>\<rparr> 0) = Inr (PDict d')
     \<and> map_of d' ''id'' = Some (PInt 3)"
proof -
  let ?r = "\<lparr>draws = (\<lambda>i. 17 * i), pos = 0\<rparr>"
  let ?ds = "\<lparr>ds_data = Some [PDict [(''prompt'', PStr ''hi''), (''id'', PInt 3)]], ds_salt_rng = None\<rparr>"
  have "with_salt ?ds ?r = Inr (?ds\<lparr>ds_salt_rng := Some ?r\<rparr>)"
    by (simp add: with_salt_def validate_saltable_def has_key_def dget_def is_list_def is_str_def)
  from salted_load_changes_only_prompt [OF this, of _ 0 _ ?r]
  show ?thesis by (force simp: list_get_def)
qed

text \<open>Distinct salts defeat prefix caching: two salted prompts drawn with different salt
  bytes differ, whatever the prompts are.\<close>

theorem distinct_salts_distinct_prompts:
  assumes "fst (randbytes 8 r1) \<noteq> fst (randbytes 8 r2)"
  shows "take 17 (salted_prompt (fst (randbytes 8 r1)) p) \<noteq> take 17 (salted_prompt (fst (randbytes 8 r2)) q)"
proof
  have len: "length (concat (map hex_byte bs)) = 2 * length bs" for bs
    by (induction bs) (simp_all add: hex_byte_def)
  assume "take 17 (salted_prompt (fst (randbytes 8 r1)) p) = take 17 (salted_prompt (fst (randbytes 8 r2)) q)"
  then have "concat (map hex_byte (fst (randbytes 8 r1))) = concat (map hex_byte (fst (randbytes 8 r2)))"
    by (simp add: salted_prompt_def len)
  then have "fst (randbytes 8 r1) = fst (randbytes 8 r2)"
    using hex_bytes_inj [of "fst (randbytes 8 r1)" "fst (randbytes 8 r2)" "[]" "[]"] randbytes_less
    by fastforce
  with assms show False by simp
qed

theorem distinct_salts_distinct_prompts_witness:
  "take 17 (salted_prompt (fst (randbytes 8 \<lparr>draws = (\<lambda>i. i), pos = 0\<rparr>)) ''a'')
     \<noteq> take 17 (salted_prompt (fst (randbytes 8 \<lparr>draws = (\<lambda>i. i), pos = 1\<rparr>)) ''a'')"
proof (rule distinct_salts_distinct_prompts)
  show "fst (randbytes 8 \<lparr>draws = (\<lambda>i. i), pos = 0\<rparr>) \<noteq> fst (randbytes 8 \<lparr>draws = (\<lambda>i. i), pos = 1\<rparr>)"
    by code_simp
qed

end
