(* ===== verification/PhaseIssuer.thy ===== *)
theory PhaseIssuer
  imports Datasets
begin

text \<open>
  The \<open>PhaseIssuer\<close> of \<open>load_generator/session.py\<close>: the per-phase state through which every
  strategy issues its samples.  The outside world is threaded as a record: the clock is the
  stream of its successive readings, \<open>uuid4\<close> the stream of its successive values, and the log
  lists, in call order, what the code does to its collaborators (publishing an event record,
  flushing the publisher, sending a query, logging a warning, calling back).  The stop check is
  the boolean it returned; the two in-flight callbacks are returned to the session, which runs
  them.
\<close>

section \<open>The world outside\<close>

datatype effect =
    Publish event_record | Flush | Send query | Warn string
  | StrategyComplete string | SampleComplete query_result | PhaseHook string

record world =
  ticks :: "nat \<Rightarrow> int"
  tpos :: nat
  uuids :: "nat \<Rightarrow> string"
  upos :: nat
  wlog :: "effect list"

definition monotonic_ns :: "world \<Rightarrow> int \<times> world" where
  "monotonic_ns w = (ticks w (tpos w), w\<lparr>tpos := Suc (tpos w)\<rparr>)"

definition new_uuid :: "world \<Rightarrow> string \<times> world" where
  "new_uuid w = (uuids w (upos w), w\<lparr>upos := Suc (upos w)\<rparr>)"

definition emit :: "effect list \<Rightarrow> world \<Rightarrow> world" where
  "emit es w = w\<lparr>wlog := wlog w @ es\<rparr>"

lemma world_simps [simp]:
  "fst (monotonic_ns w) = ticks w (tpos w)" "snd (monotonic_ns w) = w\<lparr>tpos := Suc (tpos w)\<rparr>"
  "fst (new_uuid w) = uuids w (upos w)" "snd (new_uuid w) = w\<lparr>upos := Suc (upos w)\<rparr>"
  "wlog (emit es w) = wlog w @ es" "uuids (emit es w) = uuids w" "upos (emit es w) = upos w"
  "ticks (emit es w) = ticks w" "tpos (emit es w) = tpos w"
  by (simp_all add: monotonic_ns_def new_uuid_def emit_def)

section \<open>State\<close>

datatype callback = OnInflightStarted | OnInflightDrained

record phase_issuer =
  pi_dataset :: dataset
  pi_routing_headers :: "string list"
  pi_has_started_callback :: bool
  pi_performance_tracking_stopped :: bool
  pi_prompt_warning_reasons :: "string set"
  uuid_to_index :: "string \<rightharpoonup> int"
  uuid_to_conv_info :: "string \<rightharpoonup> string \<times> int option"
  completed_uuids :: "string set"
  inflight :: int
  inflight_started_ns :: "int option"
  issued_count :: int

definition phase_issuer_init :: "dataset \<Rightarrow> bool \<Rightarrow> string list \<Rightarrow> phase_issuer" where
  "phase_issuer_init ds started_callback routing_headers =
     \<lparr>pi_dataset = ds, pi_routing_headers = routing_headers,
      pi_has_started_callback = started_callback, pi_performance_tracking_stopped = False,
      pi_prompt_warning_reasons = {}, uuid_to_index = Map.empty, uuid_to_conv_info = Map.empty,
      completed_uuids = {}, inflight = 0, inflight_started_ns = None, issued_count = 0\<rparr>"

section \<open>Operations\<close>

definition warn_prompt_once :: "string \<Rightarrow> phase_issuer \<Rightarrow> world \<Rightarrow> phase_issuer \<times> world" where
  "warn_prompt_once reason p w =
     (if reason \<in> pi_prompt_warning_reasons p then (p, w)
      else (p\<lparr>pi_prompt_warning_reasons := insert reason (pi_prompt_warning_reasons p)\<rparr>,
            emit [Warn reason] w))"

definition mark_inflight_complete ::
    "phase_issuer \<Rightarrow> world \<Rightarrow> callback option \<times> phase_issuer \<times> world" where
  "mark_inflight_complete p w =
     (if inflight p \<le> 0 then (None, p, emit [Warn ''no in-flight request''] w)
      else
        let pi1 = p\<lparr>inflight := inflight p - 1\<rparr>
        in if inflight pi1 = 0
           then (Some OnInflightDrained, pi1\<lparr>inflight_started_ns := None\<rparr>, w)
           else (None, pi1, w))"

definition stop_performance_tracking :: "phase_issuer \<Rightarrow> world \<Rightarrow> phase_issuer \<times> world" where
  "stop_performance_tracking p w =
     (if pi_performance_tracking_stopped p then (p, w)
      else
        let (ts, w1) = monotonic_ns w
        in (p\<lparr>pi_performance_tracking_stopped := True\<rparr>,
            emit [Publish (mk_event (SessionEv STOP_PERFORMANCE_TRACKING) ts), Flush] w1))"

text \<open>The prompt an \<open>ISSUED\<close> record carries, and the warning the derivation asks for.\<close>

definition prompt_of :: "pyval \<Rightarrow> string option \<times> prompt_data result" where
  "prompt_of data = (case data of
     PDict d \<Rightarrow>
       (let input_tokens = dget d ''input_tokens''; token_ids = dget d ''token_ids'';
            messages = dget d ''messages''; prompt = dget d ''prompt''
        in if \<not> is_none input_tokens \<and> \<not> is_none token_ids then (None, Inl ValueError)
           else if \<not> is_none input_tokens then
             (None, map_sum id (\<lambda>t. empty_prompt\<lparr>pr_token_ids := Some t\<rparr>) (py_tuple input_tokens))
           else if \<not> is_none token_ids then
             (None, map_sum id (\<lambda>t. empty_prompt\<lparr>pr_token_ids := Some t\<rparr>) (py_tuple token_ids))
           else if (case seq_elems messages of Some (m # ms) \<Rightarrow> True | _ \<Rightarrow> False) then
             (None, Inr (empty_prompt
                \<lparr>pr_messages := seq_elems messages,
                 pr_tools := seq_elems (dget d ''tools''),
                 pr_chat_template_kwargs :=
                   (case dget d ''chat_template_kwargs'' of PDict k \<Rightarrow> Some k | _ \<Rightarrow> None),
                 pr_chat_template := (case dget d ''chat_template'' of PStr t \<Rightarrow> Some t | _ \<Rightarrow> None),
                 pr_tool_choice :=
                   (if is_str (dget d ''tool_choice'') \<or> is_dict (dget d ''tool_choice'')
                    then Some (dget d ''tool_choice'') else None)\<rparr>))
           else (case prompt of
               PStr s \<Rightarrow> (None, Inr (empty_prompt\<lparr>pr_text := Some s\<rparr>))
             | _ \<Rightarrow> (if \<not> is_list prompt then Some ''unsupported_mapping'' else None, Inr empty_prompt)))
   | _ \<Rightarrow> (Some ''non_mapping'', Inr empty_prompt))"

text \<open>\<open>{**data, **data_override}\<close>, which needs a mapping.\<close>

definition override_data :: "pydict option \<Rightarrow> pyval \<Rightarrow> pyval result" where
  "override_data ov data = (case ov of
       None \<Rightarrow> Inr data
     | Some o' \<Rightarrow> (case data of PDict d \<Rightarrow> Inr (PDict (dmerge d o')) | _ \<Rightarrow> Inl TypeError))"

definition query_headers :: "string list \<Rightarrow> string \<Rightarrow> (string \<times> string) list" where
  "query_headers hs cid = (if cid \<noteq> [] then foldl (\<lambda>d h. AList.update h cid d) [] hs else [])"

text \<open>The end of \<open>issue\<close>: publish, send, count.\<close>

definition issue_send ::
    "string \<Rightarrow> string \<Rightarrow> int option \<Rightarrow> query \<Rightarrow> int \<Rightarrow> prompt_data \<Rightarrow> phase_issuer \<Rightarrow> world
     \<Rightarrow> (string option) result \<times> callback option \<times> phase_issuer \<times> world" where
  "issue_send query_id cid turn q ts pd p w =
     (let w1 = emit [Publish (mk_sample_event (SampleEv ISSUED) ts query_id cid turn (PromptD pd)), Send q] w;
          starting = (inflight p = 0 \<and> pi_has_started_callback p);
          (started, w2) = (if starting then map_prod Some id (monotonic_ns w1)
                           else (inflight_started_ns p, w1));
          pi1 = p\<lparr>inflight_started_ns := started, inflight := inflight p + 1,
                   issued_count := issued_count p + 1\<rparr>
      in (Inr (Some query_id), if starting then Some OnInflightStarted else None, pi1, w2))"

text \<open>The middle of \<open>issue\<close>: build the query, register it, stamp it and derive the prompt.\<close>

definition issue_build ::
    "string \<Rightarrow> int \<Rightarrow> string \<Rightarrow> int option \<Rightarrow> pyval \<Rightarrow> phase_issuer \<Rightarrow> world
     \<Rightarrow> (string option) result \<times> callback option \<times> phase_issuer \<times> world" where
  "issue_build query_id sample_index cid turn data p w =
     (let q = \<lparr>q_id = query_id, q_data = data,
               q_headers = query_headers (pi_routing_headers p) cid\<rparr>;
          p1 = p\<lparr>uuid_to_index := (uuid_to_index p)(query_id \<mapsto> sample_index),
                 uuid_to_conv_info := (uuid_to_conv_info p)(query_id \<mapsto> (cid, turn))\<rparr>;
          ts = fst (monotonic_ns w); w1 = snd (monotonic_ns w);
          (p2, w2) = (case fst (prompt_of data) of None \<Rightarrow> (p1, w1)
                      | Some reason \<Rightarrow> warn_prompt_once reason p1 w1)
      in (case snd (prompt_of data) of
            Inl e \<Rightarrow> (Inl e, None, p2, w2)
          | Inr pd \<Rightarrow> issue_send query_id cid turn q ts pd p2 w2))"

definition issue ::
    "bool \<Rightarrow> int \<Rightarrow> pydict option \<Rightarrow> string \<Rightarrow> int option \<Rightarrow> phase_issuer \<Rightarrow> world
     \<Rightarrow> (string option) result \<times> callback option \<times> phase_issuer \<times> world" where
  "issue stop sample_index data_override cid turn p w =
     (if stop then (Inr None, None, p, w)
      else
        let query_id = fst (new_uuid w); w1 = snd (new_uuid w);
            p1 = p\<lparr>pi_dataset := snd (load_sample (pi_dataset p) sample_index)\<rparr>
        in (case fst (load_sample (pi_dataset p) sample_index) of
              Inl e \<Rightarrow> (Inl e, None, p1, w1)
            | Inr data0 \<Rightarrow>
                (case override_data data_override data0 of
                   Inl e \<Rightarrow> (Inl e, None, p1, w1)
                 | Inr data \<Rightarrow> issue_build query_id sample_index cid turn data p1 w1)))"

definition register_skipped ::
    "bool \<Rightarrow> int \<Rightarrow> string \<Rightarrow> int option \<Rightarrow> phase_issuer \<Rightarrow> world \<Rightarrow> string option \<times> phase_issuer \<times> world" where
  "register_skipped stop sample_index cid turn p w =
     (if stop then (None, p, w)
      else
        let (query_id, w1) = new_uuid w;
            pi1 = p\<lparr>uuid_to_index := (uuid_to_index p)(query_id \<mapsto> sample_index),
                     uuid_to_conv_info := (uuid_to_conv_info p)(query_id \<mapsto> (cid, turn)),
                     completed_uuids := insert query_id (completed_uuids p)\<rparr>;
            (ts, w2) = monotonic_ns w1;
            w3 = emit [Publish (mk_sample_event (SampleEv ISSUED) ts query_id cid turn (PromptD empty_prompt))] w2
        in (Some query_id, pi1\<lparr>issued_count := issued_count pi1 + 1\<rparr>, w3))"

section \<open>What the log says\<close>

fun is_issued :: "effect \<Rightarrow> bool" where
  "is_issued (Publish r) = (ev_type r = SampleEv ISSUED)"
| "is_issued _ = False"

fun is_stop_tracking :: "effect \<Rightarrow> bool" where
  "is_stop_tracking (Publish r) = (ev_type r = SessionEv STOP_PERFORMANCE_TRACKING)"
| "is_stop_tracking _ = False"

fun is_send :: "effect \<Rightarrow> bool" where
  "is_send (Send q) = True"
| "is_send _ = False"

fun is_warn :: "effect \<Rightarrow> bool" where
  "is_warn (Warn s) = True"
| "is_warn _ = False"

definition count_if :: "('a \<Rightarrow> bool) \<Rightarrow> 'a list \<Rightarrow> nat" where
  "count_if P xs = length (filter P xs)"

lemma count_if_simps [simp]:
  "count_if P [] = 0" "count_if P (x # xs) = (if P x then 1 else 0) + count_if P xs"
  "count_if P (xs @ ys) = count_if P xs + count_if P ys"
  by (simp_all add: count_if_def)

lemma count_warns:
  assumes "list_all is_warn ws"
  shows "count_if is_issued ws = 0" "count_if is_send ws = 0" "count_if is_stop_tracking ws = 0"
proof -
  have "\<not> is_issued x \<and> \<not> is_send x \<and> \<not> is_stop_tracking x" if "is_warn x" for x
    using that by (cases x) auto
  then show "count_if is_issued ws = 0" "count_if is_send ws = 0" "count_if is_stop_tracking ws = 0"
    using assms by (auto simp: count_if_def filter_empty_conv list_all_iff)
qed

text \<open>The counters of an issuer, which warnings and map updates do not touch.\<close>

definition counters :: "phase_issuer \<Rightarrow> int \<times> int \<times> int option \<times> bool \<times> bool" where
  "counters p = (inflight p, issued_count p, inflight_started_ns p,
     pi_performance_tracking_stopped p, pi_has_started_callback p)"

lemma warn_prompt_once_frame:
  assumes "warn_prompt_once reason p w = (p', w')"
  shows "counters p' = counters p" "completed_uuids p' = completed_uuids p"
    "uuid_to_index p' = uuid_to_index p" "uuid_to_conv_info p' = uuid_to_conv_info p"
    "\<exists>ws. list_all is_warn ws \<and> wlog w' = wlog w @ ws"
    "uuids w' = uuids w" "upos w' = upos w" "ticks w' = ticks w"
  using assms by (auto simp: warn_prompt_once_def counters_def split: if_splits)

lemma issue_send_result:
  assumes "issue_send qid cid turn q ts pd p w = (r, cb, p', w')"
  shows "r = Inr (Some qid)
    \<and> wlog w' = wlog w @ [Publish (mk_sample_event (SampleEv ISSUED) ts qid cid turn (PromptD pd)), Send q]
    \<and> cb = (if inflight p = 0 \<and> pi_has_started_callback p then Some OnInflightStarted else None)
    \<and> inflight p' = inflight p + 1 \<and> issued_count p' = issued_count p + 1
    \<and> (inflight_started_ns p' \<noteq> None \<longleftrightarrow>
        (inflight p = 0 \<and> pi_has_started_callback p) \<or> inflight_started_ns p \<noteq> None)
    \<and> pi_performance_tracking_stopped p' = pi_performance_tracking_stopped p
    \<and> pi_has_started_callback p' = pi_has_started_callback p
    \<and> completed_uuids p' = completed_uuids p \<and> uuid_to_index p' = uuid_to_index p
    \<and> uuid_to_conv_info p' = uuid_to_conv_info p
    \<and> uuids w' = uuids w \<and> upos w' = upos w \<and> ticks w' = ticks w"
proof (cases "inflight p = 0 \<and> pi_has_started_callback p")
  case True
  then show ?thesis using assms by (auto simp: issue_send_def Let_def monotonic_ns_def)
next
  case False
  then have "issue_send qid cid turn q ts pd p w =
      (Inr (Some qid), None,
       p\<lparr>inflight_started_ns := inflight_started_ns p, inflight := inflight p + 1,
         issued_count := issued_count p + 1\<rparr>,
       emit [Publish (mk_sample_event (SampleEv ISSUED) ts qid cid turn (PromptD pd)), Send q] w)"
    by (simp only: issue_send_def Let_def if_False prod.case)
  with assms have eqs: "r = Inr (Some qid)" "cb = None"
    "p' = p\<lparr>inflight_started_ns := inflight_started_ns p, inflight := inflight p + 1,
         issued_count := issued_count p + 1\<rparr>"
    "w' = emit [Publish (mk_sample_event (SampleEv ISSUED) ts qid cid turn (PromptD pd)), Send q] w"
    by simp_all
  show ?thesis using False by (simp add: eqs) blast
qed

text \<open>A whole call is stopped before it does anything, fails before anything is published or
  sent, or publishes one record and sends one query.\<close>

definition issue_failed ::
    "phase_issuer \<Rightarrow> world \<Rightarrow> (string option) result \<Rightarrow> callback option \<Rightarrow> phase_issuer \<Rightarrow> world \<Rightarrow> bool" where
  "issue_failed p w r cb p' w' =
     ((\<exists>e. r = Inl e) \<and> cb = None \<and> counters p' = counters p \<and> completed_uuids p' = completed_uuids p
      \<and> (\<exists>ws. list_all is_warn ws \<and> wlog w' = wlog w @ ws)
      \<and> dom (uuid_to_index p') \<subseteq> insert (uuids w (upos w)) (dom (uuid_to_index p))
      \<and> uuids w' = uuids w \<and> upos w' = Suc (upos w) \<and> ticks w' = ticks w)"

definition issue_sent ::
    "int \<Rightarrow> string \<Rightarrow> int option \<Rightarrow> phase_issuer \<Rightarrow> world
     \<Rightarrow> (string option) result \<Rightarrow> callback option \<Rightarrow> phase_issuer \<Rightarrow> world \<Rightarrow> bool" where
  "issue_sent i cid turn p w r cb p' w' =
     (let qid = uuids w (upos w) in
      r = Inr (Some qid)
      \<and> (\<exists>ws ts pd q. list_all is_warn ws \<and> q_id q = qid
           \<and> wlog w' = wlog w @ ws
               @ [Publish (mk_sample_event (SampleEv ISSUED) ts qid cid turn (PromptD pd)), Send q])
      \<and> cb = (if inflight p = 0 \<and> pi_has_started_callback p then Some OnInflightStarted else None)
      \<and> inflight p' = inflight p + 1 \<and> issued_count p' = issued_count p + 1
      \<and> (inflight_started_ns p' \<noteq> None \<longleftrightarrow>
           (inflight p = 0 \<and> pi_has_started_callback p) \<or> inflight_started_ns p \<noteq> None)
      \<and> pi_performance_tracking_stopped p' = pi_performance_tracking_stopped p
      \<and> pi_has_started_callback p' = pi_has_started_callback p
      \<and> completed_uuids p' = completed_uuids p
      \<and> uuid_to_index p' = (uuid_to_index p)(qid \<mapsto> i)
      \<and> uuid_to_conv_info p' = (uuid_to_conv_info p)(qid \<mapsto> (cid, turn))
      \<and> uuids w' = uuids w \<and> upos w' = Suc (upos w) \<and> ticks w' = ticks w)"

lemma warn_option_frame:
  assumes "(case x of None \<Rightarrow> (p, w) | Some reason \<Rightarrow> warn_prompt_once reason p w) = (p', w')"
  shows "counters p' = counters p" "completed_uuids p' = completed_uuids p"
    "uuid_to_index p' = uuid_to_index p" "uuid_to_conv_info p' = uuid_to_conv_info p"
    "\<exists>ws. list_all is_warn ws \<and> wlog w' = wlog w @ ws"
    "uuids w' = uuids w" "upos w' = upos w" "ticks w' = ticks w"
proof -
  have eqs: "p' = p \<and> w' = w" if "x = None" using assms that by simp
  have warned: "warn_prompt_once reason p w = (p', w')" if "x = Some reason" for reason
    using assms that by simp
  note frame = warn_prompt_once_frame [OF warned]
  show "counters p' = counters p" by (cases x) (simp_all add: eqs frame)
  show "completed_uuids p' = completed_uuids p" by (cases x) (simp_all add: eqs frame)
  show "uuid_to_index p' = uuid_to_index p" by (cases x) (simp_all add: eqs frame)
  show "uuid_to_conv_info p' = uuid_to_conv_info p" by (cases x) (simp_all add: eqs frame)
  show "\<exists>ws. list_all is_warn ws \<and> wlog w' = wlog w @ ws"
    by (cases x) (auto simp: eqs intro: exI [of _ "[]"] dest: frame(5))
  show "uuids w' = uuids w" by (cases x) (simp_all add: eqs frame)
  show "upos w' = upos w" by (cases x) (simp_all add: eqs frame)
  show "ticks w' = ticks w" by (cases x) (simp_all add: eqs frame)
qed

lemma issue_build_cases:
  assumes "issue_build (uuids w0 (upos w0)) i cid turn data p w = (r, cb, p', w')"
    and "counters p = counters p0" "completed_uuids p = completed_uuids p0"
    and "uuid_to_index p = uuid_to_index p0" "uuid_to_conv_info p = uuid_to_conv_info p0"
    and "w = w0\<lparr>upos := Suc (upos w0)\<rparr>"
  shows "issue_failed p0 w0 r cb p' w' \<or> issue_sent i cid turn p0 w0 r cb p' w'"
proof -
  let ?qid = "uuids w0 (upos w0)"
  define p1 where "p1 = p\<lparr>uuid_to_index := (uuid_to_index p)(?qid \<mapsto> i),
                 uuid_to_conv_info := (uuid_to_conv_info p)(?qid \<mapsto> (cid, turn))\<rparr>"
  define w1 where "w1 = snd (monotonic_ns w)"
  define q where "q = \<lparr>q_id = ?qid, q_data = data, q_headers = query_headers (pi_routing_headers p) cid\<rparr>"
  obtain p2 w2 where pw: "(case fst (prompt_of data) of None \<Rightarrow> (p1, w1)
      | Some reason \<Rightarrow> warn_prompt_once reason p1 w1) = (p2, w2)"
    by (rule prod.exhaust)
  have eq: "(case snd (prompt_of data) of Inl e \<Rightarrow> (Inl e, None, p2, w2)
      | Inr pd \<Rightarrow> issue_send ?qid cid turn q (fst (monotonic_ns w)) pd p2 w2) = (r, cb, p', w')"
    using assms(1) unfolding issue_build_def Let_def p1_def [symmetric] w1_def [symmetric]
      q_def [symmetric] pw prod.case .
  have c1: "counters p1 = counters p0" "completed_uuids p1 = completed_uuids p0"
      "uuid_to_index p1 = (uuid_to_index p0)(?qid \<mapsto> i)"
      "uuid_to_conv_info p1 = (uuid_to_conv_info p0)(?qid \<mapsto> (cid, turn))"
      "uuids w1 = uuids w0" "upos w1 = Suc (upos w0)" "ticks w1 = ticks w0" "wlog w1 = wlog w0"
    using assms(2-6) by (simp_all add: p1_def w1_def counters_def)
  note c2 = warn_option_frame [OF pw, unfolded c1]
  show ?thesis
  proof (cases "snd (prompt_of data)")
    case (Inl e)
    with eq have "r = Inl e" "cb = None" "p' = p2" "w' = w2" by simp_all
    then have "issue_failed p0 w0 r cb p' w'"
      using c2 by (simp add: issue_failed_def subset_insertI)
    then show ?thesis ..
  next
    case (Inr pd)
    then have send: "issue_send ?qid cid turn q (fst (monotonic_ns w)) pd p2 w2 = (r, cb, p', w')"
      using eq by simp
    have c: "inflight p2 = inflight p0" "issued_count p2 = issued_count p0"
      "inflight_started_ns p2 = inflight_started_ns p0"
      "pi_performance_tracking_stopped p2 = pi_performance_tracking_stopped p0"
      "pi_has_started_callback p2 = pi_has_started_callback p0"
      using c2(1) by (simp_all add: counters_def)
    note res = issue_send_result [OF send, unfolded c c2(2-4,6-8)]
    obtain ws where ws: "list_all is_warn ws" "wlog w2 = wlog w0 @ ws" using c2(5) by blast
    have "wlog w' = wlog w0 @ ws @ [Publish (mk_sample_event (SampleEv ISSUED)
        (fst (monotonic_ns w)) ?qid cid turn (PromptD pd)), Send q]"
      using res ws(2) by simp
    moreover have qid: "q_id q = ?qid" by (simp add: q_def)
    ultimately have ex: "\<exists>ws ts pd q. list_all is_warn ws \<and> q_id q = ?qid \<and> wlog w' = wlog w0 @ ws
        @ [Publish (mk_sample_event (SampleEv ISSUED) ts ?qid cid turn (PromptD pd)), Send q]"
      using ws(1) qid by blast
    have "issue_sent i cid turn p0 w0 r cb p' w'"
      unfolding issue_sent_def Let_def
      apply (intro conjI)
                  apply (simp only: res)
                 apply (rule ex)
                apply (simp_all only: res)
      done
    then show ?thesis ..
  qed
qed

lemma issue_cases:
  assumes "issue stop i ov cid turn p w = (r, cb, p', w')"
  shows "(stop \<and> r = Inr None \<and> cb = None \<and> p' = p \<and> w' = w)
    \<or> (\<not> stop \<and> issue_failed p w r cb p' w') \<or> (\<not> stop \<and> issue_sent i cid turn p w r cb p' w')"
proof (cases stop)
  case True
  then show ?thesis using assms by (simp add: issue_def)
next
  case go: False
  define p1 where "p1 = p\<lparr>pi_dataset := snd (load_sample (pi_dataset p) i)\<rparr>"
  define w1 where "w1 = w\<lparr>upos := Suc (upos w)\<rparr>"
  have fail: "issue_failed p w (Inl e) None p1 w1" for e
    by (auto simp: issue_failed_def p1_def w1_def counters_def intro: exI [of _ "[]"])
  have eq: "issue stop i ov cid turn p w =
      (case fst (load_sample (pi_dataset p) i) of
         Inl e \<Rightarrow> (Inl e, None, p1, w1)
       | Inr data0 \<Rightarrow> (case override_data ov data0 of
             Inl e \<Rightarrow> (Inl e, None, p1, w1)
           | Inr data \<Rightarrow> issue_build (uuids w (upos w)) i cid turn data p1 w1))"
    using go unfolding issue_def Let_def p1_def w1_def world_simps by simp
  show ?thesis
  proof (cases "fst (load_sample (pi_dataset p) i)")
    case (Inl e)
    then show ?thesis using eq assms go fail [of e] by auto
  next
    case loaded: (Inr data0)
    show ?thesis
    proof (cases "override_data ov data0")
      case (Inl e)
      then show ?thesis using eq assms go fail [of e] loaded by auto
    next
      case (Inr data)
      then have "issue_build (uuids w (upos w)) i cid turn data p1 w1 = (r, cb, p', w')"
        using eq assms loaded by simp
      then show ?thesis
        using issue_build_cases [of w i cid turn data p1 w1 r cb p' w' p] go
        by (simp add: p1_def w1_def counters_def)
    qed
  qed
qed

section \<open>Traces of calls\<close>

text \<open>A strategy and the session drive an issuer by these calls, in any order.\<close>

datatype issuer_call =
    CallIssue bool int "pydict option" string "int option"
  | CallSkip bool int string "int option"
  | CallComplete
  | CallStopTracking

fun issuer_step :: "phase_issuer \<times> world \<Rightarrow> issuer_call \<Rightarrow> phase_issuer \<times> world" where
  "issuer_step (p, w) (CallIssue stop i ov cid turn) = snd (snd (issue stop i ov cid turn p w))"
| "issuer_step (p, w) (CallSkip stop i cid turn) = snd (register_skipped stop i cid turn p w)"
| "issuer_step (p, w) CallComplete = snd (mark_inflight_complete p w)"
| "issuer_step (p, w) CallStopTracking = stop_performance_tracking p w"

text \<open>Every query in the log was announced by an \<open>ISSUED\<close> record of its id before it was sent.\<close>

fun announced :: "effect list \<Rightarrow> string set" where
  "announced [] = {}"
| "announced (e # es) =
     (case e of Publish r \<Rightarrow> (if ev_type r = SampleEv ISSUED then {ev_uuid r} else {}) | _ \<Rightarrow> {}) \<union> announced es"

fun sends_announced :: "string set \<Rightarrow> effect list \<Rightarrow> bool" where
  "sends_announced seen [] = True"
| "sends_announced seen (e # es) =
     ((case e of Send q \<Rightarrow> q_id q \<in> seen | _ \<Rightarrow> True) \<and> sends_announced (seen \<union> announced [e]) es)"

lemma announced_append [simp]: "announced (xs @ ys) = announced xs \<union> announced ys"
  by (induction xs) auto

lemma sends_announced_append [simp]:
  "sends_announced seen (xs @ ys) = (sends_announced seen xs \<and> sends_announced (seen \<union> announced xs) ys)"
  by (induction xs arbitrary: seen) (auto simp: Un_assoc)

lemma sends_announced_no_send: "count_if is_send es = 0 \<Longrightarrow> sends_announced seen es"
  by (induction es arbitrary: seen) (auto split: effect.splits if_splits)

lemma mk_sample_event_simps [simp]:
  "ev_type (mk_sample_event t ts q c n d) = t" "ev_uuid (mk_sample_event t ts q c n d) = q"
  "ev_conv (mk_sample_event t ts q c n d) = c" "ev_turn (mk_sample_event t ts q c n d) = n"
  "ev_data (mk_sample_event t ts q c n d) = d" "ev_timestamp (mk_sample_event t ts q c n d) = ts"
  by (simp_all add: mk_sample_event_def mk_event_def)

lemma mk_event_simps [simp]:
  "ev_type (mk_event t ts) = t" "ev_timestamp (mk_event t ts) = ts"
  by (simp_all add: mk_event_def)

definition issuer_inv :: "phase_issuer \<times> world \<Rightarrow> bool" where
  "issuer_inv = (\<lambda>(p, w). 0 \<le> inflight p
     \<and> inflight p \<le> int (count_if is_send (wlog w))
     \<and> count_if is_send (wlog w) \<le> count_if is_issued (wlog w)
     \<and> issued_count p = int (count_if is_issued (wlog w))
     \<and> count_if is_stop_tracking (wlog w) = (if pi_performance_tracking_stopped p then 1 else 0)
     \<and> (pi_has_started_callback p \<longrightarrow> (inflight_started_ns p \<noteq> None \<longleftrightarrow> 0 < inflight p))
     \<and> sends_announced {} (wlog w))"

lemma issuer_inv_issue:
  assumes "issuer_inv (p, w)" and "issue stop i ov cid turn p w = (r, cb, p', w')"
  shows "issuer_inv (p', w')"
  using issue_cases [OF assms(2)]
proof (elim disjE conjE)
  assume "p' = p" "w' = w"
  then show ?thesis using assms(1) by simp
next
  assume "issue_failed p w r cb p' w'"
  then obtain ws where c: "counters p' = counters p" and ws: "list_all is_warn ws" "wlog w' = wlog w @ ws"
    by (auto simp: issue_failed_def)
  show ?thesis using assms(1) c count_warns [OF ws(1)]
    by (auto simp: issuer_inv_def counters_def ws(2) sends_announced_no_send)
next
  assume sent: "issue_sent i cid turn p w r cb p' w'"
  then obtain ws ts pd q where ws: "list_all is_warn ws" "q_id q = uuids w (upos w)"
    "wlog w' = wlog w @ ws
       @ [Publish (mk_sample_event (SampleEv ISSUED) ts (uuids w (upos w)) cid turn (PromptD pd)), Send q]"
    by (auto simp: issue_sent_def Let_def)
  show ?thesis using assms(1) sent count_warns [OF ws(1)]
    by (auto simp: issuer_inv_def issue_sent_def Let_def ws(2,3) sends_announced_no_send)
qed

lemma issuer_inv_step:
  assumes "issuer_inv (p, w)"
  shows "issuer_inv (issuer_step (p, w) c)"
proof (cases c)
  case (CallIssue stop i ov cid turn)
  obtain r cb p' w' where "issue stop i ov cid turn p w = (r, cb, p', w')" by (metis surj_pair)
  with issuer_inv_issue [OF assms this] show ?thesis by (simp add: CallIssue)
next
  case (CallSkip stop i cid turn)
  show ?thesis using assms
    by (auto simp: CallSkip issuer_inv_def register_skipped_def monotonic_ns_def new_uuid_def Let_def)
next
  case CallComplete
  show ?thesis using assms
    by (auto simp: CallComplete issuer_inv_def mark_inflight_complete_def Let_def)
next
  case CallStopTracking
  show ?thesis using assms
    by (auto simp: CallStopTracking issuer_inv_def stop_performance_tracking_def monotonic_ns_def Let_def)
qed

lemma issuer_inv_run:
  "issuer_inv (p, w) \<Longrightarrow> issuer_inv (foldl issuer_step (p, w) cs)"
  by (rule foldl_invariant) (auto intro: issuer_inv_step)

lemma issuer_inv_init: "wlog w = [] \<Longrightarrow> issuer_inv (phase_issuer_init ds cb hs, w)"
  by (simp add: issuer_inv_def phase_issuer_init_def)

section \<open>What is in flight\<close>

text \<open>A completion that finds nothing in flight is only warned about; no other warning has that text.\<close>

fun is_ignored :: "effect \<Rightarrow> bool" where
  "is_ignored (Warn s) = (s = ''no in-flight request'')"
| "is_ignored _ = False"

definition is_completion :: "issuer_call \<Rightarrow> bool" where
  "is_completion c = (c = CallComplete)"

lemma prompt_warnings: "fst (prompt_of data) = Some reason \<Longrightarrow> reason \<noteq> ''no in-flight request''"
  by (cases data) (auto simp: prompt_of_def Let_def split: if_splits option.splits list.splits pyval.splits)

lemma issue_send_flight:
  "count_if is_ignored (wlog (snd (snd (snd (issue_send qid cid turn q ts pd p w))))) = count_if is_ignored (wlog w)"
  "inflight (fst (snd (snd (issue_send qid cid turn q ts pd p w)))) = inflight p + 1"
  "count_if is_send (wlog (snd (snd (snd (issue_send qid cid turn q ts pd p w))))) = Suc (count_if is_send (wlog w))"
  by (simp_all add: issue_send_def monotonic_ns_def emit_def Let_def)

lemma issue_ignored:
  "count_if is_ignored (wlog (snd (snd (snd (issue stop i ov cid turn p w))))) = count_if is_ignored (wlog w)"
proof -
  have "count_if is_ignored (wlog (snd (snd (snd (issue_build qid i cid turn data p w))))) = count_if is_ignored (wlog w)" for qid data p w
    using prompt_warnings [of data]
    by (auto simp: issue_build_def issue_send_flight warn_prompt_once_def monotonic_ns_def emit_def Let_def
        split: option.split sum.split)
  then show ?thesis by (auto simp: issue_def new_uuid_def Let_def split: sum.split)
qed

text \<open>In flight is what was sent less what was completed.\<close>

definition flight_inv :: "issuer_call list \<Rightarrow> phase_issuer \<times> world \<Rightarrow> bool" where
  "flight_inv cs = (\<lambda>(p, w). 0 \<le> inflight p
     \<and> inflight p + int (count_if is_completion cs) = int (count_if is_send (wlog w)) + int (count_if is_ignored (wlog w)))"

lemma flight_inv_step:
  assumes "flight_inv cs (p, w)"
  shows "flight_inv (cs @ [c]) (issuer_step (p, w) c)"
proof (cases c)
  case (CallIssue stop i ov cid turn)
  obtain r cb p' w' where i: "issue stop i ov cid turn p w = (r, cb, p', w')" by (metis surj_pair)
  have ign: "count_if is_ignored (wlog w') = count_if is_ignored (wlog w)" using issue_ignored [of stop i ov cid turn p w] i by simp
  from issue_cases [OF i] have "inflight p' - int (count_if is_send (wlog w')) = inflight p - int (count_if is_send (wlog w)) \<and> inflight p \<le> inflight p'"
  proof (elim disjE conjE)
    assume "issue_failed p w r cb p' w'"
    then obtain ws where "counters p' = counters p" "list_all is_warn ws" "wlog w' = wlog w @ ws" by (auto simp: issue_failed_def)
    then show ?thesis using count_warns by (simp add: counters_def)
  next
    assume sent: "issue_sent i cid turn p w r cb p' w'"
    then obtain ws ts pd q where "list_all is_warn ws" "wlog w' = wlog w @ ws
         @ [Publish (mk_sample_event (SampleEv ISSUED) ts (uuids w (upos w)) cid turn (PromptD pd)), Send q]"
      by (auto simp: issue_sent_def Let_def)
    then show ?thesis using sent count_warns by (auto simp: issue_sent_def Let_def)
  qed simp
  then show ?thesis using assms ign by (simp add: CallIssue i flight_inv_def is_completion_def)
next
  case (CallSkip stop i cid turn)
  show ?thesis using assms
    by (auto simp: CallSkip flight_inv_def is_completion_def register_skipped_def monotonic_ns_def new_uuid_def Let_def)
next
  case CallComplete
  show ?thesis using assms
    by (auto simp: CallComplete flight_inv_def is_completion_def mark_inflight_complete_def Let_def)
next
  case CallStopTracking
  show ?thesis using assms
    by (auto simp: CallStopTracking flight_inv_def is_completion_def stop_performance_tracking_def monotonic_ns_def Let_def)
qed

lemma flight_inv_run:
  assumes "wlog w = []"
  shows "flight_inv cs (foldl issuer_step (phase_issuer_init ds cb hs, w) cs)"
proof (induction cs rule: rev_induct)
  case Nil
  then show ?case using assms by (simp add: flight_inv_def phase_issuer_init_def)
next
  case (snoc c cs)
  then show ?case using flight_inv_step by (cases "foldl issuer_step (phase_issuer_init ds cb hs, w) cs") simp
qed

section \<open>Properties\<close>

text \<open>C1. However a strategy and the session drive a fresh issuer, its counters are what its log shows: the
  issued count is the number of \<open>ISSUED\<close> records published; the in-flight count is the number of queries
  sent less the number of completions, those apart that found nothing in flight and were warned about, and never
  negative; every query sent was announced by an \<open>ISSUED\<close> record of its id first, and performance tracking is
  stopped at most once.\<close>

theorem issuer_trace_accounting:
  assumes "wlog w = []" and "foldl issuer_step (phase_issuer_init ds cb hs, w) cs = (p, w')"
  shows "issued_count p = int (count_if is_issued (wlog w'))
     \<and> inflight p = int (count_if is_send (wlog w')) - (int (count_if is_completion cs) - int (count_if is_ignored (wlog w')))
     \<and> 0 \<le> inflight p \<and> inflight p \<le> int (count_if is_send (wlog w'))
     \<and> sends_announced {} (wlog w') \<and> count_if is_stop_tracking (wlog w') \<le> 1"
  using issuer_inv_run [OF issuer_inv_init [OF assms(1), of ds cb hs], of cs] flight_inv_run [OF assms(1), of cs ds cb hs]
  by (simp add: assms(2) issuer_inv_def flight_inv_def)

definition example_world :: world where
  "example_world = \<lparr>ticks = (\<lambda>i. 10 * int i), tpos = 0, uuids = (\<lambda>i. replicate i (CHR ''x'')),
     upos = 0, wlog = []\<rparr>"

definition example_dataset :: dataset where
  "example_dataset = \<lparr>ds_data = Some [PDict [(''prompt'', PStr ''hi'')], PInt 3], ds_salt_rng = None\<rparr>"

theorem issuer_trace_accounting_witness:
  "\<exists>p w'. foldl issuer_step (phase_issuer_init example_dataset True [], example_world)
        [CallIssue False 0 None [] None, CallSkip False 0 [] None, CallComplete, CallStopTracking,
         CallStopTracking] = (p, w')
     \<and> issued_count p = int (count_if is_issued (wlog w')) \<and> count_if is_stop_tracking (wlog w') \<le> 1
     \<and> inflight p = int (count_if is_send (wlog w')) - (1 - int (count_if is_ignored (wlog w')))"
proof -
  obtain p w' where eq: "foldl issuer_step (phase_issuer_init example_dataset True [], example_world)
        [CallIssue False 0 None [] None, CallSkip False 0 [] None, CallComplete, CallStopTracking,
         CallStopTracking] = (p, w')" by (metis surj_pair)
  moreover have "wlog example_world = []" by (simp add: example_world_def)
  ultimately show ?thesis using issuer_trace_accounting [of example_world example_dataset True "[]"]
    by (fastforce simp: is_completion_def)
qed

text \<open>The prompt recorded for the input-length metric is unambiguous: whatever the sample is,
  it is a text, or a sequence of token ids, or a non-empty list of messages with its template
  fields, or nothing; a sample that has both kinds of token ids is rejected.\<close>

theorem prompt_is_unambiguous:
  "case snd (prompt_of data) of
     Inl e \<Rightarrow> e = ValueError \<or> e = TypeError
   | Inr pd \<Rightarrow> (\<exists>t. pd = empty_prompt\<lparr>pr_text := t\<rparr>) \<or> (\<exists>t. pd = empty_prompt\<lparr>pr_token_ids := t\<rparr>)
       \<or> (\<exists>m ms ts kw ct tc. pd = empty_prompt\<lparr>pr_messages := Some (m # ms), pr_tools := ts,
             pr_chat_template_kwargs := kw, pr_chat_template := ct, pr_tool_choice := tc\<rparr>)"
proof (cases data)
  case (PDict d)
  then show ?thesis
    by (cases "dget d ''prompt''")
       (auto simp: prompt_of_def Let_def empty_prompt_def py_tuple_def
          split: pyval.splits option.splits list.splits)
qed (simp_all add: prompt_of_def empty_prompt_def)

end
