(* ===== verification/Strategies.thy ===== *)
theory Strategies
  imports PhaseIssuer
begin

text \<open>
  \<open>load_generator/strategy.py\<close>: the three pacing strategies and their factory.  A strategy sees
  the phase issuer only through \<open>issue\<close> and \<open>issued_count\<close>; that interface is the locale
  \<open>issue_port\<close>, interpreted below on the phase issuer with its sample-count stop check.  The
  event loop runs a strategy's callbacks one at a time, and anything may happen in between
  (responses, completions): \<open>env n\<close> is what the rest of the program does before the \<open>n\<close>-th
  callback.  A loop is run with fuel; that enough fuel is available is part of each theorem.
\<close>

type_synonym 'w issue_fn = "int \<Rightarrow> 'w \<Rightarrow> (string option) result \<times> 'w"

datatype outcome = Finished | Raised py_exc | OutOfFuel

section \<open>BurstStrategy\<close>

text \<open>One run of \<open>issue_next\<close>: the outcome that sets \<open>done\<close>, or \<open>None\<close> to be called again.\<close>

definition burst_issue_next ::
    "'w issue_fn \<Rightarrow> order \<times> 'w \<Rightarrow> outcome option \<times> int option \<times> order \<times> 'w" where
  "burst_issue_next iss = (\<lambda>(ord, w).
     let (idx, ord') = order_next ord; (r, w') = iss idx w
     in (case r of
           Inl e \<Rightarrow> (Some (Raised e), None, ord', w')
         | Inr None \<Rightarrow> (Some Finished, None, ord', w')
         | Inr (Some q) \<Rightarrow> (None, Some idx, ord', w')))"

text \<open>\<open>execute\<close>: callbacks until \<open>done\<close>; the list collects the indices issued.\<close>

fun burst_execute ::
    "'w issue_fn \<Rightarrow> (nat \<Rightarrow> 'w \<Rightarrow> 'w) \<Rightarrow> nat \<Rightarrow> order \<times> 'w \<Rightarrow> outcome \<times> int list \<times> order \<times> 'w" where
  "burst_execute iss env 0 (ord, w) = (OutOfFuel, [], ord, w)"
| "burst_execute iss env (Suc n) (ord, w) =
     (case burst_issue_next iss (ord, env n w) of
        (Some oc, _, ord', w') \<Rightarrow> (oc, [], ord', w')
      | (None, idx, ord', w') \<Rightarrow>
          (let (oc, is', s) = burst_execute iss env n (ord', w') in (oc, the idx # is', s)))"

section \<open>TimedIssueStrategy\<close>

text \<open>
  The call-at mode computes the due time of each callback from the cumulative delay, starting at
  the loop time \<open>start\<close>; the executor mode waits for the same targets.  Times are nanoseconds.
  \<open>timed_schedule\<close> lists the (index, due time) pairs of the first \<open>k\<close> issues.
\<close>

definition timed_schedule_next ::
    "(rng \<Rightarrow> int \<times> rng) \<Rightarrow> int \<Rightarrow> order \<times> rng \<times> int \<Rightarrow> (int \<times> int) \<times> order \<times> rng \<times> int" where
  "timed_schedule_next delay start = (\<lambda>(ord, r, cumulative).
     let (idx, ord') = order_next ord; (d, r') = delay r
     in ((idx, start + (cumulative + d)), ord', r', cumulative + d))"

fun timed_schedule ::
    "(rng \<Rightarrow> int \<times> rng) \<Rightarrow> int \<Rightarrow> nat \<Rightarrow> order \<times> rng \<times> int \<Rightarrow> (int \<times> int) list" where
  "timed_schedule delay start 0 s = []"
| "timed_schedule delay start (Suc k) s =
     (let (ev, s') = timed_schedule_next delay start s in ev # timed_schedule delay start k s')"

text \<open>\<open>_execute_call_at\<close>: \<open>schedule_next\<close> draws the index and the delay and arms a timer for the due
  time, and \<open>fire\<close> issues when it is due and schedules the next, or sets \<open>done\<close>; the pairs of those
  that fired are recorded.  As before, \<open>env n\<close> is what happens in between.\<close>

fun timed_execute_call_at ::
    "'w issue_fn \<Rightarrow> (nat \<Rightarrow> 'w \<Rightarrow> 'w) \<Rightarrow> (rng \<Rightarrow> int \<times> rng) \<Rightarrow> int \<Rightarrow> nat \<Rightarrow> order \<times> rng \<times> int \<Rightarrow> 'w
     \<Rightarrow> outcome \<times> (int \<times> int) list \<times> 'w" where
  "timed_execute_call_at iss env delay start 0 s w = (OutOfFuel, [], w)"
| "timed_execute_call_at iss env delay start (Suc n) s w =
     (let (ev, s') = timed_schedule_next delay start s; (res, w') = iss (fst ev) (env n w)
      in (case res of
            Inl e \<Rightarrow> (Raised e, [ev], w')
          | Inr None \<Rightarrow> (Finished, [ev], w')
          | Inr (Some q) \<Rightarrow>
              (let (oc, evs, w'') = timed_execute_call_at iss env delay start n s' w' in (oc, ev # evs, w''))))"

text \<open>\<open>_execute_executor\<close>: one loop round waits (when the target is in the future) and issues;
  \<open>now n\<close> is the clock read before the wait, and the pair (index, wait target or none) is
  recorded.\<close>

fun timed_execute_executor ::
    "'w issue_fn \<Rightarrow> (nat \<Rightarrow> 'w \<Rightarrow> 'w) \<Rightarrow> (rng \<Rightarrow> int \<times> rng) \<Rightarrow> (nat \<Rightarrow> int) \<Rightarrow> int \<Rightarrow> nat \<Rightarrow> order \<times> rng \<times> int \<Rightarrow> 'w
     \<Rightarrow> outcome \<times> (int \<times> int option) list \<times> 'w" where
  "timed_execute_executor iss env delay now start 0 s w = (OutOfFuel, [], w)"
| "timed_execute_executor iss env delay now start (Suc n) (ord, r, cumulative) w =
     (let (idx, ord') = order_next ord; (d, r') = delay r;
          target = start + (cumulative + d);
          wait = (if target > now n then Some target else None);
          (res, w') = iss idx (env n w)
      in (case res of
            Inl e \<Rightarrow> (Raised e, [(idx, wait)], w')
          | Inr None \<Rightarrow> (Finished, [(idx, wait)], w')
          | Inr (Some q) \<Rightarrow>
              (let (oc, evs, w'') =
                 timed_execute_executor iss env delay now start n (ord', r', cumulative + d) w'
               in (oc, (idx, wait) # evs, w''))))"

section \<open>ConcurrencyStrategy\<close>

text \<open>
  The loop draws an index, waits for the semaphore, then issues.  The state is the semaphore's
  value, the index drawn and not yet issued, and whether \<open>execute\<close> has ended; \<open>cc_issued\<close> and
  \<open>cc_completed\<close> count the successful issues and the completions reported so far.
\<close>

record concurrency =
  cc_target :: int
  cc_sem :: int
  cc_order :: order
  cc_pending :: "int option"
  cc_ended :: "outcome option"
  cc_issued :: int
  cc_completed :: int

definition concurrency_init :: "int \<Rightarrow> order \<Rightarrow> concurrency result" where
  "concurrency_init target ord =
     (if target \<le> 0 then Inl ValueError
      else Inr \<lparr>cc_target = target, cc_sem = target, cc_order = ord, cc_pending = None,
                cc_ended = None, cc_issued = 0, cc_completed = 0\<rparr>)"

datatype cc_event =
    CcDraw                             \<comment> \<open>the \<open>for\<close> loop takes the next index\<close>
  | CcIssue "(string option) result"   \<comment> \<open>\<open>acquire\<close> returned, and so did \<open>issue\<close>\<close>
  | CcComplete                         \<comment> \<open>\<open>on_query_complete\<close>\<close>

text \<open>An event that is not enabled (the semaphore is empty, the loop has ended) is no step.\<close>

fun concurrency_step :: "concurrency \<Rightarrow> cc_event \<Rightarrow> concurrency option" where
  "concurrency_step s CcDraw =
     (if cc_ended s = None \<and> cc_pending s = None then
        let (idx, ord') = order_next (cc_order s)
        in Some (s\<lparr>cc_order := ord', cc_pending := Some idx\<rparr>)
      else None)"
| "concurrency_step s (CcIssue r) =
     (if cc_ended s = None \<and> cc_pending s \<noteq> None \<and> cc_sem s > 0 then
        let s1 = s\<lparr>cc_sem := cc_sem s - 1, cc_pending := None\<rparr>
        in (case r of
              Inl e \<Rightarrow> Some (s1\<lparr>cc_ended := Some (Raised e)\<rparr>)
            | Inr None \<Rightarrow> Some (s1\<lparr>cc_sem := cc_sem s1 + 1, cc_ended := Some Finished\<rparr>)
            | Inr (Some q) \<Rightarrow> Some (s1\<lparr>cc_issued := cc_issued s1 + 1\<rparr>))
      else None)"
| "concurrency_step s CcComplete = Some (s\<lparr>cc_sem := cc_sem s + 1, cc_completed := cc_completed s + 1\<rparr>)"

section \<open>The factory\<close>

datatype strategy =
    Burst order | Timed "rng \<Rightarrow> int \<times> rng" rng order bool | Concurrency concurrency

definition create_load_strategy ::
    "(rng \<Rightarrow> rat \<Rightarrow> rat \<times> rng) \<Rightarrow> runtime_settings \<Rightarrow> order option \<Rightarrow> bool \<Rightarrow> strategy result" where
  "create_load_strategy expo st ord use_executor =
     (case load_pattern st of
        None \<Rightarrow> Inl ValueError
      | Some lp \<Rightarrow>
          (case (case ord of None \<Rightarrow> create_sample_order st False | Some o' \<Rightarrow> Inr o') of
             Inl e \<Rightarrow> Inl e
           | Inr o' \<Rightarrow>
               (case lp_type lp of
                  MAX_THROUGHPUT \<Rightarrow> Inr (Burst o')
                | POISSON \<Rightarrow>
                    (case make_delay_fn expo lp of
                       Inl e \<Rightarrow> Inl e
                     | Inr delay \<Rightarrow> Inr (Timed delay (rng_sched st) o' use_executor))
                | CONCURRENCY \<Rightarrow>
                    (case lp_target_concurrency lp of
                       None \<Rightarrow> Inl ValueError
                     | Some c \<Rightarrow> if c \<le> 0 then Inl ValueError
                                 else map_sum id Concurrency (concurrency_init c o'))
                | _ \<Rightarrow> Inl ValueError)))"

section \<open>The issuing interface\<close>

text \<open>An environment that neither issues nor changes what can be loaded: responses, timers.\<close>

definition quiet :: "('w \<Rightarrow> int) \<Rightarrow> (int \<Rightarrow> 'w \<Rightarrow> bool) \<Rightarrow> (nat \<Rightarrow> 'w \<Rightarrow> 'w) \<Rightarrow> bool" where
  "quiet issued loads env = (\<forall>n w. issued (env n w) = issued w \<and> (\<forall>i. loads i (env n w) = loads i w))"

locale issue_port =
  fixes iss :: "'w issue_fn"
    and issued :: "'w \<Rightarrow> int"
    and limit :: int
    and loads :: "int \<Rightarrow> 'w \<Rightarrow> bool"
  assumes stops: "limit \<le> issued w \<Longrightarrow> iss i w = (Inr None, w)"
    and issues: "issued w < limit \<Longrightarrow> loads i w \<Longrightarrow>
        \<exists>q w'. iss i w = (Inr (Some q), w') \<and> issued w' = issued w + 1 \<and> (\<forall>j. loads j w' = loads j w)"
begin

lemma burst_finishes:
  assumes "quiet issued loads env" and "nat (limit - issued w) < fuel"
    and "\<forall>i\<in>set (fst (draw_many order_next (nat (limit - issued w)) ord)). loads i w"
  shows "\<exists>w'. burst_execute iss env fuel (ord, w)
      = (Finished, fst (draw_many order_next (nat (limit - issued w)) ord),
         snd (order_next (snd (draw_many order_next (nat (limit - issued w)) ord))), w')
      \<and> issued w' = max limit (issued w)"
  using assms(2,3)
proof (induction fuel arbitrary: ord w)
  case 0
  then show ?case by simp
next
  case (Suc fuel)
  let ?w = "env fuel w"
  have q: "issued ?w = issued w" "\<And>i. loads i ?w = loads i w" using assms(1) by (auto simp: quiet_def)
  obtain idx ord1 where nx: "order_next ord = (idx, ord1)" by force
  show ?case
  proof (cases "limit \<le> issued w")
    case True
    then have "iss idx ?w = (Inr None, ?w)" using stops q by simp
    with True show ?thesis by (simp add: burst_issue_next_def nx q)
  next
    case False
    then obtain k where k: "nat (limit - issued w) = Suc k" by (cases "nat (limit - issued w)") auto
    then have "loads idx ?w" using Suc.prems(2) q by (simp add: nx case_prod_unfold Let_def)
    then obtain qid w1 where w1: "iss idx ?w = (Inr (Some qid), w1)" "issued w1 = issued w + 1"
      "\<And>j. loads j w1 = loads j w"
      using issues [of ?w idx] False q by auto
    have k1: "nat (limit - issued w1) = k" using k w1(2) by linarith
    have "\<exists>w'. burst_execute iss env fuel (ord1, w1)
        = (Finished, fst (draw_many order_next k ord1),
           snd (order_next (snd (draw_many order_next k ord1))), w') \<and> issued w' = max limit (issued w1)"
      using Suc.IH [of w1 ord1, unfolded k1] Suc.prems k w1 by (simp add: nx case_prod_unfold Let_def)
    then obtain w' where w': "burst_execute iss env fuel (ord1, w1)
        = (Finished, fst (draw_many order_next k ord1),
           snd (order_next (snd (draw_many order_next k ord1))), w')" "issued w' = max limit (issued w1)"
      by blast
    have "max limit (issued w1) = max limit (issued w)" using False w1(2) by linarith
    then show ?thesis using w' w1(1) by (simp add: burst_issue_next_def nx k case_prod_unfold Let_def)
  qed
qed

end

section \<open>The phase issuer is such a port\<close>

definition issuer_port :: "int \<Rightarrow> (phase_issuer \<times> world) issue_fn" where
  "issuer_port limit i = (\<lambda>(p, w).
     let (r, cb, p', w') = issue (issued_count p \<ge> limit) i None [] None p w in (r, p', w'))"

definition port_issued :: "phase_issuer \<times> world \<Rightarrow> int" where
  "port_issued = (\<lambda>(p, w). issued_count p)"

definition issuable :: "dataset \<Rightarrow> int \<Rightarrow> bool" where
  "issuable ds i = (ds_salt_rng ds = None
     \<and> (case fst (load_sample ds i) of Inl e \<Rightarrow> False | Inr data \<Rightarrow> is_ok (snd (prompt_of data))))"

definition port_loads :: "int \<Rightarrow> phase_issuer \<times> world \<Rightarrow> bool" where
  "port_loads i = (\<lambda>(p, w). issuable (pi_dataset p) i)"

lemma unsalted_load: "ds_salt_rng ds = None \<Longrightarrow> snd (load_sample ds i) = ds"
  by (simp add: load_sample_def split: option.splits sum.splits)

lemma warn_keeps_dataset: "pi_dataset (fst (warn_prompt_once r p w)) = pi_dataset p"
  by (simp add: warn_prompt_once_def)

lemma issue_send_keeps_dataset:
  "pi_dataset (fst (snd (snd (issue_send qid cid turn q ts pd p w)))) = pi_dataset p"
  by (simp add: issue_send_def Let_def case_prod_unfold)

lemma issue_send_returns: "fst (issue_send qid cid turn q ts pd p w) = Inr (Some qid)"
  by (simp add: issue_send_def Let_def case_prod_unfold)

lemma issue_build_ok:
  assumes "snd (prompt_of data) = Inr pd"
  shows "fst (issue_build qid i cid turn data p w) = Inr (Some qid)"
    and "pi_dataset (fst (snd (snd (issue_build qid i cid turn data p w)))) = pi_dataset p"
proof -
  show "fst (issue_build qid i cid turn data p w) = Inr (Some qid)"
    by (simp add: issue_build_def Let_def case_prod_unfold assms issue_send_returns)
  show "pi_dataset (fst (snd (snd (issue_build qid i cid turn data p w)))) = pi_dataset p"
    by (cases "fst (prompt_of data)")
       (simp_all add: issue_build_def Let_def case_prod_unfold assms issue_send_keeps_dataset
          warn_keeps_dataset)
qed

lemma issuer_port_issues:
  assumes "issued_count p < limit" and "issuable (pi_dataset p) i"
  shows "\<exists>q p' w'. issuer_port limit i (p, w) = (Inr (Some q), p', w')
     \<and> issued_count p' = issued_count p + 1 \<and> pi_dataset p' = pi_dataset p"
proof -
  obtain data pd where d: "fst (load_sample (pi_dataset p) i) = Inr data" "snd (prompt_of data) = Inr pd"
    using assms(2) by (auto simp: issuable_def is_ok_iff split: sum.splits)
  have same: "snd (load_sample (pi_dataset p) i) = pi_dataset p"
    using assms(2) unsalted_load by (simp add: issuable_def)
  obtain r cb p' w' where iss: "issue False i None [] None p w = (r, cb, p', w')"
    by (metis surj_pair)
  have eq: "issue False i None [] None p w = issue_build (fst (new_uuid w)) i [] None data
      (p\<lparr>pi_dataset := pi_dataset p\<rparr>) (snd (new_uuid w))"
    by (simp only: issue_def Let_def if_False d(1) same sum.case override_data_def option.case)
  have r: "r = Inr (Some (fst (new_uuid w)))" and ds: "pi_dataset p' = pi_dataset p"
    using issue_build_ok [OF d(2), of "fst (new_uuid w)" i "[]" None "p\<lparr>pi_dataset := pi_dataset p\<rparr>"
        "snd (new_uuid w)"] unfolding eq [symmetric] iss by simp_all
  have "issued_count p' = issued_count p + 1"
    using issue_cases [OF iss] r by (auto simp: issue_failed_def issue_sent_def Let_def)
  moreover have "issuer_port limit i (p, w) = (r, p', w')"
    using assms(1) iss by (simp add: issuer_port_def)
  ultimately show ?thesis using r ds by blast
qed

interpretation issuer: issue_port "issuer_port limit" port_issued limit port_loads for limit
proof unfold_locales
  fix s i assume "limit \<le> port_issued s"
  then show "issuer_port limit i s = (Inr None, s)"
    by (cases s) (simp add: port_issued_def issuer_port_def issue_def)
next
  fix s i assume "port_issued s < limit" "port_loads i s"
  then show "\<exists>q w'. issuer_port limit i s = (Inr (Some q), w')
      \<and> port_issued w' = port_issued s + 1 \<and> (\<forall>j. port_loads j w' = port_loads j s)"
    using issuer_port_issues [of "fst s" limit i "snd s"]
    by (cases s) (fastforce simp: port_issued_def port_loads_def)
qed

section \<open>Facts on the schedules and the semaphore\<close>

lemma timed_schedule_bounds:
  assumes "\<And>r. 1 \<le> fst (delay r)" and "j < k"
  shows "start + cumulative + int j + 1 \<le> snd (timed_schedule delay start k (ord, r, cumulative) ! j)"
  using assms(2)
proof (induction k arbitrary: j ord r cumulative)
  case 0
  then show ?case by simp
next
  case (Suc k)
  obtain idx ord' where o: "order_next ord = (idx, ord')" by force
  obtain d r' where d: "delay r = (d, r')" by force
  have d1: "1 \<le> d" using assms(1) [of r] by (simp add: d)
  show ?case
  proof (cases j)
    case 0
    with d1 show ?thesis by (simp add: timed_schedule_next_def o d)
  next
    case (Suc j')
    then have "start + (cumulative + d) + int j' + 1
        \<le> snd (timed_schedule delay start k (ord', r', cumulative + d) ! j')"
      using Suc.IH [of j' "cumulative + d" ord' r'] Suc.prems by simp
    with d1 Suc show ?thesis by (simp add: timed_schedule_next_def o d)
  qed
qed

lemma length_timed_schedule [simp]: "length (timed_schedule delay start k s) = k"
  by (induction k arbitrary: s) (simp_all add: case_prod_unfold Let_def)

lemma timed_schedule_sorted:
  assumes "\<And>r. 1 \<le> fst (delay r)"
  shows "sorted_wrt (<) (map snd (timed_schedule delay start k (ord, r, cumulative)))"
proof (induction k arbitrary: ord r cumulative)
  case 0
  then show ?case by simp
next
  case (Suc k)
  obtain idx ord' where o: "order_next ord = (idx, ord')" by force
  obtain d r' where d: "delay r = (d, r')" by force
  let ?rest = "timed_schedule delay start k (ord', r', cumulative + d)"
  have "start + (cumulative + d) < t" if "t \<in> set (map snd ?rest)" for t
  proof -
    have "t \<in> snd ` set ?rest" using that by simp
    then obtain x where x: "x \<in> set ?rest" "t = snd x" by blast
    then obtain j where "j < length ?rest" "?rest ! j = x" using in_set_conv_nth [of x ?rest] by blast
    then have "j < k" "t = snd (?rest ! j)" using x(2) by simp_all
    then show ?thesis
      using timed_schedule_bounds [of delay j k start "cumulative + d" ord' r'] assms by auto
  qed
  with Suc show ?case by (simp add: timed_schedule_next_def o d)
qed

lemma timed_schedule_indices:
  "map fst (timed_schedule delay start k (ord, r, c)) = fst (draw_many order_next k ord)"
  by (induction k arbitrary: ord r c) (simp_all add: timed_schedule_next_def case_prod_unfold Let_def)

lemma poisson_delay_pos: "1 \<le> fst (poisson_delay expo qps r)"
  by (simp add: poisson_delay_def case_prod_unfold Let_def)

text \<open>The call-at mode fires the schedule, and the executor mode waits for those due times that are not past
  when it looks at the clock; both issue the same indices to the same effect.\<close>

definition wait_for_due :: "(nat \<Rightarrow> int) \<Rightarrow> (int \<times> int) \<times> nat \<Rightarrow> int \<times> int option" where
  "wait_for_due now = (\<lambda>((i, t), k). (i, if t > now k then Some t else None))"

lemma call_at_follows_schedule:
  assumes "timed_execute_call_at iss env delay start n s w = (oc, fired, w')"
  shows "fired = timed_schedule delay start (length fired) s \<and> length fired \<le> n \<and> (oc = OutOfFuel \<longrightarrow> length fired = n)"
  using assms
proof (induction n arbitrary: s w oc fired w')
  case (Suc n)
  obtain ev s1 where e: "timed_schedule_next delay start s = (ev, s1)" by (metis surj_pair)
  obtain res w1 where i: "iss (fst ev) (env n w) = (res, w1)" by force
  obtain oc2 evs2 w2 where rest: "timed_execute_call_at iss env delay start n s1 w1 = (oc2, evs2, w2)" by (metis surj_pair)
  show ?case using Suc.prems Suc.IH [OF rest] by (auto simp: e i rest Let_def split: sum.splits option.splits)
qed simp

lemma executor_follows_call_at:
  assumes "timed_execute_call_at iss env delay start n (ord, r, c) w = (oc, fired, w')"
  shows "timed_execute_executor iss env delay now start n (ord, r, c) w
    = (oc, map (wait_for_due now) (zip fired (rev [n - length fired..<n])), w')"
  using assms
proof (induction n arbitrary: ord r c w oc fired w')
  case (Suc n)
  obtain idx ord' where o: "order_next ord = (idx, ord')" by force
  obtain d r' where d: "delay r = (d, r')" by force
  obtain res w1 where i: "iss idx (env n w) = (res, w1)" by force
  obtain oc2 evs2 w2 where rest: "timed_execute_call_at iss env delay start n (ord', r', c + d) w1 = (oc2, evs2, w2)"
    by (metis surj_pair)
  have "length evs2 \<le> n" using call_at_follows_schedule [OF rest] by simp
  then have "rev [Suc n - length (x # evs2)..<Suc n] = n # rev [n - length evs2..<n]" for x :: "int \<times> int" by simp
  then show ?case using Suc.prems Suc.IH [OF rest]
    by (auto simp: o d i rest timed_schedule_next_def wait_for_due_def Let_def split: sum.splits option.splits)
qed simp

fun concurrency_run :: "concurrency \<Rightarrow> cc_event list \<Rightarrow> concurrency option" where
  "concurrency_run s [] = Some s"
| "concurrency_run s (e # es) =
     (case concurrency_step s e of None \<Rightarrow> None | Some s' \<Rightarrow> concurrency_run s' es)"

definition cc_inv :: "int \<Rightarrow> concurrency \<Rightarrow> bool" where
  "cc_inv target s = (cc_target s = target \<and> 0 \<le> cc_sem s
     \<and> cc_sem s + (cc_issued s - cc_completed s)
         = target - (case cc_ended s of Some (Raised e) \<Rightarrow> 1 | _ \<Rightarrow> 0))"

lemma cc_inv_step: "cc_inv target s \<Longrightarrow> concurrency_step s e = Some s' \<Longrightarrow> cc_inv target s'"
  by (cases e)
     (auto simp: cc_inv_def Let_def case_prod_unfold
        split: if_splits sum.splits option.splits outcome.splits)

lemma cc_inv_run: "cc_inv target s \<Longrightarrow> concurrency_run s es = Some s' \<Longrightarrow> cc_inv target s'"
  by (induction es arbitrary: s) (auto split: option.splits dest: cc_inv_step)

lemma cc_inv_init: "concurrency_init target ord = Inr s \<Longrightarrow> cc_inv target s"
  by (auto simp: concurrency_init_def cc_inv_def split: if_splits)

lemma wr_draws_mset:
  "wr_boundary s \<Longrightarrow> mset (fst (draw_many without_replacement_next (k * nat (wr_n s)) s))
     = repeat_mset k (mset (range_list (wr_n s)))"
proof (induction k arbitrary: s)
  case 0
  then show ?case by simp
next
  case (Suc k)
  let ?n = "nat (wr_n s)"
  obtain xs s1 where d1: "draw_many without_replacement_next ?n s = (xs, s1)" by force
  have b: "mset xs = mset (range_list (wr_n s))" "wr_boundary s1" "wr_n s1 = wr_n s"
    using wr_block [OF Suc.prems] by (simp_all add: d1)
  show ?case
    using draw_many_add [of without_replacement_next ?n "k * ?n" s] Suc.IH [OF b(2)] b(1,3)
    by (simp add: d1 case_prod_unfold Let_def)
qed

lemma draw_many_without_replacement:
  "fst (draw_many order_next k (WithoutReplacement s)) = fst (draw_many without_replacement_next k s)"
  by (induction k arbitrary: s) (simp_all add: case_prod_unfold Let_def)

lemma burst_on_issuer:
  assumes "create_sample_order st accuracy = Inr ord"
    and "\<And>i. 0 \<le> i \<Longrightarrow> i < n_samples_from_dataset st \<Longrightarrow> issuable (pi_dataset p) i"
    and "issued_count p = 0" and "quiet port_issued port_loads env" and "nat limit < fuel"
  shows "\<exists>ord' p' w'. burst_execute (issuer_port limit) env fuel (ord, p, w)
       = (Finished, fst (draw_many order_next (nat limit) ord), ord', p', w')
     \<and> issued_count p' = max limit 0"
proof -
  let ?n = "nat (limit - port_issued (p, w))"
  have n: "?n = nat limit" using assms(3) by (simp add: port_issued_def)
  have range: "set (fst (draw_many order_next (nat limit) ord)) \<subseteq> {0..<n_samples_from_dataset st}"
    using ord.draws_in_range [of ord] create_sample_order_inv [OF assms(1)] by simp
  have "\<forall>i\<in>set (fst (draw_many order_next ?n ord)). port_loads i (p, w)"
    using range assms(2) unfolding n by (auto simp: port_loads_def)
  then have "\<exists>w'. burst_execute (issuer_port limit) env fuel (ord, p, w)
      = (Finished, fst (draw_many order_next ?n ord),
         snd (order_next (snd (draw_many order_next ?n ord))), w')
      \<and> port_issued w' = max limit (port_issued (p, w))"
    using issuer.burst_finishes [OF assms(4), of limit "(p, w)" fuel ord] assms(5) unfolding n by blast
  then show ?thesis unfolding n using assms(3) by (auto simp: port_issued_def)
qed

section \<open>Properties\<close>

text \<open>A burst phase with a sample-count limit always ends, having issued exactly that many
  samples, and they are the first draws of its order: whatever the responses do in between, if
  every sample of the dataset can be issued then \<open>execute\<close> finishes within \<open>limit + 1\<close> callbacks.\<close>

theorem burst_issues_exactly_the_limit:
  assumes "create_sample_order st accuracy = Inr ord"
    and "\<And>i. 0 \<le> i \<Longrightarrow> i < n_samples_from_dataset st \<Longrightarrow> issuable (pi_dataset p) i"
    and "issued_count p = 0" and "quiet port_issued port_loads env" and "nat limit < fuel"
  shows "\<exists>ord' p' w'. burst_execute (issuer_port limit) env fuel (ord, p, w)
       = (Finished, fst (draw_many order_next (nat limit) ord), ord', p', w')
     \<and> issued_count p' = max limit 0"
  by (rule burst_on_issuer [OF assms])

theorem burst_issues_exactly_the_limit_witness:
  "\<exists>ord' p' w'. burst_execute (issuer_port 3) (\<lambda>n s. s) 4
      (Sequential \<lparr>sq_n = 1, sq_curr_idx = 0\<rparr>, phase_issuer_init example_dataset True [], example_world)
     = (Finished, [0, 0, 0], ord', p', w') \<and> issued_count p' = 3"
proof -
  have o: "create_sample_order (example_settings\<lparr>n_samples_from_dataset := 1\<rparr>) True
      = Inr (Sequential \<lparr>sq_n = 1, sq_curr_idx = 0\<rparr>)"
    by (simp add: create_sample_order_def sequential_init_def)
  have i: "issuable (pi_dataset (phase_issuer_init example_dataset True [])) i" if "0 \<le> i" "i < 1" for i
    using that
    by (simp add: issuable_def phase_issuer_init_def example_dataset_def load_sample_def list_get_def
        prompt_of_def dget_def seq_elems_def)
  have "draw_many order_next 3 (Sequential \<lparr>sq_n = 1, sq_curr_idx = 0\<rparr>)
      = ([0, 0, 0], Sequential \<lparr>sq_n = 1, sq_curr_idx = 0\<rparr>)"
    by (simp add: numeral_3_eq_3 sequential_next_def)
  then show ?thesis
    using burst_issues_exactly_the_limit [OF o, of "phase_issuer_init example_dataset True []"
        "\<lambda>n s. s" 3 4 example_world] i
    by (simp add: quiet_def phase_issuer_init_def)
qed

text \<open>A burst phase over the shuffled order whose limit is \<open>k\<close> passes issues every sample of the
  dataset exactly \<open>k\<close> times.\<close>

theorem burst_covers_dataset_evenly:
  assumes "create_sample_order st False = Inr ord" and "so_kind (sample_order st) = WITHOUT_REPLACEMENT"
    and "\<And>i. 0 \<le> i \<Longrightarrow> i < n_samples_from_dataset st \<Longrightarrow> issuable (pi_dataset p) i"
    and "issued_count p = 0" and "quiet port_issued port_loads env"
    and "nat limit < fuel" and "limit = int k * n_samples_from_dataset st"
    and "0 \<le> j" and "j < n_samples_from_dataset st"
  shows "\<exists>is ord' s'. burst_execute (issuer_port limit) env fuel (ord, p, w) = (Finished, is, ord', s')
     \<and> count (mset is) j = k"
proof -
  let ?n = "n_samples_from_dataset st"
  obtain s where s: "ord = WithoutReplacement s" "without_replacement_init ?n (rng_sample_index st) = Inr s"
    using assms(1,2) by (cases "without_replacement_init ?n (rng_sample_index st)")
      (auto simp: create_sample_order_def Let_def)
  have b: "wr_boundary s" "wr_n s = ?n" using wr_init_boundary [OF s(2)] by auto
  have lim: "nat limit = k * nat (wr_n s)" using assms(7-9) b(2) by (simp add: nat_mult_distrib)
  obtain ord' p' w' where run: "burst_execute (issuer_port limit) env fuel (ord, p, w)
       = (Finished, fst (draw_many order_next (nat limit) ord), ord', p', w')"
    using burst_on_issuer [OF assms(1,3-6)] by blast
  have "mset (fst (draw_many order_next (nat limit) ord)) = repeat_mset k (mset (range_list ?n))"
    using wr_draws_mset [OF b(1), of k] by (simp add: lim s(1) draw_many_without_replacement b(2))
  moreover have "count (mset (range_list ?n)) j = 1"
  proof -
    have "distinct (range_list ?n)" by (simp add: range_list_def distinct_map)
    moreover have "j \<in> set (range_list ?n)"
      using assms(8,9) by (auto simp: range_list_def image_int_atLeastLessThan)
    ultimately show ?thesis by (simp add: distinct_count_atmost_1)
  qed
  ultimately show ?thesis using run by auto
qed

theorem burst_covers_dataset_evenly_witness:
  "\<exists>ord. create_sample_order (example_settings\<lparr>n_samples_from_dataset := 1\<rparr>) False = Inr ord
   \<and> (\<exists>is ord' s'. burst_execute (issuer_port 2) (\<lambda>n s. s) 3
        (ord, phase_issuer_init example_dataset True [], example_world) = (Finished, is, ord', s')
      \<and> count (mset is) 0 = 2)"
proof -
  let ?st = "example_settings\<lparr>n_samples_from_dataset := 1\<rparr>"
  obtain ord where o: "create_sample_order ?st False = Inr ord"
    by (simp add: create_sample_order_def example_settings_def spec_without_replacement_def
        without_replacement_init_def)
  have i: "issuable (pi_dataset (phase_issuer_init example_dataset True [])) i" if "0 \<le> i" "i < 1" for i
    using that
    by (simp add: issuable_def phase_issuer_init_def example_dataset_def load_sample_def list_get_def
        prompt_of_def dget_def seq_elems_def)
  have wo: "so_kind (sample_order ?st) = WITHOUT_REPLACEMENT"
    by (simp add: example_settings_def spec_without_replacement_def)
  have q: "quiet port_issued port_loads (\<lambda>n s. s)" by (simp add: quiet_def)
  have c: "issued_count (phase_issuer_init example_dataset True []) = 0"
    by (simp add: phase_issuer_init_def)
  have "\<exists>is ord' s'. burst_execute (issuer_port 2) (\<lambda>n s. s) 3
        (ord, phase_issuer_init example_dataset True [], example_world) = (Finished, is, ord', s')
      \<and> count (mset is) 0 = 2"
    by (rule burst_covers_dataset_evenly [OF o wo _ c q]) (use i in simp_all)
  with o show ?thesis by blast
qed

text \<open>C4. Poisson pacing is strictly increasing and does not depend on the mode.  Whatever issuing answers and
  whatever happens between the issues, the call-at mode fires the schedule of the cumulative delays, whose due
  times strictly increase and whose indices are the sample order's, until an issue is refused or raises (or the
  fuel \<open>n\<close> is used up); and the executor mode issues the same indices to the same end, waiting for exactly those
  due times that lie after the clock it reads, and for each of them.\<close>

theorem poisson_schedule_strict_and_mode_independent:
  "case timed_execute_call_at iss env (poisson_delay expo qps) start n (ord, r, 0) w of (oc, fired, w') \<Rightarrow>
     fired = timed_schedule (poisson_delay expo qps) start (length fired) (ord, r, 0)
     \<and> sorted_wrt (<) (map snd fired) \<and> map fst fired = fst (draw_many order_next (length fired) ord)
     \<and> length fired \<le> n \<and> (oc = OutOfFuel \<longrightarrow> length fired = n)
     \<and> timed_execute_executor iss env (poisson_delay expo qps) now start n (ord, r, 0) w
         = (oc, map (\<lambda>((i, t), k). (i, if t > now k then Some t else None)) (zip fired (rev [n - length fired..<n])), w')"
proof -
  obtain oc fired w' where c: "timed_execute_call_at iss env (poisson_delay expo qps) start n (ord, r, 0) w = (oc, fired, w')"
    by (metis surj_pair)
  note f = call_at_follows_schedule [OF c]
  have "sorted_wrt (<) (map snd (timed_schedule (poisson_delay expo qps) start (length fired) (ord, r, 0)))"
    using timed_schedule_sorted [of "poisson_delay expo qps"] poisson_delay_pos by blast
  then have "sorted_wrt (<) (map snd fired)" using f by simp
  moreover have "map fst fired = fst (draw_many order_next (length fired) ord)" using f timed_schedule_indices by metis
  ultimately show ?thesis using f executor_follows_call_at [OF c, of now] by (simp add: c wait_for_due_def)
qed

theorem poisson_schedule_strict_and_mode_independent_witness:
  "timed_execute_call_at (\<lambda>i w. (if w < 2 then Inr (Some ''q'') else Inr None, w + 1)) (\<lambda>_ w. w) (poisson_delay (\<lambda>r l. (2, r)) 10)
        100 5 (Sequential \<lparr>sq_n = 2, sq_curr_idx = 0\<rparr>, \<lparr>draws = (\<lambda>_. 0), pos = 0\<rparr>, 0) (0 :: nat)
      = (Finished, [(0, 102), (1, 104), (0, 106)], 3)
   \<and> timed_execute_executor (\<lambda>i w. (if w < 2 then Inr (Some ''q'') else Inr None, w + 1)) (\<lambda>_ w. w) (poisson_delay (\<lambda>r l. (2, r)) 10)
        (\<lambda>_. 103) 100 5 (Sequential \<lparr>sq_n = 2, sq_curr_idx = 0\<rparr>, \<lparr>draws = (\<lambda>_. 0), pos = 0\<rparr>, 0) (0 :: nat)
      = (Finished, [(0, None), (1, Some 104), (0, Some 106)], 3)"
proof -
  have c: "timed_execute_call_at (\<lambda>i w. (if w < 2 then Inr (Some ''q'') else Inr None, w + 1)) (\<lambda>_ w. w) (poisson_delay (\<lambda>r l. (2, r)) 10)
        100 5 (Sequential \<lparr>sq_n = 2, sq_curr_idx = 0\<rparr>, \<lparr>draws = (\<lambda>_. 0), pos = 0\<rparr>, 0) (0 :: nat)
      = (Finished, [(0, 102), (1, 104), (0, 106)], 3)"
    by (simp add: eval_nat_numeral sequential_next_def poisson_delay_def trunc_def timed_schedule_next_def)
  note run = poisson_schedule_strict_and_mode_independent [where iss = "\<lambda>i w. (if w < 2 then Inr (Some ''q'') else Inr None, w + 1)"
        and env = "\<lambda>_ w. w" and expo = "\<lambda>r l. (2, r)" and qps = 10 and start = 100 and n = 5 and w = "0 :: nat"
        and ord = "Sequential \<lparr>sq_n = 2, sq_curr_idx = 0\<rparr>" and r = "\<lparr>draws = (\<lambda>_. 0), pos = 0\<rparr>" and now = "\<lambda>_. 103"]
  have "timed_execute_executor (\<lambda>i w. (if w < 2 then Inr (Some ''q'') else Inr None, w + 1)) (\<lambda>_ w. w) (poisson_delay (\<lambda>r l. (2, r)) 10)
        (\<lambda>_. 103) 100 5 (Sequential \<lparr>sq_n = 2, sq_curr_idx = 0\<rparr>, \<lparr>draws = (\<lambda>_. 0), pos = 0\<rparr>, 0) (0 :: nat)
      = (Finished, map (\<lambda>((i, t), k). (i, if t > 103 then Some t else None))
           (zip [(0, 102), (1, 104), (0, 106)] (rev [5 - length [(0 :: int, 102 :: int), (1, 104), (0, 106)]..<5])), 3)"
    using run unfolding c prod.case by (elim conjE)
  also have "\<dots> = (Finished, [(0, None), (1, Some 104), (0, Some 106)], 3)" by (simp add: upt_rec)
  finally show ?thesis using c by (intro conjI)
qed

text \<open>The concurrency strategy keeps the load at its target: in every run the issues not yet
  reported complete never exceed the target, and as long as the loop has not ended they reach
  it before the loop has to wait (an index that is drawn can be issued whenever fewer than the
  target are outstanding).\<close>

theorem concurrency_bound_and_progress:
  assumes "concurrency_init target ord = Inr s0" and "concurrency_run s0 es = Some s"
  shows "cc_issued s - cc_completed s \<le> target
     \<and> (cc_ended s = None \<longrightarrow> cc_pending s \<noteq> None \<longrightarrow>
          (cc_issued s - cc_completed s < target \<longleftrightarrow> concurrency_step s (CcIssue r) \<noteq> None))"
proof -
  have inv: "cc_inv target s" using cc_inv_run [OF cc_inv_init [OF assms(1)] assms(2)] .
  have "concurrency_step s (CcIssue r) \<noteq> None \<longleftrightarrow> cc_sem s > 0"
    if "cc_ended s = None" "cc_pending s \<noteq> None"
    using that by (auto simp: Let_def split: sum.splits option.splits)
  then show ?thesis using inv by (auto simp: cc_inv_def split: option.splits outcome.splits if_splits)
qed

theorem concurrency_bound_and_progress_witness:
  "\<exists>s0 s. concurrency_init 1 (Sequential \<lparr>sq_n = 2, sq_curr_idx = 0\<rparr>) = Inr s0
     \<and> concurrency_run s0 [CcDraw, CcIssue (Inr (Some ''a'')), CcDraw] = Some s
     \<and> concurrency_step s (CcIssue (Inr None)) = None \<and> cc_issued s - cc_completed s \<le> 1"
proof -
  obtain s0 where i: "concurrency_init 1 (Sequential \<lparr>sq_n = 2, sq_curr_idx = 0\<rparr>) = Inr s0"
    by (simp add: concurrency_init_def)
  then obtain s where r: "concurrency_run s0 [CcDraw, CcIssue (Inr (Some ''a'')), CcDraw] = Some s"
    "concurrency_step s (CcIssue (Inr None)) = None"
    by (auto simp: concurrency_init_def sequential_next_def)
  show ?thesis using concurrency_bound_and_progress [OF i r(1)] i r by blast
qed

end
