(* ===== verification/Session.thy ===== *)
theory Session
  imports Strategies
begin

text \<open>
  \<open>BenchmarkSession\<close> of \<open>load_generator/session.py\<close> as a state machine.  The session is one
  asyncio program on one thread: between two awaits nothing else runs, so each step below is
  the code between two awaits.  The control state says where \<open>run\<close> is waiting; the inputs are
  what can wake the program: a call a strategy makes on the issuer, the end of the strategy's
  task, a response, the end of the drain, a timer, a signal.  A strategy that issues from inside
  \<open>on_query_complete\<close> appears as the issue inputs that follow the response.
\<close>

section \<open>State\<close>

record phase_config =
  ph_name :: string
  ph_settings :: runtime_settings
  ph_dataset :: dataset
  ph_type :: phase_type
  ph_drain_after :: bool
  ph_drain_timeout :: "rat option"
  ph_has_strategy :: bool
  ph_routing_headers :: "string list"
  ph_conversations :: "(int \<times> int) option"

record phase_result =
  pr_name :: string
  pr_phase_type :: phase_type
  pr_uuid_to_index :: "string \<rightharpoonup> int"
  pr_issued_count :: int
  pr_start_time_ns :: int
  pr_end_time_ns :: int

datatype fatal_error = EndpointResponseIdleTimeoutError | ReceiverFailed string

datatype task = NoTask | Running | CancelRequested

datatype run_end = Returned | RaisedFatal fatal_error | RaisedIn py_exc

datatype control =
    NotStarted
  | AwaitStrategy phase_config int "phase_config list"
  | AwaitDrain phase_config int "phase_config list"
  | Ended run_end

text \<open>The variables the stop-check closure of a phase captures.\<close>

record stop_spec =
  sp_max_duration_ns :: int
  sp_total_samples :: int
  sp_on_sample_count :: bool
  sp_phase_start_ns :: int

record session =
  stop_requested :: bool
  current_phase_stopped :: bool
  session_done :: bool
  receiving :: bool
  current_issuer :: "phase_issuer option"
  current_phase_type :: "phase_type option"
  current_strategy :: bool
  strategy_task :: task
  drain_event :: bool
  fatal :: "fatal_error option"
  last_progress_ns :: "int option"
  idle_timeout_ns :: "int option"
  progress_timer :: "int option"
  has_sample_hook :: bool
  stop_closure :: stop_spec
  phase_results :: "phase_result list"
  control_at :: control

type_synonym st = "session \<times> world"

datatype response = Result query_result | Chunk stream_chunk

text \<open>\<open>__init__\<close>.\<close>

definition session_init :: "int option \<Rightarrow> bool \<Rightarrow> session" where
  "session_init timeout hook =
     \<lparr>stop_requested = False, current_phase_stopped = False, session_done = False,
      receiving = False, current_issuer = None, current_phase_type = None,
      current_strategy = False, strategy_task = NoTask, drain_event = False, fatal = None,
      last_progress_ns = None, idle_timeout_ns = timeout, progress_timer = None,
      has_sample_hook = hook,
      stop_closure = \<lparr>sp_max_duration_ns = 0, sp_total_samples = 0, sp_on_sample_count = True,
                      sp_phase_start_ns = 0\<rparr>,
      phase_results = [], control_at = NotStarted\<rparr>"

section \<open>Stopping and the liveness guard\<close>

definition disarm :: "session \<Rightarrow> session" where
  "disarm s = s\<lparr>progress_timer := None\<rparr>"

definition cancel_strategy :: "session \<Rightarrow> session" where
  "cancel_strategy s =
     (if strategy_task s = NoTask then s else s\<lparr>strategy_task := CancelRequested\<rparr>)"

definition stop :: "session \<Rightarrow> session" where
  "stop s = cancel_strategy (disarm (s\<lparr>stop_requested := True, drain_event := True\<rparr>))"

definition stop_current_phase :: "session \<Rightarrow> session" where
  "stop_current_phase s =
     (if strategy_task s = NoTask then s else cancel_strategy (s\<lparr>current_phase_stopped := True\<rparr>))"

definition on_inflight_started :: "session \<Rightarrow> session" where
  "on_inflight_started s =
     (if idle_timeout_ns s = None \<or> progress_timer s \<noteq> None then s
      else s\<lparr>progress_timer := idle_timeout_ns s\<rparr>)"

definition on_inflight_drained :: "session \<Rightarrow> session" where
  "on_inflight_drained s = disarm (s\<lparr>drain_event := True\<rparr>)"

definition run_callback :: "callback option \<Rightarrow> session \<Rightarrow> session" where
  "run_callback cb s = (case cb of
       None \<Rightarrow> s
     | Some OnInflightStarted \<Rightarrow> on_inflight_started s
     | Some OnInflightDrained \<Rightarrow> on_inflight_drained s)"

text \<open>\<open>_fire_endpoint_response_idle_timeout\<close>.  The timer holds the delay it was armed with.\<close>

definition last_progress :: "session \<Rightarrow> int \<Rightarrow> int" where
  "last_progress s started =
     (case last_progress_ns s of None \<Rightarrow> started | Some t \<Rightarrow> max t started)"

definition fire_idle_timeout :: "st \<Rightarrow> st" where
  "fire_idle_timeout = (\<lambda>(s0, w).
     let s = s0\<lparr>progress_timer := None\<rparr>
     in if session_done s \<or> stop_requested s then (s, w)
        else (case current_issuer s of
            None \<Rightarrow> (s, w)
          | Some p \<Rightarrow>
              (case (inflight p \<le> 0, inflight_started_ns p, idle_timeout_ns s) of
                 (False, Some started, Some timeout) \<Rightarrow>
                   (let (now, w1) = monotonic_ns w; idle = now - last_progress s started
                    in if idle < timeout then (s\<lparr>progress_timer := Some (timeout - idle)\<rparr>, w1)
                       else (stop (s\<lparr>fatal := (case fatal s of None \<Rightarrow> Some EndpointResponseIdleTimeoutError
                                                | Some e \<Rightarrow> Some e)\<rparr>), w1))
               | _ \<Rightarrow> (s, w))))"

section \<open>The stop check\<close>

definition make_stop_check :: "runtime_settings \<Rightarrow> int \<Rightarrow> stop_spec result" where
  "make_stop_check settings phase_start_ns =
     (case total_samples_to_issue default_padding True settings of
        Inl e \<Rightarrow> Inl e
      | Inr total_samples \<Rightarrow> Inr
          \<lparr>sp_max_duration_ns =
             (case max_issue_duration_ms settings of Some d \<Rightarrow> d * 1000000 | None \<Rightarrow> 0),
           sp_total_samples = total_samples,
           sp_on_sample_count = (\<not> is_agentic settings),
           sp_phase_start_ns = phase_start_ns\<rparr>)"

definition stop_check :: "st \<Rightarrow> bool \<times> world" where
  "stop_check = (\<lambda>(s, w).
     let c = stop_closure s
     in if stop_requested s \<or> current_phase_stopped s then (True, w)
        else if sp_on_sample_count c
                \<and> (case current_issuer s of None \<Rightarrow> False | Some p \<Rightarrow> issued_count p \<ge> sp_total_samples c)
             then (True, w)
        else if sp_max_duration_ns c > 0 then
          (let (now, w1) = monotonic_ns w in (now - sp_phase_start_ns c \<ge> sp_max_duration_ns c, w1))
        else (False, w))"

section \<open>Events\<close>

definition publish_session_event :: "session_event \<Rightarrow> event_data \<Rightarrow> world \<Rightarrow> world" where
  "publish_session_event t d w =
     (let (ts, w1) = monotonic_ns w
      in emit [Publish ((mk_event (SessionEv t) ts)\<lparr>ev_data := d\<rparr>), Flush] w1)"

section \<open>Responses\<close>

definition conv_info :: "session \<Rightarrow> string \<Rightarrow> string \<times> int option" where
  "conv_info s qid = (case current_issuer s of
       None \<Rightarrow> ([], None)
     | Some p \<Rightarrow> (case uuid_to_conv_info p qid of None \<Rightarrow> ([], None) | Some ci \<Rightarrow> ci))"

definition complete_record :: "query_result \<Rightarrow> string \<times> int option \<Rightarrow> int \<Rightarrow> event_record" where
  "complete_record r ci now =
     (mk_sample_event (SampleEv COMPLETE)
        (case qr_completed_at r of Some t \<Rightarrow> t | None \<Rightarrow> now) (qr_id r) (fst ci) (snd ci)
        (case qr_output r of Some o' \<Rightarrow> OutputData o' | None \<Rightarrow> NoData))
       \<lparr>ev_finish_reason := qr_finish_reason r, ev_worker_id := qr_worker_id r\<rparr>"

definition error_record :: "query_result \<Rightarrow> error_data \<Rightarrow> string \<times> int option \<Rightarrow> int \<Rightarrow> event_record" where
  "error_record r e ci now =
     mk_sample_event (ErrorEv GENERIC) now (qr_id r) (fst ci) (snd ci) (ErrorD e)"

text \<open>What a final result publishes: the error first, then the completion (not in warmup).\<close>

definition result_effects :: "phase_type option \<Rightarrow> query_result \<Rightarrow> string \<times> int option \<Rightarrow> int \<Rightarrow> effect list" where
  "result_effects pt r ci now =
     (case qr_error r of None \<Rightarrow> [] | Some e \<Rightarrow> [Publish (error_record r e ci now)])
     @ (if pt \<noteq> Some WARMUP then [Publish (complete_record r ci now)] else [])"

definition handle_result :: "query_result \<Rightarrow> int \<Rightarrow> st \<Rightarrow> st" where
  "handle_result r now = (\<lambda>(s, w).
     case current_issuer s of
       None \<Rightarrow> (s, emit (result_effects (current_phase_type s) r ([], None) now) w)
     | Some p \<Rightarrow>
         if qr_id r \<in> completed_uuids p then (s, w)
         else
           let ci = conv_info s (qr_id r);
               p1 = p\<lparr>uuid_to_conv_info := (uuid_to_conv_info p)(qr_id r := None)\<rparr>;
               w1 = emit (result_effects (current_phase_type s) r ci now) w
           in if uuid_to_index p1 (qr_id r) = None then (s\<lparr>current_issuer := Some p1\<rparr>, w1)
              else
                let (cb, p2, w2) = mark_inflight_complete p1 w1;
                    s2 = run_callback cb (s\<lparr>current_issuer := Some p2\<rparr>);
                    hooks = (if current_strategy s then [StrategyComplete (qr_id r)] else [])
                      @ (if has_sample_hook s \<and> current_phase_type s \<noteq> Some WARMUP
                         then [SampleComplete r] else [])
                in (s2, emit hooks w2))"

definition handle_chunk :: "stream_chunk \<Rightarrow> int \<Rightarrow> st \<Rightarrow> st" where
  "handle_chunk c now = (\<lambda>(s, w).
     let ci = conv_info s (sc_id c)
     in (s, emit [Publish (mk_sample_event
            (if sc_first c then SampleEv RECV_FIRST else SampleEv RECV_NON_FIRST)
            now (sc_id c) (fst ci) (snd ci) NoData)] w))"

definition handle_response :: "response \<Rightarrow> int \<Rightarrow> st \<Rightarrow> st" where
  "handle_response resp now st = (case resp of
       Result r \<Rightarrow> handle_result r now st
     | Chunk c \<Rightarrow> handle_chunk c now st)"

text \<open>One round of \<open>_receive_responses\<close>, for each thing \<open>recv\<close> can do.\<close>

definition receive_response :: "response \<Rightarrow> st \<Rightarrow> st" where
  "receive_response resp = (\<lambda>(s, w).
     let (now, w1) = monotonic_ns w;
         (s1, w2) = handle_response resp now (s, w1)
     in (if idle_timeout_ns s1 \<noteq> None then s1\<lparr>last_progress_ns := Some now\<rparr> else s1, w2))"

definition receive_closed :: "session \<Rightarrow> session" where
  "receive_closed s =
     cancel_strategy (s\<lparr>stop_requested := True, drain_event := True, receiving := False\<rparr>)"

definition receive_failed :: "string \<Rightarrow> session \<Rightarrow> session" where
  "receive_failed msg s =
     stop (s\<lparr>fatal := (case fatal s of None \<Rightarrow> Some (ReceiverFailed msg) | Some e \<Rightarrow> Some e),
             receiving := False\<rparr>)"

section \<open>Phases\<close>

text \<open>The \<open>finally\<close> block of \<open>run\<close>.\<close>

definition finish :: "run_end \<Rightarrow> st \<Rightarrow> st" where
  "finish e = (\<lambda>(s, w).
     let s1 = disarm (s\<lparr>session_done := True, receiving := False, control_at := Ended e\<rparr>);
         w1 = (if stop_requested s1 then publish_session_event INTERRUPTED NoData w else w)
     in (s1, publish_session_event ENDED NoData w1))"

definition phase_start_data :: "phase_config \<Rightarrow> phase_data" where
  "phase_start_data ph =
     \<lparr>pd_phase_type = ph_type ph, pd_drain_after = ph_drain_after ph,
      pd_num_turns = (case ph_conversations ph of Some (turns, _) \<Rightarrow> turns
                      | None \<Rightarrow> n_samples_from_dataset (ph_settings ph)),
      pd_num_trajectories = (case ph_conversations ph of Some (_, n) \<Rightarrow> n | None \<Rightarrow> 0)\<rparr>"

text \<open>The strategy of a phase that brings none: only whether building it raises matters here.\<close>

definition phase_strategy_error ::
    "(rng \<Rightarrow> rat \<Rightarrow> rat \<times> rng) \<Rightarrow> phase_config \<Rightarrow> py_exc option" where
  "phase_strategy_error expo ph =
     (if ph_has_strategy ph then None
      else (case create_sample_order (ph_settings ph) (ph_type ph = ACCURACY) of
              Inl e \<Rightarrow> Some e
            | Inr o' \<Rightarrow>
                (case create_load_strategy expo (ph_settings ph) (Some o') False of
                   Inl e \<Rightarrow> Some e
                 | Inr _ \<Rightarrow> None)))"

text \<open>\<open>_run_phase\<close> up to the await of the strategy task.\<close>

definition begin_phase ::
    "(rng \<Rightarrow> rat \<Rightarrow> rat \<times> rng) \<Rightarrow> phase_config \<Rightarrow> phase_config list \<Rightarrow> st \<Rightarrow> py_exc option \<times> st" where
  "begin_phase expo ph rest = (\<lambda>(s, w).
     let (phase_start, w1) = monotonic_ns w;
         s1 = s\<lparr>current_phase_stopped := False\<rparr>;
         s2 = (if idle_timeout_ns s1 \<noteq> None then disarm (s1\<lparr>last_progress_ns := None\<rparr>) else s1)
     in (case phase_strategy_error expo ph of
           Some e \<Rightarrow> (Some e, s2, w1)
         | None \<Rightarrow>
             (case make_stop_check (ph_settings ph) phase_start of
                Inl e \<Rightarrow> (Some e, s2, w1)
              | Inr closure \<Rightarrow>
                  (let p = phase_issuer_init (ph_dataset ph) (idle_timeout_ns s2 \<noteq> None) (ph_routing_headers ph);
                       s3 = s2\<lparr>current_issuer := Some p, current_phase_type := Some (ph_type ph),
                               current_strategy := True, stop_closure := closure,
                               strategy_task := Running,
                               control_at := AwaitStrategy ph phase_start rest\<rparr>;
                       w2 = publish_session_event PHASE_START (PhaseD (phase_start_data ph)) w1;
                       w3 = (if ph_type ph = PERFORMANCE
                             then publish_session_event START_PERFORMANCE_TRACKING NoData w2 else w2)
                   in (None, s3, w3)))))"

text \<open>The \<open>for\<close> loop of \<open>run\<close>, from the top of an iteration to the next await or the end.\<close>

definition next_phase :: "(rng \<Rightarrow> rat \<Rightarrow> rat \<times> rng) \<Rightarrow> phase_config list \<Rightarrow> st \<Rightarrow> st" where
  "next_phase expo phs = (\<lambda>(s, w).
     case phs of
       [] \<Rightarrow> finish Returned (s, w)
     | ph # rest \<Rightarrow>
         (case fatal s of
            Some f \<Rightarrow> finish (RaisedFatal f) (s, w)
          | None \<Rightarrow>
              if stop_requested s then finish Returned (s, w)
              else (case begin_phase expo ph rest (s, emit [PhaseHook (ph_name ph)] w) of
                      (Some e, st') \<Rightarrow> finish (RaisedIn e) st'
                    | (None, st') \<Rightarrow> st')))"

definition run_start :: "(rng \<Rightarrow> rat \<Rightarrow> rat \<times> rng) \<Rightarrow> phase_config list \<Rightarrow> st \<Rightarrow> st" where
  "run_start expo phs = (\<lambda>(s, w).
     next_phase expo phs (s\<lparr>receiving := True\<rparr>,
       publish_session_event STARTED NoData (snd (monotonic_ns w))))"

text \<open>The end of \<open>_run_phase\<close> after the drain, and the loop tail of \<open>run\<close>.\<close>

definition stop_tracking_if :: "bool \<Rightarrow> st \<Rightarrow> st" where
  "stop_tracking_if perf = (\<lambda>(s, w). case current_issuer s of
       None \<Rightarrow> (s, w)
     | Some p \<Rightarrow> if perf then (let (p1, w1) = stop_performance_tracking p w
                             in (s\<lparr>current_issuer := Some p1\<rparr>, w1))
               else (s, w))"

definition end_phase ::
    "(rng \<Rightarrow> rat \<Rightarrow> rat \<times> rng) \<Rightarrow> phase_config \<Rightarrow> int \<Rightarrow> phase_config list \<Rightarrow> st \<Rightarrow> st" where
  "end_phase expo ph phase_start rest st =
     (let (s1, w1) = stop_tracking_if (ph_type ph = PERFORMANCE) st;
          (phase_end, w2) = monotonic_ns w1;
          s2 = (case current_issuer s1 of
                  Some p \<Rightarrow> (if ph_type ph = WARMUP then s1
                    else s1\<lparr>phase_results := phase_results s1 @
                      [\<lparr>pr_name = ph_name ph, pr_phase_type = ph_type ph,
                        pr_uuid_to_index = uuid_to_index p, pr_issued_count = issued_count p,
                        pr_start_time_ns = phase_start, pr_end_time_ns = phase_end\<rparr>]\<rparr>)
                | None \<Rightarrow> s1)
      in (case fatal s2 of
            Some f \<Rightarrow> finish (RaisedFatal f) (s2, w2)
          | None \<Rightarrow> next_phase expo rest (s2, w2)))"

definition nothing_to_drain :: "session \<Rightarrow> bool" where
  "nothing_to_drain s =
     (stop_requested s \<or> (case current_issuer s of None \<Rightarrow> True | Some p \<Rightarrow> inflight p \<le> 0))"

text \<open>After the strategy task has ended or was cancelled; then \<open>_drain_inflight\<close> up to its wait.\<close>

definition after_strategy ::
    "(rng \<Rightarrow> rat \<Rightarrow> rat \<times> rng) \<Rightarrow> phase_config \<Rightarrow> int \<Rightarrow> phase_config list \<Rightarrow> st \<Rightarrow> st" where
  "after_strategy expo ph phase_start rest = (\<lambda>(s, w).
     let s1 = s\<lparr>strategy_task := NoTask\<rparr>
     in if ph_drain_after ph \<and> \<not> nothing_to_drain s1
        then (s1\<lparr>drain_event := False, control_at := AwaitDrain ph phase_start rest\<rparr>, w)
        else end_phase expo ph phase_start rest (s1, w))"

section \<open>The machine\<close>

datatype input =
    InIssue int "pydict option" string "int option"
  | InSkip int string "int option"
  | InTerminate string
  | InStopTracking
  | InStrategyDone
  | InStrategyCancelled
  | InStrategyRaises py_exc
  | InDrainWake
  | InDrainTimeout
  | InResponse response
  | InTransportClosed
  | InReceiverFails string
  | InTimer
  | InStop
  | InStopPhase

definition awaiting_strategy :: "session \<Rightarrow> bool" where
  "awaiting_strategy s = (case control_at s of AwaitStrategy _ _ _ \<Rightarrow> True | _ \<Rightarrow> False)"

text \<open>Calls of a running strategy on the phase issuer; the last one is the agentic strategy ending
  a timed-out query itself.\<close>

definition strategy_issue :: "int \<Rightarrow> pydict option \<Rightarrow> string \<Rightarrow> int option \<Rightarrow> phase_issuer \<Rightarrow> st \<Rightarrow> st" where
  "strategy_issue i ov cid turn p = (\<lambda>(s, w).
     let (stop, w1) = stop_check (s, w); (r, cb, p', w2) = issue stop i ov cid turn p w1
     in (run_callback cb (s\<lparr>current_issuer := Some p'\<rparr>), w2))"

definition strategy_skip :: "int \<Rightarrow> string \<Rightarrow> int option \<Rightarrow> phase_issuer \<Rightarrow> st \<Rightarrow> st" where
  "strategy_skip i cid turn p = (\<lambda>(s, w).
     let (stop, w1) = stop_check (s, w); (r, p', w2) = register_skipped stop i cid turn p w1
     in (s\<lparr>current_issuer := Some p'\<rparr>, w2))"

definition strategy_terminate :: "string \<Rightarrow> phase_issuer \<Rightarrow> st \<Rightarrow> st" where
  "strategy_terminate qid p = (\<lambda>(s, w).
     let (cb, p1, w1) = mark_inflight_complete p w;
         p2 = p1\<lparr>completed_uuids := insert qid (completed_uuids p1),
                 uuid_to_conv_info := (uuid_to_conv_info p1)(qid := None)\<rparr>
     in (run_callback cb (s\<lparr>current_issuer := Some p2\<rparr>), w1))"

definition stop_tracking :: "phase_issuer \<Rightarrow> st \<Rightarrow> st" where
  "stop_tracking p = (\<lambda>(s, w).
     let (p1, w1) = stop_performance_tracking p w in (s\<lparr>current_issuer := Some p1\<rparr>, w1))"

definition strategy_call :: "(phase_issuer \<Rightarrow> st \<Rightarrow> st) \<Rightarrow> st \<Rightarrow> st option" where
  "strategy_call f = (\<lambda>(s, w).
     if awaiting_strategy s then (case current_issuer s of None \<Rightarrow> None | Some p \<Rightarrow> Some (f p (s, w)))
     else None)"

text \<open>An input that cannot happen in a state is no step.\<close>

fun session_step :: "(rng \<Rightarrow> rat \<Rightarrow> rat \<times> rng) \<Rightarrow> st \<Rightarrow> input \<Rightarrow> st option" where
  "session_step expo st (InIssue i ov cid turn) = strategy_call (strategy_issue i ov cid turn) st"
| "session_step expo st (InSkip i cid turn) = strategy_call (strategy_skip i cid turn) st"
| "session_step expo st (InTerminate qid) = strategy_call (strategy_terminate qid) st"
| "session_step expo st InStopTracking = strategy_call stop_tracking st"
| "session_step expo st InStrategyDone =
     (case control_at (fst st) of
        AwaitStrategy ph t rest \<Rightarrow> Some (after_strategy expo ph t rest st) | _ \<Rightarrow> None)"
| "session_step expo st InStrategyCancelled =
     (case control_at (fst st) of
        AwaitStrategy ph t rest \<Rightarrow>
          (if strategy_task (fst st) = CancelRequested then Some (after_strategy expo ph t rest st) else None)
      | _ \<Rightarrow> None)"
| "session_step expo st (InStrategyRaises e) =
     (case control_at (fst st) of
        AwaitStrategy ph t rest \<Rightarrow>
          Some (finish (RaisedIn e) ((fst st)\<lparr>strategy_task := NoTask\<rparr>, snd st))
      | _ \<Rightarrow> None)"
| "session_step expo st InDrainWake =
     (case control_at (fst st) of
        AwaitDrain ph t rest \<Rightarrow>
          (if drain_event (fst st) then Some (end_phase expo ph t rest st) else None)
      | _ \<Rightarrow> None)"
| "session_step expo st InDrainTimeout =
     (case control_at (fst st) of
        AwaitDrain ph t rest \<Rightarrow>
          (if ph_drain_timeout ph \<noteq> None \<and> \<not> drain_event (fst st)
           then Some (end_phase expo ph t rest (stop (fst st), snd st)) else None)
      | _ \<Rightarrow> None)"
| "session_step expo st (InResponse resp) =
     (if receiving (fst st) then Some (receive_response resp st) else None)"
| "session_step expo st InTransportClosed =
     (if receiving (fst st) then Some (receive_closed (fst st), snd st) else None)"
| "session_step expo st (InReceiverFails msg) =
     (if receiving (fst st) then Some (receive_failed msg (fst st), snd st) else None)"
| "session_step expo st InTimer =
     (if progress_timer (fst st) \<noteq> None then Some (fire_idle_timeout st) else None)"
| "session_step expo st InStop = Some (stop (fst st), snd st)"
| "session_step expo st InStopPhase = Some (stop_current_phase (fst st), snd st)"

inductive reach :: "(rng \<Rightarrow> rat \<Rightarrow> rat \<times> rng) \<Rightarrow> st \<Rightarrow> st \<Rightarrow> bool" for expo st0 where
  reach_init: "reach expo st0 st0"
| reach_step: "reach expo st0 st \<Longrightarrow> session_step expo st i = Some st' \<Longrightarrow> reach expo st0 st'"

inductive_cases reach_stepE: "reach expo st0 st"

lemma reach_invariant:
  assumes "reach expo st0 st" and "P st0"
    and "\<And>st i st'. P st \<Longrightarrow> session_step expo st i = Some st' \<Longrightarrow> P st'"
  shows "P st"
  using assms(1) by (induction rule: reach.induct) (use assms(2,3) in auto)

end
