(* ===== verification/SessionFacts.thy ===== *)
theory SessionFacts
  imports Session
begin

text \<open>
  What holds in every reachable state of the session machine: the liveness guard is armed
  whenever it should be, a waiting drain can be woken exactly when it has nothing left to wait
  for, the issued count respects the phase's total, and the session events form the protocol
  the metrics service relies on.
\<close>

section \<open>The guard and the drain: the session invariant\<close>

text \<open>
  The facts one phase rests on: the issuer's counters are sane, the liveness timer is armed
  whenever requests are in flight (unless the session is stopping), the drain event is set
  exactly when a waiting drain has nothing left to wait for, and the stop check keeps the
  issued count within the phase's total.
\<close>

definition issuer_sane :: "session \<Rightarrow> phase_issuer \<Rightarrow> bool" where
  "issuer_sane s p = (0 \<le> inflight p
     \<and> (pi_has_started_callback p \<longleftrightarrow> idle_timeout_ns s \<noteq> None)
     \<and> (pi_has_started_callback p \<longrightarrow> (inflight_started_ns p \<noteq> None \<longleftrightarrow> 0 < inflight p))
     \<and> (sp_on_sample_count (stop_closure s) \<longrightarrow>
          issued_count p \<le> max 0 (sp_total_samples (stop_closure s))))"

definition guard_armed :: "session \<Rightarrow> phase_issuer \<Rightarrow> bool" where
  "guard_armed s p = (0 < inflight p \<longrightarrow> idle_timeout_ns s \<noteq> None \<longrightarrow> \<not> stop_requested s
     \<longrightarrow> \<not> session_done s \<longrightarrow> progress_timer s \<noteq> None)"

definition session_sane :: "session \<Rightarrow> bool" where
  "session_sane s = (case current_issuer s of None \<Rightarrow> True | Some p \<Rightarrow> issuer_sane s p)"

definition session_ok :: "session \<Rightarrow> bool" where
  "session_ok s = (session_sane s
     \<and> (case current_issuer s of None \<Rightarrow> \<not> awaiting_strategy s | Some p \<Rightarrow> guard_armed s p)
     \<and> (case control_at s of
          AwaitDrain _ _ _ \<Rightarrow> current_issuer s \<noteq> None \<and> (drain_event s \<longleftrightarrow> nothing_to_drain s)
        | _ \<Rightarrow> True)
     \<and> (session_done s \<longleftrightarrow> (case control_at s of Ended _ \<Rightarrow> True | _ \<Rightarrow> False))
     \<and> (session_done s \<longrightarrow> progress_timer s = None \<and> \<not> receiving s))"

lemmas session_ops = disarm_def cancel_strategy_def stop_def stop_current_phase_def
  on_inflight_started_def on_inflight_drained_def

lemma finish_ok: "session_sane s \<Longrightarrow> session_ok (fst (finish e (s, w)))"
  by (auto simp: finish_def session_ok_def session_sane_def awaiting_strategy_def issuer_sane_def
      guard_armed_def disarm_def Let_def split: option.splits)

lemma begin_phase_result:
  assumes "begin_phase expo ph rest (s, w) = (err, s', w')"
  obtains (raised) e s2 where "err = Some e" "s' = s2" "current_issuer s2 = current_issuer s"
      "idle_timeout_ns s2 = idle_timeout_ns s" "stop_closure s2 = stop_closure s"
      "stop_requested s2 = stop_requested s" "session_done s2 = session_done s"
      "phase_results s2 = phase_results s" "control_at s2 = control_at s"
  | (begun) closure s2 t where "err = None" "idle_timeout_ns s2 = idle_timeout_ns s"
      "stop_requested s2 = stop_requested s" "session_done s2 = session_done s"
      "receiving s2 = receiving s" "fatal s2 = fatal s" "phase_results s2 = phase_results s"
      "make_stop_check (ph_settings ph) t = Inr closure" "t = ticks w (tpos w)"
      "s' = s2\<lparr>current_issuer := Some (phase_issuer_init (ph_dataset ph) (idle_timeout_ns s \<noteq> None)
               (ph_routing_headers ph)),
             current_phase_type := Some (ph_type ph),
             current_strategy := True, stop_closure := closure, strategy_task := Running,
             control_at := AwaitStrategy ph t rest\<rparr>"
proof -
  define s1 where "s1 = s\<lparr>current_phase_stopped := False\<rparr>"
  define s2 where "s2 = (if idle_timeout_ns s1 \<noteq> None then disarm (s1\<lparr>last_progress_ns := None\<rparr>) else s1)"
  have keep: "current_issuer s2 = current_issuer s" "idle_timeout_ns s2 = idle_timeout_ns s"
    "stop_closure s2 = stop_closure s" "stop_requested s2 = stop_requested s"
    "session_done s2 = session_done s" "phase_results s2 = phase_results s"
    "control_at s2 = control_at s" "receiving s2 = receiving s" "fatal s2 = fatal s"
    by (simp_all add: s2_def s1_def disarm_def)
  define begun' where "begun' closure = s2\<lparr>current_issuer := Some (phase_issuer_init (ph_dataset ph)
               (idle_timeout_ns s2 \<noteq> None) (ph_routing_headers ph)),
             current_phase_type := Some (ph_type ph),
             current_strategy := True, stop_closure := closure, strategy_task := Running,
             control_at := AwaitStrategy ph (ticks w (tpos w)) rest\<rparr>" for closure
  note eq = assms [unfolded begin_phase_def monotonic_ns_def Let_def prod.case,
      folded s1_def, folded s2_def, folded begun'_def]
  show thesis
  proof (cases "phase_strategy_error expo ph")
    case (Some e)
    then have "err = Some e" "s' = s2" using eq by auto
    then show thesis using raised keep by blast
  next
    case ok: None
    show thesis
    proof (cases "make_stop_check (ph_settings ph) (ticks w (tpos w))")
      case (Inl e)
      then have "err = Some e" "s' = s2" using eq ok by auto
      then show thesis using raised keep by blast
    next
      case (Inr closure)
      then have "err = None" "s' = begun' closure" using eq ok by auto
      then show thesis
        using begun [of s2 "ticks w (tpos w)" closure] Inr keep by (simp add: begun'_def)
    qed
  qed
qed

lemma begin_phase_ok:
  assumes "begin_phase expo ph rest (s, w) = (err, s', w')" and "session_sane s" "\<not> session_done s"
  shows "session_sane s' \<and> (err = None \<longrightarrow> session_ok s')"
proof -
  have fresh: "session_ok s'" if "s' = s2\<lparr>current_issuer := Some (phase_issuer_init (ph_dataset ph)
        (idle_timeout_ns s \<noteq> None) (ph_routing_headers ph)),
        current_phase_type := Some (ph_type ph), current_strategy := True, stop_closure := closure,
        strategy_task := Running, control_at := AwaitStrategy ph t rest\<rparr>"
      "idle_timeout_ns s2 = idle_timeout_ns s" "session_done s2 = session_done s" for s2 closure t
    using that assms(3)
    by (simp add: session_ok_def session_sane_def issuer_sane_def guard_armed_def
        phase_issuer_init_def)
  show ?thesis
    using assms(1)
  proof (cases rule: begin_phase_result)
    case (raised e s2)
    then show ?thesis using assms(2)
      by (auto simp: session_sane_def issuer_sane_def split: option.splits)
  next
    case (begun closure s2 t)
    then have "session_ok s'" by (intro fresh)
    then show ?thesis by (simp add: session_ok_def)
  qed
qed

lemma next_phase_ok:
  assumes "session_sane s" "\<not> session_done s"
  shows "session_ok (fst (next_phase expo phs (s, w)))"
proof (cases phs)
  case Nil
  then show ?thesis using finish_ok [OF assms(1)] by (simp add: next_phase_def)
next
  case (Cons ph rest)
  obtain err s' w' where b: "begin_phase expo ph rest (s, emit [PhaseHook (ph_name ph)] w) = (err, s', w')"
    by (metis surj_pair)
  show ?thesis
    using begin_phase_ok [OF b assms] finish_ok [of s] finish_ok [of s'] assms(1)
    by (auto simp: next_phase_def Cons b split: option.splits)
qed

lemma stop_tracking_frame:
  assumes "stop_performance_tracking p w = (p1, w1)"
  shows "inflight p1 = inflight p" "inflight_started_ns p1 = inflight_started_ns p"
    "issued_count p1 = issued_count p" "pi_has_started_callback p1 = pi_has_started_callback p"
  using assms by (auto simp: stop_performance_tracking_def Let_def monotonic_ns_def split: if_splits)

lemma stop_tracking_if_sane:
  assumes "stop_tracking_if b (s, w) = (s1, w1)"
  shows "session_sane s1 = session_sane s" "session_done s1 = session_done s"
  using assms
  by (auto simp: stop_tracking_if_def session_sane_def issuer_sane_def stop_tracking_frame
      split: option.splits if_splits prod.splits)

lemma end_phase_ok:
  assumes "session_sane s" "\<not> session_done s"
  shows "session_ok (fst (end_phase expo ph t rest (s, w)))"
proof -
  obtain s1 w1 where t: "stop_tracking_if (ph_type ph = PERFORMANCE) (s, w) = (s1, w1)"
    by (metis surj_pair)
  define s2 where "s2 = (case current_issuer s1 of
                  Some p \<Rightarrow> (if ph_type ph = WARMUP then s1
                    else s1\<lparr>phase_results := phase_results s1 @
                      [\<lparr>pr_name = ph_name ph, pr_phase_type = ph_type ph,
                        pr_uuid_to_index = uuid_to_index p, pr_issued_count = issued_count p,
                        pr_start_time_ns = t, pr_end_time_ns = ticks w1 (tpos w1)\<rparr>]\<rparr>)
                | None \<Rightarrow> s1)"
  have s2: "session_sane s2" "\<not> session_done s2"
    using stop_tracking_if_sane [OF t] assms
    by (auto simp: s2_def session_sane_def issuer_sane_def split: option.splits)
  have "end_phase expo ph t rest (s, w) =
      (case fatal s2 of Some f \<Rightarrow> finish (RaisedFatal f) (s2, snd (monotonic_ns w1))
       | None \<Rightarrow> next_phase expo rest (s2, snd (monotonic_ns w1)))"
    unfolding end_phase_def t Let_def prod.case monotonic_ns_def s2_def snd_conv fst_conv ..
  then show ?thesis
    using finish_ok [OF s2(1)] next_phase_ok [OF s2] by (auto split: option.splits)
qed

lemma after_strategy_ok:
  assumes "session_ok s" "\<not> session_done s"
  shows "session_ok (fst (after_strategy expo ph t rest (s, w)))"
proof -
  let ?s1 = "s\<lparr>strategy_task := NoTask\<rparr>"
  have s1: "session_sane ?s1" "\<not> session_done ?s1"
    using assms by (auto simp: session_ok_def session_sane_def issuer_sane_def split: option.splits)
  show ?thesis
  proof (cases "ph_drain_after ph \<and> \<not> nothing_to_drain ?s1")
    case True
    then show ?thesis using assms s1
      by (auto simp: after_strategy_def Let_def session_ok_def session_sane_def issuer_sane_def
          guard_armed_def nothing_to_drain_def awaiting_strategy_def split: option.splits)
  next
    case False
    then show ?thesis using end_phase_ok [OF s1] by (auto simp: after_strategy_def Let_def)
  qed
qed

lemma session_ok_same_counters:
  assumes "session_ok s" "current_issuer s = Some p" "counters p' = counters p"
  shows "session_ok (s\<lparr>current_issuer := Some p'\<rparr>)"
  using assms
  by (auto simp: session_ok_def session_sane_def issuer_sane_def guard_armed_def counters_def
      nothing_to_drain_def awaiting_strategy_def split: control.splits)

lemma mark_complete_ok:
  assumes "session_ok s" "current_issuer s = Some p"
    and "mark_inflight_complete p w = (cb, p1, w1)" "counters p2 = counters p1"
  shows "session_ok (run_callback cb (s\<lparr>current_issuer := Some p2\<rparr>))"
proof (cases "inflight p \<le> 0")
  case True
  then have "cb = None" "p1 = p" using assms(3) by (auto simp: mark_inflight_complete_def)
  then show ?thesis
    using session_ok_same_counters [OF assms(1,2)] assms(4) by (simp add: run_callback_def)
next
  case pos: False
  show ?thesis
  proof (cases "inflight p = 1")
    case True
    then have "cb = Some OnInflightDrained" "p1 = p\<lparr>inflight := 0, inflight_started_ns := None\<rparr>"
      using assms(3) by (auto simp: mark_inflight_complete_def Let_def)
    then show ?thesis using assms(1,2,4)
      by (auto simp: run_callback_def on_inflight_drained_def disarm_def session_ok_def session_sane_def
          issuer_sane_def guard_armed_def counters_def nothing_to_drain_def awaiting_strategy_def
          split: control.splits)
  next
    case False
    then have "cb = None" "p1 = p\<lparr>inflight := inflight p - 1\<rparr>"
      using assms(3) pos by (auto simp: mark_inflight_complete_def Let_def split: if_splits)
    then show ?thesis using assms(1,2,4) pos False
      by (auto simp: run_callback_def session_ok_def session_sane_def
          issuer_sane_def guard_armed_def counters_def nothing_to_drain_def awaiting_strategy_def
          split: control.splits)
  qed
qed

lemma stop_check_false:
  assumes "stop_check (s, w) = (False, w1)"
  shows "\<not> stop_requested s" "\<not> current_phase_stopped s"
    "current_issuer s = Some p \<Longrightarrow> sp_on_sample_count (stop_closure s) \<Longrightarrow>
       issued_count p < sp_total_samples (stop_closure s)"
  using assms by (auto simp: stop_check_def Let_def split: if_splits option.splits)

lemma awaiting_control:
  "awaiting_strategy s \<Longrightarrow> control_at s \<noteq> AwaitDrain ph t rest"
  by (auto simp: awaiting_strategy_def)

lemma issued_ok:
  assumes "session_ok s" "current_issuer s = Some p" "awaiting_strategy s"
    and "\<not> stop_requested s"
    and "sp_on_sample_count (stop_closure s) \<Longrightarrow> issued_count p < sp_total_samples (stop_closure s)"
    and "inflight p' = inflight p + 1" "issued_count p' = issued_count p + 1"
    and "pi_has_started_callback p' = pi_has_started_callback p"
    and "inflight_started_ns p' \<noteq> None \<longleftrightarrow>
           (inflight p = 0 \<and> pi_has_started_callback p) \<or> inflight_started_ns p \<noteq> None"
    and "cb = (if inflight p = 0 \<and> pi_has_started_callback p then Some OnInflightStarted else None)"
  shows "session_ok (run_callback cb (s\<lparr>current_issuer := Some p'\<rparr>))"
proof -
  have sane: "issuer_sane s p" and g: "guard_armed s p"
    using assms(1,2) by (auto simp: session_ok_def session_sane_def)
  have sane': "issuer_sane s p'"
    using sane assms(5-9) by (auto simp: issuer_sane_def)
  have ctrl: "case control_at s of AwaitDrain _ _ _ \<Rightarrow> False | _ \<Rightarrow> True"
    using assms(3) by (auto simp: awaiting_strategy_def split: control.splits)
  define s1 where "s1 = run_callback cb (s\<lparr>current_issuer := Some p'\<rparr>)"
  have f: "current_issuer s1 = Some p'" "control_at s1 = control_at s" "session_done s1 = session_done s"
    "receiving s1 = receiving s" "idle_timeout_ns s1 = idle_timeout_ns s"
    "stop_closure s1 = stop_closure s" "stop_requested s1 = stop_requested s"
    by (auto simp: s1_def run_callback_def assms(10) on_inflight_started_def)
  have "session_done s \<Longrightarrow> False"
    using assms(1,3) by (auto simp: session_ok_def awaiting_strategy_def split: control.splits)
  moreover have "guard_armed s1 p'"
  proof (cases "inflight p = 0 \<and> pi_has_started_callback p")
    case True
    then show ?thesis
      by (auto simp: guard_armed_def s1_def run_callback_def assms(10) on_inflight_started_def)
  next
    case False
    then have "s1 = s\<lparr>current_issuer := Some p'\<rparr>" by (auto simp: s1_def run_callback_def assms(10))
    moreover have "inflight p > 0" if "idle_timeout_ns s \<noteq> None"
      using that False sane by (auto simp: issuer_sane_def)
    ultimately show ?thesis using g by (auto simp: guard_armed_def)
  qed
  ultimately have "session_ok s1"
    using sane' assms(1,3) ctrl f
    by (auto simp: session_ok_def session_sane_def issuer_sane_def awaiting_strategy_def
        split: control.splits)
  then show ?thesis by (simp add: s1_def)
qed

lemma strategy_issue_ok:
  assumes "session_ok s" "current_issuer s = Some p" "awaiting_strategy s"
  shows "session_ok (fst (strategy_issue i ov cid turn p (s, w)))"
proof -
  obtain b w1 where sc: "stop_check (s, w) = (b, w1)" by force
  obtain r cb p' w2 where iss: "issue b i ov cid turn p w1 = (r, cb, p', w2)" by (metis surj_pair)
  have eq: "fst (strategy_issue i ov cid turn p (s, w)) = run_callback cb (s\<lparr>current_issuer := Some p'\<rparr>)"
    by (simp add: strategy_issue_def sc iss)
  from issue_cases [OF iss] show ?thesis
  proof (elim disjE conjE)
    assume "cb = None" "p' = p"
    then show ?thesis using session_ok_same_counters [OF assms(1,2)] by (simp add: eq run_callback_def)
  next
    assume "issue_failed p w1 r cb p' w2"
    then have "cb = None" "counters p' = counters p" by (auto simp: issue_failed_def)
    then show ?thesis using session_ok_same_counters [OF assms(1,2)] by (simp add: eq run_callback_def)
  next
    assume "\<not> b" and sent: "issue_sent i cid turn p w1 r cb p' w2"
    then have sc': "stop_check (s, w) = (False, w1)" using sc by simp
    show ?thesis unfolding eq
      by (rule issued_ok [OF assms stop_check_false(1) [OF sc'] stop_check_false(3) [OF sc' assms(2)]])
         (use sent in \<open>simp_all add: issue_sent_def Let_def\<close>)
  qed
qed

lemma strategy_skip_ok:
  assumes "session_ok s" "current_issuer s = Some p" "awaiting_strategy s"
  shows "session_ok (fst (strategy_skip i cid turn p (s, w)))"
proof -
  obtain b w1 where sc: "stop_check (s, w) = (b, w1)" by force
  obtain r p' w2 where sk: "register_skipped b i cid turn p w1 = (r, p', w2)" by (metis surj_pair)
  have eq: "fst (strategy_skip i cid turn p (s, w)) = s\<lparr>current_issuer := Some p'\<rparr>"
    by (simp add: strategy_skip_def sc sk)
  show ?thesis
  proof (cases b)
    case True
    then show ?thesis using sk session_ok_same_counters [OF assms(1,2)]
      unfolding eq by (simp add: register_skipped_def)
  next
    case False
    then have sc': "stop_check (s, w) = (False, w1)" using sc by simp
    have "inflight p' = inflight p" "issued_count p' = issued_count p + 1"
      "pi_has_started_callback p' = pi_has_started_callback p"
      "inflight_started_ns p' = inflight_started_ns p"
      using sk False by (auto simp: register_skipped_def Let_def new_uuid_def monotonic_ns_def)
    then show ?thesis
      using assms stop_check_false [OF sc'] unfolding eq
      by (auto simp: session_ok_def session_sane_def issuer_sane_def guard_armed_def
          nothing_to_drain_def awaiting_strategy_def split: control.splits)
  qed
qed

lemma strategy_terminate_ok:
  assumes "session_ok s" "current_issuer s = Some p"
  shows "session_ok (fst (strategy_terminate qid p (s, w)))"
proof -
  obtain cb p1 w1 where m: "mark_inflight_complete p w = (cb, p1, w1)" by (metis surj_pair)
  show ?thesis
    using mark_complete_ok [OF assms m] by (simp add: strategy_terminate_def m counters_def)
qed

lemma stop_tracking_ok:
  assumes "session_ok s" "current_issuer s = Some p"
  shows "session_ok (fst (stop_tracking p (s, w)))"
  using assms
  by (auto simp: stop_tracking_def stop_performance_tracking_def Let_def monotonic_ns_def
      session_ok_def session_sane_def issuer_sane_def guard_armed_def nothing_to_drain_def
      awaiting_strategy_def split: control.splits)

lemma stop_ok: "session_ok s \<Longrightarrow> session_ok (stop s)"
  by (auto simp: stop_def cancel_strategy_def disarm_def session_ok_def session_sane_def
      issuer_sane_def guard_armed_def nothing_to_drain_def awaiting_strategy_def
      split: control.splits option.splits)

lemma stop_current_phase_ok: "session_ok s \<Longrightarrow> session_ok (stop_current_phase s)"
  by (auto simp: stop_current_phase_def cancel_strategy_def session_ok_def session_sane_def
      issuer_sane_def guard_armed_def nothing_to_drain_def awaiting_strategy_def
      split: control.splits option.splits)

lemma receive_closed_ok: "session_ok s \<Longrightarrow> session_ok (receive_closed s)"
  by (auto simp: receive_closed_def cancel_strategy_def session_ok_def session_sane_def
      issuer_sane_def guard_armed_def nothing_to_drain_def awaiting_strategy_def
      split: control.splits option.splits)

lemma session_ok_fields:
  "session_ok s \<Longrightarrow> session_ok (s\<lparr>fatal := f, receiving := False\<rparr>)"
  "session_ok s \<Longrightarrow> session_ok (s\<lparr>last_progress_ns := t\<rparr>)"
  "session_ok s \<Longrightarrow> session_ok (s\<lparr>fatal := f\<rparr>)"
  by (auto simp: session_ok_def session_sane_def
      issuer_sane_def guard_armed_def nothing_to_drain_def awaiting_strategy_def
      split: control.splits option.splits)

lemma receive_failed_ok: "session_ok s \<Longrightarrow> session_ok (receive_failed msg s)"
  unfolding receive_failed_def by (intro stop_ok session_ok_fields)

lemma handle_result_ok:
  assumes "session_ok s" shows "session_ok (fst (handle_result r now (s, w)))"
proof (cases "current_issuer s")
  case None
  then show ?thesis using assms by (simp add: handle_result_def)
next
  case (Some p)
  show ?thesis
  proof (cases "qr_id r \<in> completed_uuids p")
    case True
    then show ?thesis using assms Some by (simp add: handle_result_def)
  next
    case live: False
    define p1 where "p1 = p\<lparr>uuid_to_conv_info := (uuid_to_conv_info p)(qr_id r := None)\<rparr>"
    have p1: "session_ok (s\<lparr>current_issuer := Some p1\<rparr>)"
      using session_ok_same_counters [OF assms Some, of p1] by (simp add: p1_def counters_def)
    define w1 where "w1 = emit (result_effects (current_phase_type s) r (conv_info s (qr_id r)) now) w"
    obtain cb p2 w2 where m: "mark_inflight_complete p1 w1 = (cb, p2, w2)" by (metis surj_pair)
    have "session_ok (run_callback cb ((s\<lparr>current_issuer := Some p1\<rparr>)\<lparr>current_issuer := Some p2\<rparr>))"
      by (rule mark_complete_ok [OF p1 _ m]) simp_all
    then show ?thesis using Some live p1 m
      by (auto simp: handle_result_def Let_def p1_def [symmetric] w1_def [symmetric])
  qed
qed

lemma handle_chunk_session [simp]: "fst (handle_chunk c now (s, w)) = s"
  by (simp add: handle_chunk_def Let_def)

lemma receive_response_ok: "session_ok s \<Longrightarrow> session_ok (fst (receive_response resp (s, w)))"
proof -
  assume ok: "session_ok s"
  obtain s1 w2 where h: "handle_response resp (ticks w (tpos w)) (s, snd (monotonic_ns w)) = (s1, w2)"
    by force
  have "session_ok s1"
    using h handle_result_ok [OF ok] by (cases resp) (metis fst_conv handle_chunk_session handle_response_def ok response.simps(5,6))+
  then show ?thesis
    using h session_ok_fields(2) [of s1] by (simp add: receive_response_def monotonic_ns_def)
qed

lemma fire_ok:
  assumes "session_ok s" shows "session_ok (fst (fire_idle_timeout (s, w)))"
proof -
  let ?s = "s\<lparr>progress_timer := None\<rparr>"
  have trivial: "session_ok ?s" if "session_done s \<or> stop_requested s \<or> current_issuer s = None
      \<or> (\<exists>p. current_issuer s = Some p \<and> inflight p \<le> 0) \<or> idle_timeout_ns s = None"
    using assms that
    by (auto simp: session_ok_def session_sane_def issuer_sane_def guard_armed_def
        nothing_to_drain_def awaiting_strategy_def split: control.splits option.splits)
  show ?thesis
  proof (cases "session_done s \<or> stop_requested s \<or> current_issuer s = None
      \<or> (\<exists>p. current_issuer s = Some p \<and> inflight p \<le> 0) \<or> idle_timeout_ns s = None")
    case True
    then show ?thesis using trivial
      by (auto simp: fire_idle_timeout_def Let_def split: option.splits bool.splits)
  next
    case False
    then obtain p timeout where p: "current_issuer s = Some p" "0 < inflight p" "idle_timeout_ns s = Some timeout"
      "\<not> session_done s" "\<not> stop_requested s" by auto
    then obtain started where st: "inflight_started_ns p = Some started"
      using assms by (auto simp: session_ok_def session_sane_def issuer_sane_def)
    have rearm: "session_ok (?s\<lparr>progress_timer := Some d\<rparr>)" for d
      using assms p
      by (auto simp: session_ok_def session_sane_def issuer_sane_def guard_armed_def
        nothing_to_drain_def awaiting_strategy_def split: control.splits option.splits)
    have stopped: "session_ok (stop (?s\<lparr>fatal := f\<rparr>))" for f
      using stop_ok [OF session_ok_fields(3) [OF assms, of f]]
      by (simp add: stop_def disarm_def cancel_strategy_def split: if_splits)
    show ?thesis using p st rearm stopped
      by (auto simp: fire_idle_timeout_def Let_def monotonic_ns_def)
  qed
qed

lemma strategy_call_ok:
  assumes "strategy_call f (s, w) = Some st'"
    and "\<And>p. current_issuer s = Some p \<Longrightarrow> awaiting_strategy s \<Longrightarrow> session_ok (fst (f p (s, w)))"
  shows "session_ok (fst st')"
  using assms by (auto simp: strategy_call_def split: if_splits option.splits)

lemma not_done: "session_ok s \<Longrightarrow> (\<And>e. control_at s \<noteq> Ended e) \<Longrightarrow> \<not> session_done s"
  by (auto simp: session_ok_def split: control.splits)

lemma session_ok_sane: "session_ok s \<Longrightarrow> session_sane s"
  by (simp add: session_ok_def)

lemma end_phase_ok':
  assumes "session_ok s" "control_at s = AwaitDrain ph' t' rest'"
  shows "session_ok (fst (end_phase expo ph t rest (s, w)))"
  by (rule end_phase_ok [OF session_ok_sane [OF assms(1)] not_done [OF assms(1)]]) (simp add: assms(2))

lemma session_ok_step:
  assumes "session_ok (fst st)" and "session_step expo st i = Some st'"
  shows "session_ok (fst st')"
proof -
  obtain s w where st: "st = (s, w)" by force
  have ok: "session_ok s" using assms(1) st by simp
  have nd: "\<not> session_done s" if "control_at s = AwaitStrategy a b c" for a b c
    using not_done [OF ok] that by simp
  have nd': "\<not> session_done s" if "control_at s = AwaitDrain a b c" for a b c
    using not_done [OF ok] that by simp
  show ?thesis
  proof (cases i)
    case (InIssue x ov cid turn)
    with assms(2) st strategy_call_ok [of _ s w st'] strategy_issue_ok [OF ok] show ?thesis by simp
  next
    case (InSkip x cid turn)
    with assms(2) st strategy_call_ok [of _ s w st'] strategy_skip_ok [OF ok] show ?thesis by simp
  next
    case (InTerminate qid)
    with assms(2) st strategy_call_ok [of _ s w st'] strategy_terminate_ok [OF ok] show ?thesis by simp
  next
    case InStopTracking
    with assms(2) st strategy_call_ok [of _ s w st'] stop_tracking_ok [OF ok] show ?thesis by simp
  next
    case InStrategyDone
    with assms(2) st after_strategy_ok [OF ok nd] show ?thesis by (auto split: control.splits)
  next
    case InStrategyCancelled
    with assms(2) st after_strategy_ok [OF ok nd] show ?thesis by (auto split: control.splits if_splits)
  next
    case (InStrategyRaises e)
    have "session_sane (s\<lparr>strategy_task := NoTask\<rparr>)"
      using ok by (auto simp: session_ok_def session_sane_def issuer_sane_def split: option.splits)
    with InStrategyRaises assms(2) st finish_ok show ?thesis by (auto split: control.splits)
  next
    case InDrainWake
    with assms(2) st end_phase_ok' [OF ok] show ?thesis by (auto split: control.splits if_splits)
  next
    case InDrainTimeout
    have "control_at (stop s) = control_at s"
      by (simp add: stop_def cancel_strategy_def disarm_def)
    with InDrainTimeout assms(2) st end_phase_ok' [OF stop_ok [OF ok]] show ?thesis
      by (auto split: control.splits if_splits)
  next
    case (InResponse resp)
    with assms(2) st receive_response_ok [OF ok] show ?thesis by (auto split: if_splits)
  next
    case InTransportClosed
    with assms(2) st receive_closed_ok [OF ok] show ?thesis by (auto split: if_splits)
  next
    case (InReceiverFails msg)
    with assms(2) st receive_failed_ok [OF ok] show ?thesis by (auto split: if_splits)
  next
    case InTimer
    with assms(2) st fire_ok [OF ok] show ?thesis by (auto split: if_splits)
  next
    case InStop
    with assms(2) st stop_ok [OF ok] show ?thesis by auto
  next
    case InStopPhase
    with assms(2) st stop_current_phase_ok [OF ok] show ?thesis by auto
  qed
qed

lemma run_start_ok: "session_ok (fst (run_start expo phs (session_init timeout hook, w)))"
  unfolding run_start_def prod.case
  by (rule next_phase_ok) (simp_all add: session_init_def session_sane_def)

lemma reach_session_ok:
  assumes "reach expo (run_start expo phs (session_init timeout hook, w)) st"
  shows "session_ok (fst st)"
  using assms run_start_ok by (rule reach_invariant) (rule session_ok_step)

end
