(* ===== verification/SessionProtocol.thy ===== *)
theory SessionProtocol
  imports SessionFacts
begin

text \<open>
  The order in which a session publishes its control events, as an automaton over the log, with
  the properties of the session machine: the protocol, the liveness guard, the drain, the issue
  limit and what a final response publishes.
\<close>

section \<open>The protocol of session events\<close>

text \<open>
  The order the metrics service depends on, as an automaton over the log: \<open>STARTED\<close> comes first,
  each phase opens tracking at most between its own \<open>PHASE_START\<close> and one \<open>STOP\<close>, an interrupted
  run says so right before \<open>ENDED\<close>, and nothing is published or sent after \<open>ENDED\<close>.
\<close>

datatype proto = Before | Open bool | Interrupted | Over | Bad

fun proto_event :: "proto \<Rightarrow> session_event \<Rightarrow> proto" where
  "proto_event Before STARTED = Open True"
| "proto_event (Open b) PHASE_START = Open False"
| "proto_event (Open False) START_PERFORMANCE_TRACKING = Open False"
| "proto_event (Open False) STOP_PERFORMANCE_TRACKING = Open True"
| "proto_event (Open b) INTERRUPTED = Interrupted"
| "proto_event (Open b) ENDED = Over"
| "proto_event Interrupted ENDED = Over"
| "proto_event _ _ = Bad"

fun proto_effect :: "proto \<Rightarrow> effect \<Rightarrow> proto" where
  "proto_effect st (Publish r) =
     (case ev_type r of
        SessionEv x \<Rightarrow> proto_event st x
      | _ \<Rightarrow> (case st of Open b \<Rightarrow> Open b | _ \<Rightarrow> Bad))"
| "proto_effect st (Send q) = (case st of Open b \<Rightarrow> Open b | _ \<Rightarrow> Bad)"
| "proto_effect st _ = st"

definition proto_of :: "effect list \<Rightarrow> proto" where
  "proto_of es = foldl proto_effect Before es"

fun plain :: "effect \<Rightarrow> bool" where
  "plain (Publish r) = (case ev_type r of SessionEv x \<Rightarrow> False | _ \<Rightarrow> True)"
| "plain _ = True"

definition plain_ext :: "world \<Rightarrow> world \<Rightarrow> bool" where
  "plain_ext w w' = (\<exists>es. wlog w' = wlog w @ es \<and> list_all plain es)"

lemma proto_append [simp]: "proto_of (xs @ ys) = foldl proto_effect (proto_of xs) ys"
  by (simp add: proto_of_def)

lemma proto_of_Nil [simp]: "proto_of [] = Before"
  by (simp add: proto_of_def)

lemma proto_plain: "list_all plain es \<Longrightarrow> foldl proto_effect (Open b) es = Open b"
proof (induction es)
  case (Cons e es)
  then show ?case by (cases e) (auto split: event_type.splits)
qed simp

lemma plain_ext_refl [intro]: "wlog w' = wlog w \<Longrightarrow> plain_ext w w'"
  by (auto simp: plain_ext_def)

lemma plain_ext_trans: "plain_ext w w1 \<Longrightarrow> plain_ext w1 w2 \<Longrightarrow> plain_ext w w2"
  by (auto simp: plain_ext_def)

lemma plain_ext_emit: "list_all plain es \<Longrightarrow> plain_ext w (emit es w)"
  by (auto simp: plain_ext_def)

lemma plain_ext_open: "plain_ext w w' \<Longrightarrow> proto_of (wlog w) = Open b \<Longrightarrow> proto_of (wlog w') = Open b"
  by (auto simp: plain_ext_def proto_plain)

lemma warns_plain: "list_all is_warn ws \<Longrightarrow> list_all plain ws"
  by (induction ws) (auto elim: is_warn.elims)

definition tracking_closed :: "session \<Rightarrow> bool" where
  "tracking_closed s = (case current_issuer s of None \<Rightarrow> True | Some p \<Rightarrow> pi_performance_tracking_stopped p)"

definition log_ok :: "st \<Rightarrow> bool" where
  "log_ok = (\<lambda>(s, w). proto_of (wlog w) = (if session_done s then Over else Open (tracking_closed s)))"

lemma log_ok_plain:
  "log_ok (s, w) \<Longrightarrow> \<not> session_done s \<Longrightarrow> plain_ext w w' \<Longrightarrow> session_done s' = session_done s
     \<Longrightarrow> tracking_closed s' = tracking_closed s \<Longrightarrow> log_ok (s', w')"
  using plain_ext_open by (auto simp: log_ok_def)

lemma publish_session_event_log:
  "proto_of (wlog (publish_session_event t d w)) = proto_event (proto_of (wlog w)) t"
  by (simp add: publish_session_event_def Let_def monotonic_ns_def emit_def mk_event_def)

lemma publish_open:
  "proto_of (wlog w) = Open b \<Longrightarrow> proto_of (wlog (publish_session_event PHASE_START d w)) = Open False"
  "proto_of (wlog w) = Open False \<Longrightarrow>
     proto_of (wlog (publish_session_event START_PERFORMANCE_TRACKING d w)) = Open False"
  by (simp_all add: publish_session_event_log)

lemma finish_log: "proto_of (wlog w) = Open b \<Longrightarrow> log_ok (finish e (s, w))"
  by (cases b) (auto simp: finish_def Let_def log_ok_def publish_session_event_log disarm_def)

lemma run_callback_frame [simp]:
  "tracking_closed (run_callback cb s) = tracking_closed s"
  "session_done (run_callback cb s) = session_done s"
  by (auto simp: run_callback_def tracking_closed_def on_inflight_started_def on_inflight_drained_def
      disarm_def split: option.splits callback.splits)

lemma stop_frame [simp]:
  "tracking_closed (stop s) = tracking_closed s" "session_done (stop s) = session_done s"
  "control_at (stop s) = control_at s"
  by (simp_all add: stop_def cancel_strategy_def disarm_def tracking_closed_def)

lemma receive_failed_frame:
  "tracking_closed (receive_failed msg s) = tracking_closed s"
  "session_done (receive_failed msg s) = session_done s"
  by (simp_all add: receive_failed_def stop_def cancel_strategy_def disarm_def tracking_closed_def)

lemma stop_check_log: "stop_check (s, w) = (b, w1) \<Longrightarrow> wlog w1 = wlog w"
  by (auto simp: stop_check_def Let_def monotonic_ns_def split: if_splits)

lemma mark_complete_log:
  "mark_inflight_complete p w = (cb, p1, w1) \<Longrightarrow>
     plain_ext w w1 \<and> pi_performance_tracking_stopped p1 = pi_performance_tracking_stopped p"
  by (auto simp: mark_inflight_complete_def Let_def plain_ext_def split: if_splits)

lemma issue_log:
  assumes "issue b i ov cid turn p w = (r, cb, p', w')"
  shows "plain_ext w w' \<and> pi_performance_tracking_stopped p' = pi_performance_tracking_stopped p"
  using issue_cases [OF assms]
proof (elim disjE conjE)
  assume "issue_failed p w r cb p' w'"
  then show ?thesis using warns_plain by (auto simp: issue_failed_def counters_def plain_ext_def)
next
  assume "issue_sent i cid turn p w r cb p' w'"
  then show ?thesis using warns_plain by (fastforce simp: issue_sent_def Let_def plain_ext_def)
qed auto

lemma strategy_issue_log:
  assumes "log_ok (s, w)" "\<not> session_done s" "current_issuer s = Some p"
  shows "log_ok (strategy_issue i ov cid turn p (s, w))"
proof -
  obtain b w1 where sc: "stop_check (s, w) = (b, w1)" by force
  obtain r cb p' w2 where iss: "issue b i ov cid turn p w1 = (r, cb, p', w2)" by (metis surj_pair)
  have "plain_ext w w2" using issue_log [OF iss] stop_check_log [OF sc] by (auto simp: plain_ext_def)
  then show ?thesis
    using log_ok_plain [OF assms(1,2), of w2 "run_callback cb (s\<lparr>current_issuer := Some p'\<rparr>)"]
      issue_log [OF iss] assms(3)
    by (simp add: strategy_issue_def sc iss tracking_closed_def [of "s\<lparr>current_issuer := Some p'\<rparr>"]
        tracking_closed_def [of s])
qed

lemma strategy_skip_log:
  assumes "log_ok (s, w)" "\<not> session_done s" "current_issuer s = Some p"
  shows "log_ok (strategy_skip i cid turn p (s, w))"
proof -
  obtain b w1 where sc: "stop_check (s, w) = (b, w1)" by force
  obtain r p' w2 where sk: "register_skipped b i cid turn p w1 = (r, p', w2)" by (metis surj_pair)
  have "plain_ext w1 w2 \<and> pi_performance_tracking_stopped p' = pi_performance_tracking_stopped p"
    using sk by (auto simp: register_skipped_def Let_def new_uuid_def monotonic_ns_def plain_ext_def
        split: if_splits)
  then show ?thesis
    using log_ok_plain [OF assms(1,2), of w2 "s\<lparr>current_issuer := Some p'\<rparr>"] stop_check_log [OF sc] assms(3)
    by (simp add: strategy_skip_def sc sk tracking_closed_def plain_ext_def)
qed

lemma strategy_terminate_log:
  assumes "log_ok (s, w)" "\<not> session_done s" "current_issuer s = Some p"
  shows "log_ok (strategy_terminate qid p (s, w))"
proof -
  obtain cb p1 w1 where m: "mark_inflight_complete p w = (cb, p1, w1)" by (metis surj_pair)
  define p2 where "p2 = p1\<lparr>completed_uuids := insert qid (completed_uuids p1),
      uuid_to_conv_info := (uuid_to_conv_info p1)(qid := None)\<rparr>"
  have t: "tracking_closed (s\<lparr>current_issuer := Some p2\<rparr>) = tracking_closed s"
    using mark_complete_log [OF m] assms(3) by (simp add: tracking_closed_def p2_def)
  have "log_ok (run_callback cb (s\<lparr>current_issuer := Some p2\<rparr>), w1)"
    by (rule log_ok_plain [OF assms(1,2)]) (use mark_complete_log [OF m] t in simp_all)
  then show ?thesis by (simp add: strategy_terminate_def m p2_def)
qed

lemma stop_tracking_log:
  assumes "log_ok (s, w)" "\<not> session_done s" "current_issuer s = Some p"
  shows "log_ok (stop_tracking p (s, w))"
  using assms
  by (auto simp: stop_tracking_def stop_performance_tracking_def Let_def monotonic_ns_def log_ok_def
      tracking_closed_def mk_event_def)

lemma result_effects_plain: "list_all plain (result_effects pt r ci now)"
  by (auto simp: result_effects_def error_record_def complete_record_def mk_sample_event_def
      mk_event_def split: option.splits)

lemma handle_result_log:
  assumes "log_ok (s, w)" "\<not> session_done s"
  shows "log_ok (handle_result r now (s, w)) \<and> \<not> session_done (fst (handle_result r now (s, w)))"
proof (cases "current_issuer s")
  case None
  have "log_ok (s, emit (result_effects (current_phase_type s) r ([], None) now) w)"
    by (rule log_ok_plain [OF assms plain_ext_emit]) (simp_all add: result_effects_plain)
  with None assms(2) show ?thesis by (simp add: handle_result_def)
next
  case (Some p)
  define p1 where "p1 = p\<lparr>uuid_to_conv_info := (uuid_to_conv_info p)(qr_id r := None)\<rparr>"
  define w1 where "w1 = emit (result_effects (current_phase_type s) r (conv_info s (qr_id r)) now) w"
  have ext: "plain_ext w w1" unfolding w1_def by (rule plain_ext_emit) (rule result_effects_plain)
  obtain cb p2 w2 where m: "mark_inflight_complete p1 w1 = (cb, p2, w2)" by (metis surj_pair)
  define s2 where "s2 = run_callback cb (s\<lparr>current_issuer := Some p2\<rparr>)"
  define hooks where "hooks = (if current_strategy s then [StrategyComplete (qr_id r)] else [])
      @ (if has_sample_hook s \<and> current_phase_type s \<noteq> Some WARMUP then [SampleComplete r] else [])"
  have res: "handle_result r now (s, w) =
      (if qr_id r \<in> completed_uuids p then (s, w)
       else if uuid_to_index p1 (qr_id r) = None then (s\<lparr>current_issuer := Some p1\<rparr>, w1)
       else (s2, emit hooks w2))"
    by (simp add: handle_result_def Some Let_def m p1_def [symmetric] w1_def [symmetric]
        s2_def hooks_def)
  have t1: "tracking_closed (s\<lparr>current_issuer := Some p1\<rparr>) = tracking_closed s"
    by (simp add: tracking_closed_def Some p1_def)
  have t2: "tracking_closed (s\<lparr>current_issuer := Some p2\<rparr>) = tracking_closed s"
    using mark_complete_log [OF m] by (simp add: tracking_closed_def Some p1_def)
  have "plain_ext w2 (emit hooks w2)" by (rule plain_ext_emit) (simp add: hooks_def)
  then have ext2: "plain_ext w (emit hooks w2)"
    using plain_ext_trans [OF ext] mark_complete_log [OF m] plain_ext_trans by blast
  have l1: "log_ok (s\<lparr>current_issuer := Some p1\<rparr>, w1)"
    by (rule log_ok_plain [OF assms ext]) (simp_all add: t1)
  have l2: "log_ok (s2, emit hooks w2)"
    by (rule log_ok_plain [OF assms ext2]) (simp_all add: s2_def t2)
  have d: "\<not> session_done s2" using assms(2) by (simp add: s2_def)
  show ?thesis unfolding res using assms l1 l2 d by auto
qed

lemma receive_response_log:
  assumes "log_ok (s, w)" "\<not> session_done s"
  shows "log_ok (receive_response resp (s, w))"
proof -
  let ?w = "snd (monotonic_ns w)"
  obtain s1 w2 where h: "handle_response resp (ticks w (tpos w)) (s, ?w) = (s1, w2)" by force
  have pre: "log_ok (s, ?w)" using assms(1) by (simp add: log_ok_def)
  have "log_ok (s1, w2)"
  proof (cases resp)
    case (Result r)
    then show ?thesis using handle_result_log [OF pre assms(2)] h by (metis handle_response_def response.simps(5))
  next
    case (Chunk c)
    then have "s1 = s" "plain_ext ?w w2"
      using h by (auto simp: handle_response_def handle_chunk_def Let_def plain_ext_def mk_sample_event_def
        mk_event_def)
    then show ?thesis using log_ok_plain [OF pre assms(2)] by simp
  qed
  then show ?thesis using h by (auto simp: receive_response_def monotonic_ns_def log_ok_def tracking_closed_def)
qed

lemma fire_log: "log_ok (s, w) \<Longrightarrow> log_ok (fire_idle_timeout (s, w))"
  by (auto simp: fire_idle_timeout_def Let_def monotonic_ns_def log_ok_def tracking_closed_def
      stop_def cancel_strategy_def disarm_def split: option.splits bool.splits)

lemma begin_phase_log:
  assumes "begin_phase expo ph rest (s, w) = (err, s', w')" "proto_of (wlog w) = Open b" "\<not> session_done s"
  shows "proto_of (wlog w') = Open (if err = None then False else b)"
    and "err = None \<Longrightarrow> log_ok (s', w')"
proof -
  show log: "proto_of (wlog w') = Open (if err = None then False else b)"
    using assms(1) publish_open(1) [of "w\<lparr>tpos := Suc (tpos w)\<rparr>" b] assms(2)
      publish_open(2) [of "publish_session_event PHASE_START (PhaseD (phase_start_data ph)) (w\<lparr>tpos := Suc (tpos w)\<rparr>)"]
    by (cases "phase_strategy_error expo ph"; cases "make_stop_check (ph_settings ph) (ticks w (tpos w))")
       (auto simp: begin_phase_def monotonic_ns_def Let_def)
  show "log_ok (s', w')" if "err = None"
    using assms(1)
  proof (cases rule: begin_phase_result)
    case (begun closure s2 t)
    then show ?thesis using log that assms(3)
      by (simp add: log_ok_def tracking_closed_def phase_issuer_init_def)
  qed (use that in simp)
qed

lemma next_phase_log:
  assumes "proto_of (wlog w) = Open b" "\<not> session_done s"
  shows "log_ok (next_phase expo phs (s, w))"
proof (cases phs)
  case Nil
  then show ?thesis using finish_log [OF assms(1)] by (simp add: next_phase_def)
next
  case (Cons ph rest)
  let ?w = "emit [PhaseHook (ph_name ph)] w"
  have open': "proto_of (wlog ?w) = Open b" using assms(1) by simp
  obtain err s' w' where b: "begin_phase expo ph rest (s, ?w) = (err, s', w')"
    by (metis surj_pair)
  show ?thesis
    using begin_phase_log [OF b open' assms(2)] finish_log [OF assms(1)] finish_log [of w']
    by (cases err) (auto simp: next_phase_def Cons b split: option.splits)
qed

lemma end_phase_log:
  assumes "log_ok (s, w)" "\<not> session_done s"
  shows "log_ok (end_phase expo ph t rest (s, w))"
proof -
  obtain s1 w1 where t: "stop_tracking_if (ph_type ph = PERFORMANCE) (s, w) = (s1, w1)"
    by (metis surj_pair)
  have d1: "\<not> session_done s1" using stop_tracking_if_sane(2) [OF t] assms(2) by simp
  have o1: "\<exists>b. proto_of (wlog w1) = Open b"
    using t assms
    by (auto simp: stop_tracking_if_def stop_performance_tracking_def Let_def monotonic_ns_def log_ok_def
        tracking_closed_def mk_event_def split: option.splits if_splits)
  then obtain b where b: "proto_of (wlog (snd (monotonic_ns w1))) = Open b" by auto
  define s2 where "s2 = (case current_issuer s1 of
                  Some p \<Rightarrow> (if ph_type ph = WARMUP then s1
                    else s1\<lparr>phase_results := phase_results s1 @
                      [\<lparr>pr_name = ph_name ph, pr_phase_type = ph_type ph,
                        pr_uuid_to_index = uuid_to_index p, pr_issued_count = issued_count p,
                        pr_start_time_ns = t, pr_end_time_ns = ticks w1 (tpos w1)\<rparr>]\<rparr>)
                | None \<Rightarrow> s1)"
  have d2: "\<not> session_done s2" using d1 by (auto simp: s2_def split: option.splits)
  have "end_phase expo ph t rest (s, w) =
      (case fatal s2 of Some f \<Rightarrow> finish (RaisedFatal f) (s2, snd (monotonic_ns w1))
       | None \<Rightarrow> next_phase expo rest (s2, snd (monotonic_ns w1)))"
    unfolding end_phase_def t Let_def prod.case monotonic_ns_def s2_def snd_conv fst_conv ..
  then show ?thesis
    using finish_log [OF b] next_phase_log [OF b d2] by (auto split: option.splits)
qed

lemma after_strategy_log:
  assumes "log_ok (s, w)" "\<not> session_done s"
  shows "log_ok (after_strategy expo ph t rest (s, w))"
proof -
  have "log_ok (s\<lparr>strategy_task := NoTask\<rparr>, w)" using assms by (simp add: log_ok_def tracking_closed_def)
  from end_phase_log [OF this] assms show ?thesis
    by (simp add: after_strategy_def Let_def log_ok_def tracking_closed_def)
qed

definition st_ok :: "st \<Rightarrow> bool" where
  "st_ok = (\<lambda>(s, w). session_ok s \<and> log_ok (s, w))"

lemma strategy_call_log:
  assumes "strategy_call f (s, w) = Some st'" "session_ok s"
    and "\<And>p. current_issuer s = Some p \<Longrightarrow> \<not> session_done s \<Longrightarrow> log_ok (f p (s, w))"
  shows "log_ok st'"
  using assms not_done [OF assms(2)]
  by (auto simp: strategy_call_def awaiting_strategy_def split: if_splits option.splits control.splits)

lemma st_ok_step:
  assumes "st_ok st" and "session_step expo st i = Some st'"
  shows "st_ok st'"
proof -
  obtain s w where st: "st = (s, w)" by force
  have ok: "session_ok s" and log: "log_ok (s, w)" using assms(1) st by (auto simp: st_ok_def)
  have nd: "\<not> session_done s" if "control_at s = AwaitStrategy a b c" for a b c
    using not_done [OF ok] that by simp
  have nd': "\<not> session_done s" if "control_at s = AwaitDrain a b c" for a b c
    using not_done [OF ok] that by simp
  have recv: "\<not> session_done s" if "receiving s" using ok that by (auto simp: session_ok_def)
  have stopped: "log_ok (stop s, w)" using log by (simp add: log_ok_def)
  have "log_ok st'"
  proof (cases i)
    case (InIssue x ov cid turn)
    with assms(2) st strategy_call_log [OF _ ok] strategy_issue_log [OF log] show ?thesis by auto
  next
    case (InSkip x cid turn)
    with assms(2) st strategy_call_log [OF _ ok] strategy_skip_log [OF log] show ?thesis by auto
  next
    case (InTerminate qid)
    with assms(2) st strategy_call_log [OF _ ok] strategy_terminate_log [OF log] show ?thesis by auto
  next
    case InStopTracking
    with assms(2) st strategy_call_log [OF _ ok] stop_tracking_log [OF log] show ?thesis by auto
  next
    case InStrategyDone
    with assms(2) st after_strategy_log [OF log nd] show ?thesis by (auto split: control.splits)
  next
    case InStrategyCancelled
    with assms(2) st after_strategy_log [OF log nd] show ?thesis by (auto split: control.splits if_splits)
  next
    case (InStrategyRaises e)
    then obtain ph t rest where c: "control_at s = AwaitStrategy ph t rest"
      using assms(2) st by (auto split: control.splits)
    have "proto_of (wlog w) = Open (tracking_closed s)" using log nd [OF c] by (simp add: log_ok_def)
    from finish_log [OF this] show ?thesis using InStrategyRaises assms(2) st c by auto
  next
    case InDrainWake
    with assms(2) st end_phase_log [OF log nd'] show ?thesis by (auto split: control.splits if_splits)
  next
    case InDrainTimeout
    with assms(2) st end_phase_log [OF stopped] nd' show ?thesis
      by (auto split: control.splits if_splits)
  next
    case (InResponse resp)
    with assms(2) st receive_response_log [OF log recv] show ?thesis by (auto split: if_splits)
  next
    case InTransportClosed
    with assms(2) st log show ?thesis
      by (auto simp: log_ok_def tracking_closed_def receive_closed_def cancel_strategy_def split: if_splits)
  next
    case (InReceiverFails msg)
    with assms(2) st log show ?thesis
      by (auto simp: log_ok_def receive_failed_frame split: if_splits)
  next
    case InTimer
    with assms(2) st fire_log [OF log] show ?thesis by (auto split: if_splits)
  next
    case InStop
    with assms(2) st stopped show ?thesis by auto
  next
    case InStopPhase
    with assms(2) st log show ?thesis
      by (auto simp: log_ok_def stop_current_phase_def cancel_strategy_def tracking_closed_def)
  qed
  moreover have "session_ok (fst st')"
    using session_ok_step [of st expo i st'] ok st assms(2) by simp
  ultimately show ?thesis by (cases st') (simp add: st_ok_def)
qed

lemma reach_st_ok:
  assumes "reach expo (run_start expo phs (session_init timeout hook, w)) st" and "wlog w = []"
  shows "st_ok st"
proof -
  let ?s = "(session_init timeout hook)\<lparr>receiving := True\<rparr>"
  let ?w = "publish_session_event STARTED NoData (snd (monotonic_ns w))"
  have "proto_of (wlog ?w) = Open True"
    using assms(2) by (simp add: publish_session_event_log)
  then have "log_ok (next_phase expo phs (?s, ?w))"
    by (rule next_phase_log) (simp add: session_init_def)
  then have "log_ok (run_start expo phs (session_init timeout hook, w))"
    by (simp add: run_start_def)
  then have "st_ok (run_start expo phs (session_init timeout hook, w))"
    using run_start_ok by (cases "run_start expo phs (session_init timeout hook, w)") (auto simp: st_ok_def, metis fst_conv)
  with assms(1) show ?thesis by (rule reach_invariant) (rule st_ok_step)
qed

section \<open>An example run\<close>

definition example_phase :: phase_config where
  "example_phase =
     \<lparr>ph_name = ''perf'', ph_settings = example_settings, ph_dataset = example_dataset,
      ph_type = PERFORMANCE, ph_drain_after = True, ph_drain_timeout = None, ph_has_strategy = True,
      ph_routing_headers = [], ph_conversations = None\<rparr>"

definition no_expo :: "rng \<Rightarrow> rat \<Rightarrow> rat \<times> rng" where
  "no_expo r l = (0, r)"

definition example_start :: st where
  "example_start = run_start no_expo [example_phase] (session_init (Some 1000) False, example_world)"

fun session_run :: "(rng \<Rightarrow> rat \<Rightarrow> rat \<times> rng) \<Rightarrow> st \<Rightarrow> input list \<Rightarrow> st option" where
  "session_run expo st [] = Some st"
| "session_run expo st (i # is) =
     (case session_step expo st i of None \<Rightarrow> None | Some st' \<Rightarrow> session_run expo st' is)"

lemma session_run_reach:
  "reach expo st0 st \<Longrightarrow> session_run expo st is = Some st' \<Longrightarrow> reach expo st0 st'"
proof (induction "is" arbitrary: st)
  case (Cons i "is")
  then show ?case by (auto split: option.splits intro: reach_step)
qed simp

definition run_check :: "(session \<Rightarrow> bool) \<Rightarrow> input list \<Rightarrow> bool" where
  "run_check P is = (case session_run no_expo example_start is of None \<Rightarrow> False | Some (s, w) \<Rightarrow> P s)"

lemma run_check_reach:
  assumes "run_check P is"
  obtains s w where "reach no_expo example_start (s, w)" "P s"
proof -
  obtain s w where "session_run no_expo example_start is = Some (s, w)" "P s"
    using assms by (auto simp: run_check_def split: option.splits)
  then show thesis using that session_run_reach [OF reach_init] by blast
qed

lemma example_one_in_flight:
  "run_check (\<lambda>s. \<not> stop_requested s \<and> \<not> session_done s \<and>
      (case current_issuer s of Some p \<Rightarrow> inflight p = 1 | None \<Rightarrow> False))
     [InIssue 0 None [] None]"
  by code_simp

lemma example_ends:
  "run_check session_done [InIssue 0 None [] None, InStrategyDone, InStop, InDrainWake]"
  by code_simp

section \<open>Properties\<close>

text \<open>C2.  In every reachable state the control events in the log are in the order the metrics
  service relies on (\<open>STARTED\<close> first, tracking opened and stopped at most once per phase, an
  interruption announced right before \<open>ENDED\<close>), and once the session is done the log ends there:
  nothing is published or sent after \<open>ENDED\<close>.\<close>

theorem session_event_protocol:
  assumes "reach expo (run_start expo phs (session_init timeout hook, w0)) (s, w)" and "wlog w0 = []"
  shows "proto_of (wlog w) = (if session_done s then Over else Open (tracking_closed s))"
  using reach_st_ok [OF assms] by (simp add: st_ok_def log_ok_def)

theorem session_event_protocol_witness:
  "\<exists>s w. reach no_expo example_start (s, w) \<and> proto_of (wlog w) = Over"
proof -
  obtain s w where r: "reach no_expo example_start (s, w)" "session_done s"
    using run_check_reach [OF example_ends] .
  have "wlog example_world = []" by (simp add: example_world_def)
  from session_event_protocol [OF r(1) [unfolded example_start_def] this] r show ?thesis by auto
qed

text \<open>The liveness guard is never lost: in every reachable state, while a request is in flight
  and the session is neither stopping nor done, a configured idle timeout has its timer armed.\<close>

theorem liveness_guard_never_lost:
  assumes "reach expo (run_start expo phs (session_init timeout hook, w0)) (s, w)"
    and "current_issuer s = Some p" and "0 < inflight p" and "idle_timeout_ns s \<noteq> None"
    and "\<not> stop_requested s" and "\<not> session_done s"
  shows "progress_timer s \<noteq> None"
  using reach_session_ok [OF assms(1)] assms(2-) by (simp add: session_ok_def guard_armed_def)

theorem liveness_guard_never_lost_witness:
  "\<exists>s w. reach no_expo example_start (s, w) \<and> progress_timer s \<noteq> None"
proof -
  have "run_check (\<lambda>s. \<not> stop_requested s \<and> \<not> session_done s \<and> idle_timeout_ns s = Some 1000 \<and>
      (case current_issuer s of Some p \<Rightarrow> inflight p = 1 | None \<Rightarrow> False)) [InIssue 0 None [] None]"
    by code_simp
  from run_check_reach [OF this] obtain s w where r: "reach no_expo example_start (s, w)"
    "\<not> stop_requested s" "\<not> session_done s" "idle_timeout_ns s = Some 1000"
    "case current_issuer s of Some p \<Rightarrow> inflight p = 1 | None \<Rightarrow> False" by blast
  then obtain p where p: "current_issuer s = Some p" "inflight p = 1" by (auto split: option.splits)
  have "progress_timer s \<noteq> None"
    using liveness_guard_never_lost [OF r(1) [unfolded example_start_def] p(1)] p(2) r(2-4) by simp
  with r(1) show ?thesis by blast
qed

text \<open>The guard only fails a run that really stalled: when firing the timer newly records the
  idle-timeout error, a request is in flight and at least the timeout has passed since both the
  last response and the start of the current busy period.\<close>

theorem idle_timeout_means_stall:
  assumes "fire_idle_timeout (s, w) = (s', w')" and "fatal s = None" and "fatal s' \<noteq> None"
  shows "\<exists>p timeout started. current_issuer s = Some p \<and> 0 < inflight p
     \<and> idle_timeout_ns s = Some timeout \<and> inflight_started_ns p = Some started
     \<and> started + timeout \<le> ticks w (tpos w)
     \<and> (case last_progress_ns s of None \<Rightarrow> True | Some t \<Rightarrow> t + timeout \<le> ticks w (tpos w))
     \<and> stop_requested s'"
  using assms
  by (auto simp: fire_idle_timeout_def Let_def monotonic_ns_def last_progress_def stop_def
      cancel_strategy_def disarm_def split: option.splits bool.splits if_splits)

theorem idle_timeout_means_stall_witness:
  "\<exists>s' w'. fire_idle_timeout ((session_init (Some 5) False)\<lparr>current_issuer := Some
       ((phase_issuer_init example_dataset True [])\<lparr>inflight := 1, inflight_started_ns := Some (- 9)\<rparr>)\<rparr>,
       example_world) = (s', w') \<and> fatal s' \<noteq> None \<and> stop_requested s'"
proof -
  let ?s = "(session_init (Some 5) False)\<lparr>current_issuer := Some
       ((phase_issuer_init example_dataset True [])\<lparr>inflight := 1, inflight_started_ns := Some (- 9)\<rparr>)\<rparr>"
  obtain s' w' where f: "fire_idle_timeout (?s, example_world) = (s', w')" by force
  have n: "fatal ?s = None" by (simp add: session_init_def)
  have "fatal s' \<noteq> None" using f
    by (auto simp: fire_idle_timeout_def session_init_def monotonic_ns_def example_world_def
        last_progress_def stop_def cancel_strategy_def disarm_def Let_def)
  with idle_timeout_means_stall [OF f n] f show ?thesis by blast
qed

text \<open>A drain neither ends early nor hangs: in every reachable state where \<open>run\<close> waits for the
  drain, the wait can end exactly when no request of the phase is in flight or the session is
  stopping.\<close>

theorem drain_wakes_exactly_when_drained:
  assumes "reach expo (run_start expo phs (session_init timeout hook, w0)) (s, w)"
    and "control_at s = AwaitDrain ph t rest"
  shows "\<exists>p. current_issuer s = Some p
     \<and> (session_step expo (s, w) InDrainWake \<noteq> None \<longleftrightarrow> inflight p = 0 \<or> stop_requested s)"
proof -
  have ok: "session_ok s" using reach_session_ok [OF assms(1)] by simp
  then obtain p where p: "current_issuer s = Some p" "0 \<le> inflight p"
    using assms(2) by (auto simp: session_ok_def session_sane_def issuer_sane_def)
  then show ?thesis using ok assms(2) by (auto simp: session_ok_def nothing_to_drain_def)
qed

theorem drain_wakes_exactly_when_drained_witness:
  "\<exists>s w p. reach no_expo example_start (s, w) \<and> current_issuer s = Some p \<and> inflight p = 1
     \<and> session_step no_expo (s, w) InDrainWake = None"
proof -
  have "run_check (\<lambda>s. \<not> stop_requested s \<and> (case control_at s of AwaitDrain _ _ _ \<Rightarrow> True | _ \<Rightarrow> False) \<and>
      (case current_issuer s of Some p \<Rightarrow> inflight p = 1 | None \<Rightarrow> False))
      [InIssue 0 None [] None, InStrategyDone]"
    by code_simp
  from run_check_reach [OF this] obtain s w where r: "reach no_expo example_start (s, w)"
    "\<not> stop_requested s" "case control_at s of AwaitDrain _ _ _ \<Rightarrow> True | _ \<Rightarrow> False"
    "case current_issuer s of Some p \<Rightarrow> inflight p = 1 | None \<Rightarrow> False" by blast
  then obtain ph t rest where c: "control_at s = AwaitDrain ph t rest" by (auto split: control.splits)
  from drain_wakes_exactly_when_drained [OF r(1) [unfolded example_start_def] c] obtain p where
    p: "current_issuer s = Some p"
       "session_step no_expo (s, w) InDrainWake \<noteq> None \<longleftrightarrow> inflight p = 0 \<or> stop_requested s" by blast
  have "inflight p = 1" using r(4) p(1) by simp
  moreover from this have "session_step no_expo (s, w) InDrainWake = None"
    using p(2) r(2) by (metis zero_neq_one)
  ultimately show ?thesis using r(1) p(1) by blast
qed

text \<open>No phase over-issues: in every reachable state of a session, a phase that is not agentic
  has issued at most the number of samples its settings ask for.\<close>

theorem phase_never_over_issues:
  assumes "reach expo (run_start expo phs (session_init timeout hook, w0)) (s, w)"
    and "current_issuer s = Some p" and "sp_on_sample_count (stop_closure s)"
  shows "issued_count p \<le> max 0 (sp_total_samples (stop_closure s))"
  using reach_session_ok [OF assms(1)] assms(2,3)
  by (simp add: session_ok_def session_sane_def issuer_sane_def)

theorem phase_never_over_issues_witness:
  "\<exists>s w p. reach no_expo example_start (s, w) \<and> current_issuer s = Some p \<and> issued_count p \<le> 2000"
proof -
  have "run_check (\<lambda>s. sp_on_sample_count (stop_closure s) \<and> sp_total_samples (stop_closure s) = 2000 \<and>
      (case current_issuer s of Some p \<Rightarrow> True | None \<Rightarrow> False)) [InIssue 0 None [] None]"
    by code_simp
  from run_check_reach [OF this] obtain s w where r: "reach no_expo example_start (s, w)"
    "sp_on_sample_count (stop_closure s)" "sp_total_samples (stop_closure s) = 2000"
    "case current_issuer s of Some p \<Rightarrow> True | None \<Rightarrow> False" by blast
  then obtain p where p: "current_issuer s = Some p" by (auto split: option.splits)
  from phase_never_over_issues [OF r(1) [unfolded example_start_def] p r(2)] r p show ?thesis by auto
qed

text \<open>A final response of a live query is published as the error first (if it failed) and then
  the completion (outside warmup), with the conversation the query was issued under, and it
  lowers the in-flight count by one; a response to a query that was already ended is ignored.\<close>

theorem final_response_effects:
  assumes "current_issuer s = Some p" and "handle_result r now (s, w) = (s', w')"
  shows "(qr_id r \<in> completed_uuids p \<longrightarrow> s' = s \<and> w' = w)
     \<and> (qr_id r \<notin> completed_uuids p \<longrightarrow> uuid_to_index p (qr_id r) \<noteq> None \<longrightarrow> 0 < inflight p \<longrightarrow>
          wlog w' = wlog w @ result_effects (current_phase_type s) r (conv_info s (qr_id r)) now
            @ (if current_strategy s then [StrategyComplete (qr_id r)] else [])
            @ (if has_sample_hook s \<and> current_phase_type s \<noteq> Some WARMUP then [SampleComplete r] else [])
          \<and> (\<exists>p'. current_issuer s' = Some p' \<and> inflight p' = inflight p - 1
               \<and> uuid_to_conv_info p' (qr_id r) = None))"
proof -
  define p1 where "p1 = p\<lparr>uuid_to_conv_info := (uuid_to_conv_info p)(qr_id r := None)\<rparr>"
  have step: "\<exists>cb p2. mark_inflight_complete p1 v = (cb, p2, v) \<and> inflight p2 = inflight p - 1
      \<and> uuid_to_conv_info p2 (qr_id r) = None" if "0 < inflight p" for v
    using that by (simp add: mark_inflight_complete_def p1_def Let_def)
  have keep: "current_issuer (run_callback cb s1) = current_issuer s1" for cb s1
    by (auto simp: run_callback_def on_inflight_started_def on_inflight_drained_def disarm_def
        split: option.splits callback.splits)
  have known: "uuid_to_index p1 = uuid_to_index p" by (simp add: p1_def)
  define w1 where "w1 = emit (result_effects (current_phase_type s) r (conv_info s (qr_id r)) now) w"
  show ?thesis
  proof (cases "qr_id r \<in> completed_uuids p \<or> uuid_to_index p (qr_id r) = None \<or> inflight p \<le> 0")
    case True
    then show ?thesis using assms by (auto simp: handle_result_def)
  next
    case False
    then obtain cb p2 where m: "mark_inflight_complete p1 w1 = (cb, p2, w1)"
      "inflight p2 = inflight p - 1" "uuid_to_conv_info p2 (qr_id r) = None"
      using step [of w1] by auto
    have live: "qr_id r \<notin> completed_uuids p" "uuid_to_index p1 (qr_id r) \<noteq> None"
      using False by (simp_all add: known)
    have "handle_result r now (s, w) = (run_callback cb (s\<lparr>current_issuer := Some p2\<rparr>),
        emit ((if current_strategy s then [StrategyComplete (qr_id r)] else [])
            @ (if has_sample_hook s \<and> current_phase_type s \<noteq> Some WARMUP then [SampleComplete r] else [])) w1)"
      using live by (auto simp: handle_result_def assms(1) Let_def m(1) p1_def [symmetric] w1_def [symmetric])
    then have "s' = run_callback cb (s\<lparr>current_issuer := Some p2\<rparr>)"
      "w' = emit ((if current_strategy s then [StrategyComplete (qr_id r)] else [])
            @ (if has_sample_hook s \<and> current_phase_type s \<noteq> Some WARMUP then [SampleComplete r] else [])) w1"
      using assms(2) by simp_all
    then show ?thesis using False m(2,3) by (simp add: keep w1_def)
  qed
qed

theorem final_response_effects_witness:
  "\<exists>s' w'. handle_result \<lparr>qr_id = ''q'', qr_output = None, qr_error = None, qr_finish_reason = None,
        qr_worker_id = None, qr_completed_at = None\<rparr> 5
      ((session_init None False)\<lparr>current_issuer := Some ((phase_issuer_init example_dataset False [])
          \<lparr>inflight := 1, uuid_to_index := [''q'' \<mapsto> 0]\<rparr>)\<rparr>, example_world) = (s', w')
     \<and> length (wlog w') = 1"
proof -
  let ?r = "\<lparr>qr_id = ''q'', qr_output = None, qr_error = None, qr_finish_reason = None,
        qr_worker_id = None, qr_completed_at = None\<rparr>"
  let ?s = "(session_init None False)\<lparr>current_issuer := Some ((phase_issuer_init example_dataset False [])
          \<lparr>inflight := 1, uuid_to_index := [''q'' \<mapsto> 0]\<rparr>)\<rparr>"
  obtain s' w' where h: "handle_result ?r 5 (?s, example_world) = (s', w')" by force
  from final_response_effects [OF _ this] show ?thesis using h
    by (simp add: phase_issuer_init_def session_init_def example_world_def result_effects_def)
qed

end
