(* ===== verification/MetricsTable.thy ===== *)
theory MetricsTable
  imports CoreTypes
begin

text \<open>
  \<open>metrics_aggregator/tokenization.py\<close> and \<open>metrics_table.py\<close>: the per-sample rows of samples in
  flight, the triggers that turn a field update into a metric value, the tracked blocks and the
  LoadGen window.  A trigger either records a value in the registry at once or enqueues an input
  for the tokenizer together with what to do with the count; both are emissions, listed in
  order.  A token count is the tokenizer's and arrives later.  Times are integers, metric
  values rationals.
\<close>

section \<open>Tokenization inputs\<close>

datatype tok_input =
    TokenIdsInput "pyval list"
  | TextInput string
  | MessageInput string "string option" "merged_calls option"
  | PromptInput "pyval list" "pyval list option" "pydict option" "string option" "pyval option"

definition has_structure :: "text_output \<Rightarrow> bool" where
  "has_structure o' = (opt_truthy (to_reasoning o')
     \<or> (case to_tool_calls o' of Some (Flat (p # ps)) \<Rightarrow> True | Some (Chunked (c # cs)) \<Rightarrow> True | _ \<Rightarrow> False))"

definition message_input :: "string \<times> string option \<times> merged_calls option \<Rightarrow> tok_input" where
  "message_input = (\<lambda>(c, r, t). MessageInput c r t)"

text \<open>\<open>extract_tokenization_input\<close>: the rule for the output length.\<close>

definition extract_tokenization_input ::
    "(merged_calls \<Rightarrow> string) \<Rightarrow> text_output \<Rightarrow> tok_input option" where
  "extract_tokenization_input enc o' =
     (if has_structure o' then Some (message_input (as_message_parts o'))
      else let text = output_str enc o' in if text \<noteq> [] then Some (TextInput text) else None)"

section \<open>State\<close>

datatype sample_field = ISSUED_NS | RECV_FIRST_NS | LAST_RECV_NS | COMPLETE_NS

datatype series_key = ISL | OSL | SAMPLE_LATENCY_NS | TTFT_NS | CHUNK_DELTA_NS | TPOT_NS

record sample_row =
  tracked_block_idx :: int
  superpass_index :: int
  issued_ns :: "int option"
  recv_first_ns :: "int option"
  last_recv_ns :: "int option"
  complete_ns :: "int option"

definition new_row :: sample_row where
  "new_row = \<lparr>tracked_block_idx = - 1, superpass_index = - 1, issued_ns = None,
     recv_first_ns = None, last_recv_ns = None, complete_ns = None\<rparr>"

record tracked_block =
  tb_start_ns :: int
  tb_last_complete_ns :: int
  tb_completed_samples :: int

definition block_duration_ns :: "tracked_block \<Rightarrow> int" where
  "block_duration_ns b = tb_last_complete_ns b - tb_start_ns b"

text \<open>What to do with a token count: record it, or record the time per token (and attach it to a
  super-pass when the sample belongs to one).\<close>

datatype recorder =
    CountRecorder series_key
  | TpotRecorder int int "int option"

datatype emission = Record series_key rat | Enqueue tok_input recorder

datatype trigger =
    TimeDeltaTrigger series_key sample_field
  | IslTrigger
  | OslTrigger
  | TpotTrigger bool

record metrics_table =
  mt_in_flight :: "string \<rightharpoonup> sample_row"
  mt_triggers :: "sample_field \<Rightarrow> trigger list"
  mt_has_queue :: bool
  mt_is_tracking :: bool
  mt_session_started_ns :: "int option"
  mt_tracked_blocks :: "tracked_block list"
  mt_loadgen_max_issued_ns :: int
  mt_loadgen_window_end_ns :: "int option"
  mt_loadgen_window_start_ns :: "int option"
  mt_emissions :: "emission list"

definition metrics_table_init :: "bool \<Rightarrow> metrics_table" where
  "metrics_table_init has_queue =
     \<lparr>mt_in_flight = Map.empty, mt_triggers = (\<lambda>_. []), mt_has_queue = has_queue,
      mt_is_tracking = False, mt_session_started_ns = None, mt_tracked_blocks = [],
      mt_loadgen_max_issued_ns = - 1, mt_loadgen_window_end_ns = None,
      mt_loadgen_window_start_ns = None, mt_emissions = []\<rparr>"

definition add_trigger :: "sample_field \<Rightarrow> trigger \<Rightarrow> metrics_table \<Rightarrow> metrics_table" where
  "add_trigger f tr mt = mt\<lparr>mt_triggers := (mt_triggers mt)(f := mt_triggers mt f @ [tr])\<rparr>"

text \<open>\<open>_register_triggers\<close> of the aggregator.\<close>

definition register_triggers :: "bool \<Rightarrow> bool \<Rightarrow> bool \<Rightarrow> metrics_table \<Rightarrow> metrics_table" where
  "register_triggers streaming enable_isl has_collector mt =
     (let mt1 = (if enable_isl then add_trigger ISSUED_NS IslTrigger mt else mt);
          mt2 = add_trigger COMPLETE_NS OslTrigger
                  (add_trigger COMPLETE_NS (TimeDeltaTrigger SAMPLE_LATENCY_NS ISSUED_NS) mt1)
      in if streaming then
           add_trigger COMPLETE_NS (TpotTrigger has_collector)
             (add_trigger LAST_RECV_NS (TimeDeltaTrigger CHUNK_DELTA_NS LAST_RECV_NS)
               (add_trigger RECV_FIRST_NS (TimeDeltaTrigger TTFT_NS ISSUED_NS) mt2))
         else mt2)"

section \<open>Triggers\<close>

fun row_field :: "sample_field \<Rightarrow> sample_row \<Rightarrow> int option" where
  "row_field ISSUED_NS r = issued_ns r"
| "row_field RECV_FIRST_NS r = recv_first_ns r"
| "row_field LAST_RECV_NS r = last_recv_ns r"
| "row_field COMPLETE_NS r = complete_ns r"

fun set_row_field :: "sample_field \<Rightarrow> int \<Rightarrow> sample_row \<Rightarrow> sample_row" where
  "set_row_field ISSUED_NS v r = r\<lparr>issued_ns := Some v\<rparr>"
| "set_row_field RECV_FIRST_NS v r = r\<lparr>recv_first_ns := Some v\<rparr>"
| "set_row_field LAST_RECV_NS v r = r\<lparr>last_recv_ns := Some v\<rparr>"
| "set_row_field COMPLETE_NS v r = r\<lparr>complete_ns := Some v\<rparr>"

text \<open>\<open>IslTrigger._extract_tokenization_input\<close>.\<close>

definition isl_input :: "event_data \<Rightarrow> tok_input option" where
  "isl_input d = (case d of
       PromptD p \<Rightarrow>
         (case pr_token_ids p of
            Some ids \<Rightarrow> Some (TokenIdsInput ids)
          | None \<Rightarrow>
              (case pr_text p of
                 Some (c # cs) \<Rightarrow> Some (TextInput (c # cs))
               | _ \<Rightarrow>
                   (case pr_messages p of
                      Some ms \<Rightarrow> Some (PromptInput ms (pr_tools p) (pr_chat_template_kwargs p)
                                        (pr_chat_template p) (pr_tool_choice p))
                    | None \<Rightarrow> None)))
     | _ \<Rightarrow> None)"

definition osl_input :: "(merged_calls \<Rightarrow> string) \<Rightarrow> event_data \<Rightarrow> tok_input option" where
  "osl_input enc d = (case d of OutputData o' \<Rightarrow> extract_tokenization_input enc o' | _ \<Rightarrow> None)"

definition tpot_input ::
    "(merged_calls \<Rightarrow> string) \<Rightarrow> sample_row \<Rightarrow> event_data \<Rightarrow> tok_input option" where
  "tpot_input enc row d =
     (if recv_first_ns row = None then None
      else (case d of
              OutputData o' \<Rightarrow>
                (if has_structure o' then Some (message_input (as_message_parts_after_first_chunk o'))
                 else let text = text_after_first_chunk enc o'
                      in if text \<noteq> [] then Some (TextInput text) else None)
            | _ \<Rightarrow> None))"

text \<open>\<open>TokenTrigger.fire\<close> for an extracted input.\<close>

definition token_emission :: "bool \<Rightarrow> series_key \<Rightarrow> recorder \<Rightarrow> tok_input option \<Rightarrow> emission list" where
  "token_emission has_queue key rec item = (case item of
       None \<Rightarrow> []
     | Some (TokenIdsInput ids) \<Rightarrow> [Record key (of_nat (length ids))]
     | Some i \<Rightarrow> (if has_queue then [Enqueue i rec] else []))"

definition fire_trigger ::
    "(merged_calls \<Rightarrow> string) \<Rightarrow> bool \<Rightarrow> event_record \<Rightarrow> sample_row \<Rightarrow> trigger \<Rightarrow> emission list" where
  "fire_trigger enc has_queue ev row tr = (case tr of
       TimeDeltaTrigger key start \<Rightarrow>
         (case row_field start row of
            None \<Rightarrow> [] | Some baseline \<Rightarrow> [Record key (of_int (ev_timestamp ev - baseline))])
     | IslTrigger \<Rightarrow> token_emission has_queue ISL (CountRecorder ISL) (isl_input (ev_data ev))
     | OslTrigger \<Rightarrow> token_emission has_queue OSL (CountRecorder OSL) (osl_input enc (ev_data ev))
     | TpotTrigger has_collector \<Rightarrow>
         token_emission has_queue TPOT_NS
           (TpotRecorder (ev_timestamp ev) (case recv_first_ns row of Some t \<Rightarrow> t | None \<Rightarrow> 0)
              (if has_collector \<and> superpass_index row \<ge> 0 then Some (superpass_index row) else None))
           (tpot_input enc row (ev_data ev)))"

text \<open>\<open>_compute_value\<close> and the recorder closures, run once the count is known: what is recorded in
  the registry, and the (super-pass, time per token, tokens) attached to the collector.\<close>

definition run_recorder ::
    "recorder \<Rightarrow> int \<Rightarrow> (series_key \<times> rat) option \<times> (int \<times> rat \<times> int) option" where
  "run_recorder rec count = (case rec of
       CountRecorder key \<Rightarrow> (Some (key, of_int count), None)
     | TpotRecorder ts recv_first sp \<Rightarrow>
         (if count \<le> 0 then (None, None)
          else let v = of_int (ts - recv_first) / of_int count
               in (Some (TPOT_NS, v), map_option (\<lambda>i. (i, v, count)) sp)))"

section \<open>Session events and tracked blocks\<close>

definition handle_session_event :: "session_event \<Rightarrow> int \<Rightarrow> metrics_table \<Rightarrow> metrics_table" where
  "handle_session_event ev ts mt = (case ev of
       STARTED \<Rightarrow> mt\<lparr>mt_session_started_ns := Some ts\<rparr>
     | START_PERFORMANCE_TRACKING \<Rightarrow>
         (if mt_is_tracking mt then mt
          else mt\<lparr>mt_is_tracking := True,
                  mt_tracked_blocks := mt_tracked_blocks mt @
                    [\<lparr>tb_start_ns = ts, tb_last_complete_ns = ts, tb_completed_samples = 0\<rparr>]\<rparr>)
     | STOP_PERFORMANCE_TRACKING \<Rightarrow> mt\<lparr>mt_is_tracking := False\<rparr>
     | _ \<Rightarrow> mt)"

definition total_tracked_duration_ns :: "metrics_table \<Rightarrow> int" where
  "total_tracked_duration_ns mt = sum_list (map block_duration_ns (mt_tracked_blocks mt))"

definition total_completed_tracked_samples :: "metrics_table \<Rightarrow> int" where
  "total_completed_tracked_samples mt = sum_list (map tb_completed_samples (mt_tracked_blocks mt))"

definition total_loadgen_window_ns :: "metrics_table \<Rightarrow> int" where
  "total_loadgen_window_ns mt =
     (case (mt_loadgen_window_end_ns mt, mt_loadgen_window_start_ns mt) of
        (Some e, Some s) \<Rightarrow> max 0 (e - s)
      | _ \<Rightarrow> 0)"

definition update_tracked_block :: "sample_row \<Rightarrow> int \<Rightarrow> metrics_table \<Rightarrow> metrics_table" where
  "update_tracked_block row done_ns mt =
     (let idx = tracked_block_idx row; bs = mt_tracked_blocks mt;
          mt1 = (if 0 \<le> idx \<and> idx < int (length bs)
                 then let b = bs ! nat idx
                      in mt\<lparr>mt_tracked_blocks := bs[nat idx :=
                           b\<lparr>tb_last_complete_ns := (if done_ns > tb_last_complete_ns b then done_ns
                                                   else tb_last_complete_ns b),
                             tb_completed_samples := tb_completed_samples b + 1\<rparr>]\<rparr>
                 else mt)
      in (case issued_ns row of
            Some i \<Rightarrow>
              (if i > mt_loadgen_max_issued_ns mt1
               then mt1\<lparr>mt_loadgen_max_issued_ns := i, mt_loadgen_window_end_ns := Some done_ns\<rparr>
               else mt1)
          | None \<Rightarrow> mt1))"

section \<open>Field updates\<close>

definition get_row :: "metrics_table \<Rightarrow> string \<Rightarrow> sample_row option" where
  "get_row mt uuid = mt_in_flight mt uuid"

text \<open>\<open>_create_row\<close>: a duplicate reuses the row in flight.\<close>

definition create_row :: "metrics_table \<Rightarrow> string \<Rightarrow> sample_row" where
  "create_row mt uuid = (case mt_in_flight mt uuid of Some r \<Rightarrow> r | None \<Rightarrow> new_row)"

definition fire_triggers ::
    "(merged_calls \<Rightarrow> string) \<Rightarrow> sample_row \<Rightarrow> sample_field \<Rightarrow> event_record \<Rightarrow> metrics_table \<Rightarrow> metrics_table" where
  "fire_triggers enc row f ev mt =
     mt\<lparr>mt_emissions := mt_emissions mt
          @ concat (map (fire_trigger enc (mt_has_queue mt) ev row) (mt_triggers mt f))\<rparr>"

text \<open>The shared end of \<open>set_field\<close>: fire, store, and retire the row on completion.\<close>

definition update_row ::
    "(merged_calls \<Rightarrow> string) \<Rightarrow> string \<Rightarrow> sample_row \<Rightarrow> sample_field \<Rightarrow> int \<Rightarrow> event_record
     \<Rightarrow> metrics_table \<Rightarrow> metrics_table" where
  "update_row enc uuid row f v ev mt =
     (let mt1 = fire_triggers enc row f ev mt;
          row' = set_row_field f v row
      in if ev_type ev = SampleEv COMPLETE
         then (update_tracked_block row' (ev_timestamp ev) mt1)
                \<lparr>mt_in_flight := (mt_in_flight mt1)(uuid := None)\<rparr>
         else mt1\<lparr>mt_in_flight := (mt_in_flight mt1)(uuid \<mapsto> row')\<rparr>)"

definition set_field ::
    "(merged_calls \<Rightarrow> string) \<Rightarrow> string \<Rightarrow> sample_field \<Rightarrow> int \<Rightarrow> event_record
     \<Rightarrow> metrics_table \<Rightarrow> metrics_table" where
  "set_field enc uuid f v ev mt =
     (if ev_type ev = SampleEv ISSUED then
        (if \<not> mt_is_tracking mt then mt
         else
           let row = (create_row mt uuid)\<lparr>tracked_block_idx := int (length (mt_tracked_blocks mt)) - 1\<rparr>;
               mt1 = mt\<lparr>mt_loadgen_window_start_ns :=
                 (case mt_loadgen_window_start_ns mt of None \<Rightarrow> Some v | Some t \<Rightarrow> Some t)\<rparr>
           in update_row enc uuid row f v ev mt1)
      else
        (case mt_in_flight mt uuid of
           None \<Rightarrow> mt
         | Some row \<Rightarrow> update_row enc uuid row f v ev mt))"

section \<open>The table invariant\<close>

text \<open>
  Every row in flight was issued, belongs to an existing tracked block and has its issue time;
  no block ends before it starts; the LoadGen window starts once anything was tracked.
\<close>

definition row_ok :: "metrics_table \<Rightarrow> sample_row \<Rightarrow> bool" where
  "row_ok mt r = (0 \<le> tracked_block_idx r \<and> tracked_block_idx r < int (length (mt_tracked_blocks mt))
     \<and> issued_ns r \<noteq> None)"

definition table_inv :: "metrics_table \<Rightarrow> bool" where
  "table_inv mt = ((\<forall>u r. mt_in_flight mt u = Some r \<longrightarrow> row_ok mt r)
     \<and> finite (dom (mt_in_flight mt))
     \<and> (mt_is_tracking mt \<longrightarrow> mt_tracked_blocks mt \<noteq> [])
     \<and> (\<forall>b\<in>set (mt_tracked_blocks mt). tb_start_ns b \<le> tb_last_complete_ns b \<and> 0 \<le> tb_completed_samples b)
     \<and> (\<forall>u r. mt_in_flight mt u = Some r \<longrightarrow> mt_loadgen_window_start_ns mt \<noteq> None))"

lemma set_row_field_keeps [simp]:
  "tracked_block_idx (set_row_field f v r) = tracked_block_idx r"
  "superpass_index (set_row_field f v r) = superpass_index r"
  by (cases f; simp)+

lemma set_row_field_issued [simp]:
  "issued_ns (set_row_field f v r) = (if f = ISSUED_NS then Some v else issued_ns r)"
  by (cases f) auto

lemma fire_triggers_frame [simp]:
  "mt_in_flight (fire_triggers enc row f ev mt) = mt_in_flight mt"
  "mt_tracked_blocks (fire_triggers enc row f ev mt) = mt_tracked_blocks mt"
  "mt_is_tracking (fire_triggers enc row f ev mt) = mt_is_tracking mt"
  "mt_loadgen_window_start_ns (fire_triggers enc row f ev mt) = mt_loadgen_window_start_ns mt"
  "mt_loadgen_window_end_ns (fire_triggers enc row f ev mt) = mt_loadgen_window_end_ns mt"
  "mt_loadgen_max_issued_ns (fire_triggers enc row f ev mt) = mt_loadgen_max_issued_ns mt"
  "mt_triggers (fire_triggers enc row f ev mt) = mt_triggers mt"
  "mt_has_queue (fire_triggers enc row f ev mt) = mt_has_queue mt"
  by (simp_all add: fire_triggers_def)

lemma update_tracked_block_frame [simp]:
  "mt_in_flight (update_tracked_block row c mt) = mt_in_flight mt"
  "mt_is_tracking (update_tracked_block row c mt) = mt_is_tracking mt"
  "mt_loadgen_window_start_ns (update_tracked_block row c mt) = mt_loadgen_window_start_ns mt"
  "length (mt_tracked_blocks (update_tracked_block row c mt)) = length (mt_tracked_blocks mt)"
  "mt_emissions (update_tracked_block row c mt) = mt_emissions mt"
  "mt_triggers (update_tracked_block row c mt) = mt_triggers mt"
  "mt_has_queue (update_tracked_block row c mt) = mt_has_queue mt"
  by (auto simp: update_tracked_block_def Let_def split: option.splits)

lemma update_tracked_block_blocks:
  "mt_tracked_blocks (update_tracked_block row c mt) =
     (if 0 \<le> tracked_block_idx row \<and> tracked_block_idx row < int (length (mt_tracked_blocks mt))
      then (mt_tracked_blocks mt)[nat (tracked_block_idx row) :=
             (mt_tracked_blocks mt ! nat (tracked_block_idx row))
               \<lparr>tb_last_complete_ns := max c (tb_last_complete_ns (mt_tracked_blocks mt ! nat (tracked_block_idx row))),
                tb_completed_samples := tb_completed_samples (mt_tracked_blocks mt ! nat (tracked_block_idx row)) + 1\<rparr>]
      else mt_tracked_blocks mt)"
  by (auto simp: update_tracked_block_def Let_def max_def split: option.splits)

lemma row_ok_blocks: "row_ok mt r \<Longrightarrow> length (mt_tracked_blocks mt') = length (mt_tracked_blocks mt)
    \<Longrightarrow> row_ok mt' r"
  by (simp add: row_ok_def)

lemma update_row_in_flight:
  "mt_in_flight (update_row enc uuid row f v ev mt) =
     (if ev_type ev = SampleEv COMPLETE then (mt_in_flight mt)(uuid := None)
      else (mt_in_flight mt)(uuid \<mapsto> set_row_field f v row))"
  by (simp add: update_row_def Let_def)

lemma update_row_frame [simp]:
  "mt_is_tracking (update_row enc uuid row f v ev mt) = mt_is_tracking mt"
  "mt_loadgen_window_start_ns (update_row enc uuid row f v ev mt) = mt_loadgen_window_start_ns mt"
  "length (mt_tracked_blocks (update_row enc uuid row f v ev mt)) = length (mt_tracked_blocks mt)"
  "mt_triggers (update_row enc uuid row f v ev mt) = mt_triggers mt"
  "mt_has_queue (update_row enc uuid row f v ev mt) = mt_has_queue mt"
  by (simp_all add: update_row_def Let_def)

lemma update_row_blocks:
  "mt_tracked_blocks (update_row enc uuid row f v ev mt) =
     (if ev_type ev = SampleEv COMPLETE
      then mt_tracked_blocks (update_tracked_block (set_row_field f v row) (ev_timestamp ev)
             (fire_triggers enc row f ev mt))
      else mt_tracked_blocks mt)"
  by (simp add: update_row_def Let_def)

lemma update_row_emissions:
  "mt_emissions (update_row enc uuid row f v ev mt)
     = mt_emissions mt @ concat (map (fire_trigger enc (mt_has_queue mt) ev row) (mt_triggers mt f))"
  by (simp add: update_row_def Let_def fire_triggers_def)

definition blocks_ok :: "tracked_block list \<Rightarrow> bool" where
  "blocks_ok bs = (\<forall>b\<in>set bs. tb_start_ns b \<le> tb_last_complete_ns b \<and> 0 \<le> tb_completed_samples b)"

lemma blocks_ok_update:
  assumes "blocks_ok (mt_tracked_blocks mt)"
  shows "blocks_ok (mt_tracked_blocks (update_tracked_block row c mt))"
proof -
  have "blocks_ok (bs[i := (bs ! i)\<lparr>tb_last_complete_ns := max c (tb_last_complete_ns (bs ! i)),
      tb_completed_samples := tb_completed_samples (bs ! i) + 1\<rparr>])"
    if bs: "blocks_ok bs" and i: "i < length bs" for bs i
  proof -
    have "tb_start_ns (bs ! i) \<le> tb_last_complete_ns (bs ! i) \<and> 0 \<le> tb_completed_samples (bs ! i)"
      using bs i by (simp add: blocks_ok_def)
    then show ?thesis using bs unfolding blocks_ok_def
      by (auto dest!: set_update_subset_insert [THEN subsetD])
  qed
  then show ?thesis using assms by (auto simp: update_tracked_block_blocks)
qed

lemma table_inv_alt:
  "table_inv mt \<longleftrightarrow> (\<forall>u r. mt_in_flight mt u = Some r \<longrightarrow> row_ok mt r \<and> mt_loadgen_window_start_ns mt \<noteq> None)
     \<and> finite (dom (mt_in_flight mt)) \<and> (mt_is_tracking mt \<longrightarrow> mt_tracked_blocks mt \<noteq> [])
     \<and> blocks_ok (mt_tracked_blocks mt)"
  by (auto simp: table_inv_def blocks_ok_def)

lemma table_inv_update_row:
  assumes "table_inv mt0" and "row_ok mt (set_row_field f v row)"
    and "mt_in_flight mt = mt_in_flight mt0" "mt_tracked_blocks mt = mt_tracked_blocks mt0"
    and "mt_is_tracking mt = mt_is_tracking mt0" "mt_loadgen_window_start_ns mt \<noteq> None"
  shows "table_inv (update_row enc uuid row f v ev mt)"
proof -
  let ?mt = "update_row enc uuid row f v ev mt"
  have len: "length (mt_tracked_blocks ?mt) = length (mt_tracked_blocks mt0)" by (simp add: assms(4))
  have rows: "row_ok ?mt r" if "mt_in_flight ?mt u = Some r" for u r
  proof -
    have "row_ok mt r"
      using that assms(1-4) by (auto simp: update_row_in_flight table_inv_alt row_ok_def split: if_splits)
    then show ?thesis by (rule row_ok_blocks) simp
  qed
  moreover have "finite (dom (mt_in_flight ?mt))"
    using assms(1,3) by (simp add: update_row_in_flight table_inv_alt)
  moreover have "blocks_ok (mt_tracked_blocks ?mt)"
    using assms(1,4) blocks_ok_update [of "fire_triggers enc row f ev mt"]
    by (auto simp: update_row_blocks table_inv_alt)
  moreover have "mt_tracked_blocks ?mt \<noteq> []" if "mt_is_tracking ?mt"
    using that assms(1,4,5) len by (metis length_0_conv table_inv_alt update_row_frame(1))
  ultimately show ?thesis using assms(6) by (simp add: table_inv_alt)
qed

lemma table_inv_set_field:
  assumes "table_inv mt" and "ev_type ev = SampleEv ISSUED \<longleftrightarrow> f = ISSUED_NS"
  shows "table_inv (set_field enc uuid f v ev mt)"
proof (cases "ev_type ev = SampleEv ISSUED")
  case True
  show ?thesis
  proof (cases "mt_is_tracking mt")
    case False
    then show ?thesis using True assms by (simp add: set_field_def)
  next
    case tracking: True
    define row where "row = (create_row mt uuid)\<lparr>tracked_block_idx := int (length (mt_tracked_blocks mt)) - 1\<rparr>"
    define mt1 where "mt1 = mt\<lparr>mt_loadgen_window_start_ns :=
        (case mt_loadgen_window_start_ns mt of None \<Rightarrow> Some v | Some t \<Rightarrow> Some t)\<rparr>"
    have "mt_tracked_blocks mt \<noteq> []" using assms(1) tracking by (simp add: table_inv_alt)
    then have ok: "row_ok mt1 (set_row_field f v row)"
      using True assms(2) by (cases "mt_tracked_blocks mt") (auto simp: row_ok_def row_def mt1_def)
    have start: "mt_loadgen_window_start_ns mt1 \<noteq> None" by (simp add: mt1_def split: option.splits)
    have eq: "set_field enc uuid f v ev mt = update_row enc uuid row f v ev mt1"
      using True tracking by (simp add: set_field_def row_def mt1_def Let_def)
    show ?thesis unfolding eq
      by (rule table_inv_update_row [OF assms(1) ok _ _ _ start]) (simp_all add: mt1_def)
  qed
next
  case False
  show ?thesis
  proof (cases "mt_in_flight mt uuid")
    case None
    then show ?thesis using False assms(1) by (simp add: set_field_def)
  next
    case (Some row)
    then have r: "row_ok mt row" "mt_loadgen_window_start_ns mt \<noteq> None"
      using assms(1) unfolding table_inv_alt by blast+
    then have "row_ok mt (set_row_field f v row)" by (simp add: row_ok_def)
    then show ?thesis using False Some r table_inv_update_row [OF assms(1)] by (simp add: set_field_def)
  qed
qed

lemma row_ok_mono: "row_ok mt r \<Longrightarrow> length (mt_tracked_blocks mt) \<le> length (mt_tracked_blocks mt')
    \<Longrightarrow> row_ok mt' r"
  by (simp add: row_ok_def)

lemma table_inv_session:
  assumes "table_inv mt" shows "table_inv (handle_session_event ev ts mt)"
proof -
  let ?mt = "handle_session_event ev ts mt"
  have "length (mt_tracked_blocks mt) \<le> length (mt_tracked_blocks ?mt)"
    "mt_in_flight ?mt = mt_in_flight mt" "mt_loadgen_window_start_ns ?mt = mt_loadgen_window_start_ns mt"
    by (cases ev; simp add: handle_session_event_def)+
  moreover have "blocks_ok (mt_tracked_blocks ?mt)" "mt_is_tracking ?mt \<longrightarrow> mt_tracked_blocks ?mt \<noteq> []"
    using assms by (cases ev; auto simp: handle_session_event_def table_inv_alt blocks_ok_def)+
  ultimately show ?thesis using assms row_ok_mono [of mt _ ?mt] unfolding table_inv_alt by metis
qed

lemma table_inv_init: "table_inv (metrics_table_init q)"
  by (simp add: table_inv_alt metrics_table_init_def blocks_ok_def)

text \<open>A whole stream of field updates and session events.\<close>

datatype table_op = FieldOp string sample_field event_record | SessionOp session_event int

definition op_ok :: "table_op \<Rightarrow> bool" where
  "op_ok op = (case op of FieldOp u f ev \<Rightarrow> (ev_type ev = SampleEv ISSUED \<longleftrightarrow> f = ISSUED_NS)
    | SessionOp _ _ \<Rightarrow> True)"

definition table_step :: "(merged_calls \<Rightarrow> string) \<Rightarrow> metrics_table \<Rightarrow> table_op \<Rightarrow> metrics_table" where
  "table_step enc mt op = (case op of
       FieldOp u f ev \<Rightarrow> set_field enc u f (ev_timestamp ev) ev mt
     | SessionOp ev ts \<Rightarrow> handle_session_event ev ts mt)"

lemma table_inv_run:
  assumes "table_inv mt" and "list_all op_ok ops"
  shows "table_inv (foldl (table_step enc) mt ops)"
  using assms
proof (induction ops arbitrary: mt)
  case (Cons op ops)
  then have "table_inv (table_step enc mt op)"
    by (cases op) (auto simp: table_step_def op_ok_def intro: table_inv_set_field table_inv_session)
  with Cons show ?case by simp
qed simp

lemma completed_total_update:
  assumes "row_ok mt row"
  shows "total_completed_tracked_samples (update_tracked_block row c mt)
     = total_completed_tracked_samples mt + 1"
proof -
  let ?i = "nat (tracked_block_idx row)" and ?bs = "mt_tracked_blocks mt"
  have i: "?i < length ?bs" using assms by (auto simp: row_ok_def)
  have "mt_tracked_blocks (update_tracked_block row c mt) = ?bs[?i := (?bs ! ?i)
      \<lparr>tb_last_complete_ns := max c (tb_last_complete_ns (?bs ! ?i)),
       tb_completed_samples := tb_completed_samples (?bs ! ?i) + 1\<rparr>]"
    using assms by (simp add: update_tracked_block_blocks row_ok_def)
  then show ?thesis unfolding total_completed_tracked_samples_def
    using sum_list_map_update [OF i, of tb_completed_samples _ 1] by simp
qed

section \<open>The LoadGen window\<close>

text \<open>Completions only ever move the window end; what they read of a row is its issue time.\<close>

definition window_step :: "int \<times> int option \<Rightarrow> int \<times> int \<Rightarrow> int \<times> int option" where
  "window_step = (\<lambda>(m, e) (issued, done_ns). if issued > m then (issued, Some done_ns) else (m, e))"

definition window_of :: "metrics_table \<Rightarrow> int \<times> int option" where
  "window_of mt = (mt_loadgen_max_issued_ns mt, mt_loadgen_window_end_ns mt)"

lemma window_of_complete:
  "issued_ns row = Some i \<Longrightarrow> window_of (update_tracked_block row c mt) = window_step (window_of mt) (i, c)"
  by (simp add: update_tracked_block_def window_of_def window_step_def Let_def)

lemma window_step_max:
  "fst (foldl window_step (m, e) cs) = foldl max m (map fst cs)"
proof (induction cs arbitrary: m e)
  case (Cons c cs)
  then show ?case by (cases c) (auto simp: window_step_def max_def)
qed simp

lemma foldl_max_upper: "x \<le> m \<Longrightarrow> x \<le> foldl max (m :: int) xs"
  by (induction xs arbitrary: m) (simp_all add: le_max_iff_disj)

lemma window_step_end:
  assumes "\<exists>c\<in>set cs. m < fst c"
  shows "\<exists>c\<in>set cs. snd (foldl window_step (m, e) cs) = Some (snd c)
     \<and> fst c = fst (foldl window_step (m, e) cs) \<and> (\<forall>d\<in>set cs. fst d \<le> fst c)"
  using assms
proof (induction cs arbitrary: m e)
  case (Cons c cs)
  obtain i t where c: "c = (i, t)" by force
  let ?m = "max m i"
  have st: "window_step (m, e) c = (if i > m then (i, Some t) else (m, e))" by (simp add: window_step_def c)
  show ?case
  proof (cases "\<exists>d\<in>set cs. ?m < fst d")
    case True
    define e1 where "e1 = (if i > m then Some t else e)"
    have st': "window_step (m, e) c = (?m, e1)" by (auto simp: st e1_def max_def)
    from Cons.IH [OF True, of e1] obtain d where d: "d \<in> set cs"
      "snd (foldl window_step (?m, e1) cs) = Some (snd d)" "fst d = fst (foldl window_step (?m, e1) cs)"
      "\<forall>d'\<in>set cs. fst d' \<le> fst d" by blast
    have "i \<le> fst d" using d(3) foldl_max_upper [of i ?m] by (simp add: window_step_max)
    then have "snd (foldl window_step (m, e) (c # cs)) = Some (snd d)"
      "fst d = fst (foldl window_step (m, e) (c # cs))" "\<forall>d'\<in>set (c # cs). fst d' \<le> fst d"
      using d(2-4) st' c by simp_all
    moreover have "d \<in> set (c # cs)" using d(1) by simp
    ultimately show ?thesis by blast
  next
    case False
    then have "m < i" using Cons.prems c by force
    then have "foldl window_step (i, Some t) cs = (i, Some t)"
      using False
    proof (induction cs)
      case (Cons d cs)
      then show ?case by (cases d) (auto simp: window_step_def)
    qed simp
    then have f: "foldl window_step (m, e) (c # cs) = (i, Some t)" using \<open>m < i\<close> by (simp add: st)
    have "\<forall>d\<in>set (c # cs). fst d \<le> i" using False \<open>m < i\<close> c by (auto simp: not_less)
    then show ?thesis unfolding f using c by auto
  qed
qed simp

section \<open>Properties\<close>

text \<open>Whatever stream of events arrives, every row in flight has its issue time and belongs to an
  existing tracked block, no tracked block has a negative duration or count, and a tracking
  window is open only when its block exists.\<close>

theorem table_stays_consistent:
  assumes "list_all op_ok ops" and "foldl (table_step enc) (metrics_table_init q) ops = mt"
  shows "table_inv mt \<and> 0 \<le> total_tracked_duration_ns mt \<and> 0 \<le> total_completed_tracked_samples mt"
proof -
  have inv: "table_inv mt" using table_inv_run [OF table_inv_init assms(1)] assms(2) by blast
  then have "blocks_ok (mt_tracked_blocks mt)" by (simp add: table_inv_alt)
  then have "0 \<le> total_tracked_duration_ns mt" "0 \<le> total_completed_tracked_samples mt"
    unfolding total_tracked_duration_ns_def total_completed_tracked_samples_def
    by (auto simp: blocks_ok_def block_duration_ns_def intro!: sum_list_nonneg)
  with inv show ?thesis by blast
qed

definition example_event :: "sample_event \<Rightarrow> int \<Rightarrow> event_data \<Rightarrow> event_record" where
  "example_event t ts d = mk_sample_event (SampleEv t) ts ''u'' [] None d"

theorem table_stays_consistent_witness:
  "\<exists>mt. foldl (table_step (\<lambda>_. [])) (metrics_table_init False)
       [SessionOp START_PERFORMANCE_TRACKING 5, FieldOp ''u'' ISSUED_NS (example_event ISSUED 7 NoData),
        FieldOp ''u'' COMPLETE_NS (example_event COMPLETE 30 NoData)] = mt
     \<and> 0 \<le> total_tracked_duration_ns mt"
proof -
  have "list_all op_ok [SessionOp START_PERFORMANCE_TRACKING 5,
        FieldOp ''u'' ISSUED_NS (example_event ISSUED 7 NoData),
        FieldOp ''u'' COMPLETE_NS (example_event COMPLETE 30 NoData)]"
    by (simp add: op_ok_def example_event_def mk_sample_event_def mk_event_def)
  from table_stays_consistent [OF this] show ?thesis by blast
qed

text \<open>A streamed sample's timing metrics are exactly the ones defined: with the streaming
  triggers registered and tracking on, a new sample issued at \<open>t0\<close>, first chunk at \<open>t1\<close>, completed
  at \<open>t2\<close> records its time to first token \<open>t1 - t0\<close> and its latency \<open>t2 - t0\<close> and nothing else (when
  its events carry nothing to tokenize), is counted once in the current tracked block, and leaves
  the table.\<close>

theorem streamed_sample_timing:
  assumes "mt = register_triggers True with_isl coll (metrics_table_init q)"
    and "mt1 = handle_session_event START_PERFORMANCE_TRACKING ts mt"
    and "ev_type e0 = SampleEv ISSUED" "ev_timestamp e0 = t0" "ev_data e0 = NoData"
    and "ev_type e1 = SampleEv RECV_FIRST" "ev_timestamp e1 = t1"
    and "ev_type e2 = SampleEv COMPLETE" "ev_timestamp e2 = t2" "ev_data e2 = NoData"
    and "mt2 = set_field enc u COMPLETE_NS t2 e2 (set_field enc u LAST_RECV_NS t1 e1
                (set_field enc u RECV_FIRST_NS t1 e1 (set_field enc u ISSUED_NS t0 e0 mt1)))"
  shows "mt_emissions mt2 = [Record TTFT_NS (of_int (t1 - t0)), Record SAMPLE_LATENCY_NS (of_int (t2 - t0))]
     \<and> total_completed_tracked_samples mt2 = 1 \<and> total_tracked_duration_ns mt2 = max t2 ts - ts
     \<and> mt_in_flight mt2 u = None"
proof -
  have trig: "mt_triggers mt1 = (\<lambda>f. case f of
        ISSUED_NS \<Rightarrow> (if with_isl then [IslTrigger] else [])
      | RECV_FIRST_NS \<Rightarrow> [TimeDeltaTrigger TTFT_NS ISSUED_NS]
      | LAST_RECV_NS \<Rightarrow> [TimeDeltaTrigger CHUNK_DELTA_NS LAST_RECV_NS]
      | COMPLETE_NS \<Rightarrow> [TimeDeltaTrigger SAMPLE_LATENCY_NS ISSUED_NS, OslTrigger, TpotTrigger coll])"
    by (auto simp: assms(1,2) handle_session_event_def register_triggers_def add_trigger_def
        metrics_table_init_def fun_eq_iff Let_def split: sample_field.splits)
  have init: "mt_in_flight mt1 = Map.empty" "mt_is_tracking mt1" "mt_emissions mt1 = []"
    "mt_tracked_blocks mt1 = [\<lparr>tb_start_ns = ts, tb_last_complete_ns = ts, tb_completed_samples = 0\<rparr>]"
    "mt_loadgen_max_issued_ns mt1 = - 1"
    by (auto simp: assms(1,2) handle_session_event_def register_triggers_def add_trigger_def
        metrics_table_init_def Let_def)
  have fire: "fire_trigger enc hq ev r IslTrigger = []" "fire_trigger enc hq ev r OslTrigger = []"
    "fire_trigger enc hq ev r (TpotTrigger coll) = []" if "ev_data ev = NoData" for hq ev r
    using that by (simp_all add: fire_trigger_def token_emission_def isl_input_def osl_input_def
        tpot_input_def)
  let ?r0 = "new_row\<lparr>tracked_block_idx := 0\<rparr>"
  define m0 where "m0 = set_field enc u ISSUED_NS t0 e0 mt1"
  have m0: "mt_in_flight m0 u = Some (?r0\<lparr>issued_ns := Some t0\<rparr>)" "mt_emissions m0 = []"
    "mt_tracked_blocks m0 = mt_tracked_blocks mt1" "mt_triggers m0 = mt_triggers mt1"
    using assms(3,5) init trig fire(1) [OF assms(5)]
    by (auto simp: m0_def set_field_def create_row_def update_row_in_flight update_row_emissions
        update_row_blocks Let_def)
  define m1 where "m1 = set_field enc u RECV_FIRST_NS t1 e1 m0"
  have m1: "mt_in_flight m1 u = Some (?r0\<lparr>issued_ns := Some t0, recv_first_ns := Some t1\<rparr>)"
    "mt_emissions m1 = [Record TTFT_NS (of_int (t1 - t0))]"
    "mt_tracked_blocks m1 = mt_tracked_blocks mt1" "mt_triggers m1 = mt_triggers mt1"
    using assms(6,7) m0 trig
    by (auto simp: m1_def set_field_def update_row_in_flight update_row_emissions update_row_blocks
        fire_trigger_def)
  define m2 where "m2 = set_field enc u LAST_RECV_NS t1 e1 m1"
  have m2: "mt_in_flight m2 u = Some (?r0\<lparr>issued_ns := Some t0, recv_first_ns := Some t1, last_recv_ns := Some t1\<rparr>)"
    "mt_emissions m2 = mt_emissions m1"
    "mt_tracked_blocks m2 = mt_tracked_blocks mt1" "mt_triggers m2 = mt_triggers mt1"
    using assms(6,7) m1 trig
    by (auto simp: m2_def set_field_def update_row_in_flight update_row_emissions update_row_blocks
        fire_trigger_def new_row_def)
  have mt2: "mt2 = set_field enc u COMPLETE_NS t2 e2 m2" by (simp add: assms(11) m2_def m1_def m0_def)
  have "mt_emissions mt2 = mt_emissions m1 @ [Record SAMPLE_LATENCY_NS (of_int (t2 - t0))]"
    using assms(8-10) m2 trig fire(2,3) [OF assms(10)]
    by (simp add: mt2 set_field_def update_row_emissions) (simp add: fire_trigger_def)
  moreover have "mt_tracked_blocks mt2 =
      [\<lparr>tb_start_ns = ts, tb_last_complete_ns = max t2 ts, tb_completed_samples = 1\<rparr>]"
    using assms(8,9) m2 init(4)
    by (simp add: mt2 set_field_def update_row_blocks update_tracked_block_blocks)
  moreover have "mt_in_flight mt2 u = None"
    using assms(8) m2 by (simp add: mt2 set_field_def update_row_in_flight)
  ultimately show ?thesis
    by (simp add: m1(2) total_completed_tracked_samples_def total_tracked_duration_ns_def
        block_duration_ns_def)
qed

theorem streamed_sample_timing_witness:
  "mt_emissions (set_field (\<lambda>_. []) ''u'' COMPLETE_NS 30 (example_event COMPLETE 30 NoData)
      (set_field (\<lambda>_. []) ''u'' LAST_RECV_NS 12 (example_event RECV_FIRST 12 NoData)
        (set_field (\<lambda>_. []) ''u'' RECV_FIRST_NS 12 (example_event RECV_FIRST 12 NoData)
          (set_field (\<lambda>_. []) ''u'' ISSUED_NS 7 (example_event ISSUED 7 NoData)
            (handle_session_event START_PERFORMANCE_TRACKING 5
              (register_triggers True True False (metrics_table_init False)))))))
    = [Record TTFT_NS 5, Record SAMPLE_LATENCY_NS 23]"
  using streamed_sample_timing [OF refl refl, of "example_event ISSUED 7 NoData" 7
      "example_event RECV_FIRST 12 NoData" 12 "example_event COMPLETE 30 NoData" 30 _ "\<lambda>_. []" "''u''" 5
      True False False, OF _ _ _ _ _ _ _ _ refl]
  by (simp add: example_event_def mk_sample_event_def mk_event_def)

text \<open>Completing a tracked sample counts it exactly once and touches no other sample; an event of
  a sample that is not tracked changes nothing at all.\<close>

theorem completion_counts_once:
  assumes "table_inv mt" and "ev_type ev = SampleEv COMPLETE"
  shows "(\<forall>row. mt_in_flight mt u = Some row \<longrightarrow>
           total_completed_tracked_samples (set_field enc u COMPLETE_NS t ev mt)
             = total_completed_tracked_samples mt + 1
           \<and> mt_in_flight (set_field enc u COMPLETE_NS t ev mt) = (mt_in_flight mt)(u := None))
     \<and> (mt_in_flight mt u = None \<longrightarrow> set_field enc u COMPLETE_NS t ev mt = mt)"
proof (intro conjI allI impI)
  fix row assume row: "mt_in_flight mt u = Some row"
  then have ok: "row_ok mt (set_row_field COMPLETE_NS t row)"
    using assms(1) by (auto simp: table_inv_def row_ok_def)
  have "row_ok (fire_triggers enc row COMPLETE_NS ev mt) (set_row_field COMPLETE_NS t row)"
    using ok by (simp add: row_ok_def)
  from completed_total_update [OF this]
  show "total_completed_tracked_samples (set_field enc u COMPLETE_NS t ev mt)
      = total_completed_tracked_samples mt + 1"
    using row assms(2)
    by (simp add: set_field_def update_row_blocks total_completed_tracked_samples_def)
  show "mt_in_flight (set_field enc u COMPLETE_NS t ev mt) = (mt_in_flight mt)(u := None)"
    using row assms(2) by (simp add: set_field_def update_row_in_flight)
next
  assume "mt_in_flight mt u = None"
  then show "set_field enc u COMPLETE_NS t ev mt = mt" using assms(2) by (simp add: set_field_def)
qed

theorem completion_counts_once_witness:
  "set_field (\<lambda>_. []) ''u'' COMPLETE_NS 3 (example_event COMPLETE 3 NoData) (metrics_table_init True)
     = metrics_table_init True"
proof -
  have "ev_type (example_event COMPLETE 3 NoData) = SampleEv COMPLETE"
    by (simp add: example_event_def mk_sample_event_def mk_event_def)
  then have "mt_in_flight (metrics_table_init True) ''u'' = None \<longrightarrow>
      set_field (\<lambda>_. []) ''u'' COMPLETE_NS 3 (example_event COMPLETE 3 NoData) (metrics_table_init True)
        = metrics_table_init True"
    using completion_counts_once [OF table_inv_init] by blast
  then show ?thesis by (simp add: metrics_table_init_def)
qed

text \<open>The legacy LoadGen window ends where MLPerf ends it: after any completions of tracked
  samples (given as issue and completion times, with non-negative issue times), the window end is
  the completion time of the last-issued one among them.\<close>

theorem loadgen_window_ends_at_last_issued:
  assumes "cs \<noteq> []" and "\<forall>c\<in>set cs. 0 \<le> fst c"
    and "mt' = foldl (\<lambda>mt (i, c). update_tracked_block (new_row\<lparr>issued_ns := Some i\<rparr>) c mt)
                 (metrics_table_init q) cs"
  shows "\<exists>c\<in>set cs. mt_loadgen_window_end_ns mt' = Some (snd c) \<and> (\<forall>d\<in>set cs. fst d \<le> fst c)"
proof -
  have w: "window_of (foldl (\<lambda>mt (i, c). update_tracked_block (new_row\<lparr>issued_ns := Some i\<rparr>) c mt) mt cs)
      = foldl window_step (window_of mt) cs" for mt
    by (induction cs arbitrary: mt) (auto simp: window_of_complete)
  have "\<exists>c\<in>set cs. - 1 < fst c" using assms(1,2) by (cases cs) auto
  from window_step_end [OF this, of None] obtain c where c: "c \<in> set cs"
    "snd (foldl window_step (- 1, None) cs) = Some (snd c)" "\<forall>d\<in>set cs. fst d \<le> fst c" by blast
  have "window_of (metrics_table_init q) = (- 1, None)"
    by (simp add: window_of_def metrics_table_init_def)
  then have "window_of mt' = foldl window_step (- 1, None) cs"
    using w [of "metrics_table_init q"] unfolding assms(3) by simp
  then have "mt_loadgen_window_end_ns mt' = Some (snd c)" using c(2) unfolding window_of_def by (metis snd_conv)
  with c show ?thesis by blast
qed

theorem loadgen_window_ends_at_last_issued_witness:
  "\<exists>c\<in>set [(1::int, 9::int), (4, 7), (2, 8)]. mt_loadgen_window_end_ns
      (foldl (\<lambda>mt (i, c). update_tracked_block (new_row\<lparr>issued_ns := Some i\<rparr>) c mt)
         (metrics_table_init True) [(1, 9), (4, 7), (2, 8)]) = Some (snd c)
      \<and> (\<forall>d\<in>set [(1::int, 9::int), (4, 7), (2, 8)]. fst d \<le> fst c)"
  by (rule loadgen_window_ends_at_last_issued [OF _ _ refl]) simp_all

end
