(* ===== verification/SuperPass.thy ===== *)
theory SuperPass
  imports CoreTypes RuntimeSettings
begin

text \<open>
  The super-pass collector of \<open>metrics/steady_state_diagnostics.py\<close>, the replay parser that feeds
  it from a logged event stream, and the window helpers over the collected series.  Timestamps
  are integers, samples rationals; the tokenizer of the replay is the parameter \<open>count_tokens\<close>.
\<close>

section \<open>Rollups and the collector\<close>

record rollup =
  sp_index :: nat
  sp_n_issued :: nat
  sp_first_issue_ns :: int
  sp_last_issue_ns :: int
  sp_last_event_ns :: int
  sp_ttft_ns :: "rat list"
  sp_ttft_warm_ns :: "rat list"
  sp_tpot_ns :: "rat list"
  sp_latency_ns :: "rat list"
  sp_osl :: "rat list"
  sp_out_tokens :: int

definition new_rollup :: "nat \<Rightarrow> rollup" where
  "new_rollup i = \<lparr>sp_index = i, sp_n_issued = 0, sp_first_issue_ns = - 1, sp_last_issue_ns = - 1,
     sp_last_event_ns = - 1, sp_ttft_ns = [], sp_ttft_warm_ns = [], sp_tpot_ns = [],
     sp_latency_ns = [], sp_osl = [], sp_out_tokens = 0\<rparr>"

record collector =
  superpass_size :: nat
  co_series :: "rollup list"
  co_issue_counter :: nat

definition collector_init :: "nat \<Rightarrow> collector" where
  "collector_init n = \<lparr>superpass_size = n, co_series = [], co_issue_counter = 0\<rparr>"

definition announce_phase :: "int \<Rightarrow> collector \<Rightarrow> collector" where
  "announce_phase num_turns c =
     (if num_turns > 0 \<and> co_series c = [] then c\<lparr>superpass_size := nat num_turns\<rparr> else c)"

text \<open>The \<open>while\<close> loop that makes the bucket exist.\<close>

definition grow_series :: "nat \<Rightarrow> rollup list \<Rightarrow> rollup list" where
  "grow_series i sps = sps @ map new_rollup [length sps..<Suc i]"

definition stamp_issue :: "int \<Rightarrow> rollup \<Rightarrow> rollup" where
  "stamp_issue ts sp = sp
     \<lparr>sp_n_issued := sp_n_issued sp + 1,
      sp_first_issue_ns := (if sp_first_issue_ns sp < 0 then ts else sp_first_issue_ns sp),
      sp_last_issue_ns := max (sp_last_issue_ns sp) ts,
      sp_last_event_ns := max (sp_last_event_ns sp) ts\<rparr>"

definition upd_series :: "nat \<Rightarrow> (rollup \<Rightarrow> rollup) \<Rightarrow> collector \<Rightarrow> collector" where
  "upd_series i f c = c\<lparr>co_series := (co_series c)[i := f (co_series c ! i)]\<rparr>"

definition assign :: "int \<Rightarrow> collector \<Rightarrow> int \<times> collector" where
  "assign ts c =
     (if superpass_size c = 0 then (- 1, c)
      else
        let i = co_issue_counter c div superpass_size c;
            c1 = c\<lparr>co_issue_counter := co_issue_counter c + 1, co_series := grow_series i (co_series c)\<rparr>
        in (int i, upd_series i (stamp_issue ts) c1))"

definition reissue :: "nat \<Rightarrow> int \<Rightarrow> collector \<Rightarrow> collector" where
  "reissue i ts = upd_series i (\<lambda>sp. sp
     \<lparr>sp_last_issue_ns := max (sp_last_issue_ns sp) ts, sp_last_event_ns := max (sp_last_event_ns sp) ts\<rparr>)"

definition on_recv_first :: "nat \<Rightarrow> int \<Rightarrow> int \<Rightarrow> int option \<Rightarrow> bool \<Rightarrow> collector \<Rightarrow> collector" where
  "on_recv_first i issue_ns ts turn first = upd_series i (\<lambda>sp.
     let sp1 = sp\<lparr>sp_last_event_ns := max (sp_last_event_ns sp) ts\<rparr>;
         ttft = of_int (ts - issue_ns)
     in if \<not> first then sp1
        else sp1\<lparr>sp_ttft_ns := sp_ttft_ns sp @ [ttft],
                 sp_ttft_warm_ns := (if (case turn of None \<Rightarrow> True | Some n \<Rightarrow> n > 1)
                   then sp_ttft_warm_ns sp @ [ttft] else sp_ttft_warm_ns sp)\<rparr>)"

definition on_complete :: "nat \<Rightarrow> int \<Rightarrow> int option \<Rightarrow> int \<Rightarrow> collector \<Rightarrow> rat option \<times> collector" where
  "on_complete i issue_ns recv_first ts c =
     (map_option (\<lambda>t. of_int (ts - t)) recv_first,
      upd_series i (\<lambda>sp. sp\<lparr>sp_last_event_ns := max (sp_last_event_ns sp) ts,
        sp_latency_ns := sp_latency_ns sp @ [of_int (ts - issue_ns)]\<rparr>) c)"

definition add_tpot :: "nat \<Rightarrow> rat \<Rightarrow> int \<Rightarrow> collector \<Rightarrow> collector" where
  "add_tpot i tpot count = upd_series i (\<lambda>sp. sp
     \<lparr>sp_tpot_ns := sp_tpot_ns sp @ [tpot], sp_osl := sp_osl sp @ [of_int count],
      sp_out_tokens := sp_out_tokens sp + count\<rparr>)"

section \<open>The replay parser\<close>

text \<open>One parsed line of the event log; absent fields are \<open>None\<close>.  A line that is blank or not JSON
  yields no event.\<close>

record log_event =
  le_type :: event_type
  le_ts :: "int option"
  le_uuid :: "string option"
  le_turn :: "int option"
  le_data :: "(output_elem \<times> output_elem option) option"

record pending_row =
  pw_superpass_index :: nat
  pw_issue_ns :: int
  pw_recv_first_ns :: "int option"

record replay =
  rp_collector :: collector
  rp_rows :: "string \<rightharpoonup> pending_row"
  rp_tracking :: bool
  rp_pending :: "(nat \<times> rat) list"
  rp_texts :: "string list"

definition replay_init :: "nat \<Rightarrow> replay" where
  "replay_init n = \<lparr>rp_collector = collector_init n, rp_rows = Map.empty, rp_tracking = False,
     rp_pending = [], rp_texts = []\<rparr>"

text \<open>\<open>flush_tpot\<close>: counts are matched to the buffer by position; a tokenizer that returns a
  different number of counts makes \<open>zip(strict=True)\<close> raise.\<close>

definition add_counts :: "((nat \<times> rat) \<times> int) list \<Rightarrow> collector \<Rightarrow> collector" where
  "add_counts xs c = foldl (\<lambda>c ((i, delta), cnt). if cnt > 0 then add_tpot i (delta / of_int cnt) cnt c else c) c xs"

definition flush_tpot :: "(string list \<Rightarrow> int list) \<Rightarrow> replay \<Rightarrow> replay result" where
  "flush_tpot count_tokens r =
     (if rp_texts r = [] then Inr (r\<lparr>rp_pending := [], rp_texts := []\<rparr>)
      else
        let counts = count_tokens (rp_texts r)
        in if length counts \<noteq> length (rp_pending r) then Inl ValueError
           else Inr (r\<lparr>rp_collector := add_counts (zip (rp_pending r) counts) (rp_collector r),
                       rp_pending := [], rp_texts := []\<rparr>))"

definition replay_issued :: "string \<Rightarrow> int \<Rightarrow> replay \<Rightarrow> replay" where
  "replay_issued uuid ts r =
     (if \<not> rp_tracking r then r
      else (case rp_rows r uuid of
          Some row \<Rightarrow>
            r\<lparr>rp_rows := (rp_rows r)(uuid \<mapsto> row\<lparr>pw_issue_ns := ts\<rparr>),
              rp_collector := reissue (pw_superpass_index row) ts (rp_collector r)\<rparr>
        | None \<Rightarrow>
            (let (i, c) = assign ts (rp_collector r)
             in if i \<ge> 0
                then r\<lparr>rp_collector := c,
                       rp_rows := (rp_rows r)(uuid \<mapsto> \<lparr>pw_superpass_index = nat i, pw_issue_ns = ts,
                                                      pw_recv_first_ns = None\<rparr>)\<rparr>
                else r\<lparr>rp_collector := c\<rparr>)))"

definition replay_recv_first :: "string \<Rightarrow> int \<Rightarrow> int option \<Rightarrow> replay \<Rightarrow> replay" where
  "replay_recv_first uuid ts turn r = (case rp_rows r uuid of
       None \<Rightarrow> r
     | Some row \<Rightarrow>
         (let first = (pw_recv_first_ns row = None)
          in r\<lparr>rp_collector := on_recv_first (pw_superpass_index row) (pw_issue_ns row) ts turn first (rp_collector r),
               rp_rows := (rp_rows r)(uuid \<mapsto> (if first then row\<lparr>pw_recv_first_ns := Some ts\<rparr> else row))\<rparr>))"

definition replay_complete ::
    "(string list \<Rightarrow> int list) \<Rightarrow> nat \<Rightarrow> string \<Rightarrow> int \<Rightarrow> (output_elem \<times> output_elem option) option
     \<Rightarrow> replay \<Rightarrow> replay result" where
  "replay_complete count_tokens flush_size uuid ts data r = (case rp_rows r uuid of
       None \<Rightarrow> Inr r
     | Some row \<Rightarrow>
         (let (delta, c) = on_complete (pw_superpass_index row) (pw_issue_ns row) (pw_recv_first_ns row) ts (rp_collector r);
              r1 = r\<lparr>rp_collector := c, rp_rows := (rp_rows r)(uuid := None)\<rparr>;
              text = (case data of None \<Rightarrow> [] | Some (o', rs) \<Rightarrow> replay_text_after_first_chunk o' rs)
          in (case delta of
                None \<Rightarrow> Inr r1
              | Some d \<Rightarrow>
                  if text = [] then Inr r1
                  else
                    let r2 = r1\<lparr>rp_pending := rp_pending r1 @ [(pw_superpass_index row, d)],
                                rp_texts := rp_texts r1 @ [text]\<rparr>
                    in if length (rp_texts r2) \<ge> flush_size then flush_tpot count_tokens r2 else Inr r2)))"

definition replay_event :: "(string list \<Rightarrow> int list) \<Rightarrow> nat \<Rightarrow> replay \<Rightarrow> log_event \<Rightarrow> replay result" where
  "replay_event count_tokens flush_size r e =
     (if le_type e = SessionEv START_PERFORMANCE_TRACKING then Inr (r\<lparr>rp_tracking := True\<rparr>)
      else if le_type e = SessionEv STOP_PERFORMANCE_TRACKING then Inr (r\<lparr>rp_tracking := False\<rparr>)
      else (case (le_ts e, le_uuid e) of
          (Some ts, Some (ch # cs)) \<Rightarrow>
            (let uuid = ch # cs in
             if le_type e = SampleEv ISSUED then Inr (replay_issued uuid ts r)
             else if le_type e = SampleEv RECV_FIRST then Inr (replay_recv_first uuid ts (le_turn e) r)
             else if le_type e = SampleEv COMPLETE then
               replay_complete count_tokens flush_size uuid ts (le_data e) r
             else Inr r)
        | _ \<Rightarrow> Inr r))"

fun replay_events :: "(string list \<Rightarrow> int list) \<Rightarrow> nat \<Rightarrow> replay \<Rightarrow> log_event list \<Rightarrow> replay result" where
  "replay_events count_tokens flush_size r [] = flush_tpot count_tokens r"
| "replay_events count_tokens flush_size r (e # es) =
     (case replay_event count_tokens flush_size r e of
        Inl x \<Rightarrow> Inl x
      | Inr r' \<Rightarrow> replay_events count_tokens flush_size r' es)"

definition build_super_pass_series ::
    "int \<Rightarrow> (string list \<Rightarrow> int list) \<Rightarrow> nat \<Rightarrow> log_event list \<Rightarrow> rollup list result" where
  "build_super_pass_series sp_size count_tokens flush_size es =
     (if sp_size \<le> 0 then Inl ValueError
      else map_sum id (\<lambda>r. co_series (rp_collector r))
             (replay_events count_tokens flush_size (replay_init (nat sp_size)) es))"

section \<open>Windows over a series\<close>

text \<open>\<open>sorted_values[int(p * (n - 1))]\<close>.\<close>

definition percentile_lower :: "rat list \<Rightarrow> rat \<Rightarrow> rat result" where
  "percentile_lower xs p =
     (if xs = [] then Inl ValueError else list_get xs (trunc (p * of_int (int (length xs) - 1))))"

definition window :: "rollup list \<Rightarrow> nat \<Rightarrow> nat \<Rightarrow> rollup list" where
  "window series lo hi = drop lo (take hi series)"

definition pooled :: "rollup list \<Rightarrow> nat \<Rightarrow> nat \<Rightarrow> (rollup \<Rightarrow> rat list) \<Rightarrow> rat list" where
  "pooled series lo hi attr = concat (map attr (window series lo hi))"

definition pooled_out_tokens :: "rollup list \<Rightarrow> nat \<Rightarrow> nat \<Rightarrow> int" where
  "pooled_out_tokens series lo hi = sum_list (map sp_out_tokens (window series lo hi))"

definition span_ns :: "int list \<Rightarrow> int list \<Rightarrow> int" where
  "span_ns firsts lasts =
     (let fs = filter (\<lambda>t. t \<ge> 0) firsts; ls = filter (\<lambda>t. t \<ge> 0) lasts
      in if fs = [] \<or> ls = [] then 0 else Max (set ls) - Min (set fs))"

definition window_elapsed_ns :: "rollup list \<Rightarrow> nat \<Rightarrow> nat \<Rightarrow> int" where
  "window_elapsed_ns series lo hi =
     (let w = window series lo hi in span_ns (map sp_first_issue_ns w) (map sp_last_event_ns w))"

definition window_issue_span_ns :: "rollup list \<Rightarrow> nat \<Rightarrow> nat \<Rightarrow> int" where
  "window_issue_span_ns series lo hi =
     (let w = window series lo hi in span_ns (map sp_first_issue_ns w) (map sp_last_issue_ns w))"

definition super_pass_percentile_series :: "rollup list \<Rightarrow> (rollup \<Rightarrow> rat list) \<Rightarrow> rat \<Rightarrow> rat list" where
  "super_pass_percentile_series series attr p =
     concat (map (\<lambda>sp. case percentile_lower (sort (attr sp)) p of Inl _ \<Rightarrow> [] | Inr v \<Rightarrow> [v])
       (filter (\<lambda>sp. attr sp \<noteq> []) series))"

section \<open>The collector invariant\<close>

text \<open>Bucket \<open>i\<close> of \<open>n\<close> issues in buckets of size \<open>k\<close> holds \<open>bucket_fill k n i\<close> of them.\<close>

definition bucket_fill :: "nat \<Rightarrow> nat \<Rightarrow> nat \<Rightarrow> nat" where
  "bucket_fill k n i = min k (n - i * k)"

definition rollup_ok :: "rollup \<Rightarrow> bool" where
  "rollup_ok sp = (sp_last_issue_ns sp \<le> sp_last_event_ns sp
     \<and> (0 \<le> sp_first_issue_ns sp \<longrightarrow> sp_first_issue_ns sp \<le> sp_last_issue_ns sp)
     \<and> length (sp_tpot_ns sp) = length (sp_osl sp)
     \<and> of_int (sp_out_tokens sp) = sum_list (sp_osl sp)
     \<and> length (sp_ttft_warm_ns sp) \<le> length (sp_ttft_ns sp))"

definition collector_inv :: "collector \<Rightarrow> bool" where
  "collector_inv c =
     ((superpass_size c = 0 \<longrightarrow> co_series c = [] \<and> co_issue_counter c = 0)
      \<and> (superpass_size c > 0 \<longrightarrow>
           length (co_series c) = (co_issue_counter c + superpass_size c - 1) div superpass_size c)
      \<and> (\<forall>i<length (co_series c). sp_index (co_series c ! i) = i
           \<and> sp_n_issued (co_series c ! i) = bucket_fill (superpass_size c) (co_issue_counter c) i)
      \<and> list_all rollup_ok (co_series c))"

lemma upd_series_inv:
  assumes "collector_inv c"
    and "\<And>sp. rollup_ok sp \<Longrightarrow> rollup_ok (f sp)"
    and "\<And>sp. sp_index (f sp) = sp_index sp" "\<And>sp. sp_n_issued (f sp) = sp_n_issued sp"
  shows "collector_inv (upd_series i f c)"
proof -
  let ?s = "co_series c"
  have nth: "sp_index (?s[i := f (?s ! i)] ! j) = sp_index (?s ! j)"
    "sp_n_issued (?s[i := f (?s ! i)] ! j) = sp_n_issued (?s ! j)" if "j < length ?s" for j
    using that assms(3,4) by (cases "i = j"; simp)+
  have "rollup_ok (?s[i := f (?s ! i)] ! j)" if "j < length ?s" for j
    using that assms(1,2) by (cases "i = j") (auto simp: collector_inv_def list_all_length)
  then have "list_all rollup_ok (?s[i := f (?s ! i)])" by (simp add: list_all_length)
  then show ?thesis using assms(1) nth by (simp add: collector_inv_def upd_series_def)
qed

lemma announce_phase_inv:
  assumes "collector_inv c" shows "collector_inv (announce_phase n c)"
proof (cases "n > 0 \<and> co_series c = []")
  case True
  have "co_issue_counter c = 0"
  proof (cases "superpass_size c = 0")
    case False
    then have "(co_issue_counter c + superpass_size c - 1) div superpass_size c = 0"
      using assms True by (simp add: collector_inv_def)
    then have "co_issue_counter c + superpass_size c - 1 < superpass_size c"
      using False by (simp add: div_eq_0_iff)
    then show ?thesis by linarith
  qed (use assms in \<open>simp add: collector_inv_def\<close>)
  then show ?thesis using True by (simp add: announce_phase_def collector_inv_def)
next
  case False
  then show ?thesis using assms by (auto simp: announce_phase_def)
qed

lemma reissue_inv: "collector_inv c \<Longrightarrow> collector_inv (reissue i ts c)"
  unfolding reissue_def by (rule upd_series_inv) (auto simp: rollup_ok_def)

lemma on_recv_first_inv: "collector_inv c \<Longrightarrow> collector_inv (on_recv_first i t0 ts turn first c)"
  unfolding on_recv_first_def
  by (rule upd_series_inv) (auto simp: rollup_ok_def Let_def split: option.splits)

lemma on_complete_inv: "collector_inv c \<Longrightarrow> collector_inv (snd (on_complete i t0 rf ts c))"
  unfolding on_complete_def snd_conv by (rule upd_series_inv) (auto simp: rollup_ok_def)

lemma add_tpot_inv: "collector_inv c \<Longrightarrow> collector_inv (add_tpot i v n c)"
  unfolding add_tpot_def by (rule upd_series_inv) (auto simp: rollup_ok_def)

lemma ceil_div_cases:
  fixes n k :: nat
  assumes "k > 0"
  shows "(n + k - 1) div k = (if n mod k = 0 then n div k else Suc (n div k))"
proof -
  have n: "n = k * (n div k) + n mod k" by simp
  show ?thesis
  proof (cases "n mod k = 0")
    case True
    then have eq: "n + k - 1 = (k - 1) + k * (n div k)" using n assms by linarith
    have "((k - 1) + k * (n div k)) div k = n div k + (k - 1) div k"
      using assms by (intro div_mult_self2) simp
    then have "((k - 1) + k * (n div k)) div k = n div k" using assms by simp
    then show ?thesis using True unfolding eq by simp
  next
    case False
    then have "n + k - 1 = k * Suc (n div k) + (n mod k - 1)" using n by simp
    moreover have "n mod k - 1 < k" using assms mod_less_divisor [of k n] by linarith
    ultimately have "(n + k - 1) div k = Suc (n div k)"
      by (metis assms div_mult_self4 div_less add.right_neutral mult.commute less_numeral_extra(3) add.commute)
    then show ?thesis using False by simp
  qed
qed

lemma bucket_fill_step:
  fixes n k :: nat
  assumes "k > 0" "j \<le> n div k"
  shows "bucket_fill k (Suc n) j = (if j = n div k then Suc (n mod k) else bucket_fill k n j)"
    and "j < n div k \<Longrightarrow> bucket_fill k n j = k"
    and "bucket_fill k n (n div k) = n mod k"
proof -
  have n: "n = k * (n div k) + n mod k" by simp
  have m: "n mod k < k" using assms by simp
  have full: "k \<le> n - j * k" if "j < n div k"
  proof -
    have "Suc j * k \<le> (n div k) * k" using that by (intro mult_right_mono) auto
    also have "\<dots> \<le> n" by (simp add: div_times_less_eq_dividend)
    finally show ?thesis by simp
  qed
  have last: "n - (n div k) * k = n mod k" by (simp add: minus_div_mult_eq_mod)
  show "j < n div k \<Longrightarrow> bucket_fill k n j = k" using full by (simp add: bucket_fill_def)
  show "bucket_fill k n (n div k) = n mod k" using last m by (simp add: bucket_fill_def)
  have "Suc n - (n div k) * k = Suc (n mod k)"
    using last by (simp add: Suc_diff_le div_times_less_eq_dividend)
  then show "bucket_fill k (Suc n) j = (if j = n div k then Suc (n mod k) else bucket_fill k n j)"
    using full m assms(2) by (auto simp: bucket_fill_def)
qed

lemma rollup_ok_new: "rollup_ok (new_rollup i)"
  by (simp add: rollup_ok_def new_rollup_def)

lemma rollup_ok_stamp: "rollup_ok sp \<Longrightarrow> rollup_ok (stamp_issue ts sp)"
  by (auto simp: rollup_ok_def stamp_issue_def)

lemma assign_inv:
  assumes "collector_inv c" shows "collector_inv (snd (assign ts c))"
proof (cases "superpass_size c = 0")
  case True
  then show ?thesis using assms by (simp add: assign_def)
next
  case False
  let ?k = "superpass_size c" and ?n = "co_issue_counter c" and ?s = "co_series c"
  let ?i = "?n div ?k" and ?g = "grow_series (?n div ?k) ?s"
  have k: "?k > 0" using False by simp
  have len: "length ?s = (if ?n mod ?k = 0 then ?i else Suc ?i)"
    using assms k ceil_div_cases [OF k, of ?n] by (simp add: collector_inv_def)
  then have glen: "length ?g = Suc ?i" by (auto simp: grow_series_def)
  have old: "sp_index (?s ! j) = j \<and> sp_n_issued (?s ! j) = bucket_fill ?k ?n j" if "j < length ?s" for j
    using assms that by (simp add: collector_inv_def)
  have gnth: "sp_index (?g ! j) = j \<and> sp_n_issued (?g ! j) = bucket_fill ?k ?n j" if "j \<le> ?i" for j
  proof (cases "j < length ?s")
    case True
    then show ?thesis using old by (simp add: grow_series_def nth_append)
  next
    case False
    then have "?n mod ?k = 0" "j = ?i" using that len by (auto split: if_splits)
    then have "?g ! j = new_rollup j" using len by (simp add: grow_series_def nth_append)
    then show ?thesis using bucket_fill_step(3) [OF k le0] \<open>j = ?i\<close> \<open>?n mod ?k = 0\<close>
      by (simp add: new_rollup_def)
  qed
  have gok: "list_all rollup_ok ?g"
    using assms rollup_ok_new by (auto simp: collector_inv_def grow_series_def list_all_iff)
  have eq: "snd (assign ts c) = c\<lparr>co_issue_counter := Suc ?n, co_series := ?g[?i := stamp_issue ts (?g ! ?i)]\<rparr>"
    using False by (simp add: assign_def upd_series_def Let_def)
  have "Suc ?n + ?k - 1 = ?n + ?k" by simp
  then have newlen: "(Suc ?n + ?k - 1) div ?k = Suc ?i" using k by simp
  have nth: "sp_index (?g[?i := stamp_issue ts (?g ! ?i)] ! j) = j
      \<and> sp_n_issued (?g[?i := stamp_issue ts (?g ! ?i)] ! j) = bucket_fill ?k (Suc ?n) j"
    if "j < Suc ?i" for j
  proof (cases "j = ?i")
    case True
    have "sp_n_issued (stamp_issue ts (?g ! ?i)) = Suc (?n mod ?k)"
      using gnth [of ?i] bucket_fill_step(3) [OF k le0] by (simp add: stamp_issue_def)
    then show ?thesis using True gnth [of ?i] bucket_fill_step(1) [OF k, of j ?n] glen
      by (simp add: stamp_issue_def)
  next
    case False
    then show ?thesis using that gnth [of j] bucket_fill_step(1) [OF k, of j ?n] by simp
  qed
  have "list_all rollup_ok (?g[?i := stamp_issue ts (?g ! ?i)])"
    using gok glen by (intro list_all_update) (auto simp: list_all_length intro: rollup_ok_stamp)
  then show ?thesis using nth newlen k glen unfolding eq collector_inv_def by simp
qed

lemma assign_index:
  assumes "collector_inv c" "superpass_size c > 0"
  shows "fst (assign ts c) = int (co_issue_counter c div superpass_size c)"
    and "nat (fst (assign ts c)) < length (co_series (snd (assign ts c)))"
proof -
  show i: "fst (assign ts c) = int (co_issue_counter c div superpass_size c)"
    using assms(2) by (simp add: assign_def Let_def)
  have "length (co_series (snd (assign ts c))) \<ge> Suc (co_issue_counter c div superpass_size c)"
    using assms(2) by (simp add: assign_def Let_def upd_series_def grow_series_def)
  then show "nat (fst (assign ts c)) < length (co_series (snd (assign ts c)))" by (simp add: i)
qed

section \<open>Replay keeps the collector in order\<close>

lemma add_counts_inv: "collector_inv c \<Longrightarrow> collector_inv (add_counts xs c)"
  unfolding add_counts_def
  by (rule foldl_invariant) (auto intro: add_tpot_inv)

lemma flush_tpot_inv:
  "flush_tpot ct r = Inr r' \<Longrightarrow> collector_inv (rp_collector r) \<Longrightarrow> collector_inv (rp_collector r')"
  by (auto simp: flush_tpot_def Let_def intro: add_counts_inv split: if_splits)

lemma replay_issued_inv: "collector_inv (rp_collector r) \<Longrightarrow> collector_inv (rp_collector (replay_issued u ts r))"
  using assign_inv [of "rp_collector r" ts]
  by (auto simp: replay_issued_def Let_def intro: reissue_inv split: option.splits prod.splits)

lemma replay_recv_first_inv:
  "collector_inv (rp_collector r) \<Longrightarrow> collector_inv (rp_collector (replay_recv_first u ts turn r))"
  by (auto simp: replay_recv_first_def Let_def intro: on_recv_first_inv split: option.splits)

lemma replay_complete_inv:
  assumes "replay_complete ct fs u ts d r = Inr r'" "collector_inv (rp_collector r)"
  shows "collector_inv (rp_collector r')"
proof (cases "rp_rows r u")
  case None
  then show ?thesis using assms by (simp add: replay_complete_def)
next
  case (Some row)
  obtain delta c where oc: "on_complete (pw_superpass_index row) (pw_issue_ns row) (pw_recv_first_ns row) ts
      (rp_collector r) = (delta, c)" by force
  then have "collector_inv c"
    using on_complete_inv [OF assms(2)] by (metis snd_conv)
  then show ?thesis using assms(1) Some oc flush_tpot_inv
    by (auto simp: replay_complete_def Let_def split: option.splits if_splits prod.splits)
qed

lemma replay_event_inv:
  assumes "replay_event ct fs r e = Inr r'" "collector_inv (rp_collector r)"
  shows "collector_inv (rp_collector r')"
  using assms
  by (auto simp: replay_event_def Let_def replay_issued_inv replay_recv_first_inv
      split: if_splits option.splits list.splits dest: replay_complete_inv)

lemma replay_events_inv:
  "replay_events ct fs r es = Inr r' \<Longrightarrow> collector_inv (rp_collector r) \<Longrightarrow> collector_inv (rp_collector r')"
proof (induction es arbitrary: r)
  case Nil
  then show ?case using flush_tpot_inv by simp
next
  case (Cons e es)
  then show ?case by (auto split: sum.splits dest: replay_event_inv)
qed

lemma upd_series_size [simp]: "superpass_size (upd_series i f c) = superpass_size c"
  by (simp add: upd_series_def)

lemma collector_size_frame [simp]:
  "superpass_size (reissue i ts c) = superpass_size c"
  "superpass_size (on_recv_first i t0 ts turn first c) = superpass_size c"
  "superpass_size (snd (on_complete i t0 rf ts c)) = superpass_size c"
  "superpass_size (add_tpot i v n c) = superpass_size c"
  "superpass_size (snd (assign ts c)) = superpass_size c"
  by (simp_all add: reissue_def on_recv_first_def on_complete_def add_tpot_def assign_def Let_def)

lemma add_counts_size [simp]: "superpass_size (add_counts xs c) = superpass_size c"
  unfolding add_counts_def by (rule foldl_preserves_eq) (auto split: prod.splits)

lemma replay_event_size:
  assumes "replay_event ct fs r e = Inr r'"
  shows "superpass_size (rp_collector r') = superpass_size (rp_collector r)"
proof -
  have fl: "superpass_size (rp_collector b) = superpass_size (rp_collector a)"
    if "flush_tpot ct a = Inr b" for a b
    using that by (auto simp: flush_tpot_def Let_def split: if_splits)
  have iss: "superpass_size (rp_collector (replay_issued u ts r)) = superpass_size (rp_collector r)" for u ts
    using collector_size_frame(5) [of ts "rp_collector r"]
    by (cases "assign ts (rp_collector r)")
       (auto simp: replay_issued_def Let_def simp del: collector_size_frame(5) split: option.splits)
  have rf: "superpass_size (rp_collector (replay_recv_first u ts n r)) = superpass_size (rp_collector r)" for u ts n
    by (auto simp: replay_recv_first_def Let_def split: option.splits)
  have co: "superpass_size (rp_collector b) = superpass_size (rp_collector r)"
    if "replay_complete ct fs u ts d r = Inr b" for u ts d b
  proof (cases "rp_rows r u")
    case (Some row)
    obtain delta c where oc: "on_complete (pw_superpass_index row) (pw_issue_ns row) (pw_recv_first_ns row) ts
        (rp_collector r) = (delta, c)" by force
    then have "superpass_size c = superpass_size (rp_collector r)"
      using collector_size_frame(3) by (metis snd_conv)
    then show ?thesis using that Some oc fl
      by (auto simp: replay_complete_def Let_def split: option.splits if_splits prod.splits)
  qed (use that in \<open>simp add: replay_complete_def\<close>)
  show ?thesis using assms
    by (auto simp: replay_event_def Let_def iss rf split: if_splits option.splits list.splits dest: co)
qed

lemma replay_events_size:
  "replay_events ct fs r es = Inr r' \<Longrightarrow> superpass_size (rp_collector r') = superpass_size (rp_collector r)"
proof (induction es arbitrary: r)
  case Nil
  then show ?case by (auto simp: flush_tpot_def Let_def split: if_splits)
next
  case (Cons e es)
  then show ?case by (auto split: sum.splits dest: replay_event_size)
qed

lemma collector_inv_init: "collector_inv (collector_init n)"
  by (simp add: collector_inv_def collector_init_def)

section \<open>Window facts\<close>

lemma span_mono:
  assumes "length ls = length fs" "length ms = length fs"
    and "\<And>i. i < length fs \<Longrightarrow> ls ! i \<le> ms ! i"
    and "\<And>i. i < length fs \<Longrightarrow> 0 \<le> fs ! i \<Longrightarrow> fs ! i \<le> ls ! i"
  shows "0 \<le> span_ns fs ls \<and> span_ns fs ls \<le> span_ns fs ms"
proof (cases "filter (\<lambda>t. 0 \<le> t) fs = [] \<or> filter (\<lambda>t. 0 \<le> t) ls = []")
  case True
  have "0 \<le> span_ns fs ms"
  proof (cases "filter (\<lambda>t. 0 \<le> t) fs = []")
    case False
    then obtain i where i: "i < length fs" "0 \<le> fs ! i" by (auto simp: filter_empty_conv in_set_conv_nth)
    have "ls ! i \<in> set ls" using i(1) assms(1) by simp
    moreover have "0 \<le> ls ! i" using assms(4) [OF i] i(2) by linarith
    ultimately show ?thesis using True False by (auto simp: filter_empty_conv)
  qed (simp add: span_ns_def)
  with True show ?thesis by (auto simp: span_ns_def Let_def)
next
  case False
  let ?F = "set (filter (\<lambda>t. 0 \<le> t) fs)" and ?L = "set (filter (\<lambda>t. 0 \<le> t) ls)"
    and ?M = "set (filter (\<lambda>t. 0 \<le> t) ms)"
  have fne: "?F \<noteq> {}" and lne: "?L \<noteq> {}" using False by (simp_all only: set_empty de_Morgan_disj not_False_eq_True)
  have below: "\<exists>m\<in>?M. l \<le> m" if "l \<in> ?L" for l
  proof -
    have "l \<in> set ls" "0 \<le> l" using that by simp_all
    then obtain i where "i < length ls" "ls ! i = l" "0 \<le> l" by (metis in_set_conv_nth)
    moreover from this have "l \<le> ms ! i" using assms(1) assms(3) [of i] by simp
    ultimately show ?thesis using assms(1,2) by (intro bexI [of _ "ms ! i"]) auto
  qed
  from lne obtain l0 where l0: "l0 \<in> ?L" by (metis all_not_in_conv)
  have mne: "?M \<noteq> {}" using below [OF l0] by (metis empty_iff)
  obtain i where i: "i < length fs" "0 \<le> fs ! i" "fs ! i = Min ?F"
    using Min_in [OF _ fne] by (auto simp: in_set_conv_nth)
  have "ls ! i \<in> set ls" using i(1) assms(1) by simp
  then have lsi: "ls ! i \<in> ?L" using assms(4) [OF i(1,2)] i(2) by simp
  have "Min ?F \<le> ls ! i" using assms(4) [OF i(1,2)] unfolding i(3) .
  also have "\<dots> \<le> Max ?L" by (rule Max_ge [OF List.finite_set lsi])
  finally have "Min ?F \<le> Max ?L" .
  moreover have "Max ?L \<le> Max ?M"
    using below Max_in [OF _ lne] Max_ge [of ?M] by (meson List.finite_set order_trans)
  moreover have "filter (\<lambda>t. 0 \<le> t) ms \<noteq> []" using mne by (metis set_empty)
  ultimately show ?thesis using False by (simp add: span_ns_def Let_def)
qed

lemma trunc_range:
  assumes "0 \<le> p" "p \<le> 1" "0 < n"
  shows "0 \<le> trunc (p * of_int (int n - 1))" "trunc (p * of_int (int n - 1)) < int n"
proof -
  let ?q = "p * of_int (int n - 1)"
  have n: "(0 :: rat) \<le> of_int (int n - 1)" using assms(3) by simp
  then have q: "0 \<le> ?q" using assms(1) by simp
  have "?q \<le> 1 * of_int (int n - 1)" by (rule mult_right_mono) (use assms(2) n in auto)
  then have "?q < of_int (int n)" by simp
  then have "\<lfloor>?q\<rfloor> < int n" by (simp only: floor_less_iff)
  then have "\<lfloor>?q\<rfloor> \<le> int n - 1" by simp
  then show "trunc ?q < int n" using q by (simp add: trunc_def)
  show "0 \<le> trunc ?q" using q by (simp add: trunc_def)
qed

lemma percentile_lower_nth:
  assumes "xs \<noteq> []" "0 \<le> p" "p \<le> 1"
  shows "percentile_lower xs p = Inr (xs ! nat (trunc (p * of_int (int (length xs) - 1))))"
    and "nat (trunc (p * of_int (int (length xs) - 1))) < length xs"
proof -
  have n: "0 < length xs" using assms(1) by simp
  note r = trunc_range [OF assms(2,3) n]
  show "percentile_lower xs p = Inr (xs ! nat (trunc (p * of_int (int (length xs) - 1))))"
    using assms(1) r by (simp add: percentile_lower_def list_get_def)
  show "nat (trunc (p * of_int (int (length xs) - 1))) < length xs" using r by linarith
qed

lemma trunc_mono: "a \<le> b \<Longrightarrow> trunc a \<le> trunc b"
  unfolding trunc_def by (auto intro: floor_mono ceiling_mono) (smt (verit) ceiling_le_zero floor_mono not_le zero_le_floor le_cases ceiling_mono)

section \<open>Properties\<close>

text \<open>The replayed series is bucketed by issue order with no gap: for every log the parser
  accepts, super-pass \<open>i\<close> is at position \<open>i\<close>, every super-pass but the last holds exactly
  \<open>superpass_size\<close> issues and the last one the rest, and each bucket's token total is the sum of
  its per-sample counts.\<close>

theorem replay_buckets_are_full:
  assumes "build_super_pass_series sp_size count_tokens flush_size es = Inr series"
  shows "\<exists>n. length series = (n + nat sp_size - 1) div nat sp_size
     \<and> (\<forall>i<length series. sp_index (series ! i) = i
          \<and> sp_n_issued (series ! i) = min (nat sp_size) (n - i * nat sp_size))
     \<and> (\<forall>sp\<in>set series. of_int (sp_out_tokens sp) = sum_list (sp_osl sp)
          \<and> length (sp_tpot_ns sp) = length (sp_osl sp))"
proof -
  have pos: "sp_size > 0" using assms by (auto simp: build_super_pass_series_def split: if_splits)
  obtain r where r: "replay_events count_tokens flush_size (replay_init (nat sp_size)) es = Inr r"
    "series = co_series (rp_collector r)"
    using assms pos by (cases "replay_events count_tokens flush_size (replay_init (nat sp_size)) es")
      (auto simp: build_super_pass_series_def)
  have "collector_inv (rp_collector (replay_init (nat sp_size)))"
    by (simp add: replay_init_def collector_inv_init)
  then have inv: "collector_inv (rp_collector r)" using replay_events_inv [OF r(1)] by blast
  have "superpass_size (rp_collector r) = nat sp_size"
    using replay_events_size [OF r(1)] by (simp add: replay_init_def collector_init_def)
  then show ?thesis using inv pos
    by (intro exI [of _ "co_issue_counter (rp_collector r)"])
       (auto simp: collector_inv_def r(2) bucket_fill_def list_all_iff rollup_ok_def)
qed

definition example_log :: "log_event list" where
  "example_log =
     [\<lparr>le_type = SessionEv START_PERFORMANCE_TRACKING, le_ts = None, le_uuid = None, le_turn = None, le_data = None\<rparr>,
      \<lparr>le_type = SampleEv ISSUED, le_ts = Some 5, le_uuid = Some ''a'', le_turn = None, le_data = None\<rparr>,
      \<lparr>le_type = SampleEv ISSUED, le_ts = Some 6, le_uuid = Some ''b'', le_turn = None, le_data = None\<rparr>,
      \<lparr>le_type = SampleEv ISSUED, le_ts = Some 7, le_uuid = Some ''c'', le_turn = None, le_data = None\<rparr>]"

theorem replay_buckets_are_full_witness:
  "\<exists>series n. build_super_pass_series 2 (map (\<lambda>t. int (length t))) 1 example_log = Inr series
     \<and> length series = (n + nat 2 - 1) div nat 2"
proof -
  have "is_ok (build_super_pass_series 2 (map (\<lambda>t. int (length t))) 1 example_log)" by code_simp
  then obtain series where s: "build_super_pass_series 2 (map (\<lambda>t. int (length t))) 1 example_log = Inr series"
    by (auto simp: is_ok_iff)
  from replay_buckets_are_full [OF s] s show ?thesis by blast
qed

text \<open>The throughput denominator never exceeds the completion span: in a series a collector can
  hold, for every window, the issue span is non-negative and at most the elapsed span.\<close>

theorem issue_span_within_elapsed:
  assumes "list_all rollup_ok series"
  shows "0 \<le> window_issue_span_ns series lo hi
     \<and> window_issue_span_ns series lo hi \<le> window_elapsed_ns series lo hi"
proof -
  let ?w = "window series lo hi"
  have ok: "rollup_ok (?w ! i)" if "i < length ?w" for i
  proof -
    have "?w ! i \<in> set series"
      using nth_mem [OF that] by (auto simp: window_def dest: in_set_dropD in_set_takeD)
    then show ?thesis using assms by (simp add: list_all_iff)
  qed
  show ?thesis unfolding window_issue_span_ns_def window_elapsed_ns_def Let_def
    by (rule span_mono) (use ok in \<open>auto simp: rollup_ok_def\<close>)
qed

theorem issue_span_within_elapsed_witness:
  "window_issue_span_ns [stamp_issue 4 (new_rollup 0), stamp_issue 9 (new_rollup 1)] 0 2 = 5
   \<and> window_issue_span_ns [stamp_issue 4 (new_rollup 0), stamp_issue 9 (new_rollup 1)] 0 2
     \<le> window_elapsed_ns [stamp_issue 4 (new_rollup 0), stamp_issue 9 (new_rollup 1)] 0 2"
proof -
  have "list_all rollup_ok [stamp_issue 4 (new_rollup 0), stamp_issue 9 (new_rollup 1)]"
    by (simp add: rollup_ok_stamp rollup_ok_new)
  from issue_span_within_elapsed [OF this, of 0 2] show ?thesis
    by (simp add: window_issue_span_ns_def window_def span_ns_def stamp_issue_def new_rollup_def Let_def)
qed

text \<open>A lower percentile is an observed value and grows with the rank: on a sorted non-empty
  series and ranks in \<open>[0, 1]\<close> it is an element of the series, monotone in the rank, the minimum
  at 0 and the maximum at 1.\<close>

theorem percentile_lower_observed_and_monotone:
  assumes "sorted xs" "xs \<noteq> []" "0 \<le> p" "p \<le> q" "q \<le> 1"
  shows "\<exists>v w. percentile_lower xs p = Inr v \<and> percentile_lower xs q = Inr w
     \<and> v \<in> set xs \<and> w \<in> set xs \<and> v \<le> w
     \<and> percentile_lower xs 0 = Inr (hd xs) \<and> percentile_lower xs 1 = Inr (last xs)"
proof -
  let ?i = "\<lambda>p. nat (trunc (p * of_int (int (length xs) - 1)))"
  have p: "percentile_lower xs p = Inr (xs ! ?i p)" "?i p < length xs"
    using percentile_lower_nth [of xs p] assms by auto
  have q: "percentile_lower xs q = Inr (xs ! ?i q)" "?i q < length xs"
    using percentile_lower_nth [of xs q] assms by auto
  have n: "(0 :: rat) \<le> of_int (int (length xs) - 1)" using assms(2) by (cases xs) auto
  have "?i p \<le> ?i q"
    by (intro nat_mono trunc_mono mult_right_mono assms(4) n)
  then have "xs ! ?i p \<le> xs ! ?i q" using assms(1) q(2) by (simp add: sorted_nth_mono)
  moreover have "percentile_lower xs 0 = Inr (hd xs)"
    using percentile_lower_nth [of xs 0] assms(2) by (simp add: trunc_def hd_conv_nth)
  moreover have "percentile_lower xs 1 = Inr (last xs)"
  proof -
    have "nat (trunc (1 * of_int (int (length xs) - 1))) = length xs - 1"
      using n assms(2) by (cases xs) (simp_all add: trunc_def)
    then show ?thesis using percentile_lower_nth [of xs 1] assms(2) by (simp add: last_conv_nth)
  qed
  ultimately show ?thesis using p q nth_mem by blast
qed

theorem percentile_lower_observed_and_monotone_witness:
  "\<exists>v w. percentile_lower [1, 5, 9] (1 / 2) = Inr v \<and> percentile_lower [1, 5, 9] 1 = Inr w \<and> v \<le> w"
  using percentile_lower_observed_and_monotone [of "[1, 5, 9]" "1 / 2" 1] by auto

end
