(* ===== verification/EarlyStopping.thy ===== *)
theory EarlyStopping
  imports RuntimeSettings
begin

text \<open>
  \<open>metrics/early_stopping.py\<close>: the minimum sample count and the conservative percentile estimate
  of MLPerf's early-stopping test.  The code evaluates the binomial tail \<open>odds\<close> through the
  incomplete beta function; here it is the tail itself, the exact rational the identity in the
  docstring names, and the floating-point kernel (\<open>_betacf\<close>, \<open>_betai\<close>) is not modelled.  The two
  doubling searches may run forever on a bad input, so they are partial functions; that they
  return is proved.
\<close>

section \<open>The binomial tail\<close>

definition pmf :: "rat \<Rightarrow> nat \<Rightarrow> nat \<Rightarrow> rat" where
  "pmf x n k = of_nat (n choose k) * (1 - x) ^ k * x ^ (n - k)"

definition tail :: "rat \<Rightarrow> nat \<Rightarrow> nat \<Rightarrow> rat" where
  "tail x n t = (\<Sum>k\<leftarrow>[0..<Suc t]. pmf x n k)"

text \<open>\<open>_odds\<close>: at most \<open>t\<close> over-latency queries among \<open>h + t\<close>, when a query is under with probability
  \<open>p - d\<close>.\<close>

definition odds :: "nat \<Rightarrow> nat \<Rightarrow> rat \<Rightarrow> rat \<Rightarrow> rat" where
  "odds h t p d = tail (p - d) (h + t) t"

section \<open>The searches\<close>

text \<open>\<open>while test(hi): hi *= 2\<close>.\<close>

partial_function (option) bracket :: "(nat \<Rightarrow> bool) \<Rightarrow> nat \<Rightarrow> nat option" where
  "bracket test hi = (if test hi then bracket test (2 * hi) else Some hi)"

text \<open>The binary search of \<open>find_min_passing\<close>: the first passing index of \<open>[lo, hi]\<close>.\<close>

function bisect_first :: "(nat \<Rightarrow> bool) \<Rightarrow> nat \<Rightarrow> nat \<Rightarrow> nat" where
  "bisect_first pass lo hi =
     (if lo < hi then
        let mid = (lo + hi) div 2
        in if pass mid then bisect_first pass lo mid else bisect_first pass (mid + 1) hi
      else lo)"
  by auto
termination by (relation "measure (\<lambda>(pass, lo, hi). hi - lo)") auto

text \<open>The binary search of \<open>_discard_count\<close>: the last fitting index of \<open>[lo, hi)\<close>.\<close>

function bisect_last :: "(nat \<Rightarrow> bool) \<Rightarrow> nat \<Rightarrow> nat \<Rightarrow> nat" where
  "bisect_last fits lo hi =
     (if lo < hi - 1 then
        let mid = (lo + hi) div 2
        in if fits mid then bisect_last fits mid hi else bisect_last fits lo mid
      else lo)"
  by auto
termination by (relation "measure (\<lambda>(fits, lo, hi). hi - lo)") auto

declare bisect_first.simps [simp del] bisect_last.simps [simp del]

definition validate_domain :: "rat \<Rightarrow> rat \<Rightarrow> rat \<Rightarrow> unit result" where
  "validate_domain p d c =
     (if \<not> (0 < p \<and> p < 1) then Inl ValueError
      else if \<not> (0 < c \<and> c < 1) then Inl ValueError
      else if \<not> (0 \<le> d \<and> d < p) then Inl ValueError
      else Inr ())"

definition min_passing :: "nat \<Rightarrow> rat \<Rightarrow> rat \<Rightarrow> rat \<Rightarrow> nat option" where
  "min_passing t p d c =
     (case bracket (\<lambda>h. odds h t p d \<ge> 1 - c) 2 of
        None \<Rightarrow> None
      | Some hi \<Rightarrow> Some (bisect_first (\<lambda>h. odds h t p d < 1 - c) 1 hi))"

definition find_min_passing :: "nat \<Rightarrow> rat \<Rightarrow> rat \<Rightarrow> rat \<Rightarrow> nat result option" where
  "find_min_passing t p d c = (case validate_domain p d c of
       Inl e \<Rightarrow> Some (Inl e)
     | Inr _ \<Rightarrow> map_option Inr (min_passing t p d c))"

text \<open>\<open>find_min_passing(t) + t <= n\<close>, which the search asks at several \<open>t\<close>; \<open>None\<close> would mean that one
  of the inner searches does not return.\<close>

definition absorbs :: "nat \<Rightarrow> rat \<Rightarrow> rat \<Rightarrow> rat \<Rightarrow> nat \<Rightarrow> bool" where
  "absorbs n p d c t = (case min_passing t p d c of None \<Rightarrow> False | Some h \<Rightarrow> h + t \<le> n)"

definition discard_count :: "nat \<Rightarrow> rat \<Rightarrow> rat \<Rightarrow> rat \<Rightarrow> nat result option" where
  "discard_count n p d c =
     (case validate_domain p d c of
        Inl e \<Rightarrow> Some (Inl e)
      | Inr _ \<Rightarrow>
          (if \<not> absorbs n p d c 1 then Some (Inr 0)
           else case bracket (absorbs n p d c) 2 of
             None \<Rightarrow> None
           | Some hi \<Rightarrow> Some (Inr (bisect_last (absorbs n p d c) 1 hi))))"

section \<open>The estimate\<close>

record es_spec =
  es_percentiles :: "(string \<times> rat) list option"
  es_confidence :: rat

definition CONFIDENCE :: rat where "CONFIDENCE = 99 / 100"
definition TOLERANCE :: rat where "TOLERANCE = 0"
definition ES_MIN_PERCENTILE :: rat where "ES_MIN_PERCENTILE = 50"

record es_result =
  er_percentile :: rat
  er_confidence :: rat
  er_n :: nat
  er_estimate :: "rat option"
  er_empirical :: "rat option"
  er_min_queries :: nat
  er_discarded :: nat

definition es_percentile_estimate :: "rat list \<Rightarrow> rat \<Rightarrow> rat \<Rightarrow> es_result result option" where
  "es_percentile_estimate xs percentile confidence =
     (if \<not> (1 \<le> percentile \<and> percentile < 100) then Some (Inl ValueError)
      else
        let fraction = percentile / 100; n = length xs;
            empirical = (if n = 0 then None else Some (xs ! nat (trunc (fraction * of_int (int n - 1)))))
        in (case find_min_passing 1 fraction TOLERANCE confidence of
              None \<Rightarrow> None
            | Some (Inl e) \<Rightarrow> Some (Inl e)
            | Some (Inr h) \<Rightarrow>
                (let min_queries = h + 1 in
                 if n < min_queries
                 then Some (Inr \<lparr>er_percentile = percentile, er_confidence = confidence, er_n = n,
                        er_estimate = None, er_empirical = empirical, er_min_queries = min_queries,
                        er_discarded = 0\<rparr>)
                 else (case discard_count n fraction TOLERANCE confidence of
                         None \<Rightarrow> None
                       | Some (Inl e) \<Rightarrow> Some (Inl e)
                       | Some (Inr t) \<Rightarrow> Some (Inr \<lparr>er_percentile = percentile, er_confidence = confidence,
                            er_n = n, er_estimate = Some (xs ! (n - t)), er_empirical = empirical,
                            er_min_queries = min_queries, er_discarded = t - 1\<rparr>)))))"

text \<open>A grid entry is its \<open>str()\<close> and its value.\<close>

definition es_targets_from_grid :: "(string \<times> rat) list \<Rightarrow> (string \<times> rat) list" where
  "es_targets_from_grid grid =
     foldl (\<lambda>targets (k, v). if ES_MIN_PERCENTILE \<le> v \<and> v < 100 then AList.update k v targets else targets)
       [] grid"

section \<open>The tail is monotone and vanishes\<close>

lemma pmf_nonneg: "0 \<le> x \<Longrightarrow> x \<le> 1 \<Longrightarrow> 0 \<le> pmf x n k"
  by (simp add: pmf_def)

lemma pmf_Suc_0: "pmf x (Suc n) 0 = x * pmf x n 0"
  by (simp add: pmf_def)

lemma pmf_Suc_Suc: "pmf x (Suc n) (Suc k) = x * pmf x n (Suc k) + (1 - x) * pmf x n k"
proof (cases "Suc k \<le> n")
  case True
  then have "n - k = Suc (n - Suc k)" by simp
  then show ?thesis by (simp add: pmf_def algebra_simps)
next
  case False
  then show ?thesis by (cases "k = n") (simp_all add: pmf_def algebra_simps binomial_eq_0)
qed

lemma tail_0: "tail x n 0 = pmf x n 0"
  by (simp add: tail_def)

lemma tail_Suc: "tail x n (Suc t) = tail x n t + pmf x n (Suc t)"
  by (simp add: tail_def)

lemma tail_step: "tail x (Suc n) t = tail x n t - (1 - x) * pmf x n t"
proof (induction t)
  case 0
  then show ?case by (simp add: tail_0 pmf_Suc_0 algebra_simps)
next
  case (Suc t)
  then show ?case by (simp add: tail_Suc pmf_Suc_Suc algebra_simps)
qed

lemma tail_nonneg: "0 \<le> x \<Longrightarrow> x \<le> 1 \<Longrightarrow> 0 \<le> tail x n t"
  by (induction t) (simp_all add: tail_0 tail_Suc pmf_nonneg)

lemma tail_antimono_n:
  assumes "0 \<le> x" "x \<le> 1" "m \<le> n" shows "tail x n t \<le> tail x m t"
  using assms(3)
proof (induction n rule: dec_induct)
  case (step n)
  have "0 \<le> (1 - x) * pmf x n t" using pmf_nonneg [OF assms(1,2)] assms(2) by simp
  then show ?case using step tail_step [of x n t] by linarith
qed simp

lemma odds_antimono:
  "0 \<le> p - d \<Longrightarrow> p - d \<le> 1 \<Longrightarrow> h \<le> h' \<Longrightarrow> odds h' t p d \<le> odds h t p d"
  unfolding odds_def by (rule tail_antimono_n) simp_all

lemma odds_mono_t:
  assumes "0 \<le> p - d" "p - d \<le> 1" "t \<le> t'" shows "odds h t p d \<le> odds h t' p d"
  using assms(3)
proof (induction t' rule: dec_induct)
  case (step t')
  let ?x = "p - d"
  have "odds h (Suc t') p d = tail ?x (h + t') t' + ?x * pmf ?x (h + t') (Suc t')"
    by (simp add: odds_def tail_Suc tail_step pmf_Suc_Suc algebra_simps)
  moreover have "0 \<le> ?x * pmf ?x (h + t') (Suc t')" using assms(1,2) pmf_nonneg by simp
  ultimately show ?case using step by (simp add: odds_def)
qed simp

lemma tail_telescope:
  "(1 - x) * (\<Sum>i<m. pmf x (N + i) t) = tail x N t - tail x (N + m) t"
  by (induction m) (simp_all add: tail_step algebra_simps)

lemma pmf_gets_small:
  assumes "0 \<le> x" "x < 1" "0 < e"
  shows "\<exists>n\<ge>N. pmf x n t < e"
proof (rule ccontr)
  assume "\<not> (\<exists>n\<ge>N. pmf x n t < e)"
  then have big: "e \<le> pmf x n t" if "n \<ge> N" for n using that by (meson not_le)
  have q: "0 < 1 - x" using assms(2) by simp
  obtain m where m: "tail x N t < of_nat m * ((1 - x) * e)"
    using ex_less_of_nat_mult [of "(1 - x) * e" "tail x N t"] q assms(3) by auto
  have "of_nat m * e \<le> (\<Sum>i<m. pmf x (N + i) t)"
    using sum_mono [of "{..<m}" "\<lambda>_. e" "\<lambda>i. pmf x (N + i) t"] big by simp
  then have "(1 - x) * (of_nat m * e) \<le> (1 - x) * (\<Sum>i<m. pmf x (N + i) t)"
    using q by (intro mult_left_mono) auto
  also have "\<dots> = tail x N t - tail x (N + m) t" by (rule tail_telescope)
  also have "\<dots> \<le> tail x N t" using tail_nonneg [of x] assms by simp
  finally show False using m by (simp add: mult.left_commute)
qed

lemma tail_gets_small:
  assumes "0 \<le> x" "x < 1" "0 < e"
  shows "\<exists>n. tail x n t < e"
  using assms(3)
proof (induction t arbitrary: e)
  case 0
  then show ?case using pmf_gets_small [OF assms(1,2), of e 0 0] by (auto simp: tail_0)
next
  case (Suc t)
  then obtain N where N: "tail x N t < e / 2" using Suc.IH [of "e / 2"] by auto
  obtain n where n: "n \<ge> N" "pmf x n (Suc t) < e / 2"
    using pmf_gets_small [OF assms(1,2), of "e / 2" N "Suc t"] Suc.prems by auto
  have "tail x n t \<le> tail x N t" using tail_antimono_n [OF assms(1) _ n(1)] assms(2) by simp
  with N n have "tail x n (Suc t) < e" by (simp add: tail_Suc)
  then show ?case by blast
qed

lemma odds_get_small:
  assumes "0 \<le> p - d" "p - d < 1" "0 < e"
  shows "\<exists>h\<ge>m. odds h t p d < e"
proof -
  obtain n where n: "tail (p - d) n t < e" using tail_gets_small [OF assms] by blast
  have "tail (p - d) (max n m + t) t \<le> tail (p - d) n t"
    using assms by (intro tail_antimono_n) auto
  then show ?thesis using n by (intro exI [of _ "max n m"]) (auto simp: odds_def)
qed

section \<open>The searches return and are right\<close>

lemma bracket_returns:
  assumes "\<And>h. N \<le> h \<Longrightarrow> \<not> test h" and "0 < hi"
  shows "\<exists>r. bracket test hi = Some r \<and> hi \<le> r \<and> \<not> test r"
  using assms(2)
proof (induction "N - hi" arbitrary: hi rule: less_induct)
  case less
  show ?case
  proof (cases "test hi")
    case True
    then have "hi < N" using assms(1) by (meson not_less)
    then have "N - 2 * hi < N - hi" using less.prems by linarith
    with less obtain r where "bracket test (2 * hi) = Some r" "2 * hi \<le> r" "\<not> test r" by force
    then show ?thesis using True by (subst bracket.simps) auto
  qed (subst bracket.simps, simp)
qed

lemma bisect_first_correct:
  assumes "\<forall>a b. a \<le> b \<longrightarrow> pass a \<longrightarrow> pass b" "pass hi" "lo \<le> hi"
  shows "lo \<le> bisect_first pass lo hi \<and> pass (bisect_first pass lo hi)
    \<and> (\<forall>h. lo \<le> h \<longrightarrow> h < bisect_first pass lo hi \<longrightarrow> \<not> pass h)"
  using assms
proof (induction pass lo hi rule: bisect_first.induct)
  case (1 pass lo hi)
  let ?mid = "(lo + hi) div 2"
  show ?case
  proof (cases "lo < hi")
    case lt: True
    show ?thesis
    proof (cases "pass ?mid")
      case True
      moreover have "bisect_first pass lo hi = bisect_first pass lo ?mid"
        using lt True by (subst bisect_first.simps) simp
      ultimately show ?thesis using 1(1) [OF lt refl True 1(3)] lt by simp
    next
      case False
      have eq: "bisect_first pass lo hi = bisect_first pass (?mid + 1) hi"
        using lt False by (subst bisect_first.simps) simp
      have "?mid + 1 \<le> hi" using lt by auto
      note IH = 1(2) [OF lt refl False 1(3) 1(4) this]
      have below: "\<not> pass h" if "h \<le> ?mid" for h using False 1(3) that by blast
      have "\<not> pass h" if "lo \<le> h" "h < bisect_first pass lo hi" for h
        using below [of h] IH that(2) eq by (cases "h \<le> ?mid") auto
      moreover have "lo \<le> bisect_first pass lo hi" using IH lt eq by linarith
      ultimately show ?thesis using IH eq by simp
    qed
  next
    case False
    then have "bisect_first pass lo hi = lo" by (subst bisect_first.simps) simp
    moreover have "hi = lo" using False 1(5) by simp
    ultimately show ?thesis using 1(4) by simp
  qed
qed

lemma bisect_last_correct:
  assumes "\<forall>a b. a \<le> b \<longrightarrow> fits b \<longrightarrow> fits a" "fits lo" "\<not> fits hi" "lo < hi"
  shows "lo \<le> bisect_last fits lo hi \<and> fits (bisect_last fits lo hi)
    \<and> \<not> fits (Suc (bisect_last fits lo hi))"
  using assms
proof (induction fits lo hi rule: bisect_last.induct)
  case (1 fits lo hi)
  let ?mid = "(lo + hi) div 2"
  show ?case
  proof (cases "lo < hi - 1")
    case lt: True
    then have mid: "lo \<le> ?mid" "lo < ?mid" "?mid < hi" by auto
    show ?thesis
    proof (cases "fits ?mid")
      case True
      moreover have "bisect_last fits lo hi = bisect_last fits ?mid hi"
        using lt True by (subst bisect_last.simps) simp
      ultimately show ?thesis using 1(1) [OF lt refl True 1(3) True 1(5) mid(3)] mid(1)
        by (metis le_trans)
    next
      case False
      moreover have "bisect_last fits lo hi = bisect_last fits lo ?mid"
        using lt False by (subst bisect_last.simps) simp
      ultimately show ?thesis using 1(2) [OF lt refl False 1(3) 1(4) False mid(2)] by simp
    qed
  next
    case False
    then have "bisect_last fits lo hi = lo" by (subst bisect_last.simps) simp
    moreover have "hi = Suc lo" using False 1(6) by simp
    ultimately show ?thesis using 1(4,5) by simp
  qed
qed

definition in_domain :: "rat \<Rightarrow> rat \<Rightarrow> rat \<Rightarrow> bool" where
  "in_domain p d c \<longleftrightarrow> 0 < p \<and> p < 1 \<and> 0 < c \<and> c < 1 \<and> 0 \<le> d \<and> d < p"

lemma validate_domain_iff: "validate_domain p d c = (if in_domain p d c then Inr () else Inl ValueError)"
  by (simp add: validate_domain_def in_domain_def)

definition least_passing :: "nat \<Rightarrow> rat \<Rightarrow> rat \<Rightarrow> rat \<Rightarrow> nat \<Rightarrow> bool" where
  "least_passing t p d c h \<longleftrightarrow> 1 \<le> h \<and> odds h t p d < 1 - c \<and> (\<forall>h'. 1 \<le> h' \<longrightarrow> h' < h \<longrightarrow> 1 - c \<le> odds h' t p d)"

lemma min_passing_least:
  assumes "in_domain p d c" shows "\<exists>h. min_passing t p d c = Some h \<and> least_passing t p d c h"
proof -
  have x: "0 \<le> p - d" "p - d < 1" "0 < 1 - c" using assms by (auto simp: in_domain_def)
  have anti: "odds h' t p d \<le> odds h t p d" if "h \<le> h'" for h h'
    using odds_antimono [OF x(1) _ that] x(2) by simp
  obtain N where "odds N t p d < 1 - c" using odds_get_small [OF x] by blast
  then have "\<not> (1 - c \<le> odds h t p d)" if "N \<le> h" for h using anti [OF that] by linarith
  from bracket_returns [of N "\<lambda>h. odds h t p d \<ge> 1 - c" 2, OF this]
  obtain hi where hi: "bracket (\<lambda>h. odds h t p d \<ge> 1 - c) 2 = Some hi" "2 \<le> hi" "odds hi t p d < 1 - c"
    by (auto simp: not_le)
  have "\<forall>a b. a \<le> b \<longrightarrow> odds a t p d < 1 - c \<longrightarrow> odds b t p d < 1 - c" using anti by (meson le_less_trans)
  from bisect_first_correct [of "\<lambda>h. odds h t p d < 1 - c" hi 1, OF this hi(3)] hi(2)
  show ?thesis by (simp add: min_passing_def hi(1) least_passing_def not_less)
qed

lemma least_passing_unique: "least_passing t p d c h \<Longrightarrow> least_passing t p d c h' \<Longrightarrow> h = h'"
  unfolding least_passing_def by (metis linorder_neqE_nat not_le)

lemma least_passing_le: "least_passing t p d c h \<Longrightarrow> 1 \<le> k \<Longrightarrow> odds k t p d < 1 - c \<Longrightarrow> h \<le> k"
  unfolding least_passing_def by (meson not_le)

lemma absorbs_iff:
  assumes "in_domain p d c"
  shows "absorbs n p d c t \<longleftrightarrow> t < n \<and> odds (n - t) t p d < 1 - c"
proof -
  obtain h where h: "min_passing t p d c = Some h" "least_passing t p d c h"
    using min_passing_least [OF assms] by blast
  have x: "0 \<le> p - d" "p - d \<le> 1" using assms by (auto simp: in_domain_def)
  have "h + t \<le> n" if "t < n" "odds (n - t) t p d < 1 - c"
    using least_passing_le [OF h(2) _ that(2)] that(1) by linarith
  moreover have "t < n \<and> odds (n - t) t p d < 1 - c" if "h + t \<le> n"
  proof -
    have le: "h \<le> n - t" "1 \<le> h" using that h(2) unfolding least_passing_def by linarith+
    have "odds (n - t) t p d \<le> odds h t p d" by (rule odds_antimono [OF x le(1)])
    moreover have "odds h t p d < 1 - c" using h(2) by (simp add: least_passing_def)
    ultimately show ?thesis using le that by linarith
  qed
  ultimately show ?thesis using h(1) by (auto simp: absorbs_def)
qed

lemma absorbs_anti:
  assumes "in_domain p d c" "a \<le> b" "absorbs n p d c b" shows "absorbs n p d c a"
proof -
  have x: "0 \<le> p - d" "p - d \<le> 1" using assms by (auto simp: in_domain_def)
  have "odds (n - a) a p d \<le> odds (n - b) a p d" using assms(2) by (intro odds_antimono [OF x]) simp
  also have "\<dots> \<le> odds (n - b) b p d" by (rule odds_mono_t [OF x assms(2)])
  finally show ?thesis using assms(2,3) by (auto simp: absorbs_iff [OF assms(1)])
qed

lemma discard_count_cases:
  assumes "in_domain p d c"
  shows "\<exists>t. discard_count n p d c = Some (Inr t)
    \<and> (if absorbs n p d c 1 then 1 \<le> t \<and> absorbs n p d c t \<and> (\<forall>u>t. \<not> absorbs n p d c u) else t = 0)"
proof (cases "absorbs n p d c 1")
  case True
  have "\<not> absorbs n p d c h" if "n \<le> h" for h using that by (simp add: absorbs_iff [OF assms])
  from bracket_returns [of n "absorbs n p d c" 2, OF this]
  obtain hi where hi: "bracket (absorbs n p d c) 2 = Some hi" "2 \<le> hi" "\<not> absorbs n p d c hi" by auto
  let ?t = "bisect_last (absorbs n p d c) 1 hi"
  have mono: "\<forall>a b. a \<le> b \<longrightarrow> absorbs n p d c b \<longrightarrow> absorbs n p d c a" using absorbs_anti [OF assms] by blast
  have t: "1 \<le> ?t" "absorbs n p d c ?t" "\<not> absorbs n p d c (Suc ?t)"
    using bisect_last_correct [of "absorbs n p d c" 1 hi, OF mono True hi(3)] hi(2) by auto
  then have "\<forall>u>?t. \<not> absorbs n p d c u" using absorbs_anti [OF assms] Suc_leI by blast
  then show ?thesis using t(1,2) by (simp add: discard_count_def validate_domain_iff assms True hi(1))
qed (simp add: discard_count_def validate_domain_iff assms)

lemma above_sorted:
  assumes "sorted xs" "1 \<le> t" "t \<le> length xs"
  shows "length (filter (\<lambda>x. xs ! (length xs - t) < x) xs) \<le> t - 1"
proof -
  let ?i = "length xs - t"
  have i: "?i < length xs" using assms by simp
  have xs: "xs = take (Suc ?i) xs @ drop (Suc ?i) xs" by simp
  have "filter (\<lambda>x. xs ! ?i < x) (take (Suc ?i) xs) = []"
  proof (unfold filter_empty_conv, rule)
    fix x assume "x \<in> set (take (Suc ?i) xs)"
    then obtain j where "j \<le> ?i" "j < length xs" "x = xs ! j" by (auto simp: in_set_conv_nth less_Suc_eq_le)
    then show "\<not> xs ! ?i < x" using sorted_nth_mono [OF assms(1), of j ?i] i by (simp add: not_less)
  qed
  then have "length (filter (\<lambda>x. xs ! ?i < x) xs) = length (filter (\<lambda>x. xs ! ?i < x) (drop (Suc ?i) xs))"
    by (subst xs, simp only: filter_append) simp
  also have "\<dots> \<le> length (drop (Suc ?i) xs)" by (rule length_filter_le)
  also have "\<dots> \<le> t - 1" using assms by simp
  finally show ?thesis .
qed

section \<open>What the module promises\<close>

text \<open>C6. \<open>find_min_passing\<close> returns for every \<open>t\<close>: outside the domain of the test it raises, and
  inside it the doubling and the binary search end at the least positive \<open>h\<close> whose odds are
  strictly below \<open>1 - c\<close>.\<close>

theorem find_min_passing_is_least:
  "\<exists>r. find_min_passing t p d c = Some r \<and>
     (case r of Inl e \<Rightarrow> e = ValueError \<and> \<not> (0 < p \<and> p < 1 \<and> 0 < c \<and> c < 1 \<and> 0 \<le> d \<and> d < p)
      | Inr h \<Rightarrow> 1 \<le> h \<and> odds h t p d < 1 - c \<and>
          h = (LEAST h. 1 \<le> h \<and> odds h t p d < 1 - c))"
proof (cases "in_domain p d c")
  case True
  obtain h where h: "min_passing t p d c = Some h" "least_passing t p d c h"
    using min_passing_least [OF True] by blast
  have "(LEAST h. 1 \<le> h \<and> odds h t p d < 1 - c) = h"
    using h(2) by (intro Least_equality) (auto simp: least_passing_def intro: least_passing_le [OF h(2)])
  then show ?thesis using h by (simp add: find_min_passing_def validate_domain_iff True least_passing_def)
qed (auto simp: find_min_passing_def validate_domain_iff in_domain_def)

text \<open>\<open>_discard_count\<close> returns the largest over-latency budget a run of \<open>n\<close> queries can absorb:
  \<open>t\<close> with \<open>n - t\<close> under-latency queries passes the binomial test, no larger budget does, and \<open>0\<close>
  stands for no positive budget at all.\<close>

theorem discard_count_is_largest:
  assumes "0 < p" "p < 1" "0 < c" "c < 1" "0 \<le> d" "d < p"
  shows "\<exists>t. discard_count n p d c = Some (Inr t)
    \<and> (0 < t \<longrightarrow> t < n \<and> odds (n - t) t p d < 1 - c)
    \<and> (\<forall>u>t. u < n \<longrightarrow> 1 - c \<le> odds (n - u) u p d)"
proof -
  have dom: "in_domain p d c" using assms by (simp add: in_domain_def)
  have none: "\<not> absorbs n p d c u" if "\<not> absorbs n p d c 1" "0 < u" for u
    using absorbs_anti [OF dom, of 1 u n] that by fastforce
  obtain t where t: "discard_count n p d c = Some (Inr t)"
    "if absorbs n p d c 1 then 1 \<le> t \<and> absorbs n p d c t \<and> (\<forall>u>t. \<not> absorbs n p d c u) else t = 0"
    using discard_count_cases [OF dom] by blast
  have "(0 < t \<longrightarrow> absorbs n p d c t) \<and> (\<forall>u>t. \<not> absorbs n p d c u)"
  proof (cases "absorbs n p d c 1")
    case False
    then have "t = 0" using t(2) by simp
    then show ?thesis using none [OF False] by blast
  qed (use t(2) in simp)
  note largest = this
  have "1 - c \<le> odds (n - u) u p d" if "t < u" "u < n" for u
  proof -
    have "\<not> absorbs n p d c u" using largest that(1) by simp
    then show ?thesis using that(2) by (simp add: absorbs_iff [OF dom])
  qed
  moreover have "0 < t \<longrightarrow> t < n \<and> odds (n - t) t p d < 1 - c"
    using conjunct1 [OF largest] unfolding absorbs_iff [OF dom] .
  ultimately show ?thesis using t(1) by blast
qed

theorem discard_count_is_largest_witness:
  "\<exists>t. discard_count 5 (1/2) 0 (1/2) = Some (Inr t)
    \<and> (0 < t \<longrightarrow> t < 5 \<and> odds (5 - t) t (1/2) 0 < 1 - 1/2)
    \<and> (\<forall>u>t. u < 5 \<longrightarrow> 1 - 1/2 \<le> odds (5 - u) u (1/2) 0)"
  by (rule discard_count_is_largest) simp_all

text \<open>C5. The reported estimate, for an ascending series.  It is present exactly when the run reaches
  the floor \<open>min_queries\<close>.  When it is, it is the \<open>discarded + 1\<close>-th highest sample, at most
  \<open>discarded\<close> samples lie strictly above it, and a run in which only that many plus one queries were
  over latency would have passed the binomial test at the requested confidence; with one more
  over-latency query it would not.\<close>

theorem es_estimate_is_certified:
  assumes "sorted xs" "1 \<le> pc" "pc < 100" "0 < c" "c < 1"
  shows "\<exists>r. es_percentile_estimate xs pc c = Some (Inr r)
    \<and> (case er_estimate r of
         None \<Rightarrow> length xs < er_min_queries r \<and> er_discarded r = 0
       | Some e \<Rightarrow> er_min_queries r \<le> length xs \<and> er_discarded r < length xs
           \<and> e = rev xs ! er_discarded r
           \<and> length (filter (\<lambda>x. e < x) xs) \<le> er_discarded r
           \<and> odds (length xs - Suc (er_discarded r)) (Suc (er_discarded r)) (pc / 100) 0 < 1 - c
           \<and> (Suc (Suc (er_discarded r)) < length xs \<longrightarrow>
               1 - c \<le> odds (length xs - Suc (Suc (er_discarded r))) (Suc (Suc (er_discarded r))) (pc / 100) 0))"
proof -
  let ?f = "pc / 100"
  let ?n = "length xs"
  have dom: "in_domain ?f 0 c" using assms by (simp add: in_domain_def)
  obtain h where h: "min_passing 1 ?f 0 c = Some h" "least_passing 1 ?f 0 c h"
    using min_passing_least [OF dom] by blast
  have fmp: "find_min_passing 1 ?f 0 c = Some (Inr h)"
    by (simp add: find_min_passing_def validate_domain_iff dom h(1) del: One_nat_def)
  have a1: "absorbs ?n ?f 0 c 1 \<longleftrightarrow> h + 1 \<le> ?n" by (simp add: absorbs_def h(1) del: One_nat_def)
  obtain t where t: "discard_count ?n ?f 0 c = Some (Inr t)"
    "if absorbs ?n ?f 0 c 1 then 1 \<le> t \<and> absorbs ?n ?f 0 c t \<and> (\<forall>u>t. \<not> absorbs ?n ?f 0 c u) else t = 0"
    using discard_count_cases [OF dom] by blast
  have pcs: "\<not> \<not> (1 \<le> pc \<and> pc < 100)" using assms by simp
  show ?thesis
  proof (cases "h + 1 \<le> ?n")
    case False
    then show ?thesis using pcs unfolding es_percentile_estimate_def TOLERANCE_def Let_def fmp by simp
  next
    case True
    have big: "1 \<le> t" "absorbs ?n ?f 0 c t" "\<not> absorbs ?n ?f 0 c (Suc t)" using t(2) True a1 by auto
    then have tn: "t < ?n" "odds (?n - t) t ?f 0 < 1 - c" by (simp_all add: absorbs_iff [OF dom])
    have next_t: "Suc t < ?n \<longrightarrow> 1 - c \<le> odds (?n - Suc t) (Suc t) ?f 0"
      using big(3) by (auto simp: absorbs_iff [OF dom])
    have st: "Suc (t - 1) = t" using big(1) by simp
    have nth: "xs ! (?n - t) = rev xs ! (t - 1)" using big(1) tn(1) by (simp add: rev_nth)
    show ?thesis
      using pcs True above_sorted [OF assms(1), of t] big(1) tn next_t nth st
      unfolding es_percentile_estimate_def TOLERANCE_def Let_def fmp t(1) by simp
  qed
qed

theorem es_estimate_is_certified_witness:
  "\<exists>r. es_percentile_estimate [1, 2, 3, 4] 50 (1/2) = Some (Inr r)
    \<and> (case er_estimate r of
         None \<Rightarrow> length [1, 2, 3, 4 :: rat] < er_min_queries r \<and> er_discarded r = 0
       | Some e \<Rightarrow> er_min_queries r \<le> length [1, 2, 3, 4 :: rat] \<and> er_discarded r < length [1, 2, 3, 4 :: rat]
           \<and> e = rev [1, 2, 3, 4] ! er_discarded r
           \<and> length (filter (\<lambda>x. e < x) [1, 2, 3, 4]) \<le> er_discarded r
           \<and> odds (length [1, 2, 3, 4 :: rat] - Suc (er_discarded r)) (Suc (er_discarded r)) (50 / 100) 0 < 1 - 1/2
           \<and> (Suc (Suc (er_discarded r)) < length [1, 2, 3, 4 :: rat] \<longrightarrow>
               1 - 1/2 \<le> odds (length [1, 2, 3, 4 :: rat] - Suc (Suc (er_discarded r))) (Suc (Suc (er_discarded r))) (50 / 100) 0))"
  by (rule es_estimate_is_certified) simp_all

end
