(* ===== verification/ConnectionPool.thy ===== *)
theory ConnectionPool
  imports PyValues
begin

text \<open>
  \<open>endpoint_client/http.py\<close>: \<open>PooledConnection\<close> and \<open>ConnectionPool\<close>.  Connections and the tasks
  that acquire them are numbered; a connection carries what the pool reads of its protocol, its
  transport and its socket.  The state changes between awaits are the events of \<open>pool_step\<close>, in
  any order the event loop may run them: the coroutine \<open>acquire\<close> is cut at its three awaits (the
  connect limiter, the handshake, the waiter future).  Which of several tasks the limiter lets in
  is left open.  The socket options and the TCP handshake itself are the operating system's.
\<close>

section \<open>Connections\<close>

record pooled_connection =
  pc_connection_lost :: bool
  pc_is_closing :: bool
  pc_in_use :: bool
  pc_created_at :: rat
  pc_last_used :: rat
  pc_idle_time_on_acquire :: rat
  pc_readable :: bool
  pc_header_close :: bool
  pc_exc :: bool

definition fresh_connection :: "rat \<Rightarrow> pooled_connection" where
  "fresh_connection now = \<lparr>pc_connection_lost = False, pc_is_closing = False, pc_in_use = True,
     pc_created_at = now, pc_last_used = now, pc_idle_time_on_acquire = 0, pc_readable = False,
     pc_header_close = False, pc_exc = False\<rparr>"

definition is_alive :: "pooled_connection \<Rightarrow> bool" where
  "is_alive c = (\<not> pc_connection_lost c \<and> \<not> pc_is_closing c)"

text \<open>\<open>pc_readable\<close> is what the poll of the socket answers (also when its descriptor is invalid).\<close>

definition is_stale :: "rat \<Rightarrow> pooled_connection \<Rightarrow> bool" where
  "is_stale now c = (if now - pc_last_used c < 1 then False else pc_readable c)"

definition should_close :: "pooled_connection \<Rightarrow> bool" where
  "should_close c = (pc_header_close c \<or> pc_connection_lost c \<or> pc_exc c)"

definition conn_reset :: "pooled_connection \<Rightarrow> pooled_connection" where
  "conn_reset c = c\<lparr>pc_header_close := False, pc_exc := False\<rparr>"

section \<open>The pool\<close>

text \<open>Where a task is inside \<open>acquire\<close>, or the connection it was given.\<close>

datatype acquirer = AtLimiter | Connecting | Waiting nat | Holding nat

text \<open>The idle stack has its top first.  A waiter's future is pending (\<open>None\<close>), has its result
  (\<open>Some True\<close>) or makes its task raise \<open>CancelledError\<close> (\<open>Some False\<close>).\<close>

record pool =
  max_connections :: "nat option"
  max_idle_time :: rat
  idle_stack :: "nat list"
  all_connections :: "nat set"
  creating :: nat
  limiter_free :: nat
  waiters :: "nat list"
  fut_result :: "nat \<rightharpoonup> bool"
  conn_of :: "nat \<Rightarrow> pooled_connection"
  next_conn :: nat
  next_fut :: nat
  acquirers :: "nat \<rightharpoonup> acquirer"

definition pool_init :: "nat option \<Rightarrow> rat \<Rightarrow> nat \<Rightarrow> pool" where
  "pool_init cap idle_time max_concurrent =
     \<lparr>max_connections = cap, max_idle_time = idle_time, idle_stack = [], all_connections = {},
      creating = 0, limiter_free = max_concurrent, waiters = [], fut_result = Map.empty,
      conn_of = (\<lambda>_. fresh_connection 0), next_conn = 0, next_fut = 0, acquirers = Map.empty\<rparr>"

definition upd_conn :: "nat \<Rightarrow> (pooled_connection \<Rightarrow> pooled_connection) \<Rightarrow> pool \<Rightarrow> pool" where
  "upd_conn c f p = p\<lparr>conn_of := (conn_of p)(c := f (conn_of p c))\<rparr>"

definition close_connection :: "nat \<Rightarrow> pool \<Rightarrow> pool" where
  "close_connection c p =
     (upd_conn c (\<lambda>k. k\<lparr>pc_is_closing := True\<rparr>) p)\<lparr>all_connections := all_connections p - {c}\<rparr>"

text \<open>\<open>_try_get_idle\<close>: the loop over the stack \<open>cs\<close>.\<close>

fun try_idle :: "rat \<Rightarrow> nat list \<Rightarrow> pool \<Rightarrow> nat option \<times> pool" where
  "try_idle now [] p = (None, p\<lparr>idle_stack := []\<rparr>)"
| "try_idle now (c # cs) p =
     (let k = conn_of p c; idle_time = now - pc_last_used k
      in if idle_time > max_idle_time p then try_idle now cs (close_connection c p)
         else if is_alive k \<and> \<not> is_stale now k
         then (Some c, (upd_conn c (\<lambda>k. conn_reset (k\<lparr>pc_in_use := True, pc_idle_time_on_acquire := idle_time\<rparr>)) p)
                         \<lparr>idle_stack := cs\<rparr>)
         else try_idle now cs (close_connection c p))"

definition try_get_idle :: "rat \<Rightarrow> pool \<Rightarrow> nat option \<times> pool" where
  "try_get_idle now p = try_idle now (idle_stack p) p"

definition can_create_connection :: "pool \<Rightarrow> bool" where
  "can_create_connection p = (case max_connections p of
       None \<Rightarrow> True
     | Some m \<Rightarrow> card (all_connections p) + creating p < m)"

definition set_task :: "nat \<Rightarrow> acquirer option \<Rightarrow> pool \<Rightarrow> pool" where
  "set_task t a p = p\<lparr>acquirers := (acquirers p)(t := a)\<rparr>"

text \<open>\<open>_create_connection\<close> up to the limiter, and one round of \<open>_wait_for_connection\<close>.\<close>

definition begin_create :: "nat \<Rightarrow> pool \<Rightarrow> pool" where
  "begin_create t p = set_task t (Some AtLimiter) (p\<lparr>creating := creating p + 1\<rparr>)"

definition begin_wait :: "nat \<Rightarrow> pool \<Rightarrow> pool" where
  "begin_wait t p = set_task t (Some (Waiting (next_fut p)))
     (p\<lparr>waiters := waiters p @ [next_fut p], next_fut := next_fut p + 1\<rparr>)"

text \<open>The body of \<open>acquire\<close>, which is also what a woken waiter does.\<close>

definition acquire :: "nat \<Rightarrow> rat \<Rightarrow> pool \<Rightarrow> pool" where
  "acquire t now p = (case try_get_idle now p of
       (Some c, p1) \<Rightarrow> set_task t (Some (Holding c)) p1
     | (None, p1) \<Rightarrow> if can_create_connection p1 then begin_create t p1 else begin_wait t p1)"

text \<open>Inside the limiter: a connection released meanwhile is preferred over a handshake.\<close>

definition enter_limiter :: "nat \<Rightarrow> rat \<Rightarrow> pool \<Rightarrow> pool" where
  "enter_limiter t now p = (case try_get_idle now p of
       (Some c, p1) \<Rightarrow> set_task t (Some (Holding c)) (p1\<lparr>creating := creating p1 - 1\<rparr>)
     | (None, p1) \<Rightarrow> set_task t (Some Connecting) (p1\<lparr>limiter_free := limiter_free p1 - 1\<rparr>))"

definition connected :: "nat \<Rightarrow> rat \<Rightarrow> pool \<Rightarrow> pool" where
  "connected t now p =
     (let c = next_conn p
      in set_task t (Some (Holding c))
           (p\<lparr>limiter_free := limiter_free p + 1, next_conn := c + 1,
              conn_of := (conn_of p)(c := fresh_connection now),
              all_connections := insert c (all_connections p), creating := creating p - 1\<rparr>))"

text \<open>The handshake raises, or the task is cancelled in it: the \<open>finally\<close> gives the slot back.\<close>

definition connect_failed :: "nat \<Rightarrow> pool \<Rightarrow> pool" where
  "connect_failed t p =
     set_task t None (p\<lparr>limiter_free := limiter_free p + 1, creating := creating p - 1\<rparr>)"

text \<open>The loop of \<open>_notify_waiter\<close>: the first future that is still pending gets its result.\<close>

fun notify_from :: "nat list \<Rightarrow> pool \<Rightarrow> pool" where
  "notify_from [] p = p\<lparr>waiters := []\<rparr>"
| "notify_from (f # fs) p =
     (if fut_result p f \<noteq> None then notify_from fs p
      else p\<lparr>waiters := fs, fut_result := (fut_result p)(f \<mapsto> True)\<rparr>)"

definition notify_waiter :: "pool \<Rightarrow> pool" where
  "notify_waiter p = notify_from (waiters p) p"

definition release :: "nat \<Rightarrow> rat \<Rightarrow> pool \<Rightarrow> pool" where
  "release c now p =
     (let k = conn_of p c
      in if \<not> pc_in_use k then p
         else if \<not> is_alive k \<or> should_close k then notify_waiter (close_connection c p)
         else notify_waiter
           ((upd_conn c (\<lambda>k. conn_reset (k\<lparr>pc_in_use := False, pc_last_used := now\<rparr>)) p)
              \<lparr>idle_stack := c # idle_stack p\<rparr>))"

text \<open>Waiters are cancelled, connections closed, and everything is forgotten.\<close>

definition close_pool :: "pool \<Rightarrow> pool" where
  "close_pool p = p\<lparr>waiters := [],
     fut_result := (\<lambda>f. if f \<in> set (waiters p) \<and> fut_result p f = None then Some False else fut_result p f),
     conn_of := (\<lambda>c. if c \<in> all_connections p then (conn_of p c)\<lparr>pc_is_closing := True\<rparr> else conn_of p c),
     all_connections := {}, idle_stack := []\<rparr>"

text \<open>A waiting task whose future is done: the \<open>finally\<close> drops the future, and the task raises or has
  another round.\<close>

definition resume_waiter :: "nat \<Rightarrow> nat \<Rightarrow> bool \<Rightarrow> rat \<Rightarrow> pool \<Rightarrow> pool" where
  "resume_waiter t f ok now p =
     (let p1 = p\<lparr>waiters := removeAll f (waiters p)\<rparr>
      in if ok then acquire t now p1 else set_task t None p1)"

section \<open>The event loop\<close>

datatype pool_event =
    Acquire nat rat | Enter nat rat | Connected nat rat | ConnectFailed nat
  | Resume nat rat | CancelWait nat | CancelLimiter nat
  | Release nat rat | ClosePool
  | PeerClosed nat | Readable nat | HeaderClose nat | ProtocolError nat

fun pool_step :: "pool \<Rightarrow> pool_event \<Rightarrow> pool option" where
  "pool_step p (Acquire t now) = (if acquirers p t = None then Some (acquire t now p) else None)"
| "pool_step p (Enter t now) =
     (if acquirers p t = Some AtLimiter \<and> limiter_free p > 0 then Some (enter_limiter t now p) else None)"
| "pool_step p (Connected t now) =
     (if acquirers p t = Some Connecting then Some (connected t now p) else None)"
| "pool_step p (ConnectFailed t) =
     (if acquirers p t = Some Connecting then Some (connect_failed t p) else None)"
| "pool_step p (Resume t now) =
     (case acquirers p t of
        Some (Waiting f) \<Rightarrow> map_option (\<lambda>ok. resume_waiter t f ok now p) (fut_result p f)
      | _ \<Rightarrow> None)"
| "pool_step p (CancelWait t) =
     (case acquirers p t of
        Some (Waiting f) \<Rightarrow> Some (p\<lparr>fut_result := (fut_result p)(f \<mapsto> False)\<rparr>)
      | _ \<Rightarrow> None)"
| "pool_step p (CancelLimiter t) =
     (if acquirers p t = Some AtLimiter then Some (set_task t None (p\<lparr>creating := creating p - 1\<rparr>)) else None)"
| "pool_step p (Release t now) =
     (case acquirers p t of
        Some (Holding c) \<Rightarrow> Some (set_task t None (release c now p))
      | _ \<Rightarrow> None)"
| "pool_step p ClosePool = Some (close_pool p)"
| "pool_step p (PeerClosed c) = Some (upd_conn c (\<lambda>k. k\<lparr>pc_connection_lost := True\<rparr>) p)"
| "pool_step p (Readable c) = Some (upd_conn c (\<lambda>k. k\<lparr>pc_readable := True\<rparr>) p)"
| "pool_step p (HeaderClose c) = Some (upd_conn c (\<lambda>k. k\<lparr>pc_header_close := True\<rparr>) p)"
| "pool_step p (ProtocolError c) = Some (upd_conn c (\<lambda>k. k\<lparr>pc_exc := True\<rparr>) p)"

inductive pool_reach :: "pool \<Rightarrow> pool \<Rightarrow> bool" where
  pool_start: "pool_reach p p"
| pool_next: "pool_reach p0 p \<Longrightarrow> pool_step p e = Some p' \<Longrightarrow> pool_reach p0 p'"

section \<open>Warmup\<close>

definition warmup_count :: "int option \<Rightarrow> pool \<Rightarrow> int result" where
  "warmup_count count p =
     (case (case count of Some n \<Rightarrow> Some n | None \<Rightarrow> map_option int (max_connections p)) of
        None \<Rightarrow> Inr 0
      | Some n \<Rightarrow>
          (case max_connections p of
             Some m \<Rightarrow> if n > int m then Inl ValueError else Inr n
           | None \<Rightarrow> Inr n))"

text \<open>The acquiring tasks \<open>ts\<close> are started together; those that were served are released at the end,
  and the number of idle connections is the answer.\<close>

definition warmup_start :: "nat list \<Rightarrow> rat \<Rightarrow> pool \<Rightarrow> pool" where
  "warmup_start ts now p = foldl (\<lambda>p t. acquire t now p) p ts"

definition warmup_finish :: "nat list \<Rightarrow> rat \<Rightarrow> pool \<Rightarrow> nat \<times> pool" where
  "warmup_finish ts now p =
     (let p' = foldl (\<lambda>p t. case acquirers p t of
                        Some (Holding c) \<Rightarrow> set_task t None (release c now p)
                      | _ \<Rightarrow> p) p ts
      in (length (idle_stack p'), p'))"

section \<open>The pool invariant\<close>

definition creators :: "pool \<Rightarrow> nat set" where
  "creators p = {t. acquirers p t = Some AtLimiter \<or> acquirers p t = Some Connecting}"

definition connectors :: "pool \<Rightarrow> nat set" where
  "connectors p = {t. acquirers p t = Some Connecting}"

definition idle_ok :: "pool \<Rightarrow> bool" where
  "idle_ok p = (distinct (idle_stack p) \<and> set (idle_stack p) \<subseteq> all_connections p \<and> finite (all_connections p)
     \<and> (\<forall>c\<in>all_connections p. c < next_conn p) \<and> (\<forall>c\<in>set (idle_stack p). \<not> pc_in_use (conn_of p c)))"

definition held_ok :: "pool \<Rightarrow> bool" where
  "held_ok p = (\<forall>t c. acquirers p t = Some (Holding c) \<longrightarrow>
      c < next_conn p \<and> c \<notin> set (idle_stack p) \<and> pc_in_use (conn_of p c)
      \<and> (c \<in> all_connections p \<or> pc_is_closing (conn_of p c))
      \<and> (\<forall>u. acquirers p u = Some (Holding c) \<longrightarrow> u = t))"

definition slots_ok :: "nat \<Rightarrow> pool \<Rightarrow> bool" where
  "slots_ok k p = (finite (dom (acquirers p)) \<and> creating p = card (creators p)
     \<and> limiter_free p + card (connectors p) = k
     \<and> (\<forall>m. max_connections p = Some m \<longrightarrow> card (all_connections p) + creating p \<le> m))"

definition pool_inv :: "nat \<Rightarrow> pool \<Rightarrow> bool" where
  "pool_inv k p = (idle_ok p \<and> held_ok p \<and> slots_ok k p)"

text \<open>What popping the idle stack does: the connections above the answer were dead and are closed.\<close>

definition popped :: "nat option \<Rightarrow> rat \<Rightarrow> nat list \<Rightarrow> pool \<Rightarrow> pool \<Rightarrow> bool" where
  "popped r now cs p p' = (\<exists>dropped rest k.
     cs = dropped @ (case r of Some c \<Rightarrow> c # rest | None \<Rightarrow> rest) \<and> (r = None \<longrightarrow> rest = [])
     \<and> p' = p\<lparr>idle_stack := rest, all_connections := all_connections p - set dropped, conn_of := k\<rparr>
     \<and> (\<forall>c. c \<notin> set dropped \<longrightarrow> Some c \<noteq> r \<longrightarrow> k c = conn_of p c)
     \<and> (\<forall>c. r = Some c \<longrightarrow> is_alive (conn_of p c) \<and> \<not> is_stale now (conn_of p c)
          \<and> now - pc_last_used (conn_of p c) \<le> max_idle_time p
          \<and> k c = conn_reset ((conn_of p c)\<lparr>pc_in_use := True,
                pc_idle_time_on_acquire := now - pc_last_used (conn_of p c)\<rparr>)))"

lemma close_connection_other: "x \<noteq> c \<Longrightarrow> conn_of (close_connection c p) x = conn_of p x"
  by (simp add: close_connection_def upd_conn_def)

lemma close_connection_frame [simp]:
  "max_idle_time (close_connection c p) = max_idle_time p"
  "all_connections (close_connection c p) = all_connections p - {c}"
  "(close_connection c p)\<lparr>idle_stack := r, all_connections := a, conn_of := k\<rparr>
     = p\<lparr>idle_stack := r, all_connections := a, conn_of := k\<rparr>"
  by (simp_all add: close_connection_def upd_conn_def)

lemma popped_drop:
  assumes "popped r now cs (close_connection c p) p'" "distinct (c # cs)"
  shows "popped r now (c # cs) p p'"
proof -
  obtain dropped rest k where d: "cs = dropped @ (case r of Some c \<Rightarrow> c # rest | None \<Rightarrow> rest)" "r = None \<longrightarrow> rest = []"
     "p' = (close_connection c p)\<lparr>idle_stack := rest,
        all_connections := all_connections (close_connection c p) - set dropped, conn_of := k\<rparr>"
     "\<forall>x. x \<notin> set dropped \<longrightarrow> Some x \<noteq> r \<longrightarrow> k x = conn_of (close_connection c p) x"
     "\<forall>x. r = Some x \<longrightarrow> is_alive (conn_of (close_connection c p) x) \<and> \<not> is_stale now (conn_of (close_connection c p) x)
          \<and> now - pc_last_used (conn_of (close_connection c p) x) \<le> max_idle_time (close_connection c p)
          \<and> k x = conn_reset ((conn_of (close_connection c p) x)\<lparr>pc_in_use := True,
                pc_idle_time_on_acquire := now - pc_last_used (conn_of (close_connection c p) x)\<rparr>)"
    using assms(1) unfolding popped_def by blast
  have rc: "x \<noteq> c" if "r = Some x" for x using assms(2) d(1) that by auto
  have eq: "all_connections p - {c} - set dropped = all_connections p - set (c # dropped)" by auto
  show ?thesis
    unfolding popped_def
  proof (intro exI conjI)
    show "c # cs = (c # dropped) @ (case r of Some c \<Rightarrow> c # rest | None \<Rightarrow> rest)" using d(1) by simp
    show "r = None \<longrightarrow> rest = []" by (rule d(2))
    show "p' = p\<lparr>idle_stack := rest, all_connections := all_connections p - set (c # dropped), conn_of := k\<rparr>"
      using d(3) unfolding close_connection_frame eq .
    show "\<forall>x. x \<notin> set (c # dropped) \<longrightarrow> Some x \<noteq> r \<longrightarrow> k x = conn_of p x"
      using d(4) by (simp add: close_connection_other)
    show "\<forall>x. r = Some x \<longrightarrow> is_alive (conn_of p x) \<and> \<not> is_stale now (conn_of p x)
          \<and> now - pc_last_used (conn_of p x) \<le> max_idle_time p
          \<and> k x = conn_reset ((conn_of p x)\<lparr>pc_in_use := True,
                pc_idle_time_on_acquire := now - pc_last_used (conn_of p x)\<rparr>)"
      using d(5) rc by (simp add: close_connection_other)
  qed
qed

lemma try_idle_popped:
  "distinct cs \<Longrightarrow> try_idle now cs p = (r, p') \<Longrightarrow> popped r now cs p p'"
proof (induction now cs p rule: try_idle.induct)
  case (1 now p)
  then show ?case
    unfolding popped_def
    by (intro exI [of _ "[]"] exI [of _ "conn_of p"]) auto
next
  case (2 now c cs p)
  let ?k = "conn_of p c"
  consider (old) "now - pc_last_used ?k > max_idle_time p"
    | (good) "\<not> now - pc_last_used ?k > max_idle_time p" "is_alive ?k" "\<not> is_stale now ?k"
    | (dead) "\<not> now - pc_last_used ?k > max_idle_time p" "\<not> (is_alive ?k \<and> \<not> is_stale now ?k)" by blast
  then show ?case
  proof cases
    case old
    then have "try_idle now cs (close_connection c p) = (r, p')" using 2(4) by (simp add: Let_def)
    with 2(1) [OF refl refl old] 2(3) show ?thesis by (intro popped_drop) auto
  next
    case good
    then have r: "r = Some c" "p' = (upd_conn c (\<lambda>k. conn_reset (k\<lparr>pc_in_use := True,
        pc_idle_time_on_acquire := now - pc_last_used ?k\<rparr>)) p)\<lparr>idle_stack := cs\<rparr>"
      using 2(4) by (simp_all add: Let_def)
    show ?thesis unfolding popped_def r(1)
      by (rule exI [of _ "[]"], rule exI [of _ cs], rule exI [of _ "conn_of p'"])
        (use good in \<open>simp add: r(2) upd_conn_def\<close>)
  next
    case dead
    then have "try_idle now cs (close_connection c p) = (r, p')"
      using 2(4) by (simp only: try_idle.simps Let_def if_False)
    with 2(2) [OF refl refl dead] 2(3) show ?thesis by (intro popped_drop) auto
  qed
qed

definition in_use_count :: "pool \<Rightarrow> nat" where
  "in_use_count p = card {c \<in> all_connections p. pc_in_use (conn_of p c)}"

lemma try_get_idle_inv:
  assumes "idle_ok p" "held_ok p" "try_get_idle now p = (r, p')"
  shows "idle_ok p' \<and> held_ok p' \<and> all_connections p' \<subseteq> all_connections p"
    and "acquirers p' = acquirers p" "creating p' = creating p" "limiter_free p' = limiter_free p"
        "max_connections p' = max_connections p" "next_conn p' = next_conn p"
    and "r = Some c \<Longrightarrow> c \<in> all_connections p' \<and> c \<notin> set (idle_stack p') \<and> pc_in_use (conn_of p' c)
           \<and> is_alive (conn_of p' c) \<and> (\<forall>t. acquirers p t \<noteq> Some (Holding c)) \<and> c < next_conn p"
proof -
  have d: "distinct (idle_stack p)" "set (idle_stack p) \<subseteq> all_connections p" "finite (all_connections p)"
    "\<forall>c\<in>all_connections p. c < next_conn p" "\<forall>c\<in>set (idle_stack p). \<not> pc_in_use (conn_of p c)"
    using assms(1) unfolding idle_ok_def by auto
  have "popped r now (idle_stack p) p p'"
    using try_idle_popped [OF d(1)] assms(3) by (simp add: try_get_idle_def)
  then obtain dropped rest k where q: "idle_stack p = dropped @ (case r of Some c \<Rightarrow> c # rest | None \<Rightarrow> rest)"
      "r = None \<longrightarrow> rest = []"
      "p' = p\<lparr>idle_stack := rest, all_connections := all_connections p - set dropped, conn_of := k\<rparr>"
      "\<forall>c. c \<notin> set dropped \<longrightarrow> Some c \<noteq> r \<longrightarrow> k c = conn_of p c"
      "\<forall>c. r = Some c \<longrightarrow> is_alive (conn_of p c) \<and> \<not> is_stale now (conn_of p c)
          \<and> now - pc_last_used (conn_of p c) \<le> max_idle_time p
          \<and> k c = conn_reset ((conn_of p c)\<lparr>pc_in_use := True,
                pc_idle_time_on_acquire := now - pc_last_used (conn_of p c)\<rparr>)"
    unfolding popped_def by blast
  have rest: "distinct rest" "set rest \<subseteq> set (idle_stack p)" "set rest \<inter> set dropped = {}"
      "set dropped \<subseteq> set (idle_stack p)" "\<And>c. r = Some c \<Longrightarrow> c \<in> set (idle_stack p) \<and> c \<notin> set rest \<and> c \<notin> set dropped"
    using d(1) unfolding q(1) by (auto split: option.splits)
  have idle_same: "k c = conn_of p c" if "c \<in> set rest" for c
    using q(4) rest(3,5) that by (cases "r = Some c") auto
  have "idle_ok p'" unfolding idle_ok_def q(3) using d rest idle_same by auto
  moreover have "held_ok p'"
    unfolding held_ok_def
  proof (intro allI impI)
    fix t c assume "acquirers p' t = Some (Holding c)"
    then have a: "acquirers p t = Some (Holding c)" by (simp add: q(3))
    then have h: "c < next_conn p" "c \<notin> set (idle_stack p)" "pc_in_use (conn_of p c)"
      "c \<in> all_connections p \<or> pc_is_closing (conn_of p c)" "\<forall>u. acquirers p u = Some (Holding c) \<longrightarrow> u = t"
      using assms(2) unfolding held_ok_def by blast+
    then have c: "c \<notin> set dropped" "c \<notin> set rest" "Some c \<noteq> r" using rest by auto
    then have "k c = conn_of p c" using q(4) by blast
    then show "c < next_conn p' \<and> c \<notin> set (idle_stack p') \<and> pc_in_use (conn_of p' c)
      \<and> (c \<in> all_connections p' \<or> pc_is_closing (conn_of p' c)) \<and> (\<forall>u. acquirers p' u = Some (Holding c) \<longrightarrow> u = t)"
      using h c by (simp add: q(3))
  qed
  ultimately show "idle_ok p' \<and> held_ok p' \<and> all_connections p' \<subseteq> all_connections p"
    by (auto simp: q(3))
  show "acquirers p' = acquirers p" "creating p' = creating p" "limiter_free p' = limiter_free p"
    "max_connections p' = max_connections p" "next_conn p' = next_conn p" by (simp_all add: q(3))
  show "c \<in> all_connections p' \<and> c \<notin> set (idle_stack p') \<and> pc_in_use (conn_of p' c)
      \<and> is_alive (conn_of p' c) \<and> (\<forall>t. acquirers p t \<noteq> Some (Holding c)) \<and> c < next_conn p" if "r = Some c"
  proof -
    have i: "c \<in> set (idle_stack p)" "c \<notin> set rest" "c \<notin> set dropped" using rest(5) [OF that] by auto
    have "acquirers p t \<noteq> Some (Holding c)" for t using assms(2) i(1) unfolding held_ok_def by blast
    moreover have "c \<in> all_connections p" "c < next_conn p" using i(1) d(2,4) by auto
    moreover have "is_alive (k c) \<and> pc_in_use (k c)"
      using q(5) that by (auto simp: is_alive_def conn_reset_def)
    ultimately show ?thesis using i by (simp add: q(3))
  qed
qed

lemma set_task_frame [simp]:
  "idle_stack (set_task t a p) = idle_stack p" "all_connections (set_task t a p) = all_connections p"
  "creating (set_task t a p) = creating p" "limiter_free (set_task t a p) = limiter_free p"
  "max_connections (set_task t a p) = max_connections p" "next_conn (set_task t a p) = next_conn p"
  "conn_of (set_task t a p) = conn_of p" "acquirers (set_task t a p) = (acquirers p)(t := a)"
  "waiters (set_task t a p) = waiters p" "fut_result (set_task t a p) = fut_result p"
  by (simp_all add: set_task_def)

lemma idle_ok_set_task [simp]: "idle_ok (set_task t a p) = idle_ok p"
  by (simp add: idle_ok_def)

definition holds :: "acquirer option \<Rightarrow> bool" where
  "holds a = (\<exists>c. a = Some (Holding c))"

lemma held_ok_drop: "held_ok p \<Longrightarrow> \<not> holds a \<Longrightarrow> held_ok (set_task t a p)"
  unfolding held_ok_def holds_def by auto

lemma held_ok_give:
  assumes "held_ok p" "c < next_conn p" "c \<notin> set (idle_stack p)" "pc_in_use (conn_of p c)"
    "c \<in> all_connections p" "\<forall>u. acquirers p u \<noteq> Some (Holding c)"
  shows "held_ok (set_task t (Some (Holding c)) p)"
  using assms unfolding held_ok_def by auto

definition creates :: "acquirer option \<Rightarrow> bool" where
  "creates a = (a = Some AtLimiter \<or> a = Some Connecting)"

lemma task_sets_finite:
  "finite (dom (acquirers p)) \<Longrightarrow> finite (creators p)" "finite (dom (acquirers p)) \<Longrightarrow> finite (connectors p)"
  by (erule rev_finite_subset, force simp: creators_def connectors_def)+

lemma in_creators: "t \<in> creators p \<longleftrightarrow> creates (acquirers p t)" "t \<in> connectors p \<longleftrightarrow> acquirers p t = Some Connecting"
  by (auto simp: creators_def connectors_def creates_def)

text \<open>A task moves from one place to another, and the counters follow.\<close>

lemma slots_ok_move:
  assumes "slots_ok k p" "acquirers q = (acquirers p)(t := a)" "max_connections q = max_connections p"
    and "int (creating q) - int (creating p) = of_bool (creates a) - of_bool (creates (acquirers p t))"
    and "int (limiter_free p) - int (limiter_free q)
           = of_bool (a = Some Connecting) - of_bool (acquirers p t = Some Connecting)"
    and "\<And>m. max_connections p = Some m \<Longrightarrow> card (all_connections p) + creating p \<le> m
           \<Longrightarrow> card (all_connections q) + creating q \<le> m"
  shows "slots_ok k q"
proof -
  have s: "finite (dom (acquirers p))" "creating p = card (creators p)" "limiter_free p + card (connectors p) = k"
    "\<forall>m. max_connections p = Some m \<longrightarrow> card (all_connections p) + creating p \<le> m"
    using assms(1) unfolding slots_ok_def by auto
  note fin = task_sets_finite [OF s(1)]
  have q: "creators q = (if creates a then insert t (creators p) else creators p - {t})"
    "connectors q = (if a = Some Connecting then insert t (connectors p) else connectors p - {t})"
    using assms(2) by (auto simp: creators_def connectors_def creates_def)
  have move: "int (card (if b then insert t A else A - {t})) = int (card A) + of_bool b - of_bool (t \<in> A)"
    if "finite A" for b A
  proof (cases "t \<in> A")
    case True
    then have "Suc (card (A - {t})) = card A" by (rule card_Suc_Diff1 [OF that])
    then show ?thesis using True by (simp add: insert_absorb)
  qed (simp add: that)
  have "int (card (creators q)) = int (creating q)"
    unfolding q(1) move [OF fin(1)] in_creators using s(2) assms(4) by simp
  moreover have "int (limiter_free q) + int (card (connectors q)) = int k"
    unfolding q(2) move [OF fin(2)] in_creators using s(3) assms(5) by linarith
  moreover have "finite (dom (acquirers q))" using s(1) assms(2) by simp
  ultimately show ?thesis unfolding slots_ok_def using s(4) assms(3,6) by auto
qed

lemma pool_inv_finite: "pool_inv k p \<Longrightarrow> finite (all_connections p)"
  by (simp add: pool_inv_def idle_ok_def)

lemma acquire_inv:
  assumes "pool_inv k p" "\<not> creates (acquirers p t)" "\<not> holds (acquirers p t)"
  shows "pool_inv k (acquire t now p)"
proof -
  obtain r p1 where r: "try_get_idle now p = (r, p1)" by force
  have inv: "idle_ok p" "held_ok p" "slots_ok k p" using assms(1) by (auto simp: pool_inv_def)
  note g = try_get_idle_inv [OF inv(1,2) r]
  have card: "card (all_connections p1) \<le> card (all_connections p)"
    using g(1) pool_inv_finite [OF assms(1)] by (intro card_mono) auto
  show ?thesis
  proof (cases r)
    case (Some c)
    have q: "acquire t now p = set_task t (Some (Holding c)) p1" by (simp add: acquire_def r Some)
    note c = g(7) [OF Some]
    have "held_ok (set_task t (Some (Holding c)) p1)"
      using c g(1,2,6) by (intro held_ok_give) auto
    moreover have "slots_ok k (set_task t (Some (Holding c)) p1)"
      using assms(2) card g by (intro slots_ok_move [OF inv(3), where t = t and a = "Some (Holding c)"])
        (auto simp: creates_def)
    ultimately show ?thesis using g(1) q by (simp add: pool_inv_def)
  next
    case None
    have i1: "idle_ok p1" "held_ok p1" using g(1) by auto
    show ?thesis
    proof (cases "can_create_connection p1")
      case True
      have q: "acquire t now p = begin_create t p1" by (simp add: acquire_def r None True)
      have "slots_ok k (begin_create t p1)"
        using assms(2) g card True by (intro slots_ok_move [OF inv(3), where t = t and a = "Some AtLimiter"])
          (auto simp: begin_create_def creates_def can_create_connection_def)
      moreover have "idle_ok (begin_create t p1)" "held_ok (begin_create t p1)"
        using i1 by (auto simp: begin_create_def idle_ok_def held_ok_def)
      ultimately show ?thesis using q by (simp add: pool_inv_def)
    next
      case False
      have q: "acquire t now p = begin_wait t p1" by (simp add: acquire_def r None False)
      have "slots_ok k (begin_wait t p1)"
        using assms(2) g card by (intro slots_ok_move [OF inv(3), where t = t and a = "Some (Waiting (next_fut p1))"])
          (auto simp: begin_wait_def creates_def)
      moreover have "idle_ok (begin_wait t p1)" "held_ok (begin_wait t p1)"
        using i1 by (auto simp: begin_wait_def idle_ok_def held_ok_def)
      ultimately show ?thesis using q by (simp add: pool_inv_def)
    qed
  qed
qed

lemma creating_positive:
  assumes "slots_ok k p" "creates (acquirers p t)" shows "0 < creating p"
proof -
  have "t \<in> creators p" using assms(2) by (simp add: in_creators)
  moreover have "finite (creators p)" using assms(1) task_sets_finite(1) by (auto simp: slots_ok_def)
  ultimately have "0 < card (creators p)" by (auto simp: card_gt_0_iff)
  then show ?thesis using assms(1) by (simp add: slots_ok_def)
qed

lemma enter_inv:
  assumes "pool_inv k p" "acquirers p t = Some AtLimiter" "0 < limiter_free p"
  shows "pool_inv k (enter_limiter t now p)"
proof -
  obtain r p1 where r: "try_get_idle now p = (r, p1)" by force
  have inv: "idle_ok p" "held_ok p" "slots_ok k p" using assms(1) by (auto simp: pool_inv_def)
  note g = try_get_idle_inv [OF inv(1,2) r]
  have card: "card (all_connections p1) \<le> card (all_connections p)"
    using g(1) pool_inv_finite [OF assms(1)] by (intro card_mono) auto
  have pos: "0 < creating p" using creating_positive [OF inv(3), of t] assms(2) by (simp add: creates_def)
  show ?thesis
  proof (cases r)
    case (Some c)
    let ?q = "p1\<lparr>creating := creating p1 - 1\<rparr>"
    have q: "enter_limiter t now p = set_task t (Some (Holding c)) ?q" by (simp add: enter_limiter_def r Some)
    note c = g(7) [OF Some]
    have "held_ok ?q" using g(1) by (simp add: held_ok_def)
    then have "held_ok (set_task t (Some (Holding c)) ?q)"
      using c g(1,2,6) by (intro held_ok_give) auto
    moreover have "slots_ok k (set_task t (Some (Holding c)) ?q)"
      using assms(2) card g pos by (intro slots_ok_move [OF inv(3), where t = t and a = "Some (Holding c)"])
        (auto simp: creates_def of_nat_diff)
    moreover have "idle_ok (set_task t (Some (Holding c)) ?q)" using g(1) by (simp add: idle_ok_def)
    ultimately show ?thesis using q by (simp add: pool_inv_def)
  next
    case None
    let ?q = "set_task t (Some Connecting) (p1\<lparr>limiter_free := limiter_free p1 - 1\<rparr>)"
    have "slots_ok k ?q"
      using assms(2,3) card g by (intro slots_ok_move [OF inv(3), where t = t and a = "Some Connecting"])
        (auto simp: creates_def of_nat_diff)
    moreover have "idle_ok ?q" "held_ok ?q" using g(1) by (auto simp: idle_ok_def held_ok_def)
    ultimately show ?thesis by (simp add: enter_limiter_def r None pool_inv_def)
  qed
qed

lemma connected_inv:
  assumes "pool_inv k p" "acquirers p t = Some Connecting"
  shows "pool_inv k (connected t now p)"
proof -
  have inv: "idle_ok p" "held_ok p" "slots_ok k p" using assms(1) by (auto simp: pool_inv_def)
  have pos: "0 < creating p" using creating_positive [OF inv(3), of t] assms(2) by (simp add: creates_def)
  have new: "next_conn p \<notin> all_connections p" using inv(1) by (auto simp: idle_ok_def)
  let ?q = "connected t now p"
  have "idle_ok ?q" using inv(1) new unfolding idle_ok_def by (auto simp: connected_def Let_def)
  moreover have "held_ok ?q"
    using inv(1,2) unfolding held_ok_def idle_ok_def connected_def Let_def
    by (auto simp: fresh_connection_def intro: less_SucI)
  moreover have "slots_ok k ?q"
    using assms(2) pos new pool_inv_finite [OF assms(1)]
    by (intro slots_ok_move [OF inv(3), where t = t and a = "Some (Holding (next_conn p))"])
      (auto simp: connected_def Let_def creates_def of_nat_diff)
  ultimately show ?thesis by (simp add: pool_inv_def)
qed

lemma leave_inv:
  assumes "pool_inv k p" "\<not> holds a" "acquirers q = (acquirers p)(t := a)" "\<not> creates a"
    "idle_stack q = idle_stack p" "all_connections q = all_connections p" "conn_of q = conn_of p"
    "max_connections q = max_connections p" "next_conn q = next_conn p"
    "creating q = creating p - of_bool (creates (acquirers p t))"
    "limiter_free q = limiter_free p + of_bool (acquirers p t = Some Connecting)"
  shows "pool_inv k q"
proof -
  have inv: "idle_ok p" "held_ok p" "slots_ok k p" using assms(1) by (auto simp: pool_inv_def)
  have "idle_ok q" using inv(1) assms(5-9) unfolding idle_ok_def by simp
  moreover have "held_ok q = held_ok (set_task t a p)" unfolding held_ok_def by (simp only: assms set_task_frame)
  moreover have "held_ok (set_task t a p)" by (rule held_ok_drop [OF inv(2) assms(2)])
  moreover have "slots_ok k q"
    using assms creating_positive [OF inv(3), of t]
    by (intro slots_ok_move [OF inv(3), where t = t and a = a]) (auto simp: creates_def of_nat_diff)
  ultimately show ?thesis by (simp add: pool_inv_def)
qed

text \<open>Events that touch neither the tasks nor the connections' bookkeeping.\<close>

lemma frame_inv:
  assumes "pool_inv k p" "acquirers q = acquirers p" "idle_stack q = idle_stack p"
    "all_connections q = all_connections p" "max_connections q = max_connections p" "next_conn q = next_conn p"
    "creating q = creating p" "limiter_free q = limiter_free p"
    "\<And>c. pc_in_use (conn_of q c) = pc_in_use (conn_of p c)"
    "\<And>c. pc_is_closing (conn_of p c) \<Longrightarrow> pc_is_closing (conn_of q c)"
  shows "pool_inv k q"
proof -
  have "idle_ok q" using assms(1) unfolding pool_inv_def idle_ok_def assms(2-9) by blast
  moreover have "held_ok q" using assms(1,10) unfolding pool_inv_def held_ok_def assms(2-9) by blast
  moreover have "slots_ok k q"
    using assms(1) unfolding pool_inv_def slots_ok_def creators_def connectors_def assms(2-8) by blast
  ultimately show ?thesis by (simp add: pool_inv_def)
qed

lemma notify_from_frame:
  "\<exists>ws fr. notify_from fs p = p\<lparr>waiters := ws, fut_result := fr\<rparr>"
proof (induction fs p rule: notify_from.induct)
  case (1 p)
  show ?case by (intro exI [of _ "[]"] exI [of _ "fut_result p"]) simp
next
  case (2 f fs p)
  then show ?case by (cases "fut_result p f = None") auto
qed

lemma notify_waiter_inv: "pool_inv k p \<Longrightarrow> pool_inv k (notify_waiter p)"
proof -
  assume inv: "pool_inv k p"
  obtain ws fr where q: "notify_waiter p = p\<lparr>waiters := ws, fut_result := fr\<rparr>"
    unfolding notify_waiter_def using notify_from_frame by blast
  show ?thesis unfolding q by (rule frame_inv [OF inv]) simp_all
qed

lemma release_inv:
  assumes "pool_inv k p" "acquirers p t = Some (Holding c)"
  shows "pool_inv k (set_task t None (release c now p))"
proof -
  have inv: "idle_ok p" "held_ok p" "slots_ok k p" using assms(1) by (auto simp: pool_inv_def)
  have h: "c < next_conn p" "c \<notin> set (idle_stack p)" "pc_in_use (conn_of p c)"
      "c \<in> all_connections p \<or> pc_is_closing (conn_of p c)" "\<forall>u. acquirers p u = Some (Holding c) \<longrightarrow> u = t"
    using inv(2) assms(2) unfolding held_ok_def by blast+
  let ?r = "\<lambda>x. set_task t None (notify_waiter x)"
  have swap: "pool_inv k (set_task t None (notify_waiter x))" if "pool_inv k (set_task t None x)" for x
  proof -
    obtain ws fr where q: "notify_waiter x = x\<lparr>waiters := ws, fut_result := fr\<rparr>"
      unfolding notify_waiter_def using notify_from_frame by blast
    show ?thesis unfolding q by (rule frame_inv [OF that]) (simp_all add: set_task_def)
  qed
  have slots: "slots_ok k (set_task t None q)" if "acquirers q = acquirers p" "creating q = creating p"
    "limiter_free q = limiter_free p" "max_connections q = max_connections p"
    "all_connections q \<subseteq> all_connections p" for q
  proof -
    have "card (all_connections q) \<le> card (all_connections p)"
      using that(5) pool_inv_finite [OF assms(1)] by (intro card_mono)
    then show ?thesis using that assms(2)
      by (intro slots_ok_move [OF inv(3), where t = t and a = None]) (auto simp: creates_def)
  qed
  show ?thesis
  proof (cases "\<not> is_alive (conn_of p c) \<or> should_close (conn_of p c)")
    case True
    let ?q = "close_connection c p"
    have "idle_ok (set_task t None ?q)"
      using inv(1) h(2) by (auto simp: idle_ok_def close_connection_def upd_conn_def)
    moreover have "held_ok (set_task t None ?q)"
      using inv(2) h unfolding held_ok_def close_connection_def upd_conn_def by auto
    moreover have "slots_ok k (set_task t None ?q)"
      by (rule slots) (auto simp: close_connection_def upd_conn_def)
    ultimately have "pool_inv k (set_task t None ?q)" by (simp add: pool_inv_def)
    then show ?thesis using swap True h(3) by (simp add: release_def Let_def)
  next
    case False
    let ?q = "(upd_conn c (\<lambda>k. conn_reset (k\<lparr>pc_in_use := False, pc_last_used := now\<rparr>)) p)
              \<lparr>idle_stack := c # idle_stack p\<rparr>"
    have all: "c \<in> all_connections p" using False h(4) by (simp add: is_alive_def)
    have "idle_ok (set_task t None ?q)"
      using inv(1) h(2) all by (auto simp: idle_ok_def upd_conn_def conn_reset_def)
    moreover have "held_ok (set_task t None ?q)"
      using inv(2) h unfolding held_ok_def upd_conn_def by auto
    moreover have "slots_ok k (set_task t None ?q)" by (rule slots) (auto simp: upd_conn_def)
    ultimately have "pool_inv k (set_task t None ?q)" by (simp add: pool_inv_def)
    then show ?thesis using swap False h(3) by (simp add: release_def Let_def)
  qed
qed

lemma close_pool_inv:
  assumes "pool_inv k p" shows "pool_inv k (close_pool p)"
proof -
  have inv: "idle_ok p" "held_ok p" "slots_ok k p" using assms by (auto simp: pool_inv_def)
  have "idle_ok (close_pool p)" by (simp add: idle_ok_def close_pool_def)
  moreover have "held_ok (close_pool p)" using inv(2) unfolding held_ok_def close_pool_def by auto
  moreover have "slots_ok k (close_pool p)"
    using inv(3) by (force simp: slots_ok_def close_pool_def creators_def connectors_def)
  ultimately show ?thesis by (simp add: pool_inv_def)
qed

lemma upd_conn_inv:
  assumes "pool_inv k p" "\<And>x. pc_in_use (f x) = pc_in_use x" "\<And>x. pc_is_closing x \<Longrightarrow> pc_is_closing (f x)"
  shows "pool_inv k (upd_conn c f p)"
  by (rule frame_inv [OF assms(1)]) (auto simp: upd_conn_def assms(2) intro: assms(3))

lemma pool_step_inv:
  assumes "pool_inv k p" "pool_step p e = Some p'" shows "pool_inv k p'"
proof (cases e)
  case (Acquire t now)
  then show ?thesis using assms acquire_inv [OF assms(1), of t now]
    by (auto simp: creates_def holds_def split: if_splits)
next
  case (Resume t now)
  then obtain f ok where f: "acquirers p t = Some (Waiting f)" "p' = resume_waiter t f ok now p"
    using assms(2) by (auto split: option.splits acquirer.splits)
  have "pool_inv k (p\<lparr>waiters := removeAll f (waiters p)\<rparr>)" by (rule frame_inv [OF assms(1)]) simp_all
  moreover from this have "pool_inv k (set_task t None (p\<lparr>waiters := removeAll f (waiters p)\<rparr>))"
    by (rule leave_inv [where a = None and t = t]) (simp_all add: f(1) holds_def creates_def)
  ultimately show ?thesis using acquire_inv f
    by (auto simp: resume_waiter_def Let_def creates_def holds_def)
next
  case (ConnectFailed t)
  then have "acquirers p t = Some Connecting" "p' = connect_failed t p"
    using assms(2) by (auto split: if_splits)
  then show ?thesis using leave_inv [OF assms(1), of None p' t]
    by (simp add: connect_failed_def holds_def creates_def)
next
  case (CancelLimiter t)
  then have "acquirers p t = Some AtLimiter" "p' = set_task t None (p\<lparr>creating := creating p - 1\<rparr>)"
    using assms(2) by (auto split: if_splits)
  then show ?thesis using leave_inv [OF assms(1), of None p' t] by (simp add: holds_def creates_def)
next
  case (CancelWait t)
  then obtain f where "p' = p\<lparr>fut_result := (fut_result p)(f \<mapsto> False)\<rparr>"
    using assms(2) by (auto split: option.splits acquirer.splits)
  then show ?thesis using frame_inv [OF assms(1), of p'] by simp
qed (use assms in \<open>auto split: if_splits option.splits acquirer.splits
      intro: enter_inv connected_inv release_inv close_pool_inv upd_conn_inv\<close>)

lemma pool_init_inv: "pool_inv k (pool_init cap idle k)"
  by (simp add: pool_inv_def idle_ok_def held_ok_def slots_ok_def pool_init_def creators_def connectors_def)

lemma reach_pool_inv: "pool_reach p0 p \<Longrightarrow> pool_inv k p0 \<Longrightarrow> pool_inv k p"
  by (induction rule: pool_reach.induct) (auto intro: pool_step_inv)

lemma max_connections_frame [simp]:
  "max_connections (close_connection c p) = max_connections p"
  "max_connections (upd_conn c f p) = max_connections p"
  by (simp_all add: close_connection_def upd_conn_def)

lemma max_connections_try_idle: "try_idle now cs p = (r, p') \<Longrightarrow> max_connections p' = max_connections p"
  by (induction now cs p rule: try_idle.induct) (auto simp: Let_def split: if_splits)

lemma max_connections_acquire: "max_connections (acquire t now p) = max_connections p"
  by (auto simp: acquire_def try_get_idle_def begin_create_def begin_wait_def
      split: prod.splits option.splits dest: max_connections_try_idle)

lemma max_connections_notify: "max_connections (notify_waiter p) = max_connections p"
  using notify_from_frame [of "waiters p" p] by (auto simp: notify_waiter_def)

lemma max_connections_step: "pool_step p e = Some p' \<Longrightarrow> max_connections p' = max_connections p"
  by (cases e) (auto simp: max_connections_acquire max_connections_notify enter_limiter_def try_get_idle_def
      connected_def connect_failed_def release_def close_pool_def resume_waiter_def Let_def
      split: if_splits option.splits acquirer.splits prod.splits dest: max_connections_try_idle)

lemma max_connections_reach: "pool_reach p0 p \<Longrightarrow> max_connections p = max_connections p0"
  by (induction rule: pool_reach.induct) (auto dest: max_connections_step)

lemma notify_first:
  "f \<in> set fs \<Longrightarrow> fut_result p f = None \<Longrightarrow>
     \<exists>g. find (\<lambda>g. fut_result p g = None) fs = Some g \<and> fut_result (notify_from fs p) = (fut_result p)(g \<mapsto> True)"
  by (induction fs p rule: notify_from.induct) auto

section \<open>What the pool promises\<close>

fun pool_run :: "pool \<Rightarrow> pool_event list \<Rightarrow> pool option" where
  "pool_run p [] = Some p"
| "pool_run p (e # es) = (case pool_step p e of None \<Rightarrow> None | Some p' \<Rightarrow> pool_run p' es)"

lemma pool_run_reach: "pool_run p es = Some q \<Longrightarrow> pool_reach p0 p \<Longrightarrow> pool_reach p0 q"
  by (induction p es rule: pool_run.induct) (auto split: option.splits intro: pool_next)

text \<open>C7. A connection serves one request at a time: in every reachable state, however acquisitions,
  handshakes, failures, cancellations, peer closes and \<open>close\<close> interleave, no two tasks hold the
  same connection, a held connection is not on the idle stack, every idle connection is tracked and
  not in use, and neither the connection limit nor the limit on concurrent handshakes is exceeded.\<close>

theorem pool_shares_no_connection:
  assumes "pool_reach (pool_init cap idle k) p"
  shows "(\<forall>t c. acquirers p t = Some (Holding c) \<longrightarrow>
            c \<notin> set (idle_stack p) \<and> (\<forall>u. acquirers p u = Some (Holding c) \<longrightarrow> u = t))
     \<and> distinct (idle_stack p) \<and> set (idle_stack p) \<subseteq> all_connections p
     \<and> (\<forall>c\<in>set (idle_stack p). \<not> pc_in_use (conn_of p c))
     \<and> (\<forall>m. cap = Some m \<longrightarrow> card (all_connections p) + card {t. acquirers p t = Some AtLimiter \<or> acquirers p t = Some Connecting} \<le> m)
     \<and> card {t. acquirers p t = Some Connecting} \<le> k"
proof -
  have inv: "idle_ok p" "held_ok p" "slots_ok k p"
    using reach_pool_inv [OF assms pool_init_inv] by (auto simp: pool_inv_def)
  have "max_connections p = cap" using max_connections_reach [OF assms] by (simp add: pool_init_def)
  then show ?thesis using inv
    unfolding idle_ok_def held_ok_def slots_ok_def creators_def connectors_def by auto
qed

definition example_pool_run :: "pool_event list" where
  "example_pool_run = [Acquire 1 0, Enter 1 0, Connected 1 0, Acquire 2 1, Release 1 2, Resume 2 2]"

definition pool_holds_fresh :: "pool option \<Rightarrow> bool" where
  "pool_holds_fresh r = (case r of Some p \<Rightarrow> acquirers p 2 = Some (Holding 0) \<and> acquirers p 1 = None | None \<Rightarrow> False)"

theorem pool_shares_no_connection_witness:
  "\<exists>p. pool_run (pool_init (Some 1) 4 128) example_pool_run = Some p \<and> acquirers p 2 = Some (Holding 0)
     \<and> 0 \<notin> set (idle_stack p) \<and> acquirers p 1 \<noteq> Some (Holding 0)"
proof -
  have ok: "pool_holds_fresh (pool_run (pool_init (Some 1) 4 128) example_pool_run)" by code_simp
  then obtain p where p: "pool_run (pool_init (Some 1) 4 128) example_pool_run = Some p"
    by (cases "pool_run (pool_init (Some 1) 4 128) example_pool_run") (auto simp: pool_holds_fresh_def)
  have "acquirers p 2 = Some (Holding 0)" "acquirers p 1 = None" using ok p by (auto simp: pool_holds_fresh_def)
  with p pool_shares_no_connection [OF pool_run_reach [OF p pool_start]] show ?thesis by auto
qed

text \<open>A released connection is never kept from a waiting request: releasing it gives its result to
  the first waiter whose future is still pending, in arrival order and skipping cancelled ones, and
  to nobody else.\<close>

theorem release_wakes_first_waiter:
  assumes "acquirers p t = Some (Holding c)" "pc_in_use (conn_of p c)"
    and "pool_step p (Release t now) = Some p'" "f \<in> set (waiters p)" "fut_result p f = None"
  shows "\<exists>g. find (\<lambda>g. fut_result p g = None) (waiters p) = Some g \<and> fut_result p' = (fut_result p)(g \<mapsto> True)"
proof -
  let ?idle = "(upd_conn c (\<lambda>k. conn_reset (k\<lparr>pc_in_use := False, pc_last_used := now\<rparr>)) p)\<lparr>idle_stack := c # idle_stack p\<rparr>"
  obtain q where q: "p' = set_task t None (notify_waiter q)" "q = close_connection c p \<or> q = ?idle"
    using assms(1-3) by (auto simp: release_def Let_def split: if_splits)
  then have same: "waiters q = waiters p" "fut_result q = fut_result p"
    by (auto simp: close_connection_def upd_conn_def)
  show ?thesis using notify_first [of f "waiters q" q] assms(4,5) by (simp add: q(1) notify_waiter_def same)
qed

definition example_release :: "pool option" where
  "example_release = pool_run (pool_init (Some 1) 4 128) [Acquire 1 0, Enter 1 0, Connected 1 0, Acquire 2 1]"

definition release_ready :: "pool option \<Rightarrow> bool" where
  "release_ready r = (case r of None \<Rightarrow> False | Some p \<Rightarrow> acquirers p 1 = Some (Holding 0) \<and> pc_in_use (conn_of p 0)
      \<and> pool_step p (Release 1 2) \<noteq> None \<and> waiters p = [0] \<and> fut_result p 0 = None)"

theorem release_wakes_first_waiter_witness:
  "\<exists>p p'. example_release = Some p \<and> pool_step p (Release 1 2) = Some p' \<and> fut_result p' 0 = Some True"
proof -
  have ok: "release_ready example_release" by code_simp
  then obtain p where e: "example_release = Some p" by (cases example_release) (simp_all add: release_ready_def)
  have p: "example_release = Some p" "acquirers p 1 = Some (Holding 0)" "pc_in_use (conn_of p 0)"
    "pool_step p (Release 1 2) \<noteq> None" "waiters p = [0]" "fut_result p 0 = None"
    using ok by (simp_all add: release_ready_def e)
  then obtain p' where p': "pool_step p (Release 1 2) = Some p'" by blast
  have "fut_result p' 0 = Some True"
    using release_wakes_first_waiter [OF p(2,3) p', of 0] p(5,6) by auto
  then show ?thesis using p(1) p' by blast
qed

text \<open>The handshake that fails gives its slot back without waking anybody: a request that waits only
  because that handshake held the last slot keeps waiting although the pool is empty and could
  create a connection.\<close>

definition stranded :: "pool option \<Rightarrow> bool" where
  "stranded r = (case r of None \<Rightarrow> False | Some p \<Rightarrow> acquirers p 2 = Some (Waiting 0) \<and> fut_result p 0 = None
      \<and> can_create_connection p \<and> card (all_connections p) = 0 \<and> creating p = 0)"

lemma failed_connect_strands_waiter:
  "stranded (pool_run (pool_init (Some 1) 4 128) [Acquire 1 0, Enter 1 0, Acquire 2 1, ConnectFailed 1])"
  by code_simp

end
