(* ===== verification/PyText.thy ===== *)
theory PyText
  imports Prelude
begin

text \<open>
  Python's text operations as the modelled code uses them, on ASCII text: character classes, case, \<open>strip\<close>,
  \<open>int\<close>, \<open>split\<close> at a character, at a separator and at white space.
\<close>

section \<open>Characters\<close>

definition lower_char :: "char \<Rightarrow> char" where
  "lower_char c = (if 65 \<le> (of_char c :: nat) \<and> (of_char c :: nat) \<le> 90 then char_of ((of_char c :: nat) + 32) else c)"

definition upper_char :: "char \<Rightarrow> char" where
  "upper_char c = (if 97 \<le> (of_char c :: nat) \<and> (of_char c :: nat) \<le> 122 then char_of ((of_char c :: nat) - 32) else c)"

definition letter :: "char \<Rightarrow> bool" where
  "letter c = (65 \<le> (of_char c :: nat) \<and> (of_char c :: nat) \<le> 90 \<or> 97 \<le> (of_char c :: nat) \<and> (of_char c :: nat) \<le> 122)"

definition newline :: char where "newline = char_of (10 :: nat)"

section \<open>Numbers and pieces\<close>

text \<open>\<open>strip\<close>, \<open>int(s)\<close> on decimal text, and \<open>split\<close> at one character, once or everywhere.\<close>

definition is_digit :: "char \<Rightarrow> bool" where "is_digit c = (of_char c \<in> {48..(57 :: nat)})"
definition str_space :: "char \<Rightarrow> bool" where "str_space c = (of_char c \<in> {9, 10, 11, 12, 13, 28, 29, 30, 31, 32 :: nat})"

definition strip :: "string \<Rightarrow> string" where
  "strip s = rev (dropWhile str_space (rev (dropWhile str_space s)))"

definition digits_value :: "string \<Rightarrow> int" where
  "digits_value ds = foldl (\<lambda>n c. 10 * n + (of_char c - 48)) 0 ds"

definition parse_int :: "string \<Rightarrow> int result" where
  "parse_int s =
     (let t = strip s; (sign, ds) = (case t of CHR ''-'' # r \<Rightarrow> (-1, r) | CHR ''+'' # r \<Rightarrow> (1, r) | r \<Rightarrow> (1, r))
      in if ds = [] \<or> \<not> list_all is_digit ds then Inl ValueError else Inr (sign * digits_value ds))"

fun split_at :: "char \<Rightarrow> string \<Rightarrow> string \<times> string option" where
  "split_at c [] = ([], None)"
| "split_at c (x # s) = (if x = c then ([], Some s) else (case split_at c s of (a, b) \<Rightarrow> (x # a, b)))"

fun split_all :: "char \<Rightarrow> string \<Rightarrow> string list" where
  "split_all c [] = [[]]"
| "split_all c (x # s) =
     (if x = c then [] # split_all c s
      else (case split_all c s of p # ps \<Rightarrow> (x # p) # ps | [] \<Rightarrow> [[x]]))"

text \<open>\<open>s.startswith(p)\<close>, with the rest; \<open>s.split(sep)\<close> for a nonempty separator; \<open>s.split()\<close>.\<close>

fun after_prefix :: "string \<Rightarrow> string \<Rightarrow> string option" where
  "after_prefix [] s = Some s"
| "after_prefix (p # ps) [] = None"
| "after_prefix (p # ps) (c # s) = (if p = c then after_prefix ps s else None)"

lemma after_prefix_eq: "after_prefix p s = Some r \<longleftrightarrow> s = p @ r"
  by (induction p s rule: after_prefix.induct) auto

function split_on :: "string \<Rightarrow> string \<Rightarrow> string list" where
  "split_on sep [] = [[]]"
| "split_on sep (c # s) =
     (case (if sep = [] then None else after_prefix sep (c # s)) of
        Some r \<Rightarrow> [] # split_on sep r
      | None \<Rightarrow> (case split_on sep s of p # ps \<Rightarrow> (c # p) # ps | [] \<Rightarrow> [[c]]))"
  by pat_completeness auto

termination
proof (relation "measure (\<lambda>(sep, s). length s)")
  fix sep :: string and c s r
  assume "(if sep = [] then None else after_prefix sep (c # s)) = Some r"
  then have "c # s = sep @ r" "sep \<noteq> []" by (auto simp: after_prefix_eq split: if_splits)
  then show "((sep, r), sep, c # s) \<in> measure (\<lambda>(sep, s). length s)" by (cases sep) auto
qed auto

definition words :: "string \<Rightarrow> string list" where
  "words s = filter (\<lambda>w. w \<noteq> []) (split_all (CHR '' '') (map (\<lambda>c. if str_space c then CHR '' '' else c) s))"

lemma split_on_nonempty: "split_on sep s \<noteq> []"
  by (induction sep s rule: split_on.induct) (auto split: list.splits option.splits)

lemma split_all_nonempty: "split_all c s \<noteq> []"
  by (induction s) (auto split: list.splits)

lemma split_all_plain: "c \<notin> set s \<Longrightarrow> split_all c s = [s]"
  by (induction s) auto

lemma split_all_append: "c \<notin> set s \<Longrightarrow> split_all c (s @ c # t) = s # split_all c t"
  by (induction s) auto

lemma split_at_plain: "c \<notin> set s \<Longrightarrow> split_at c s = (s, None)"
  by (induction s) auto

lemma split_at_append: "c \<notin> set s \<Longrightarrow> split_at c (s @ c # t) = (s, Some t)"
  by (induction s) auto

end
