(* ===== verification/HttpProtocol.thy ===== *)
theory HttpProtocol
  imports PyValues PyText
begin

text \<open>
  \<open>endpoint_client/http.py\<close>: the response protocol and the request template.  Bytes are character
  lists.  The HTTP parser is the third-party llhttp: what it calls for a piece of data, and
  whether it raises, is part of the event.  The coroutines are cut at their awaits:
  \<open>read_headers\<close> and \<open>read_body\<close> leave a future that a callback completes, and \<open>iter_body\<close> is the
  generator \<open>gen_resume\<close>, one step from a suspension to the next.
\<close>

section \<open>State\<close>

datatype http_exc = HttpParserError | TransportError string | ConnectionResetError string

datatype 'a future = Pending | Result 'a | Failed http_exc

type_synonym headers = "(string \<times> string) list"

record http_proto =
  hp_status_code :: int
  hp_headers :: headers
  hp_body_chunks :: "string list"
  hp_should_close :: bool
  hp_headers_future :: "(int \<times> headers) future option"
  hp_body_future :: "string future option"
  hp_streaming :: bool
  hp_stream_chunks :: "string list"
  hp_stream_event :: bool
  hp_headers_complete :: bool
  hp_message_complete :: bool
  hp_connection_lost :: bool
  hp_exc :: "http_exc option"

definition http_init :: http_proto where
  "http_init = \<lparr>hp_status_code = 0, hp_headers = [], hp_body_chunks = [], hp_should_close = False,
     hp_headers_future = None, hp_body_future = None, hp_streaming = False, hp_stream_chunks = [],
     hp_stream_event = False, hp_headers_complete = False, hp_message_complete = False,
     hp_connection_lost = False, hp_exc = None\<rparr>"

text \<open>\<open>reset\<close>: everything but \<open>_connection_lost\<close>.\<close>

definition http_reset :: "http_proto \<Rightarrow> http_proto" where
  "http_reset h = http_init\<lparr>hp_connection_lost := hp_connection_lost h\<rparr>"

section \<open>Callbacks\<close>

definition signal_stream_end :: "http_proto \<Rightarrow> http_proto" where
  "signal_stream_end h = (if hp_streaming h then h\<lparr>hp_stream_event := True\<rparr> else h)"

text \<open>Completing a future that nobody created or that is done changes nothing.\<close>

definition settle :: "'a future \<Rightarrow> 'a future option \<Rightarrow> 'a future option" where
  "settle v f = (case f of Some Pending \<Rightarrow> Some v | _ \<Rightarrow> f)"

datatype parser_call =
    OnHeader string string
  | OnHeadersComplete int bool
  | OnBody string
  | OnMessageComplete

fun parser_callback :: "http_proto \<Rightarrow> parser_call \<Rightarrow> http_proto" where
  "parser_callback h (OnHeader n v) = h\<lparr>hp_headers := AList.update (map lower_char n) v (hp_headers h)\<rparr>"
| "parser_callback h (OnHeadersComplete status keep_alive) =
     h\<lparr>hp_status_code := status, hp_should_close := \<not> keep_alive, hp_headers_complete := True,
       hp_headers_future := settle (Result (status, hp_headers h)) (hp_headers_future h)\<rparr>"
| "parser_callback h (OnBody b) =
     (if hp_streaming h then h\<lparr>hp_stream_chunks := hp_stream_chunks h @ [b], hp_stream_event := True\<rparr>
      else h\<lparr>hp_body_chunks := hp_body_chunks h @ [b]\<rparr>)"
| "parser_callback h OnMessageComplete =
     signal_stream_end (h\<lparr>hp_message_complete := True,
       hp_body_future := settle (Result (concat (hp_body_chunks h))) (hp_body_future h)\<rparr>)"

text \<open>\<open>data_received\<close>: the calls the parser makes, then the error it may raise.\<close>

definition data_received :: "parser_call list \<Rightarrow> bool \<Rightarrow> http_proto \<Rightarrow> http_proto" where
  "data_received calls parse_error h =
     (let h1 = foldl parser_callback h calls
      in if parse_error
         then h1\<lparr>hp_exc := Some HttpParserError,
                 hp_headers_future := settle (Failed HttpParserError) (hp_headers_future h1),
                 hp_body_future := settle (Failed HttpParserError) (hp_body_future h1)\<rparr>
         else h1)"

definition connection_lost :: "http_exc option \<Rightarrow> http_proto \<Rightarrow> http_proto" where
  "connection_lost exc h =
     (let h1 = h\<lparr>hp_connection_lost := True, hp_exc := exc\<rparr>;
          h2 = h1\<lparr>hp_headers_future := settle (Failed (case exc of Some e \<Rightarrow> e
                 | None \<Rightarrow> ConnectionResetError ''Connection closed before headers received'')) (hp_headers_future h1)\<rparr>;
          h3 = h2\<lparr>hp_body_future := settle (case exc of Some e \<Rightarrow> Failed e
                 | None \<Rightarrow> if \<not> hp_message_complete h2
                          then Failed (ConnectionResetError ''Connection closed before body complete'')
                          else Result (concat (hp_body_chunks h2))) (hp_body_future h2)\<rparr>
      in signal_stream_end h3)"

definition eof_received :: "http_proto \<Rightarrow> http_proto" where
  "eof_received h = signal_stream_end (h\<lparr>hp_connection_lost := True\<rparr>)"

definition proto_should_close :: "http_proto \<Rightarrow> bool" where
  "proto_should_close h = (hp_should_close h \<or> hp_connection_lost h \<or> hp_exc h \<noteq> None)"

section \<open>Reading\<close>

text \<open>The value, when it is there at once; otherwise the future is created.\<close>

definition read_headers :: "http_proto \<Rightarrow> (int \<times> headers) option \<times> http_proto" where
  "read_headers h =
     (if hp_headers_complete h then (Some (hp_status_code h, hp_headers h), h)
      else (None, h\<lparr>hp_headers_future := Some Pending\<rparr>))"

definition read_body :: "http_proto \<Rightarrow> string option \<times> http_proto" where
  "read_body h =
     (if hp_message_complete h then (Some (concat (hp_body_chunks h)), h)
      else (None, h\<lparr>hp_body_future := Some Pending\<rparr>))"

text \<open>Where \<open>iter_body\<close> is suspended: not started, after the yield of the buffered chunks, after the
  yield of the streamed chunks, in the wait, or ended.\<close>

datatype gen = GenStart | GenBufferedYield | GenStreamYield | GenWait | GenEnd

text \<open>The loop: yield what is there, end, or clear the event and wait.\<close>

definition gen_loop :: "http_proto \<Rightarrow> string list option \<times> gen \<times> http_proto" where
  "gen_loop h =
     (if hp_stream_chunks h \<noteq> [] then (Some (hp_stream_chunks h), GenStreamYield, h)
      else if hp_message_complete h \<or> hp_connection_lost h then (None, GenEnd, h)
      else (None, GenWait, h\<lparr>hp_stream_event := False\<rparr>))"

text \<open>After the buffered chunks.\<close>

definition gen_buffered :: "http_proto \<Rightarrow> string list option \<times> gen \<times> http_proto" where
  "gen_buffered h = (if hp_message_complete h then (None, GenEnd, h) else gen_loop h)"

definition gen_resume :: "gen \<Rightarrow> http_proto \<Rightarrow> string list option \<times> gen \<times> http_proto" where
  "gen_resume g h = (case g of
       GenStart \<Rightarrow>
         (let h1 = h\<lparr>hp_streaming := True\<rparr>
          in if hp_body_chunks h1 \<noteq> [] then (Some (hp_body_chunks h1), GenBufferedYield, h1)
             else gen_buffered h1)
     | GenBufferedYield \<Rightarrow> gen_buffered (h\<lparr>hp_body_chunks := []\<rparr>)
     | GenStreamYield \<Rightarrow> gen_loop (h\<lparr>hp_stream_chunks := []\<rparr>)
     | GenWait \<Rightarrow> gen_loop h
     | GenEnd \<Rightarrow> (None, GenEnd, h))"

text \<open>The consumer of the client takes a batch and comes back for the next one without awaiting, so a
  run of the reader goes on until the generator waits or ends; it yields at most two batches.\<close>

fun pump :: "nat \<Rightarrow> gen \<Rightarrow> http_proto \<Rightarrow> string list list \<times> gen \<times> http_proto" where
  "pump 0 g h = ([], g, h)"
| "pump (Suc n) g h = (case gen_resume g h of
       (None, g', h') \<Rightarrow> ([], g', h')
     | (Some b, g', h') \<Rightarrow> (let (bs, r) = pump n g' h' in (b # bs, r)))"

definition run_reader :: "gen \<Rightarrow> http_proto \<Rightarrow> string list list \<times> gen \<times> http_proto" where
  "run_reader g h = pump 3 g h"

section \<open>The request template\<close>

record request_template =
  static_prefix :: string
  cached_headers :: string
  prefix_streaming :: string
  prefix_non_streaming :: string

definition CRLF :: string where "CRLF = [char_of (13 :: nat), char_of (10 :: nat)]"

definition HEADERS_STREAMING :: string where
  "HEADERS_STREAMING = ''Content-Type: application/json'' @ CRLF @ ''Accept: text/event-stream'' @ CRLF"

definition HEADERS_NON_STREAMING :: string where
  "HEADERS_NON_STREAMING = ''Content-Type: application/json'' @ CRLF @ ''Accept: application/json'' @ CRLF"

definition rebuild_prefixes :: "request_template \<Rightarrow> request_template" where
  "rebuild_prefixes r = (let base = static_prefix r @ cached_headers r
     in r\<lparr>prefix_streaming := base @ HEADERS_STREAMING, prefix_non_streaming := base @ HEADERS_NON_STREAMING\<rparr>)"

definition template_init :: "string \<Rightarrow> request_template" where
  "template_init prefix = rebuild_prefixes
     \<lparr>static_prefix = prefix, cached_headers = [], prefix_streaming = [], prefix_non_streaming = []\<rparr>"

definition from_url :: "string \<Rightarrow> nat \<Rightarrow> string \<Rightarrow> request_template" where
  "from_url host port path =
     (let path = (if path = [] then ''/'' else path);
          request_line = ''POST '' @ path @ '' HTTP/1.1'' @ CRLF;
          host_header = (if port = 80 \<or> port = 443 then ''Host: '' @ host @ CRLF
                         else ''Host: '' @ host @ '':'' @ digits port @ CRLF)
      in template_init (request_line @ host_header))"

definition encode_headers :: "headers \<Rightarrow> string" where
  "encode_headers hs = concat (map (\<lambda>(k, v). k @ '': '' @ v @ CRLF) hs)"

text \<open>\<open>encoded not in cached_headers\<close> is a substring test.\<close>

fun substring :: "'a list \<Rightarrow> 'a list \<Rightarrow> bool" where
  "substring xs [] = (xs = [])"
| "substring xs (y # ys) = (take (length xs) (y # ys) = xs \<or> substring xs ys)"

definition cache_headers :: "headers \<Rightarrow> request_template \<Rightarrow> request_template" where
  "cache_headers hs r =
     (let e = encode_headers hs
      in if \<not> substring e (cached_headers r)
         then rebuild_prefixes (r\<lparr>cached_headers := cached_headers r @ e\<rparr>) else r)"

definition build_request :: "string \<Rightarrow> bool \<Rightarrow> headers option \<Rightarrow> request_template \<Rightarrow> string" where
  "build_request body streaming extra_headers r =
     (let prefix = (if streaming then prefix_streaming r else prefix_non_streaming r);
          content_length = ''Content-Length: '' @ digits (length body) @ CRLF @ CRLF
      in (case extra_headers of
            Some (h # hs) \<Rightarrow> prefix @ encode_headers (h # hs) @ content_length @ body
          | _ \<Rightarrow> prefix @ content_length @ body))"

section \<open>Reading a stream\<close>

datatype http_event =
    Data "parser_call list" bool
  | Lost "http_exc option"
  | Eof
  | RunReader

fun body_of_call :: "parser_call \<Rightarrow> string" where
  "body_of_call (OnBody b) = b"
| "body_of_call _ = []"

fun body_of_event :: "http_event \<Rightarrow> string" where
  "body_of_event (Data calls _) = concat (map body_of_call calls)"
| "body_of_event _ = []"

text \<open>A request in flight: the protocol, its reader and the batches it was given.  The reader runs when
  it has not started or when the event it waits for is set.\<close>

type_synonym stream_state = "http_proto \<times> gen \<times> string list list"

definition can_run :: "gen \<Rightarrow> http_proto \<Rightarrow> bool" where
  "can_run g h = (case g of GenWait \<Rightarrow> hp_stream_event h | GenEnd \<Rightarrow> False | _ \<Rightarrow> True)"

fun stream_step :: "stream_state \<Rightarrow> http_event \<Rightarrow> stream_state" where
  "stream_step (h, g, out) (Data calls err) = (data_received calls err h, g, out)"
| "stream_step (h, g, out) (Lost exc) = (connection_lost exc h, g, out)"
| "stream_step (h, g, out) Eof = (eof_received h, g, out)"
| "stream_step (h, g, out) RunReader =
     (if can_run g h then (let (bs, g', h') = run_reader g h in (h', g', out @ bs)) else (h, g, out))"

definition stream_run :: "http_event list \<Rightarrow> stream_state" where
  "stream_run es = foldl stream_step (http_init, GenStart, []) es"

text \<open>
  Between events the reader has not started (everything is buffered), waits or has ended; while it
  waits with its event clear there is nothing it could be woken for.
\<close>

definition stream_inv :: "stream_state \<Rightarrow> bool" where
  "stream_inv st = (case st of (h, g, out) \<Rightarrow>
     (case g of
        GenStart \<Rightarrow> \<not> hp_streaming h \<and> hp_stream_chunks h = [] \<and> out = []
      | GenWait \<Rightarrow> hp_streaming h \<and> hp_body_chunks h = []
          \<and> (\<not> hp_stream_event h \<longrightarrow> hp_stream_chunks h = [] \<and> \<not> hp_message_complete h \<and> \<not> hp_connection_lost h)
      | GenEnd \<Rightarrow> hp_streaming h \<and> (hp_message_complete h \<or> hp_connection_lost h)
      | _ \<Rightarrow> False))"

definition pending :: "http_proto \<Rightarrow> string" where
  "pending h = concat (hp_body_chunks h) @ concat (hp_stream_chunks h)"

definition delivered :: "string list list \<Rightarrow> string" where
  "delivered out = concat (map concat out)"

lemma stream_inv_call:
  assumes "stream_inv (h, g, out)"
  shows "stream_inv (parser_callback h c, g, out)"
  using assms by (cases c; cases g) (auto simp: stream_inv_def signal_stream_end_def)

lemma pending_call:
  assumes "stream_inv (h, g, out)"
  shows "pending (parser_callback h c) = pending h @ body_of_call c"
  using assms by (cases c; cases g) (auto simp: stream_inv_def signal_stream_end_def pending_def)

lemma stream_inv_calls:
  "stream_inv (h, g, out) \<Longrightarrow> stream_inv (foldl parser_callback h calls, g, out)
     \<and> pending (foldl parser_callback h calls) = pending h @ concat (map body_of_call calls)"
proof (induction calls arbitrary: h)
  case (Cons c calls)
  from Cons.IH [OF stream_inv_call [OF Cons.prems]] pending_call [OF Cons.prems] show ?case by simp
qed simp

lemma data_received_inv:
  assumes "stream_inv (h, g, out)"
  shows "stream_inv (data_received calls err h, g, out)
    \<and> pending (data_received calls err h) = pending h @ concat (map body_of_call calls)"
proof -
  have eq: "stream_inv (h'\<lparr>hp_exc := e, hp_headers_future := a, hp_body_future := b\<rparr>, g, out) = stream_inv (h', g, out)"
    "pending (h'\<lparr>hp_exc := e, hp_headers_future := a, hp_body_future := b\<rparr>) = pending h'" for h' e a b
    by (cases g; simp add: stream_inv_def pending_def)+
  show ?thesis using stream_inv_calls [OF assms, of calls] by (simp add: data_received_def Let_def eq)
qed

lemma lost_inv:
  assumes "stream_inv (h, g, out)"
  shows "stream_inv (connection_lost exc h, g, out) \<and> pending (connection_lost exc h) = pending h"
    and "stream_inv (eof_received h, g, out) \<and> pending (eof_received h) = pending h"
  using assms by (cases g; simp add: stream_inv_def connection_lost_def eof_received_def pending_def
      signal_stream_end_def Let_def)+

text \<open>One run of the reader hands over everything that is pending and then waits or ends.\<close>

lemma gen_loop_run:
  assumes "hp_streaming h" "hp_body_chunks h = []"
  shows "\<exists>bs g' h'. pump (Suc (Suc n)) GenWait h = (bs, g', h') \<and> stream_inv (h', g', out)
    \<and> delivered bs = pending h \<and> pending h' = [] \<and> g' \<noteq> GenStart"
  using assms by (cases "hp_stream_chunks h = []"; cases "hp_message_complete h"; cases "hp_connection_lost h")
    (simp_all add: gen_resume_def gen_loop_def stream_inv_def delivered_def pending_def)

lemma run_reader_inv:
  assumes "stream_inv (h, g, out)" "can_run g h" "run_reader g h = (bs, g', h')"
  shows "stream_inv (h', g', out @ bs) \<and> delivered bs = pending h \<and> pending h' = [] \<and> g' \<noteq> GenStart"
proof (cases g)
  case GenStart
  then have h: "\<not> hp_streaming h" "hp_stream_chunks h = []" "out = []" using assms(1) by (auto simp: stream_inv_def)
  have r: "pump (Suc (Suc (Suc 0))) GenStart h = (bs, g', h')"
    using assms(3) GenStart by (simp only: run_reader_def numeral_3_eq_3)
  show ?thesis
    using r h
    by (cases "hp_body_chunks h = []"; cases "hp_message_complete h"; cases "hp_connection_lost h")
      (auto simp: gen_resume_def gen_buffered_def gen_loop_def stream_inv_def delivered_def pending_def)
next
  case GenWait
  have r: "pump (Suc (Suc (Suc 0))) GenWait h = (bs, g', h')"
    using assms(3) GenWait by (simp only: run_reader_def numeral_3_eq_3)
  have "hp_streaming h" "hp_body_chunks h = []" using assms(1) GenWait by (auto simp: stream_inv_def)
  from gen_loop_run [OF this, of "Suc 0" "out @ bs"] show ?thesis using r by auto
qed (use assms in \<open>auto simp: stream_inv_def can_run_def\<close>)

lemma stream_step_inv:
  assumes "stream_inv (h, g, out)" "stream_step (h, g, out) e = (h', g', out')"
  shows "stream_inv (h', g', out') \<and> delivered out' @ pending h' = delivered out @ pending h @ body_of_event e"
proof (cases e)
  case RunReader
  show ?thesis
  proof (cases "can_run g h")
    case True
    obtain bs g1 h1 where r: "run_reader g h = (bs, g1, h1)" by (metis prod_cases3)
    then have "h' = h1" "g' = g1" "out' = out @ bs" using assms(2) RunReader True by auto
    then show ?thesis using run_reader_inv [OF assms(1) True r] RunReader by (simp add: delivered_def)
  qed (use assms RunReader in auto)
qed (use assms data_received_inv [OF assms(1)] lost_inv [OF assms(1)] in auto)

lemma stream_run_inv:
  "stream_run es = (h, g, out) \<Longrightarrow>
     stream_inv (h, g, out) \<and> delivered out @ pending h = concat (map body_of_event es)"
proof (induction es arbitrary: h g out rule: rev_induct)
  case Nil
  then show ?case by (auto simp: stream_run_def stream_inv_def http_init_def delivered_def pending_def)
next
  case (snoc e es)
  obtain h0 g0 out0 where s: "stream_run es = (h0, g0, out0)" by (metis prod_cases3)
  have "stream_step (h0, g0, out0) e = (h, g, out)" using snoc.prems s by (simp add: stream_run_def)
  from stream_step_inv [OF _ this] snoc.IH [OF s] show ?case by simp
qed

section \<open>Reading a buffered body\<close>

fun proto_event :: "http_proto \<Rightarrow> http_event \<Rightarrow> http_proto" where
  "proto_event h (Data calls err) = data_received calls err h"
| "proto_event h (Lost exc) = connection_lost exc h"
| "proto_event h Eof = eof_received h"
| "proto_event h RunReader = h"

definition proto_run :: "http_proto \<Rightarrow> http_event list \<Rightarrow> http_proto" where
  "proto_run h es = foldl proto_event h es"

fun calls_of :: "http_event \<Rightarrow> parser_call list" where
  "calls_of (Data calls _) = calls"
| "calls_of _ = []"

text \<open>The parser reports no body after the end of the message (the protocol serves one response
  between two resets).\<close>

fun one_message :: "parser_call list \<Rightarrow> bool" where
  "one_message [] = True"
| "one_message (OnMessageComplete # cs) = list_all (\<lambda>c. body_of_call c = []) cs"
| "one_message (c # cs) = one_message cs"

text \<open>With the calls seen so far: what is buffered, and what the body future may hold.\<close>

definition buffered_inv :: "parser_call list \<Rightarrow> http_proto \<Rightarrow> bool" where
  "buffered_inv seen h = (\<not> hp_streaming h \<and> concat (hp_body_chunks h) = concat (map body_of_call seen)
     \<and> (hp_message_complete h \<longleftrightarrow> OnMessageComplete \<in> set seen)
     \<and> (hp_message_complete h \<longrightarrow> hp_body_future h \<noteq> Some Pending)
     \<and> (\<forall>b. hp_body_future h = Some (Result b) \<longrightarrow> hp_message_complete h \<and> b = concat (map body_of_call seen)))"

lemma one_message_snoc:
  "one_message (cs @ [c]) \<Longrightarrow> OnMessageComplete \<in> set cs \<Longrightarrow> body_of_call c = []"
  by (induction cs rule: one_message.induct) auto

lemma one_message_prefix: "one_message (xs @ ys) \<Longrightarrow> one_message xs"
  by (induction xs rule: one_message.induct) auto

lemma settle_pending: "settle (Result v) f \<noteq> Some Pending" "settle (Failed e) f \<noteq> Some Pending"
  by (auto simp: settle_def split: option.splits future.splits)

lemma settle_result:
  "settle (Failed e) f = Some (Result b) \<Longrightarrow> f = Some (Result b)"
  "settle (Result v) f = Some (Result b) \<Longrightarrow> f = Some (Result b) \<or> v = b"
  by (auto simp: settle_def split: option.splits future.splits)

lemma buffered_call:
  assumes "buffered_inv seen h" "one_message (seen @ [c])"
  shows "buffered_inv (seen @ [c]) (parser_callback h c)"
proof (cases c)
  case (OnBody b)
  then show ?thesis
    using assms(1) one_message_snoc [OF assms(2)] by (auto simp: buffered_inv_def)
next
  case OnMessageComplete
  then show ?thesis
    using assms(1) by (auto simp: buffered_inv_def signal_stream_end_def settle_pending dest: settle_result)
qed (use assms(1) in \<open>auto simp: buffered_inv_def\<close>)

lemma buffered_calls:
  "buffered_inv seen h \<Longrightarrow> one_message (seen @ cs) \<Longrightarrow> buffered_inv (seen @ cs) (foldl parser_callback h cs)"
proof (induction cs arbitrary: seen h)
  case (Cons c cs)
  have "one_message (seen @ [c])" using one_message_prefix [of "seen @ [c]" cs] Cons.prems(2) by simp
  from Cons.IH [OF buffered_call [OF Cons.prems(1) this]] Cons.prems(2) show ?case by simp
qed simp

lemma buffered_event:
  assumes "buffered_inv seen h" "one_message (seen @ calls_of e)"
  shows "buffered_inv (seen @ calls_of e) (proto_event h e)"
proof (cases e)
  case (Data calls err)
  note inv = buffered_calls [OF assms(1), of calls]
  show ?thesis
    using inv assms(2) unfolding Data
    by (auto simp: data_received_def Let_def buffered_inv_def settle_pending dest: settle_result)
next
  case (Lost exc)
  then show ?thesis using assms(1)
    by (cases exc) (auto simp: connection_lost_def Let_def signal_stream_end_def buffered_inv_def settle_pending
        dest: settle_result)
qed (use assms(1) in \<open>auto simp: eof_received_def signal_stream_end_def buffered_inv_def\<close>)

lemma buffered_run:
  "buffered_inv seen h \<Longrightarrow> one_message (seen @ concat (map calls_of es)) \<Longrightarrow>
     buffered_inv (seen @ concat (map calls_of es)) (proto_run h es)"
proof (induction es arbitrary: seen h)
  case (Cons e es)
  have "one_message (seen @ calls_of e)"
    using one_message_prefix [of "seen @ calls_of e"] Cons.prems(2) by simp
  from Cons.IH [OF buffered_event [OF Cons.prems(1) this]] Cons.prems(2) show ?case
    by (simp add: proto_run_def)
qed (simp add: proto_run_def)

definition ends_connection :: "http_event \<Rightarrow> bool" where
  "ends_connection e = (case e of Lost _ \<Rightarrow> True | Data _ err \<Rightarrow> err | _ \<Rightarrow> False)"

lemma callback_settled: "hp_body_future h \<noteq> Some Pending \<Longrightarrow> hp_body_future (parser_callback h c) \<noteq> Some Pending"
  by (cases c) (auto simp: signal_stream_end_def settle_pending)

lemma callbacks_settled: "hp_body_future h \<noteq> Some Pending \<Longrightarrow> hp_body_future (foldl parser_callback h cs) \<noteq> Some Pending"
  by (rule foldl_invariant [where P = "\<lambda>h. hp_body_future h \<noteq> Some Pending"]) (assumption, rule callback_settled)

lemma event_settled:
  "hp_body_future h \<noteq> Some Pending \<or> ends_connection e \<Longrightarrow> hp_body_future (proto_event h e) \<noteq> Some Pending"
  by (cases e) (auto simp: ends_connection_def data_received_def connection_lost_def eof_received_def
      signal_stream_end_def Let_def settle_pending callbacks_settled split: option.splits)

lemma run_settled: "e \<in> set es \<Longrightarrow> ends_connection e \<Longrightarrow> hp_body_future (proto_run h es) \<noteq> Some Pending"
proof (induction es rule: rev_induct)
  case (snoc a es)
  have "proto_run h (es @ [a]) = proto_event (proto_run h es) a" by (simp add: proto_run_def)
  then show ?case using event_settled [of "proto_run h es" a] snoc by auto
qed simp

section \<open>What the protocol promises\<close>

text \<open>C8. The bytes received of a streamed body reach its reader in order and once: whatever pieces the network
  delivers and whenever the reader gets to run, the batches it was given followed by what is still pending are
  exactly the bytes received, and its next run hands over all that is pending.  The reader ends only when the
  message is complete or the connection is lost, and it sleeps only while nothing is pending, the message is not
  complete and the connection is not lost.  (That the body is whole is not promised: a lost connection ends the
  reader like a complete message, and a parser error alone neither ends nor wakes it.)\<close>

theorem received_bytes_reach_the_reader:
  assumes "stream_run es = (h, g, out)"
  shows "delivered out @ pending h = concat (map body_of_event es)
     \<and> (can_run g h \<longrightarrow> (\<exists>h' g' bs. stream_step (h, g, out) RunReader = (h', g', out @ bs)
          \<and> pending h' = [] \<and> delivered (out @ bs) = concat (map body_of_event es)))
     \<and> (g = GenEnd \<longrightarrow> hp_message_complete h \<or> hp_connection_lost h)
     \<and> (g \<noteq> GenEnd \<longrightarrow> \<not> can_run g h \<longrightarrow>
          pending h = [] \<and> \<not> hp_message_complete h \<and> \<not> hp_connection_lost h)"
proof -
  note inv = stream_run_inv [OF assms]
  have "\<exists>h' g' bs. stream_step (h, g, out) RunReader = (h', g', out @ bs)
      \<and> pending h' = [] \<and> delivered (out @ bs) = concat (map body_of_event es)" if "can_run g h"
  proof -
    obtain bs g' h' where r: "run_reader g h = (bs, g', h')" by (metis prod_cases3)
    then have "stream_step (h, g, out) RunReader = (h', g', out @ bs)" using that by simp
    then show ?thesis using run_reader_inv [OF conjunct1 [OF inv] that r] inv by (auto simp: delivered_def)
  qed
  moreover have "pending h = [] \<and> \<not> hp_message_complete h \<and> \<not> hp_connection_lost h" if "g \<noteq> GenEnd" "\<not> can_run g h"
    using inv that by (cases g) (auto simp: stream_inv_def can_run_def pending_def)
  moreover have "hp_message_complete h \<or> hp_connection_lost h" if "g = GenEnd"
    using inv that by (simp add: stream_inv_def)
  ultimately show ?thesis using inv by blast
qed

definition example_stream :: "http_event list" where
  "example_stream = [Data [OnHeadersComplete 200 True, OnBody ''ab''] False, RunReader, Data [OnBody ''cd''] False]"

theorem received_bytes_reach_the_reader_witness:
  "\<exists>h g out. stream_run example_stream = (h, g, out) \<and> delivered out @ pending h = ''abcd'' \<and> can_run g h"
proof -
  obtain h g out where r: "stream_run example_stream = (h, g, out)" by (metis prod_cases3)
  have "(case stream_run example_stream of (h, g, out) \<Rightarrow> can_run g h)" by code_simp
  then have "can_run g h" by (simp add: r)
  moreover have "concat (map body_of_event example_stream) = ''abcd''" by (simp add: example_stream_def)
  ultimately show ?thesis using r received_bytes_reach_the_reader [OF r] by auto
qed

text \<open>A buffered body is the whole body or an error: whenever \<open>read_body\<close> is called, it gives at once
  the complete body of a complete message; otherwise its future can only ever hold that body, once
  the message is complete, and when the message completes, the parser fails or the connection is
  lost the future is settled, so the reader does not hang.\<close>

theorem buffered_body_whole_or_error:
  assumes "one_message (concat (map calls_of (es1 @ es2)))"
    and "read_body (proto_run http_init es1) = (v, h)" and "h' = proto_run h es2"
  shows "(\<forall>b. v = Some b \<longrightarrow> OnMessageComplete \<in> set (concat (map calls_of es1)) \<and> b = concat (map body_of_event es1))
     \<and> (v = None \<longrightarrow>
          (\<forall>b. hp_body_future h' = Some (Result b) \<longrightarrow>
             hp_message_complete h' \<and> b = concat (map body_of_event (es1 @ es2)))
        \<and> (hp_message_complete h' \<or> (\<exists>e\<in>set es2. ends_connection e) \<longrightarrow> hp_body_future h' \<noteq> Some Pending))"
proof -
  have body: "concat (map body_of_call (concat (map calls_of es))) = concat (map body_of_event es)" for es
  proof (induction es)
    case (Cons e es)
    then show ?case by (cases e) auto
  qed simp
  have "buffered_inv [] http_init" by (simp add: buffered_inv_def http_init_def)
  from buffered_run [OF this, of es1] assms(1)
  have b1: "buffered_inv (concat (map calls_of es1)) (proto_run http_init es1)"
    using one_message_prefix [of "concat (map calls_of es1)"] by simp
  have now: "OnMessageComplete \<in> set (concat (map calls_of es1)) \<and> b = concat (map body_of_event es1)" if "v = Some b" for b
    using b1 assms(2) that unfolding read_body_def buffered_inv_def body by (auto split: if_splits)
  moreover have "(\<forall>b. hp_body_future h' = Some (Result b) \<longrightarrow>
         hp_message_complete h' \<and> b = concat (map body_of_event (es1 @ es2)))
      \<and> (hp_message_complete h' \<or> (\<exists>e\<in>set es2. ends_connection e) \<longrightarrow> hp_body_future h' \<noteq> Some Pending)"
    if "v = None"
  proof -
    have h: "h = (proto_run http_init es1)\<lparr>hp_body_future := Some Pending\<rparr>" "\<not> hp_message_complete (proto_run http_init es1)"
      using assms(2) that by (auto simp: read_body_def split: if_splits)
    have "buffered_inv (concat (map calls_of es1)) h" using b1 h by (auto simp: buffered_inv_def)
    from buffered_run [OF this, of es2] assms(1,3)
    have b2: "buffered_inv (concat (map calls_of (es1 @ es2))) h'" by simp
    moreover have "hp_body_future h' \<noteq> Some Pending" if "\<exists>e\<in>set es2. ends_connection e"
      using run_settled that assms(3) by auto
    ultimately show ?thesis unfolding buffered_inv_def body by blast
  qed
  ultimately show ?thesis by blast
qed

theorem buffered_body_whole_or_error_witness:
  "hp_body_future (proto_run (snd (read_body (proto_run http_init [Data [OnHeadersComplete 200 True, OnBody ''ab''] False])))
     [Lost None]) \<noteq> Some Pending"
proof -
  let ?e1 = "[Data [OnHeadersComplete 200 True, OnBody ''ab''] False]"
  obtain v h where r: "read_body (proto_run http_init ?e1) = (v, h)" by force
  have "fst (read_body (proto_run http_init ?e1)) = None" by code_simp
  then have "v = None" by (simp add: r)
  with buffered_body_whole_or_error [OF _ r refl, of "[Lost None]"] show ?thesis
    by (auto simp: r ends_connection_def)
qed

text \<open>The streamed counterpart is weaker than the buffered one: when the connection is lost in the middle
  of the message the reader ends as if the message were complete, and a parser error does not wake
  it at all.\<close>

definition ended_without_message :: "stream_state \<Rightarrow> bool" where
  "ended_without_message st = (case st of (h, g, out) \<Rightarrow> g = GenEnd \<and> \<not> hp_message_complete h)"

definition asleep_after_error :: "stream_state \<Rightarrow> bool" where
  "asleep_after_error st = (case st of (h, g, out) \<Rightarrow> g = GenWait \<and> \<not> can_run g h \<and> hp_exc h \<noteq> None)"

lemma truncated_stream_ends_normally:
  "ended_without_message (stream_run
     [Data [OnHeadersComplete 200 True, OnBody ''ab''] False, RunReader, Lost None, RunReader])"
  by code_simp

lemma parser_error_leaves_reader_asleep:
  "asleep_after_error (stream_run
     [Data [OnHeadersComplete 200 True, OnBody ''ab''] False, RunReader, Data [] True, RunReader])"
  by code_simp

end
