(* ===== verification/SseStream.thy ===== *)
theory SseStream
  imports HttpProtocol "HOL-Library.Sublist"
begin

text \<open>
  How a worker takes a streamed response apart: \<open>Worker._iter_sse_lines\<close>
  (\<open>endpoint_client/worker.py\<close>), which cuts the byte stream at blank lines, and
  \<open>HttpRequestAdapter.parse_sse_chunk\<close> (\<open>endpoint_client/adapter_protocol.py\<close>), which finds the JSON
  documents with the pattern \<open>data:\s*(\{[^\n]+\})\<close> and decodes them.  The decoder is msgspec's; it
  is the parameter \<open>decode\<close>, which raises (\<open>Inl\<close>), filters the frame out (\<open>Inr None\<close>) or gives a
  chunk object.
\<close>

section \<open>The pattern\<close>

definition NL :: char where "NL = char_of (10 :: nat)"

definition is_space :: "char \<Rightarrow> bool" where
  "is_space c = (of_char c \<in> {9 :: nat, 10, 11, 12, 13, 32})"

definition data_key :: string where "data_key = ''data:''"

text \<open>The last position after the first at which the line has a closing brace.\<close>

fun last_brace :: "nat \<Rightarrow> string \<Rightarrow> nat option" where
  "last_brace i [] = None"
| "last_brace i (c # cs) = (case last_brace (Suc i) cs of
       Some j \<Rightarrow> Some j
     | None \<Rightarrow> if c = CHR ''}'' \<and> 1 \<le> i then Some i else None)"

text \<open>A match at the start of the buffer: the document and what follows the match.\<close>

definition match_at :: "string \<Rightarrow> (string \<times> string) option" where
  "match_at s =
     (if take 5 s = data_key then
        (case dropWhile is_space (drop 5 s) of
           [] \<Rightarrow> None
         | c # t \<Rightarrow>
             if c = CHR ''{'' then
               (case last_brace 0 (takeWhile (\<lambda>c. c \<noteq> NL) t) of
                  Some j \<Rightarrow> Some (c # take (Suc j) t, drop (Suc j) t)
                | None \<Rightarrow> None)
             else None)
      else None)"

lemma match_at_shorter: "match_at s = Some (d, r) \<Longrightarrow> length r < length s"
proof -
  assume m: "match_at s = Some (d, r)"
  then obtain t j where t: "dropWhile is_space (drop 5 s) = CHR ''{'' # t" "r = drop (Suc j) t"
    by (auto simp: match_at_def split: if_splits list.splits option.splits)
  have "length r \<le> length t" using t(2) by simp
  also have "\<dots> < length (dropWhile is_space (drop 5 s))" using t(1) by simp
  also have "\<dots> \<le> length (drop 5 s)" by (rule length_dropWhile_le)
  also have "\<dots> \<le> length s" by simp
  finally show ?thesis .
qed

text \<open>\<open>SSE_DATA_PATTERN.findall\<close>.\<close>

function findall :: "string \<Rightarrow> string list" where
  "findall [] = []"
| "findall (c # cs) = (case match_at (c # cs) of
       Some (d, r) \<Rightarrow> d # findall r
     | None \<Rightarrow> findall cs)"
  by pat_completeness auto
termination
  by (relation "measure length") (auto dest: match_at_shorter)

section \<open>Decoding\<close>

text \<open>The loop of \<open>parse_sse_chunk\<close>; a document that does not decode ends it with what it has.\<close>

fun decode_docs :: "(string \<Rightarrow> 'e + 'c option) \<Rightarrow> string list \<Rightarrow> 'c list" where
  "decode_docs decode [] = []"
| "decode_docs decode (d # ds) = (case decode d of
       Inl _ \<Rightarrow> []
     | Inr None \<Rightarrow> decode_docs decode ds
     | Inr (Some c) \<Rightarrow> c # decode_docs decode ds)"

definition parse_sse_chunk :: "(string \<Rightarrow> 'e + 'c option) \<Rightarrow> string \<Rightarrow> nat \<Rightarrow> 'c list" where
  "parse_sse_chunk decode buffer end_pos = decode_docs decode (findall (take end_pos buffer))"

section \<open>Cutting the stream\<close>

text \<open>\<open>buffer.rfind(b"\n\n")\<close>.\<close>

fun rfind_blank :: "string \<Rightarrow> nat option" where
  "rfind_blank [] = None"
| "rfind_blank (c # cs) = (case rfind_blank cs of
       Some j \<Rightarrow> Some (Suc j)
     | None \<Rightarrow> if c = NL \<and> cs \<noteq> [] \<and> hd cs = NL then Some 0 else None)"

text \<open>One batch of network chunks: the incomplete rest, and the chunk objects yielded (an empty batch is
  not yielded, which the consumer cannot tell from yielding nothing).\<close>

definition sse_step ::
    "(string \<Rightarrow> 'e + 'c option) \<Rightarrow> string \<times> 'c list list \<Rightarrow> string list \<Rightarrow> string \<times> 'c list list" where
  "sse_step decode st chunks =
     (case st of (incomplete_chunk, out) \<Rightarrow>
        let buffer = incomplete_chunk @ concat chunks
        in (case rfind_blank buffer of
              None \<Rightarrow> (buffer, out)
            | Some p \<Rightarrow>
                (let parsed = parse_sse_chunk decode buffer p
                 in (drop (p + 2) buffer, if parsed \<noteq> [] then out @ [parsed] else out))))"

definition sse_end :: "(string \<Rightarrow> 'e + 'c option) \<Rightarrow> string \<times> 'c list list \<Rightarrow> 'c list list" where
  "sse_end decode st =
     (case st of (incomplete_chunk, out) \<Rightarrow>
        if incomplete_chunk \<noteq> []
        then (let parsed = parse_sse_chunk decode incomplete_chunk (length incomplete_chunk)
              in if parsed \<noteq> [] then out @ [parsed] else out)
        else out)"

definition iter_sse_lines :: "(string \<Rightarrow> 'e + 'c option) \<Rightarrow> string list list \<Rightarrow> 'c list list" where
  "iter_sse_lines decode batches = sse_end decode (foldl (sse_step decode) ([], []) batches)"

section \<open>The pattern does not look across a blank line\<close>

text \<open>A \<open>data:\<close> field whose value has not begun.\<close>

definition dangling :: "string \<Rightarrow> bool" where
  "dangling s = list_ex (\<lambda>t. take 5 t = data_key \<and> list_all is_space (drop 5 t)) (suffixes s)"

text \<open>Every blank line of the stream comes after complete fields.\<close>

definition frames_closed :: "string \<Rightarrow> bool" where
  "frames_closed s = list_all (\<lambda>k. take 2 (drop k s) = [NL, NL] \<longrightarrow> \<not> dangling (take k s)) [0..<length s]"

lemma dangling_iff: "dangling s \<longleftrightarrow> (\<exists>t. suffix t s \<and> take 5 t = data_key \<and> list_all is_space (drop 5 t))"
  by (auto simp: dangling_def list_ex_iff)

lemma frames_closed_cut: "frames_closed s \<Longrightarrow> s = a @ NL # NL # b \<Longrightarrow> \<not> dangling a"
proof -
  assume f: "frames_closed s" and s: "s = a @ NL # NL # b"
  have "length a \<in> set [0..<length s]" "take 2 (drop (length a) s) = [NL, NL]" "take (length a) s = a"
    by (simp_all add: s)
  then show ?thesis using f by (fastforce simp: frames_closed_def list_all_iff)
qed

lemma dangling_suffix: "\<not> dangling s \<Longrightarrow> suffix t s \<Longrightarrow> \<not> dangling t"
  by (meson dangling_iff suffix_order.trans)

lemma space_NL [simp]: "is_space NL"
  by (simp add: is_space_def NL_def)

lemma takeWhile_NL: "takeWhile (\<lambda>c. c \<noteq> NL) (t @ NL # u) = takeWhile (\<lambda>c. c \<noteq> NL) t"
  by (induction t) auto

lemma data_key_NL: "NL \<notin> set data_key" "length data_key = 5"
  by code_simp+

lemma take_key_append: "take 5 (a @ NL # u) = data_key \<longleftrightarrow> take 5 a = data_key"
proof (cases "5 \<le> length a")
  case False
  then obtain m where m: "5 - length a = Suc m" by (cases "5 - length a") auto
  then have "NL \<in> set (take 5 (a @ NL # u))" by simp
  then have "take 5 (a @ NL # u) \<noteq> data_key" using data_key_NL(1) by metis
  moreover have "length (take 5 a) \<noteq> length data_key" using False data_key_NL(2) by simp
  then have "take 5 a \<noteq> data_key" by metis
  ultimately show ?thesis by blast
qed simp

lemma last_brace_bound: "last_brace i cs = Some j \<Longrightarrow> j < i + length cs"
  by (induction i cs rule: last_brace.induct) (auto split: option.splits if_splits)

lemma match_at_append:
  assumes "\<not> dangling a"
  shows "match_at (a @ NL # u) = map_option (\<lambda>(d, r). (d, r @ NL # u)) (match_at a)"
proof (cases "take 5 a = data_key")
  case key: True
  have len: "5 \<le> length a" using key data_key_NL(2) by (metis length_take min_def linear)
  have "\<not> list_all is_space (drop 5 a)"
    using assms key unfolding dangling_iff by blast
  then obtain x where x: "x \<in> set (drop 5 a)" "\<not> is_space x" by (auto simp: list_all_iff)
  then have dw: "dropWhile is_space (drop 5 a @ NL # u) = dropWhile is_space (drop 5 a) @ NL # u"
    by (rule dropWhile_append1)
  obtain c t where ct: "dropWhile is_space (drop 5 a) = c # t"
    using x by (cases "dropWhile is_space (drop 5 a)") (auto simp: dropWhile_eq_Nil_conv)
  have bound: "Suc j \<le> length t" if "last_brace 0 (takeWhile (\<lambda>c. c \<noteq> NL) t) = Some j" for j
    using last_brace_bound [OF that] length_takeWhile_le [of "\<lambda>c. c \<noteq> NL" t] by linarith
  show ?thesis
    using key len bound
    by (simp add: match_at_def take_key_append dw ct takeWhile_NL split: option.splits)
next
  case False
  then show ?thesis using take_key_append [of a u] by (simp only: match_at_def if_False) simp
qed

lemma match_at_suffix: "match_at s = Some (d, r) \<Longrightarrow> suffix r s"
proof -
  assume m: "match_at s = Some (d, r)"
  then obtain t j where t: "dropWhile is_space (drop 5 s) = CHR ''{'' # t" "r = drop (Suc j) t"
    by (auto simp: match_at_def split: if_splits list.splits option.splits)
  have "suffix r t" unfolding t(2) by (rule suffix_drop)
  also have "suffix t (CHR ''{'' # t)" by (rule suffix_ConsI) simp
  also have "suffix (CHR ''{'' # t) (drop 5 s)" unfolding t(1) [symmetric] by (rule suffix_dropWhile)
  also have "suffix (drop 5 s) s" by (rule suffix_drop)
  finally show ?thesis .
qed

lemma findall_NL: "findall (NL # u) = findall u"
proof -
  have "take 5 (NL # u) = NL # take 4 u" by simp
  then have "take 5 (NL # u) \<noteq> data_key" using data_key_NL(1) by (metis list.set_intros(1))
  then have "match_at (NL # u) = None" by (simp only: match_at_def if_False)
  then show ?thesis by simp
qed

lemma findall_append: "\<not> dangling a \<Longrightarrow> findall (a @ NL # u) = findall a @ findall u"
proof (induction a rule: findall.induct)
  case 1
  show ?case by (simp only: append_Nil findall_NL findall.simps(1))
next
  case (2 c cs)
  note m = match_at_append [OF 2(3), of u]
  show ?case
  proof (cases "match_at (c # cs)")
    case None
    have "\<not> dangling cs" using dangling_suffix [OF 2(3)] by (simp add: suffix_ConsI)
    from 2(1) [OF None this] m None show ?thesis by simp
  next
    case (Some x)
    then obtain d r where x: "match_at (c # cs) = Some (d, r)" by (cases x) auto
    have "\<not> dangling r" by (rule dangling_suffix [OF 2(3) match_at_suffix [OF x]])
    from 2(2) [OF x refl this] m x show ?thesis by simp
  qed
qed

lemma findall_blank: "\<not> dangling a \<Longrightarrow> findall (a @ NL # NL # u) = findall a @ findall u"
  by (simp only: findall_append findall_NL not_False_eq_True)

lemma rfind_blank_split:
  "rfind_blank b = Some k \<Longrightarrow> b = take k b @ NL # NL # drop (k + 2) b"
proof (induction b arbitrary: k)
  case (Cons c cs)
  show ?case
  proof (cases "rfind_blank cs")
    case None
    then show ?thesis using Cons.prems by (cases cs) (auto split: if_splits)
  next
    case (Some j)
    then show ?thesis using Cons by auto
  qed
qed simp

lemma decode_docs_append:
  "\<forall>d\<in>set ds. \<exists>c. decode d = Inr c \<Longrightarrow> decode_docs decode (ds @ es) = decode_docs decode ds @ decode_docs decode es"
  by (induction ds) (auto split: option.splits)

section \<open>Reassembly\<close>

definition good_stream :: "(string \<Rightarrow> 'e + 'c option) \<Rightarrow> string \<Rightarrow> bool" where
  "good_stream decode s = (frames_closed s
     \<and> (\<forall>d\<in>set (findall s). \<exists>c. decode d = Inr c))"

definition sse_inv :: "(string \<Rightarrow> 'e + 'c option) \<Rightarrow> string \<Rightarrow> string \<times> 'c list list \<Rightarrow> bool" where
  "sse_inv decode received st = (\<exists>p. received = p @ fst st \<and> (p = [] \<or> (\<exists>q. p = q @ [NL, NL]))
     \<and> concat (snd st) = decode_docs decode (findall p))"

lemma findall_nil: "findall [] = []" "decode_docs decode [] = []"
  by simp_all

lemma good_cut:
  assumes "good_stream decode s" "s = p @ x @ NL # NL # u" "p = [] \<or> (\<exists>q. p = q @ [NL, NL])"
  shows "findall (p @ x @ [NL, NL]) = findall p @ findall x" "findall s = findall p @ findall x @ findall u"
    "decode_docs decode (findall (p @ x @ [NL, NL])) = decode_docs decode (findall p) @ decode_docs decode (findall x)"
proof -
  have fc: "frames_closed s" using assms(1) by (simp add: good_stream_def)
  have nd: "\<not> dangling (p @ x)" by (rule frames_closed_cut [OF fc]) (simp add: assms(2))
  have p: "findall (p @ x) = findall p @ findall x"
  proof (cases "p = []")
    case False
    then obtain q where q: "p = q @ [NL, NL]" using assms(3) by blast
    have "\<not> dangling q" by (rule frames_closed_cut [OF fc]) (simp add: assms(2) q)
    from findall_blank [OF this, of x] findall_blank [OF this, of "[]"] show ?thesis by (simp add: q)
  qed simp
  show one: "findall (p @ x @ [NL, NL]) = findall p @ findall x"
    using findall_blank [OF nd, of "[]"] p by simp
  show all: "findall s = findall p @ findall x @ findall u"
    using findall_blank [OF nd, of u] p assms(2) by simp
  have "\<forall>d\<in>set (findall p). \<exists>c. decode d = Inr c" using assms(1) unfolding good_stream_def all by simp
  then show "decode_docs decode (findall (p @ x @ [NL, NL])) = decode_docs decode (findall p) @ decode_docs decode (findall x)"
    unfolding one by (rule decode_docs_append)
qed

lemma sse_step_inv:
  assumes "good_stream decode (received @ concat chunks @ rest)" "sse_inv decode received st"
  shows "sse_inv decode (received @ concat chunks) (sse_step decode st chunks)"
proof -
  obtain inc out where st: "st = (inc, out)" by force
  obtain p where p: "received = p @ inc" "p = [] \<or> (\<exists>q. p = q @ [NL, NL])" "concat out = decode_docs decode (findall p)"
    using assms(2) by (auto simp: sse_inv_def st)
  let ?b = "inc @ concat chunks"
  show ?thesis
  proof (cases "rfind_blank ?b")
    case None
    then have "sse_step decode st chunks = (?b, out)" by (simp add: sse_step_def st)
    then show ?thesis using p by (auto simp: sse_inv_def)
  next
    case (Some k)
    let ?x = "take k ?b" and ?y = "drop (k + 2) ?b"
    have b: "?b = ?x @ NL # NL # ?y" by (rule rfind_blank_split [OF Some])
    have whole: "received @ concat chunks @ rest = p @ ?x @ NL # NL # (?y @ rest)"
    proof -
      have "received @ concat chunks @ rest = p @ ?b @ rest" by (simp add: p(1))
      also have "\<dots> = p @ (?x @ NL # NL # ?y) @ rest" by (subst b) (rule refl)
      finally show ?thesis by simp
    qed
    note cut = good_cut [OF assms(1) whole p(2)]
    have fst: "fst (sse_step decode st chunks) = ?y" by (simp add: sse_step_def st Some Let_def)
    have snd: "concat (snd (sse_step decode st chunks)) = concat out @ decode_docs decode (findall ?x)"
      by (simp add: sse_step_def st Some Let_def parse_sse_chunk_def)
    have "received @ concat chunks = (p @ ?x @ [NL, NL]) @ ?y"
    proof -
      have "received @ concat chunks = p @ ?b" by (simp add: p(1))
      also have "\<dots> = p @ (?x @ NL # NL # ?y)" by (subst b) (rule refl)
      finally show ?thesis by simp
    qed
    moreover have "concat out @ decode_docs decode (findall ?x) = decode_docs decode (findall (p @ ?x @ [NL, NL]))"
      using cut(3) p(3) by simp
    ultimately show ?thesis unfolding sse_inv_def fst snd
      by (intro exI [of _ "p @ ?x @ [NL, NL]"]) auto
  qed
qed

lemma sse_fold_inv:
  "good_stream decode (received @ concat (map concat batches) @ rest) \<Longrightarrow> sse_inv decode received st \<Longrightarrow>
     sse_inv decode (received @ concat (map concat batches)) (foldl (sse_step decode) st batches)"
proof (induction batches arbitrary: received st)
  case (Cons c cs)
  have g: "good_stream decode (received @ concat c @ concat (map concat cs) @ rest)" using Cons.prems(1) by simp
  from Cons.IH [OF _ sse_step_inv [OF g Cons.prems(2)]] g show ?case by simp
qed simp

text \<open>Reassembly does not depend on how the network cuts the stream: if every blank line ends a
  complete \<open>data:\<close> field and every document decodes, the chunk objects a worker yields for a streamed
  response are those of all documents of the byte stream, in order, whatever the pieces and batches
  it arrived in.\<close>

lemma sse_chunking:
  assumes "frames_closed (concat (map concat batches))"
    and "\<forall>d\<in>set (findall (concat (map concat batches))). \<exists>c. decode d = Inr c"
  shows "concat (iter_sse_lines decode batches) = decode_docs decode (findall (concat (map concat batches)))"
proof -
  let ?s = "concat (map concat batches)"
  have good: "good_stream decode ([] @ ?s @ [])" using assms by (simp add: good_stream_def)
  have "sse_inv decode [] ([], [])" by (simp add: sse_inv_def)
  from sse_fold_inv [OF good this] obtain inc out p where
    f: "foldl (sse_step decode) ([], []) batches = (inc, out)" "?s = p @ inc" "p = [] \<or> (\<exists>q. p = q @ [NL, NL])"
       "concat out = decode_docs decode (findall p)"
    by (cases "foldl (sse_step decode) ([], []) batches") (auto simp: sse_inv_def)
  have split: "findall ?s = findall p @ findall inc"
  proof (cases "p = []")
    case False
    then obtain q where q: "p = q @ [NL, NL]" using f(3) by blast
    have "\<not> dangling q" by (rule frames_closed_cut [OF assms(1)]) (simp add: f(2) q)
    from findall_blank [OF this, of inc] findall_blank [OF this, of "[]"] show ?thesis by (simp add: q f(2))
  qed (simp add: f(2))
  have "\<forall>d\<in>set (findall p). \<exists>c. decode d = Inr c" using assms(2) split by simp
  from decode_docs_append [OF this, of "findall inc"] show ?thesis
    by (simp add: iter_sse_lines_def sse_end_def f(1,4) split parse_sse_chunk_def Let_def)
qed

definition example_batches :: "string list list" where
  "example_batches = [[''data: {a'', ''b}''], [[NL]], [[NL], ''data: {cd}'']]"

definition echo_decode :: "string \<Rightarrow> unit + string option" where
  "echo_decode d = Inr (Some d)"

lemma sse_chunking_example:
  "concat (iter_sse_lines echo_decode example_batches) = [''{ab}'', ''{cd}'']"
proof -
  have "frames_closed (concat (map concat example_batches))" by code_simp
  moreover have "decode_docs echo_decode (findall (concat (map concat example_batches))) = [''{ab}'', ''{cd}'']"
    by code_simp
  ultimately show ?thesis
    using sse_chunking [of example_batches echo_decode] by (simp add: echo_decode_def)
qed

end
