(* ===== verification/Accumulators.thy ===== *)
theory Accumulators
  imports CoreTypes "HOL-Library.Sublist"
begin

text \<open>
  The accumulators of streamed responses: \<open>openai/accumulator.py\<close> and \<open>sglang/accumulator.py\<close>,
  with the conversion of a complete OpenAI response (\<open>openai/openai_msgspec_adapter.py\<close>).  The
  structs come decoded; their JSON form is msgspec's.
\<close>

section \<open>OpenAI streams\<close>

record sse_delta =
  sd_content :: "string option"
  sd_reasoning_content :: "string option"
  sd_reasoning :: "string option"
  sd_tool_calls :: "tool_part list option"

record sse_choice =
  ch_delta :: "sse_delta option"
  ch_finish_reason :: "string option"

record openai_acc =
  ac_output_chunks :: "string list"
  ac_reasoning_chunks :: "string list"
  ac_tool_call_chunks :: "tool_part list list"
  ac_finish_reason :: "string option"
  ac_first_chunk_sent :: bool
  ac_query_id :: string
  ac_stream_all :: bool

definition openai_acc_init :: "string \<Rightarrow> bool \<Rightarrow> openai_acc" where
  "openai_acc_init qid stream_all =
     \<lparr>ac_output_chunks = [], ac_reasoning_chunks = [], ac_tool_call_chunks = [], ac_finish_reason = None,
      ac_first_chunk_sent = False, ac_query_id = qid, ac_stream_all = stream_all\<rparr>"

text \<open>Truth of an optional string or list, and \<open>a or b\<close>.\<close>

definition filled :: "'a list option \<Rightarrow> 'a list" where
  "filled v = (case v of None \<Rightarrow> [] | Some s \<Rightarrow> s)"

definition delta_reasoning :: "sse_delta \<Rightarrow> string" where
  "delta_reasoning d = (if filled (sd_reasoning_content d) \<noteq> [] then filled (sd_reasoning_content d)
     else filled (sd_reasoning d))"

text \<open>The end of \<open>add_chunk\<close>, for a delta that carried text.\<close>

definition emit_text :: "string \<Rightarrow> openai_acc \<Rightarrow> stream_chunk option \<times> openai_acc" where
  "emit_text content a =
     (if ac_stream_all a \<or> \<not> ac_first_chunk_sent a
      then (Some \<lparr>sc_id = ac_query_id a, sc_chunk = content, sc_first = \<not> ac_first_chunk_sent a\<rparr>,
            a\<lparr>ac_first_chunk_sent := True\<rparr>)
      else (None, a))"

definition add_delta :: "sse_delta \<Rightarrow> openai_acc \<Rightarrow> stream_chunk option \<times> openai_acc" where
  "add_delta d a =
     (let tcs = filled (sd_tool_calls d);
          a1 = (if tcs \<noteq> [] then a\<lparr>ac_tool_call_chunks := ac_tool_call_chunks a @ [tcs]\<rparr> else a);
          content = filled (sd_content d);
          rc = delta_reasoning d
      in if content \<noteq> [] then emit_text content (a1\<lparr>ac_output_chunks := ac_output_chunks a1 @ [content]\<rparr>)
         else if rc \<noteq> [] then emit_text rc (a1\<lparr>ac_reasoning_chunks := ac_reasoning_chunks a1 @ [rc]\<rparr>)
         else if tcs \<noteq> [] \<and> \<not> ac_first_chunk_sent a1
         then (Some \<lparr>sc_id = ac_query_id a1, sc_chunk = [], sc_first = True\<rparr>, a1\<lparr>ac_first_chunk_sent := True\<rparr>)
         else (None, a1))"

definition add_chunk :: "sse_choice option \<Rightarrow> openai_acc \<Rightarrow> stream_chunk option \<times> openai_acc" where
  "add_chunk choice a = (case choice of
       None \<Rightarrow> (None, a)
     | Some c \<Rightarrow>
         (let a1 = (if filled (ch_finish_reason c) \<noteq> [] then a\<lparr>ac_finish_reason := ch_finish_reason c\<rparr> else a)
          in (case ch_delta c of None \<Rightarrow> (None, a1) | Some d \<Rightarrow> add_delta d a1)))"

text \<open>First chunk, then the rest in one piece.\<close>

definition split_first :: "string list \<Rightarrow> string list" where
  "split_first cs = (case cs of [] \<Rightarrow> [] | c # rest \<Rightarrow> c # (if rest \<noteq> [] then [concat rest] else []))"

definition acc_text_output :: "openai_acc \<Rightarrow> text_output" where
  "acc_text_output a =
     (let tcs = (if ac_tool_call_chunks a \<noteq> [] then Some (Chunked (ac_tool_call_chunks a)) else None)
      in if ac_reasoning_chunks a \<noteq> []
         then \<lparr>to_output = Whole (concat (ac_output_chunks a)),
               to_reasoning = Some (Chunks (split_first (ac_reasoning_chunks a))), to_tool_calls = tcs\<rparr>
         else if ac_output_chunks a \<noteq> []
         then \<lparr>to_output = Chunks (split_first (ac_output_chunks a)), to_reasoning = None, to_tool_calls = tcs\<rparr>
         else \<lparr>to_output = Chunks [], to_reasoning = None, to_tool_calls = tcs\<rparr>)"

record final_result =
  fr_id :: string
  fr_output :: text_output
  fr_first_chunk :: bool
  fr_final_chunk :: bool
  fr_finish_reason :: "string option"
  fr_tool_calls :: "merged_calls option"

definition get_final_output :: "openai_acc \<Rightarrow> final_result" where
  "get_final_output a =
     (let out = acc_text_output a; merged = snd (snd (as_message_parts out))
      in \<lparr>fr_id = ac_query_id a, fr_output = out, fr_first_chunk = (\<not> ac_first_chunk_sent a),
          fr_final_chunk = True,
          fr_finish_reason = (if filled (ac_finish_reason a) \<noteq> [] then ac_finish_reason a else None),
          fr_tool_calls = (if merged_truthy merged then merged else None)\<rparr>)"

section \<open>Complete OpenAI responses\<close>

record response_message =
  rm_content :: "string option"
  rm_reasoning_content :: "string option"
  rm_reasoning :: "string option"
  rm_tool_calls :: "tool_part list option"

record response_choice =
  rc_message :: response_message
  rc_finish_reason :: "string option"

text \<open>\<open>from_endpoint_response\<close>: the output and the finish reason, or the exception.\<close>

definition from_endpoint_response :: "response_choice list \<Rightarrow> (text_output \<times> string option) result" where
  "from_endpoint_response choices = (case choices of
       [] \<Rightarrow> Inl ValueError
     | c # _ \<Rightarrow>
         (let m = rc_message c
          in if filled (rm_reasoning_content m) \<noteq> [] \<and> filled (rm_reasoning m) \<noteq> [] then Inl AssertionError
             else
               let reasoning = (if filled (rm_reasoning_content m) \<noteq> [] then rm_reasoning_content m else rm_reasoning m)
               in Inr (\<lparr>to_output = Whole (filled (rm_content m)),
                        to_reasoning = map_option Whole reasoning,
                        to_tool_calls = (if filled (rm_tool_calls m) \<noteq> []
                                         then Some (Flat (filled (rm_tool_calls m))) else None)\<rparr>,
                       (if filled (rc_finish_reason c) \<noteq> [] then rc_finish_reason c else None))))"

section \<open>SGLang streams\<close>

record sglang_delta =
  sg_text :: string
  sg_token_delta :: "int list"
  sg_total_completion_tokens :: int
  sg_has_retractions :: bool

record sglang_acc =
  ga_text :: string
  ga_token_ids :: "int list"
  ga_total_tokens :: int
  ga_retraction_occurred :: bool
  ga_first_chunk_sent :: bool
  ga_query_id :: string
  ga_stream_all :: bool

definition sglang_acc_init :: "string \<Rightarrow> bool \<Rightarrow> sglang_acc" where
  "sglang_acc_init qid stream_all =
     \<lparr>ga_text = [], ga_token_ids = [], ga_total_tokens = 0, ga_retraction_occurred = False,
      ga_first_chunk_sent = False, ga_query_id = qid, ga_stream_all = stream_all\<rparr>"

definition sglang_add_chunk :: "sglang_delta \<Rightarrow> sglang_acc \<Rightarrow> stream_chunk option \<times> sglang_acc" where
  "sglang_add_chunk d a =
     (if sg_total_completion_tokens d = ga_total_tokens a then (None, a)
      else
        let content_diff = (if length (sg_text d) > length (ga_text a)
                            then drop (length (ga_text a)) (sg_text d) else []);
            a1 = a\<lparr>ga_text := sg_text d, ga_token_ids := ga_token_ids a @ sg_token_delta d,
                    ga_total_tokens := sg_total_completion_tokens d,
                    ga_retraction_occurred := (ga_retraction_occurred a \<or> sg_has_retractions d)\<rparr>
        in if content_diff \<noteq> [] \<and> (ga_stream_all a1 \<or> \<not> ga_first_chunk_sent a1)
           then (Some \<lparr>sc_id = ga_query_id a1, sc_chunk = content_diff, sc_first = \<not> ga_first_chunk_sent a1\<rparr>,
                 a1\<lparr>ga_first_chunk_sent := True\<rparr>)
           else (None, a1))"

record sglang_final =
  gf_id :: string
  gf_output :: text_output
  gf_first_chunk :: bool
  gf_retraction_occurred :: bool
  gf_n_tokens :: int
  gf_token_ids :: "int list"

definition sglang_final_output :: "sglang_acc \<Rightarrow> sglang_final" where
  "sglang_final_output a = \<lparr>gf_id = ga_query_id a,
     gf_output = \<lparr>to_output = Whole (ga_text a), to_reasoning = None, to_tool_calls = None\<rparr>,
     gf_first_chunk = (\<not> ga_first_chunk_sent a), gf_retraction_occurred = ga_retraction_occurred a,
     gf_n_tokens = ga_total_tokens a, gf_token_ids = ga_token_ids a\<rparr>"

section \<open>Whole streams\<close>

text \<open>What the worker does with the chunk objects of a response.\<close>

definition accumulate :: "('d \<Rightarrow> 'a \<Rightarrow> stream_chunk option \<times> 'a) \<Rightarrow> 'a \<Rightarrow> 'd list \<Rightarrow> 'a \<times> stream_chunk list" where
  "accumulate add a ds = foldl (\<lambda>(a, out) d. case add d a of
       (None, a') \<Rightarrow> (a', out) | (Some c, a') \<Rightarrow> (a', out @ [c])) (a, []) ds"

text \<open>The text a delta carries, and whether it is reasoning.\<close>

definition delta_text :: "sse_choice option \<Rightarrow> (bool \<times> string) list" where
  "delta_text choice = (case choice of
       Some c \<Rightarrow> (case ch_delta c of
           Some d \<Rightarrow> (if filled (sd_content d) \<noteq> [] then [(False, filled (sd_content d))]
                      else if delta_reasoning d \<noteq> [] then [(True, delta_reasoning d)] else [])
         | None \<Rightarrow> [])
     | None \<Rightarrow> [])"

definition delta_tools :: "sse_choice option \<Rightarrow> tool_part list list" where
  "delta_tools choice = (case choice of
       Some c \<Rightarrow> (case ch_delta c of
           Some d \<Rightarrow> (if filled (sd_tool_calls d) \<noteq> [] then [filled (sd_tool_calls d)] else [])
         | None \<Rightarrow> [])
     | None \<Rightarrow> [])"

definition texts :: "sse_choice option list \<Rightarrow> (bool \<times> string) list" where
  "texts ds = concat (map delta_text ds)"

definition reasoning_of :: "(bool \<times> string) list \<Rightarrow> string list" where
  "reasoning_of ts = map snd (filter fst ts)"

definition content_of :: "(bool \<times> string) list \<Rightarrow> string list" where
  "content_of ts = map snd (filter (\<lambda>t. \<not> fst t) ts)"

definition flags_ok :: "stream_chunk list \<Rightarrow> bool" where
  "flags_ok out = (map sc_first out = (case out of [] \<Rightarrow> [] | c # cs \<Rightarrow> True # replicate (length cs) False))"

definition acc_inv :: "bool \<Rightarrow> sse_choice option list \<Rightarrow> openai_acc \<times> stream_chunk list \<Rightarrow> bool" where
  "acc_inv stream_all ds st = (case st of (a, out) \<Rightarrow>
     ac_output_chunks a = content_of (texts ds) \<and> ac_reasoning_chunks a = reasoning_of (texts ds)
     \<and> ac_tool_call_chunks a = concat (map delta_tools ds)
     \<and> (ac_first_chunk_sent a \<longleftrightarrow> out \<noteq> []) \<and> ac_stream_all a = stream_all
     \<and> flags_ok out
     \<and> (out = [] \<longleftrightarrow> texts ds = [] \<and> concat (map delta_tools ds) = [])
     \<and> (stream_all \<longrightarrow> concat (map sc_chunk out) = concat (map snd (texts ds))))"

lemma flags_snoc: "flags_ok out \<Longrightarrow> flags_ok (out @ [c]) \<longleftrightarrow> sc_first c = (out = [])"
  by (cases out) (auto simp: flags_ok_def replicate_append_same [symmetric])

lemma texts_snoc: "texts (ds @ [d]) = texts ds @ delta_text d"
  by (simp add: texts_def)

lemma split_texts:
  "content_of (xs @ ys) = content_of xs @ content_of ys" "reasoning_of (xs @ ys) = reasoning_of xs @ reasoning_of ys"
  "content_of [(b, t)] = (if b then [] else [t])" "reasoning_of [(b, t)] = (if b then [t] else [])"
  "content_of [] = []" "reasoning_of [] = []"
  by (simp_all add: content_of_def reasoning_of_def)

lemma acc_step:
  assumes "acc_inv sa ds (a, out)" "add_chunk d a = (r, a')"
  shows "acc_inv sa (ds @ [d]) (a', case r of None \<Rightarrow> out | Some c \<Rightarrow> out @ [c])"
proof -
  have inv: "ac_output_chunks a = content_of (texts ds)" "ac_reasoning_chunks a = reasoning_of (texts ds)"
    "ac_tool_call_chunks a = concat (map delta_tools ds)" "ac_first_chunk_sent a \<longleftrightarrow> out \<noteq> []"
    "ac_stream_all a = sa" "flags_ok out" "out = [] \<longleftrightarrow> texts ds = [] \<and> concat (map delta_tools ds) = []"
    "sa \<longrightarrow> concat (map sc_chunk out) = concat (map snd (texts ds))"
    using assms(1) by (auto simp: acc_inv_def)
  show ?thesis
  proof (cases "\<exists>c dl. d = Some c \<and> ch_delta c = Some dl")
    case False
    then have "delta_text d = []" "delta_tools d = []" "r = None"
      "ac_output_chunks a' = ac_output_chunks a" "ac_reasoning_chunks a' = ac_reasoning_chunks a"
      "ac_tool_call_chunks a' = ac_tool_call_chunks a" "ac_first_chunk_sent a' = ac_first_chunk_sent a"
      "ac_stream_all a' = ac_stream_all a"
      using assms(2) by (auto simp: delta_text_def delta_tools_def add_chunk_def Let_def split: option.splits if_splits)
    then show ?thesis using inv by (simp add: acc_inv_def texts_snoc split_texts)
  next
    case True
    then obtain c dl where d: "d = Some c" "ch_delta c = Some dl" by blast
    define a0 where "a0 = (if filled (ch_finish_reason c) \<noteq> [] then a\<lparr>ac_finish_reason := ch_finish_reason c\<rparr> else a)"
    have a0: "ac_output_chunks a0 = ac_output_chunks a" "ac_reasoning_chunks a0 = ac_reasoning_chunks a"
      "ac_tool_call_chunks a0 = ac_tool_call_chunks a" "ac_first_chunk_sent a0 = ac_first_chunk_sent a"
      "ac_stream_all a0 = ac_stream_all a" by (simp_all add: a0_def)
    have r: "add_delta dl a0 = (r, a')" using assms(2) by (simp add: add_chunk_def d a0_def Let_def)
    have dt: "delta_text d = (if filled (sd_content dl) \<noteq> [] then [(False, filled (sd_content dl))]
        else if delta_reasoning dl \<noteq> [] then [(True, delta_reasoning dl)] else [])"
      "delta_tools d = (if filled (sd_tool_calls dl) \<noteq> [] then [filled (sd_tool_calls dl)] else [])"
      by (simp_all add: delta_text_def delta_tools_def d)
    note go = r [unfolded add_delta_def emit_text_def Let_def]
    have first: "flags_ok [x] \<longleftrightarrow> sc_first x" for x by (simp add: flags_ok_def)
    consider (carries) t b where "delta_text d = [(b, t)]" | (none) "delta_text d = []" "filled (sd_content dl) = []"
      "delta_reasoning dl = []"
      using dt(1) by (cases "filled (sd_content dl) = []"; cases "delta_reasoning dl = []") simp_all
    then show ?thesis
    proof cases
      case (carries t b)
      define a1 where "a1 = (let a1 = (if filled (sd_tool_calls dl) \<noteq> []
          then a0\<lparr>ac_tool_call_chunks := ac_tool_call_chunks a0 @ [filled (sd_tool_calls dl)]\<rparr> else a0)
        in if b then a1\<lparr>ac_reasoning_chunks := ac_reasoning_chunks a1 @ [t]\<rparr>
           else a1\<lparr>ac_output_chunks := ac_output_chunks a1 @ [t]\<rparr>)"
      have e: "emit_text t a1 = (r, a')"
        using r carries by (auto simp: add_delta_def a1_def Let_def dt split: if_splits)
      have a1: "ac_output_chunks a1 = content_of (texts (ds @ [d]))" "ac_reasoning_chunks a1 = reasoning_of (texts (ds @ [d]))"
        "ac_tool_call_chunks a1 = concat (map delta_tools (ds @ [d]))" "ac_first_chunk_sent a1 \<longleftrightarrow> out \<noteq> []"
        "ac_stream_all a1 = sa"
        using inv(1-5) carries by (auto simp: a1_def Let_def a0 dt(2) texts_snoc split_texts)
      show ?thesis
      proof (cases "sa \<or> out = []")
        case True
        then have "r = Some \<lparr>sc_id = ac_query_id a1, sc_chunk = t, sc_first = (out = [])\<rparr>" "a' = a1\<lparr>ac_first_chunk_sent := True\<rparr>"
          using e a1(4,5) by (auto simp: emit_text_def)
        then show ?thesis using a1 inv(6-8) carries True by (auto simp: acc_inv_def flags_snoc texts_snoc)
      next
        case False
        then have "r = None" "a' = a1" using e a1(4,5) by (auto simp: emit_text_def)
        then show ?thesis using a1 inv(6-8) carries False by (auto simp: acc_inv_def texts_snoc)
      qed
    next
      case none
      have a': "ac_output_chunks a' = ac_output_chunks a" "ac_reasoning_chunks a' = ac_reasoning_chunks a"
        "ac_tool_call_chunks a' = ac_tool_call_chunks a @ delta_tools d" "ac_stream_all a' = ac_stream_all a"
        "ac_first_chunk_sent a' \<longleftrightarrow> ac_first_chunk_sent a \<or> delta_tools d \<noteq> []"
        "r = (if delta_tools d \<noteq> [] \<and> out = [] then Some \<lparr>sc_id = ac_query_id a0, sc_chunk = [], sc_first = True\<rparr> else None)"
        using go none inv(4) unfolding dt(2) a0 [symmetric]
        by (cases "filled (sd_tool_calls dl) = []"; cases "ac_first_chunk_sent a0"; auto simp: a0)+
      show ?thesis
        using inv none(1) unfolding acc_inv_def texts_snoc a'
        by (cases "delta_tools d = []"; cases "out = []") (simp_all add: a' flags_snoc first)
    qed
  qed
qed

lemma accumulate_snoc:
  "accumulate add a0 (ds @ [d]) = (let (a, out) = accumulate add a0 ds; (r, a') = add d a
     in (a', case r of None \<Rightarrow> out | Some c \<Rightarrow> out @ [c]))"
  by (auto simp: accumulate_def Let_def split: prod.splits option.splits)

lemma accumulate_inv: "acc_inv sa ds (accumulate add_chunk (openai_acc_init qid sa) ds)"
proof (induction ds rule: rev_induct)
  case Nil
  show ?case by (simp add: accumulate_def acc_inv_def openai_acc_init_def texts_def split_texts flags_ok_def)
next
  case (snoc d ds)
  obtain a out where s: "accumulate add_chunk (openai_acc_init qid sa) ds = (a, out)" by force
  obtain r a' where r: "add_chunk d a = (r, a')" by force
  from acc_step [OF _ r, of sa ds out] snoc show ?case by (simp add: accumulate_snoc s r)
qed

lemma split_first_text: "concat (split_first cs) = concat cs" "split_first cs = [] \<longleftrightarrow> cs = []"
  "concat (tl (split_first cs)) = concat (tl cs)"
  "length (split_first cs) > 1 \<longleftrightarrow> length cs > 1"
  by (cases cs; auto simp: split_first_def)+

section \<open>What the accumulators promise\<close>

text \<open>An accumulated OpenAI response is what was streamed.  The output and the reasoning of the final
  result are the concatenated texts of the deltas, the tool-call fragments are kept in order; of the
  chunks sent on, the first and only the first is flagged as first, there is one as soon as a delta
  carried text or tool calls, and the final result is flagged exactly when there was none; when all
  chunks are streamed their text is the whole text in arrival order.\<close>

theorem accumulated_output_is_the_stream:
  assumes "accumulate add_chunk (openai_acc_init qid stream_all) ds = (a, out)"
  shows "elem_text (to_output (fr_output (get_final_output a))) = concat (content_of (texts ds))
     \<and> (case to_reasoning (fr_output (get_final_output a)) of None \<Rightarrow> [] | Some r \<Rightarrow> elem_text r)
         = concat (reasoning_of (texts ds))
     \<and> to_tool_calls (fr_output (get_final_output a))
         = (if concat (map delta_tools ds) = [] then None else Some (Chunked (concat (map delta_tools ds))))
     \<and> map sc_first out = (case out of [] \<Rightarrow> [] | c # cs \<Rightarrow> True # replicate (length cs) False)
     \<and> (fr_first_chunk (get_final_output a) \<longleftrightarrow> out = [])
     \<and> (out = [] \<longleftrightarrow> texts ds = [] \<and> concat (map delta_tools ds) = [])
     \<and> (stream_all \<longrightarrow> concat (map sc_chunk out) = concat (map snd (texts ds)))"
proof -
  have inv: "acc_inv stream_all ds (a, out)" using accumulate_inv [of stream_all ds qid] assms by simp
  have "elem_text (to_output (acc_text_output a)) = concat (ac_output_chunks a)"
    by (simp add: acc_text_output_def Let_def elem_text_def split_first_text)
  moreover have "(case to_reasoning (acc_text_output a) of None \<Rightarrow> [] | Some r \<Rightarrow> elem_text r) = concat (ac_reasoning_chunks a)"
    by (simp add: acc_text_output_def Let_def elem_text_def split_first_text)
  moreover have "to_tool_calls (acc_text_output a) = (if ac_tool_call_chunks a \<noteq> [] then Some (Chunked (ac_tool_call_chunks a)) else None)"
    by (simp add: acc_text_output_def Let_def)
  ultimately show ?thesis using inv unfolding acc_inv_def get_final_output_def Let_def flags_ok_def by auto
qed

definition example_deltas :: "sse_choice option list" where
  "example_deltas = map (\<lambda>t. Some \<lparr>ch_delta = Some \<lparr>sd_content = Some t, sd_reasoning_content = None, sd_reasoning = None,
     sd_tool_calls = None\<rparr>, ch_finish_reason = None\<rparr>) [''ab'', ''cd'', ''e'']"

theorem accumulated_output_is_the_stream_witness:
  "\<exists>a out. accumulate add_chunk (openai_acc_init ''q'' True) example_deltas = (a, out)
     \<and> elem_text (to_output (fr_output (get_final_output a))) = ''abcde'' \<and> concat (map sc_chunk out) = ''abcde''"
proof -
  obtain a out where r: "accumulate add_chunk (openai_acc_init ''q'' True) example_deltas = (a, out)" by force
  have "concat (content_of (texts example_deltas)) = ''abcde''" "concat (map snd (texts example_deltas)) = ''abcde''"
    by code_simp+
  with accumulated_output_is_the_stream [OF r] r show ?thesis by auto
qed

text \<open>What is tokenized for the time per output token is what arrived after the first chunk: for a
  response without tool calls whose reasoning precedes its content, the text after the first chunk
  is the text of all deltas but the first.\<close>

theorem tpot_text_is_what_followed:
  assumes "accumulate add_chunk (openai_acc_init qid stream_all) ds = (a, out)"
    and "concat (map delta_tools ds) = []" and "texts ds = map (Pair True) rs @ map (Pair False) cs"
  shows "text_after_first_chunk enc (fr_output (get_final_output a)) = concat (tl (rs @ cs))"
proof -
  have inv: "acc_inv stream_all ds (a, out)" using accumulate_inv [of stream_all ds qid] assms(1) by simp
  have parts: "content_of (map (Pair True) rs @ map (Pair False) cs) = cs"
    "reasoning_of (map (Pair True) rs @ map (Pair False) cs) = rs"
    by (simp_all add: content_of_def reasoning_of_def o_def filter_map comp_def)
  have acc: "ac_output_chunks a = cs" "ac_reasoning_chunks a = rs" "ac_tool_call_chunks a = []"
    using inv assms(2,3) parts by (auto simp: acc_inv_def)
  have len: "length (split_first xs) > Suc 0 \<longleftrightarrow> length xs > Suc 0" for xs using split_first_text(4) [of xs] by simp
  show ?thesis
  proof (cases rs)
    case Nil
    then show ?thesis
      by (cases cs) (auto simp: get_final_output_def Let_def acc_text_output_def acc text_after_first_chunk_def
          tool_calls_after_first_def opt_truthy_def split_first_text len)
  next
    case (Cons r rs')
    have c: "split_first rs \<noteq> []" using Cons split_first_text(2) [of rs] by simp
    have t: "concat (tl (split_first rs)) = concat rs'" using split_first_text(3) [of rs] Cons by simp
    show ?thesis
      by (cases rs') (auto simp: get_final_output_def Let_def acc_text_output_def acc text_after_first_chunk_def
          tool_calls_after_first_def opt_truthy_def Cons split_first_def)
  qed
qed

theorem tpot_text_is_what_followed_witness:
  "\<exists>a out. accumulate add_chunk (openai_acc_init ''q'' False) example_deltas = (a, out)
     \<and> text_after_first_chunk (\<lambda>_. []) (fr_output (get_final_output a)) = ''cde''"
proof -
  obtain a out where r: "accumulate add_chunk (openai_acc_init ''q'' False) example_deltas = (a, out)" by force
  have "concat (map delta_tools example_deltas) = []" by code_simp
  moreover have "texts example_deltas = map (Pair True) [] @ map (Pair False) [''ab'', ''cd'', ''e'']" by code_simp
  ultimately show ?thesis using tpot_text_is_what_followed [OF r] r by fastforce
qed

text \<open>A response that opens with a pure tool-call delta and goes on with text: the first chunk was the
  tool call, yet its fragment stays and the text is skipped as if it had been the first chunk.\<close>

definition tool_then_text :: "sse_choice option list" where
  "tool_then_text =
     [Some \<lparr>ch_delta = Some \<lparr>sd_content = None, sd_reasoning_content = None, sd_reasoning = None,
        sd_tool_calls = Some [\<lparr>tp_index = Some 0, tp_id = None, tp_type = None, tp_name = Some ''f'',
          tp_arguments = None\<rparr>]\<rparr>, ch_finish_reason = None\<rparr>,
      Some \<lparr>ch_delta = Some \<lparr>sd_content = Some ''x'', sd_reasoning_content = None, sd_reasoning = None,
        sd_tool_calls = None\<rparr>, ch_finish_reason = None\<rparr>]"

lemma text_after_tool_call_is_skipped:
  "text_after_first_chunk (\<lambda>_. ''T'')
     (fr_output (get_final_output (fst (accumulate add_chunk (openai_acc_init ''q'' True) tool_then_text)))) = ''T''
   \<and> map sc_chunk (snd (accumulate add_chunk (openai_acc_init ''q'' True) tool_then_text)) = [[], ''x'']"
  by code_simp

text \<open>An SGLang stream: every delta repeats the text so far, and new text comes with new tokens.\<close>

fun cumulative :: "string \<Rightarrow> int \<Rightarrow> sglang_delta list \<Rightarrow> bool" where
  "cumulative t n [] = True"
| "cumulative t n (d # ds) =
     (prefix t (sg_text d) \<and> (sg_total_completion_tokens d = n \<longrightarrow> sg_text d = t \<and> sg_token_delta d = [])
      \<and> cumulative (sg_text d) (sg_total_completion_tokens d) ds)"

definition last_text :: "string \<Rightarrow> sglang_delta list \<Rightarrow> string" where
  "last_text t ds = (if ds = [] then t else sg_text (last ds))"

definition last_total :: "int \<Rightarrow> sglang_delta list \<Rightarrow> int" where
  "last_total n ds = (if ds = [] then n else sg_total_completion_tokens (last ds))"

lemma sglang_step:
  assumes "prefix (ga_text a) (sg_text d)" "sglang_add_chunk d a = (r, a')"
    "sg_total_completion_tokens d = ga_total_tokens a \<longrightarrow> sg_text d = ga_text a \<and> sg_token_delta d = []"
  shows "ga_text a' = sg_text d" "ga_token_ids a' = ga_token_ids a @ sg_token_delta d"
    "ga_total_tokens a' = sg_total_completion_tokens d" "ga_stream_all a' = ga_stream_all a"
    "ga_stream_all a \<longrightarrow> ga_text a @ (case r of None \<Rightarrow> [] | Some c \<Rightarrow> sc_chunk c) = sg_text d"
proof -
  obtain x where x: "sg_text d = ga_text a @ x" using assms(1) by (auto simp: prefix_def)
  show "ga_text a' = sg_text d" "ga_token_ids a' = ga_token_ids a @ sg_token_delta d"
    "ga_total_tokens a' = sg_total_completion_tokens d" "ga_stream_all a' = ga_stream_all a"
    using assms(2,3) by (auto simp: sglang_add_chunk_def Let_def split: if_splits)
  show "ga_stream_all a \<longrightarrow> ga_text a @ (case r of None \<Rightarrow> [] | Some c \<Rightarrow> sc_chunk c) = sg_text d"
    using assms(2,3) by (auto simp: sglang_add_chunk_def Let_def x split: if_splits)
qed

lemma sglang_fold:
  assumes "cumulative (ga_text a) (ga_total_tokens a) ds"
    and "foldl (\<lambda>(a, out) d. case sglang_add_chunk d a of
       (None, a') \<Rightarrow> (a', out) | (Some c, a') \<Rightarrow> (a', out @ [c])) (a, out) ds = (a', out')"
  shows "ga_text a' = last_text (ga_text a) ds \<and> ga_token_ids a' = ga_token_ids a @ concat (map sg_token_delta ds)
    \<and> ga_total_tokens a' = last_total (ga_total_tokens a) ds
    \<and> (ga_stream_all a \<longrightarrow> concat (map sc_chunk out) = ga_text a \<longrightarrow> concat (map sc_chunk out') = ga_text a')"
  using assms
proof (induction ds arbitrary: a out)
  case Nil
  then show ?case by (auto simp: last_text_def last_total_def)
next
  case (Cons d ds)
  obtain r a1 where r: "sglang_add_chunk d a = (r, a1)" by force
  have c: "prefix (ga_text a) (sg_text d)"
      "sg_total_completion_tokens d = ga_total_tokens a \<longrightarrow> sg_text d = ga_text a \<and> sg_token_delta d = []"
      "cumulative (sg_text d) (sg_total_completion_tokens d) ds"
    using Cons.prems(1) by auto
  note st = sglang_step [OF c(1) r c(2)]
  define out1 where "out1 = (case r of None \<Rightarrow> out | Some c \<Rightarrow> out @ [c])"
  have f: "foldl (\<lambda>(a, out) d. case sglang_add_chunk d a of
       (None, a') \<Rightarrow> (a', out) | (Some c, a') \<Rightarrow> (a', out @ [c])) (a1, out1) ds = (a', out')"
    using Cons.prems(2) by (cases r) (simp_all add: r out1_def)
  have o: "concat (map sc_chunk out1) = concat (map sc_chunk out) @ (case r of None \<Rightarrow> [] | Some c \<Rightarrow> sc_chunk c)"
    by (cases r) (simp_all add: out1_def)
  from Cons.IH [OF _ f] c(3) st o show ?case
    by (cases ds) (auto simp: last_text_def last_total_def)
qed

text \<open>An accumulated SGLang response is the last cumulative text with all its tokens: for a stream whose
  deltas repeat and extend the text, the final result has the last text, all token ids in order and
  the last token total, and when all chunks are streamed their concatenation is that text.\<close>

theorem sglang_stream_reassembles:
  assumes "cumulative [] 0 ds"
    and "accumulate sglang_add_chunk (sglang_acc_init qid stream_all) ds = (a, out)"
  shows "to_output (gf_output (sglang_final_output a)) = Whole (last_text [] ds)
     \<and> gf_token_ids (sglang_final_output a) = concat (map sg_token_delta ds)
     \<and> gf_n_tokens (sglang_final_output a) = last_total 0 ds
     \<and> (stream_all \<longrightarrow> concat (map sc_chunk out) = last_text [] ds)"
  using sglang_fold [of "sglang_acc_init qid stream_all" ds "[]" a out] assms
  by (simp add: accumulate_def sglang_acc_init_def sglang_final_output_def)

definition example_sglang :: "sglang_delta list" where
  "example_sglang = [\<lparr>sg_text = ''ab'', sg_token_delta = [1], sg_total_completion_tokens = 1, sg_has_retractions = False\<rparr>,
     \<lparr>sg_text = ''abc'', sg_token_delta = [2], sg_total_completion_tokens = 2, sg_has_retractions = False\<rparr>]"

theorem sglang_stream_reassembles_witness:
  "\<exists>a out. accumulate sglang_add_chunk (sglang_acc_init ''q'' True) example_sglang = (a, out)
     \<and> gf_token_ids (sglang_final_output a) = [1, 2] \<and> concat (map sc_chunk out) = ''abc''"
proof -
  obtain a out where r: "accumulate sglang_add_chunk (sglang_acc_init ''q'' True) example_sglang = (a, out)" by force
  have "cumulative [] 0 example_sglang" by code_simp
  from sglang_stream_reassembles [OF this r] r show ?thesis
    by (auto simp: example_sglang_def last_text_def)
qed

end
