(* ===== verification/Agentic.thy ===== *)
theory Agentic
  imports PhaseIssuer SampleOrder
begin

text \<open>
  \<open>load_generator/conversation_manager.py\<close> and \<open>load_generator/agentic_inference_strategy.py\<close>: the
  event-driven strategy for multi-turn conversations.  The strategy acts on the phase issuer of
  \<open>PhaseIssuer.thy\<close>; both are fields of one state, with the world.  What the issuer's stop check
  answers at its successive calls is the stream \<open>ag_stops\<close>; the issuer's callbacks are collected for
  the session that runs them.  A timer of the event loop is a pending handle, and its firing is an
  event.  Delays and pre-built messages come from the dataset's metadata; the digest of the salt is
  a parameter (\<open>hashlib\<close>), and \<open>ag_turn_timeout\<close> is the configured timeout as it is printed.
\<close>

section \<open>Conversation states\<close>

record conversation_state =
  cs_completed_turns :: int
  cs_failed_turns :: int
  cs_expected_client_turns :: "int option"

definition conv_is_complete :: "conversation_state \<Rightarrow> bool" where
  "conv_is_complete c = (case cs_expected_client_turns c of
       None \<Rightarrow> False | Some n \<Rightarrow> cs_completed_turns c \<ge> n)"

type_synonym conversations = "string \<rightharpoonup> conversation_state"

definition get_or_create :: "string \<Rightarrow> int option \<Rightarrow> conversations \<Rightarrow> conversations" where
  "get_or_create cid expected m = (case m cid of
       None \<Rightarrow> m(cid \<mapsto> \<lparr>cs_completed_turns = 0, cs_failed_turns = 0, cs_expected_client_turns = expected\<rparr>)
     | Some _ \<Rightarrow> m)"

definition mark_turn_complete :: "string \<Rightarrow> conversations \<Rightarrow> conversations result" where
  "mark_turn_complete cid m = (case m cid of
       None \<Rightarrow> Inl KeyError
     | Some c \<Rightarrow> Inr (m(cid \<mapsto> c\<lparr>cs_completed_turns := cs_completed_turns c + 1\<rparr>)))"

definition mark_turn_failed :: "string \<Rightarrow> conversations \<Rightarrow> conversations result" where
  "mark_turn_failed cid m = (case m cid of
       None \<Rightarrow> Inl KeyError
     | Some c \<Rightarrow> Inr (m(cid \<mapsto> c\<lparr>cs_completed_turns := cs_completed_turns c + 1,
                             cs_failed_turns := cs_failed_turns c + 1\<rparr>)))"

section \<open>The sample count\<close>

text \<open>\<open>expected_agentic_sample_count\<close>: the turns of the conversations the scheduler will start.\<close>

definition expected_agentic_sample_count :: "int list \<Rightarrow> nat option \<Rightarrow> rng option \<Rightarrow> int" where
  "expected_agentic_sample_count turn_counts num r =
     (if turn_counts = [] then 0
      else
        let count = (case num of Some n \<Rightarrow> n | None \<Rightarrow> length turn_counts);
            n = int (length turn_counts);
            ord = (case r of
                     None \<Rightarrow> map_sum id Sequential (sequential_init n)
                   | Some g \<Rightarrow> map_sum id WithoutReplacement (without_replacement_init n g))
        in (case ord of
              Inl _ \<Rightarrow> 0
            | Inr ord \<Rightarrow> sum_list (map (\<lambda>i. turn_counts ! nat i) (fst (draw_many order_next count ord)))))"

section \<open>Strategy state\<close>

type_synonym turns = "(int \<times> int) list"

record agentic =
  ag_convs :: "(string \<times> turns) list"
  ag_order :: "order option"
  ag_num :: "nat option"
  ag_stop_first :: bool
  ag_target :: "int option"
  ag_inject_delay :: bool
  ag_delays :: "string \<times> int \<Rightarrow> rat"
  ag_turn_timeout :: string
  ag_salt :: bool
  ag_messages :: "string \<times> int \<Rightarrow> pydict list option"
  ag_conv_states :: conversations
  ag_inflight :: "string \<rightharpoonup> string"
  ag_active :: "string \<rightharpoonup> string \<times> turns \<times> nat \<times> nat"
  ag_timeout_handles :: "string set"
  ag_delay_handles :: "string \<rightharpoonup> int \<times> int"
  ag_error :: "py_exc option"
  ag_all_done :: bool
  ag_stopping :: bool
  ag_started :: nat
  ag_tracking_stopped :: bool
  ag_stops :: "nat \<Rightarrow> bool"
  ag_spos :: nat
  ag_callbacks :: "callback list"
  ag_issuer :: phase_issuer
  ag_world :: world

text \<open>The conversations in encounter order, each with its turns sorted by turn number.\<close>

definition base_convs :: "(string \<times> int \<times> int) list \<Rightarrow> (string \<times> turns) list" where
  "base_convs samples = map (\<lambda>c. (c, sort_key snd (map snd (filter (\<lambda>s. fst s = c) samples))))
     (rev (remdups (rev (map fst samples))))"

definition trajectory_budget :: "agentic \<Rightarrow> nat" where
  "trajectory_budget s = (case ag_num s of Some n \<Rightarrow> n | None \<Rightarrow> length (ag_convs s))"

definition has_trajectory_budget :: "agentic \<Rightarrow> bool" where
  "has_trajectory_budget s = (ag_started s < trajectory_budget s)"

definition has_more_instances :: "agentic \<Rightarrow> bool" where
  "has_more_instances s = (ag_convs s \<noteq> [] \<and> has_trajectory_budget s)"

definition initial_conversations_to_start :: "agentic \<Rightarrow> nat" where
  "initial_conversations_to_start s =
     (if ag_convs s = [] \<or> \<not> has_trajectory_budget s then 0
      else min (case ag_target s of
                  Some t \<Rightarrow> if t > 0 then nat t else length (ag_convs s)
                | None \<Rightarrow> length (ag_convs s)) (trajectory_budget s))"

definition make_conversation_order :: "nat \<Rightarrow> rng option \<Rightarrow> order option" where
  "make_conversation_order n_convs r =
     (if n_convs = 0 then None
      else case r of
        Some g \<Rightarrow> (case without_replacement_init (int n_convs) g of Inr o' \<Rightarrow> Some (WithoutReplacement o') | Inl _ \<Rightarrow> None)
      | None \<Rightarrow> (case sequential_init (int n_convs) of Inr o' \<Rightarrow> Some (Sequential o') | Inl _ \<Rightarrow> None))"

definition logical_id :: "string \<Rightarrow> nat \<Rightarrow> string" where
  "logical_id source_id instance_id =
     (if instance_id = 1 then source_id else source_id @ ''__repeat_'' @ digits instance_id)"

text \<open>\<open>_next_conversation_instance\<close>.\<close>

definition next_instance :: "agentic \<Rightarrow> (string \<times> string \<times> turns \<times> nat) option \<times> agentic" where
  "next_instance s =
     (if \<not> has_more_instances s then (None, s)
      else case ag_order s of
        None \<Rightarrow> (None, s)
      | Some ord \<Rightarrow>
          (let (source_index, ord') = order_next ord;
               (source_id, turns) = ag_convs s ! nat source_index;
               instance_id = ag_started s div length (ag_convs s) + 1
           in (Some (logical_id source_id instance_id, source_id, turns, instance_id),
               s\<lparr>ag_order := Some ord', ag_started := ag_started s + 1\<rparr>)))"

definition has_work_remaining :: "agentic \<Rightarrow> bool" where
  "has_work_remaining s =
     (if ag_stopping s then ag_inflight s \<noteq> Map.empty \<or> ag_delay_handles s \<noteq> Map.empty
      else ag_active s \<noteq> Map.empty \<or> ag_inflight s \<noteq> Map.empty \<or> ag_delay_handles s \<noteq> Map.empty
           \<or> has_more_instances s)"

section \<open>The salt\<close>

definition msg_role_system :: "pydict \<Rightarrow> bool" where
  "msg_role_system m = (dget m ''role'' = PStr ''system'')"

text \<open>\<open>_messages_with_trajectory_salt\<close>: the first system message with a text content is salted.\<close>

fun salt_messages :: "(string \<Rightarrow> string) \<Rightarrow> pydict list \<Rightarrow> nat \<Rightarrow> string \<Rightarrow> pydict list result" where
  "salt_messages digest [] repeat_id conversation_id = Inl InputValidationError"
| "salt_messages digest (m # ms) repeat_id conversation_id =
     (case (msg_role_system m, dget m ''content'') of
        (True, PStr content) \<Rightarrow>
          Inr (AList.update ''content''
            (PStr (''[salt: '' @ digest (digits repeat_id) @ '']'' @ [CHR 10, CHR 10] @ content @ [CHR 10, CHR 10]
                   @ ''[salt: '' @ digest conversation_id @ '']'')) m # ms)
      | _ \<Rightarrow> map_sum id (\<lambda>r. m # r) (salt_messages digest ms repeat_id conversation_id))"

definition build_data_override ::
    "(string \<Rightarrow> string) \<Rightarrow> string \<Rightarrow> int \<Rightarrow> nat \<Rightarrow> agentic \<Rightarrow> pydict option result" where
  "build_data_override digest source_id turn repeat_id s =
     (if \<not> ag_salt s then Inr None
      else case ag_messages s (source_id, turn) of
        Some (m # ms) \<Rightarrow>
          map_sum id (\<lambda>salted. Some [(''messages'', PList (map PDict salted)), (''input_tokens'', PNone), (''token_ids'', PNone)])
            (salt_messages digest (m # ms) repeat_id source_id)
      | _ \<Rightarrow> Inl InputValidationError)"

definition validate_salt_system_prompts :: "agentic \<Rightarrow> unit result" where
  "validate_salt_system_prompts s =
     (if \<not> ag_salt s then Inr ()
      else if list_all (\<lambda>(source_id, turns). list_all (\<lambda>(idx, turn).
                case ag_messages s (source_id, turn) of
                  Some (m # ms) \<Rightarrow> list_ex msg_role_system (m # ms)
                | _ \<Rightarrow> False) turns) (ag_convs s)
      then Inr () else Inl InputValidationError)"

section \<open>Issuing\<close>

definition signal_done_if_no_inflight :: "agentic \<Rightarrow> agentic" where
  "signal_done_if_no_inflight s = (if ag_inflight s = Map.empty then s\<lparr>ag_all_done := True\<rparr> else s)"

definition request_stop_issuing :: "agentic \<Rightarrow> agentic" where
  "request_stop_issuing s =
     (if ag_stopping s then signal_done_if_no_inflight s
      else signal_done_if_no_inflight
             (s\<lparr>ag_stopping := True, ag_delay_handles := Map.empty, ag_active := Map.empty\<rparr>))"

definition stop_tracking_once :: "agentic \<Rightarrow> agentic" where
  "stop_tracking_once s =
     (if ag_tracking_stopped s then s
      else let (p, w) = stop_performance_tracking (ag_issuer s) (ag_world s)
           in s\<lparr>ag_tracking_stopped := True, ag_issuer := p, ag_world := w\<rparr>)"

definition add_callback :: "callback option \<Rightarrow> agentic \<Rightarrow> agentic" where
  "add_callback cb s = (case cb of None \<Rightarrow> s | Some c \<Rightarrow> s\<lparr>ag_callbacks := ag_callbacks s @ [c]\<rparr>)"

definition call_issue ::
    "int \<Rightarrow> pydict option \<Rightarrow> string \<Rightarrow> int \<Rightarrow> agentic \<Rightarrow> (string option) result \<times> agentic" where
  "call_issue idx ov cid turn s =
     (let (r, cb, p, w) = issue (ag_stops s (ag_spos s)) idx ov cid (Some turn) (ag_issuer s) (ag_world s)
      in (r, add_callback cb (s\<lparr>ag_spos := ag_spos s + 1, ag_issuer := p, ag_world := w\<rparr>)))"

text \<open>\<open>_issue_turn_now\<close>; the exception it raises, if any.\<close>

definition issue_turn_now ::
    "(string \<Rightarrow> string) \<Rightarrow> string \<Rightarrow> int \<Rightarrow> int \<Rightarrow> agentic \<Rightarrow> py_exc option \<times> agentic" where
  "issue_turn_now digest cid idx turn s0 =
     (let s = s0\<lparr>ag_delay_handles := (ag_delay_handles s0)(cid := None)\<rparr>
      in if ag_stopping s then (None, s)
         else case ag_active s cid of
           None \<Rightarrow> (None, s)
         | Some (source_id, turns, cursor, repeat_id) \<Rightarrow>
             (if cursor \<ge> length turns \<or> turns ! cursor \<noteq> (idx, turn) then (None, s)
              else case build_data_override digest source_id turn repeat_id s of
                Inl e \<Rightarrow> (Some e, s)
              | Inr ov \<Rightarrow>
                  (case call_issue idx ov cid turn s of
                     (Inl e, s1) \<Rightarrow> (Some e, s1)
                   | (Inr None, s1) \<Rightarrow> (None, request_stop_issuing s1)
                   | (Inr (Some qid), s1) \<Rightarrow>
                       (None, s1\<lparr>ag_active := (ag_active s1)(cid \<mapsto> (source_id, turns, cursor + 1, repeat_id)),
                                 ag_inflight := (ag_inflight s1)(qid \<mapsto> cid),
                                 ag_timeout_handles := insert qid (ag_timeout_handles s1)\<rparr>))))"

definition record_error :: "py_exc option \<times> agentic \<Rightarrow> agentic" where
  "record_error r = (case r of (None, s) \<Rightarrow> s | (Some e, s) \<Rightarrow> s\<lparr>ag_error := Some e, ag_all_done := True\<rparr>)"

text \<open>
  \<open>_fill_slot\<close>, \<open>_finish_conversation\<close>, \<open>_issue_next_turn\<close> and \<open>_start_conversation\<close> call each other
  when a conversation has no turn to issue.  Each takes the next one as an argument; \<open>fill_slot\<close>
  closes the loop, once for every trajectory still in the budget.
\<close>

definition finish_with :: "(agentic \<Rightarrow> agentic) \<Rightarrow> string \<Rightarrow> agentic \<Rightarrow> agentic" where
  "finish_with fill cid s0 =
     (let s = s0\<lparr>ag_active := (ag_active s0)(cid := None)\<rparr>
      in if \<not> has_more_instances s then
           (let s1 = stop_tracking_once s
            in if ag_stop_first s1 then request_stop_issuing s1 else fill s1)
         else fill s)"

definition issue_next_with ::
    "(agentic \<Rightarrow> agentic) \<Rightarrow> (string \<Rightarrow> string) \<Rightarrow> string \<Rightarrow> agentic \<Rightarrow> py_exc option \<times> agentic" where
  "issue_next_with fill digest cid s =
     (if ag_stopping s then (None, s)
      else case ag_active s cid of
        None \<Rightarrow> (None, s)
      | Some (source_id, turns, cursor, repeat_id) \<Rightarrow>
          (if cursor \<ge> length turns then (None, finish_with fill cid s)
           else
             let (idx, turn) = turns ! cursor;
                 delay = (if ag_inject_delay s then ag_delays s (source_id, turn) else 0)
             in if delay > 0
                then (None, s\<lparr>ag_delay_handles := (ag_delay_handles s)(cid \<mapsto> (idx, turn))\<rparr>)
                else issue_turn_now digest cid idx turn s))"

definition start_with ::
    "(agentic \<Rightarrow> agentic) \<Rightarrow> (string \<Rightarrow> string) \<Rightarrow> agentic \<Rightarrow> py_exc option \<times> agentic" where
  "start_with fill digest s =
     (if ag_stopping s then (None, s)
      else case next_instance s of
        (None, s1) \<Rightarrow> (None, if \<not> has_work_remaining s1 then s1\<lparr>ag_all_done := True\<rparr> else s1)
      | (Some (lid, source_id, turns, repeat_id), s1) \<Rightarrow>
          issue_next_with fill digest lid
            (s1\<lparr>ag_conv_states := get_or_create lid (Some (int (length turns))) (ag_conv_states s1),
                ag_active := (ag_active s1)(lid \<mapsto> (source_id, turns, 0, repeat_id))\<rparr>))"

definition fill_with :: "(agentic \<Rightarrow> py_exc option \<times> agentic) \<Rightarrow> agentic \<Rightarrow> agentic" where
  "fill_with start s =
     (if ag_stopping s then signal_done_if_no_inflight s
      else if has_more_instances s then record_error (start s)
      else if \<not> has_work_remaining s then s\<lparr>ag_all_done := True\<rparr> else s)"

primrec fill_slot_fuel :: "(string \<Rightarrow> string) \<Rightarrow> nat \<Rightarrow> agentic \<Rightarrow> agentic" where
  "fill_slot_fuel digest 0 = fill_with (\<lambda>s. (None, s))"
| "fill_slot_fuel digest (Suc n) = fill_with (start_with (fill_slot_fuel digest n) digest)"

definition fill_slot :: "(string \<Rightarrow> string) \<Rightarrow> agentic \<Rightarrow> agentic" where
  "fill_slot digest s = fill_slot_fuel digest (trajectory_budget s - ag_started s) s"

definition start_conversation :: "(string \<Rightarrow> string) \<Rightarrow> agentic \<Rightarrow> py_exc option \<times> agentic" where
  "start_conversation digest s = start_with (fill_slot digest) digest s"

definition issue_next_turn :: "(string \<Rightarrow> string) \<Rightarrow> string \<Rightarrow> agentic \<Rightarrow> py_exc option \<times> agentic" where
  "issue_next_turn digest cid s = issue_next_with (fill_slot digest) digest cid s"

definition finish_conversation :: "(string \<Rightarrow> string) \<Rightarrow> string \<Rightarrow> agentic \<Rightarrow> agentic" where
  "finish_conversation digest cid s = finish_with (fill_slot digest) cid s"

section \<open>Failures\<close>

definition mk_synthetic :: "string \<Rightarrow> error_data \<Rightarrow> query_result" where
  "mk_synthetic qid err = \<lparr>qr_id = qid, qr_output = None, qr_error = Some err, qr_finish_reason = None,
     qr_worker_id = None, qr_completed_at = None\<rparr>"

definition publish_synthetic_failure ::
    "string \<Rightarrow> string \<Rightarrow> int option \<Rightarrow> error_data \<Rightarrow> world \<Rightarrow> world" where
  "publish_synthetic_failure qid cid turn err w =
     (let (t1, w1) = monotonic_ns w;
          w2 = emit [Publish (mk_sample_event (ErrorEv GENERIC) t1 qid cid turn (ErrorD err))] w1;
          (t2, w3) = monotonic_ns w2
      in emit [Publish (mk_sample_event (SampleEv COMPLETE) t2 qid cid turn NoData),
               SampleComplete (mk_synthetic qid err)] w3)"

text \<open>The loop of \<open>_abort_remaining_turns\<close>: the exception that may leave it, the dropped turns.\<close>

fun abort_turns :: "string \<Rightarrow> string \<Rightarrow> turns \<Rightarrow> agentic \<Rightarrow> py_exc option \<times> nat \<times> agentic" where
  "abort_turns cid reason [] s = (None, 0, s)"
| "abort_turns cid reason ((idx, turn) # ts) s =
     (case mark_turn_failed cid (ag_conv_states s) of
        Inl e \<Rightarrow> (Some e, 0, s)
      | Inr m \<Rightarrow>
          (let (skipped, p, w) = register_skipped (ag_stops s (ag_spos s)) idx cid (Some turn) (ag_issuer s) (ag_world s);
               s1 = s\<lparr>ag_conv_states := m, ag_spos := ag_spos s + 1, ag_issuer := p, ag_world := w\<rparr>
           in (case skipped of
                 None \<Rightarrow> (None, 0, s1)
               | Some qid \<Rightarrow>
                   (let (e, n, s2) = abort_turns cid reason ts
                      (s1\<lparr>ag_world := publish_synthetic_failure qid cid (Some turn)
                            \<lparr>error_type = ''TurnAbortedByPriorFailure'', error_message = reason\<rparr> (ag_world s1)\<rparr>)
                    in (e, Suc n, s2)))))"

definition abort_remaining_turns :: "string \<Rightarrow> string \<Rightarrow> agentic \<Rightarrow> py_exc option \<times> nat \<times> agentic" where
  "abort_remaining_turns cid reason s =
     (let s1 = s\<lparr>ag_delay_handles := (ag_delay_handles s)(cid := None), ag_active := (ag_active s)(cid := None)\<rparr>
      in (case ag_active s cid of
            None \<Rightarrow> (None, 0, s1)
          | Some (source_id, turns, cursor, repeat_id) \<Rightarrow> abort_turns cid reason (drop cursor turns) s1))"

text \<open>An exception in the loop ends the callback; the event loop or the caller logs it.\<close>

definition abort_and_finish :: "(string \<Rightarrow> string) \<Rightarrow> string \<Rightarrow> string \<Rightarrow> agentic \<Rightarrow> agentic" where
  "abort_and_finish digest cid reason s =
     (case abort_remaining_turns cid reason s of
        (Some e, n, s1) \<Rightarrow> s1
      | (None, n, s1) \<Rightarrow> finish_conversation digest cid s1)"

text \<open>The part of \<open>_handle_timeout\<close> that ends the query in the issuer.\<close>

definition end_timed_out :: "string \<Rightarrow> agentic \<Rightarrow> (string \<times> int option) \<times> agentic" where
  "end_timed_out qid s =
     (if uuid_to_index (ag_issuer s) qid = None then (([], None), s)
      else
        let (cb, p, w) = mark_inflight_complete (ag_issuer s) (ag_world s);
            info = (case uuid_to_conv_info p qid of Some i \<Rightarrow> i | None \<Rightarrow> ([], None))
        in (info, add_callback cb (s\<lparr>ag_issuer := p\<lparr>completed_uuids := insert qid (completed_uuids p),
              uuid_to_conv_info := (uuid_to_conv_info p)(qid := None)\<rparr>, ag_world := w\<rparr>)))"

definition handle_timeout :: "(string \<Rightarrow> string) \<Rightarrow> string \<Rightarrow> string \<Rightarrow> agentic \<Rightarrow> agentic" where
  "handle_timeout digest qid cid s0 =
     (if ag_inflight s0 qid = None then s0
      else
        let s = s0\<lparr>ag_inflight := (ag_inflight s0)(qid := None), ag_timeout_handles := ag_timeout_handles s0 - {qid}\<rparr>;
            ((conv, turn), s1) = end_timed_out qid s
        in (case mark_turn_failed cid (ag_conv_states s1) of
              Inl e \<Rightarrow> s1
            | Inr m \<Rightarrow>
                abort_and_finish digest cid (''prior turn timed out (query='' @ qid @ '')'')
                  (s1\<lparr>ag_conv_states := m,
                      ag_world := publish_synthetic_failure qid conv turn
                        \<lparr>error_type = ''TurnTimeout'', error_message = ''turn timeout after '' @ ag_turn_timeout s0 @ ''s''\<rparr> (ag_world s1)\<rparr>)))"

definition on_sample_complete :: "(string \<Rightarrow> string) \<Rightarrow> string \<Rightarrow> error_data option \<Rightarrow> agentic \<Rightarrow> agentic" where
  "on_sample_complete digest qid err s0 =
     (case ag_inflight s0 qid of
        None \<Rightarrow> s0
      | Some cid \<Rightarrow>
          (let s = s0\<lparr>ag_inflight := (ag_inflight s0)(qid := None), ag_timeout_handles := ag_timeout_handles s0 - {qid}\<rparr>
           in (case (if err \<noteq> None then mark_turn_failed else mark_turn_complete) cid (ag_conv_states s) of
                 Inl e \<Rightarrow> fill_slot digest (s\<lparr>ag_active := (ag_active s)(cid := None)\<rparr>)
               | Inr m \<Rightarrow>
                   (let s1 = s\<lparr>ag_conv_states := m\<rparr>
                    in case err of
                         Some e \<Rightarrow> abort_and_finish digest cid (''prior turn errored: '' @ error_type e) s1
                       | None \<Rightarrow>
                           if ag_stopping s1 then signal_done_if_no_inflight s1
                           else record_error (issue_next_turn digest cid s1)))))"

section \<open>Execution\<close>

text \<open>What the session does with a final response before it calls the strategy (\<open>_handle_response\<close>).\<close>

definition session_response :: "(string \<Rightarrow> string) \<Rightarrow> string \<Rightarrow> error_data option \<Rightarrow> agentic \<Rightarrow> agentic" where
  "session_response digest qid err s =
     (let p = ag_issuer s
      in if qid \<in> completed_uuids p then s
         else
           let p1 = p\<lparr>uuid_to_conv_info := (uuid_to_conv_info p)(qid := None)\<rparr>
           in if uuid_to_index p1 qid = None then s\<lparr>ag_issuer := p1\<rparr>
              else
                let (cb, p2, w2) = mark_inflight_complete p1 (ag_world s)
                in on_sample_complete digest qid err
                     (add_callback cb (s\<lparr>ag_issuer := p2, ag_world := w2\<rparr>)))"

definition execute_init :: "(string \<times> int \<times> int) list \<Rightarrow> rng option \<Rightarrow> agentic \<Rightarrow> agentic" where
  "execute_init samples r s =
     (let convs = base_convs samples
      in s\<lparr>ag_all_done := False, ag_error := None, ag_stopping := False, ag_active := Map.empty,
           ag_inflight := Map.empty, ag_started := 0, ag_tracking_stopped := False,
           ag_convs := convs, ag_order := make_conversation_order (length convs) r\<rparr>)"

primrec start_many :: "(string \<Rightarrow> string) \<Rightarrow> nat \<Rightarrow> agentic \<Rightarrow> py_exc option \<times> agentic" where
  "start_many digest 0 s = (None, s)"
| "start_many digest (Suc n) s = (case start_conversation digest s of
       (Some e, s1) \<Rightarrow> (Some e, s1)
     | (None, s1) \<Rightarrow> start_many digest n s1)"

definition execute_cleanup :: "agentic \<Rightarrow> agentic" where
  "execute_cleanup s = s\<lparr>ag_timeout_handles := {}, ag_delay_handles := Map.empty, ag_inflight := Map.empty\<rparr>"

text \<open>\<open>execute\<close> up to its wait: it raises, returns at once, or waits (\<open>Inr True\<close>).\<close>

definition execute_start ::
    "(string \<Rightarrow> string) \<Rightarrow> (string \<times> int \<times> int) list \<Rightarrow> rng option \<Rightarrow> agentic \<Rightarrow> bool result \<times> agentic" where
  "execute_start digest samples r s =
     (let s1 = execute_init samples r s
      in (case validate_salt_system_prompts s1 of
            Inl e \<Rightarrow> (Inl e, s1)
          | Inr _ \<Rightarrow>
              (case start_many digest (initial_conversations_to_start s1) s1 of
                 (Some e, s2) \<Rightarrow> (Inl e, execute_cleanup s2)
               | (None, s2) \<Rightarrow>
                   if \<not> has_work_remaining s2 then (Inr False, execute_cleanup s2) else (Inr True, s2))))"

definition execute_end :: "agentic \<Rightarrow> int result \<times> agentic" where
  "execute_end s = ((case ag_error s of Some e \<Rightarrow> Inl e | None \<Rightarrow> Inr (issued_count (ag_issuer s))), execute_cleanup s)"

datatype agentic_event = Respond string "error_data option" | TimeoutFires string | DelayFires string

fun agentic_step :: "(string \<Rightarrow> string) \<Rightarrow> agentic \<Rightarrow> agentic_event \<Rightarrow> agentic" where
  "agentic_step digest s (Respond qid err) = session_response digest qid err s"
| "agentic_step digest s (TimeoutFires qid) =
     (case ag_inflight s qid of
        Some cid \<Rightarrow> (if qid \<in> ag_timeout_handles s then handle_timeout digest qid cid s else s)
      | None \<Rightarrow> s)"
| "agentic_step digest s (DelayFires cid) =
     (case ag_delay_handles s cid of
        Some (idx, turn) \<Rightarrow> record_error (issue_turn_now digest cid idx turn s)
      | None \<Rightarrow> s)"

end
