(* ===== verification/AgenticFacts.thy ===== *)
theory AgenticFacts
  imports Agentic
begin

text \<open>
  What the agentic strategy keeps: at most the target number of conversations is active, each has
  at most one turn outstanding, and while \<open>execute\<close> waits something is outstanding that will wake
  it.  One lemma per operation, in the order of \<open>Agentic.thy\<close>; the operations that call each other
  through \<open>fill_slot\<close> are proved for any \<open>fill\<close> that meets its contract, and \<open>fill_slot\<close> then
  meets it by induction on its fuel.
\<close>

section \<open>The invariant\<close>

text \<open>The logical ids of the conversations that will still be started.\<close>

fun planned :: "nat \<Rightarrow> agentic \<Rightarrow> string list" where
  "planned 0 s = []"
| "planned (Suc n) s = (case next_instance s of
       (None, s1) \<Rightarrow> []
     | (Some (lid, _), s1) \<Rightarrow> lid # planned n s1)"

definition planned_ids :: "agentic \<Rightarrow> string list" where
  "planned_ids s = planned (trajectory_budget s - ag_started s) s"

definition outstanding :: "agentic \<Rightarrow> string \<Rightarrow> bool" where
  "outstanding s c = ((\<exists>q. ag_inflight s q = Some c) \<or> ag_delay_handles s c \<noteq> None)"

definition bounded :: "nat \<Rightarrow> agentic \<Rightarrow> bool" where
  "bounded n s = (finite (dom (ag_active s)) \<and> card (dom (ag_active s)) \<le> n)"

definition queries_ok :: "agentic \<Rightarrow> bool" where
  "queries_ok s = (inj (uuids (ag_world s))
     \<and> dom (ag_inflight s) \<subseteq> uuids (ag_world s) ` {..<upos (ag_world s)}
     \<and> dom (ag_inflight s) \<subseteq> ag_timeout_handles s
     \<and> dom (ag_active s) \<subseteq> dom (ag_conv_states s) \<and> ran (ag_inflight s) \<subseteq> dom (ag_conv_states s))"

text \<open>The turn a conversation issues next.\<close>

definition next_turn :: "(string \<times> turns \<times> nat \<times> nat) option \<Rightarrow> (int \<times> int) option" where
  "next_turn v = (case v of
       Some (src, ts, cursor, k) \<Rightarrow> (if cursor < length ts then Some (ts ! cursor) else None) | None \<Rightarrow> None)"

definition turns_ok :: "agentic \<Rightarrow> bool" where
  "turns_ok s = (if ag_stopping s then ag_active s = Map.empty \<and> ag_delay_handles s = Map.empty
     else ran (ag_inflight s) \<subseteq> dom (ag_active s) \<and> dom (ag_delay_handles s) \<subseteq> dom (ag_active s)
       \<and> (\<forall>q q' c. ag_inflight s q = Some c \<longrightarrow> ag_inflight s q' = Some c \<longrightarrow> q = q')
       \<and> (\<forall>q c. ag_inflight s q = Some c \<longrightarrow> ag_delay_handles s c = None)
       \<and> (\<forall>c it. ag_delay_handles s c = Some it \<longrightarrow> next_turn (ag_active s c) = Some it))"

definition plan_ok :: "agentic \<Rightarrow> bool" where
  "plan_ok s = ((ag_convs s \<noteq> [] \<longrightarrow> ag_order s \<noteq> None)
     \<and> (\<not> ag_stopping s \<longrightarrow> distinct (planned_ids s) \<and> set (planned_ids s) \<inter> dom (ag_active s) = {}))"

definition ag_inv :: "nat \<Rightarrow> agentic \<Rightarrow> bool" where
  "ag_inv n s = (bounded n s \<and> queries_ok s \<and> turns_ok s \<and> plan_ok s)"

text \<open>Every active conversation other than those in \<open>X\<close> waits for something.\<close>

definition settled :: "string set \<Rightarrow> agentic \<Rightarrow> bool" where
  "settled X s = (ag_all_done s \<or> ag_stopping s \<or> (\<forall>c\<in>dom (ag_active s) - X. outstanding s c))"

definition live :: "agentic \<Rightarrow> bool" where
  "live s = (ag_all_done s \<or> (if ag_stopping s then ag_inflight s \<noteq> Map.empty
     else dom (ag_active s) \<noteq> {} \<and> (\<forall>c\<in>dom (ag_active s). outstanding s c)))"

definition idle :: "string \<Rightarrow> agentic \<Rightarrow> bool" where
  "idle c s = ((\<forall>q. ag_inflight s q \<noteq> Some c) \<and> ag_delay_handles s c = None)"

lemma live_settled: "live s \<Longrightarrow> settled X s"
  unfolding live_def settled_def by (cases "ag_stopping s") (simp, metis DiffD1)

lemma live_outstanding: "live s \<Longrightarrow> ag_all_done s \<or> ag_inflight s \<noteq> Map.empty \<or> ag_delay_handles s \<noteq> Map.empty"
proof -
  assume l: "live s"
  consider "ag_all_done s" | "ag_inflight s \<noteq> Map.empty" | c where "outstanding s c"
    using l unfolding live_def by (cases "ag_stopping s") auto
  then show ?thesis by cases (auto simp: outstanding_def)
qed

section \<open>Frames\<close>

text \<open>The fields the plan depends on, and those the invariant depends on.\<close>

definition plan_view :: "agentic \<Rightarrow> (string \<times> turns) list \<times> order option \<times> nat option \<times> nat" where
  "plan_view s = (ag_convs s, ag_order s, ag_num s, ag_started s)"

lemma plan_view_budget:
  "plan_view s = plan_view t \<Longrightarrow> trajectory_budget s = trajectory_budget t \<and> has_more_instances s = has_more_instances t"
  by (auto simp: plan_view_def trajectory_budget_def has_more_instances_def has_trajectory_budget_def split: option.splits)

lemma next_instance_view:
  assumes "plan_view s = plan_view t"
  shows "fst (next_instance s) = fst (next_instance t) \<and> plan_view (snd (next_instance s)) = plan_view (snd (next_instance t))"
  using assms plan_view_budget [OF assms]
  by (auto simp: next_instance_def plan_view_def split: option.splits prod.splits)

lemma planned_view: "plan_view s = plan_view t \<Longrightarrow> planned n s = planned n t"
proof (induction n arbitrary: s t)
  case (Suc n)
  obtain r s1 where s: "next_instance s = (r, s1)" by force
  obtain r' t1 where t: "next_instance t = (r', t1)" by force
  have "r = r'" "plan_view s1 = plan_view t1" using next_instance_view [OF Suc.prems] by (simp_all add: s t)
  then show ?case using Suc.IH [of s1 t1] by (cases r') (auto simp: s t)
qed simp

lemma planned_ids_view: "plan_view s = plan_view t \<Longrightarrow> planned_ids s = planned_ids t"
  using plan_view_budget [of s t] planned_view [of s t]
  by (simp add: planned_ids_def plan_view_def)

lemma plan_ok_view:
  assumes "plan_view s = plan_view t" "ag_stopping s = ag_stopping t \<or> ag_stopping s" "dom (ag_active s) \<subseteq> dom (ag_active t)" "plan_ok t"
  shows "plan_ok s"
  using assms planned_ids_view [OF assms(1)] by (auto simp: plan_ok_def plan_view_def)

text \<open>What the issuer's calls leave alone.\<close>

definition world_grows :: "world \<Rightarrow> world \<Rightarrow> bool" where
  "world_grows w w' = (uuids w' = uuids w \<and> upos w \<le> upos w')"

lemma world_grows_refl [simp]: "world_grows w w"
  by (simp add: world_grows_def)

lemma world_grows_trans: "world_grows w w1 \<Longrightarrow> world_grows w1 w2 \<Longrightarrow> world_grows w w2"
  by (auto simp: world_grows_def)

text \<open>A state that differs in the issuer's side, the counters and the conversation states only.\<close>

definition same_turns :: "agentic \<Rightarrow> agentic \<Rightarrow> bool" where
  "same_turns s t = (ag_active s = ag_active t \<and> ag_inflight s = ag_inflight t
     \<and> ag_delay_handles s = ag_delay_handles t \<and> ag_timeout_handles s = ag_timeout_handles t
     \<and> ag_stopping s = ag_stopping t \<and> ag_all_done s = ag_all_done t \<and> plan_view s = plan_view t
     \<and> dom (ag_conv_states s) = dom (ag_conv_states t) \<and> world_grows (ag_world t) (ag_world s)
     \<and> ag_stop_first s = ag_stop_first t)"

lemma same_turns_trans: "same_turns s t \<Longrightarrow> same_turns t u \<Longrightarrow> same_turns s u"
  by (auto simp: same_turns_def intro: world_grows_trans)

lemma same_turns_refl [simp]: "same_turns s s"
  by (simp add: same_turns_def)

lemma queries_ok_grows:
  assumes "queries_ok t" "world_grows (ag_world t) (ag_world s)" "dom (ag_inflight s) \<subseteq> dom (ag_inflight t)"
    "ag_timeout_handles s \<inter> dom (ag_inflight s) = ag_timeout_handles t \<inter> dom (ag_inflight s)"
    "dom (ag_active s) \<subseteq> dom (ag_conv_states s)" "ran (ag_inflight s) \<subseteq> dom (ag_conv_states s)"
  shows "queries_ok s"
proof -
  have w: "uuids (ag_world s) = uuids (ag_world t)" "{..<upos (ag_world t)} \<subseteq> {..<upos (ag_world s)}"
    using assms(2) by (auto simp: world_grows_def)
  have "dom (ag_inflight t) \<subseteq> uuids (ag_world t) ` {..<upos (ag_world t)}" using assms(1) by (simp add: queries_ok_def)
  also have "\<dots> \<subseteq> uuids (ag_world s) ` {..<upos (ag_world s)}" unfolding w(1) by (rule image_mono [OF w(2)])
  finally have "dom (ag_inflight s) \<subseteq> uuids (ag_world s) ` {..<upos (ag_world s)}" using assms(3) by blast
  moreover have "dom (ag_inflight s) \<subseteq> ag_timeout_handles s"
    using assms(1,3,4) unfolding queries_ok_def by blast
  ultimately show ?thesis using assms unfolding queries_ok_def world_grows_def by simp
qed

lemma same_turnsD:
  assumes "same_turns s t"
  shows "ag_active s = ag_active t" "ag_inflight s = ag_inflight t" "ag_delay_handles s = ag_delay_handles t"
    "ag_timeout_handles s = ag_timeout_handles t" "ag_stopping s = ag_stopping t" "ag_all_done s = ag_all_done t"
    "plan_view s = plan_view t" "dom (ag_conv_states s) = dom (ag_conv_states t)"
    "world_grows (ag_world t) (ag_world s)" "ag_stop_first s = ag_stop_first t"
  using assms unfolding same_turns_def by blast+

lemma ag_inv_same:
  assumes "ag_inv n t" "same_turns s t"
  shows "ag_inv n s"
proof -
  note e = same_turnsD [OF assms(2)]
  have t: "bounded n t" "queries_ok t" "turns_ok t" "plan_ok t" using assms(1) by (simp_all add: ag_inv_def)
  have "bounded n s" using t(1) by (simp only: bounded_def e)
  moreover have "turns_ok s" using t(3) by (simp only: turns_ok_def e)
  moreover have "queries_ok s"
  proof (rule queries_ok_grows [OF t(2) e(9)])
    show "dom (ag_active s) \<subseteq> dom (ag_conv_states s)" "ran (ag_inflight s) \<subseteq> dom (ag_conv_states s)"
      using t(2) unfolding queries_ok_def e by blast+
  qed (simp_all add: e)
  moreover have "plan_ok s" by (rule plan_ok_view [OF e(7) _ _ t(4)]) (simp_all add: e)
  ultimately show ?thesis by (simp add: ag_inv_def)
qed

lemma settled_same: "same_turns s t \<Longrightarrow> settled X s = settled X t"
  by (simp add: settled_def same_turns_def outstanding_def)

lemma live_same: "same_turns s t \<Longrightarrow> live s = live t"
  by (simp add: live_def same_turns_def outstanding_def)

lemma issue_grows:
  assumes "issue stop i ov cid turn p w = (r, cb, p', w')"
  shows "world_grows w w'" and "r = Inr (Some q) \<Longrightarrow> q = uuids w (upos w) \<and> upos w' = Suc (upos w)"
  using issue_cases [OF assms] by (auto simp: world_grows_def issue_failed_def issue_sent_def Let_def)

lemma call_issue_same:
  assumes "call_issue idx ov cid turn s = (r, s')"
  shows "same_turns s' s" and "r = Inr (Some q) \<Longrightarrow> q = uuids (ag_world s) (upos (ag_world s)) \<and> upos (ag_world s') = Suc (upos (ag_world s))"
proof -
  obtain r0 cb p w where i: "issue (ag_stops s (ag_spos s)) idx ov cid (Some turn) (ag_issuer s) (ag_world s) = (r0, cb, p, w)"
    by (metis prod_cases4)
  have s': "r0 = r" "s' = add_callback cb (s\<lparr>ag_spos := ag_spos s + 1, ag_issuer := p, ag_world := w\<rparr>)"
    using assms by (simp_all add: call_issue_def i)
  show "same_turns s' s"
    using issue_grows(1) [OF i] by (cases cb) (simp_all add: s' add_callback_def same_turns_def plan_view_def)
  show "q = uuids (ag_world s) (upos (ag_world s)) \<and> upos (ag_world s') = Suc (upos (ag_world s))" if "r = Inr (Some q)"
    using issue_grows(2) [OF i] that by (cases cb) (simp_all add: s' add_callback_def)
qed

lemma stop_tracking_same: "same_turns (stop_tracking_once s) s"
  by (auto simp: stop_tracking_once_def stop_performance_tracking_def same_turns_def plan_view_def world_grows_def
      monotonic_ns_def split: prod.splits)

section \<open>Ending the issuing\<close>

lemma signal_done_spec:
  assumes "ag_inv n s" "ag_stopping s"
  shows "ag_inv n (signal_done_if_no_inflight s) \<and> live (signal_done_if_no_inflight s)"
proof (cases "ag_inflight s = Map.empty")
  case True
  have "ag_inv n (s\<lparr>ag_all_done := True\<rparr>)"
    using assms(1) by (simp add: ag_inv_def bounded_def queries_ok_def turns_ok_def plan_ok_def
        planned_ids_view [of "s\<lparr>ag_all_done := True\<rparr>" s] plan_view_def)
  then show ?thesis using True by (simp add: signal_done_if_no_inflight_def live_def)
qed (use assms in \<open>simp add: signal_done_if_no_inflight_def live_def\<close>)

lemma all_done_inv: "ag_inv n s \<Longrightarrow> ag_inv n (s\<lparr>ag_error := e, ag_all_done := True\<rparr>)"
  "ag_inv n s \<Longrightarrow> ag_inv n (s\<lparr>ag_all_done := True\<rparr>)"
  by (simp_all add: ag_inv_def bounded_def queries_ok_def turns_ok_def plan_ok_def
        planned_ids_view [of "s\<lparr>ag_error := e, ag_all_done := True\<rparr>" s]
        planned_ids_view [of "s\<lparr>ag_all_done := True\<rparr>" s] plan_view_def)

lemma request_stop_spec:
  assumes "ag_inv n s"
  shows "ag_inv n (request_stop_issuing s) \<and> live (request_stop_issuing s)"
proof (cases "ag_stopping s")
  case True
  then show ?thesis using signal_done_spec [OF assms] by (simp add: request_stop_issuing_def)
next
  case False
  let ?s = "s\<lparr>ag_stopping := True, ag_delay_handles := Map.empty, ag_active := Map.empty\<rparr>"
  have "ag_inv n ?s" using assms by (simp add: ag_inv_def bounded_def queries_ok_def turns_ok_def plan_ok_def)
  from signal_done_spec [OF this] show ?thesis using False by (simp add: request_stop_issuing_def)
qed

lemma record_error_spec:
  assumes "ag_inv n (snd r)" "fst r = None \<Longrightarrow> live (snd r)"
  shows "ag_inv n (record_error r) \<and> live (record_error r)"
proof (cases r)
  case (Pair e s)
  show ?thesis
  proof (cases e)
    case None
    then show ?thesis using assms by (simp add: Pair record_error_def)
  next
    case (Some x)
    then show ?thesis using assms(1) all_done_inv(1) [of n s "Some x"]
      by (simp add: Pair Some record_error_def live_def)
  qed
qed

section \<open>Issuing a turn\<close>

text \<open>A conversation that has nothing outstanding gets its query.\<close>

lemma sent_spec:
  assumes inv: "ag_inv n s" and st: "\<not> ag_stopping s" and act: "ag_active s cid \<noteq> None" and idle: "idle cid s"
    and grows: "same_turns s1 s" and q: "q = uuids (ag_world s) (upos (ag_world s))" "upos (ag_world s1) = Suc (upos (ag_world s))"
    and s2: "s2 = s1\<lparr>ag_active := (ag_active s1)(cid \<mapsto> v), ag_inflight := (ag_inflight s1)(q \<mapsto> cid),
      ag_timeout_handles := insert q (ag_timeout_handles s1)\<rparr>"
  shows "ag_inv n s2" and "settled {cid} s \<Longrightarrow> live s2"
proof -
  note e = same_turnsD [OF grows]
  have i: "bounded n s" "queries_ok s" "turns_ok s" "plan_ok s" using inv by (simp_all add: ag_inv_def)
  have f: "ag_active s2 = (ag_active s)(cid \<mapsto> v)" "ag_inflight s2 = (ag_inflight s)(q \<mapsto> cid)"
    "ag_delay_handles s2 = ag_delay_handles s" "ag_timeout_handles s2 = insert q (ag_timeout_handles s)"
    "ag_stopping s2 = ag_stopping s" "ag_all_done s2 = ag_all_done s" "plan_view s2 = plan_view s"
    "dom (ag_conv_states s2) = dom (ag_conv_states s)"
    "uuids (ag_world s2) = uuids (ag_world s)" "upos (ag_world s2) = Suc (upos (ag_world s))"
    using e q(2) by (simp_all add: s2 world_grows_def plan_view_def)
  have uw: "inj (uuids (ag_world s))" "dom (ag_inflight s) \<subseteq> uuids (ag_world s) ` {..<upos (ag_world s)}"
    "dom (ag_inflight s) \<subseteq> ag_timeout_handles s" "dom (ag_active s) \<subseteq> dom (ag_conv_states s)"
    "ran (ag_inflight s) \<subseteq> dom (ag_conv_states s)"
    using i(2) unfolding queries_ok_def by blast+
  have fresh: "ag_inflight s q = None"
  proof (rule ccontr)
    assume "ag_inflight s q \<noteq> None"
    then have "uuids (ag_world s) (upos (ag_world s)) \<in> uuids (ag_world s) ` {..<upos (ag_world s)}" using uw(2) q(1) by blast
    then show False using uw(1) by (auto dest: injD)
  qed
  have ran: "ran (ag_inflight s2) = insert cid (ran (ag_inflight s))" using fresh by (simp add: f(2))
  have dom_act: "dom (ag_active s2) = dom (ag_active s)" using act by (auto simp: f(1))
  have "bounded n s2" using i(1) by (simp add: bounded_def dom_act)
  moreover have "queries_ok s2"
  proof -
    have "uuids (ag_world s) ` {..<upos (ag_world s)} \<union> {q} \<subseteq> uuids (ag_world s) ` {..<Suc (upos (ag_world s))}"
      by (auto simp: q(1))
    then have "dom (ag_inflight s2) \<subseteq> uuids (ag_world s2) ` {..<upos (ag_world s2)}"
      using uw(2) unfolding f by (simp only: dom_fun_upd) auto
    then show ?thesis using uw act ran unfolding queries_ok_def f(4,8,9) dom_act by (auto simp: f(2))
  qed
  moreover have "turns_ok s2"
    using i(3) st act idle fresh unfolding turns_ok_def f(3,5) dom_act ran
    by (auto simp: f(1,2) idle_def)
  moreover have "plan_ok s2" by (rule plan_ok_view [OF f(7) _ _ i(4)]) (simp_all add: f(5) dom_act)
  ultimately show "ag_inv n s2" by (simp add: ag_inv_def)
  show "live s2" if "settled {cid} s"
  proof -
    have "outstanding s2 c" if c: "c \<in> dom (ag_active s)" and nd: "\<not> ag_all_done s" for c
    proof (cases "c = cid")
      case False
      then have "outstanding s c" using \<open>settled {cid} s\<close> st c nd unfolding settled_def by blast
      then show ?thesis using fresh unfolding outstanding_def f(2,3) by (metis fun_upd_other option.distinct(1))
    qed (auto simp: outstanding_def f(2))
    then show ?thesis using st act dom_act unfolding live_def f(5,6) by auto
  qed
qed

lemma issue_turn_now_spec:
  assumes inv: "ag_inv n s0" and st: "\<not> ag_stopping s0" and act: "ag_active s0 cid \<noteq> None"
    and nq: "\<forall>q. ag_inflight s0 q \<noteq> Some cid" and set: "settled {cid} s0"
    and cur: "\<And>src ts cursor k. ag_active s0 cid = Some (src, ts, cursor, k) \<Longrightarrow> cursor < length ts \<and> ts ! cursor = (idx, turn)"
    and r: "issue_turn_now digest cid idx turn s0 = (x, s')"
  shows "ag_inv n s' \<and> (x = None \<longrightarrow> live s')"
proof -
  let ?s = "s0\<lparr>ag_delay_handles := (ag_delay_handles s0)(cid := None)\<rparr>"
  obtain src ts cursor k where a: "ag_active s0 cid = Some (src, ts, cursor, k)" using act by (cases "ag_active s0 cid") auto
  have i: "bounded n s0" "queries_ok s0" "turns_ok s0" "plan_ok s0" using inv by (simp_all add: ag_inv_def)
  have "turns_ok ?s" using i(3) st by (auto simp: turns_ok_def)
  moreover have "plan_ok ?s" by (rule plan_ok_view [OF _ _ _ i(4)]) (simp_all add: plan_view_def)
  ultimately have inv': "ag_inv n ?s" using i(1,2) by (simp add: ag_inv_def bounded_def queries_ok_def)
  have set': "settled {cid} ?s" using set st by (auto simp: settled_def outstanding_def)
  have idle: "idle cid ?s" using nq by (simp add: idle_def)
  have go: "issue_turn_now digest cid idx turn s0 = (case build_data_override digest src turn k ?s of
      Inl e \<Rightarrow> (Some e, ?s)
    | Inr ov \<Rightarrow> (case call_issue idx ov cid turn ?s of
         (Inl e, s1) \<Rightarrow> (Some e, s1)
       | (Inr None, s1) \<Rightarrow> (None, request_stop_issuing s1)
       | (Inr (Some qid), s1) \<Rightarrow>
           (None, s1\<lparr>ag_active := (ag_active s1)(cid \<mapsto> (src, ts, cursor + 1, k)),
                     ag_inflight := (ag_inflight s1)(qid \<mapsto> cid),
                     ag_timeout_handles := insert qid (ag_timeout_handles s1)\<rparr>)))"
    using st a cur [OF a] by (simp add: issue_turn_now_def Let_def)
  show ?thesis
  proof (cases "build_data_override digest src turn k ?s")
    case (Inl e)
    then show ?thesis using go r inv' by auto
  next
    case (Inr ov)
    obtain res s1 where c: "call_issue idx ov cid turn ?s = (res, s1)" by force
    note same = call_issue_same [OF c]
    have inv1: "ag_inv n s1" by (rule ag_inv_same [OF inv' same(1)])
    consider (exc) e where "res = Inl e" | (stopped) "res = Inr None" | (sent) q where "res = Inr (Some q)"
      by (cases res) (auto simp: not_None_eq)
    then show ?thesis
    proof cases
      case exc
      then show ?thesis using go r inv1 by (auto simp: Inr c)
    next
      case stopped
      then show ?thesis using go r request_stop_spec [OF inv1] by (auto simp: Inr c)
    next
      case (sent q)
      have s': "x = None" "s' = s1\<lparr>ag_active := (ag_active s1)(cid \<mapsto> (src, ts, cursor + 1, k)),
          ag_inflight := (ag_inflight s1)(q \<mapsto> cid), ag_timeout_handles := insert q (ag_timeout_handles s1)\<rparr>"
        using go r by (simp_all add: Inr c sent)
      note q = same(2) [OF sent]
      have st': "\<not> ag_stopping ?s" "ag_active ?s cid \<noteq> None" using st act by simp_all
      show ?thesis
        using sent_spec [OF inv' st' idle same(1) conjunct1 [OF q] conjunct2 [OF q] s'(2)] set' by simp
    qed
  qed
qed

section \<open>Conversations that call each other\<close>

text \<open>What \<open>fill\<close> may be asked: the slot is free and everything active waits for something.\<close>

definition fill_pre :: "nat \<Rightarrow> agentic \<Rightarrow> bool" where
  "fill_pre n s = (ag_inv n s \<and> settled {} s \<and> (\<not> ag_stopping s \<longrightarrow> card (dom (ag_active s)) < n))"

definition fill_ok :: "nat \<Rightarrow> nat \<Rightarrow> (agentic \<Rightarrow> agentic) \<Rightarrow> bool" where
  "fill_ok n k fill = (\<forall>s. fill_pre n s \<longrightarrow> trajectory_budget s - ag_started s \<le> k \<longrightarrow> ag_inv n (fill s) \<and> live (fill s))"

lemma drop_active_inv:
  assumes "ag_inv n s" "\<not> ag_stopping s \<longrightarrow> idle cid s"
  shows "ag_inv n (s\<lparr>ag_active := (ag_active s)(cid := None)\<rparr>)"
    and "\<not> ag_stopping s \<Longrightarrow> cid \<in> dom (ag_active s) \<or> card (dom (ag_active s)) < n \<Longrightarrow>
      card (dom (ag_active (s\<lparr>ag_active := (ag_active s)(cid := None)\<rparr>))) < n"
proof -
  let ?s = "s\<lparr>ag_active := (ag_active s)(cid := None)\<rparr>"
  have i: "bounded n s" "queries_ok s" "turns_ok s" "plan_ok s" using assms(1) by (simp_all add: ag_inv_def)
  have fin: "finite (dom (ag_active s))" "card (dom (ag_active s)) \<le> n" using i(1) by (simp_all add: bounded_def)
  have "bounded n ?s" using fin card_dom_del_le [OF fin(1), of cid] by (simp add: bounded_def)
  moreover have "queries_ok ?s" using i(2) by (auto simp: queries_ok_def)
  moreover have "turns_ok ?s"
  proof (cases "ag_stopping s")
    case False
    then have "idle cid s" using assms(2) by simp
    then have "cid \<notin> ran (ag_inflight s)" "cid \<notin> dom (ag_delay_handles s)" by (auto simp: idle_def ran_def)
    then show ?thesis using i(3) False by (auto simp: turns_ok_def)
  qed (use i(3) in \<open>simp add: turns_ok_def\<close>)
  moreover have "plan_ok ?s" by (rule plan_ok_view [OF _ _ _ i(4)]) (auto simp: plan_view_def)
  ultimately show "ag_inv n ?s" by (simp add: ag_inv_def)
  show "card (dom (ag_active ?s)) < n" if "cid \<in> dom (ag_active s) \<or> card (dom (ag_active s)) < n"
  proof (cases "cid \<in> dom (ag_active s)")
    case True
    then obtain v where "ag_active s cid = Some v" by auto
    from card_dom_del [OF fin(1) this] fin(2) show ?thesis by simp
  next
    case False
    then show ?thesis using that card_dom_del_le [OF fin(1), of cid] by simp
  qed
qed

lemma finish_spec:
  assumes "fill_ok n k fill" "ag_inv n s" "settled {cid} s" "\<not> ag_stopping s \<longrightarrow> idle cid s"
    and "\<not> ag_stopping s \<longrightarrow> cid \<in> dom (ag_active s) \<or> card (dom (ag_active s)) < n"
    and "trajectory_budget s - ag_started s \<le> k"
  shows "ag_inv n (finish_with fill cid s) \<and> live (finish_with fill cid s)"
proof -
  let ?s = "s\<lparr>ag_active := (ag_active s)(cid := None)\<rparr>"
  have view: "plan_view ?s = plan_view s" by (simp add: plan_view_def)
  have inv: "ag_inv n ?s" by (rule drop_active_inv(1) [OF assms(2,4)])
  have "settled {} ?s" using assms(3) by (auto simp: settled_def outstanding_def)
  then have pre: "fill_pre n ?s" using inv drop_active_inv(2) [OF assms(2,4)] assms(5) by (simp add: fill_pre_def)
  have bud: "trajectory_budget ?s - ag_started ?s \<le> k"
    using assms(6) plan_view_budget [OF view] by simp
  note st = stop_tracking_same [of ?s]
  have pre1: "fill_pre n (stop_tracking_once ?s)"
    using pre ag_inv_same [OF _ st] settled_same [OF st] same_turnsD [OF st] by (simp add: fill_pre_def)
  have bud1: "trajectory_budget (stop_tracking_once ?s) - ag_started (stop_tracking_once ?s) \<le> k"
    using bud same_turnsD(7) [OF st] plan_view_budget [OF same_turnsD(7) [OF st]] by (simp add: plan_view_def)
  have f: "ag_inv n (fill t) \<and> live (fill t)" if "fill_pre n t" "trajectory_budget t - ag_started t \<le> k" for t
    using assms(1) that unfolding fill_ok_def by blast
  have "ag_inv n (request_stop_issuing (stop_tracking_once ?s)) \<and> live (request_stop_issuing (stop_tracking_once ?s))"
    using pre1 by (intro request_stop_spec) (simp add: fill_pre_def)
  then show ?thesis
    using f [OF pre bud] f [OF pre1 bud1] by (simp add: finish_with_def Let_def)
qed

lemma issue_next_spec:
  assumes "fill_ok n k fill" "ag_inv n s" "settled {cid} s" "\<not> ag_stopping s" "idle cid s"
    and "ag_active s cid \<noteq> None" "trajectory_budget s - ag_started s \<le> k"
    and r: "issue_next_with fill digest cid s = (x, s')"
  shows "ag_inv n s' \<and> (x = None \<longrightarrow> live s')"
proof -
  obtain src ts cursor rep where a: "ag_active s cid = Some (src, ts, cursor, rep)"
    using assms(6) by (cases "ag_active s cid") auto
  show ?thesis
  proof (cases "cursor \<ge> length ts")
    case True
    have "cid \<in> dom (ag_active s)" using a by auto
    then have "ag_inv n (finish_with fill cid s) \<and> live (finish_with fill cid s)"
      using finish_spec [OF assms(1-3)] assms(5,7) by blast
    then show ?thesis using r assms(4) a True by (simp add: issue_next_with_def)
  next
    case False
    obtain idx turn where t: "ts ! cursor = (idx, turn)" by force
    let ?delay = "if ag_inject_delay s then ag_delays s (src, turn) else 0"
    show ?thesis
    proof (cases "?delay > 0")
      case True
      let ?s = "s\<lparr>ag_delay_handles := (ag_delay_handles s)(cid \<mapsto> (idx, turn))\<rparr>"
      have s': "x = None" "s' = ?s" using r assms(4) a False t True by (auto simp: issue_next_with_def Let_def)
      have i: "bounded n s" "queries_ok s" "turns_ok s" "plan_ok s" using assms(2) by (simp_all add: ag_inv_def)
      have "next_turn (ag_active s cid) = Some (idx, turn)" using False by (simp add: next_turn_def a t)
      then have "turns_ok ?s" using i(3) assms(4-6) a by (auto simp: turns_ok_def idle_def)
      moreover have "plan_ok ?s" by (rule plan_ok_view [OF _ _ _ i(4)]) (simp_all add: plan_view_def)
      ultimately have "ag_inv n ?s" using i(1,2) by (simp add: ag_inv_def bounded_def queries_ok_def)
      moreover have "live ?s"
      proof -
        have "outstanding ?s c" if "c \<in> dom (ag_active s)" "\<not> ag_all_done s" for c
          using assms(3,4) that by (cases "c = cid") (auto simp: settled_def outstanding_def)
        then show ?thesis using assms(4,6) unfolding live_def by auto
      qed
      ultimately show ?thesis by (simp add: s')
    next
      case nodelay: False
      have "issue_turn_now digest cid idx turn s = (x, s')"
        using r assms(4) a False t nodelay by (simp add: issue_next_with_def Let_def)
      moreover have "cursor < length ts \<and> ts ! cursor = (idx, turn)" using False t by simp
      ultimately show ?thesis
        using assms(5) a by (intro issue_turn_now_spec [OF assms(2,4,6) _ assms(3)]) (auto simp: idle_def)
    qed
  qed
qed

section \<open>Filling a slot\<close>

lemma next_instance_SomeD:
  assumes "next_instance s = (Some (lid, src, ts, k), s1)"
  shows "s1 = s\<lparr>ag_order := ag_order s1, ag_started := ag_started s + 1\<rparr>" and "ag_order s1 \<noteq> None"
    and "ag_started s < trajectory_budget s" and "planned_ids s = lid # planned_ids s1"
proof -
  show s1: "s1 = s\<lparr>ag_order := ag_order s1, ag_started := ag_started s + 1\<rparr>" and "ag_order s1 \<noteq> None"
    and bud: "ag_started s < trajectory_budget s"
    using assms by (auto simp: next_instance_def Let_def has_more_instances_def has_trajectory_budget_def
        split: if_splits option.splits prod.splits)
  have e: "trajectory_budget s1 = trajectory_budget s" "ag_started s1 = Suc (ag_started s)"
    using arg_cong [OF s1, of trajectory_budget] arg_cong [OF s1, of ag_started]
    by (simp_all add: trajectory_budget_def split: option.splits)
  have "trajectory_budget s - ag_started s = Suc (trajectory_budget s1 - ag_started s1)" using e bud by simp
  then show "planned_ids s = lid # planned_ids s1" unfolding planned_ids_def by (simp add: assms)
qed

lemma next_instance_NoneD:
  assumes "next_instance s = (None, s1)"
  shows "s1 = s" and "plan_ok s \<Longrightarrow> \<not> has_more_instances s"
  using assms by (auto simp: next_instance_def Let_def plan_ok_def has_more_instances_def split: if_splits option.splits prod.splits)

text \<open>With no instance left the strategy is done or something active still waits.\<close>

lemma no_more_spec:
  assumes "ag_inv n s" "settled {} s" "\<not> ag_stopping s" "\<not> has_more_instances s"
    and "s' = (if \<not> has_work_remaining s then s\<lparr>ag_all_done := True\<rparr> else s)"
  shows "ag_inv n s' \<and> live s'"
proof (cases "has_work_remaining s")
  case True
  have "turns_ok s" using assms(1) by (simp add: ag_inv_def)
  then have "ran (ag_inflight s) \<subseteq> dom (ag_active s)" "dom (ag_delay_handles s) \<subseteq> dom (ag_active s)"
    using assms(3) by (simp_all add: turns_ok_def)
  moreover have "ag_active s \<noteq> Map.empty \<or> ag_inflight s \<noteq> Map.empty \<or> ag_delay_handles s \<noteq> Map.empty"
    using True assms(3,4) by (simp add: has_work_remaining_def)
  moreover have "ag_inflight s = Map.empty" if "ran (ag_inflight s) \<subseteq> {}"
  proof (rule ext, rule ccontr)
    fix q assume "ag_inflight s q \<noteq> None"
    then show False using that by (auto simp: ran_def)
  qed
  ultimately have "dom (ag_active s) \<noteq> {}" by auto
  then show ?thesis using assms(1-3,5) True by (auto simp: live_def settled_def)
next
  case False
  then show ?thesis using all_done_inv(2) [OF assms(1)] assms(5) by (simp add: live_def)
qed

text \<open>A conversation that has just been activated.\<close>

lemma activate_inv:
  assumes inv: "ag_inv n s" and st: "\<not> ag_stopping s" and card: "card (dom (ag_active s)) < n"
    and nx: "next_instance s = (Some (lid, src, ts, k), s1)"
    and s2: "s2 = s1\<lparr>ag_conv_states := get_or_create lid e (ag_conv_states s1), ag_active := (ag_active s1)(lid \<mapsto> v)\<rparr>"
  shows "ag_inv n s2" and "idle lid s2" and "settled {} s \<Longrightarrow> settled {lid} s2"
proof -
  note s1 = next_instance_SomeD [OF nx]
  have i: "bounded n s" "queries_ok s" "turns_ok s" "plan_ok s" using inv by (simp_all add: ag_inv_def)
  have "ag_active s1 = ag_active s" "ag_conv_states s1 = ag_conv_states s"
    using arg_cong [OF s1(1), of ag_active] arg_cong [OF s1(1), of ag_conv_states] by simp_all
  then have f: "ag_active s2 = (ag_active s)(lid \<mapsto> v)" "dom (ag_conv_states s2) = insert lid (dom (ag_conv_states s))"
    by (auto simp: s2 get_or_create_def split: option.splits)
  have g: "ag_inflight s2 = ag_inflight s" "ag_delay_handles s2 = ag_delay_handles s"
    "ag_timeout_handles s2 = ag_timeout_handles s" "ag_world s2 = ag_world s" "ag_stopping s2 = ag_stopping s"
    "ag_all_done s2 = ag_all_done s" "ag_convs s2 = ag_convs s"
    unfolding s2 by (subst s1(1), simp)+
  have pv: "plan_view s2 = plan_view s1" by (simp add: s2 plan_view_def)
  have fresh: "lid \<notin> dom (ag_active s)" and dist: "distinct (lid # planned_ids s2)"
    and disj: "set (planned_ids s2) \<inter> dom (ag_active s) = {}"
    using i(4) st s1(4) planned_ids_view [OF pv] by (auto simp: plan_ok_def)
  have ran: "ran (ag_inflight s) \<subseteq> dom (ag_active s)" "dom (ag_delay_handles s) \<subseteq> dom (ag_active s)"
    using i(3) st by (simp_all add: turns_ok_def)
  have nod: "ag_delay_handles s lid = None" and noq: "\<forall>q. ag_inflight s q \<noteq> Some lid"
    using fresh ran by (auto simp: ran_def)
  then show "idle lid s2" by (simp add: idle_def g)
  have "bounded n s2" using i(1) card fresh by (simp add: bounded_def f(1))
  moreover have "queries_ok s2"
    using i(2) unfolding queries_ok_def g f by auto
  moreover have "turns_ok s2" using i(3) st nod unfolding turns_ok_def g f by (auto simp: f)
  moreover have "plan_ok s2"
    using dist disj s1(2) pv st unfolding plan_ok_def by (simp add: f g plan_view_def)
  ultimately show "ag_inv n s2" by (simp add: ag_inv_def)
  show "settled {lid} s2" if "settled {} s"
    using that unfolding settled_def outstanding_def g by (auto simp: f)
qed

lemma start_spec:
  assumes "fill_ok n k fill" "fill_pre n s" "\<not> ag_stopping s" "trajectory_budget s - ag_started s \<le> Suc k"
    and r: "start_with fill digest s = (x, s')"
  shows "ag_inv n s' \<and> (x = None \<longrightarrow> live s')"
proof -
  have inv: "ag_inv n s" and set: "settled {} s" and card: "card (dom (ag_active s)) < n"
    using assms(2,3) by (simp_all add: fill_pre_def)
  obtain o' s1 where nx: "next_instance s = (o', s1)" by force
  show ?thesis
  proof (cases o')
    case None
    note n = next_instance_NoneD [OF nx [unfolded None]]
    have "\<not> has_more_instances s" using n(2) inv by (simp add: ag_inv_def)
    then show ?thesis
      using no_more_spec [OF inv set assms(3) _ refl] r assms(3) n(1) by (auto simp: start_with_def nx None)
  next
    case (Some p)
    obtain lid src ts rep where p: "p = (lid, src, ts, rep)" by (metis prod_cases4)
    note nx' = nx [unfolded Some p]
    note s1 = next_instance_SomeD [OF nx']
    let ?s = "s1\<lparr>ag_conv_states := get_or_create lid (Some (int (length ts))) (ag_conv_states s1),
                ag_active := (ag_active s1)(lid \<mapsto> (src, ts, 0, rep))\<rparr>"
    note a = activate_inv [OF inv assms(3) card nx' refl, of "(src, ts, 0, rep)" "Some (int (length ts))"]
    have st: "\<not> ag_stopping ?s" using assms(3) arg_cong [OF s1(1), of ag_stopping] by simp
    have bud: "trajectory_budget ?s - ag_started ?s \<le> k"
      using assms(4) arg_cong [OF s1(1), of trajectory_budget] arg_cong [OF s1(1), of ag_started]
      by (simp add: trajectory_budget_def split: option.splits)
    have "issue_next_with fill digest lid ?s = (x, s')" using r assms(3) by (simp add: start_with_def nx Some p)
    then show ?thesis
      by (intro issue_next_spec [OF assms(1) a(1) a(3) [OF set] st a(2) _ bud]) simp_all
  qed
qed

lemma fill_with_spec:
  assumes "fill_pre n s"
    and "has_more_instances s \<Longrightarrow> \<not> ag_stopping s \<Longrightarrow> ag_inv n (snd (start s)) \<and> (fst (start s) = None \<longrightarrow> live (snd (start s)))"
  shows "ag_inv n (fill_with start s) \<and> live (fill_with start s)"
proof -
  have inv: "ag_inv n s" "settled {} s" using assms(1) by (simp_all add: fill_pre_def)
  consider (stop) "ag_stopping s" | (more) "\<not> ag_stopping s" "has_more_instances s"
    | (no) "\<not> ag_stopping s" "\<not> has_more_instances s" by blast
  then show ?thesis
  proof cases
    case stop
    then show ?thesis using signal_done_spec [OF inv(1)] by (simp add: fill_with_def)
  next
    case more
    then show ?thesis using record_error_spec [of n "start s"] assms(2) by (simp add: fill_with_def)
  next
    case no
    then show ?thesis using no_more_spec [OF inv no refl] by (simp add: fill_with_def)
  qed
qed

lemma fill_slot_fuel_ok: "fill_ok n k (fill_slot_fuel digest k)"
proof (induction k)
  case 0
  show ?case unfolding fill_ok_def
  proof (intro allI impI)
    fix s assume s: "fill_pre n s" "trajectory_budget s - ag_started s \<le> 0"
    have "\<not> has_more_instances s" using s(2) by (simp add: has_more_instances_def has_trajectory_budget_def)
    then show "ag_inv n (fill_slot_fuel digest 0 s) \<and> live (fill_slot_fuel digest 0 s)"
      using fill_with_spec [OF s(1)] by simp
  qed
next
  case (Suc k)
  show ?case unfolding fill_ok_def
  proof (intro allI impI)
    fix s assume s: "fill_pre n s" "trajectory_budget s - ag_started s \<le> Suc k"
    have "ag_inv n (snd (start_with (fill_slot_fuel digest k) digest s)) \<and>
        (fst (start_with (fill_slot_fuel digest k) digest s) = None \<longrightarrow> live (snd (start_with (fill_slot_fuel digest k) digest s)))"
      if "\<not> ag_stopping s"
      by (rule start_spec [OF Suc s(1) that s(2)]) simp
    then show "ag_inv n (fill_slot_fuel digest (Suc k) s) \<and> live (fill_slot_fuel digest (Suc k) s)"
      using fill_with_spec [OF s(1)] by simp
  qed
qed

lemma fill_slot_ok: "fill_ok n k (fill_slot digest)"
  unfolding fill_ok_def fill_slot_def using fill_slot_fuel_ok [unfolded fill_ok_def] by blast

end
