(* ===== verification/AgenticPlan.thy ===== *)
theory AgenticPlan
  imports AgenticFacts
begin

text \<open>
  Which conversations an execution starts.  A trajectory's logical id is its source id, with a
  suffix from the second repeat on; the ids of one execution are pairwise different when no id of
  the dataset is another one with such a suffix.  The order that is drawn from visits every
  conversation once per round (\<open>SampleOrder.thy\<close>), and the round is the suffix.
\<close>

section \<open>The conversations of one execution are distinct\<close>

text \<open>An id whose repeats cannot be taken for another conversation of the dataset.\<close>

definition ids_clear :: "string set \<Rightarrow> bool" where
  "ids_clear C = (\<forall>c\<in>C. \<forall>c'\<in>C. \<forall>k. c \<noteq> c' @ ''__repeat_'' @ digits k)"

lemma digits_chars: "set (digits n) \<subseteq> char_of ` {48..<58::nat}"
proof (induction n rule: digits.induct)
  case (1 n)
  then show ?case by (subst digits.simps) auto
qed

lemma digits_no_underscore: "CHR ''_'' \<notin> set (digits n)"
proof
  assume "CHR ''_'' \<in> set (digits n)"
  then obtain k :: nat where k: "k \<in> {48..<58}" "CHR ''_'' = char_of k" using digits_chars by blast
  have "of_char (CHR ''_'') = (of_char (char_of k :: char) :: nat)" using k(2) by simp
  then show False using k(1) by (simp add: of_char_of)
qed

lemma digits_inj: "digits a = digits b \<Longrightarrow> a = b"
proof (induction a arbitrary: b rule: digits.induct)
  case (1 a)
  have ne: "digits n \<noteq> []" for n by (subst digits.simps) simp
  have c: "(char_of (48 + x) :: char) = char_of (48 + y) \<Longrightarrow> x < 10 \<Longrightarrow> y < 10 \<Longrightarrow> x = y" for x y :: nat
    by (drule arg_cong [of _ _ "of_char :: char \<Rightarrow> nat"]) simp
  show ?case
  proof (cases "a < 10"; cases "b < 10")
    assume ab: "a < 10" "b < 10"
    then show ?thesis using "1.prems" c [of a b] by (simp add: digits.simps [of a] digits.simps [of b])
  next
    assume "a < 10" "\<not> b < 10"
    then show ?thesis using "1.prems" ne [of "b div 10"] by (simp add: digits.simps [of a] digits.simps [of b])
  next
    assume "\<not> a < 10" "b < 10"
    then show ?thesis using "1.prems" ne [of "a div 10"] by (simp add: digits.simps [of a] digits.simps [of b])
  next
    assume ab: "\<not> a < 10" "\<not> b < 10"
    have "digits (a div 10) = digits (b div 10)" "a mod 10 = b mod 10"
      using "1.prems" ab c [of "a mod 10" "b mod 10"]
      by (simp_all add: digits.simps [of a] digits.simps [of b])
    then show ?thesis using "1.IH" [OF ab(1)] by (metis div_mult_mod_eq)
  qed
qed

lemma repeat_suffix_inj:
  assumes "a @ ''__repeat_'' @ digits j = b @ ''__repeat_'' @ digits k"
  shows "a = b \<and> j = k"
proof -
  let ?P = "\<lambda>c. c \<noteq> CHR ''_''"
  have tw: "takeWhile ?P (rev (x @ ''__repeat_'' @ digits i)) = rev (digits i)" for x i
    using digits_no_underscore [of i] by (simp add: takeWhile_append)
  have "rev (digits j) = rev (digits k)" using tw [of a j] tw [of b k] assms by metis
  then have "j = k" using digits_inj by simp
  then show ?thesis using assms by simp
qed

lemma logical_id_inj:
  assumes "ids_clear C" "a \<in> C" "b \<in> C" "logical_id a i = logical_id b j"
  shows "a = b \<and> i = j"
  using assms repeat_suffix_inj [of a i b j] by (auto simp: logical_id_def ids_clear_def split: if_splits)

subsection \<open>The ids in terms of the drawn indices\<close>

lemma planned_draws:
  assumes "ag_order s = Some ord" "ag_started s + n \<le> trajectory_budget s" "ag_convs s \<noteq> []"
  shows "planned n s = map (\<lambda>j. logical_id (fst (ag_convs s ! nat (fst (draw_many order_next n ord) ! j)))
      ((ag_started s + j) div length (ag_convs s) + 1)) [0..<n]"
  using assms
proof (induction n arbitrary: s ord)
  case (Suc n)
  obtain i ord' where o': "order_next ord = (i, ord')" by force
  obtain src ts where c: "ag_convs s ! nat i = (src, ts)" by force
  let ?s = "s\<lparr>ag_order := Some ord', ag_started := ag_started s + 1\<rparr>"
  obtain is' o'' where d: "draw_many order_next n ord' = (is', o'')" by force
  have more: "has_more_instances s" using Suc.prems by (simp add: has_more_instances_def has_trajectory_budget_def)
  have nx: "next_instance s = (Some (logical_id src (ag_started s div length (ag_convs s) + 1), src, ts,
      ag_started s div length (ag_convs s) + 1), ?s)"
    using more Suc.prems(1) by (simp add: next_instance_def o' c)
  have ih: "planned n ?s = map (\<lambda>j. logical_id (fst (ag_convs s ! nat (is' ! j)))
      ((ag_started s + 1 + j) div length (ag_convs s) + 1)) [0..<n]"
    using Suc.IH [of ?s ord'] Suc.prems by (simp add: trajectory_budget_def d split: option.splits)
  have up: "[0..<Suc n] = 0 # map Suc [0..<n]" by (simp add: map_Suc_upt upt_conv_Cons)
  show ?case unfolding up by (simp add: nx ih [simplified] o' d c o_def)
qed simp

lemma draw_prefix: "fst (draw_many f n s) = take n (fst (draw_many f (n + m) s))"
  by (simp add: draw_many_add Let_def case_prod_beta)

lemma order_draws:
  "fst (draw_many order_next k (WithoutReplacement w)) = fst (draw_many without_replacement_next k w)"
  "fst (draw_many order_next k (Sequential q)) = fst (draw_many sequential_next k q)"
  by (induction k arbitrary: w q) (simp_all add: Let_def case_prod_beta)

text \<open>Within one round over the conversations no index is drawn twice.\<close>

definition rounds_distinct :: "nat \<Rightarrow> int list \<Rightarrow> bool" where
  "rounds_distinct L is = (set is \<subseteq> {0..<int L} \<and>
     (\<forall>j k. j < length is \<longrightarrow> k < length is \<longrightarrow> j div L = k div L \<longrightarrow> is ! j = is ! k \<longrightarrow> j = k))"

lemma rounds_distinct_blocks:
  assumes "0 < L" "set is \<subseteq> {0..<int L}" "\<And>i. distinct (take L (drop (i * L) is))"
  shows "rounds_distinct L is"
proof -
  have "j = k" if jk: "j < length is" "k < length is" "j div L = k div L" "is ! j = is ! k" for j k
  proof -
    have nth: "take L (drop (x div L * L) is) ! (x mod L) = is ! x" "x mod L < length (take L (drop (x div L * L) is))"
      if "x < length is" for x
    proof -
      have "x div L * L \<le> length is" using that by (meson div_times_less_eq_dividend less_imp_le order_trans)
      then show "take L (drop (x div L * L) is) ! (x mod L) = is ! x" "x mod L < length (take L (drop (x div L * L) is))"
        using that assms(1) by (simp_all add: less_diff_conv)
    qed
    have "j mod L = k mod L"
      using nth [OF jk(1)] nth [OF jk(2)] jk(3,4) assms(3) [of "k div L"]
      by (metis nth_eq_iff_index_eq)
    then show ?thesis using jk(3) by (metis div_mult_mod_eq)
  qed
  then show ?thesis using assms(2) by (simp add: rounds_distinct_def)
qed

lemma make_conversation_order_some: "n \<noteq> 0 \<Longrightarrow> \<exists>ord. make_conversation_order n r = Some ord"
  by (cases r) (simp_all add: make_conversation_order_def without_replacement_init_def sequential_init_def)

lemma conversation_order_rounds:
  assumes "make_conversation_order L r = Some ord" "0 < L"
  shows "rounds_distinct L (fst (draw_many order_next n ord))"
proof (cases r)
  case None
  then have ord: "ord = Sequential \<lparr>sq_n = int L, sq_curr_idx = 0\<rparr>"
    using assms by (auto simp: make_conversation_order_def sequential_init_def)
  have is': "fst (draw_many order_next n ord) = map (\<lambda>i. int i mod int L) [0..<n]"
    using assms(2) by (simp add: ord order_draws sequential_draws sq_inv_def)
  show ?thesis unfolding is' rounds_distinct_def
    using assms(2) by (auto simp flip: zmod_int) (metis div_mult_mod_eq)
next
  case (Some g)
  then obtain w where w: "without_replacement_init (int L) g = Inr w" and ord: "ord = WithoutReplacement w"
    using assms by (auto simp: make_conversation_order_def split: sum.splits)
  let ?all = "fst (draw_many without_replacement_next (Suc n * L) w)"
  have pre: "fst (draw_many order_next n ord) = take n ?all"
  proof -
    have "n \<le> Suc n * L" using assms(2) by (cases L) simp_all
    then have "Suc n * L = n + (Suc n * L - n)" by simp
    then show ?thesis unfolding ord order_draws by (metis draw_prefix)
  qed
  have blk: "mset (take L (drop (i * L) ?all)) = mset (range_list (int L))" if "i < Suc n" for i
    using wr_blocks [of w i "Suc n"] wr_init_boundary [OF w] that by simp
  have dist: "distinct (take L (drop (i * L) (take n ?all)))" for i
  proof (cases "i < Suc n")
    case True
    have "distinct (range_list (int L))" by (simp add: range_list_def distinct_map)
    then have d: "distinct (take L (drop (i * L) ?all))"
      by (simp only: mset_eq_imp_distinct_iff [OF blk [OF True]])
    have "take L (drop (i * L) (take n ?all)) = take (min L (n - i * L)) (drop (i * L) ?all)"
      by (simp only: drop_take take_take)
    also have "\<dots> = take (n - i * L) (take L (drop (i * L) ?all))" by (simp only: take_take min.commute)
    finally show ?thesis using distinct_take [OF d] by (simp only:)
  next
    case False
    then have "n \<le> i * L" using assms(2) by (cases L) (simp_all add: trans_le_add1)
    then show ?thesis by simp
  qed
  have "set (fst (draw_many order_next n ord)) \<subseteq> {0..<int L}"
    using ord.draws_in_range [of ord n] wr_init_boundary [OF w] by (simp add: ord wr_boundary_def)
  then show ?thesis unfolding pre by (intro rounds_distinct_blocks assms(2) dist)
qed

lemma planned_ids_distinct:
  assumes "ag_started s = 0" "ag_order s = make_conversation_order (length (ag_convs s)) r"
    and "ids_clear (fst ` set (ag_convs s))" "distinct (map fst (ag_convs s))"
  shows "distinct (planned_ids s)"
proof (cases "ag_convs s = []")
  case True
  then have "planned n s = []" for n by (cases n) (simp_all add: next_instance_def has_more_instances_def)
  then show ?thesis by (simp add: planned_ids_def)
next
  case False
  let ?L = "length (ag_convs s)" and ?n = "trajectory_budget s"
  obtain ord where ord: "make_conversation_order ?L r = Some ord"
    using make_conversation_order_some [of ?L r] False by auto
  let ?is = "fst (draw_many order_next ?n ord)"
  have L: "0 < ?L" using False by simp
  note rd = conversation_order_rounds [OF ord L, of ?n, unfolded rounds_distinct_def]
  have eq: "planned_ids s = map (\<lambda>j. logical_id (fst (ag_convs s ! nat (?is ! j))) (j div ?L + 1)) [0..<?n]"
    using planned_draws [of s ord ?n] assms(1,2) ord False by (simp add: planned_ids_def)
  have inj: "inj_on (\<lambda>j. logical_id (fst (ag_convs s ! nat (?is ! j))) (j div ?L + 1)) {0..<?n}"
  proof (rule inj_onI)
    fix j k
    assume jk: "j \<in> {0..<?n}" "k \<in> {0..<?n}"
      and id: "logical_id (fst (ag_convs s ! nat (?is ! j))) (j div ?L + 1) = logical_id (fst (ag_convs s ! nat (?is ! k))) (k div ?L + 1)"
    have len: "j < length ?is" "k < length ?is" using jk by simp_all
    have rng: "?is ! j \<in> {0..<int ?L}" "?is ! k \<in> {0..<int ?L}" using rd len nth_mem by blast+
    then have i: "nat (?is ! j) < ?L" "nat (?is ! k) < ?L" by auto
    have "fst (ag_convs s ! nat (?is ! j)) = fst (ag_convs s ! nat (?is ! k)) \<and> j div ?L + 1 = k div ?L + 1"
      by (rule logical_id_inj [OF assms(3) _ _ id]) (use i in auto)
    then have "nat (?is ! j) = nat (?is ! k)" "j div ?L = k div ?L"
      using assms(4) i by (auto simp: distinct_conv_nth)
    then show "j = k" using rd len rng by auto
  qed
  show ?thesis unfolding eq distinct_map using inj by simp
qed

end
