(* ===== verification/AgenticRuns.thy ===== *)
theory AgenticRuns
  imports AgenticPlan
begin

text \<open>
  Failures, and whole executions of the agentic strategy: every event keeps the invariant of
  \<open>AgenticFacts.thy\<close> and something that will wake the waiting \<open>execute\<close>.
\<close>

section \<open>Failures\<close>

lemma publish_synthetic_grows [simp]: "world_grows w w' \<Longrightarrow> world_grows w (publish_synthetic_failure q c t e w')"
  by (simp add: publish_synthetic_failure_def world_grows_def monotonic_ns_def emit_def Let_def)

lemma register_skipped_grows:
  "register_skipped stop i c t p w = (r, p', w') \<Longrightarrow> world_grows w w'"
  by (auto simp: register_skipped_def world_grows_def monotonic_ns_def new_uuid_def emit_def split: if_splits)

lemma mark_inflight_complete_grows:
  "mark_inflight_complete p w = (cb, p', w') \<Longrightarrow> world_grows w w'"
  by (auto simp: mark_inflight_complete_def world_grows_def emit_def Let_def split: if_splits)

lemma mark_turn_ok:
  assumes "cid \<in> dom m"
  shows "\<exists>m'. mark_turn_failed cid m = Inr m' \<and> dom m' = dom m" "\<exists>m'. mark_turn_complete cid m = Inr m' \<and> dom m' = dom m"
  using assms by (auto simp: mark_turn_failed_def mark_turn_complete_def)

lemma add_callback_same: "same_turns (add_callback cb s) s"
  by (cases cb) (simp_all add: add_callback_def same_turns_def plan_view_def)

lemma abort_turns_same:
  "cid \<in> dom (ag_conv_states s) \<Longrightarrow> \<exists>n s'. abort_turns cid reason ts s = (None, n, s') \<and> same_turns s' s"
proof (induction ts arbitrary: s)
  case (Cons t ts)
  obtain idx turn where t: "t = (idx, turn)" by force
  obtain m where m: "mark_turn_failed cid (ag_conv_states s) = Inr m" "dom m = dom (ag_conv_states s)"
    using mark_turn_ok(1) [OF Cons.prems] by blast
  obtain sk p w where r: "register_skipped (ag_stops s (ag_spos s)) idx cid (Some turn) (ag_issuer s) (ag_world s) = (sk, p, w)"
    by (metis prod_cases3)
  note g = register_skipped_grows [OF r]
  let ?s = "s\<lparr>ag_conv_states := m, ag_spos := ag_spos s + 1, ag_issuer := p, ag_world := w\<rparr>"
  show ?case
  proof (cases sk)
    case None
    have "same_turns ?s s" using g m(2) by (simp add: same_turns_def plan_view_def)
    then show ?thesis by (simp add: t m(1) r None)
  next
    case (Some qid)
    let ?t = "?s\<lparr>ag_world := publish_synthetic_failure qid cid (Some turn)
                            \<lparr>error_type = ''TurnAbortedByPriorFailure'', error_message = reason\<rparr> w\<rparr>"
    have same: "same_turns ?t s" using g m(2) by (simp add: same_turns_def plan_view_def)
    have "cid \<in> dom (ag_conv_states ?t)" using Cons.prems m(2) by simp
    from Cons.IH [OF this] obtain n s' where ih: "abort_turns cid reason ts ?t = (None, n, s')" "same_turns s' ?t" by blast
    have "abort_turns cid reason (t # ts) s = (let (e, n, s2) = abort_turns cid reason ts ?t in (e, Suc n, s2))"
      by (simp add: t m(1) r Some)
    then have "abort_turns cid reason (t # ts) s = (None, Suc n, s')" by (simp only: ih(1) Let_def prod.case)
    then show ?thesis using same_turns_trans [OF ih(2) same] by blast
  qed
qed simp

text \<open>What the callbacks of one query leave for the rest: the conversation waits for nothing.\<close>

lemma drop_query_inv:
  assumes inv: "ag_inv n s" and q: "ag_inflight s qid = Some cid"
    and s': "s' = s\<lparr>ag_inflight := (ag_inflight s)(qid := None), ag_timeout_handles := ag_timeout_handles s - {qid}\<rparr>"
  shows "ag_inv n s'" and "\<not> ag_stopping s \<Longrightarrow> idle cid s' \<and> ag_active s' cid \<noteq> None" and "cid \<in> dom (ag_conv_states s')"
    and "live s \<Longrightarrow> settled {cid} s'"
proof -
  have i: "bounded n s" "queries_ok s" "turns_ok s" "plan_ok s" using inv by (simp_all add: ag_inv_def)
  have ran: "ran ((ag_inflight s)(qid := None)) \<subseteq> ran (ag_inflight s)" by (auto simp: ran_def)
  have "queries_ok s'"
  proof (rule queries_ok_grows [OF i(2)])
    show "ag_timeout_handles s' \<inter> dom (ag_inflight s') = ag_timeout_handles s \<inter> dom (ag_inflight s')" by (auto simp: s')
    show "ran (ag_inflight s') \<subseteq> dom (ag_conv_states s')" using i(2) ran by (auto simp: s' queries_ok_def)
    show "dom (ag_active s') \<subseteq> dom (ag_conv_states s')" using i(2) by (simp add: s' queries_ok_def)
  qed (auto simp: s')
  moreover have "turns_ok s'"
  proof (cases "ag_stopping s")
    case False
    then have "ran ((ag_inflight s)(qid := None)) \<subseteq> dom (ag_active s)"
      using order_trans [OF ran] i(3) by (simp add: turns_ok_def)
    then show ?thesis using i(3) False by (auto simp: s' turns_ok_def)
  qed (use i(3) in \<open>simp add: s' turns_ok_def\<close>)
  moreover have "plan_ok s'" by (rule plan_ok_view [OF _ _ _ i(4)]) (simp_all add: s' plan_view_def)
  ultimately show "ag_inv n s'" using i(1) by (simp add: ag_inv_def bounded_def s')
  have cid: "cid \<in> ran (ag_inflight s)" using q by (rule ranI)
  then show "cid \<in> dom (ag_conv_states s')" using i(2) unfolding queries_ok_def by (auto simp: s')
  show "idle cid s' \<and> ag_active s' cid \<noteq> None" if "\<not> ag_stopping s"
    using i(3) that q cid unfolding turns_ok_def by (auto simp: idle_def s')
  show "settled {cid} s'" if l: "live s"
  proof -
    have "outstanding s' c" if "outstanding s c" "c \<noteq> cid" for c
      using that q unfolding outstanding_def by (simp add: s') (metis option.inject)
    then show ?thesis using l by (auto simp: settled_def live_def s' split: if_splits)
  qed
qed

lemma abort_and_finish_spec:
  assumes "ag_inv n s" "settled {cid} s" "cid \<in> dom (ag_conv_states s)"
    and idle: "\<not> ag_stopping s \<longrightarrow> idle cid s \<and> ag_active s cid \<noteq> None"
  shows "ag_inv n (abort_and_finish digest cid reason s) \<and> live (abort_and_finish digest cid reason s)"
proof -
  let ?s = "s\<lparr>ag_delay_handles := (ag_delay_handles s)(cid := None), ag_active := (ag_active s)(cid := None)\<rparr>"
  obtain n' s1 where a: "abort_remaining_turns cid reason s = (None, n', s1)" "same_turns s1 ?s"
  proof (cases "ag_active s cid")
    case None
    then show ?thesis using that [of 0 ?s] by (simp add: abort_remaining_turns_def)
  next
    case (Some v)
    obtain src ts cursor k where v: "v = (src, ts, cursor, k)" by (metis prod_cases4)
    have "cid \<in> dom (ag_conv_states ?s)" using assms(3) by simp
    from abort_turns_same [OF this, of reason "drop cursor ts"] show ?thesis
      using that by (auto simp: abort_remaining_turns_def Some v)
  qed
  have del: "\<not> ag_stopping s \<Longrightarrow> (ag_delay_handles s)(cid := None) = ag_delay_handles s"
    using idle by (auto simp: idle_def)
  have del': "ag_stopping s \<Longrightarrow> (ag_delay_handles s)(cid := None) = ag_delay_handles s"
    using assms(1) by (auto simp: ag_inv_def turns_ok_def)
  have s: "?s = s\<lparr>ag_active := (ag_active s)(cid := None)\<rparr>" using del del' by (cases "ag_stopping s") simp_all
  have inv: "ag_inv n ?s" unfolding s by (rule drop_active_inv(1) [OF assms(1)]) (use idle in simp)
  have card: "\<not> ag_stopping s \<Longrightarrow> card (dom (ag_active ?s)) < n"
    unfolding s by (rule drop_active_inv(2) [OF assms(1)]) (use idle in auto)
  have set: "settled {cid} ?s" using assms(2) unfolding s by (auto simp: settled_def outstanding_def)
  note e = same_turnsD [OF a(2)]
  have "ag_inv n (finish_with (fill_slot digest) cid s1) \<and> live (finish_with (fill_slot digest) cid s1)"
  proof (rule finish_spec [OF fill_slot_ok ag_inv_same [OF inv a(2)] _ _ _ order_refl])
    show "settled {cid} s1" using set settled_same [OF a(2)] by simp
    show "\<not> ag_stopping s1 \<longrightarrow> idle cid s1" using idle unfolding idle_def e by simp
    show "\<not> ag_stopping s1 \<longrightarrow> cid \<in> dom (ag_active s1) \<or> card (dom (ag_active s1)) < n"
      using card unfolding e(1,5) by simp
  qed
  then show ?thesis by (simp add: abort_and_finish_def a(1) finish_conversation_def)
qed

lemma abort_same:
  assumes "ag_inv n t" "settled {cid} t" "cid \<in> dom (ag_conv_states t)"
    and "\<not> ag_stopping t \<longrightarrow> idle cid t \<and> ag_active t cid \<noteq> None" and "same_turns s t"
  shows "ag_inv n (abort_and_finish digest cid reason s) \<and> live (abort_and_finish digest cid reason s)"
proof (rule abort_and_finish_spec [OF ag_inv_same [OF assms(1,5)]])
  note e = same_turnsD [OF assms(5)]
  show "settled {cid} s" using assms(2) settled_same [OF assms(5)] by simp
  show "cid \<in> dom (ag_conv_states s)" using assms(3) e(8) by simp
  show "\<not> ag_stopping s \<longrightarrow> idle cid s \<and> ag_active s cid \<noteq> None" using assms(4) unfolding idle_def e by simp
qed

section \<open>Events\<close>

lemma end_timed_out_same: "end_timed_out qid s = (info, s') \<Longrightarrow> same_turns s' s"
  by (auto simp: end_timed_out_def mark_inflight_complete_def Let_def add_callback_def same_turns_def plan_view_def
      world_grows_def emit_def split: if_splits)

lemma handle_timeout_spec:
  assumes "ag_inv n s" "live s" "ag_inflight s qid = Some cid"
  shows "ag_inv n (handle_timeout digest qid cid s) \<and> live (handle_timeout digest qid cid s)"
proof -
  let ?s = "s\<lparr>ag_inflight := (ag_inflight s)(qid := None), ag_timeout_handles := ag_timeout_handles s - {qid}\<rparr>"
  note d = drop_query_inv [OF assms(1,3) refl]
  obtain conv turn s1 where e: "end_timed_out qid ?s = ((conv, turn), s1)" by (metis surj_pair)
  note same = end_timed_out_same [OF e]
  have "cid \<in> dom (ag_conv_states s1)" using d(3) same_turnsD(8) [OF same] by simp
  from mark_turn_ok(1) [OF this] obtain m where m: "mark_turn_failed cid (ag_conv_states s1) = Inr m" "dom m = dom (ag_conv_states s1)"
    by blast
  let ?t = "s1\<lparr>ag_conv_states := m, ag_world := publish_synthetic_failure qid conv turn
                        \<lparr>error_type = ''TurnTimeout'', error_message = ''turn timeout after '' @ ag_turn_timeout s @ ''s''\<rparr> (ag_world s1)\<rparr>"
  have "same_turns ?t s1" using m(2) by (simp add: same_turns_def plan_view_def)
  then have t: "same_turns ?t ?s" using same by (rule same_turns_trans)
  have "handle_timeout digest qid cid s = abort_and_finish digest cid (''prior turn timed out (query='' @ qid @ '')'') ?t"
    using assms(3) by (simp add: handle_timeout_def e m(1))
  then show ?thesis using abort_same [OF d(1) d(4) [OF assms(2)] d(3) _ t] d(2) by auto
qed

lemma on_sample_complete_spec:
  assumes "ag_inv n s" "live s"
  shows "ag_inv n (on_sample_complete digest qid err s) \<and> live (on_sample_complete digest qid err s)"
proof (cases "ag_inflight s qid")
  case None
  then show ?thesis using assms by (simp add: on_sample_complete_def)
next
  case (Some cid)
  let ?s = "s\<lparr>ag_inflight := (ag_inflight s)(qid := None), ag_timeout_handles := ag_timeout_handles s - {qid}\<rparr>"
  note d = drop_query_inv [OF assms(1) Some refl]
  obtain m where m: "(if err \<noteq> None then mark_turn_failed else mark_turn_complete) cid (ag_conv_states s) = Inr m"
      "dom m = dom (ag_conv_states s)"
    using mark_turn_ok [OF d(3)] by (cases err) auto
  let ?t = "?s\<lparr>ag_conv_states := m\<rparr>"
  have t: "same_turns ?t ?s" using m(2) by (simp add: same_turns_def plan_view_def)
  have inv: "ag_inv n ?t" by (rule ag_inv_same [OF d(1) t])
  have set: "settled {cid} ?t" using d(4) [OF assms(2)] settled_same [OF t] by simp
  have go: "on_sample_complete digest qid err s =
      (case err of Some e \<Rightarrow> abort_and_finish digest cid (''prior turn errored: '' @ error_type e) ?t
       | None \<Rightarrow> if ag_stopping ?t then signal_done_if_no_inflight ?t
                 else record_error (issue_next_turn digest cid ?t))"
    using Some m(1) by (cases err) (simp_all add: on_sample_complete_def)
  show ?thesis
  proof (cases err)
    case (Some e)
    then show ?thesis using abort_same [OF d(1) d(4) [OF assms(2)] d(3) _ t] d(2) go by auto
  next
    case None
    show ?thesis
    proof (cases "ag_stopping ?t")
      case True
      then show ?thesis using signal_done_spec [OF inv True] go None by simp
    next
      case nst: False
      then have c: "idle cid ?t" "ag_active ?t cid \<noteq> None" using d(2) by (simp_all add: idle_def)
      obtain x s' where r: "issue_next_with (fill_slot digest) digest cid ?t = (x, s')" by force
      from issue_next_spec [OF fill_slot_ok inv set nst c order_refl r]
      have "ag_inv n (record_error (x, s')) \<and> live (record_error (x, s'))" by (intro record_error_spec) simp_all
      then show ?thesis using go None nst r by (simp add: issue_next_turn_def)
    qed
  qed
qed

lemma session_response_spec:
  assumes "ag_inv n s" "live s"
  shows "ag_inv n (session_response digest qid err s) \<and> live (session_response digest qid err s)"
proof -
  let ?p = "(ag_issuer s)\<lparr>uuid_to_conv_info := (uuid_to_conv_info (ag_issuer s))(qid := None)\<rparr>"
  have 1: "same_turns (s\<lparr>ag_issuer := ?p\<rparr>) s" by (simp add: same_turns_def plan_view_def)
  obtain cb p2 w2 where m: "mark_inflight_complete ?p (ag_world s) = (cb, p2, w2)" by (metis prod_cases3)
  have "same_turns (s\<lparr>ag_issuer := p2, ag_world := w2\<rparr>) s"
    using mark_inflight_complete_grows [OF m] by (simp add: same_turns_def plan_view_def)
  then have 2: "same_turns (add_callback cb (s\<lparr>ag_issuer := p2, ag_world := w2\<rparr>)) s"
    using add_callback_same same_turns_trans by blast
  have go: "session_response digest qid err s =
      (if qid \<in> completed_uuids (ag_issuer s) then s
       else if uuid_to_index (ag_issuer s) qid = None then s\<lparr>ag_issuer := ?p\<rparr>
       else on_sample_complete digest qid err (add_callback cb (s\<lparr>ag_issuer := p2, ag_world := w2\<rparr>)))"
    by (simp add: session_response_def Let_def m)
  have s1: "ag_inv n (s\<lparr>ag_issuer := ?p\<rparr>) \<and> live (s\<lparr>ag_issuer := ?p\<rparr>)"
    using ag_inv_same [OF assms(1) 1] live_same [OF 1] assms(2) by simp
  have s2: "ag_inv n (on_sample_complete digest qid err (add_callback cb (s\<lparr>ag_issuer := p2, ag_world := w2\<rparr>)))
      \<and> live (on_sample_complete digest qid err (add_callback cb (s\<lparr>ag_issuer := p2, ag_world := w2\<rparr>)))"
    by (rule on_sample_complete_spec [OF ag_inv_same [OF assms(1) 2]]) (use live_same [OF 2] assms(2) in simp)
  show ?thesis unfolding go using assms s1 s2 by simp
qed

lemma delay_fires_spec:
  assumes "ag_inv n s" "live s" "ag_delay_handles s cid = Some (idx, turn)"
  shows "ag_inv n (record_error (issue_turn_now digest cid idx turn s)) \<and> live (record_error (issue_turn_now digest cid idx turn s))"
proof -
  have t: "turns_ok s" using assms(1) by (simp add: ag_inv_def)
  then have st: "\<not> ag_stopping s" using assms(3) by (auto simp: turns_ok_def)
  have nt: "next_turn (ag_active s cid) = Some (idx, turn)" and nq: "\<forall>q. ag_inflight s q \<noteq> Some cid"
    using t st assms(3) by (auto simp: turns_ok_def)
  have cur: "cursor < length ts \<and> ts ! cursor = (idx, turn)" if "ag_active s cid = Some (src, ts, cursor, k)" for src ts cursor k
    using nt that by (auto simp: next_turn_def split: if_splits)
  have act: "ag_active s cid \<noteq> None" using nt by (cases "ag_active s cid") (simp_all add: next_turn_def)
  obtain x s' where r: "issue_turn_now digest cid idx turn s = (x, s')" by force
  from issue_turn_now_spec [OF assms(1) st act nq live_settled [OF assms(2)] cur r]
  show ?thesis unfolding r by (intro record_error_spec) simp_all
qed

lemma agentic_step_spec:
  assumes "ag_inv n s" "live s"
  shows "ag_inv n (agentic_step digest s e) \<and> live (agentic_step digest s e)"
proof (cases e)
  case (Respond qid err)
  then show ?thesis using session_response_spec [OF assms] by simp
next
  case (TimeoutFires qid)
  then show ?thesis using assms handle_timeout_spec [OF assms] by (simp split: option.split)
next
  case (DelayFires cid)
  then show ?thesis using assms delay_fires_spec [OF assms] by (simp split: option.split)
qed

lemma agentic_run_spec:
  "ag_inv n s \<Longrightarrow> live s \<Longrightarrow> ag_inv n (foldl (agentic_step digest) s es) \<and> live (foldl (agentic_step digest) s es)"
  by (induction es arbitrary: s) (auto simp: agentic_step_spec)

section \<open>The start of an execution\<close>

lemma bounded_mono: "ag_inv m s \<Longrightarrow> m \<le> n \<Longrightarrow> ag_inv n s"
  by (auto simp: ag_inv_def bounded_def)

lemma start_conversation_spec:
  assumes "ag_inv n s" "settled {} s" "ag_stopping s \<longrightarrow> live s" "start_conversation digest s = (None, s')"
  shows "ag_inv (Suc n) s' \<and> live s'"
proof (cases "ag_stopping s")
  case True
  then show ?thesis using assms bounded_mono [OF assms(1), of "Suc n"] by (simp add: start_conversation_def start_with_def)
next
  case False
  have "card (dom (ag_active s)) < Suc n" using assms(1) by (simp add: ag_inv_def bounded_def)
  then have "fill_pre (Suc n) s" using assms(2) bounded_mono [OF assms(1), of "Suc n"] by (simp add: fill_pre_def)
  from start_spec [OF fill_slot_ok this False le_SucI [OF order_refl] assms(4) [unfolded start_conversation_def]]
  show ?thesis by simp
qed

lemma start_many_spec:
  assumes "ag_inv j s" "settled {} s" "ag_stopping s \<longrightarrow> live s" "start_many digest n s = (None, s')"
  shows "ag_inv (j + n) s' \<and> (n = 0 \<and> s' = s \<or> live s')"
  using assms
proof (induction n arbitrary: j s)
  case (Suc n)
  obtain s1 where s1: "start_conversation digest s = (None, s1)" and r: "start_many digest n s1 = (None, s')"
    using Suc.prems(4) by (auto split: prod.splits option.splits)
  have 1: "ag_inv (Suc j) s1" "live s1" using start_conversation_spec [OF Suc.prems(1-3) s1] by simp_all
  have "ag_inv (Suc j + n) s' \<and> (n = 0 \<and> s' = s1 \<or> live s')"
    by (rule Suc.IH [OF 1(1) live_settled [OF 1(2)] _ r]) (use 1 in simp)
  then show ?case using 1 by auto
qed simp

lemma base_convs_ids: "fst ` set (base_convs samples) = fst ` set samples" "distinct (map fst (base_convs samples))"
  by (simp_all add: base_convs_def image_image o_def)

lemma execute_init_inv:
  assumes "inj (uuids (ag_world s))" "ag_delay_handles s = Map.empty" "ids_clear (fst ` set samples)"
  shows "ag_inv 0 (execute_init samples r s) \<and> settled {} (execute_init samples r s) \<and> \<not> ag_stopping (execute_init samples r s)"
proof -
  let ?s = "execute_init samples r s"
  have f: "ag_active ?s = Map.empty" "ag_inflight ?s = Map.empty" "ag_delay_handles ?s = Map.empty" "\<not> ag_stopping ?s"
    "ag_started ?s = 0" "ag_world ?s = ag_world s" "ag_convs ?s = base_convs samples"
    "ag_order ?s = make_conversation_order (length (ag_convs ?s)) r"
    using assms(2) by (simp_all add: execute_init_def Let_def)
  have "distinct (planned_ids ?s)"
    by (rule planned_ids_distinct [OF f(5,8)]) (simp_all add: f(7) base_convs_ids assms(3))
  moreover have "ag_convs ?s \<noteq> [] \<Longrightarrow> ag_order ?s \<noteq> None"
    using f(8) make_conversation_order_some [of "length (ag_convs ?s)" r] by auto
  ultimately have "plan_ok ?s" by (simp add: plan_ok_def f(1))
  moreover have "queries_ok ?s" using assms(1) by (simp add: queries_ok_def f)
  ultimately show ?thesis by (simp add: ag_inv_def bounded_def turns_ok_def settled_def f)
qed

lemma execute_start_spec:
  assumes "inj (uuids (ag_world s))" "ag_delay_handles s = Map.empty" "ids_clear (fst ` set samples)"
    and r: "execute_start digest samples r s = (Inr True, s1)"
  shows "ag_inv (initial_conversations_to_start (execute_init samples r s)) s1 \<and> live s1"
proof -
  let ?s = "execute_init samples r s"
  let ?n = "initial_conversations_to_start ?s"
  note i = execute_init_inv [OF assms(1-3), of r]
  have st: "start_many digest ?n ?s = (None, s1)" and w: "has_work_remaining s1"
    using r by (auto simp: execute_start_def Let_def split: sum.splits prod.splits option.splits if_splits)
  have "ag_inv (0 + ?n) s1 \<and> (?n = 0 \<and> s1 = ?s \<or> live s1)"
    by (rule start_many_spec [OF _ _ _ st]) (use i in simp_all)
  moreover have "\<not> (?n = 0 \<and> s1 = ?s)"
  proof
    assume z: "?n = 0 \<and> s1 = ?s"
    then have "\<not> has_more_instances ?s"
      by (auto simp: initial_conversations_to_start_def has_more_instances_def has_trajectory_budget_def min_def
          split: if_splits option.splits)
    moreover have "ag_active ?s = Map.empty" "ag_inflight ?s = Map.empty" "ag_delay_handles ?s = Map.empty"
      using assms(2) by (simp_all add: execute_init_def Let_def)
    ultimately show False using w z i by (simp add: has_work_remaining_def)
  qed
  ultimately show ?thesis by auto
qed

lemma execution_spec:
  assumes "inj (uuids (ag_world s))" "ag_delay_handles s = Map.empty" "ids_clear (fst ` set samples)"
    and "execute_start digest samples r s = (Inr True, s1)"
  shows "ag_inv (initial_conversations_to_start (execute_init samples r s)) (foldl (agentic_step digest) s1 es)
     \<and> live (foldl (agentic_step digest) s1 es)"
  using agentic_run_spec execute_start_spec [OF assms] by blast

section \<open>Properties\<close>

definition example_agentic :: agentic where
  "example_agentic = \<lparr>ag_convs = [], ag_order = None, ag_num = Some 3, ag_stop_first = False, ag_target = Some 1,
     ag_inject_delay = False, ag_delays = (\<lambda>_. 0), ag_turn_timeout = ''300.0'', ag_salt = False, ag_messages = (\<lambda>_. None),
     ag_conv_states = Map.empty, ag_inflight = Map.empty, ag_active = Map.empty, ag_timeout_handles = {},
     ag_delay_handles = Map.empty, ag_error = None, ag_all_done = False, ag_stopping = False, ag_started = 0,
     ag_tracking_stopped = False, ag_stops = (\<lambda>_. False), ag_spos = 0, ag_callbacks = [],
     ag_issuer = phase_issuer_init example_dataset True [], ag_world = example_world\<rparr>"

definition example_conversations :: "(string \<times> int \<times> int) list" where
  "example_conversations = [(''a'', 0, 1), (''b'', 1, 1), (''a'', 0, 2)]"

lemmas example_run = execute_start_def execute_init_def example_agentic_def example_conversations_def
  validate_salt_system_prompts_def initial_conversations_to_start_def base_convs_def has_trajectory_budget_def
  trajectory_budget_def start_conversation_def start_with_def next_instance_def has_more_instances_def
  make_conversation_order_def sequential_init_def sequential_next_def issue_next_with_def issue_turn_now_def
  build_data_override_def call_issue_def has_work_remaining_def logical_id_def get_or_create_def add_callback_def
  issue_def issue_build_def issue_send_def phase_issuer_init_def example_world_def example_dataset_def
  load_sample_def list_get_def override_data_def prompt_of_def dget_def query_headers_def monotonic_ns_def

text \<open>An execution that waits, and meets what the properties assume.\<close>

lemma example_waits: "\<exists>s1. execute_start id example_conversations None example_agentic = (Inr True, s1)
     \<and> \<not> ag_stopping s1 \<and> dom (ag_inflight s1) = {[]}"
  by (simp add: example_run Let_def seq_elems_def)

lemma example_ok:
  "inj (uuids (ag_world example_agentic))" "ag_delay_handles example_agentic = Map.empty"
  "ids_clear (fst ` set example_conversations)" "initial_conversations_to_start (execute_init example_conversations None example_agentic) = 1"
proof -
  show "inj (uuids (ag_world example_agentic))"
    unfolding example_agentic_def example_world_def by (rule injI) (metis agentic.select_convs length_replicate world.select_convs(3))
  show "ag_delay_handles example_agentic = Map.empty" by (simp add: example_agentic_def)
  show "ids_clear (fst ` set example_conversations)" by (simp add: ids_clear_def example_conversations_def)
  show "initial_conversations_to_start (execute_init example_conversations None example_agentic) = 1"
    by (simp add: example_run)
qed

text \<open>C9. The strategy never hangs.  While \<open>execute\<close> waits for its \<open>all_done\<close> event, then after any
  sequence of responses, timeouts and delay timers, either the event is set, or some query is
  outstanding, or a delay timer is pending, so something will call the strategy again; and every
  outstanding query has its timeout armed.\<close>

theorem waiting_execute_is_woken:
  assumes "inj (uuids (ag_world s))" "ag_delay_handles s = Map.empty" "ids_clear (fst ` set samples)"
    and "execute_start digest samples r s = (Inr True, s1)" and "s2 = foldl (agentic_step digest) s1 es"
  shows "(ag_all_done s2 \<or> ag_inflight s2 \<noteq> Map.empty \<or> ag_delay_handles s2 \<noteq> Map.empty)
    \<and> dom (ag_inflight s2) \<subseteq> ag_timeout_handles s2"
  using execution_spec [OF assms(1-4), of es] live_outstanding [of s2] assms(5)
  by (simp add: ag_inv_def queries_ok_def)

theorem waiting_execute_is_woken_witness:
  "\<exists>s1 s2. execute_start id example_conversations None example_agentic = (Inr True, s1)
     \<and> s2 = foldl (agentic_step id) s1 [Respond [] None, TimeoutFires ''x'']
     \<and> (ag_all_done s2 \<or> ag_inflight s2 \<noteq> Map.empty \<or> ag_delay_handles s2 \<noteq> Map.empty)"
proof -
  obtain s1 where s1: "execute_start id example_conversations None example_agentic = (Inr True, s1)" using example_waits by blast
  from waiting_execute_is_woken [OF example_ok(1-3) s1 refl, of "[Respond [] None, TimeoutFires ''x'']"] s1
  show ?thesis by metis
qed

text \<open>C10. The concurrency target holds.  At any point of an execution the conversations that are
  active are at most those the start was allowed (the target concurrency, capped by the budget),
  no conversation has two queries outstanding, none has a query and a delay timer, and a query that
  is outstanding belongs to an active conversation unless the strategy is stopping.\<close>

theorem concurrency_target_holds:
  assumes "inj (uuids (ag_world s))" "ag_delay_handles s = Map.empty" "ids_clear (fst ` set samples)"
    and "execute_start digest samples r s = (Inr True, s1)" and "s2 = foldl (agentic_step digest) s1 es"
    and "\<not> ag_stopping s2"
  shows "card (dom (ag_active s2)) \<le> initial_conversations_to_start (execute_init samples r s)
    \<and> inj_on (ag_inflight s2) (dom (ag_inflight s2))
    \<and> ran (ag_inflight s2) \<inter> dom (ag_delay_handles s2) = {}
    \<and> ran (ag_inflight s2) \<union> dom (ag_delay_handles s2) \<subseteq> dom (ag_active s2)"
proof -
  have i: "bounded (initial_conversations_to_start (execute_init samples r s)) s2" "turns_ok s2"
    using execution_spec [OF assms(1-4), of es] assms(5) by (simp_all add: ag_inv_def)
  have "inj_on (ag_inflight s2) (dom (ag_inflight s2))"
    using i(2) assms(6) by (auto simp: turns_ok_def inj_on_def)
  moreover have "ran (ag_inflight s2) \<inter> dom (ag_delay_handles s2) = {}"
    using i(2) assms(6) by (auto simp: turns_ok_def ran_def)
  ultimately show ?thesis using i assms(6) by (simp add: turns_ok_def bounded_def)
qed

theorem concurrency_target_holds_witness:
  "\<exists>s1. execute_start id example_conversations None example_agentic = (Inr True, s1)
     \<and> card (dom (ag_active s1)) \<le> 1 \<and> ran (ag_inflight s1) \<union> dom (ag_delay_handles s1) \<subseteq> dom (ag_active s1)"
proof -
  obtain s1 where s1: "execute_start id example_conversations None example_agentic = (Inr True, s1)" "\<not> ag_stopping s1"
    using example_waits by blast
  show ?thesis using concurrency_target_holds [OF example_ok(1-3) s1(1), of s1 "[]"] example_ok(4) s1 by simp
qed

text \<open>The assumption on the ids is needed: two trajectories with the same logical id share one entry of
  the strategy's tables, and the response of the first one may leave the second with no one to go on.\<close>

text \<open>The trajectories of one execution have pairwise different logical ids, as the code's comments
  ask: repeats are numbered by the round of the conversation order, which visits every conversation
  once per round, shuffled or not.\<close>

theorem trajectories_are_distinct:
  assumes "ids_clear (fst ` set samples)"
  shows "distinct (planned_ids (execute_init samples r s))"
proof (rule planned_ids_distinct)
  show "ids_clear (fst ` set (ag_convs (execute_init samples r s)))" "distinct (map fst (ag_convs (execute_init samples r s)))"
    using assms by (simp_all add: execute_init_def Let_def base_convs_ids)
qed (simp_all add: execute_init_def Let_def)

theorem trajectories_are_distinct_witness:
  "planned_ids (execute_init example_conversations None example_agentic) = [''a'', ''b'', ''a__repeat_2'']
   \<and> distinct (planned_ids (execute_init example_conversations None example_agentic))"
  using trajectories_are_distinct [OF example_ok(3), of None example_agentic] by code_simp

end
