(* ===== verification/Simulation.thy ===== *)
theory Simulation
  imports Prelude
begin

text \<open>
  The contract of a component that implements an abstract specification: a state machine driven by
  events, its invariant, and an abstraction under which every step is a step of the specification.
\<close>

locale simulation =
  fixes start :: "'s" and step :: "'s \<Rightarrow> 'e \<Rightarrow> 's" and invar :: "'s \<Rightarrow> bool"
    and abs :: "'s \<Rightarrow> 'a" and spec :: "'a \<Rightarrow> 'a \<Rightarrow> bool"
  assumes invar_start: "invar start"
    and invar_step: "invar s \<Longrightarrow> invar (step s e)"
    and sim: "invar s \<Longrightarrow> spec (abs s) (abs (step s e))"
begin

lemma invar_run: "invar (foldl step start es)"
  by (induction es rule: rev_induct) (simp_all add: invar_start invar_step)

lemma run_step: "spec (abs (foldl step start es)) (abs (step (foldl step start es) e))"
  by (rule sim [OF invar_run])

lemma run_spec: "spec\<^sup>*\<^sup>* (abs start) (abs (foldl step start es))"
proof (induction es rule: rev_induct)
  case (snoc e es)
  then show ?case using run_step [of es e] by (simp add: rtranclp.rtrancl_into_rtrancl)
qed simp

end

end
