(* ===== verification/TokenQueue.thy ===== *)
theory TokenQueue
  imports MetricsTable Simulation "HOL-Library.Multiset"
begin

text \<open>
  \<open>metrics_aggregator/token_metrics.py\<close>: the tokenizer that counts a batch of inputs over its worker
  shards, and the queue that buffers inputs at event time and clears them in batches.  The tokenizer
  library is a parameter: what a worker or the backend answers for a list of texts, and what the
  chat template answers for a message or a prompt.  The queue's coroutines are event handlers; the
  lock a flush holds is \<open>tq_flush\<close>, and the calls of \<open>enqueue\<close> and of the recorders are kept in two
  logs, \<open>tq_enqueued\<close> and \<open>tq_recorded\<close>.
\<close>

section \<open>Counting a batch\<close>

text \<open>\<open>_even_chunks\<close>: at most \<open>n\<close> contiguous chunks.\<close>

function cut :: "nat \<Rightarrow> 'a list \<Rightarrow> 'a list list" where
  "cut width xs = (if xs = [] \<or> width = 0 then [] else take width xs # cut width (drop width xs))"
  by pat_completeness auto

termination cut
  by (relation "measure (\<lambda>(width, xs). length xs)") auto

declare cut.simps [simp del]

definition even_chunks :: "'a list \<Rightarrow> nat \<Rightarrow> 'a list list" where
  "even_chunks items n =
     (if n \<le> 1 \<or> length items \<le> 1 then [items] else cut ((length items + n - 1) div n) items)"

text \<open>\<open>asyncio.gather\<close>: all results, or an error (here the first in shard order).\<close>

fun gather :: "'a result list \<Rightarrow> 'a list result" where
  "gather [] = Inr []"
| "gather (Inl e # rs) = Inl e"
| "gather (Inr x # rs) = map_sum id (\<lambda>xs. x # xs) (gather rs)"

definition fan_out :: "(string list \<Rightarrow> int list result) \<Rightarrow> nat \<Rightarrow> string list \<Rightarrow> int list result" where
  "fan_out worker n_procs texts =
     map_sum id concat (gather (map worker (take n_procs (even_chunks texts n_procs))))"

text \<open>
  The tokenizer: how many shards it has, whether its thread pool is open, the batch call of a shard
  and of the in-process path, and the two chat-template counts.
\<close>

record batch_tokenizer =
  bt_procs :: nat
  bt_open :: bool
  bt_worker :: "string list \<Rightarrow> int list result"
  bt_inproc :: "string list \<Rightarrow> int list result"
  bt_message :: "string \<Rightarrow> string option \<Rightarrow> merged_calls option \<Rightarrow> int result"
  bt_prompt :: "pyval list \<Rightarrow> pyval list option \<Rightarrow> pydict option \<Rightarrow> string option \<Rightarrow> pyval option \<Rightarrow> int result"

definition count_texts :: "batch_tokenizer \<Rightarrow> bool \<Rightarrow> string list \<Rightarrow> int list result" where
  "count_texts bt live texts =
     (if texts = [] then Inr []
      else if bt_procs bt \<noteq> 0 \<and> \<not> live then fan_out (bt_worker bt) (bt_procs bt) texts
      else if \<not> bt_open bt then Inl RuntimeError
      else bt_inproc bt texts)"

definition count_indexed_texts ::
    "batch_tokenizer \<Rightarrow> bool \<Rightarrow> (nat \<times> string) list \<Rightarrow> (nat \<times> int result) list" where
  "count_indexed_texts bt live its =
     (case count_texts bt live (map snd its) of
        Inl e \<Rightarrow> map (\<lambda>(i, _). (i, Inl e)) its
      | Inr counts \<Rightarrow>
          (if length counts \<noteq> length its then map (\<lambda>(i, _). (i, Inl RuntimeError)) its
           else map (\<lambda>((i, _), c). (i, Inr c)) (zip its counts)))"

definition count_structured :: "batch_tokenizer \<Rightarrow> tok_input \<Rightarrow> int result" where
  "count_structured bt item = (case item of
       MessageInput c r t \<Rightarrow> bt_message bt c r t
     | PromptInput ms tools kw tmpl choice \<Rightarrow> bt_prompt bt ms tools kw tmpl choice
     | _ \<Rightarrow> Inl TypeError)"

definition count_sync :: "batch_tokenizer \<Rightarrow> tok_input \<Rightarrow> int result" where
  "count_sync bt item = (case item of
       TokenIdsInput ids \<Rightarrow> Inr (int (length ids))
     | TextInput text \<Rightarrow>
         (case bt_inproc bt [text] of
            Inl e \<Rightarrow> Inl e | Inr [] \<Rightarrow> Inl IndexError | Inr (c # cs) \<Rightarrow> Inr c)
     | _ \<Rightarrow> count_structured bt item)"

definition set_outcomes :: "(nat \<times> 'a) list \<Rightarrow> 'a option list \<Rightarrow> 'a option list" where
  "set_outcomes us os = foldl (\<lambda>os (i, x). os[i := Some x]) os us"

definition indexed_texts :: "tok_input list \<Rightarrow> (nat \<times> string) list" where
  "indexed_texts inputs =
     List.map_filter (\<lambda>(i, item). case item of TextInput t \<Rightarrow> Some (i, t) | _ \<Rightarrow> None) (enumerate 0 inputs)"

definition indexed_structured :: "tok_input list \<Rightarrow> (nat \<times> tok_input) list" where
  "indexed_structured inputs =
     List.map_filter (\<lambda>(i, item). case item of
         MessageInput _ _ _ \<Rightarrow> Some (i, item) | PromptInput _ _ _ _ _ \<Rightarrow> Some (i, item) | _ \<Rightarrow> None)
       (enumerate 0 inputs)"

definition count_batch :: "batch_tokenizer \<Rightarrow> bool \<Rightarrow> tok_input list \<Rightarrow> int result list result" where
  "count_batch bt live inputs =
     (let o0 = map (\<lambda>item. case item of TokenIdsInput ids \<Rightarrow> Some (Inr (int (length ids))) | _ \<Rightarrow> None) inputs;
          o1 = set_outcomes (count_indexed_texts bt live (indexed_texts inputs)) o0;
          o2 = set_outcomes (map (\<lambda>(i, item). (i, if bt_open bt then count_structured bt item else Inl RuntimeError))
                 (indexed_structured inputs)) o1
      in if None \<in> set o2 then Inl AssertionError else Inr (map the o2))"

section \<open>The queue\<close>

type_synonym queued = "tok_input \<times> recorder"

datatype input_kind = KTokenIds | KText | KMessage | KPrompt

fun kind_of :: "tok_input \<Rightarrow> input_kind" where
  "kind_of (TokenIdsInput _) = KTokenIds"
| "kind_of (TextInput _) = KText"
| "kind_of (MessageInput _ _ _) = KMessage"
| "kind_of (PromptInput _ _ _ _ _) = KPrompt"

definition LIVE_FLUSH_MAX_ITEMS :: nat where
  "LIVE_FLUSH_MAX_ITEMS = 1024"

fun select_live :: "(input_kind \<Rightarrow> nat) \<Rightarrow> queued list \<Rightarrow> queued list \<times> queued list" where
  "select_live cnt [] = ([], [])"
| "select_live cnt (x # xs) =
     (let k = kind_of (fst x)
      in if cnt k < LIVE_FLUSH_MAX_ITEMS
         then let (sel, rem) = select_live (cnt(k := cnt k + 1)) xs in (x # sel, rem)
         else let (sel, rem) = select_live cnt xs in (sel, x # rem))"

text \<open>\<open>tq_flush\<close> is the flush that holds the lock: whether it is the live one, and what it took.\<close>

record token_queue =
  tq_items :: "queued list"
  tq_inflight :: int
  tq_live_task :: bool
  tq_flush :: "(bool \<times> queued list) option"
  tq_result :: "int option"
  tq_enqueued :: "queued list"
  tq_recorded :: "(queued \<times> int) list"

definition token_queue_init :: token_queue where
  "token_queue_init = \<lparr>tq_items = [], tq_inflight = 0, tq_live_task = False, tq_flush = None,
     tq_result = None, tq_enqueued = [], tq_recorded = []\<rparr>"

definition enqueue :: "tok_input \<Rightarrow> recorder \<Rightarrow> token_queue \<Rightarrow> token_queue" where
  "enqueue item on_count q = q\<lparr>tq_inflight := tq_inflight q + 1, tq_items := tq_items q @ [(item, on_count)],
     tq_enqueued := tq_enqueued q @ [(item, on_count)]\<rparr>"

definition start_live :: "token_queue \<Rightarrow> token_queue" where
  "start_live q = q\<lparr>tq_live_task := True\<rparr>"

text \<open>\<open>_flush\<close> up to the call of the tokenizer.\<close>

definition begin_flush :: "bool \<Rightarrow> token_queue \<Rightarrow> token_queue" where
  "begin_flush live q =
     (if tq_items q = [] then q
      else if live
      then let (sel, rem) = select_live (\<lambda>_. 0) (tq_items q) in q\<lparr>tq_items := rem, tq_flush := Some (True, sel)\<rparr>
      else q\<lparr>tq_items := [], tq_flush := Some (False, tq_items q)\<rparr>)"

text \<open>The exception paths of \<open>_flush\<close>: a live flush puts its items back, a drain does not.\<close>

definition abandon_flush :: "token_queue \<Rightarrow> token_queue" where
  "abandon_flush q = (case tq_flush q of
       None \<Rightarrow> q
     | Some (live, items) \<Rightarrow>
         q\<lparr>tq_items := (if live then items @ tq_items q else tq_items q), tq_flush := None\<rparr>)"

definition failed_items :: "(queued \<times> int result) list \<Rightarrow> queued list" where
  "failed_items ps = List.map_filter (\<lambda>(x, r). case r of Inl e \<Rightarrow> Some x | Inr c \<Rightarrow> None) ps"

definition counted_items :: "(queued \<times> int result) list \<Rightarrow> (queued \<times> int) list" where
  "counted_items ps = List.map_filter (\<lambda>(x, r). case r of Inl e \<Rightarrow> None | Inr c \<Rightarrow> Some (x, c)) ps"

text \<open>\<open>_flush\<close> from the answer of the tokenizer on; \<open>_record\<close> runs the recorder and lowers the count
  whether or not the recorder raises.\<close>

definition end_flush :: "int result list \<Rightarrow> token_queue \<Rightarrow> token_queue" where
  "end_flush outcomes q = (case tq_flush q of
       None \<Rightarrow> q
     | Some (live, items) \<Rightarrow>
         (if length outcomes \<noteq> length items then abandon_flush q
          else
            let ps = zip items outcomes
            in q\<lparr>tq_items := (if live then failed_items ps @ tq_items q else tq_items q),
                 tq_recorded := tq_recorded q @ counted_items ps,
                 tq_inflight := tq_inflight q - int (length (counted_items ps)), tq_flush := None\<rparr>))"

definition drain_returns :: "token_queue \<Rightarrow> token_queue" where
  "drain_returns q = q\<lparr>tq_result := Some (tq_inflight q)\<rparr>"

text \<open>\<open>flush_remaining\<close> up to the call of the tokenizer: the live task is cancelled and awaited.\<close>

definition flush_remaining :: "token_queue \<Rightarrow> token_queue" where
  "flush_remaining q =
     (let q1 = (if tq_live_task q then (abandon_flush q)\<lparr>tq_live_task := False\<rparr> else q)\<lparr>tq_result := None\<rparr>
      in if tq_inflight q1 = 0 then q1\<lparr>tq_result := Some 0\<rparr>
         else
           let q2 = begin_flush False q1
           in if tq_flush q2 = None then drain_returns q2 else q2)"

datatype queue_event =
    Put tok_input recorder | StartLive | LiveTick | Outcomes "int result list" | TokenizerRaises
  | FlushRemaining | DrainTimesOut | CancelDrain

definition is_draining :: "token_queue \<Rightarrow> bool" where
  "is_draining q = (case tq_flush q of Some (False, _) \<Rightarrow> True | _ \<Rightarrow> False)"

fun queue_step :: "token_queue \<Rightarrow> queue_event \<Rightarrow> token_queue" where
  "queue_step q (Put item rec) = enqueue item rec q"
| "queue_step q StartLive = (if is_draining q then q else start_live q)"
| "queue_step q LiveTick = (if tq_live_task q \<and> tq_flush q = None then begin_flush True q else q)"
| "queue_step q (Outcomes os) =
     (if is_draining q then drain_returns (end_flush os q) else end_flush os q)"
| "queue_step q TokenizerRaises =
     (if is_draining q then drain_returns (abandon_flush q) else abandon_flush q)"
| "queue_step q FlushRemaining = (if is_draining q then q else flush_remaining q)"
| "queue_step q DrainTimesOut = (if is_draining q then drain_returns (abandon_flush q) else q)"
| "queue_step q CancelDrain = (if is_draining q then abandon_flush q else q)"

end
