(* ===== verification/TokenQueueFacts.thy ===== *)
theory TokenQueueFacts
  imports TokenQueue
begin

text \<open>
  The batch counter answers every input in order with the count of the synchronous path, whatever
  the number of shards; the queue implements a bag of pending work from which only recorded items
  leave.
\<close>

section \<open>Chunks\<close>

lemma cut_concat: "0 < width \<Longrightarrow> concat (cut width xs) = xs"
  by (induction width xs rule: cut.induct) (subst cut.simps, simp)

lemma cut_length_le: "length xs \<le> n * width \<Longrightarrow> 0 < width \<Longrightarrow> length (cut width xs) \<le> n"
proof (induction width xs arbitrary: n rule: cut.induct)
  case (1 width xs)
  show ?case
  proof (cases "xs = []")
    case False
    then obtain m where n: "n = Suc m" using "1.prems"(1) by (cases n) auto
    have "length (cut width (drop width xs)) \<le> m"
      using "1.prems" False by (intro "1.IH") (auto simp: n)
    then show ?thesis using "1.prems"(2) False by (subst cut.simps) (simp add: n)
  qed (simp add: cut.simps)
qed

lemma even_chunks_spec:
  assumes "0 < n"
  shows "concat (even_chunks items n) = items" and "length (even_chunks items n) \<le> n"
proof -
  let ?w = "(length items + n - 1) div n"
  have le: "length items \<le> n * ?w"
  proof -
    have "length items + n - 1 = n * ?w + (length items + n - 1) mod n" by simp
    moreover have "(length items + n - 1) mod n < n" using assms by simp
    ultimately show ?thesis using assms by linarith
  qed
  have pos: "0 < ?w" if "length items > 1" using that le by (cases "?w = 0") auto
  show "concat (even_chunks items n) = items"
    using pos cut_concat [of ?w items] by (auto simp: even_chunks_def)
  show "length (even_chunks items n) \<le> n"
    using pos cut_length_le [OF le] assms by (auto simp: even_chunks_def)
qed

lemma gather_ok: "gather (map (\<lambda>x. Inr (f x)) xs) = Inr (map f xs)"
  by (induction xs) simp_all

lemma fan_out_counts:
  assumes "\<And>ts. worker ts = Inr (map f ts)" and "0 < n"
  shows "fan_out worker n texts = Inr (map f texts)"
proof -
  have "take n (even_chunks texts n) = even_chunks texts n" using even_chunks_spec(2) [OF assms(2)] by simp
  moreover have "worker = (\<lambda>ts. Inr (map f ts))" using assms(1) by blast
  ultimately show ?thesis
    using gather_ok [of "map f" "even_chunks texts n"] even_chunks_spec(1) [OF assms(2), of texts]
    by (simp add: fan_out_def flip: map_concat)
qed

section \<open>Outcomes by position\<close>

definition pick :: "('a \<Rightarrow> 'b option) \<Rightarrow> nat \<Rightarrow> 'a list \<Rightarrow> (nat \<times> 'b) list" where
  "pick h n xs = List.map_filter (\<lambda>(i, x). map_option (Pair i) (h x)) (enumerate n xs)"

lemma pick_simps [simp]:
  "pick h n [] = []"
  "pick h n (x # xs) = (case h x of None \<Rightarrow> pick h (Suc n) xs | Some y \<Rightarrow> (n, y) # pick h (Suc n) xs)"
  by (simp_all add: pick_def split: option.split)

lemma pick_map: "map (\<lambda>(i, y). (i, g y)) (pick h n xs) = pick (map_option g \<circ> h) n xs"
  by (induction xs arbitrary: n) (auto split: option.split)

lemma pick_range: "fst ` set (pick h n xs) \<subseteq> {n..<n + length xs}"
  by (induction xs arbitrary: n) (fastforce split: option.splits)+

lemma pick_distinct: "distinct (map fst (pick h n xs))"
proof (induction xs arbitrary: n)
  case (Cons x xs)
  have "n \<notin> fst ` set (pick h (Suc n) xs)" using pick_range [of h "Suc n" xs] by auto
  then show ?case using Cons by (simp split: option.split)
qed simp

lemma pick_map_of: "map_of (pick h n xs) k = (if n \<le> k \<and> k < n + length xs then h (xs ! (k - n)) else None)"
proof (induction xs arbitrary: n)
  case (Cons x xs)
  show ?case
  proof (cases "k = n")
    case True
    have "n \<notin> fst ` set (pick h (Suc n) xs)" using pick_range [of h "Suc n" xs] by auto
    then show ?thesis using True by (auto simp: map_of_eq_None_iff split: option.split)
  next
    case False
    then have "n \<le> k \<and> k < n + length (x # xs) \<longleftrightarrow> Suc n \<le> k \<and> k < Suc n + length xs" by auto
    moreover have "Suc n \<le> k \<Longrightarrow> (x # xs) ! (k - n) = xs ! (k - Suc n)" by (simp add: nth_Cons')
    ultimately show ?thesis using Cons False by (auto split: option.split)
  qed
qed auto

lemma length_set_outcomes [simp]: "length (set_outcomes us os) = length os"
  unfolding set_outcomes_def by (induction us arbitrary: os) (auto split: prod.split)

lemma set_outcomes_nth:
  assumes "distinct (map fst us)" "k < length os"
  shows "set_outcomes us os ! k = (case map_of us k of Some x \<Rightarrow> Some x | None \<Rightarrow> os ! k)"
  using assms
proof (induction us arbitrary: os)
  case (Cons u us)
  obtain i x where u: "u = (i, x)" by force
  have "map_of us i = None" using Cons.prems(1) by (simp add: u map_of_eq_None_iff image_iff)
  then show ?case
    using Cons.IH [of "os[i := Some x]"] Cons.prems by (auto simp: u set_outcomes_def nth_list_update split: option.split)
qed (simp add: set_outcomes_def)

definition text_of :: "tok_input \<Rightarrow> string option" where
  "text_of item = (case item of TextInput t \<Rightarrow> Some t | _ \<Rightarrow> None)"

definition structured_of :: "tok_input \<Rightarrow> tok_input option" where
  "structured_of item = (case item of
     MessageInput _ _ _ \<Rightarrow> Some item | PromptInput _ _ _ _ _ \<Rightarrow> Some item | _ \<Rightarrow> None)"

lemma indexed_pick:
  "indexed_texts inputs = pick text_of 0 inputs" "indexed_structured inputs = pick structured_of 0 inputs"
  unfolding indexed_texts_def indexed_structured_def pick_def text_of_def structured_of_def
  by (rule arg_cong [where f = "\<lambda>g. List.map_filter g (enumerate 0 inputs)"], auto simp: fun_eq_iff split: tok_input.split)+

lemma count_texts_ok:
  assumes "\<And>ts. bt_worker bt ts = Inr (map f ts)" "\<And>ts. bt_inproc bt ts = Inr (map f ts)" "bt_open bt"
  shows "count_texts bt live ts = Inr (map f ts)"
  using fan_out_counts [of "bt_worker bt" f "bt_procs bt" ts] assms by (simp add: count_texts_def)

lemma count_indexed_texts_ok:
  assumes "\<And>ts. count_texts bt live ts = Inr (map f ts)"
  shows "count_indexed_texts bt live its = map (\<lambda>(i, t). (i, Inr (f t))) its"
proof -
  have "map (\<lambda>((i, _), c). (i, Inr c)) (zip its (map f (map snd its))) = map (\<lambda>(i, t). (i, Inr (f t))) its"
    by (induction its) auto
  then show ?thesis by (simp add: count_indexed_texts_def assms)
qed

text \<open>The two counting lanes agree.  When the tokenizer counts texts one by one (each batch call
  answers the list of the single counts), counting a batch gives, for every input in its place, what
  the synchronous count of that input gives, for the live lane and for the drain over any number of
  shards; in particular no text is lost between the shards.\<close>

theorem batch_counts_match_sync:
  assumes "\<And>ts. bt_worker bt ts = Inr (map f ts)" "\<And>ts. bt_inproc bt ts = Inr (map f ts)" "bt_open bt"
  shows "count_batch bt live inputs = Inr (map (count_sync bt) inputs)"
proof -
  let ?o0 = "map (\<lambda>item. case item of TokenIdsInput ids \<Rightarrow> Some (Inr (int (length ids))) | _ \<Rightarrow> None) inputs"
  let ?ut = "pick (map_option (\<lambda>t. Inr (f t)) \<circ> text_of) 0 inputs"
  let ?us = "pick (map_option (count_structured bt) \<circ> structured_of) 0 inputs"
  have t: "count_indexed_texts bt live (indexed_texts inputs) = ?ut"
    by (simp add: count_indexed_texts_ok [OF count_texts_ok, OF assms] indexed_pick pick_map)
  have s: "map (\<lambda>(i, item). (i, if bt_open bt then count_structured bt item else Inl RuntimeError)) (indexed_structured inputs) = ?us"
    by (simp add: assms(3) indexed_pick pick_map)
  let ?o2 = "set_outcomes ?us (set_outcomes ?ut ?o0)"
  have o2: "?o2 = map (\<lambda>i. Some (count_sync bt i)) inputs"
  proof (rule nth_equalityI)
    fix k assume "k < length ?o2"
    then have k: "k < length inputs" by simp
    then show "?o2 ! k = map (\<lambda>i. Some (count_sync bt i)) inputs ! k"
      by (simp add: set_outcomes_nth pick_distinct pick_map_of count_sync_def text_of_def structured_of_def assms(2)
          split: tok_input.split)
  qed simp
  have "None \<notin> set ?o2" unfolding o2 by auto
  moreover have "map the ?o2 = map (count_sync bt) inputs" unfolding o2 by simp
  ultimately show ?thesis by (simp only: count_batch_def Let_def t s if_False)
qed

definition example_tokenizer :: batch_tokenizer where
  "example_tokenizer = \<lparr>bt_procs = 2, bt_open = True, bt_worker = (\<lambda>ts. Inr (map (\<lambda>t. int (length t)) ts)),
     bt_inproc = (\<lambda>ts. Inr (map (\<lambda>t. int (length t)) ts)), bt_message = (\<lambda>c r t. Inr (int (length c))),
     bt_prompt = (\<lambda>ms tools kw tmpl choice. Inr (int (length ms)))\<rparr>"

theorem batch_counts_match_sync_witness:
  "count_batch example_tokenizer False [TextInput ''ab'', TokenIdsInput [PInt 7], TextInput ''abc'', TextInput ''a'', MessageInput ''hi'' None None]
   = Inr (map (count_sync example_tokenizer) [TextInput ''ab'', TokenIdsInput [PInt 7], TextInput ''abc'', TextInput ''a'', MessageInput ''hi'' None None])
   \<and> map (count_sync example_tokenizer) [TextInput ''ab'', TokenIdsInput [PInt 7], TextInput ''abc''] = [Inr 2, Inr 1, Inr 3]"
proof -
  have w: "bt_worker example_tokenizer ts = Inr (map (\<lambda>t. int (length t)) ts)" for ts by (simp add: example_tokenizer_def)
  have i: "bt_inproc example_tokenizer ts = Inr (map (\<lambda>t. int (length t)) ts)" for ts by (simp add: example_tokenizer_def)
  have o': "bt_open example_tokenizer" by (simp add: example_tokenizer_def)
  show ?thesis
    using batch_counts_match_sync [OF w i o'] by (simp add: count_sync_def i)
qed

section \<open>The queue as a bag of pending work\<close>

definition taken :: "token_queue \<Rightarrow> queued list" where
  "taken q = (case tq_flush q of Some (live, items) \<Rightarrow> items | None \<Rightarrow> [])"

definition held :: "token_queue \<Rightarrow> queued multiset" where
  "held q = mset (map fst (tq_recorded q)) + mset (tq_items q) + mset (taken q)"

definition queue_inv :: "token_queue \<Rightarrow> bool" where
  "queue_inv q = (held q \<subseteq># mset (tq_enqueued q)
     \<and> tq_inflight q = int (length (tq_enqueued q)) - int (length (tq_recorded q)))"

text \<open>Nothing that was enqueued has been dropped.\<close>

definition nothing_lost :: "token_queue \<Rightarrow> bool" where
  "nothing_lost q = (held q = mset (tq_enqueued q))"

lemma select_live_mset: "select_live cnt xs = (sel, rem) \<Longrightarrow> mset sel + mset rem = mset xs"
  by (induction cnt xs arbitrary: sel rem rule: select_live.induct)
    (auto simp: Let_def split: if_splits prod.splits)

lemma select_live_bound:
  "select_live cnt xs = (sel, rem) \<Longrightarrow> cnt k \<le> LIVE_FLUSH_MAX_ITEMS \<Longrightarrow>
   cnt k + length (filter (\<lambda>x. kind_of (fst x) = k) sel) \<le> LIVE_FLUSH_MAX_ITEMS"
proof (induction cnt xs arbitrary: sel rem rule: select_live.induct)
  case (2 cnt x xs)
  let ?k = "kind_of (fst x)"
  show ?case
  proof (cases "cnt ?k < LIVE_FLUSH_MAX_ITEMS")
    case True
    obtain s r where r: "select_live (cnt(?k := cnt ?k + 1)) xs = (s, r)" by force
    have "sel = x # s" using "2.prems"(1) True r by (simp add: Let_def)
    then show ?thesis using "2.IH"(1) [OF refl True r] True "2.prems"(2) by (cases "?k = k") auto
  next
    case False
    obtain s r where r: "select_live cnt xs = (s, r)" by force
    have "sel = s" using "2.prems"(1) False r by (simp add: Let_def)
    then show ?thesis using "2.IH"(2) [OF refl False r "2.prems"(2)] by simp
  qed
qed simp

lemma split_outcomes:
  "length xs = length os \<Longrightarrow>
   mset (map fst (counted_items (zip xs os))) + mset (failed_items (zip xs os)) = mset xs"
proof (induction xs os rule: list_induct2)
  case (Cons x xs o' os)
  then show ?case by (cases o') (simp_all add: counted_items_def failed_items_def)
qed (simp add: counted_items_def failed_items_def)

text \<open>How the steps move items.\<close>

lemma inv_shrinks:
  assumes "queue_inv q" "held q' \<subseteq># held q" "tq_enqueued q' = tq_enqueued q" "tq_recorded q' = tq_recorded q"
    "tq_inflight q' = tq_inflight q"
  shows "queue_inv q'"
proof -
  have "held q' \<subseteq># mset (tq_enqueued q)"
    by (rule subset_mset.order_trans [OF assms(2)]) (use assms(1) in \<open>simp add: queue_inv_def\<close>)
  then show ?thesis using assms by (simp add: queue_inv_def)
qed

lemma enqueue_moves:
  "queue_inv q \<Longrightarrow> queue_inv (enqueue i r q)" "nothing_lost q \<Longrightarrow> nothing_lost (enqueue i r q)"
  by (simp_all add: queue_inv_def nothing_lost_def held_def taken_def enqueue_def ac_simps)

lemma begin_flush_moves:
  assumes "tq_flush q = None"
  shows "held (begin_flush live q) = held q" and "tq_enqueued (begin_flush live q) = tq_enqueued q"
    and "tq_recorded (begin_flush live q) = tq_recorded q" and "tq_inflight (begin_flush live q) = tq_inflight q"
    and "is_draining (begin_flush live q) \<Longrightarrow> \<not> live"
proof -
  obtain sel rem where r: "select_live (\<lambda>_. 0) (tq_items q) = (sel, rem)" by force
  have m: "mset (tq_items q) = mset rem + mset sel" using select_live_mset [OF r] by (simp add: ac_simps)
  show "held (begin_flush live q) = held q" using assms m by (auto simp: begin_flush_def held_def taken_def r)
  show "tq_enqueued (begin_flush live q) = tq_enqueued q" "tq_recorded (begin_flush live q) = tq_recorded q"
    "tq_inflight (begin_flush live q) = tq_inflight q"
    by (simp_all add: begin_flush_def r)
  show "\<not> live" if "is_draining (begin_flush live q)"
    using that assms by (cases live) (simp_all add: begin_flush_def r is_draining_def split: if_splits)
qed

lemma abandon_flush_moves:
  shows "held (abandon_flush q) \<subseteq># held q" and "\<not> is_draining q \<Longrightarrow> held (abandon_flush q) = held q"
    and "tq_enqueued (abandon_flush q) = tq_enqueued q" and "tq_recorded (abandon_flush q) = tq_recorded q"
    and "tq_inflight (abandon_flush q) = tq_inflight q" and "tq_flush (abandon_flush q) = None"
  by (auto simp: abandon_flush_def held_def taken_def is_draining_def split: option.split bool.splits)

lemma end_flush_moves:
  assumes "queue_inv q"
  shows "queue_inv (end_flush os q)" and "\<not> is_draining q \<Longrightarrow> held (end_flush os q) = held q"
    and "tq_enqueued (end_flush os q) = tq_enqueued q"
    and "\<exists>zs. tq_recorded (end_flush os q) = tq_recorded q @ zs \<and> mset (map fst zs) \<subseteq># mset (taken q)"
proof -
  have "queue_inv (end_flush os q) \<and> (\<not> is_draining q \<longrightarrow> held (end_flush os q) = held q)
      \<and> tq_enqueued (end_flush os q) = tq_enqueued q
      \<and> (\<exists>zs. tq_recorded (end_flush os q) = tq_recorded q @ zs \<and> mset (map fst zs) \<subseteq># mset (taken q))"
  proof (cases "tq_flush q")
    case None
    then show ?thesis using assms by (simp add: end_flush_def)
  next
    case (Some p)
    obtain live items where p: "p = (live, items)" by force
    show ?thesis
    proof (cases "length os = length items")
      case False
      then have e: "end_flush os q = abandon_flush q" by (simp add: end_flush_def Some p)
      have "queue_inv (abandon_flush q)" by (rule inv_shrinks [OF assms abandon_flush_moves(1,3-5)])
      then show ?thesis by (simp add: e abandon_flush_moves)
    next
      case True
      let ?ps = "zip items os"
      have s: "mset (map fst (counted_items ?ps)) + mset (failed_items ?ps) = mset items"
        by (rule split_outcomes) (simp add: True)
      have e: "end_flush os q = q\<lparr>tq_items := (if live then failed_items ?ps @ tq_items q else tq_items q),
          tq_recorded := tq_recorded q @ counted_items ?ps,
          tq_inflight := tq_inflight q - int (length (counted_items ?ps)), tq_flush := None\<rparr>"
        using True by (simp add: end_flush_def Some p Let_def)
      have h: "held q = mset (map fst (tq_recorded q)) + mset (tq_items q) + mset items" by (simp add: held_def taken_def Some p)
      have h': "held (end_flush os q) = mset (map fst (tq_recorded q)) + mset (map fst (counted_items ?ps))
          + (if live then mset (failed_items ?ps) else {#}) + mset (tq_items q)"
        by (simp add: held_def taken_def e)
      have "held (end_flush os q) \<subseteq># held q" unfolding h h' s [symmetric] by (simp add: ac_simps)
      then have "held (end_flush os q) \<subseteq># mset (tq_enqueued q)"
        by (rule subset_mset.order_trans) (use assms in \<open>simp add: queue_inv_def\<close>)
      then have "queue_inv (end_flush os q)" using assms by (simp add: queue_inv_def e)
      moreover have "held (end_flush os q) = held q" if "\<not> is_draining q"
        using that unfolding h h' s [symmetric] by (cases live) (simp_all add: is_draining_def Some p ac_simps)
      moreover have "mset (map fst (counted_items ?ps)) \<subseteq># mset (taken q)"
        using s by (simp add: taken_def Some p) (metis mset_subset_eq_add_left)
      ultimately show ?thesis by (auto simp: e)
    qed
  qed
  then show "queue_inv (end_flush os q)" "\<not> is_draining q \<Longrightarrow> held (end_flush os q) = held q"
    "tq_enqueued (end_flush os q) = tq_enqueued q"
    "\<exists>zs. tq_recorded (end_flush os q) = tq_recorded q @ zs \<and> mset (map fst zs) \<subseteq># mset (taken q)" by blast+
qed

text \<open>A flush in progress is the live task's or the drain's.\<close>

definition lanes_ok :: "token_queue \<Rightarrow> bool" where
  "lanes_ok q = (tq_flush q = None \<or> tq_live_task q \<or> is_draining q)"

lemma flush_remaining_moves:
  assumes "\<not> is_draining q" "tq_live_task q \<or> tq_flush q = None"
  shows "held (flush_remaining q) = held q" and "tq_enqueued (flush_remaining q) = tq_enqueued q"
    and "tq_recorded (flush_remaining q) = tq_recorded q" and "tq_inflight (flush_remaining q) = tq_inflight q"
    and "tq_result (flush_remaining q) = Some n \<Longrightarrow> n = tq_inflight q" and "lanes_ok (flush_remaining q)"
proof -
  define q1 where "q1 = (if tq_live_task q then (abandon_flush q)\<lparr>tq_live_task := False\<rparr> else q)\<lparr>tq_result := None\<rparr>"
  have f: "tq_flush q1 = None" "tq_inflight q1 = tq_inflight q" "tq_enqueued q1 = tq_enqueued q" "tq_recorded q1 = tq_recorded q"
    "tq_result q1 = None"
    using assms(2) by (auto simp: q1_def abandon_flush_moves)
  have drop: "held (q'\<lparr>tq_result := x\<rparr>) = held q'" "held (q'\<lparr>tq_live_task := l\<rparr>) = held q'" for q' x l
    by (simp_all add: held_def taken_def)
  have h: "held q1 = held q" using abandon_flush_moves(2) [OF assms(1)] by (simp add: q1_def drop)
  note b = begin_flush_moves [OF f(1), of False]
  have r: "tq_result (begin_flush False q1) = None" using f(5) by (simp add: begin_flush_def split: prod.split)
  have go: "flush_remaining q = (if tq_inflight q1 = 0 then q1\<lparr>tq_result := Some 0\<rparr>
      else if tq_flush (begin_flush False q1) = None then drain_returns (begin_flush False q1) else begin_flush False q1)"
    by (simp add: flush_remaining_def Let_def q1_def)
  show "held (flush_remaining q) = held q" unfolding go by (simp add: drain_returns_def drop b(1) h)
  show "tq_enqueued (flush_remaining q) = tq_enqueued q" "tq_recorded (flush_remaining q) = tq_recorded q"
    "tq_inflight (flush_remaining q) = tq_inflight q"
    unfolding go drain_returns_def using b f by (simp_all split: if_split)
  show "n = tq_inflight q" if "tq_result (flush_remaining q) = Some n"
    using that b f r unfolding go drain_returns_def by (auto split: if_splits)
  show "lanes_ok (flush_remaining q)"
    using f(1) unfolding go drain_returns_def lanes_ok_def begin_flush_def is_draining_def by (auto split: if_splits prod.splits)
qed

section \<open>The specification\<close>

text \<open>The abstract queue: a bag of pending work, and the counts that were recorded.\<close>

record work_bag =
  wb_pending :: "queued multiset"
  wb_done :: "(queued \<times> int) multiset"

inductive bag_step :: "work_bag \<Rightarrow> work_bag \<Rightarrow> bool" where
  add: "bag_step b (b\<lparr>wb_pending := wb_pending b + {#x#}\<rparr>)"
| complete: "image_mset fst zs \<subseteq># wb_pending b \<Longrightarrow>
    bag_step b (b\<lparr>wb_pending := wb_pending b - image_mset fst zs, wb_done := wb_done b + zs\<rparr>)"

definition bag_of :: "token_queue \<Rightarrow> work_bag" where
  "bag_of q = \<lparr>wb_pending = mset (tq_enqueued q) - mset (map fst (tq_recorded q)), wb_done = mset (tq_recorded q)\<rparr>"

lemma bag_step_skip: "bag_step b b"
  using bag_step.complete [of "{#}" b] by simp

lemma bag_of_same: "tq_enqueued q' = tq_enqueued q \<Longrightarrow> tq_recorded q' = tq_recorded q \<Longrightarrow> bag_of q' = bag_of q"
  by (simp add: bag_of_def)

lemma inv_recorded: "queue_inv q \<Longrightarrow> mset (map fst (tq_recorded q)) + mset (taken q) \<subseteq># mset (tq_enqueued q)"
proof -
  assume "queue_inv q"
  then have "held q \<subseteq># mset (tq_enqueued q)" by (simp add: queue_inv_def)
  moreover have "mset (map fst (tq_recorded q)) + mset (taken q) \<subseteq># held q" by (simp add: held_def ac_simps)
  ultimately show ?thesis by (rule subset_mset.order_trans [rotated])
qed

lemma inflight_pending: "queue_inv q \<Longrightarrow> tq_inflight q = int (size (wb_pending (bag_of q)))"
proof -
  assume q: "queue_inv q"
  have "mset (map fst (tq_recorded q)) \<subseteq># mset (tq_enqueued q)"
    by (rule subset_mset.order_trans [OF _ inv_recorded [OF q]]) simp
  then have "size (wb_pending (bag_of q)) = length (tq_enqueued q) - length (tq_recorded q)"
    "length (tq_recorded q) \<le> length (tq_enqueued q)"
    using size_mset_mono by (fastforce simp: bag_of_def size_Diff_submset)+
  then show ?thesis using q by (simp add: queue_inv_def)
qed

lemma mset_le_diff: "A + B \<subseteq># C \<Longrightarrow> A \<subseteq># C - B"
  by (simp add: subseteq_mset_def) (metis add_le_imp_le_diff)

lemma record_refines:
  assumes "queue_inv q" "tq_enqueued q' = tq_enqueued q" "tq_recorded q' = tq_recorded q @ zs" "mset (map fst zs) \<subseteq># mset (taken q)"
  shows "bag_step (bag_of q) (bag_of q')"
proof -
  have "mset (map fst (tq_recorded q)) + mset (map fst zs) \<subseteq># mset (tq_enqueued q)"
    by (rule subset_mset.order_trans [OF _ inv_recorded [OF assms(1)]]) (use assms(4) in simp)
  then have "image_mset fst (mset zs) \<subseteq># wb_pending (bag_of q)"
    by (simp add: bag_of_def mset_le_diff ac_simps)
  from bag_step.complete [OF this] show ?thesis by (simp add: bag_of_def assms(2,3))
qed

lemma drain_returns_same:
  "held (drain_returns q) = held q" "tq_enqueued (drain_returns q) = tq_enqueued q" "tq_recorded (drain_returns q) = tq_recorded q"
  "tq_inflight (drain_returns q) = tq_inflight q" "tq_flush (drain_returns q) = tq_flush q"
  "bag_of (drain_returns q) = bag_of q" "queue_inv (drain_returns q) = queue_inv q"
  by (simp_all add: drain_returns_def held_def taken_def bag_of_def queue_inv_def)

lemma end_flush_flush: "tq_flush (end_flush os q) = None"
  by (auto simp: end_flush_def abandon_flush_def Let_def split: option.split)

lemma queue_step_ok:
  assumes "queue_inv q" "lanes_ok q"
  shows "queue_inv (queue_step q e) \<and> lanes_ok (queue_step q e) \<and> bag_step (bag_of q) (bag_of (queue_step q e))
    \<and> (nothing_lost q \<longrightarrow> \<not> is_draining q \<longrightarrow> nothing_lost (queue_step q e))"
proof -
  have keep: ?thesis if "held (queue_step q e) \<subseteq># held q" "tq_enqueued (queue_step q e) = tq_enqueued q"
    "tq_recorded (queue_step q e) = tq_recorded q" "tq_inflight (queue_step q e) = tq_inflight q"
    "lanes_ok (queue_step q e)" "\<not> is_draining q \<Longrightarrow> held (queue_step q e) = held q"
    using that inv_shrinks [OF assms(1) that(1-4)] bag_of_same [OF that(2,3)] bag_step_skip by (auto simp: nothing_lost_def)
  note a = abandon_flush_moves [of q]
  have free: "lanes_ok q'" if "tq_flush q' = None" for q' using that by (simp add: lanes_ok_def)
  show ?thesis
  proof (cases e)
    case (Put item rec)
    have "bag_step (bag_of q) (bag_of (enqueue item rec q))"
    proof -
      have "mset (map fst (tq_recorded q)) \<subseteq># mset (tq_enqueued q)"
        by (rule subset_mset.order_trans [OF _ inv_recorded [OF assms(1)]]) simp
      then have "bag_of (enqueue item rec q) = (bag_of q)\<lparr>wb_pending := wb_pending (bag_of q) + {#(item, rec)#}\<rparr>"
        by (auto simp: bag_of_def enqueue_def subseteq_mset_def Suc_diff_le intro!: multiset_eqI)
      then show ?thesis by (simp only: bag_step.add)
    qed
    moreover have "lanes_ok (enqueue item rec q)" using assms(2) by (simp add: lanes_ok_def enqueue_def is_draining_def)
    ultimately show ?thesis using enqueue_moves assms(1) by (simp add: Put)
  next
    case StartLive
    show ?thesis
      by (rule keep) (use assms(2) in \<open>auto simp: StartLive start_live_def held_def taken_def lanes_ok_def\<close>)
  next
    case LiveTick
    show ?thesis
    proof (cases "tq_live_task q \<and> tq_flush q = None")
      case True
      note b = begin_flush_moves [of q True]
      have "tq_live_task (begin_flush True q)" using True by (simp add: begin_flush_def split: prod.split)
      then have "lanes_ok (begin_flush True q)" by (simp add: lanes_ok_def)
      then show ?thesis using True b by (intro keep) (simp_all add: LiveTick)
    next
      case False
      then have "queue_step q LiveTick = q" by auto
      then show ?thesis using assms(2) by (intro keep) (simp_all add: LiveTick)
    qed
  next
    case (Outcomes os)
    note m = end_flush_moves [OF assms(1), of os]
    obtain zs where zs: "tq_recorded (end_flush os q) = tq_recorded q @ zs" "mset (map fst zs) \<subseteq># mset (taken q)"
      using m(4) by blast
    have "bag_step (bag_of q) (bag_of (end_flush os q))" by (rule record_refines [OF assms(1) m(3) zs])
    moreover have "nothing_lost q \<longrightarrow> \<not> is_draining q \<longrightarrow> nothing_lost (end_flush os q)"
      using m(2,3) by (simp add: nothing_lost_def)
    moreover have "lanes_ok (end_flush os q)" "lanes_ok (drain_returns (end_flush os q))"
      by (simp_all add: free end_flush_flush drain_returns_same)
    ultimately show ?thesis using m(1) by (simp add: Outcomes drain_returns_same)
  next
    case TokenizerRaises
    show ?thesis by (rule keep) (use a in \<open>simp_all add: TokenizerRaises drain_returns_same free\<close>)
  next
    case FlushRemaining
    show ?thesis
    proof (cases "is_draining q")
      case True
      then show ?thesis using assms(2) by (intro keep) (simp_all add: FlushRemaining)
    next
      case False
      then have "tq_live_task q \<or> tq_flush q = None" using assms(2) by (auto simp: lanes_ok_def)
      note m = flush_remaining_moves [OF False this]
      show ?thesis by (rule keep) (use m False in \<open>simp_all add: FlushRemaining\<close>)
    qed
  next
    case DrainTimesOut
    show ?thesis by (rule keep) (use a assms(2) in \<open>simp_all add: DrainTimesOut drain_returns_same free\<close>)
  next
    case CancelDrain
    show ?thesis by (rule keep) (use a assms(2) in \<open>simp_all add: CancelDrain free\<close>)
  qed
qed

interpretation tq: simulation token_queue_init queue_step "\<lambda>q. queue_inv q \<and> lanes_ok q" bag_of bag_step
proof
  show "queue_inv token_queue_init \<and> lanes_ok token_queue_init"
    by (simp add: token_queue_init_def queue_inv_def lanes_ok_def held_def taken_def)
qed (use queue_step_ok in blast)+

text \<open>C12. The token queue refines a bag of pending work.  Whatever the interleaving of event-time
  enqueues, live flushes (with partial failures, cancellation and re-queueing) and the final drain,
  each step of the queue only adds one item to the bag, or moves pending items to the recorded ones
  with their counts; no item is recorded twice, none is recorded that was not enqueued, and the
  pending count the snapshot reports is the size of the bag.\<close>

theorem token_queue_refines_bag:
  "bag_step (bag_of (foldl queue_step token_queue_init es)) (bag_of (queue_step (foldl queue_step token_queue_init es) e))
   \<and> bag_step\<^sup>*\<^sup>* (bag_of token_queue_init) (bag_of (foldl queue_step token_queue_init es))
   \<and> tq_inflight (foldl queue_step token_queue_init es)
     = int (size (wb_pending (bag_of (foldl queue_step token_queue_init es))))"
  using tq.run_step tq.run_spec inflight_pending tq.invar_run by blast

lemma no_drain_lost:
  "FlushRemaining \<notin> set es \<Longrightarrow> nothing_lost (foldl queue_step token_queue_init es) \<and> \<not> is_draining (foldl queue_step token_queue_init es)"
proof (induction es rule: rev_induct)
  case (snoc e es)
  let ?q = "foldl queue_step token_queue_init es"
  have ih: "nothing_lost ?q" "\<not> is_draining ?q" using snoc by simp_all
  have "\<not> is_draining (queue_step ?q e)"
  proof (cases e)
    case LiveTick
    show ?thesis
    proof (cases "tq_flush ?q = None")
      case True
      then have "\<not> is_draining (begin_flush True ?q)" using begin_flush_moves(5) [OF True, of True] by blast
      then show ?thesis using ih(2) by (simp add: LiveTick)
    qed (use ih(2) in \<open>auto simp: LiveTick\<close>)
  next
    case (Outcomes os)
    then show ?thesis using ih(2) by (simp add: is_draining_def end_flush_flush)
  next
    case TokenizerRaises
    then show ?thesis using ih(2) abandon_flush_moves(6) [of ?q] by (simp add: is_draining_def)
  qed (use ih(2) snoc.prems in \<open>auto simp: is_draining_def enqueue_def start_live_def\<close>)
  then show ?case using queue_step_ok [of ?q e] tq.invar_run [of es] ih by simp
qed (simp add: token_queue_init_def nothing_lost_def held_def taken_def is_draining_def)

lemma result_is_inflight:
  assumes "lanes_ok q" "tq_result q = None" "tq_result (queue_step q e) = Some n"
  shows "n = tq_inflight (queue_step q e) \<and> tq_enqueued (queue_step q e) = tq_enqueued q"
proof (cases e)
  case (Outcomes os)
  have "tq_result (end_flush os q) = tq_result q" "tq_enqueued (end_flush os q) = tq_enqueued q"
    by (auto simp: end_flush_def abandon_flush_def Let_def split: option.split)
  then show ?thesis using assms(2,3) by (auto simp: Outcomes drain_returns_def split: if_splits)
next
  case FlushRemaining
  then have nd: "\<not> is_draining q" using assms(2,3) by (cases "is_draining q") simp_all
  then have "tq_live_task q \<or> tq_flush q = None" using assms(1) by (auto simp: lanes_ok_def)
  note m = flush_remaining_moves [OF nd this]
  show ?thesis using m(2,4,5) nd assms(3) by (simp add: FlushRemaining)
next
  case LiveTick
  then show ?thesis using assms(2,3) by (simp add: begin_flush_def split: if_splits prod.splits)
next
  case TokenizerRaises
  then show ?thesis using assms(2,3) by (auto simp: drain_returns_def abandon_flush_def split: if_splits option.splits)
next
  case DrainTimesOut
  then show ?thesis using assms(2,3) by (auto simp: drain_returns_def abandon_flush_def split: if_splits option.splits)
next
  case CancelDrain
  then show ?thesis using assms(2,3) by (auto simp: abandon_flush_def split: if_splits option.splits)
qed (use assms(2,3) in \<open>simp_all add: enqueue_def start_live_def split: if_splits\<close>)

text \<open>A mid-run hiccup never loses a sample, and the drain tells the truth.  Until the final
  drain starts, every enqueued item is recorded, buffered or in the flush in progress; and when the
  drain returns, it returns the number of items that were not recorded, so a result of zero means
  that every enqueued item was recorded exactly once.\<close>

theorem drain_result_is_honest:
  assumes "q = foldl queue_step token_queue_init es"
  shows "(FlushRemaining \<notin> set es \<longrightarrow>
      mset (map fst (tq_recorded q)) + mset (tq_items q) + mset (taken q) = mset (tq_enqueued q))
    \<and> (tq_result q = None \<longrightarrow> tq_result (queue_step q e) = Some n \<longrightarrow>
        n = int (length (tq_enqueued q)) - int (length (tq_recorded (queue_step q e)))
        \<and> (n = 0 \<longrightarrow> mset (map fst (tq_recorded (queue_step q e))) = mset (tq_enqueued q)))"
proof -
  have inv: "queue_inv q" "lanes_ok q" using tq.invar_run [of es] by (simp_all add: assms)
  then have inv': "queue_inv (queue_step q e)" using queue_step_ok by blast
  have "n = int (length (tq_enqueued q)) - int (length (tq_recorded (queue_step q e)))
      \<and> (n = 0 \<longrightarrow> mset (map fst (tq_recorded (queue_step q e))) = mset (tq_enqueued q))"
    if r: "tq_result q = None" "tq_result (queue_step q e) = Some n"
  proof -
    note n = result_is_inflight [OF inv(2) r]
    have "mset (map fst (tq_recorded (queue_step q e))) \<subseteq># mset (tq_enqueued q)"
      using subset_mset.order_trans [OF _ inv_recorded [OF inv'], of "mset (map fst (tq_recorded (queue_step q e)))"] n by simp
    moreover have "mset (tq_enqueued q) \<subseteq># mset (map fst (tq_recorded (queue_step q e)))" if "n = 0"
      using inflight_pending [OF inv'] n that by (simp add: bag_of_def Diff_eq_empty_iff_mset)
    ultimately show ?thesis using n inv' by (auto simp: queue_inv_def intro: subset_mset.antisym)
  qed
  moreover have "FlushRemaining \<notin> set es \<longrightarrow>
      mset (map fst (tq_recorded q)) + mset (tq_items q) + mset (taken q) = mset (tq_enqueued q)"
    using no_drain_lost [of es] assms by (simp add: nothing_lost_def held_def)
  ultimately show ?thesis by blast
qed

theorem drain_result_is_honest_witness:
  "let q = foldl queue_step token_queue_init
         [Put (TextInput ''a'') (CountRecorder OSL), StartLive, LiveTick, Put (TextInput ''b'') (CountRecorder OSL),
          TokenizerRaises, FlushRemaining]
   in tq_result q = None \<and> tq_result (queue_step q (Outcomes [Inr 1, Inr 2])) = Some 0
      \<and> mset (map fst (tq_recorded (queue_step q (Outcomes [Inr 1, Inr 2])))) = mset (tq_enqueued q)"
proof -
  let ?es = "[Put (TextInput ''a'') (CountRecorder OSL), StartLive, LiveTick, Put (TextInput ''b'') (CountRecorder OSL),
          TokenizerRaises, FlushRemaining]"
  let ?q = "foldl queue_step token_queue_init ?es"
  have "tq_result ?q = None" "tq_result (queue_step ?q (Outcomes [Inr 1, Inr 2])) = Some 0" by code_simp+
  then show ?thesis using drain_result_is_honest [OF refl, of ?es "Outcomes [Inr 1, Inr 2]" 0] by (simp only: Let_def simp_thms)
qed

end
