(* ===== verification/PubSub.thy ===== *)
theory PubSub
  imports Simulation CoreTypes
begin

text \<open>
  \<open>async_utils/transport/zmq/pubsub.py\<close> and the message base classes of
  \<open>async_utils/transport/protocol.py\<close>: the batching publisher with its pending queue, and the
  subscriber that unpacks batches.  A socket call is answered by \<open>socket_reply\<close>; the frames a
  socket accepted are \<open>pb_wire\<close> until the subscriber's socket has them.  The msgpack encoder and
  decoder of batches are the arguments \<open>benc\<close> and \<open>bdec\<close>, those of items are in the codec.
\<close>

section \<open>Codecs\<close>

record 'a message_codec =
  mc_encode :: "'a \<Rightarrow> string \<times> string"
  mc_decode :: "string \<Rightarrow> 'a result"
  mc_on_decode_error :: "string \<Rightarrow> py_exc \<Rightarrow> 'a option result"

text \<open>\<open>msgspec.DecodeError\<close> and its subclass.\<close>

definition is_decode_error :: "py_exc \<Rightarrow> bool" where
  "is_decode_error e = (e \<in> {OtherException ''DecodeError'', OtherException ''ValidationError''})"

fun exc_name :: "py_exc \<Rightarrow> string" where
  "exc_name (OtherException n) = n"
| "exc_name _ = ''''"

text \<open>\<open>EventRecordCodec\<close>: a malformed payload becomes a generic error record stamped \<open>now\<close>.\<close>

definition record_decode_error :: "(py_exc \<Rightarrow> string) \<Rightarrow> int \<Rightarrow> py_exc \<Rightarrow> event_record option result" where
  "record_decode_error str now e =
     (if is_decode_error e
      then Inr (Some ((mk_event (ErrorEv GENERIC) now)
             \<lparr>ev_data := ErrorD \<lparr>error_type = exc_name e, error_message = str e\<rparr>\<rparr>))
      else Inl e)"

definition event_record_codec ::
    "(event_record \<Rightarrow> string) \<Rightarrow> (string \<Rightarrow> event_record result) \<Rightarrow> (py_exc \<Rightarrow> string) \<Rightarrow> (string \<Rightarrow> int)
     \<Rightarrow> event_record message_codec" where
  "event_record_codec enc dec str clock =
     \<lparr>mc_encode = (\<lambda>r. (topic_bytes_padded (ev_type r), enc r)), mc_decode = dec,
      mc_on_decode_error = (\<lambda>p e. record_decode_error str (clock p) e)\<rparr>"

section \<open>The publisher\<close>

datatype socket_reply = Accepted | WouldBlock | SocketError

definition zmq_error :: py_exc where "zmq_error = OtherException ''ZMQError''"

record publisher =
  pb_threshold :: nat
  pb_batch :: "string list"
  pb_last_topic :: string
  pb_pending :: "string list"
  pb_writing :: bool
  pb_closed :: bool
  pb_has_loop :: bool
  pb_wire :: "string list"

definition publisher_init :: "nat \<Rightarrow> bool \<Rightarrow> publisher" where
  "publisher_init threshold has_loop =
     \<lparr>pb_threshold = threshold, pb_batch = [], pb_last_topic = [], pb_pending = [], pb_writing = False,
      pb_closed = False, pb_has_loop = has_loop, pb_wire = []\<rparr>"

definition queue_frame :: "string \<Rightarrow> publisher \<Rightarrow> unit result \<times> publisher" where
  "queue_frame frame s =
     (if \<not> pb_has_loop s then (Inl RuntimeError, s)
      else (Inr (), s\<lparr>pb_pending := pb_pending s @ [frame], pb_writing := True\<rparr>))"

definition send_frame :: "string \<Rightarrow> socket_reply \<Rightarrow> publisher \<Rightarrow> unit result \<times> publisher" where
  "send_frame frame reply s =
     (if pb_pending s = [] then
        (case reply of
           Accepted \<Rightarrow> (Inr (), s\<lparr>pb_wire := pb_wire s @ [frame]\<rparr>)
         | WouldBlock \<Rightarrow> queue_frame frame s
         | SocketError \<Rightarrow> (Inl zmq_error, s))
      else queue_frame frame s)"

definition batch_frame :: "(string list \<Rightarrow> string) \<Rightarrow> string \<Rightarrow> string list \<Rightarrow> string" where
  "batch_frame benc last_topic buf =
     (if length buf = 1 then last_topic @ hd buf else BATCH_TOPIC @ benc buf)"

text \<open>\<open>_flush_batch\<close>: a failed send restores the buffer.\<close>

definition flush_batch :: "(string list \<Rightarrow> string) \<Rightarrow> socket_reply \<Rightarrow> publisher \<Rightarrow> unit result \<times> publisher" where
  "flush_batch benc reply s =
     (let buf = pb_batch s
      in (case send_frame (batch_frame benc (pb_last_topic s) buf) reply (s\<lparr>pb_batch := []\<rparr>) of
            (Inl e, s') \<Rightarrow> (Inl e, s'\<lparr>pb_batch := buf\<rparr>)
          | (Inr u, s') \<Rightarrow> (Inr u, s')))"

definition send :: "(string list \<Rightarrow> string) \<Rightarrow> string \<times> string \<Rightarrow> socket_reply \<Rightarrow> publisher \<Rightarrow> unit result \<times> publisher" where
  "send benc tp reply s =
     (let s1 = s\<lparr>pb_last_topic := fst tp, pb_batch := pb_batch s @ [snd tp]\<rparr>
      in if length (pb_batch s1) \<ge> pb_threshold s1 then flush_batch benc reply s1 else (Inr (), s1))"

definition publish ::
    "(string list \<Rightarrow> string) \<Rightarrow> 'a message_codec \<Rightarrow> 'a \<Rightarrow> socket_reply \<Rightarrow> publisher \<Rightarrow> unit result \<times> publisher" where
  "publish benc codec x reply s =
     (if pb_closed s then (Inr (), s) else send benc (mc_encode codec x) reply s)"

definition flush :: "(string list \<Rightarrow> string) \<Rightarrow> socket_reply \<Rightarrow> publisher \<Rightarrow> unit result \<times> publisher" where
  "flush benc reply s = (if pb_batch s \<noteq> [] then flush_batch benc reply s else (Inr (), s))"

text \<open>\<open>_drain_pending\<close>; the \<open>i\<close>-th send is answered by \<open>replies i\<close>.\<close>

fun drain_frames :: "(nat \<Rightarrow> socket_reply) \<Rightarrow> nat \<Rightarrow> 'f list \<Rightarrow> 'f list \<times> 'f list \<times> bool" where
  "drain_frames replies i [] = ([], [], True)"
| "drain_frames replies i (f # fs) =
     (case replies i of
        Accepted \<Rightarrow> (case drain_frames replies (Suc i) fs of (sent, left, ok) \<Rightarrow> (f # sent, left, ok))
      | WouldBlock \<Rightarrow> ([], f # fs, True)
      | SocketError \<Rightarrow> ([], f # fs, False))"

definition drain_pending :: "(nat \<Rightarrow> socket_reply) \<Rightarrow> publisher \<Rightarrow> unit result \<times> publisher" where
  "drain_pending replies s =
     (case drain_frames replies 0 (pb_pending s) of
        (sent, left, ok) \<Rightarrow>
          (if ok then Inr () else Inl zmq_error, s\<lparr>pb_pending := left, pb_wire := pb_wire s @ sent\<rparr>))"

definition stop_writer :: "publisher \<Rightarrow> publisher" where
  "stop_writer s = s\<lparr>pb_writing := False\<rparr>"

definition on_writable :: "(nat \<Rightarrow> socket_reply) \<Rightarrow> publisher \<Rightarrow> unit result \<times> publisher" where
  "on_writable replies s =
     (if pb_closed s then (Inr (), s)
      else (case drain_pending replies s of
              (Inl e, s') \<Rightarrow> (Inl e, s')
            | (Inr u, s') \<Rightarrow> (Inr u, if pb_pending s' = [] then stop_writer s' else s')))"

definition close_publisher ::
    "(string list \<Rightarrow> string) \<Rightarrow> socket_reply \<Rightarrow> (nat \<Rightarrow> socket_reply) \<Rightarrow> publisher \<Rightarrow> unit result \<times> publisher" where
  "close_publisher benc reply replies s =
     (if pb_closed s then (Inr (), s)
      else (case (if pb_batch s \<noteq> [] then flush_batch benc reply s else (Inr (), s)) of
              (Inl e, s1) \<Rightarrow> (Inl e, s1)
            | (Inr u, s1) \<Rightarrow>
                (let s2 = s1\<lparr>pb_closed := True\<rparr>
                 in if \<not> pb_has_loop s2 then (Inr (), s2)
                    else (let s3 = stop_writer s2
                          in if pb_pending s3 = [] then (Inr (), s3)
                             else (case drain_pending replies s3 of
                                     (Inl e, s4) \<Rightarrow> (Inl e, s4)
                                   | (Inr u, s4) \<Rightarrow> (Inr u, s4\<lparr>pb_pending := []\<rparr>))))))"

section \<open>The subscriber\<close>

record 'a subscriber =
  sb_socket :: "string list"
  sb_buffer :: "string list"
  sb_closed :: bool
  sb_tasks :: "'a list list"

definition subscriber_init :: "'a subscriber" where
  "subscriber_init = \<lparr>sb_socket = [], sb_buffer = [], sb_closed = False, sb_tasks = []\<rparr>"

datatype received = NothingLeft | NoPayload | Payload string

text \<open>What a frame holds for its receiver.\<close>

definition frame_payloads :: "(string \<Rightarrow> string list option) \<Rightarrow> string \<Rightarrow> string list" where
  "frame_payloads bdec f =
     (if take TOPIC_FRAME_SIZE f = BATCH_TOPIC
      then (case bdec (drop TOPIC_FRAME_SIZE f) of None \<Rightarrow> [] | Some ps \<Rightarrow> filter (\<lambda>p. p \<noteq> []) ps)
      else if length f > TOPIC_FRAME_SIZE then [drop TOPIC_FRAME_SIZE f] else [])"

text \<open>\<open>receive\<close> of an open subscriber: buffered payloads first, then one frame of the socket.\<close>

definition receive :: "(string \<Rightarrow> string list option) \<Rightarrow> 'a subscriber \<Rightarrow> received \<times> 'a subscriber" where
  "receive bdec s =
     (case sb_buffer s of
        p # ps \<Rightarrow> (Payload p, s\<lparr>sb_buffer := ps\<rparr>)
      | [] \<Rightarrow>
          (case sb_socket s of
             [] \<Rightarrow> (NothingLeft, s)
           | f # fs \<Rightarrow>
               (if take TOPIC_FRAME_SIZE f = BATCH_TOPIC then
                  (case bdec (drop TOPIC_FRAME_SIZE f) of
                     None \<Rightarrow> (NoPayload, s\<lparr>sb_socket := fs\<rparr>)
                   | Some ps \<Rightarrow>
                       (case filter (\<lambda>p. p \<noteq> []) ps of
                          [] \<Rightarrow> (NoPayload, s\<lparr>sb_socket := fs\<rparr>)
                        | q # qs \<Rightarrow> (Payload q, s\<lparr>sb_socket := fs, sb_buffer := qs\<rparr>)))
                else if length f > TOPIC_FRAME_SIZE then (Payload (drop TOPIC_FRAME_SIZE f), s\<lparr>sb_socket := fs\<rparr>)
                else (NoPayload, s\<lparr>sb_socket := fs\<rparr>))))"

lemma receive_shrinks:
  "(x, s') = receive bdec s \<Longrightarrow> x \<noteq> NothingLeft \<Longrightarrow>
     length (sb_socket s') < length (sb_socket s)
       \<or> length (sb_socket s') = length (sb_socket s) \<and> length (sb_buffer s') < length (sb_buffer s)"
  by (auto simp: receive_def split: list.splits option.splits if_splits)

text \<open>The loop of \<open>_on_readable\<close>: the items read, and the exception that ended it, if any.\<close>

function read_all ::
    "(string \<Rightarrow> string list option) \<Rightarrow> 'a message_codec \<Rightarrow> 'a subscriber \<Rightarrow> 'a list \<times> py_exc option \<times> 'a subscriber" where
  "read_all bdec codec s =
     (case receive bdec s of
        (NothingLeft, s') \<Rightarrow> ([], None, s')
      | (NoPayload, s') \<Rightarrow> read_all bdec codec s'
      | (Payload p, s') \<Rightarrow>
          (case mc_decode codec p of
             Inr x \<Rightarrow> (case read_all bdec codec s' of (xs, e, s'') \<Rightarrow> (x # xs, e, s''))
           | Inl exc \<Rightarrow>
               (case mc_on_decode_error codec p exc of
                  Inl e \<Rightarrow> ([], Some e, s')
                | Inr None \<Rightarrow> read_all bdec codec s'
                | Inr (Some x) \<Rightarrow> (case read_all bdec codec s' of (xs, e, s'') \<Rightarrow> (x # xs, e, s'')))))"
  by pat_completeness auto

termination
  by (relation "measures [\<lambda>(bdec, codec, s). length (sb_socket s), \<lambda>(bdec, codec, s). length (sb_buffer s)]")
     (auto dest: receive_shrinks)

declare read_all.simps [simp del]

definition on_readable ::
    "(string \<Rightarrow> string list option) \<Rightarrow> 'a message_codec \<Rightarrow> 'a subscriber \<Rightarrow> py_exc option \<times> 'a subscriber" where
  "on_readable bdec codec s =
     (if sb_closed s then (None, s)
      else (case read_all bdec codec s of
              (items, e, s') \<Rightarrow>
                (e, if items \<noteq> [] then s'\<lparr>sb_tasks := sb_tasks s' @ [items]\<rparr> else s')))"

definition close_subscriber :: "'a subscriber \<Rightarrow> 'a subscriber" where
  "close_subscriber s = s\<lparr>sb_closed := True\<rparr>"

end
