(* ===== verification/PubSubFacts.thy ===== *)
theory PubSubFacts
  imports PubSub
begin

text \<open>
  A publisher and a subscriber joined by the wire are a first-in first-out queue of items: whatever
  the sockets answer and however frames are batched, what the subscriber handed on followed by what is
  still under way is what was published.
\<close>

section \<open>The link\<close>

record 'a link =
  lk_pub :: publisher
  lk_sub :: "'a subscriber"
  lk_published :: "'a list"

datatype 'a link_event =
    PutItem 'a socket_reply | FlushNow socket_reply | Writable "nat \<Rightarrow> socket_reply"
  | ClosePub socket_reply "nat \<Rightarrow> socket_reply" | Transmit nat | Readable | CloseSub

definition link_init :: "nat \<Rightarrow> bool \<Rightarrow> 'a link" where
  "link_init threshold has_loop =
     \<lparr>lk_pub = publisher_init threshold has_loop, lk_sub = subscriber_init, lk_published = []\<rparr>"

fun link_step ::
    "(string list \<Rightarrow> string) \<Rightarrow> (string \<Rightarrow> string list option) \<Rightarrow> 'a message_codec \<Rightarrow> 'a link \<Rightarrow> 'a link_event \<Rightarrow> 'a link" where
  "link_step benc bdec codec l (PutItem x r) =
     l\<lparr>lk_pub := snd (publish benc codec x r (lk_pub l)),
       lk_published := (if pb_closed (lk_pub l) then lk_published l else lk_published l @ [x])\<rparr>"
| "link_step benc bdec codec l (FlushNow r) = l\<lparr>lk_pub := snd (flush benc r (lk_pub l))\<rparr>"
| "link_step benc bdec codec l (Writable rs) = l\<lparr>lk_pub := snd (on_writable rs (lk_pub l))\<rparr>"
| "link_step benc bdec codec l (ClosePub r rs) = l\<lparr>lk_pub := snd (close_publisher benc r rs (lk_pub l))\<rparr>"
| "link_step benc bdec codec l (Transmit k) =
     l\<lparr>lk_pub := (lk_pub l)\<lparr>pb_wire := drop k (pb_wire (lk_pub l))\<rparr>,
       lk_sub := (lk_sub l)\<lparr>sb_socket := sb_socket (lk_sub l) @ take k (pb_wire (lk_pub l))\<rparr>\<rparr>"
| "link_step benc bdec codec l Readable = l\<lparr>lk_sub := snd (on_readable bdec codec (lk_sub l))\<rparr>"
| "link_step benc bdec codec l CloseSub = l\<lparr>lk_sub := close_subscriber (lk_sub l)\<rparr>"

definition delivered :: "'a link \<Rightarrow> 'a list" where
  "delivered l = concat (sb_tasks (lk_sub l))"

definition payload :: "'a message_codec \<Rightarrow> 'a \<Rightarrow> string" where
  "payload codec x = snd (mc_encode codec x)"

text \<open>The codec and the batch encoder are faithful on the items of \<open>P\<close>.\<close>

definition codec_ok ::
    "(string list \<Rightarrow> string) \<Rightarrow> (string \<Rightarrow> string list option) \<Rightarrow> 'a message_codec \<Rightarrow> 'a set \<Rightarrow> bool" where
  "codec_ok benc bdec codec P =
     ((\<forall>x\<in>P. mc_decode codec (payload codec x) = Inr x \<and> payload codec x \<noteq> []
         \<and> length (fst (mc_encode codec x)) = TOPIC_FRAME_SIZE \<and> fst (mc_encode codec x) \<noteq> BATCH_TOPIC)
      \<and> (\<forall>ps. set ps \<subseteq> payload codec ` P \<longrightarrow> bdec (benc ps) = Some ps))"

text \<open>A blocking send waits, so the drain of a closing publisher never sees a full socket.\<close>

fun event_ok :: "'a set \<Rightarrow> 'a link_event \<Rightarrow> bool" where
  "event_ok P (PutItem x r) = (x \<in> P)"
| "event_ok P (ClosePub r rs) = (\<forall>i. rs i \<noteq> WouldBlock)"
| "event_ok P _ = True"

section \<open>The publisher keeps what it was given\<close>

definition queued_payloads :: "(string \<Rightarrow> string list option) \<Rightarrow> publisher \<Rightarrow> string list" where
  "queued_payloads bdec s = concat (map (frame_payloads bdec) (pb_wire s @ pb_pending s))"

definition pub_payloads :: "(string \<Rightarrow> string list option) \<Rightarrow> publisher \<Rightarrow> string list" where
  "pub_payloads bdec s = queued_payloads bdec s @ pb_batch s"

lemma queued_frames:
  "pb_wire s' @ pb_pending s' = pb_wire s @ pb_pending s @ fs
     \<Longrightarrow> queued_payloads bdec s' = queued_payloads bdec s @ concat (map (frame_payloads bdec) fs)"
  by (simp add: queued_payloads_def flip: concat_append map_append)

definition pub_ok :: "'a message_codec \<Rightarrow> 'a set \<Rightarrow> publisher \<Rightarrow> bool" where
  "pub_ok codec P s = (set (pb_batch s) \<subseteq> payload codec ` P
     \<and> (pb_batch s \<noteq> [] \<longrightarrow> length (pb_last_topic s) = TOPIC_FRAME_SIZE \<and> pb_last_topic s \<noteq> BATCH_TOPIC))"

lemma batch_frame_payloads:
  assumes "codec_ok benc bdec codec P" "buf \<noteq> []" "set buf \<subseteq> payload codec ` P"
    "length t = TOPIC_FRAME_SIZE" "t \<noteq> BATCH_TOPIC"
  shows "frame_payloads bdec (batch_frame benc t buf) = buf"
proof -
  have ne: "p \<noteq> []" if "p \<in> set buf" for p
  proof -
    from that obtain x where "x \<in> P" "p = payload codec x" using assms(3) by blast
    then show ?thesis using assms(1) by (simp add: codec_ok_def)
  qed
  show ?thesis
  proof (cases "length buf = 1")
    case True
    then obtain p where p: "buf = [p]" by (metis One_nat_def length_0_conv length_Suc_conv)
    then show ?thesis using ne [of p] assms(4,5) by (simp add: batch_frame_def frame_payloads_def)
  next
    case False
    have "bdec (benc buf) = Some buf" using assms(1,3) by (simp add: codec_ok_def)
    moreover have "filter (\<lambda>p. p \<noteq> []) buf = buf" using ne by (simp add: filter_id_conv)
    ultimately show ?thesis using False by (simp add: batch_frame_def frame_payloads_def batch_topic_length [symmetric])
  qed
qed

lemma send_frame_spec:
  assumes "send_frame f r s = (res, s')"
  shows "(case res of Inl e \<Rightarrow> s' = s | Inr u \<Rightarrow> pb_wire s' @ pb_pending s' = pb_wire s @ pb_pending s @ [f])"
    "pb_batch s' = pb_batch s" "pb_last_topic s' = pb_last_topic s" "pb_closed s' = pb_closed s"
  using assms by (auto simp: send_frame_def queue_frame_def split: if_splits socket_reply.splits)

lemma flush_batch_spec:
  assumes "codec_ok benc bdec codec P" "pub_ok codec P s" "pb_batch s \<noteq> []" "flush_batch benc r s = (res, s')"
  shows "pub_payloads bdec s' = pub_payloads bdec s" "pub_ok codec P s'" "pb_closed s' = pb_closed s"
    "is_ok res \<Longrightarrow> pb_batch s' = []"
proof -
  let ?f = "batch_frame benc (pb_last_topic s) (pb_batch s)"
  obtain res1 s1 where s1: "send_frame ?f r (s\<lparr>pb_batch := []\<rparr>) = (res1, s1)" by (metis surj_pair)
  note f = send_frame_spec [OF s1]
  have frame: "frame_payloads bdec ?f = pb_batch s"
    using batch_frame_payloads [OF assms(1,3)] assms(2,3) by (simp add: pub_ok_def)
  have upd: "queued_payloads bdec (t\<lparr>pb_batch := b\<rparr>) = queued_payloads bdec t" for t b by (simp add: queued_payloads_def)
  show "pub_payloads bdec s' = pub_payloads bdec s" "pub_ok codec P s'" "pb_closed s' = pb_closed s"
    "is_ok res \<Longrightarrow> pb_batch s' = []"
  proof -
    consider e where "res1 = Inl e" "s1 = s\<lparr>pb_batch := []\<rparr>"
      | u where "res1 = Inr u" "queued_payloads bdec s1 = queued_payloads bdec s @ pb_batch s"
      using f(1) queued_frames [of s1 s "[?f]" bdec] frame by (cases res1) auto
    then have "pub_payloads bdec s' = pub_payloads bdec s \<and> pub_ok codec P s' \<and> pb_closed s' = pb_closed s
        \<and> (is_ok res \<longrightarrow> pb_batch s' = [])"
      using assms(2,4) f(2-4) s1 upd by cases (auto simp: flush_batch_def Let_def pub_payloads_def pub_ok_def)
    then show "pub_payloads bdec s' = pub_payloads bdec s" "pub_ok codec P s'" "pb_closed s' = pb_closed s"
      "is_ok res \<Longrightarrow> pb_batch s' = []" by blast+
  qed
qed

lemma publish_spec:
  assumes "codec_ok benc bdec codec P" "pub_ok codec P s" "x \<in> P"
  shows "pub_payloads bdec (snd (publish benc codec x r s)) = pub_payloads bdec s @ (if pb_closed s then [] else [payload codec x])"
    "pub_ok codec P (snd (publish benc codec x r s))"
    "pb_closed (snd (publish benc codec x r s)) = pb_closed s"
proof -
  define s1 where "s1 = s\<lparr>pb_last_topic := fst (mc_encode codec x), pb_batch := pb_batch s @ [snd (mc_encode codec x)]\<rparr>"
  have ok1: "pub_ok codec P s1" using assms by (auto simp: pub_ok_def s1_def codec_ok_def payload_def)
  have p1: "pub_payloads bdec s1 = pub_payloads bdec s @ [payload codec x]" by (simp add: pub_payloads_def queued_payloads_def s1_def payload_def)
  have ne: "pb_batch s1 \<noteq> []" "pb_closed s1 = pb_closed s" by (simp_all add: s1_def)
  obtain res s2 where fb: "flush_batch benc r s1 = (res, s2)" by (metis surj_pair)
  have eq: "snd (publish benc codec x r s) =
      (if pb_closed s then s else if length (pb_batch s1) \<ge> pb_threshold s1 then s2 else s1)"
    using fb by (simp add: publish_def send_def Let_def flip: s1_def)
  note f = flush_batch_spec [OF assms(1) ok1 ne(1) fb]
  show "pub_payloads bdec (snd (publish benc codec x r s)) = pub_payloads bdec s @ (if pb_closed s then [] else [payload codec x])"
    "pub_ok codec P (snd (publish benc codec x r s))"
    "pb_closed (snd (publish benc codec x r s)) = pb_closed s"
    using f ok1 p1 ne assms(2) by (simp_all add: eq)
qed

lemma flush_spec:
  assumes "codec_ok benc bdec codec P" "pub_ok codec P s"
  shows "pub_payloads bdec (snd (flush benc r s)) = pub_payloads bdec s" "pub_ok codec P (snd (flush benc r s))"
    "pb_closed (snd (flush benc r s)) = pb_closed s"
proof -
  obtain res s2 where fb: "flush_batch benc r s = (res, s2)" by (metis surj_pair)
  note f = flush_batch_spec [OF assms _ fb]
  show "pub_payloads bdec (snd (flush benc r s)) = pub_payloads bdec s" "pub_ok codec P (snd (flush benc r s))"
    "pb_closed (snd (flush benc r s)) = pb_closed s"
    using f fb assms(2) by (auto simp: flush_def)
qed

lemma drain_frames_spec:
  "drain_frames rs i fs = (sent, left, ok) \<Longrightarrow> sent @ left = fs \<and> ((\<forall>i. rs i \<noteq> WouldBlock) \<and> ok \<longrightarrow> left = [])"
proof (induction fs arbitrary: i sent left ok)
  case (Cons f fs)
  obtain st lf k where d: "drain_frames rs (Suc i) fs = (st, lf, k)" by (metis prod_cases3)
  from Cons.IH [OF d] Cons.prems show ?case by (cases "rs i") (auto simp: d)
qed simp

lemma drain_pending_spec:
  assumes "drain_pending rs s = (res, s')"
  shows "pub_payloads bdec s' = pub_payloads bdec s" "pb_batch s' = pb_batch s" "pb_last_topic s' = pb_last_topic s"
    "pb_closed s' = pb_closed s" "(\<forall>i. rs i \<noteq> WouldBlock) \<Longrightarrow> is_ok res \<Longrightarrow> pb_pending s' = []"
proof -
  obtain st lf ok where d: "drain_frames rs 0 (pb_pending s) = (st, lf, ok)" by (metis prod_cases3)
  note f = drain_frames_spec [OF d]
  have same: "pb_wire s' @ pb_pending s' = pb_wire s @ pb_pending s @ []"
    using assms d f by (auto simp: drain_pending_def)
  have "pb_batch s' = pb_batch s" using assms d by (auto simp: drain_pending_def)
  show "pub_payloads bdec s' = pub_payloads bdec s" "pb_batch s' = pb_batch s" "pb_last_topic s' = pb_last_topic s"
    "pb_closed s' = pb_closed s" "(\<forall>i. rs i \<noteq> WouldBlock) \<Longrightarrow> is_ok res \<Longrightarrow> pb_pending s' = []"
    using assms d f queued_frames [OF same, of bdec] by (auto simp: drain_pending_def pub_payloads_def split: if_splits)
qed

lemma on_writable_spec:
  assumes "pub_ok codec P s"
  shows "pub_payloads bdec (snd (on_writable rs s)) = pub_payloads bdec s" "pub_ok codec P (snd (on_writable rs s))"
    "pb_closed (snd (on_writable rs s)) = pb_closed s"
proof -
  obtain res s' where d: "drain_pending rs s = (res, s')" by (metis surj_pair)
  note f = drain_pending_spec [OF d]
  have stop: "pub_payloads bdec (stop_writer t) = pub_payloads bdec t" "pub_ok codec P (stop_writer t) = pub_ok codec P t"
    "pb_closed (stop_writer t) = pb_closed t" for t by (simp_all add: stop_writer_def pub_payloads_def queued_payloads_def pub_ok_def)
  have ok: "pub_ok codec P s'" using assms f by (simp add: pub_ok_def)
  show "pub_payloads bdec (snd (on_writable rs s)) = pub_payloads bdec s" "pub_ok codec P (snd (on_writable rs s))"
    "pb_closed (snd (on_writable rs s)) = pb_closed s"
    using assms d f(1,4) ok stop by (simp_all add: on_writable_def split: sum.split)
qed

lemma close_publisher_spec:
  assumes "codec_ok benc bdec codec P" "pub_ok codec P s" "\<forall>i. rs i \<noteq> WouldBlock"
    and "close_publisher benc r rs s = (res, s')"
  shows "pub_payloads bdec s' = pub_payloads bdec s" "pub_ok codec P s'"
proof -
  obtain res1 s1 where c1: "(if pb_batch s \<noteq> [] then flush_batch benc r s else (Inr (), s)) = (res1, s1)" by (metis surj_pair)
  have s1: "pub_payloads bdec s1 = pub_payloads bdec s" "pub_ok codec P s1" "is_ok res1 \<Longrightarrow> pb_batch s1 = []"
    using c1 flush_batch_spec [OF assms(1,2), of r res1 s1] assms(2) by (auto split: if_splits)
  define s3 where "s3 = stop_writer (s1\<lparr>pb_closed := True\<rparr>)"
  obtain res2 s4 where c2: "drain_pending rs s3 = (res2, s4)" by (metis surj_pair)
  note d = drain_pending_spec [OF c2]
  have s3: "pub_payloads bdec s3 = pub_payloads bdec s1" "pub_ok codec P s3 = pub_ok codec P s1"
    "pub_payloads bdec (s1\<lparr>pb_closed := True\<rparr>) = pub_payloads bdec s1" "pub_ok codec P (s1\<lparr>pb_closed := True\<rparr>) = pub_ok codec P s1"
    by (simp_all add: s3_def stop_writer_def pub_payloads_def queued_payloads_def pub_ok_def)
  have s4: "pub_ok codec P s4" using d(2,3) s1(2) s3(2) by (simp add: pub_ok_def)
  have clear: "s4\<lparr>pb_pending := []\<rparr> = s4" if "is_ok res2" using d(5) [OF assms(3) that] by simp
  have fields: "pb_has_loop (s1\<lparr>pb_closed := True\<rparr>) = pb_has_loop s1" "pb_pending s3 = pb_pending s1"
    by (simp_all add: s3_def stop_writer_def)
  have eq: "(res, s') = (if pb_closed s then (Inr (), s) else case res1 of Inl e \<Rightarrow> (Inl e, s1)
      | Inr u \<Rightarrow> if \<not> pb_has_loop s1 then (Inr (), s1\<lparr>pb_closed := True\<rparr>)
          else if pb_pending s1 = [] then (Inr (), s3)
          else case res2 of Inl e \<Rightarrow> (Inl e, s4) | Inr u \<Rightarrow> (Inr u, s4\<lparr>pb_pending := []\<rparr>))"
    using assms(4) unfolding close_publisher_def c1 Let_def s3_def [symmetric] c2 fields prod.case
    by (auto split: sum.splits)
  have "s' \<in> {s, s1, s1\<lparr>pb_closed := True\<rparr>, s3, s4}"
  proof (cases res2)
    case (Inl e)
    then show ?thesis using eq by (cases res1) (simp_all split: if_splits)
  next
    case (Inr u)
    then have "s4\<lparr>pb_pending := []\<rparr> = s4" by (intro clear) simp
    then show ?thesis using eq Inr by (cases res1) (simp_all split: if_splits)
  qed
  moreover have "\<forall>t\<in>{s, s1, s1\<lparr>pb_closed := True\<rparr>, s3, s4}. pub_payloads bdec t = pub_payloads bdec s \<and> pub_ok codec P t"
    using assms(2) s1(1,2) s3 s4 d(1) [of bdec] by simp
  ultimately show "pub_payloads bdec s' = pub_payloads bdec s" "pub_ok codec P s'" by blast+
qed

section \<open>The subscriber reads what is there\<close>

definition sub_payloads :: "(string \<Rightarrow> string list option) \<Rightarrow> 'a subscriber \<Rightarrow> string list" where
  "sub_payloads bdec s = sb_buffer s @ concat (map (frame_payloads bdec) (sb_socket s))"

lemma receive_spec:
  assumes "receive bdec s = (x, s')"
  shows "sub_payloads bdec s = (case x of Payload p \<Rightarrow> [p] | _ \<Rightarrow> []) @ sub_payloads bdec s'"
    "x = NothingLeft \<Longrightarrow> sub_payloads bdec s' = []" "sb_tasks s' = sb_tasks s" "sb_closed s' = sb_closed s"
  using assms
  by (auto simp: receive_def sub_payloads_def frame_payloads_def split: list.splits option.splits if_splits)

lemma read_all_spec:
  assumes "\<forall>x\<in>set q. mc_decode codec (payload codec x) = Inr x" "sub_payloads bdec s = map (payload codec) q"
  shows "\<exists>s'. read_all bdec codec s = (q, None, s') \<and> sub_payloads bdec s' = [] \<and> sb_tasks s' = sb_tasks s
    \<and> sb_closed s' = sb_closed s"
  using assms
proof (induction bdec codec s arbitrary: q rule: read_all.induct)
  case (1 bdec codec s)
  obtain x s1 where r: "receive bdec s = (x, s1)" by (metis surj_pair)
  note rs = receive_spec [OF r]
  show ?case
  proof (cases x)
    case NothingLeft
    then have "q = []" using rs(1,2) "1.prems"(2) by simp
    then show ?thesis using NothingLeft r rs by (subst read_all.simps) simp
  next
    case NoPayload
    have "sub_payloads bdec s1 = map (payload codec) q" using rs(1) "1.prems"(2) NoPayload by simp
    from "1.IH"(1) [OF r [symmetric] NoPayload "1.prems"(1) this] show ?thesis
      using NoPayload r rs by (subst read_all.simps) simp
  next
    case (Payload p)
    then obtain y ys where q: "q = y # ys" "p = payload codec y" "sub_payloads bdec s1 = map (payload codec) ys"
      using rs(1) "1.prems"(2) by (cases q) auto
    have dec: "mc_decode codec p = Inr y" "\<forall>x\<in>set ys. mc_decode codec (payload codec x) = Inr x"
      using "1.prems"(1) q by simp_all
    from "1.IH"(4) [OF r [symmetric] Payload dec(1) dec(2) q(3)] show ?thesis
      using Payload r rs dec(1) q(1) by (subst read_all.simps) auto
  qed
qed

section \<open>The queue\<close>

definition transit_payloads :: "(string \<Rightarrow> string list option) \<Rightarrow> 'a link \<Rightarrow> string list" where
  "transit_payloads bdec l = sub_payloads bdec (lk_sub l) @ pub_payloads bdec (lk_pub l)"

definition link_inv :: "(string \<Rightarrow> string list option) \<Rightarrow> 'a message_codec \<Rightarrow> 'a set \<Rightarrow> 'a link \<Rightarrow> bool" where
  "link_inv bdec codec P l = (pub_ok codec P (lk_pub l) \<and> set (lk_published l) \<subseteq> P
     \<and> (\<exists>q. lk_published l = delivered l @ q \<and> transit_payloads bdec l = map (payload codec) q))"

lemma link_inv_init: "link_inv bdec codec P (link_init threshold has_loop)"
  by (simp add: link_inv_def link_init_def publisher_init_def subscriber_init_def pub_ok_def delivered_def
      transit_payloads_def sub_payloads_def pub_payloads_def queued_payloads_def)

lemma on_readable_spec:
  assumes "codec_ok benc bdec codec P" "set q \<subseteq> P" "sub_payloads bdec s = map (payload codec) q" "\<not> sb_closed s"
  shows "concat (sb_tasks (snd (on_readable bdec codec s))) = concat (sb_tasks s) @ q"
    "sub_payloads bdec (snd (on_readable bdec codec s)) = []"
proof -
  have "\<forall>x\<in>set q. mc_decode codec (payload codec x) = Inr x" using assms(1,2) by (auto simp: codec_ok_def)
  from read_all_spec [OF this assms(3)] obtain s' where s': "read_all bdec codec s = (q, None, s')"
    "sub_payloads bdec s' = []" "sb_tasks s' = sb_tasks s" by blast
  show "concat (sb_tasks (snd (on_readable bdec codec s))) = concat (sb_tasks s) @ q"
    "sub_payloads bdec (snd (on_readable bdec codec s)) = []"
    using s' assms(4) by (simp_all add: on_readable_def sub_payloads_def)
qed

lemma link_inv_same:
  assumes "link_inv bdec codec P l" "pub_ok codec P p" "pub_payloads bdec p = pub_payloads bdec (lk_pub l)"
  shows "link_inv bdec codec P (l\<lparr>lk_pub := p\<rparr>)"
  using assms by (simp add: link_inv_def transit_payloads_def delivered_def)

lemma link_inv_step:
  assumes ok: "codec_ok benc bdec codec P" "event_ok P e" and inv: "link_inv bdec codec P l"
  shows "link_inv bdec codec P (link_step benc bdec codec l e)"
proof -
  have pub: "pub_ok codec P (lk_pub l)" and set: "set (lk_published l) \<subseteq> P" using inv by (simp_all add: link_inv_def)
  obtain q where q: "lk_published l = delivered l @ q" "transit_payloads bdec l = map (payload codec) q"
    using inv by (auto simp: link_inv_def)
  show ?thesis
  proof (cases e)
    case (PutItem x r)
    have x: "x \<in> P" using ok(2) PutItem by simp
    note p = publish_spec [OF ok(1) pub x, of r]
    show ?thesis using p pub set x q
      by (auto simp: PutItem link_inv_def delivered_def transit_payloads_def)
  next
    case (FlushNow r)
    show ?thesis using link_inv_same [OF inv flush_spec(2,1) [OF ok(1) pub]] by (simp add: FlushNow)
  next
    case (Writable rs)
    show ?thesis using link_inv_same [OF inv on_writable_spec(2,1) [OF pub]] by (simp add: Writable)
  next
    case (ClosePub r rs)
    obtain res s' where c: "close_publisher benc r rs (lk_pub l) = (res, s')" by (metis surj_pair)
    have "\<forall>i. rs i \<noteq> WouldBlock" using ok(2) ClosePub by simp
    from close_publisher_spec [OF ok(1) pub this c] link_inv_same [OF inv] show ?thesis by (simp add: ClosePub c)
  next
    case (Transmit k)
    have "pub_ok codec P ((lk_pub l)\<lparr>pb_wire := w\<rparr>)" for w using pub by (simp add: pub_ok_def)
    moreover have "concat (map (frame_payloads bdec) (pb_wire (lk_pub l)))
        = concat (map (frame_payloads bdec) (take k (pb_wire (lk_pub l))))
          @ concat (map (frame_payloads bdec) (drop k (pb_wire (lk_pub l))))"
      by (simp flip: concat_append map_append)
    then have "transit_payloads bdec (link_step benc bdec codec l e) = transit_payloads bdec l"
      by (simp add: Transmit transit_payloads_def sub_payloads_def pub_payloads_def queued_payloads_def)
    ultimately show ?thesis using set q by (auto simp: link_inv_def delivered_def Transmit)
  next
    case Readable
    show ?thesis
    proof (cases "sb_closed (lk_sub l)")
      case True
      then show ?thesis using inv by (simp add: Readable on_readable_def)
    next
      case False
      obtain q1 q2 where s: "q = q1 @ q2" "sub_payloads bdec (lk_sub l) = map (payload codec) q1"
        "pub_payloads bdec (lk_pub l) = map (payload codec) q2"
        using q(2) unfolding transit_payloads_def by (metis append_eq_map_conv)
      have "set q1 \<subseteq> P" using set q(1) s(1) by auto
      from on_readable_spec [OF ok(1) this s(2) False] show ?thesis
        using pub set q(1) s by (auto simp: Readable link_inv_def delivered_def transit_payloads_def)
    qed
  next
    case CloseSub
    show ?thesis using inv
      by (simp add: CloseSub link_inv_def delivered_def transit_payloads_def sub_payloads_def close_subscriber_def)
  qed
qed

lemma link_inv_run:
  assumes "codec_ok benc bdec codec P" "\<forall>e\<in>set es. event_ok P e"
  shows "link_inv bdec codec P (foldl (link_step benc bdec codec) (link_init threshold has_loop) es)"
  by (rule foldl_invariant) (use link_inv_init link_inv_step [OF assms(1)] assms(2) in blast)+

end
