(* ===== verification/Registry.thy ===== *)
theory Registry
  imports SuperPass EarlyStopping
begin

text \<open>
  \<open>metrics_aggregator/registry.py\<close> and the records of \<open>snapshot.py\<close>: counters, series samplers with
  their rollups, and snapshots.  A series of integers is exact as in Python; in a series of floats the
  sums are exact rationals where the code rounds.  The HDR histogram is a C library: the sampler
  keeps the values it was given, and its queries are parameters of the live statistics.  Display
  edges are real numbers.
\<close>

section \<open>Statistics and snapshots\<close>

datatype snapshot_state = INITIALIZE | LIVE | DRAINING | COMPLETE_STATE | INTERRUPTED_STATE

record series_stat =
  ss_name :: string
  ss_count :: int
  ss_total :: rat
  ss_min :: rat
  ss_max :: rat
  ss_sum_sq :: rat
  ss_percentiles :: "(string \<times> rat) list"
  ss_histogram :: "((real \<times> real) \<times> int) list"
  ss_early_stopping :: "(string \<times> rat option) list option"

datatype metric_stat = CounterStat string int | SeriesStat series_stat

record metrics_snapshot =
  sn_counter :: int
  sn_timestamp_ns :: int
  sn_state :: snapshot_state
  sn_n_pending_tasks :: int
  sn_metrics :: "metric_stat list"

section \<open>Series samplers\<close>

datatype series_dtype = IntSeries | FloatSeries

record series_sampler =
  sm_name :: string
  sm_dtype :: series_dtype
  sm_es_spec :: "es_spec option"
  sm_hdr_low :: int
  sm_hdr_high :: int
  sm_n_histogram_buckets :: nat
  sm_percentiles :: "(string \<times> rat) list"
  sm_count :: int
  sm_total :: rat
  sm_sum_sq :: rat
  sm_min :: "rat option"
  sm_max :: "rat option"
  sm_warned_clamp :: bool
  sm_hdr :: "int list"
  sm_raw :: "rat list"

definition series_init ::
    "string \<Rightarrow> int \<Rightarrow> int \<Rightarrow> nat \<Rightarrow> (string \<times> rat) list \<Rightarrow> series_dtype \<Rightarrow> es_spec option \<Rightarrow> series_sampler result" where
  "series_init name hdr_low hdr_high n_buckets percentiles dtype es =
     (let low = max hdr_low 1
      in if hdr_high < low * 2 then Inl ValueError
         else Inr \<lparr>sm_name = name, sm_dtype = dtype, sm_es_spec = es, sm_hdr_low = low, sm_hdr_high = hdr_high,
            sm_n_histogram_buckets = n_buckets, sm_percentiles = percentiles, sm_count = 0, sm_total = 0,
            sm_sum_sq = 0, sm_min = None, sm_max = None, sm_warned_clamp = False, sm_hdr = [], sm_raw = []\<rparr>)"

text \<open>The value handed to the HDR view; \<open>int(value)\<close> truncates.\<close>

definition clamp_value :: "rat \<Rightarrow> series_sampler \<Rightarrow> rat" where
  "clamp_value v s =
     (let c = (case sm_dtype s of IntSeries \<Rightarrow> max (of_int (trunc v)) (of_int (sm_hdr_low s))
               | FloatSeries \<Rightarrow> max v (of_int (sm_hdr_low s)))
      in if c > of_int (sm_hdr_high s) then of_int (sm_hdr_high s) else c)"

definition series_record :: "rat \<Rightarrow> series_sampler \<Rightarrow> series_sampler" where
  "series_record v s =
     (let clamped = clamp_value v s
      in s\<lparr>sm_count := sm_count s + 1, sm_total := sm_total s + v, sm_sum_sq := sm_sum_sq s + v * v,
           sm_min := (case sm_min s of None \<Rightarrow> Some v | Some m \<Rightarrow> if v < m then Some v else Some m),
           sm_max := (case sm_max s of None \<Rightarrow> Some v | Some m \<Rightarrow> if v > m then Some v else Some m),
           sm_warned_clamp := (sm_warned_clamp s \<or> clamped \<noteq> v),
           sm_hdr := sm_hdr s @ [trunc clamped], sm_raw := sm_raw s @ [v]\<rparr>)"

section \<open>Display histograms\<close>

definition log_spaced_edges :: "real \<Rightarrow> real \<Rightarrow> nat \<Rightarrow> real list" where
  "log_spaced_edges low high n =
     (let safe_low = max low 1; safe_high = max high (safe_low * 10);
          log_lo = ln safe_low; log_hi = ln safe_high; step = (log_hi - log_lo) / n
      in map (\<lambda>i. exp (log_lo + real i * step)) [0..<n + 1])"

text \<open>\<open>bisect.bisect_right\<close> on sorted edges, and the bucket it selects in \<open>_hdr_stat\<close>.\<close>

definition bisect_right :: "real list \<Rightarrow> real \<Rightarrow> nat" where
  "bisect_right edges v = length (takeWhile (\<lambda>e. e \<le> v) edges)"

definition display_bucket :: "real list \<Rightarrow> nat \<Rightarrow> real \<Rightarrow> nat" where
  "display_bucket edges n v =
     (let idx = int (bisect_right edges v) - 1
      in if idx < 0 then 0 else if idx \<ge> int n then n - 1 else nat idx)"

definition bin_recorded :: "real list \<Rightarrow> nat \<Rightarrow> (real \<times> int) list \<Rightarrow> int list" where
  "bin_recorded edges n items =
     foldl (\<lambda>counts (v, c). let i = display_bucket edges n v in counts[i := counts ! i + c]) (replicate n 0) items"

text \<open>\<open>np.clip\<close> and \<open>np.histogram\<close>: half-open bins, the last one closed.\<close>

definition clip :: "real \<Rightarrow> real \<Rightarrow> real \<Rightarrow> real" where
  "clip lo hi v = min (max v lo) hi"

definition in_bin :: "real list \<Rightarrow> nat \<Rightarrow> real \<Rightarrow> bool" where
  "in_bin edges i v = (edges ! i \<le> v \<and> (v < edges ! (i + 1) \<or> (i + 2 = length edges \<and> v = edges ! (i + 1))))"

definition np_histogram :: "real list \<Rightarrow> real list \<Rightarrow> int list" where
  "np_histogram edges vs = map (\<lambda>i. int (length (filter (in_bin edges i) vs))) [0..<length edges - 1]"

definition histogram_of :: "real list \<Rightarrow> int list \<Rightarrow> ((real \<times> real) \<times> int) list" where
  "histogram_of edges counts = map (\<lambda>i. ((edges ! i, edges ! (i + 1)), counts ! i)) [0..<length counts]"

section \<open>Early-stopping map\<close>

definition es_explicit_targets :: "(string \<times> rat) list \<Rightarrow> (string \<times> rat) list" where
  "es_explicit_targets ps =
     foldl (\<lambda>seen (k, v). if v \<in> snd ` set seen then seen else seen @ [(k, v)]) []
       (sort_key (\<lambda>(k, v). - v) ps)"

fun es_compute :: "(string \<times> rat) list \<Rightarrow> rat list \<Rightarrow> rat \<Rightarrow> (string \<times> rat option) list option" where
  "es_compute [] xs confidence = Some []"
| "es_compute ((key, f) # ts) xs confidence =
     (case es_percentile_estimate xs f confidence of
        Some (Inr r) \<Rightarrow> map_option (\<lambda>m. (key, er_estimate r) # m) (es_compute ts xs confidence)
      | _ \<Rightarrow> None)"

text \<open>\<open>_es_estimates\<close>: an exception omits the map.\<close>

definition es_estimates :: "series_sampler \<Rightarrow> rat list \<Rightarrow> (string \<times> rat option) list option" where
  "es_estimates s xs = (case sm_es_spec s of
       None \<Rightarrow> None
     | Some spec \<Rightarrow>
         es_compute (case es_percentiles spec of Some ps \<Rightarrow> es_explicit_targets ps
                     | None \<Rightarrow> es_targets_from_grid (sm_percentiles s)) xs (es_confidence spec))"

section \<open>Building a statistic\<close>

definition empty_stat :: "bool \<Rightarrow> series_sampler \<Rightarrow> series_stat" where
  "empty_stat exact s = \<lparr>ss_name = sm_name s, ss_count = 0, ss_total = 0, ss_min = 0, ss_max = 0, ss_sum_sq = 0,
     ss_percentiles = map (\<lambda>(k, p). (k, 0)) (sm_percentiles s), ss_histogram = [],
     ss_early_stopping = (if exact then es_estimates s [] else None)\<rparr>"

text \<open>The HDR queries: the value at a percentile, and the buckets with their counts.\<close>

type_synonym hdr_view = "(int list \<Rightarrow> rat \<Rightarrow> rat) \<times> (int list \<Rightarrow> (real \<times> int) list)"

definition hdr_stat :: "hdr_view \<Rightarrow> rat \<Rightarrow> rat \<Rightarrow> series_sampler \<Rightarrow> series_stat" where
  "hdr_stat view lo hi s =
     (let n = sm_n_histogram_buckets s; edges = log_spaced_edges (of_rat lo) (of_rat hi) n
      in \<lparr>ss_name = sm_name s, ss_count = sm_count s, ss_total = sm_total s, ss_min = lo, ss_max = hi,
          ss_sum_sq = sm_sum_sq s,
          ss_percentiles = map (\<lambda>(k, p). (k, fst view (sm_hdr s) p)) (sm_percentiles s),
          ss_histogram = histogram_of edges (bin_recorded edges n (snd view (sm_hdr s))),
          ss_early_stopping = None\<rparr>)"

definition exact_percentile :: "rat list \<Rightarrow> rat \<Rightarrow> rat" where
  "exact_percentile xs p = (case percentile_lower xs (p / 100) of Inr v \<Rightarrow> v | Inl _ \<Rightarrow> 0)"

definition exact_stat :: "rat \<Rightarrow> rat \<Rightarrow> series_sampler \<Rightarrow> series_stat" where
  "exact_stat lo hi s =
     (let xs = sort (sm_raw s);
          edges = log_spaced_edges (of_rat lo) (of_rat hi) (sm_n_histogram_buckets s);
          clipped = map (\<lambda>v. clip (hd edges) (last edges) (of_rat v)) xs
      in \<lparr>ss_name = sm_name s, ss_count = sm_count s, ss_total = sm_total s, ss_min = lo, ss_max = hi,
          ss_sum_sq = sm_sum_sq s,
          ss_percentiles = map (\<lambda>(k, p). (k, exact_percentile xs p)) (sm_percentiles s),
          ss_histogram = histogram_of edges (np_histogram edges clipped),
          ss_early_stopping = es_estimates s xs\<rparr>)"

definition build_stat :: "hdr_view \<Rightarrow> bool \<Rightarrow> series_sampler \<Rightarrow> series_stat" where
  "build_stat view exact s = (case (sm_min s, sm_max s) of
       (Some lo, Some hi) \<Rightarrow>
         (if sm_count s = 0 then empty_stat exact s
          else if exact then exact_stat lo hi s else hdr_stat view lo hi s)
     | _ \<Rightarrow> empty_stat exact s)"

section \<open>The registry\<close>

record registry =
  rg_counters :: "(string \<times> int) list"
  rg_series :: "(string \<times> series_sampler) list"
  rg_seen :: "string set"
  rg_early_stopping :: "es_spec option"
  rg_counter :: int

definition registry_init :: "es_spec option \<Rightarrow> registry" where
  "registry_init es = \<lparr>rg_counters = [], rg_series = [], rg_seen = {}, rg_early_stopping = es, rg_counter = 0\<rparr>"

definition register_counter :: "string \<Rightarrow> registry \<Rightarrow> registry result" where
  "register_counter name r =
     (if name \<in> rg_seen r then Inl ValueError
      else Inr (r\<lparr>rg_counters := AList.update name 0 (rg_counters r), rg_seen := insert name (rg_seen r)\<rparr>))"

definition register_series ::
    "string \<Rightarrow> int \<Rightarrow> int \<Rightarrow> nat \<Rightarrow> (string \<times> rat) list \<Rightarrow> series_dtype \<Rightarrow> bool \<Rightarrow> registry \<Rightarrow> registry result" where
  "register_series name hdr_low hdr_high n_buckets percentiles dtype tail_latency r =
     (if name \<in> rg_seen r then Inl ValueError
      else if 50 \<notin> snd ` set percentiles then Inl ValueError
      else (case series_init name hdr_low hdr_high n_buckets percentiles dtype
                   (if tail_latency then rg_early_stopping r else None) of
              Inl e \<Rightarrow> Inl e
            | Inr s \<Rightarrow> Inr (r\<lparr>rg_series := AList.update name s (rg_series r), rg_seen := insert name (rg_seen r)\<rparr>)))"

definition registry_increment :: "string \<Rightarrow> int \<Rightarrow> registry \<Rightarrow> registry result" where
  "registry_increment name delta r = (case map_of (rg_counters r) name of
       None \<Rightarrow> Inl KeyError
     | Some v \<Rightarrow> Inr (r\<lparr>rg_counters := AList.update name (v + delta) (rg_counters r)\<rparr>))"

definition set_counter :: "string \<Rightarrow> int \<Rightarrow> registry \<Rightarrow> registry result" where
  "set_counter name v r = (case map_of (rg_counters r) name of
       None \<Rightarrow> Inl KeyError
     | Some _ \<Rightarrow> Inr (r\<lparr>rg_counters := AList.update name v (rg_counters r)\<rparr>))"

definition registry_record :: "string \<Rightarrow> rat \<Rightarrow> registry \<Rightarrow> registry result" where
  "registry_record name v r = (case map_of (rg_series r) name of
       None \<Rightarrow> Inl KeyError
     | Some s \<Rightarrow> Inr (r\<lparr>rg_series := AList.update name (series_record v s) (rg_series r)\<rparr>))"

definition build_snapshot :: "hdr_view \<Rightarrow> snapshot_state \<Rightarrow> int \<Rightarrow> int \<Rightarrow> registry \<Rightarrow> metrics_snapshot \<times> registry" where
  "build_snapshot view state n_pending now r =
     (let exact = (state = COMPLETE_STATE); r1 = r\<lparr>rg_counter := rg_counter r + 1\<rparr>
      in (\<lparr>sn_counter = rg_counter r1, sn_timestamp_ns = now, sn_state = state, sn_n_pending_tasks = n_pending,
           sn_metrics = map (\<lambda>(name, v). CounterStat name v) (rg_counters r1)
             @ map (\<lambda>(name, s). SeriesStat (build_stat view exact s)) (rg_series r1)\<rparr>, r1))"

definition DEFAULT_PERCENTILES :: "(string \<times> rat) list" where
  "DEFAULT_PERCENTILES = [(''99.9'', 999 / 10), (''99.0'', 99), (''97.0'', 97), (''95.0'', 95), (''90.0'', 90),
     (''80.0'', 80), (''75.0'', 75), (''50.0'', 50), (''25.0'', 25), (''10.0'', 10), (''5.0'', 5), (''1.0'', 1)]"

definition build_token_series :: "hdr_view \<Rightarrow> nat \<Rightarrow> int list \<Rightarrow> series_stat result" where
  "build_token_series view n_buckets values =
     map_sum id (\<lambda>s. build_stat view True (foldl (\<lambda>s v. series_record (of_int v) s) s values))
       (series_init ''osl'' 1 10000000 n_buckets DEFAULT_PERCENTILES IntSeries None)"

section \<open>The samplers' rollups\<close>

text \<open>What a sampler promises: its rollups are those of the list of recorded values.\<close>

definition rolls_up :: "series_sampler \<Rightarrow> bool" where
  "rolls_up s = (sm_count s = int (length (sm_raw s)) \<and> sm_total s = sum_list (sm_raw s)
     \<and> sm_sum_sq s = sum_list (map (\<lambda>v. v * v) (sm_raw s))
     \<and> sm_min s = (if sm_raw s = [] then None else Some (Min (set (sm_raw s))))
     \<and> sm_max s = (if sm_raw s = [] then None else Some (Max (set (sm_raw s))))
     \<and> length (sm_hdr s) = length (sm_raw s) \<and> 1 \<le> sm_hdr_low s \<and> 2 * sm_hdr_low s \<le> sm_hdr_high s
     \<and> (\<forall>h\<in>set (sm_hdr s). sm_hdr_low s \<le> h \<and> h \<le> sm_hdr_high s))"

lemma rolls_up_init: "series_init name lo hi n ps d es = Inr s \<Longrightarrow> rolls_up s"
  by (auto simp: series_init_def rolls_up_def Let_def split: if_splits)

lemma rolls_upD:
  assumes "rolls_up s"
  shows "sm_count s = int (length (sm_raw s))" "sm_total s = sum_list (sm_raw s)"
    "sm_sum_sq s = sum_list (map (\<lambda>v. v * v) (sm_raw s))"
    "sm_raw s \<noteq> [] \<Longrightarrow> sm_min s = Some (Min (set (sm_raw s)))" "sm_raw s \<noteq> [] \<Longrightarrow> sm_max s = Some (Max (set (sm_raw s)))"
    "sm_raw s = [] \<Longrightarrow> sm_min s = None" "sm_raw s = [] \<Longrightarrow> sm_max s = None"
  using assms by (simp_all add: rolls_up_def)

lemma clamp_range:
  assumes "sm_hdr_low s \<le> sm_hdr_high s"
  shows "of_int (sm_hdr_low s) \<le> clamp_value v s" "clamp_value v s \<le> of_int (sm_hdr_high s)"
  using assms by (auto simp: clamp_value_def Let_def max_def not_le split: series_dtype.split)

lemma trunc_between: "of_int a \<le> q \<Longrightarrow> q \<le> of_int b \<Longrightarrow> 0 \<le> a \<Longrightarrow> a \<le> trunc q \<and> trunc q \<le> b"
proof -
  assume a: "of_int a \<le> q" "q \<le> of_int b" "0 \<le> a"
  then have "0 \<le> q" by (metis of_int_0_le_iff order_trans)
  moreover have "a \<le> \<lfloor>q\<rfloor>" using a(1) by (simp add: le_floor_iff)
  moreover have "\<lfloor>q\<rfloor> \<le> b" using floor_mono [OF a(2)] by simp
  ultimately show ?thesis by (simp add: trunc_def)
qed

lemma rolls_up_record:
  assumes "rolls_up s"
  shows "rolls_up (series_record v s)"
proof -
  have hdr: "sm_hdr_low s \<le> trunc (clamp_value v s) \<and> trunc (clamp_value v s) \<le> sm_hdr_high s"
  proof (rule trunc_between)
    have "sm_hdr_low s \<le> sm_hdr_high s" using assms by (simp add: rolls_up_def)
    then show "of_int (sm_hdr_low s) \<le> clamp_value v s" "clamp_value v s \<le> of_int (sm_hdr_high s)"
      by (rule clamp_range)+
  qed (use assms in \<open>simp add: rolls_up_def\<close>)
  have f: "sm_raw (series_record v s) = sm_raw s @ [v]" "sm_count (series_record v s) = sm_count s + 1"
    "sm_total (series_record v s) = sm_total s + v" "sm_sum_sq (series_record v s) = sm_sum_sq s + v * v"
    "sm_hdr (series_record v s) = sm_hdr s @ [trunc (clamp_value v s)]"
    "sm_hdr_low (series_record v s) = sm_hdr_low s" "sm_hdr_high (series_record v s) = sm_hdr_high s"
    "sm_min (series_record v s) = (case sm_min s of None \<Rightarrow> Some v | Some m \<Rightarrow> if v < m then Some v else Some m)"
    "sm_max (series_record v s) = (case sm_max s of None \<Rightarrow> Some v | Some m \<Rightarrow> if v > m then Some v else Some m)"
    by (simp_all add: series_record_def Let_def)
  have "sm_min (series_record v s) = Some (Min (set (sm_raw s @ [v]))) \<and> sm_max (series_record v s) = Some (Max (set (sm_raw s @ [v])))"
  proof (cases "sm_raw s = []")
    case True
    then show ?thesis using rolls_upD [OF assms] by (simp add: f)
  next
    case False
    then have "Min (set (sm_raw s @ [v])) = min v (Min (set (sm_raw s)))" "Max (set (sm_raw s @ [v])) = max v (Max (set (sm_raw s)))"
      by (simp_all add: Min_insert Max_insert)
    then show ?thesis using rolls_upD(4,5) [OF assms False] by (simp add: f min_def max_def)
  qed
  then show ?thesis using assms hdr unfolding rolls_up_def f by simp
qed

lemma record_all:
  assumes "rolls_up s"
  shows "rolls_up (foldl (\<lambda>s v. series_record v s) s vs)"
    and "sm_raw (foldl (\<lambda>s v. series_record v s) s vs) = sm_raw s @ vs"
    and "sm_n_histogram_buckets (foldl (\<lambda>s v. series_record v s) s vs) = sm_n_histogram_buckets s"
    and "sm_percentiles (foldl (\<lambda>s v. series_record v s) s vs) = sm_percentiles s"
  using assms by (induction vs arbitrary: s) (simp_all add: rolls_up_record, simp_all add: series_record_def Let_def)

section \<open>Display histograms count everything\<close>

definition ascending :: "real list \<Rightarrow> bool" where
  "ascending es = (\<forall>i. i + 1 < length es \<longrightarrow> es ! i < es ! (i + 1))"

lemma log_spaced_edges_ok:
  assumes "0 < n"
  shows "ascending (log_spaced_edges low high n)" and "length (log_spaced_edges low high n) = n + 1"
proof -
  let ?lo = "max low 1" let ?hi = "max high (?lo * 10)"
  define d where "d = (ln ?hi - ln ?lo) / real n"
  have "?lo * 1 < ?lo * 10" by (rule mult_strict_left_mono) simp_all
  then have "?lo < ?lo * 10" by simp
  also have "\<dots> \<le> ?hi" by (rule max.cobounded2)
  finally have "?lo < ?hi" .
  then have "ln ?lo < ln ?hi" by (simp add: ln_less_cancel_iff)
  then have step: "0 < d" using assms by (simp add: d_def)
  have nth: "log_spaced_edges low high n ! i = exp (ln ?lo + real i * d)" if "i < n + 1" for i
  proof -
    have "[0..<n + 1] ! i = i" using nth_upt [of 0 i "n + 1"] that by (simp del: upt_Suc)
    then show ?thesis using that by (simp add: log_spaced_edges_def Let_def d_def del: upt_Suc)
  qed
  show len: "length (log_spaced_edges low high n) = n + 1" by (simp add: log_spaced_edges_def Let_def)
  have "log_spaced_edges low high n ! i < log_spaced_edges low high n ! (i + 1)" if "i + 1 < n + 1" for i
    using that step nth [of i] nth [of "i + 1"] by (simp add: distrib_right)
  then show "ascending (log_spaced_edges low high n)" by (simp add: ascending_def len)
qed

lemma ascending_mono: "ascending es \<Longrightarrow> i \<le> j \<Longrightarrow> j < length es \<Longrightarrow> es ! i \<le> es ! j"
proof (induction j)
  case (Suc j)
  show ?case
  proof (cases "i = Suc j")
    case False
    then have "es ! i \<le> es ! j" using Suc by simp
    also have "es ! j < es ! Suc j" using Suc.prems by (simp add: ascending_def)
    finally show ?thesis by simp
  qed simp
qed simp

text \<open>A value within the edges is in exactly one bin.\<close>

lemma one_bin:
  assumes asc: "ascending es" and len: "length es = n + 1" and n: "0 < n" and v: "es ! 0 \<le> v" "v \<le> es ! n"
  shows "length (filter (\<lambda>i. in_bin es i v) [0..<n]) = 1"
proof -
  define i where "i = (GREATEST i. i < n \<and> es ! i \<le> v)"
  have g: "i < n \<and> es ! i \<le> v" unfolding i_def by (rule GreatestI_nat [of _ 0 n]) (use n v in auto)
  have up: "j \<le> i" if "j < n" "es ! j \<le> v" for j
    unfolding i_def by (rule Greatest_le_nat [of _ _ n]) (use that in auto)
  have only: "in_bin es j v \<longleftrightarrow> j = i" if j: "j < n" for j
  proof
    assume b: "in_bin es j v"
    then have "j \<le> i" using up j by (simp add: in_bin_def)
    moreover have False if "j < i"
    proof -
      have "es ! (j + 1) \<le> es ! i" by (rule ascending_mono [OF asc]) (use that g len in auto)
      then have "es ! (j + 1) \<le> v" using g by simp
      then have "j + 2 = length es" using b by (auto simp: in_bin_def)
      then show False using that g len by simp
    qed
    ultimately show "j = i" by (meson le_neq_implies_less)
  next
    assume "j = i"
    have "v < es ! (i + 1) \<or> i + 2 = length es \<and> v = es ! (i + 1)"
    proof (cases "i + 1 < n")
      case True
      then show ?thesis using up [of "i + 1"] by force
    next
      case False
      then have "i + 1 = n" using g by simp
      then show ?thesis using v(2) len by auto
    qed
    then show "in_bin es j v" using g \<open>j = i\<close> by (simp add: in_bin_def)
  qed
  have "filter (\<lambda>j. in_bin es j v) [0..<n] = filter (\<lambda>j. j = i) [0..<n]"
    by (rule filter_cong) (use only in auto)
  also have "\<dots> = [i]"
  proof -
    have "filter (\<lambda>j. j = i) [0..<m] = (if i < m then [i] else [])" for m by (induction m) auto
    then show ?thesis using g by simp
  qed
  finally show ?thesis by simp
qed

lemma sum_bins: "sum_list (map (\<lambda>i. int (length (filter (P i) vs))) ks) = sum_list (map (\<lambda>v. int (length (filter (\<lambda>i. P i v) ks))) vs)"
proof (induction vs)
  case Nil
  show ?case by (induction ks) simp_all
next
  case (Cons v vs)
  have "sum_list (map (\<lambda>i. int (length (filter (P i) (v # vs)))) ks)
      = int (length (filter (\<lambda>i. P i v) ks)) + sum_list (map (\<lambda>i. int (length (filter (P i) vs))) ks)"
    by (induction ks) simp_all
  then show ?case using Cons by simp
qed

lemma np_histogram_total:
  assumes "ascending es" "length es = n + 1" "0 < n" "\<forall>v\<in>set vs. es ! 0 \<le> v \<and> v \<le> es ! n"
  shows "sum_list (np_histogram es vs) = int (length vs)"
proof -
  have "sum_list (np_histogram es vs) = sum_list (map (\<lambda>v. int (length (filter (\<lambda>i. in_bin es i v) [0..<n]))) vs)"
    unfolding np_histogram_def assms(2) add_diff_cancel_right' by (rule sum_bins)
  also have "map (\<lambda>v. int (length (filter (\<lambda>i. in_bin es i v) [0..<n]))) vs = map (\<lambda>v. 1) vs"
    using one_bin [OF assms(1-3)] assms(4) by (intro map_cong) auto
  finally show ?thesis by (simp add: sum_list_triv)
qed

lemma bin_recorded_total:
  assumes "0 < n"
  shows "sum_list (bin_recorded es n items) = sum_list (map snd items)" and "length (bin_recorded es n items) = n"
proof -
  have b: "display_bucket es n v < n" for v using assms by (auto simp: display_bucket_def Let_def)
  let ?f = "\<lambda>counts (v, c). let i = display_bucket es n v in counts[i := counts ! i + c]"
  have "sum_list (foldl ?f cs items) = sum_list cs + sum_list (map snd items) \<and> length (foldl ?f cs items) = n"
    if "length cs = n" for cs
    using that
  proof (induction items arbitrary: cs)
    case (Cons x items)
    obtain v c where x: "x = (v, c)" by force
    have "sum_list (cs[display_bucket es n v := cs ! display_bucket es n v + c]) = sum_list cs + c"
      using b [of v] Cons.prems by (intro sum_list_update_add) simp
    then show ?case using Cons.IH [of "cs[display_bucket es n v := cs ! display_bucket es n v + c]"] Cons.prems
      by (simp add: x Let_def)
  qed simp
  from this [of "replicate n 0"] show "sum_list (bin_recorded es n items) = sum_list (map snd items)"
    "length (bin_recorded es n items) = n"
    by (simp_all add: bin_recorded_def sum_list_replicate)
qed

lemma histogram_total: "sum_list (map snd (histogram_of edges counts)) = sum_list counts"
proof -
  have "map snd (histogram_of edges counts) = counts"
    by (rule nth_equalityI) (simp_all add: histogram_of_def)
  then show ?thesis by simp
qed

section \<open>The final statistics\<close>

lemma percentile_observed:
  assumes "xs \<noteq> []" "0 \<le> p" "p \<le> 100"
  shows "exact_percentile xs p \<in> set xs"
proof -
  have "0 \<le> p / 100" "p / 100 \<le> 1" using assms by simp_all
  note r = percentile_lower_nth [OF assms(1) this]
  show ?thesis using r(1) nth_mem [OF r(2)] by (simp add: exact_percentile_def)
qed

lemma clip_within: "lo \<le> hi \<Longrightarrow> lo \<le> clip lo hi v \<and> clip lo hi v \<le> hi"
  by (simp add: clip_def)

text \<open>The statistics of a finished series describe the recorded values: count, sum, sum of
  squares, least and greatest value are those of the values, every percentile is a value that was
  observed, and the buckets of the display histogram together count every value, values below the
  first edge included.\<close>

theorem final_statistics_describe_the_run:
  assumes "series_init name lo hi n ps d es = Inr s0" "vs \<noteq> []" "0 < n" "\<forall>(k, p)\<in>set ps. 0 \<le> p \<and> p \<le> 100"
    and "st = build_stat view True (foldl (\<lambda>s v. series_record v s) s0 vs)"
  shows "ss_count st = int (length vs) \<and> ss_total st = sum_list vs \<and> ss_sum_sq st = sum_list (map (\<lambda>v. v * v) vs)
    \<and> ss_min st = Min (set vs) \<and> ss_max st = Max (set vs)
    \<and> list_all2 (\<lambda>(k, p) (k', v). k' = k \<and> v \<in> set vs) ps (ss_percentiles st)
    \<and> length (ss_histogram st) = n \<and> sum_list (map snd (ss_histogram st)) = int (length vs)"
proof -
  define s where "s = foldl (\<lambda>s v. series_record v s) s0 vs"
  have s0: "rolls_up s0" "sm_raw s0 = []" "sm_n_histogram_buckets s0 = n" "sm_percentiles s0 = ps"
    using assms(1) rolls_up_init [OF assms(1)] by (auto simp: series_init_def Let_def split: if_splits)
  have s: "rolls_up s" "sm_raw s = vs" "sm_n_histogram_buckets s = n" "sm_percentiles s = ps"
    using record_all [OF s0(1), of vs] s0 by (simp_all add: s_def)
  note r = rolls_upD [OF s(1), unfolded s(2)]
  have st: "st = exact_stat (Min (set vs)) (Max (set vs)) s"
    using assms(2,5) r by (simp add: build_stat_def flip: s_def)
  let ?xs = "sort vs"
  let ?es = "log_spaced_edges (of_rat (Min (set vs))) (of_rat (Max (set vs))) n"
  let ?cs = "map (\<lambda>v. clip (hd ?es) (last ?es) (of_rat v)) ?xs"
  note e = log_spaced_edges_ok [OF assms(3), of "of_rat (Min (set vs))" "of_rat (Max (set vs))"]
  have ends: "hd ?es = ?es ! 0" "last ?es = ?es ! n"
    using e(2) hd_conv_nth [of ?es] last_conv_nth [of ?es] by (cases "?es = []"; simp)+
  have "?es ! 0 \<le> ?es ! n" by (rule ascending_mono [OF e(1)]) (simp_all add: e(2))
  then have "\<forall>v\<in>set ?cs. ?es ! 0 \<le> v \<and> v \<le> ?es ! n" using clip_within ends by auto
  from np_histogram_total [OF e assms(3) this] have tot: "sum_list (np_histogram ?es ?cs) = int (length vs)" by simp
  have ne: "?xs \<noteq> []" using assms(2) by (metis set_empty set_sort)
  have f: "ss_count st = sm_count s" "ss_total st = sm_total s" "ss_sum_sq st = sm_sum_sq s" "ss_min st = Min (set vs)"
    "ss_max st = Max (set vs)" "ss_percentiles st = map (\<lambda>(k, p). (k, exact_percentile ?xs p)) ps"
    "ss_histogram st = histogram_of ?es (np_histogram ?es ?cs)"
    by (simp_all add: st exact_stat_def Let_def s)
  have "list_all2 (\<lambda>(k, p) (k', v). k' = k \<and> v \<in> set vs) ps (ss_percentiles st)"
    using assms(2,4) percentile_observed [of ?xs] ne unfolding f(6)
    by (auto simp: list_all2_conv_all_nth dest!: nth_mem split: prod.splits)
  moreover have "length (ss_histogram st) = n" by (simp add: f(7) histogram_of_def np_histogram_def e(2))
  moreover have "sum_list (map snd (ss_histogram st)) = int (length vs)" by (simp only: f(7) histogram_total tot)
  ultimately show ?thesis using r f by simp
qed

theorem final_statistics_describe_the_run_witness:
  "\<exists>s0. series_init ''osl'' 1 10000000 30 DEFAULT_PERCENTILES IntSeries None = Inr s0
     \<and> (let st = build_stat (\<lambda>hs p. 0, \<lambda>hs. []) True (foldl (\<lambda>s v. series_record v s) s0 [3, 0, 5, 3])
        in ss_count st = 4 \<and> ss_total st = 11 \<and> ss_sum_sq st = 43 \<and> ss_min st = 0 \<and> ss_max st = 5
           \<and> sum_list (map snd (ss_histogram st)) = 4)"
proof -
  obtain s0 where s0: "series_init ''osl'' 1 10000000 30 DEFAULT_PERCENTILES IntSeries None = Inr s0"
    by (simp add: series_init_def)
  have ps: "\<forall>(k, p)\<in>set DEFAULT_PERCENTILES. 0 \<le> p \<and> p \<le> 100" by (simp add: DEFAULT_PERCENTILES_def)
  have n: "0 < (30 :: nat)" and vs: "[3, 0, 5, 3 :: rat] \<noteq> []" by simp_all
  from final_statistics_describe_the_run [OF s0 vs n ps refl, of "(\<lambda>hs p. 0, \<lambda>hs. [])"] s0 show ?thesis by (auto simp: Let_def)
qed

end
