(* ===== verification/Aggregator.thy ===== *)
theory Aggregator
  imports TokenQueue Registry
begin

text \<open>
  \<open>metrics_aggregator/aggregator.py\<close>: the service that routes event records to the metrics table, the
  registry's counters, the token queue and the super-pass collector.  What a trigger of the table
  emits is recorded or enqueued at once; a record the registry does not know raises.
\<close>

section \<open>Names\<close>

datatype counter_key =
    TOTAL_SAMPLES_ISSUED | TOTAL_SAMPLES_COMPLETED | TOTAL_SAMPLES_FAILED | TRACKED_SAMPLES_ISSUED
  | TRACKED_SAMPLES_COMPLETED | TRACKED_SAMPLES_FAILED | TRACKED_FINISH_REASON_STOP
  | TRACKED_FINISH_REASON_LENGTH | TRACKED_FINISH_REASON_TOOL_CALLS | TRACKED_FINISH_REASON_CONTENT_FILTER
  | TRACKED_FINISH_REASON_FUNCTION_CALL | TRACKED_FINISH_REASON_OTHER | TRACKED_DURATION_NS
  | LEGACY_LOADGEN_WINDOW_DURATION_NS | TOTAL_DURATION_NS

fun counter_name :: "counter_key \<Rightarrow> string" where
  "counter_name TOTAL_SAMPLES_ISSUED = ''total_samples_issued''"
| "counter_name TOTAL_SAMPLES_COMPLETED = ''total_samples_completed''"
| "counter_name TOTAL_SAMPLES_FAILED = ''total_samples_failed''"
| "counter_name TRACKED_SAMPLES_ISSUED = ''tracked_samples_issued''"
| "counter_name TRACKED_SAMPLES_COMPLETED = ''tracked_samples_completed''"
| "counter_name TRACKED_SAMPLES_FAILED = ''tracked_samples_failed''"
| "counter_name TRACKED_FINISH_REASON_STOP = ''tracked_finish_reason_stop''"
| "counter_name TRACKED_FINISH_REASON_LENGTH = ''tracked_finish_reason_length''"
| "counter_name TRACKED_FINISH_REASON_TOOL_CALLS = ''tracked_finish_reason_tool_calls''"
| "counter_name TRACKED_FINISH_REASON_CONTENT_FILTER = ''tracked_finish_reason_content_filter''"
| "counter_name TRACKED_FINISH_REASON_FUNCTION_CALL = ''tracked_finish_reason_function_call''"
| "counter_name TRACKED_FINISH_REASON_OTHER = ''tracked_finish_reason_other''"
| "counter_name TRACKED_DURATION_NS = ''tracked_duration_ns''"
| "counter_name LEGACY_LOADGEN_WINDOW_DURATION_NS = ''legacy_loadgen_window_duration_ns''"
| "counter_name TOTAL_DURATION_NS = ''total_duration_ns''"

definition all_counters :: "counter_key list" where
  "all_counters = [TOTAL_SAMPLES_ISSUED, TOTAL_SAMPLES_COMPLETED, TOTAL_SAMPLES_FAILED, TRACKED_SAMPLES_ISSUED,
     TRACKED_SAMPLES_COMPLETED, TRACKED_SAMPLES_FAILED, TRACKED_FINISH_REASON_STOP,
     TRACKED_FINISH_REASON_LENGTH, TRACKED_FINISH_REASON_TOOL_CALLS, TRACKED_FINISH_REASON_CONTENT_FILTER,
     TRACKED_FINISH_REASON_FUNCTION_CALL, TRACKED_FINISH_REASON_OTHER, TRACKED_DURATION_NS,
     LEGACY_LOADGEN_WINDOW_DURATION_NS, TOTAL_DURATION_NS]"

fun series_name :: "series_key \<Rightarrow> string" where
  "series_name ISL = ''isl''"
| "series_name OSL = ''osl''"
| "series_name SAMPLE_LATENCY_NS = ''sample_latency_ns''"
| "series_name TTFT_NS = ''ttft_ns''"
| "series_name CHUNK_DELTA_NS = ''chunk_delta_ns''"
| "series_name TPOT_NS = ''tpot_ns''"

definition finish_reason_counter :: "string \<Rightarrow> counter_key" where
  "finish_reason_counter reason =
     (if reason = ''stop'' then TRACKED_FINISH_REASON_STOP
      else if reason = ''length'' then TRACKED_FINISH_REASON_LENGTH
      else if reason = ''tool_calls'' then TRACKED_FINISH_REASON_TOOL_CALLS
      else if reason = ''content_filter'' then TRACKED_FINISH_REASON_CONTENT_FILTER
      else if reason = ''function_call'' then TRACKED_FINISH_REASON_FUNCTION_CALL
      else TRACKED_FINISH_REASON_OTHER)"

section \<open>The service\<close>

record aggregator =
  ma_registry :: registry
  ma_table :: metrics_table
  ma_queue :: "token_queue option"
  ma_collector :: "collector option"
  ma_live_flush :: bool
  ma_session_start_ns :: "int option"
  ma_total_duration_ns :: int
  ma_state :: snapshot_state
  ma_publisher_started :: bool
  ma_shutdown_received :: bool
  ma_interrupted :: bool

definition and_then :: "'a result \<Rightarrow> ('a \<Rightarrow> 'b result) \<Rightarrow> 'b result" where
  "and_then r f = (case r of Inl e \<Rightarrow> Inl e | Inr x \<Rightarrow> f x)"

definition NS_HDR_LOW :: int where "NS_HDR_LOW = 1"
definition NS_HDR_HIGH :: int where "NS_HDR_HIGH = 3600000000000"
definition TOKEN_HDR_LOW :: int where "TOKEN_HDR_LOW = 1"
definition TOKEN_HDR_HIGH :: int where "TOKEN_HDR_HIGH = 10000000"

fun register_counters :: "counter_key list \<Rightarrow> registry \<Rightarrow> registry result" where
  "register_counters [] r = Inr r"
| "register_counters (k # ks) r = and_then (register_counter (counter_name k) r) (register_counters ks)"

definition register_metrics :: "bool \<Rightarrow> bool \<Rightarrow> nat \<Rightarrow> registry \<Rightarrow> registry result" where
  "register_metrics streaming enable_isl n_buckets r =
     (let ns = (\<lambda>key tail dtype. register_series (series_name key) NS_HDR_LOW NS_HDR_HIGH n_buckets DEFAULT_PERCENTILES dtype tail);
          tok = (\<lambda>key. register_series (series_name key) TOKEN_HDR_LOW TOKEN_HDR_HIGH n_buckets DEFAULT_PERCENTILES IntSeries False)
      in and_then (register_counters all_counters r) (\<lambda>r.
         and_then (ns SAMPLE_LATENCY_NS True IntSeries r) (\<lambda>r.
         and_then (if enable_isl then tok ISL r else Inr r) (\<lambda>r.
         and_then (tok OSL r) (\<lambda>r.
           if \<not> streaming then Inr r
           else and_then (ns TTFT_NS True IntSeries r) (\<lambda>r.
                and_then (ns CHUNK_DELTA_NS False IntSeries r) (\<lambda>r. ns TPOT_NS True FloatSeries r)))))))"

definition aggregator_init ::
    "bool \<Rightarrow> bool \<Rightarrow> bool \<Rightarrow> bool \<Rightarrow> bool \<Rightarrow> nat \<Rightarrow> registry \<Rightarrow> aggregator result" where
  "aggregator_init streaming enable_isl has_tokenizer live_flush collect n_buckets r =
     map_sum id (\<lambda>r. \<lparr>ma_registry = r,
         ma_table = register_triggers streaming enable_isl collect (metrics_table_init has_tokenizer),
         ma_queue = (if has_tokenizer then Some token_queue_init else None),
         ma_collector = (if collect then Some (collector_init 0) else None),
         ma_live_flush = live_flush, ma_session_start_ns = None, ma_total_duration_ns = 0,
         ma_state = INITIALIZE, ma_publisher_started = False, ma_shutdown_received = False,
         ma_interrupted = False\<rparr>)
       (register_metrics streaming enable_isl n_buckets r)"

definition inc :: "counter_key \<Rightarrow> aggregator \<Rightarrow> aggregator result" where
  "inc k s = map_sum id (\<lambda>r. s\<lparr>ma_registry := r\<rparr>) (registry_increment (counter_name k) 1 (ma_registry s))"

definition put_counter :: "counter_key \<Rightarrow> int \<Rightarrow> aggregator \<Rightarrow> aggregator result" where
  "put_counter k v s = map_sum id (\<lambda>r. s\<lparr>ma_registry := r\<rparr>) (set_counter (counter_name k) v (ma_registry s))"

fun apply_emission :: "emission \<Rightarrow> aggregator \<Rightarrow> aggregator result" where
  "apply_emission (Record key v) s =
     map_sum id (\<lambda>r. s\<lparr>ma_registry := r\<rparr>) (registry_record (series_name key) v (ma_registry s))"
| "apply_emission (Enqueue item rec) s = Inr (s\<lparr>ma_queue := map_option (enqueue item rec) (ma_queue s)\<rparr>)"

fun apply_emissions :: "emission list \<Rightarrow> aggregator \<Rightarrow> aggregator result" where
  "apply_emissions [] s = Inr s"
| "apply_emissions (e # es) s = and_then (apply_emission e s) (apply_emissions es)"

text \<open>\<open>table.set_field\<close> with the triggers it fires.\<close>

definition table_set ::
    "(merged_calls \<Rightarrow> string) \<Rightarrow> sample_field \<Rightarrow> event_record \<Rightarrow> aggregator \<Rightarrow> aggregator result" where
  "table_set enc f r s =
     (let mt = set_field enc (ev_uuid r) f (ev_timestamp r) r (ma_table s)
      in apply_emissions (drop (length (mt_emissions (ma_table s))) (mt_emissions mt)) (s\<lparr>ma_table := mt\<rparr>))"

section \<open>Routing\<close>

definition update_duration :: "int \<Rightarrow> aggregator \<Rightarrow> aggregator result" where
  "update_duration ts s = (case ma_session_start_ns s of
       None \<Rightarrow> Inr s
     | Some start \<Rightarrow>
         (if ts - start > ma_total_duration_ns s
          then put_counter TOTAL_DURATION_NS (ts - start) (s\<lparr>ma_total_duration_ns := ts - start\<rparr>)
          else Inr s))"

definition put_window_counters :: "aggregator \<Rightarrow> aggregator result" where
  "put_window_counters s =
     and_then (put_counter TRACKED_DURATION_NS (total_tracked_duration_ns (ma_table s)) s) (\<lambda>s.
       put_counter LEGACY_LOADGEN_WINDOW_DURATION_NS (total_loadgen_window_ns (ma_table s)) s)"

definition on_started :: "int \<Rightarrow> aggregator \<Rightarrow> aggregator" where
  "on_started ts s = (case ma_session_start_ns s of
       Some _ \<Rightarrow> s
     | None \<Rightarrow> s\<lparr>ma_session_start_ns := Some ts, ma_state := LIVE, ma_publisher_started := True,
                ma_queue := (if ma_live_flush s then map_option start_live (ma_queue s) else ma_queue s)\<rparr>)"

definition on_session_event :: "session_event \<Rightarrow> event_record \<Rightarrow> aggregator \<Rightarrow> aggregator result" where
  "on_session_event ev r s = (case ev of
       ENDED \<Rightarrow> Inr (s\<lparr>ma_shutdown_received := True\<rparr>)
     | INTERRUPTED \<Rightarrow> Inr (s\<lparr>ma_interrupted := True\<rparr>)
     | PHASE_START \<Rightarrow>
         Inr (case (ma_collector s, ev_data r) of
             (Some c, PhaseD d) \<Rightarrow>
               (if pd_phase_type d = PERFORMANCE then s\<lparr>ma_collector := Some (announce_phase (pd_num_turns d) c)\<rparr> else s)
           | _ \<Rightarrow> s)
     | _ \<Rightarrow>
         (let s1 = (if ev = STARTED then on_started (ev_timestamp r) s else s);
              s2 = s1\<lparr>ma_table := handle_session_event ev (ev_timestamp r) (ma_table s1)\<rparr>
          in if ev = STOP_PERFORMANCE_TRACKING then put_window_counters s2 else Inr s2))"

definition on_error_event :: "event_record \<Rightarrow> aggregator \<Rightarrow> aggregator result" where
  "on_error_event r s =
     and_then (inc TOTAL_SAMPLES_FAILED s) (\<lambda>s.
       if ev_uuid r \<noteq> [] \<and> get_row (ma_table s) (ev_uuid r) \<noteq> None then inc TRACKED_SAMPLES_FAILED s else Inr s)"

definition bucket_issue :: "event_record \<Rightarrow> sample_row \<Rightarrow> aggregator \<Rightarrow> aggregator" where
  "bucket_issue r row s = (case ma_collector s of
       None \<Rightarrow> s
     | Some c \<Rightarrow>
         (if \<not> mt_is_tracking (ma_table s) then s
          else if superpass_index row < 0 then
            (let (i, c') = assign (ev_timestamp r) c; mt = ma_table s
             in s\<lparr>ma_collector := Some c',
                  ma_table := mt\<lparr>mt_in_flight := (mt_in_flight mt)(ev_uuid r \<mapsto> row\<lparr>superpass_index := i\<rparr>)\<rparr>\<rparr>)
          else s\<lparr>ma_collector := Some (reissue (nat (superpass_index row)) (ev_timestamp r) c)\<rparr>))"

definition on_issued :: "(merged_calls \<Rightarrow> string) \<Rightarrow> event_record \<Rightarrow> aggregator \<Rightarrow> aggregator result" where
  "on_issued enc r s =
     and_then (table_set enc ISSUED_NS r s) (\<lambda>s.
     and_then (inc TOTAL_SAMPLES_ISSUED s) (\<lambda>s.
       case get_row (ma_table s) (ev_uuid r) of
         None \<Rightarrow> Inr s
       | Some row \<Rightarrow> and_then (inc TRACKED_SAMPLES_ISSUED s) (\<lambda>s. Inr (bucket_issue r row s))))"

definition on_first_chunk :: "(merged_calls \<Rightarrow> string) \<Rightarrow> event_record \<Rightarrow> aggregator \<Rightarrow> aggregator result" where
  "on_first_chunk enc r s =
     (let row0 = get_row (ma_table s) (ev_uuid r)
      in and_then (table_set enc RECV_FIRST_NS r s) (\<lambda>s.
         and_then (table_set enc LAST_RECV_NS r s) (\<lambda>s.
           Inr (case (ma_collector s, row0) of
               (Some c, Some row) \<Rightarrow>
                 (case issued_ns row of
                    Some issued \<Rightarrow>
                      (if superpass_index row \<ge> 0
                       then s\<lparr>ma_collector := Some (on_recv_first (nat (superpass_index row)) issued (ev_timestamp r)
                                (ev_turn r) (recv_first_ns row = None) c)\<rparr>
                       else s)
                  | None \<Rightarrow> s)
             | _ \<Rightarrow> s))))"

definition on_completed :: "(merged_calls \<Rightarrow> string) \<Rightarrow> event_record \<Rightarrow> aggregator \<Rightarrow> aggregator result" where
  "on_completed enc r s =
     (let row0 = get_row (ma_table s) (ev_uuid r)
      in and_then (table_set enc COMPLETE_NS r s) (\<lambda>s.
           let s1 = (case (ma_collector s, row0) of
               (Some c, Some row) \<Rightarrow>
                 (case issued_ns row of
                    Some issued \<Rightarrow>
                      (if superpass_index row \<ge> 0
                       then s\<lparr>ma_collector := Some (snd (on_complete (nat (superpass_index row)) issued
                                (recv_first_ns row) (ev_timestamp r) c))\<rparr>
                       else s)
                  | None \<Rightarrow> s)
             | _ \<Rightarrow> s)
           in and_then (inc TOTAL_SAMPLES_COMPLETED s1) (\<lambda>s.
                if row0 = None then Inr s
                else and_then (inc TRACKED_SAMPLES_COMPLETED s) (\<lambda>s.
                  case ev_finish_reason r of None \<Rightarrow> Inr s | Some reason \<Rightarrow> inc (finish_reason_counter reason) s))))"

definition on_sample_event ::
    "(merged_calls \<Rightarrow> string) \<Rightarrow> sample_event \<Rightarrow> event_record \<Rightarrow> aggregator \<Rightarrow> aggregator result" where
  "on_sample_event enc ev r s =
     (if ev_uuid r = [] then Inr s
      else case ev of
        ISSUED \<Rightarrow> on_issued enc r s
      | RECV_FIRST \<Rightarrow> on_first_chunk enc r s
      | RECV_NON_FIRST \<Rightarrow> table_set enc LAST_RECV_NS r s
      | COMPLETE \<Rightarrow> on_completed enc r s)"

definition process_record :: "(merged_calls \<Rightarrow> string) \<Rightarrow> event_record \<Rightarrow> aggregator \<Rightarrow> aggregator result" where
  "process_record enc r s =
     and_then (update_duration (ev_timestamp r) s) (\<lambda>s.
       case ev_type r of
         SessionEv ev \<Rightarrow> on_session_event ev r s
       | ErrorEv _ \<Rightarrow> on_error_event r s
       | SampleEv ev \<Rightarrow> on_sample_event enc ev r s)"

text \<open>The loop of \<open>process\<close>: nothing is routed once ENDED was seen.\<close>

fun process_records :: "(merged_calls \<Rightarrow> string) \<Rightarrow> event_record list \<Rightarrow> aggregator \<Rightarrow> aggregator result" where
  "process_records enc [] s = Inr s"
| "process_records enc (r # rs) s =
     (if ma_shutdown_received s then Inr s else and_then (process_record enc r s) (process_records enc rs))"

text \<open>A step of the token queue, with the recorders it runs (\<open>_record\<close> drops what a recorder raises).\<close>

definition settle_count :: "aggregator \<Rightarrow> queued \<times> int \<Rightarrow> aggregator" where
  "settle_count s = (\<lambda>((item, rec), count).
     (case run_recorder rec count of
        (None, _) \<Rightarrow> s
      | (Some (key, v), sp) \<Rightarrow>
          (case registry_record (series_name key) v (ma_registry s) of
             Inl e \<Rightarrow> s
           | Inr r \<Rightarrow> s\<lparr>ma_registry := r,
               ma_collector := (case (ma_collector s, sp) of
                   (Some c, Some (i, tpot, n)) \<Rightarrow> Some (add_tpot (nat i) tpot n c)
                 | _ \<Rightarrow> ma_collector s)\<rparr>)))"

definition on_queue_event :: "queue_event \<Rightarrow> aggregator \<Rightarrow> aggregator" where
  "on_queue_event e s = (case ma_queue s of
       None \<Rightarrow> s
     | Some q \<Rightarrow>
         (let q' = queue_step q e
          in foldl settle_count (s\<lparr>ma_queue := Some q'\<rparr>) (drop (length (tq_recorded q)) (tq_recorded q'))))"

definition pending_tokens :: "aggregator \<Rightarrow> int" where
  "pending_tokens s = (case ma_queue s of Some q \<Rightarrow> tq_inflight q | None \<Rightarrow> 0)"

text \<open>The end of \<open>process\<close>: the drain begins, and once it has returned the final snapshot is built.\<close>

definition begin_drain :: "aggregator \<Rightarrow> aggregator" where
  "begin_drain s = on_queue_event FlushRemaining (s\<lparr>ma_state := DRAINING\<rparr>)"

definition final_snapshot :: "hdr_view \<Rightarrow> int \<Rightarrow> int \<Rightarrow> aggregator \<Rightarrow> metrics_snapshot result \<times> aggregator" where
  "final_snapshot view n_pending now s =
     (case put_window_counters s of
        Inl e \<Rightarrow> (Inl e, s)
      | Inr s1 \<Rightarrow>
          (let (snap, r) = build_snapshot view (if ma_interrupted s1 then INTERRUPTED_STATE else COMPLETE_STATE)
                             n_pending now (ma_registry s1)
           in (Inr snap, s1\<lparr>ma_registry := r\<rparr>)))"

end
