(* ===== verification/AggregatorFacts.thy ===== *)
theory AggregatorFacts
  imports Aggregator PhaseIssuer
begin

text \<open>
  The aggregator never raises on the events it routes, and its counters stay consistent with each
  other and with the metrics table; what it counts as issued is what the phase issuer issued.
\<close>

section \<open>Counters and names\<close>

definition ctr :: "aggregator \<Rightarrow> counter_key \<Rightarrow> int" where
  "ctr s k = (case map_of (rg_counters (ma_registry s)) (counter_name k) of Some v \<Rightarrow> v | None \<Rightarrow> 0)"

fun trigger_key :: "trigger \<Rightarrow> series_key" where
  "trigger_key (TimeDeltaTrigger key start) = key"
| "trigger_key IslTrigger = ISL"
| "trigger_key OslTrigger = OSL"
| "trigger_key (TpotTrigger c) = TPOT_NS"

text \<open>Every counter, and every series a registered trigger records, is in the registry, each counter once.\<close>

definition names_ok :: "aggregator \<Rightarrow> bool" where
  "names_ok s = ((\<forall>k. map_of (rg_counters (ma_registry s)) (counter_name k) \<noteq> None) \<and> dict_wf (rg_counters (ma_registry s))
     \<and> (\<forall>f. \<forall>tr\<in>set (mt_triggers (ma_table s) f).
          map_of (rg_series (ma_registry s)) (series_name (trigger_key tr)) \<noteq> None))"

lemma counter_name_inj [simp]: "counter_name a = counter_name b \<longleftrightarrow> a = b"
  by (cases a; cases b) simp_all

text \<open>An operation that leaves the table, the duration and all counters but those in \<open>K\<close> alone.\<close>

definition counts_only :: "counter_key set \<Rightarrow> aggregator \<Rightarrow> aggregator \<Rightarrow> bool" where
  "counts_only K s s' = (ma_table s' = ma_table s \<and> ma_total_duration_ns s' = ma_total_duration_ns s
     \<and> ma_shutdown_received s' = ma_shutdown_received s \<and> names_ok s' \<and> (\<forall>j. j \<notin> K \<longrightarrow> ctr s' j = ctr s j))"

lemma counts_only_trans: "counts_only K s s' \<Longrightarrow> counts_only K s' s'' \<Longrightarrow> counts_only K s s''"
  by (simp add: counts_only_def)

lemma and_then_simps [simp]: "and_then (Inl e) f = Inl e" "and_then (Inr x) f = f x"
  by (simp_all add: and_then_def)

lemma inc_spec:
  assumes "names_ok s"
  shows "\<exists>s'. inc k s = Inr s' \<and> counts_only {k} s s' \<and> ctr s' k = ctr s k + 1"
proof -
  have "map_of (rg_counters (ma_registry s)) (counter_name k) \<noteq> None" using assms by (simp add: names_ok_def)
  then obtain v where v: "map_of (rg_counters (ma_registry s)) (counter_name k) = Some v" by blast
  let ?s = "s\<lparr>ma_registry := (ma_registry s)\<lparr>rg_counters := AList.update (counter_name k) (v + 1) (rg_counters (ma_registry s))\<rparr>\<rparr>"
  have "inc k s = Inr ?s" by (simp add: inc_def registry_increment_def v)
  moreover have "counts_only {k} s ?s" using assms by (simp add: counts_only_def names_ok_def ctr_def)
  moreover have "ctr ?s k = ctr s k + 1" by (simp add: ctr_def v)
  ultimately show ?thesis by blast
qed

lemma put_counter_spec:
  assumes "names_ok s"
  shows "\<exists>s'. put_counter k v s = Inr s' \<and> counts_only {k} s s' \<and> ctr s' k = v"
proof -
  have "map_of (rg_counters (ma_registry s)) (counter_name k) \<noteq> None" using assms by (simp add: names_ok_def)
  then obtain u where u: "map_of (rg_counters (ma_registry s)) (counter_name k) = Some u" by blast
  let ?s = "s\<lparr>ma_registry := (ma_registry s)\<lparr>rg_counters := AList.update (counter_name k) v (rg_counters (ma_registry s))\<rparr>\<rparr>"
  have "put_counter k v s = Inr ?s" by (simp add: put_counter_def set_counter_def u)
  moreover have "counts_only {k} s ?s" using assms by (simp add: counts_only_def names_ok_def ctr_def)
  moreover have "ctr ?s k = v" by (simp add: ctr_def)
  ultimately show ?thesis by blast
qed

section \<open>Emissions\<close>

definition emission_ok :: "aggregator \<Rightarrow> emission \<Rightarrow> bool" where
  "emission_ok s e = (case e of Record key v \<Rightarrow> map_of (rg_series (ma_registry s)) (series_name key) \<noteq> None | Enqueue _ _ \<Rightarrow> True)"

lemma apply_emission_spec:
  assumes "names_ok s" "emission_ok s e"
  shows "\<exists>s'. apply_emission e s = Inr s' \<and> counts_only {} s s' \<and> (\<forall>e'. emission_ok s e' \<longrightarrow> emission_ok s' e')"
proof (cases e)
  case (Record key v)
  then obtain sm where sm: "map_of (rg_series (ma_registry s)) (series_name key) = Some sm"
    using assms(2) by (auto simp: emission_ok_def)
  let ?s = "s\<lparr>ma_registry := (ma_registry s)\<lparr>rg_series := AList.update (series_name key) (series_record v sm) (rg_series (ma_registry s))\<rparr>\<rparr>"
  have "apply_emission e s = Inr ?s" by (simp add: Record registry_record_def sm)
  moreover have "counts_only {} s ?s" using assms(1) by (simp add: counts_only_def names_ok_def ctr_def)
  moreover have "\<forall>e'. emission_ok s e' \<longrightarrow> emission_ok ?s e'" by (simp add: emission_ok_def split: emission.split)
  ultimately show ?thesis by blast
next
  case (Enqueue item rec)
  let ?s = "s\<lparr>ma_queue := map_option (enqueue item rec) (ma_queue s)\<rparr>"
  have "counts_only {} s ?s" using assms(1) by (simp add: counts_only_def names_ok_def ctr_def)
  moreover have "\<forall>e'. emission_ok s e' \<longrightarrow> emission_ok ?s e'" by (simp add: emission_ok_def split: emission.split)
  ultimately show ?thesis by (simp add: Enqueue)
qed

lemma apply_emissions_spec:
  "names_ok s \<Longrightarrow> \<forall>e\<in>set es. emission_ok s e \<Longrightarrow> \<exists>s'. apply_emissions es s = Inr s' \<and> counts_only {} s s'"
proof (induction es arbitrary: s)
  case (Cons e es)
  obtain s1 where s1: "apply_emission e s = Inr s1" "counts_only {} s s1" "\<forall>e'. emission_ok s e' \<longrightarrow> emission_ok s1 e'"
    using apply_emission_spec [of s e] Cons.prems by auto
  have "names_ok s1" "\<forall>e\<in>set es. emission_ok s1 e" using s1 Cons.prems(2) by (auto simp: counts_only_def)
  from Cons.IH [OF this] obtain s2 where "apply_emissions es s1 = Inr s2" "counts_only {} s1 s2" by blast
  then show ?case using s1 counts_only_trans [OF s1(2)] by simp
qed (simp add: counts_only_def)

lemma token_emission_key: "Record key v \<in> set (token_emission q key' rec item) \<Longrightarrow> key = key'"
  by (cases item) (auto simp: token_emission_def split: tok_input.splits if_splits)

lemma fire_trigger_key: "Record key v \<in> set (fire_trigger enc q ev row tr) \<Longrightarrow> key = trigger_key tr"
  by (cases tr) (auto simp: fire_trigger_def dest: token_emission_key split: option.splits)

lemma set_field_emissions:
  "\<exists>row. mt_emissions (set_field enc u f v ev mt) = mt_emissions mt
     \<or> mt_emissions (set_field enc u f v ev mt) = mt_emissions mt @ concat (map (fire_trigger enc (mt_has_queue mt) ev row) (mt_triggers mt f))"
  by (auto simp: set_field_def update_row_emissions Let_def split: option.split)

lemma set_field_triggers [simp]: "mt_triggers (set_field enc u f v ev mt) = mt_triggers mt"
  by (simp add: set_field_def Let_def split: option.split)

lemma table_set_spec:
  assumes "names_ok s"
  shows "\<exists>s'. table_set enc f r s = Inr s' \<and> ma_table s' = set_field enc (ev_uuid r) f (ev_timestamp r) r (ma_table s)
    \<and> counts_only {} (s\<lparr>ma_table := ma_table s'\<rparr>) s' \<and> ctr s' = ctr s"
proof -
  let ?mt = "set_field enc (ev_uuid r) f (ev_timestamp r) r (ma_table s)"
  let ?new = "drop (length (mt_emissions (ma_table s))) (mt_emissions ?mt)"
  have n: "names_ok (s\<lparr>ma_table := ?mt\<rparr>)" using assms by (simp add: names_ok_def)
  have "emission_ok (s\<lparr>ma_table := ?mt\<rparr>) e" if e: "e \<in> set ?new" for e
  proof (cases e)
    case (Record key v)
    obtain row where row: "mt_emissions ?mt = mt_emissions (ma_table s) \<or> mt_emissions ?mt = mt_emissions (ma_table s)
        @ concat (map (fire_trigger enc (mt_has_queue (ma_table s)) r row) (mt_triggers (ma_table s) f))"
      using set_field_emissions by blast
    have "?new = [] \<or> ?new = concat (map (fire_trigger enc (mt_has_queue (ma_table s)) r row) (mt_triggers (ma_table s) f))"
      using row by (elim disjE) simp_all
    then obtain tr where tr: "tr \<in> set (mt_triggers (ma_table s) f)" "e \<in> set (fire_trigger enc (mt_has_queue (ma_table s)) r row tr)"
      using e by auto
    then have "key = trigger_key tr" using fire_trigger_key Record by blast
    then show ?thesis using tr(1) assms by (auto simp: emission_ok_def names_ok_def Record)
  qed (simp add: emission_ok_def)
  from apply_emissions_spec [OF n] this obtain s' where s': "apply_emissions ?new (s\<lparr>ma_table := ?mt\<rparr>) = Inr s'"
    "counts_only {} (s\<lparr>ma_table := ?mt\<rparr>) s'" by blast
  have t: "ma_table s' = ?mt" using s'(2) by (simp add: counts_only_def)
  have "ctr s' = ctr s" using s'(2) by (auto simp: counts_only_def ctr_def fun_eq_iff)
  then show ?thesis using s' t by (simp add: table_set_def)
qed

section \<open>The invariant\<close>

definition finish_counters :: "counter_key list" where
  "finish_counters = [TRACKED_FINISH_REASON_STOP, TRACKED_FINISH_REASON_LENGTH, TRACKED_FINISH_REASON_TOOL_CALLS,
     TRACKED_FINISH_REASON_CONTENT_FILTER, TRACKED_FINISH_REASON_FUNCTION_CALL, TRACKED_FINISH_REASON_OTHER]"

definition in_flight_rows :: "aggregator \<Rightarrow> nat" where
  "in_flight_rows s = card (dom (mt_in_flight (ma_table s)))"

definition agg_inv :: "aggregator \<Rightarrow> bool" where
  "agg_inv s = (names_ok s \<and> table_inv (ma_table s)
     \<and> ctr s TRACKED_SAMPLES_COMPLETED + int (in_flight_rows s) \<le> ctr s TRACKED_SAMPLES_ISSUED
     \<and> ctr s TRACKED_SAMPLES_ISSUED \<le> ctr s TOTAL_SAMPLES_ISSUED
     \<and> ctr s TRACKED_SAMPLES_COMPLETED \<le> ctr s TOTAL_SAMPLES_COMPLETED
     \<and> ctr s TRACKED_SAMPLES_FAILED \<le> ctr s TOTAL_SAMPLES_FAILED
     \<and> ctr s TRACKED_SAMPLES_COMPLETED = total_completed_tracked_samples (ma_table s)
     \<and> sum_list (map (ctr s) finish_counters) \<le> ctr s TRACKED_SAMPLES_COMPLETED
     \<and> ctr s TOTAL_DURATION_NS = ma_total_duration_ns s)"

text \<open>The table's side of the invariant, and how an operation may move it.\<close>

definition table_counts :: "metrics_table \<Rightarrow> nat \<times> int" where
  "table_counts mt = (card (dom (mt_in_flight mt)), total_completed_tracked_samples mt)"

lemma set_field_issued_counts:
  assumes "table_inv mt" "ev_type ev = SampleEv ISSUED"
  shows "table_counts (set_field enc u f v ev mt) = table_counts mt
    \<or> mt_in_flight (set_field enc u f v ev mt) u \<noteq> None
      \<and> card (dom (mt_in_flight (set_field enc u f v ev mt))) \<le> card (dom (mt_in_flight mt)) + 1
      \<and> total_completed_tracked_samples (set_field enc u f v ev mt) = total_completed_tracked_samples mt"
proof (cases "mt_is_tracking mt")
  case False
  then show ?thesis using assms(2) by (simp add: set_field_def)
next
  case True
  let ?mt = "set_field enc u f v ev mt"
  obtain row mt1 where eq: "?mt = update_row enc u row f v ev mt1" "mt_in_flight mt1 = mt_in_flight mt"
      "mt_tracked_blocks mt1 = mt_tracked_blocks mt"
    using True assms(2) by (auto simp: set_field_def Let_def)
  have fl: "mt_in_flight ?mt = (mt_in_flight mt)(u \<mapsto> set_row_field f v row)" using assms(2) by (simp add: eq update_row_in_flight)
  have fin: "finite (dom (mt_in_flight mt))" using assms(1) by (simp add: table_inv_alt)
  have "card (dom (mt_in_flight ?mt)) \<le> card (dom (mt_in_flight mt)) + 1"
    unfolding fl using card_insert_le_m1 [of "Suc (card (dom (mt_in_flight mt)))" "dom (mt_in_flight mt)" u] fin by simp
  moreover have "total_completed_tracked_samples ?mt = total_completed_tracked_samples mt"
    using assms(2) by (simp add: eq update_row_blocks total_completed_tracked_samples_def)
  ultimately show ?thesis using fl by simp
qed

lemma set_field_progress_counts:
  assumes "ev_type ev \<noteq> SampleEv ISSUED" "ev_type ev \<noteq> SampleEv COMPLETE"
  shows "table_counts (set_field enc u f v ev mt) = table_counts mt"
proof (cases "mt_in_flight mt u")
  case None
  then show ?thesis using assms(1) by (simp add: set_field_def)
next
  case (Some row)
  then have eq: "set_field enc u f v ev mt = update_row enc u row f v ev mt" using assms(1) by (simp add: set_field_def)
  have "dom ((mt_in_flight mt)(u \<mapsto> x)) = dom (mt_in_flight mt)" for x using Some by auto
  then show ?thesis using assms(2)
    by (simp add: eq table_counts_def update_row_in_flight update_row_blocks total_completed_tracked_samples_def del: dom_fun_upd)
qed

lemma session_event_counts: "table_counts (handle_session_event ev ts mt) = table_counts mt"
  by (cases ev) (simp_all add: handle_session_event_def table_counts_def total_completed_tracked_samples_def)

section \<open>Every event keeps the invariant\<close>

text \<open>The operation succeeded with \<open>d\<close> more samples counted as issued.\<close>

definition goes_to :: "int \<Rightarrow> aggregator \<Rightarrow> aggregator result \<Rightarrow> bool" where
  "goes_to d s r = (\<exists>s'. r = Inr s' \<and> agg_inv s' \<and> ctr s' TOTAL_SAMPLES_ISSUED = ctr s TOTAL_SAMPLES_ISSUED + d
     \<and> ma_shutdown_received s' = ma_shutdown_received s)"

lemma agg_invD:
  assumes "agg_inv s"
  shows "names_ok s" "table_inv (ma_table s)"
    "ctr s TRACKED_SAMPLES_COMPLETED + int (fst (table_counts (ma_table s))) \<le> ctr s TRACKED_SAMPLES_ISSUED"
    "ctr s TRACKED_SAMPLES_ISSUED \<le> ctr s TOTAL_SAMPLES_ISSUED" "ctr s TRACKED_SAMPLES_COMPLETED \<le> ctr s TOTAL_SAMPLES_COMPLETED"
    "ctr s TRACKED_SAMPLES_FAILED \<le> ctr s TOTAL_SAMPLES_FAILED"
    "ctr s TRACKED_SAMPLES_COMPLETED = snd (table_counts (ma_table s))"
    "sum_list (map (ctr s) finish_counters) \<le> ctr s TRACKED_SAMPLES_COMPLETED"
    "ctr s TOTAL_DURATION_NS = ma_total_duration_ns s"
  using assms by (simp_all add: agg_inv_def in_flight_rows_def table_counts_def)

lemma agg_invI:
  assumes "names_ok s" "table_inv (ma_table s)"
    "ctr s TRACKED_SAMPLES_COMPLETED + int (fst (table_counts (ma_table s))) \<le> ctr s TRACKED_SAMPLES_ISSUED"
    "ctr s TRACKED_SAMPLES_ISSUED \<le> ctr s TOTAL_SAMPLES_ISSUED" "ctr s TRACKED_SAMPLES_COMPLETED \<le> ctr s TOTAL_SAMPLES_COMPLETED"
    "ctr s TRACKED_SAMPLES_FAILED \<le> ctr s TOTAL_SAMPLES_FAILED"
    "ctr s TRACKED_SAMPLES_COMPLETED = snd (table_counts (ma_table s))"
    "sum_list (map (ctr s) finish_counters) \<le> ctr s TRACKED_SAMPLES_COMPLETED"
    "ctr s TOTAL_DURATION_NS = ma_total_duration_ns s"
  shows "agg_inv s"
  using assms by (simp add: agg_inv_def in_flight_rows_def table_counts_def)

text \<open>Operations that leave the counts alone.\<close>

lemma agg_inv_same:
  assumes "agg_inv s" "names_ok s'" "table_inv (ma_table s')" "table_counts (ma_table s') = table_counts (ma_table s)"
    "\<And>k. k \<notin> {TRACKED_DURATION_NS, LEGACY_LOADGEN_WINDOW_DURATION_NS} \<Longrightarrow> ctr s' k = ctr s k"
    "ma_total_duration_ns s' = ma_total_duration_ns s"
  shows "agg_inv s'"
proof -
  have "sum_list (map (ctr s') finish_counters) = sum_list (map (ctr s) finish_counters)"
    using assms(5) by (simp add: finish_counters_def)
  then show ?thesis using agg_invD [OF assms(1)] assms(2-6) by (intro agg_invI) simp_all
qed

lemma update_duration_ok:
  assumes "agg_inv s"
  shows "goes_to 0 s (update_duration ts s)"
proof (cases "ma_session_start_ns s")
  case None
  then show ?thesis using assms by (simp add: update_duration_def goes_to_def)
next
  case (Some start)
  show ?thesis
  proof (cases "ts - start > ma_total_duration_ns s")
    case False
    then show ?thesis using assms Some by (simp add: update_duration_def goes_to_def)
  next
    case True
    let ?s = "s\<lparr>ma_total_duration_ns := ts - start\<rparr>"
    note i = agg_invD [OF assms]
    have "names_ok ?s" using i(1) by (simp add: names_ok_def)
    from put_counter_spec [OF this, of TOTAL_DURATION_NS "ts - start"] obtain s' where
      s': "put_counter TOTAL_DURATION_NS (ts - start) ?s = Inr s'" "counts_only {TOTAL_DURATION_NS} ?s s'"
        "ctr s' TOTAL_DURATION_NS = ts - start" by blast
    have c: "ctr s' k = ctr s k" if "k \<noteq> TOTAL_DURATION_NS" for k
      using s'(2) that by (auto simp: counts_only_def ctr_def)
    have f: "ma_table s' = ma_table s" "ma_total_duration_ns s' = ts - start" "names_ok s'"
      "ma_shutdown_received s' = ma_shutdown_received s"
      using s'(2) by (simp_all add: counts_only_def)
    have "agg_inv s'"
      using i f s'(3) by (intro agg_invI) (simp_all add: c finish_counters_def)
    then show ?thesis using Some True s'(1) c f(4) by (simp add: update_duration_def goes_to_def)
  qed
qed

lemma put_window_ok:
  assumes "agg_inv s"
  shows "goes_to 0 s (put_window_counters s)"
proof -
  obtain s1 where s1: "put_counter TRACKED_DURATION_NS (total_tracked_duration_ns (ma_table s)) s = Inr s1"
    "counts_only {TRACKED_DURATION_NS} s s1" using put_counter_spec [OF agg_invD(1) [OF assms]] by blast
  then have n1: "names_ok s1" by (simp add: counts_only_def)
  obtain s2 where s2: "put_counter LEGACY_LOADGEN_WINDOW_DURATION_NS (total_loadgen_window_ns (ma_table s1)) s1 = Inr s2"
    "counts_only {LEGACY_LOADGEN_WINDOW_DURATION_NS} s1 s2" using put_counter_spec [OF n1] by blast
  have "agg_inv s2"
    by (rule agg_inv_same [OF assms]) (use s1 s2 agg_invD(2) [OF assms] in \<open>simp_all add: counts_only_def\<close>)
  then show ?thesis using s1 s2 by (simp add: put_window_counters_def goes_to_def counts_only_def)
qed

lemma on_session_event_ok:
  assumes "agg_inv s"
  shows "\<exists>s'. on_session_event ev r s = Inr s' \<and> agg_inv s' \<and> ctr s' TOTAL_SAMPLES_ISSUED = ctr s TOTAL_SAMPLES_ISSUED
    \<and> (ma_shutdown_received s' \<longleftrightarrow> ma_shutdown_received s \<or> ev = ENDED)"
proof -
  note i = agg_invD [OF assms]
  have regs: "agg_inv s'" if "ma_registry s' = ma_registry s" "ma_table s' = ma_table s" "ma_total_duration_ns s' = ma_total_duration_ns s" for s'
    using that i by (intro agg_inv_same [OF assms]) (simp_all add: names_ok_def ctr_def)
  have started: "ma_registry (on_started ts s) = ma_registry s" "ma_table (on_started ts s) = ma_table s"
    "ma_total_duration_ns (on_started ts s) = ma_total_duration_ns s" "ma_shutdown_received (on_started ts s) = ma_shutdown_received s" for ts
    by (simp_all add: on_started_def split: option.split)
  let ?s1 = "if ev = STARTED then on_started (ev_timestamp r) s else s"
  let ?s2 = "?s1\<lparr>ma_table := handle_session_event ev (ev_timestamp r) (ma_table ?s1)\<rparr>"
  have trig: "mt_triggers (handle_session_event ev ts mt) = mt_triggers mt" for ts mt
    by (cases ev) (simp_all add: handle_session_event_def)
  have s2: "agg_inv ?s2"
    by (rule agg_inv_same [OF assms]) (use i started trig session_event_counts table_inv_session in \<open>simp_all add: names_ok_def ctr_def\<close>)
  have c2: "ctr ?s2 TOTAL_SAMPLES_ISSUED = ctr s TOTAL_SAMPLES_ISSUED" "ma_shutdown_received ?s2 = ma_shutdown_received s"
    using started by (simp_all add: ctr_def)
  show ?thesis
  proof (cases "ev \<in> {ENDED, INTERRUPTED, PHASE_START}")
    case True
    then consider "ev = ENDED" | "ev = INTERRUPTED" | "ev = PHASE_START" by blast
    then show ?thesis
    proof cases
      case 3
      obtain s' where s': "on_session_event ev r s = Inr s'" "ma_registry s' = ma_registry s" "ma_table s' = ma_table s"
        "ma_total_duration_ns s' = ma_total_duration_ns s" "ma_shutdown_received s' = ma_shutdown_received s"
        by (simp add: on_session_event_def 3 split: option.split event_data.split)
      show ?thesis using s' regs [OF s'(2-4)] by (simp add: ctr_def 3)
    qed (use regs in \<open>simp_all add: on_session_event_def ctr_def\<close>)
  next
    case False
    then have go: "on_session_event ev r s = (if ev = STOP_PERFORMANCE_TRACKING then put_window_counters ?s2 else Inr ?s2)"
      by (cases ev) (simp_all add: on_session_event_def Let_def)
    show ?thesis
      using put_window_ok [OF s2] s2 c2 False unfolding go goes_to_def by (cases "ev = STOP_PERFORMANCE_TRACKING") auto
  qed
qed

text \<open>Counting: after the increments of a step, the invariant is one of integers.\<close>

lemma inc_chain:
  assumes "names_ok s"
  obtains s' where "inc k s = Inr s'" "names_ok s'" "ma_table s' = ma_table s"
    "ma_total_duration_ns s' = ma_total_duration_ns s" "ma_shutdown_received s' = ma_shutdown_received s"
    "\<And>j. ctr s' j = ctr s j + (if j = k then 1 else 0)" "\<And>j. ctr s' j = ((ctr s)(k := ctr s k + 1)) j"
proof -
  obtain s' where s': "inc k s = Inr s'" "counts_only {k} s s'" "ctr s' k = ctr s k + 1"
    using inc_spec [OF assms] by blast
  have "ctr s' j = ctr s j + (if j = k then 1 else 0)" for j
    using s' by (cases "j = k") (simp_all add: counts_only_def)
  then show thesis using s' that by (simp add: counts_only_def)
qed

lemma on_error_event_ok:
  assumes "agg_inv s"
  shows "goes_to 0 s (on_error_event r s)"
proof -
  note i = agg_invD [OF assms]
  obtain s1 where s1: "inc TOTAL_SAMPLES_FAILED s = Inr s1" "names_ok s1" "ma_table s1 = ma_table s"
    "ma_total_duration_ns s1 = ma_total_duration_ns s" "ma_shutdown_received s1 = ma_shutdown_received s"
    "\<And>j. ctr s1 j = ctr s j + (if j = TOTAL_SAMPLES_FAILED then 1 else 0)" using inc_chain [OF i(1)] by metis
  obtain s2 where s2: "inc TRACKED_SAMPLES_FAILED s1 = Inr s2" "names_ok s2" "ma_table s2 = ma_table s1"
    "ma_total_duration_ns s2 = ma_total_duration_ns s1" "ma_shutdown_received s2 = ma_shutdown_received s1"
    "\<And>j. ctr s2 j = ctr s1 j + (if j = TRACKED_SAMPLES_FAILED then 1 else 0)" using inc_chain [OF s1(2)] by metis
  have "agg_inv s1" using i s1 by (intro agg_invI) (simp_all add: finish_counters_def)
  moreover have "agg_inv s2" using i s1 s2 by (intro agg_invI) (simp_all add: finish_counters_def)
  ultimately show ?thesis using s1 s2 by (simp add: on_error_event_def goes_to_def)
qed

lemma bucket_issue_frame:
  assumes "get_row (ma_table s) (ev_uuid r) = Some row"
  shows "ma_registry (bucket_issue r row s) = ma_registry s"
    "ma_total_duration_ns (bucket_issue r row s) = ma_total_duration_ns s"
    "ma_shutdown_received (bucket_issue r row s) = ma_shutdown_received s"
    "mt_triggers (ma_table (bucket_issue r row s)) = mt_triggers (ma_table s)"
    "table_counts (ma_table (bucket_issue r row s)) = table_counts (ma_table s)"
    "table_inv (ma_table s) \<Longrightarrow> table_inv (ma_table (bucket_issue r row s))"
proof -
  have dom: "dom ((mt_in_flight (ma_table s))(ev_uuid r \<mapsto> x)) = dom (mt_in_flight (ma_table s))" for x
    using assms by (auto simp: get_row_def)
  let ?s = "bucket_issue r row s"
  show "ma_registry ?s = ma_registry s" "ma_total_duration_ns ?s = ma_total_duration_ns s"
    "ma_shutdown_received ?s = ma_shutdown_received s" "mt_triggers (ma_table ?s) = mt_triggers (ma_table s)"
    by (simp_all add: bucket_issue_def Let_def split: option.split prod.split)
  show "table_counts (ma_table ?s) = table_counts (ma_table s)"
    by (simp add: bucket_issue_def Let_def table_counts_def total_completed_tracked_samples_def dom
          del: dom_fun_upd split: option.split prod.split)
  have "row_ok mt row \<Longrightarrow> row_ok (mt\<lparr>mt_in_flight := f\<rparr>) (row\<lparr>superpass_index := i\<rparr>)" for mt f i
    by (simp add: row_ok_def)
  then show "table_inv (ma_table s) \<Longrightarrow> table_inv (ma_table ?s)"
    using assms by (auto simp: bucket_issue_def Let_def table_inv_def get_row_def row_ok_def split: option.split prod.split)
qed

lemma collector_frame [simp]:
  "ctr (s\<lparr>ma_collector := c\<rparr>) = ctr s" "names_ok (s\<lparr>ma_collector := c\<rparr>) = names_ok s"
  "agg_inv (s\<lparr>ma_collector := c\<rparr>) = agg_inv s"
  by (simp_all add: ctr_def fun_eq_iff names_ok_def agg_inv_def in_flight_rows_def finish_counters_def)

lemma table_set_chain:
  assumes "names_ok s"
  obtains s' where "table_set enc f r s = Inr s'" "names_ok s'"
    "ma_table s' = set_field enc (ev_uuid r) f (ev_timestamp r) r (ma_table s)"
    "ma_total_duration_ns s' = ma_total_duration_ns s" "ma_shutdown_received s' = ma_shutdown_received s" "ctr s' = ctr s"
  using table_set_spec [OF assms, of enc f r] that by (auto simp: counts_only_def)

lemma on_issued_ok:
  assumes "agg_inv s" "ev_type r = SampleEv ISSUED"
  shows "goes_to 1 s (on_issued enc r s)"
proof -
  note i = agg_invD [OF assms(1)]
  obtain s1 where s1: "table_set enc ISSUED_NS r s = Inr s1" "names_ok s1"
    "ma_table s1 = set_field enc (ev_uuid r) ISSUED_NS (ev_timestamp r) r (ma_table s)"
    "ma_total_duration_ns s1 = ma_total_duration_ns s" "ma_shutdown_received s1 = ma_shutdown_received s" "ctr s1 = ctr s"
    using table_set_chain [OF i(1)] by metis
  obtain s2 where s2: "inc TOTAL_SAMPLES_ISSUED s1 = Inr s2" "names_ok s2" "ma_table s2 = ma_table s1"
    "ma_total_duration_ns s2 = ma_total_duration_ns s1" "ma_shutdown_received s2 = ma_shutdown_received s1"
    "\<And>j. ctr s2 j = ctr s1 j + (if j = TOTAL_SAMPLES_ISSUED then 1 else 0)" using inc_chain [OF s1(2)] by metis
  have inv: "table_inv (ma_table s1)" using table_inv_set_field [OF i(2)] assms(2) s1(3) by simp
  have counts: "table_counts (ma_table s1) = table_counts (ma_table s)
    \<or> get_row (ma_table s1) (ev_uuid r) \<noteq> None \<and> fst (table_counts (ma_table s1)) \<le> fst (table_counts (ma_table s)) + 1
      \<and> snd (table_counts (ma_table s1)) = snd (table_counts (ma_table s))"
    using set_field_issued_counts [OF i(2) assms(2)] s1(3) by (simp add: table_counts_def get_row_def)
  show ?thesis
  proof (cases "get_row (ma_table s2) (ev_uuid r)")
    case None
    have "agg_inv s2" using i s1 s2 inv counts None by (intro agg_invI) (simp_all add: finish_counters_def)
    then show ?thesis using s1 s2 None by (simp add: on_issued_def goes_to_def)
  next
    case (Some row)
    obtain s3 where s3: "inc TRACKED_SAMPLES_ISSUED s2 = Inr s3" "names_ok s3" "ma_table s3 = ma_table s2"
      "ma_total_duration_ns s3 = ma_total_duration_ns s2" "ma_shutdown_received s3 = ma_shutdown_received s2"
      "\<And>j. ctr s3 j = ctr s2 j + (if j = TRACKED_SAMPLES_ISSUED then 1 else 0)" using inc_chain [OF s2(2)] by metis
    have "int (fst (table_counts (ma_table s1))) \<le> int (fst (table_counts (ma_table s))) + 1"
      "snd (table_counts (ma_table s1)) = snd (table_counts (ma_table s))" using counts by auto
    then have inv3: "agg_inv s3" using i s1 s2 s3 inv by (intro agg_invI) (simp_all add: finish_counters_def)
    have row: "get_row (ma_table s3) (ev_uuid r) = Some row" using Some s3 by simp
    note b = bucket_issue_frame [OF row]
    have "names_ok (bucket_issue r row s3)" using agg_invD(1) [OF inv3] b by (simp add: names_ok_def)
    moreover have c: "ctr (bucket_issue r row s3) = ctr s3" using b(1) by (simp add: ctr_def fun_eq_iff)
    ultimately have "agg_inv (bucket_issue r row s3)"
      using b(2,5,6) agg_invD(2) [OF inv3] by (intro agg_inv_same [OF inv3]) simp_all
    then show ?thesis using s1 s2 s3 Some b c by (simp add: on_issued_def goes_to_def)
  qed
qed

lemma table_progress_ok:
  assumes "agg_inv s" "ev_type r \<noteq> SampleEv ISSUED" "ev_type r \<noteq> SampleEv COMPLETE" "f \<noteq> ISSUED_NS"
  obtains s' where "table_set enc f r s = Inr s'" "agg_inv s'" "ctr s' = ctr s" "ma_shutdown_received s' = ma_shutdown_received s"
proof -
  note i = agg_invD [OF assms(1)]
  obtain s1 where s1: "table_set enc f r s = Inr s1" "names_ok s1"
    "ma_table s1 = set_field enc (ev_uuid r) f (ev_timestamp r) r (ma_table s)"
    "ma_total_duration_ns s1 = ma_total_duration_ns s" "ma_shutdown_received s1 = ma_shutdown_received s" "ctr s1 = ctr s"
    using table_set_chain [OF i(1)] by metis
  have "table_inv (ma_table s1)" using table_inv_set_field [OF i(2)] assms(2,4) s1(3) by simp
  then have "agg_inv s1"
    using s1 set_field_progress_counts [OF assms(2,3)] by (intro agg_inv_same [OF assms(1)]) simp_all
  then show thesis using s1 that by blast
qed

lemma on_first_chunk_ok:
  assumes "agg_inv s" "ev_type r = SampleEv RECV_FIRST"
  shows "goes_to 0 s (on_first_chunk enc r s)"
proof -
  obtain s1 where s1: "table_set enc RECV_FIRST_NS r s = Inr s1" "agg_inv s1" "ctr s1 = ctr s"
    "ma_shutdown_received s1 = ma_shutdown_received s" using table_progress_ok [OF assms(1), of r RECV_FIRST_NS enc] assms(2) by auto
  obtain s2 where s2: "table_set enc LAST_RECV_NS r s1 = Inr s2" "agg_inv s2" "ctr s2 = ctr s1"
    "ma_shutdown_received s2 = ma_shutdown_received s1" using table_progress_ok [OF s1(2), of r LAST_RECV_NS enc] assms(2) by auto
  show ?thesis using s1 s2 by (simp add: on_first_chunk_def Let_def goes_to_def split: option.split)
qed

lemma finish_reason_in: "finish_reason_counter reason \<in> set finish_counters"
  by (simp add: finish_reason_counter_def finish_counters_def)

lemma on_completed_ok:
  assumes "agg_inv s" "ev_type r = SampleEv COMPLETE"
  shows "goes_to 0 s (on_completed enc r s)"
proof -
  note i = agg_invD [OF assms(1)]
  let ?row0 = "get_row (ma_table s) (ev_uuid r)"
  obtain s1 where s1: "table_set enc COMPLETE_NS r s = Inr s1" "names_ok s1"
    "ma_table s1 = set_field enc (ev_uuid r) COMPLETE_NS (ev_timestamp r) r (ma_table s)"
    "ma_total_duration_ns s1 = ma_total_duration_ns s" "ma_shutdown_received s1 = ma_shutdown_received s" "ctr s1 = ctr s"
    using table_set_chain [OF i(1)] by metis
  have inv: "table_inv (ma_table s1)" using table_inv_set_field [OF i(2)] assms(2) s1(3) by simp
  note cc = completion_counts_once [OF i(2) assms(2), of "ev_uuid r" enc "ev_timestamp r", folded s1(3)]
  have gone: "table_counts (ma_table s1) = table_counts (ma_table s)" if "?row0 = None"
    using cc that by (simp add: get_row_def)
  have counted: "int (fst (table_counts (ma_table s1))) = int (fst (table_counts (ma_table s))) - 1"
    "snd (table_counts (ma_table s1)) = snd (table_counts (ma_table s)) + 1" if "?row0 \<noteq> None"
  proof -
    from that obtain row where row: "mt_in_flight (ma_table s) (ev_uuid r) = Some row" by (auto simp: get_row_def)
    have fin: "finite (dom (mt_in_flight (ma_table s)))" and mem: "ev_uuid r \<in> dom (mt_in_flight (ma_table s))"
      using i(2) row by (auto simp: table_inv_alt)
    have "card (dom (mt_in_flight (ma_table s))) \<ge> 1" using fin mem by (metis One_nat_def Suc_leI card_gt_0_iff empty_iff)
    then show "int (fst (table_counts (ma_table s1))) = int (fst (table_counts (ma_table s))) - 1"
      "snd (table_counts (ma_table s1)) = snd (table_counts (ma_table s)) + 1"
      using cc row fin mem by (simp_all add: table_counts_def)
  qed
  define t where "t = (case (ma_collector s1, ?row0) of
        (Some c, Some row) \<Rightarrow> (case issued_ns row of
            Some issued \<Rightarrow> (if superpass_index row \<ge> 0
               then s1\<lparr>ma_collector := Some (snd (on_complete (nat (superpass_index row)) issued (recv_first_ns row) (ev_timestamp r) c))\<rparr>
               else s1)
          | None \<Rightarrow> s1)
      | _ \<Rightarrow> s1)"
  have t: "names_ok t" "ma_table t = ma_table s1" "ma_total_duration_ns t = ma_total_duration_ns s"
    "ma_shutdown_received t = ma_shutdown_received s" "ctr t = ctr s"
    using s1 by (simp_all add: t_def split: option.split)
  have mid: "on_completed enc r s = and_then (inc TOTAL_SAMPLES_COMPLETED t) (\<lambda>s.
      if ?row0 = None then Inr s
      else and_then (inc TRACKED_SAMPLES_COMPLETED s) (\<lambda>s.
        case ev_finish_reason r of None \<Rightarrow> Inr s | Some reason \<Rightarrow> inc (finish_reason_counter reason) s))"
    unfolding on_completed_def Let_def s1(1) and_then_simps t_def [symmetric] ..
  obtain s2 where s2: "inc TOTAL_SAMPLES_COMPLETED t = Inr s2" "names_ok s2" "ma_table s2 = ma_table t"
    "ma_total_duration_ns s2 = ma_total_duration_ns t" "ma_shutdown_received s2 = ma_shutdown_received t"
    "\<And>j. ctr s2 j = ctr t j + (if j = TOTAL_SAMPLES_COMPLETED then 1 else 0)" using inc_chain [OF t(1)] by metis
  show ?thesis
  proof (cases "?row0 = None")
    case True
    have "agg_inv s2" using i t s2 inv gone [OF True] by (intro agg_invI) (simp_all add: finish_counters_def)
    then show ?thesis using mid True s2 t by (simp add: goes_to_def)
  next
    case False
    obtain s3 where s3: "inc TRACKED_SAMPLES_COMPLETED s2 = Inr s3" "names_ok s3" "ma_table s3 = ma_table s2"
      "ma_total_duration_ns s3 = ma_total_duration_ns s2" "ma_shutdown_received s3 = ma_shutdown_received s2"
      "\<And>j. ctr s3 j = ctr s2 j + (if j = TRACKED_SAMPLES_COMPLETED then 1 else 0)" using inc_chain [OF s2(2)] by metis
    have sum3: "sum_list (map (ctr s3) finish_counters) + 1 \<le> ctr s3 TRACKED_SAMPLES_COMPLETED"
      using i(8) t(5) s2(6) s3(6) by (simp add: finish_counters_def)
    have inv3: "agg_inv s3" using i t s2 s3 inv counted [OF False] sum3 by (intro agg_invI) simp_all
    show ?thesis
    proof (cases "ev_finish_reason r")
      case None
      then show ?thesis using mid False s2 s3 t inv3 by (simp add: goes_to_def)
    next
      case (Some reason)
      obtain s4 where s4: "inc (finish_reason_counter reason) s3 = Inr s4" "names_ok s4" "ma_table s4 = ma_table s3"
        "ma_total_duration_ns s4 = ma_total_duration_ns s3" "ma_shutdown_received s4 = ma_shutdown_received s3"
        "\<And>j. ctr s4 j = ctr s3 j + (if j = finish_reason_counter reason then 1 else 0)" using inc_chain [OF s3(2)] by metis
      have same: "ctr s4 k = ctr s3 k" if "k \<notin> set finish_counters" for k
        using s4(6) finish_reason_in that by (metis add.right_neutral)
      have "ctr s4 k = ctr s3 k" if "k \<in> {TRACKED_SAMPLES_COMPLETED, TRACKED_SAMPLES_ISSUED, TOTAL_SAMPLES_ISSUED,
          TOTAL_SAMPLES_COMPLETED, TRACKED_SAMPLES_FAILED, TOTAL_SAMPLES_FAILED, TOTAL_DURATION_NS}" for k
        using that by (intro same) (auto simp: finish_counters_def)
      moreover have "sum_list (map (ctr s4) finish_counters) \<le> sum_list (map (ctr s3) finish_counters) + 1"
        by (simp add: finish_counters_def s4(6))
      ultimately have "agg_inv s4" using agg_invD [OF inv3] sum3 s4 by (intro agg_invI) simp_all
      moreover have "ctr s4 TOTAL_SAMPLES_ISSUED = ctr s3 TOTAL_SAMPLES_ISSUED"
        by (rule same) (simp add: finish_counters_def)
      ultimately show ?thesis using mid False s2 s3 t s4 Some by (simp add: goes_to_def)
    qed
  qed
qed

lemma on_sample_event_ok:
  assumes "agg_inv s" "ev_type r = SampleEv ev"
  shows "goes_to (if ev = ISSUED \<and> ev_uuid r \<noteq> [] then 1 else 0) s (on_sample_event enc ev r s)"
proof (cases ev)
  case RECV_NON_FIRST
  obtain s1 where "table_set enc LAST_RECV_NS r s = Inr s1" "agg_inv s1" "ctr s1 = ctr s"
    "ma_shutdown_received s1 = ma_shutdown_received s"
    using table_progress_ok [OF assms(1), of r LAST_RECV_NS enc] assms(2) RECV_NON_FIRST by auto
  then show ?thesis using assms(1) by (simp add: on_sample_event_def goes_to_def RECV_NON_FIRST)
qed (use assms on_issued_ok on_first_chunk_ok on_completed_ok in \<open>auto simp: on_sample_event_def goes_to_def\<close>)

section \<open>The loop\<close>

definition is_issued_record :: "event_record \<Rightarrow> bool" where
  "is_issued_record r = (ev_type r = SampleEv ISSUED)"

lemma process_record_ok:
  assumes "agg_inv s"
  shows "\<exists>s'. process_record enc r s = Inr s' \<and> agg_inv s'
    \<and> ctr s' TOTAL_SAMPLES_ISSUED = ctr s TOTAL_SAMPLES_ISSUED + (if is_issued_record r \<and> ev_uuid r \<noteq> [] then 1 else 0)
    \<and> (ma_shutdown_received s' \<longleftrightarrow> ma_shutdown_received s \<or> ev_type r = SessionEv ENDED)"
proof -
  obtain s1 where s1: "update_duration (ev_timestamp r) s = Inr s1" "agg_inv s1"
    "ctr s1 TOTAL_SAMPLES_ISSUED = ctr s TOTAL_SAMPLES_ISSUED" "ma_shutdown_received s1 = ma_shutdown_received s"
    using update_duration_ok [OF assms, of "ev_timestamp r"] by (auto simp: goes_to_def)
  show ?thesis
  proof (cases "ev_type r")
    case (SessionEv ev)
    then show ?thesis using on_session_event_ok [OF s1(2), of ev r] s1 by (simp add: process_record_def is_issued_record_def)
  next
    case (ErrorEv e)
    then show ?thesis using on_error_event_ok [OF s1(2), of r] s1
      by (simp add: process_record_def is_issued_record_def goes_to_def)
  next
    case (SampleEv ev)
    then show ?thesis using on_sample_event_ok [OF s1(2) SampleEv, of enc] s1
      by (auto simp: process_record_def is_issued_record_def goes_to_def)
  qed
qed

text \<open>What the loop routes: the records up to and including the first ENDED.\<close>

fun routed :: "event_record list \<Rightarrow> event_record list" where
  "routed [] = []"
| "routed (r # rs) = (if ev_type r = SessionEv ENDED then [r] else r # routed rs)"

lemma process_records_ok:
  assumes "agg_inv s" "\<not> ma_shutdown_received s"
  shows "\<exists>s'. process_records enc rs s = Inr s' \<and> agg_inv s'
    \<and> ctr s' TOTAL_SAMPLES_ISSUED = ctr s TOTAL_SAMPLES_ISSUED
        + int (count_if (\<lambda>r. is_issued_record r \<and> ev_uuid r \<noteq> []) (routed rs))"
  using assms
proof (induction rs arbitrary: s)
  case (Cons r rs)
  obtain s1 where s1: "process_record enc r s = Inr s1" "agg_inv s1"
    "ctr s1 TOTAL_SAMPLES_ISSUED = ctr s TOTAL_SAMPLES_ISSUED + (if is_issued_record r \<and> ev_uuid r \<noteq> [] then 1 else 0)"
    "ma_shutdown_received s1 \<longleftrightarrow> ev_type r = SessionEv ENDED"
    using process_record_ok [OF Cons.prems(1), of enc r] Cons.prems(2) by auto
  show ?case
  proof (cases "ev_type r = SessionEv ENDED")
    case True
    then have "process_records enc rs s1 = Inr s1" using s1(4) by (cases rs) simp_all
    then show ?thesis using s1 Cons.prems(2) True by (simp add: is_issued_record_def)
  next
    case False
    from Cons.IH [OF s1(2)] s1(4) False show ?thesis using s1(1,3) Cons.prems(2) by auto
  qed
qed simp

section \<open>A fresh aggregator\<close>

lemma registered_counters:
  "\<exists>r. register_counters all_counters (registry_init es) = Inr r \<and> rg_series r = [] \<and> rg_seen r = counter_name ` set all_counters
    \<and> dict_wf (rg_counters r) \<and> (\<forall>k. map_of (rg_counters r) (counter_name k) = Some 0)"
proof -
  have "\<forall>k. k \<in> set all_counters" by (auto simp: all_counters_def intro: counter_key.exhaust)
  have gen: "\<exists>r'. register_counters ks r = Inr r' \<and> rg_series r' = rg_series r \<and> rg_seen r' = rg_seen r \<union> counter_name ` set ks
      \<and> dict_wf (rg_counters r') \<and> (\<forall>k. map_of (rg_counters r') (counter_name k) = (if k \<in> set ks then Some 0 else map_of (rg_counters r) (counter_name k)))"
    if "distinct ks" "counter_name ` set ks \<inter> rg_seen r = {}" "dict_wf (rg_counters r)" for ks r
    using that
  proof (induction ks arbitrary: r)
    case (Cons k ks)
    define r1 where "r1 = r\<lparr>rg_counters := AList.update (counter_name k) 0 (rg_counters r), rg_seen := insert (counter_name k) (rg_seen r)\<rparr>"
    have reg: "register_counter (counter_name k) r = Inr r1" using Cons.prems(2) by (simp add: register_counter_def r1_def)
    have "distinct ks" "counter_name ` set ks \<inter> rg_seen r1 = {}" "dict_wf (rg_counters r1)"
      using Cons.prems by (auto simp: r1_def)
    from Cons.IH [OF this] reg show ?case by (fastforce simp: r1_def)
  qed simp
  have d: "distinct all_counters" by (simp add: all_counters_def)
  show ?thesis using gen [OF d, of "registry_init es"] \<open>\<forall>k. k \<in> set all_counters\<close> by (simp add: registry_init_def)
qed

lemma register_series_fresh:
  assumes "name \<notin> rg_seen r" "0 < lo" "lo * 2 \<le> hi"
  obtains r' where "register_series name lo hi n DEFAULT_PERCENTILES d es r = Inr r'" "rg_counters r' = rg_counters r"
    "rg_seen r' = insert name (rg_seen r)" "\<And>k. map_of (rg_series r') k \<noteq> None \<longleftrightarrow> k = name \<or> map_of (rg_series r) k \<noteq> None"
proof -
  have "50 \<in> snd ` set DEFAULT_PERCENTILES" by (simp add: DEFAULT_PERCENTILES_def)
  then show thesis using assms that by (auto simp: register_series_def series_init_def Let_def)
qed

definition trigger_keys :: "bool \<Rightarrow> bool \<Rightarrow> series_key set" where
  "trigger_keys streaming enable_isl = {SAMPLE_LATENCY_NS, OSL} \<union> (if enable_isl then {ISL} else {})
     \<union> (if streaming then {TTFT_NS, CHUNK_DELTA_NS, TPOT_NS} else {})"

lemma registered_triggers:
  "tr \<in> set (mt_triggers (register_triggers streaming enable_isl c (metrics_table_init q)) f)
     \<Longrightarrow> trigger_key tr \<in> trigger_keys streaming enable_isl"
  by (cases f) (auto simp: register_triggers_def add_trigger_def metrics_table_init_def trigger_keys_def Let_def split: if_splits)

lemma series_name_inj [simp]: "series_name a = series_name b \<longleftrightarrow> a = b"
  by (cases a; cases b) simp_all

lemma names_disjoint [simp]: "series_name k \<noteq> counter_name j" "counter_name j \<noteq> series_name k"
  by (cases k; cases j; simp)+

text \<open>Every series a trigger may record is registered, whatever the run needs.\<close>

lemma register_metrics_ok:
  obtains r where "register_metrics streaming enable_isl n (registry_init es) = Inr r"
    "\<forall>k. map_of (rg_counters r) (counter_name k) = Some 0" "dict_wf (rg_counters r)"
    "\<forall>k\<in>trigger_keys streaming enable_isl. map_of (rg_series r) (series_name k) \<noteq> None"
proof -
  obtain r0 where r0: "register_counters all_counters (registry_init es) = Inr r0" "rg_seen r0 = counter_name ` set all_counters"
    "\<forall>k. map_of (rg_counters r0) (counter_name k) = Some 0" "dict_wf (rg_counters r0)"
    using registered_counters [of es] by blast
  have b: "(0 :: int) < NS_HDR_LOW" "NS_HDR_LOW * 2 \<le> NS_HDR_HIGH" "(0 :: int) < TOKEN_HDR_LOW" "TOKEN_HDR_LOW * 2 \<le> TOKEN_HDR_HIGH"
    by (simp_all add: NS_HDR_LOW_def NS_HDR_HIGH_def TOKEN_HDR_LOW_def TOKEN_HDR_HIGH_def)
  note ns = register_series_fresh [OF _ b(1,2)] and tok = register_series_fresh [OF _ b(3,4)]
  have names: "series_name k \<notin> counter_name ` K" for k K by auto
  obtain r1 where r1: "register_series (series_name SAMPLE_LATENCY_NS) NS_HDR_LOW NS_HDR_HIGH n DEFAULT_PERCENTILES IntSeries True r0 = Inr r1"
    "rg_counters r1 = rg_counters r0" "rg_seen r1 = insert (series_name SAMPLE_LATENCY_NS) (rg_seen r0)"
    "\<And>k. map_of (rg_series r1) k \<noteq> None \<longleftrightarrow> k = series_name SAMPLE_LATENCY_NS \<or> map_of (rg_series r0) k \<noteq> None"
    using ns [of "series_name SAMPLE_LATENCY_NS" r0 n IntSeries True] names r0(2) by metis
  obtain r2 where r2: "(if enable_isl then register_series (series_name ISL) TOKEN_HDR_LOW TOKEN_HDR_HIGH n DEFAULT_PERCENTILES IntSeries False r1 else Inr r1) = Inr r2"
    "rg_counters r2 = rg_counters r1" "rg_seen r2 = (if enable_isl then {series_name ISL} else {}) \<union> rg_seen r1"
    "\<And>k. map_of (rg_series r2) k \<noteq> None \<longleftrightarrow> enable_isl \<and> k = series_name ISL \<or> map_of (rg_series r1) k \<noteq> None"
  proof (cases enable_isl)
    case True
    have "series_name ISL \<notin> rg_seen r1" using names r0(2) r1(3) by (simp del: series_name.simps)
    from tok [OF this, of n IntSeries False] obtain r' where
      "register_series (series_name ISL) TOKEN_HDR_LOW TOKEN_HDR_HIGH n DEFAULT_PERCENTILES IntSeries False r1 = Inr r'"
      "rg_counters r' = rg_counters r1" "rg_seen r' = insert (series_name ISL) (rg_seen r1)"
      "\<And>k. map_of (rg_series r') k \<noteq> None \<longleftrightarrow> k = series_name ISL \<or> map_of (rg_series r1) k \<noteq> None" by metis
    then show thesis by (intro that [of r']) (simp_all add: True del: series_name.simps)
  qed simp
  have "series_name OSL \<notin> rg_seen r2" using names r0(2) r1(3) r2(3) by (simp del: series_name.simps)
  from tok [OF this, of n IntSeries False] obtain r3 where
    r3: "register_series (series_name OSL) TOKEN_HDR_LOW TOKEN_HDR_HIGH n DEFAULT_PERCENTILES IntSeries False r2 = Inr r3"
    "rg_counters r3 = rg_counters r2" "rg_seen r3 = insert (series_name OSL) (rg_seen r2)"
    "\<And>k. map_of (rg_series r3) k \<noteq> None \<longleftrightarrow> k = series_name OSL \<or> map_of (rg_series r2) k \<noteq> None" by metis
  show thesis
  proof (cases streaming)
    case False
    have "register_metrics streaming enable_isl n (registry_init es) = Inr r3"
      using False r0(1) r1(1) r2(1) r3(1) by (simp add: register_metrics_def Let_def)
    then show thesis by (rule that) (use False r0(3,4) r1(2,4) r2(2,4) r3(2,4) in \<open>auto simp: trigger_keys_def\<close>)
  next
    case True
    have "series_name TTFT_NS \<notin> rg_seen r3" using names r0(2) r1(3) r2(3) r3(3) by (simp del: series_name.simps)
    from ns [OF this, of n IntSeries True] obtain r4 where
      r4: "register_series (series_name TTFT_NS) NS_HDR_LOW NS_HDR_HIGH n DEFAULT_PERCENTILES IntSeries True r3 = Inr r4"
      "rg_counters r4 = rg_counters r3" "rg_seen r4 = insert (series_name TTFT_NS) (rg_seen r3)"
      "\<And>k. map_of (rg_series r4) k \<noteq> None \<longleftrightarrow> k = series_name TTFT_NS \<or> map_of (rg_series r3) k \<noteq> None" by metis
    have "series_name CHUNK_DELTA_NS \<notin> rg_seen r4" using names r0(2) r1(3) r2(3) r3(3) r4(3) by (simp del: series_name.simps)
    from ns [OF this, of n IntSeries False] obtain r5 where
      r5: "register_series (series_name CHUNK_DELTA_NS) NS_HDR_LOW NS_HDR_HIGH n DEFAULT_PERCENTILES IntSeries False r4 = Inr r5"
      "rg_counters r5 = rg_counters r4" "rg_seen r5 = insert (series_name CHUNK_DELTA_NS) (rg_seen r4)"
      "\<And>k. map_of (rg_series r5) k \<noteq> None \<longleftrightarrow> k = series_name CHUNK_DELTA_NS \<or> map_of (rg_series r4) k \<noteq> None" by metis
    have "series_name TPOT_NS \<notin> rg_seen r5" using names r0(2) r1(3) r2(3) r3(3) r4(3) r5(3) by (simp del: series_name.simps)
    from ns [OF this, of n FloatSeries True] obtain r6 where
      r6: "register_series (series_name TPOT_NS) NS_HDR_LOW NS_HDR_HIGH n DEFAULT_PERCENTILES FloatSeries True r5 = Inr r6"
      "rg_counters r6 = rg_counters r5" "\<And>k. map_of (rg_series r6) k \<noteq> None \<longleftrightarrow> k = series_name TPOT_NS \<or> map_of (rg_series r5) k \<noteq> None" by metis
    have "register_metrics streaming enable_isl n (registry_init es) = Inr r6"
      using True r0(1) r1(1) r2(1) r3(1) r4(1) r5(1) r6(1) by (simp add: register_metrics_def Let_def)
    then show thesis
      by (rule that) (use True r0(3,4) r1(2,4) r2(2,4) r3(2,4) r4(2,4) r5(2,4) r6(2,3) in \<open>auto simp: trigger_keys_def\<close>)
  qed
qed

lemma fresh_aggregator:
  obtains s where "aggregator_init streaming enable_isl q live coll n (registry_init es) = Inr s" "agg_inv s"
    "\<not> ma_shutdown_received s" "\<And>k. ctr s k = 0"
proof -
  obtain r where r: "register_metrics streaming enable_isl n (registry_init es) = Inr r"
    "\<forall>k. map_of (rg_counters r) (counter_name k) = Some 0" "dict_wf (rg_counters r)"
    "\<forall>k\<in>trigger_keys streaming enable_isl. map_of (rg_series r) (series_name k) \<noteq> None" using register_metrics_ok by metis
  define s where "s = \<lparr>ma_registry = r,
         ma_table = register_triggers streaming enable_isl coll (metrics_table_init q),
         ma_queue = (if q then Some token_queue_init else None),
         ma_collector = (if coll then Some (collector_init 0) else None),
         ma_live_flush = live, ma_session_start_ns = None, ma_total_duration_ns = 0,
         ma_state = INITIALIZE, ma_publisher_started = False, ma_shutdown_received = False,
         ma_interrupted = False\<rparr>"
  have init: "aggregator_init streaming enable_isl q live coll n (registry_init es) = Inr s"
    using r(1) by (simp add: aggregator_init_def s_def)
  have c: "ctr s k = 0" for k using r(2) by (simp add: ctr_def s_def)
  have n: "names_ok s" using r(2,3,4) registered_triggers by (simp add: names_ok_def s_def)
  have tbl: "mt_in_flight (ma_table s) = Map.empty" "mt_tracked_blocks (ma_table s) = []" "\<not> mt_is_tracking (ma_table s)"
    "mt_loadgen_window_start_ns (ma_table s) = None"
    by (simp_all add: s_def register_triggers_def add_trigger_def metrics_table_init_def Let_def)
  have "agg_inv s"
    by (rule agg_invI) (simp_all add: n c tbl table_inv_alt blocks_ok_def table_counts_def total_completed_tracked_samples_def
        finish_counters_def s_def [THEN arg_cong [where f = ma_total_duration_ns]])
  then show thesis using that init c by (simp add: s_def)
qed

end
