(* ===== verification/AggregatorRuns.thy ===== *)
theory AggregatorRuns
  imports AggregatorFacts
begin

text \<open>
  Whole runs of the aggregator: batches of records interleaved with steps of its token queue, and the
  records a phase issuer published arriving at the aggregator.
\<close>

section \<open>Batches and queue steps\<close>

datatype agg_event = Arrive "event_record list" | TokenStep queue_event

fun agg_run :: "(merged_calls \<Rightarrow> string) \<Rightarrow> agg_event list \<Rightarrow> aggregator \<Rightarrow> aggregator result" where
  "agg_run enc [] s = Inr s"
| "agg_run enc (Arrive rs # es) s = and_then (process_records enc rs s) (agg_run enc es)"
| "agg_run enc (TokenStep q # es) s = agg_run enc es (on_queue_event q s)"

text \<open>A queue step records into series and super-passes only.\<close>

lemma same_names_and_counters:
  assumes "agg_inv s" "rg_counters (ma_registry s') = rg_counters (ma_registry s)" "ma_table s' = ma_table s"
    "\<And>k. map_of (rg_series (ma_registry s)) k \<noteq> None \<Longrightarrow> map_of (rg_series (ma_registry s')) k \<noteq> None"
    "ma_total_duration_ns s' = ma_total_duration_ns s"
  shows "agg_inv s'" "ctr s' = ctr s"
proof -
  show c: "ctr s' = ctr s" using assms(2) by (simp add: ctr_def fun_eq_iff)
  have "names_ok s'" using agg_invD(1) [OF assms(1)] assms(2-4) unfolding names_ok_def by auto
  then show "agg_inv s'" using agg_invD(2) [OF assms(1)] assms(3,5) c by (intro agg_inv_same [OF assms(1)]) simp_all
qed

lemma settle_count_frame:
  assumes "settle_count s x = s'"
  shows "rg_counters (ma_registry s') = rg_counters (ma_registry s) \<and> ma_table s' = ma_table s
    \<and> (\<forall>k. map_of (rg_series (ma_registry s)) k \<noteq> None \<longrightarrow> map_of (rg_series (ma_registry s')) k \<noteq> None)
    \<and> ma_total_duration_ns s' = ma_total_duration_ns s \<and> ma_shutdown_received s' = ma_shutdown_received s"
proof -
  obtain item rec count where x: "x = ((item, rec), count)" by (metis surj_pair)
  obtain o1 sp where rr: "run_recorder rec count = (o1, sp)" by (metis surj_pair)
  show ?thesis
  proof (cases o1)
    case None
    then show ?thesis using assms rr by (simp add: settle_count_def x)
  next
    case (Some kv)
    obtain key v where kv: "kv = (key, v)" by (metis surj_pair)
    show ?thesis
    proof (cases "registry_record (series_name key) v (ma_registry s)")
      case (Inl e)
      then show ?thesis using assms rr Some by (simp add: settle_count_def x kv)
    next
      case (Inr r)
      then have "rg_counters r = rg_counters (ma_registry s)"
        "\<And>k. map_of (rg_series (ma_registry s)) k \<noteq> None \<Longrightarrow> map_of (rg_series r) k \<noteq> None"
        by (auto simp: registry_record_def split: option.splits)
      then show ?thesis using assms rr Some Inr by (auto simp: settle_count_def x kv)
    qed
  qed
qed

lemma settle_counts_frame:
  "rg_counters (ma_registry (foldl settle_count s xs)) = rg_counters (ma_registry s) \<and> ma_table (foldl settle_count s xs) = ma_table s
    \<and> (\<forall>k. map_of (rg_series (ma_registry s)) k \<noteq> None \<longrightarrow> map_of (rg_series (ma_registry (foldl settle_count s xs))) k \<noteq> None)
    \<and> ma_total_duration_ns (foldl settle_count s xs) = ma_total_duration_ns s
    \<and> ma_shutdown_received (foldl settle_count s xs) = ma_shutdown_received s"
proof (induction xs arbitrary: s)
  case (Cons x xs)
  show ?case using Cons.IH [of "settle_count s x"] settle_count_frame [of s x, OF refl] by simp
qed simp

lemma on_queue_event_ok:
  assumes "agg_inv s"
  shows "agg_inv (on_queue_event e s)" "ctr (on_queue_event e s) = ctr s"
    "ma_shutdown_received (on_queue_event e s) = ma_shutdown_received s"
proof -
  have "\<exists>q xs. on_queue_event e s = s \<or> on_queue_event e s = foldl settle_count (s\<lparr>ma_queue := q\<rparr>) xs"
    by (auto simp: on_queue_event_def Let_def split: option.split)
  then obtain q xs where x: "on_queue_event e s = s \<or> on_queue_event e s = foldl settle_count (s\<lparr>ma_queue := q\<rparr>) xs" by blast
  note f = settle_counts_frame [of "s\<lparr>ma_queue := q\<rparr>" xs, simplified]
  show "agg_inv (on_queue_event e s)"
    using x assms f same_names_and_counters(1) [OF assms, of "foldl settle_count (s\<lparr>ma_queue := q\<rparr>) xs"] by auto
  show "ctr (on_queue_event e s) = ctr s"
    using x assms f same_names_and_counters(2) [OF assms, of "foldl settle_count (s\<lparr>ma_queue := q\<rparr>) xs"] by auto
  show "ma_shutdown_received (on_queue_event e s) = ma_shutdown_received s" using x f by auto
qed

lemma process_records_shut: "ma_shutdown_received s \<Longrightarrow> process_records enc rs s = Inr s"
  by (cases rs) simp_all

lemma agg_run_ok: "agg_inv s \<Longrightarrow> \<exists>s'. agg_run enc es s = Inr s' \<and> agg_inv s'"
proof (induction es arbitrary: s)
  case (Cons e es)
  show ?case
  proof (cases e)
    case (Arrive rs)
    obtain s1 where "process_records enc rs s = Inr s1" "agg_inv s1"
      using process_records_ok [OF Cons.prems, of enc rs] process_records_shut [of s enc rs] Cons.prems by blast
    then show ?thesis using Cons.IH by (simp add: Arrive)
  next
    case (TokenStep q)
    then show ?thesis using Cons.IH [OF on_queue_event_ok(1) [OF Cons.prems]] by simp
  qed
qed simp

section \<open>What the issuer publishes\<close>

fun published :: "effect list \<Rightarrow> event_record list" where
  "published [] = []"
| "published (Publish r # es) = r # published es"
| "published (_ # es) = published es"

lemma published_append [simp]: "published (xs @ ys) = published xs @ published ys"
  by (induction xs rule: published.induct) simp_all

lemma published_warns: "list_all is_warn ws \<Longrightarrow> published ws = []"
  by (induction ws rule: published.induct) simp_all

text \<open>No record of the issuer ends the session, and every sample it announces has an id.\<close>

definition routable :: "event_record \<Rightarrow> bool" where
  "routable r = (ev_type r \<noteq> SessionEv ENDED \<and> (is_issued_record r \<longrightarrow> ev_uuid r \<noteq> []))"

definition log_ok :: "phase_issuer \<times> world \<Rightarrow> bool" where
  "log_ok = (\<lambda>(p, w). (\<forall>n. uuids w n \<noteq> []) \<and> list_all routable (published (wlog w)))"

lemma log_ok_issue:
  assumes "log_ok (p, w)" "issue stop i ov cid turn p w = (r, cb, p', w')"
  shows "log_ok (p', w')"
  using issue_cases [OF assms(2)]
proof (elim disjE conjE)
  assume "p' = p" "w' = w"
  then show ?thesis using assms(1) by simp
next
  assume "issue_failed p w r cb p' w'"
  then show ?thesis using assms(1) by (auto simp: issue_failed_def log_ok_def published_warns)
next
  assume "issue_sent i cid turn p w r cb p' w'"
  then show ?thesis using assms(1)
    by (auto simp: issue_sent_def Let_def log_ok_def published_warns routable_def is_issued_record_def)
qed

lemma log_ok_step:
  assumes "log_ok (p, w)"
  shows "log_ok (issuer_step (p, w) c)"
proof (cases c)
  case (CallIssue stop i ov cid turn)
  obtain r cb p' w' where "issue stop i ov cid turn p w = (r, cb, p', w')" by (metis surj_pair)
  with log_ok_issue [OF assms this] show ?thesis by (simp add: CallIssue)
qed (use assms in \<open>auto simp: log_ok_def register_skipped_def mark_inflight_complete_def stop_performance_tracking_def
      monotonic_ns_def new_uuid_def Let_def routable_def is_issued_record_def\<close>)

lemma log_ok_run: "log_ok (p, w) \<Longrightarrow> log_ok (foldl issuer_step (p, w) cs)"
  by (rule foldl_invariant) (auto intro: log_ok_step)

lemma routed_all: "list_all routable rs \<Longrightarrow> routed rs = rs"
  by (induction rs) (simp_all add: routable_def)

lemma issued_records_of_log:
  "list_all routable (published es) \<Longrightarrow>
     count_if (\<lambda>r. is_issued_record r \<and> ev_uuid r \<noteq> []) (published es) = count_if is_issued es"
  by (induction es rule: published.induct) (auto simp: routable_def is_issued_record_def)

section \<open>Properties\<close>

text \<open>C13. The service never raises on what it routes, whatever records arrive in whatever order and
  however they interleave with its token queue, and its counters never contradict each other: a
  fresh aggregator processes everything, no more samples are tracked than counted, a tracked sample is
  completed or still in flight at most once, the tracked completions are those of the table's blocks, and
  the finish reasons never add up to more than the tracked completions.\<close>

theorem aggregator_never_contradicts_itself:
  "\<exists>s s'. aggregator_init streaming enable_isl q live coll n (registry_init es) = Inr s
     \<and> agg_run enc evs s = Inr s'
     \<and> ctr s' TRACKED_SAMPLES_COMPLETED + int (card (dom (mt_in_flight (ma_table s')))) \<le> ctr s' TRACKED_SAMPLES_ISSUED
     \<and> ctr s' TRACKED_SAMPLES_ISSUED \<le> ctr s' TOTAL_SAMPLES_ISSUED
     \<and> ctr s' TRACKED_SAMPLES_COMPLETED \<le> ctr s' TOTAL_SAMPLES_COMPLETED
     \<and> ctr s' TRACKED_SAMPLES_FAILED \<le> ctr s' TOTAL_SAMPLES_FAILED
     \<and> ctr s' TRACKED_SAMPLES_COMPLETED = total_completed_tracked_samples (ma_table s')
     \<and> sum_list (map (ctr s') finish_counters) \<le> ctr s' TRACKED_SAMPLES_COMPLETED
     \<and> ctr s' TOTAL_DURATION_NS = ma_total_duration_ns s'"
proof -
  obtain s where s: "aggregator_init streaming enable_isl q live coll n (registry_init es) = Inr s" "agg_inv s"
    using fresh_aggregator by metis
  obtain s' where "agg_run enc evs s = Inr s'" "agg_inv s'" using agg_run_ok [OF s(2)] by blast
  then show ?thesis using s(1) by (auto simp: agg_inv_def in_flight_rows_def)
qed

text \<open>The report's count of issued samples is the issuer's: when a fresh aggregator processes the
  records a phase issuer published, in whatever way a strategy drove it, its total of issued samples is
  the number the issuer counted, skipped turns included.\<close>

theorem aggregator_counts_what_was_issued:
  assumes "wlog w = []" "\<forall>n. uuids w n \<noteq> []"
    and "foldl issuer_step (phase_issuer_init ds cb hs, w) cs = (p, w')"
    and "aggregator_init streaming enable_isl q live coll n (registry_init es) = Inr s"
  shows "\<exists>s'. process_records enc (published (wlog w')) s = Inr s' \<and> ctr s' TOTAL_SAMPLES_ISSUED = issued_count p"
proof -
  have issuer: "issued_count p = int (count_if is_issued (wlog w'))"
    using issuer_inv_run [OF issuer_inv_init [OF assms(1), of ds cb hs], of cs] by (simp add: assms(3) issuer_inv_def)
  have "log_ok (p, w')" using log_ok_run [of "phase_issuer_init ds cb hs" w cs] assms(1-3) by (simp add: log_ok_def)
  then have routable: "list_all routable (published (wlog w'))" by (simp add: log_ok_def)
  obtain s1 where "aggregator_init streaming enable_isl q live coll n (registry_init es) = Inr s1" "agg_inv s1"
    "\<not> ma_shutdown_received s1" "ctr s1 TOTAL_SAMPLES_ISSUED = 0" using fresh_aggregator by metis
  then have "agg_inv s" "\<not> ma_shutdown_received s" "ctr s TOTAL_SAMPLES_ISSUED = 0" using assms(4) by simp_all
  from process_records_ok [OF this(1,2), of enc "published (wlog w')"] this(3) issuer show ?thesis
    by (auto simp: routed_all [OF routable] issued_records_of_log [OF routable])
qed

theorem aggregator_counts_what_was_issued_witness:
  "\<exists>p w' s s'. foldl issuer_step (phase_issuer_init example_dataset True [], example_world\<lparr>uuids := \<lambda>i. ''u''\<rparr>)
        [CallIssue False 0 None [] None, CallSkip False 0 [] None, CallComplete, CallStopTracking] = (p, w')
     \<and> aggregator_init True True True True False 30 (registry_init None) = Inr s
     \<and> process_records (\<lambda>_. []) (published (wlog w')) s = Inr s' \<and> ctr s' TOTAL_SAMPLES_ISSUED = issued_count p"
proof -
  let ?w = "example_world\<lparr>uuids := \<lambda>i. ''u''\<rparr>"
  let ?cs = "[CallIssue False 0 None [] None, CallSkip False 0 [] None, CallComplete, CallStopTracking]"
  obtain p w' where run: "foldl issuer_step (phase_issuer_init example_dataset True [], ?w) ?cs = (p, w')" by (metis surj_pair)
  obtain s where s: "aggregator_init True True True True False 30 (registry_init None) = Inr s" using fresh_aggregator by metis
  have "wlog ?w = []" "\<forall>n. uuids ?w n \<noteq> []" by (simp_all add: example_world_def)
  from aggregator_counts_what_was_issued [OF this run s, of "\<lambda>_. []"] run s show ?thesis by blast
qed

end
