(* ===== verification/EventPipeline.thy ===== *)
theory EventPipeline
  imports PubSubFacts AggregatorRuns
begin

text \<open>
  The event pipeline end to end: what a session publishes crosses the publisher, the wire and the
  subscriber, and is processed by the metrics aggregator in the batches the subscriber schedules.
\<close>

section \<open>Draining on close\<close>

fun is_close :: "'a link_event \<Rightarrow> bool" where
  "is_close (ClosePub _ _) = True"
| "is_close CloseSub = True"
| "is_close _ = False"

text \<open>Both ends are open, and a publisher without a loop has nothing pending.\<close>

definition link_open :: "'a link \<Rightarrow> bool" where
  "link_open l = (\<not> pb_closed (lk_pub l) \<and> \<not> sb_closed (lk_sub l) \<and> (\<not> pb_has_loop (lk_pub l) \<longrightarrow> pb_pending (lk_pub l) = []))"

definition loop_ok :: "publisher \<Rightarrow> bool" where
  "loop_ok s = (\<not> pb_has_loop s \<longrightarrow> pb_pending s = [])"

lemma send_frame_loop:
  assumes "send_frame f r s = (res, s')"
  shows "pb_has_loop s' = pb_has_loop s" "loop_ok s \<Longrightarrow> loop_ok s'" "pb_closed s' = pb_closed s"
    "loop_ok s \<Longrightarrow> r = Accepted \<Longrightarrow> is_ok res"
  using assms by (auto simp: send_frame_def queue_frame_def loop_ok_def split: if_splits socket_reply.splits)

lemma flush_batch_loop:
  assumes "flush_batch benc r s = (res, s')"
  shows "pb_has_loop s' = pb_has_loop s" "loop_ok s \<Longrightarrow> loop_ok s'" "pb_closed s' = pb_closed s"
    "loop_ok s \<Longrightarrow> r = Accepted \<Longrightarrow> is_ok res \<and> pb_batch s' = []"
proof -
  let ?f = "batch_frame benc (pb_last_topic s) (pb_batch s)"
  obtain res1 s1 where s1: "send_frame ?f r (s\<lparr>pb_batch := []\<rparr>) = (res1, s1)" by (metis surj_pair)
  note f = send_frame_loop [OF s1] send_frame_spec(2) [OF s1]
  have upd: "loop_ok (t\<lparr>pb_batch := b\<rparr>) = loop_ok t" for t b by (simp add: loop_ok_def)
  have eq: "(res, s') = (case res1 of Inl e \<Rightarrow> (Inl e, s1\<lparr>pb_batch := pb_batch s\<rparr>) | Inr u \<Rightarrow> (Inr u, s1))"
    using assms s1 by (simp add: flush_batch_def Let_def split: sum.splits)
  show "pb_has_loop s' = pb_has_loop s" "loop_ok s \<Longrightarrow> loop_ok s'" "pb_closed s' = pb_closed s"
    "loop_ok s \<Longrightarrow> r = Accepted \<Longrightarrow> is_ok res \<and> pb_batch s' = []"
    using eq f upd by (cases res1; simp)+
qed

lemma read_all_closed: "read_all bdec codec s = (xs, e, s') \<Longrightarrow> sb_closed s' = sb_closed s"
proof (induction bdec codec s arbitrary: xs e s' rule: read_all.induct)
  case (1 bdec codec s)
  obtain x s1 where r: "receive bdec s = (x, s1)" by (metis surj_pair)
  show ?case using "1.prems" "1.IH" [OF r [symmetric]] receive_spec(4) [OF r] r
    by (subst (asm) read_all.simps) (auto split: received.splits sum.splits option.splits prod.splits)
qed

lemma link_open_step:
  assumes "link_open l" "\<not> is_close e"
  shows "link_open (link_step benc bdec codec l e)"
proof -
  have o: "\<not> pb_closed (lk_pub l)" "loop_ok (lk_pub l)" "\<not> sb_closed (lk_sub l)" using assms(1) by (auto simp: link_open_def loop_ok_def)
  have goal: "link_open (l\<lparr>lk_pub := p\<rparr>)" if "\<not> pb_closed p" "loop_ok p" for p using that o(3) by (auto simp: link_open_def loop_ok_def)
  show ?thesis
  proof (cases e)
    case (PutItem x r)
    define s1 where "s1 = (lk_pub l)\<lparr>pb_last_topic := fst (mc_encode codec x), pb_batch := pb_batch (lk_pub l) @ [snd (mc_encode codec x)]\<rparr>"
    obtain res s2 where fb: "flush_batch benc r s1 = (res, s2)" by (metis surj_pair)
    have "loop_ok s1" "\<not> pb_closed s1" using o by (simp_all add: s1_def loop_ok_def)
    then have "loop_ok (snd (publish benc codec x r (lk_pub l)))" "\<not> pb_closed (snd (publish benc codec x r (lk_pub l)))"
      using o fb flush_batch_loop [OF fb] by (simp_all add: publish_def send_def Let_def flip: s1_def)
    then show ?thesis using o(3) by (simp add: PutItem link_open_def loop_ok_def)
  next
    case (FlushNow r)
    obtain res s2 where fb: "flush_batch benc r (lk_pub l) = (res, s2)" by (metis surj_pair)
    show ?thesis using goal o flush_batch_loop [OF fb] fb by (simp add: FlushNow flush_def)
  next
    case (Writable rs)
    obtain st lf ok where d: "drain_frames rs 0 (pb_pending (lk_pub l)) = (st, lf, ok)" by (metis prod_cases3)
    have "pb_pending (lk_pub l) = [] \<longrightarrow> lf = []" using drain_frames_spec [OF d] by auto
    then show ?thesis
      using o d by (auto simp: Writable link_open_def loop_ok_def on_writable_def drain_pending_def stop_writer_def split: if_splits)
  next
    case Readable
    obtain xs exc s' where ra: "read_all bdec codec (lk_sub l) = (xs, exc, s')" by (metis prod_cases3)
    show ?thesis using read_all_closed [OF ra] ra assms(1) by (simp add: Readable link_open_def on_readable_def)
  qed (use assms in \<open>auto simp: link_open_def\<close>)
qed

lemma link_open_run:
  assumes "\<forall>e\<in>set es. \<not> is_close e"
  shows "link_open (foldl (link_step benc bdec codec) (link_init threshold has_loop) es)"
proof (rule foldl_invariant)
  show "link_open (link_init threshold has_loop)" by (simp add: link_open_def link_init_def publisher_init_def subscriber_init_def)
qed (use link_open_step assms in blast)

lemma drain_accepted: "drain_frames (\<lambda>_. Accepted) i fs = (fs, [], True)"
  by (induction fs arbitrary: i) simp_all

lemma close_accepted:
  assumes "link_open l" "close_publisher benc Accepted (\<lambda>_. Accepted) (lk_pub l) = (res, s')"
  shows "pb_batch s' = []" "pb_pending s' = []"
proof -
  have o: "\<not> pb_closed (lk_pub l)" "loop_ok (lk_pub l)" using assms(1) by (auto simp: link_open_def loop_ok_def)
  obtain res1 s1 where c1: "(if pb_batch (lk_pub l) \<noteq> [] then flush_batch benc Accepted (lk_pub l) else (Inr (), lk_pub l)) = (res1, s1)"
    by (metis surj_pair)
  have s1: "pb_batch s1 = []" "loop_ok s1" "is_ok res1"
    using c1 flush_batch_loop [of benc Accepted "lk_pub l" res1 s1] o by (auto split: if_splits)
  then obtain u where "res1 = Inr u" by (auto simp: is_ok_iff)
  then have "s' \<in> {s1\<lparr>pb_closed := True\<rparr>} \<and> pb_pending s1 = [] \<or> pb_batch s' = pb_batch s1 \<and> pb_pending s' = []"
    using assms(2) o(1) s1(2) unfolding close_publisher_def c1 Let_def
    by (auto simp: stop_writer_def drain_pending_def drain_accepted loop_ok_def split: if_splits)
  then show "pb_batch s' = []" "pb_pending s' = []" using s1(1) by auto
qed

section \<open>From records to counters\<close>

text \<open>The batches the subscriber schedules run in order, each to its end: the aggregator sees the
  concatenation of the batches.\<close>

lemma process_records_append:
  "process_records enc (xs @ ys) s = and_then (process_records enc xs s) (process_records enc ys)"
proof (induction xs arbitrary: s)
  case (Cons x xs)
  show ?case
  proof (cases "ma_shutdown_received s")
    case True
    then show ?thesis using process_records_shut by simp
  next
    case False
    then show ?thesis using Cons.IH by (cases "process_record enc x s") simp_all
  qed
qed simp

lemma agg_run_batches: "agg_run enc (map Arrive bs) s = process_records enc (concat bs) s"
proof (induction bs arbitrary: s)
  case (Cons b bs)
  show ?case using Cons.IH by (cases "process_records enc b s") (simp_all add: process_records_append)
qed simp

lemma count_if_le: "count_if P xs \<le> count_if P (xs @ ys)"
  by (simp add: count_if_def)

text \<open>What has arrived is counted; what is under way is not counted yet.\<close>

lemma arrived_counts:
  assumes log: "log_ok (p, w')" and inv: "issuer_inv (p, w')" and split: "published (wlog w') = rs @ q"
    and s: "agg_inv s" "\<not> ma_shutdown_received s" "ctr s TOTAL_SAMPLES_ISSUED = 0"
  shows "\<exists>s'. process_records enc rs s = Inr s' \<and> ctr s' TOTAL_SAMPLES_ISSUED \<le> issued_count p
    \<and> (q = [] \<longrightarrow> ctr s' TOTAL_SAMPLES_ISSUED = issued_count p)"
proof -
  let ?P = "\<lambda>r. is_issued_record r \<and> ev_uuid r \<noteq> []"
  have routable: "list_all routable (published (wlog w'))" using log by (simp add: log_ok_def)
  have count: "issued_count p = int (count_if ?P (rs @ q))"
    using inv issued_records_of_log [OF routable] by (simp add: issuer_inv_def split)
  have "routed rs = rs" using routable by (intro routed_all) (simp add: split)
  then obtain s' where "process_records enc rs s = Inr s'" "ctr s' TOTAL_SAMPLES_ISSUED = int (count_if ?P rs)"
    using process_records_ok [OF s(1,2), of enc rs] s(3) by auto
  then show ?thesis using count by auto
qed

section \<open>A codec for examples\<close>

text \<open>A record is its position in a list, a batch is its payloads, each ended by a zero byte.\<close>

definition example_encode :: "event_record list \<Rightarrow> event_record \<Rightarrow> string" where
  "example_encode rs r = replicate (Suc (length (takeWhile (\<lambda>x. x \<noteq> r) rs))) (CHR ''x'')"

definition example_codec :: "event_record list \<Rightarrow> event_record message_codec" where
  "example_codec rs = event_record_codec (example_encode rs) (\<lambda>p. Inr (rs ! (length p - 1))) (\<lambda>_. []) (\<lambda>_. 0)"

definition example_benc :: "string list \<Rightarrow> string" where
  "example_benc ps = concat (map (\<lambda>p. p @ [CHR 0x00]) ps)"

fun cut_zeros :: "string \<Rightarrow> string \<Rightarrow> string list" where
  "cut_zeros acc [] = []"
| "cut_zeros acc (c # cs) = (if c = CHR 0x00 then acc # cut_zeros [] cs else cut_zeros (acc @ [c]) cs)"

definition example_bdec :: "string \<Rightarrow> string list option" where
  "example_bdec b = Some (cut_zeros [] b)"

lemma cut_zeros_payload: "CHR 0x00 \<notin> set p \<Longrightarrow> cut_zeros acc (p @ CHR 0x00 # rest) = (acc @ p) # cut_zeros [] rest"
  by (induction p arbitrary: acc) auto

lemma example_batch: "\<forall>p\<in>set ps. CHR 0x00 \<notin> set p \<Longrightarrow> example_bdec (example_benc ps) = Some ps"
proof (induction ps)
  case (Cons p ps)
  then show ?case by (simp add: example_bdec_def example_benc_def cut_zeros_payload)
qed (simp add: example_bdec_def example_benc_def)

lemma example_codec_ok: "codec_ok example_benc example_bdec (example_codec rs) (set rs)"
proof -
  have pay: "payload (example_codec rs) r = replicate (Suc (length (takeWhile (\<lambda>x. x \<noteq> r) rs))) (CHR ''x'')" for r
    by (simp add: payload_def example_codec_def event_record_codec_def example_encode_def)
  have dec: "mc_decode (example_codec rs) (payload (example_codec rs) r) = Inr r" if "r \<in> set rs" for r
  proof -
    have "length (takeWhile (\<lambda>x. x \<noteq> r) rs) < length rs"
      using that by (induction rs) auto
    from nth_length_takeWhile [OF this] show ?thesis by (simp add: pay) (simp add: example_codec_def event_record_codec_def)
  qed
  have "\<forall>ps. set ps \<subseteq> payload (example_codec rs) ` set rs \<longrightarrow> example_bdec (example_benc ps) = Some ps"
  proof (intro allI impI)
    fix ps assume "set ps \<subseteq> payload (example_codec rs) ` set rs"
    then have "\<forall>p\<in>set ps. CHR 0x00 \<notin> set p" using pay by force
    then show "example_bdec (example_benc ps) = Some ps" by (rule example_batch)
  qed
  moreover have "fst (mc_encode (example_codec rs) r) = topic_bytes_padded (ev_type r)" for r
    by (simp add: example_codec_def event_record_codec_def)
  ultimately show ?thesis
    using dec pay by (simp add: codec_ok_def topic_padded_length topic_padded_not_batch)
qed

section \<open>Properties\<close>

text \<open>C14. The event channel is a first-in first-out queue: whatever the sockets answer, whenever batches
  are flushed and however callbacks interleave, the items the subscriber handed on, followed by the items
  whose payloads are still under way, are exactly the published items in their order; nothing is
  lost, duplicated or reordered, also when a send fails and the buffer is restored.\<close>

theorem event_channel_refines_fifo:
  assumes "codec_ok benc bdec codec P" "\<forall>e\<in>set es. event_ok P e"
    and "l = foldl (link_step benc bdec codec) (link_init threshold has_loop) es"
  shows "\<exists>q. lk_published l = delivered l @ q \<and> transit_payloads bdec l = map (payload codec) q"
  using link_inv_run [OF assms(1,2), of threshold has_loop] by (simp add: link_inv_def assms(3))

definition example_records :: "event_record list" where
  "example_records = [mk_event (SessionEv STARTED) 5, mk_sample_event (SampleEv ISSUED) 7 ''u'' [] None NoData]"

text \<open>Two records published into a full socket, one frame of both, and a reader that runs before it arrives.\<close>

theorem event_channel_refines_fifo_witness:
  "\<exists>q. example_records = delivered (foldl (link_step example_benc example_bdec (example_codec example_records)) (link_init 2 True)
       [PutItem (example_records ! 0) WouldBlock, PutItem (example_records ! 1) WouldBlock, Readable, Writable (\<lambda>_. Accepted)]) @ q
     \<and> transit_payloads example_bdec (foldl (link_step example_benc example_bdec (example_codec example_records)) (link_init 2 True)
       [PutItem (example_records ! 0) WouldBlock, PutItem (example_records ! 1) WouldBlock, Readable, Writable (\<lambda>_. Accepted)])
       = map (payload (example_codec example_records)) q"
proof -
  let ?es = "[PutItem (example_records ! 0) WouldBlock, PutItem (example_records ! 1) WouldBlock, Readable, Writable (\<lambda>_. Accepted)]"
  let ?l = "foldl (link_step example_benc example_bdec (example_codec example_records)) (link_init 2 True) ?es"
  have "\<forall>e\<in>set ?es. event_ok (set example_records) e" by (simp add: example_records_def)
  from event_channel_refines_fifo [OF example_codec_ok this refl, of 2 True]
  obtain q where q: "lk_published ?l = delivered ?l @ q \<and> transit_payloads example_bdec ?l = map (payload (example_codec example_records)) q"
    ..
  have "length example_records = 2" by (simp add: example_records_def)
  then have recs: "[example_records ! 0, example_records ! 1] = example_records" by (simp add: example_records_def)
  have pub: "\<not> pb_closed (lk_pub (link_init 2 True))" by (simp add: link_init_def publisher_init_def)
  have keep: "pb_closed (snd (flush_batch b r s)) = pb_closed s" for b r s
    using flush_batch_loop(3) [of b r s] by (cases "flush_batch b r s") simp
  have "lk_published ?l = example_records" using pub keep recs by (simp add: link_init_def publish_def send_def Let_def)
  with q show ?thesis by metis
qed

text \<open>C15. Closing an open publisher over a socket that accepts its frames delivers everything: when the wire
  has carried what it was given and the subscriber's reader runs once, every published item was handed on.\<close>

theorem closing_delivers_everything:
  assumes "codec_ok benc bdec codec P" "\<forall>e\<in>set es. event_ok P e \<and> \<not> is_close e"
    and "l1 = foldl (link_step benc bdec codec) (link_init threshold has_loop) (es @ [ClosePub Accepted (\<lambda>_. Accepted)])"
    and "l = foldl (link_step benc bdec codec) l1 [Transmit (length (pb_wire (lk_pub l1))), Readable]"
  shows "delivered l = lk_published l"
proof -
  define l0 where "l0 = foldl (link_step benc bdec codec) (link_init threshold has_loop) es"
  have op: "link_open l0" unfolding l0_def by (rule link_open_run) (use assms(2) in blast)
  obtain res s' where c: "close_publisher benc Accepted (\<lambda>_. Accepted) (lk_pub l0) = (res, s')" by (metis surj_pair)
  have l1: "lk_pub l1 = s'" "lk_sub l1 = lk_sub l0" using c by (simp_all add: assms(3) flip: l0_def)
  define l2 where "l2 = link_step benc bdec codec l1 (Transmit (length (pb_wire (lk_pub l1))))"
  have "pub_payloads bdec (lk_pub l2) = []"
    using close_accepted [OF op c] by (simp add: l2_def l1 pub_payloads_def queued_payloads_def)
  moreover have l: "l = link_step benc bdec codec l2 Readable" by (simp add: assms(4) l2_def)
  ultimately have pub: "pub_payloads bdec (lk_pub l) = []" by simp
  let ?es = "es @ [ClosePub Accepted (\<lambda>_. Accepted), Transmit (length (pb_wire (lk_pub l1)))]"
  have ok: "\<forall>e\<in>set ?es. event_ok P e" using assms(2) by auto
  have "l2 = foldl (link_step benc bdec codec) (link_init threshold has_loop) ?es" by (simp add: l2_def assms(3))
  with link_inv_run [OF assms(1) ok] have inv2: "link_inv bdec codec P l2" by simp
  then obtain q where q: "lk_published l2 = delivered l2 @ q" "transit_payloads bdec l2 = map (payload codec) q" "set (lk_published l2) \<subseteq> P"
    by (auto simp: link_inv_def)
  have "sub_payloads bdec (lk_sub l2) = map (payload codec) q" "set q \<subseteq> P"
    using q \<open>pub_payloads bdec (lk_pub l2) = []\<close> by (auto simp: transit_payloads_def)
  moreover have "\<not> sb_closed (lk_sub l2)" using op by (simp add: l2_def l1 link_open_def)
  ultimately have "delivered l = delivered l2 @ q" using on_readable_spec(1) [OF assms(1)] by (simp add: l delivered_def)
  then show ?thesis using q(1) by (simp add: l)
qed

theorem closing_delivers_everything_witness:
  "\<exists>l1. l1 = foldl (link_step example_benc example_bdec (example_codec example_records)) (link_init 1000 False)
       ([PutItem (example_records ! 0) Accepted, PutItem (example_records ! 1) Accepted] @ [ClosePub Accepted (\<lambda>_. Accepted)])
     \<and> (let l = foldl (link_step example_benc example_bdec (example_codec example_records)) l1
          [Transmit (length (pb_wire (lk_pub l1))), Readable] in delivered l = lk_published l)"
proof -
  let ?es = "[PutItem (example_records ! 0) Accepted, PutItem (example_records ! 1) Accepted]"
  have "\<forall>e\<in>set ?es. event_ok (set example_records) e \<and> \<not> is_close e" by (simp add: example_records_def)
  from closing_delivers_everything [OF example_codec_ok this refl refl, of 1000 False] show ?thesis by (simp add: Let_def)
qed

text \<open>C16. Counts survive the wire: when the records a phase issuer published travel through the event channel
  to a fresh aggregator, the aggregator's total of issued samples never exceeds what the issuer counted,
  and equals it once nothing is under way, however the records were batched and the callbacks interleaved.\<close>

theorem counts_survive_the_wire:
  assumes "wlog w = []" "\<forall>n. uuids w n \<noteq> []"
    and "foldl issuer_step (phase_issuer_init ds cb hs, w) cs = (p, w')"
    and "aggregator_init streaming enable_isl tok live coll n (registry_init es_spec) = Inr s"
    and "codec_ok benc bdec codec (set (published (wlog w')))" "\<forall>e\<in>set es. event_ok (set (published (wlog w'))) e"
    and "l = foldl (link_step benc bdec codec) (link_init threshold has_loop) es" "lk_published l = published (wlog w')"
  shows "\<exists>s'. agg_run enc (map Arrive (sb_tasks (lk_sub l))) s = Inr s' \<and> ctr s' TOTAL_SAMPLES_ISSUED \<le> issued_count p
    \<and> (transit_payloads bdec l = [] \<longrightarrow> ctr s' TOTAL_SAMPLES_ISSUED = issued_count p)"
proof -
  have log: "log_ok (p, w')" using log_ok_run [of "phase_issuer_init ds cb hs" w cs] assms(1-3) by (simp add: log_ok_def)
  have inv: "issuer_inv (p, w')" using issuer_inv_run [OF issuer_inv_init [OF assms(1), of ds cb hs], of cs] by (simp add: assms(3))
  obtain s1 where "aggregator_init streaming enable_isl tok live coll n (registry_init es_spec) = Inr s1" "agg_inv s1"
    "\<not> ma_shutdown_received s1" "ctr s1 TOTAL_SAMPLES_ISSUED = 0" using fresh_aggregator by metis
  then have s: "agg_inv s" "\<not> ma_shutdown_received s" "ctr s TOTAL_SAMPLES_ISSUED = 0" using assms(4) by simp_all
  obtain q where q: "published (wlog w') = delivered l @ q" "transit_payloads bdec l = map (payload codec) q"
    using link_inv_run [OF assms(5,6), of threshold has_loop] assms(7,8) by (auto simp: link_inv_def)
  from arrived_counts [OF log inv q(1) s, of enc] q(2) show ?thesis
    by (auto simp: agg_run_batches delivered_def)
qed

lemma put_all:
  "\<not> pb_closed (lk_pub l) \<Longrightarrow>
     lk_published (foldl (link_step benc bdec codec) l (map (\<lambda>x. PutItem x r) xs)) = lk_published l @ xs"
proof (induction xs arbitrary: l)
  case (Cons x xs)
  have "pb_closed (snd (flush_batch b r s)) = pb_closed s" for b s
    using flush_batch_loop(3) [of b r s] by (cases "flush_batch b r s") simp
  then have "\<not> pb_closed (lk_pub (link_step benc bdec codec l (PutItem x r)))"
    using Cons.prems by (simp add: publish_def send_def Let_def)
  from Cons.IH [OF this] show ?case using Cons.prems by simp
qed simp

theorem counts_survive_the_wire_witness:
  "\<exists>p w' s (l :: event_record link) s'. foldl issuer_step (phase_issuer_init example_dataset True [], example_world\<lparr>uuids := \<lambda>i. ''u''\<rparr>)
        [CallIssue False 0 None [] None, CallSkip False 0 [] None, CallComplete, CallStopTracking] = (p, w')
     \<and> aggregator_init True True True True False 30 (registry_init None) = Inr s
     \<and> lk_published l = published (wlog w')
     \<and> agg_run (\<lambda>_. []) (map Arrive (sb_tasks (lk_sub l))) s = Inr s' \<and> ctr s' TOTAL_SAMPLES_ISSUED \<le> issued_count p"
proof -
  let ?w = "example_world\<lparr>uuids := \<lambda>i. ''u''\<rparr>"
  let ?cs = "[CallIssue False 0 None [] None, CallSkip False 0 [] None, CallComplete, CallStopTracking]"
  obtain p w' where run: "foldl issuer_step (phase_issuer_init example_dataset True [], ?w) ?cs = (p, w')" by (metis surj_pair)
  obtain s where s: "aggregator_init True True True True False 30 (registry_init None) = Inr s" using fresh_aggregator by metis
  let ?rs = "published (wlog w')"
  let ?es = "map (\<lambda>r. PutItem r WouldBlock) ?rs @ [FlushNow Accepted, Writable (\<lambda>_. Accepted), Transmit 1, Readable]"
  define l where "l = foldl (link_step example_benc example_bdec (example_codec ?rs)) (link_init 2 True) ?es"
  have ok: "\<forall>e\<in>set ?es. event_ok (set ?rs) e" by auto
  have pub: "lk_published l = ?rs"
    by (simp add: l_def put_all) (simp add: link_init_def publisher_init_def put_all)
  have "wlog ?w = []" "\<forall>n. uuids ?w n \<noteq> []" by (simp_all add: example_world_def)
  from counts_survive_the_wire [OF this run s example_codec_ok ok l_def pub, of "\<lambda>_. []"]
  obtain s' where "agg_run (\<lambda>_. []) (map Arrive (sb_tasks (lk_sub l))) s = Inr s'" "ctr s' TOTAL_SAMPLES_ISSUED \<le> issued_count p"
    by blast
  with run s pub show ?thesis by blast
qed

end
