(* ===== verification/FinalPublish.thy ===== *)
theory FinalPublish
  imports Registry
begin

text \<open>
  \<open>metrics_aggregator/publisher.py\<close>: the tick task, the final snapshot and the two ways of closing, as
  steps of the event loop between its awaits.  The tasks that call \<open>publish_final\<close> (the run's end and
  any number of SIGTERM handlers) and \<open>aclose\<close> are numbered; a task is at one of the awaits of its
  coroutine.  Values the aggregator records between steps arrive by \<open>SetRegistry\<close>.
\<close>

section \<open>State\<close>

datatype tick = TickSleeping | TickCancelled | TickEnded

datatype task_pc =
    NotStarted | WaitLock bool int | AwaitTick nat bool int | Writing metrics_snapshot | FinalDone
  | CloseAwait nat | CloseDone

record metrics_publisher =
  mp_registry :: registry
  mp_ticks :: "tick list"
  mp_tick_task :: "nat option"
  mp_closed :: bool
  mp_finalized :: bool
  mp_lock :: "nat option"
  mp_waiters :: "nat list"
  mp_pc :: "nat \<Rightarrow> task_pc"
  mp_socket_closed :: bool
  mp_frames :: "metrics_snapshot list"
  mp_writes :: nat
  mp_files :: "metrics_snapshot list"

definition metrics_publisher_init :: "registry \<Rightarrow> metrics_publisher" where
  "metrics_publisher_init r =
     \<lparr>mp_registry = r, mp_ticks = [], mp_tick_task = None, mp_closed = False, mp_finalized = False,
      mp_lock = None, mp_waiters = [], mp_pc = (\<lambda>_. NotStarted), mp_socket_closed = False,
      mp_frames = [], mp_writes = 0, mp_files = []\<rparr>"

section \<open>Operations\<close>

definition set_pc :: "nat \<Rightarrow> task_pc \<Rightarrow> metrics_publisher \<Rightarrow> metrics_publisher" where
  "set_pc t pc s = s\<lparr>mp_pc := (mp_pc s)(t := pc)\<rparr>"

text \<open>\<open>self._publisher.publish\<close>: silent once the socket's publisher is closed; an exception is logged.\<close>

definition publish_frame :: "metrics_snapshot \<Rightarrow> bool \<Rightarrow> metrics_publisher \<Rightarrow> metrics_publisher" where
  "publish_frame snap ok s =
     (if mp_socket_closed s \<or> \<not> ok then s else s\<lparr>mp_frames := mp_frames s @ [snap]\<rparr>)"

definition start_ticks :: "rat \<Rightarrow> metrics_publisher \<Rightarrow> unit result \<times> metrics_publisher" where
  "start_ticks interval s =
     (if mp_tick_task s \<noteq> None then (Inr (), s)
      else if interval \<le> 0 then (Inl ValueError, s)
      else (Inr (), s\<lparr>mp_ticks := mp_ticks s @ [TickSleeping], mp_tick_task := Some (length (mp_ticks s))\<rparr>))"

definition fire_tick :: "hdr_view \<Rightarrow> nat \<Rightarrow> snapshot_state \<Rightarrow> int \<Rightarrow> int \<Rightarrow> bool \<Rightarrow> metrics_publisher \<Rightarrow> metrics_publisher" where
  "fire_tick view i state n_pending now ok s =
     (if i < length (mp_ticks s) \<and> mp_ticks s ! i = TickSleeping then
        (let (snap, r) = build_snapshot view state n_pending now (mp_registry s)
         in publish_frame snap ok (s\<lparr>mp_registry := r\<rparr>))
      else s)"

definition cancel_tick :: "nat \<Rightarrow> metrics_publisher \<Rightarrow> metrics_publisher" where
  "cancel_tick i s = s\<lparr>mp_ticks := (mp_ticks s)[i := (if mp_ticks s ! i = TickEnded then TickEnded else TickCancelled)]\<rparr>"

definition end_tick :: "nat \<Rightarrow> metrics_publisher \<Rightarrow> metrics_publisher" where
  "end_tick i s =
     (if i < length (mp_ticks s) \<and> mp_ticks s ! i = TickCancelled
      then s\<lparr>mp_ticks := (mp_ticks s)[i := TickEnded]\<rparr> else s)"

text \<open>\<open>_publish_final_locked\<close> after the tick task has ended: build the snapshot, hand the file to a thread.\<close>

definition begin_write :: "hdr_view \<Rightarrow> nat \<Rightarrow> bool \<Rightarrow> int \<Rightarrow> int \<Rightarrow> metrics_publisher \<Rightarrow> metrics_publisher" where
  "begin_write view t interrupted n_pending now s =
     (let (snap, r) = build_snapshot view (if interrupted then INTERRUPTED_STATE else COMPLETE_STATE) n_pending now (mp_registry s)
      in set_pc t (Writing snap) (s\<lparr>mp_registry := r, mp_tick_task := None\<rparr>))"

definition publish_locked :: "hdr_view \<Rightarrow> nat \<Rightarrow> bool \<Rightarrow> int \<Rightarrow> int \<Rightarrow> metrics_publisher \<Rightarrow> metrics_publisher" where
  "publish_locked view t interrupted n_pending now s =
     (case mp_tick_task s of
        None \<Rightarrow> begin_write view t interrupted n_pending now s
      | Some i \<Rightarrow>
          (let s1 = cancel_tick i s
           in if mp_ticks s1 ! i = TickEnded then begin_write view t interrupted n_pending now s1
              else set_pc t (AwaitTick i interrupted n_pending) s1))"

text \<open>The body under the lock.\<close>

definition enter_lock :: "hdr_view \<Rightarrow> nat \<Rightarrow> bool \<Rightarrow> int \<Rightarrow> int \<Rightarrow> metrics_publisher \<Rightarrow> metrics_publisher" where
  "enter_lock view t interrupted n_pending now s =
     (if mp_finalized s then set_pc t FinalDone (s\<lparr>mp_lock := None\<rparr>)
      else publish_locked view t interrupted n_pending now (s\<lparr>mp_lock := Some t, mp_finalized := True\<rparr>))"

definition publish_final :: "hdr_view \<Rightarrow> nat \<Rightarrow> bool \<Rightarrow> int \<Rightarrow> int \<Rightarrow> metrics_publisher \<Rightarrow> metrics_publisher" where
  "publish_final view t interrupted n_pending now s =
     (if mp_lock s = None \<and> mp_waiters s = [] then enter_lock view t interrupted n_pending now s
      else set_pc t (WaitLock interrupted n_pending) (s\<lparr>mp_waiters := mp_waiters s @ [t]\<rparr>))"

text \<open>The end of the locked body: the write returned (or raised), the frame is sent, the lock released.\<close>

definition end_write :: "nat \<Rightarrow> metrics_snapshot \<Rightarrow> bool \<Rightarrow> bool \<Rightarrow> metrics_publisher \<Rightarrow> metrics_publisher" where
  "end_write t snap written sent s =
     set_pc t FinalDone (publish_frame snap sent
       (s\<lparr>mp_writes := Suc (mp_writes s), mp_files := (if written then mp_files s @ [snap] else mp_files s), mp_lock := None\<rparr>))"

definition aclose :: "nat \<Rightarrow> metrics_publisher \<Rightarrow> metrics_publisher" where
  "aclose t s =
     (if mp_closed s then set_pc t CloseDone s
      else (let s1 = s\<lparr>mp_closed := True\<rparr>
            in case mp_tick_task s1 of
                 None \<Rightarrow> set_pc t CloseDone (s1\<lparr>mp_socket_closed := True\<rparr>)
               | Some i \<Rightarrow>
                   (let s2 = cancel_tick i s1
                    in if mp_ticks s2 ! i = TickEnded
                       then set_pc t CloseDone (s2\<lparr>mp_tick_task := None, mp_socket_closed := True\<rparr>)
                       else set_pc t (CloseAwait i) s2)))"

definition close_now :: "metrics_publisher \<Rightarrow> metrics_publisher" where
  "close_now s =
     (if mp_closed s then s
      else (case mp_tick_task s of
              None \<Rightarrow> s\<lparr>mp_closed := True, mp_socket_closed := True\<rparr>
            | Some i \<Rightarrow> (cancel_tick i s)\<lparr>mp_closed := True, mp_socket_closed := True\<rparr>))"

text \<open>A suspended task runs on when what it awaits is there.\<close>

definition resume :: "hdr_view \<Rightarrow> nat \<Rightarrow> int \<Rightarrow> metrics_publisher \<Rightarrow> metrics_publisher" where
  "resume view t now s =
     (case mp_pc s t of
        WaitLock interrupted n_pending \<Rightarrow>
          (if mp_lock s = None \<and> mp_waiters s \<noteq> [] \<and> hd (mp_waiters s) = t
           then enter_lock view t interrupted n_pending now (s\<lparr>mp_waiters := tl (mp_waiters s)\<rparr>) else s)
      | AwaitTick i interrupted n_pending \<Rightarrow>
          (if mp_ticks s ! i = TickEnded then begin_write view t interrupted n_pending now s else s)
      | CloseAwait i \<Rightarrow>
          (if mp_ticks s ! i = TickEnded
           then set_pc t CloseDone (s\<lparr>mp_tick_task := None, mp_socket_closed := True\<rparr>) else s)
      | _ \<Rightarrow> s)"

section \<open>Steps\<close>

datatype mp_event =
    StartTicks rat
  | TickFires nat snapshot_state int int bool
  | TickEnds nat
  | CallFinal nat bool int int
  | Resume nat int
  | WriteReturns nat bool bool
  | CallAclose nat
  | CloseNow
  | SetRegistry registry

fun mp_step :: "hdr_view \<Rightarrow> metrics_publisher \<Rightarrow> mp_event \<Rightarrow> metrics_publisher" where
  "mp_step view s (StartTicks interval) = snd (start_ticks interval s)"
| "mp_step view s (TickFires i state n now ok) = fire_tick view i state n now ok s"
| "mp_step view s (TickEnds i) = end_tick i s"
| "mp_step view s (CallFinal t interrupted n now) =
     (if mp_pc s t = NotStarted then publish_final view t interrupted n now s else s)"
| "mp_step view s (Resume t now) = resume view t now s"
| "mp_step view s (WriteReturns t written sent) =
     (case mp_pc s t of Writing snap \<Rightarrow> end_write t snap written sent s | _ \<Rightarrow> s)"
| "mp_step view s (CallAclose t) = (if mp_pc s t = NotStarted then aclose t s else s)"
| "mp_step view s CloseNow = close_now s"
| "mp_step view s (SetRegistry r) = s\<lparr>mp_registry := r\<rparr>"

text \<open>A tick carries a live state, recording never touches the snapshot counter, and the tick task is
  not started once finalization has begun.\<close>

definition terminal :: "snapshot_state \<Rightarrow> bool" where
  "terminal st = (st \<in> {COMPLETE_STATE, INTERRUPTED_STATE})"

fun mp_enabled :: "metrics_publisher \<Rightarrow> mp_event \<Rightarrow> bool" where
  "mp_enabled s (StartTicks interval) = (\<not> mp_finalized s)"
| "mp_enabled s (TickFires i state n now ok) = (\<not> terminal state)"
| "mp_enabled s (SetRegistry r) = (rg_counter r = rg_counter (mp_registry s))"
| "mp_enabled s _ = True"

inductive mp_reach :: "hdr_view \<Rightarrow> metrics_publisher \<Rightarrow> bool" for view where
  mp_start: "mp_reach view (metrics_publisher_init r)"
| mp_next: "mp_reach view s \<Longrightarrow> mp_enabled s e \<Longrightarrow> mp_reach view (mp_step view s e)"

section \<open>The invariant\<close>

fun in_body :: "task_pc \<Rightarrow> bool" where
  "in_body (AwaitTick _ _ _) = True"
| "in_body (Writing _) = True"
| "in_body _ = False"

text \<open>Who is inside the locked body, and whether the write has happened.\<close>

definition body_ok :: "metrics_publisher \<Rightarrow> bool" where
  "body_ok s = ((\<forall>t. in_body (mp_pc s t) \<longleftrightarrow> mp_lock s = Some t)
     \<and> (\<forall>t. mp_pc s t = FinalDone \<longrightarrow> mp_writes s = 1)
     \<and> mp_writes s = (if mp_finalized s \<and> mp_lock s = None then 1 else 0)
     \<and> (mp_lock s \<noteq> None \<longrightarrow> mp_finalized s))"

text \<open>Only the task in \<open>_tick_task\<close> can be ticking, and none once finalization has begun.\<close>

definition ticks_ok :: "metrics_publisher \<Rightarrow> bool" where
  "ticks_ok s = ((mp_finalized s \<longrightarrow> TickSleeping \<notin> set (mp_ticks s))
     \<and> (\<forall>i. mp_tick_task s = Some i \<longrightarrow> i < length (mp_ticks s))
     \<and> (\<forall>i < length (mp_ticks s). mp_tick_task s \<noteq> Some i \<longrightarrow> mp_ticks s ! i \<noteq> TickSleeping)
     \<and> (\<forall>t i. mp_pc s t = CloseAwait i \<longrightarrow> mp_closed s \<and> (mp_finalized s \<or> mp_tick_task s = Some i))
     \<and> (\<forall>t t' i i'. mp_pc s t = CloseAwait i \<and> mp_pc s t' = CloseAwait i' \<longrightarrow> t = t'))"

text \<open>The frames sent so far, the final one last, and the snapshot being written.\<close>

definition final_last :: "metrics_snapshot list \<Rightarrow> nat \<Rightarrow> metrics_snapshot list \<Rightarrow> bool" where
  "final_last files writes frames = (length files \<le> writes
     \<and> (\<exists>live final. frames = live @ final \<and> (\<forall>f\<in>set live. \<not> terminal (sn_state f)) \<and> length final \<le> writes
          \<and> (\<forall>f\<in>set final. terminal (sn_state f) \<and> (\<forall>g\<in>set files. g = f))))"

lemma final_last_none: "final_last files 0 frames \<longleftrightarrow> files = [] \<and> (\<forall>f\<in>set frames. \<not> terminal (sn_state f))"
  by (auto simp: final_last_def)

definition frames_ok :: "metrics_publisher \<Rightarrow> bool" where
  "frames_ok s = (final_last (mp_files s) (mp_writes s) (mp_frames s)
     \<and> sorted_wrt (<) (map sn_counter (mp_frames s))
     \<and> (\<forall>f\<in>set (mp_frames s). sn_counter f \<le> rg_counter (mp_registry s))
     \<and> (\<forall>t snap. mp_pc s t = Writing snap \<longrightarrow> terminal (sn_state snap)
          \<and> (\<forall>f\<in>set (mp_frames s). sn_counter f < sn_counter snap) \<and> sn_counter snap \<le> rg_counter (mp_registry s)))"

definition mp_inv :: "metrics_publisher \<Rightarrow> bool" where
  "mp_inv s = (body_ok s \<and> ticks_ok s \<and> frames_ok s)"

lemma mp_inv_init: "mp_inv (metrics_publisher_init r)"
  by (simp add: mp_inv_def body_ok_def ticks_ok_def frames_ok_def final_last_none metrics_publisher_init_def)

lemma ok_frame [simp]:
  "body_ok (s\<lparr>mp_registry := r\<rparr>) = body_ok s" "body_ok (s\<lparr>mp_frames := fs\<rparr>) = body_ok s"
  "body_ok (s\<lparr>mp_waiters := ws\<rparr>) = body_ok s" "body_ok (s\<lparr>mp_ticks := ts\<rparr>) = body_ok s"
  "body_ok (s\<lparr>mp_tick_task := tt\<rparr>) = body_ok s" "body_ok (s\<lparr>mp_closed := c\<rparr>) = body_ok s"
  "body_ok (s\<lparr>mp_socket_closed := c\<rparr>) = body_ok s"
  "ticks_ok (s\<lparr>mp_registry := r\<rparr>) = ticks_ok s" "ticks_ok (s\<lparr>mp_frames := fs\<rparr>) = ticks_ok s"
  "ticks_ok (s\<lparr>mp_waiters := ws\<rparr>) = ticks_ok s" "ticks_ok (s\<lparr>mp_lock := l\<rparr>) = ticks_ok s"
  "ticks_ok (s\<lparr>mp_socket_closed := c\<rparr>) = ticks_ok s" "ticks_ok (s\<lparr>mp_writes := w\<rparr>) = ticks_ok s"
  "ticks_ok (s\<lparr>mp_files := g\<rparr>) = ticks_ok s"
  "frames_ok (s\<lparr>mp_waiters := ws\<rparr>) = frames_ok s" "frames_ok (s\<lparr>mp_ticks := ts\<rparr>) = frames_ok s"
  "frames_ok (s\<lparr>mp_tick_task := tt\<rparr>) = frames_ok s" "frames_ok (s\<lparr>mp_closed := c\<rparr>) = frames_ok s"
  "frames_ok (s\<lparr>mp_socket_closed := c\<rparr>) = frames_ok s" "frames_ok (s\<lparr>mp_lock := l\<rparr>) = frames_ok s"
  "frames_ok (s\<lparr>mp_finalized := z\<rparr>) = frames_ok s"
  by (simp_all add: body_ok_def ticks_ok_def frames_ok_def)

lemma build_snapshot_fields:
  "build_snapshot view st n now r = (snap, r') \<Longrightarrow>
     sn_state snap = st \<and> sn_counter snap = rg_counter r + 1 \<and> rg_counter r' = rg_counter r + 1"
  by (auto simp: build_snapshot_def Let_def)

lemma fire_tick_inv:
  assumes "mp_inv s" "\<not> terminal st"
  shows "mp_inv (fire_tick view i st n now ok s)"
proof (cases "i < length (mp_ticks s) \<and> mp_ticks s ! i = TickSleeping")
  case False
  then have "fire_tick view i st n now ok s = s" unfolding fire_tick_def by (simp only: if_False)
  then show ?thesis using assms by simp
next
  case True
  obtain snap r where b: "build_snapshot view st n now (mp_registry s) = (snap, r)" by (metis surj_pair)
  note bf = build_snapshot_fields [OF b]
  have nf: "\<not> mp_finalized s" using True assms(1) nth_mem [of i "mp_ticks s"] by (auto simp: mp_inv_def ticks_ok_def)
  have w: "mp_writes s = 0" "mp_lock s = None" using assms(1) nf by (auto simp: mp_inv_def body_ok_def split: if_splits)
  have now: "mp_pc s t \<noteq> Writing x" for t x
  proof
    assume "mp_pc s t = Writing x"
    moreover have "in_body (mp_pc s t) \<longleftrightarrow> mp_lock s = Some t" using assms(1) by (simp add: mp_inv_def body_ok_def)
    ultimately show False using w by simp
  qed
  have eq: "fire_tick view i st n now ok s = publish_frame snap ok (s\<lparr>mp_registry := r\<rparr>)" using True b by (simp add: fire_tick_def)
  have f: "frames_ok s" using assms(1) by (simp add: mp_inv_def)
  then have live: "\<forall>f\<in>set (mp_frames s). \<not> terminal (sn_state f)" "mp_files s = []" using w by (auto simp: frames_ok_def final_last_none)
  have "frames_ok (s\<lparr>mp_registry := r\<rparr>)" using f bf now by (force simp: frames_ok_def)
  moreover have "frames_ok (s\<lparr>mp_registry := r, mp_frames := mp_frames s @ [snap]\<rparr>)"
    using f bf now live w assms(2) by (force simp: frames_ok_def sorted_wrt_append final_last_none)
  ultimately show ?thesis using assms(1) by (simp add: eq publish_frame_def mp_inv_def)
qed

lemma set_pc_fields [simp]:
  "mp_registry (set_pc t pc s) = mp_registry s" "mp_ticks (set_pc t pc s) = mp_ticks s"
  "mp_tick_task (set_pc t pc s) = mp_tick_task s" "mp_closed (set_pc t pc s) = mp_closed s"
  "mp_finalized (set_pc t pc s) = mp_finalized s" "mp_lock (set_pc t pc s) = mp_lock s"
  "mp_waiters (set_pc t pc s) = mp_waiters s" "mp_pc (set_pc t pc s) = (mp_pc s)(t := pc)"
  "mp_frames (set_pc t pc s) = mp_frames s" "mp_writes (set_pc t pc s) = mp_writes s" "mp_files (set_pc t pc s) = mp_files s"
  by (simp_all add: set_pc_def)

text \<open>The snapshot counter is above every frame's, and nobody is writing: then a task may begin to write.\<close>

definition ready_to_write :: "nat \<Rightarrow> metrics_publisher \<Rightarrow> bool" where
  "ready_to_write t s = (mp_finalized s \<and> mp_lock s = Some t \<and> mp_writes s = 0 \<and> TickSleeping \<notin> set (mp_ticks s)
     \<and> (\<forall>u. u \<noteq> t \<longrightarrow> \<not> in_body (mp_pc s u)) \<and> (\<forall>u. mp_pc s u \<noteq> FinalDone)
     \<and> (\<forall>u i. mp_pc s u = CloseAwait i \<longrightarrow> mp_closed s \<and> u \<noteq> t)
     \<and> (\<forall>u u' i i'. mp_pc s u = CloseAwait i \<and> mp_pc s u' = CloseAwait i' \<longrightarrow> u = u')
     \<and> (\<forall>i. mp_tick_task s = Some i \<longrightarrow> i < length (mp_ticks s))
     \<and> mp_files s = [] \<and> (\<forall>f\<in>set (mp_frames s). \<not> terminal (sn_state f)) \<and> sorted_wrt (<) (map sn_counter (mp_frames s))
     \<and> (\<forall>f\<in>set (mp_frames s). sn_counter f \<le> rg_counter (mp_registry s)))"

lemma begin_write_inv:
  assumes "ready_to_write t s"
  shows "mp_inv (begin_write view t interrupted n now s)"
proof -
  obtain snap r where b: "build_snapshot view (if interrupted then INTERRUPTED_STATE else COMPLETE_STATE) n now (mp_registry s) = (snap, r)"
    by (metis surj_pair)
  define s' where "s' = begin_write view t interrupted n now s"
  have eq: "s' = set_pc t (Writing snap) (s\<lparr>mp_registry := r, mp_tick_task := None\<rparr>)" by (simp add: s'_def begin_write_def b)
  have snap: "terminal (sn_state snap)" "sn_counter snap = rg_counter (mp_registry s) + 1" "rg_counter r = rg_counter (mp_registry s) + 1"
    using build_snapshot_fields [OF b] by (auto simp: terminal_def)
  note a = assms [unfolded ready_to_write_def]
  have "body_ok s'" using a by (auto simp: body_ok_def eq)
  moreover have "\<forall>i < length (mp_ticks s). mp_ticks s ! i \<noteq> TickSleeping" using a nth_mem by metis
  then have "ticks_ok s'" using a by (auto simp: ticks_ok_def eq)
  moreover have nobody: "mp_pc s u \<noteq> Writing x" if "u \<noteq> t" for u x using a that by (metis in_body.simps(2))
  have "frames_ok s'" using a snap nobody by (auto simp: frames_ok_def eq final_last_none)
  ultimately show ?thesis by (simp add: mp_inv_def flip: s'_def)
qed

lemma cancel_tick_fields [simp]:
  "mp_registry (cancel_tick i s) = mp_registry s" "length (mp_ticks (cancel_tick i s)) = length (mp_ticks s)"
  "mp_tick_task (cancel_tick i s) = mp_tick_task s" "mp_closed (cancel_tick i s) = mp_closed s"
  "mp_finalized (cancel_tick i s) = mp_finalized s" "mp_lock (cancel_tick i s) = mp_lock s"
  "mp_waiters (cancel_tick i s) = mp_waiters s" "mp_pc (cancel_tick i s) = mp_pc s"
  "mp_frames (cancel_tick i s) = mp_frames s" "mp_writes (cancel_tick i s) = mp_writes s" "mp_files (cancel_tick i s) = mp_files s"
  by (simp_all add: cancel_tick_def)

lemma cancel_tick_nth:
  "j < length (mp_ticks s) \<Longrightarrow> mp_ticks (cancel_tick i s) ! j =
     (if j = i then (if mp_ticks s ! i = TickEnded then TickEnded else TickCancelled) else mp_ticks s ! j)"
  by (simp add: cancel_tick_def)

lemma enter_lock_inv:
  assumes inv: "mp_inv s" and free: "mp_lock s = None" and t: "\<not> in_body (mp_pc s t)" "mp_pc s t \<noteq> FinalDone" "\<forall>i. mp_pc s t \<noteq> CloseAwait i"
  shows "mp_inv (enter_lock view t interrupted n now s)"
proof (cases "mp_finalized s")
  case True
  then have eq: "enter_lock view t interrupted n now s = set_pc t FinalDone (s\<lparr>mp_lock := None\<rparr>)" by (simp add: enter_lock_def)
  have "body_ok (set_pc t FinalDone (s\<lparr>mp_lock := None\<rparr>))" using inv free t True by (auto simp: mp_inv_def body_ok_def)
  moreover have "ticks_ok (set_pc t FinalDone (s\<lparr>mp_lock := None\<rparr>))" using inv t by (auto simp: mp_inv_def ticks_ok_def)
  moreover have "frames_ok (set_pc t FinalDone (s\<lparr>mp_lock := None\<rparr>))" using inv by (auto simp: mp_inv_def frames_ok_def)
  ultimately show ?thesis by (simp add: eq mp_inv_def)
next
  case False
  let ?s = "s\<lparr>mp_lock := Some t, mp_finalized := True\<rparr>"
  have w: "mp_writes s = 0" "mp_files s = []" "\<forall>f\<in>set (mp_frames s). \<not> terminal (sn_state f)"
    using inv False by (auto simp: mp_inv_def body_ok_def frames_ok_def final_last_none)
  have noone: "\<not> in_body (mp_pc s u)" "mp_pc s u \<noteq> FinalDone" for u
    using inv free w(1) by (auto simp: mp_inv_def body_ok_def)
  have tk: "\<forall>i < length (mp_ticks s). mp_tick_task s \<noteq> Some i \<longrightarrow> mp_ticks s ! i \<noteq> TickSleeping"
    "\<forall>i. mp_tick_task s = Some i \<longrightarrow> i < length (mp_ticks s)" "\<forall>u i. mp_pc s u = CloseAwait i \<longrightarrow> mp_closed s"
    "\<forall>u u' i i'. mp_pc s u = CloseAwait i \<and> mp_pc s u' = CloseAwait i' \<longrightarrow> u = u'"
    using inv by (auto simp: mp_inv_def ticks_ok_def)
  have fr: "sorted_wrt (<) (map sn_counter (mp_frames s))" "\<forall>f\<in>set (mp_frames s). sn_counter f \<le> rg_counter (mp_registry s)"
    using inv by (simp_all add: mp_inv_def frames_ok_def)
  show ?thesis
  proof (cases "mp_tick_task s")
    case None
    have "TickSleeping \<notin> set (mp_ticks s)" using tk(1) None by (auto simp: in_set_conv_nth)
    then have "ready_to_write t ?s" using w noone tk fr None t by (simp add: ready_to_write_def) blast
    from begin_write_inv [OF this] show ?thesis using False None by (simp add: enter_lock_def publish_locked_def)
  next
    case (Some i)
    let ?s1 = "cancel_tick i ?s"
    have ns: "mp_ticks ?s1 ! j \<noteq> TickSleeping" if "j < length (mp_ticks s)" for j
      using tk(1) Some that by (auto simp: cancel_tick_nth)
    then have nss: "TickSleeping \<notin> set (mp_ticks ?s1)" by (auto simp: in_set_conv_nth)
    then have ready: "ready_to_write t ?s1" using w noone tk fr t by (simp add: ready_to_write_def) blast
    have wait: "mp_inv (set_pc t (AwaitTick i interrupted n) ?s1)"
    proof -
      have "body_ok (set_pc t (AwaitTick i interrupted n) ?s1)" using w noone by (auto simp: body_ok_def)
      moreover have "ticks_ok (set_pc t (AwaitTick i interrupted n) ?s1)"
        using nss tk Some ns by (auto simp: ticks_ok_def)
      moreover have "frames_ok (set_pc t (AwaitTick i interrupted n) ?s1)"
        using w fr noone(1) by (auto simp: frames_ok_def final_last_none) (metis in_body.simps(2))+
      ultimately show ?thesis by (simp add: mp_inv_def)
    qed
    show ?thesis using False Some begin_write_inv [OF ready] wait
      by (simp add: enter_lock_def publish_locked_def Let_def)
  qed
qed

text \<open>The task inside the body is alone there, and no call has returned yet.\<close>

lemma body_lock:
  assumes "mp_inv s" "in_body (mp_pc s t)"
  shows "mp_lock s = Some t" "mp_finalized s" "mp_writes s = 0" "\<forall>u. u \<noteq> t \<longrightarrow> \<not> in_body (mp_pc s u)"
    "\<forall>u. mp_pc s u \<noteq> FinalDone"
proof -
  show lock: "mp_lock s = Some t" using assms by (simp add: mp_inv_def body_ok_def)
  then show "mp_finalized s" and w: "mp_writes s = 0" using assms(1) by (simp_all add: mp_inv_def body_ok_def)
  show "\<forall>u. u \<noteq> t \<longrightarrow> \<not> in_body (mp_pc s u)" using assms(1) lock by (simp add: mp_inv_def body_ok_def)
  show "\<forall>u. mp_pc s u \<noteq> FinalDone" using assms(1) w by (auto simp: mp_inv_def body_ok_def)
qed

lemma body_ok_set_pc:
  assumes "body_ok u" "pc \<noteq> FinalDone" "\<not> in_body pc" "mp_lock u \<noteq> Some t"
  shows "body_ok (set_pc t pc u)"
proof -
  have a: "in_body (mp_pc u v) \<longleftrightarrow> mp_lock u = Some v" "mp_pc u v = FinalDone \<Longrightarrow> mp_writes u = 1" for v
    using assms(1) unfolding body_ok_def by blast+
  have b: "mp_writes u = (if mp_finalized u \<and> mp_lock u = None then 1 else 0) \<and> (mp_lock u \<noteq> None \<longrightarrow> mp_finalized u)"
    using assms(1) unfolding body_ok_def by blast
  have "in_body (((mp_pc u)(t := pc)) v) \<longleftrightarrow> mp_lock u = Some v" for v using a(1) assms(3,4) by (cases "v = t") auto
  moreover have "((mp_pc u)(t := pc)) v = FinalDone \<Longrightarrow> mp_writes u = 1" for v using a(2) assms(2) by (cases "v = t") auto
  ultimately show ?thesis using b unfolding body_ok_def set_pc_fields by blast
qed

lemma frames_ok_set_pc: "frames_ok u \<Longrightarrow> \<not> in_body pc \<Longrightarrow> frames_ok (set_pc t pc u)"
  unfolding frames_ok_def set_pc_fields by (metis fun_upd_apply in_body.simps(2))

lemma not_sleeping_update: "x \<noteq> TickSleeping \<Longrightarrow> TickSleeping \<notin> set xs \<Longrightarrow> TickSleeping \<notin> set (xs[i := x])"
  by (metis insertE set_update_subset_insert subsetD)

lemma publish_final_inv:
  assumes "mp_inv s" "mp_pc s t = NotStarted"
  shows "mp_inv (publish_final view t interrupted n now s)"
proof (cases "mp_lock s = None \<and> mp_waiters s = []")
  case True
  then show ?thesis using assms by (simp add: publish_final_def enter_lock_inv)
next
  case False
  then have eq: "publish_final view t interrupted n now s = set_pc t (WaitLock interrupted n) (s\<lparr>mp_waiters := mp_waiters s @ [t]\<rparr>)"
    unfolding publish_final_def by (rule if_not_P)
  have "\<not> in_body (mp_pc s t)" using assms(2) by simp
  then have "mp_lock s \<noteq> Some t" using assms(1) by (simp add: mp_inv_def body_ok_def)
  then show ?thesis using assms by (auto simp: eq mp_inv_def body_ok_def ticks_ok_def frames_ok_def)
qed

lemma resume_inv:
  assumes "mp_inv s"
  shows "mp_inv (resume view t now s)"
proof (cases "mp_pc s t")
  case (WaitLock interrupted n)
  have "mp_inv (s\<lparr>mp_waiters := tl (mp_waiters s)\<rparr>)" using assms by (simp add: mp_inv_def)
  then have "mp_inv (enter_lock view t interrupted n now (s\<lparr>mp_waiters := tl (mp_waiters s)\<rparr>))" if "mp_lock s = None"
    using that WaitLock by (intro enter_lock_inv) simp_all
  then show ?thesis using assms WaitLock by (simp add: resume_def)
next
  case (AwaitTick i interrupted n)
  have "in_body (mp_pc s t)" by (simp add: AwaitTick)
  note lock = body_lock [OF assms this]
  have t: "ticks_ok s" and f: "frames_ok s" using assms by (simp_all add: mp_inv_def)
  have "\<forall>u i. mp_pc s u = CloseAwait i \<longrightarrow> mp_closed s \<and> u \<noteq> t" using t AwaitTick by (auto simp: ticks_ok_def)
  moreover have "\<forall>u u' i i'. mp_pc s u = CloseAwait i \<and> mp_pc s u' = CloseAwait i' \<longrightarrow> u = u'" using t by (simp add: ticks_ok_def)
  ultimately have "ready_to_write t s" using lock t f
    by (simp add: ready_to_write_def ticks_ok_def frames_ok_def final_last_none)
  then show ?thesis using assms AwaitTick begin_write_inv by (simp add: resume_def)
next
  case (CloseAwait i)
  let ?s = "set_pc t CloseDone (s\<lparr>mp_tick_task := None, mp_socket_closed := True\<rparr>)"
  have t: "ticks_ok s" and b: "body_ok s" and f: "frames_ok s" using assms by (simp_all add: mp_inv_def)
  have "\<not> in_body (mp_pc s t)" by (simp add: CloseAwait)
  then have nb: "mp_lock s \<noteq> Some t" using b unfolding body_ok_def by blast
  have "mp_inv ?s" if e: "mp_ticks s ! i = TickEnded"
  proof -
    have c: "mp_finalized s \<or> mp_tick_task s = Some i" "\<forall>u j. mp_pc s u = CloseAwait j \<longrightarrow> u = t"
      using t CloseAwait unfolding ticks_ok_def by blast+
    have ns: "mp_ticks s ! j \<noteq> TickSleeping" if j: "j < length (mp_ticks s)" for j
    proof (cases "mp_finalized s")
      case True
      then show ?thesis using t nth_mem [OF j] by (auto simp: ticks_ok_def)
    next
      case False
      then show ?thesis using c(1) e t j unfolding ticks_ok_def by (cases "j = i") auto
    qed
    have "\<forall>u. u \<noteq> t \<longrightarrow> (\<forall>j. mp_pc s u \<noteq> CloseAwait j)" using c(2) by blast
    then have "ticks_ok ?s" using t ns by (simp add: ticks_ok_def)
    moreover have "body_ok ?s" using b nb by (intro body_ok_set_pc) simp_all
    moreover have "frames_ok ?s" using f by (intro frames_ok_set_pc) simp_all
    ultimately show ?thesis by (simp add: mp_inv_def)
  qed
  then show ?thesis using assms CloseAwait by (simp add: resume_def)
qed (use assms in \<open>simp_all add: resume_def\<close>)

lemma end_write_inv:
  assumes "mp_inv s" "mp_pc s t = Writing snap"
  shows "mp_inv (end_write t snap written sent s)"
proof -
  have "in_body (mp_pc s t)" by (simp add: assms(2))
  note lock = body_lock [OF assms(1) this]
  note others = lock(4)
  then have nowrite: "\<forall>u x. mp_pc s u = Writing x \<longrightarrow> u = t" by (metis in_body.simps(2))
  have fr: "mp_files s = []" "\<forall>f\<in>set (mp_frames s). \<not> terminal (sn_state f)" "sorted_wrt (<) (map sn_counter (mp_frames s))"
    "\<forall>f\<in>set (mp_frames s). sn_counter f < sn_counter snap" "terminal (sn_state snap)" "sn_counter snap \<le> rg_counter (mp_registry s)"
    "\<forall>f\<in>set (mp_frames s). sn_counter f \<le> rg_counter (mp_registry s)"
    using assms lock(3) by (auto simp: mp_inv_def frames_ok_def final_last_none)
  define s' where "s' = end_write t snap written sent s"
  have f: "mp_registry s' = mp_registry s" "mp_ticks s' = mp_ticks s" "mp_tick_task s' = mp_tick_task s" "mp_closed s' = mp_closed s"
    "mp_finalized s' = mp_finalized s" "mp_lock s' = None" "mp_pc s' = (mp_pc s)(t := FinalDone)" "mp_writes s' = 1"
    "mp_files s' = (if written then [snap] else [])"
    "mp_frames s' = mp_frames s @ (if mp_socket_closed s \<or> \<not> sent then [] else [snap])"
    using fr(1) lock by (simp_all add: s'_def end_write_def publish_frame_def)
  have "body_ok s'" using assms(1) others lock by (auto simp: body_ok_def f)
  moreover have "ticks_ok s'" using assms(1) by (auto simp: mp_inv_def ticks_ok_def f)
  moreover have "final_last (mp_files s') (mp_writes s') (mp_frames s')"
    using fr(2,5) unfolding final_last_def f
    by (intro conjI exI [of _ "mp_frames s"] exI [of _ "if mp_socket_closed s \<or> \<not> sent then [] else [snap]"]) auto
  then have "frames_ok s'" using fr nowrite by (auto simp: frames_ok_def f sorted_wrt_append)
  ultimately show ?thesis by (simp add: mp_inv_def flip: s'_def)
qed

lemma cancel_tick_inv:
  assumes "ticks_ok s"
  shows "ticks_ok (cancel_tick i s)" "body_ok (cancel_tick i s) = body_ok s" "frames_ok (cancel_tick i s) = frames_ok s"
proof -
  have "TickSleeping \<notin> set (mp_ticks (cancel_tick i s))" if "TickSleeping \<notin> set (mp_ticks s)"
    using that by (simp add: cancel_tick_def not_sleeping_update)
  moreover have "mp_ticks (cancel_tick i s) ! j \<noteq> TickSleeping" if "j < length (mp_ticks s)" "mp_ticks s ! j \<noteq> TickSleeping" for j
    using that by (simp add: cancel_tick_nth)
  ultimately show "ticks_ok (cancel_tick i s)" using assms by (auto simp: ticks_ok_def)
  show "body_ok (cancel_tick i s) = body_ok s" "frames_ok (cancel_tick i s) = frames_ok s"
    by (simp_all add: body_ok_def frames_ok_def)
qed

lemma aclose_inv:
  assumes inv: "mp_inv s" and t: "mp_pc s t = NotStarted"
  shows "mp_inv (aclose t s)"
proof -
  have nb: "mp_lock s \<noteq> Some t" using inv t by (auto simp: mp_inv_def body_ok_def) (metis in_body.simps(3))
  have pc: "body_ok (set_pc t pc u)" if "body_ok u" "pc \<noteq> FinalDone" "\<not> in_body pc" "mp_lock u = mp_lock s" for pc u
    using that nb by (intro body_ok_set_pc) simp_all
  have fpc: "frames_ok (set_pc t pc u)" if "frames_ok u" "\<not> in_body pc" for pc u
    using that by (rule frames_ok_set_pc)
  have done_ok: "mp_inv (set_pc t CloseDone u)" if "mp_inv u" "mp_pc u = mp_pc s" "mp_lock u = mp_lock s" for u
    using that pc [of u CloseDone] fpc [of u CloseDone] by (auto simp: mp_inv_def ticks_ok_def)
  have close: "ticks_ok (u\<lparr>mp_closed := True\<rparr>)" if "ticks_ok u" for u using that by (auto simp: ticks_ok_def)
  show ?thesis
  proof (cases "mp_closed s")
    case True
    then show ?thesis using done_ok [OF inv] by (simp add: aclose_def)
  next
    case False
    then have none: "mp_pc s u \<noteq> CloseAwait i" for u i using inv by (auto simp: mp_inv_def ticks_ok_def)
    let ?s1 = "s\<lparr>mp_closed := True\<rparr>"
    have i1: "mp_inv ?s1" using inv close by (simp add: mp_inv_def)
    show ?thesis
    proof (cases "mp_tick_task s")
      case None
      then show ?thesis using done_ok [of "?s1\<lparr>mp_socket_closed := True\<rparr>"] i1 False by (simp add: aclose_def mp_inv_def)
    next
      case (Some i)
      let ?s2 = "cancel_tick i ?s1"
      have i2: "mp_inv ?s2" using i1 cancel_tick_inv by (simp add: mp_inv_def)
      have ilen: "i < length (mp_ticks s)" using inv Some by (simp add: mp_inv_def ticks_ok_def)
      have ns: "mp_ticks ?s2 ! j \<noteq> TickSleeping" if "j < length (mp_ticks s)" for j
        using that inv Some by (auto simp: cancel_tick_nth mp_inv_def ticks_ok_def)
      have "ticks_ok (?s2\<lparr>mp_tick_task := None\<rparr>)" using i2 ns none by (auto simp: mp_inv_def ticks_ok_def)
      then have a: "mp_inv (set_pc t CloseDone (?s2\<lparr>mp_tick_task := None, mp_socket_closed := True\<rparr>))"
        using i2 by (intro done_ok) (simp_all add: mp_inv_def)
      have "ticks_ok (set_pc t (CloseAwait i) ?s2)" using i2 Some none by (auto simp: mp_inv_def ticks_ok_def)
      then have b: "mp_inv (set_pc t (CloseAwait i) ?s2)" using i2 pc [of ?s2 "CloseAwait i"] fpc [of ?s2 "CloseAwait i"] by (simp add: mp_inv_def)
      show ?thesis using a b False Some by (simp add: aclose_def Let_def)
    qed
  qed
qed

lemma close_now_inv: "mp_inv s \<Longrightarrow> mp_inv (close_now s)"
proof -
  assume inv: "mp_inv s"
  have close: "ticks_ok (u\<lparr>mp_closed := True\<rparr>)" if "ticks_ok u" for u using that by (auto simp: ticks_ok_def)
  show ?thesis using inv close cancel_tick_inv by (auto simp: close_now_def mp_inv_def split: option.split)
qed

lemma end_tick_inv:
  assumes "mp_inv s"
  shows "mp_inv (end_tick i s)"
proof -
  have "TickSleeping \<notin> set ((mp_ticks s)[i := TickEnded])" if "TickSleeping \<notin> set (mp_ticks s)"
    using that by (simp add: not_sleeping_update)
  moreover have "(mp_ticks s)[i := TickEnded] ! j \<noteq> TickSleeping" if "j < length (mp_ticks s)" "mp_ticks s ! j \<noteq> TickSleeping" for j
    using that by (cases "i = j") simp_all
  ultimately have "ticks_ok (s\<lparr>mp_ticks := (mp_ticks s)[i := TickEnded]\<rparr>)" using assms by (auto simp: mp_inv_def ticks_ok_def)
  then show ?thesis using assms by (simp add: end_tick_def mp_inv_def)
qed

lemma start_ticks_inv:
  assumes "mp_inv s" "\<not> mp_finalized s"
  shows "mp_inv (snd (start_ticks interval s))"
proof -
  let ?s = "s\<lparr>mp_ticks := mp_ticks s @ [TickSleeping], mp_tick_task := Some (length (mp_ticks s))\<rparr>"
  have "mp_inv ?s" if none: "mp_tick_task s = None"
  proof -
    have "ticks_ok ?s" using assms none by (auto simp: mp_inv_def ticks_ok_def nth_append)
    then show ?thesis using assms(1) by (simp add: mp_inv_def)
  qed
  then show ?thesis using assms(1) by (auto simp: start_ticks_def)
qed

lemma set_registry_inv:
  assumes "mp_inv s" "rg_counter r = rg_counter (mp_registry s)"
  shows "mp_inv (s\<lparr>mp_registry := r\<rparr>)"
  using assms by (simp add: mp_inv_def frames_ok_def)

lemma mp_step_inv:
  assumes "mp_inv s" "mp_enabled s e"
  shows "mp_inv (mp_step view s e)"
  using assms
  by (cases e) (auto simp: start_ticks_inv fire_tick_inv end_tick_inv publish_final_inv resume_inv aclose_inv
      close_now_inv set_registry_inv end_write_inv split: task_pc.split)

lemma mp_reach_inv: "mp_reach view s \<Longrightarrow> mp_inv s"
  by (induction rule: mp_reach.induct) (simp_all add: mp_inv_init mp_step_inv)

fun mp_enabled_all :: "hdr_view \<Rightarrow> metrics_publisher \<Rightarrow> mp_event list \<Rightarrow> bool" where
  "mp_enabled_all view s [] = True"
| "mp_enabled_all view s (e # es) = (mp_enabled s e \<and> mp_enabled_all view (mp_step view s e) es)"

lemma mp_reach_run: "mp_reach view s \<Longrightarrow> mp_enabled_all view s es \<Longrightarrow> mp_reach view (foldl (mp_step view) s es)"
  by (induction es arbitrary: s) (auto intro: mp_next)

section \<open>Properties\<close>

text \<open>C17. The final snapshot is written once and sent last: however the end of the run, any number of SIGTERM
  handlers, ticks and closes interleave, at most one final snapshot is written, whoever returns from
  \<open>publish_final\<close> returns after that write, at most one terminal frame is sent, it is the one written to
  the file and the last one on the wire, and the frames' counters strictly increase.\<close>

theorem final_snapshot_once_and_last:
  assumes "mp_reach view s"
  shows "mp_writes s \<le> 1 \<and> length (mp_files s) \<le> mp_writes s \<and> (\<forall>t. mp_pc s t = FinalDone \<longrightarrow> mp_writes s = 1)
     \<and> (\<exists>live final. mp_frames s = live @ final \<and> (\<forall>f\<in>set live. \<not> terminal (sn_state f)) \<and> length final \<le> mp_writes s
          \<and> (\<forall>f\<in>set final. terminal (sn_state f) \<and> (\<forall>g\<in>set (mp_files s). g = f)))
     \<and> sorted_wrt (<) (map sn_counter (mp_frames s))"
proof -
  have inv: "body_ok s" "frames_ok s" using mp_reach_inv [OF assms] by (simp_all add: mp_inv_def)
  then have "mp_writes s \<le> 1" "\<forall>t. mp_pc s t = FinalDone \<longrightarrow> mp_writes s = 1" by (simp add: body_ok_def, unfold body_ok_def, blast)
  with inv(2) show ?thesis unfolding frames_ok_def final_last_def by blast
qed

definition example_view :: hdr_view where "example_view = (\<lambda>hs p. 0, \<lambda>hs. [])"

definition example_race :: "mp_event list" where
  "example_race = [StartTicks 1, TickFires 0 LIVE 0 10 True, CallFinal 7 False 0 20, CallFinal 8 True 0 21, TickEnds 0,
     Resume 7 22, TickFires 0 LIVE 0 23 True, WriteReturns 7 True True, Resume 8 24]"

text \<open>The run's end and a SIGTERM handler race: one tick and one final frame, both calls returned.\<close>

theorem final_snapshot_once_and_last_witness:
  "let s = foldl (mp_step example_view) (metrics_publisher_init (registry_init None)) example_race
   in mp_writes s \<le> 1 \<and> mp_pc s 7 = FinalDone \<and> mp_pc s 8 = FinalDone \<and> mp_writes s = 1
      \<and> map sn_state (mp_frames s) = [LIVE, COMPLETE_STATE] \<and> sorted_wrt (<) (map sn_counter (mp_frames s))"
proof -
  define s where "s = foldl (mp_step example_view) (metrics_publisher_init (registry_init None)) example_race"
  note defs = metrics_publisher_init_def start_ticks_def fire_tick_def publish_final_def enter_lock_def publish_locked_def
    cancel_tick_def set_pc_def end_tick_def resume_def begin_write_def end_write_def publish_frame_def build_snapshot_def
    registry_init_def Let_def
  have "mp_enabled_all example_view (metrics_publisher_init (registry_init None)) example_race"
    by (simp add: example_race_def defs terminal_def)
  then have r: "mp_reach example_view s" unfolding s_def by (intro mp_reach_run mp_start)
  have "mp_pc s 7 = FinalDone" "mp_pc s 8 = FinalDone" "map sn_state (mp_frames s) = [LIVE, COMPLETE_STATE]"
    by (simp_all add: s_def example_race_def defs)
  with final_snapshot_once_and_last [OF r] show ?thesis unfolding s_def [symmetric] Let_def by blast
qed

text \<open>The guard on \<open>start\<close> does not know of finalization: a STARTED event that arrives while the snapshot of an
  early SIGTERM is being written starts a tick task, whose live frame can follow the terminal one.\<close>

lemma late_start_overtakes_the_final_frame:
  "map sn_state (mp_frames (foldl (mp_step example_view) (metrics_publisher_init (registry_init None))
     [CallFinal 0 True 0 5, StartTicks 1, WriteReturns 0 True True, TickFires 0 LIVE 0 9 True])) = [INTERRUPTED_STATE, LIVE]"
  by (simp add: metrics_publisher_init_def start_ticks_def fire_tick_def publish_final_def enter_lock_def publish_locked_def
      set_pc_def begin_write_def end_write_def publish_frame_def build_snapshot_def registry_init_def)

end
