(* ===== verification/Transport.thy ===== *)
theory Transport
  imports PubSub
begin

text \<open>
  \<open>async_utils/transport/zmq/transport.py\<close> and \<open>ready_check.py\<close>, and \<open>endpoint_client/http_client.py\<close>,
  \<open>http_sample_issuer.py\<close> and the waiting loop of \<open>worker_manager.py\<close>: the push/pull channels between
  the main process and its workers, the round-robin client over them, and the readiness handshake.
  A channel is parametric in its frames \<open>'f\<close>, with the encoder \<open>enc\<close>, the decoder \<open>dec\<close> (None for a
  \<open>DecodeError\<close>) and the number of bytes \<open>bytes\<close> of a frame.
\<close>

section \<open>The sender\<close>

record 'f sender =
  sn_buffer :: "'f list"
  sn_closing :: bool
  sn_writing :: bool
  sn_soon :: bool
  sn_wire :: "'f list"

definition sender_init :: "'f sender" where
  "sender_init = \<lparr>sn_buffer = [], sn_closing = False, sn_writing = False, sn_soon = False, sn_wire = []\<rparr>"

definition buffer_frame :: "'f \<Rightarrow> 'f sender \<Rightarrow> 'f sender" where
  "buffer_frame f s = s\<lparr>sn_buffer := sn_buffer s @ [f], sn_writing := True\<rparr>"

text \<open>\<open>send\<close>: a socket error other than a full socket gives the message up.\<close>

definition sender_send :: "('a \<Rightarrow> 'f) \<Rightarrow> 'a \<Rightarrow> socket_reply \<Rightarrow> 'f sender \<Rightarrow> 'f sender" where
  "sender_send enc x reply s =
     (if sn_closing s then s
      else if sn_buffer s = [] then
        (case reply of
           Accepted \<Rightarrow> s\<lparr>sn_wire := sn_wire s @ [enc x]\<rparr>
         | WouldBlock \<Rightarrow> buffer_frame (enc x) s
         | SocketError \<Rightarrow> s)
      else buffer_frame (enc x) s)"

definition stop_writing :: "'f sender \<Rightarrow> 'f sender" where
  "stop_writing s = s\<lparr>sn_writing := False\<rparr>"

definition sender_on_writable :: "(nat \<Rightarrow> socket_reply) \<Rightarrow> 'f sender \<Rightarrow> 'f sender" where
  "sender_on_writable replies s =
     (let s1 = s\<lparr>sn_soon := False\<rparr>
      in if sn_closing s1 then s1
         else (case drain_frames replies 0 (sn_buffer s1) of
                 (sent, left, ok) \<Rightarrow>
                   (let s2 = s1\<lparr>sn_wire := sn_wire s1 @ sent, sn_buffer := left\<rparr>
                    in if \<not> ok then stop_writing (s2\<lparr>sn_buffer := []\<rparr>)
                       else if sn_buffer s2 = [] then stop_writing s2
                       else s2\<lparr>sn_soon := True\<rparr>)))"

definition sender_close :: "'f sender \<Rightarrow> 'f sender" where
  "sender_close s =
     (if sn_closing s then s
      else (stop_writing (s\<lparr>sn_closing := True, sn_soon := False\<rparr>))\<lparr>sn_buffer := []\<rparr>)"

section \<open>The receiver\<close>

text \<open>The waiter is \<open>Some done\<close> while \<open>recv\<close> is suspended on its future.\<close>

record ('f, 'a) receiver =
  rv_buf_len :: nat
  rv_socket :: "'f list"
  rv_deque :: "'a list"
  rv_waiter :: "bool option"
  rv_closing :: bool
  rv_soon :: bool

definition receiver_init :: "nat \<Rightarrow> ('f, 'a) receiver" where
  "receiver_init n =
     \<lparr>rv_buf_len = n, rv_socket = [], rv_deque = [], rv_waiter = None, rv_closing = False, rv_soon = False\<rparr>"

datatype drain_end = SocketEmpty | SocketFault | DecodeFailed | Truncated

text \<open>The \<open>recv_into\<close> loop: the messages decoded, the frames left, and why it ended.  The \<open>k\<close>-th
  call raises a \<open>ZMQError\<close> of its own when \<open>fault = Some k\<close>; a socket that was closed, whose
  \<open>EVENTS\<close> cannot be read, has no frames left.\<close>

fun drain_socket ::
    "('f \<Rightarrow> nat) \<Rightarrow> ('f \<Rightarrow> 'a option) \<Rightarrow> nat \<Rightarrow> nat option \<Rightarrow> 'f list \<Rightarrow> 'a list \<times> 'f list \<times> drain_end" where
  "drain_socket bytes dec buf_len fault [] = ([], [], if fault = Some 0 then SocketFault else SocketEmpty)"
| "drain_socket bytes dec buf_len fault (f # fs) =
     (if fault = Some 0 then ([], f # fs, SocketFault)
      else if bytes f > buf_len then ([], fs, Truncated)
      else (case dec f of
              None \<Rightarrow> ([], fs, DecodeFailed)
            | Some x \<Rightarrow>
                (case drain_socket bytes dec buf_len (map_option (\<lambda>k. k - 1) fault) fs of
                   (xs, rest, e) \<Rightarrow> (x # xs, rest, e))))"

definition wake :: "('f, 'a) receiver \<Rightarrow> ('f, 'a) receiver" where
  "wake s = s\<lparr>rv_waiter := map_option (\<lambda>_. True) (rv_waiter s)\<rparr>"

text \<open>A truncated message raises out of the callback; the other ends fall through to the wake-up.\<close>

definition receiver_on_readable ::
    "('f \<Rightarrow> nat) \<Rightarrow> ('f \<Rightarrow> 'a option) \<Rightarrow> nat option \<Rightarrow> ('f, 'a) receiver \<Rightarrow> unit result \<times> ('f, 'a) receiver" where
  "receiver_on_readable bytes dec fault s =
     (let s1 = s\<lparr>rv_soon := False\<rparr>
      in if rv_closing s1 then (Inr (), s1)
         else (case drain_socket bytes dec (rv_buf_len s1) fault (rv_socket s1) of
                 (xs, rest, e) \<Rightarrow>
                   (let s2 = s1\<lparr>rv_deque := rv_deque s1 @ xs, rv_socket := rest\<rparr>
                    in if e = Truncated then (Inl RuntimeError, s2)
                       else if xs \<noteq> [] then (Inr (), (wake s2)\<lparr>rv_soon := (rest \<noteq> [])\<rparr>)
                       else (Inr (), s2))))"

definition receiver_poll :: "('f, 'a) receiver \<Rightarrow> 'a option \<times> ('f, 'a) receiver" where
  "receiver_poll s = (case rv_deque s of [] \<Rightarrow> (None, s) | x # xs \<Rightarrow> (Some x, s\<lparr>rv_deque := xs\<rparr>))"

datatype 'a recv_outcome = Received 'a | EndOfChannel | Suspended

text \<open>\<open>recv\<close> up to its first await, and from an await to the next.\<close>

definition recv_loop :: "('f, 'a) receiver \<Rightarrow> 'a recv_outcome \<times> ('f, 'a) receiver" where
  "recv_loop s =
     (case rv_deque s of
        x # xs \<Rightarrow> (Received x, s\<lparr>rv_deque := xs\<rparr>)
      | [] \<Rightarrow> if rv_closing s then (EndOfChannel, s) else (Suspended, s\<lparr>rv_waiter := Some False\<rparr>))"

definition recv_begin :: "('f, 'a) receiver \<Rightarrow> 'a recv_outcome \<times> ('f, 'a) receiver" where
  "recv_begin s = recv_loop s"

definition recv_resume :: "('f, 'a) receiver \<Rightarrow> 'a recv_outcome \<times> ('f, 'a) receiver" where
  "recv_resume s = (if rv_waiter s = Some True then recv_loop (s\<lparr>rv_waiter := None\<rparr>) else (Suspended, s))"

definition recv_cancel :: "('f, 'a) receiver \<Rightarrow> ('f, 'a) receiver" where
  "recv_cancel s = s\<lparr>rv_waiter := None\<rparr>"

definition receiver_close :: "('f, 'a) receiver \<Rightarrow> ('f, 'a) receiver" where
  "receiver_close s = (if rv_closing s then s else wake (s\<lparr>rv_closing := True, rv_soon := False\<rparr>))"

section \<open>The pool and the client\<close>

text \<open>\<open>ZmqWorkerPoolTransport\<close> and \<open>HTTPEndpointClient\<close> over it: one request sender per worker, one
  response receiver; \<open>cl_next\<close> is the position of the worker cycle.\<close>

record ('q, 'f, 'a) client =
  cl_num_workers :: nat
  cl_senders :: "'q sender list"
  cl_receiver :: "('f, 'a) receiver"
  cl_next :: nat
  cl_shutdown :: bool
  cl_dropped :: nat
  cl_pool_closed :: bool

definition client_init :: "nat \<Rightarrow> nat \<Rightarrow> ('q, 'f, 'a) client" where
  "client_init n buf_len =
     \<lparr>cl_num_workers = n, cl_senders = replicate n sender_init, cl_receiver = receiver_init buf_len,
      cl_next = 0, cl_shutdown = False, cl_dropped = 0, cl_pool_closed = False\<rparr>"

definition pool_send :: "('a \<Rightarrow> 'q) \<Rightarrow> nat \<Rightarrow> 'a \<Rightarrow> socket_reply \<Rightarrow> ('q, 'f, 'b) client \<Rightarrow> ('q, 'f, 'b) client" where
  "pool_send enc w x reply c = c\<lparr>cl_senders := (cl_senders c)[w := sender_send enc x reply (cl_senders c ! w)]\<rparr>"

definition client_issue :: "('a \<Rightarrow> 'q) \<Rightarrow> 'a \<Rightarrow> socket_reply \<Rightarrow> ('q, 'f, 'b) client \<Rightarrow> ('q, 'f, 'b) client" where
  "client_issue enc x reply c =
     (if cl_shutdown c then c\<lparr>cl_dropped := Suc (cl_dropped c)\<rparr>
      else pool_send enc (cl_next c) x reply (c\<lparr>cl_next := Suc (cl_next c) mod cl_num_workers c\<rparr>))"

definition client_poll :: "('q, 'f, 'b) client \<Rightarrow> 'b option \<times> ('q, 'f, 'b) client" where
  "client_poll c = (case receiver_poll (cl_receiver c) of (x, r) \<Rightarrow> (x, c\<lparr>cl_receiver := r\<rparr>))"

text \<open>\<open>drain\<close>: \<open>iter(self.poll, None)\<close>.\<close>

function client_drain :: "('q, 'f, 'b) client \<Rightarrow> 'b list \<times> ('q, 'f, 'b) client" where
  "client_drain c =
     (case client_poll c of
        (None, c') \<Rightarrow> ([], c')
      | (Some x, c') \<Rightarrow> (case client_drain c' of (xs, c'') \<Rightarrow> (x # xs, c'')))"
  by pat_completeness auto

termination
  by (relation "measure (\<lambda>c. length (rv_deque (cl_receiver c)))")
     (auto simp: client_poll_def receiver_poll_def split: list.splits)

declare client_drain.simps [simp del]

definition pool_cleanup :: "('q, 'f, 'b) client \<Rightarrow> ('q, 'f, 'b) client" where
  "pool_cleanup c =
     (if cl_pool_closed c then c
      else c\<lparr>cl_pool_closed := True, cl_senders := map sender_close (cl_senders c),
             cl_receiver := receiver_close (cl_receiver c)\<rparr>)"

text \<open>The flag is set before the workers are stopped; the pool is cleaned up after.\<close>

definition client_shutdown :: "('q, 'f, 'b) client \<Rightarrow> ('q, 'f, 'b) client" where
  "client_shutdown c = (if cl_shutdown c then c else c\<lparr>cl_shutdown := True\<rparr>)"

section \<open>Readiness\<close>

text \<open>The signals a host's socket will deliver, each with its time of arrival, in that order.
  \<open>wait\<close> collects in a local list; a timeout raises with the signals it took gone from the socket.
  None stands for a wait without a timeout that never ends.\<close>

type_synonym signals = "(rat \<times> int) list"

definition timeout_error :: py_exc where "timeout_error = OtherException ''TimeoutError''"

fun collect_signals :: "nat \<Rightarrow> rat option \<Rightarrow> int list \<Rightarrow> signals \<Rightarrow> (int list result \<times> signals) option" where
  "collect_signals 0 deadline ids sigs = Some (Inr ids, sigs)"
| "collect_signals (Suc k) deadline ids [] =
     (case deadline of None \<Rightarrow> None | Some d \<Rightarrow> Some (Inl timeout_error, []))"
| "collect_signals (Suc k) deadline ids ((t, i) # sigs) =
     (case deadline of
        None \<Rightarrow> collect_signals k deadline (ids @ [i]) sigs
      | Some d \<Rightarrow> (if t \<le> d then collect_signals k deadline (ids @ [i]) sigs
                  else Some (Inl timeout_error, (t, i) # sigs)))"

definition ready_wait :: "nat \<Rightarrow> rat \<Rightarrow> rat option \<Rightarrow> signals \<Rightarrow> (int list result \<times> signals) option" where
  "ready_wait count now timeout sigs = collect_signals count (map_option ((+) now) timeout) [] sigs"

text \<open>\<open>_wait_for_workers_with_liveness_check\<close> from time \<open>now\<close> on, for a timeout that is set; \<open>dead\<close> tells
  whether some worker is dead at a time.  A wait that times out ends at its deadline.  The fuel bounds the
  rounds; every round but the last takes a tenth of the timeout, so eleven are enough.\<close>

fun await_workers :: "nat \<Rightarrow> nat \<Rightarrow> rat \<Rightarrow> (rat \<Rightarrow> bool) \<Rightarrow> rat \<Rightarrow> signals \<Rightarrow> unit result option" where
  "await_workers 0 count timeout dead now sigs = None"
| "await_workers (Suc fuel) count timeout dead now sigs =
     (if dead now then Some (Inl RuntimeError)
      else (let remaining = timeout - now
            in if remaining \<le> 0 then Some (Inl timeout_error)
               else (let wait_time = min (timeout / 10) remaining
                     in case ready_wait count now (Some wait_time) sigs of
                          None \<Rightarrow> None
                        | Some (Inr ids, _) \<Rightarrow> Some (Inr ())
                        | Some (Inl _, sigs') \<Rightarrow> await_workers fuel count timeout dead (now + wait_time) sigs')))"

definition wait_for_workers :: "nat \<Rightarrow> rat \<Rightarrow> (rat \<Rightarrow> bool) \<Rightarrow> signals \<Rightarrow> unit result option" where
  "wait_for_workers count timeout dead sigs = await_workers 11 count timeout dead 0 sigs"

end
