(* ===== verification/TransportFacts.thy ===== *)
theory TransportFacts
  imports Transport "HOL-Library.Sublist"
begin

text \<open>
  What a push/pull channel promises: messages of a sender arrive in the order they were sent, nothing is
  invented, and nothing is lost unless a socket fails, an end is closed or a message is too long; a
  suspended \<open>recv\<close> has nothing to read.  The client deals its queries out in turn.  The readiness loop
  succeeds exactly when all signals fall into one of its rounds.
\<close>

section \<open>Channels\<close>

text \<open>Several senders fan in to one receiver; frames and messages carry the number of their sender.\<close>

record ('f, 'a) channel =
  ch_senders :: "nat \<Rightarrow> 'f sender"
  ch_receiver :: "(nat \<times> 'f, nat \<times> 'a) receiver"
  ch_sent :: "nat \<Rightarrow> 'a list"
  ch_got :: "(nat \<times> 'a) list"

datatype 'a channel_event =
    ChSend nat 'a socket_reply | ChWritable nat "nat \<Rightarrow> socket_reply" | ChCloseSender nat
  | ChTransmit nat nat | ChReadable "nat option" | ChPoll | ChRecv | ChResume | ChCancel | ChCloseReceiver

definition channel_init :: "nat \<Rightarrow> ('f, 'a) channel" where
  "channel_init buf_len =
     \<lparr>ch_senders = (\<lambda>_. sender_init), ch_receiver = receiver_init buf_len, ch_sent = (\<lambda>_. []), ch_got = []\<rparr>"

definition tag_dec :: "('f \<Rightarrow> 'a option) \<Rightarrow> nat \<times> 'f \<Rightarrow> (nat \<times> 'a) option" where
  "tag_dec dec p = map_option (Pair (fst p)) (dec (snd p))"

definition at_sender :: "nat \<Rightarrow> ('f sender \<Rightarrow> 'f sender) \<Rightarrow> ('f, 'a) channel \<Rightarrow> ('f, 'a) channel" where
  "at_sender i g c = c\<lparr>ch_senders := (ch_senders c)(i := g (ch_senders c i))\<rparr>"

definition take_outcome :: "('f, 'a) channel \<Rightarrow> (nat \<times> 'a) recv_outcome \<times> (nat \<times> 'f, nat \<times> 'a) receiver \<Rightarrow> ('f, 'a) channel" where
  "take_outcome c r =
     c\<lparr>ch_receiver := snd r, ch_got := ch_got c @ (case fst r of Received x \<Rightarrow> [x] | _ \<Rightarrow> [])\<rparr>"

fun channel_step ::
    "('f \<Rightarrow> nat) \<Rightarrow> ('a \<Rightarrow> 'f) \<Rightarrow> ('f \<Rightarrow> 'a option) \<Rightarrow> ('f, 'a) channel \<Rightarrow> 'a channel_event \<Rightarrow> ('f, 'a) channel" where
  "channel_step bytes enc dec c (ChSend i x reply) =
     (at_sender i (sender_send enc x reply) c)
       \<lparr>ch_sent := (if sn_closing (ch_senders c i) then ch_sent c else (ch_sent c)(i := ch_sent c i @ [x]))\<rparr>"
| "channel_step bytes enc dec c (ChWritable i replies) = at_sender i (sender_on_writable replies) c"
| "channel_step bytes enc dec c (ChCloseSender i) = at_sender i sender_close c"
| "channel_step bytes enc dec c (ChTransmit i k) =
     (at_sender i (\<lambda>s. s\<lparr>sn_wire := drop k (sn_wire s)\<rparr>) c)
       \<lparr>ch_receiver := (ch_receiver c)
          \<lparr>rv_socket := rv_socket (ch_receiver c) @ map (Pair i) (take k (sn_wire (ch_senders c i)))\<rparr>\<rparr>"
| "channel_step bytes enc dec c (ChReadable fault) =
     c\<lparr>ch_receiver := snd (receiver_on_readable (bytes \<circ> snd) (tag_dec dec) fault (ch_receiver c))\<rparr>"
| "channel_step bytes enc dec c ChPoll =
     (case receiver_poll (ch_receiver c) of
        (None, r) \<Rightarrow> c\<lparr>ch_receiver := r\<rparr>
      | (Some x, r) \<Rightarrow> c\<lparr>ch_receiver := r, ch_got := ch_got c @ [x]\<rparr>)"
| "channel_step bytes enc dec c ChRecv =
     (if rv_waiter (ch_receiver c) = None then take_outcome c (recv_begin (ch_receiver c)) else c)"
| "channel_step bytes enc dec c ChResume = take_outcome c (recv_resume (ch_receiver c))"
| "channel_step bytes enc dec c ChCancel = c\<lparr>ch_receiver := recv_cancel (ch_receiver c)\<rparr>"
| "channel_step bytes enc dec c ChCloseReceiver = c\<lparr>ch_receiver := receiver_close (ch_receiver c)\<rparr>"

text \<open>Events that lose nothing, on messages a receive buffer of \<open>n\<close> bytes can hold.\<close>

fun lossless :: "('f \<Rightarrow> nat) \<Rightarrow> ('a \<Rightarrow> 'f) \<Rightarrow> nat \<Rightarrow> 'a channel_event \<Rightarrow> bool" where
  "lossless bytes enc n (ChSend i x reply) = (reply \<noteq> SocketError \<and> bytes (enc x) \<le> n)"
| "lossless bytes enc n (ChWritable i replies) = (\<forall>k. replies k \<noteq> SocketError)"
| "lossless bytes enc n (ChCloseSender i) = False"
| "lossless bytes enc n _ = True"

section \<open>What is on its way\<close>

definition sender_frames :: "'f sender \<Rightarrow> 'f list" where
  "sender_frames s = sn_wire s @ sn_buffer s"

definition arriving :: "('f \<Rightarrow> 'a option) \<Rightarrow> ('f, 'a) receiver \<Rightarrow> 'a list" where
  "arriving dec r = rv_deque r @ List.map_filter dec (rv_socket r)"

definition msgs_of :: "nat \<Rightarrow> (nat \<times> 'a) list \<Rightarrow> 'a list" where
  "msgs_of i xs = map snd (filter (\<lambda>p. fst p = i) xs)"

definition content :: "('f \<Rightarrow> 'a option) \<Rightarrow> nat \<Rightarrow> ('f, 'a) channel \<Rightarrow> 'a list" where
  "content dec i c = msgs_of i (ch_got c @ arriving (tag_dec dec) (ch_receiver c))
     @ List.map_filter dec (sender_frames (ch_senders c i))"

lemma msgs_of_simps [simp]:
  "msgs_of i [] = []" "msgs_of i (xs @ ys) = msgs_of i xs @ msgs_of i ys" "msgs_of i (p # xs) = (if fst p = i then [snd p] else []) @ msgs_of i xs"
  by (simp_all add: msgs_of_def)

lemma msgs_of_subseq: "subseq xs ys \<Longrightarrow> subseq (msgs_of i xs) (msgs_of i ys)"
  unfolding msgs_of_def by (intro subseq_map subseq_filter)

lemma map_filter_append [simp]: "List.map_filter g (xs @ ys) = List.map_filter g xs @ List.map_filter g ys"
  by (simp add: List.map_filter_def)

lemma map_filter_subseq: "subseq xs ys \<Longrightarrow> subseq (List.map_filter g xs) (List.map_filter g ys)"
  unfolding List.map_filter_def by (intro subseq_map subseq_filter)

lemma map_filter_tags: "msgs_of i (List.map_filter (tag_dec dec) (map (Pair j) fs)) = (if i = j then List.map_filter dec fs else [])"
  by (induction fs) (auto simp: List.map_filter_simps tag_dec_def split: option.splits)

lemma subseq_subset: "subseq xs ys \<Longrightarrow> set xs \<subseteq> set ys"
  by (induction rule: list_emb.induct) auto

lemma subseq_front: "subseq xs ys \<Longrightarrow> subseq (zs @ xs) (zs @ ys)"
  by (induction zs) auto

section \<open>The sender keeps the order\<close>

text \<open>A sender's frames after an operation, against those before: some may be missing, none when the
  operation is lossless.\<close>

lemma sender_send_frames:
  assumes "\<not> sn_closing s"
  shows "subseq (sender_frames (sender_send enc x reply s)) (sender_frames s @ [enc x])"
    "reply \<noteq> SocketError \<Longrightarrow> sender_frames (sender_send enc x reply s) = sender_frames s @ [enc x]"
  using assms by (auto simp: sender_send_def buffer_frame_def sender_frames_def split: socket_reply.splits)

lemma sender_closed_send: "sn_closing s \<Longrightarrow> sender_send enc x reply s = s"
  by (simp add: sender_send_def)

lemma drain_frames_split:
  "drain_frames rs i fs = (sent, left, ok) \<Longrightarrow> sent @ left = fs \<and> ((\<forall>k. rs k \<noteq> SocketError) \<longrightarrow> ok)"
proof (induction fs arbitrary: i sent left ok)
  case (Cons f fs)
  obtain st lf k where d: "drain_frames rs (Suc i) fs = (st, lf, k)" by (metis prod_cases3)
  from Cons.IH [OF d] Cons.prems show ?case by (cases "rs i") (auto simp: d)
qed simp

lemma on_writable_frames:
  "subseq (sender_frames (sender_on_writable rs s)) (sender_frames s)"
  "(\<forall>k. rs k \<noteq> SocketError) \<Longrightarrow> sender_frames (sender_on_writable rs s) = sender_frames s"
proof -
  obtain st lf ok where d: "drain_frames rs 0 (sn_buffer s) = (st, lf, ok)" by (metis prod_cases3)
  note f = drain_frames_split [OF d]
  have split: "sender_frames s = (sn_wire s @ st) @ lf" using f by (simp add: sender_frames_def)
  have eq: "sender_frames (sender_on_writable rs s) =
      (if sn_closing s then sender_frames s else if ok then sender_frames s else sn_wire s @ st)"
    using f by (auto simp: sender_on_writable_def Let_def d stop_writing_def sender_frames_def)
  show "subseq (sender_frames (sender_on_writable rs s)) (sender_frames s)"
    using list_emb_prefix [of "(=)" "sn_wire s @ st" "sn_wire s @ st" lf] by (simp add: eq split)
  show "(\<forall>k. rs k \<noteq> SocketError) \<Longrightarrow> sender_frames (sender_on_writable rs s) = sender_frames s"
    unfolding eq using f by simp
qed

lemma sender_close_frames: "subseq (sender_frames (sender_close s)) (sender_frames s)"
  by (simp add: sender_close_def stop_writing_def sender_frames_def list_emb_prefix)

lemma sender_subset:
  "set (sender_frames (sender_send enc x reply s)) \<subseteq> insert (enc x) (set (sender_frames s))"
  "set (sender_frames (sender_on_writable rs s)) \<subseteq> set (sender_frames s)"
  "set (sender_frames (sender_close s)) \<subseteq> set (sender_frames s)"
proof -
  show "set (sender_frames (sender_send enc x reply s)) \<subseteq> insert (enc x) (set (sender_frames s))"
  proof (cases "sn_closing s")
    case True
    then show ?thesis by (auto simp: sender_closed_send)
  next
    case False
    show ?thesis using subseq_subset [OF sender_send_frames(1) [OF False, of enc x reply]] by simp
  qed
qed (rule subseq_subset [OF on_writable_frames(1)], rule subseq_subset [OF sender_close_frames])

section \<open>The receiver keeps the order\<close>

definition readable :: "('f \<Rightarrow> nat) \<Rightarrow> ('f \<Rightarrow> 'a option) \<Rightarrow> nat \<Rightarrow> 'f list \<Rightarrow> bool" where
  "readable bytes dec n fs = (\<forall>f\<in>set fs. bytes f \<le> n \<and> dec f \<noteq> None)"

lemma drain_socket_all:
  "drain_socket bytes dec n fault fs = (xs, rest, e) \<Longrightarrow>
     subseq (xs @ List.map_filter dec rest) (List.map_filter dec fs) \<and> set rest \<subseteq> set fs
     \<and> (readable bytes dec n fs \<longrightarrow> xs @ List.map_filter dec rest = List.map_filter dec fs \<and> e \<noteq> Truncated
          \<and> (fault = None \<longrightarrow> rest = []))"
proof (induction fs arbitrary: fault xs rest e)
  case (Cons f fs)
  obtain ys r d where d: "drain_socket bytes dec n (map_option (\<lambda>k. k - Suc 0) fault) fs = (ys, r, d)" by (metis prod_cases3)
  show ?case using Cons.IH [OF d] Cons.prems
    by (auto simp: readable_def List.map_filter_simps d split: if_splits option.splits)
qed (auto simp: readable_def List.map_filter_simps split: if_splits)

lemma drain_socket_spec:
  assumes "drain_socket bytes dec n fault fs = (xs, rest, e)"
  shows "subseq (xs @ List.map_filter dec rest) (List.map_filter dec fs)" "set rest \<subseteq> set fs"
    "readable bytes dec n fs \<Longrightarrow> xs @ List.map_filter dec rest = List.map_filter dec fs \<and> e \<noteq> Truncated"
    "readable bytes dec n fs \<Longrightarrow> fault = None \<Longrightarrow> rest = []"
  using drain_socket_all [OF assms] by blast+

lemma on_readable_cases:
  assumes "drain_socket bytes dec (rv_buf_len r) fault (rv_socket r) = (xs, rest, e)"
  shows "snd (receiver_on_readable bytes dec fault r) =
    (if rv_closing r then r\<lparr>rv_soon := False\<rparr>
     else r\<lparr>rv_deque := rv_deque r @ xs, rv_socket := rest, rv_soon := (e \<noteq> Truncated \<and> xs \<noteq> [] \<and> rest \<noteq> []),
            rv_waiter := (if e = Truncated \<or> xs = [] then rv_waiter r else map_option (\<lambda>_. True) (rv_waiter r))\<rparr>)"
  using assms by (simp add: receiver_on_readable_def Let_def wake_def)

lemma on_readable_arriving:
  "subseq (arriving dec (snd (receiver_on_readable bytes dec fault r))) (arriving dec r)"
  "set (rv_socket (snd (receiver_on_readable bytes dec fault r))) \<subseteq> set (rv_socket r)"
  "rv_buf_len (snd (receiver_on_readable bytes dec fault r)) = rv_buf_len r"
  "readable bytes dec (rv_buf_len r) (rv_socket r)
     \<Longrightarrow> arriving dec (snd (receiver_on_readable bytes dec fault r)) = arriving dec r"
proof -
  obtain xs rest e where d: "drain_socket bytes dec (rv_buf_len r) fault (rv_socket r) = (xs, rest, e)" by (metis prod_cases3)
  note f = drain_socket_spec [OF d]
  show "subseq (arriving dec (snd (receiver_on_readable bytes dec fault r))) (arriving dec r)"
    "set (rv_socket (snd (receiver_on_readable bytes dec fault r))) \<subseteq> set (rv_socket r)"
    "rv_buf_len (snd (receiver_on_readable bytes dec fault r)) = rv_buf_len r"
    "readable bytes dec (rv_buf_len r) (rv_socket r)
       \<Longrightarrow> arriving dec (snd (receiver_on_readable bytes dec fault r)) = arriving dec r"
    using f subseq_front [OF f(1), of "rv_deque r"] by (simp_all add: on_readable_cases [OF d] arriving_def)
qed

text \<open>The receiver's reading operations move a message from the deque to the caller.\<close>

definition outcome_list :: "'a recv_outcome \<Rightarrow> 'a list" where
  "outcome_list x = (case x of Received y \<Rightarrow> [y] | _ \<Rightarrow> [])"

lemma recv_loop_moves:
  fixes dec :: "'f \<Rightarrow> 'a option"
  shows "outcome_list (fst (recv_loop r)) @ arriving dec (snd (recv_loop r)) = arriving dec r"
  "rv_socket (snd (recv_loop r)) = rv_socket r" "rv_buf_len (snd (recv_loop r)) = rv_buf_len r"
  by (simp_all add: recv_loop_def outcome_list_def arriving_def split: list.splits)

lemma recv_resume_moves:
  "outcome_list (fst (recv_resume r)) @ arriving dec (snd (recv_resume r)) = arriving dec r"
  "rv_socket (snd (recv_resume r)) = rv_socket r" "rv_buf_len (snd (recv_resume r)) = rv_buf_len r"
  using recv_loop_moves [of "r\<lparr>rv_waiter := None\<rparr>"]
  by (simp_all add: recv_resume_def outcome_list_def arriving_def)

section \<open>One step of a channel\<close>

definition clear :: "('f \<Rightarrow> nat) \<Rightarrow> ('f \<Rightarrow> 'a option) \<Rightarrow> ('f, 'a) channel \<Rightarrow> bool" where
  "clear bytes dec c =
     (readable (bytes \<circ> snd) (tag_dec dec) (rv_buf_len (ch_receiver c)) (rv_socket (ch_receiver c))
      \<and> (\<forall>i. readable bytes dec (rv_buf_len (ch_receiver c)) (sender_frames (ch_senders c i))))"

lemma readable_mono: "readable bytes dec n fs \<Longrightarrow> set fs' \<subseteq> set fs \<Longrightarrow> readable bytes dec n fs'"
  by (auto simp: readable_def)

lemma channel_steps_sent:
  "ch_sent (channel_step bytes enc dec c e) i =
     ch_sent c i @ (case e of ChSend j x r \<Rightarrow> if j = i \<and> \<not> sn_closing (ch_senders c j) then [x] else [] | _ \<Rightarrow> [])"
  by (cases e) (auto simp: at_sender_def take_outcome_def split: option.splits prod.splits)

lemma take_outcome_simps [simp]:
  "ch_senders (take_outcome c r) = ch_senders c" "ch_receiver (take_outcome c r) = snd r"
  "ch_got (take_outcome c r) = ch_got c @ outcome_list (fst r)" "ch_sent (take_outcome c r) = ch_sent c"
  by (simp_all add: take_outcome_def outcome_list_def split: recv_outcome.splits)

lemma at_sender_simps [simp]:
  "ch_senders (at_sender i g c) = (ch_senders c)(i := g (ch_senders c i))" "ch_receiver (at_sender i g c) = ch_receiver c"
  "ch_got (at_sender i g c) = ch_got c" "ch_sent (at_sender i g c) = ch_sent c"
  by (simp_all add: at_sender_def)

lemma content_same_receiver:
  "ch_senders c' = (ch_senders c)(j := t) \<Longrightarrow> ch_receiver c' = ch_receiver c \<Longrightarrow> ch_got c' = ch_got c
    \<Longrightarrow> content dec i c' = (if i = j then msgs_of i (ch_got c @ arriving (tag_dec dec) (ch_receiver c))
          @ List.map_filter dec (sender_frames t) else content dec i c)"
  by (simp add: content_def)

lemma content_same_senders:
  assumes "ch_senders c' = ch_senders c"
    "ch_got c' @ arriving (tag_dec dec) (ch_receiver c') = ch_got c @ arriving (tag_dec dec) (ch_receiver c)"
  shows "content dec i c' = content dec i c"
  using assms by (simp add: content_def flip: msgs_of_simps(2))

lemma poll_step:
  "ch_senders (channel_step bytes enc dec c ChPoll) = ch_senders c"
  "ch_got (channel_step bytes enc dec c ChPoll) @ arriving d (ch_receiver (channel_step bytes enc dec c ChPoll))
     = ch_got c @ arriving d (ch_receiver c)"
  "rv_socket (ch_receiver (channel_step bytes enc dec c ChPoll)) = rv_socket (ch_receiver c)"
  "rv_buf_len (ch_receiver (channel_step bytes enc dec c ChPoll)) = rv_buf_len (ch_receiver c)"
  by (simp_all add: receiver_poll_def arriving_def split: list.splits)

lemma transmit_content: "content dec i (channel_step bytes enc dec c (ChTransmit j k)) = content dec i c"
proof -
  have "List.map_filter dec (sn_wire (ch_senders c j)) =
      List.map_filter dec (take k (sn_wire (ch_senders c j))) @ List.map_filter dec (drop k (sn_wire (ch_senders c j)))"
    by (simp flip: map_filter_append)
  then show ?thesis by (simp add: content_def arriving_def sender_frames_def map_filter_tags)
qed

lemma receive_step:
  assumes "e \<in> {ChRecv, ChResume, ChCancel, ChCloseReceiver}"
  shows "ch_senders (channel_step bytes enc dec c e) = ch_senders c"
    "ch_got (channel_step bytes enc dec c e) @ arriving d (ch_receiver (channel_step bytes enc dec c e))
       = ch_got c @ arriving d (ch_receiver c)"
    "rv_socket (ch_receiver (channel_step bytes enc dec c e)) = rv_socket (ch_receiver c)"
    "rv_buf_len (ch_receiver (channel_step bytes enc dec c e)) = rv_buf_len (ch_receiver c)"
  using assms recv_loop_moves(1) [where r = "ch_receiver c" and dec = d] recv_loop_moves(2,3) [where r = "ch_receiver c"]
    recv_resume_moves(1) [where r = "ch_receiver c" and dec = d] recv_resume_moves(2,3) [where r = "ch_receiver c"]
  by (auto simp: recv_begin_def recv_cancel_def receiver_close_def wake_def arriving_def)

text \<open>What a send adds.\<close>

definition adds :: "('f, 'a) channel \<Rightarrow> 'a channel_event \<Rightarrow> nat \<Rightarrow> 'a list" where
  "adds c e i = (case e of ChSend j x r \<Rightarrow> if j = i \<and> \<not> sn_closing (ch_senders c j) then [x] else [] | _ \<Rightarrow> [])"

lemma step_sent: "ch_sent (channel_step bytes enc dec c e) i = ch_sent c i @ adds c e i"
  by (simp add: channel_steps_sent adds_def)

lemma step_content:
  assumes codec: "\<And>x. dec (enc x) = Some x"
  shows "subseq (content dec i (channel_step bytes enc dec c e)) (content dec i c @ adds c e i)"
proof (cases e)
  case (ChSend j x r)
  show ?thesis
  proof (cases "j = i \<and> \<not> sn_closing (ch_senders c j)")
    case True
    then have "\<not> sn_closing (ch_senders c i)" by auto
    then have "subseq (List.map_filter dec (sender_frames (sender_send enc x r (ch_senders c i))))
        (List.map_filter dec (sender_frames (ch_senders c i)) @ [x])"
      using map_filter_subseq [OF sender_send_frames(1) [of "ch_senders c i" enc x r], of dec]
      by (simp add: List.map_filter_simps codec)
    moreover have "content dec i (channel_step bytes enc dec c e) = msgs_of i (ch_got c @ arriving (tag_dec dec) (ch_receiver c))
        @ List.map_filter dec (sender_frames (sender_send enc x r (ch_senders c i)))" "adds c e i = [x]"
      using True ChSend by (auto simp: content_def adds_def)
    ultimately show ?thesis by (simp add: content_def subseq_front)
  next
    case False
    then show ?thesis by (auto simp: ChSend content_def adds_def sender_closed_send)
  qed
next
  case (ChWritable j rs)
  then show ?thesis using map_filter_subseq [OF on_writable_frames(1) [of rs "ch_senders c j"], of dec]
    by (auto simp: adds_def content_def intro!: subseq_front)
next
  case (ChCloseSender j)
  then show ?thesis using map_filter_subseq [OF sender_close_frames [of "ch_senders c j"], of dec]
    by (auto simp: adds_def content_def intro!: subseq_front)
next
  case (ChReadable fault)
  have "subseq (msgs_of i (arriving (tag_dec dec) (snd (receiver_on_readable (bytes \<circ> snd) (tag_dec dec) fault (ch_receiver c)))))
      (msgs_of i (arriving (tag_dec dec) (ch_receiver c)))"
    by (rule msgs_of_subseq [OF on_readable_arriving(1)])
  with ChReadable show ?thesis by (simp add: content_def adds_def list_emb_append_mono subseq_front)
next
  case (ChTransmit j k)
  then show ?thesis by (simp only: transmit_content) (simp add: adds_def)
next
  case ChPoll
  then show ?thesis by (simp only: content_same_senders [OF poll_step(1,2)]) (simp add: adds_def)
qed (simp_all only: content_same_senders [OF receive_step(1,2)] insert_iff simp_thms, simp_all add: adds_def)

lemma step_content_lossless:
  assumes codec: "\<And>x. dec (enc x) = Some x" and "clear bytes dec c"
    and "lossless bytes enc (rv_buf_len (ch_receiver c)) e"
  shows "content dec i (channel_step bytes enc dec c e) = content dec i c @ adds c e i"
proof (cases e)
  case (ChSend j x r)
  show ?thesis
  proof (cases "sn_closing (ch_senders c j)")
    case True
    then show ?thesis by (auto simp: ChSend content_def adds_def sender_closed_send)
  next
    case False
    with ChSend assms(3) sender_send_frames(2) [OF False, of r enc x] show ?thesis
      by (auto simp: content_def adds_def List.map_filter_simps codec)
  qed
next
  case (ChWritable j rs)
  with assms(3) on_writable_frames(2) [of rs "ch_senders c j"] show ?thesis
    by (auto simp: content_def adds_def)
next
  case (ChCloseSender j)
  with assms(3) show ?thesis by simp
next
  case (ChReadable fault)
  have "readable (bytes \<circ> snd) (tag_dec dec) (rv_buf_len (ch_receiver c)) (rv_socket (ch_receiver c))"
    using assms(2) by (simp add: clear_def)
  with ChReadable show ?thesis by (simp add: content_def adds_def on_readable_arriving(4))
next
  case (ChTransmit j k)
  then show ?thesis by (simp only: transmit_content) (simp add: adds_def)
next
  case ChPoll
  then show ?thesis by (simp only: content_same_senders [OF poll_step(1,2)]) (simp add: adds_def)
qed (simp_all only: content_same_senders [OF receive_step(1,2)] insert_iff simp_thms, simp_all add: adds_def)

lemma step_buf_len: "rv_buf_len (ch_receiver (channel_step bytes enc dec c e)) = rv_buf_len (ch_receiver c)"
proof (cases e)
  case ChPoll
  then show ?thesis by (simp only: poll_step)
next
  case (ChReadable fault)
  then show ?thesis by (simp add: on_readable_arriving(3))
qed (simp_all only: receive_step insert_iff simp_thms, simp_all)

lemma clear_sender:
  assumes "clear bytes dec c" "set (sender_frames t) \<subseteq> insert f (set (sender_frames (ch_senders c j)))"
    "bytes f \<le> rv_buf_len (ch_receiver c)" "dec f \<noteq> None"
    "ch_senders c' = (ch_senders c)(j := t)" "ch_receiver c' = ch_receiver c"
  shows "clear bytes dec c'"
  using assms by (auto simp: clear_def readable_def)

lemma step_clear:
  assumes codec: "\<And>x. dec (enc x) = Some x" and "clear bytes dec c"
    and "lossless bytes enc (rv_buf_len (ch_receiver c)) e"
  shows "clear bytes dec (channel_step bytes enc dec c e)"
proof (cases e)
  case (ChSend j x r)
  show ?thesis
    by (rule clear_sender [OF assms(2) sender_subset(1), where j = j])
      (use ChSend assms(3) in \<open>simp_all add: codec\<close>)
next
  case (ChWritable j rs)
  have "clear bytes dec (at_sender j (sender_on_writable rs) c)"
    using assms(2) sender_subset(2) [of rs "ch_senders c j"] by (auto simp: clear_def readable_def)
  with ChWritable show ?thesis by simp
next
  case (ChCloseSender j)
  with assms(3) show ?thesis by simp
next
  case (ChTransmit j k)
  define w where "w = sn_wire (ch_senders c j)"
  define c1 where "c1 = at_sender j (\<lambda>s. s\<lparr>sn_wire := drop k (sn_wire s)\<rparr>) c"
  have part: "set (take k w) \<subseteq> set (sender_frames (ch_senders c j))" "set (drop k w) \<subseteq> set (sender_frames (ch_senders c j))"
    by (auto simp: sender_frames_def w_def dest: in_set_takeD in_set_dropD)
  have "readable (bytes \<circ> snd) (tag_dec dec) (rv_buf_len (ch_receiver c)) (map (Pair j) (take k w))"
    using assms(2) part(1) by (auto simp: clear_def readable_def tag_dec_def)
  moreover have "clear bytes dec c1"
  proof -
    have "set (sender_frames (ch_senders c1 j)) \<subseteq> set (sender_frames (ch_senders c j))"
      using part(2) by (auto simp: c1_def sender_frames_def w_def)
    then have "readable bytes dec (rv_buf_len (ch_receiver c)) (sender_frames (ch_senders c1 i))" for i
      using assms(2) readable_mono [of bytes dec _ "sender_frames (ch_senders c j)" "sender_frames (ch_senders c1 j)"]
      by (cases "i = j") (simp_all add: clear_def c1_def)
    with assms(2) show ?thesis by (simp add: clear_def c1_def)
  qed
  ultimately have "clear bytes dec (c1\<lparr>ch_receiver := (ch_receiver c)\<lparr>rv_socket := rv_socket (ch_receiver c) @ map (Pair j) (take k w)\<rparr>\<rparr>)"
    by (auto simp: clear_def readable_def c1_def)
  with ChTransmit show ?thesis by (simp add: c1_def w_def)
next
  case (ChReadable fault)
  have "readable (bytes \<circ> snd) (tag_dec dec) (rv_buf_len (ch_receiver c))
      (rv_socket (snd (receiver_on_readable (bytes \<circ> snd) (tag_dec dec) fault (ch_receiver c))))"
    by (rule readable_mono [OF _ on_readable_arriving(2)]) (use assms(2) in \<open>simp add: clear_def\<close>)
  with assms(2) ChReadable show ?thesis by (simp add: clear_def on_readable_arriving(3))
next
  case ChPoll
  with assms(2) show ?thesis by (simp only: clear_def poll_step simp_thms)
qed (use assms(2) in \<open>simp_all only: clear_def receive_step insert_iff simp_thms\<close>)

section \<open>Channels keep their messages in order\<close>

lemma subseq_step: "subseq a (b @ x) \<Longrightarrow> subseq b c \<Longrightarrow> subseq a (c @ x)"
  using subseq_order.order_trans list_emb_append_mono [of "(=)" b c x x] by fastforce

lemma channel_subseq:
  assumes codec: "\<And>x. dec (enc x) = Some x"
  shows "subseq (content dec i (foldl (channel_step bytes enc dec) (channel_init n) es))
    (ch_sent (foldl (channel_step bytes enc dec) (channel_init n) es) i)"
proof (induction es rule: rev_induct)
  case Nil
  show ?case by (simp add: content_def channel_init_def sender_init_def receiver_init_def arriving_def
      sender_frames_def List.map_filter_simps)
next
  case (snoc e es)
  then show ?case
    using subseq_step [OF step_content [where dec = dec and enc = enc and i = i, OF codec]] by (simp add: step_sent)
qed

lemma channel_lossless:
  assumes codec: "\<And>x. dec (enc x) = Some x" and "\<forall>e\<in>set es. lossless bytes enc n e"
  shows "content dec i (foldl (channel_step bytes enc dec) (channel_init n) es)
      = ch_sent (foldl (channel_step bytes enc dec) (channel_init n) es) i
    \<and> clear bytes dec (foldl (channel_step bytes enc dec) (channel_init n) es)
    \<and> rv_buf_len (ch_receiver (foldl (channel_step bytes enc dec) (channel_init n) es)) = n"
  using assms(2)
proof (induction es rule: rev_induct)
  case Nil
  show ?case by (simp add: content_def channel_init_def sender_init_def receiver_init_def arriving_def
      sender_frames_def List.map_filter_simps clear_def readable_def)
next
  case (snoc e es)
  define c where "c = foldl (channel_step bytes enc dec) (channel_init n) es"
  from snoc have IH: "content dec i c = ch_sent c i" "clear bytes dec c" "rv_buf_len (ch_receiver c) = n"
    and e: "lossless bytes enc (rv_buf_len (ch_receiver c)) e" by (simp_all add: c_def)
  show ?case
    using step_content_lossless [OF codec IH(2) e, of i] step_clear [OF codec IH(2) e] IH
    by (simp add: step_sent step_buf_len flip: c_def)
qed

text \<open>What the receiver hands out from a sender is, in the order of sending, a selection of what that
  sender was given; when no socket fails, no sender is closed and every message fits the receive buffer,
  it is all of it up to what is still under way, whatever the sockets and callbacks do in between.\<close>

theorem channel_keeps_every_message:
  assumes codec: "\<And>x. dec (enc x) = Some x" and c: "c = foldl (channel_step bytes enc dec) (channel_init n) es"
  shows "subseq (msgs_of i (ch_got c)) (ch_sent c i)
    \<and> ((\<forall>e\<in>set es. lossless bytes enc n e) \<longrightarrow>
         ch_sent c i = msgs_of i (ch_got c @ rv_deque (ch_receiver c))
           @ msgs_of i (List.map_filter (tag_dec dec) (rv_socket (ch_receiver c)))
           @ List.map_filter dec (sn_wire (ch_senders c i) @ sn_buffer (ch_senders c i)))"
proof -
  have "subseq (msgs_of i (ch_got c)) (content dec i c)" by (simp add: content_def list_emb_prefix)
  then have "subseq (msgs_of i (ch_got c)) (ch_sent c i)"
    using channel_subseq [where dec = dec and enc = enc and i = i, OF codec] unfolding c
    by (rule subseq_order.order_trans)
  moreover have "ch_sent c i = content dec i c" if "\<forall>e\<in>set es. lossless bytes enc n e"
    using channel_lossless [where dec = dec and enc = enc and i = i, OF codec that] by (simp add: c)
  ultimately show ?thesis by (auto simp: content_def arriving_def sender_frames_def)
qed

definition example_channel :: "string channel_event list" where
  "example_channel =
     [ChSend 0 ''a'' Accepted, ChSend 1 ''b'' WouldBlock, ChTransmit 0 1, ChRecv, ChReadable None, ChResume,
      ChWritable 1 (\<lambda>_. Accepted), ChTransmit 1 1, ChReadable None, ChPoll]"

lemma channel_keeps_every_message_witness:
  "ch_sent (foldl (channel_step length id Some) (channel_init 4) example_channel) 1 = [''b'']
   \<and> msgs_of 1 (ch_got (foldl (channel_step length id Some) (channel_init 4) example_channel)) = [''b'']"
proof -
  let ?c = "foldl (channel_step length id Some) (channel_init 4 :: (string, string) channel) example_channel"
  have "\<forall>e\<in>set example_channel. lossless length id 4 e" by (simp add: example_channel_def)
  then have "ch_sent ?c 1 = msgs_of 1 (ch_got ?c @ rv_deque (ch_receiver ?c))
      @ msgs_of 1 (List.map_filter (tag_dec Some) (rv_socket (ch_receiver ?c)))
      @ List.map_filter Some (sn_wire (ch_senders ?c 1) @ sn_buffer (ch_senders ?c 1))"
    using channel_keeps_every_message [of Some id ?c length 4 example_channel 1] by simp
  moreover have "ch_got ?c = [(0, ''a''), (1, ''b'')]" "rv_deque (ch_receiver ?c) = []"
    "rv_socket (ch_receiver ?c) = []" "sender_frames (ch_senders ?c 1) = []"
    by (simp_all add: example_channel_def channel_init_def sender_init_def receiver_init_def sender_send_def
        buffer_frame_def recv_begin_def recv_loop_def take_outcome_def receiver_on_readable_def tag_dec_def Let_def
        wake_def recv_resume_def sender_on_writable_def stop_writing_def receiver_poll_def sender_frames_def at_sender_def)
  ultimately show ?thesis by (simp add: sender_frames_def List.map_filter_simps)
qed

section \<open>A suspended reader has nothing to read\<close>

definition reader_ok :: "('f, 'a) receiver \<Rightarrow> bool" where
  "reader_ok r = (rv_waiter r = Some False \<longrightarrow> rv_deque r = [] \<and> \<not> rv_closing r)"

lemma recv_loop_ok: "reader_ok (snd (recv_loop r))" if "rv_waiter r = None"
  using that by (simp add: recv_loop_def reader_ok_def split: list.splits)

lemma receiver_ops_ok:
  assumes "reader_ok r"
  shows "reader_ok (snd (receiver_poll r))" "reader_ok (snd (recv_resume r))" "reader_ok (recv_cancel r)"
    "reader_ok (receiver_close r)" "rv_waiter r = None \<Longrightarrow> reader_ok (snd (recv_begin r))"
  using assms recv_loop_ok [of "r\<lparr>rv_waiter := None\<rparr>"] recv_loop_ok [of r]
  by (auto simp: reader_ok_def receiver_poll_def recv_resume_def recv_cancel_def receiver_close_def wake_def recv_begin_def
      split: list.splits)

lemma on_readable_ok:
  assumes "reader_ok r" "readable bytes dec (rv_buf_len r) (rv_socket r)"
  shows "reader_ok (snd (receiver_on_readable bytes dec fault r))"
proof -
  obtain xs rest e where d: "drain_socket bytes dec (rv_buf_len r) fault (rv_socket r) = (xs, rest, e)" by (metis prod_cases3)
  show ?thesis using assms(1) drain_socket_spec(3) [OF d assms(2)]
    by (auto simp: on_readable_cases [OF d] reader_ok_def)
qed

lemma step_reader_ok:
  assumes "reader_ok (ch_receiver c)" "clear bytes dec c"
  shows "reader_ok (ch_receiver (channel_step bytes enc dec c e))"
  using assms receiver_ops_ok [OF assms(1)] on_readable_ok [OF assms(1)]
  by (cases e) (auto simp: clear_def reader_ok_def [of "_\<lparr>rv_socket := _\<rparr>"] reader_ok_def [of "ch_receiver c"] split: prod.splits option.splits)

text \<open>On messages that fit the receive buffer, a \<open>recv\<close> whose future is pending has nothing to
  read and its channel is open; one more callback of a readable socket completes it, and it then
  returns the first message that had arrived.\<close>

theorem suspended_recv_has_nothing_to_read:
  assumes codec: "\<And>x. dec (enc x) = Some x" and ok: "\<forall>e\<in>set es. lossless bytes enc n e"
    and c: "c = foldl (channel_step bytes enc dec) (channel_init n) es"
    and susp: "rv_waiter (ch_receiver c) = Some False"
  shows "rv_deque (ch_receiver c) = [] \<and> \<not> rv_closing (ch_receiver c)
    \<and> (\<forall>f fs. rv_socket (ch_receiver c) = f # fs \<longrightarrow>
        (\<exists>x. tag_dec dec f = Some x
          \<and> ch_got (foldl (channel_step bytes enc dec) c [ChReadable None, ChResume]) = ch_got c @ [x]))"
proof -
  have run: "reader_ok (ch_receiver (foldl (channel_step bytes enc dec) (channel_init n) es))
      \<and> clear bytes dec (foldl (channel_step bytes enc dec) (channel_init n) es)"
    using ok
  proof (induction es rule: rev_induct)
    case Nil
    show ?case by (simp add: reader_ok_def channel_init_def receiver_init_def sender_init_def clear_def readable_def sender_frames_def)
  next
    case (snoc e es)
    then show ?case
      using step_reader_ok channel_lossless [where dec = dec and enc = enc and es = "es @ [e]", OF codec] by fastforce
  qed
  define r where "r = ch_receiver c"
  have r: "rv_deque r = []" "\<not> rv_closing r" "readable (bytes \<circ> snd) (tag_dec dec) (rv_buf_len r) (rv_socket r)"
    using run susp by (simp_all add: c r_def reader_ok_def clear_def)
  have "\<exists>x. tag_dec dec f = Some x \<and> ch_got (foldl (channel_step bytes enc dec) c [ChReadable None, ChResume]) = ch_got c @ [x]"
    if f: "rv_socket r = f # fs" for f fs
  proof -
    obtain xs rest e where d: "drain_socket (bytes \<circ> snd) (tag_dec dec) (rv_buf_len r) None (f # fs) = (xs, rest, e)" by (metis prod_cases3)
    obtain x where x: "tag_dec dec f = Some x" using r(3) by (auto simp: readable_def f)
    have xs: "xs = x # List.map_filter (tag_dec dec) fs" "e \<noteq> Truncated"
      using drain_socket_spec(3,4) [OF d] r(3) by (auto simp: f x List.map_filter_simps)
    show ?thesis using x xs susp r
      by (simp add: on_readable_cases [OF d [folded f]] recv_resume_def recv_loop_def outcome_list_def flip: r_def)
  qed
  with r show ?thesis by (simp add: r_def)
qed

lemma suspended_recv_has_nothing_to_read_witness:
  "ch_got (foldl (channel_step length id Some)
      (foldl (channel_step length id Some) (channel_init 4 :: (string, string) channel)
        [ChRecv, ChSend 0 ''a'' Accepted, ChTransmit 0 1])
      [ChReadable None, ChResume]) = [(0, ''a'')]"
proof -
  let ?es = "[ChRecv, ChSend 0 ''a'' Accepted, ChTransmit 0 1] :: string channel_event list"
  let ?c = "foldl (channel_step length id Some) (channel_init 4 :: (string, string) channel) ?es"
  have s: "rv_waiter (ch_receiver ?c) = Some False" "rv_socket (ch_receiver ?c) = [(0, ''a'')]" "ch_got ?c = []"
    by (simp_all add: channel_init_def sender_init_def receiver_init_def sender_send_def recv_begin_def recv_loop_def
        take_outcome_def at_sender_def)
  show ?thesis
    using suspended_recv_has_nothing_to_read [where dec = Some and enc = id and bytes = length and n = 4 and es = ?es, OF _ _ refl s(1)] s
    by (simp add: tag_dec_def)
qed

text \<open>The callback that meets a message too long raises: what it had decoded stays in the deque while
  the reader sleeps.\<close>

lemma truncated_message_strands_the_reader:
  "ch_receiver (foldl (channel_step length id Some) (channel_init 4 :: (string, string) channel)
     [ChRecv, ChSend 0 ''a'' Accepted, ChSend 0 ''too long'' Accepted, ChTransmit 0 2, ChReadable None])
   = \<lparr>rv_buf_len = 4, rv_socket = [], rv_deque = [(0, ''a'')], rv_waiter = Some False, rv_closing = False, rv_soon = False\<rparr>"
  by (simp add: channel_init_def sender_init_def receiver_init_def sender_send_def recv_begin_def recv_loop_def
      take_outcome_def at_sender_def receiver_on_readable_def tag_dec_def Let_def)

text \<open>A first message that cannot be decoded ends the callback without another being scheduled: the
  messages behind it wait for the next edge.\<close>

lemma undecodable_message_blocks_the_next:
  "ch_receiver (foldl (channel_step length id (\<lambda>f. if f = ''bad'' then None else Some f)) (channel_init 4 :: (string, string) channel)
     [ChRecv, ChSend 0 ''bad'' Accepted, ChSend 0 ''ok'' Accepted, ChTransmit 0 2, ChReadable None])
   = \<lparr>rv_buf_len = 4, rv_socket = [(0, ''ok'')], rv_deque = [], rv_waiter = Some False, rv_closing = False, rv_soon = False\<rparr>"
  by (simp add: channel_init_def sender_init_def receiver_init_def sender_send_def recv_begin_def recv_loop_def
      take_outcome_def at_sender_def receiver_on_readable_def tag_dec_def Let_def)

section \<open>The client deals its queries out in turn\<close>

definition issue_all :: "('a \<Rightarrow> 'q) \<Rightarrow> ('a \<times> socket_reply) list \<Rightarrow> ('q, 'f, 'b) client \<Rightarrow> ('q, 'f, 'b) client" where
  "issue_all enc xs c = foldl (\<lambda>c (x, r). client_issue enc x r c) c xs"

definition dealt :: "nat \<Rightarrow> nat \<Rightarrow> 'x list \<Rightarrow> 'x list" where
  "dealt n w xs = map ((!) xs) (filter (\<lambda>k. k mod n = w) [0..<length xs])"

definition send_all :: "('a \<Rightarrow> 'q) \<Rightarrow> ('a \<times> socket_reply) list \<Rightarrow> 'q sender \<Rightarrow> 'q sender" where
  "send_all enc xs s = foldl (\<lambda>s (x, r). sender_send enc x r s) s xs"

lemma dealt_snoc: "dealt n w (xs @ [x]) = dealt n w xs @ (if length xs mod n = w then [x] else [])"
  by (auto simp: dealt_def nth_append intro: map_cong)

text \<open>Query number \<open>k\<close> goes to worker \<open>k mod n\<close> and to no other, in order, until the client shuts
  down; from then on queries are counted as dropped and sent to nobody.\<close>

theorem queries_are_dealt_in_turn:
  fixes c :: "('q, 'f, 'b) client"
  assumes "w < n" and c: "c = issue_all enc xs (client_init n b)"
  shows "cl_senders c ! w = send_all enc (dealt n w xs) sender_init \<and> cl_dropped c = 0
    \<and> cl_senders (issue_all enc ys (client_shutdown c)) = cl_senders c
    \<and> cl_dropped (issue_all enc ys (client_shutdown c)) = length ys"
proof -
  have pos: "0 < n" using assms by simp
  have run: "length (cl_senders c) = n \<and> cl_num_workers c = n \<and> \<not> cl_shutdown c \<and> cl_dropped c = 0
      \<and> cl_next c = length xs mod n \<and> (\<forall>w<n. cl_senders c ! w = send_all enc (dealt n w xs) sender_init)"
    unfolding c
  proof (induction xs rule: rev_induct)
    case Nil
    show ?case by (simp add: issue_all_def client_init_def send_all_def dealt_def)
  next
    case (snoc p xs)
    obtain x r where p: "p = (x, r)" by force
    define d :: "('q, 'f, 'b) client" where "d = issue_all enc xs (client_init n b)"
    have step: "issue_all enc (xs @ [p]) (client_init n b) = client_issue enc x r d"
      by (simp add: issue_all_def d_def p)
    have d: "length (cl_senders d) = n" "cl_num_workers d = n" "\<not> cl_shutdown d" "cl_dropped d = 0"
      "cl_next d = length xs mod n" "\<And>w. w < n \<Longrightarrow> cl_senders d ! w = send_all enc (dealt n w xs) sender_init"
      using snoc by (simp_all add: d_def)
    have at: "length xs mod n < n" using pos by simp
    then have sends: "cl_senders (client_issue enc x r d) ! w = send_all enc (dealt n w (xs @ [p])) sender_init" if "w < n" for w
      using d that by (auto simp: client_issue_def pool_send_def dealt_snoc send_all_def p nth_list_update)
    have "Suc (length xs mod n) mod n = Suc (length xs) mod n" by (simp add: mod_Suc_eq)
    with sends d show ?case by (simp add: step client_issue_def pool_send_def)
  qed
  have drop: "cl_senders (issue_all enc ys d) = cl_senders d \<and> cl_dropped (issue_all enc ys d) = cl_dropped d + length ys
      \<and> cl_shutdown (issue_all enc ys d)" if "cl_shutdown d" for d :: "('q, 'f, 'b) client"
    using that
  proof (induction ys rule: rev_induct)
    case Nil
    then show ?case by (simp add: issue_all_def)
  next
    case (snoc p ys)
    obtain x r where p: "p = (x, r)" by force
    have step: "issue_all enc (ys @ [p]) d = client_issue enc x r (issue_all enc ys d)" by (simp add: issue_all_def p)
    show ?case using snoc by (simp add: step client_issue_def)
  qed
  have shut: "cl_shutdown (client_shutdown c)" "cl_senders (client_shutdown c) = cl_senders c" "cl_dropped (client_shutdown c) = cl_dropped c"
    by (simp_all add: client_shutdown_def)
  show ?thesis using run assms(1) drop [OF shut(1)] shut by simp
qed

lemma queries_are_dealt_in_turn_witness:
  "sn_wire (cl_senders (issue_all id [(''a'', Accepted), (''b'', Accepted), (''c'', Accepted)]
      (client_init 2 4 :: (string, string, string) client)) ! 0) = [''a'', ''c'']"
proof -
  have w: "(0::nat) < 2" by simp
  have "cl_senders (issue_all id [(''a'', Accepted), (''b'', Accepted), (''c'', Accepted)]
      (client_init 2 4 :: (string, string, string) client)) ! 0
      = send_all id (dealt 2 0 [(''a'', Accepted), (''b'', Accepted), (''c'', Accepted)]) sender_init"
    using queries_are_dealt_in_turn [OF w refl] by blast
  then show ?thesis by (simp add: dealt_def send_all_def sender_send_def sender_init_def upt_rec)
qed

end
