(* ===== verification/Worker.thy ===== *)
theory Worker
  imports SseStream Accumulators PyValues
begin

text \<open>
  \<open>endpoint_client/worker.py\<close>: the main loop that pulls queries and fires requests, and the response
  task of each request, as steps of the event loop between awaits.  Requests are numbered as they are
  pulled, connections as the pool hands them out.  What the pool, the connection's protocol and the adapter's
  encoder and decoder answer comes with the event; the adapter is the OpenAI one with its accumulator.
  \<open>wk_sent\<close> is what was sent to the main process, each message with the number of its request.
\<close>

section \<open>Messages\<close>

record wire_result =
  wr_id :: string
  wr_output :: "text_output option"
  wr_worker_id :: int
  wr_finish_reason :: "string option"
  wr_error :: "error_data option"

datatype worker_message = ChunkMsg stream_chunk | ResultMsg wire_result

text \<open>Failures carry the exception's class name and \<open>repr\<close>.\<close>

record failure =
  fl_type :: string
  fl_repr :: string

record in_flight_request =
  if_query_id :: string
  if_http_bytes :: string
  if_is_streaming :: bool

section \<open>State\<close>

datatype phase =
    NotPulled | Acquiring | AwaitHeaders nat | AwaitErrorBody nat int | AwaitBody nat
  | Streaming nat string openai_acc | Settled

datatype main_pc = Pulling | WaitPool nat | Stopped

record worker =
  wk_id :: int
  wk_stream_all :: bool
  wk_shutdown :: bool
  wk_main :: main_pc
  wk_pulled :: nat
  wk_request :: "nat \<Rightarrow> in_flight_request"
  wk_phase :: "nat \<Rightarrow> phase"
  wk_unprepared :: "nat set"
  wk_unanswered :: "nat set"
  wk_released :: "nat list"
  wk_sent :: "(nat \<times> worker_message) list"

definition worker_init :: "int \<Rightarrow> bool \<Rightarrow> worker" where
  "worker_init i stream_all =
     \<lparr>wk_id = i, wk_stream_all = stream_all, wk_shutdown = False, wk_main = Pulling, wk_pulled = 0,
      wk_request = (\<lambda>_. \<lparr>if_query_id = [], if_http_bytes = [], if_is_streaming = False\<rparr>),
      wk_phase = (\<lambda>_. NotPulled), wk_unprepared = {}, wk_unanswered = {}, wk_released = [], wk_sent = []\<rparr>"

definition set_phase :: "nat \<Rightarrow> phase \<Rightarrow> worker \<Rightarrow> worker" where
  "set_phase n p s = s\<lparr>wk_phase := (wk_phase s)(n := p)\<rparr>"

definition respond :: "nat \<Rightarrow> worker_message list \<Rightarrow> worker \<Rightarrow> worker" where
  "respond n ms s = s\<lparr>wk_sent := wk_sent s @ map (Pair n) ms\<rparr>"

section \<open>Responses\<close>

text \<open>\<open>_handle_error\<close>: silent during shutdown, which leaves the request unanswered.\<close>

definition error_of :: "failure + string \<Rightarrow> error_data" where
  "error_of e = (case e of
       Inl f \<Rightarrow> \<lparr>error_type = fl_type f, error_message = fl_repr f\<rparr>
     | Inr msg \<Rightarrow> \<lparr>error_type = ''error'', error_message = msg\<rparr>)"

definition handle_error :: "nat \<Rightarrow> failure + string \<Rightarrow> worker \<Rightarrow> worker" where
  "handle_error n e s =
     (if wk_shutdown s then s\<lparr>wk_unanswered := insert n (wk_unanswered s)\<rparr>
      else respond n [ResultMsg \<lparr>wr_id = if_query_id (wk_request s n), wr_output = None, wr_worker_id = wk_id s,
                        wr_finish_reason = None, wr_error = Some (error_of e)\<rparr>] s)"

definition with_worker_id :: "worker \<Rightarrow> string \<Rightarrow> text_output \<Rightarrow> string option \<Rightarrow> wire_result" where
  "with_worker_id s qid out finish =
     \<lparr>wr_id = qid, wr_output = Some out, wr_worker_id = wk_id s, wr_finish_reason = finish, wr_error = None\<rparr>"

text \<open>The \<open>finally\<close> of \<open>_process_response\<close>.\<close>

definition settle_response :: "nat \<Rightarrow> nat \<Rightarrow> worker \<Rightarrow> worker" where
  "settle_response n conn s = set_phase n Settled (s\<lparr>wk_released := wk_released s @ [conn]\<rparr>)"

section \<open>The main loop\<close>

text \<open>\<open>_prepare_request\<close> raises when the query cannot be encoded.\<close>

definition prepare_request :: "(query \<Rightarrow> failure + string) \<Rightarrow> (string \<Rightarrow> bool \<Rightarrow> (string \<times> string) list \<Rightarrow> string)
    \<Rightarrow> query \<Rightarrow> failure + in_flight_request" where
  "prepare_request encode build q =
     (case encode q of
        Inl e \<Rightarrow> Inl e
      | Inr body \<Rightarrow>
          (case q_data q of
             PDict d \<Rightarrow>
               (let streaming = truthy (case dget d ''stream'' of PNone \<Rightarrow> PBool False | v \<Rightarrow> v)
                in Inr \<lparr>if_query_id = q_id q, if_http_bytes = build body streaming (q_headers q), if_is_streaming = streaming\<rparr>)
           | _ \<Rightarrow> Inl \<lparr>fl_type = ''AttributeError'', fl_repr = []\<rparr>))"

text \<open>After a query is dealt with, the loop looks at the shutdown flag before it pulls again.\<close>

definition next_pull :: "worker \<Rightarrow> worker" where
  "next_pull s = s\<lparr>wk_main := (if wk_shutdown s then Stopped else Pulling)\<rparr>"

definition pull :: "failure + in_flight_request \<Rightarrow> worker \<Rightarrow> worker" where
  "pull prepared s =
     (let n = wk_pulled s; s1 = s\<lparr>wk_pulled := Suc n\<rparr>
      in (case prepared of
            Inl e \<Rightarrow> next_pull (set_phase n Settled (s1\<lparr>wk_unprepared := insert n (wk_unprepared s1)\<rparr>))
          | Inr req \<Rightarrow>
              (let s2 = s1\<lparr>wk_request := (wk_request s1)(n := req)\<rparr>
               in if wk_shutdown s2
                  then next_pull (set_phase n Settled (handle_error n (Inr ''Worker is shutting down'') s2))
                  else set_phase n Acquiring (s2\<lparr>wk_main := WaitPool n\<rparr>))))"

text \<open>The end of \<open>_fire_request\<close>: the pool's answer, then the write; the response task starts at once.\<close>

definition fire :: "failure + nat \<Rightarrow> failure option \<Rightarrow> worker \<Rightarrow> worker" where
  "fire answer write_error s =
     (case wk_main s of
        WaitPool n \<Rightarrow>
          (case (answer, write_error) of
             (Inl e, _) \<Rightarrow> next_pull (set_phase n Settled (handle_error n (Inl e) s))
           | (Inr conn, Some e) \<Rightarrow> next_pull (set_phase n Settled (handle_error n (Inl e) s))
           | (Inr conn, None) \<Rightarrow> next_pull (set_phase n (AwaitHeaders conn) s))
      | _ \<Rightarrow> s)"

section \<open>The response task\<close>

definition headers_arrive :: "nat \<Rightarrow> failure + int \<Rightarrow> worker \<Rightarrow> worker" where
  "headers_arrive n r s =
     (case wk_phase s n of
        AwaitHeaders conn \<Rightarrow>
          (case r of
             Inl e \<Rightarrow> settle_response n conn (handle_error n (Inl e) s)
           | Inr status \<Rightarrow>
               (if status \<noteq> 200 then set_phase n (AwaitErrorBody conn status) s
                else if if_is_streaming (wk_request s n)
                then set_phase n (Streaming conn [] (openai_acc_init (if_query_id (wk_request s n)) (wk_stream_all s))) s
                else set_phase n (AwaitBody conn) s))
      | _ \<Rightarrow> s)"

definition error_body_arrives :: "nat \<Rightarrow> failure + string \<Rightarrow> worker \<Rightarrow> worker" where
  "error_body_arrives n r s =
     (case wk_phase s n of
        AwaitErrorBody conn status \<Rightarrow>
          (case r of
             Inl e \<Rightarrow> settle_response n conn (handle_error n (Inl e) s)
           | Inr body \<Rightarrow>
               settle_response n conn (handle_error n (Inr (''HTTP '' @ digits (nat status) @ '': '' @ body))
                 (s\<lparr>wk_released := wk_released s @ [conn]\<rparr>)))
      | _ \<Rightarrow> s)"

definition body_arrives ::
    "(string \<Rightarrow> failure + (text_output \<times> string option)) \<Rightarrow> nat \<Rightarrow> failure + string \<Rightarrow> worker \<Rightarrow> worker" where
  "body_arrives decode n r s =
     (case wk_phase s n of
        AwaitBody conn \<Rightarrow>
          (case r of
             Inl e \<Rightarrow> settle_response n conn (handle_error n (Inl e) s)
           | Inr body \<Rightarrow>
               (let s1 = s\<lparr>wk_released := wk_released s @ [conn]\<rparr>
                in case decode body of
                     Inl e \<Rightarrow> settle_response n conn (handle_error n (Inl e) s1)
                   | Inr (out, finish) \<Rightarrow>
                       settle_response n conn (respond n [ResultMsg (with_worker_id s1 (if_query_id (wk_request s1 n)) out finish)] s1)))
      | _ \<Rightarrow> s)"

definition pieces_arrive ::
    "(string \<Rightarrow> 'e + sse_choice option option) \<Rightarrow> nat \<Rightarrow> string list \<Rightarrow> worker \<Rightarrow> worker" where
  "pieces_arrive decode n chunks s =
     (case wk_phase s n of
        Streaming conn incomplete acc \<Rightarrow>
          (let (rest, batches) = sse_step decode (incomplete, []) chunks;
               (acc', out) = accumulate add_chunk acc (concat batches)
           in set_phase n (Streaming conn rest acc') (respond n (map ChunkMsg out) s))
      | _ \<Rightarrow> s)"

definition stream_ends ::
    "(string \<Rightarrow> 'e + sse_choice option option) \<Rightarrow> nat \<Rightarrow> failure option \<Rightarrow> worker \<Rightarrow> worker" where
  "stream_ends decode n err s =
     (case wk_phase s n of
        Streaming conn incomplete acc \<Rightarrow>
          (case err of
             Some e \<Rightarrow> settle_response n conn (handle_error n (Inl e) s)
           | None \<Rightarrow>
               (let (acc', out) = accumulate add_chunk acc (concat (sse_end decode (incomplete, [])));
                    r = get_final_output acc';
                    s1 = (respond n (map ChunkMsg out) s)\<lparr>wk_released := wk_released s @ [conn]\<rparr>
                in settle_response n conn (respond n [ResultMsg (with_worker_id s1 (fr_id r) (fr_output r) (fr_finish_reason r))] s1)))
      | _ \<Rightarrow> s)"

section \<open>Shutdown\<close>

text \<open>The flag is set and the request transport closed; a pending \<open>recv\<close> returns None.\<close>

definition shutdown_worker :: "worker \<Rightarrow> worker" where
  "shutdown_worker s = s\<lparr>wk_shutdown := True\<rparr>"

definition recv_closed :: "worker \<Rightarrow> worker" where
  "recv_closed s = (if wk_main s = Pulling then s\<lparr>wk_main := Stopped\<rparr> else s)"

fun task_conn :: "phase \<Rightarrow> nat option" where
  "task_conn (AwaitHeaders c) = Some c"
| "task_conn (AwaitErrorBody c _) = Some c"
| "task_conn (AwaitBody c) = Some c"
| "task_conn (Streaming c _ _) = Some c"
| "task_conn _ = None"

text \<open>\<open>_cleanup\<close> cancels the response tasks: each releases its connection and sends nothing.\<close>

definition cancel_task :: "nat \<Rightarrow> worker \<Rightarrow> worker" where
  "cancel_task n s =
     (case task_conn (wk_phase s n) of
        Some conn \<Rightarrow> settle_response n conn (s\<lparr>wk_unanswered := insert n (wk_unanswered s)\<rparr>)
      | None \<Rightarrow> s)"

definition cleanup :: "worker \<Rightarrow> worker" where
  "cleanup s = (if wk_main s = Stopped then foldl (\<lambda>s n. cancel_task n s) s [0..<wk_pulled s] else s)"

section \<open>Steps\<close>

datatype worker_event =
    PullQuery "failure + in_flight_request"
  | RecvClosed
  | PoolAnswers "failure + nat" "failure option"
  | HeadersArrive nat "failure + int"
  | ErrorBodyArrives nat "failure + string"
  | BodyArrives nat "failure + string"
  | PiecesArrive nat "string list"
  | StreamEnds nat "failure option"
  | Shutdown
  | Cleanup

record adapter =
  ad_decode_response :: "string \<Rightarrow> failure + (text_output \<times> string option)"
  ad_decode_sse :: "string \<Rightarrow> failure + sse_choice option option"

fun worker_step :: "adapter \<Rightarrow> worker \<Rightarrow> worker_event \<Rightarrow> worker" where
  "worker_step ad s (PullQuery prepared) = (if wk_main s = Pulling then pull prepared s else s)"
| "worker_step ad s RecvClosed = recv_closed s"
| "worker_step ad s (PoolAnswers answer write_error) = fire answer write_error s"
| "worker_step ad s (HeadersArrive n r) = headers_arrive n r s"
| "worker_step ad s (ErrorBodyArrives n r) = error_body_arrives n r s"
| "worker_step ad s (BodyArrives n r) = body_arrives (ad_decode_response ad) n r s"
| "worker_step ad s (PiecesArrive n chunks) = pieces_arrive (ad_decode_sse ad) n chunks s"
| "worker_step ad s (StreamEnds n err) = stream_ends (ad_decode_sse ad) n err s"
| "worker_step ad s Shutdown = shutdown_worker s"
| "worker_step ad s Cleanup = cleanup s"

end
