(* ===== verification/WorkerFacts.thy ===== *)
theory WorkerFacts
  imports Worker
begin

text \<open>
  Every request a worker prepared is answered by exactly one result, after its chunks, unless the worker
  shuts down first; and what a streamed request sends is determined by the bytes of its stream.
\<close>

section \<open>The messages of a request\<close>

definition messages :: "nat \<Rightarrow> worker \<Rightarrow> worker_message list" where
  "messages n s = map snd (filter (\<lambda>m. fst m = n) (wk_sent s))"

definition only_chunks :: "worker_message list \<Rightarrow> bool" where
  "only_chunks ms = (\<forall>m\<in>set ms. case m of ChunkMsg _ \<Rightarrow> True | ResultMsg _ \<Rightarrow> False)"

text \<open>Chunks, then one result for the query.\<close>

definition answered :: "string \<Rightarrow> worker_message list \<Rightarrow> bool" where
  "answered qid ms = (\<exists>cs r. ms = cs @ [ResultMsg r] \<and> only_chunks cs \<and> wr_id r = qid)"

definition request_ok :: "worker \<Rightarrow> nat \<Rightarrow> bool" where
  "request_ok s n =
     (case wk_phase s n of
        NotPulled \<Rightarrow> wk_pulled s \<le> n \<and> messages n s = []
      | Streaming conn rest acc \<Rightarrow> n < wk_pulled s \<and> only_chunks (messages n s) \<and> ac_query_id acc = if_query_id (wk_request s n)
      | Settled \<Rightarrow> n < wk_pulled s \<and>
          (if n \<in> wk_unprepared s then messages n s = []
           else if n \<in> wk_unanswered s then only_chunks (messages n s) \<and> (wk_shutdown s \<or> wk_main s = Stopped)
           else answered (if_query_id (wk_request s n)) (messages n s))
      | _ \<Rightarrow> n < wk_pulled s \<and> messages n s = [])"

definition fresh_ok :: "worker \<Rightarrow> nat \<Rightarrow> bool" where
  "fresh_ok s n = (wk_phase s n \<noteq> Settled \<longrightarrow> n \<notin> wk_unprepared s \<and> n \<notin> wk_unanswered s)"

definition main_ok :: "worker \<Rightarrow> nat \<Rightarrow> bool" where
  "main_ok s n = ((wk_phase s n = Acquiring \<longleftrightarrow> wk_main s = WaitPool n) \<and> (wk_pulled s \<le> n \<longrightarrow> wk_phase s n = NotPulled))"

definition worker_inv :: "worker \<Rightarrow> bool" where
  "worker_inv s = (\<forall>n. request_ok s n \<and> fresh_ok s n \<and> main_ok s n)"

section \<open>Operations touch one request\<close>

definition same_for :: "nat \<Rightarrow> worker \<Rightarrow> worker \<Rightarrow> bool" where
  "same_for k s s' = (wk_phase s' k = wk_phase s k \<and> messages k s' = messages k s \<and> wk_request s' k = wk_request s k
     \<and> (k \<in> wk_unprepared s' \<longleftrightarrow> k \<in> wk_unprepared s) \<and> (k \<in> wk_unanswered s' \<longleftrightarrow> k \<in> wk_unanswered s))"

lemma field_simps [simp]:
  "wk_phase (set_phase n p s) = (wk_phase s)(n := p)" "wk_sent (set_phase n p s) = wk_sent s"
  "wk_request (set_phase n p s) = wk_request s" "wk_unprepared (set_phase n p s) = wk_unprepared s"
  "wk_unanswered (set_phase n p s) = wk_unanswered s" "wk_main (set_phase n p s) = wk_main s"
  "wk_pulled (set_phase n p s) = wk_pulled s" "wk_shutdown (set_phase n p s) = wk_shutdown s"
  "wk_phase (respond n ms s) = wk_phase s" "wk_request (respond n ms s) = wk_request s"
  "wk_unprepared (respond n ms s) = wk_unprepared s" "wk_unanswered (respond n ms s) = wk_unanswered s"
  "wk_main (respond n ms s) = wk_main s" "wk_pulled (respond n ms s) = wk_pulled s" "wk_shutdown (respond n ms s) = wk_shutdown s"
  "wk_id (respond n ms s) = wk_id s" "wk_id (set_phase n p s) = wk_id s"
  by (simp_all add: set_phase_def respond_def)

lemma messages_simps [simp]:
  "messages k (set_phase n p s) = messages k s"
  "messages k (respond n ms s) = messages k s @ (if k = n then ms else [])"
  "messages k (s\<lparr>wk_released := rs\<rparr>) = messages k s" "messages k (s\<lparr>wk_main := mn\<rparr>) = messages k s"
  "messages k (s\<lparr>wk_pulled := pl\<rparr>) = messages k s" "messages k (s\<lparr>wk_request := q\<rparr>) = messages k s"
  "messages k (s\<lparr>wk_unprepared := u\<rparr>) = messages k s" "messages k (s\<lparr>wk_unanswered := u\<rparr>) = messages k s"
  "messages k (s\<lparr>wk_shutdown := b\<rparr>) = messages k s"
  by (simp_all add: messages_def set_phase_def respond_def filter_map o_def)

lemma settle_simps [simp]:
  "wk_phase (settle_response n c s) = (wk_phase s)(n := Settled)" "messages k (settle_response n c s) = messages k s"
  "wk_request (settle_response n c s) = wk_request s" "wk_unprepared (settle_response n c s) = wk_unprepared s"
  "wk_unanswered (settle_response n c s) = wk_unanswered s" "wk_main (settle_response n c s) = wk_main s"
  "wk_pulled (settle_response n c s) = wk_pulled s" "wk_shutdown (settle_response n c s) = wk_shutdown s"
  by (simp_all add: settle_response_def)

lemma next_pull_simps [simp]:
  "wk_phase (next_pull s) = wk_phase s" "messages k (next_pull s) = messages k s"
  "wk_request (next_pull s) = wk_request s" "wk_unprepared (next_pull s) = wk_unprepared s"
  "wk_unanswered (next_pull s) = wk_unanswered s" "wk_main (next_pull s) = (if wk_shutdown s then Stopped else Pulling)"
  "wk_pulled (next_pull s) = wk_pulled s" "wk_shutdown (next_pull s) = wk_shutdown s"
  by (simp_all add: next_pull_def)

lemma handle_error_simps [simp]:
  "wk_phase (handle_error n e s) = wk_phase s" "wk_request (handle_error n e s) = wk_request s"
  "wk_unprepared (handle_error n e s) = wk_unprepared s" "wk_main (handle_error n e s) = wk_main s"
  "wk_pulled (handle_error n e s) = wk_pulled s" "wk_shutdown (handle_error n e s) = wk_shutdown s"
  "wk_unanswered (handle_error n e s) = (if wk_shutdown s then insert n (wk_unanswered s) else wk_unanswered s)"
  "messages k (handle_error n e s) = messages k s @ (if k = n \<and> \<not> wk_shutdown s
     then [ResultMsg \<lparr>wr_id = if_query_id (wk_request s n), wr_output = None, wr_worker_id = wk_id s,
             wr_finish_reason = None, wr_error = Some (error_of e)\<rparr>] else [])"
  by (simp_all add: handle_error_def)

lemma only_chunks_simps [simp]:
  "only_chunks []" "only_chunks (xs @ ys) = (only_chunks xs \<and> only_chunks ys)" "only_chunks (map ChunkMsg cs)"
  by (auto simp: only_chunks_def)

lemma answered_snoc [simp]:
  "answered qid (cs @ [ResultMsg r]) \<longleftrightarrow> only_chunks cs \<and> wr_id r = qid"
  "answered qid [ResultMsg r] \<longleftrightarrow> wr_id r = qid"
  by (auto simp: answered_def)

text \<open>An operation of a task: it keeps the main loop and every other request, and its own becomes fine.\<close>

lemma worker_inv_local:
  assumes "worker_inv s" "\<And>k. k \<noteq> n \<Longrightarrow> same_for k s s'" "wk_main s' = wk_main s" "wk_pulled s' = wk_pulled s"
    "wk_shutdown s' = wk_shutdown s" "request_ok s' n" "fresh_ok s' n" "wk_phase s n \<noteq> Acquiring" "wk_phase s' n \<noteq> Acquiring"
    "n < wk_pulled s"
  shows "worker_inv s'"
  unfolding worker_inv_def
proof
  fix k
  have inv: "request_ok s k" "fresh_ok s k" "main_ok s k" "main_ok s n" using assms(1) by (simp_all add: worker_inv_def)
  show "request_ok s' k \<and> fresh_ok s' k \<and> main_ok s' k"
  proof (cases "k = n")
    case True
    then show ?thesis using assms inv(4) by (simp add: main_ok_def)
  next
    case False
    then have "same_for k s s'" by (rule assms(2))
    then show ?thesis using inv assms(3-5)
      by (cases "wk_phase s k") (simp_all add: same_for_def request_ok_def fresh_ok_def main_ok_def)
  qed
qed

lemma pulled_of_phase: "worker_inv s \<Longrightarrow> wk_phase s n \<noteq> NotPulled \<Longrightarrow> n < wk_pulled s"
  by (metis main_ok_def not_less worker_inv_def)

text \<open>A request whose task runs has sent nothing or only chunks, and has not been given up.\<close>

lemma running_ok:
  assumes "worker_inv s" "task_conn (wk_phase s n) = Some conn"
  shows "n < wk_pulled s" "only_chunks (messages n s)" "n \<notin> wk_unprepared s" "n \<notin> wk_unanswered s"
    "wk_phase s n \<noteq> Acquiring" "\<forall>c rest acc. wk_phase s n \<noteq> Streaming c rest acc \<Longrightarrow> messages n s = []"
    "wk_phase s n = Streaming c rest acc \<Longrightarrow> ac_query_id acc = if_query_id (wk_request s n)"
proof -
  have i: "request_ok s n" "fresh_ok s n" using assms(1) by (simp_all add: worker_inv_def)
  show "n < wk_pulled s" "only_chunks (messages n s)" "n \<notin> wk_unprepared s" "n \<notin> wk_unanswered s"
    "wk_phase s n \<noteq> Acquiring" "\<forall>c rest acc. wk_phase s n \<noteq> Streaming c rest acc \<Longrightarrow> messages n s = []"
    "wk_phase s n = Streaming c rest acc \<Longrightarrow> ac_query_id acc = if_query_id (wk_request s n)"
    using i assms(2) by (cases "wk_phase s n"; simp add: request_ok_def fresh_ok_def)+
qed

lemma headers_arrive_inv:
  assumes "worker_inv s"
  shows "worker_inv (headers_arrive n r s)"
proof (cases "wk_phase s n")
  case (AwaitHeaders conn)
  have t: "task_conn (wk_phase s n) = Some conn" by (simp add: AwaitHeaders)
  note n = running_ok [OF assms t]
  have ok: "messages n s = []" by (rule n(6)) (simp add: AwaitHeaders)
  show ?thesis
    by (rule worker_inv_local [OF assms, of n])
       (use AwaitHeaders n(1,3,4) ok in \<open>auto simp: headers_arrive_def same_for_def request_ok_def fresh_ok_def
          openai_acc_init_def split: sum.split\<close>)
qed (use assms in \<open>simp_all add: headers_arrive_def\<close>)

lemma error_body_arrives_inv:
  assumes "worker_inv s"
  shows "worker_inv (error_body_arrives n r s)"
proof (cases "wk_phase s n")
  case (AwaitErrorBody conn status)
  have t: "task_conn (wk_phase s n) = Some conn" by (simp add: AwaitErrorBody)
  note n = running_ok [OF assms t]
  have ok: "messages n s = []" by (rule n(6)) (simp add: AwaitErrorBody)
  show ?thesis
    by (rule worker_inv_local [OF assms, of n])
       (use AwaitErrorBody n(1,3,4) ok in \<open>auto simp: error_body_arrives_def same_for_def request_ok_def fresh_ok_def split: sum.split\<close>)
qed (use assms in \<open>simp_all add: error_body_arrives_def\<close>)

lemma body_arrives_inv:
  assumes "worker_inv s"
  shows "worker_inv (body_arrives decode n r s)"
proof (cases "wk_phase s n")
  case (AwaitBody conn)
  have t: "task_conn (wk_phase s n) = Some conn" by (simp add: AwaitBody)
  note n = running_ok [OF assms t]
  have ok: "messages n s = []" by (rule n(6)) (simp add: AwaitBody)
  show ?thesis
    by (rule worker_inv_local [OF assms, of n])
       (use AwaitBody n(1,3,4) ok in \<open>auto simp: body_arrives_def same_for_def request_ok_def fresh_ok_def with_worker_id_def
          Let_def split: sum.split\<close>)
qed (use assms in \<open>simp_all add: body_arrives_def\<close>)

text \<open>The accumulator keeps its query id.\<close>

lemma add_chunk_query_id: "add_chunk d a = (r, a') \<Longrightarrow> ac_query_id a' = ac_query_id a"
  by (auto simp: add_chunk_def add_delta_def emit_text_def Let_def split: option.splits if_splits prod.splits)

lemma accumulate_query_id:
  "ac_query_id (fst (accumulate add_chunk a ds)) = ac_query_id a"
proof -
  have "ac_query_id (fst (foldl (\<lambda>(a, out) d. case add_chunk d a of (None, a') \<Rightarrow> (a', out) | (Some c, a') \<Rightarrow> (a', out @ [c])) st ds))
      = ac_query_id (fst st)" for st :: "openai_acc \<times> stream_chunk list"
  proof (induction ds arbitrary: st)
    case (Cons d ds)
    obtain a out where st: "st = (a, out)" by (cases st)
    obtain r a' where add: "add_chunk d a = (r, a')" by (metis surj_pair)
    show ?case using Cons.IH add_chunk_query_id [OF add] by (cases r) (simp_all add: st add)
  qed simp
  from this [of "(a, [])"] show ?thesis by (simp add: accumulate_def)
qed

lemma pieces_arrive_inv:
  assumes "worker_inv s"
  shows "worker_inv (pieces_arrive decode n chunks s)"
proof (cases "wk_phase s n")
  case (Streaming conn rest acc)
  have t: "task_conn (wk_phase s n) = Some conn" by (simp add: Streaming)
  note n = running_ok [OF assms t]
  obtain rest' batches where st: "sse_step decode (rest, []) chunks = (rest', batches)" by (metis surj_pair)
  obtain acc' out where ac: "accumulate add_chunk acc (concat batches) = (acc', out)" by (metis surj_pair)
  have qid: "ac_query_id acc' = if_query_id (wk_request s n)"
    using accumulate_query_id [of acc "concat batches"] n(7) Streaming by (simp add: ac)
  show ?thesis
    by (rule worker_inv_local [OF assms, of n])
       (use Streaming n(1-4) st ac qid in \<open>auto simp: pieces_arrive_def same_for_def request_ok_def fresh_ok_def\<close>)
qed (use assms in \<open>simp_all add: pieces_arrive_def\<close>)

lemma stream_ends_inv:
  assumes "worker_inv s"
  shows "worker_inv (stream_ends decode n err s)"
proof (cases "wk_phase s n")
  case (Streaming conn rest acc)
  have t: "task_conn (wk_phase s n) = Some conn" by (simp add: Streaming)
  note n = running_ok [OF assms t]
  obtain acc' out where ac: "accumulate add_chunk acc (concat (sse_end decode (rest, []))) = (acc', out)" by (metis surj_pair)
  have qid: "ac_query_id acc' = if_query_id (wk_request s n)"
    using accumulate_query_id [of acc "concat (sse_end decode (rest, []))"] n(7) Streaming by (simp add: ac)
  have fr: "fr_id (get_final_output acc') = if_query_id (wk_request s n)" using qid by (simp add: get_final_output_def Let_def)
  show ?thesis
  proof (cases err)
    case None
    show ?thesis
      by (rule worker_inv_local [OF assms, of n])
         (use Streaming n(1-4) ac fr None in \<open>auto simp: stream_ends_def same_for_def request_ok_def fresh_ok_def with_worker_id_def
            Let_def simp flip: append_assoc\<close>)
  next
    case (Some e)
    show ?thesis
      by (rule worker_inv_local [OF assms, of n])
         (use Streaming n(1-4) Some in \<open>auto simp: stream_ends_def same_for_def request_ok_def fresh_ok_def\<close>)
  qed
qed (use assms in \<open>simp_all add: stream_ends_def\<close>)

text \<open>An operation of the main loop, on the request it is busy with.\<close>

lemma worker_inv_main:
  assumes "worker_inv s" "\<And>k. k \<noteq> n \<Longrightarrow> same_for k s s'"
    "\<And>k. k \<noteq> n \<Longrightarrow> wk_pulled s' \<le> k \<longleftrightarrow> wk_pulled s \<le> k" "\<And>k. k \<noteq> n \<Longrightarrow> wk_main s' = WaitPool k \<longleftrightarrow> wk_main s = WaitPool k"
    "wk_shutdown s \<or> wk_main s = Stopped \<longrightarrow> wk_shutdown s' \<or> wk_main s' = Stopped"
    "request_ok s' n" "fresh_ok s' n" "main_ok s' n"
  shows "worker_inv s'"
  unfolding worker_inv_def
proof
  fix k
  have inv: "request_ok s k" "fresh_ok s k" "main_ok s k" using assms(1) by (simp_all add: worker_inv_def)
  show "request_ok s' k \<and> fresh_ok s' k \<and> main_ok s' k"
  proof (cases "k = n")
    case True
    then show ?thesis using assms(6-8) by simp
  next
    case False
    have lt: "k < wk_pulled s' \<longleftrightarrow> k < wk_pulled s" using assms(3) [OF False] by linarith
    show ?thesis using inv assms(2) [OF False] assms(3) [OF False] assms(4) [OF False] assms(5) lt
      by (cases "wk_phase s k") (auto simp: same_for_def request_ok_def fresh_ok_def main_ok_def)
  qed
qed

lemma pull_inv:
  assumes "worker_inv s" "wk_main s = Pulling"
  shows "worker_inv (pull prepared s)"
proof -
  let ?n = "wk_pulled s"
  have n: "wk_phase s ?n = NotPulled" "messages ?n s = []" "?n \<notin> wk_unprepared s" "?n \<notin> wk_unanswered s"
    using assms(1) by (auto simp: worker_inv_def request_ok_def fresh_ok_def main_ok_def dest!: spec [of _ "wk_pulled s"])
  show ?thesis
    by (rule worker_inv_main [OF assms(1), of ?n])
       (use assms(2) n in \<open>auto simp: pull_def Let_def same_for_def request_ok_def fresh_ok_def main_ok_def split: sum.split\<close>)
qed

lemma fire_inv:
  assumes "worker_inv s"
  shows "worker_inv (fire answer write_error s)"
proof (cases "wk_main s")
  case (WaitPool n)
  have i: "request_ok s n" "fresh_ok s n" "main_ok s n" using assms by (simp_all add: worker_inv_def)
  then have p: "wk_phase s n = Acquiring" using WaitPool by (simp add: main_ok_def)
  then have n: "n < wk_pulled s" "messages n s = []" "n \<notin> wk_unprepared s" "n \<notin> wk_unanswered s"
    using i by (simp_all add: request_ok_def fresh_ok_def)
  show ?thesis
    by (rule worker_inv_main [OF assms, of n])
       (use WaitPool n in \<open>auto simp: fire_def same_for_def request_ok_def fresh_ok_def main_ok_def split: sum.split option.split\<close>)
qed (use assms in \<open>simp_all add: fire_def\<close>)

lemma flag_inv:
  assumes "worker_inv s"
  shows "worker_inv (shutdown_worker s)" "worker_inv (recv_closed s)"
proof -
  have a: "request_ok s k" "fresh_ok s k" "main_ok s k" for k using assms by (simp_all add: worker_inv_def)
  have "request_ok (shutdown_worker s) k \<and> fresh_ok (shutdown_worker s) k \<and> main_ok (shutdown_worker s) k" for k
    using a [of k] by (cases "wk_phase s k") (auto simp: shutdown_worker_def request_ok_def fresh_ok_def main_ok_def)
  then show "worker_inv (shutdown_worker s)" by (simp add: worker_inv_def)
  have "request_ok (recv_closed s) k \<and> fresh_ok (recv_closed s) k \<and> main_ok (recv_closed s) k" for k
    using a [of k] by (cases "wk_phase s k") (auto simp: recv_closed_def request_ok_def fresh_ok_def main_ok_def)
  then show "worker_inv (recv_closed s)" by (simp add: worker_inv_def)
qed

lemma cancel_task_main [simp]: "wk_main (cancel_task n s) = wk_main s"
  by (simp add: cancel_task_def split: option.split)

lemma cancel_task_inv:
  assumes "worker_inv s" "wk_main s = Stopped"
  shows "worker_inv (cancel_task n s)"
proof (cases "task_conn (wk_phase s n)")
  case (Some conn)
  note n = running_ok [OF assms(1) Some]
  show ?thesis
    by (rule worker_inv_local [OF assms(1), of n])
       (use Some n(1-5) assms(2) in \<open>auto simp: cancel_task_def same_for_def request_ok_def fresh_ok_def\<close>)
qed (use assms in \<open>simp add: cancel_task_def\<close>)

lemma cleanup_inv: "worker_inv s \<Longrightarrow> worker_inv (cleanup s)"
proof (cases "wk_main s = Stopped")
  case True
  assume inv: "worker_inv s"
  have "worker_inv (foldl (\<lambda>s n. cancel_task n s) s ns) \<and> wk_main (foldl (\<lambda>s n. cancel_task n s) s ns) = Stopped" for ns
    by (rule foldl_invariant) (use inv True cancel_task_inv in auto)
  then show ?thesis using True by (simp add: cleanup_def)
qed (simp add: cleanup_def)

lemma worker_inv_init: "worker_inv (worker_init i stream_all)"
  by (simp add: worker_inv_def request_ok_def fresh_ok_def main_ok_def worker_init_def messages_def)

lemma worker_step_inv: "worker_inv s \<Longrightarrow> worker_inv (worker_step ad s e)"
  by (cases e) (simp_all add: pull_inv fire_inv flag_inv headers_arrive_inv error_body_arrives_inv body_arrives_inv
      pieces_arrive_inv stream_ends_inv cleanup_inv)

lemma worker_run_inv: "worker_inv (foldl (worker_step ad) (worker_init i stream_all) es)"
  by (rule foldl_invariant) (simp_all add: worker_inv_init worker_step_inv)

section \<open>A stream, whatever else happens\<close>

text \<open>The network batches of request \<open>n\<close>, and the events that neither end its stream nor clean up.\<close>

definition pieces_of :: "nat \<Rightarrow> worker_event list \<Rightarrow> string list list" where
  "pieces_of n es = concat (map (\<lambda>e. case e of PiecesArrive m chunks \<Rightarrow> if m = n then [chunks] else [] | _ \<Rightarrow> []) es)"

fun keeps_stream :: "nat \<Rightarrow> worker_event \<Rightarrow> bool" where
  "keeps_stream n (StreamEnds m err) = (m \<noteq> n)"
| "keeps_stream n Cleanup = False"
| "keeps_stream n _ = True"

lemma sse_step_out:
  "sse_step decode (rest, out) chunks = (fst (sse_step decode (rest, []) chunks), out @ snd (sse_step decode (rest, []) chunks))"
  by (simp add: sse_step_def Let_def split: option.split)

lemma sse_end_out: "sse_end decode (rest, out) = out @ sse_end decode (rest, [])"
  by (simp add: sse_end_def Let_def)

lemma accumulate_append:
  "accumulate add a (xs @ ys) =
     (fst (accumulate add (fst (accumulate add a xs)) ys), snd (accumulate add a xs) @ snd (accumulate add (fst (accumulate add a xs)) ys))"
proof -
  let ?f = "\<lambda>(a, out) d. case add d a of (None, a') \<Rightarrow> (a', out) | (Some c, a') \<Rightarrow> (a', out @ [c])"
  have out: "foldl ?f (a, o1) ds = (fst (foldl ?f (a, []) ds), o1 @ snd (foldl ?f (a, []) ds))" for a o1 ds
  proof (induction ds arbitrary: a o1)
    case (Cons d ds)
    obtain r a' where add: "add d a = (r, a')" by (metis surj_pair)
    show ?case
    proof (cases r)
      case None
      then show ?thesis using Cons.IH [of a' o1] add by simp
    next
      case (Some c)
      then show ?thesis using Cons.IH [of a' "o1 @ [c]"] Cons.IH [of a' "[c]"] add by simp
    qed
  qed simp
  show ?thesis using out [of "fst (foldl ?f (a, []) xs)" "snd (foldl ?f (a, []) xs)" ys] by (simp add: accumulate_def)
qed

text \<open>Any event other than the request's own keeps a streaming request as it is.\<close>

lemma other_keeps:
  assumes inv: "worker_inv s" and phase: "wk_phase s n = Streaming conn rest acc" and e: "keeps_stream n e"
    and own: "\<forall>chunks. e \<noteq> PiecesArrive n chunks"
  shows "same_for n s (worker_step ad s e)"
proof -
  have n: "n < wk_pulled s" using pulled_of_phase [OF inv] phase by simp
  have pool: "wk_main s \<noteq> WaitPool n" using inv phase by (auto simp: worker_inv_def main_ok_def dest!: spec [of _ n])
  show ?thesis
  proof (cases e)
    case (PullQuery prepared)
    then show ?thesis using n by (auto simp: same_for_def pull_def Let_def split: sum.split)
  next
    case (PoolAnswers answer we)
    then show ?thesis using pool by (auto simp: same_for_def fire_def split: main_pc.split sum.split option.split)
  next
    case (HeadersArrive m r)
    then show ?thesis using phase
      by (cases "m = n") (auto simp: same_for_def headers_arrive_def split: phase.split sum.split)
  next
    case (ErrorBodyArrives m r)
    then show ?thesis using phase
      by (cases "m = n") (auto simp: same_for_def error_body_arrives_def split: phase.split sum.split)
  next
    case (BodyArrives m r)
    then show ?thesis using phase
      by (cases "m = n") (auto simp: same_for_def body_arrives_def Let_def split: phase.split sum.split)
  next
    case (PiecesArrive m chunks)
    then show ?thesis using own by (auto simp: same_for_def pieces_arrive_def split: phase.split prod.split)
  next
    case (StreamEnds m err)
    then show ?thesis using e by (auto simp: same_for_def stream_ends_def Let_def split: phase.split option.split prod.split)
  qed (use e in \<open>auto simp: same_for_def recv_closed_def shutdown_worker_def\<close>)
qed

lemma stream_run:
  assumes inv: "worker_inv s0" and start: "wk_phase s0 n = Streaming conn [] acc0" and keep: "\<forall>e\<in>set es. keeps_stream n e"
    and st_eq: "st = foldl (sse_step (ad_decode_sse ad)) ([], []) (pieces_of n es)"
  shows "wk_phase (foldl (worker_step ad) s0 es) n = Streaming conn (fst st) (fst (accumulate add_chunk acc0 (concat (snd st))))
    \<and> messages n (foldl (worker_step ad) s0 es) = messages n s0 @ map ChunkMsg (snd (accumulate add_chunk acc0 (concat (snd st))))
    \<and> wk_request (foldl (worker_step ad) s0 es) n = wk_request s0 n \<and> worker_inv (foldl (worker_step ad) s0 es)"
  using keep unfolding st_eq
proof (induction es rule: rev_induct)
  case Nil
  then show ?case using start inv by (simp add: pieces_of_def accumulate_def)
next
  case (snoc e es)
  let ?s = "foldl (worker_step ad) s0 es" and ?st = "foldl (sse_step (ad_decode_sse ad)) ([], []) (pieces_of n es)"
  have IH: "wk_phase ?s n = Streaming conn (fst ?st) (fst (accumulate add_chunk acc0 (concat (snd ?st))))"
    "messages n ?s = messages n s0 @ map ChunkMsg (snd (accumulate add_chunk acc0 (concat (snd ?st))))"
    "wk_request ?s n = wk_request s0 n" "worker_inv ?s" using snoc by simp_all
  have inv': "worker_inv (worker_step ad ?s e)" by (rule worker_step_inv [OF IH(4)])
  show ?case
  proof (cases "\<exists>chunks. e = PiecesArrive n chunks")
    case False
    then have "pieces_of n (es @ [e]) = pieces_of n es" by (auto simp: pieces_of_def split: worker_event.split)
    moreover have "same_for n ?s (worker_step ad ?s e)"
      by (rule other_keeps [OF IH(4) IH(1)]) (use snoc.prems False in auto)
    ultimately show ?thesis using IH inv' by (simp add: same_for_def)
  next
    case True
    then obtain chunks where e: "e = PiecesArrive n chunks" by blast
    obtain rest out where st: "?st = (rest, out)" by (metis surj_pair)
    obtain rest' batches where step: "sse_step (ad_decode_sse ad) (rest, []) chunks = (rest', batches)" by (metis surj_pair)
    have "pieces_of n (es @ [e]) = pieces_of n es @ [chunks]" by (simp add: pieces_of_def e)
    then have st': "foldl (sse_step (ad_decode_sse ad)) ([], []) (pieces_of n (es @ [e])) = (rest', out @ batches)"
      using sse_step_out [of "ad_decode_sse ad" rest out chunks] by (simp add: st step)
    have ph: "wk_phase ?s n = Streaming conn rest (fst (accumulate add_chunk acc0 (concat out)))" using IH(1) by (simp add: st)
    show ?thesis unfolding st' using IH(2,3) inv' ph
      by (simp add: e pieces_arrive_def step st accumulate_append split: prod.split)
  qed
qed

section \<open>Properties\<close>

definition is_result :: "worker_message \<Rightarrow> bool" where
  "is_result m = (case m of ResultMsg _ \<Rightarrow> True | ChunkMsg _ \<Rightarrow> False)"

lemma only_chunks_results: "only_chunks ms \<Longrightarrow> filter is_result ms = []"
  by (auto simp: only_chunks_def is_result_def filter_empty_conv split: worker_message.splits)

text \<open>C18. A worker answers every request exactly once: whatever the pool, the connections and the server do and
  however the requests interleave, no request gets two results, no chunk follows a result, and a request that
  is settled while the worker runs was answered by one result for its own query, unless its query could not
  be encoded.\<close>

theorem every_request_is_answered_once:
  assumes "s = foldl (worker_step ad) (worker_init i stream_all) es"
  shows "length (filter is_result (messages n s)) \<le> 1
    \<and> (wk_phase s n \<noteq> Settled \<longrightarrow> only_chunks (messages n s))
    \<and> (wk_phase s n = Settled \<and> n \<notin> wk_unprepared s \<and> \<not> wk_shutdown s \<and> wk_main s \<noteq> Stopped
         \<longrightarrow> answered (if_query_id (wk_request s n)) (messages n s))"
proof -
  have r: "request_ok s n" using worker_run_inv [of ad i stream_all es] by (simp add: worker_inv_def assms)
  have one: "length (filter is_result ms) \<le> 1" if "only_chunks ms \<or> answered q ms" for q ms
    using that only_chunks_results by (auto simp: answered_def)
  show ?thesis
  proof (cases "wk_phase s n = Settled")
    case True
    then show ?thesis using r one [of "messages n s" "if_query_id (wk_request s n)"]
      by (auto simp: request_ok_def split: if_splits)
  next
    case False
    then have "only_chunks (messages n s)" using r by (cases "wk_phase s n") (simp_all add: request_ok_def)
    then show ?thesis using False one by simp
  qed
qed

definition example_adapter :: adapter where
  "example_adapter = \<lparr>ad_decode_response = (\<lambda>b. Inl \<lparr>fl_type = ''DecodeError'', fl_repr = b\<rparr>),
     ad_decode_sse = (\<lambda>d. Inr (Some (Some \<lparr>ch_delta = Some \<lparr>sd_content = Some d, sd_reasoning_content = None,
       sd_reasoning = None, sd_tool_calls = None\<rparr>, ch_finish_reason = None\<rparr>)))\<rparr>"

definition example_request :: "bool \<Rightarrow> in_flight_request" where
  "example_request streaming = \<lparr>if_query_id = ''q'', if_http_bytes = [], if_is_streaming = streaming\<rparr>"

definition example_session :: "worker_event list" where
  "example_session = [PullQuery (Inr (example_request True)), PoolAnswers (Inr 4) None, HeadersArrive 0 (Inr 200),
     PullQuery (Inr (example_request False)), PoolAnswers (Inr 5) None, HeadersArrive 1 (Inr 503),
     PiecesArrive 0 [''data: {a'', ''b}'' @ [NL, NL]], ErrorBodyArrives 1 (Inr ''busy''), StreamEnds 0 None]"

theorem every_request_is_answered_once_witness:
  "let s = foldl (worker_step example_adapter) (worker_init 2 False) example_session
   in length (filter is_result (messages 0 s)) \<le> 1 \<and> answered ''q'' (messages 1 s)"
proof -
  let ?s = "foldl (worker_step example_adapter) (worker_init 2 False) example_session"
  have "wk_phase ?s 1 = Settled \<and> wk_unprepared ?s = {} \<and> \<not> wk_shutdown ?s \<and> wk_main ?s = Pulling \<and> if_query_id (wk_request ?s 1) = ''q''"
    by (simp add: example_session_def example_request_def worker_init_def pull_def fire_def headers_arrive_def pieces_arrive_def
        error_body_arrives_def stream_ends_def settle_response_def set_phase_def handle_error_def respond_def next_pull_def Let_def
        split: prod.split)
  with every_request_is_answered_once [OF refl, of 0 example_adapter 2 False example_session]
    every_request_is_answered_once [OF refl, of 1 example_adapter 2 False example_session]
  show ?thesis by (simp add: Let_def)
qed

text \<open>C19. What a streamed request sends is a function of the bytes of its stream: if every blank line ends a
  complete field and every document decodes, then however the network cuts the stream and whatever else the
  worker does meanwhile, the request's messages are the chunks of accumulating all documents in order,
  followed by the accumulated output.\<close>

theorem streamed_response_end_to_end:
  assumes "s0 = foldl (worker_step ad) (worker_init i stream_all) es0"
    and "wk_phase s0 n = AwaitHeaders conn" "if_is_streaming (wk_request s0 n)"
    and "\<forall>e\<in>set es. keeps_stream n e" "bytes = concat (map concat (pieces_of n es))"
    and "frames_closed bytes" "\<forall>d\<in>set (findall bytes). \<exists>c. ad_decode_sse ad d = Inr c"
    and "s = foldl (worker_step ad) s0 ([HeadersArrive n (Inr 200)] @ es @ [StreamEnds n None])"
  shows "case accumulate add_chunk (openai_acc_init (if_query_id (wk_request s0 n)) (wk_stream_all s0))
             (decode_docs (ad_decode_sse ad) (findall bytes)) of
           (acc, chunks) \<Rightarrow> messages n s = map ChunkMsg chunks
             @ [ResultMsg (with_worker_id s (if_query_id (wk_request s0 n)) (acc_text_output acc) (fr_finish_reason (get_final_output acc)))]"
proof -
  let ?acc0 = "openai_acc_init (if_query_id (wk_request s0 n)) (wk_stream_all s0)" and ?dec = "ad_decode_sse ad"
  have inv0: "worker_inv s0" using worker_run_inv by (simp add: assms(1))
  have t: "task_conn (wk_phase s0 n) = Some conn" by (simp add: assms(2))
  have none: "messages n s0 = []" by (rule running_ok(6) [OF inv0 t]) (simp add: assms(2))
  define s1 where "s1 = worker_step ad s0 (HeadersArrive n (Inr 200))"
  have inv1: "worker_inv s1" unfolding s1_def by (rule worker_step_inv [OF inv0])
  have s1: "wk_phase s1 n = Streaming conn [] ?acc0" "messages n s1 = []" "wk_request s1 = wk_request s0"
    using assms(2,3) none by (simp_all add: s1_def headers_arrive_def)
  obtain rest out where st: "foldl (sse_step ?dec) ([], []) (pieces_of n es) = (rest, out)" by (metis surj_pair)
  obtain a1 o1 where ac1: "accumulate add_chunk ?acc0 (concat out) = (a1, o1)" by (metis surj_pair)
  define s2 where "s2 = foldl (worker_step ad) s1 es"
  have s2: "wk_phase s2 n = Streaming conn rest a1" "messages n s2 = map ChunkMsg o1" "wk_request s2 n = wk_request s0 n" "worker_inv s2"
    using stream_run [OF inv1 s1(1) assms(4) refl, where ad = ad] s1(2,3) st ac1 by (simp_all add: s2_def)
  obtain a2 o2 where ac2: "accumulate add_chunk a1 (concat (sse_end ?dec (rest, []))) = (a2, o2)" by (metis surj_pair)
  have s: "s = stream_ends ?dec n None s2" by (simp add: assms(8) s2_def s1_def)
  have all: "concat (iter_sse_lines ?dec (pieces_of n es)) = decode_docs ?dec (findall bytes)"
    unfolding assms(5) by (rule sse_chunking) (use assms(5-7) in simp_all)
  have "concat (iter_sse_lines ?dec (pieces_of n es)) = concat out @ concat (sse_end ?dec (rest, []))"
    using sse_end_out [of ?dec rest out] by (simp add: iter_sse_lines_def st)
  then have acc: "accumulate add_chunk ?acc0 (decode_docs ?dec (findall bytes)) = (a2, o1 @ o2)"
    using accumulate_append [of add_chunk ?acc0 "concat out"] ac1 ac2 by (simp flip: all)
  have qid: "fr_id (get_final_output a2) = if_query_id (wk_request s0 n)"
    using accumulate_query_id [of ?acc0 "decode_docs ?dec (findall bytes)"] acc
    by (simp add: get_final_output_def Let_def openai_acc_init_def)
  have fr: "fr_output (get_final_output a2) = acc_text_output a2" by (simp add: get_final_output_def Let_def)
  have id: "wk_id s = wk_id s2" using s2(1) ac2 by (simp add: s stream_ends_def settle_response_def Let_def)
  show ?thesis using s2(1,2) ac2 id
    by (simp add: acc s stream_ends_def Let_def qid fr with_worker_id_def)
qed

theorem streamed_response_end_to_end_witness:
  "\<exists>acc chunks s. accumulate add_chunk (openai_acc_init ''q'' False) (decode_docs (ad_decode_sse example_adapter) [''{ab}'']) = (acc, chunks)
     \<and> messages 0 s = map ChunkMsg chunks
         @ [ResultMsg (with_worker_id s ''q'' (acc_text_output acc) (fr_finish_reason (get_final_output acc)))]"
proof -
  let ?es0 = "[PullQuery (Inr (example_request True)), PoolAnswers (Inr 4) None]"
  let ?s0 = "foldl (worker_step example_adapter) (worker_init 2 False) ?es0"
  let ?es = "[PiecesArrive 0 [''data: {a''], Shutdown, PiecesArrive 0 [''b}'' @ [NL], [NL]]]"
  let ?bytes = "concat (map concat (pieces_of 0 ?es))"
  have p: "wk_phase ?s0 0 = AwaitHeaders 4" "if_is_streaming (wk_request ?s0 0)" "if_query_id (wk_request ?s0 0) = ''q''"
    "\<not> wk_stream_all ?s0"
    by (simp_all add: worker_init_def pull_def fire_def set_phase_def next_pull_def example_request_def Let_def)
  have k: "\<forall>e\<in>set ?es. keeps_stream 0 e" by simp
  have "frames_closed ?bytes" by code_simp
  moreover have docs: "findall ?bytes = [''{ab}'']" by code_simp
  moreover have "\<forall>d\<in>set (findall ?bytes). \<exists>c. ad_decode_sse example_adapter d = Inr c" by (simp add: example_adapter_def)
  ultimately have "case accumulate add_chunk (openai_acc_init ''q'' False) (decode_docs (ad_decode_sse example_adapter) [''{ab}'']) of
      (acc, chunks) \<Rightarrow> messages 0 (foldl (worker_step example_adapter) ?s0 ([HeadersArrive 0 (Inr 200)] @ ?es @ [StreamEnds 0 None]))
        = map ChunkMsg chunks @ [ResultMsg (with_worker_id (foldl (worker_step example_adapter) ?s0
             ([HeadersArrive 0 (Inr 200)] @ ?es @ [StreamEnds 0 None])) ''q'' (acc_text_output acc) (fr_finish_reason (get_final_output acc)))]"
    using streamed_response_end_to_end [OF refl p(1,2) k refl _ _ refl] p(3,4) by (simp only: docs)
  then show ?thesis by (auto split: prod.splits)
qed

text \<open>A query that cannot be encoded is settled without any answer, and a connection whose write fails is not given
  back to the pool.\<close>

lemma unencodable_query_is_never_answered:
  "wk_main s = Pulling \<Longrightarrow> worker_step ad s (PullQuery (Inl e)) = s' \<Longrightarrow>
     wk_phase s' (wk_pulled s) = Settled \<and> wk_sent s' = wk_sent s"
  by (auto simp: pull_def next_pull_def set_phase_def Let_def)

lemma failed_write_keeps_connection:
  "wk_main s = WaitPool n \<Longrightarrow> worker_step ad s (PoolAnswers (Inr conn) (Some e)) = s' \<Longrightarrow>
     wk_phase s' n = Settled \<and> wk_released s' = wk_released s"
  by (auto simp: fire_def next_pull_def set_phase_def handle_error_def respond_def)

end
