(* ===== verification/ClientRuns.thy ===== *)
theory ClientRuns
  imports TransportFacts WorkerFacts "HOL-Library.Multiset"
begin

text \<open>
  The client end to end: queries dealt to the workers over their request channels, the workers answering
  them, and the answers coming back over the one response channel.
\<close>

section \<open>The system\<close>

record ('f, 'g) system =
  sy_num :: nat
  sy_next :: nat
  sy_issued :: "query list"
  sy_requests :: "nat \<Rightarrow> ('f, query) channel"
  sy_workers :: "nat \<Rightarrow> worker"
  sy_responses :: "('g, worker_message) channel"

datatype system_event =
    Issue query socket_reply
  | RequestIO nat "query channel_event"
  | Pull nat "nat \<Rightarrow> socket_reply"
  | Work nat worker_event "nat \<Rightarrow> socket_reply"
  | ResponseIO "worker_message channel_event"

record ('f, 'g) client_codec =
  cc_bytes :: "'f \<Rightarrow> nat"
  cc_enc :: "query \<Rightarrow> 'f"
  cc_dec :: "'f \<Rightarrow> query option"
  cc_rbytes :: "'g \<Rightarrow> nat"
  cc_renc :: "worker_message \<Rightarrow> 'g"
  cc_rdec :: "'g \<Rightarrow> worker_message option"
  cc_encode :: "query \<Rightarrow> failure + string"
  cc_build :: "string \<Rightarrow> bool \<Rightarrow> (string \<times> string) list \<Rightarrow> string"
  cc_adapter :: adapter

definition system_init :: "nat \<Rightarrow> nat \<Rightarrow> bool \<Rightarrow> ('f, 'g) system" where
  "system_init n buf_len stream_all =
     \<lparr>sy_num = n, sy_next = 0, sy_issued = [], sy_requests = (\<lambda>_. channel_init buf_len),
      sy_workers = (\<lambda>w. worker_init (int w) stream_all), sy_responses = channel_init buf_len\<rparr>"

text \<open>A worker's step, with the messages it sends put on its end of the response channel.\<close>

definition work :: "('f, 'g) client_codec \<Rightarrow> nat \<Rightarrow> worker_event \<Rightarrow> (nat \<Rightarrow> socket_reply) \<Rightarrow> ('f, 'g) system \<Rightarrow> ('f, 'g) system" where
  "work cc w e replies s =
     (let k = sy_workers s w;
          k' = worker_step (cc_adapter cc) k e;
          ms = map snd (drop (length (wk_sent k)) (wk_sent k'))
      in s\<lparr>sy_workers := (sy_workers s)(w := k'),
           sy_responses := foldl (\<lambda>c (m, r). channel_step (cc_rbytes cc) (cc_renc cc) (cc_rdec cc) c (ChSend w m r))
             (sy_responses s) (zip ms (map replies [0..<length ms]))\<rparr>)"

definition request_io :: "('f, 'g) client_codec \<Rightarrow> nat \<Rightarrow> query channel_event \<Rightarrow> ('f, 'g) system \<Rightarrow> ('f, 'g) system" where
  "request_io cc w e s =
     s\<lparr>sy_requests := (sy_requests s)(w := channel_step (cc_bytes cc) (cc_enc cc) (cc_dec cc) (sy_requests s w) e)\<rparr>"

text \<open>The channel events that are the transports' own.\<close>

fun is_io :: "'a channel_event \<Rightarrow> bool" where
  "is_io (ChSend i x r) = False" | "is_io ChPoll = False" | "is_io ChRecv = False" | "is_io ChResume = False"
| "is_io _ = True"

fun system_step :: "('f, 'g) client_codec \<Rightarrow> ('f, 'g) system \<Rightarrow> system_event \<Rightarrow> ('f, 'g) system" where
  "system_step cc s (Issue q r) =
     (request_io cc (sy_next s) (ChSend 0 q r) s)
       \<lparr>sy_next := Suc (sy_next s) mod sy_num s,
         sy_issued := sy_issued s @ (if sn_closing (ch_senders (sy_requests s (sy_next s)) 0) then [] else [q])\<rparr>"
| "system_step cc s (RequestIO w e) = (if is_io e then request_io cc w e s else s)"
| "system_step cc s (Pull w replies) =
     (if w < sy_num s \<and> wk_main (sy_workers s w) = Pulling then
        (let c = sy_requests s w;
             s' = request_io cc w (if rv_waiter (ch_receiver c) = None then ChRecv else ChResume) s
         in case drop (length (ch_got c)) (ch_got (sy_requests s' w)) of
              [] \<Rightarrow> s'
            | (i, q) # _ \<Rightarrow> work cc w (PullQuery (prepare_request (cc_encode cc) (cc_build cc) q)) replies s')
      else s)"
| "system_step cc s (Work w e replies) =
     (if w < sy_num s \<and> (\<forall>p. e \<noteq> PullQuery p) then work cc w e replies s else s)"
| "system_step cc s (ResponseIO e) =
     (if is_io e \<or> e \<in> {ChPoll, ChRecv, ChResume}
      then s\<lparr>sy_responses := channel_step (cc_rbytes cc) (cc_renc cc) (cc_rdec cc) (sy_responses s) e\<rparr> else s)"

section \<open>What a worker answers\<close>

definition result_ids :: "worker_message list \<Rightarrow> string list" where
  "result_ids ms = List.map_filter (\<lambda>m. case m of ResultMsg r \<Rightarrow> Some (wr_id r) | ChunkMsg _ \<Rightarrow> None) ms"

lemma result_ids_simps [simp]:
  "result_ids [] = []" "result_ids (xs @ ys) = result_ids xs @ result_ids ys"
  "result_ids [ResultMsg r] = [wr_id r]" "result_ids [ChunkMsg c] = []"
  by (simp_all add: result_ids_def List.map_filter_simps)

lemma result_ids_Cons: "result_ids (m # ms) = result_ids [m] @ result_ids ms"
  by (simp flip: result_ids_simps(2))

lemma result_ids_chunks: "only_chunks ms \<Longrightarrow> result_ids ms = []"
  by (induction ms) (auto simp: only_chunks_def result_ids_def List.map_filter_simps split: worker_message.splits)

lemma result_ids_answered: "answered qid ms \<Longrightarrow> result_ids ms = [qid]"
  by (auto simp: answered_def result_ids_chunks)

lemma result_ids_subseq: "subseq xs ys \<Longrightarrow> subseq (result_ids xs) (result_ids ys)"
  unfolding result_ids_def by (rule map_filter_subseq)

lemma subseq_mset: "subseq xs ys \<Longrightarrow> mset xs \<subseteq># mset ys"
proof (induction rule: list_emb.induct)
  case (list_emb_Cons xs ys y)
  have "mset ys \<subseteq># mset (y # ys)" by simp
  with list_emb_Cons show ?case by (blast intro: subset_mset.order_trans)
qed simp_all

lemma sum_subset_mset: "(\<And>n. n < N \<Longrightarrow> f n \<subseteq># g n) \<Longrightarrow> (\<Sum>n<N. f n) \<subseteq># (\<Sum>n<(N :: nat). g n :: 'x multiset)"
  by (induction N) (simp_all add: subset_mset.add_mono)

lemma by_request:
  assumes "\<And>n. N \<le> n \<Longrightarrow> messages n s = []"
  shows "mset (result_ids (map snd (wk_sent s))) = (\<Sum>n<N. mset (result_ids (messages n s)))"
proof -
  have "fst p < N" if "p \<in> set (wk_sent s)" for p
  proof (rule ccontr)
    assume "\<not> fst p < N"
    then have "messages (fst p) s = []" using assms by simp
    with that show False by (auto simp: messages_def filter_empty_conv)
  qed
  then show ?thesis
    unfolding messages_def
  proof (induction "wk_sent s" arbitrary: s rule: rev_induct)
    case Nil
    then show ?case by (simp flip: Nil)
  next
    case (snoc p xs)
    have IH: "mset (result_ids (map snd xs)) = (\<Sum>n<N. mset (result_ids (map snd (filter (\<lambda>m. fst m = n) xs))))"
      using snoc(1) [of "s\<lparr>wk_sent := xs\<rparr>"] snoc(3) by (simp flip: snoc(2))
    have "fst p < N" using snoc(3) by (simp flip: snoc(2))
    then have one: "(\<Sum>n<N. if fst p = n then mset (result_ids [snd p]) else {#}) = mset (result_ids [snd p])" by simp
    have "(\<Sum>n<N. mset (result_ids (map snd (filter (\<lambda>m. fst m = n) (xs @ [p])))))
        = (\<Sum>n<N. mset (result_ids (map snd (filter (\<lambda>m. fst m = n) xs))) + (if fst p = n then mset (result_ids [snd p]) else {#}))"
      by (rule sum.cong) auto
    also have "\<dots> = mset (result_ids (map snd xs)) + mset (result_ids [snd p])"
      by (simp only: sum.distrib IH one)
    finally show ?case by (simp flip: snoc(2))
  qed
qed

lemma one_result:
  assumes "worker_inv s"
  shows "result_ids (messages n s) = [] \<or> n \<notin> wk_unprepared s \<and> result_ids (messages n s) = [if_query_id (wk_request s n)]"
    "wk_pulled s \<le> n \<Longrightarrow> messages n s = []"
    "wk_phase s n = Settled \<Longrightarrow> n \<notin> wk_unprepared s \<Longrightarrow> \<not> wk_shutdown s \<Longrightarrow> wk_main s \<noteq> Stopped
      \<Longrightarrow> result_ids (messages n s) = [if_query_id (wk_request s n)]"
proof -
  have r: "request_ok s n" "main_ok s n" using assms by (simp_all add: worker_inv_def)
  show "result_ids (messages n s) = [] \<or> n \<notin> wk_unprepared s \<and> result_ids (messages n s) = [if_query_id (wk_request s n)]"
    using r(1) by (cases "wk_phase s n") (auto simp: request_ok_def result_ids_chunks result_ids_answered split: if_splits)
  show "wk_pulled s \<le> n \<Longrightarrow> messages n s = []" using r by (simp add: request_ok_def main_ok_def)
  show "wk_phase s n = Settled \<Longrightarrow> n \<notin> wk_unprepared s \<Longrightarrow> \<not> wk_shutdown s \<Longrightarrow> wk_main s \<noteq> Stopped
      \<Longrightarrow> result_ids (messages n s) = [if_query_id (wk_request s n)]"
    using r(1) by (auto simp: request_ok_def result_ids_answered split: if_splits)
qed

lemma answers_of_worker:
  assumes "worker_inv s" "length qs = wk_pulled s"
    "\<And>n. n < wk_pulled s \<Longrightarrow> n \<notin> wk_unprepared s \<Longrightarrow> if_query_id (wk_request s n) = q_id (qs ! n)"
  shows "mset (result_ids (map snd (wk_sent s))) \<subseteq># mset (map q_id qs)"
    "(\<And>n. n < wk_pulled s \<Longrightarrow> wk_phase s n = Settled \<and> n \<notin> wk_unprepared s) \<Longrightarrow> \<not> wk_shutdown s \<Longrightarrow> wk_main s \<noteq> Stopped
      \<Longrightarrow> mset (result_ids (map snd (wk_sent s))) = mset (map q_id qs)"
proof -
  have ids: "mset (map q_id qs) = (\<Sum>n<wk_pulled s. {#q_id (qs ! n)#})"
  proof -
    have "(\<Sum>n<length xs. {#q_id (xs ! n)#}) = mset (map q_id xs)" for xs
      by (induction xs rule: rev_induct) (simp_all add: nth_append)
    then show ?thesis using assms(2) by metis
  qed
  have sent: "mset (result_ids (map snd (wk_sent s))) = (\<Sum>n<wk_pulled s. mset (result_ids (messages n s)))"
    by (rule by_request) (rule one_result(2) [OF assms(1)])
  show "mset (result_ids (map snd (wk_sent s))) \<subseteq># mset (map q_id qs)"
    unfolding ids sent
  proof (rule sum_subset_mset)
    fix n assume "n < wk_pulled s"
    then show "mset (result_ids (messages n s)) \<subseteq># {#q_id (qs ! n)#}"
      using one_result(1) [OF assms(1), of n] assms(3) by auto
  qed
  show "mset (result_ids (map snd (wk_sent s))) = mset (map q_id qs)"
    if "\<And>n. n < wk_pulled s \<Longrightarrow> wk_phase s n = Settled \<and> n \<notin> wk_unprepared s" "\<not> wk_shutdown s" "wk_main s \<noteq> Stopped"
    unfolding ids sent by (rule sum.cong) (use one_result(3) [OF assms(1)] assms(3) that in auto)
qed

section \<open>Steps of a worker\<close>

lemma worker_sent_grows: "\<exists>xs. wk_sent (worker_step ad s e) = wk_sent s @ xs"
proof -
  have cancel: "wk_sent (foldl (\<lambda>s n. cancel_task n s) s ns) = wk_sent s" for ns
    by (rule foldl_preserves_eq) (simp add: cancel_task_def settle_response_def split: option.split)
  show ?thesis
    by (cases e) (auto simp: pull_def fire_def headers_arrive_def error_body_arrives_def body_arrives_def pieces_arrive_def
        stream_ends_def shutdown_worker_def recv_closed_def cleanup_def settle_response_def handle_error_def respond_def
        next_pull_def Let_def cancel split: sum.split option.split phase.split main_pc.split prod.split)
qed

definition pull_fields :: "worker \<Rightarrow> nat \<times> (nat \<Rightarrow> in_flight_request) \<times> nat set" where
  "pull_fields s = (wk_pulled s, wk_request s, wk_unprepared s)"

lemma worker_step_pulls:
  assumes "\<forall>p. e \<noteq> PullQuery p"
  shows "pull_fields (worker_step ad s e) = pull_fields s"
proof -
  have cancel: "pull_fields (foldl (\<lambda>s n. cancel_task n s) s ns) = pull_fields s" for ns
    by (rule foldl_preserves_eq) (simp add: pull_fields_def cancel_task_def settle_response_def split: option.split)
  show ?thesis
  proof (cases e)
    case Cleanup
    then show ?thesis by (simp add: cleanup_def cancel)
  qed (use assms in \<open>auto simp: pull_fields_def fire_def headers_arrive_def error_body_arrives_def body_arrives_def
        pieces_arrive_def stream_ends_def shutdown_worker_def recv_closed_def settle_response_def handle_error_def respond_def
        next_pull_def Let_def split: sum.split option.split phase.split main_pc.split prod.split\<close>)
qed

lemma pull_step:
  assumes "wk_main s = Pulling"
  shows "wk_pulled (worker_step ad s (PullQuery p)) = Suc (wk_pulled s)"
    "n < wk_pulled s \<Longrightarrow> n \<notin> wk_unprepared (worker_step ad s (PullQuery p))
      \<Longrightarrow> n \<notin> wk_unprepared s \<and> wk_request (worker_step ad s (PullQuery p)) n = wk_request s n"
    "wk_pulled s \<notin> wk_unprepared (worker_step ad s (PullQuery p))
      \<Longrightarrow> \<exists>req. p = Inr req \<and> wk_request (worker_step ad s (PullQuery p)) (wk_pulled s) = req"
  using assms by (auto simp: pull_def next_pull_def Let_def handle_error_def split: sum.splits if_splits)

lemma prepared_id: "prepare_request enc build q = Inr req \<Longrightarrow> if_query_id req = q_id q"
  by (auto simp: prepare_request_def Let_def split: sum.splits pyval.splits)

section \<open>Steps of a channel\<close>

definition chan_ok ::
    "bool \<Rightarrow> ('f \<Rightarrow> nat) \<Rightarrow> ('a \<Rightarrow> 'f) \<Rightarrow> ('f \<Rightarrow> 'a option) \<Rightarrow> nat \<Rightarrow> ('f, 'a) channel \<Rightarrow> bool" where
  "chan_ok L bytes enc dec n c =
     (\<exists>es. c = foldl (channel_step bytes enc dec) (channel_init n) es \<and> (L \<longrightarrow> (\<forall>e\<in>set es. lossless bytes enc n e)))"

lemma chan_ok_init: "chan_ok L bytes enc dec n (channel_init n)"
  unfolding chan_ok_def by (rule exI [of _ "[]"]) simp

lemma chan_ok_step:
  assumes "chan_ok L bytes enc dec n c" "L \<longrightarrow> lossless bytes enc n e"
  shows "chan_ok L bytes enc dec n (channel_step bytes enc dec c e)"
proof -
  obtain es where "c = foldl (channel_step bytes enc dec) (channel_init n) es" "L \<longrightarrow> (\<forall>e\<in>set es. lossless bytes enc n e)"
    using assms(1) by (auto simp: chan_ok_def)
  then show ?thesis unfolding chan_ok_def using assms(2) by (intro exI [of _ "es @ [e]"]) auto
qed

lemma sender_stays_open:
  "sn_closing (sender_send enc x r s) = sn_closing s" "sn_closing (sender_on_writable rs s) = sn_closing s"
  by (simp_all add: sender_send_def buffer_frame_def sender_on_writable_def Let_def stop_writing_def
      split: socket_reply.split prod.split)

lemma step_closing:
  assumes "\<forall>j. e \<noteq> ChCloseSender j"
  shows "sn_closing (ch_senders (channel_step bytes enc dec c e) i) = sn_closing (ch_senders c i)"
  using assms by (cases e) (auto simp: sender_stays_open split: prod.split option.split)

lemma chan_ok_open:
  assumes "chan_ok True bytes enc dec n c"
  shows "\<not> sn_closing (ch_senders c i)"
proof -
  obtain es where "c = foldl (channel_step bytes enc dec) (channel_init n) es" "\<forall>e\<in>set es. lossless bytes enc n e"
    using assms by (auto simp: chan_ok_def)
  then show ?thesis
  proof (induction es arbitrary: c rule: rev_induct)
    case Nil
    then show ?case by (simp add: channel_init_def sender_init_def)
  next
    case (snoc e es)
    then have "\<forall>j. e \<noteq> ChCloseSender j" by auto
    with snoc show ?case by (simp add: step_closing)
  qed
qed

lemma io_step:
  assumes "is_io e"
  shows "ch_got (channel_step bytes enc dec c e) = ch_got c" "ch_sent (channel_step bytes enc dec c e) = ch_sent c"
  using assms by (cases e; simp)+

lemma reading_step:
  assumes "e \<in> {ChPoll, ChRecv, ChResume}"
  shows "ch_sent (channel_step bytes enc dec c e) = ch_sent c"
    "\<exists>xs. ch_got (channel_step bytes enc dec c e) = ch_got c @ xs \<and> length xs \<le> 1"
  using assms by (auto simp: outcome_list_def split: prod.split option.split recv_outcome.split)

text \<open>A worker's messages put on its sender, one after the other.\<close>

definition put_all ::
    "('g \<Rightarrow> nat) \<Rightarrow> ('m \<Rightarrow> 'g) \<Rightarrow> ('g \<Rightarrow> 'm option) \<Rightarrow> nat \<Rightarrow> ('g, 'm) channel \<Rightarrow> ('m \<times> socket_reply) list \<Rightarrow> ('g, 'm) channel" where
  "put_all bytes enc dec w c ps = foldl (\<lambda>c (m, r). channel_step bytes enc dec c (ChSend w m r)) c ps"

lemma put_all_fields:
  "ch_got (put_all bytes enc dec w c ps) = ch_got c
   \<and> (\<forall>i. ch_sent (put_all bytes enc dec w c ps) i =
       ch_sent c i @ (if i = w \<and> \<not> sn_closing (ch_senders c w) then map fst ps else []))
   \<and> (\<forall>i. sn_closing (ch_senders (put_all bytes enc dec w c ps) i) = sn_closing (ch_senders c i))"
proof (induction ps rule: rev_induct)
  case Nil
  show ?case by (simp add: put_all_def)
next
  case (snoc p ps)
  obtain m r where p: "p = (m, r)" by force
  define d where "d = put_all bytes enc dec w c ps"
  have step: "put_all bytes enc dec w c (ps @ [p]) = channel_step bytes enc dec d (ChSend w m r)"
    by (simp add: put_all_def d_def p)
  have "ch_got (channel_step bytes enc dec d (ChSend w m r)) = ch_got d"
    "ch_sent (channel_step bytes enc dec d (ChSend w m r)) i = ch_sent d i @ adds d (ChSend w m r) i"
    "sn_closing (ch_senders (channel_step bytes enc dec d (ChSend w m r)) i) = sn_closing (ch_senders d i)" for i
    by (simp, rule step_sent, rule step_closing, simp)
  then show ?case using snoc unfolding step by (simp add: p adds_def del: channel_step.simps flip: d_def)
qed

lemma put_all_spec:
  "ch_got (put_all bytes enc dec w c ps) = ch_got c"
  "ch_sent (put_all bytes enc dec w c ps) i =
     ch_sent c i @ (if i = w \<and> \<not> sn_closing (ch_senders c w) then map fst ps else [])"
  using put_all_fields [of bytes enc dec w c ps] by blast+

lemma put_all_ok:
  assumes "chan_ok L bytes enc dec n c" "L \<longrightarrow> (\<forall>(m, r)\<in>set ps. r \<noteq> SocketError \<and> bytes (enc m) \<le> n)"
  shows "chan_ok L bytes enc dec n (put_all bytes enc dec w c ps)"
  unfolding put_all_def by (rule foldl_invariant) (use assms in \<open>auto intro!: chan_ok_step simp del: channel_step.simps\<close>)

section \<open>The system keeps its accounts\<close>

definition qids_ok :: "(nat \<times> query) list \<Rightarrow> worker \<Rightarrow> bool" where
  "qids_ok got s = (length got = wk_pulled s
     \<and> (\<forall>n<wk_pulled s. n \<notin> wk_unprepared s \<longrightarrow> if_query_id (wk_request s n) = q_id (snd (got ! n))))"

definition worker_part :: "bool \<Rightarrow> ('f, 'g) client_codec \<Rightarrow> nat \<Rightarrow> ('f, 'g) system \<Rightarrow> nat \<Rightarrow> bool" where
  "worker_part L cc n s w =
     (worker_inv (sy_workers s w) \<and> qids_ok (ch_got (sy_requests s w)) (sy_workers s w)
      \<and> chan_ok L (cc_bytes cc) (cc_enc cc) (cc_dec cc) n (sy_requests s w)
      \<and> (\<forall>i. i \<noteq> 0 \<longrightarrow> ch_sent (sy_requests s w) i = [])
      \<and> subseq (ch_sent (sy_responses s) w) (map snd (wk_sent (sy_workers s w)))
      \<and> (L \<longrightarrow> ch_sent (sy_responses s) w = map snd (wk_sent (sy_workers s w))))"

definition client_part :: "bool \<Rightarrow> ('f, 'g) client_codec \<Rightarrow> nat \<Rightarrow> ('f, 'g) system \<Rightarrow> bool" where
  "client_part L cc n s =
     (sy_next s < sy_num s
      \<and> chan_ok L (cc_rbytes cc) (cc_renc cc) (cc_rdec cc) n (sy_responses s)
      \<and> (\<forall>w. sy_num s \<le> w \<longrightarrow> ch_sent (sy_responses s) w = [])
      \<and> mset (sy_issued s) = (\<Sum>w<sy_num s. mset (ch_sent (sy_requests s w) 0)))"

definition system_inv :: "bool \<Rightarrow> ('f, 'g) client_codec \<Rightarrow> nat \<Rightarrow> ('f, 'g) system \<Rightarrow> bool" where
  "system_inv L cc n s = (client_part L cc n s \<and> (\<forall>w. worker_part L cc n s w))"

text \<open>Events of a run in which nothing is lost: no socket fails, no sender closes, messages fit.\<close>

fun smooth :: "('f, 'g) client_codec \<Rightarrow> nat \<Rightarrow> system_event \<Rightarrow> bool" where
  "smooth cc n (Issue q r) = lossless (cc_bytes cc) (cc_enc cc) n (ChSend 0 q r)"
| "smooth cc n (RequestIO w e) = lossless (cc_bytes cc) (cc_enc cc) n e"
| "smooth cc n (Pull w rs) = ((\<forall>k. rs k \<noteq> SocketError) \<and> (\<forall>m. cc_rbytes cc (cc_renc cc m) \<le> n))"
| "smooth cc n (Work w e rs) = ((\<forall>k. rs k \<noteq> SocketError) \<and> (\<forall>m. cc_rbytes cc (cc_renc cc m) \<le> n))"
| "smooth cc n (ResponseIO e) = lossless (cc_rbytes cc) (cc_renc cc) n e"

lemma work_fields:
  assumes "sy_workers s w = k" "k' = worker_step (cc_adapter cc) k e" "wk_sent k' = wk_sent k @ xs"
  shows "sy_workers (work cc w e rs s) = (sy_workers s)(w := k')"
    "sy_requests (work cc w e rs s) = sy_requests s" "sy_next (work cc w e rs s) = sy_next s"
    "sy_num (work cc w e rs s) = sy_num s" "sy_issued (work cc w e rs s) = sy_issued s"
    "sy_responses (work cc w e rs s) = put_all (cc_rbytes cc) (cc_renc cc) (cc_rdec cc) w (sy_responses s)
       (zip (map snd xs) (map rs [0..<length xs]))"
  using assms by (simp_all add: work_def Let_def put_all_def)

lemma work_inv:
  assumes "w < sy_num s" and client: "client_part L cc n s" and others: "\<And>v. v \<noteq> w \<Longrightarrow> worker_part L cc n s v"
    and chan: "chan_ok L (cc_bytes cc) (cc_enc cc) (cc_dec cc) n (sy_requests s w)"
      "\<And>i. i \<noteq> 0 \<Longrightarrow> ch_sent (sy_requests s w) i = []"
    and sent: "subseq (ch_sent (sy_responses s) w) (map snd (wk_sent (sy_workers s w)))"
      "L \<Longrightarrow> ch_sent (sy_responses s) w = map snd (wk_sent (sy_workers s w))"
    and inv: "worker_inv (sy_workers s w)"
    and qids: "qids_ok (ch_got (sy_requests s w)) (worker_step (cc_adapter cc) (sy_workers s w) e)"
    and smooth: "L \<longrightarrow> (\<forall>k. rs k \<noteq> SocketError) \<and> (\<forall>m. cc_rbytes cc (cc_renc cc m) \<le> n)"
  shows "system_inv L cc n (work cc w e rs s)"
proof -
  define k where "k = sy_workers s w"
  define k' where "k' = worker_step (cc_adapter cc) k e"
  obtain xs where xs: "wk_sent k' = wk_sent k @ xs" using worker_sent_grows by (force simp: k'_def)
  define ps where "ps = zip (map snd xs) (map rs [0..<length xs])"
  note f = work_fields [OF k_def [symmetric] k'_def xs, of rs, folded ps_def]
  have fst_ps: "map fst ps = map snd xs" by (simp add: ps_def)
  have resp: "chan_ok L (cc_rbytes cc) (cc_renc cc) (cc_rdec cc) n (sy_responses s)" using client by (simp add: client_part_def)
  have ok: "chan_ok L (cc_rbytes cc) (cc_renc cc) (cc_rdec cc) n (sy_responses (work cc w e rs s))"
    unfolding f
  proof (rule put_all_ok [OF resp], intro impI)
    assume L
    then have "\<forall>k. rs k \<noteq> SocketError" "\<forall>m. cc_rbytes cc (cc_renc cc m) \<le> n" using smooth by simp_all
    moreover have "\<exists>k. snd p = rs k" if "p \<in> set ps" for p
      using that set_zip_rightD [of "fst p" "snd p"] by (force simp: ps_def)
    ultimately show "\<forall>(m, r)\<in>set ps. r \<noteq> SocketError \<and> cc_rbytes cc (cc_renc cc m) \<le> n"
      by (auto simp: case_prod_beta) metis
  qed
  have sent': "ch_sent (sy_responses (work cc w e rs s)) v =
      ch_sent (sy_responses s) v @ (if v = w \<and> \<not> sn_closing (ch_senders (sy_responses s) w) then map snd xs else [])" for v
    by (simp add: f put_all_spec fst_ps)
  have "client_part L cc n (work cc w e rs s)"
    using client ok sent' assms(1) by (simp add: client_part_def f)
  moreover have "worker_part L cc n (work cc w e rs s) v" if "v \<noteq> w" for v
    using others [OF that] that by (simp add: worker_part_def f(1,2) sent')
  moreover have "worker_part L cc n (work cc w e rs s) w"
  proof -
    have "subseq (ch_sent (sy_responses (work cc w e rs s)) w) (map snd (wk_sent k'))"
      using sent(1) by (simp add: sent' xs list_emb_append_mono list_emb_prefix flip: k_def)
    moreover have "ch_sent (sy_responses (work cc w e rs s)) w = map snd (wk_sent k')" if L
    proof -
      have "chan_ok True (cc_rbytes cc) (cc_renc cc) (cc_rdec cc) n (sy_responses s)" using resp that by simp
      then have "\<not> sn_closing (ch_senders (sy_responses s) w)" by (rule chan_ok_open)
      then show ?thesis using sent(2) [OF that] by (simp add: sent' xs flip: k_def)
    qed
    ultimately show ?thesis
      using inv qids chan worker_step_inv [OF inv] by (simp add: worker_part_def f(1,2) k'_def k_def)
  qed
  ultimately show ?thesis unfolding system_inv_def by metis
qed

lemma request_io_fields [simp]:
  "sy_workers (request_io cc w e s) = sy_workers s" "sy_responses (request_io cc w e s) = sy_responses s"
  "sy_num (request_io cc w e s) = sy_num s" "sy_next (request_io cc w e s) = sy_next s"
  "sy_issued (request_io cc w e s) = sy_issued s"
  "sy_requests (request_io cc w e s) =
     (sy_requests s)(w := channel_step (cc_bytes cc) (cc_enc cc) (cc_dec cc) (sy_requests s w) e)"
  by (simp_all add: request_io_def)

text \<open>A request channel's step that neither sends nor hands a message out.\<close>

lemma request_io_inv:
  assumes inv: "system_inv L cc n s" and smooth: "L \<longrightarrow> lossless (cc_bytes cc) (cc_enc cc) n e"
    and same: "ch_sent (channel_step (cc_bytes cc) (cc_enc cc) (cc_dec cc) (sy_requests s w) e) = ch_sent (sy_requests s w)"
      "ch_got (channel_step (cc_bytes cc) (cc_enc cc) (cc_dec cc) (sy_requests s w) e) = ch_got (sy_requests s w)"
  shows "system_inv L cc n (request_io cc w e s)"
proof -
  have w: "worker_part L cc n s v" for v using inv by (simp add: system_inv_def)
  have ok: "chan_ok L (cc_bytes cc) (cc_enc cc) (cc_dec cc) n (channel_step (cc_bytes cc) (cc_enc cc) (cc_dec cc) (sy_requests s w) e)"
    using w [of w] smooth by (intro chan_ok_step) (simp_all add: worker_part_def)
  have "worker_part L cc n (request_io cc w e s) v" for v
    using w [of v] ok same by (cases "v = w") (simp_all add: worker_part_def)
  moreover have "client_part L cc n (request_io cc w e s)"
    using inv same by (auto simp: system_inv_def client_part_def intro!: sum.cong)
  ultimately show ?thesis by (simp add: system_inv_def)
qed

lemma issue_inv:
  assumes inv: "system_inv L cc n s" and smooth: "L \<longrightarrow> smooth cc n (Issue q r)"
  shows "system_inv L cc n (system_step cc s (Issue q r))"
proof -
  define w where "w = sy_next s"
  define c where "c = sy_requests s w"
  define c' where "c' = channel_step (cc_bytes cc) (cc_enc cc) (cc_dec cc) c (ChSend 0 q r)"
  define s' where "s' = system_step cc s (Issue q r)"
  have wlt: "w < sy_num s" using inv by (simp add: system_inv_def client_part_def w_def)
  have new: "ch_sent c' i = ch_sent c i @ (if i = 0 \<and> \<not> sn_closing (ch_senders c 0) then [q] else [])" for i
    unfolding c'_def step_sent by (auto simp: adds_def)
  have got: "ch_got c' = ch_got c" by (simp add: c'_def)
  have s': "sy_workers s' = sy_workers s" "sy_responses s' = sy_responses s" "sy_num s' = sy_num s"
    "sy_requests s' = (sy_requests s)(w := c')" "sy_next s' = Suc (sy_next s) mod sy_num s"
    "sy_issued s' = sy_issued s @ (if sn_closing (ch_senders c 0) then [] else [q])"
    by (simp_all add: s'_def w_def c_def c'_def)
  have parts: "worker_part L cc n s v" for v using inv by (simp add: system_inv_def)
  have "chan_ok L (cc_bytes cc) (cc_enc cc) (cc_dec cc) n c'"
    unfolding c'_def using parts [of w] smooth by (intro chan_ok_step) (simp_all add: worker_part_def c_def)
  then have "worker_part L cc n s' v" for v
    using parts [of v] got new by (cases "v = w") (simp_all add: worker_part_def s' c_def)
  moreover have "client_part L cc n s'"
  proof -
    have "(\<Sum>v<sy_num s. mset (ch_sent (sy_requests s' v) 0))
        = (\<Sum>v<sy_num s. mset (ch_sent (sy_requests s v) 0) + (if v = w then mset (if sn_closing (ch_senders c 0) then [] else [q]) else {#}))"
      by (rule sum.cong) (auto simp: s' new c_def)
    also have "\<dots> = mset (sy_issued s')"
      using inv wlt by (simp only: sum.distrib) (simp add: system_inv_def client_part_def s' sum.delta)
    finally show ?thesis using inv wlt by (simp add: system_inv_def client_part_def s')
  qed
  ultimately show ?thesis by (simp add: system_inv_def s'_def)
qed

lemma pull_inv_system:
  assumes inv: "system_inv L cc n s" and smooth: "L \<longrightarrow> smooth cc n (Pull w rs)"
  shows "system_inv L cc n (system_step cc s (Pull w rs))"
proof (cases "w < sy_num s \<and> wk_main (sy_workers s w) = Pulling")
  case True
  define e where "e = (if rv_waiter (ch_receiver (sy_requests s w)) = None then ChRecv else ChResume :: query channel_event)"
  define c where "c = sy_requests s w"
  define s' where "s' = request_io cc w e s"
  have e: "e \<in> {ChPoll, ChRecv, ChResume}" "lossless (cc_bytes cc) (cc_enc cc) n e" by (simp_all add: e_def)
  obtain xs where xs: "ch_got (sy_requests s' w) = ch_got c @ xs" "length xs \<le> 1"
    using reading_step(2) [OF e(1)] by (force simp: s'_def c_def)
  have same: "ch_sent (sy_requests s' v) = ch_sent (sy_requests s v)" for v
    by (simp add: s'_def reading_step(1) [OF e(1)])
  have step: "system_step cc s (Pull w rs) = (case xs of [] \<Rightarrow> s'
      | (i, q) # _ \<Rightarrow> work cc w (PullQuery (prepare_request (cc_encode cc) (cc_build cc) q)) rs s')"
  proof -
    have "system_step cc s (Pull w rs) = (case drop (length (ch_got c)) (ch_got (sy_requests s' w)) of [] \<Rightarrow> s'
        | (i, q) # _ \<Rightarrow> work cc w (PullQuery (prepare_request (cc_encode cc) (cc_build cc) q)) rs s')"
      unfolding c_def s'_def e_def using True by (simp only: system_step.simps Let_def if_True simp_thms)
    then show ?thesis by (simp add: xs(1))
  qed
  have parts: "worker_part L cc n s v" for v using inv by (simp add: system_inv_def)
  show ?thesis
  proof (cases xs)
    case Nil
    have "system_inv L cc n s'"
      unfolding s'_def by (rule request_io_inv [OF inv]) (use e(2) reading_step(1) [OF e(1)] xs(1) Nil in \<open>simp_all add: s'_def c_def\<close>)
    with Nil show ?thesis unfolding step by simp
  next
    case (Cons p ys)
    obtain i q where p: "p = (i, q)" by force
    have one: "xs = [(i, q)]" using xs(2) Cons p by simp
    define k where "k = sy_workers s w"
    define ev where "ev = PullQuery (prepare_request (cc_encode cc) (cc_build cc) q)"
    have main: "wk_main k = Pulling" using True by (simp add: k_def)
    have q0: "qids_ok (ch_got c) k" using parts [of w] by (simp add: worker_part_def c_def k_def)
    have q1: "qids_ok (ch_got (sy_requests s' w)) (worker_step (cc_adapter cc) k ev)"
    proof -
      have "if_query_id (wk_request (worker_step (cc_adapter cc) k ev) m) = q_id (snd ((ch_got c @ [(i, q)]) ! m))"
        if m: "m < Suc (wk_pulled k)" "m \<notin> wk_unprepared (worker_step (cc_adapter cc) k ev)" for m
      proof (cases "m = wk_pulled k")
        case True
        then show ?thesis
          using pull_step(3) [OF main, of "cc_adapter cc"] m(2) q0 prepared_id
          by (fastforce simp: ev_def qids_ok_def nth_append simp del: worker_step.simps)
      next
        case False
        then show ?thesis
          using pull_step(2) [OF main, of m "cc_adapter cc"] m q0
          by (simp add: ev_def qids_ok_def nth_append del: worker_step.simps)
      qed
      then show ?thesis
        using q0 pull_step(1) [OF main] unfolding qids_ok_def xs(1) one ev_def
        by (simp del: worker_step.simps)
    qed
    have "system_inv L cc n (work cc w ev rs s')"
    proof (rule work_inv)
      show "w < sy_num s'" using True by (simp add: s'_def)
      show "client_part L cc n s'" using inv same by (simp add: system_inv_def client_part_def s'_def)
      show "worker_part L cc n s' v" if "v \<noteq> w" for v using parts [of v] that by (simp add: worker_part_def s'_def)
      show "chan_ok L (cc_bytes cc) (cc_enc cc) (cc_dec cc) n (sy_requests s' w)"
        using parts [of w] e(2) by (simp add: s'_def chan_ok_step worker_part_def del: channel_step.simps)
      show "ch_sent (sy_requests s' w) i = []" if "i \<noteq> 0" for i using parts [of w] that same by (simp add: worker_part_def)
      show "subseq (ch_sent (sy_responses s') w) (map snd (wk_sent (sy_workers s' w)))"
        using parts [of w] by (simp add: worker_part_def s'_def)
      show "ch_sent (sy_responses s') w = map snd (wk_sent (sy_workers s' w))" if L
        using parts [of w] that by (simp add: worker_part_def s'_def)
      show "worker_inv (sy_workers s' w)" using parts [of w] by (simp add: worker_part_def s'_def)
      show "qids_ok (ch_got (sy_requests s' w)) (worker_step (cc_adapter cc) (sy_workers s' w) ev)"
        using q1 by (simp add: s'_def k_def)
    qed (use smooth in simp)
    then show ?thesis unfolding step by (simp add: one ev_def)
  qed
qed (use inv in auto)

lemma work_inv_system:
  assumes inv: "system_inv L cc n s" and smooth: "L \<longrightarrow> smooth cc n (Work w e rs)"
  shows "system_inv L cc n (system_step cc s (Work w e rs))"
proof (cases "w < sy_num s \<and> (\<forall>p. e \<noteq> PullQuery p)")
  case True
  have parts: "worker_part L cc n s v" for v using inv by (simp add: system_inv_def)
  have "qids_ok (ch_got (sy_requests s w)) (worker_step (cc_adapter cc) (sy_workers s w) e)"
    using parts [of w] worker_step_pulls [of e "cc_adapter cc" "sy_workers s w"] True
    by (simp add: worker_part_def qids_ok_def pull_fields_def)
  then have "system_inv L cc n (work cc w e rs s)"
    by (intro work_inv) (use True inv parts [of w] parts smooth in \<open>simp_all add: worker_part_def system_inv_def\<close>)
  with True show ?thesis by simp
qed (use inv in auto)

lemma response_inv:
  assumes inv: "system_inv L cc n s" and smooth: "L \<longrightarrow> smooth cc n (ResponseIO e)"
  shows "system_inv L cc n (system_step cc s (ResponseIO e))"
proof (cases "is_io e \<or> e \<in> {ChPoll, ChRecv, ChResume}")
  case True
  define c' where "c' = channel_step (cc_rbytes cc) (cc_renc cc) (cc_rdec cc) (sy_responses s) e"
  have step: "system_step cc s (ResponseIO e) = s\<lparr>sy_responses := c'\<rparr>" using True by (auto simp: c'_def)
  have sent: "ch_sent c' = ch_sent (sy_responses s)"
    using True io_step(2) [of e] reading_step(1) [of e] unfolding c'_def by blast
  have ok: "chan_ok L (cc_rbytes cc) (cc_renc cc) (cc_rdec cc) n c'"
    unfolding c'_def using inv smooth by (intro chan_ok_step) (simp_all add: system_inv_def client_part_def)
  show ?thesis using inv ok sent unfolding step by (simp add: system_inv_def client_part_def worker_part_def)
qed (use inv in auto)

lemma system_step_inv:
  assumes "system_inv L cc n s" "L \<longrightarrow> smooth cc n e"
  shows "system_inv L cc n (system_step cc s e)"
proof (cases e)
  case (RequestIO w ev)
  show ?thesis
  proof (cases "is_io ev")
    case True
    then have "system_inv L cc n (request_io cc w ev s)"
      by (intro request_io_inv) (use assms RequestIO io_step in simp_all)
    with True RequestIO show ?thesis by simp
  qed (use assms RequestIO in simp)
qed (use assms issue_inv pull_inv_system work_inv_system response_inv in \<open>simp_all only:\<close>)

lemma system_init_inv: "0 < m \<Longrightarrow> system_inv L cc n (system_init m n stream_all)"
  by (simp add: system_inv_def client_part_def worker_part_def system_init_def chan_ok_init worker_inv_init qids_ok_def)
     (simp add: channel_init_def worker_init_def)

lemma system_run_inv:
  assumes "0 < m" "L \<longrightarrow> (\<forall>e\<in>set es. smooth cc n e)"
  shows "system_inv L cc n (foldl (system_step cc) (system_init m n stream_all) es)"
proof (rule foldl_invariant)
  show "system_inv L cc n (system_init m n stream_all)" using assms(1) by (rule system_init_inv)
  show "system_inv L cc n (system_step cc s e)" if "system_inv L cc n s" "e \<in> set es" for s e
    using that(1) by (rule system_step_inv) (use assms(2) that(2) in blast)
qed

lemma system_num: "sy_num (foldl (system_step cc) s es) = sy_num s"
proof (rule foldl_preserves_eq)
  show "sy_num (system_step cc s e) = sy_num s" for s e
    by (cases e) (auto simp: Let_def work_def split: list.split)
qed

section \<open>Answers come back once\<close>

text \<open>Nothing is under way on a channel.\<close>

definition drained :: "('f, 'a) channel \<Rightarrow> bool" where
  "drained c = (rv_deque (ch_receiver c) = [] \<and> rv_socket (ch_receiver c) = [] \<and> (\<forall>i. sender_frames (ch_senders c i) = []))"

lemma chan_ok_got:
  assumes codec: "\<And>x. dec (enc x) = Some x" and "chan_ok L bytes enc dec n c"
  shows "subseq (msgs_of i (ch_got c)) (ch_sent c i)"
    "L \<Longrightarrow> drained c \<Longrightarrow> msgs_of i (ch_got c) = ch_sent c i"
proof -
  obtain es where es: "c = foldl (channel_step bytes enc dec) (channel_init n) es" "L \<longrightarrow> (\<forall>e\<in>set es. lossless bytes enc n e)"
    using assms(2) by (auto simp: chan_ok_def)
  have "subseq (msgs_of i (ch_got c)) (content dec i c)" by (simp add: content_def list_emb_prefix)
  then show "subseq (msgs_of i (ch_got c)) (ch_sent c i)"
    using channel_subseq [where dec = dec and enc = enc and i = i, OF codec] unfolding es(1)
    by (rule subseq_order.order_trans)
  show "msgs_of i (ch_got c) = ch_sent c i" if L "drained c"
  proof -
    have "content dec i c = ch_sent c i"
      using channel_lossless [where dec = dec and enc = enc and i = i, OF codec] es that(1) by blast
    with that(2) show ?thesis by (simp add: content_def drained_def arriving_def List.map_filter_simps)
  qed
qed

lemma msgs_of_only: "(\<And>i. i \<noteq> 0 \<Longrightarrow> msgs_of i xs = []) \<Longrightarrow> msgs_of 0 xs = map snd xs"
proof (induction xs)
  case (Cons p xs)
  have "fst p = 0" using Cons.prems [of "fst p"] by (cases "fst p = 0") auto
  moreover have "msgs_of i xs = []" if "i \<noteq> 0" for i using Cons.prems [OF that] by (auto split: if_splits)
  ultimately show ?case using Cons.IH by simp
qed simp

lemma msgs_of_split:
  assumes "\<And>i. N \<le> i \<Longrightarrow> msgs_of i xs = []"
  shows "mset (result_ids (map snd xs)) = (\<Sum>i<N. mset (result_ids (msgs_of i xs)))"
  using assms
proof (induction xs)
  case (Cons p xs)
  have "fst p < N" using Cons.prems [of "fst p"] by (cases "fst p < N") auto
  then have one: "(\<Sum>i<N. if fst p = i then mset (result_ids [snd p]) else {#}) = mset (result_ids [snd p])" by simp
  have "(\<Sum>i<N. mset (result_ids (msgs_of i (p # xs))))
      = (\<Sum>i<N. (if fst p = i then mset (result_ids [snd p]) else {#}) + mset (result_ids (msgs_of i xs)))"
    by (rule sum.cong) auto
  also have "\<dots> = mset (result_ids [snd p]) + mset (result_ids (map snd xs))"
  proof -
    have "msgs_of i xs = []" if "N \<le> i" for i using Cons.prems [OF that] by (auto split: if_splits)
    then show ?thesis using Cons.IH by (simp only: sum.distrib one)
  qed
  finally show ?case using result_ids_Cons [of "snd p" "map snd xs"] by simp
qed simp

definition faithful :: "('f, 'g) client_codec \<Rightarrow> bool" where
  "faithful cc = ((\<forall>q. cc_dec cc (cc_enc cc q) = Some q) \<and> (\<forall>m. cc_rdec cc (cc_renc cc m) = Some m))"

definition settled :: "('f, 'g) system \<Rightarrow> bool" where
  "settled s = (drained (sy_responses s)
     \<and> (\<forall>w<sy_num s. drained (sy_requests s w) \<and> \<not> wk_shutdown (sy_workers s w) \<and> wk_main (sy_workers s w) \<noteq> Stopped
         \<and> (\<forall>k<wk_pulled (sy_workers s w). wk_phase (sy_workers s w) k = Settled \<and> k \<notin> wk_unprepared (sy_workers s w))))"

text \<open>C21. End to end, the client gets at most one result for every query it issued and none for any other,
  whatever the sockets, the workers and the server do; and when nothing was lost, no worker was stopped
  and every query could be encoded, once everything is settled it has exactly one result per query.\<close>

theorem client_gets_one_result_per_query:
  assumes "faithful cc" "0 < m" and s: "s = foldl (system_step cc) (system_init m n stream_all) es"
  shows "mset (result_ids (map snd (ch_got (sy_responses s)))) \<subseteq># mset (map q_id (sy_issued s))
    \<and> ((\<forall>e\<in>set es. smooth cc n e) \<and> settled s \<longrightarrow>
        mset (result_ids (map snd (ch_got (sy_responses s)))) = mset (map q_id (sy_issued s)))"
proof -
  have codec: "\<And>q. cc_dec cc (cc_enc cc q) = Some q" "\<And>m. cc_rdec cc (cc_renc cc m) = Some m"
    using assms(1) by (simp_all add: faithful_def)
  define N where "N = sy_num s"
  define backw where "backw w = msgs_of w (ch_got (sy_responses s))" for w
  define takenw where "takenw w = map snd (ch_got (sy_requests s w))" for w
  define put where "put w = ch_sent (sy_requests s w) 0" for w
  have issued: "mset (map q_id (sy_issued s)) = (\<Sum>w<N. mset (map q_id (put w)))"
    if "system_inv L cc n s" for L
  proof -
    have sums: "image_mset q_id (\<Sum>w<N. mset (put w)) = (\<Sum>w<N. image_mset q_id (mset (put w)))" for N
      by (induction N) simp_all
    from that have "mset (sy_issued s) = (\<Sum>w<N. mset (put w))" by (simp add: system_inv_def client_part_def N_def put_def)
    then show ?thesis by (simp add: sums)
  qed
  have results: "mset (result_ids (map snd (ch_got (sy_responses s)))) = (\<Sum>w<N. mset (result_ids (backw w)))"
    and worker: "mset (result_ids (backw w)) \<subseteq># mset (map q_id (put w))"
      "L \<Longrightarrow> settled s \<Longrightarrow> w < N \<Longrightarrow> mset (result_ids (backw w)) = mset (map q_id (put w))"
    if inv: "system_inv L cc n s" for L w
  proof -
    have cp: "chan_ok L (cc_rbytes cc) (cc_renc cc) (cc_rdec cc) n (sy_responses s)"
      "\<And>w. N \<le> w \<Longrightarrow> ch_sent (sy_responses s) w = []"
      using inv by (simp_all add: system_inv_def client_part_def N_def)
    note got = chan_ok_got [where enc = "cc_renc cc" and dec = "cc_rdec cc", OF codec(2) cp(1)]
    have "backw w = []" if "N \<le> w" for w using got(1) [of w] cp(2) [OF that] by (simp add: backw_def)
    then show "mset (result_ids (map snd (ch_got (sy_responses s)))) = (\<Sum>w<N. mset (result_ids (backw w)))"
      using msgs_of_split [of N "ch_got (sy_responses s)"] by (simp add: backw_def)
    have wp: "worker_part L cc n s w" using inv by (simp add: system_inv_def)
    then have rq: "chan_ok L (cc_bytes cc) (cc_enc cc) (cc_dec cc) n (sy_requests s w)" by (simp add: worker_part_def)
    note req = chan_ok_got [where enc = "cc_enc cc" and dec = "cc_dec cc", OF codec(1) rq]
    have "msgs_of i (ch_got (sy_requests s w)) = []" if "i \<noteq> 0" for i
      using req(1) [of i] wp that by (simp add: worker_part_def)
    then have zero: "msgs_of 0 (ch_got (sy_requests s w)) = takenw w" unfolding takenw_def by (rule msgs_of_only)
    have ids: "length (takenw w) = wk_pulled (sy_workers s w)"
      "\<And>k. k < wk_pulled (sy_workers s w) \<Longrightarrow> k \<notin> wk_unprepared (sy_workers s w)
         \<Longrightarrow> if_query_id (wk_request (sy_workers s w) k) = q_id (takenw w ! k)"
      using wp by (auto simp: worker_part_def qids_ok_def takenw_def)
    have inv: "worker_inv (sy_workers s w)" using wp by (simp add: worker_part_def)
    note ans = answers_of_worker [OF inv ids]
    have "mset (result_ids (backw w)) \<subseteq># mset (result_ids (map snd (wk_sent (sy_workers s w))))"
      using wp got(1) [of w] unfolding backw_def worker_part_def
      by (intro subseq_mset result_ids_subseq) (blast intro: subseq_order.order_trans)
    also note ans(1)
    also have "mset (map q_id (takenw w)) \<subseteq># mset (map q_id (put w))"
      using req(1) [of 0] unfolding zero put_def by (intro subseq_mset subseq_map)
    finally show "mset (result_ids (backw w)) \<subseteq># mset (map q_id (put w))" .
    show "mset (result_ids (backw w)) = mset (map q_id (put w))" if "L" "settled s" "w < N"
    proof -
      have "drained (sy_responses s)" "drained (sy_requests s w)" using that by (simp_all add: settled_def N_def)
      then have "takenw w = put w" "backw w = map snd (wk_sent (sy_workers s w))"
        using req(2) [of 0, OF that(1)] got(2) [of w, OF that(1)] zero wp that(1)
        by (simp_all add: put_def backw_def worker_part_def)
      then show ?thesis using ans(2) that by (simp add: settled_def N_def)
    qed
  qed
  have inv: "system_inv False cc n s" unfolding s by (rule system_run_inv [OF assms(2)]) simp
  have "mset (result_ids (map snd (ch_got (sy_responses s)))) \<subseteq># mset (map q_id (sy_issued s))"
    unfolding results [OF inv] issued [OF inv] by (rule sum_subset_mset) (rule worker(1) [OF inv])
  moreover have "mset (result_ids (map snd (ch_got (sy_responses s)))) = mset (map q_id (sy_issued s))"
    if "\<forall>e\<in>set es. smooth cc n e" "settled s"
  proof -
    have inv: "system_inv True cc n s" unfolding s by (rule system_run_inv [OF assms(2)]) (use that(1) in simp)
    show ?thesis unfolding results [OF inv] issued [OF inv]
      by (rule sum.cong) (use worker(2) [OF inv] that(2) in simp_all)
  qed
  ultimately show ?thesis by blast
qed

definition example_codec :: "(query, worker_message) client_codec" where
  "example_codec = \<lparr>cc_bytes = (\<lambda>_. 1), cc_enc = id, cc_dec = Some, cc_rbytes = (\<lambda>_. 1), cc_renc = id, cc_rdec = Some,
     cc_encode = (\<lambda>q. Inr []), cc_build = (\<lambda>b s h. b), cc_adapter = example_adapter\<rparr>"

definition example_query :: query where
  "example_query = \<lparr>q_id = ''q'', q_data = PDict [], q_headers = []\<rparr>"

definition example_system_run :: "system_event list" where
  "example_system_run =
     [Issue example_query Accepted, RequestIO 0 (ChTransmit 0 1), RequestIO 0 (ChReadable None), Pull 0 (\<lambda>_. Accepted),
      Work 0 (PoolAnswers (Inr 4) None) (\<lambda>_. Accepted),
      Work 0 (HeadersArrive 0 (Inl \<lparr>fl_type = ''ConnectionError'', fl_repr = []\<rparr>)) (\<lambda>_. Accepted),
      ResponseIO (ChTransmit 0 1), ResponseIO (ChReadable None), ResponseIO ChPoll]"

theorem client_gets_one_result_per_query_witness:
  "mset (result_ids (map snd (ch_got (sy_responses
      (foldl (system_step example_codec) (system_init 1 4 False) example_system_run))))) = {#''q''#}"
proof -
  let ?s = "foldl (system_step example_codec) (system_init 1 4 False) example_system_run"
  have faith: "faithful example_codec" by (simp add: faithful_def example_codec_def)
  have smooth: "\<forall>e\<in>set example_system_run. smooth example_codec 4 e" by (simp add: example_system_run_def example_codec_def)
  have set: "settled ?s \<and> sy_issued ?s = [example_query]"
    by (simp add: settled_def drained_def example_system_run_def system_init_def example_codec_def channel_init_def sender_init_def
        receiver_init_def worker_init_def request_io_def work_def Let_def sender_send_def at_sender_def sender_frames_def
        receiver_on_readable_def tag_dec_def wake_def recv_begin_def recv_loop_def take_outcome_def prepare_request_def
        example_query_def pull_def fire_def headers_arrive_def next_pull_def set_phase_def settle_response_def handle_error_def
        respond_def receiver_poll_def dget_def truthy.simps)
  have "mset (result_ids (map snd (ch_got (sy_responses ?s)))) = mset (map q_id (sy_issued ?s))"
    using client_gets_one_result_per_query [OF faith zero_less_one refl, of 4 False example_system_run] smooth set by blast
  then show ?thesis using set by (simp add: example_query_def)
qed

end
