(* ===== verification/Readiness.thy ===== *)
theory Readiness
  imports Transport
begin

text \<open>
  The startup handshake: every worker sends one ready signal, and the manager waits for all of them in
  rounds of a tenth of the timeout so that it can look for dead workers in between.  A round that times
  out loses the signals it had taken, so startup succeeds exactly when all signals fall into one round.
\<close>

section \<open>One wait\<close>

lemma collect_sorted:
  assumes "sorted (map fst sigs)" "length sigs \<le> k"
  shows "collect_signals k (Some d) ids sigs =
    Some (if length sigs = k \<and> (\<forall>p\<in>set sigs. fst p \<le> d) then (Inr (ids @ map snd sigs), [])
          else (Inl timeout_error, filter (\<lambda>p. d < fst p) sigs))"
  using assms
proof (induction sigs arbitrary: k ids)
  case Nil
  then show ?case by (cases k) simp_all
next
  case (Cons p sigs)
  obtain t i where p: "p = (t, i)" by force
  from Cons.prems obtain k' where k: "k = Suc k'" by (cases k) auto
  show ?case
  proof (cases "t \<le> d")
    case True
    with Cons.IH [of k' "ids @ [i]"] Cons.prems show ?thesis by (auto simp: p k)
  next
    case False
    have "d < fst q" if "q \<in> set sigs" for q using Cons.prems(1) that False by (auto simp: p)
    then have "filter (\<lambda>p. d < fst p) sigs = sigs" by (simp add: filter_id_conv)
    with False show ?thesis by (auto simp: p k)
  qed
qed

text \<open>A repeated wait after a timeout never sees the signals the first wait took.\<close>

lemma retried_wait_forgets:
  "ready_wait 2 0 (Some 1) [(1, 0), (2, 1)] = Some (Inl timeout_error, [(2, 1)])"
  "ready_wait 2 1 (Some 9) [(2, 1)] = Some (Inl timeout_error, [])"
  by (simp_all add: ready_wait_def numeral_2_eq_2)

section \<open>The rounds\<close>

definition in_round :: "rat \<Rightarrow> nat \<Rightarrow> rat \<Rightarrow> bool" where
  "in_round timeout k t = (of_nat k * (timeout / 10) < t \<and> t \<le> of_nat (Suc k) * (timeout / 10))"

definition ready_in_round :: "nat \<Rightarrow> rat \<Rightarrow> signals \<Rightarrow> nat \<Rightarrow> bool" where
  "ready_in_round count timeout sigs k = (length sigs = count \<and> (\<forall>p\<in>set sigs. in_round timeout k (fst p)))"

lemma in_round_unique:
  assumes "in_round timeout k t" "t \<le> of_nat (Suc j) * (timeout / 10)" "0 < timeout" "j \<le> k"
  shows "k = j"
proof (rule ccontr)
  assume "k \<noteq> j"
  then have "of_nat (Suc j) * (timeout / 10) \<le> of_nat k * (timeout / 10)"
    using assms(3,4) by (intro mult_right_mono) (simp_all del: of_nat_Suc)
  with assms(1,2) show False by (simp add: in_round_def)
qed

lemma await_rounds:
  assumes "0 < timeout" "\<And>t. \<not> dead t" "0 < count"
  shows "j + fuel = 10 \<Longrightarrow> sorted (map fst sigs) \<Longrightarrow> length sigs \<le> count \<Longrightarrow>
    (\<And>p. p \<in> set sigs \<Longrightarrow> of_nat j * (timeout / 10) < fst p) \<Longrightarrow>
    await_workers (Suc fuel) count timeout dead (of_nat j * (timeout / 10)) sigs
      = Some (if \<exists>k. j \<le> k \<and> k < 10 \<and> ready_in_round count timeout sigs k then Inr () else Inl timeout_error)"
proof (induction fuel arbitrary: j sigs)
  case 0
  then show ?case using assms by simp
next
  case (Suc fuel)
  define d where "d = of_nat (Suc j) * (timeout / 10)"
  define late where "late = filter (\<lambda>p. d < fst p) sigs"
  have "of_nat j * (timeout / 10) + timeout / 10 \<le> timeout"
  proof -
    have "Suc j \<le> 10" using Suc.prems(1) by simp
    then have "rat_of_nat (Suc j) \<le> rat_of_nat 10" by (simp only: of_nat_le_iff)
    then have "of_nat (Suc j) * (timeout / 10) \<le> of_nat 10 * (timeout / 10)"
      using assms(1) by (intro mult_right_mono) simp_all
    then show ?thesis by (simp add: algebra_simps)
  qed
  then have wait: "min (timeout / 10) (timeout - of_nat j * (timeout / 10)) = timeout / 10"
    "\<not> timeout - of_nat j * (timeout / 10) \<le> 0" using assms(1) Suc.prems(1) by simp_all
  have d: "of_nat j * (timeout / 10) + timeout / 10 = d" by (simp add: d_def algebra_simps)
  define now where "now = of_nat j * (timeout / 10)"
  have wait': "min (timeout / 10) (timeout - now) = timeout / 10" "\<not> timeout - now \<le> 0" "now + timeout / 10 = d"
    unfolding now_def by (rule wait d)+
  have step: "await_workers (Suc f) count timeout dead now sigs =
      (if length sigs = count \<and> (\<forall>p\<in>set sigs. fst p \<le> d) then Some (Inr ())
       else await_workers f count timeout dead d late)" for f
    by (simp only: await_workers.simps Let_def assms(2) wait' if_False ready_wait_def option.map
        collect_sorted [OF Suc.prems(2,3)] late_def option.case sum.case prod.case split: if_split) auto
  show ?case unfolding now_def [symmetric] step
  proof (cases "length sigs = count \<and> (\<forall>p\<in>set sigs. fst p \<le> d)")
    case True
    then have "ready_in_round count timeout sigs j"
      using Suc.prems(4) by (auto simp: ready_in_round_def in_round_def d_def)
    moreover have "j < 10" using Suc.prems(1) by simp
    ultimately show "(if length sigs = count \<and> (\<forall>p\<in>set sigs. fst p \<le> d) then Some (Inr ())
        else await_workers (Suc fuel) count timeout dead d late)
      = Some (if \<exists>k. j \<le> k \<and> k < 10 \<and> ready_in_round count timeout sigs k then Inr () else Inl timeout_error)"
      using True by auto
  next
    case False
    have sub: "length late \<le> length sigs" "sorted (map fst late)"
      using Suc.prems(2) by (simp_all add: late_def sorted_filter)
    have IH: "await_workers (Suc fuel) count timeout dead d late
      = Some (if \<exists>k. Suc j \<le> k \<and> k < 10 \<and> ready_in_round count timeout late k then Inr () else Inl timeout_error)"
    proof -
      have "length late \<le> count" using sub(1) Suc.prems(3) by (rule le_trans)
      moreover have "d < fst p" if "p \<in> set late" for p using that by (simp add: late_def)
      ultimately show ?thesis using Suc.IH [of "Suc j" late] Suc.prems(1) sub(2) by (simp only: d_def)
    qed
    have "(Suc j \<le> k \<and> ready_in_round count timeout late k) \<longleftrightarrow> (j \<le> k \<and> ready_in_round count timeout sigs k)" for k
    proof (cases "late = sigs")
      case True
      have "k \<noteq> j" if "ready_in_round count timeout sigs k"
      proof -
        from that assms(3) obtain p where p: "p \<in> set sigs" "in_round timeout k (fst p)"
          by (cases sigs) (auto simp: ready_in_round_def)
        then have "d < fst p" using True by (auto simp: late_def filter_id_conv)
        with p(2) show ?thesis by (auto simp: in_round_def d_def)
      qed
      with True show ?thesis by auto
    next
      case neq: False
      then obtain p where p: "p \<in> set sigs" "fst p \<le> d" by (auto simp: late_def filter_id_conv)
      then have "length late < length sigs" by (auto simp: late_def intro: length_filter_less)
      then have "\<not> ready_in_round count timeout late k" using Suc.prems(3) by (simp add: ready_in_round_def)
      moreover have "\<not> ready_in_round count timeout sigs k" if "j \<le> k"
      proof
        assume r: "ready_in_round count timeout sigs k"
        then have "k = j" using in_round_unique p assms(1) that by (auto simp: ready_in_round_def d_def)
        with r False show False by (auto simp: ready_in_round_def in_round_def d_def)
      qed
      ultimately show ?thesis by blast
    qed
    then have "(\<exists>k. Suc j \<le> k \<and> k < 10 \<and> ready_in_round count timeout late k)
        \<longleftrightarrow> (\<exists>k. j \<le> k \<and> k < 10 \<and> ready_in_round count timeout sigs k)" by blast
    with False IH show "(if length sigs = count \<and> (\<forall>p\<in>set sigs. fst p \<le> d) then Some (Inr ())
        else await_workers (Suc fuel) count timeout dead d late)
      = Some (if \<exists>k. j \<le> k \<and> k < 10 \<and> ready_in_round count timeout sigs k then Inr () else Inl timeout_error)"
      by simp
  qed
qed

text \<open>With every worker alive and every signal sent, the manager's wait succeeds exactly when all signals arrive
  within the same tenth of the timeout.\<close>

lemma ready_in_one_round:
  assumes "0 < timeout" "\<And>t. \<not> dead t" "0 < count" "length sigs = count" "sorted (map fst sigs)"
    "\<And>p. p \<in> set sigs \<Longrightarrow> 0 < fst p"
  shows "wait_for_workers count timeout dead sigs =
    Some (if \<exists>k<10. \<forall>p\<in>set sigs. in_round timeout k (fst p) then Inr () else Inl timeout_error)"
proof -
  have "wait_for_workers count timeout dead sigs = await_workers (Suc 10) count timeout dead (of_nat 0 * (timeout / 10)) sigs"
    by (simp add: wait_for_workers_def)
  also have "\<dots> = Some (if \<exists>k. 0 \<le> k \<and> k < 10 \<and> ready_in_round count timeout sigs k then Inr () else Inl timeout_error)"
    by (rule await_rounds [OF assms(1-3)]) (use assms(4-6) in auto)
  finally show ?thesis using assms(4) by (simp add: ready_in_round_def)
qed

lemma split_startup_times_out: "wait_for_workers 2 10 (\<lambda>_. False) [(1 / 2, 0), (3 / 2, 1)] = Some (Inl timeout_error)"
  by (simp add: wait_for_workers_def ready_wait_def numeral_2_eq_2 eval_nat_numeral)

section \<open>Soundness of the wait\<close>

lemma collect_sound:
  "\<exists>r sigs'. collect_signals k (Some d) ids sigs = Some (r, sigs')
    \<and> (\<forall>e. r = Inl e \<longrightarrow> e = timeout_error) \<and> (is_ok r \<longrightarrow> k \<le> length (filter (\<lambda>p. fst p \<le> d) sigs))
    \<and> (\<exists>before. sigs = before @ sigs')"
proof (induction sigs arbitrary: k ids)
  case Nil
  then show ?case by (cases k) simp_all
next
  case (Cons p sigs)
  obtain t i where p: "p = (t, i)" by force
  show ?case
  proof (cases k)
    case (Suc k')
    show ?thesis
    proof (cases "t \<le> d")
      case True
      with Cons.IH [of k' "ids @ [i]"] show ?thesis by (force simp: p Suc intro: exI [of _ "p # before" for before])
    next
      case False
      then show ?thesis by (simp add: p Suc)
    qed
  qed simp
qed

definition wait_verdict :: "nat \<Rightarrow> rat \<Rightarrow> (rat \<Rightarrow> bool) \<Rightarrow> signals \<Rightarrow> nat \<Rightarrow> unit result \<Rightarrow> bool" where
  "wait_verdict count timeout dead sigs j r =
     (r = Inr () \<and> count \<le> length (filter (\<lambda>p. fst p \<le> timeout) sigs)
    \<or> r = Inl RuntimeError \<and> (\<exists>k. j \<le> k \<and> k \<le> 10 \<and> dead (of_nat k * (timeout / 10)))
    \<or> r = Inl timeout_error \<and> (\<forall>k. j \<le> k \<and> k \<le> 10 \<longrightarrow> \<not> dead (of_nat k * (timeout / 10))))"

lemma await_returns:
  assumes "0 < timeout"
  shows "j + fuel = 10 \<Longrightarrow> \<exists>r. await_workers (Suc fuel) count timeout dead (of_nat j * (timeout / 10)) sigs = Some r
    \<and> wait_verdict count timeout dead sigs j r"
proof (induction fuel arbitrary: j sigs)
  case 0
  then have j: "j = 10" by simp
  have now: "of_nat j * (timeout / 10) = timeout" by (simp add: j)
  show ?case
  proof (cases "dead timeout")
    case True
    then have "\<exists>k. j \<le> k \<and> k \<le> 10 \<and> dead (of_nat k * (timeout / 10))" using now j by (intro exI [of _ j]) simp
    with True show ?thesis unfolding now by (simp add: wait_verdict_def)
  next
    case False
    then have "\<forall>k. j \<le> k \<and> k \<le> 10 \<longrightarrow> \<not> dead (of_nat k * (timeout / 10))" using now j by (metis le_antisym)
    with False show ?thesis unfolding now by (simp add: wait_verdict_def)
  qed
next
  case (Suc fuel)
  define now where "now = of_nat j * (timeout / 10)"
  show ?case
  proof (cases "dead now")
    case True
    then have "\<exists>k. j \<le> k \<and> k \<le> 10 \<and> dead (of_nat k * (timeout / 10))"
      unfolding now_def using Suc.prems by (intro exI [of _ j]) simp
    with True show ?thesis by (simp add: wait_verdict_def now_def)
  next
    case False
    have "of_nat (Suc j) * (timeout / 10) \<le> of_nat 10 * (timeout / 10)"
    proof -
      have "Suc j \<le> 10" using Suc.prems by simp
      then have "rat_of_nat (Suc j) \<le> rat_of_nat 10" by (simp only: of_nat_le_iff)
      then show ?thesis using assms by (intro mult_right_mono) simp_all
    qed
    then have le: "now + timeout / 10 \<le> timeout" by (simp add: now_def algebra_simps)
    have wait: "min (timeout / 10) (timeout - now) = timeout / 10" "\<not> timeout - now \<le> 0" "now + timeout / 10 \<le> timeout"
      using le assms by linarith+
    have next_start: "now + timeout / 10 = of_nat (Suc j) * (timeout / 10)" by (simp add: now_def algebra_simps)
    obtain r sigs' where c: "collect_signals count (Some (now + timeout / 10)) [] sigs = Some (r, sigs')"
      "is_ok r \<longrightarrow> count \<le> length (filter (\<lambda>p. fst p \<le> now + timeout / 10) sigs)" "\<exists>before. sigs = before @ sigs'"
      using collect_sound [of count "now + timeout / 10" "[]" sigs] by blast
    have step: "await_workers (Suc f) count timeout dead now sigs =
        (case r of Inr ids \<Rightarrow> Some (Inr ()) | Inl e \<Rightarrow> await_workers f count timeout dead (now + timeout / 10) sigs')" for f
      by (simp only: await_workers.simps Let_def False wait(1,2) if_False ready_wait_def option.map c(1) option.case prod.case)
    show ?thesis
    proof (cases r)
      case (Inr ids)
      have "length (filter (\<lambda>p. fst p \<le> now + timeout / 10) sigs) \<le> length (filter (\<lambda>p. fst p \<le> timeout) sigs)"
        using wait(3) by (induction sigs) auto
      with c(2) have "count \<le> length (filter (\<lambda>p. fst p \<le> timeout) sigs)" by (simp add: Inr)
      then show ?thesis unfolding now_def [symmetric] step by (simp add: Inr wait_verdict_def)
    next
      case (Inl e)
      from Suc.IH [of "Suc j" sigs'] Suc.prems obtain r' where
        ih: "await_workers (Suc fuel) count timeout dead (of_nat (Suc j) * (timeout / 10)) sigs' = Some r'"
        "wait_verdict count timeout dead sigs' (Suc j) r'" by auto
      have "\<not> dead (of_nat k * (timeout / 10))" if "k = j" for k using False that by (simp add: now_def)
      moreover have "j \<le> k \<and> k \<noteq> j \<longleftrightarrow> Suc j \<le> k" for k by auto
      moreover have "length (filter (\<lambda>p. fst p \<le> timeout) sigs') \<le> length (filter (\<lambda>p. fst p \<le> timeout) sigs)"
        using c(3) by auto
      ultimately have "wait_verdict count timeout dead sigs j r'"
        using ih(2) unfolding wait_verdict_def by (metis le_trans Suc_leD)
      then show ?thesis unfolding now_def [symmetric] step next_start Inl sum.case ih(1) by blast
    qed
  qed
qed

text \<open>C20. The startup handshake always ends, and its result can be trusted.  Whatever the workers do, the wait returns
  after at most ten rounds; it reports success only if at least as many ready signals as there are workers came within
  the timeout, a dead worker only if some worker was dead when it looked, and a timeout only if it never saw a dead
  worker.  When no worker dies and all ready signals arrive close together, within one of its rounds, it succeeds.\<close>

theorem workers_wait_is_sound:
  assumes "0 < timeout"
  shows "\<exists>r. wait_for_workers count timeout dead sigs = Some r
    \<and> (r = Inr () \<and> count \<le> length (filter (\<lambda>p. fst p \<le> timeout) sigs)
     \<or> r = Inl RuntimeError \<and> (\<exists>k\<le>10. dead (of_nat k * (timeout / 10)))
     \<or> r = Inl timeout_error \<and> (\<forall>k\<le>10. \<not> dead (of_nat k * (timeout / 10))))
    \<and> ((\<forall>t. \<not> dead t) \<and> 0 < count \<and> length sigs = count \<and> sorted (map fst sigs)
        \<and> (\<exists>i<10. \<forall>p\<in>set sigs. in_round timeout i (fst p)) \<longrightarrow> r = Inr ())"
proof -
  obtain r where r: "wait_for_workers count timeout dead sigs = Some r" "wait_verdict count timeout dead sigs 0 r"
    using await_returns [OF assms, of 0 10 count dead sigs] by (auto simp: wait_for_workers_def)
  have "r = Inr ()" if h: "\<forall>t. \<not> dead t" "0 < count" "length sigs = count" "sorted (map fst sigs)"
    "\<exists>i<10. \<forall>p\<in>set sigs. in_round timeout i (fst p)"
  proof -
    from h(5) obtain i :: nat where i: "i < 10" "\<forall>p\<in>set sigs. in_round timeout i (fst p)" by blast
    have pos: "0 < fst p" if "p \<in> set sigs" for p
    proof -
      have "0 \<le> of_nat i * (timeout / 10)" using assms by simp
      also have "\<dots> < fst p" using i(2) that by (simp add: in_round_def)
      finally show ?thesis .
    qed
    have "\<not> dead t" for t using h(1) by simp
    from ready_in_one_round [OF assms this h(2-4) pos] h(5) r(1) show ?thesis by auto
  qed
  with r show ?thesis unfolding wait_verdict_def by (intro exI [of _ r]) auto
qed

lemma workers_wait_is_sound_witness:
  "wait_for_workers 2 10 (\<lambda>_. False) [(5 / 4, 0), (3 / 2, 1)] = Some (Inr ())"
proof -
  have "\<exists>i<10. \<forall>p\<in>set [(5 / 4 :: rat, 0 :: int), (3 / 2, 1)]. in_round 10 i (fst p)"
    by (intro exI [of _ 1]) (simp add: in_round_def)
  then show ?thesis using workers_wait_is_sound [of 10 2 "\<lambda>_. False" "[(5 / 4, 0), (3 / 2, 1)]"] by auto
qed

end
