(* ===== verification/CpuAffinity.thy ===== *)
theory CpuAffinity
  imports PyText "HOL-Library.Multiset"
begin

text \<open>
  \<open>endpoint_client/cpu_affinity.py\<close>: reading the CPU topology and partitioning the physical cores
  between the load generator and the workers.  What the kernel reports about a CPU is the record
  \<open>topology\<close>; the order in which a set of CPUs is walked is the order of the list that stands for it.
\<close>

section \<open>CPU lists\<close>

fun parse_parts :: "string list \<Rightarrow> int set result" where
  "parse_parts [] = Inr {}"
| "parse_parts (part # parts) =
     (let p = strip part;
          here = (case split_at (CHR ''-'') p of
                    (a, Some b) \<Rightarrow>
                      (case (parse_int a, parse_int b) of
                         (Inr lo, Inr hi) \<Rightarrow> Inr {lo..hi}
                       | _ \<Rightarrow> Inl ValueError)
                  | (_, None) \<Rightarrow> (case parse_int p of Inr n \<Rightarrow> Inr {n} | Inl e \<Rightarrow> Inl e))
      in (case here of
            Inl e \<Rightarrow> Inl e
          | Inr cpus \<Rightarrow> (case parse_parts parts of Inl e \<Rightarrow> Inl e | Inr rest \<Rightarrow> Inr (cpus \<union> rest))))"

definition parse_cpulist :: "string \<Rightarrow> int set result" where
  "parse_cpulist s = (if s = [] then Inr {} else parse_parts (split_all (CHR '','') s))"

text \<open>\<open>_read_sysfs_cpulist\<close> and \<open>_read_sysfs_int\<close>: None when the file cannot be read or parsed.\<close>

definition read_sysfs_cpulist :: "string option \<Rightarrow> int set option" where
  "read_sysfs_cpulist file =
     (case file of None \<Rightarrow> None
      | Some text \<Rightarrow> (case parse_cpulist (strip text) of Inl _ \<Rightarrow> None | Inr cpus \<Rightarrow> Some cpus))"

definition read_sysfs_int :: "string option \<Rightarrow> int option" where
  "read_sysfs_int file =
     (case file of None \<Rightarrow> None | Some text \<Rightarrow> (case parse_int (strip text) of Inl _ \<Rightarrow> None | Inr n \<Rightarrow> Some n))"

section \<open>Topology\<close>

record topology =
  tp_core_id :: "int \<Rightarrow> string option"
  tp_numa_node :: "int \<Rightarrow> int option"
  tp_metric :: "nat \<Rightarrow> int \<Rightarrow> string option"

definition get_physical_core_id :: "topology \<Rightarrow> int \<Rightarrow> int option" where
  "get_physical_core_id t cpu = read_sysfs_int (tp_core_id t cpu)"

text \<open>\<open>get_all_online_cpus\<close>: the CPUs sysfs lists, or those with a directory, within the allowed ones.\<close>

definition get_all_online_cpus :: "string option \<Rightarrow> int set option \<Rightarrow> int set option \<Rightarrow> int set" where
  "get_all_online_cpus online directories allowed =
     (let intersect = (\<lambda>cpus. case allowed of None \<Rightarrow> cpus | Some a \<Rightarrow> cpus \<inter> a)
      in (case read_sysfs_cpulist online of
            Some cpus \<Rightarrow> if cpus \<noteq> {} then intersect cpus
                         else (case directories of
                                 Some d \<Rightarrow> if d \<noteq> {} then intersect d else (case allowed of None \<Rightarrow> {} | Some a \<Rightarrow> a)
                               | None \<Rightarrow> (case allowed of None \<Rightarrow> {} | Some a \<Rightarrow> a))
          | None \<Rightarrow> (case directories of
                       Some d \<Rightarrow> if d \<noteq> {} then intersect d else (case allowed of None \<Rightarrow> {} | Some a \<Rightarrow> a)
                     | None \<Rightarrow> (case allowed of None \<Rightarrow> {} | Some a \<Rightarrow> a))))"

text \<open>\<open>get_cpus_ranked_by_performance\<close>: the first metric that some CPU reports ranks them all.\<close>

fun rank_by_metric :: "(int \<Rightarrow> string option) list \<Rightarrow> int list \<Rightarrow> int list" where
  "rank_by_metric [] cpus = sort cpus"
| "rank_by_metric (m # ms) cpus =
     (let score = (\<lambda>c. read_sysfs_int (m c))
      in if \<exists>c\<in>set cpus. score c \<noteq> None
         then sort_key (\<lambda>c. - (case score c of None \<Rightarrow> 0 | Some v \<Rightarrow> v)) cpus
         else rank_by_metric ms cpus)"

definition get_cpus_ranked_by_performance :: "topology \<Rightarrow> int list \<Rightarrow> int list" where
  "get_cpus_ranked_by_performance t cpus =
     (if cpus = [] then [] else rank_by_metric (map (tp_metric t) [0, 1, 2]) cpus)"

section \<open>The plan\<close>

record affinity_plan =
  loadgen_cpus :: "int list"
  worker_cpu_sets :: "int list list"
  loadgen_physical_cores :: nat
  primary_numa :: int

definition get_worker_cpus :: "affinity_plan \<Rightarrow> nat \<Rightarrow> int list" where
  "get_worker_cpus p w =
     (if worker_cpu_sets p = [] then [] else worker_cpu_sets p ! (w mod length (worker_cpu_sets p)))"

text \<open>A core is known by its node and its physical id.\<close>

definition numa_of :: "topology \<Rightarrow> int \<Rightarrow> int" where
  "numa_of t cpu = (case tp_numa_node t cpu of None \<Rightarrow> 0 | Some n \<Rightarrow> n)"

definition phys_of :: "topology \<Rightarrow> int \<Rightarrow> int" where
  "phys_of t cpu = (case get_physical_core_id t cpu of None \<Rightarrow> cpu | Some p \<Rightarrow> p)"

type_synonym numa_cores = "(int \<times> (int \<times> int list) list) list"

definition add_core :: "topology \<Rightarrow> numa_cores \<Rightarrow> int \<Rightarrow> numa_cores" where
  "add_core t m cpu =
     (let numa = numa_of t cpu; phys = phys_of t cpu;
          cores = (case map_of m numa of None \<Rightarrow> [] | Some cs \<Rightarrow> cs);
          cpus = (case map_of cores phys of None \<Rightarrow> [] | Some xs \<Rightarrow> xs)
      in AList.update numa (AList.update phys (cpus @ [cpu]) cores) m)"

definition discover :: "topology \<Rightarrow> int list \<Rightarrow> numa_cores" where
  "discover t all_cpus = foldl (add_core t) [] all_cpus"

definition cpus_of_core :: "numa_cores \<Rightarrow> int \<Rightarrow> int \<Rightarrow> int list" where
  "cpus_of_core m numa phys =
     (case map_of m numa of None \<Rightarrow> [] | Some cores \<Rightarrow> (case map_of cores phys of None \<Rightarrow> [] | Some cs \<Rightarrow> cs))"

definition cores_of_numa :: "numa_cores \<Rightarrow> int \<Rightarrow> int list" where
  "cores_of_numa m numa = (case map_of m numa of None \<Rightarrow> [] | Some cores \<Rightarrow> map fst cores)"

fun index_of :: "'a \<Rightarrow> 'a list \<Rightarrow> nat" where
  "index_of x [] = 0"
| "index_of x (y # ys) = (if x = y then 0 else Suc (index_of x ys))"

text \<open>\<open>min\<close> of a list that has an element.\<close>

definition min_list_of :: "nat list \<Rightarrow> nat" where
  "min_list_of xs = (case xs of [] \<Rightarrow> 0 | y # ys \<Rightarrow> fold min ys y)"

definition core_perf_rank :: "numa_cores \<Rightarrow> int list \<Rightarrow> int \<Rightarrow> int \<Rightarrow> nat" where
  "core_perf_rank m ranked numa phys = min_list_of (map (\<lambda>c. index_of c ranked) (cpus_of_core m numa phys))"

definition sorted_cores :: "numa_cores \<Rightarrow> int list \<Rightarrow> int \<Rightarrow> int list" where
  "sorted_cores m ranked numa = sort_key (core_perf_rank m ranked numa) (cores_of_numa m numa)"

definition compute_affinity_plan :: "topology \<Rightarrow> int list \<Rightarrow> nat \<Rightarrow> affinity_plan" where
  "compute_affinity_plan t all_cpus loadgen_cores =
     (if all_cpus = [] then \<lparr>loadgen_cpus = [], worker_cpu_sets = [], loadgen_physical_cores = 0, primary_numa = 0\<rparr>
      else
        (let m = discover t all_cpus;
             ranked = get_cpus_ranked_by_performance t all_cpus;
             fastest = (case ranked of r # _ \<Rightarrow> r | [] \<Rightarrow> Min (set all_cpus));
             primary = numa_of t fastest;
             primary_cores = sorted_cores m ranked primary;
             actual = min loadgen_cores (length primary_cores);
             loadgen_phys = map (Pair primary) (take actual primary_cores);
             other = sort_key (\<lambda>n. min_list_of (map (core_perf_rank m ranked n) (cores_of_numa m n)))
                       (filter (\<lambda>n. n \<noteq> primary) (map fst m));
             worker_phys = map (Pair primary) (drop actual primary_cores)
               @ concat (map (\<lambda>n. map (Pair n) (sorted_cores m ranked n)) other)
         in \<lparr>loadgen_cpus = sort (concat (map (\<lambda>(n, p). cpus_of_core m n p) loadgen_phys)),
             worker_cpu_sets = map (\<lambda>(n, p). sort (cpus_of_core m n p)) worker_phys,
             loadgen_physical_cores = length loadgen_phys, primary_numa = primary\<rparr>))"

section \<open>Every core has one owner\<close>

text \<open>The core of a CPU, and what discovery records of it.\<close>

definition core_of :: "topology \<Rightarrow> int \<Rightarrow> int \<times> int" where
  "core_of t cpu = (numa_of t cpu, phys_of t cpu)"

lemma cpus_of_add_core:
  "cpus_of_core (add_core t m cpu) n p = cpus_of_core m n p @ (if core_of t cpu = (n, p) then [cpu] else [])"
  by (auto simp: cpus_of_core_def add_core_def Let_def core_of_def split: option.split)

lemma cpus_of_discover: "cpus_of_core (discover t cpus) n p = filter (\<lambda>c. core_of t c = (n, p)) cpus"
  unfolding discover_def
  by (induction cpus rule: rev_induct) (simp_all add: cpus_of_add_core, simp add: cpus_of_core_def)

definition cores_listed :: "topology \<Rightarrow> numa_cores \<Rightarrow> int list \<Rightarrow> bool" where
  "cores_listed t m cpus = (distinct (map fst m) \<and> set (map fst m) = numa_of t ` set cpus
     \<and> (\<forall>n. distinct (cores_of_numa m n) \<and> set (cores_of_numa m n) = {p. (n, p) \<in> core_of t ` set cpus}))"

lemma keys_update: "set (map fst (AList.update k v m)) = insert k (set (map fst m))"
  by (simp add: dom_update)

lemma cores_of_add_core:
  "set (cores_of_numa (add_core t m cpu) n) = set (cores_of_numa m n) \<union> (if numa_of t cpu = n then {phys_of t cpu} else {})"
  "distinct (cores_of_numa m n) \<Longrightarrow> distinct (cores_of_numa (add_core t m cpu) n)"
  by (auto simp: cores_of_numa_def add_core_def Let_def keys_update distinct_update simp del: set_map split: option.split)

lemma discover_listed: "cores_listed t (discover t cpus) cpus"
  unfolding discover_def
proof (induction cpus rule: rev_induct)
  case Nil
  show ?case by (simp add: cores_listed_def cores_of_numa_def)
next
  case (snoc c cpus)
  define m where "m = foldl (add_core t) [] cpus"
  have IH: "distinct (map fst m)" "set (map fst m) = numa_of t ` set cpus" "distinct (cores_of_numa m n)"
    "set (cores_of_numa m n) = {p. (n, p) \<in> core_of t ` set cpus}" for n
    using snoc by (simp_all add: cores_listed_def m_def)
  have "distinct (map fst (add_core t m c))" "set (map fst (add_core t m c)) = insert (numa_of t c) (set (map fst m))"
    using IH(1) by (simp_all add: add_core_def Let_def distinct_update keys_update del: set_map)
  with IH cores_of_add_core(1) [of t m c] cores_of_add_core(2) [where t = t and m = m and cpu = c] show ?case
    by (auto simp: cores_listed_def core_of_def simp flip: m_def)
qed

definition same_core :: "topology \<Rightarrow> int list \<Rightarrow> int \<times> int \<Rightarrow> int list" where
  "same_core t cpus k = filter (\<lambda>c. core_of t c = k) cpus"

lemma mset_by_core:
  "distinct ks \<Longrightarrow> mset (concat (map (same_core t cpus) ks)) = mset (filter (\<lambda>c. core_of t c \<in> set ks) cpus)"
proof (induction ks)
  case (Cons k ks)
  have "mset (filter (\<lambda>c. core_of t c \<in> set (k # ks)) cpus)
      = mset (filter (\<lambda>c. core_of t c = k) cpus) + mset (filter (\<lambda>c. core_of t c \<in> set ks) cpus)"
    using Cons.prems by (induction cpus) auto
  with Cons show ?case by (simp add: same_core_def)
qed simp

text \<open>The cores in the order in which the plan hands them out.\<close>

definition core_order :: "topology \<Rightarrow> int list \<Rightarrow> int \<Rightarrow> (int \<times> int) list" where
  "core_order t cpus primary =
     (let m = discover t cpus; ranked = get_cpus_ranked_by_performance t cpus;
          other = sort_key (\<lambda>n. min_list_of (map (core_perf_rank m ranked n) (cores_of_numa m n)))
                    (filter (\<lambda>n. n \<noteq> primary) (map fst m))
      in map (Pair primary) (sorted_cores m ranked primary) @ concat (map (\<lambda>n. map (Pair n) (sorted_cores m ranked n)) other))"

lemma core_order_all: "distinct (core_order t cpus primary) \<and> set (core_order t cpus primary) = core_of t ` set cpus"
proof -
  define m where "m = discover t cpus"
  define ranked where "ranked = get_cpus_ranked_by_performance t cpus"
  define other where "other = sort_key (\<lambda>n. min_list_of (map (core_perf_rank m ranked n) (cores_of_numa m n)))
      (filter (\<lambda>n. n \<noteq> primary) (map fst m))"
  have l: "distinct (map fst m)" "set (map fst m) = numa_of t ` set cpus" "distinct (cores_of_numa m n)"
    "set (cores_of_numa m n) = {p. (n, p) \<in> core_of t ` set cpus}" for n
    using discover_listed [of t cpus] by (simp_all add: cores_listed_def m_def)
  have other: "distinct other" "set other = numa_of t ` set cpus - {primary}"
    using l(1,2) by (auto simp: other_def)
  have sorted: "distinct (sorted_cores m ranked n)" "set (sorted_cores m ranked n) = {p. (n, p) \<in> core_of t ` set cpus}" for n
    using l(3,4) by (simp_all add: sorted_cores_def)
  have eq: "core_order t cpus primary = concat (map (\<lambda>n. map (Pair n) (sorted_cores m ranked n)) (primary # other))"
    by (simp add: core_order_def Let_def m_def ranked_def other_def)
  have dist: "distinct (concat (map (\<lambda>n. map (Pair n) (sorted_cores m ranked n)) ns))" if "distinct ns" for ns
    using that sorted(1) by (induction ns) (auto simp: distinct_map inj_on_def)
  have "distinct (core_order t cpus primary)" unfolding eq by (rule dist) (use other in simp)
  moreover have "set (core_order t cpus primary) = core_of t ` set cpus"
    unfolding eq using other(2) sorted(2) by (auto simp: core_of_def)
  ultimately show ?thesis ..
qed

text \<open>The plan read off that order.\<close>

lemma plan_by_order:
  assumes "cpus \<noteq> []" and p: "p = compute_affinity_plan t cpus k"
  defines "order \<equiv> core_order t cpus (primary_numa p)"
  shows "loadgen_cpus p = sort (concat (map (same_core t cpus) (take (loadgen_physical_cores p) order)))"
    "worker_cpu_sets p = map (sort \<circ> same_core t cpus) (drop (loadgen_physical_cores p) order)"
    "loadgen_physical_cores p = min k (length (sorted_cores (discover t cpus) (get_cpus_ranked_by_performance t cpus) (primary_numa p)))"
    "take (loadgen_physical_cores p) order
      = map (Pair (primary_numa p)) (take (loadgen_physical_cores p) (sorted_cores (discover t cpus) (get_cpus_ranked_by_performance t cpus) (primary_numa p)))"
proof -
  have c: "(\<lambda>(n, q). cpus_of_core (discover t cpus) n q) = same_core t cpus"
    by (auto simp: fun_eq_iff same_core_def cpus_of_discover)
  have c': "(\<lambda>(n, q). sort (cpus_of_core (discover t cpus) n q)) = sort \<circ> same_core t cpus"
    by (auto simp: fun_eq_iff same_core_def cpus_of_discover)
  show "loadgen_physical_cores p = min k (length (sorted_cores (discover t cpus) (get_cpus_ranked_by_performance t cpus) (primary_numa p)))"
    using assms(1) by (simp add: p compute_affinity_plan_def Let_def)
  then have le: "loadgen_physical_cores p \<le> length (sorted_cores (discover t cpus) (get_cpus_ranked_by_performance t cpus) (primary_numa p))"
    by simp
  then show "take (loadgen_physical_cores p) order
      = map (Pair (primary_numa p)) (take (loadgen_physical_cores p) (sorted_cores (discover t cpus) (get_cpus_ranked_by_performance t cpus) (primary_numa p)))"
    by (simp add: order_def core_order_def Let_def take_map)
  then show "loadgen_cpus p = sort (concat (map (same_core t cpus) (take (loadgen_physical_cores p) order)))"
    using assms(1) by (simp add: p compute_affinity_plan_def Let_def c)
  show "worker_cpu_sets p = map (sort \<circ> same_core t cpus) (drop (loadgen_physical_cores p) order)"
    using assms(1) le unfolding order_def core_order_def Let_def
    by (simp add: p compute_affinity_plan_def Let_def c' drop_map)
qed

section \<open>The fastest core belongs to the load generator\<close>

lemma ranked_set: "set (get_cpus_ranked_by_performance t cpus) = set cpus"
proof -
  have "set (rank_by_metric ms cpus) = set cpus" for ms by (induction ms) (simp_all add: Let_def)
  then show ?thesis by (simp add: get_cpus_ranked_by_performance_def)
qed

lemma min_list_of_zero: "xs \<noteq> [] \<Longrightarrow> min_list_of xs = 0 \<longleftrightarrow> 0 \<in> set xs"
proof -
  have "fold min ys y = (0 :: nat) \<longleftrightarrow> y = 0 \<or> 0 \<in> set ys" for ys y
    by (induction ys arbitrary: y) (auto simp: min_def)
  then show "xs \<noteq> [] \<Longrightarrow> min_list_of xs = 0 \<longleftrightarrow> 0 \<in> set xs"
    by (auto simp: min_list_of_def split: list.splits)
qed

lemma index_of_zero: "xs \<noteq> [] \<Longrightarrow> index_of x xs = 0 \<longleftrightarrow> x = hd xs"
  by (cases xs) simp_all

lemma sorted_hd_least:
  assumes "x \<in> set xs"
  shows "sort_key f xs \<noteq> []" "f (hd (sort_key f xs)) \<le> (f x :: nat)"
proof -
  show ne: "sort_key f xs \<noteq> []" using assms by (metis empty_iff empty_set set_sort)
  have "sorted (map f (sort_key f xs))" by simp
  moreover have "x \<in> set (sort_key f xs)" using assms by simp
  ultimately show "f (hd (sort_key f xs)) \<le> f x" using ne by (cases "sort_key f xs") auto
qed

lemma core_perf_rank_zero:
  assumes "cpus \<noteq> []" "(n, q) \<in> core_of t ` set cpus"
  shows "core_perf_rank (discover t cpus) (get_cpus_ranked_by_performance t cpus) n q = 0
    \<longleftrightarrow> core_of t (hd (get_cpus_ranked_by_performance t cpus)) = (n, q)"
proof -
  define ranked where "ranked = get_cpus_ranked_by_performance t cpus"
  have ne: "ranked \<noteq> []" using assms(1) ranked_set [of t cpus] by (metis empty_set ranked_def set_empty2)
  have hd: "hd ranked \<in> set cpus" using ne ranked_set [of t cpus] by (metis hd_in_set ranked_def)
  have "cpus_of_core (discover t cpus) n q \<noteq> []" using assms(2) by (auto simp: cpus_of_discover filter_empty_conv)
  then have "core_perf_rank (discover t cpus) ranked n q = 0 \<longleftrightarrow> hd ranked \<in> set (cpus_of_core (discover t cpus) n q)"
    using ne by (auto simp: core_perf_rank_def min_list_of_zero index_of_zero image_iff)
  then show ?thesis using hd by (simp add: cpus_of_discover flip: ranked_def)
qed

lemma primary_is_fastest:
  assumes "cpus \<noteq> []"
  shows "primary_numa (compute_affinity_plan t cpus k) = numa_of t (hd (get_cpus_ranked_by_performance t cpus))"
    "hd (get_cpus_ranked_by_performance t cpus) \<in> set cpus"
proof -
  have ne: "get_cpus_ranked_by_performance t cpus \<noteq> []" using assms ranked_set [of t cpus] by (metis empty_set set_empty2)
  then show "primary_numa (compute_affinity_plan t cpus k) = numa_of t (hd (get_cpus_ranked_by_performance t cpus))"
    using assms by (cases "get_cpus_ranked_by_performance t cpus") (simp_all add: compute_affinity_plan_def Let_def)
  show "hd (get_cpus_ranked_by_performance t cpus) \<in> set cpus" using ne ranked_set [of t cpus] by (metis hd_in_set)
qed

lemma fastest_core_first:
  assumes "cpus \<noteq> []" and ranked_def: "ranked = get_cpus_ranked_by_performance t cpus"
  shows "sorted_cores (discover t cpus) ranked (numa_of t (hd ranked)) \<noteq> []"
    "hd (sorted_cores (discover t cpus) ranked (numa_of t (hd ranked))) = phys_of t (hd ranked)"
proof -
  define n where "n = numa_of t (hd ranked)"
  let ?rank = "core_perf_rank (discover t cpus) ranked n"
  have hd: "hd ranked \<in> set cpus" using primary_is_fastest(2) [OF assms(1)] by (simp add: ranked_def)
  have cores: "set (cores_of_numa (discover t cpus) n) = {p. (n, p) \<in> core_of t ` set cpus}"
    using discover_listed [of t cpus] by (simp add: cores_listed_def)
  have mine: "phys_of t (hd ranked) \<in> set (cores_of_numa (discover t cpus) n)"
    unfolding cores using hd by (auto simp: core_of_def n_def)
  note s = sorted_hd_least [OF mine, of ?rank]
  show "sorted_cores (discover t cpus) ranked (numa_of t (hd ranked)) \<noteq> []"
    using s(1) by (simp add: sorted_cores_def n_def)
  define q where "q = hd (sort_key ?rank (cores_of_numa (discover t cpus) n))"
  have "q \<in> set (cores_of_numa (discover t cpus) n)" using s(1) hd_in_set by (fastforce simp: q_def)
  then have q: "(n, q) \<in> core_of t ` set cpus" by (simp add: cores)
  have "?rank (phys_of t (hd ranked)) = 0"
    using core_perf_rank_zero [OF assms(1), of n "phys_of t (hd ranked)" t] hd
    by (auto simp: core_of_def n_def ranked_def)
  then have "?rank q = 0" using s(2) by (simp add: q_def)
  then have "core_of t (hd ranked) = (n, q)" using core_perf_rank_zero [OF assms(1) q] by (simp add: ranked_def)
  then show "hd (sorted_cores (discover t cpus) ranked (numa_of t (hd ranked))) = phys_of t (hd ranked)"
    by (simp add: sorted_cores_def core_of_def q_def n_def)
qed

text \<open>C22. The plan gives every available CPU to exactly one owner, whole cores at a time: the load
  generator's CPUs and the workers' sets together are the available CPUs, each once; a worker's set is
  one core with all its siblings; the load generator has whole cores of one node, as many of the requested
  number as that node has, and with at least one requested it has the fastest core; workers \<open>i\<close> and \<open>j\<close>
  share a set exactly when \<open>i\<close> and \<open>j\<close> agree modulo the number of sets.\<close>

theorem affinity_plan_partitions_the_cores:
  assumes "distinct cpus" "cpus \<noteq> []" and p: "p = compute_affinity_plan t cpus k"
  shows "mset (loadgen_cpus p @ concat (worker_cpu_sets p)) = mset cpus
    \<and> (\<forall>w\<in>set (worker_cpu_sets p). w \<noteq> [] \<and> (\<exists>core. set w = {c \<in> set cpus. core_of t c = core}))
    \<and> (\<forall>c\<in>set (loadgen_cpus p). numa_of t c = primary_numa p \<and> (\<forall>d\<in>set cpus. core_of t d = core_of t c \<longrightarrow> d \<in> set (loadgen_cpus p)))
    \<and> loadgen_physical_cores p = min k (card {q. (primary_numa p, q) \<in> core_of t ` set cpus})
    \<and> (0 < k \<longrightarrow> hd (get_cpus_ranked_by_performance t cpus) \<in> set (loadgen_cpus p))
    \<and> (\<forall>i j. worker_cpu_sets p \<noteq> [] \<longrightarrow>
        (get_worker_cpus p i = get_worker_cpus p j \<longleftrightarrow> i mod length (worker_cpu_sets p) = j mod length (worker_cpu_sets p)))"
proof -
  define order where "order = core_order t cpus (primary_numa p)"
  define L where "L = loadgen_physical_cores p"
  define ranked where "ranked = get_cpus_ranked_by_performance t cpus"
  note plan = plan_by_order [OF assms(2) p, folded order_def L_def ranked_def]
  have order: "distinct order" "set order = core_of t ` set cpus"
    using core_order_all [of t cpus "primary_numa p"] by (simp_all add: order_def)
  have sets: "set (same_core t cpus c) = {d \<in> set cpus. core_of t d = c}" for c by (auto simp: same_core_def)
  have whole: "mset (loadgen_cpus p @ concat (worker_cpu_sets p)) = mset cpus"
  proof -
    have "mset (concat (map (sort \<circ> same_core t cpus) ks)) = mset (concat (map (same_core t cpus) ks))" for ks
      by (induction ks) simp_all
    then have "mset (loadgen_cpus p @ concat (worker_cpu_sets p))
        = mset (concat (map (same_core t cpus) (take L order @ drop L order)))"
      by (simp only: plan(1,2) mset_append mset_sort map_append concat_append)
    also have "\<dots> = mset (filter (\<lambda>c. core_of t c \<in> set order) cpus)"
      using mset_by_core [OF order(1)] by simp
    also have "filter (\<lambda>c. core_of t c \<in> set order) cpus = cpus" by (simp add: order(2) filter_id_conv)
    finally show ?thesis .
  qed
  have workers: "w \<noteq> [] \<and> (\<exists>core. set w = {c \<in> set cpus. core_of t c = core})" if "w \<in> set (worker_cpu_sets p)" for w
  proof -
    from that obtain core where core: "core \<in> set order" "w = sort (same_core t cpus core)"
      by (auto simp: plan(2) dest: in_set_dropD)
    then have "set w = {c \<in> set cpus. core_of t c = core}" by (simp add: sets)
    moreover from this have "w \<noteq> []" using core(1) order(2) by force
    ultimately show ?thesis by blast
  qed
  have mine: "numa_of t c = primary_numa p \<and> (\<forall>d\<in>set cpus. core_of t d = core_of t c \<longrightarrow> d \<in> set (loadgen_cpus p))"
    if "c \<in> set (loadgen_cpus p)" for c
  proof -
    have "\<exists>core\<in>set (take L order). c \<in> set (same_core t cpus core)" using that by (simp add: plan(1))
    then obtain core where core: "core \<in> set (take L order)" "c \<in> set cpus" "core_of t c = core"
      by (auto simp only: sets mem_Collect_eq)
    then have "fst core = primary_numa p" by (auto simp: plan(4))
    with core show ?thesis by (auto simp: plan(1) sets core_of_def)
  qed
  have cores: "set (sorted_cores (discover t cpus) ranked n) = {q. (n, q) \<in> core_of t ` set cpus}"
    "distinct (sorted_cores (discover t cpus) ranked n)" for n
    using discover_listed [of t cpus] by (simp_all add: cores_listed_def sorted_cores_def)
  have number: "L = min k (card {q. (primary_numa p, q) \<in> core_of t ` set cpus})"
    using plan(3) distinct_card [OF cores(2), of "primary_numa p"] by (simp add: cores(1))
  have fastest: "hd ranked \<in> set (loadgen_cpus p)" if "0 < k"
  proof -
    have prim: "primary_numa p = numa_of t (hd ranked)" "hd ranked \<in> set cpus"
      using primary_is_fastest [OF assms(2)] by (simp_all add: p ranked_def)
    define sc where "sc = sorted_cores (discover t cpus) ranked (primary_numa p)"
    have sc: "sc \<noteq> []" "hd sc = phys_of t (hd ranked)"
      using fastest_core_first [OF assms(2) ranked_def] by (simp_all add: sc_def prim)
    then have "0 < L" using that plan(3) by (simp add: sc_def)
    then have "phys_of t (hd ranked) \<in> set (take L sc)" using sc by (cases sc; cases L) simp_all
    then have "core_of t (hd ranked) \<in> set (take L order)" using plan(4) prim(1) by (auto simp: sc_def core_of_def)
    then show ?thesis using prim(2) by (auto simp: plan(1) sets)
  qed
  have distinct_sets: "distinct (worker_cpu_sets p)"
  proof -
    have "inj_on (sort \<circ> same_core t cpus) (set (drop L order))"
    proof (rule inj_onI)
      fix a b assume ab: "a \<in> set (drop L order)" "b \<in> set (drop L order)"
        "(sort \<circ> same_core t cpus) a = (sort \<circ> same_core t cpus) b"
      have "set ((sort \<circ> same_core t cpus) c) = {d \<in> set cpus. core_of t d = c}" for c by (simp add: sets)
      then have eq: "{d \<in> set cpus. core_of t d = a} = {d \<in> set cpus. core_of t d = b}" using ab(3) by metis
      have "a \<in> core_of t ` set cpus" using in_set_dropD [OF ab(1)] order(2) by simp
      then obtain d where "d \<in> set cpus" "core_of t d = a" by blast
      with eq show "a = b" by blast
    qed
    then show ?thesis using order(1) by (simp add: plan(2) distinct_map)
  qed
  have shared: "get_worker_cpus p i = get_worker_cpus p j \<longleftrightarrow> i mod length (worker_cpu_sets p) = j mod length (worker_cpu_sets p)"
    if "worker_cpu_sets p \<noteq> []" for i j
    using that nth_eq_iff_index_eq [OF distinct_sets] by (simp add: get_worker_cpus_def)
  show ?thesis using whole workers mine number fastest shared by (simp add: L_def ranked_def)
qed

definition example_topology :: topology where
  "example_topology = \<lparr>tp_core_id = (\<lambda>c. Some (if c mod 4 < 2 then ''0'' else ''1'')),
     tp_numa_node = (\<lambda>c. Some (c div 4)), tp_metric = (\<lambda>m c. None)\<rparr>"

lemma affinity_plan_partitions_the_cores_witness:
  "mset (loadgen_cpus (compute_affinity_plan example_topology [0, 1, 2, 3, 4, 5, 6, 7] 1)
     @ concat (worker_cpu_sets (compute_affinity_plan example_topology [0, 1, 2, 3, 4, 5, 6, 7] 1)))
   = {#0, 1, 2, 3, 4, 5, 6, 7#}"
proof -
  have d: "distinct [0, 1, 2, 3, 4, 5, 6, 7 :: int]" "[0, 1, 2, 3, 4, 5, 6, 7 :: int] \<noteq> []" by simp_all
  show ?thesis using affinity_plan_partitions_the_cores [OF d refl] by simp
qed

end
