(* ===== verification/Rulesets.thy ===== *)
theory Rulesets
  imports RuntimeSettings
begin

text \<open>
  \<open>config/rulesets/mlcommons/\<close>, \<open>config/ruleset_registry.py\<close>, \<open>config/ruleset_base.py\<close> and
  \<open>config/user_config.py\<close>: the registered competition rounds with their models, datasets, per-model rules
  and pinned seeds, and \<open>RoundRuleset.apply_user_config\<close>, which turns a user's configuration into the
  settings of a phase.  \<open>random.Random\<close> of a seed is the argument \<open>rng_of\<close>.
\<close>

section \<open>Datasets and models\<close>

datatype metadata_value = MetaInt int | MetaText string | MetaNames "string list" | MetaCounts "(string \<times> int) list"

record bench_dataset =
  bd_description :: string
  bd_size :: int
  bd_metadata :: "(string \<times> metadata_value) list"

definition OpenOrca :: bench_dataset where
  "OpenOrca = \<lparr>bd_description = ''OpenOrca'', bd_size = 24576, bd_metadata = [(''max_seq_len'', MetaInt 1024)]\<rparr>"

definition CNNDailyMail :: bench_dataset where
  "CNNDailyMail =
     \<lparr>bd_description = ''CNNDailyMail v3.0.0'', bd_size = 13368, bd_metadata = [(''max_seq_len'', MetaInt 2048)]\<rparr>"

definition TextGenLongSeqLen :: bench_dataset where
  "TextGenLongSeqLen =
     \<lparr>bd_description = ''Subset of LongBench, LongDataCollections, Ruler, GovReport'', bd_size = 8313, bd_metadata = []\<rparr>"

definition TextGenComplex :: bench_dataset where
  "TextGenComplex =
     \<lparr>bd_description = ''Subset of OpenOrca (5k samples), GSM8K (5k samples from train split), MBXP (5k samples) for QA, Math, and Code Generation'',
      bd_size = 15000, bd_metadata = [(''max_seq_len'', MetaInt 2048)]\<rparr>"

definition MLPerfDeepseekR1 :: bench_dataset where
  "MLPerfDeepseekR1 =
     \<lparr>bd_description = ''Custom dataset curated by MLCommons for DeepSeek R1, specifically for the MLPerf Inference benchmark'',
      bd_size = 4388, bd_metadata = []\<rparr>"

definition BFCLv4SingleTurn :: bench_dataset where
  "BFCLv4SingleTurn =
     \<lparr>bd_description = ''BFCL v4 single-turn function-calling accuracy set (non_live, live, hallucination), per-category sampled to a stable ~995-sample point estimate. This is the gated accuracy workload for the Edge-Agentic benchmark.'',
      bd_size = 995,
      bd_metadata =
        [(''categories'', MetaNames [''non_live'', ''live'', ''hallucination'']),
         (''category_sample_pct'', MetaCounts [(''non_live'', 62), (''live'', 10), (''hallucination'', 10)]),
         (''subset_floor'', MetaInt 25), (''max_seq_len'', MetaInt 32768), (''scorer'', MetaText ''bfcl_v4'')]\<rparr>"

definition AgenticCodingPerf :: bench_dataset where
  "AgenticCodingPerf =
     \<lparr>bd_description = ''Recorded multi-turn agentic-coding trajectories (SWE-bench-style) replayed as the Edge-Agentic performance workload. The dataset is both the performance workload and its own ground truth for the inline online checker (multiset IoU of executables). Sized so no conversation overflows a 32K served context (peak ISL ~23.5K).'',
      bd_size = 1007,
      bd_metadata =
        [(''conversations'', MetaInt 20), (''generated_turns'', MetaInt 1007), (''peak_isl'', MetaInt 23456),
         (''max_seq_len'', MetaInt 32768), (''scorer'', MetaText ''agentic_inference_inline'')]\<rparr>"

record bench_model =
  bm_name :: string
  bm_golden_accuracy :: "string \<times> (string \<times> rat) list"
  bm_accuracy_target_settings :: "(string \<times> rat list) list list"
  bm_dataset :: bench_dataset
  bm_use_equal_issue_mode :: bool

definition DeepSeek_R1 :: bench_model where
  "DeepSeek_R1 =
     \<lparr>bm_name = ''deepseek-r1'',
      bm_golden_accuracy = (''fp32'', [(''exact_match'', 813582 / 10000), (''TOKENS_PER_SAMPLE'', 38862274 / 10000)]),
      bm_accuracy_target_settings = [[(''exact_match'', [99 / 100]), (''TOKENS_PER_SAMPLE'', [9 / 10, 11 / 10])]],
      bm_dataset = MLPerfDeepseekR1, bm_use_equal_issue_mode = True\<rparr>"

definition Llama3_1_8b :: bench_model where
  "Llama3_1_8b =
     \<lparr>bm_name = ''llama3-1-8b'',
      bm_golden_accuracy = (''fp32'',
        [(''ROUGE1'', 387792 / 10000), (''ROUGE2'', 159075 / 10000), (''ROUGEL'', 244957 / 10000),
         (''ROUGELSUM'', 35793 / 1000), (''GEN_LEN'', 8167644)]),
      bm_accuracy_target_settings =
        [[(''ROUGE1'', [99 / 100]), (''ROUGE2'', [99 / 100]), (''ROUGEL'', [99 / 100]), (''ROUGELSUM'', [99 / 100]),
          (''GEN_LEN'', [9 / 10, 11 / 10])]],
      bm_dataset = CNNDailyMail, bm_use_equal_issue_mode = True\<rparr>"

definition Llama2_70b :: bench_model where
  "Llama2_70b =
     \<lparr>bm_name = ''llama2-70b'',
      bm_golden_accuracy = (''fp32'',
        [(''ROUGE1'', 444312 / 10000), (''ROUGE2'', 220352 / 10000), (''ROUGEL'', 286162 / 10000),
         (''TOKENS_PER_SAMPLE'', 29445 / 100)]),
      bm_accuracy_target_settings =
        [[(''ROUGE1'', [99 / 100]), (''ROUGE2'', [99 / 100]), (''ROUGEL'', [99 / 100]), (''TOKENS_PER_SAMPLE'', [9 / 10, 11 / 10])],
         [(''ROUGE1'', [999 / 1000]), (''ROUGE2'', [999 / 1000]), (''ROUGEL'', [999 / 1000]),
          (''TOKENS_PER_SAMPLE'', [9 / 10, 11 / 10])]],
      bm_dataset = OpenOrca, bm_use_equal_issue_mode = True\<rparr>"

definition Llama3_1_405b :: bench_model where
  "Llama3_1_405b =
     \<lparr>bm_name = ''llama3.1-405b'',
      bm_golden_accuracy = (''fp32'',
        [(''ROUGEL'', 216666 / 10000), (''exact_match'', 901335 / 10000), (''TOKENS_PER_SAMPLE'', 68468 / 100)]),
      bm_accuracy_target_settings =
        [[(''ROUGEL'', [99 / 100]), (''exact_match'', [99 / 100]), (''TOKENS_PER_SAMPLE'', [9 / 10, 11 / 10])]],
      bm_dataset = TextGenLongSeqLen, bm_use_equal_issue_mode = True\<rparr>"

definition Mixtral8x7B :: bench_model where
  "Mixtral8x7B =
     \<lparr>bm_name = ''mixtral-8x7b'',
      bm_golden_accuracy = (''fp32'',
        [(''ROUGE1'', 455989 / 10000), (''ROUGE2'', 233526 / 10000), (''ROUGEL'', 304608 / 10000),
         (''TOKENS_PER_SAMPLE'', 14484 / 100), (''gsm8k_accuracy'', 7366 / 100), (''mbxp_accuracy'', 6016 / 100)]),
      bm_accuracy_target_settings =
        [[(''ROUGE1'', [99 / 100]), (''ROUGE2'', [99 / 100]), (''ROUGEL'', [99 / 100]), (''TOKENS_PER_SAMPLE'', [9 / 10, 11 / 10]),
          (''gsm8k_accuracy'', [99 / 100]), (''mbxp_accuracy'', [99 / 100])]],
      bm_dataset = TextGenComplex, bm_use_equal_issue_mode = True\<rparr>"

definition Qwen3_6_27B :: bench_model where
  "Qwen3_6_27B =
     \<lparr>bm_name = ''qwen3.6-27b'',
      bm_golden_accuracy = (''q4_k_m-reference'',
        [(''bfcl_overall_accuracy'', 8623 / 100), (''bfcl_normalized_accuracy'', 8796 / 100)]),
      bm_accuracy_target_settings =
        [[(''bfcl_overall_accuracy'', [97 / 100]), (''bfcl_normalized_accuracy'', [97 / 100])]],
      bm_dataset = BFCLv4SingleTurn, bm_use_equal_issue_mode = True\<rparr>"

section \<open>Rules\<close>

datatype metric_type = ThroughputM | QueryLatencyM | TTFTM | TPOTM

datatype rules_class = PerModelRules | PerQueryRules rat "int option" | TokenBasedRules "int option" "int option"

record per_model_ruleset =
  pm_min_duration_ms_valid :: int
  pm_max_duration_ms_valid :: "int option"
  pm_min_sample_count_valid :: "int option"
  pm_metric :: "metric_type option"
  pm_reported_metrics :: "metric_type list"
  pm_class :: rules_class

text \<open>The classes' defaults.\<close>

definition token_based_ruleset :: "int \<Rightarrow> int \<Rightarrow> per_model_ruleset" where
  "token_based_ruleset ttft tpot =
     \<lparr>pm_min_duration_ms_valid = 10 * 60 * 1000, pm_max_duration_ms_valid = None, pm_min_sample_count_valid = Some 270336,
      pm_metric = Some ThroughputM, pm_reported_metrics = [ThroughputM, TTFTM, TPOTM],
      pm_class = TokenBasedRules (Some ttft) (Some tpot)\<rparr>"

datatype optimization_priority = MaxThroughputPriority | LOW_LATENCY_INTERACTIVE | EDGE_SINGLE_STREAM

record round_ruleset =
  rr_version :: string
  rr_scheduler_rng_seed :: "int option"
  rr_sample_index_rng_seed :: "int option"
  rr_benchmark_rulesets :: "(bench_model \<times> (optimization_priority \<times> per_model_ruleset) list) list"

definition v5_1 :: round_ruleset where
  "v5_1 =
     \<lparr>rr_version = ''v5.1'', rr_scheduler_rng_seed = Some 18209322760996052031,
      rr_sample_index_rng_seed = Some 14771362308971278857,
      rr_benchmark_rulesets =
        [(DeepSeek_R1, [(MaxThroughputPriority, token_based_ruleset 2000 80)]),
         (Llama3_1_8b, [(MaxThroughputPriority, token_based_ruleset 2000 100),
                        (LOW_LATENCY_INTERACTIVE, token_based_ruleset 500 30)]),
         (Llama2_70b, [(MaxThroughputPriority, token_based_ruleset 2000 200),
                       (LOW_LATENCY_INTERACTIVE, token_based_ruleset 450 40)]),
         (Llama3_1_405b, [(MaxThroughputPriority, token_based_ruleset 6000 175),
                          (LOW_LATENCY_INTERACTIVE, token_based_ruleset 4500 80)]),
         (Mixtral8x7B, [(MaxThroughputPriority, token_based_ruleset 2000 200)])]\<rparr>"

definition v6_1 :: round_ruleset where
  "v6_1 =
     \<lparr>rr_version = ''v6.1'', rr_scheduler_rng_seed = Some 16159082839903944936,
      rr_sample_index_rng_seed = Some 2747215439041700203,
      rr_benchmark_rulesets = rr_benchmark_rulesets v5_1\<rparr>"

definition ALL_ROUNDS :: "round_ruleset list" where "ALL_ROUNDS = [v5_1, v6_1]"
definition CURRENT :: round_ruleset where "CURRENT = v6_1"

definition EDGE_CURRENT :: round_ruleset where
  "EDGE_CURRENT =
     \<lparr>rr_version = ''edge-v0.1'', rr_scheduler_rng_seed = Some 42, rr_sample_index_rng_seed = Some 42,
      rr_benchmark_rulesets =
        [(Qwen3_6_27B,
          [(EDGE_SINGLE_STREAM,
            \<lparr>pm_min_duration_ms_valid = 0, pm_max_duration_ms_valid = Some (4 * 60 * 60 * 1000),
             pm_min_sample_count_valid = Some 995, pm_metric = Some ThroughputM, pm_reported_metrics = [ThroughputM],
             pm_class = PerModelRules\<rparr>)])]\<rparr>"

definition ENDPOINTS_CURRENT :: round_ruleset where
  "ENDPOINTS_CURRENT =
     \<lparr>rr_version = ''endpoints-v1.0-2026-10-C1-A'', rr_scheduler_rng_seed = Some 10487924139932647040,
      rr_sample_index_rng_seed = Some 586478644936801402, rr_benchmark_rulesets = []\<rparr>"

definition ENDPOINTS_ALL :: "round_ruleset list" where "ENDPOINTS_ALL = [ENDPOINTS_CURRENT]"

section \<open>The registry\<close>

type_synonym ruleset_registry = "(string \<times> round_ruleset) list"

definition register_ruleset :: "string \<Rightarrow> round_ruleset \<Rightarrow> ruleset_registry \<Rightarrow> ruleset_registry result" where
  "register_ruleset name ruleset reg = (if name \<in> fst ` set reg then Inl ValueError else Inr (AList.update name ruleset reg))"

definition get_ruleset :: "string \<Rightarrow> ruleset_registry \<Rightarrow> round_ruleset result" where
  "get_ruleset name reg = (case map_of reg name of None \<Rightarrow> Inl KeyError | Some r \<Rightarrow> Inr r)"

definition list_rulesets :: "ruleset_registry \<Rightarrow> string list" where
  "list_rulesets reg = map fst reg"

text \<open>\<open>dict.setdefault\<close>.\<close>

definition set_default :: "string \<Rightarrow> round_ruleset \<Rightarrow> ruleset_registry \<Rightarrow> ruleset_registry" where
  "set_default name ruleset reg = (if name \<in> fst ` set reg then reg else reg @ [(name, ruleset)])"

definition auto_register_mlcommons :: "ruleset_registry \<Rightarrow> ruleset_registry" where
  "auto_register_mlcommons reg =
     (let reg1 = foldl (\<lambda>g r. set_default (''mlperf-inference-'' @ rr_version r) r g) reg ALL_ROUNDS;
          reg2 = set_default ''mlcommons-current'' CURRENT reg1;
          reg3 = set_default (''mlperf-'' @ rr_version EDGE_CURRENT) EDGE_CURRENT reg2;
          reg4 = set_default ''mlperf-edge-current'' EDGE_CURRENT reg3;
          reg5 = foldl (\<lambda>g r. set_default (''mlperf-'' @ rr_version r) r g) reg4 ENDPOINTS_ALL
      in set_default ''mlperf-endpoints-current'' ENDPOINTS_CURRENT reg5)"

definition ruleset_registry :: ruleset_registry where
  "ruleset_registry = auto_register_mlcommons []"

section \<open>Applying a user's configuration\<close>

record user_config =
  uc_user_metric_target :: "rat option"
  uc_min_issue_duration_ms :: "int option"
  uc_max_issue_duration_ms :: "int option"
  uc_ds_subset_size :: "int option"
  uc_total_sample_count :: "int option"
  uc_min_sample_count :: "int option"

record mlcommons_settings = runtime_settings +
  mc_model :: bench_model
  mc_optimization_priority :: optimization_priority
  mc_rules :: per_model_ruleset

text \<open>A value that is None or zero is not taken.\<close>

definition truthy_value :: "('a :: zero) option \<Rightarrow> 'a option" where
  "truthy_value v = (case v of None \<Rightarrow> None | Some x \<Rightarrow> if x = 0 then None else Some x)"

fun make_metric :: "metric_type \<Rightarrow> rat \<Rightarrow> metric result" where
  "make_metric ThroughputM t = Inr (Throughput t)"
| "make_metric QueryLatencyM t = mk_query_latency (Some t) None"
| "make_metric TTFTM t = Inr (TTFT t)"
| "make_metric TPOTM t = Inr (TPOT t)"

definition token_limit :: "(rat \<Rightarrow> metric) \<Rightarrow> int option \<Rightarrow> metric result" where
  "token_limit mk limit = (case limit of None \<Rightarrow> Inl AssertionError | Some l \<Rightarrow> Inr (mk (of_int l)))"

text \<open>The loop over the reported metrics: one metric, in the order of the branches.\<close>

definition reported_metric :: "per_model_ruleset \<Rightarrow> metric option \<Rightarrow> user_config \<Rightarrow> metric_type \<Rightarrow> metric result" where
  "reported_metric rules target u mtype =
     (if Some mtype = pm_metric rules \<and> target \<noteq> None then Inr (the target)
      else if mtype = TTFTM then
        (case pm_class rules of TokenBasedRules ttft _ \<Rightarrow> token_limit TTFT ttft | _ \<Rightarrow> Inl AssertionError)
      else if mtype = TPOTM then
        (case pm_class rules of TokenBasedRules _ tpot \<Rightarrow> token_limit TPOT tpot | _ \<Rightarrow> Inl AssertionError)
      else if mtype = QueryLatencyM \<and> pm_metric rules = Some ThroughputM then
        mk_query_latency None (uc_user_metric_target u)
      else if mtype = ThroughputM \<and> pm_metric rules = Some QueryLatencyM then
        (case uc_user_metric_target u of
           None \<Rightarrow> Inl AssertionError
         | Some t \<Rightarrow> (if t = 0 then Inl ZeroDivisionError else Inr (Throughput (1000 / t))))
      else Inl ValueError)"

fun collect_metrics :: "(metric_type \<Rightarrow> metric result) \<Rightarrow> metric_type list \<Rightarrow> metric list result" where
  "collect_metrics f [] = Inr []"
| "collect_metrics f (t # ts) =
     (case f t of
        Inl e \<Rightarrow> Inl e
      | Inr m \<Rightarrow> (case collect_metrics f ts of Inl e \<Rightarrow> Inl e | Inr ms \<Rightarrow> Inr (m # ms)))"

definition or_else :: "'a option \<Rightarrow> 'a option \<Rightarrow> 'a option" where
  "or_else a b = (case a of None \<Rightarrow> b | Some x \<Rightarrow> Some x)"

definition apply_user_config ::
    "(int option \<Rightarrow> rng) \<Rightarrow> round_ruleset \<Rightarrow> bench_model \<Rightarrow> user_config \<Rightarrow> optimization_priority
     \<Rightarrow> mlcommons_settings result" where
  "apply_user_config rng_of r model u prio =
     (case map_of (rr_benchmark_rulesets r) model of
        None \<Rightarrow> Inl ValueError
      | Some prios \<Rightarrow>
     (case map_of prios prio of
        None \<Rightarrow> Inl ValueError
      | Some rules \<Rightarrow>
     (case (case (truthy_value (uc_user_metric_target u), pm_metric rules) of
              (Some t, Some mt) \<Rightarrow> map_sum id Some (make_metric mt t)
            | _ \<Rightarrow> Inr None) of
        Inl e \<Rightarrow> Inl e
      | Inr target \<Rightarrow>
     (case collect_metrics (reported_metric rules target u) (pm_reported_metrics rules) of
        Inl e \<Rightarrow> Inl e
      | Inr reported \<Rightarrow>
        (let min_dur = the (or_else (uc_min_issue_duration_ms u) (Some (pm_min_duration_ms_valid rules)));
             max_dur = or_else (uc_max_issue_duration_ms u) (pm_max_duration_ms_valid rules);
             n_samples = the (or_else (truthy_value (uc_ds_subset_size u)) (Some (bd_size (bm_dataset model))));
             min_count = or_else (uc_min_sample_count u) (pm_min_sample_count_valid rules)
         in if (case max_dur of None \<Rightarrow> True | Some d \<Rightarrow> d < min_dur) then Inl AssertionError
            else Inr
              \<lparr>metric_target = Some (case target of Some m \<Rightarrow> m | None \<Rightarrow> Throughput 0),
               reported_metrics = reported,
               max_issue_duration_ms = max_dur,
               n_samples_from_dataset = n_samples,
               n_samples_to_issue = truthy_value (uc_total_sample_count u),
               min_sample_count = (case min_count of None \<Rightarrow> 1 | Some c \<Rightarrow> c),
               rng_sched = rng_of (rr_scheduler_rng_seed r),
               rng_sample_index = rng_of (rr_sample_index_rng_seed r),
               load_pattern = None,
               min_issue_duration_ms = Some min_dur,
               sample_order = spec_without_replacement,
               mc_model = model, mc_optimization_priority = prio, mc_rules = rules\<rparr>)))))"

section \<open>What the registered rounds have in common\<close>

text \<open>Rules that gate throughput, with or without token-latency limits.\<close>

definition throughput_rules :: "per_model_ruleset \<Rightarrow> bool" where
  "throughput_rules rules =
     (pm_metric rules = Some ThroughputM \<and> pm_min_sample_count_valid rules \<noteq> None
      \<and> (pm_reported_metrics rules = [ThroughputM]
         \<or> pm_reported_metrics rules = [ThroughputM, TTFTM, TPOTM] \<and> (\<exists>a b. pm_class rules = TokenBasedRules (Some a) (Some b))))"

definition round_rules :: "round_ruleset \<Rightarrow> per_model_ruleset list" where
  "round_rules r = concat (map (\<lambda>(m, ps). map snd ps) (rr_benchmark_rulesets r))"

lemma registry_entries:
  "ruleset_registry =
     [(''mlperf-inference-v5.1'', v5_1), (''mlperf-inference-v6.1'', v6_1), (''mlcommons-current'', v6_1),
      (''mlperf-edge-v0.1'', EDGE_CURRENT), (''mlperf-edge-current'', EDGE_CURRENT),
      (''mlperf-endpoints-v1.0-2026-10-C1-A'', ENDPOINTS_CURRENT), (''mlperf-endpoints-current'', ENDPOINTS_CURRENT)]"
  by (simp add: ruleset_registry_def auto_register_mlcommons_def set_default_def ALL_ROUNDS_def ENDPOINTS_ALL_def CURRENT_def
      v5_1_def v6_1_def EDGE_CURRENT_def ENDPOINTS_CURRENT_def Let_def)

lemma registered_rules:
  assumes "(name, r) \<in> set ruleset_registry" "rules \<in> set (round_rules r)"
  shows "throughput_rules rules"
proof -
  have "\<forall>p\<in>set ruleset_registry. \<forall>q\<in>set (round_rules (snd p)). throughput_rules q"
    by (simp add: registry_entries round_rules_def v5_1_def v6_1_def EDGE_CURRENT_def ENDPOINTS_CURRENT_def
        token_based_ruleset_def throughput_rules_def)
  with assms show ?thesis by fastforce
qed

lemma found_rules:
  "map_of (rr_benchmark_rulesets r) m = Some ps \<Longrightarrow> map_of ps prio = Some rules \<Longrightarrow> rules \<in> set (round_rules r)"
  by (force simp: round_rules_def dest!: map_of_SomeD)

lemma registered_seeds:
  assumes "(name, r) \<in> set ruleset_registry"
  shows "rr_scheduler_rng_seed r \<noteq> None" "rr_sample_index_rng_seed r \<noteq> None" "get_ruleset name ruleset_registry = Inr r"
  using assms by (auto simp: registry_entries v5_1_def v6_1_def EDGE_CURRENT_def ENDPOINTS_CURRENT_def get_ruleset_def)

text \<open>The metrics a run reports: the target itself, then the limits of the rules.\<close>

definition rule_limits :: "per_model_ruleset \<Rightarrow> metric list" where
  "rule_limits rules =
     (if TTFTM \<in> set (pm_reported_metrics rules)
      then (case pm_class rules of TokenBasedRules (Some a) (Some b) \<Rightarrow> [TTFT (of_int a), TPOT (of_int b)] | _ \<Rightarrow> [])
      else [])"

lemma reported_of_rules:
  assumes "throughput_rules rules"
  shows "collect_metrics (reported_metric rules (Some (Throughput t)) u) (pm_reported_metrics rules)
      = Inr (Throughput t # rule_limits rules)"
    "collect_metrics (reported_metric rules None u) (pm_reported_metrics rules) = Inl ValueError"
  using assms by (auto simp: throughput_rules_def reported_metric_def rule_limits_def token_limit_def)

text \<open>Under every registered round, a user's configuration is accepted exactly when it names a
  throughput target and the duration limits are consistent: without a target it is a \<open>ValueError\<close>, and
  without a maximum duration, the user's or the round's, an \<open>AssertionError\<close>.  An accepted configuration
  reports the target and the round's latency limits, keeps the round's bounds where the user sets none,
  uses the round's pinned seeds, and then issues at least the round's minimum sample count.\<close>

theorem round_governs_the_run:
  assumes reg: "(name, r) \<in> set ruleset_registry" and m: "map_of (rr_benchmark_rulesets r) model = Some prios"
    and p: "map_of prios prio = Some rules"
    and max: "max_dur = or_else (uc_max_issue_duration_ms u) (pm_max_duration_ms_valid rules)"
    and min: "min_dur = the (or_else (uc_min_issue_duration_ms u) (Some (pm_min_duration_ms_valid rules)))"
  shows "(case truthy_value (uc_user_metric_target u) of
       None \<Rightarrow> apply_user_config rng_of r model u prio = Inl ValueError
     | Some t \<Rightarrow>
         if (case max_dur of None \<Rightarrow> True | Some d \<Rightarrow> d < min_dur)
         then apply_user_config rng_of r model u prio = Inl AssertionError
         else \<exists>s. apply_user_config rng_of r model u prio = Inr s
           \<and> metric_target s = Some (Throughput t) \<and> reported_metrics s = Throughput t # rule_limits rules
           \<and> min_issue_duration_ms s = Some min_dur \<and> max_issue_duration_ms s = max_dur
           \<and> rng_sched s = rng_of (rr_scheduler_rng_seed r) \<and> rng_sample_index s = rng_of (rr_sample_index_rng_seed r)
           \<and> (truthy_value (uc_total_sample_count u) = None \<and> uc_min_sample_count u = None \<longrightarrow>
               (\<forall>pad align. \<exists>n. total_samples_to_issue pad align (runtime_settings.truncate s) = Inr n
                  \<and> the (pm_min_sample_count_valid rules) \<le> n)))"
proof -
  have rules: "throughput_rules rules" using registered_rules [OF reg found_rules [OF m p]] .
  then have metric: "pm_metric rules = Some ThroughputM" and "pm_min_sample_count_valid rules \<noteq> None"
    by (simp_all add: throughput_rules_def)
  then obtain c where c: "pm_min_sample_count_valid rules = Some c" by blast
  show ?thesis
  proof (cases "truthy_value (uc_user_metric_target u)")
    case None
    then show ?thesis by (simp add: apply_user_config_def m p reported_of_rules(2) [OF rules])
  next
    case (Some t)
    show ?thesis
    proof (cases "case max_dur of None \<Rightarrow> True | Some d \<Rightarrow> d < min_dur")
      case True
      then show ?thesis
        using Some by (simp add: apply_user_config_def m p metric reported_of_rules(1) [OF rules] Let_def flip: max min)
    next
      case False
      define s where "s = (case apply_user_config rng_of r model u prio of Inr s \<Rightarrow> s | Inl _ \<Rightarrow> undefined)"
      have s: "apply_user_config rng_of r model u prio = Inr s" "metric_target s = Some (Throughput t)"
        "reported_metrics s = Throughput t # rule_limits rules" "min_issue_duration_ms s = Some min_dur"
        "max_issue_duration_ms s = max_dur" "rng_sched s = rng_of (rr_scheduler_rng_seed r)"
        "rng_sample_index s = rng_of (rr_sample_index_rng_seed r)" "load_pattern s = None"
        "n_samples_to_issue s = truthy_value (uc_total_sample_count u)"
        "uc_min_sample_count u = None \<Longrightarrow> min_sample_count s = c"
        using Some False c
        by (simp_all add: s_def apply_user_config_def m p metric reported_of_rules(1) [OF rules] Let_def or_else_def [of None]
            flip: max min)
      have "\<exists>n. total_samples_to_issue pad align (runtime_settings.truncate s) = Inr n \<and> c \<le> n"
        if "truthy_value (uc_total_sample_count u) = None" "uc_min_sample_count u = None" for pad align
      proof -
        let ?s = "runtime_settings.truncate s"
        have f: "n_samples_to_issue ?s = None" "\<not> is_agentic ?s" "metric_target ?s = Some (Throughput t)"
          "min_sample_count ?s = c" "min_issue_duration_ms ?s = Some min_dur"
          using s that by (simp_all add: runtime_settings.truncate_def is_agentic_def)
        have "x \<le> align_up k x" for k x
        proof (cases "0 < k")
          case True
          then show ?thesis by (rule align_up_bounds(1))
        qed (simp add: align_up_def)
        then have "c \<le> align_up k (max c x)" for k x using max.cobounded1 order_trans by blast
        then show ?thesis by (simp add: total_samples_to_issue_def f expected_samples_def Let_def)
      qed
      with s Some False c show ?thesis by auto
    qed
  qed
qed

definition example_user :: user_config where
  "example_user = \<lparr>uc_user_metric_target = Some 10, uc_min_issue_duration_ms = None, uc_max_issue_duration_ms = None,
     uc_ds_subset_size = None, uc_total_sample_count = None, uc_min_sample_count = None\<rparr>"

lemma round_governs_the_run_witness:
  "\<exists>s. apply_user_config (\<lambda>_. \<lparr>draws = (\<lambda>_. 0), pos = 0\<rparr>) EDGE_CURRENT Qwen3_6_27B example_user EDGE_SINGLE_STREAM = Inr s
     \<and> metric_target s = Some (Throughput 10)"
proof -
  define ps where "ps = the (map_of (rr_benchmark_rulesets EDGE_CURRENT) Qwen3_6_27B)"
  define rules where "rules = the (map_of ps EDGE_SINGLE_STREAM)"
  have reg: "(''mlperf-edge-current'', EDGE_CURRENT) \<in> set ruleset_registry" by (simp add: registry_entries)
  have m: "map_of (rr_benchmark_rulesets EDGE_CURRENT) Qwen3_6_27B = Some ps" "map_of ps EDGE_SINGLE_STREAM = Some rules"
    by (simp_all add: ps_def rules_def EDGE_CURRENT_def)
  have lim: "pm_max_duration_ms_valid rules = Some 14400000" "pm_min_duration_ms_valid rules = 0"
    by (simp_all add: rules_def ps_def EDGE_CURRENT_def)
  show ?thesis
    using round_governs_the_run [OF reg m refl refl, where u = example_user and rng_of = "\<lambda>_. \<lparr>draws = (\<lambda>_. 0), pos = 0\<rparr>"] lim
    by (auto simp: example_user_def truthy_value_def or_else_def)
qed

end
