(* ===== verification/OutputCaching.thy ===== *)
theory OutputCaching
  imports SampleOrder
begin

text \<open>
  \<open>compliance/audit_test/output_caching_test.py\<close>, \<open>compliance/__init__.py\<close> and \<open>commands/audit.py\<close>: the
  output-caching audit, its plan, its validation and its verdict, and the orchestrator that runs the
  phases back to back.  What happens when a phase is set up and run is the record \<open>phase_world\<close>.
\<close>

section \<open>Plan and validation\<close>

record output_caching_config =
  oc_samples :: int
  oc_audit_samples :: "int option"
  oc_sample_index :: int
  oc_threshold :: rat

text \<open>The field bounds of \<open>OutputCachingTestConfig\<close>.\<close>

definition config_in_bounds :: "output_caching_config \<Rightarrow> bool" where
  "config_in_bounds c =
     (1 \<le> oc_samples c \<and> (case oc_audit_samples c of None \<Rightarrow> True | Some n \<Rightarrow> 1 \<le> n)
      \<and> 0 \<le> oc_sample_index c \<and> 0 < oc_threshold c \<and> oc_threshold c < 1)"

record audit_run_spec =
  sp_label :: string
  sp_n_samples :: "int option"
  sp_sample_order :: sample_order_spec

definition plan_runs :: "output_caching_config \<Rightarrow> audit_run_spec list" where
  "plan_runs c =
     [\<lparr>sp_label = ''reference'', sp_n_samples = Some (oc_samples c), sp_sample_order = spec_without_replacement\<rparr>,
      \<lparr>sp_label = ''output_caching'',
       sp_n_samples = Some (case oc_audit_samples c of Some n \<Rightarrow> n | None \<Rightarrow> oc_samples c),
       sp_sample_order = spec_single (oc_sample_index c)\<rparr>]"

definition valid_load_patterns :: "load_pattern_type list" where
  "valid_load_patterns = [MAX_THROUGHPUT, CONCURRENCY]"

fun validate_specs :: "int \<Rightarrow> audit_run_spec list \<Rightarrow> unit result" where
  "validate_specs dataset_size [] = Inr ()"
| "validate_specs dataset_size (spec # specs) =
     (case so_fixed_index (sp_sample_order spec) of
        None \<Rightarrow>
          (case sp_n_samples spec of
             Some n \<Rightarrow> if n > dataset_size then Inl SetupError else validate_specs dataset_size specs
           | None \<Rightarrow> validate_specs dataset_size specs)
      | Some idx \<Rightarrow>
          (if \<not> (0 \<le> idx \<and> idx < dataset_size) then Inl SetupError else validate_specs dataset_size specs))"

definition validate_audit :: "output_caching_config \<Rightarrow> int \<Rightarrow> load_pattern_type \<Rightarrow> unit result" where
  "validate_audit c dataset_size lp =
     (if lp \<notin> set valid_load_patterns then Inl SetupError else validate_specs dataset_size (plan_runs c))"

section \<open>The verdict\<close>

record audit_report =
  ar_qps :: "rat option"
  ar_n_samples_completed :: int
  ar_n_samples_issued :: int
  ar_interrupted :: bool
  ar_complete :: bool

record audit_run_artifacts =
  aa_label :: string
  aa_report :: audit_report
  aa_n_requested :: int

record audit_run_stats =
  as_qps :: rat
  as_n_completed :: int
  as_n_requested :: int

definition stats_from_report :: "audit_report \<Rightarrow> int \<Rightarrow> audit_run_stats result" where
  "stats_from_report report n_requested =
     (case ar_qps report of
        None \<Rightarrow> Inl ValueError
      | Some qps \<Rightarrow>
          (if qps \<le> 0 then Inl ValueError
           else Inr \<lparr>as_qps = qps, as_n_completed = ar_n_samples_completed report, as_n_requested = n_requested\<rparr>))"

datatype audit_reason = PhaseIncomplete | ComparedTo rat

record audit_result =
  au_passed :: bool
  au_ref :: audit_run_stats
  au_audit :: audit_run_stats
  au_threshold :: rat
  au_reason :: audit_reason

definition verify_output_caching :: "audit_run_stats \<Rightarrow> audit_run_stats \<Rightarrow> rat \<Rightarrow> audit_result" where
  "verify_output_caching ref audit threshold =
     (let min_completion = 1 - threshold;
          ref_ok = of_int (as_n_completed ref) \<ge> of_int (as_n_requested ref) * min_completion;
          audit_ok = of_int (as_n_completed audit) \<ge> of_int (as_n_requested audit) * min_completion;
          limit = as_qps ref * (1 + threshold)
      in if \<not> ref_ok \<or> \<not> audit_ok
         then \<lparr>au_passed = False, au_ref = ref, au_audit = audit, au_threshold = threshold, au_reason = PhaseIncomplete\<rparr>
         else \<lparr>au_passed = (as_qps audit < limit), au_ref = ref, au_audit = audit, au_threshold = threshold,
               au_reason = ComparedTo limit\<rparr>)"

definition verify_runs :: "audit_run_artifacts list \<Rightarrow> output_caching_config \<Rightarrow> audit_result result" where
  "verify_runs runs c =
     (case runs of
        [ref, audit] \<Rightarrow>
          (case stats_from_report (aa_report ref) (aa_n_requested ref) of
             Inl e \<Rightarrow> Inl e
           | Inr r \<Rightarrow>
               (case stats_from_report (aa_report audit) (aa_n_requested audit) of
                  Inl e \<Rightarrow> Inl e
                | Inr a \<Rightarrow> Inr (verify_output_caching r a (oc_threshold c))))
      | _ \<Rightarrow> Inl ValueError)"

section \<open>The orchestrator\<close>

definition execution_error :: py_exc where "execution_error = OtherException ''ExecutionError''"
definition keyboard_interrupt :: py_exc where "keyboard_interrupt = OtherException ''KeyboardInterrupt''"

text \<open>Subclasses of \<open>CLIError\<close>, which pass through; \<open>KeyboardInterrupt\<close> is no \<open>Exception\<close> and passes too.\<close>

definition is_cli_error :: "py_exc \<Rightarrow> bool" where
  "is_cli_error e = (e \<in> {InputValidationError, SetupError, execution_error})"

definition recast :: "py_exc \<Rightarrow> py_exc" where
  "recast e = (if is_cli_error e \<or> e = keyboard_interrupt then e else execution_error)"

text \<open>One phase as the outside world answers: a \<open>^C\<close> before it, the set-up with the number of samples the
  loader has, the deadline passing during set-up, and the run with its report and its timeout.\<close>

record phase_world =
  pw_interrupted :: bool
  pw_setup :: "py_exc + int option"
  pw_deadline_passed :: bool
  pw_run :: "py_exc + audit_report option \<times> bool"

definition run_phase ::
    "output_caching_config \<Rightarrow> load_pattern_type \<Rightarrow> audit_run_spec \<Rightarrow> phase_world \<Rightarrow> int option
     \<Rightarrow> (audit_run_artifacts \<times> int option) result" where
  "run_phase c lp spec w size0 =
     (if pw_interrupted w then Inl keyboard_interrupt
      else
        (case pw_setup w of
           Inl e \<Rightarrow> Inl (recast e)
         | Inr loaded \<Rightarrow>
        (if pw_deadline_passed w then Inl execution_error
         else
        (case loaded of
           None \<Rightarrow> Inl SetupError
         | Some n \<Rightarrow>
        (case (case size0 of Some _ \<Rightarrow> Inr () | None \<Rightarrow> validate_audit c n lp) of
           Inl e \<Rightarrow> Inl (recast e)
         | Inr _ \<Rightarrow>
        (case pw_run w of
           Inl e \<Rightarrow> Inl (recast e)
         | Inr (report, timed_out) \<Rightarrow>
        (case report of
           None \<Rightarrow> Inl execution_error
         | Some r \<Rightarrow>
            (if timed_out then Inl execution_error
             else if ar_interrupted r then Inl keyboard_interrupt
             else if \<not> ar_complete r then Inl execution_error
             else Inr (\<lparr>aa_label = sp_label spec, aa_report = r,
                        aa_n_requested = (case sp_n_samples spec of Some k \<Rightarrow> k | None \<Rightarrow> ar_n_samples_issued r)\<rparr>,
                       Some (case size0 of Some s \<Rightarrow> s | None \<Rightarrow> n))))))))))"

fun run_phases ::
    "output_caching_config \<Rightarrow> load_pattern_type \<Rightarrow> (audit_run_spec \<times> phase_world) list \<Rightarrow> int option
     \<Rightarrow> audit_run_artifacts list result" where
  "run_phases c lp [] size0 = Inr []"
| "run_phases c lp ((spec, w) # rest) size0 =
     (case run_phase c lp spec w size0 of
        Inl e \<Rightarrow> Inl e
      | Inr (a, size1) \<Rightarrow> (case run_phases c lp rest size1 of Inl e \<Rightarrow> Inl e | Inr as \<Rightarrow> Inr (a # as)))"

text \<open>\<open>run_audit\<close>: the second component is what was written to disk.\<close>

definition run_audit ::
    "output_caching_config \<Rightarrow> load_pattern_type \<Rightarrow> bool \<Rightarrow> phase_world list \<Rightarrow> audit_result result \<times> audit_result option" where
  "run_audit c lp has_perf_dataset worlds =
     (if \<not> has_perf_dataset then (Inl SetupError, None)
      else
        (case run_phases c lp (zip (plan_runs c) worlds) None of
           Inl e \<Rightarrow> (Inl e, None)
         | Inr artifacts \<Rightarrow>
             (case verify_runs artifacts c of
                Inl e \<Rightarrow> (Inl (if e \<in> {SetupError, execution_error} then e else execution_error), None)
              | Inr result \<Rightarrow> (Inr result, Some result))))"

section \<open>What the phases draw\<close>

lemma without_replacement_draws: "draw_many order_next k (WithoutReplacement s) = map_prod id WithoutReplacement (draw_many without_replacement_next k s)"
  by (induction k arbitrary: s) (auto simp: Let_def split: prod.split)

lemma draws_prefix: "a \<le> b \<Longrightarrow> fst (draw_many f a s) = take a (fst (draw_many f b s))"
proof -
  assume "a \<le> b"
  then obtain d where "b = a + d" by (metis le_Suc_ex)
  then show ?thesis by (simp add: draw_many_add Let_def case_prod_beta)
qed

lemma single_draws: "fst (draw_many order_next k (Single s)) = replicate k (sg_sample_index s)"
  by (induction k) (auto simp: Let_def single_next_def split: prod.split)

text \<open>A validated audit measures what it means to: over a dataset of \<open>n\<close> samples the reference phase
  draws as many different samples as it was given, and the audit phase draws its one index every time.\<close>

theorem audit_phases_draw_as_planned:
  assumes "config_in_bounds c" and ok: "validate_audit c n lp = Inr ()"
    and "plan_runs c = [ref, audit]"
  shows "(\<exists>o1. create_sample_order (st\<lparr>n_samples_from_dataset := n, sample_order := sp_sample_order ref\<rparr>) False = Inr o1
      \<and> sp_n_samples ref = Some (oc_samples c)
      \<and> distinct (fst (draw_many order_next (nat (oc_samples c)) o1))
      \<and> set (fst (draw_many order_next (nat (oc_samples c)) o1)) \<subseteq> {0..<n})
    \<and> (\<exists>o2. create_sample_order (st\<lparr>n_samples_from_dataset := n, sample_order := sp_sample_order audit\<rparr>) False = Inr o2
      \<and> (\<forall>k. fst (draw_many order_next k o2) = replicate k (oc_sample_index c)))"
proof -
  have ref: "ref = plan_runs c ! 0" and audit: "audit = plan_runs c ! 1" using assms(3) by simp_all
  have b: "1 \<le> oc_samples c" "oc_samples c \<le> n" "0 \<le> oc_sample_index c" "oc_sample_index c < n"
    using assms(1) ok by (auto simp: config_in_bounds_def validate_audit_def plan_runs_def spec_without_replacement_def spec_single_def
        split: if_splits)
  then have n: "0 < n" by simp
  obtain w where w: "without_replacement_init n (rng_sample_index st) = Inr w"
    using n by (auto simp: without_replacement_init_def)
  let ?st = "st\<lparr>n_samples_from_dataset := n, sample_order := sp_sample_order ref\<rparr>"
  have o1: "create_sample_order ?st False = Inr (WithoutReplacement w)"
    using w by (simp add: create_sample_order_def Let_def ref plan_runs_def spec_without_replacement_def)
  have block: "wr_boundary w" "wr_n w = n" using wr_init_boundary [OF w] by simp_all
  have "mset (fst (draw_many without_replacement_next (nat n) w)) = mset (range_list n)"
    using wr_block(1) [OF block(1)] block(2) by simp
  moreover have "distinct (range_list n)" by (simp add: range_list_def distinct_map inj_on_def)
  ultimately have "distinct (fst (draw_many without_replacement_next (nat n) w))" by (metis mset_eq_imp_distinct_iff)
  then have "distinct (fst (draw_many order_next (nat (oc_samples c)) (WithoutReplacement w)))"
    using draws_prefix [of "nat (oc_samples c)" "nat n" without_replacement_next w] b by (simp add: without_replacement_draws)
  moreover have "set (fst (draw_many order_next (nat (oc_samples c)) (WithoutReplacement w))) \<subseteq> {0..<n}"
    using ord.draws_in_range [of "WithoutReplacement w" "nat (oc_samples c)"] create_sample_order_inv [OF o1] by simp
  moreover have "sp_n_samples ref = Some (oc_samples c)" by (simp add: ref plan_runs_def)
  ultimately have r1: "\<exists>o1. create_sample_order ?st False = Inr o1 \<and> sp_n_samples ref = Some (oc_samples c)
      \<and> distinct (fst (draw_many order_next (nat (oc_samples c)) o1))
      \<and> set (fst (draw_many order_next (nat (oc_samples c)) o1)) \<subseteq> {0..<n}" using o1 by blast
  have r2: "\<exists>o2. create_sample_order (st\<lparr>n_samples_from_dataset := n, sample_order := sp_sample_order audit\<rparr>) False = Inr o2
      \<and> (\<forall>k. fst (draw_many order_next k o2) = replicate k (oc_sample_index c))"
    using n b by (auto simp: create_sample_order_def Let_def audit plan_runs_def spec_single_def single_init_def single_draws)
  with r1 show ?thesis by blast
qed

definition example_audit :: output_caching_config where
  "example_audit = \<lparr>oc_samples = 3, oc_audit_samples = None, oc_sample_index = 2, oc_threshold = 1 / 10\<rparr>"

lemma audit_phases_draw_as_planned_witness:
  "\<exists>o2. create_sample_order (example_settings\<lparr>n_samples_from_dataset := 5, sample_order := spec_single 2\<rparr>) False = Inr o2
     \<and> (\<forall>k. fst (draw_many order_next k o2) = replicate k 2)"
proof -
  have c: "config_in_bounds example_audit" "validate_audit example_audit 5 CONCURRENCY = Inr ()"
    by (simp_all add: config_in_bounds_def example_audit_def validate_audit_def valid_load_patterns_def plan_runs_def
        spec_without_replacement_def spec_single_def)
  have p: "plan_runs example_audit = [plan_runs example_audit ! 0, plan_runs example_audit ! 1]" by (simp add: plan_runs_def)
  show ?thesis using audit_phases_draw_as_planned [OF c p, of example_settings] by (simp add: plan_runs_def example_audit_def)
qed

section \<open>When an audit passes\<close>

lemma run_phase_ok:
  "run_phase c lp spec w size0 = Inr (a, size1) \<Longrightarrow>
     \<exists>n r. pw_setup w = Inr (Some n) \<and> pw_run w = Inr (Some r, False) \<and> ar_complete r \<and> \<not> ar_interrupted r
       \<and> \<not> pw_interrupted w \<and> \<not> pw_deadline_passed w \<and> aa_report a = r
       \<and> aa_n_requested a = (case sp_n_samples spec of Some k \<Rightarrow> k | None \<Rightarrow> ar_n_samples_issued r)
       \<and> (size0 = None \<longrightarrow> validate_audit c n lp = Inr ())"
  by (auto simp: run_phase_def split: if_splits sum.splits option.splits)

text \<open>C24. A passing result is written only for two complete phases: nothing interrupted either, neither hit its
  deadline or timeout, the plan was valid for the dataset, both report a positive throughput, each completed
  its share of the planned count, and the repeated sample was not faster than the threshold allows; on
  every other course of events nothing is written, or a failing result, or an error.\<close>

theorem audit_passes_only_on_full_evidence:
  assumes "run_audit c lp has_perf [w1, w2] = (res, written)"
  shows "(case res of
       Inl e \<Rightarrow> written = None \<and> e \<in> {InputValidationError, SetupError, execution_error, keyboard_interrupt}
     | Inr result \<Rightarrow> written = Some result \<and>
         (\<exists>n r1 r2 q1 q2. pw_run w1 = Inr (Some r1, False) \<and> pw_run w2 = Inr (Some r2, False)
            \<and> ar_complete r1 \<and> ar_complete r2 \<and> \<not> ar_interrupted r1 \<and> \<not> ar_interrupted r2
            \<and> \<not> pw_deadline_passed w1 \<and> \<not> pw_deadline_passed w2
            \<and> pw_setup w1 = Inr (Some n) \<and> validate_audit c n lp = Inr ()
            \<and> ar_qps r1 = Some q1 \<and> 0 < q1 \<and> ar_qps r2 = Some q2 \<and> 0 < q2
            \<and> (au_passed result \<longleftrightarrow>
                 of_int (oc_samples c) * (1 - oc_threshold c) \<le> of_int (ar_n_samples_completed r1)
                 \<and> of_int (case oc_audit_samples c of Some k \<Rightarrow> k | None \<Rightarrow> oc_samples c) * (1 - oc_threshold c)
                     \<le> of_int (ar_n_samples_completed r2)
                 \<and> q2 < q1 * (1 + oc_threshold c))))"
proof -
  define specs where "specs = plan_runs c"
  obtain ref audit where specs: "specs = [ref, audit]"
    "sp_n_samples ref = Some (oc_samples c)"
    "sp_n_samples audit = Some (case oc_audit_samples c of Some k \<Rightarrow> k | None \<Rightarrow> oc_samples c)"
    by (simp add: specs_def plan_runs_def)
  have phase_errors: "e \<in> {InputValidationError, SetupError, execution_error, keyboard_interrupt}"
    if "run_phase c lp spec w size0 = Inl e" for spec w size0 e
    using that by (auto simp: run_phase_def recast_def is_cli_error_def split: if_splits sum.splits option.splits)
  show ?thesis
  proof (cases res)
    case (Inl e)
    have "e \<in> {InputValidationError, SetupError, execution_error, keyboard_interrupt}" if "run_phases c lp (zip specs [w1, w2]) None = Inl e"
      using that by (auto simp only: specs zip_Cons_Cons zip_Nil run_phases.simps split: sum.splits prod.splits dest!: phase_errors)
    with Inl assms show ?thesis
      by (auto simp: run_audit_def simp flip: specs_def split: if_splits sum.splits)
  next
    case (Inr result)
    then obtain as where as: "run_phases c lp (zip specs [w1, w2]) None = Inr as" "verify_runs as c = Inr result"
      and written: "written = Some result"
      using assms by (auto simp: run_audit_def simp flip: specs_def split: if_splits sum.splits)
    obtain a1 size1 a2 size2 where p: "run_phase c lp ref w1 None = Inr (a1, size1)" "run_phase c lp audit w2 size1 = Inr (a2, size2)"
      "as = [a1, a2]"
      using as(1) by (auto simp: specs split: sum.splits prod.splits)
    obtain n1 r1 where w1: "pw_setup w1 = Inr (Some n1)" "pw_run w1 = Inr (Some r1, False)" "ar_complete r1" "\<not> ar_interrupted r1"
      "\<not> pw_deadline_passed w1" "aa_report a1 = r1" "aa_n_requested a1 = oc_samples c" "validate_audit c n1 lp = Inr ()"
      using run_phase_ok [OF p(1)] specs(2) by auto
    obtain r2 where w2: "pw_run w2 = Inr (Some r2, False)" "ar_complete r2" "\<not> ar_interrupted r2" "\<not> pw_deadline_passed w2"
      "aa_report a2 = r2" "aa_n_requested a2 = (case oc_audit_samples c of Some k \<Rightarrow> k | None \<Rightarrow> oc_samples c)"
      using run_phase_ok [OF p(2)] specs(3) by auto
    have v: "verify_runs [a1, a2] c = Inr result" using as(2) p(3) by simp
    then obtain s1 s2 where s: "stats_from_report r1 (aa_n_requested a1) = Inr s1" "stats_from_report r2 (aa_n_requested a2) = Inr s2"
      "result = verify_output_caching s1 s2 (oc_threshold c)"
      by (auto simp: verify_runs_def w1 w2 split: sum.splits)
    obtain q1 q2 where q: "ar_qps r1 = Some q1" "0 < q1" "ar_qps r2 = Some q2" "0 < q2"
      "s1 = \<lparr>as_qps = q1, as_n_completed = ar_n_samples_completed r1, as_n_requested = aa_n_requested a1\<rparr>"
      "s2 = \<lparr>as_qps = q2, as_n_completed = ar_n_samples_completed r2, as_n_requested = aa_n_requested a2\<rparr>"
      using s(1,2) by (auto simp: stats_from_report_def split: option.splits if_splits)
    have "au_passed result \<longleftrightarrow>
        of_int (oc_samples c) * (1 - oc_threshold c) \<le> of_int (ar_n_samples_completed r1)
        \<and> of_int (case oc_audit_samples c of Some k \<Rightarrow> k | None \<Rightarrow> oc_samples c) * (1 - oc_threshold c)
            \<le> of_int (ar_n_samples_completed r2)
        \<and> q2 < q1 * (1 + oc_threshold c)"
      by (simp add: s(3) q verify_output_caching_def Let_def w1 w2) blast
    with Inr written w1 w2 q show ?thesis by auto
  qed
qed

definition example_report :: "rat \<Rightarrow> int \<Rightarrow> audit_report" where
  "example_report q k = \<lparr>ar_qps = Some q, ar_n_samples_completed = k, ar_n_samples_issued = k, ar_interrupted = False,
     ar_complete = True\<rparr>"

definition example_phase :: "rat \<Rightarrow> int \<Rightarrow> phase_world" where
  "example_phase q k = \<lparr>pw_interrupted = False, pw_setup = Inr (Some 5), pw_deadline_passed = False,
     pw_run = Inr (Some (example_report q k), False)\<rparr>"

text \<open>At 100 samples per second in the reference phase a 10 percent threshold admits 109 and not 110.\<close>

lemma audit_passes_only_on_full_evidence_witness:
  "(\<exists>result. run_audit example_audit CONCURRENCY True [example_phase 100 3, example_phase 109 3] = (Inr result, Some result)
      \<and> au_passed result)
   \<and> (\<exists>result. run_audit example_audit CONCURRENCY True [example_phase 100 3, example_phase 110 3] = (Inr result, Some result)
      \<and> \<not> au_passed result)"
proof -
  define r1 where "r1 = run_audit example_audit CONCURRENCY True [example_phase 100 3, example_phase 109 3]"
  define r2 where "r2 = run_audit example_audit CONCURRENCY True [example_phase 100 3, example_phase 110 3]"
  note defs = run_audit_def run_phase_def validate_audit_def valid_load_patterns_def plan_runs_def example_audit_def
    spec_without_replacement_def spec_single_def example_phase_def example_report_def verify_runs_def stats_from_report_def
  have ok: "\<exists>result. fst r1 = Inr result" "\<exists>result. fst r2 = Inr result" by (simp_all add: r1_def r2_def defs)
  from ok obtain x1 x2 where x: "fst r1 = Inr x1" "fst r2 = Inr x2" by blast
  have e: "run_audit example_audit CONCURRENCY True [example_phase 100 3, example_phase 109 3] = (Inr x1, snd r1)"
    "run_audit example_audit CONCURRENCY True [example_phase 100 3, example_phase 110 3] = (Inr x2, snd r2)"
    using x by (simp_all add: r1_def r2_def prod_eq_iff)
  have q: "pw_run (example_phase a k) = Inr (Some (example_report a k), False)" "ar_qps (example_report a k) = Some a"
    "ar_n_samples_completed (example_report a k) = k" for a k
    by (simp_all add: example_phase_def example_report_def)
  have c: "oc_threshold example_audit = 1 / 10" "oc_samples example_audit = 3" "oc_audit_samples example_audit = None"
    by (simp_all add: example_audit_def)
  show ?thesis
    using audit_passes_only_on_full_evidence [OF e(1)] audit_passes_only_on_full_evidence [OF e(2)]
    by (auto simp: e q c)
qed

end
