(* ===== verification/Compliance.thy ===== *)
theory Compliance
  imports Rulesets PyValues
begin

text \<open>
  \<open>compliance/checker.py\<close> with the readers of \<open>evaluation/accuracy_results.py\<close> it uses: the config lock,
  the accuracy gate, the validity of the performance run, and the report on a submission.  A file is None
  when it does not exist, an error when it cannot be read or parsed, and else the value it holds; the
  decimal syntax of \<open>float(s)\<close> is the argument \<open>parse_float\<close>.  The detail texts of the checks are left out.
\<close>

section \<open>Numbers and equality of parsed values\<close>

text \<open>\<open>to_float\<close>.\<close>

definition to_float :: "(string \<Rightarrow> pyfloat option) \<Rightarrow> pyval \<Rightarrow> pyfloat option" where
  "to_float parse_float v =
     (case v of
        PBool b \<Rightarrow> Some (Fin (if b then 1 else 0))
      | PInt n \<Rightarrow> Some (Fin (of_int n))
      | PFloat f \<Rightarrow> Some f
      | PStr s \<Rightarrow> parse_float s
      | _ \<Rightarrow> None)"

definition float_ge :: "pyfloat \<Rightarrow> rat \<Rightarrow> bool" where
  "float_ge f q = (case f of Fin r \<Rightarrow> q \<le> r | PosInf \<Rightarrow> True | _ \<Rightarrow> False)"

text \<open>\<open>a == b\<close> on parsed values: numbers by value across their types, containers element by element.\<close>

fun py_eq :: "pyval \<Rightarrow> pyval \<Rightarrow> bool"
  and py_eq_list :: "pyval list \<Rightarrow> pyval list \<Rightarrow> bool"
  and py_eq_dict :: "(string \<times> pyval) list \<Rightarrow> (string \<times> pyval) list \<Rightarrow> bool" where
  "py_eq (PList xs) v = (case v of PList ys \<Rightarrow> py_eq_list xs ys | _ \<Rightarrow> False)"
| "py_eq (PTuple xs) v = (case v of PTuple ys \<Rightarrow> py_eq_list xs ys | _ \<Rightarrow> False)"
| "py_eq (PDict d) v = (case v of PDict e \<Rightarrow> length d = length e \<and> py_eq_dict d e | _ \<Rightarrow> False)"
| "py_eq (PStr s) v = (v = PStr s)"
| "py_eq PNone v = (v = PNone)"
| "py_eq (PFloat PosInf) v = (v = PFloat PosInf)"
| "py_eq (PFloat NegInf) v = (v = PFloat NegInf)"
| "py_eq (PFloat NaN) v = False"
| "py_eq (PBool b) v = (num_of v = Some (if b then 1 else 0))"
| "py_eq (PInt n) v = (num_of v = Some (of_int n))"
| "py_eq (PFloat (Fin q)) v = (num_of v = Some q)"
| "py_eq_list [] ys = (ys = [])"
| "py_eq_list (x # xs) ys = (case ys of [] \<Rightarrow> False | y # ys' \<Rightarrow> py_eq x y \<and> py_eq_list xs ys')"
| "py_eq_dict [] e = True"
| "py_eq_dict ((k, v) # d) e = ((case map_of e k of None \<Rightarrow> False | Some w \<Rightarrow> py_eq v w) \<and> py_eq_dict d e)"

section \<open>Reading results\<close>

text \<open>\<open>isinstance(v, dict)\<close> with the dictionary, and \<open>d.get(k)\<close> on it.\<close>

definition as_dict :: "pyval \<Rightarrow> pydict option" where
  "as_dict v = (case v of PDict d \<Rightarrow> Some d | _ \<Rightarrow> None)"

fun first_breakdown :: "pyval list \<Rightarrow> pydict option" where
  "first_breakdown [] = None"
| "first_breakdown (e # es) =
     (case as_dict e of
        None \<Rightarrow> first_breakdown es
      | Some entry \<Rightarrow>
          (case as_dict (dget entry ''breakdown'') of
             None \<Rightarrow> first_breakdown es
           | Some block \<Rightarrow> (if ''subset_scores'' \<in> fst ` set block then Some entry else first_breakdown es)))"

definition find_accuracy_entry :: "pydict \<Rightarrow> pydict option" where
  "find_accuracy_entry results =
     (case dget results ''accuracy_scores'' of PList es \<Rightarrow> first_breakdown es | _ \<Rightarrow> None)"

definition find_accuracy_breakdown :: "pydict \<Rightarrow> pyval" where
  "find_accuracy_breakdown results =
     (case find_accuracy_entry results of None \<Rightarrow> PNone | Some entry \<Rightarrow> dget entry ''breakdown'')"

section \<open>The checks\<close>

record check =
  ck_name :: string
  ck_passed :: bool

fun get_path :: "pyval \<Rightarrow> string list \<Rightarrow> pyval" where
  "get_path cur [] = cur"
| "get_path cur (key # path) =
     (case as_dict cur of
        None \<Rightarrow> PNone
      | Some d \<Rightarrow> (case map_of d key of None \<Rightarrow> PNone | Some v \<Rightarrow> get_path v path))"

definition check_config_lock :: "pydict \<Rightarrow> check list" where
  "check_config_lock config =
     (let temperature = get_path (PDict config) [''model_params'', ''temperature''];
          model_seed = get_path (PDict config) [''model_params'', ''seed''];
          dl_seed = get_path (PDict config) [''settings'', ''runtime'', ''dataloader_random_seed''];
          set_seeds = filter (\<lambda>v. \<not> is_none v) [model_seed, dl_seed];
          seeds_ok = (if set_seeds = [] then False else filter (\<lambda>v. \<not> eq_int v 42) set_seeds = []);
          workers = get_path (PDict config) [''settings'', ''client'', ''num_workers''];
          conns = get_path (PDict config) [''settings'', ''client'', ''max_connections''];
          target = get_path (PDict config) [''settings'', ''load_pattern'', ''target_concurrency''];
          single = (eq_int workers 1 \<and> eq_int conns 1);
          single_stream = (if is_none target then single else single \<and> eq_int target 1)
      in [\<lparr>ck_name = ''temperature==0'', ck_passed = eq_int temperature 0\<rparr>,
          \<lparr>ck_name = ''seed==42'', ck_passed = seeds_ok\<rparr>,
          \<lparr>ck_name = ''single_stream'', ck_passed = single_stream\<rparr>])"

definition ACCURACY_METRIC_KEYS :: "(string \<times> string) list" where
  "ACCURACY_METRIC_KEYS =
     [(''bfcl_overall_accuracy'', ''overall_accuracy''), (''bfcl_normalized_accuracy'', ''normalized_single_turn_score'')]"

text \<open>One metric of the gate: the measured value, from the block or for the headline from the entry.\<close>

definition measured_metric :: "(string \<Rightarrow> pyfloat option) \<Rightarrow> pydict \<Rightarrow> pydict \<Rightarrow> string \<Rightarrow> pyfloat option" where
  "measured_metric parse_float entry block result_key =
     (case to_float parse_float (dget block result_key) of
        Some m \<Rightarrow> Some m
      | None \<Rightarrow>
          (if result_key = ''overall_accuracy'' then to_float parse_float (dget entry ''score'') else None))"

fun metric_checks ::
    "(string \<Rightarrow> pyfloat option) \<Rightarrow> pydict \<Rightarrow> pydict \<Rightarrow> (string \<times> rat) list \<Rightarrow> (string \<times> rat list) list
     \<Rightarrow> (string \<times> string) list \<Rightarrow> check list result" where
  "metric_checks parse_float entry block golden factors [] = Inr []"
| "metric_checks parse_float entry block golden factors ((golden_key, result_key) # keys) =
     (case (map_of golden golden_key, map_of factors golden_key) of
        (Some g, Some fs) \<Rightarrow>
          (case (case measured_metric parse_float entry block result_key of
                   None \<Rightarrow> Inr \<lparr>ck_name = ''accuracy:'' @ result_key, ck_passed = False\<rparr>
                 | Some m \<Rightarrow>
                     (case fs of
                        [] \<Rightarrow> Inl IndexError
                      | f # _ \<Rightarrow> Inr \<lparr>ck_name = ''accuracy:'' @ result_key, ck_passed = float_ge m (g * f)\<rparr>)) of
             Inl e \<Rightarrow> Inl e
           | Inr c \<Rightarrow> map_sum id ((#) c) (metric_checks parse_float entry block golden factors keys))
      | _ \<Rightarrow> metric_checks parse_float entry block golden factors keys)"

definition check_accuracy ::
    "(string \<Rightarrow> pyfloat option) \<Rightarrow> pydict \<Rightarrow> (string \<times> rat) list \<Rightarrow> (string \<times> rat list) list \<Rightarrow> int option
     \<Rightarrow> check list result" where
  "check_accuracy parse_float results golden factors min_samples =
     (case find_accuracy_entry results of
        None \<Rightarrow> Inr [\<lparr>ck_name = ''accuracy_results_present'', ck_passed = False\<rparr>]
      | Some entry \<Rightarrow>
     (case as_dict (dget entry ''breakdown'') of
        None \<Rightarrow> Inr [\<lparr>ck_name = ''accuracy_results_present'', ck_passed = False\<rparr>]
      | Some block \<Rightarrow>
     (case metric_checks parse_float entry block golden factors ACCURACY_METRIC_KEYS of
        Inl e \<Rightarrow> Inl e
      | Inr checks \<Rightarrow>
          Inr (checks
            @ (if checks = [] then [\<lparr>ck_name = ''accuracy_metric_applicable'', ck_passed = False\<rparr>] else [])
            @ (case min_samples of
                 None \<Rightarrow> []
               | Some n \<Rightarrow>
                   [\<lparr>ck_name = ''min_sample_count'',
                     ck_passed = (case to_float parse_float (dget block ''total_samples'') of
                                    None \<Rightarrow> False | Some t \<Rightarrow> float_ge t (of_int n))\<rparr>])))))"

definition check_perf_validity :: "pydict \<Rightarrow> check list" where
  "check_perf_validity scores =
     (case as_dict (dget scores ''turns'') of
        None \<Rightarrow> [\<lparr>ck_name = ''perf_turns_present'', ck_passed = False\<rparr>]
      | Some turns \<Rightarrow>
          [\<lparr>ck_name = ''no_dropped_turns'', ck_passed = eq_int (dget turns ''missing'') 0\<rparr>,
           \<lparr>ck_name = ''all_turns_observed'',
            ck_passed = (\<not> is_none (dget turns ''expected'') \<and> py_eq (dget turns ''observed'') (dget turns ''expected''))\<rparr>])"

section \<open>A submission\<close>

definition os_error :: py_exc where "os_error = OtherException ''OSError''"

fun resolve_model :: "(bench_model \<times> 'a) list \<Rightarrow> string \<Rightarrow> (bench_model \<times> 'a) result" where
  "resolve_model [] name = Inl KeyError"
| "resolve_model ((m, rules) # rest) name = (if bm_name m = name then Inr (m, rules) else resolve_model rest name)"

text \<open>\<open>"turns" in json.loads(...)\<close>.\<close>

definition has_turns :: "pyval \<Rightarrow> bool result" where
  "has_turns v =
     (case v of
        PDict d \<Rightarrow> Inr (''turns'' \<in> fst ` set d)
      | PList xs \<Rightarrow> Inr (PStr ''turns'' \<in> set xs)
      | PStr s \<Rightarrow> Inr (\<exists>i\<in>{0..length s}. take 5 (drop i s) = ''turns'')
      | _ \<Rightarrow> Inl TypeError)"

text \<open>The three artifacts: \<open>config.yaml\<close> through the schema, and the two result files.\<close>

record submission =
  sb_config :: "pydict result option"
  sb_results :: "pyval result option"
  sb_scores :: "pyval result option"

definition config_checks :: "submission \<Rightarrow> check list result" where
  "config_checks s =
     (case sb_config s of
        None \<Rightarrow> Inr [\<lparr>ck_name = ''config_present'', ck_passed = False\<rparr>]
      | Some (Inl e) \<Rightarrow>
          (if e \<in> {ValueError, os_error} then Inr [\<lparr>ck_name = ''config_valid'', ck_passed = False\<rparr>] else Inl e)
      | Some (Inr config) \<Rightarrow> Inr (check_config_lock config))"

text \<open>The accuracy part, with whether accuracy evidence was found.\<close>

definition accuracy_checks ::
    "(string \<Rightarrow> pyfloat option) \<Rightarrow> (string \<times> rat) list \<Rightarrow> (string \<times> rat list) list \<Rightarrow> int option \<Rightarrow> submission
     \<Rightarrow> (check list \<times> bool) result" where
  "accuracy_checks parse_float golden factors min_samples s =
     (case sb_results s of
        None \<Rightarrow> Inr ([], False)
      | Some (Inl e) \<Rightarrow> Inl e
      | Some (Inr v) \<Rightarrow>
          (case as_dict v of
             None \<Rightarrow> Inl AttributeError
           | Some results \<Rightarrow>
               (if is_none (find_accuracy_breakdown results) then Inr ([], False)
                else map_sum id (\<lambda>cs. (cs, True)) (check_accuracy parse_float results golden factors min_samples))))"

definition scorer_checks :: "bool \<Rightarrow> submission \<Rightarrow> check list result" where
  "scorer_checks is_accuracy s =
     (let otherwise = Inr (if is_accuracy then [] else [\<lparr>ck_name = ''scorer_output_present'', ck_passed = False\<rparr>])
      in (case sb_scores s of
            None \<Rightarrow> otherwise
          | Some (Inl e) \<Rightarrow> Inl e
          | Some (Inr v) \<Rightarrow>
              (case has_turns v of
                 Inl e \<Rightarrow> Inl e
               | Inr False \<Rightarrow> otherwise
               | Inr True \<Rightarrow> (case as_dict v of None \<Rightarrow> Inl AttributeError | Some scores \<Rightarrow> Inr (check_perf_validity scores)))))"

definition check_submission ::
    "(string \<Rightarrow> pyfloat option) \<Rightarrow> string \<Rightarrow> string \<Rightarrow> submission \<Rightarrow> check list result" where
  "check_submission parse_float ruleset_name model_name s =
     (case get_ruleset ruleset_name ruleset_registry of
        Inl e \<Rightarrow> Inl e
      | Inr ruleset \<Rightarrow>
     (case resolve_model (rr_benchmark_rulesets ruleset) model_name of
        Inl e \<Rightarrow> Inl e
      | Inr (model, prios) \<Rightarrow>
     (case (bm_accuracy_target_settings model, prios) of
        ([], _) \<Rightarrow> Inl IndexError
      | (factors # _, []) \<Rightarrow> Inl StopIteration
      | (factors # _, (_, per_model) # _) \<Rightarrow>
     (case config_checks s of
        Inl e \<Rightarrow> Inl e
      | Inr c1 \<Rightarrow>
     (case accuracy_checks parse_float (snd (bm_golden_accuracy model)) factors (pm_min_sample_count_valid per_model) s of
        Inl e \<Rightarrow> Inl e
      | Inr (c2, is_accuracy) \<Rightarrow> map_sum id (\<lambda>c3. c1 @ c2 @ c3) (scorer_checks is_accuracy s))))))"

definition report_passed :: "check list \<Rightarrow> bool" where
  "report_passed checks = list_all ck_passed checks"

section \<open>What a passing edge submission shows\<close>

text \<open>The locked settings, stated on the configuration.\<close>

definition locked :: "pydict \<Rightarrow> bool" where
  "locked config =
     (let v = get_path (PDict config);
          unset_or = (\<lambda>p n. is_none (v p) \<or> eq_int (v p) n)
      in eq_int (v [''model_params'', ''temperature'']) 0
       \<and> unset_or [''model_params'', ''seed''] 42 \<and> unset_or [''settings'', ''runtime'', ''dataloader_random_seed''] 42
       \<and> (\<not> is_none (v [''model_params'', ''seed''])
            \<or> \<not> is_none (v [''settings'', ''runtime'', ''dataloader_random_seed'']))
       \<and> eq_int (v [''settings'', ''client'', ''num_workers'']) 1 \<and> eq_int (v [''settings'', ''client'', ''max_connections'']) 1
       \<and> unset_or [''settings'', ''load_pattern'', ''target_concurrency''] 1)"

lemma config_lock_passes: "list_all ck_passed (check_config_lock config) \<longleftrightarrow> locked config"
  by (auto simp: check_config_lock_def locked_def Let_def)

lemma first_breakdown_block:
  "first_breakdown es = Some entry \<Longrightarrow>
     \<exists>block. dget entry ''breakdown'' = PDict block \<and> ''subset_scores'' \<in> fst ` set block \<and> PDict entry \<in> set es"
  by (induction es) (auto simp: as_dict_def split: option.splits if_splits pyval.splits)

lemma accuracy_entry_block:
  assumes "find_accuracy_entry results = Some entry"
  obtains block where "dget entry ''breakdown'' = PDict block" "find_accuracy_breakdown results = PDict block"
proof -
  have "\<exists>block. dget entry ''breakdown'' = PDict block"
    using assms first_breakdown_block by (auto simp: find_accuracy_entry_def split: pyval.splits)
  with assms that show thesis by (auto simp: find_accuracy_breakdown_def)
qed

text \<open>A metric reaches a bound.\<close>

definition reaches :: "pyfloat option \<Rightarrow> rat \<Rightarrow> bool" where
  "reaches m q = (case m of None \<Rightarrow> False | Some f \<Rightarrow> float_ge f q)"

definition edge_gate :: "(string \<Rightarrow> pyfloat option) \<Rightarrow> pydict \<Rightarrow> pydict \<Rightarrow> bool" where
  "edge_gate parse_float entry block =
     (reaches (measured_metric parse_float entry block ''overall_accuracy'') (97 / 100 * (8623 / 100))
      \<and> reaches (measured_metric parse_float entry block ''normalized_single_turn_score'') (97 / 100 * (8796 / 100))
      \<and> reaches (to_float parse_float (dget block ''total_samples'')) 995)"

definition complete_turns :: "pyval \<Rightarrow> bool" where
  "complete_turns v =
     (\<exists>turns. v = PDict turns \<and> eq_int (dget turns ''missing'') 0
        \<and> \<not> is_none (dget turns ''expected'') \<and> py_eq (dget turns ''observed'') (dget turns ''expected''))"

text \<open>The accuracy evidence of a submission.\<close>

definition accuracy_evidence :: "submission \<Rightarrow> pydict option" where
  "accuracy_evidence s =
     (case sb_results s of Some (Inr (PDict results)) \<Rightarrow> find_accuracy_entry results | _ \<Rightarrow> None)"

definition turns_evidence :: "submission \<Rightarrow> pyval option" where
  "turns_evidence s = (case sb_scores s of Some (Inr (PDict scores)) \<Rightarrow> map_of scores ''turns'' | _ \<Rightarrow> None)"

text \<open>The result files are absent or hold a JSON object.\<close>

definition readable :: "submission \<Rightarrow> bool" where
  "readable s =
     ((\<forall>r. sb_results s = Some r \<longrightarrow> (\<exists>d. r = Inr (PDict d))) \<and> (\<forall>r. sb_scores s = Some r \<longrightarrow> (\<exists>d. r = Inr (PDict d))))"

lemma accuracy_part:
  assumes "readable s"
  shows "\<exists>cs. accuracy_checks parse_float [(''bfcl_overall_accuracy'', 8623 / 100), (''bfcl_normalized_accuracy'', 8796 / 100)]
      [(''bfcl_overall_accuracy'', [97 / 100]), (''bfcl_normalized_accuracy'', [97 / 100])] (Some 995) s
      = Inr (cs, accuracy_evidence s \<noteq> None)
    \<and> (list_all ck_passed cs \<longleftrightarrow>
        (\<forall>entry. accuracy_evidence s = Some entry \<longrightarrow> (\<exists>block. dget entry ''breakdown'' = PDict block \<and> edge_gate parse_float entry block)))"
proof (cases "accuracy_evidence s")
  case None
  then show ?thesis
    using assms by (auto simp: accuracy_checks_def readable_def accuracy_evidence_def as_dict_def find_accuracy_breakdown_def
        split: option.splits)
next
  case (Some entry)
  then obtain results where r: "sb_results s = Some (Inr (PDict results))" "find_accuracy_entry results = Some entry"
    by (auto simp: accuracy_evidence_def split: option.splits sum.splits pyval.splits)
  obtain block where b: "dget entry ''breakdown'' = PDict block" "find_accuracy_breakdown results = PDict block"
    using accuracy_entry_block [OF r(2)] .
  show ?thesis
    by (auto simp: accuracy_checks_def r b Some as_dict_def check_accuracy_def ACCURACY_METRIC_KEYS_def edge_gate_def reaches_def
        mult.commute split: option.splits)
qed

lemma scorer_part:
  assumes "readable s"
  shows "\<exists>cs. scorer_checks is_accuracy s = Inr cs
    \<and> (list_all ck_passed cs \<longleftrightarrow>
        (case turns_evidence s of None \<Rightarrow> is_accuracy | Some turns \<Rightarrow> complete_turns turns))"
proof (cases "turns_evidence s")
  case None
  then show ?thesis
    using assms by (auto simp: scorer_checks_def readable_def turns_evidence_def has_turns_def as_dict_def map_of_eq_None_iff
        split: option.splits bool.splits)
next
  case (Some turns)
  then obtain scores where r: "sb_scores s = Some (Inr (PDict scores))" "map_of scores ''turns'' = Some turns"
    by (auto simp: turns_evidence_def split: option.splits sum.splits pyval.splits)
  have "''turns'' \<in> fst ` set scores" using r(2) by (metis domI dom_map_of_conv_image_fst)
  then show ?thesis
    by (auto simp: scorer_checks_def r Some has_turns_def as_dict_def check_perf_validity_def dget_def [of scores]
        complete_turns_def split: pyval.splits)
qed

lemma edge_tables:
  "get_ruleset ''mlperf-edge-current'' ruleset_registry = Inr EDGE_CURRENT"
  "\<exists>rules. resolve_model (rr_benchmark_rulesets EDGE_CURRENT) ''qwen3.6-27b'' = Inr (Qwen3_6_27B, [(EDGE_SINGLE_STREAM, rules)])
     \<and> pm_min_sample_count_valid rules = Some 995"
  by (simp_all add: registry_entries get_ruleset_def EDGE_CURRENT_def Qwen3_6_27B_def)

text \<open>C25. With the default rules, a submission whose result files are absent or hold JSON objects is
  certified exactly when its configuration loads and is locked (temperature 0, at least one seed and every
  seed 42, one worker, one connection, concurrency 1 where set), every kind of evidence it holds is good
  (97 percent of both golden accuracies and 995 samples; no missing turn and every expected turn observed),
  and it holds evidence of at least one kind.\<close>

theorem edge_submission_certified:
  assumes "readable s"
  shows "(\<exists>checks. check_submission parse_float ''mlperf-edge-current'' ''qwen3.6-27b'' s = Inr checks \<and> report_passed checks)
    \<longleftrightarrow> (\<exists>config. sb_config s = Some (Inr config) \<and> locked config)
       \<and> (\<forall>entry. accuracy_evidence s = Some entry \<longrightarrow>
            (\<exists>block. dget entry ''breakdown'' = PDict block \<and> edge_gate parse_float entry block))
       \<and> (\<forall>turns. turns_evidence s = Some turns \<longrightarrow> complete_turns turns)
       \<and> (accuracy_evidence s \<noteq> None \<or> turns_evidence s \<noteq> None)"
proof -
  obtain rules where t: "resolve_model (rr_benchmark_rulesets EDGE_CURRENT) ''qwen3.6-27b'' = Inr (Qwen3_6_27B, [(EDGE_SINGLE_STREAM, rules)])"
    "pm_min_sample_count_valid rules = Some 995" using edge_tables(2) by blast
  have q: "snd (bm_golden_accuracy Qwen3_6_27B) = [(''bfcl_overall_accuracy'', 8623 / 100), (''bfcl_normalized_accuracy'', 8796 / 100)]"
    "bm_accuracy_target_settings Qwen3_6_27B = [[(''bfcl_overall_accuracy'', [97 / 100]), (''bfcl_normalized_accuracy'', [97 / 100])]]"
    by (simp_all add: Qwen3_6_27B_def)
  obtain c2 where c2: "accuracy_checks parse_float (snd (bm_golden_accuracy Qwen3_6_27B)) (hd (bm_accuracy_target_settings Qwen3_6_27B)) (Some 995) s
      = Inr (c2, accuracy_evidence s \<noteq> None)"
    "list_all ck_passed c2 \<longleftrightarrow> (\<forall>entry. accuracy_evidence s = Some entry \<longrightarrow>
        (\<exists>block. dget entry ''breakdown'' = PDict block \<and> edge_gate parse_float entry block))"
    using accuracy_part [OF assms, of parse_float] by (auto simp: q)
  obtain c3 where c3: "scorer_checks (accuracy_evidence s \<noteq> None) s = Inr c3"
    "list_all ck_passed c3 \<longleftrightarrow>
        (case turns_evidence s of None \<Rightarrow> accuracy_evidence s \<noteq> None | Some turns \<Rightarrow> complete_turns turns)"
    using scorer_part [OF assms] by blast
  have sub: "check_submission parse_float ''mlperf-edge-current'' ''qwen3.6-27b'' s
      = (case config_checks s of Inl e \<Rightarrow> Inl e | Inr c1 \<Rightarrow> Inr (c1 @ c2 @ c3))"
    using c2(1) c3(1) by (simp add: check_submission_def edge_tables(1) t q split: sum.split)
  have "(\<exists>c1. config_checks s = Inr c1 \<and> list_all ck_passed c1) \<longleftrightarrow> (\<exists>config. sb_config s = Some (Inr config) \<and> locked config)"
    by (auto simp: config_checks_def config_lock_passes split: option.splits sum.splits)
  then show ?thesis
    using c2(2) c3(2) by (auto simp: sub report_passed_def split: sum.splits option.splits)
qed

definition example_submission :: submission where
  "example_submission =
     \<lparr>sb_config = Some (Inr
        [(''model_params'', PDict [(''temperature'', PFloat (Fin 0)), (''seed'', PInt 42)]),
         (''settings'', PDict [(''client'', PDict [(''num_workers'', PInt 1), (''max_connections'', PInt 1)])])]),
      sb_results = Some (Inr (PDict
        [(''accuracy_scores'', PList [PDict
           [(''score'', PFloat (Fin 84)),
            (''breakdown'', PDict
              [(''subset_scores'', PDict []), (''normalized_single_turn_score'', PInt 86), (''total_samples'', PInt 995)])]])])),
      sb_scores = None\<rparr>"

lemma edge_submission_certified_witness:
  "\<exists>checks. check_submission (\<lambda>_. None) ''mlperf-edge-current'' ''qwen3.6-27b'' example_submission = Inr checks \<and> report_passed checks"
proof -
  have r: "readable example_submission" by (simp add: readable_def example_submission_def)
  have l: "\<exists>config. sb_config example_submission = Some (Inr config) \<and> locked config"
    by (simp add: example_submission_def locked_def Let_def as_dict_def eq_int_def)
  have e: "\<exists>entry. accuracy_evidence example_submission = Some entry"
    "accuracy_evidence example_submission = Some entry \<Longrightarrow>
       \<exists>block. dget entry ''breakdown'' = PDict block \<and> edge_gate (\<lambda>_. None) entry block" for entry
    by (auto simp: example_submission_def accuracy_evidence_def find_accuracy_entry_def dget_def as_dict_def edge_gate_def
        reaches_def measured_metric_def to_float_def float_ge_def)
  have t: "turns_evidence example_submission = None" by (simp add: example_submission_def turns_evidence_def)
  show ?thesis using edge_submission_certified [OF r, of "\<lambda>_. None"] l e t by simp
qed

section \<open>The weighted mean of the accuracy components\<close>

text \<open>IEEE arithmetic as far as the mean uses it; finite values are exact.\<close>

fun pf_add :: "pyfloat \<Rightarrow> pyfloat \<Rightarrow> pyfloat" where
  "pf_add (Fin a) (Fin b) = Fin (a + b)"
| "pf_add NaN _ = NaN"
| "pf_add _ NaN = NaN"
| "pf_add PosInf NegInf = NaN"
| "pf_add NegInf PosInf = NaN"
| "pf_add PosInf _ = PosInf"
| "pf_add NegInf _ = NegInf"
| "pf_add _ b = b"

text \<open>The product with a weight, which is positive or NaN.\<close>

fun pf_weigh :: "pyfloat \<Rightarrow> pyfloat \<Rightarrow> pyfloat" where
  "pf_weigh (Fin a) (Fin w) = Fin (a * w)"
| "pf_weigh NaN _ = NaN"
| "pf_weigh _ NaN = NaN"
| "pf_weigh (Fin a) PosInf = (if a = 0 then NaN else if 0 < a then PosInf else NegInf)"
| "pf_weigh a _ = a"

text \<open>The quotient by a sum of weights.\<close>

fun pf_quot :: "pyfloat \<Rightarrow> pyfloat \<Rightarrow> pyfloat" where
  "pf_quot (Fin a) (Fin w) = Fin (a / w)"
| "pf_quot NaN _ = NaN"
| "pf_quot _ NaN = NaN"
| "pf_quot (Fin a) PosInf = Fin 0"
| "pf_quot a (Fin w) = a"
| "pf_quot _ _ = NaN"

definition number_value :: "pyval \<Rightarrow> pyfloat option" where
  "number_value v = (case v of PInt n \<Rightarrow> Some (Fin (of_int n)) | PFloat f \<Rightarrow> Some f | _ \<Rightarrow> None)"

text \<open>What an entry contributes: its score and its weight; None when it is skipped.\<close>

definition contribution :: "pyval \<Rightarrow> (pyfloat \<times> pyfloat) option" where
  "contribution e =
     (case as_dict e of
        None \<Rightarrow> None
      | Some entry \<Rightarrow>
          (if dget entry ''dataset_type'' = PStr ''performance'' then None
           else (case number_value (dget entry ''score'') of
                   None \<Rightarrow> None
                 | Some score \<Rightarrow>
                     (if is_none (dget entry ''unit_samples'') then Some (score, Fin 1)
                      else (case number_value (dget entry ''unit_samples'') of
                              None \<Rightarrow> None
                            | Some w \<Rightarrow> (if w = NegInf \<or> (\<exists>q\<in>set_option (case w of Fin q \<Rightarrow> Some q | _ \<Rightarrow> None). q \<le> 0) then None
                                       else Some (score, w)))))))"

definition samples_weighted_average_accuracy :: "pyval list \<Rightarrow> pyfloat option" where
  "samples_weighted_average_accuracy accuracy_scores =
     (let (numerator, denominator) =
        foldl (\<lambda>(n, d) e. case contribution e of
                 None \<Rightarrow> (n, d) | Some (score, w) \<Rightarrow> (pf_add n (pf_weigh score w), pf_add d w))
          (Fin 0, Fin 0) accuracy_scores
      in if denominator = Fin 0 then None else Some (pf_quot numerator denominator))"

definition contributions :: "pyval list \<Rightarrow> (pyfloat \<times> pyfloat) list" where
  "contributions es = List.map_filter contribution es"

lemma contributions_simps [simp]:
  "contributions [] = []"
  "contributions (e # es) = (case contribution e of None \<Rightarrow> contributions es | Some c \<Rightarrow> c # contributions es)"
  by (simp_all add: contributions_def List.map_filter_simps split: option.split)

lemma contribution_weight: "contribution e = Some (score, Fin w) \<Longrightarrow> 0 < w"
  by (auto simp: contribution_def split: option.splits if_splits)

lemma contributions_weight: "(score, Fin w) \<in> set (contributions es) \<Longrightarrow> 0 < w"
  by (induction es) (auto split: option.splits dest: contribution_weight)

lemma mean_fold:
  assumes "list_all (\<lambda>(a, w). \<exists>x y. a = Fin x \<and> w = Fin y) (contributions es)"
  shows "\<exists>cs. contributions es = map (map_prod Fin Fin) cs
    \<and> foldl (\<lambda>(n, d) e. case contribution e of
          None \<Rightarrow> (n, d) | Some (score, w) \<Rightarrow> (pf_add n (pf_weigh score w), pf_add d w)) (Fin n, Fin d) es
      = (Fin (n + (\<Sum>(x, y)\<leftarrow>cs. x * y)), Fin (d + sum_list (map snd cs)))"
  using assms
proof (induction es arbitrary: n d)
  case Nil
  then show ?case by simp
next
  case (Cons e es)
  show ?case
  proof (cases "contribution e")
    case None
    with Cons show ?thesis by simp
  next
    case (Some c)
    with Cons.prems obtain x y where c: "c = (Fin x, Fin y)" by auto
    from Cons.IH [of "n + x * y" "d + y"] Cons.prems Some obtain cs where
      "contributions es = map (map_prod Fin Fin) cs"
      "foldl (\<lambda>(n, d) e. case contribution e of
          None \<Rightarrow> (n, d) | Some (score, w) \<Rightarrow> (pf_add n (pf_weigh score w), pf_add d w)) (Fin (n + x * y), Fin (d + y)) es
      = (Fin (n + x * y + (\<Sum>(x, y)\<leftarrow>cs. x * y)), Fin (d + y + sum_list (map snd cs)))" by auto
    then show ?thesis using Some c by (intro exI [of _ "(x, y) # cs"]) (simp add: add.assoc)
  qed
qed

lemma weighted_sum_bounds:
  fixes cs :: "(rat \<times> rat) list"
  assumes "\<forall>(x, y)\<in>set cs. 0 < y \<and> lo \<le> x \<and> x \<le> hi"
  shows "lo * sum_list (map snd cs) \<le> (\<Sum>(x, y)\<leftarrow>cs. x * y) \<and> (\<Sum>(x, y)\<leftarrow>cs. x * y) \<le> hi * sum_list (map snd cs)"
  using assms
proof (induction cs)
  case (Cons c cs)
  obtain x y where c: "c = (x, y)" by force
  with Cons.prems have "lo * y \<le> x * y" "x * y \<le> hi * y" by (auto intro: mult_right_mono)
  moreover from Cons have "lo * sum_list (map snd cs) \<le> (\<Sum>(x, y)\<leftarrow>cs. x * y)" "(\<Sum>(x, y)\<leftarrow>cs. x * y) \<le> hi * sum_list (map snd cs)"
    by simp_all
  ultimately show ?case by (simp add: c distrib_left add_mono)
qed simp

text \<open>The overall accuracy is the sample-weighted mean of the accuracy components: no component and there
  is none; otherwise, over finite scores and weights, it is the sum of score times weight over the sum of the
  weights, lies between the least and the greatest score, and takes nothing from performance entries.\<close>

theorem overall_accuracy_is_a_weighted_mean:
  assumes "contributions es = map (map_prod Fin Fin) cs"
  shows "(samples_weighted_average_accuracy es = None \<longleftrightarrow> cs = [])
    \<and> (cs \<noteq> [] \<longrightarrow> (\<exists>q. samples_weighted_average_accuracy es = Some (Fin q)
         \<and> q * sum_list (map snd cs) = (\<Sum>(x, y)\<leftarrow>cs. x * y)
         \<and> (\<forall>lo hi. (\<forall>x\<in>fst ` set cs. lo \<le> x \<and> x \<le> hi) \<longrightarrow> lo \<le> q \<and> q \<le> hi)))
    \<and> (\<forall>entry. dget entry ''dataset_type'' = PStr ''performance'' \<longrightarrow>
         samples_weighted_average_accuracy (PDict entry # es) = samples_weighted_average_accuracy es)"
proof -
  have inj: "cs' = cs" if "map (map_prod Fin Fin) cs' = map (map_prod Fin Fin) cs" for cs' :: "(rat \<times> rat) list"
    using that by (simp add: inj_map_eq_map prod.inj_map inj_on_def)
  have "list_all (\<lambda>(a, w). \<exists>x y. a = Fin x \<and> w = Fin y) (contributions es)"
    by (auto simp: assms list_all_iff)
  from mean_fold [OF this, of 0 0] inj assms have fold:
    "samples_weighted_average_accuracy es
      = (if sum_list (map snd cs) = 0 then None else Some (Fin ((\<Sum>(x, y)\<leftarrow>cs. x * y) / sum_list (map snd cs))))"
    by (auto simp: samples_weighted_average_accuracy_def)
  have pos: "0 < y" if "(x, y) \<in> set cs" for x y
    using contributions_weight [of "Fin x" y es] that by (force simp: assms)
  have total: "0 < sum_list (map snd cs)" if "cs \<noteq> []"
  proof -
    obtain x y cs' where cs: "cs = (x, y) # cs'" using \<open>cs \<noteq> []\<close> by (cases cs) auto
    have "0 \<le> sum_list (map snd cs')" using pos by (intro sum_list_nonneg) (force simp: cs intro: less_imp_le)
    then show ?thesis using pos [of x y] by (simp add: cs)
  qed
  define W where "W = sum_list (map snd cs)"
  have mean: "\<exists>q. samples_weighted_average_accuracy es = Some (Fin q) \<and> q * W = (\<Sum>(x, y)\<leftarrow>cs. x * y)
      \<and> (\<forall>lo hi. (\<forall>x\<in>fst ` set cs. lo \<le> x \<and> x \<le> hi) \<longrightarrow> lo \<le> q \<and> q \<le> hi)" if "cs \<noteq> []"
  proof -
    have W: "0 < W" using total that by (simp add: W_def)
    have bounds: "lo \<le> (\<Sum>(x, y)\<leftarrow>cs. x * y) / W \<and> (\<Sum>(x, y)\<leftarrow>cs. x * y) / W \<le> hi"
      if "\<forall>x\<in>fst ` set cs. lo \<le> x \<and> x \<le> hi" for lo hi
      using weighted_sum_bounds [of cs lo hi] pos that W by (fastforce simp: W_def pos_le_divide_eq pos_divide_le_eq)
    show ?thesis
      using W bounds by (intro exI [of _ "(\<Sum>(x, y)\<leftarrow>cs. x * y) / W"]) (auto simp: fold simp flip: W_def)
  qed
  have perf: "samples_weighted_average_accuracy (PDict entry # es) = samples_weighted_average_accuracy es"
    if "dget entry ''dataset_type'' = PStr ''performance''" for entry
    using that by (simp add: samples_weighted_average_accuracy_def contribution_def as_dict_def)
  have "samples_weighted_average_accuracy es = None \<longleftrightarrow> cs = []" using fold total by (cases cs) auto
  with mean perf show ?thesis by (simp add: W_def)
qed

definition example_scores :: "pyval list" where
  "example_scores =
     [PDict [(''score'', PFloat (Fin (9 / 10))), (''unit_samples'', PInt 30)],
      PDict [(''score'', PFloat (Fin (1 / 2))), (''unit_samples'', PInt 90)],
      PDict [(''score'', PFloat (Fin 1)), (''dataset_type'', PStr ''performance'')]]"

lemma overall_accuracy_is_a_weighted_mean_witness:
  "\<exists>q. samples_weighted_average_accuracy example_scores = Some (Fin q) \<and> q * 120 = 72"
proof -
  have c: "contributions example_scores = map (map_prod Fin Fin) [(9 / 10, 30), (1 / 2, 90)]"
    by (simp add: example_scores_def contribution_def as_dict_def dget_def number_value_def)
  show ?thesis using overall_accuracy_is_a_weighted_mean [OF c] by auto
qed

end
