(* ===== verification/BenchmarkConfig.thy ===== *)
theory BenchmarkConfig
  imports Rulesets PyValues
begin

text \<open>
  The validated configuration of a run: the models of \<open>config/schema.py\<close> with their validators, in the order
  pydantic runs them (the sub-models, then \<open>BenchmarkConfig\<close>'s own), the defaults they resolve and the seeds
  a submission is bound to.  A field no validator reads is kept where the run reads it and left out
  otherwise.  Dumping and re-parsing generation parameters is pydantic's: the arguments \<open>dump\<close> and \<open>parse\<close>.
  A rejected configuration is a \<open>ValueError\<close>.
\<close>

section \<open>Generation parameters and their per-dataset overrides\<close>

datatype streaming_mode = StreamAuto | StreamOn | StreamOff

record model_params =
  mp_name :: string
  mp_min_new_tokens :: int
  mp_max_new_tokens :: int
  mp_skip_special_tokens :: bool
  mp_streaming :: streaming_mode
  mp_tokenizer_name :: "string option"
  mp_knobs :: pydict

definition model_param_fields :: "string list" where
  "model_param_fields =
     [''name'', ''temperature'', ''seed'', ''top_k'', ''top_p'', ''repetition_penalty'', ''presence_penalty'',
      ''frequency_penalty'', ''chat_template_kwargs'', ''max_new_tokens'', ''min_new_tokens'', ''skip_special_tokens'',
      ''osl_distribution'', ''streaming'', ''tokenizer_name'']"

definition metrics_decoupled_override_keys :: "string list" where
  "metrics_decoupled_override_keys = [''name'', ''streaming'', ''tokenizer_name'']"

definition model_params_ok :: "model_params \<Rightarrow> bool" where
  "model_params_ok mp = (0 \<le> mp_min_new_tokens mp \<and> mp_min_new_tokens mp \<le> mp_max_new_tokens mp)"

definition non_default_completion_controls :: "model_params \<Rightarrow> string list" where
  "non_default_completion_controls mp =
     (if mp_min_new_tokens mp \<noteq> 1 then [''min_new_tokens''] else [])
     @ (if \<not> mp_skip_special_tokens mp then [''skip_special_tokens''] else [])"

text \<open>\<open>_deep_merge\<close>: the loop over the override, with the copy built so far.\<close>

function deep_merge :: "pydict \<Rightarrow> pydict \<Rightarrow> pydict" where
  "deep_merge out [] = out"
| "deep_merge out ((k, v) # override) =
     deep_merge (AList.update k
        (case v of
           PDict o' \<Rightarrow> (case map_of out k of Some (PDict b) \<Rightarrow> PDict (deep_merge b o') | _ \<Rightarrow> v)
         | _ \<Rightarrow> v) out) override"
  by pat_completeness auto

termination
  by (relation "measure (\<lambda>(out, override). size (PDict override))") auto

section \<open>Datasets\<close>

datatype dataset_type = PerformanceData | AccuracyData

record accuracy_config =
  ac_eval_method :: "string option"
  ac_num_repeats :: int
  ac_extras :: "pydict option"

record agentic_inference_config =
  ai_turn_timeout_s :: rat
  ai_routing_headers :: "string list"
  ai_num_trajectories :: "int option"

record dataset_config =
  dc_name :: string
  dc_type :: dataset_type
  dc_samples :: "int option"
  dc_override :: "pydict option"
  dc_accuracy :: "accuracy_config option"
  dc_agentic :: "agentic_inference_config option"

definition validate_override :: "dataset_config \<Rightarrow> bool" where
  "validate_override d =
     (case dc_override d of
        None \<Rightarrow> True
      | Some ov \<Rightarrow> set (map fst ov) \<subseteq> set model_param_fields
                   \<and> set (map fst ov) \<inter> set metrics_decoupled_override_keys = {})"

definition positive :: "('a :: linordered_idom) option \<Rightarrow> bool" where
  "positive v = (case v of None \<Rightarrow> True | Some x \<Rightarrow> 0 < x)"

definition dataset_config_ok :: "dataset_config \<Rightarrow> bool" where
  "dataset_config_ok d =
     (positive (dc_samples d)
      \<and> (case dc_accuracy d of None \<Rightarrow> True | Some a \<Rightarrow> 1 \<le> ac_num_repeats a)
      \<and> (case dc_agentic d of None \<Rightarrow> True | Some a \<Rightarrow> 0 < ai_turn_timeout_s a \<and> positive (ai_num_trajectories a))
      \<and> validate_override d)"

definition effective_generation_config ::
    "(model_params \<Rightarrow> pydict) \<Rightarrow> (pydict \<Rightarrow> model_params result) \<Rightarrow> dataset_config \<Rightarrow> model_params \<Rightarrow> model_params result" where
  "effective_generation_config dump parse d base =
     (case dc_override d of
        None \<Rightarrow> Inr base
      | Some ov \<Rightarrow> (if ov = [] then Inr base else parse (deep_merge (dump base) ov)))"

section \<open>Settings\<close>

record runtime_model =
  rm_min_issue_duration_ms :: "int option"
  rm_max_issue_duration_ms :: "int option"
  rm_n_samples_to_issue :: "int option"
  rm_scheduler_random_seed :: int
  rm_dataloader_random_seed :: int

definition runtime_model_ok :: "runtime_model \<Rightarrow> bool" where
  "runtime_model_ok r =
     (positive (rm_min_issue_duration_ms r) \<and> positive (rm_max_issue_duration_ms r) \<and> positive (rm_n_samples_to_issue r)
      \<and> (case (rm_max_issue_duration_ms r, rm_min_issue_duration_ms r) of
           (Some mx, Some mn) \<Rightarrow> \<not> mx < mn | _ \<Rightarrow> True))"

record warmup_config =
  wu_enabled :: bool
  wu_n_requests :: "int option"
  wu_salt :: bool
  wu_drain :: bool
  wu_random_seed :: int

record timeouts =
  to_run_s :: "rat option"
  to_idle_s :: "rat option"
  to_warmup_drain_s :: "rat option"
  to_performance_drain_s :: "rat option"
  to_accuracy_drain_s :: "rat option"
  to_metrics_drain_s :: "rat option"

definition timeouts_ok :: "timeouts \<Rightarrow> bool" where
  "timeouts_ok t =
     (positive (to_run_s t) \<and> positive (to_idle_s t) \<and> positive (to_warmup_drain_s t) \<and> positive (to_performance_drain_s t)
      \<and> positive (to_accuracy_drain_s t) \<and> positive (to_metrics_drain_s t))"

record settings =
  st_runtime :: runtime_model
  st_load_pattern :: load_pattern
  st_warmup :: warmup_config
  st_timeouts :: timeouts
  st_num_workers :: int
  st_max_connections :: int
  st_client_api_type :: string

text \<open>The sub-models, then \<open>_min_issue_duration_requires_qps\<close>.\<close>

definition settings_ok :: "settings \<Rightarrow> bool" where
  "settings_ok s =
     (runtime_model_ok (st_runtime s) \<and> is_ok (validate_load_pattern (st_load_pattern s))
      \<and> positive (wu_n_requests (st_warmup s)) \<and> timeouts_ok (st_timeouts s)
      \<and> \<not> (rm_min_issue_duration_ms (st_runtime s) \<noteq> None
           \<and> (lp_type (st_load_pattern s) \<noteq> POISSON \<or> lp_target_qps (st_load_pattern s) = None)))"

section \<open>The benchmark configuration\<close>

datatype test_type = OFFLINE | ONLINE | EVAL | SUBMISSION

fun test_type_value :: "test_type \<Rightarrow> string" where
  "test_type_value OFFLINE = ''offline''"
| "test_type_value ONLINE = ''online''"
| "test_type_value EVAL = ''eval''"
| "test_type_value SUBMISSION = ''submission''"

record submission_reference =
  sr_model :: string
  sr_ruleset :: string

record benchmark_config =
  bc_name :: string
  bc_type :: test_type
  bc_submission_ref :: "submission_reference option"
  bc_benchmark_mode :: "test_type option"
  bc_model_params :: model_params
  bc_datasets :: "dataset_config list"
  bc_settings :: settings
  bc_endpoints :: "string list"
  bc_api_type :: string

definition effective_mode :: "benchmark_config \<Rightarrow> test_type option" where
  "effective_mode c = (if bc_type c = SUBMISSION then bc_benchmark_mode c else Some (bc_type c))"

definition url_scheme_ok :: "string \<Rightarrow> bool" where
  "url_scheme_ok url = (take 7 url = ''http://'' \<or> take 8 url = ''https://'')"

text \<open>What the sub-models and the field types check before \<open>BenchmarkConfig\<close>'s own validators run.\<close>

definition fields_ok :: "benchmark_config \<Rightarrow> bool" where
  "fields_ok c =
     (model_params_ok (bc_model_params c) \<and> list_all dataset_config_ok (bc_datasets c) \<and> settings_ok (bc_settings c)
      \<and> bc_endpoints c \<noteq> [] \<and> list_all url_scheme_ok (bc_endpoints c)
      \<and> bc_benchmark_mode c \<in> {None, Some OFFLINE, Some ONLINE})"

text \<open>\<open>_resolve_and_validate\<close>, first part: the defaults.\<close>

definition resolve_params :: "benchmark_config \<Rightarrow> model_params" where
  "resolve_params c =
     (let mp = bc_model_params c;
          mp1 = (if mp_streaming mp = StreamAuto
                 then mp\<lparr>mp_streaming := (if effective_mode c = Some OFFLINE then StreamOff else StreamOn)\<rparr> else mp)
      in (case bc_submission_ref c of
            Some r \<Rightarrow> (if mp_name mp = '''' then mp1\<lparr>mp_name := sr_model r\<rparr> else mp1)
          | None \<Rightarrow> mp1))"

definition resolve_defaults :: "benchmark_config \<Rightarrow> benchmark_config" where
  "resolve_defaults c =
     c\<lparr>bc_name := (if bc_name c = '''' then test_type_value (bc_type c) @ ''_benchmark'' else bc_name c),
       bc_model_params := resolve_params c\<rparr>"

definition swe_bench :: "dataset_config \<Rightarrow> bool" where
  "swe_bench d = (case dc_accuracy d of None \<Rightarrow> False | Some a \<Rightarrow> ac_eval_method a = Some ''swe_bench_scorer'')"

text \<open>The effective parameters of the datasets that override, in order; the first error stops the dictionary.\<close>

fun effective_by_dataset ::
    "(model_params \<Rightarrow> pydict) \<Rightarrow> (pydict \<Rightarrow> model_params result) \<Rightarrow> model_params \<Rightarrow> dataset_config list
     \<Rightarrow> (dataset_config \<times> model_params) list result" where
  "effective_by_dataset dump parse mp [] = Inr []"
| "effective_by_dataset dump parse mp (d # ds) =
     (case effective_generation_config dump parse d mp of
        Inl e \<Rightarrow> Inl e
      | Inr eff \<Rightarrow> map_sum id ((#) (d, eff)) (effective_by_dataset dump parse mp ds))"

definition controls_ok :: "benchmark_config \<Rightarrow> (dataset_config \<times> model_params) list \<Rightarrow> bool" where
  "controls_ok c effs =
     (list_all (\<lambda>mp. non_default_completion_controls mp = [] \<or> bc_api_type c = ''openai_completions'')
        (bc_model_params c # map snd effs)
      \<and> list_all (\<lambda>(d, mp). dc_agentic d = None \<or> non_default_completion_controls mp = []) effs)"

definition has_agentic :: "dataset_type \<Rightarrow> benchmark_config \<Rightarrow> bool" where
  "has_agentic t c = (\<exists>d\<in>set (bc_datasets c). dc_type d = t \<and> dc_agentic d \<noteq> None)"

text \<open>The cross-model checks, in the code's order; all of them raise \<open>ValueError\<close>.\<close>

definition load_pattern_fits :: "benchmark_config \<Rightarrow> bool" where
  "load_pattern_fits c =
     (let t = lp_type (st_load_pattern (bc_settings c))
      in (if effective_mode c = Some OFFLINE then t = MAX_THROUGHPUT
          else if effective_mode c = Some ONLINE then t \<in> {POISSON, CONCURRENCY, AGENTIC_INFERENCE}
          else True)
         \<and> \<not> has_agentic AccuracyData c
         \<and> \<not> (t = AGENTIC_INFERENCE \<and> \<not> has_agentic PerformanceData c)
         \<and> \<not> (t = AGENTIC_INFERENCE \<and> rm_n_samples_to_issue (st_runtime (bc_settings c)) \<noteq> None)
         \<and> \<not> (has_agentic PerformanceData c \<and> t \<noteq> AGENTIC_INFERENCE))"

definition cross_checks :: "(model_params \<Rightarrow> pydict) \<Rightarrow> (pydict \<Rightarrow> model_params result) \<Rightarrow> benchmark_config \<Rightarrow> bool" where
  "cross_checks dump parse c =
     (mp_name (bc_model_params c) \<noteq> ''''
      \<and> \<not> ((\<exists>d\<in>set (bc_datasets c). swe_bench d) \<and> length (bc_endpoints c) \<noteq> 1)
      \<and> (case effective_by_dataset dump parse (bc_model_params c) (bc_datasets c) of
           Inl _ \<Rightarrow> False | Inr effs \<Rightarrow> controls_ok c effs)
      \<and> \<not> (bc_type c = SUBMISSION \<and> bc_benchmark_mode c = None)
      \<and> distinct (map (\<lambda>d. (dc_name d, dc_type d)) (bc_datasets c))
      \<and> load_pattern_fits c)"

text \<open>\<open>target_concurrency\<close> is forwarded as SWE-bench workers where none are given.\<close>

definition forwarded_concurrency :: "benchmark_config \<Rightarrow> int option" where
  "forwarded_concurrency c =
     (let lp = st_load_pattern (bc_settings c)
      in if lp_type lp \<in> {CONCURRENCY, AGENTIC_INFERENCE} then truthy_value (lp_target_concurrency lp) else None)"

definition forward_workers :: "int \<Rightarrow> dataset_config \<Rightarrow> dataset_config" where
  "forward_workers n d =
     (case dc_accuracy d of
        None \<Rightarrow> d
      | Some a \<Rightarrow>
          (let extras = (case ac_extras a of None \<Rightarrow> [] | Some e \<Rightarrow> e)
           in if swe_bench d \<and> is_none (dget extras ''workers'')
              then d\<lparr>dc_accuracy := Some (a\<lparr>ac_extras := Some (dmerge extras [(''workers'', PInt n)])\<rparr>)\<rparr>
              else d))"

definition resolve_workers :: "benchmark_config \<Rightarrow> benchmark_config" where
  "resolve_workers c =
     (case forwarded_concurrency c of None \<Rightarrow> c | Some n \<Rightarrow> c\<lparr>bc_datasets := map (forward_workers n) (bc_datasets c)\<rparr>)"

text \<open>\<open>_apply_ruleset_seed_overrides\<close>.\<close>

definition pin_seeds :: "int \<Rightarrow> int \<Rightarrow> settings \<Rightarrow> settings" where
  "pin_seeds sched sample s =
     s\<lparr>st_runtime := (st_runtime s)\<lparr>rm_scheduler_random_seed := sched, rm_dataloader_random_seed := sample\<rparr>,
       st_warmup := (st_warmup s)\<lparr>wu_random_seed := sample\<rparr>\<rparr>"

definition apply_ruleset_seed_overrides :: "benchmark_config \<Rightarrow> benchmark_config result" where
  "apply_ruleset_seed_overrides c =
     (case bc_submission_ref c of
        None \<Rightarrow> Inr c
      | Some ref \<Rightarrow>
          (case get_ruleset (sr_ruleset ref) ruleset_registry of
             Inl e \<Rightarrow> Inl (if e = KeyError then ValueError else e)
           | Inr r \<Rightarrow>
               (case (rr_scheduler_rng_seed r, rr_sample_index_rng_seed r) of
                  (Some sched, Some sample) \<Rightarrow> Inr (c\<lparr>bc_settings := pin_seeds sched sample (bc_settings c)\<rparr>)
                | _ \<Rightarrow> Inl ValueError)))"

definition propagate_client_api_type :: "benchmark_config \<Rightarrow> benchmark_config" where
  "propagate_client_api_type c = c\<lparr>bc_settings := (bc_settings c)\<lparr>st_client_api_type := bc_api_type c\<rparr>\<rparr>"

definition validate_config ::
    "(model_params \<Rightarrow> pydict) \<Rightarrow> (pydict \<Rightarrow> model_params result) \<Rightarrow> benchmark_config \<Rightarrow> benchmark_config result" where
  "validate_config dump parse c0 =
     (if \<not> fields_ok c0 then Inl ValueError
      else
        (let c = resolve_defaults c0
         in if \<not> cross_checks dump parse c then Inl ValueError
            else map_sum id propagate_client_api_type (apply_ruleset_seed_overrides (resolve_workers c))))"

definition get_benchmark_mode :: "benchmark_config \<Rightarrow> test_type option" where
  "get_benchmark_mode c =
     (if bc_type c \<in> {OFFLINE, ONLINE} then Some (bc_type c)
      else if bc_type c = SUBMISSION then bc_benchmark_mode c else None)"

definition get_single_dataset :: "benchmark_config \<Rightarrow> dataset_config option" where
  "get_single_dataset c =
     (case filter (\<lambda>d. dc_type d = PerformanceData) (bc_datasets c) of
        d # _ \<Rightarrow> Some d
      | [] \<Rightarrow> (case bc_datasets c of [] \<Rightarrow> None | d # _ \<Rightarrow> Some d))"

section \<open>Resolved values stay\<close>

lemma forward_workers_fields [simp]:
  "dc_name (forward_workers n d) = dc_name d" "dc_type (forward_workers n d) = dc_type d"
  "dc_override (forward_workers n d) = dc_override d" "dc_agentic (forward_workers n d) = dc_agentic d"
  "dc_samples (forward_workers n d) = dc_samples d" "swe_bench (forward_workers n d) = swe_bench d"
  by (simp_all add: forward_workers_def swe_bench_def Let_def split: option.split)

lemma workers_forwarded: "map_of (dmerge d [(k, v)]) k = Some v"
  by (simp add: map_of_dmerge)

lemma forward_workers_idem [simp]: "forward_workers n (forward_workers n d) = forward_workers n d"
proof (cases "dc_accuracy d")
  case (Some a)
  have "dget (dmerge e [(''workers'', PInt n)]) ''workers'' = PInt n" for e
    by (simp add: dget_def workers_forwarded)
  then show ?thesis using Some by (simp add: forward_workers_def swe_bench_def Let_def)
qed (simp add: forward_workers_def)

lemma forward_workers_ok [simp]: "dataset_config_ok (forward_workers n d) = dataset_config_ok d"
  by (simp add: dataset_config_ok_def validate_override_def) (simp add: forward_workers_def Let_def split: option.split)

lemma forward_workers_effective [simp]:
  "effective_generation_config dump parse (forward_workers n d) mp = effective_generation_config dump parse d mp"
  by (simp add: effective_generation_config_def)

lemma forward_workers_effective_by:
  "effective_by_dataset dump parse mp (map (forward_workers n) ds)
    = map_sum id (map (map_prod (forward_workers n) id)) (effective_by_dataset dump parse mp ds)"
  by (induction ds) (auto simp: sum.map_comp comp_def split: sum.split)

text \<open>What a resolved configuration satisfies, apart from the seeds.\<close>

definition resolved :: "benchmark_config \<Rightarrow> bool" where
  "resolved c = (bc_name c \<noteq> '''' \<and> mp_streaming (bc_model_params c) \<noteq> StreamAuto \<and> mp_name (bc_model_params c) \<noteq> '''')"

lemma resolve_params_resolved: "mp_streaming (bc_model_params c) \<noteq> StreamAuto \<Longrightarrow> mp_name (bc_model_params c) \<noteq> '''' \<Longrightarrow>
    resolve_params c = bc_model_params c"
  by (simp add: resolve_params_def Let_def split: option.split)

lemma resolve_defaults_resolved: "resolved c \<Longrightarrow> resolve_defaults c = c"
  by (simp add: resolve_defaults_def resolved_def resolve_params_resolved)

lemma resolve_defaults_resolves:
  "mp_name (bc_model_params (resolve_defaults c)) \<noteq> '''' \<Longrightarrow> resolved (resolve_defaults c)"
  by (cases "bc_type c") (auto simp: resolve_defaults_def resolved_def resolve_params_def Let_def split: option.splits if_splits)

lemma resolve_defaults_fields [simp]:
  "bc_datasets (resolve_defaults c) = bc_datasets c" "bc_settings (resolve_defaults c) = bc_settings c"
  "bc_endpoints (resolve_defaults c) = bc_endpoints c" "bc_api_type (resolve_defaults c) = bc_api_type c"
  "bc_type (resolve_defaults c) = bc_type c" "bc_benchmark_mode (resolve_defaults c) = bc_benchmark_mode c"
  "bc_submission_ref (resolve_defaults c) = bc_submission_ref c" "effective_mode (resolve_defaults c) = effective_mode c"
  by (simp_all add: resolve_defaults_def effective_mode_def)

lemma resolve_defaults_params_ok [simp]:
  "model_params_ok (bc_model_params (resolve_defaults c)) = model_params_ok (bc_model_params c)"
  by (simp add: resolve_defaults_def resolve_params_def model_params_ok_def Let_def split: option.split)

lemma pin_seeds_fields [simp]:
  "st_load_pattern (pin_seeds a b s) = st_load_pattern s" "st_timeouts (pin_seeds a b s) = st_timeouts s"
  "rm_n_samples_to_issue (st_runtime (pin_seeds a b s)) = rm_n_samples_to_issue (st_runtime s)"
  "settings_ok (pin_seeds a b s) = settings_ok s" "pin_seeds a b (pin_seeds a b s) = pin_seeds a b s"
  by (simp_all add: pin_seeds_def settings_ok_def runtime_model_ok_def)

lemma settings_ok_api [simp]: "settings_ok (s\<lparr>st_client_api_type := a\<rparr>) = settings_ok s"
  by (simp add: settings_ok_def)

text \<open>The seeded settings: \<open>None\<close> seeds nothing.\<close>

definition seeded :: "(int \<times> int) option \<Rightarrow> settings \<Rightarrow> settings" where
  "seeded p s = (case p of None \<Rightarrow> s | Some (a, b) \<Rightarrow> pin_seeds a b s)"

definition pinned_seeds :: "benchmark_config \<Rightarrow> (int \<times> int) option result" where
  "pinned_seeds c =
     (case bc_submission_ref c of
        None \<Rightarrow> Inr None
      | Some ref \<Rightarrow>
          (case get_ruleset (sr_ruleset ref) ruleset_registry of
             Inl e \<Rightarrow> Inl (if e = KeyError then ValueError else e)
           | Inr r \<Rightarrow>
               (case (rr_scheduler_rng_seed r, rr_sample_index_rng_seed r) of
                  (Some sched, Some sample) \<Rightarrow> Inr (Some (sched, sample)) | _ \<Rightarrow> Inl ValueError)))"

lemma apply_seeds:
  "apply_ruleset_seed_overrides c = map_sum id (\<lambda>p. c\<lparr>bc_settings := seeded p (bc_settings c)\<rparr>) (pinned_seeds c)"
  by (simp add: apply_ruleset_seed_overrides_def pinned_seeds_def seeded_def split: option.split sum.split)

lemma seeded_fields [simp]:
  "st_load_pattern (seeded p s) = st_load_pattern s" "settings_ok (seeded p s) = settings_ok s"
  "rm_n_samples_to_issue (st_runtime (seeded p s)) = rm_n_samples_to_issue (st_runtime s)" "seeded p (seeded p s) = seeded p s"
  by (simp_all add: seeded_def split: option.split prod.split)

lemma seeded_api [simp]:
  "seeded p (s\<lparr>st_client_api_type := a\<rparr>) = (seeded p s)\<lparr>st_client_api_type := a\<rparr>"
  by (simp add: seeded_def pin_seeds_def split: option.split prod.split)

text \<open>A validated configuration, taken apart.\<close>

definition with_resolved :: "benchmark_config \<Rightarrow> dataset_config list \<Rightarrow> (int \<times> int) option \<Rightarrow> benchmark_config" where
  "with_resolved d ds p =
     d\<lparr>bc_datasets := ds, bc_settings := (seeded p (bc_settings d))\<lparr>st_client_api_type := bc_api_type d\<rparr>\<rparr>"

lemma resolve_workers_datasets:
  "resolve_workers c = c\<lparr>bc_datasets := bc_datasets (resolve_workers c)\<rparr>"
  by (simp add: resolve_workers_def split: option.split)

lemma pinned_seeds_cong: "bc_submission_ref c = bc_submission_ref d \<Longrightarrow> pinned_seeds c = pinned_seeds d"
  by (simp add: pinned_seeds_def)

lemma resolve_workers_ref [simp]:
  "bc_submission_ref (resolve_workers c) = bc_submission_ref c" "bc_settings (resolve_workers c) = bc_settings c"
  "bc_api_type (resolve_workers c) = bc_api_type c"
  by (simp_all add: resolve_workers_def split: option.split)

lemma finish_config:
  "map_sum id propagate_client_api_type (apply_ruleset_seed_overrides (resolve_workers d))
    = map_sum id (with_resolved d (bc_datasets (resolve_workers d))) (pinned_seeds d)"
proof -
  have seeds: "pinned_seeds (resolve_workers d) = pinned_seeds d" by (rule pinned_seeds_cong) simp
  have "propagate_client_api_type ((resolve_workers d)\<lparr>bc_settings := seeded p (bc_settings d)\<rparr>)
      = with_resolved d (bc_datasets (resolve_workers d)) p" for p
    by (subst resolve_workers_datasets) (simp add: propagate_client_api_type_def with_resolved_def)
  then show ?thesis by (cases "pinned_seeds d") (simp_all add: apply_seeds seeds)
qed

lemma validate_config_cases:
  "validate_config dump parse c0 =
     (if fields_ok c0 \<and> cross_checks dump parse (resolve_defaults c0)
      then map_sum id (with_resolved (resolve_defaults c0) (bc_datasets (resolve_workers (resolve_defaults c0)))) (pinned_seeds c0)
      else Inl ValueError)"
proof -
  have "pinned_seeds (resolve_defaults c0) = pinned_seeds c0" by (rule pinned_seeds_cong) simp
  then show ?thesis by (simp add: validate_config_def Let_def finish_config)
qed

lemma with_resolved_fields [simp]:
  "bc_datasets (with_resolved d ds p) = ds" "bc_model_params (with_resolved d ds p) = bc_model_params d"
  "bc_name (with_resolved d ds p) = bc_name d" "bc_type (with_resolved d ds p) = bc_type d"
  "bc_benchmark_mode (with_resolved d ds p) = bc_benchmark_mode d" "bc_api_type (with_resolved d ds p) = bc_api_type d"
  "bc_endpoints (with_resolved d ds p) = bc_endpoints d" "bc_submission_ref (with_resolved d ds p) = bc_submission_ref d"
  "bc_settings (with_resolved d ds p) = (seeded p (bc_settings d))\<lparr>st_client_api_type := bc_api_type d\<rparr>"
  "effective_mode (with_resolved d ds p) = effective_mode d"
  by (simp_all add: with_resolved_def effective_mode_def)

lemma controls_ok_forward [simp]:
  "controls_ok (with_resolved d ds p) (map (map_prod (forward_workers n) id) effs) = controls_ok d effs"
  by (simp add: controls_ok_def list_all_iff case_prod_beta)

lemma controls_ok_with [simp]: "controls_ok (with_resolved d ds p) effs = controls_ok d effs"
  by (simp add: controls_ok_def)

lemma has_agentic_forward [simp]:
  "has_agentic t (with_resolved d (map (forward_workers n) (bc_datasets d)) p) = has_agentic t d"
  "has_agentic t (with_resolved d (bc_datasets d) p) = has_agentic t d"
  by (simp_all add: has_agentic_def)

lemma workers_of:
  obtains "bc_datasets (resolve_workers d) = bc_datasets d" "forwarded_concurrency d = None"
  | n where "bc_datasets (resolve_workers d) = map (forward_workers n) (bc_datasets d)" "forwarded_concurrency d = Some n"
  by (cases "forwarded_concurrency d") (simp_all add: resolve_workers_def)

lemma cross_checks_resolved:
  "cross_checks dump parse (with_resolved d (bc_datasets (resolve_workers d)) p) = cross_checks dump parse d"
proof (rule workers_of [of d])
  assume "bc_datasets (resolve_workers d) = bc_datasets d"
  moreover have "(case r of Inl _ \<Rightarrow> False | Inr effs \<Rightarrow> controls_ok (with_resolved d (bc_datasets d) p) effs)
      = (case r of Inl _ \<Rightarrow> False | Inr effs \<Rightarrow> controls_ok d effs)" for r :: "(dataset_config \<times> model_params) list result"
    by (cases r) simp_all
  ultimately show ?thesis by (simp add: cross_checks_def load_pattern_fits_def)
next
  fix n assume ds: "bc_datasets (resolve_workers d) = map (forward_workers n) (bc_datasets d)"
  have "(case map_sum id (map (map_prod (forward_workers n) id)) r of Inl _ \<Rightarrow> False
      | Inr effs \<Rightarrow> controls_ok (with_resolved d (map (forward_workers n) (bc_datasets d)) p) effs)
    = (case r of Inl _ \<Rightarrow> False | Inr effs \<Rightarrow> controls_ok d effs)" for r :: "(dataset_config \<times> model_params) list result"
    by (cases r) (simp_all del: controls_ok_with)
  then show ?thesis
    by (simp add: ds cross_checks_def load_pattern_fits_def forward_workers_effective_by comp_def)
qed

lemma resolve_workers_stable:
  "bc_datasets (resolve_workers (with_resolved d (bc_datasets (resolve_workers d)) p)) = bc_datasets (resolve_workers d)"
proof -
  have f: "forwarded_concurrency (with_resolved d ds p) = forwarded_concurrency d" for ds
    by (simp add: forwarded_concurrency_def)
  show ?thesis by (rule workers_of [of d]) (simp_all add: resolve_workers_def f comp_def)
qed

lemma fields_ok_resolved:
  "fields_ok c0 \<Longrightarrow> fields_ok (with_resolved (resolve_defaults c0) (bc_datasets (resolve_workers (resolve_defaults c0))) p)"
  by (rule workers_of [of "resolve_defaults c0"]) (simp_all add: fields_ok_def list_all_iff)

lemma with_resolved_idem:
  "with_resolved (with_resolved d ds p) ds p = with_resolved d ds p"
  by (simp add: with_resolved_def)

section \<open>What an accepted configuration guarantees\<close>

text \<open>The load pattern has the target its strategy needs.\<close>

definition has_target :: "load_pattern \<Rightarrow> bool" where
  "has_target lp =
     (case lp_type lp of
        MAX_THROUGHPUT \<Rightarrow> True
      | POISSON \<Rightarrow> (\<exists>q. lp_target_qps lp = Some q \<and> 0 < q)
      | CONCURRENCY \<Rightarrow> (\<exists>n. lp_target_concurrency lp = Some n \<and> 0 < n)
      | AGENTIC_INFERENCE \<Rightarrow> (\<exists>n. lp_target_concurrency lp = Some n \<and> 0 < n)
      | _ \<Rightarrow> False)"

lemma validated_target:
  assumes "validate_load_pattern lp = Inr lp'" and "lp_type lp \<in> {MAX_THROUGHPUT, POISSON, CONCURRENCY, AGENTIC_INFERENCE}"
  shows "has_target lp"
  using assms by (auto simp: validate_load_pattern_def has_target_def split: if_splits option.splits)

lemma accepted_config:
  assumes "validate_config dump parse c0 = Inr c"
  obtains d p where "fields_ok c0" "pinned_seeds c0 = Inr p" "d = resolve_defaults c0"
    "c = with_resolved d (bc_datasets (resolve_workers d)) p" "fields_ok c" "cross_checks dump parse c" "resolved c"
    "pinned_seeds c = Inr p"
proof -
  define d where "d = resolve_defaults c0"
  obtain p where ok: "fields_ok c0" "cross_checks dump parse d" "pinned_seeds c0 = Inr p"
    and c: "c = with_resolved d (bc_datasets (resolve_workers d)) p"
    using assms by (cases "pinned_seeds c0") (auto simp: validate_config_cases d_def split: if_splits)
  have "resolved d"
    unfolding d_def by (rule resolve_defaults_resolves) (use ok(2) in \<open>simp add: cross_checks_def d_def\<close>)
  then have "resolved c" by (simp add: c resolved_def)
  moreover have "cross_checks dump parse c" using ok(2) by (simp add: c cross_checks_resolved)
  moreover have "fields_ok c" using fields_ok_resolved [OF ok(1)] by (simp add: c d_def)
  moreover have "pinned_seeds c = Inr p" using ok(3) pinned_seeds_cong [of c c0] by (simp add: c d_def)
  ultimately show thesis using that ok c d_def by blast
qed

lemma accepted_load_pattern:
  assumes "validate_config dump parse c0 = Inr c"
  shows "settings_ok (bc_settings c)" "load_pattern_fits c"
    "effective_mode c \<in> {Some OFFLINE, Some ONLINE} \<Longrightarrow> has_target (st_load_pattern (bc_settings c))"
    "lp_type (st_load_pattern (bc_settings c)) = AGENTIC_INFERENCE \<longleftrightarrow> has_agentic PerformanceData c"
proof -
  obtain d p where "fields_ok c" "cross_checks dump parse c" by (rule accepted_config [OF assms])
  then show ok: "settings_ok (bc_settings c)" "load_pattern_fits c" by (simp_all add: fields_ok_def cross_checks_def)
  then obtain lp' where lp: "validate_load_pattern (st_load_pattern (bc_settings c)) = Inr lp'"
    by (auto simp: settings_ok_def is_ok_iff)
  show "has_target (st_load_pattern (bc_settings c))" if "effective_mode c \<in> {Some OFFLINE, Some ONLINE}"
    using ok(2) lp validated_target [OF lp] that by (auto simp: load_pattern_fits_def Let_def split: if_splits)
  show "lp_type (st_load_pattern (bc_settings c)) = AGENTIC_INFERENCE \<longleftrightarrow> has_agentic PerformanceData c"
    using ok(2) by (auto simp: load_pattern_fits_def Let_def)
qed

text \<open>C26. An accepted configuration is complete and consistent, and validating it again changes nothing, so
  every later update of a part of it starts from the same state: the model is named and streaming is
  decided; an offline run is a burst, an online run has a load pattern with its target, and the agentic
  pattern is used exactly when a performance dataset holds conversations; no two datasets share name and
  type; and a submission runs, warmup included, under the seeds of the registered round it names.\<close>

theorem accepted_config_is_stable_and_coherent:
  assumes "validate_config dump parse c0 = Inr c"
  shows "validate_config dump parse c = Inr c
    \<and> mp_name (bc_model_params c) \<noteq> '''' \<and> mp_streaming (bc_model_params c) \<noteq> StreamAuto
    \<and> distinct (map (\<lambda>d. (dc_name d, dc_type d)) (bc_datasets c))
    \<and> (effective_mode c = Some OFFLINE \<longrightarrow> lp_type (st_load_pattern (bc_settings c)) = MAX_THROUGHPUT)
    \<and> (effective_mode c \<in> {Some OFFLINE, Some ONLINE} \<longrightarrow> has_target (st_load_pattern (bc_settings c)))
    \<and> (lp_type (st_load_pattern (bc_settings c)) = AGENTIC_INFERENCE \<longleftrightarrow> has_agentic PerformanceData c)
    \<and> (\<forall>ref. bc_submission_ref c = Some ref \<longrightarrow>
         (\<exists>r. (sr_ruleset ref, r) \<in> set ruleset_registry
            \<and> rr_scheduler_rng_seed r = Some (rm_scheduler_random_seed (st_runtime (bc_settings c)))
            \<and> rr_sample_index_rng_seed r = Some (rm_dataloader_random_seed (st_runtime (bc_settings c)))
            \<and> wu_random_seed (st_warmup (bc_settings c)) = rm_dataloader_random_seed (st_runtime (bc_settings c))))"
proof -
  obtain d p where c: "d = resolve_defaults c0" "c = with_resolved d (bc_datasets (resolve_workers d)) p"
    and ok: "fields_ok c" "cross_checks dump parse c" "resolved c" "pinned_seeds c = Inr p"
    by (rule accepted_config [OF assms])
  have "bc_datasets (resolve_workers c) = bc_datasets (resolve_workers d)"
    unfolding c(2) by (rule resolve_workers_stable)
  then have "with_resolved c (bc_datasets (resolve_workers c)) p = c" by (simp add: c(2) with_resolved_idem)
  then have stable: "validate_config dump parse c = Inr c"
    using ok resolve_defaults_resolved [OF ok(3)] by (simp add: validate_config_cases)
  have fits: "load_pattern_fits c" and dist: "distinct (map (\<lambda>d. (dc_name d, dc_type d)) (bc_datasets c))"
    using ok(2) by (simp_all add: cross_checks_def)
  have seeds: "\<exists>r. (sr_ruleset ref, r) \<in> set ruleset_registry
      \<and> rr_scheduler_rng_seed r = Some (rm_scheduler_random_seed (st_runtime (bc_settings c)))
      \<and> rr_sample_index_rng_seed r = Some (rm_dataloader_random_seed (st_runtime (bc_settings c)))
      \<and> wu_random_seed (st_warmup (bc_settings c)) = rm_dataloader_random_seed (st_runtime (bc_settings c))"
    if ref: "bc_submission_ref c = Some ref" for ref
  proof -
    obtain r a b where r: "get_ruleset (sr_ruleset ref) ruleset_registry = Inr r" "rr_scheduler_rng_seed r = Some a"
      "rr_sample_index_rng_seed r = Some b" "p = Some (a, b)"
      using ok(4) ref by (auto simp: pinned_seeds_def split: sum.splits option.splits if_splits)
    moreover have "(sr_ruleset ref, r) \<in> set ruleset_registry"
      using r(1) by (auto simp: get_ruleset_def split: option.splits dest: map_of_SomeD)
    ultimately show ?thesis by (auto simp: c(2) seeded_def pin_seeds_def)
  qed
  show ?thesis
    using stable ok(3) dist fits accepted_load_pattern(3,4) [OF assms] seeds
    by (auto simp: resolved_def load_pattern_fits_def Let_def split: if_splits)
qed

text \<open>Generation parameters dumped and parsed without an override.\<close>

definition example_config :: benchmark_config where
  "example_config =
     \<lparr>bc_name = '''', bc_type = SUBMISSION,
      bc_submission_ref = Some \<lparr>sr_model = ''qwen3.6-27b'', sr_ruleset = ''mlperf-edge-current''\<rparr>,
      bc_benchmark_mode = Some ONLINE,
      bc_model_params = \<lparr>mp_name = '''', mp_min_new_tokens = 1, mp_max_new_tokens = 1024, mp_skip_special_tokens = True,
        mp_streaming = StreamAuto, mp_tokenizer_name = None, mp_knobs = []\<rparr>,
      bc_datasets = [\<lparr>dc_name = ''perf'', dc_type = PerformanceData, dc_samples = None, dc_override = None,
        dc_accuracy = None, dc_agentic = None\<rparr>],
      bc_settings =
        \<lparr>st_runtime = \<lparr>rm_min_issue_duration_ms = None, rm_max_issue_duration_ms = None, rm_n_samples_to_issue = None,
           rm_scheduler_random_seed = 7, rm_dataloader_random_seed = 7\<rparr>,
         st_load_pattern = \<lparr>lp_type = CONCURRENCY, lp_target_qps = None, lp_target_concurrency = Some 1\<rparr>,
         st_warmup = \<lparr>wu_enabled = False, wu_n_requests = None, wu_salt = False, wu_drain = False, wu_random_seed = 7\<rparr>,
         st_timeouts = \<lparr>to_run_s = None, to_idle_s = None, to_warmup_drain_s = Some 240, to_performance_drain_s = None,
           to_accuracy_drain_s = None, to_metrics_drain_s = None\<rparr>,
         st_num_workers = 1, st_max_connections = 1, st_client_api_type = ''openai''\<rparr>,
      bc_endpoints = [''http://localhost:8000''], bc_api_type = ''openai''\<rparr>"

lemma accepted_config_is_stable_and_coherent_witness:
  "\<exists>c. validate_config (\<lambda>_. []) (\<lambda>_. Inl ValueError) example_config = Inr c
     \<and> validate_config (\<lambda>_. []) (\<lambda>_. Inl ValueError) c = Inr c
     \<and> rm_scheduler_random_seed (st_runtime (bc_settings c)) = 42"
proof -
  obtain c where c: "validate_config (\<lambda>_. []) (\<lambda>_. Inl ValueError) example_config = Inr c"
    "bc_submission_ref c = Some \<lparr>sr_model = ''qwen3.6-27b'', sr_ruleset = ''mlperf-edge-current''\<rparr>"
    by (simp add: validate_config_def example_config_def fields_ok_def model_params_ok_def dataset_config_ok_def positive_def
        validate_override_def settings_ok_def runtime_model_ok_def validate_load_pattern_def timeouts_ok_def url_scheme_ok_def
        resolve_defaults_def resolve_params_def effective_mode_def Let_def cross_checks_def swe_bench_def
        effective_generation_config_def controls_ok_def non_default_completion_controls_def load_pattern_fits_def has_agentic_def
        resolve_workers_def forwarded_concurrency_def truthy_value_def forward_workers_def apply_ruleset_seed_overrides_def
        get_ruleset_def registry_entries EDGE_CURRENT_def propagate_client_api_type_def)
  have "(''mlperf-edge-current'', r) \<in> set ruleset_registry \<longleftrightarrow> r = EDGE_CURRENT" for r
    by (auto simp: registry_entries)
  then show ?thesis
    using accepted_config_is_stable_and_coherent [OF c(1)] c by (auto simp: EDGE_CURRENT_def)
qed

end
