(* ===== verification/BenchmarkPhases.thy ===== *)
theory BenchmarkPhases
  imports BenchmarkConfig OutputCaching Session Agentic
begin

text \<open>
  From a validated configuration to the phases of a session: \<open>setup_benchmark\<close> and \<open>_build_phases\<close> of
  \<open>commands/benchmark/execute.py\<close>.  Loading the data is the factory's; a loaded performance dataset comes
  with its conversation metadata when it is agentic, an accuracy dataset with its scorer's flags.
  \<open>random.Random\<close> of a seed is the argument \<open>rng_of\<close>; a generator in the settings of two phases is one
  shared object in the program, of which the settings hold the state at set-up.
\<close>

section \<open>Loaded data\<close>

datatype test_mode = PERF_MODE | ACC_MODE | BOTH_MODE

definition loaded_samples :: "dataset \<Rightarrow> int" where
  "loaded_samples ds = (case ds_data ds of Some xs \<Rightarrow> int (length xs) | None \<Rightarrow> 0)"

record perf_loader =
  pl_dataset :: dataset
  pl_turns :: "int list option"
  pl_conversations :: "(int \<times> int) option"

record accuracy_configuration =
  ev_name :: string
  ev_skip_endpoint :: bool
  ev_type :: dataset_type
  ev_dataset :: dataset
  ev_repeats :: int
  ev_agentic :: bool

section \<open>Setting up\<close>

text \<open>An accuracy-only run is a single stream.\<close>

definition single_stream_settings :: "settings \<Rightarrow> settings" where
  "single_stream_settings s =
     (let s1 = s\<lparr>st_num_workers := 1, st_max_connections := 1\<rparr>; lp = st_load_pattern s
      in (case lp_target_concurrency lp of
            Some n \<Rightarrow> (if n \<noteq> 1 then s1\<lparr>st_load_pattern := lp\<lparr>lp_target_concurrency := Some 1\<rparr>\<rparr> else s1)
          | None \<Rightarrow> s1))"

definition setup_config ::
    "(model_params \<Rightarrow> pydict) \<Rightarrow> (pydict \<Rightarrow> model_params result) \<Rightarrow> test_mode \<Rightarrow> benchmark_config \<Rightarrow> benchmark_config result" where
  "setup_config dump parse mode c =
     (if mode = ACC_MODE
      then validate_config dump parse (c\<lparr>bc_settings := single_stream_settings (bc_settings c)\<rparr>)
      else Inr c)"

definition runtime_config_of :: "(int \<Rightarrow> rng) \<Rightarrow> benchmark_config \<Rightarrow> runtime_config" where
  "runtime_config_of rng_of c =
     (let r = st_runtime (bc_settings c)
      in \<lparr>rc_min_issue_duration_ms = rm_min_issue_duration_ms r, rc_max_issue_duration_ms = rm_max_issue_duration_ms r,
          rc_n_samples_to_issue = rm_n_samples_to_issue r, rc_scheduler_rng = rng_of (rm_scheduler_random_seed r),
          rc_dataloader_rng = rng_of (rm_dataloader_random_seed r), rc_load_pattern = st_load_pattern (bc_settings c)\<rparr>)"

definition runtime_of :: "(int \<Rightarrow> rng) \<Rightarrow> benchmark_config \<Rightarrow> int \<Rightarrow> runtime_settings" where
  "runtime_of rng_of c n = from_config_default (runtime_config_of rng_of c) n id"

definition setup_runtime ::
    "(int \<Rightarrow> rng) \<Rightarrow> benchmark_config \<Rightarrow> perf_loader \<Rightarrow> audit_run_spec option \<Rightarrow> runtime_settings" where
  "setup_runtime rng_of c pl audit =
     (let rt = runtime_of rng_of c (loaded_samples (pl_dataset pl))
      in (case audit of
            None \<Rightarrow> rt
          | Some spec \<Rightarrow> rt\<lparr>n_samples_to_issue := sp_n_samples spec, sample_order := sp_sample_order spec\<rparr>))"

definition first_performance :: "benchmark_config \<Rightarrow> dataset_config option" where
  "first_performance c = find (\<lambda>d. dc_type d = PerformanceData) (bc_datasets c)"

definition perf_total :: "benchmark_config \<Rightarrow> perf_loader \<Rightarrow> runtime_settings \<Rightarrow> int result" where
  "perf_total c pl rt =
     (case total_samples_to_issue default_padding True rt of
        Inl e \<Rightarrow> Inl e
      | Inr n \<Rightarrow>
          (case pl_turns pl of
             None \<Rightarrow> Inr n
           | Some turns \<Rightarrow>
               (let agentic = (case first_performance c of None \<Rightarrow> None | Some d \<Rightarrow> dc_agentic d);
                    num = (case agentic of None \<Rightarrow> None | Some a \<Rightarrow> map_option nat (ai_num_trajectories a))
                in Inr (expected_agentic_sample_count turns num (Some (rng_sample_index rt))))))"

definition counts_in_endpoint :: "accuracy_configuration \<Rightarrow> bool" where
  "counts_in_endpoint ev = (\<not> ev_skip_endpoint ev \<and> ev_type ev = AccuracyData)"

definition accuracy_total :: "accuracy_configuration list \<Rightarrow> int" where
  "accuracy_total evs = (\<Sum>ev\<leftarrow>filter counts_in_endpoint evs. loaded_samples (ev_dataset ev) * ev_repeats ev)"

definition setup_total_samples ::
    "(int \<Rightarrow> rng) \<Rightarrow> benchmark_config \<Rightarrow> perf_loader option \<Rightarrow> audit_run_spec option \<Rightarrow> accuracy_configuration list \<Rightarrow> int result" where
  "setup_total_samples rng_of c perf audit evs =
     (case perf of
        None \<Rightarrow> Inr (accuracy_total evs)
      | Some pl \<Rightarrow> map_sum id (\<lambda>n. n + accuracy_total evs) (perf_total c pl (setup_runtime rng_of c pl audit)))"

section \<open>Building the phases\<close>

definition salt_exc :: "salt_error \<Rightarrow> py_exc" where
  "salt_exc e = (case e of NotLoaded \<Rightarrow> AssertionError | Unsaltable _ _ \<Rightarrow> InputValidationError)"

definition warmup_phase ::
    "(int \<Rightarrow> rng) \<Rightarrow> benchmark_config \<Rightarrow> perf_loader \<Rightarrow> runtime_settings \<Rightarrow> phase_config result" where
  "warmup_phase rng_of c pl rt =
     (let w = st_warmup (bc_settings c);
          settings = rt\<lparr>min_issue_duration_ms := None, max_issue_duration_ms := None,
            n_samples_from_dataset := loaded_samples (pl_dataset pl), n_samples_to_issue := wu_n_requests w,
            min_sample_count := 1, rng_sched := rng_of (wu_random_seed w),
            rng_sample_index := rng_of (wu_random_seed w + 1)\<rparr>
      in (case (if wu_salt w then with_salt (pl_dataset pl) (rng_of (wu_random_seed w + 2)) else Inr (pl_dataset pl)) of
            Inl e \<Rightarrow> Inl (salt_exc e)
          | Inr ds \<Rightarrow> Inr
              \<lparr>ph_name = ''warmup'', ph_settings = settings, ph_dataset = ds, ph_type = WARMUP,
               ph_drain_after = wu_drain w, ph_drain_timeout = to_warmup_drain_s (st_timeouts (bc_settings c)),
               ph_has_strategy = False, ph_routing_headers = [], ph_conversations = pl_conversations pl\<rparr>))"

definition performance_phase :: "benchmark_config \<Rightarrow> dataset_config \<Rightarrow> perf_loader \<Rightarrow> runtime_settings \<Rightarrow> phase_config" where
  "performance_phase c d pl rt =
     \<lparr>ph_name = ''performance'', ph_settings = rt, ph_dataset = pl_dataset pl, ph_type = PERFORMANCE,
      ph_drain_after = True, ph_drain_timeout = to_performance_drain_s (st_timeouts (bc_settings c)),
      ph_has_strategy = (pl_turns pl \<noteq> None),
      ph_routing_headers = (case dc_agentic d of None \<Rightarrow> [] | Some a \<Rightarrow> ai_routing_headers a),
      ph_conversations = pl_conversations pl\<rparr>"

definition burst_pattern :: load_pattern where
  "burst_pattern = \<lparr>lp_type = MAX_THROUGHPUT, lp_target_qps = None, lp_target_concurrency = None\<rparr>"

definition accuracy_pattern :: "runtime_settings option \<Rightarrow> load_pattern" where
  "accuracy_pattern rt =
     (case rt of
        None \<Rightarrow> burst_pattern
      | Some r \<Rightarrow>
          (case load_pattern r of
             None \<Rightarrow> burst_pattern
           | Some lp \<Rightarrow> if lp_type lp = AGENTIC_INFERENCE then burst_pattern else lp))"

definition accuracy_phase ::
    "(int \<Rightarrow> rng) \<Rightarrow> benchmark_config \<Rightarrow> runtime_settings option \<Rightarrow> accuracy_configuration \<Rightarrow> phase_config" where
  "accuracy_phase rng_of c rt ev =
     (let n = loaded_samples (ev_dataset ev);
          base = (case rt of Some r \<Rightarrow> r | None \<Rightarrow> runtime_of rng_of c n)
      in \<lparr>ph_name = ev_name ev,
          ph_settings =
            \<lparr>metric_target = metric_target base, reported_metrics = reported_metrics base,
             max_issue_duration_ms = None, n_samples_from_dataset = n, n_samples_to_issue = Some (n * ev_repeats ev),
             min_sample_count = n * ev_repeats ev, rng_sched = rng_sched base, rng_sample_index = rng_sample_index base,
             load_pattern = Some (accuracy_pattern rt), min_issue_duration_ms = None,
             sample_order = spec_without_replacement\<rparr>,
          ph_dataset = ev_dataset ev, ph_type = ACCURACY, ph_drain_after = True,
          ph_drain_timeout = to_accuracy_drain_s (st_timeouts (bc_settings c)),
          ph_has_strategy = False, ph_routing_headers = [], ph_conversations = None\<rparr>)"

fun accuracy_phases ::
    "(int \<Rightarrow> rng) \<Rightarrow> benchmark_config \<Rightarrow> runtime_settings option \<Rightarrow> accuracy_configuration list \<Rightarrow> phase_config list result" where
  "accuracy_phases rng_of c rt [] = Inr []"
| "accuracy_phases rng_of c rt (ev # evs) =
     (if ev_skip_endpoint ev then accuracy_phases rng_of c rt evs
      else if ev_type ev = PerformanceData then accuracy_phases rng_of c rt evs
      else if ev_agentic ev then Inl InputValidationError
      else map_sum id ((#) (accuracy_phase rng_of c rt ev)) (accuracy_phases rng_of c rt evs))"

definition perf_phases ::
    "(int \<Rightarrow> rng) \<Rightarrow> benchmark_config \<Rightarrow> perf_loader \<Rightarrow> runtime_settings \<Rightarrow> phase_config list result" where
  "perf_phases rng_of c pl rt =
     (case first_performance c of
        None \<Rightarrow> Inl StopIteration
      | Some d \<Rightarrow>
          (if wu_enabled (st_warmup (bc_settings c))
           then map_sum id (\<lambda>w. [w, performance_phase c d pl rt]) (warmup_phase rng_of c pl rt)
           else Inr [performance_phase c d pl rt]))"

definition build_phases ::
    "(int \<Rightarrow> rng) \<Rightarrow> benchmark_config \<Rightarrow> (perf_loader \<times> runtime_settings) option \<Rightarrow> accuracy_configuration list
     \<Rightarrow> phase_config list result" where
  "build_phases rng_of c perf evs =
     (case (case perf of None \<Rightarrow> Inr [] | Some (pl, rt) \<Rightarrow> perf_phases rng_of c pl rt) of
        Inl e \<Rightarrow> Inl e
      | Inr ps \<Rightarrow> map_sum id ((@) ps) (accuracy_phases rng_of c (map_option snd perf) evs))"

section \<open>The phases of a plan\<close>

lemma map_sum_Inr_iff: "map_sum f g r = Inr y \<longleftrightarrow> (\<exists>x. r = Inr x \<and> y = g x)"
  by (cases r) auto

lemma first_performance_some:
  "first_performance c = Some d \<Longrightarrow> d \<in> set (bc_datasets c) \<and> dc_type d = PerformanceData"
  by (auto simp: first_performance_def find_Some_iff)

lemma accuracy_phases_are:
  "accuracy_phases rng_of c rt evs = Inr ps \<Longrightarrow> ps = map (accuracy_phase rng_of c rt) (filter counts_in_endpoint evs)"
proof (induction evs arbitrary: ps)
  case (Cons ev evs)
  have t: "ev_type ev = AccuracyData \<longleftrightarrow> ev_type ev \<noteq> PerformanceData" by (cases "ev_type ev") simp_all
  show ?case
  proof (cases "counts_in_endpoint ev")
    case True
    with Cons.prems obtain qs where "accuracy_phases rng_of c rt evs = Inr qs" "ps = accuracy_phase rng_of c rt ev # qs"
      by (auto simp: counts_in_endpoint_def map_sum_Inr_iff split: if_splits)
    with True Cons.IH show ?thesis by simp
  next
    case False
    with Cons.prems t have "accuracy_phases rng_of c rt evs = Inr ps"
      by (simp add: counts_in_endpoint_def split: if_splits)
    with False Cons.IH show ?thesis by simp
  qed
qed simp

text \<open>A plan that was built is warmup, performance and accuracy, in this order.\<close>

lemma build_phases_are:
  assumes "build_phases rng_of c perf evs = Inr phases"
  obtains ps where "phases = ps @ map (accuracy_phase rng_of c (map_option snd perf)) (filter counts_in_endpoint evs)"
    "perf = None \<Longrightarrow> ps = []"
    "\<And>pl rt. perf = Some (pl, rt) \<Longrightarrow> \<exists>d. first_performance c = Some d
       \<and> (if wu_enabled (st_warmup (bc_settings c))
          then \<exists>w. warmup_phase rng_of c pl rt = Inr w \<and> ps = [w, performance_phase c d pl rt]
          else ps = [performance_phase c d pl rt])"
proof -
  obtain ps where ps: "(case perf of None \<Rightarrow> Inr [] | Some (pl, rt) \<Rightarrow> perf_phases rng_of c pl rt) = Inr ps"
    "phases = ps @ map (accuracy_phase rng_of c (map_option snd perf)) (filter counts_in_endpoint evs)"
    using assms accuracy_phases_are by (auto simp: build_phases_def map_sum_Inr_iff split: sum.splits)
  moreover have "ps = []" if "perf = None" using ps(1) that by simp
  moreover have "\<exists>d. first_performance c = Some d
       \<and> (if wu_enabled (st_warmup (bc_settings c))
          then \<exists>w. warmup_phase rng_of c pl rt = Inr w \<and> ps = [w, performance_phase c d pl rt]
          else ps = [performance_phase c d pl rt])" if "perf = Some (pl, rt)" for pl rt
    using ps(1) that by (auto simp: perf_phases_def map_sum_Inr_iff split: option.splits if_splits)
  ultimately show thesis using that by blast
qed

lemma warmup_phase_fields:
  assumes "warmup_phase rng_of c pl rt = Inr w"
  shows "ph_type w = WARMUP" "\<not> ph_has_strategy w" "load_pattern (ph_settings w) = load_pattern rt"
    "n_samples_from_dataset (ph_settings w) = loaded_samples (pl_dataset pl)" "min_issue_duration_ms (ph_settings w) = None"
    "n_samples_to_issue (ph_settings w) = wu_n_requests (st_warmup (bc_settings c))"
    "min_sample_count (ph_settings w) = 1" "sample_order (ph_settings w) = sample_order rt"
  using assms by (auto simp: warmup_phase_def Let_def split: sum.splits)

lemma performance_phase_fields [simp]:
  "ph_type (performance_phase c d pl rt) = PERFORMANCE" "ph_settings (performance_phase c d pl rt) = rt"
  "ph_has_strategy (performance_phase c d pl rt) = (pl_turns pl \<noteq> None)"
  by (simp_all add: performance_phase_def)

lemma accuracy_phase_fields [simp]:
  "ph_type (accuracy_phase rng_of c rt ev) = ACCURACY" "\<not> ph_has_strategy (accuracy_phase rng_of c rt ev)"
  "load_pattern (ph_settings (accuracy_phase rng_of c rt ev)) = Some (accuracy_pattern rt)"
  "n_samples_from_dataset (ph_settings (accuracy_phase rng_of c rt ev)) = loaded_samples (ev_dataset ev)"
  "n_samples_to_issue (ph_settings (accuracy_phase rng_of c rt ev)) = Some (loaded_samples (ev_dataset ev) * ev_repeats ev)"
  "sample_order (ph_settings (accuracy_phase rng_of c rt ev)) = spec_without_replacement"
  by (simp_all add: accuracy_phase_def Let_def)

lemma runtime_of_fields [simp]:
  "load_pattern (runtime_of rng_of c n) = Some (st_load_pattern (bc_settings c))"
  "n_samples_from_dataset (runtime_of rng_of c n) = n" "sample_order (runtime_of rng_of c n) = spec_without_replacement"
  "n_samples_to_issue (runtime_of rng_of c n) = rm_n_samples_to_issue (st_runtime (bc_settings c))"
  "min_issue_duration_ms (runtime_of rng_of c n) = rm_min_issue_duration_ms (st_runtime (bc_settings c))"
  "min_sample_count (runtime_of rng_of c n) = 1"
  "metric_target (runtime_of rng_of c n) = map_option Throughput (lp_target_qps (st_load_pattern (bc_settings c)))"
  by (simp_all add: runtime_of_def from_config_default_def runtime_config_of_def Let_def)

section \<open>Every planned phase can start\<close>

text \<open>A pattern with its target starts on a dataset that has samples, unless it is the agentic one.\<close>

lemma strategy_starts:
  assumes "load_pattern (ph_settings ph) = Some lp" "has_target lp" "lp_type lp \<noteq> AGENTIC_INFERENCE"
    and "0 < n_samples_from_dataset (ph_settings ph)" "sample_order (ph_settings ph) = spec_without_replacement"
  shows "phase_strategy_error expo ph = None"
proof -
  obtain o' where "create_sample_order (ph_settings ph) (ph_type ph = ACCURACY) = Inr o'"
    using assms(4,5) by (cases "ph_type ph = ACCURACY")
      (simp_all add: create_sample_order_def Let_def spec_without_replacement_def sequential_init_def without_replacement_init_def)
  then show ?thesis
    using assms(1-3) by (auto simp: phase_strategy_error_def create_load_strategy_def has_target_def make_delay_fn_def
        poisson_delay_fn_def concurrency_init_def split: load_pattern_type.splits)
qed

lemma agentic_never_starts:
  assumes "load_pattern (ph_settings ph) = Some lp" "lp_type lp = AGENTIC_INFERENCE" "\<not> ph_has_strategy ph"
  shows "phase_strategy_error expo ph \<noteq> None"
  using assms by (auto simp: phase_strategy_error_def create_load_strategy_def split: sum.splits)

text \<open>The number of samples of a phase from a validated configuration.\<close>

lemma runtime_total:
  assumes "settings_ok (bc_settings c)" "0 < n"
  shows "\<exists>k. total_samples_to_issue default_padding True (runtime_of rng_of c n) = Inr k \<and> 0 < k"
proof -
  let ?r = "st_runtime (bc_settings c)" and ?lp = "st_load_pattern (bc_settings c)"
  have ok: "positive (rm_n_samples_to_issue ?r)" "rm_min_issue_duration_ms ?r = None \<or> (\<exists>q. lp_target_qps ?lp = Some q)"
    using assms(1) by (auto simp: settings_ok_def runtime_model_ok_def)
  have up: "0 < align_up n k" if "0 < k" for k using align_up_bounds(1) [OF assms(2), of k] that by linarith
  show ?thesis
  proof (cases "rm_n_samples_to_issue ?r")
    case (Some k)
    then show ?thesis using ok(1) by (simp add: total_samples_to_issue_def positive_def)
  next
    case None
    then show ?thesis
      using ok(2) assms(2) up
      by (auto simp: total_samples_to_issue_def no_min_duration_def expected_samples_def Let_def split: option.splits)
  qed
qed

lemma accuracy_pattern_target:
  assumes "\<And>r. rt = Some r \<Longrightarrow> \<exists>lp. load_pattern r = Some lp \<and> has_target lp"
  shows "has_target (accuracy_pattern rt)" "lp_type (accuracy_pattern rt) \<noteq> AGENTIC_INFERENCE"
proof -
  have "has_target (accuracy_pattern rt) \<and> lp_type (accuracy_pattern rt) \<noteq> AGENTIC_INFERENCE"
  proof (cases rt)
    case (Some r)
    with assms obtain lp where "load_pattern r = Some lp" "has_target lp" by blast
    with Some show ?thesis by (simp add: accuracy_pattern_def burst_pattern_def has_target_def)
  qed (simp add: accuracy_pattern_def burst_pattern_def has_target_def)
  then show "has_target (accuracy_pattern rt)" "lp_type (accuracy_pattern rt) \<noteq> AGENTIC_INFERENCE" by simp_all
qed

text \<open>What the stop check of a phase lets it issue.\<close>

definition phase_quota :: "phase_config \<Rightarrow> int" where
  "phase_quota ph = (case make_stop_check (ph_settings ph) 0 of Inr s \<Rightarrow> sp_total_samples s | Inl _ \<Rightarrow> 0)"

lemma stop_check_total:
  "total_samples_to_issue default_padding True (ph_settings ph) = Inr n \<Longrightarrow>
     phase_quota ph = n \<and> (\<exists>spec. make_stop_check (ph_settings ph) t = Inr spec \<and> sp_total_samples spec = n)"
  by (simp add: phase_quota_def make_stop_check_def)

lemma accuracy_quota:
  "total_samples_to_issue default_padding True (ph_settings (accuracy_phase rng_of c rt ev))
    = Inr (loaded_samples (ev_dataset ev) * ev_repeats ev)"
  by (simp add: total_samples_to_issue_def)

text \<open>C27. A run that was set up from an accepted offline or online configuration, on datasets that have
  samples, can start each of its phases and has something to issue in each: the strategy of a phase can be
  built from its settings, with one exception: an agentic run with warmup, whose warmup phase always fails.\<close>

theorem planned_phases_can_start:
  assumes acc: "validate_config dump parse c0 = Inr c" and mode: "effective_mode c \<in> {Some OFFLINE, Some ONLINE}"
    and perf: "\<forall>pl. perf = Some pl \<longrightarrow> 0 < loaded_samples (pl_dataset pl) \<and> (pl_turns pl \<noteq> None \<longleftrightarrow> has_agentic PerformanceData c)"
    and evs: "\<forall>ev\<in>set evs. 0 < loaded_samples (ev_dataset ev) \<and> 1 \<le> ev_repeats ev"
    and built: "build_phases rng_of c (map_option (\<lambda>pl. (pl, setup_runtime rng_of c pl None)) perf) evs = Inr phases"
    and ph: "ph \<in> set phases"
  shows "(\<exists>spec. make_stop_check (ph_settings ph) t = Inr spec \<and> 0 < sp_total_samples spec)
    \<and> (phase_strategy_error expo ph = None \<longleftrightarrow> \<not> (ph_type ph = WARMUP \<and> has_agentic PerformanceData c))"
proof -
  note lp = accepted_load_pattern [OF acc]
  let ?perf = "map_option (\<lambda>pl. (pl, setup_runtime rng_of c pl None)) perf"
  obtain ps where ps: "phases = ps @ map (accuracy_phase rng_of c (map_option snd ?perf)) (filter counts_in_endpoint evs)"
    "?perf = None \<Longrightarrow> ps = []"
    "\<And>pl rt. ?perf = Some (pl, rt) \<Longrightarrow> \<exists>d. first_performance c = Some d
       \<and> (if wu_enabled (st_warmup (bc_settings c))
          then \<exists>w. warmup_phase rng_of c pl rt = Inr w \<and> ps = [w, performance_phase c d pl rt]
          else ps = [performance_phase c d pl rt])"
    using build_phases_are [OF built] by blast
  have target: "has_target (st_load_pattern (bc_settings c))" by (rule lp(3) [OF mode])
  consider (acc) ev where "ev \<in> set evs" "ph = accuracy_phase rng_of c (map_option snd ?perf) ev" | (head) "ph \<in> set ps"
    using ph ps(1) by auto
  then show ?thesis
  proof cases
    case acc
    have "\<exists>lp. load_pattern r = Some lp \<and> has_target lp" if "map_option snd ?perf = Some r" for r
      using that target by (auto simp: setup_runtime_def Let_def)
    note pattern = accuracy_pattern_target [OF this]
    have "phase_strategy_error expo ph = None"
      using evs acc(1) unfolding acc(2) by (intro strategy_starts [OF accuracy_phase_fields(3) pattern]) (simp_all del: map_option_eq_Some)
    moreover have "0 < loaded_samples (ev_dataset ev) * ev_repeats ev" using evs acc(1) by (intro mult_pos_pos) auto
    ultimately show ?thesis
      using stop_check_total [OF accuracy_quota, of rng_of c "map_option snd ?perf" ev t] acc(2) by auto
  next
    case head
    then obtain pl where pl: "perf = Some pl" using ps(2) by (cases perf) auto
    define rt where "rt = setup_runtime rng_of c pl None"
    have rt: "rt = runtime_of rng_of c (loaded_samples (pl_dataset pl))" by (simp add: rt_def setup_runtime_def Let_def)
    have n: "0 < loaded_samples (pl_dataset pl)" "pl_turns pl \<noteq> None \<longleftrightarrow> has_agentic PerformanceData c" using perf pl by auto
    obtain d where d: "first_performance c = Some d" "if wu_enabled (st_warmup (bc_settings c))
          then \<exists>w. warmup_phase rng_of c pl rt = Inr w \<and> ps = [w, performance_phase c d pl rt]
          else ps = [performance_phase c d pl rt]"
      using ps(3) [of pl rt] pl by (auto simp: rt_def)
    consider (perf) "ph = performance_phase c d pl rt" | (warm) "warmup_phase rng_of c pl rt = Inr ph"
      using head d(2) by (auto split: if_splits)
    then show ?thesis
    proof cases
      case perf
      obtain k where k: "total_samples_to_issue default_padding True rt = Inr k" "0 < k"
        using runtime_total [OF lp(1) n(1)] by (auto simp: rt)
      have "phase_strategy_error expo ph = None"
      proof (cases "pl_turns pl = None")
        case True
        then show ?thesis
          using n target lp(4) by (intro strategy_starts [of ph "st_load_pattern (bc_settings c)"]) (simp_all add: perf rt)
      next
        case False
        then show ?thesis by (simp add: perf phase_strategy_error_def)
      qed
      then show ?thesis using stop_check_total [of ph k t] k by (auto simp: perf)
    next
      case warm
      note w = warmup_phase_fields [OF warm]
      have "positive (wu_n_requests (st_warmup (bc_settings c)))" using lp(1) by (simp add: settings_ok_def)
      then obtain k where k: "total_samples_to_issue default_padding True (ph_settings ph) = Inr k" "0 < k"
        using n(1) by (cases "wu_n_requests (st_warmup (bc_settings c))")
          (auto simp: total_samples_to_issue_def w no_min_duration_def positive_def)
      have pattern: "load_pattern (ph_settings ph) = Some (st_load_pattern (bc_settings c))" by (simp add: w(3) rt)
      have "phase_strategy_error expo ph = None \<longleftrightarrow> \<not> has_agentic PerformanceData c"
      proof (cases "has_agentic PerformanceData c")
        case True
        then show ?thesis using agentic_never_starts [OF pattern _ w(2)] lp(4) by simp
      next
        case False
        then show ?thesis using strategy_starts [OF pattern target] lp(4) n(1) by (simp add: w rt)
      qed
      then show ?thesis using stop_check_total [OF k(1), of t] k(2) w(1) by auto
    qed
  qed
qed

text \<open>The total a run announces is what its measured phases let issue together.\<close>

theorem announced_total_is_what_the_phases_issue:
  assumes built: "build_phases rng_of c (map_option (\<lambda>pl. (pl, setup_runtime rng_of c pl audit)) perf) evs = Inr phases"
    and tot: "setup_total_samples rng_of c perf audit evs = Inr n_announced"
    and "\<forall>pl. perf = Some pl \<longrightarrow> pl_turns pl = None"
  shows "n_announced = (\<Sum>ph\<leftarrow>filter (\<lambda>ph. ph_type ph \<noteq> WARMUP) phases. phase_quota ph)"
proof -
  let ?perf = "map_option (\<lambda>pl. (pl, setup_runtime rng_of c pl audit)) perf"
  obtain ps where ps: "phases = ps @ map (accuracy_phase rng_of c (map_option snd ?perf)) (filter counts_in_endpoint evs)"
    "?perf = None \<Longrightarrow> ps = []"
    "\<And>pl rt. ?perf = Some (pl, rt) \<Longrightarrow> \<exists>d. first_performance c = Some d
       \<and> (if wu_enabled (st_warmup (bc_settings c))
          then \<exists>w. warmup_phase rng_of c pl rt = Inr w \<and> ps = [w, performance_phase c d pl rt]
          else ps = [performance_phase c d pl rt])"
    using build_phases_are [OF built] by blast
  have quota: "phase_quota (accuracy_phase rng_of c rt ev) = loaded_samples (ev_dataset ev) * ev_repeats ev" for rt ev
    using stop_check_total [OF accuracy_quota] by blast
  have acc: "(\<Sum>ph\<leftarrow>filter (\<lambda>ph. ph_type ph \<noteq> WARMUP) (map (accuracy_phase rng_of c rt) xs). phase_quota ph)
      = (\<Sum>ev\<leftarrow>xs. loaded_samples (ev_dataset ev) * ev_repeats ev)" for rt xs
    by (induction xs) (simp_all add: quota)
  show ?thesis
  proof (cases perf)
    case None
    with ps(1,2) tot acc show ?thesis by (simp add: setup_total_samples_def accuracy_total_def)
  next
    case (Some pl)
    define rt where "rt = setup_runtime rng_of c pl audit"
    obtain n where n: "total_samples_to_issue default_padding True rt = Inr n" "n_announced = n + accuracy_total evs"
      using tot assms(3) Some by (auto simp: setup_total_samples_def perf_total_def map_sum_Inr_iff simp flip: rt_def split: sum.splits)
    obtain d where d: "if wu_enabled (st_warmup (bc_settings c))
          then \<exists>w. warmup_phase rng_of c pl rt = Inr w \<and> ps = [w, performance_phase c d pl rt]
          else ps = [performance_phase c d pl rt]"
      using ps(3) [of pl rt] Some by (auto simp: rt_def)
    have "phase_quota (performance_phase c d pl rt) = n" using stop_check_total [of "performance_phase c d pl rt" n] n(1) by simp
    moreover have "filter (\<lambda>ph. ph_type ph \<noteq> WARMUP) ps = [performance_phase c d pl rt]"
      using d by (auto split: if_splits dest: warmup_phase_fields(1))
    ultimately show ?thesis using ps(1) n(2) acc by (simp add: accuracy_total_def)
  qed
qed

section \<open>An example\<close>

definition example_rng :: "int \<Rightarrow> rng" where "example_rng seed = \<lparr>draws = (\<lambda>_. nat seed), pos = 0\<rparr>"

definition example_data :: dataset where
  "example_data = \<lparr>ds_data = Some [PDict [(''prompt'', PStr ''hi'')], PDict [(''prompt'', PStr ''ho'')]], ds_salt_rng = None\<rparr>"

definition example_loader :: perf_loader where
  "example_loader = \<lparr>pl_dataset = example_data, pl_turns = None, pl_conversations = None\<rparr>"

definition example_eval :: accuracy_configuration where
  "example_eval = \<lparr>ev_name = ''aime'', ev_skip_endpoint = False, ev_type = AccuracyData, ev_dataset = example_data,
     ev_repeats = 3, ev_agentic = False\<rparr>"

definition example_accepted :: benchmark_config where
  "example_accepted = (case validate_config (\<lambda>_. []) (\<lambda>_. Inl ValueError) example_config of Inr c \<Rightarrow> c | Inl _ \<Rightarrow> example_config)"

lemma example_accepted:
  "validate_config (\<lambda>_. []) (\<lambda>_. Inl ValueError) example_config = Inr example_accepted"
  "effective_mode example_accepted = Some ONLINE" "\<not> has_agentic PerformanceData example_accepted"
  "first_performance example_accepted = Some (hd (bc_datasets example_config))"
  "\<not> wu_enabled (st_warmup (bc_settings example_accepted))"
  by (simp_all add: example_accepted_def validate_config_def example_config_def fields_ok_def model_params_ok_def dataset_config_ok_def
      positive_def validate_override_def settings_ok_def runtime_model_ok_def validate_load_pattern_def timeouts_ok_def
      url_scheme_ok_def resolve_defaults_def resolve_params_def effective_mode_def Let_def cross_checks_def swe_bench_def
      effective_generation_config_def controls_ok_def non_default_completion_controls_def load_pattern_fits_def has_agentic_def
      resolve_workers_def forwarded_concurrency_def truthy_value_def forward_workers_def apply_ruleset_seed_overrides_def
      get_ruleset_def registry_entries EDGE_CURRENT_def propagate_client_api_type_def first_performance_def pin_seeds_def)

definition example_phases :: "phase_config list" where
  "example_phases =
     (let rt = setup_runtime example_rng example_accepted example_loader None
      in [performance_phase example_accepted (hd (bc_datasets example_config)) example_loader rt,
          accuracy_phase example_rng example_accepted (Some rt) example_eval])"

lemma example_built:
  "build_phases example_rng example_accepted
     (map_option (\<lambda>pl. (pl, setup_runtime example_rng example_accepted pl None)) (Some example_loader)) [example_eval]
   = Inr example_phases"
  by (simp add: build_phases_def perf_phases_def example_accepted example_phases_def Let_def)
    (simp add: example_eval_def)

lemma planned_phases_can_start_witness:
  "list_all (\<lambda>ph. phase_strategy_error (\<lambda>r _. (0, r)) ph = None) example_phases"
  unfolding list_all_iff
proof
  fix ph assume ph: "ph \<in> set example_phases"
  have perf: "\<forall>pl. Some example_loader = Some pl \<longrightarrow> 0 < loaded_samples (pl_dataset pl)
      \<and> (pl_turns pl \<noteq> None \<longleftrightarrow> has_agentic PerformanceData example_accepted)"
    using example_accepted(3) by (simp add: example_loader_def loaded_samples_def example_data_def)
  have evs: "\<forall>ev\<in>set [example_eval]. 0 < loaded_samples (ev_dataset ev) \<and> 1 \<le> ev_repeats ev"
    by (simp add: example_eval_def loaded_samples_def example_data_def)
  show "phase_strategy_error (\<lambda>r _. (0, r)) ph = None"
    using planned_phases_can_start [OF example_accepted(1) _ perf evs example_built ph] example_accepted(2,3) by simp
qed

end
