(* ===== verification/Report.thy ===== *)
theory Report
  imports AggregatorRuns
begin

text \<open>
  \<open>metrics/report.py\<close>: the summary of a series and the report of a snapshot, and how
  \<open>drain_and_build_report\<close> of \<open>commands/benchmark/pipeline.py\<close> chooses the snapshot.  A snapshot's
  dictionary form is the record of \<open>Registry\<close>; which series hold Python integers is a parameter,
  since a snapshot's numbers are exact rationals here.  The version, the run configuration, the
  accuracy entries and the steady-state verdict are carried along by the code and left out.
\<close>

section \<open>The summary of a series\<close>

record metric_dict =
  md_total :: rat
  md_min :: rat
  md_max :: rat
  md_median :: rat
  md_avg :: rat
  md_std_dev :: real
  md_percentiles :: "(string \<times> rat) list"
  md_buckets :: "(real \<times> real) list"
  md_counts :: "int list"
  md_early_stopping :: "(string \<times> rat option) list option"

datatype metric_summary = NoData "(string \<times> rat option) list option" | Summary metric_dict

definition std_dev :: "series_dtype \<Rightarrow> int \<Rightarrow> rat \<Rightarrow> rat \<Rightarrow> real" where
  "std_dev dtype n t sq =
     (if n > 1 then
        (case dtype of
           IntSeries \<Rightarrow> sqrt (of_rat (max 0 (of_int n * sq - t * t))) / sqrt (of_int (n * (n - 1)))
         | FloatSeries \<Rightarrow> sqrt (of_rat (max 0 ((sq - t * t / of_int n) / of_int (n - 1)))))
      else 0)"

definition median_of :: "series_stat \<Rightarrow> rat" where
  "median_of st =
     (case map_of (ss_percentiles st) ''50'' of
        Some v \<Rightarrow> v
      | None \<Rightarrow>
     (case map_of (ss_percentiles st) ''50.0'' of Some v \<Rightarrow> v | None \<Rightarrow> (ss_min st + ss_max st) / 2))"

definition series_to_metric_dict :: "series_dtype \<Rightarrow> series_stat \<Rightarrow> metric_summary" where
  "series_to_metric_dict dtype st =
     (if ss_count st = 0 then NoData (ss_early_stopping st)
      else Summary
        \<lparr>md_total = ss_total st, md_min = ss_min st, md_max = ss_max st, md_median = median_of st,
         md_avg = (if ss_count st > 0 then ss_total st / of_int (ss_count st) else 0),
         md_std_dev = std_dev dtype (ss_count st) (ss_total st) (ss_sum_sq st),
         md_percentiles = ss_percentiles st, md_buckets = map fst (ss_histogram st),
         md_counts = map snd (ss_histogram st), md_early_stopping = ss_early_stopping st\<rparr>)"

text \<open>A summary is false when its dictionary is empty, and its total is 0 when it has none.\<close>

definition truthy :: "metric_summary \<Rightarrow> bool" where
  "truthy m = (case m of NoData e \<Rightarrow> e \<noteq> None | Summary _ \<Rightarrow> True)"

definition summary_total :: "metric_summary \<Rightarrow> rat" where
  "summary_total m = (case m of NoData _ \<Rightarrow> 0 | Summary d \<Rightarrow> md_total d)"

definition series_metric_dict :: "hdr_view \<Rightarrow> nat \<Rightarrow> int list \<Rightarrow> metric_summary result" where
  "series_metric_dict view n values = map_sum id (series_to_metric_dict IntSeries) (build_token_series view n values)"

section \<open>The report of a snapshot\<close>

record report =
  rp_n_issued :: int
  rp_n_completed :: int
  rp_n_failed :: int
  rp_duration_ns :: "int option"
  rp_state :: snapshot_state
  rp_complete :: bool
  rp_ttft :: metric_summary
  rp_tpot :: metric_summary
  rp_latency :: metric_summary
  rp_osl :: metric_summary
  rp_isl :: metric_summary
  rp_legacy_window_ns :: "int option"
  rp_qps :: "rat option"
  rp_tps :: "rat option"
  rp_interactivity :: "rat option"
  rp_finish_reasons :: "(string \<times> int) list"

definition n_samples_succeeded :: "report \<Rightarrow> int" where
  "n_samples_succeeded r = max 0 (rp_n_completed r - rp_n_failed r)"

definition n_samples_dropped :: "report \<Rightarrow> int" where
  "n_samples_dropped r = max 0 (rp_n_issued r - rp_n_completed r)"

fun snapshot_dicts ::
    "metric_stat list \<Rightarrow> (string \<rightharpoonup> int) \<times> (string \<rightharpoonup> series_stat) \<Rightarrow> (string \<rightharpoonup> int) \<times> (string \<rightharpoonup> series_stat)" where
  "snapshot_dicts [] (cvals, series) = (cvals, series)"
| "snapshot_dicts (CounterStat name v # ms) (cvals, series) =
     snapshot_dicts ms (if name = [] then cvals else cvals(name \<mapsto> v), series)"
| "snapshot_dicts (SeriesStat st # ms) (cvals, series) =
     snapshot_dicts ms (cvals, if ss_name st = [] then series else series(ss_name st \<mapsto> st))"

definition finish_reason_prefix :: string where "finish_reason_prefix = ''tracked_finish_reason_''"

definition throughput :: "rat \<Rightarrow> int \<Rightarrow> rat" where
  "throughput amount window_ns = amount / (of_int window_ns / 1000000000)"

definition from_snapshot :: "(string \<Rightarrow> series_dtype) \<Rightarrow> bool \<Rightarrow> metrics_snapshot \<Rightarrow> report" where
  "from_snapshot dtypes legacy snap =
     (let (cvals, series) = snapshot_dicts (sn_metrics snap) (Map.empty, Map.empty);
          counter = (\<lambda>key. case cvals key of Some v \<Rightarrow> v | None \<Rightarrow> 0);
          summary = (\<lambda>key. case series key of Some st \<Rightarrow> series_to_metric_dict (dtypes key) st | None \<Rightarrow> NoData None);
          raw_duration = counter ''tracked_duration_ns'';
          duration = (if raw_duration > 0 then Some raw_duration else None);
          issued = counter ''tracked_samples_issued'';
          failed = counter ''tracked_samples_failed'';
          completed = counter ''tracked_samples_completed'';
          osl = summary ''osl'';
          raw_window = counter ''legacy_loadgen_window_duration_ns'';
          use_legacy = (legacy \<and> raw_window > 0 \<and> completed \<ge> 2);
          tps = (\<lambda>window. if truthy osl then Some (throughput (summary_total osl) window) else None);
          latency_total = (case series ''sample_latency_ns'' of Some st \<Rightarrow> ss_total st | None \<Rightarrow> 0)
      in \<lparr>rp_n_issued = issued, rp_n_completed = completed, rp_n_failed = failed, rp_duration_ns = duration,
          rp_state = sn_state snap,
          rp_complete = (sn_state snap = COMPLETE_STATE \<and> sn_n_pending_tasks snap = 0
            \<and> (0 \<le> failed \<and> failed \<le> completed \<and> completed \<le> issued) \<and> completed = issued),
          rp_ttft = summary ''ttft_ns'', rp_tpot = summary ''tpot_ns'', rp_latency = summary ''sample_latency_ns'',
          rp_osl = osl, rp_isl = summary ''isl'',
          rp_legacy_window_ns = (if use_legacy then Some raw_window else None),
          rp_qps = (if use_legacy then Some (throughput (of_int (completed - 1)) raw_window)
                    else map_option (throughput (of_int completed)) duration),
          rp_tps = (if use_legacy then tps raw_window else (case duration of Some d \<Rightarrow> tps d | None \<Rightarrow> None)),
          rp_interactivity =
            (if truthy osl \<and> latency_total > 0 \<and> failed = 0
             then Some (summary_total osl / (latency_total / 1000000000)) else None),
          rp_finish_reasons =
            map (\<lambda>name. (drop (length finish_reason_prefix) name, counter name))
              [''tracked_finish_reason_stop'', ''tracked_finish_reason_length'', ''tracked_finish_reason_tool_calls'',
               ''tracked_finish_reason_content_filter'', ''tracked_finish_reason_function_call'', ''tracked_finish_reason_other'']\<rparr>)"

text \<open>\<open>drain_and_build_report\<close>: the snapshot on disk, else the last one received, else no report.  The
  legacy window is asked for by Poisson runs only.\<close>

definition uses_legacy_window :: "load_pattern_type \<Rightarrow> bool \<Rightarrow> bool" where
  "uses_legacy_window pattern flag = (pattern = POISSON \<and> flag)"

definition drained_report ::
    "(string \<Rightarrow> series_dtype) \<Rightarrow> bool \<Rightarrow> metrics_snapshot option \<Rightarrow> metrics_snapshot option \<Rightarrow> report option" where
  "drained_report dtypes legacy disk latest =
     (case disk of
        Some snap \<Rightarrow> Some (from_snapshot dtypes legacy snap)
      | None \<Rightarrow> map_option (from_snapshot dtypes legacy) latest)"

lemma complete_report_state: "rp_complete (from_snapshot d l snap) \<Longrightarrow> rp_state (from_snapshot d l snap) = COMPLETE_STATE"
  by (simp add: from_snapshot_def Let_def split: prod.splits)

lemma drained_report_state: "drained_report d l disk latest = Some r \<Longrightarrow> rp_complete r \<Longrightarrow> rp_state r = COMPLETE_STATE"
  by (auto simp: drained_report_def complete_report_state split: option.splits)

section \<open>What the summary says of the values\<close>

definition mean :: "rat list \<Rightarrow> rat" where
  "mean vs = sum_list vs / of_nat (length vs)"

definition sample_variance :: "rat list \<Rightarrow> rat" where
  "sample_variance vs = sum_list (map (\<lambda>v. (v - mean vs)\<^sup>2) vs) / of_nat (length vs - 1)"

lemma squares_about_a_point:
  "sum_list (map (\<lambda>v. (v - m)\<^sup>2) vs) = sum_list (map (\<lambda>v. v * v) vs) - 2 * m * sum_list vs + of_nat (length vs) * m\<^sup>2"
  for m :: rat
  by (induction vs) (simp_all add: power2_eq_square algebra_simps)

lemma spread:
  assumes "vs \<noteq> []"
  shows "sum_list (map (\<lambda>v. (v - mean vs)\<^sup>2) vs) = sum_list (map (\<lambda>v. v * v) vs) - sum_list vs * sum_list vs / of_nat (length vs)"
proof -
  have n: "of_nat (length vs) * mean vs = sum_list vs" using assms by (simp add: mean_def)
  have "of_nat (length vs) * (mean vs)\<^sup>2 = mean vs * sum_list vs" by (simp add: power2_eq_square flip: n)
  then show ?thesis unfolding squares_about_a_point by (simp add: mean_def)
qed

text \<open>Both forms of the deviation are the sample standard deviation.\<close>

lemma std_dev_is_sample_deviation:
  assumes "1 < length vs"
  shows "std_dev dtype (int (length vs)) (sum_list vs) (sum_list (map (\<lambda>v. v * v) vs)) = sqrt (of_rat (sample_variance vs))"
proof -
  let ?n = "length vs" let ?t = "sum_list vs" let ?q = "sum_list (map (\<lambda>v. v * v) vs)"
  define d where "d = sum_list (map (\<lambda>v. (v - mean vs)\<^sup>2) vs)"
  have ne: "vs \<noteq> []" using assms by auto
  have d: "d = ?q - ?t * ?t / of_nat ?n" unfolding d_def by (rule spread [OF ne])
  have pos: "0 \<le> d" unfolding d_def by (rule sum_list_nonneg) auto
  have n1: "(of_int (int ?n - 1) :: rat) = of_nat (?n - 1)" "(of_int (int ?n - 1) :: real) = of_nat (?n - 1)"
    using assms by (simp_all add: of_nat_diff)
  have i: "of_nat ?n * ?q - ?t * ?t = of_nat ?n * d" using assms by (simp add: d field_simps)
  show ?thesis
  proof (cases dtype)
    case FloatSeries
    have "0 \<le> d / of_nat (?n - 1)" using pos by simp
    then show ?thesis using assms by (simp add: std_dev_def FloatSeries n1 sample_variance_def flip: d d_def)
  next
    case IntSeries
    have "0 \<le> of_nat ?n * d" using pos by simp
    then have "std_dev dtype (int ?n) ?t ?q = sqrt (of_rat (of_nat ?n * d)) / sqrt (real ?n * real (?n - 1))"
      using assms i by (simp add: std_dev_def IntSeries n1)
    also have "\<dots> = sqrt (real ?n) * sqrt (of_rat d) / (sqrt (real ?n) * sqrt (real (?n - 1)))"
      by (simp only: of_rat_mult of_rat_of_nat_eq real_sqrt_mult)
    also have "\<dots> = sqrt (of_rat (d / of_nat (?n - 1)))" using ne by (simp add: of_rat_divide real_sqrt_divide)
    finally show ?thesis by (simp add: sample_variance_def d_def)
  qed
qed

text \<open>The name under which the summary looks up the median, and the value found there.\<close>

definition median_percentile :: "(string \<times> rat) list \<Rightarrow> rat option" where
  "median_percentile ps = (case map_of ps ''50'' of Some p \<Rightarrow> Some p | None \<Rightarrow> map_of ps ''50.0'')"

lemma finished_percentiles:
  assumes "series_init name lo hi n ps d es = Inr s0" "vs \<noteq> []"
  shows "ss_percentiles (build_stat view True (foldl (\<lambda>s v. series_record v s) s0 vs))
    = map (\<lambda>(k, p). (k, exact_percentile (sort vs) p)) ps"
proof -
  define s where "s = foldl (\<lambda>s v. series_record v s) s0 vs"
  have s0: "rolls_up s0" "sm_raw s0 = []" "sm_percentiles s0 = ps"
    using assms(1) rolls_up_init [OF assms(1)] by (auto simp: series_init_def Let_def split: if_splits)
  have s: "rolls_up s" "sm_raw s = vs" "sm_percentiles s = ps"
    using record_all [OF s0(1), of vs] s0 by (simp_all add: s_def)
  note r = rolls_upD [OF s(1), unfolded s(2)]
  show ?thesis using assms(2) r s by (simp add: build_stat_def exact_stat_def Let_def flip: s_def)
qed

lemma exact_median:
  assumes "vs \<noteq> []"
  shows "exact_percentile (sort vs) 50 = sort vs ! ((length vs - 1) div 2)"
proof -
  have ne: "sort vs \<noteq> []" using assms by (metis set_empty set_sort)
  have "(50 :: rat) / 100 * of_int (int (length vs) - 1) = of_nat (length vs - 1) / of_nat 2" using assms by (cases vs) simp_all
  moreover have "\<lfloor>(of_nat (length vs - 1) / of_nat 2 :: rat)\<rfloor> = int ((length vs - 1) div 2)"
    by (rule floor_divide_of_nat_eq)
  ultimately have "trunc ((50 :: rat) / 100 * of_int (int (length vs) - 1)) = int ((length vs - 1) div 2)"
    by (simp only: trunc_def) simp
  then show ?thesis using percentile_lower_nth(1) [OF ne, of "50 / 100"] by (simp add: exact_percentile_def)
qed

lemma map_of_percentiles: "map_of (map (\<lambda>(k, p). (k, f p)) ps) k = map_option f (map_of ps k)"
  by (induction ps) auto

text \<open>C28. The summary the report gives of a finished series describes the recorded values: total, least and
  greatest value, the mean, the sample standard deviation whichever of its two forms is used (0 for one
  value), the lower median, and a display histogram that counts every value.\<close>

theorem summary_describes_the_values:
  assumes "series_init name lo hi n ps d es = Inr s0" "vs \<noteq> []" "0 < n" "\<forall>(k, p)\<in>set ps. 0 \<le> p \<and> p \<le> 100"
    and "median_percentile ps = Some 50"
    and "series_to_metric_dict dtype (build_stat view True (foldl (\<lambda>s v. series_record v s) s0 vs)) = m"
  shows "\<exists>s. m = Summary s \<and> md_total s = sum_list vs \<and> md_min s = Min (set vs) \<and> md_max s = Max (set vs)
    \<and> md_avg s = mean vs \<and> md_std_dev s = (if length vs = 1 then 0 else sqrt (of_rat (sample_variance vs)))
    \<and> md_median s = sort vs ! ((length vs - 1) div 2)
    \<and> length (md_counts s) = n \<and> sum_list (md_counts s) = int (length vs)"
proof -
  define st where "st = build_stat view True (foldl (\<lambda>s v. series_record v s) s0 vs)"
  have f: "ss_count st = int (length vs)" "ss_total st = sum_list vs" "ss_sum_sq st = sum_list (map (\<lambda>v. v * v) vs)"
    "ss_min st = Min (set vs)" "ss_max st = Max (set vs)" "length (ss_histogram st) = n"
    "sum_list (map snd (ss_histogram st)) = int (length vs)"
    using final_statistics_describe_the_run [OF assms(1-4) st_def] by blast+
  have "ss_percentiles st = map (\<lambda>(k, p). (k, exact_percentile (sort vs) p)) ps"
    unfolding st_def by (rule finished_percentiles [OF assms(1,2)])
  then have med: "median_of st = exact_percentile (sort vs) 50"
    using assms(5) by (auto simp: median_of_def median_percentile_def map_of_percentiles split: option.splits)
  have pos: "0 < int (length vs)" using assms(2) by simp
  have "std_dev dtype (ss_count st) (ss_total st) (ss_sum_sq st)
      = (if length vs = 1 then 0 else sqrt (of_rat (sample_variance vs)))"
  proof (cases "length vs = 1")
    case False
    then have "1 < length vs" using pos by linarith
    then show ?thesis using std_dev_is_sample_deviation [of vs dtype] by (simp add: f)
  qed (simp add: f std_dev_def)
  then show ?thesis
    using pos med exact_median [OF assms(2)] assms(6) f unfolding st_def [symmetric]
    by (auto simp: series_to_metric_dict_def mean_def)
qed

theorem summary_describes_the_values_witness:
  "\<exists>s0 s. series_init ''tpot_ns'' 1 10000000 30 DEFAULT_PERCENTILES FloatSeries None = Inr s0
     \<and> series_to_metric_dict FloatSeries (build_stat (\<lambda>hs p. 0, \<lambda>hs. []) True (foldl (\<lambda>s v. series_record v s) s0 [4, 1, 7])) = Summary s
     \<and> md_total s = 12 \<and> md_avg s = 4 \<and> md_median s = 4 \<and> md_std_dev s = 3 \<and> sum_list (md_counts s) = 3"
proof -
  obtain s0 where s0: "series_init ''tpot_ns'' 1 10000000 30 DEFAULT_PERCENTILES FloatSeries None = Inr s0"
    by (simp add: series_init_def)
  have ps: "\<forall>(k, p)\<in>set DEFAULT_PERCENTILES. 0 \<le> p \<and> p \<le> 100" by (simp add: DEFAULT_PERCENTILES_def)
  have n: "0 < (30 :: nat)" and vs: "[4, 1, 7 :: rat] \<noteq> []" and p: "median_percentile DEFAULT_PERCENTILES = Some 50"
    by (simp_all add: median_percentile_def DEFAULT_PERCENTILES_def)
  have "sample_variance [4, 1, 7] = 9" "mean [4, 1, 7] = 4" by (simp_all add: sample_variance_def mean_def power2_eq_square)
  moreover have "sqrt 9 = (3 :: real)" by (rule real_sqrt_unique) simp_all
  ultimately show ?thesis
    using summary_describes_the_values [OF s0 vs n ps p refl, of FloatSeries "(\<lambda>hs p. 0, \<lambda>hs. [])"] s0 by auto
qed

section \<open>The report of an aggregator's snapshot\<close>

lemma collect_append: "snapshot_dicts (xs @ ys) c = snapshot_dicts ys (snapshot_dicts xs c)"
proof (induction xs arbitrary: c)
  case (Cons x xs)
  obtain a b where "c = (a, b)" by (metis surj_pair)
  then show ?case by (cases x) (simp_all add: Cons.IH)
qed (metis append_Nil snapshot_dicts.simps(1) surj_pair)

lemma collect_counters:
  "dict_wf cs \<Longrightarrow> k \<noteq> [] \<Longrightarrow>
     fst (snapshot_dicts (map (\<lambda>(name, v). CounterStat name v) cs) (a, b)) k
       = (case map_of cs k of Some v \<Rightarrow> Some v | None \<Rightarrow> a k)"
proof (induction cs arbitrary: a)
  case (Cons x cs)
  obtain name v where x: "x = (name, v)" by (metis surj_pair)
  have "dict_wf cs" "map_of cs name = None" using Cons.prems(1) by (auto simp: dict_wf_def x map_of_eq_None_iff)
  then show ?case using Cons.IH [of "if name = [] then a else a(name \<mapsto> v)"] Cons.prems(2)
    by (auto simp: x split: option.split)
qed (simp split: option.split)

lemma collect_series_counters:
  "fst (snapshot_dicts (map (\<lambda>(name, s). SeriesStat (f s)) ss) (a, b)) = a"
  by (induction ss arbitrary: b) auto

lemma snapshot_counters:
  assumes "dict_wf (rg_counters r)" "k \<noteq> []"
  shows "fst (snapshot_dicts (sn_metrics (fst (build_snapshot view st pending now r))) (Map.empty, Map.empty)) k
    = map_of (rg_counters r) k"
proof -
  let ?cs = "snapshot_dicts (map (\<lambda>(name, v). CounterStat name v) (rg_counters r)) (Map.empty, Map.empty)"
  obtain a b where ab: "?cs = (a, b)" by (metis surj_pair)
  have "fst (snapshot_dicts (sn_metrics (fst (build_snapshot view st pending now r))) (Map.empty, Map.empty)) = a"
    using collect_series_counters [of "build_stat view (st = COMPLETE_STATE)" "rg_series r" a b]
    by (simp add: build_snapshot_def Let_def collect_append ab)
  moreover have "a k = map_of (rg_counters r) k"
    using collect_counters [OF assms, of Map.empty Map.empty] by (simp add: ab split: option.splits)
  ultimately show ?thesis by simp
qed

definition report_fields :: "aggregator \<Rightarrow> bool \<Rightarrow> snapshot_state \<Rightarrow> int \<Rightarrow> report \<Rightarrow> bool" where
  "report_fields s legacy st pending rep =
     (rp_n_issued rep = ctr s TRACKED_SAMPLES_ISSUED \<and> rp_n_completed rep = ctr s TRACKED_SAMPLES_COMPLETED
      \<and> rp_n_failed rep = ctr s TRACKED_SAMPLES_FAILED
      \<and> rp_duration_ns rep = (if ctr s TRACKED_DURATION_NS > 0 then Some (ctr s TRACKED_DURATION_NS) else None)
      \<and> map snd (rp_finish_reasons rep) = map (ctr s) finish_counters \<and> rp_state rep = st
      \<and> (rp_complete rep \<longleftrightarrow> st = COMPLETE_STATE \<and> pending = 0
           \<and> (0 \<le> rp_n_failed rep \<and> rp_n_failed rep \<le> rp_n_completed rep \<and> rp_n_completed rep \<le> rp_n_issued rep)
           \<and> rp_n_completed rep = rp_n_issued rep)
      \<and> rp_legacy_window_ns rep = (if legacy \<and> ctr s LEGACY_LOADGEN_WINDOW_DURATION_NS > 0 \<and> rp_n_completed rep \<ge> 2
           then Some (ctr s LEGACY_LOADGEN_WINDOW_DURATION_NS) else None)
      \<and> rp_qps rep = (case rp_legacy_window_ns rep of
            Some w \<Rightarrow> Some (throughput (of_int (rp_n_completed rep - 1)) w)
          | None \<Rightarrow> map_option (throughput (of_int (rp_n_completed rep))) (rp_duration_ns rep)))"

lemma report_of_aggregator:
  assumes "names_ok s"
  shows "report_fields s legacy st pending (from_snapshot dtypes legacy (fst (build_snapshot view st pending now (ma_registry s))))"
proof -
  let ?snap = "fst (build_snapshot view st pending now (ma_registry s))"
  obtain a b where ab: "snapshot_dicts (sn_metrics ?snap) (Map.empty, Map.empty) = (a, b)" by (metis surj_pair)
  have c: "(case a (counter_name k) of Some v \<Rightarrow> v | None \<Rightarrow> 0) = ctr s k" for k
  proof -
    have "counter_name k \<noteq> []" by (cases k) simp_all
    then show ?thesis using assms snapshot_counters [of "ma_registry s" "counter_name k" view st pending now]
      by (simp add: names_ok_def ab ctr_def)
  qed
  note cn = c [of TRACKED_SAMPLES_ISSUED] c [of TRACKED_SAMPLES_COMPLETED] c [of TRACKED_SAMPLES_FAILED]
    c [of TRACKED_DURATION_NS] c [of LEGACY_LOADGEN_WINDOW_DURATION_NS] c [of TRACKED_FINISH_REASON_STOP]
    c [of TRACKED_FINISH_REASON_LENGTH] c [of TRACKED_FINISH_REASON_TOOL_CALLS] c [of TRACKED_FINISH_REASON_CONTENT_FILTER]
    c [of TRACKED_FINISH_REASON_FUNCTION_CALL] c [of TRACKED_FINISH_REASON_OTHER]
  have "sn_state ?snap = st" "sn_n_pending_tasks ?snap = pending" by (simp_all add: build_snapshot_def Let_def)
  then show ?thesis
    unfolding report_fields_def from_snapshot_def ab Let_def prod.case
    by (simp add: cn [simplified counter_name.simps] finish_counters_def)
qed

text \<open>C29. The report is the aggregator's account of the run: whatever records it processed, the report built
  from its snapshot counts what its counters count, shows every sample still in flight as dropped, and no
  more finish reasons than completions.  It is complete only if nothing is pending or in flight and every
  issued sample succeeded or failed; and its QPS times the window it used is the number of completions in it.\<close>

theorem report_is_the_account_of_the_run:
  assumes "aggregator_init streaming enable_isl q live coll n (registry_init es) = Inr s0" "agg_run enc evs s0 = Inr s"
    and "rep = from_snapshot dtypes legacy (fst (build_snapshot view st pending now (ma_registry s)))"
  shows "rp_n_issued rep = ctr s TRACKED_SAMPLES_ISSUED \<and> rp_n_completed rep = ctr s TRACKED_SAMPLES_COMPLETED
    \<and> int (card (dom (mt_in_flight (ma_table s)))) \<le> n_samples_dropped rep
    \<and> sum_list (map snd (rp_finish_reasons rep)) \<le> rp_n_completed rep
    \<and> (rp_complete rep \<longrightarrow> rp_state rep = COMPLETE_STATE \<and> pending = 0 \<and> mt_in_flight (ma_table s) = Map.empty
         \<and> n_samples_dropped rep = 0 \<and> n_samples_succeeded rep + rp_n_failed rep = rp_n_issued rep)
    \<and> (\<forall>qps. rp_qps rep = Some qps \<longrightarrow> (case rp_legacy_window_ns rep of
          Some w \<Rightarrow> 0 < w \<and> qps * of_int w = of_int (rp_n_completed rep - 1) * 1000000000
        | None \<Rightarrow> (\<exists>d. rp_duration_ns rep = Some d \<and> 0 < d \<and> qps * of_int d = of_int (rp_n_completed rep) * 1000000000)))"
proof -
  have inv: "agg_inv s" using fresh_aggregator agg_run_ok assms(1,2) by (metis sum.inject(2))
  note i = agg_invD [OF inv]
  have f: "report_fields s legacy st pending rep" unfolding assms(3) by (rule report_of_aggregator [OF i(1)])
  have fin: "finite (dom (mt_in_flight (ma_table s)))" using i(2) by (simp add: table_inv_alt)
  have counts: "rp_n_issued rep = ctr s TRACKED_SAMPLES_ISSUED" "rp_n_completed rep = ctr s TRACKED_SAMPLES_COMPLETED"
    "map snd (rp_finish_reasons rep) = map (ctr s) finish_counters" "rp_state rep = st"
    using f by (simp_all add: report_fields_def)
  have "int (card (dom (mt_in_flight (ma_table s)))) \<le> n_samples_dropped rep"
    using i(3) counts by (simp add: n_samples_dropped_def table_counts_def)
  moreover have "st = COMPLETE_STATE \<and> pending = 0 \<and> mt_in_flight (ma_table s) = Map.empty
      \<and> n_samples_dropped rep = 0 \<and> n_samples_succeeded rep + rp_n_failed rep = rp_n_issued rep" if "rp_complete rep"
  proof -
    have c: "st = COMPLETE_STATE" "pending = 0" "rp_n_failed rep \<le> rp_n_completed rep" "rp_n_completed rep = rp_n_issued rep"
      using f that by (simp_all add: report_fields_def)
    have "card (dom (mt_in_flight (ma_table s))) = 0" using i(3) c counts by (simp add: table_counts_def)
    then show ?thesis using fin c by (simp add: n_samples_dropped_def n_samples_succeeded_def)
  qed
  moreover have "case rp_legacy_window_ns rep of
          Some w \<Rightarrow> 0 < w \<and> qps * of_int w = of_int (rp_n_completed rep - 1) * 1000000000
        | None \<Rightarrow> (\<exists>d. rp_duration_ns rep = Some d \<and> 0 < d \<and> qps * of_int d = of_int (rp_n_completed rep) * 1000000000)"
    if "rp_qps rep = Some qps" for qps
    using f that by (auto simp: report_fields_def throughput_def split: option.splits if_splits)
  ultimately show ?thesis using counts i(8) by simp
qed

definition example_records :: "event_record list" where
  "example_records = published (wlog (snd (foldl issuer_step (phase_issuer_init example_dataset True [], example_world)
     [CallIssue False 0 None [] None, CallIssue False 1 None [] None, CallStopTracking])))"

theorem report_is_the_account_of_the_run_witness:
  "\<exists>s0 s rep. aggregator_init True False True True False 30 (registry_init None) = Inr s0
     \<and> agg_run (\<lambda>_. []) [Arrive example_records] s0 = Inr s
     \<and> rep = from_snapshot (\<lambda>_. IntSeries) True (fst (build_snapshot (\<lambda>hs p. 0, \<lambda>hs. []) COMPLETE_STATE 0 7 (ma_registry s)))
     \<and> rp_n_issued rep = ctr s TRACKED_SAMPLES_ISSUED \<and> sum_list (map snd (rp_finish_reasons rep)) \<le> rp_n_completed rep"
proof -
  obtain s0 where s0: "aggregator_init True False True True False 30 (registry_init None) = Inr s0" "agg_inv s0"
    using fresh_aggregator by metis
  obtain s where run: "agg_run (\<lambda>_. []) [Arrive example_records] s0 = Inr s" using agg_run_ok [OF s0(2)] by blast
  from report_is_the_account_of_the_run [OF s0(1) run refl, of "\<lambda>_. IntSeries" True "(\<lambda>hs p. 0, \<lambda>hs. [])" COMPLETE_STATE 0 7] s0(1) run
  show ?thesis by (intro exI [of _ s0] exI [of _ s]) simp
qed

end
