(* ===== verification/RunOutcome.thy ===== *)
theory RunOutcome
  imports OutputCaching Report
begin

text \<open>
  How a run ends: \<open>_run_benchmark_async\<close>, \<open>finalize_benchmark\<close> and \<open>run_benchmark\<close> of
  \<open>commands/benchmark/execute.py\<close>, the watchdog and the interrupt handler of
  \<open>commands/benchmark/watchdog.py\<close>, and the exit codes of \<open>main.py\<close>.  What the pipeline, the session, the
  drain and the scorers answer is in the records below; \<open>CancelledError\<close> and \<open>KeyboardInterrupt\<close> are no
  \<open>Exception\<close>.
\<close>

section \<open>Watchdog and interrupt handler\<close>

definition cancelled_error :: py_exc where "cancelled_error = OtherException ''CancelledError''"
definition idle_timeout_error :: py_exc where "idle_timeout_error = OtherException ''EndpointResponseIdleTimeoutError''"

definition is_exception :: "py_exc \<Rightarrow> bool" where
  "is_exception e = (e \<noteq> keyboard_interrupt \<and> e \<noteq> cancelled_error)"

text \<open>What a handler does to the run: the calls it makes, in order.\<close>

datatype run_action = ForceExit | RaiseKeyboardInterrupt | CancelTask | StopSession | SetAbort

datatype task_state = NoTaskBound | TaskRunning | TaskDone

record governor =
  gv_interrupted :: bool
  gv_task :: task_state
  gv_loop_running :: bool
  gv_session :: bool



definition governor_bind_session :: "governor \<Rightarrow> governor" where
  "governor_bind_session g = g\<lparr>gv_session := True\<rparr>"

definition on_sigint :: "governor \<Rightarrow> governor \<times> run_action list" where
  "on_sigint g =
     (if gv_interrupted g then (g, [ForceExit])
      else
        (let g1 = g\<lparr>gv_interrupted := True\<rparr>
         in if gv_task g \<noteq> TaskRunning \<or> \<not> gv_loop_running g then (g1, [RaiseKeyboardInterrupt])
            else if \<not> gv_session g then (g1, [CancelTask])
            else (g1, [StopSession, SetAbort])))"

record watchdog =
  wd_fired :: bool
  wd_session :: bool
  wd_task :: bool
  wd_armed :: bool



definition watchdog_bind_session :: "watchdog \<Rightarrow> watchdog \<times> run_action list" where
  "watchdog_bind_session w = (w\<lparr>wd_session := True\<rparr>, if wd_fired w then [StopSession, SetAbort] else [])"

definition watchdog_fire :: "watchdog \<Rightarrow> watchdog \<times> run_action list" where
  "watchdog_fire w =
     (w\<lparr>wd_fired := True, wd_armed := False\<rparr>,
      if wd_session w then [StopSession, SetAbort] else if wd_task w then [CancelTask] else [])"

definition watchdog_cancel :: "watchdog \<Rightarrow> watchdog" where
  "watchdog_cancel w = w\<lparr>wd_armed := False\<rparr>"

text \<open>\<open>_PerfPhaseTimeout\<close>: the delay of the pending timer, if any.\<close>

definition perf_timeout_on_phase_start :: "int option \<Rightarrow> phase_type \<Rightarrow> rat option" where
  "perf_timeout_on_phase_start max_ms t =
     (if t = PERFORMANCE then map_option (\<lambda>ms. of_int ms / 1000) max_ms else None)"

text \<open>Whichever of the two aborts fires, at whatever point after the task is bound, something stops the run.\<close>

datatype abort_event = BindSession | WatchdogFires | Sigint

fun abort_step :: "abort_event \<Rightarrow> watchdog \<times> governor \<Rightarrow> (watchdog \<times> governor) \<times> run_action list" where
  "abort_step BindSession (w, g) =
     (let (w1, acts) = watchdog_bind_session w in ((w1, governor_bind_session g), acts))"
| "abort_step WatchdogFires (w, g) =
     (if wd_armed w then (let (w1, acts) = watchdog_fire w in ((w1, g), acts)) else ((w, g), []))"
| "abort_step Sigint (w, g) = (let (g1, acts) = on_sigint g in ((w, g1), acts))"


section \<open>The asynchronous part of a run\<close>

record bench_result =
  br_report :: "report option"
  br_run_timed_out :: bool
  br_user_interrupted :: bool
  br_stall_error :: bool

text \<open>
  What happens to the run: an error before the session runs, how the session ends and whether it was asked
  to stop, whether waiting for the services fails, the snapshot found on disk and the last one received,
  and whether watchdog and handler had fired when the session ended, when the drain ended and at the end.
\<close>

record async_world =
  aw_setup :: "py_exc option"
  aw_session :: "py_exc option"
  aw_stop_requested :: bool
  aw_drain :: "py_exc option"
  aw_disk :: "metrics_snapshot option"
  aw_latest :: "metrics_snapshot option"
  aw_dtypes :: "string \<Rightarrow> series_dtype"
  aw_legacy :: bool
  aw_fired_at_session :: bool
  aw_interrupted_at_drain :: bool
  aw_fired :: bool
  aw_interrupted :: bool

definition drain_outcome :: "async_world \<Rightarrow> report result" where
  "drain_outcome w =
     (case aw_drain w of
        Some e \<Rightarrow> Inl e
      | None \<Rightarrow>
          (case drained_report (aw_dtypes w) (aw_legacy w) (aw_disk w) (aw_latest w) of
             None \<Rightarrow> Inl execution_error
           | Some r \<Rightarrow> Inr r))"

text \<open>The innermost block: an exception or the stall flag with the report.\<close>

definition run_session_block :: "async_world \<Rightarrow> (bool \<times> report option) result" where
  "run_session_block w =
     (let completed = (aw_session w = None \<and> \<not> aw_stop_requested w);
          pending = (case aw_session w of
              None \<Rightarrow> Inr False
            | Some e \<Rightarrow>
                (if \<not> is_exception e then Inl e
                 else if aw_fired_at_session w then Inr False
                 else if e = idle_timeout_error then Inr True
                 else Inl execution_error))
      in (case drain_outcome w of
            Inl e \<Rightarrow>
              (if \<not> is_exception e then Inl e
               else if completed \<and> \<not> aw_interrupted_at_drain w then Inl e
               else map_sum id (\<lambda>stall. (stall, None)) pending)
          | Inr r \<Rightarrow> map_sum id (\<lambda>stall. (stall, Some r)) pending))"

definition run_async :: "async_world \<Rightarrow> bench_result result" where
  "run_async w =
     (case (case aw_setup w of Some e \<Rightarrow> Inl e | None \<Rightarrow> run_session_block w) of
        Inl e \<Rightarrow>
          (if aw_interrupted w \<and> e = cancelled_error then Inl keyboard_interrupt
           else if aw_fired w \<and> (is_exception e \<or> e = cancelled_error) then Inl execution_error
           else Inl e)
      | Inr (stall, report) \<Rightarrow>
          Inr \<lparr>br_report = report, br_run_timed_out = aw_fired w, br_user_interrupted = aw_interrupted w,
               br_stall_error = stall\<rparr>)"

section \<open>Finalising\<close>

type_synonym scores = "(string \<times> rat) list"

record finalize_world =
  fz_artifacts :: "py_exc option"
  fz_scores :: "py_exc + scores"
  fz_write_report :: "py_exc option"
  fz_tail :: "py_exc option"

definition aborted :: "bench_result \<Rightarrow> bool" where
  "aborted b =
     (br_run_timed_out b \<or> br_user_interrupted b \<or> br_stall_error b
      \<or> (case br_report b of None \<Rightarrow> False | Some r \<Rightarrow> rp_state r = INTERRUPTED_STATE))"

definition interrupted_report :: "report \<Rightarrow> report" where
  "interrupted_report r = r\<lparr>rp_complete := False, rp_state := INTERRUPTED_STATE\<rparr>"

definition mark_aborted :: "bench_result \<Rightarrow> bench_result" where
  "mark_aborted b =
     (case br_report b of
        None \<Rightarrow> b
      | Some r \<Rightarrow>
          (if aborted b \<and> rp_state r \<noteq> INTERRUPTED_STATE then b\<lparr>br_report := Some (interrupted_report r)\<rparr> else b))"

text \<open>\<open>finalize_benchmark\<close>: the result as it leaves it, the report written with its scores, and what it raises.\<close>

definition finalize_benchmark ::
    "finalize_world \<Rightarrow> bench_result \<Rightarrow> bench_result \<times> (report \<times> scores) option \<times> py_exc option" where
  "finalize_benchmark fw b0 =
     (let b = mark_aborted b0
      in (case fz_artifacts fw of
            Some e \<Rightarrow> (b, None, Some e)
          | None \<Rightarrow>
              (let scoring = (if aborted b0 then Inr [] else fz_scores fw);
                   b1 = (if scoring = Inl keyboard_interrupt
                         then b\<lparr>br_report := map_option interrupted_report (br_report b)\<rparr> else b);
                   scores = (case scoring of Inl _ \<Rightarrow> [] | Inr s \<Rightarrow> s);
                   written = map_option (\<lambda>r. (r, scores)) (br_report b1);
                   raised = (case scoring of Inl e \<Rightarrow> Some e | Inr _ \<Rightarrow> None)
               in if br_report b1 \<noteq> None \<and> fz_write_report fw \<noteq> None then (b1, None, fz_write_report fw)
                  else (case raised of
                          Some e \<Rightarrow> (b1, written, Some e)
                        | None \<Rightarrow> (b1, written, fz_tail fw)))))"

section \<open>The run as a command\<close>

record run_world =
  rw_setup :: "py_exc option"
  rw_deadline_passed :: bool
  rw_async :: async_world
  rw_interrupted_after :: bool
  rw_finalize :: finalize_world
  rw_interrupted_end :: bool

definition run_benchmark :: "run_world \<Rightarrow> unit result \<times> (report \<times> scores) option" where
  "run_benchmark w =
     (case rw_setup w of
        Some e \<Rightarrow> (Inl e, None)
      | None \<Rightarrow>
     (if rw_deadline_passed w then (Inl execution_error, None)
      else
        (case run_async (rw_async w) of
           Inl e \<Rightarrow> (Inl e, None)
         | Inr b0 \<Rightarrow>
        (let b1 = b0\<lparr>br_user_interrupted := br_user_interrupted b0 \<or> rw_interrupted_after w\<rparr>;
             (b, written, raised) = finalize_benchmark (rw_finalize w) b1
         in (case raised of
               Some e \<Rightarrow> (Inl e, written)
             | None \<Rightarrow>
                 (if br_user_interrupted b \<or> rw_interrupted_end w then Inl keyboard_interrupt
                  else if br_run_timed_out b then Inl execution_error
                  else if br_stall_error b then Inl execution_error
                  else (case br_report b of
                          None \<Rightarrow> Inl execution_error
                        | Some r \<Rightarrow> (if rp_complete r then Inr () else Inl execution_error)),
                  written))))))"

text \<open>\<open>main.run\<close>.\<close>

definition exit_code :: "unit result \<Rightarrow> nat" where
  "exit_code res =
     (case res of
        Inr _ \<Rightarrow> 0
      | Inl e \<Rightarrow>
          (if e = keyboard_interrupt then 130
           else if e = InputValidationError then 2
           else if e = SetupError then 3
           else if e = execution_error then 4
           else 1))"

section \<open>When a run succeeds\<close>

lemma aborted_cases:
  "aborted b \<longleftrightarrow> br_run_timed_out b \<or> br_user_interrupted b \<or> br_stall_error b
     \<or> (\<exists>r. br_report b = Some r \<and> rp_state r = INTERRUPTED_STATE)"
  by (auto simp: aborted_def split: option.splits)

lemma mark_aborted_fields [simp]:
  "br_run_timed_out (mark_aborted b) = br_run_timed_out b" "br_user_interrupted (mark_aborted b) = br_user_interrupted b"
  "br_stall_error (mark_aborted b) = br_stall_error b" "br_report (mark_aborted b) = None \<longleftrightarrow> br_report b = None"
  by (auto simp: mark_aborted_def split: option.split)

lemma mark_aborted_clean: "\<not> aborted b \<Longrightarrow> mark_aborted b = b"
  by (simp add: mark_aborted_def split: option.split)

lemma mark_aborted_report:
  "aborted b \<Longrightarrow> br_report (mark_aborted b) = Some r \<Longrightarrow> rp_state r = INTERRUPTED_STATE"
  by (auto simp: mark_aborted_def interrupted_report_def split: option.splits if_splits)

lemma finalize_flags:
  assumes "finalize_benchmark fw b = (b', written, raised)"
  shows "br_run_timed_out b' = br_run_timed_out b" "br_user_interrupted b' = br_user_interrupted b"
    "br_stall_error b' = br_stall_error b"
  using assms by (auto simp: finalize_benchmark_def Let_def split: option.splits if_splits sum.splits)

text \<open>An aborted run is written as interrupted and never scored.\<close>

lemma finalize_aborted:
  assumes "finalize_benchmark fw b = (b', written, raised)" "aborted b"
  shows "\<forall>r s. written = Some (r, s) \<longrightarrow> rp_state r = INTERRUPTED_STATE \<and> s = []"
    "\<forall>r. br_report b' = Some r \<longrightarrow> rp_state r = INTERRUPTED_STATE"
  using assms mark_aborted_report [OF assms(2)]
  by (auto simp: finalize_benchmark_def Let_def split: option.splits if_splits)

lemma finalize_clean:
  assumes "\<not> aborted b" "br_report b = Some r"
  shows "finalize_benchmark fw b = (b', written, None) \<longleftrightarrow>
    fz_artifacts fw = None \<and> fz_write_report fw = None \<and> fz_tail fw = None
    \<and> (\<exists>s. fz_scores fw = Inr s \<and> b' = b \<and> written = Some (r, s))"
  using assms
  by (cases "fz_scores fw") (auto simp: finalize_benchmark_def mark_aborted_clean Let_def split: option.splits)

text \<open>The asynchronous part that ends without an exception.\<close>

lemma run_async_ok:
  assumes "run_async w = Inr b"
  shows "aw_setup w = None" "br_run_timed_out b = aw_fired w" "br_user_interrupted b = aw_interrupted w"
    "br_stall_error b \<or> aw_fired_at_session w \<or> aw_session w = None"
    "\<And>r. br_report b = Some r \<Longrightarrow> drain_outcome w = Inr r"
proof -
  obtain stall report where s: "aw_setup w = None" "run_session_block w = Inr (stall, report)"
    "b = \<lparr>br_report = report, br_run_timed_out = aw_fired w, br_user_interrupted = aw_interrupted w, br_stall_error = stall\<rparr>"
    using assms by (auto simp: run_async_def split: option.splits sum.splits if_splits)
  then show "aw_setup w = None" "br_run_timed_out b = aw_fired w" "br_user_interrupted b = aw_interrupted w" by simp_all
  show "br_stall_error b \<or> aw_fired_at_session w \<or> aw_session w = None"
    "\<And>r. br_report b = Some r \<Longrightarrow> drain_outcome w = Inr r"
    using s(2) by (auto simp: s(3) run_session_block_def Let_def split: option.splits sum.splits if_splits)
qed

lemma run_async_clean:
  assumes "aw_setup w = None" "aw_session w = None" "drain_outcome w = Inr r"
  shows "run_async w = Inr \<lparr>br_report = Some r, br_run_timed_out = aw_fired w, br_user_interrupted = aw_interrupted w,
    br_stall_error = False\<rparr>"
  using assms by (simp add: run_async_def run_session_block_def Let_def)

text \<open>The course of a run in which nothing went wrong, with its report and scores.\<close>

definition clean_run :: "run_world \<Rightarrow> report \<Rightarrow> scores \<Rightarrow> bool" where
  "clean_run w r s =
     (let a = rw_async w; f = rw_finalize w
      in rw_setup w = None \<and> \<not> rw_deadline_passed w \<and> aw_setup a = None \<and> aw_session a = None \<and> drain_outcome a = Inr r
       \<and> \<not> aw_fired a \<and> \<not> aw_interrupted a \<and> \<not> rw_interrupted_after w \<and> \<not> rw_interrupted_end w
       \<and> rp_complete r \<and> rp_state r \<noteq> INTERRUPTED_STATE
       \<and> fz_artifacts f = None \<and> fz_scores f = Inr s \<and> fz_write_report f = None \<and> fz_tail f = None)"

text \<open>Flags that once fired stay up.\<close>

definition flags_persist :: "run_world \<Rightarrow> bool" where
  "flags_persist w =
     ((aw_fired_at_session (rw_async w) \<longrightarrow> aw_fired (rw_async w))
      \<and> (rw_interrupted_after w \<longrightarrow> rw_interrupted_end w))"

lemma clean_run_succeeds:
  assumes "clean_run w r s"
  shows "run_benchmark w = (Inr (), Some (r, s))"
proof -
  define b where "b = \<lparr>br_report = Some r, br_run_timed_out = False, br_user_interrupted = False, br_stall_error = False\<rparr>"
  have async: "run_async (rw_async w) = Inr b"
    using assms run_async_clean [of "rw_async w" r] by (simp add: clean_run_def Let_def b_def)
  have "\<not> aborted b" "br_report b = Some r" using assms by (simp_all add: clean_run_def Let_def b_def aborted_def)
  then have "finalize_benchmark (rw_finalize w) b = (b, Some (r, s), None)"
    using assms finalize_clean [of b r "rw_finalize w" b "Some (r, s)"] by (simp add: clean_run_def Let_def)
  moreover have "b\<lparr>br_user_interrupted := False\<rparr> = b" by (simp add: b_def)
  ultimately show ?thesis using assms by (simp add: run_benchmark_def async clean_run_def Let_def) (simp add: b_def)
qed

text \<open>A run that got as far as finalising, taken apart.\<close>

lemma run_benchmark_finalized:
  assumes "run_benchmark w = (res, written)" "res = Inr () \<or> written \<noteq> None"
  obtains b0 b raised where "rw_setup w = None" "\<not> rw_deadline_passed w" "run_async (rw_async w) = Inr b0"
    "finalize_benchmark (rw_finalize w) (b0\<lparr>br_user_interrupted := br_user_interrupted b0 \<or> rw_interrupted_after w\<rparr>) = (b, written, raised)"
    "res = Inr () \<Longrightarrow> raised = None \<and> \<not> br_user_interrupted b \<and> \<not> rw_interrupted_end w \<and> \<not> br_run_timed_out b
       \<and> \<not> br_stall_error b \<and> (\<exists>r. br_report b = Some r \<and> rp_complete r)"
proof -
  have pre: "rw_setup w = None" "\<not> rw_deadline_passed w"
    using assms by (auto simp: run_benchmark_def split: option.splits if_splits)
  obtain b0 where b0: "run_async (rw_async w) = Inr b0"
    using assms pre by (auto simp: run_benchmark_def split: sum.splits)
  obtain b wr raised where f:
    "finalize_benchmark (rw_finalize w) (b0\<lparr>br_user_interrupted := br_user_interrupted b0 \<or> rw_interrupted_after w\<rparr>) = (b, wr, raised)"
    by (metis prod_cases3)
  have run: "run_benchmark w = (case raised of Some e \<Rightarrow> (Inl e, wr)
      | None \<Rightarrow> (if br_user_interrupted b \<or> rw_interrupted_end w then Inl keyboard_interrupt
           else if br_run_timed_out b then Inl execution_error
           else if br_stall_error b then Inl execution_error
           else (case br_report b of None \<Rightarrow> Inl execution_error
                 | Some r \<Rightarrow> (if rp_complete r then Inr () else Inl execution_error)), wr))"
    by (simp add: run_benchmark_def pre b0 Let_def f)
  then have "wr = written" using assms(1) by (auto split: option.splits)
  moreover have "raised = None \<and> \<not> br_user_interrupted b \<and> \<not> rw_interrupted_end w \<and> \<not> br_run_timed_out b
       \<and> \<not> br_stall_error b \<and> (\<exists>r. br_report b = Some r \<and> rp_complete r)" if "res = Inr ()"
    using run assms(1) that by (auto split: option.splits if_splits)
  ultimately show thesis using that pre b0 f by blast
qed

lemma drained_state: "drain_outcome w = Inr r \<Longrightarrow> rp_complete r \<Longrightarrow> rp_state r = COMPLETE_STATE"
  by (auto simp: drain_outcome_def drained_report_state split: option.splits)

lemma mark_aborted_complete: "br_report (mark_aborted b) = Some r \<Longrightarrow> rp_complete r \<Longrightarrow> br_report b = Some r"
  by (auto simp: mark_aborted_def interrupted_report_def split: option.splits if_splits)

text \<open>What finalising leaves complete was complete before, and finalising marks what it leaves unscored.\<close>

lemma finalize_complete:
  assumes "finalize_benchmark fw b = (b', written, None)" "br_report b' = Some r" "rp_complete r"
  shows "br_report b = Some r"
  using assms mark_aborted_complete [of b r] by (auto simp: finalize_benchmark_def Let_def split: option.splits if_splits sum.splits)

lemma success_is_clean:
  assumes "flags_persist w" "run_benchmark w = (Inr (), written)"
  shows "\<exists>r s. clean_run w r s"
proof -
  define up where "up = (\<lambda>b0. b0\<lparr>br_user_interrupted := br_user_interrupted b0 \<or> rw_interrupted_after w\<rparr> :: bench_result)"
  obtain b0 b where f: "rw_setup w = None" "\<not> rw_deadline_passed w" "run_async (rw_async w) = Inr b0"
    "finalize_benchmark (rw_finalize w) (up b0) = (b, written, None)" "\<not> br_user_interrupted b" "\<not> rw_interrupted_end w"
    "\<not> br_run_timed_out b" "\<not> br_stall_error b" "\<exists>r. br_report b = Some r \<and> rp_complete r"
    unfolding up_def by (rule run_benchmark_finalized [OF assms(2)]) simp_all
  note a = run_async_ok [OF f(3)] and g = finalize_flags [OF f(4)]
  have up: "br_report (up b0) = br_report b0" "br_run_timed_out (up b0) = br_run_timed_out b0"
    "br_stall_error (up b0) = br_stall_error b0" "br_user_interrupted (up b0) \<longleftrightarrow> br_user_interrupted b0 \<or> rw_interrupted_after w"
    by (simp_all add: up_def)
  obtain r where r: "br_report b = Some r" "rp_complete r" using f(9) by blast
  have rep: "br_report (up b0) = Some r" by (rule finalize_complete [OF f(4) r])
  then have drained: "drain_outcome (rw_async w) = Inr r" using a(5) up(1) by simp
  then have st: "rp_state r = COMPLETE_STATE" by (rule drained_state [OF _ r(2)])
  have off: "\<not> aw_fired (rw_async w)" "\<not> aw_interrupted (rw_async w)" "\<not> rw_interrupted_after w" "\<not> br_stall_error b0"
    using g up a(2,3) f(5,7,8) by auto
  then have "\<not> aborted (up b0)" using st rep up a(2,3) by (auto simp: aborted_cases)
  from finalize_clean [OF this rep, of "rw_finalize w" b written] f(4) obtain s where
    s: "fz_artifacts (rw_finalize w) = None" "fz_write_report (rw_finalize w) = None" "fz_tail (rw_finalize w) = None"
      "fz_scores (rw_finalize w) = Inr s" by auto
  have "aw_session (rw_async w) = None" using a(4) off assms(1) by (auto simp: flags_persist_def)
  then have "clean_run w r s" using f(1,2,6) a(1) drained off r(2) st s by (simp add: clean_run_def)
  then show ?thesis by blast
qed

lemma aborted_runs_are_marked:
  assumes "flags_persist w" "run_benchmark w = (res, Some (r, s))"
    and "aw_fired (rw_async w) \<or> aw_interrupted (rw_async w) \<or> rw_interrupted_after w \<or> aw_session (rw_async w) \<noteq> None"
  shows "rp_state r = INTERRUPTED_STATE \<and> s = []"
proof -
  define up where "up = (\<lambda>b0. b0\<lparr>br_user_interrupted := br_user_interrupted b0 \<or> rw_interrupted_after w\<rparr> :: bench_result)"
  have "res = Inr () \<or> Some (r, s) \<noteq> None" by simp
  from run_benchmark_finalized [OF assms(2) this] obtain b0 b raised where
    f: "run_async (rw_async w) = Inr b0" "finalize_benchmark (rw_finalize w) (up b0) = (b, Some (r, s), raised)"
    unfolding up_def by metis
  note a = run_async_ok [OF f(1)]
  have "aborted (up b0)" using a(2-4) assms(1,3) by (auto simp: aborted_cases up_def flags_persist_def)
  from finalize_aborted(1) [OF f(2) this] show ?thesis by simp
qed

text \<open>C31. A run succeeds, and the command exits with 0, exactly when nothing went wrong: set up in time, no
  error, timeout, stall or interrupt, a complete report, and every score and file written; then what is on
  disk is that report with its scores.  A report written for a run that was timed out, interrupted or cut
  short by an error before its finalisation is marked interrupted and carries no scores.\<close>

theorem run_succeeds_exactly_when_clean:
  assumes "flags_persist w" and run: "run_benchmark w = (res, written)"
  shows "(exit_code res = 0 \<longleftrightarrow> (\<exists>r s. clean_run w r s \<and> written = Some (r, s)))
    \<and> (\<forall>r s. written = Some (r, s)
         \<and> (aw_fired (rw_async w) \<or> aw_interrupted (rw_async w) \<or> rw_interrupted_after w
            \<or> aw_session (rw_async w) \<noteq> None) \<longrightarrow> rp_state r = INTERRUPTED_STATE \<and> s = [])"
proof
  have "exit_code res = 0 \<longleftrightarrow> res = Inr ()" by (auto simp: exit_code_def split: sum.splits if_splits)
  moreover have "\<exists>r s. clean_run w r s \<and> written = Some (r, s)" if "res = Inr ()"
  proof -
    have "run_benchmark w = (Inr (), written)" using run that by simp
    from success_is_clean [OF assms(1) this] obtain r s where c: "clean_run w r s" by blast
    with clean_run_succeeds [OF c] run show ?thesis by auto
  qed
  moreover have "res = Inr ()" if "\<exists>r s. clean_run w r s \<and> written = Some (r, s)"
    using that clean_run_succeeds run by auto
  ultimately show "exit_code res = 0 \<longleftrightarrow> (\<exists>r s. clean_run w r s \<and> written = Some (r, s))"
    by (intro iffI) simp_all
  show "\<forall>r s. written = Some (r, s) \<and> (aw_fired (rw_async w) \<or> aw_interrupted (rw_async w) \<or> rw_interrupted_after w
      \<or> aw_session (rw_async w) \<noteq> None) \<longrightarrow> rp_state r = INTERRUPTED_STATE \<and> s = []"
    using aborted_runs_are_marked [OF assms(1)] run by blast
qed

definition example_snapshot :: metrics_snapshot where
  "example_snapshot = \<lparr>sn_counter = 3, sn_timestamp_ns = 9, sn_state = COMPLETE_STATE, sn_n_pending_tasks = 0,
     sn_metrics = [CounterStat ''tracked_samples_issued'' 4, CounterStat ''tracked_samples_completed'' 4,
       CounterStat ''tracked_samples_failed'' 1]\<rparr>"

text \<open>A run whose endpoint stalls while its final snapshot is nevertheless complete, and one without a hitch.\<close>

definition example_run :: "py_exc option \<Rightarrow> run_world" where
  "example_run failure = \<lparr>rw_setup = None, rw_deadline_passed = False,
     rw_async = \<lparr>aw_setup = None, aw_session = failure, aw_stop_requested = False, aw_drain = None,
       aw_disk = Some example_snapshot, aw_latest = None, aw_dtypes = (\<lambda>_. IntSeries), aw_legacy = False,
       aw_fired_at_session = False, aw_interrupted_at_drain = False, aw_fired = False, aw_interrupted = False\<rparr>,
     rw_interrupted_after = False,
     rw_finalize = \<lparr>fz_artifacts = None, fz_scores = Inr [(''gpqa'', 1 / 2)], fz_write_report = None, fz_tail = None\<rparr>,
     rw_interrupted_end = False\<rparr>"

theorem run_succeeds_exactly_when_clean_witness:
  "(\<exists>res written. run_benchmark (example_run None) = (res, written) \<and> exit_code res = 0)
   \<and> (\<exists>res r s. run_benchmark (example_run (Some idle_timeout_error)) = (res, Some (r, s)) \<and> exit_code res = 4
        \<and> rp_state r = INTERRUPTED_STATE \<and> s = [])"
proof
  let ?r = "from_snapshot (\<lambda>_. IntSeries) False example_snapshot"
  let ?good = "example_run None" and ?bad = "example_run (Some idle_timeout_error)"
  have fl: "flags_persist ?good" "flags_persist ?bad" by (simp_all add: flags_persist_def example_run_def)
  let ?m = "[''tracked_samples_issued'' \<mapsto> 4, ''tracked_samples_completed'' \<mapsto> 4, ''tracked_samples_failed'' \<mapsto> 1]"
  have "snapshot_dicts (sn_metrics example_snapshot) (Map.empty, Map.empty) = (?m, Map.empty)"
    by (simp add: example_snapshot_def)
  then have c: "rp_complete ?r"
    unfolding from_snapshot_def by (simp only: Let_def prod.case report.simps) (simp add: example_snapshot_def)
  then have st: "rp_state ?r = COMPLETE_STATE" by (rule complete_report_state)
  have "clean_run ?good ?r [(''gpqa'', 1 / 2)]"
    using c st by (simp add: clean_run_def example_run_def drain_outcome_def drained_report_def)
  then show "\<exists>res written. run_benchmark ?good = (res, written) \<and> exit_code res = 0"
    using run_succeeds_exactly_when_clean [OF fl(1) refl [of "run_benchmark ?good", THEN trans [OF _ surjective_pairing]]]
      clean_run_succeeds [of ?good] by (metis prod.collapse snd_conv)
  have "idle_timeout_error \<noteq> keyboard_interrupt" "idle_timeout_error \<noteq> cancelled_error" "execution_error \<noteq> keyboard_interrupt"
    by (simp_all add: idle_timeout_error_def keyboard_interrupt_def cancelled_error_def execution_error_def)
  then have "run_session_block (rw_async ?bad) = Inr (True, Some ?r)"
    by (simp add: example_run_def run_session_block_def drain_outcome_def drained_report_def is_exception_def)
  then have "run_async (rw_async ?bad) = Inr \<lparr>br_report = Some ?r, br_run_timed_out = False, br_user_interrupted = False, br_stall_error = True\<rparr>"
    by (simp add: run_async_def) (simp add: example_run_def)
  then have "run_benchmark ?bad = (Inl execution_error, Some (interrupted_report ?r, []))"
    using c st by (simp add: run_benchmark_def) (simp add: example_run_def finalize_benchmark_def mark_aborted_def aborted_def Let_def)
  moreover have "exit_code (Inl execution_error) = 4" by (simp add: exit_code_def execution_error_def keyboard_interrupt_def)
  ultimately show "\<exists>res r s. run_benchmark ?bad = (res, Some (r, s)) \<and> exit_code res = 4 \<and> rp_state r = INTERRUPTED_STATE \<and> s = []"
    using run_succeeds_exactly_when_clean [OF fl(2), of "Inl execution_error" "Some (interrupted_report ?r, [])"]
    by (simp add: example_run_def)
qed

section \<open>No abort is lost\<close>

definition stops :: "run_action list \<Rightarrow> bool" where
  "stops acts = (StopSession \<in> set acts \<and> SetAbort \<in> set acts)"

lemma stops_append [simp]: "stops xs \<Longrightarrow> stops (xs @ ys)" "stops ys \<Longrightarrow> stops (xs @ ys)"
  by (simp_all add: stops_def)



definition gv_bound :: "governor \<Rightarrow> bool" where
  "gv_bound g = (gv_task g = TaskRunning \<and> gv_loop_running g)"

lemma abort_step_simps [simp]:
  "abort_step BindSession (w, g) = ((w\<lparr>wd_session := True\<rparr>, g\<lparr>gv_session := True\<rparr>), if wd_fired w then [StopSession, SetAbort] else [])"
  "abort_step WatchdogFires (w, g) =
     (if wd_armed w then ((w\<lparr>wd_fired := True, wd_armed := False\<rparr>, g),
         if wd_session w then [StopSession, SetAbort] else if wd_task w then [CancelTask] else []) else ((w, g), []))"
  "gv_bound g \<Longrightarrow> abort_step Sigint (w, g) =
     ((w, g\<lparr>gv_interrupted := True\<rparr>),
      if gv_interrupted g then [ForceExit] else if gv_session g then [StopSession, SetAbort] else [CancelTask])"
  by (simp_all add: watchdog_bind_session_def governor_bind_session_def watchdog_fire_def on_sigint_def gv_bound_def Let_def)

lemma gv_bound_kept [simp]:
  "gv_bound g \<Longrightarrow> gv_bound (g\<lparr>gv_session := b\<rparr>)" "gv_bound g \<Longrightarrow> gv_bound (g\<lparr>gv_interrupted := b\<rparr>)"
  by (simp_all add: gv_bound_def)

declare abort_step.simps [simp del]









end
