(* ===== verification/TrendTests.thy ===== *)
theory TrendTests
  imports SuperPass
begin

text \<open>
  The statistics of \<open>metrics/steady_state_diagnostics.py\<close>: coefficient of variation, histograms and summaries,
  batch-means intervals, Pettitt's change point and the trend tests.  Samples are exact rationals, roots,
  powers and exponentials real numbers; the normal distribution function, computed in the program from
  \<open>math.erf\<close>, is the argument \<open>phi\<close>.
\<close>

section \<open>Constants\<close>

definition DEFAULT_COV_BOUNDS :: "rat list" where "DEFAULT_COV_BOUNDS = [3 / 100, 5 / 100, 8 / 100]"
definition MIN_TREND_N :: nat where "MIN_TREND_N = 4"
definition REL_DRIFT_THRESHOLD :: rat where "REL_DRIFT_THRESHOLD = 15 / 100"
definition SNR_THRESHOLD :: real where "SNR_THRESHOLD = 2"
definition TREND_REL_DRIFT_MIN :: rat where "TREND_REL_DRIFT_MIN = 5 / 100"
definition CI_Z_95 :: rat where "CI_Z_95 = 196 / 100"
definition ZERO_MEDIAN_FLOOR :: rat where "ZERO_MEDIAN_FLOOR = 1 / 1000000000"

section \<open>Averages, medians and spread\<close>

definition average :: "rat list \<Rightarrow> rat" where
  "average vs = sum_list vs / of_nat (length vs)"

text \<open>\<open>statistics.median\<close> and \<open>statistics.pstdev\<close>.\<close>

definition median :: "rat list \<Rightarrow> rat" where
  "median vs =
     (let s = sort vs; n = length vs
      in if odd n then s ! (n div 2) else (s ! (n div 2 - 1) + s ! (n div 2)) / 2)"

definition pvariance :: "rat list \<Rightarrow> rat" where
  "pvariance vs = sum_list (map (\<lambda>v. (v - average vs)\<^sup>2) vs) / of_nat (length vs)"

definition pstdev :: "rat list \<Rightarrow> real" where "pstdev vs = sqrt (of_rat (pvariance vs))"

definition cov :: "rat list \<Rightarrow> real" where
  "cov vs =
     (if length vs < 2 then 0
      else if average vs = 0 then 0 else pstdev vs / of_rat \<bar>average vs\<bar>)"

definition median_or_floor :: "rat list \<Rightarrow> rat" where
  "median_or_floor vs = (if median vs \<noteq> 0 then median vs else ZERO_MEDIAN_FLOOR)"

definition two_sided_p :: "(real \<Rightarrow> real) \<Rightarrow> real \<Rightarrow> real" where
  "two_sided_p phi stat = 2 * (1 - phi \<bar>stat\<bar>)"

section \<open>Summaries\<close>

record hist_bin =
  hb_lo :: real
  hb_hi :: real
  hb_count :: nat

definition histogram_edges :: "rat \<Rightarrow> rat \<Rightarrow> nat \<Rightarrow> real list" where
  "histogram_edges lo hi nbins =
     (if lo > 0 then map (\<lambda>i. of_rat lo * of_rat (hi / lo) powr (real i / real nbins)) [0..<nbins + 1]
      else map (\<lambda>i. of_rat (lo + (hi - lo) * of_nat i / of_nat nbins)) [0..<nbins + 1])"

text \<open>The bin a value is counted in: the last one from \<open>hi\<close> on, else the first whose upper edge is above it.\<close>

definition histogram_bin :: "rat \<Rightarrow> real list \<Rightarrow> nat \<Rightarrow> rat \<Rightarrow> nat option" where
  "histogram_bin hi edges nbins v =
     (if v \<ge> hi then Some (nbins - 1) else find (\<lambda>b. of_rat v < edges ! (b + 1)) [0..<nbins])"

definition histogram :: "rat list \<Rightarrow> nat \<Rightarrow> hist_bin list" where
  "histogram vs nbins =
     (let lo = Min (set vs); hi = Max (set vs)
      in if lo = hi then [\<lparr>hb_lo = of_rat lo, hb_hi = of_rat hi, hb_count = length vs\<rparr>]
         else
           (let edges = histogram_edges lo hi nbins;
                counts = foldl (\<lambda>cs v. case histogram_bin hi edges nbins v of
                    None \<Rightarrow> cs | Some b \<Rightarrow> cs[b := cs ! b + 1]) (replicate nbins 0) vs
            in map (\<lambda>b. \<lparr>hb_lo = edges ! b, hb_hi = edges ! (b + 1), hb_count = counts ! b\<rparr>) [0..<nbins]))"

record summary =
  sy_count :: nat
  sy_mean :: rat
  sy_min :: rat
  sy_max :: rat
  sy_p50 :: rat
  sy_p90 :: rat
  sy_p99 :: rat
  sy_histogram :: "hist_bin list"

text \<open>Of a nonempty list; the percentile of an empty one raises, and the caller never asks for it.\<close>

definition percentile_of :: "rat list \<Rightarrow> rat \<Rightarrow> rat" where
  "percentile_of vs p = (case percentile_lower (sort vs) p of Inr v \<Rightarrow> v | Inl _ \<Rightarrow> 0)"

definition summarize :: "rat list \<Rightarrow> summary" where
  "summarize vs =
     (let s = sort vs
      in \<lparr>sy_count = length s, sy_mean = average s, sy_min = hd s, sy_max = last s, sy_p50 = percentile_of vs (50 / 100),
          sy_p90 = percentile_of vs (90 / 100), sy_p99 = percentile_of vs (99 / 100), sy_histogram = histogram s 20\<rparr>)"

section \<open>Batch-means intervals and rates\<close>

definition T_CRIT_95 :: "(nat \<times> rat) list" where
  "T_CRIT_95 = zip [1..<31] (map (\<lambda>k. of_nat k / 1000)
     [12706, 4303, 3182, 2776, 2571, 2447, 2365, 2306, 2262, 2228, 2201, 2179, 2160, 2145, 2131,
      2120, 2110, 2101, 2093, 2086, 2080, 2074, 2069, 2064, 2060, 2056, 2052, 2048, 2045, 2042])"

definition t_crit_95 :: "nat \<Rightarrow> rat" where
  "t_crit_95 df = (case map_of T_CRIT_95 df of Some t \<Rightarrow> t | None \<Rightarrow> 196 / 100)"

definition batch_means_ci :: "rat list \<Rightarrow> real \<times> real" where
  "batch_means_ci bs =
     (let k = length bs; m = of_rat (average bs)
      in if k = 0 then (0, 0)
         else if k < 2 then (m, m)
         else
           (let var = sum_list (map (\<lambda>b. (b - average bs)\<^sup>2) bs) / of_nat (k - 1);
                se = sqrt (of_rat var) / sqrt (real k); crit = of_rat (t_crit_95 (k - 1))
            in (m - crit * se, m + crit * se)))"

definition per_user_tps :: "real \<Rightarrow> real" where
  "per_user_tps mean_tpot_ns = (if mean_tpot_ns > 0 then 1000000000 / mean_tpot_ns else 0)"

definition system_tps :: "int \<Rightarrow> int \<Rightarrow> rat" where
  "system_tps out_tokens elapsed_ns = (if elapsed_ns > 0 then of_int out_tokens / (of_int elapsed_ns / 1000000000) else 0)"

section \<open>Ranks and the change point\<close>

text \<open>\<open>_average_ranks\<close>: the indices in the order of their values, one group of ties after the other.\<close>

function rank_ties :: "rat list \<Rightarrow> nat \<Rightarrow> nat list \<Rightarrow> (nat \<times> rat) list" where
  "rank_ties vs i [] = []"
| "rank_ties vs i (k # ks) =
     (let tied = k # takeWhile (\<lambda>j. vs ! j = vs ! k) ks; j = i + length tied - 1
      in map (\<lambda>l. (l, of_nat (i + 1 + j + 1) / 2)) tied @ rank_ties vs (j + 1) (dropWhile (\<lambda>j. vs ! j = vs ! k) ks))"
  by pat_completeness auto

termination
  by (relation "measure (\<lambda>(vs, i, ks). length ks)") (auto simp: le_imp_less_Suc length_dropWhile_le)

definition order_of :: "rat list \<Rightarrow> nat list" where
  "order_of vs = sort_key (\<lambda>i. vs ! i) [0..<length vs]"

definition average_ranks :: "rat list \<Rightarrow> rat list" where
  "average_ranks vs = foldl (\<lambda>ranks (k, r). ranks[k := r]) (replicate (length vs) 0) (rank_ties vs 0 (order_of vs))"

record change_point =
  cp_index :: nat
  cp_k_stat :: rat
  cp_pvalue :: real
  cp_significant :: bool

text \<open>The loop over the split points: the running sum, the statistic and the split so far.\<close>

definition pettitt_step :: "rat list \<Rightarrow> rat \<times> rat \<times> nat \<Rightarrow> nat \<Rightarrow> rat \<times> rat \<times> nat" where
  "pettitt_step ranks st t =
     (case st of (cum, k, cp) \<Rightarrow>
        (let cum' = cum + ranks ! (t - 1); u = 2 * cum' - of_nat (t * (length ranks + 1))
         in if \<bar>u\<bar> > k then (cum', \<bar>u\<bar>, t) else (cum', k, cp)))"

definition pettitt :: "rat list \<Rightarrow> change_point" where
  "pettitt vs =
     (let n = length vs
      in if n < MIN_TREND_N then \<lparr>cp_index = 0, cp_k_stat = 0, cp_pvalue = 1, cp_significant = False\<rparr>
         else
           (let (cum, k, cp) = foldl (pettitt_step (average_ranks vs)) (0, 0, 0) [1..<n];
                p = min 1 (2 * exp (- 6 * of_rat k * of_rat k / real (n ^ 3 + n ^ 2)))
            in \<lparr>cp_index = cp, cp_k_stat = k, cp_pvalue = p, cp_significant = (p < 5 / 100)\<rparr>))"

section \<open>Trend tests\<close>

datatype verdict = TrendUp | TrendDown | TrendSteady | TrendInsufficient

record trend_result =
  tr_verdict :: verdict
  tr_slope :: rat
  tr_statistic :: real
  tr_pvalue :: "real option"
  tr_variance :: rat
  tr_rel_drift :: rat
  tr_snr :: real

definition plain_result :: "verdict \<Rightarrow> trend_result" where
  "plain_result v = \<lparr>tr_verdict = v, tr_slope = 0, tr_statistic = 0, tr_pvalue = None, tr_variance = 0,
     tr_rel_drift = 0, tr_snr = 0\<rparr>"

definition insufficient :: trend_result where "insufficient = plain_result TrendInsufficient"

definition direction :: "rat \<Rightarrow> verdict" where
  "direction x = (if x > 0 then TrendUp else if x < 0 then TrendDown else TrendSteady)"

definition significant_verdict :: "rat \<Rightarrow> real \<Rightarrow> real \<Rightarrow> verdict" where
  "significant_verdict effect pvalue alpha =
     (if pvalue < alpha \<and> effect > 0 then TrendUp
      else if pvalue < alpha \<and> effect < 0 then TrendDown else TrendSteady)"

definition sign :: "rat \<Rightarrow> int" where
  "sign d = (if d > 0 then 1 else 0) - (if d < 0 then 1 else 0)"

definition mk_S :: "rat list \<Rightarrow> int" where
  "mk_S vs =
     (let n = length vs
      in \<Sum>i\<leftarrow>[0..<n - 1]. \<Sum>j\<leftarrow>[i + 1..<n]. sign (vs ! j - vs ! i))"

definition mk_variance :: "rat list \<Rightarrow> rat" where
  "mk_variance vs =
     (let n = int (length vs);
          tie_term = (\<Sum>v\<leftarrow>remdups vs. let t = int (count_list vs v) in t * (t - 1) * (2 * t + 5))
      in of_int (n * (n - 1) * (2 * n + 5) - tie_term) / 18)"

definition mk_verdict :: "(real \<Rightarrow> real) \<Rightarrow> int \<Rightarrow> rat \<Rightarrow> real \<Rightarrow> trend_result" where
  "mk_verdict phi s variance alpha =
     (if variance \<le> 0
      then (plain_result (direction (of_int s)))\<lparr>tr_statistic := of_int s, tr_pvalue := Some 0, tr_variance := variance\<rparr>
      else
        (let z = (if s > 0 then of_int (s - 1) / sqrt (of_rat variance)
                  else if s < 0 then of_int (s + 1) / sqrt (of_rat variance) else 0);
             p = two_sided_p phi z
         in (plain_result (significant_verdict (of_int s) p alpha))
              \<lparr>tr_statistic := of_int s, tr_pvalue := Some p, tr_variance := variance\<rparr>))"

definition mann_kendall :: "(real \<Rightarrow> real) \<Rightarrow> rat list \<Rightarrow> trend_result" where
  "mann_kendall phi vs =
     (if length vs < MIN_TREND_N then insufficient else mk_verdict phi (mk_S vs) (mk_variance vs) (5 / 100))"

text \<open>Ranks without ties, as enumerated by the stable sort.\<close>

definition plain_ranks :: "rat list \<Rightarrow> rat list" where
  "plain_ranks vs =
     foldl (\<lambda>ranks (rank, k). ranks[k := of_nat rank]) (replicate (length vs) 0) (enumerate 1 (order_of vs))"

definition autocorr_of_ranks :: "rat list \<Rightarrow> rat list" where
  "autocorr_of_ranks vs =
     (let n = length vs; ranks = plain_ranks vs; dev = map (\<lambda>r. r - average ranks) ranks;
          denom = (\<Sum>d\<leftarrow>dev. d * d)
      in if denom = 0 then replicate (n - 1) 0
         else map (\<lambda>k. (\<Sum>t\<leftarrow>[k..<n]. dev ! t * dev ! (t - k)) / denom) [1..<n])"

definition hamed_rao_correction :: "rat list \<Rightarrow> rat" where
  "hamed_rao_correction vs =
     (let n = length vs; acf = autocorr_of_ranks vs; ci = of_rat CI_Z_95 / sqrt (real n);
          factor_sum = (\<Sum>k\<leftarrow>[1..<n]. if of_rat \<bar>acf ! (k - 1)\<bar> \<le> ci then 0
            else of_int ((int n - int k) * (int n - int k - 1) * (int n - int k - 2)) * acf ! (k - 1));
          correction = 1 + 2 / of_int (int n * (int n - 1) * (int n - 2)) * factor_sum
      in if correction \<le> 0 then 1 else correction)"

definition mann_kendall_hamed_rao :: "(real \<Rightarrow> real) \<Rightarrow> rat list \<Rightarrow> trend_result" where
  "mann_kendall_hamed_rao phi vs =
     (if length vs < MIN_TREND_N then insufficient
      else mk_verdict phi (mk_S vs) (mk_variance vs * hamed_rao_correction vs) (5 / 100))"

definition theil_sen :: "rat list \<Rightarrow> trend_result" where
  "theil_sen vs =
     (let n = length vs
      in if n < MIN_TREND_N then insufficient
         else
           (let slopes = concat (map (\<lambda>i. map (\<lambda>j. (vs ! j - vs ! i) / of_nat (j - i)) [i + 1..<n]) [0..<n - 1]);
                slope = median slopes; rel = slope * of_nat (n - 1) / median_or_floor vs
            in (plain_result (if \<bar>rel\<bar> < REL_DRIFT_THRESHOLD then TrendSteady else direction rel))
                 \<lparr>tr_slope := slope, tr_rel_drift := rel\<rparr>))"

text \<open>The least-squares line over the positions: slope, spread of the positions and residuals.\<close>

definition ols :: "rat list \<Rightarrow> rat \<times> rat \<times> rat list" where
  "ols vs =
     (let n = length vs; xbar = (of_nat n - 1) / 2; ybar = average vs;
          sxx = (\<Sum>x\<leftarrow>[0..<n]. (of_nat x - xbar)\<^sup>2);
          sxy = (\<Sum>x\<leftarrow>[0..<n]. (of_nat x - xbar) * (vs ! x - ybar));
          slope = (if sxx \<noteq> 0 then sxy / sxx else 0); intercept = ybar - slope * xbar
      in (slope, sxx, map (\<lambda>x. vs ! x - (intercept + slope * of_nat x)) [0..<n]))"

definition rel_drift :: "rat list \<Rightarrow> rat" where
  "rel_drift vs =
     (if length vs < 2 then 0 else fst (ols vs) * of_nat (length vs - 1) / median_or_floor vs)"

definition newey_west :: "(real \<Rightarrow> real) \<Rightarrow> rat list \<Rightarrow> trend_result" where
  "newey_west phi vs =
     (let n = length vs
      in if n < MIN_TREND_N then insufficient
         else
           (let (slope, sxx, resid) = ols vs
            in if sxx = 0 then plain_result TrendSteady
               else
                 (let xbar = (of_nat n - 1) / 2; u = map (\<lambda>x. (of_nat x - xbar) * resid ! x) [0..<n];
                      lag = max 1 (nat \<lfloor>4 * (real n / 100) powr (2 / 9)\<rfloor>);
                      s = (\<Sum>ui\<leftarrow>u. ui * ui)
                        + (\<Sum>lg\<leftarrow>[1..<min lag (n - 1) + 1].
                             2 * (1 - of_nat lg / (of_nat lag + 1)) * (\<Sum>t\<leftarrow>[lg..<n]. u ! t * u ! (t - lg)));
                      var_b = s / (sxx * sxx); se = (if var_b > 0 then sqrt (of_rat var_b) else 0)
                  in if se = 0 then (plain_result (direction slope))\<lparr>tr_slope := slope, tr_pvalue := Some 0\<rparr>
                     else
                       (let t = of_rat slope / se; p = two_sided_p phi t
                        in (plain_result (significant_verdict slope p (5 / 100)))
                             \<lparr>tr_slope := slope, tr_statistic := t, tr_pvalue := Some p\<rparr>))))"

definition slope_vs_scatter :: "rat list \<Rightarrow> trend_result" where
  "slope_vs_scatter vs =
     (let n = length vs
      in if n < MIN_TREND_N then insufficient
         else
           (let (slope, sxx, resid) = ols vs; total_change = slope * of_nat (n - 1);
                rel = total_change / median_or_floor vs;
                snr = of_rat \<bar>total_change\<bar> / (pstdev resid + of_rat ZERO_MEDIAN_FLOOR)
            in (plain_result (if \<bar>rel\<bar> \<ge> REL_DRIFT_THRESHOLD \<and> snr \<ge> SNR_THRESHOLD then direction rel else TrendSteady))
                 \<lparr>tr_slope := slope, tr_snr := snr, tr_rel_drift := rel\<rparr>))"

definition algorithms :: "(real \<Rightarrow> real) \<Rightarrow> (string \<times> (rat list \<Rightarrow> trend_result)) list" where
  "algorithms phi =
     [(''mk_hamed_rao'', mann_kendall_hamed_rao phi), (''mann_kendall'', mann_kendall phi), (''newey_west'', newey_west phi),
      (''theil_sen'', theil_sen), (''slope_vs_scatter'', slope_vs_scatter)]"

end
