(* ===== verification/TrendFacts.thy ===== *)
theory TrendFacts
  imports TrendTests
begin

text \<open>
  The ranks the program computes are the textbook ranks, and the change point it reports is Pettitt's:
  the split that maximises the rank statistic.  The Mann-Kendall statistic changes sign when the series is
  read backwards, its variance does not and is never negative.
\<close>

section \<open>Ranks\<close>

text \<open>The rank of a value among others, ties sharing the average of their ranks.\<close>

definition rank_among :: "rat list \<Rightarrow> nat list \<Rightarrow> nat \<Rightarrow> rat" where
  "rank_among vs ks k =
     of_nat (length (filter (\<lambda>j. vs ! j < vs ! k) ks)) + (of_nat (length (filter (\<lambda>j. vs ! j = vs ! k) ks)) + 1) / 2"

lemma sorted_tail_above:
  assumes "sorted (map f (k # ks))" "j \<in> set (dropWhile (\<lambda>j. f j = f k) ks)"
  shows "f k < (f j :: rat)"
  using assms
proof (induction ks)
  case (Cons x xs)
  show ?case
  proof (cases "f x = f k")
    case True
    then show ?thesis using Cons by simp
  next
    case False
    then have "f k < f x" using Cons.prems(1) by simp
    moreover have "j \<in> set (x # xs)" using Cons.prems(2) False by simp
    then have "f x \<le> f j" using Cons.prems(1) by auto
    ultimately show ?thesis by simp
  qed
qed simp

lemma rank_ties_ranks:
  "sorted (map (\<lambda>j. vs ! j) ks) \<Longrightarrow> \<forall>d\<in>set before. \<forall>k\<in>set ks. vs ! d < vs ! k \<Longrightarrow> i = length before
     \<Longrightarrow> rank_ties vs i ks = map (\<lambda>k. (k, rank_among vs (before @ ks) k)) ks"
proof (induction vs i ks arbitrary: before rule: rank_ties.induct)
  case (2 vs i k ks)
  define eq rest where "eq = k # takeWhile (\<lambda>j. vs ! j = vs ! k) ks" and "rest = dropWhile (\<lambda>j. vs ! j = vs ! k) ks"
  have split: "k # ks = eq @ rest" by (simp add: eq_def rest_def)
  have eqv: "vs ! j = vs ! k" if "j \<in> set eq" for j using that by (auto simp: eq_def dest: set_takeWhileD)
  have restv: "vs ! k < vs ! j" if "j \<in> set rest" for j
    using sorted_tail_above [of "\<lambda>j. vs ! j" k ks j] "2.prems"(1) that by (simp add: rest_def)
  have bef: "vs ! d < vs ! k" if "d \<in> set before" for d using "2.prems"(2) that by simp
  have r: "rank_among vs (before @ k # ks) l = of_nat (i + 1 + (i + length eq - 1) + 1) / 2" if "l \<in> set eq" for l
  proof -
    have l: "vs ! l = vs ! k" by (rule eqv [OF that])
    have "filter (\<lambda>j. vs ! j < vs ! l) before = before" unfolding l by (rule filter_True) (simp add: bef)
    moreover have "filter (\<lambda>j. vs ! j < vs ! l) rest = []" unfolding l by (rule filter_False) (use restv in fastforce)
    moreover have "filter (\<lambda>j. vs ! j < vs ! l) eq = []" unfolding l by (rule filter_False) (use eqv in fastforce)
    moreover have "filter (\<lambda>j. vs ! j = vs ! l) before = []" unfolding l by (rule filter_False) (use bef in fastforce)
    moreover have "filter (\<lambda>j. vs ! j = vs ! l) rest = []" unfolding l by (rule filter_False) (use restv in fastforce)
    moreover have "filter (\<lambda>j. vs ! j = vs ! l) eq = eq" unfolding l by (rule filter_True) (simp add: eqv)
    ultimately have "filter (\<lambda>j. vs ! j < vs ! l) (before @ eq @ rest) = before"
      "filter (\<lambda>j. vs ! j = vs ! l) (before @ eq @ rest) = eq" by simp_all
    moreover have "i + 1 + (i + length eq - 1) + 1 = 2 * i + length eq + 1" by (simp add: eq_def)
    ultimately show ?thesis unfolding rank_among_def split using "2.prems"(3) by (simp add: field_simps)
  qed
  have "i + length eq - 1 + 1 = length (before @ eq)" using "2.prems"(3) by (simp add: eq_def)
  moreover have "sorted (map (\<lambda>j. vs ! j) rest)" using "2.prems"(1) by (simp add: split sorted_append)
  moreover have "\<forall>d\<in>set (before @ eq). \<forall>k\<in>set rest. vs ! d < vs ! k" using eqv restv bef by (auto intro: less_trans)
  ultimately have "rank_ties vs (i + length eq - 1 + 1) rest = map (\<lambda>k. (k, rank_among vs ((before @ eq) @ rest) k)) rest"
    using "2.IH" [of eq "i + length eq - 1" "before @ eq"] by (simp add: eq_def rest_def)
  moreover have "rank_ties vs i (k # ks) = map (\<lambda>l. (l, of_nat (i + 1 + (i + length eq - 1) + 1) / 2)) eq
      @ rank_ties vs (i + length eq - 1 + 1) rest" by (simp only: rank_ties.simps Let_def eq_def rest_def)
  moreover have "map (\<lambda>l. (l, of_nat (i + 1 + (i + length eq - 1) + 1) / 2)) eq
      = map (\<lambda>l. (l, rank_among vs (before @ k # ks) l)) eq" using r by simp
  ultimately show ?case by (simp only: split append_assoc map_append)
qed simp

lemma scatter_assignments:
  "distinct ks \<Longrightarrow> \<forall>k\<in>set ks. k < length ranks \<Longrightarrow> j < length ranks \<Longrightarrow>
     foldl (\<lambda>ranks (k, r). ranks[k := r]) ranks (map (\<lambda>k. (k, f k)) ks) ! j = (if j \<in> set ks then f j else ranks ! j)"
  by (induction ks arbitrary: ranks) (auto simp: nth_list_update)

lemma scatter_length: "length (foldl (\<lambda>ranks (k, r). ranks[k := r]) ranks asg) = length ranks"
  by (induction asg arbitrary: ranks) auto

lemma order_of_props:
  "sorted (map (\<lambda>j. vs ! j) (order_of vs))" "distinct (order_of vs)" "set (order_of vs) = {..<length vs}"
  "length (filter P (order_of vs)) = length (filter P [0..<length vs])"
  by (auto simp: order_of_def filter_sort)

theorem average_ranks_are_ranks:
  assumes "k < length vs"
  shows "average_ranks vs ! k = rank_among vs [0..<length vs] k"
proof -
  have "rank_ties vs 0 (order_of vs) = map (\<lambda>k. (k, rank_among vs (order_of vs) k)) (order_of vs)"
    using rank_ties_ranks [of vs "order_of vs" "[]" 0] order_of_props(1) by simp
  then have "average_ranks vs ! k = rank_among vs (order_of vs) k"
    using scatter_assignments [of "order_of vs" "replicate (length vs) 0" k] order_of_props(2,3) [of vs] assms
    by (simp add: average_ranks_def)
  then show ?thesis by (simp add: rank_among_def order_of_props(4))
qed

lemma length_average_ranks [simp]: "length (average_ranks vs) = length vs"
  by (simp add: average_ranks_def scatter_length)

lemma sign_simps [simp]: "sign (a - a) = 0" and sign_swap: "sign (a - b) = - sign (b - a)"
  by (simp_all add: sign_def)

text \<open>A rank is half the signs towards all values, from the middle.\<close>

lemma sign_counts:
  "(\<Sum>j\<leftarrow>ks. (of_int (sign (a - f j)) :: rat)) + of_nat (length ks)
     = 2 * of_nat (length (filter (\<lambda>j. f j < a) ks)) + of_nat (length (filter (\<lambda>j. f j = a) ks))"
proof (induction ks)
  case (Cons x xs)
  then show ?case by (cases "f x" a rule: linorder_cases) (simp_all add: sign_def)
qed simp

lemma rank_by_signs:
  assumes "k < length vs"
  shows "2 * average_ranks vs ! k = of_nat (length vs + 1) + (\<Sum>j<length vs. of_int (sign (vs ! k - vs ! j)))"
proof -
  have "(\<Sum>j<length vs. of_int (sign (vs ! k - vs ! j))) = (\<Sum>j\<leftarrow>[0..<length vs]. (of_int (sign (vs ! k - vs ! j)) :: rat))"
    by (simp add: interv_sum_list_conv_sum_set_nat atLeast0LessThan)
  then show ?thesis using sign_counts [of "vs ! k" "\<lambda>j. vs ! j" "[0..<length vs]"]
    by (simp add: average_ranks_are_ranks [OF assms] rank_among_def field_simps)
qed

section \<open>The change point\<close>

text \<open>Pettitt's statistic of a split: how much the values after it lie below those before it.\<close>

definition split_statistic :: "rat list \<Rightarrow> nat \<Rightarrow> int" where
  "split_statistic vs t = (\<Sum>i<t. \<Sum>j\<in>{t..<length vs}. sign (vs ! i - vs ! j))"

lemma signs_cancel: "(\<Sum>i<t. \<Sum>j<t. sign (f i - f j)) = 0" for f :: "nat \<Rightarrow> rat"
proof -
  have "(\<Sum>i<t. \<Sum>j<t. sign (f i - f j)) = (\<Sum>j<t. \<Sum>i<t. sign (f i - f j))" by (rule sum.swap)
  also have "\<dots> = (\<Sum>j<t. \<Sum>i<t. - sign (f j - f i))" by (intro sum.cong refl sign_swap)
  also have "\<dots> = - (\<Sum>i<t. \<Sum>j<t. sign (f i - f j))" by (simp add: sum_negf)
  finally show ?thesis by simp
qed

lemma rank_sum_is_statistic:
  assumes "t \<le> length vs"
  shows "2 * (\<Sum>i<t. average_ranks vs ! i) - of_nat (t * (length vs + 1)) = of_int (split_statistic vs t)"
proof -
  let ?n = "length vs"
  have "2 * (\<Sum>i<t. average_ranks vs ! i) = (\<Sum>i<t. of_nat (?n + 1) + (\<Sum>j<?n. of_int (sign (vs ! i - vs ! j))))"
    unfolding sum_distrib_left by (rule sum.cong) (use assms rank_by_signs in auto)
  also have "\<dots> = of_nat (t * (?n + 1)) + (\<Sum>i<t. \<Sum>j<?n. of_int (sign (vs ! i - vs ! j)))"
    by (simp add: sum.distrib algebra_simps)
  also have "(\<Sum>i<t. \<Sum>j<?n. of_int (sign (vs ! i - vs ! j))) = (of_int (\<Sum>i<t. \<Sum>j<?n. sign (vs ! i - vs ! j)) :: rat)" by simp
  also have "(\<Sum>i<t. \<Sum>j<?n. sign (vs ! i - vs ! j)) = split_statistic vs t"
  proof -
    have u: "{..<?n} = {..<t} \<union> {t..<?n}" using assms by auto
    have "(\<Sum>j<?n. sign (vs ! i - vs ! j)) = (\<Sum>j<t. sign (vs ! i - vs ! j)) + (\<Sum>j\<in>{t..<?n}. sign (vs ! i - vs ! j))" for i
      unfolding u by (rule sum.union_disjoint) auto
    then show ?thesis using signs_cancel [of "\<lambda>i. vs ! i" t] by (simp add: sum.distrib split_statistic_def)
  qed
  finally show ?thesis by simp
qed

lemma pettitt_scan:
  assumes "m \<le> length vs" "1 \<le> m"
  shows "\<exists>k cp. foldl (pettitt_step (average_ranks vs)) (0, 0, 0) [1..<m] = ((\<Sum>i<m - 1. average_ranks vs ! i), k, cp)
    \<and> (\<forall>t. 1 \<le> t \<and> t < m \<longrightarrow> of_int \<bar>split_statistic vs t\<bar> \<le> k)
    \<and> (if cp = 0 then k = 0 else 1 \<le> cp \<and> cp < m \<and> k = of_int \<bar>split_statistic vs cp\<bar>
         \<and> (\<forall>t. 1 \<le> t \<and> t < cp \<longrightarrow> \<bar>split_statistic vs t\<bar> < \<bar>split_statistic vs cp\<bar>))"
  using assms(2,1)
proof (induction m rule: nat_induct_at_least)
  case (Suc m)
  then obtain k cp where st: "foldl (pettitt_step (average_ranks vs)) (0, 0, 0) [1..<m] = ((\<Sum>i<m - 1. average_ranks vs ! i), k, cp)"
    and ub: "\<And>t. 1 \<le> t \<Longrightarrow> t < m \<Longrightarrow> of_int \<bar>split_statistic vs t\<bar> \<le> k"
    and cp: "if cp = 0 then k = 0 else 1 \<le> cp \<and> cp < m \<and> k = of_int \<bar>split_statistic vs cp\<bar>
         \<and> (\<forall>t. 1 \<le> t \<and> t < cp \<longrightarrow> \<bar>split_statistic vs t\<bar> < \<bar>split_statistic vs cp\<bar>)" by auto
  let ?u = "of_int (split_statistic vs m) :: rat"
  have cum: "(\<Sum>i<m - 1. average_ranks vs ! i) + average_ranks vs ! (m - 1) = (\<Sum>i<m. average_ranks vs ! i)"
    using Suc.hyps by (cases m) simp_all
  have u: "2 * (\<Sum>i<m. average_ranks vs ! i) - of_nat (m * (length (average_ranks vs) + 1)) = ?u"
    using rank_sum_is_statistic [of m vs] Suc.prems by simp
  have step: "foldl (pettitt_step (average_ranks vs)) (0, 0, 0) [1..<Suc m]
      = (if \<bar>?u\<bar> > k then ((\<Sum>i<m. average_ranks vs ! i), \<bar>?u\<bar>, m) else ((\<Sum>i<m. average_ranks vs ! i), k, cp))"
    unfolding upt_Suc_append [OF Suc.hyps] foldl_append foldl.simps st
    by (simp only: pettitt_step_def prod.case Let_def cum u)
  show ?case
  proof (cases "\<bar>?u\<bar> > k")
    case True
    have less: "\<bar>split_statistic vs t\<bar> < \<bar>split_statistic vs m\<bar>" if "1 \<le> t" "t < m" for t
    proof -
      have "(of_int \<bar>split_statistic vs t\<bar> :: rat) < of_int \<bar>split_statistic vs m\<bar>" using ub [OF that] True by simp
      then show ?thesis by (simp only: of_int_less_iff)
    qed
    then have "of_int \<bar>split_statistic vs t\<bar> \<le> \<bar>?u\<bar>" if "1 \<le> t" "t < Suc m" for t
      using that by (cases "t = m") (auto simp: less_Suc_eq of_int_less_iff less_imp_le simp flip: of_int_abs)
    then show ?thesis using True step Suc.hyps less by auto
  next
    case False
    have "of_int \<bar>split_statistic vs t\<bar> \<le> k" if "1 \<le> t" "t < Suc m" for t
      using that ub False by (cases "t = m") auto
    then show ?thesis using False step cp by (auto split: if_splits)
  qed
qed simp

text \<open>C33. Pettitt's test reports the change point it is defined by: with the statistic of a split the number
  of later values below earlier ones minus the number above, the reported statistic is the largest in size
  over all splits, the reported split the first that reaches it, and none is reported only if no split
  separates anything.\<close>

theorem pettitt_finds_the_change_point:
  assumes "MIN_TREND_N \<le> length vs" and "pettitt vs = c"
  shows "(\<forall>t. 1 \<le> t \<and> t < length vs \<longrightarrow> of_int \<bar>split_statistic vs t\<bar> \<le> cp_k_stat c)
    \<and> (if cp_index c = 0 then cp_k_stat c = 0
       else cp_index c < length vs \<and> cp_k_stat c = of_int \<bar>split_statistic vs (cp_index c)\<bar>
         \<and> (\<forall>t. 1 \<le> t \<and> t < cp_index c \<longrightarrow> \<bar>split_statistic vs t\<bar> < \<bar>split_statistic vs (cp_index c)\<bar>))"
proof -
  have n: "1 \<le> length vs" "\<not> length vs < MIN_TREND_N" using assms(1) by (simp_all add: MIN_TREND_N_def)
  obtain k cp where f: "foldl (pettitt_step (average_ranks vs)) (0, 0, 0) [1..<length vs] = ((\<Sum>i<length vs - 1. average_ranks vs ! i), k, cp)"
    "\<forall>t. 1 \<le> t \<and> t < length vs \<longrightarrow> of_int \<bar>split_statistic vs t\<bar> \<le> k"
    "if cp = 0 then k = 0 else 1 \<le> cp \<and> cp < length vs \<and> k = of_int \<bar>split_statistic vs cp\<bar>
         \<and> (\<forall>t. 1 \<le> t \<and> t < cp \<longrightarrow> \<bar>split_statistic vs t\<bar> < \<bar>split_statistic vs cp\<bar>)"
    using pettitt_scan [OF le_refl n(1)] by blast
  have "cp_k_stat c = k" "cp_index c = cp"
    unfolding assms(2) [symmetric] pettitt_def Let_def f(1) using n(2) by simp_all
  then show ?thesis using f(2,3) by auto
qed

theorem pettitt_finds_the_change_point_witness:
  "cp_k_stat (pettitt [10, 10, 20, 20]) = 4 \<and> cp_index (pettitt [10, 10, 20, 20]) = 2"
proof -
  let ?vs = "[10, 10, 20, 20 :: rat]"
  have "MIN_TREND_N \<le> length ?vs" by (simp add: MIN_TREND_N_def)
  note p = pettitt_finds_the_change_point [OF this refl]
  have "{..<1} = {0 :: nat}" "{..<2} = {0, 1 :: nat}" "{..<3} = {0, 1, 2 :: nat}" "{1..<4} = {1, 2, 3 :: nat}" "{2..<4} = {2, 3 :: nat}"
    "{3..<4} = {3 :: nat}" by auto
  then have s: "split_statistic ?vs 1 = - 2" "split_statistic ?vs 2 = - 4" "split_statistic ?vs 3 = - 2"
    by (simp_all add: split_statistic_def sign_def)
  let ?c = "cp_index (pettitt ?vs)"
  have "of_int \<bar>split_statistic ?vs 2\<bar> \<le> cp_k_stat (pettitt ?vs)" using p by simp
  then have ub: "4 \<le> cp_k_stat (pettitt ?vs)" by (simp add: s)
  then have nz: "?c \<noteq> 0" "?c < 4" "cp_k_stat (pettitt ?vs) = of_int \<bar>split_statistic ?vs ?c\<bar>" using p by (auto split: if_splits)
  then have "?c = 1 \<or> ?c = 2 \<or> ?c = 3" by linarith
  then show ?thesis using ub nz(3) s by auto
qed

section \<open>The trend test\<close>

lemma mk_S_Cons: "mk_S (v # vs) = (\<Sum>x\<leftarrow>vs. sign (x - v)) + mk_S vs"
proof (cases "vs = []")
  case False
  then obtain m where m: "length vs = Suc m" by (cases vs) auto
  have shift: "(\<Sum>j\<leftarrow>[Suc i + 1..<Suc n]. f j) = (\<Sum>j\<leftarrow>[i + 1..<n]. f (Suc j))" for f :: "nat \<Rightarrow> int" and i n
    by (simp only: map_Suc_upt [symmetric] map_map comp_def add_Suc)
  have "mk_S (v # vs) = (\<Sum>i\<leftarrow>[0..<Suc m]. \<Sum>j\<leftarrow>[i + 1..<Suc (Suc m)]. sign ((v # vs) ! j - (v # vs) ! i))"
    by (simp add: mk_S_def m Let_def del: upt_Suc)
  also have "\<dots> = (\<Sum>j\<leftarrow>[1..<Suc (Suc m)]. sign ((v # vs) ! j - v))
      + (\<Sum>i\<leftarrow>[1..<Suc m]. \<Sum>j\<leftarrow>[i + 1..<Suc (Suc m)]. sign ((v # vs) ! j - (v # vs) ! i))"
    by (simp add: upt_conv_Cons del: upt_Suc)
  also have "(\<Sum>j\<leftarrow>[1..<Suc (Suc m)]. sign ((v # vs) ! j - v)) = (\<Sum>j\<leftarrow>[0..<Suc m]. sign (vs ! j - v))"
    by (simp only: One_nat_def map_Suc_upt [symmetric] map_map comp_def nth_Cons_Suc)
  also have "\<dots> = (\<Sum>x\<leftarrow>vs. sign (x - v))"
    using map_nth [of vs] m by (metis (no_types, lifting) map_map comp_def map_eq_conv)
  also have "(\<Sum>i\<leftarrow>[1..<Suc m]. \<Sum>j\<leftarrow>[i + 1..<Suc (Suc m)]. sign ((v # vs) ! j - (v # vs) ! i))
      = (\<Sum>i\<leftarrow>[0..<m]. \<Sum>j\<leftarrow>[i + 1..<Suc m]. sign (vs ! j - vs ! i))"
    unfolding One_nat_def map_Suc_upt [symmetric] map_map comp_def nth_Cons_Suc
    by (rule arg_cong [where f = sum_list], rule map_cong [OF refl])
      (simp only: map_Suc_upt [symmetric] map_map comp_def nth_Cons_Suc add_Suc add_0)
  also have "\<dots> = mk_S vs" by (simp add: mk_S_def m Let_def del: upt_Suc)
  finally show ?thesis .
qed (simp add: mk_S_def)

lemma mk_S_snoc: "mk_S (vs @ [v]) = mk_S vs + (\<Sum>x\<leftarrow>vs. sign (v - x))"
proof (induction vs)
  case Nil
  have "mk_S [] = 0" by (simp add: mk_S_def)
  then show ?case by (simp add: mk_S_Cons)
qed (simp add: mk_S_Cons)

lemma mk_S_rev: "mk_S (rev vs) = - mk_S vs"
proof (induction vs)
  case (Cons v vs)
  have "(\<Sum>x\<leftarrow>vs. sign (v - x)) = - (\<Sum>x\<leftarrow>vs. sign (x - v))"
    by (induction vs) (simp_all, metis sign_swap)
  then show ?case using Cons by (simp add: mk_S_snoc mk_S_Cons rev_map [symmetric] sum_list_rev)
qed (simp add: mk_S_def)

lemma mk_variance_rev: "mk_variance (rev vs) = mk_variance vs"
proof -
  have s: "(\<Sum>v\<leftarrow>remdups xs. f v) = (\<Sum>v\<in>set xs. f v)" for xs :: "rat list" and f :: "rat \<Rightarrow> int"
    by (simp add: sum_list_distinct_conv_sum_set)
  have "count_list (rev vs) v = count_list vs v" for v by (simp add: count_list_rev)
  then show ?thesis by (simp add: mk_variance_def s)
qed

lemma mk_variance_nonneg: "0 \<le> mk_variance vs"
proof -
  let ?n = "int (length vs)" let ?t = "\<lambda>v. int (count_list vs v)"
  have le: "?t v * (?t v - 1) * (2 * ?t v + 5) \<le> ?t v * ((?n - 1) * (2 * ?n + 5))" if "v \<in> set vs" for v
  proof -
    have "1 \<le> ?t v" using that by (metis count_list_0_iff less_one linorder_not_less of_nat_1 of_nat_le_iff)
    moreover have "?t v \<le> ?n" by (simp add: count_le_length)
    ultimately have "(?t v - 1) * (2 * ?t v + 5) \<le> (?n - 1) * (2 * ?n + 5)" by (intro mult_mono) auto
    then have "?t v * ((?t v - 1) * (2 * ?t v + 5)) \<le> ?t v * ((?n - 1) * (2 * ?n + 5))" by (intro mult_left_mono) auto
    then show ?thesis by (simp add: mult.assoc)
  qed
  have "(\<Sum>v\<leftarrow>remdups vs. ?t v * (?t v - 1) * (2 * ?t v + 5)) = (\<Sum>v\<in>set vs. ?t v * (?t v - 1) * (2 * ?t v + 5))"
    by (simp add: sum_list_distinct_conv_sum_set)
  also have "\<dots> \<le> (\<Sum>v\<in>set vs. ?t v * ((?n - 1) * (2 * ?n + 5)))" by (rule sum_mono) (rule le)
  also have "\<dots> = ?n * ((?n - 1) * (2 * ?n + 5))"
    by (simp add: sum_distrib_right [symmetric] sum_count_set flip: of_nat_sum)
  finally have "0 \<le> ?n * (?n - 1) * (2 * ?n + 5) - (\<Sum>v\<leftarrow>remdups vs. ?t v * (?t v - 1) * (2 * ?t v + 5))"
    by (simp add: mult.assoc)
  then have "(0 :: rat) \<le> of_int (?n * (?n - 1) * (2 * ?n + 5) - (\<Sum>v\<leftarrow>remdups vs. ?t v * (?t v - 1) * (2 * ?t v + 5)))"
    by (simp only: of_int_0_le_iff)
  then show ?thesis unfolding mk_variance_def Let_def by (rule divide_nonneg_pos) simp
qed

definition mirrored :: "verdict \<Rightarrow> verdict" where
  "mirrored v = (case v of TrendUp \<Rightarrow> TrendDown | TrendDown \<Rightarrow> TrendUp | _ \<Rightarrow> v)"

lemma mk_verdict_neg:
  "tr_verdict (mk_verdict phi (- s) var alpha) = mirrored (tr_verdict (mk_verdict phi s var alpha))
   \<and> tr_pvalue (mk_verdict phi (- s) var alpha) = tr_pvalue (mk_verdict phi s var alpha)"
proof (cases "var \<le> 0")
  case True
  then show ?thesis by (simp add: mk_verdict_def plain_result_def direction_def mirrored_def)
next
  case False
  have p: "two_sided_p phi (- x) = two_sided_p phi x" for x by (simp add: two_sided_p_def)
  define z where "z = (\<lambda>s :: int. if s > 0 then of_int (s - 1) / sqrt (of_rat var)
                  else if s < 0 then of_int (s + 1) / sqrt (of_rat var) else 0)"
  have z: "z (- s) = - z s" by (simp add: z_def minus_divide_left)
  have v: "mk_verdict phi t var alpha = (plain_result (significant_verdict (of_int t) (two_sided_p phi (z t)) alpha))
      \<lparr>tr_statistic := of_int t, tr_pvalue := Some (two_sided_p phi (z t)), tr_variance := var\<rparr>" for t
    using False by (simp only: mk_verdict_def z_def Let_def if_False)
  show ?thesis unfolding v z p by (simp add: plain_result_def significant_verdict_def mirrored_def)
qed

lemma mk_verdict_up: "tr_verdict (mk_verdict phi s var alpha) = TrendUp \<Longrightarrow> 0 < s"
  by (simp add: mk_verdict_def plain_result_def direction_def significant_verdict_def Let_def split: if_splits)

text \<open>The Mann-Kendall test has no preferred direction: read backwards, a series has the opposite trend at the
  same significance; and it finds a rise only if more pairs rise than fall.\<close>

theorem trend_test_is_symmetric:
  "tr_verdict (mann_kendall phi (rev vs)) = mirrored (tr_verdict (mann_kendall phi vs))
   \<and> tr_pvalue (mann_kendall phi (rev vs)) = tr_pvalue (mann_kendall phi vs)
   \<and> (tr_verdict (mann_kendall phi vs) = TrendUp \<longrightarrow> 0 < mk_S vs)"
proof (cases "length vs < MIN_TREND_N")
  case True
  then show ?thesis by (simp add: mann_kendall_def insufficient_def plain_result_def mirrored_def)
next
  case False
  then have mk: "mann_kendall phi xs = mk_verdict phi (mk_S xs) (mk_variance xs) (5 / 100)" if "length xs = length vs" for xs
    using that by (simp add: mann_kendall_def)
  show ?thesis using mk_verdict_neg mk_verdict_up by (simp add: mk mk_S_rev mk_variance_rev)
qed

end
