(* ===== verification/SteadyState.thy ===== *)
theory SteadyState
  imports TrendTests
begin

text \<open>
  The steady-state verdict of \<open>metrics/steady_state_diagnostics.py\<close>: the gates of a candidate window, the
  segmentation into plateaus, level shifts, the warm-up crop, the duration a plateau must last and the verdict
  computed from them.  The trend test that gates is a function \<open>gate\<close>, chosen by name at the top.  Reasons are
  values of a datatype where the code formats a sentence; a bound is named by its number.
\<close>

section \<open>Tracked metrics\<close>

record tracked_metric =
  tm_key :: string
  tm_attr :: "rollup \<Rightarrow> rat list"
  tm_percentile :: rat
  tm_gated :: bool

definition tracked :: "string \<Rightarrow> (rollup \<Rightarrow> rat list) \<Rightarrow> rat \<Rightarrow> bool \<Rightarrow> tracked_metric" where
  "tracked key attr p gated = \<lparr>tm_key = key, tm_attr = attr, tm_percentile = p, tm_gated = gated\<rparr>"

definition TRACKED_METRICS :: "tracked_metric list" where
  "TRACKED_METRICS =
     [tracked ''ttft_p50'' sp_ttft_ns (50 / 100) False, tracked ''ttft_p90'' sp_ttft_ns (90 / 100) False,
      tracked ''tpot_p50'' sp_tpot_ns (50 / 100) True, tracked ''tpot_p90'' sp_tpot_ns (90 / 100) True,
      tracked ''ttft_p99'' sp_ttft_ns (99 / 100) False, tracked ''tpot_p99'' sp_tpot_ns (99 / 100) False,
      tracked ''latency_p50'' sp_latency_ns (50 / 100) False, tracked ''latency_p90'' sp_latency_ns (90 / 100) False,
      tracked ''ttft_warm_p50'' sp_ttft_warm_ns (50 / 100) False, tracked ''ttft_warm_p90'' sp_ttft_warm_ns (90 / 100) False]"

definition GATED_METRICS :: "tracked_metric list" where
  "GATED_METRICS = filter tm_gated TRACKED_METRICS"

definition DRIFT_WATCH_METRICS :: "tracked_metric list" where
  "DRIFT_WATCH_METRICS =
     filter (\<lambda>m. tm_key m \<in> {''tpot_p50'', ''tpot_p90'', ''ttft_p50'', ''ttft_p90''}) TRACKED_METRICS"

definition metric_by_key :: "string \<Rightarrow> tracked_metric option" where
  "metric_by_key key = find (\<lambda>m. tm_key m = key) (rev TRACKED_METRICS)"

section \<open>The table of variation\<close>

record cov_cell =
  cc_gated :: bool
  cc_n :: nat
  cc_cov :: "real option"
  cc_passes :: "(rat \<times> bool option) list"

definition cov_pass_row :: "rat list \<Rightarrow> rat list \<Rightarrow> (rat \<times> bool option) list" where
  "cov_pass_row vs bounds =
     (if length vs < 2 then map (\<lambda>b. (b, None)) bounds else map (\<lambda>b. (b, Some (cov vs \<le> of_rat b))) bounds)"

definition cov_table :: "rollup list \<Rightarrow> rat list \<Rightarrow> (string \<times> cov_cell) list" where
  "cov_table series bounds =
     map (\<lambda>m. let traj = super_pass_percentile_series series (tm_attr m) (tm_percentile m)
              in (tm_key m, \<lparr>cc_gated = tm_gated m, cc_n = length traj,
                   cc_cov = (if length traj \<ge> 2 then Some (cov traj) else None), cc_passes = cov_pass_row traj bounds\<rparr>))
       TRACKED_METRICS"

section \<open>Gates and plateaus\<close>

definition window_percentile_series :: "rollup list \<Rightarrow> nat \<Rightarrow> nat \<Rightarrow> (rollup \<Rightarrow> rat list) \<Rightarrow> rat \<Rightarrow> rat list option" where
  "window_percentile_series series lo hi attr p =
     (let w = window series lo hi
      in if list_ex (\<lambda>sp. attr sp = []) w then None else Some (map (\<lambda>sp. percentile_of (attr sp) p) w))"

datatype gate_outcome = GateOk | GateShort | GateTrend | GateCov

type_synonym trend_gate = "rat list \<Rightarrow> trend_result"

definition trending :: "trend_gate \<Rightarrow> rat list \<Rightarrow> bool" where
  "trending gate traj = (tr_verdict (gate traj) \<noteq> TrendSteady \<and> \<bar>rel_drift traj\<bar> \<ge> TREND_REL_DRIFT_MIN)"

fun window_gate ::
    "rollup list \<Rightarrow> nat \<Rightarrow> nat \<Rightarrow> trend_gate \<Rightarrow> rat list \<Rightarrow> tracked_metric list \<Rightarrow> gate_outcome \<Rightarrow> gate_outcome" where
  "window_gate series lo hi gate bounds [] worst = worst"
| "window_gate series lo hi gate bounds (m # ms) worst =
     (case window_percentile_series series lo hi (tm_attr m) (tm_percentile m) of
        None \<Rightarrow> GateShort
      | Some traj \<Rightarrow>
          (if length traj < MIN_TREND_N then GateShort
           else if trending gate traj then GateTrend
           else window_gate series lo hi gate bounds ms
                  (if cov traj > of_rat (Max (set bounds)) then GateCov else worst)))"

definition window_admissible ::
    "rollup list \<Rightarrow> nat \<Rightarrow> nat \<Rightarrow> trend_gate \<Rightarrow> rat list \<Rightarrow> tracked_metric list \<Rightarrow> bool" where
  "window_admissible series lo hi gate bounds metrics =
     (window_gate series lo hi gate bounds metrics GateOk = GateOk)"

fun gated_trend_drifters :: "rollup list \<Rightarrow> trend_gate \<Rightarrow> tracked_metric list \<Rightarrow> string list option" where
  "gated_trend_drifters series gate [] = Some []"
| "gated_trend_drifters series gate (m # ms) =
     (case window_percentile_series series 0 (length series) (tm_attr m) (tm_percentile m) of
        None \<Rightarrow> None
      | Some traj \<Rightarrow>
          (if length traj < MIN_TREND_N then None
           else map_option (\<lambda>ds. if trending gate traj then tm_key m # ds else ds) (gated_trend_drifters series gate ms)))"

text \<open>\<open>segment_plateaus\<close>: the inner loop extends a window to its right while it stays admissible, the outer
  one goes on behind it, or one further when there is none.\<close>

definition last_admissible :: "(nat \<Rightarrow> bool) \<Rightarrow> nat \<Rightarrow> nat \<Rightarrow> nat option" where
  "last_admissible ok lo hi = (case takeWhile ok [lo..<hi] of [] \<Rightarrow> None | e # es \<Rightarrow> Some (last (e # es)))"

lemma last_admissible_range: "last_admissible ok lo hi = Some e \<Longrightarrow> lo \<le> e \<and> e < hi"
proof -
  assume "last_admissible ok lo hi = Some e"
  then have "e \<in> set (takeWhile ok [lo..<hi])" by (auto simp: last_admissible_def split: list.splits if_splits)
  then show ?thesis by (auto dest: set_takeWhileD)
qed

function plateaus_from :: "(nat \<Rightarrow> nat \<Rightarrow> bool) \<Rightarrow> nat \<Rightarrow> nat \<Rightarrow> nat \<Rightarrow> (nat \<times> nat) list" where
  "plateaus_from ok n min_len start =
     (if 0 < min_len \<and> start + min_len \<le> n then
        (case last_admissible (ok start) (start + min_len) (n + 1) of
           Some hi \<Rightarrow> (start, hi) # plateaus_from ok n min_len hi
         | None \<Rightarrow> plateaus_from ok n min_len (start + 1))
      else [])"
  by pat_completeness auto

termination
  by (relation "measure (\<lambda>(ok, n, min_len, start). n - start)") (auto dest: last_admissible_range)

declare plateaus_from.simps [simp del]

definition segment_plateaus :: "rollup list \<Rightarrow> trend_gate \<Rightarrow> rat list \<Rightarrow> tracked_metric list \<Rightarrow> (nat \<times> nat) list" where
  "segment_plateaus series gate bounds metrics =
     plateaus_from (\<lambda>lo hi. window_admissible series lo hi gate bounds metrics) (length series) MIN_TREND_N 0"

section \<open>Level shifts and trends\<close>

record anomaly =
  an_detected :: bool
  an_change_point_sp :: "nat option"
  an_delta_pct :: rat
  an_pettitt :: "change_point option"
  an_plateaus :: "(nat \<times> nat) list"

definition no_anomaly :: "(nat \<times> nat) list \<Rightarrow> change_point option \<Rightarrow> anomaly" where
  "no_anomaly plateaus pet = \<lparr>an_detected = False, an_change_point_sp = None, an_delta_pct = 0, an_pettitt = pet,
     an_plateaus = plateaus\<rparr>"

definition tpot_mean :: "rollup list \<Rightarrow> nat \<times> nat \<Rightarrow> rat" where
  "tpot_mean series p =
     (let vs = pooled series (fst p) (snd p) sp_tpot_ns in if vs = [] then 0 else average vs)"

definition detect_level_shift :: "rollup list \<Rightarrow> (nat \<times> nat) list \<Rightarrow> nat \<Rightarrow> anomaly" where
  "detect_level_shift series plateaus baseline =
     (if length plateaus \<le> baseline + 1 then no_anomaly plateaus None
      else
        (let first_mean = tpot_mean series (plateaus ! baseline)
         in if first_mean \<le> 0 then no_anomaly plateaus None
            else
              (let pet = pettitt (map (\<lambda>sp. if sp_tpot_ns sp = [] then 0 else average (sp_tpot_ns sp)) series);
                   rel = (\<lambda>p. (tpot_mean series p - first_mean) / first_mean)
               in (case find (\<lambda>p. \<bar>rel p\<bar> > 5 / 100 \<and> cp_significant pet) (drop (baseline + 1) plateaus) of
                     None \<Rightarrow> no_anomaly plateaus (Some pet)
                   | Some p \<Rightarrow> \<lparr>an_detected = True, an_change_point_sp = Some (cp_index pet), an_delta_pct = rel p * 100,
                        an_pettitt = Some pet, an_plateaus = plateaus\<rparr>))))"

definition global_trend :: "rollup list \<Rightarrow> nat \<Rightarrow> trend_gate \<Rightarrow> (string \<times> verdict) list" where
  "global_trend series from_idx gate =
     map (\<lambda>m. let traj = super_pass_percentile_series (drop from_idx series) (tm_attr m) (tm_percentile m)
              in (tm_key m, if length traj \<ge> MIN_TREND_N then tr_verdict (gate traj) else TrendInsufficient))
       DRIFT_WATCH_METRICS"

definition drifting_up :: "(string \<times> verdict) list \<Rightarrow> string list" where
  "drifting_up gt = map fst (filter (\<lambda>(k, v). v = TrendUp) gt)"

section \<open>Warm-up\<close>

definition back_half_level :: "rat list \<Rightarrow> rat" where
  "back_half_level vs = median_or_floor (drop (length vs div 2) vs)"

definition adaptive_warmup :: "rollup list \<Rightarrow> tracked_metric \<Rightarrow> rat \<Rightarrow> nat" where
  "adaptive_warmup series m band =
     (let vs = super_pass_percentile_series series (tm_attr m) (tm_percentile m); n = length vs
      in if n < MIN_TREND_N then 1
         else
           (let steady = back_half_level vs; cap = max 1 (n div 2);
                w = length (takeWhile (\<lambda>v. \<bar>v - steady\<bar> / steady > band) (take cap vs))
            in max 1 w))"

section \<open>The required duration\<close>

definition MIN_DUR_EPS :: rat where "MIN_DUR_EPS = 5 / 100"
definition MIN_DUR_RELAX_MULT :: rat where "MIN_DUR_RELAX_MULT = 5"
definition MIN_DUR_FLOOR_S :: rat where "MIN_DUR_FLOOR_S = 600"

datatype dominant_term = PrecisionTerm | RelaxationTerm | FloorTerm

record short_window =
  sw_is_short :: bool
  sw_window_duration_s :: rat
  sw_min_duration_s :: rat
  sw_dominant :: dominant_term
  sw_t_precision_s :: rat
  sw_t_relaxation_s :: rat
  sw_t_floor_s :: rat
  sw_kstar :: nat
  sw_cov_b :: real
  sw_tau_sp_s :: rat
  sw_l_p90_s :: rat

definition min_steady_duration :: "rollup list \<Rightarrow> nat \<Rightarrow> nat \<Rightarrow> short_window" where
  "min_steady_duration series lo hi =
     (let w = window series lo hi;
          tpot_p50 = map (\<lambda>sp. percentile_of (sp_tpot_ns sp) (50 / 100)) (filter (\<lambda>sp. sp_tpot_ns sp \<noteq> []) w);
          cov_b = (if length tpot_p50 \<ge> 2 then cov tpot_p50 else 0);
          spans = map (\<lambda>sp. of_int (sp_last_issue_ns sp - sp_first_issue_ns sp) / 1000000000)
            (filter (\<lambda>sp. sp_last_issue_ns sp > sp_first_issue_ns sp \<and> sp_first_issue_ns sp \<ge> 0) w);
          tau_sp = (if spans = [] then 0 else median spans);
          lat = pooled series lo hi sp_latency_ns;
          l_p90 = (if lat = [] then 0 else percentile_of lat (90 / 100) / 1000000000);
          kstar = max (nat \<lceil>(of_rat CI_Z_95 * cov_b / of_rat MIN_DUR_EPS)\<^sup>2\<rceil>) MIN_TREND_N;
          t_prec = (if kstar > MIN_TREND_N then of_nat kstar * tau_sp else 0);
          t_relax = MIN_DUR_RELAX_MULT * l_p90;
          min_s = max (max t_prec t_relax) MIN_DUR_FLOOR_S;
          dur = of_int (window_issue_span_ns series lo hi) / 1000000000
      in \<lparr>sw_is_short = (dur < min_s), sw_window_duration_s = dur, sw_min_duration_s = min_s,
          sw_dominant = (if min_s = t_prec then PrecisionTerm else if min_s = t_relax then RelaxationTerm else FloorTerm),
          sw_t_precision_s = t_prec, sw_t_relaxation_s = t_relax, sw_t_floor_s = MIN_DUR_FLOOR_S, sw_kstar = kstar,
          sw_cov_b = cov_b, sw_tau_sp_s = tau_sp, sw_l_p90_s = l_p90\<rparr>)"

section \<open>The verdict\<close>

record steady_window =
  wn_sp_lo :: nat
  wn_sp_hi :: nat
  wn_n_super_passes :: nat
  wn_n_samples :: nat
  wn_start_ns :: int
  wn_end_ns :: int
  wn_plateau_index :: nat
  wn_n_plateaus :: nat
  wn_skipped_short :: nat

record tps_block =
  tp_per_user :: real
  tp_per_user_ci :: "real \<times> real"
  tp_system :: rat
  tp_system_ci :: "real \<times> real"

datatype no_plateau = NoPlateau | TrendSteadyButScattered | Trends "string list" | AllTooShort

record steady_state =
  ss_found :: bool
  ss_reason :: "no_plateau option"
  ss_superpass_size :: int
  ss_n_super_passes :: nat
  ss_warmup :: nat
  ss_window :: "steady_window option"
  ss_ttft :: "summary option"
  ss_tpot :: "summary option"
  ss_osl :: "summary option"
  ss_latency :: "summary option"
  ss_tps :: "tps_block option"
  ss_cov :: "(string \<times> cov_cell) list"
  ss_cov_basis :: "(nat \<times> nat) option"
  ss_anomaly :: anomaly
  ss_short_window :: "short_window option"
  ss_global_trend :: "(string \<times> verdict) list"
  ss_drifting_up :: "string list"

definition summary_of :: "rat list \<Rightarrow> summary option" where
  "summary_of vs = (if vs = [] then None else Some (summarize vs))"

definition window_rates :: "rollup list \<Rightarrow> nat \<Rightarrow> nat \<Rightarrow> tps_block" where
  "window_rates series lo hi =
     (let tpot = pooled series lo hi sp_tpot_ns; mean_tpot = (if tpot = [] then 0 else average tpot);
          means = map (\<lambda>sp. average (sp_tpot_ns sp)) (filter (\<lambda>sp. sp_tpot_ns sp \<noteq> []) (window series lo hi));
          tpot_ci = (if length means \<ge> 2 then batch_means_ci means else (of_rat mean_tpot, of_rat mean_tpot));
          system = system_tps (pooled_out_tokens series lo hi) (window_issue_span_ns series lo hi);
          sp_system = map (\<lambda>sp. system_tps (sp_out_tokens sp) (sp_last_issue_ns sp - sp_first_issue_ns sp))
            (filter (\<lambda>sp. sp_last_issue_ns sp > sp_first_issue_ns sp \<and> sp_first_issue_ns sp \<ge> 0) (window series lo hi));
          half = (if length sp_system \<ge> 2 then (snd (batch_means_ci sp_system) - fst (batch_means_ci sp_system)) / 2 else 0)
      in \<lparr>tp_per_user = per_user_tps (of_rat mean_tpot),
          tp_per_user_ci = (per_user_tps (snd tpot_ci), per_user_tps (fst tpot_ci)),
          tp_system = system, tp_system_ci = (of_rat system - half, of_rat system + half)\<rparr>)"

definition no_window ::
    "rollup list \<Rightarrow> rollup list \<Rightarrow> int \<Rightarrow> nat \<Rightarrow> trend_gate \<Rightarrow> rat list \<Rightarrow> tracked_metric list \<Rightarrow> steady_state" where
  "no_window full series sp_size warmup gate bounds metrics =
     (let gt = global_trend series 0 gate; drifters = gated_trend_drifters series gate metrics
      in \<lparr>ss_found = False,
          ss_reason = Some (case drifters of
              None \<Rightarrow> NoPlateau | Some [] \<Rightarrow> TrendSteadyButScattered | Some (d # ds) \<Rightarrow> Trends (d # ds)),
          ss_superpass_size = sp_size, ss_n_super_passes = length full, ss_warmup = warmup, ss_window = None,
          ss_ttft = None, ss_tpot = None, ss_osl = None, ss_latency = None, ss_tps = None,
          ss_cov = (if drifters = Some [] then cov_table series bounds else []),
          ss_cov_basis = (if drifters = Some [] then Some (0, length series) else None),
          ss_anomaly = detect_level_shift series [] 0, ss_short_window = None, ss_global_trend = gt,
          ss_drifting_up = drifting_up gt\<rparr>)"

text \<open>\<open>max(range(n), key=...)\<close>: the first position of the largest value.\<close>

definition arg_max_first :: "(nat \<Rightarrow> rat) \<Rightarrow> nat \<Rightarrow> nat" where
  "arg_max_first f n = foldl (\<lambda>b i. if f i > f b then i else b) 0 [1..<n]"

definition reported_window ::
    "rollup list \<Rightarrow> rollup list \<Rightarrow> int \<Rightarrow> nat \<Rightarrow> trend_gate \<Rightarrow> rat list \<Rightarrow> (nat \<times> nat) list \<Rightarrow> bool \<Rightarrow> steady_state" where
  "reported_window full series sp_size warmup gate bounds plateaus enforce =
     (let shorts = map (\<lambda>(lo, hi). min_steady_duration series lo hi) plateaus;
          sel = (if enforce then find (\<lambda>i. \<not> sw_is_short (shorts ! i)) [0..<length shorts] else Some 0);
          idx = (case sel of Some i \<Rightarrow> i | None \<Rightarrow> arg_max_first (\<lambda>i. sw_window_duration_s (shorts ! i)) (length plateaus));
          lo = fst (plateaus ! idx); hi = snd (plateaus ! idx); gt = global_trend series lo gate
      in \<lparr>ss_found = (sel \<noteq> None), ss_reason = (if sel = None then Some AllTooShort else None),
          ss_superpass_size = sp_size, ss_n_super_passes = length full, ss_warmup = warmup,
          ss_window = Some \<lparr>wn_sp_lo = lo, wn_sp_hi = hi, wn_n_super_passes = hi - lo,
             wn_n_samples = length (pooled series lo hi sp_ttft_ns), wn_start_ns = sp_first_issue_ns (series ! lo),
             wn_end_ns = sp_last_issue_ns (series ! (hi - 1)), wn_plateau_index = idx, wn_n_plateaus = length plateaus,
             wn_skipped_short = length (filter (\<lambda>i. sw_is_short (shorts ! i)) [0..<idx])\<rparr>,
          ss_ttft = summary_of (pooled series lo hi sp_ttft_ns), ss_tpot = summary_of (pooled series lo hi sp_tpot_ns),
          ss_osl = summary_of (pooled series lo hi sp_osl), ss_latency = summary_of (pooled series lo hi sp_latency_ns),
          ss_tps = Some (window_rates series lo hi), ss_cov = cov_table (window series lo hi) bounds, ss_cov_basis = None,
          ss_anomaly = detect_level_shift series plateaus idx, ss_short_window = Some (shorts ! idx),
          ss_global_trend = gt, ss_drifting_up = drifting_up gt\<rparr>)"

datatype warmup_arg = AutoWarmup | FixedWarmup int

definition compute_steady_state_metrics ::
    "(real \<Rightarrow> real) \<Rightarrow> rollup list \<Rightarrow> int \<Rightarrow> warmup_arg \<Rightarrow> rat list \<Rightarrow> string \<Rightarrow> rat \<Rightarrow> string \<Rightarrow> tracked_metric list \<Rightarrow> bool
     \<Rightarrow> steady_state result" where
  "compute_steady_state_metrics phi full sp_size warmup bounds driver band gate_algo metrics enforce =
     (if (case warmup of FixedWarmup w \<Rightarrow> w < 0 | AutoWarmup \<Rightarrow> False) then Inl ValueError
      else
        (case (case warmup of
                 FixedWarmup w \<Rightarrow> Some (nat w)
               | AutoWarmup \<Rightarrow> map_option (\<lambda>m. adaptive_warmup full m band) (metric_by_key driver)) of
           None \<Rightarrow> Inl KeyError
         | Some w \<Rightarrow>
             (case map_of (algorithms phi) gate_algo of
                None \<Rightarrow> Inl KeyError
              | Some gate \<Rightarrow>
                  (let series = drop w full; plateaus = segment_plateaus series gate bounds metrics
                   in Inr (if plateaus = [] then no_window full series sp_size w gate bounds metrics
                           else reported_window full series sp_size w gate bounds plateaus enforce)))))"

section \<open>The standalone analysis\<close>

definition drift_verdicts :: "(real \<Rightarrow> real) \<Rightarrow> rat list \<Rightarrow> (string \<times> verdict) list" where
  "drift_verdicts phi traj = map (\<lambda>(name, f). (name, tr_verdict (f traj))) (algorithms phi)"

definition run_diagnostics ::
    "(real \<Rightarrow> real) \<Rightarrow> int \<Rightarrow> (string list \<Rightarrow> int list) \<Rightarrow> log_event list \<Rightarrow> warmup_arg \<Rightarrow> rat list \<Rightarrow> string \<Rightarrow> nat
     \<Rightarrow> rat \<Rightarrow> string \<Rightarrow> bool \<Rightarrow> (steady_state \<times> (string \<times> (string \<times> verdict) list) list) result" where
  "run_diagnostics phi sp_size count_tokens events warmup bounds gate_algo batch band driver enforce =
     (case build_super_pass_series sp_size count_tokens batch events of
        Inl e \<Rightarrow> Inl e
      | Inr series \<Rightarrow>
          map_sum id (\<lambda>ss. (ss, map (\<lambda>m. (tm_key m, drift_verdicts phi
              (super_pass_percentile_series (drop (ss_warmup ss) series) (tm_attr m) (tm_percentile m)))) TRACKED_METRICS))
            (compute_steady_state_metrics phi series sp_size warmup bounds driver band gate_algo GATED_METRICS enforce))"

end
