(* ===== verification/SteadyFacts.thy ===== *)
theory SteadyFacts
  imports SteadyState
begin

text \<open>
  What the verdict certifies: the plateaus are the maximal admissible windows met from the left, none is
  missed, and the reported window is the first plateau that lasts as long as it must.
\<close>

section \<open>Plateaus\<close>

lemma last_admissible_Some:
  assumes "last_admissible ok lo hi = Some e"
  shows "lo \<le> e" "e < hi" "\<And>x. lo \<le> x \<Longrightarrow> x \<le> e \<Longrightarrow> ok x" "e + 1 < hi \<Longrightarrow> \<not> ok (e + 1)"
proof -
  let ?t = "takeWhile ok [lo..<hi]"
  have t: "?t \<noteq> []" "e = last ?t" using assms by (auto simp: last_admissible_def split: list.splits)
  define k where "k = length ?t"
  have k: "0 < k" "k \<le> hi - lo" using t(1) length_takeWhile_le [of ok "[lo..<hi]"] by (auto simp: k_def)
  have "lo + k \<le> hi" using k by linarith
  then have tk: "?t = [lo..<lo + k]" using takeWhile_eq_take [of ok "[lo..<hi]"] take_upt [of lo k hi] by (simp flip: k_def)
  then have e: "e = lo + k - 1" using t k by simp
  then show "lo \<le> e" "e < hi" using k by linarith+
  show "ok x" if "lo \<le> x" "x \<le> e" for x
  proof -
    have "x \<in> set ?t" using that e k(1) by (simp add: tk)
    then show ?thesis by (auto dest: set_takeWhileD)
  qed
  show "\<not> ok (e + 1)" if "e + 1 < hi"
  proof -
    have "k < length [lo..<hi]" using that e k(1) by simp
    then have "\<not> ok ([lo..<hi] ! k)" using nth_length_takeWhile [of ok "[lo..<hi]"] by (simp add: k_def)
    then show ?thesis using that e k(1) by simp
  qed
qed

lemma last_admissible_None: "last_admissible ok lo hi = None \<Longrightarrow> lo < hi \<Longrightarrow> \<not> ok lo"
  by (auto simp: last_admissible_def upt_rec [of lo] split: list.splits if_splits)

text \<open>A plateau: long enough, admissible however it is cut on the right, and not extensible.\<close>

definition plateau :: "(nat \<Rightarrow> nat \<Rightarrow> bool) \<Rightarrow> nat \<Rightarrow> nat \<Rightarrow> nat \<times> nat \<Rightarrow> bool" where
  "plateau ok n min_len p =
     (fst p + min_len \<le> snd p \<and> snd p \<le> n \<and> (\<forall>e. fst p + min_len \<le> e \<and> e \<le> snd p \<longrightarrow> ok (fst p) e)
      \<and> (snd p < n \<longrightarrow> \<not> ok (fst p) (snd p + 1)))"

lemma plateaus_from_props:
  assumes "0 < min_len"
  shows "(\<forall>p\<in>set (plateaus_from ok n min_len start). plateau ok n min_len p \<and> start \<le> fst p)
    \<and> sorted_wrt (\<lambda>p q. snd p \<le> fst q) (plateaus_from ok n min_len start)
    \<and> (\<forall>lo. start \<le> lo \<and> lo + min_len \<le> n \<and> ok lo (lo + min_len) \<longrightarrow>
         (\<exists>p\<in>set (plateaus_from ok n min_len start). fst p \<le> lo \<and> lo < snd p))"
  using assms
proof (induction ok n min_len start rule: plateaus_from.induct)
  case (1 ok n min_len start)
  show ?case
  proof (cases "start + min_len \<le> n")
    case False
    then show ?thesis by (simp add: plateaus_from.simps [of ok n min_len start])
  next
    case True
    then have c: "0 < min_len \<and> start + min_len \<le> n" using "1.prems" by simp
    show ?thesis
    proof (cases "last_admissible (ok start) (start + min_len) (n + 1)")
      case None
      have eq: "plateaus_from ok n min_len start = plateaus_from ok n min_len (start + 1)"
        using c None by (simp add: plateaus_from.simps [of ok n min_len start])
      have no: "\<not> ok start (start + min_len)" using last_admissible_None [OF None] True by simp
      note ih = "1.IH"(1) [OF c None "1.prems"]
      have "lo \<noteq> start" if "ok lo (lo + min_len)" for lo using no that by auto
      then show ?thesis using ih unfolding eq by (metis Suc_eq_plus1 Suc_leI le_eq_less_or_eq add_leD1)
    next
      case (Some hi)
      note l = last_admissible_Some [OF Some]
      have eq: "plateaus_from ok n min_len start = (start, hi) # plateaus_from ok n min_len hi"
        using c Some by (simp add: plateaus_from.simps [of ok n min_len start])
      have p: "plateau ok n min_len (start, hi)" using l by (auto simp: plateau_def)
      note ih = "1.IH"(2) [OF c Some "1.prems"]
      have hi: "start \<le> hi" using l(1) by linarith
      have "\<exists>p\<in>set (plateaus_from ok n min_len start). fst p \<le> lo \<and> lo < snd p"
        if "start \<le> lo" "lo + min_len \<le> n" "ok lo (lo + min_len)" for lo
        using ih that unfolding eq by (cases "lo < hi") auto
      then show ?thesis using ih p hi unfolding eq by (auto intro: order_trans)
    qed
  qed
qed

section \<open>What an admissible window passes\<close>

definition steady_span :: "rollup list \<Rightarrow> trend_gate \<Rightarrow> rat list \<Rightarrow> tracked_metric list \<Rightarrow> nat \<Rightarrow> nat \<Rightarrow> bool" where
  "steady_span series gate bounds metrics lo hi =
     (\<forall>m\<in>set metrics. \<exists>traj. window_percentile_series series lo hi (tm_attr m) (tm_percentile m) = Some traj
        \<and> MIN_TREND_N \<le> length traj \<and> \<not> trending gate traj \<and> cov traj \<le> of_rat (Max (set bounds)))"

lemma gate_outcome_kept:
  "window_gate series lo hi gate bounds ms worst = GateOk \<Longrightarrow> worst \<noteq> GateOk \<Longrightarrow> False"
  by (induction ms arbitrary: worst) (auto split: option.splits if_splits)

lemma window_gate_ok:
  "window_gate series lo hi gate bounds ms GateOk = GateOk \<longleftrightarrow> steady_span series gate bounds ms lo hi"
proof (induction ms)
  case (Cons m ms)
  show ?case
  proof (cases "window_percentile_series series lo hi (tm_attr m) (tm_percentile m)")
    case None
    then show ?thesis by (simp add: steady_span_def)
  next
    case (Some traj)
    then show ?thesis using Cons gate_outcome_kept [of series lo hi gate bounds ms GateCov]
      by (auto simp: steady_span_def not_less)
  qed
qed (simp add: steady_span_def)

lemma admissible_iff: "window_admissible series lo hi gate bounds metrics \<longleftrightarrow> steady_span series gate bounds metrics lo hi"
  by (simp add: window_admissible_def window_gate_ok)

lemma segment_props:
  "(\<forall>p\<in>set (segment_plateaus series gate bounds metrics).
       plateau (\<lambda>lo hi. window_admissible series lo hi gate bounds metrics) (length series) MIN_TREND_N p \<and> 0 \<le> fst p)
    \<and> sorted_wrt (\<lambda>p q. snd p \<le> fst q) (segment_plateaus series gate bounds metrics)
    \<and> (\<forall>lo. 0 \<le> lo \<and> lo + MIN_TREND_N \<le> length series \<and> window_admissible series lo (lo + MIN_TREND_N) gate bounds metrics
         \<longrightarrow> (\<exists>p\<in>set (segment_plateaus series gate bounds metrics). fst p \<le> lo \<and> lo < snd p))"
proof -
  have "0 < MIN_TREND_N" by (simp add: MIN_TREND_N_def)
  from plateaus_from_props [OF this, of "\<lambda>lo hi. window_admissible series lo hi gate bounds metrics" "length series" 0]
  show ?thesis unfolding segment_plateaus_def .
qed

section \<open>The reported window\<close>

lemma long_enough:
  "\<not> sw_is_short (min_steady_duration series lo hi) \<Longrightarrow> 600 * 1000000000 \<le> window_issue_span_ns series lo hi"
proof -
  assume a: "\<not> sw_is_short (min_steady_duration series lo hi)"
  have "MIN_DUR_FLOOR_S \<le> of_int (window_issue_span_ns series lo hi) / 1000000000"
  proof -
    have "sw_is_short (min_steady_duration series lo hi)
        \<longleftrightarrow> of_int (window_issue_span_ns series lo hi) / 1000000000 < sw_min_duration_s (min_steady_duration series lo hi)"
      by (simp only: min_steady_duration_def Let_def short_window.simps)
    moreover have "MIN_DUR_FLOOR_S \<le> sw_min_duration_s (min_steady_duration series lo hi)"
      by (simp only: min_steady_duration_def Let_def short_window.simps max.cobounded2)
    ultimately show ?thesis using a by linarith
  qed
  then have "(of_int (600 * 1000000000) :: rat) \<le> of_int (window_issue_span_ns series lo hi)"
    by (simp add: MIN_DUR_FLOOR_S_def field_simps)
  then show ?thesis by (simp only: of_int_le_iff)
qed

lemma compute_cases:
  assumes "compute_steady_state_metrics phi full sz warmup bounds driver band algo metrics enforce = Inr ss"
  obtains gate where "map_of (algorithms phi) algo = Some gate"
    "ss = (if segment_plateaus (drop (ss_warmup ss) full) gate bounds metrics = []
           then no_window full (drop (ss_warmup ss) full) sz (ss_warmup ss) gate bounds metrics
           else reported_window full (drop (ss_warmup ss) full) sz (ss_warmup ss) gate bounds
                  (segment_plateaus (drop (ss_warmup ss) full) gate bounds metrics) enforce)"
proof -
  obtain w gate where gate: "map_of (algorithms phi) algo = Some gate"
    and ss: "ss = (if segment_plateaus (drop w full) gate bounds metrics = []
           then no_window full (drop w full) sz w gate bounds metrics
           else reported_window full (drop w full) sz w gate bounds (segment_plateaus (drop w full) gate bounds metrics) enforce)"
  proof -
    have g: "\<not> (case warmup of FixedWarmup w \<Rightarrow> w < 0 | AutoWarmup \<Rightarrow> False)"
      using assms by (auto simp: compute_steady_state_metrics_def split: if_splits)
    obtain w where w: "(case warmup of FixedWarmup w \<Rightarrow> Some (nat w)
        | AutoWarmup \<Rightarrow> map_option (\<lambda>m. adaptive_warmup full m band) (metric_by_key driver)) = Some w"
      using assms g by (cases "case warmup of FixedWarmup w \<Rightarrow> Some (nat w)
        | AutoWarmup \<Rightarrow> map_option (\<lambda>m. adaptive_warmup full m band) (metric_by_key driver)")
        (simp_all add: compute_steady_state_metrics_def)
    obtain gate where gate: "map_of (algorithms phi) algo = Some gate"
      using assms g w by (cases "map_of (algorithms phi) algo") (simp_all add: compute_steady_state_metrics_def)
    show thesis
      by (rule that [OF gate, of w]) (use assms g w gate in \<open>simp add: compute_steady_state_metrics_def Let_def\<close>)
  qed
  have w: "ss_warmup ss = w" unfolding ss by (simp add: no_window_def reported_window_def Let_def)
  show thesis by (rule that [OF gate]) (unfold w, rule ss)
qed

lemma reported_found:
  assumes "ss = reported_window full series sz w gate bounds ps True" "ps \<noteq> []"
  shows "ss_found ss \<longleftrightarrow> (\<exists>p\<in>set ps. \<not> sw_is_short (min_steady_duration series (fst p) (snd p)))"
    and "ss_found ss \<Longrightarrow> \<exists>wn. ss_window ss = Some wn \<and> wn_plateau_index wn < length ps
      \<and> (wn_sp_lo wn, wn_sp_hi wn) = ps ! wn_plateau_index wn
      \<and> \<not> sw_is_short (min_steady_duration series (wn_sp_lo wn) (wn_sp_hi wn))
      \<and> (\<forall>i<wn_plateau_index wn. sw_is_short (min_steady_duration series (fst (ps ! i)) (snd (ps ! i))))"
proof -
  define short where "short = (\<lambda>i. sw_is_short (map (\<lambda>(lo, hi). min_steady_duration series lo hi) ps ! i))"
  have short: "short i = sw_is_short (min_steady_duration series (fst (ps ! i)) (snd (ps ! i)))" if "i < length ps" for i
    using that by (simp add: short_def split: prod.split)
  have found: "ss_found ss \<longleftrightarrow> find (\<lambda>i. \<not> short i) [0..<length ps] \<noteq> None"
    by (simp add: assms(1) reported_window_def Let_def short_def)
  then show "ss_found ss \<longleftrightarrow> (\<exists>p\<in>set ps. \<not> sw_is_short (min_steady_duration series (fst p) (snd p)))"
    using short by (simp add: find_None_iff2 find_None_iff) (metis in_set_conv_nth)
  assume "ss_found ss"
  then obtain i where i: "find (\<lambda>i. \<not> short i) [0..<length ps] = Some i" using found by blast
  then have least: "i < length ps" "\<not> short i" "\<forall>j<i. short j" by (auto simp: find_Some_iff)
  have "ss_window ss = Some \<lparr>wn_sp_lo = fst (ps ! i), wn_sp_hi = snd (ps ! i), wn_n_super_passes = snd (ps ! i) - fst (ps ! i),
      wn_n_samples = length (pooled series (fst (ps ! i)) (snd (ps ! i)) sp_ttft_ns),
      wn_start_ns = sp_first_issue_ns (series ! fst (ps ! i)), wn_end_ns = sp_last_issue_ns (series ! (snd (ps ! i) - 1)),
      wn_plateau_index = i, wn_n_plateaus = length ps, wn_skipped_short = length (filter short [0..<i])\<rparr>"
    using i by (simp add: assms(1) reported_window_def Let_def short_def)
  then show "\<exists>wn. ss_window ss = Some wn \<and> wn_plateau_index wn < length ps
      \<and> (wn_sp_lo wn, wn_sp_hi wn) = ps ! wn_plateau_index wn
      \<and> \<not> sw_is_short (min_steady_duration series (wn_sp_lo wn) (wn_sp_hi wn))
      \<and> (\<forall>i<wn_plateau_index wn. sw_is_short (min_steady_duration series (fst (ps ! i)) (snd (ps ! i))))"
    using least short by simp
qed

text \<open>C32. A steady state is reported exactly when some plateau after the warm-up lasts as long as it must; the
  window reported is the first such plateau, at least ten minutes of offered load on which every gated
  metric is free of a trend and within the loosest bound, and it cannot be extended.  No admissible window
  is overlooked: every one of the least length starts inside a plateau that was weighed.\<close>

theorem steady_state_is_certified:
  assumes "compute_steady_state_metrics phi full sz warmup bounds driver band algo metrics True = Inr ss"
    and "series = drop (ss_warmup ss) full" "map_of (algorithms phi) algo = Some gate"
    and "ps = segment_plateaus series gate bounds metrics"
  shows "(ss_found ss \<longleftrightarrow> (\<exists>p\<in>set ps. \<not> sw_is_short (min_steady_duration series (fst p) (snd p))))
    \<and> (ss_found ss \<longrightarrow> (\<exists>w. ss_window ss = Some w \<and> wn_sp_lo w + MIN_TREND_N \<le> wn_sp_hi w \<and> wn_sp_hi w \<le> length series
         \<and> steady_span series gate bounds metrics (wn_sp_lo w) (wn_sp_hi w)
         \<and> (wn_sp_hi w < length series \<longrightarrow> \<not> steady_span series gate bounds metrics (wn_sp_lo w) (wn_sp_hi w + 1))
         \<and> 600 * 1000000000 \<le> window_issue_span_ns series (wn_sp_lo w) (wn_sp_hi w)
         \<and> (\<forall>i<wn_plateau_index w. sw_is_short (min_steady_duration series (fst (ps ! i)) (snd (ps ! i))))))
    \<and> (\<forall>lo. lo + MIN_TREND_N \<le> length series \<and> steady_span series gate bounds metrics lo (lo + MIN_TREND_N)
         \<longrightarrow> (\<exists>p\<in>set ps. fst p \<le> lo \<and> lo < snd p))"
proof -
  obtain gate' where g: "map_of (algorithms phi) algo = Some gate'"
    "ss = (if segment_plateaus (drop (ss_warmup ss) full) gate' bounds metrics = []
           then no_window full (drop (ss_warmup ss) full) sz (ss_warmup ss) gate' bounds metrics
           else reported_window full (drop (ss_warmup ss) full) sz (ss_warmup ss) gate' bounds
                  (segment_plateaus (drop (ss_warmup ss) full) gate' bounds metrics) True)"
    by (rule compute_cases [OF assms(1)])
  have ss: "ss = (if ps = [] then no_window full series sz (ss_warmup ss) gate bounds metrics
           else reported_window full series sz (ss_warmup ss) gate bounds ps True)"
  proof -
    have "gate' = gate" using g(1) assms(3) by simp
    from g(2) [unfolded this] show ?thesis unfolding assms(2,4) .
  qed
  note S = segment_props [of series gate bounds metrics, folded assms(4), unfolded admissible_iff]
  have cover: "\<exists>p\<in>set ps. fst p \<le> lo \<and> lo < snd p"
    if "lo + MIN_TREND_N \<le> length series" "steady_span series gate bounds metrics lo (lo + MIN_TREND_N)" for lo
    using S that by simp
  have pl: "fst p + MIN_TREND_N \<le> snd p" "snd p \<le> length series" "steady_span series gate bounds metrics (fst p) (snd p)"
    "snd p < length series \<Longrightarrow> \<not> steady_span series gate bounds metrics (fst p) (snd p + 1)" if "p \<in> set ps" for p
    using S that by (simp_all add: plateau_def)
  show ?thesis
  proof (cases "ps = []")
    case True
    then have "ss = no_window full series sz (ss_warmup ss) gate bounds metrics" using ss by simp
    from arg_cong [OF this, of ss_found] have "\<not> ss_found ss" by (simp add: no_window_def Let_def)
    then show ?thesis using True cover by auto
  next
    case False
    then have rep: "ss = reported_window full series sz (ss_warmup ss) gate bounds ps True" using ss by simp
    note r = reported_found [OF rep False]
    have "\<exists>w. ss_window ss = Some w \<and> wn_sp_lo w + MIN_TREND_N \<le> wn_sp_hi w \<and> wn_sp_hi w \<le> length series
         \<and> steady_span series gate bounds metrics (wn_sp_lo w) (wn_sp_hi w)
         \<and> (wn_sp_hi w < length series \<longrightarrow> \<not> steady_span series gate bounds metrics (wn_sp_lo w) (wn_sp_hi w + 1))
         \<and> 600 * 1000000000 \<le> window_issue_span_ns series (wn_sp_lo w) (wn_sp_hi w)
         \<and> (\<forall>i<wn_plateau_index w. sw_is_short (min_steady_duration series (fst (ps ! i)) (snd (ps ! i))))" if "ss_found ss"
    proof -
      from r(2) [OF that] obtain w where w: "ss_window ss = Some w" "wn_plateau_index w < length ps"
        "(wn_sp_lo w, wn_sp_hi w) = ps ! wn_plateau_index w" "\<not> sw_is_short (min_steady_duration series (wn_sp_lo w) (wn_sp_hi w))"
        "\<forall>i<wn_plateau_index w. sw_is_short (min_steady_duration series (fst (ps ! i)) (snd (ps ! i)))"
        by blast
      have "(wn_sp_lo w, wn_sp_hi w) \<in> set ps" using w(2,3) by simp
      from pl [OF this] long_enough [OF w(4)] w(1,5) show ?thesis by auto
    qed
    then show ?thesis using r(1) cover by blast
  qed
qed

section \<open>An example\<close>

text \<open>Four super-passes of 200 seconds each with a constant output rate.\<close>

definition example_pass :: "nat \<Rightarrow> rollup" where
  "example_pass i = (new_rollup i)\<lparr>sp_n_issued := 2, sp_first_issue_ns := 200000000000 * int i,
     sp_last_issue_ns := 200000000000 * int i + 190000000000, sp_tpot_ns := [20, 20], sp_latency_ns := [5000000000, 6000000000],
     sp_osl := [10, 10], sp_out_tokens := 20\<rparr>"

definition example_series :: "rollup list" where
  "example_series = [example_pass 0, example_pass 1, example_pass 2, example_pass 3]"

lemma example_trajectory:
  "window_percentile_series example_series 0 4 sp_tpot_ns p = Some [percentile_of [20, 20] p, percentile_of [20, 20] p,
     percentile_of [20, 20] p, percentile_of [20, 20] p]"
  by (simp add: window_percentile_series_def window_def example_series_def example_pass_def new_rollup_def)

lemma flat_trajectory: "rel_drift [c, c, c, c] = 0" "cov [c, c, c, c] = 0"
proof -
  have a: "average [c, c, c, c] = c" by (simp add: average_def)
  show "rel_drift [c, c, c, c] = 0" by (simp add: rel_drift_def ols_def Let_def a upt_rec)
  show "cov [c, c, c, c] = 0" by (simp add: cov_def pstdev_def pvariance_def a)
qed

lemma example_span: "steady_span example_series gate DEFAULT_COV_BOUNDS GATED_METRICS 0 4"
proof -
  have eq: "GATED_METRICS = [tracked ''tpot_p50'' sp_tpot_ns (50 / 100) True, tracked ''tpot_p90'' sp_tpot_ns (90 / 100) True]"
    by (simp add: GATED_METRICS_def TRACKED_METRICS_def tracked_def)
  show ?thesis unfolding eq
    by (simp add: steady_span_def tracked_def example_trajectory trending_def flat_trajectory MIN_TREND_N_def
        TREND_REL_DRIFT_MIN_def DEFAULT_COV_BOUNDS_def)
qed

lemma example_duration: "\<not> sw_is_short (min_steady_duration example_series 0 4)"
proof -
  have w: "window example_series 0 4 = example_series" by (simp add: window_def example_series_def)
  have m: "percentile_of [20, 20] (1 / 2) = 20"
    by (simp add: percentile_of_def percentile_lower_def list_get_def trunc_def)
  have l: "pooled example_series 0 4 sp_latency_ns = [5000000000, 6000000000, 5000000000, 6000000000, 5000000000, 6000000000, 5000000000, 6000000000]"
    by (simp add: pooled_def w) (simp add: example_series_def example_pass_def new_rollup_def)
  have fl: "\<lfloor>63 / 10 :: rat\<rfloor> = 6" by (simp add: floor_eq_iff)
  have p: "percentile_of [5000000000, 6000000000, 5000000000, 6000000000, 5000000000, 6000000000, 5000000000, 6000000000] (9 / 10) = 6000000000"
    by (simp add: percentile_of_def percentile_lower_def list_get_def trunc_def fl)
  have d: "window_issue_span_ns example_series 0 4 = 790000000000"
  proof -
    have "map sp_first_issue_ns example_series = [0, 200000000000, 400000000000, 600000000000]"
      "map sp_last_issue_ns example_series = [190000000000, 390000000000, 590000000000, 790000000000]"
      by (simp_all add: example_series_def example_pass_def new_rollup_def)
    then show ?thesis unfolding window_issue_span_ns_def Let_def w by (simp add: span_ns_def Let_def del: set_filter)
  qed
  have t: "map (\<lambda>sp. percentile_of (sp_tpot_ns sp) (50 / 100)) (filter (\<lambda>sp. sp_tpot_ns sp \<noteq> []) example_series) = [20, 20, 20, 20]"
    by (simp add: example_series_def example_pass_def new_rollup_def m)
  show ?thesis
    unfolding min_steady_duration_def Let_def short_window.simps w l d t
    by (simp add: flat_trajectory p MIN_TREND_N_def MIN_DUR_RELAX_MULT_def MIN_DUR_FLOOR_S_def)
qed

theorem steady_state_is_certified_witness:
  "\<exists>ss w. compute_steady_state_metrics (\<lambda>_. 0) example_series 2 (FixedWarmup 0) DEFAULT_COV_BOUNDS ''tpot_p50'' (5 / 100)
        ''mk_hamed_rao'' GATED_METRICS True = Inr ss
     \<and> ss_found ss \<and> ss_window ss = Some w \<and> wn_sp_hi w \<le> 4 \<and> 600 * 1000000000 \<le> window_issue_span_ns example_series (wn_sp_lo w) (wn_sp_hi w)"
proof -
  let ?phi = "\<lambda>_ :: real. 0 :: real"
  let ?gate = "mann_kendall_hamed_rao ?phi"
  have gate: "map_of (algorithms ?phi) ''mk_hamed_rao'' = Some ?gate" by (simp add: algorithms_def)
  obtain ss where ss: "compute_steady_state_metrics ?phi example_series 2 (FixedWarmup 0) DEFAULT_COV_BOUNDS ''tpot_p50'' (5 / 100)
        ''mk_hamed_rao'' GATED_METRICS True = Inr ss"
    by (simp add: compute_steady_state_metrics_def gate Let_def)
  have wu: "ss_warmup ss = 0"
    using ss by (auto simp: compute_steady_state_metrics_def gate Let_def no_window_def reported_window_def split: if_splits)
  have len: "length example_series = 4" by (simp add: example_series_def)
  define ps where "ps = segment_plateaus example_series ?gate DEFAULT_COV_BOUNDS GATED_METRICS"
  have series: "example_series = drop (ss_warmup ss) example_series" by (simp add: wu)
  note C = steady_state_is_certified [OF ss series gate ps_def]
  have "\<exists>p\<in>set ps. fst p \<le> 0 \<and> 0 < snd p"
    using C example_span [of ?gate] by (simp add: len MIN_TREND_N_def)
  then obtain p where p: "p \<in> set ps" "fst p = 0" by auto
  have "fst p + MIN_TREND_N \<le> snd p" "snd p \<le> length example_series"
    using segment_props [of example_series ?gate DEFAULT_COV_BOUNDS GATED_METRICS] p(1) by (auto simp: plateau_def simp flip: ps_def)
  then have "snd p = 4" by (simp add: len p(2) MIN_TREND_N_def)
  then have "\<not> sw_is_short (min_steady_duration example_series (fst p) (snd p))" using example_duration p(2) by simp
  then have "ss_found ss" using C p(1) by blast
  with C ss len show ?thesis by auto
qed

end
