(* ===== verification/Regex.thy ===== *)
theory Regex
  imports PyText
begin

text \<open>
  The part of Python's \<open>re\<close> the program uses: a pattern is a tree, and \<open>re_run\<close> lists the ways it matches a prefix
  of the text in the order the backtracking matcher tries them.  A way is the character before the remaining
  text, the remaining text and the groups captured so far; the first one is the match Python reports.  Zero-width
  tests see the character before and the text behind.  Text is ASCII.
\<close>

datatype rx =
    Eps
  | Cls "char \<Rightarrow> bool"
  | Seq rx rx
  | Alt rx rx
  | Star bool rx
  | Grp nat rx
  | Look "char option \<Rightarrow> string \<Rightarrow> bool"

type_synonym caps = "(nat \<times> string) list"
type_synonym way = "char option \<times> string \<times> caps"

text \<open>\<open>Star True\<close> prefers one more round, \<open>Star False\<close> to stop; a round that consumes nothing ends the loop.\<close>

function re_run :: "rx \<Rightarrow> char option \<Rightarrow> string \<Rightarrow> caps \<Rightarrow> way list" where
  "re_run Eps p t c = [(p, t, c)]"
| "re_run (Cls f) p t c = (case t of [] \<Rightarrow> [] | x # xs \<Rightarrow> if f x then [(Some x, xs, c)] else [])"
| "re_run (Seq r s) p t c = concat (map (\<lambda>(p', t', c'). re_run s p' t' c') (re_run r p t c))"
| "re_run (Alt r s) p t c = re_run r p t c @ re_run s p t c"
| "re_run (Star greedy r) p t c =
     (let more = concat (map (\<lambda>(p', t', c'). re_run (Star greedy r) p' t' c')
            (filter (\<lambda>(p', t', c'). length t' < length t) (re_run r p t c)))
      in if greedy then more @ [(p, t, c)] else (p, t, c) # more)"
| "re_run (Grp n r) p t c =
     map (\<lambda>(p', t', c'). (p', t', (n, take (length t - length t') t) # c')) (re_run r p t c)"
| "re_run (Look f) p t c = (if f p t then [(p, t, c)] else [])"
  by pat_completeness auto

termination
  by (relation "measures [\<lambda>(r, p, t, c). size r, \<lambda>(r, p, t, c). length t]") auto

declare re_run.simps(5) [simp del]

section \<open>Building patterns\<close>

definition Chr :: "char \<Rightarrow> rx" where "Chr x = Cls (\<lambda>y. y = x)"
definition Opt :: "rx \<Rightarrow> rx" where "Opt r = Alt r Eps"
definition Plus :: "rx \<Rightarrow> rx" where "Plus r = Seq r (Star True r)"

fun seqs :: "rx list \<Rightarrow> rx" where
  "seqs [] = Eps"
| "seqs [r] = r"
| "seqs (r # rs) = Seq r (seqs rs)"

fun alts :: "rx list \<Rightarrow> rx" where
  "alts [] = Look (\<lambda>_ _. False)"
| "alts [r] = r"
| "alts (r # rs) = Alt r (alts rs)"

definition word :: "string \<Rightarrow> rx" where "word s = seqs (map Chr s)"

text \<open>With \<open>re.IGNORECASE\<close>.\<close>

definition iword :: "string \<Rightarrow> rx" where "iword s = seqs (map (\<lambda>x. Cls (\<lambda>y. lower_char y = lower_char x)) s)"

text \<open>The classes \<open>\d\<close>, \<open>\w\<close>, \<open>\s\<close>, letters, and the tests \<open>^\<close>, \<open>$\<close>, \<open>\b\<close> and the one-character lookarounds.\<close>

definition word_char :: "char \<Rightarrow> bool" where "word_char c = (letter c \<or> is_digit c \<or> c = CHR ''_'')"

definition any_char :: rx where "any_char = Cls (\<lambda>c. c \<noteq> newline)"
definition spaces :: rx where "spaces = Star True (Cls str_space)"

definition line_start :: rx where "line_start = Look (\<lambda>p t. p = None \<or> p = Some newline)"
definition line_end :: rx where "line_end = Look (\<lambda>p t. t = [] \<or> hd t = newline)"
definition text_start :: rx where "text_start = Look (\<lambda>p t. p = None)"
definition text_end :: rx where "text_end = Look (\<lambda>p t. t = [] \<or> t = [newline])"

definition word_boundary :: rx where
  "word_boundary = Look (\<lambda>p t. (case p of None \<Rightarrow> False | Some c \<Rightarrow> word_char c) \<noteq> (t \<noteq> [] \<and> word_char (hd t)))"

definition not_behind :: "(char \<Rightarrow> bool) \<Rightarrow> rx" where
  "not_behind f = Look (\<lambda>p t. case p of None \<Rightarrow> True | Some c \<Rightarrow> \<not> f c)"
definition not_ahead :: "(char \<Rightarrow> bool) \<Rightarrow> rx" where
  "not_ahead f = Look (\<lambda>p t. t = [] \<or> \<not> f (hd t))"

section \<open>Searching\<close>

record rx_match =
  mt_before :: string
  mt_text :: string
  mt_caps :: caps
  mt_prev :: "char option"
  mt_rest :: string

definition re_group :: "rx_match \<Rightarrow> nat \<Rightarrow> string option" where
  "re_group m n = map_of (mt_caps m) n"

definition rx_match_at :: "rx \<Rightarrow> char option \<Rightarrow> string \<Rightarrow> rx_match option" where
  "rx_match_at r p t = (case re_run r p t [] of
       [] \<Rightarrow> None
     | (p', t', c) # _ \<Rightarrow> Some \<lparr>mt_before = [], mt_text = take (length t - length t') t, mt_caps = c, mt_prev = p', mt_rest = t'\<rparr>)"

text \<open>\<open>re.search\<close>: the first position the pattern matches at, with the text skipped before it.\<close>

fun re_search :: "rx \<Rightarrow> char option \<Rightarrow> string \<Rightarrow> rx_match option" where
  "re_search r p [] = rx_match_at r p []"
| "re_search r p (x # xs) =
     (case rx_match_at r p (x # xs) of
        Some m \<Rightarrow> Some m
      | None \<Rightarrow> map_option (\<lambda>m. m\<lparr>mt_before := x # mt_before m\<rparr>) (re_search r (Some x) xs))"

text \<open>\<open>re.finditer\<close>: the matches from left to right, each with the text since the one before, and the text
  behind the last.  None of the program's patterns matches the empty text; such a match ends the re_search here.\<close>

function find_from :: "rx \<Rightarrow> char option \<Rightarrow> string \<Rightarrow> rx_match list \<times> string" where
  "find_from r p t =
     (case re_search r p t of
        None \<Rightarrow> ([], t)
      | Some m \<Rightarrow>
          if length (mt_rest m) < length t
          then (case find_from r (mt_prev m) (mt_rest m) of (ms, rest) \<Rightarrow> (m # ms, rest))
          else ([], t))"
  by pat_completeness auto

termination
  by (relation "measure (\<lambda>(r, p, t). length t)") auto

declare find_from.simps [simp del]

definition find_iter :: "rx \<Rightarrow> string \<Rightarrow> rx_match list" where
  "find_iter r t = fst (find_from r None t)"

text \<open>\<open>re.sub\<close> with a function, and \<open>re.split\<close>.\<close>

definition re_sub :: "rx \<Rightarrow> (rx_match \<Rightarrow> string) \<Rightarrow> string \<Rightarrow> string" where
  "re_sub r f t = (case find_from r None t of (ms, rest) \<Rightarrow> concat (map (\<lambda>m. mt_before m @ f m) ms) @ rest)"

definition re_split :: "rx \<Rightarrow> string \<Rightarrow> string list" where
  "re_split r t = (case find_from r None t of (ms, rest) \<Rightarrow> map mt_before ms @ [rest])"

definition full_match :: "rx \<Rightarrow> string \<Rightarrow> bool" where
  "full_match r t = list_ex (\<lambda>(p, t', c). t' = []) (re_run r None t [])"

section \<open>Facts\<close>

text \<open>Every way leaves a suffix of the text.\<close>

lemma run_suffix: "(p', t', c') \<in> set (re_run r p t c) \<Longrightarrow> \<exists>u. t = u @ t'"
proof (induction r p t c arbitrary: p' t' c' rule: re_run.induct)
  case (2 f p t c)
  then show ?case by (cases t) (auto split: if_splits intro: exI [of _ "[_]"])
next
  case (3 r s p t c)
  then obtain p1 t1 c1 where a: "(p1, t1, c1) \<in> set (re_run r p t c)" "(p', t', c') \<in> set (re_run s p1 t1 c1)" by auto
  from 3(1) [OF a(1)] obtain u where u: "t = u @ t1" by blast
  from 3(2) [OF a(1) refl refl a(2)] obtain v where "t1 = v @ t'" by blast
  with u show ?case by (intro exI [of _ "u @ v"]) simp
next
  case (5 g r p t c)
  from 5(3) consider "(p', t', c') = (p, t, c)" |
      p1 t1 c1 where "(p1, t1, c1) \<in> set (re_run r p t c)" "length t1 < length t" "(p', t', c') \<in> set (re_run (Star g r) p1 t1 c1)"
    unfolding re_run.simps(5) [of g r p t c] Let_def by (auto split: if_splits)
  then show ?case
  proof cases
    case 2
    from 5(1) [OF 2(1)] obtain u where u: "t = u @ t1" by blast
    have "(p1, t1, c1) \<in> set (filter (\<lambda>(p', t', c'). length t' < length t) (re_run r p t c))" using 2(1,2) by simp
    from 5(2) [OF this refl refl 2(3)] obtain v where "t1 = v @ t'" by blast
    with u show ?thesis by (intro exI [of _ "u @ v"]) simp
  qed simp
qed (auto split: if_splits)

lemma rx_match_at_text:
  assumes "rx_match_at r p t = Some m"
  shows "mt_before m = [] \<and> t = mt_text m @ mt_rest m"
proof -
  obtain p' t' c ws where r: "re_run r p t [] = (p', t', c) # ws"
    and m: "m = \<lparr>mt_before = [], mt_text = take (length t - length t') t, mt_caps = c, mt_prev = p', mt_rest = t'\<rparr>"
    using assms by (auto simp: rx_match_at_def split: list.splits)
  have "(p', t', c) \<in> set (re_run r p t [])" using r by simp
  then obtain u where "t = u @ t'" using run_suffix by blast
  then show ?thesis by (simp add: m)
qed

lemma search_text: "re_search r p t = Some m \<Longrightarrow> t = mt_before m @ mt_text m @ mt_rest m"
proof (induction t arbitrary: p m)
  case Nil
  then show ?case using rx_match_at_text [of r p "[]" m] by simp
next
  case (Cons x xs)
  show ?case
  proof (cases "rx_match_at r p (x # xs)")
    case None
    then obtain m' where "re_search r (Some x) xs = Some m'" "m = m'\<lparr>mt_before := x # mt_before m'\<rparr>"
      using Cons.prems by auto
    then show ?thesis using Cons.IH by simp
  next
    case (Some m')
    then show ?thesis using Cons.prems rx_match_at_text [of r p "x # xs" m] by simp
  qed
qed

text \<open>A text the pattern matches nowhere.\<close>

lemma search_none: "re_search r p t = None \<Longrightarrow> find_from r p t = ([], t)"
  by (simp add: find_from.simps)

lemma find_from_some:
  "re_search r p t = Some m \<Longrightarrow> length (mt_rest m) < length t \<Longrightarrow>
     find_from r p t = (case find_from r (mt_prev m) (mt_rest m) of (ms, rest) \<Rightarrow> (m # ms, rest))"
  by (simp add: find_from.simps [of r p t])

text \<open>The matches and the texts between them make up the text.\<close>

lemma find_from_text: "find_from r p t = (ms, rest) \<Longrightarrow> concat (map (\<lambda>m. mt_before m @ mt_text m) ms) @ rest = t"
proof (induction r p t arbitrary: ms rest rule: find_from.induct)
  case (1 r p t)
  show ?case
  proof (cases "re_search r p t")
    case None
    then show ?thesis using 1(2) by (simp add: search_none)
  next
    case (Some m)
    note t = search_text [OF Some]
    show ?thesis
    proof (cases "length (mt_rest m) < length t")
      case True
      obtain ns rest' where f: "find_from r (mt_prev m) (mt_rest m) = (ns, rest')" by force
      from 1(1) [OF Some True f] have "concat (map (\<lambda>m. mt_before m @ mt_text m) ns) @ rest' = mt_rest m" .
      moreover have "ms = m # ns" "rest = rest'" using 1(2) f by (simp_all add: find_from_some [OF Some True])
      ultimately show ?thesis using t by simp
    next
      case False
      then show ?thesis using 1(2) Some by (simp add: find_from.simps [of r p t])
    qed
  qed
qed

text \<open>A pattern that cannot match the empty text, for which every match moves on.\<close>

fun consuming :: "rx \<Rightarrow> bool" where
  "consuming Eps = False"
| "consuming (Cls f) = True"
| "consuming (Seq r s) = (consuming r \<or> consuming s)"
| "consuming (Alt r s) = (consuming r \<and> consuming s)"
| "consuming (Star g r) = False"
| "consuming (Grp n r) = consuming r"
| "consuming (Look f) = False"

lemma run_shorter: "(p', t', c') \<in> set (re_run r p t c) \<Longrightarrow> length t' \<le> length t"
  by (drule run_suffix) auto

lemma consuming_shorter: "consuming r \<Longrightarrow> (p', t', c') \<in> set (re_run r p t c) \<Longrightarrow> length t' < length t"
proof (induction r arbitrary: p t c p' t' c')
  case (Cls f)
  then show ?case by (cases t) (auto split: if_splits)
next
  case (Seq r s)
  from Seq.prems(2) obtain p1 t1 c1 where a: "(p1, t1, c1) \<in> set (re_run r p t c)" "(p', t', c') \<in> set (re_run s p1 t1 c1)"
    by auto
  then have "length t1 \<le> length t" "length t' \<le> length t1" by (auto dest: run_shorter)
  moreover have "length t1 < length t \<or> length t' < length t1"
    using Seq.prems(1) Seq.IH(1) [OF _ a(1)] Seq.IH(2) [OF _ a(2)] by auto
  ultimately show ?case by linarith
qed auto

lemma consuming_match: "consuming r \<Longrightarrow> rx_match_at r p t = Some m \<Longrightarrow> length (mt_rest m) < length t"
proof -
  assume r: "consuming r" and m: "rx_match_at r p t = Some m"
  then obtain p' t' c ws where "re_run r p t [] = (p', t', c) # ws" "mt_rest m = t'" by (auto simp: rx_match_at_def split: list.splits)
  then show ?thesis using consuming_shorter [OF r, of p' t' c p t "[]"] by simp
qed

lemma consuming_search: "consuming r \<Longrightarrow> re_search r p t = Some m \<Longrightarrow> length (mt_rest m) < length t"
proof (induction t arbitrary: p m)
  case Nil
  then show ?case using consuming_match [of r p "[]" m] by simp
next
  case (Cons x xs)
  show ?case
  proof (cases "rx_match_at r p (x # xs)")
    case None
    then obtain m' where "re_search r (Some x) xs = Some m'" "m = m'\<lparr>mt_before := x # mt_before m'\<rparr>"
      using Cons.prems(2) by auto
    then show ?thesis using Cons.IH [OF Cons.prems(1)] by (simp add: less_SucI)
  next
    case (Some m')
    then show ?thesis using Cons.prems consuming_match [OF Cons.prems(1), of p "x # xs" m] by simp
  qed
qed

lemma find_from_consuming:
  "consuming r \<Longrightarrow> find_from r p t =
     (case re_search r p t of None \<Rightarrow> ([], t)
      | Some m \<Rightarrow> (case find_from r (mt_prev m) (mt_rest m) of (ms, rest) \<Rightarrow> (m # ms, rest)))"
  by (auto simp: find_from.simps [of r p t] dest: consuming_search split: option.splits)

definition last_char :: "char option \<Rightarrow> string \<Rightarrow> char option" where
  "last_char p s = (if s = [] then p else Some (last s))"

lemma last_char_simps [simp]: "last_char p [] = p" "last_char p (x # s) = last_char (Some x) s"
  by (simp_all add: last_char_def)

lemma last_char_append [simp]: "last_char p (s @ t) = last_char (last_char p s) t"
  by (simp add: last_char_def)

text \<open>A greedy class takes all it can first, a lazy one as little as what follows allows.\<close>

lemma star_greedy:
  assumes "list_all f u" and "t = [] \<or> \<not> f (hd t)"
  shows "\<exists>ws. re_run (Star True (Cls f)) p (u @ t) c = (last_char p u, t, c) # ws"
  using assms(1)
proof (induction u arbitrary: p)
  case Nil
  then show ?case using assms(2) by (cases t) (simp_all add: re_run.simps(5))
next
  case (Cons x u)
  then obtain ws where "re_run (Star True (Cls f)) (Some x) (u @ t) c = (last_char (Some x) u, t, c) # ws" by auto
  then show ?case using Cons.prems by (simp add: re_run.simps(5) [of True "Cls f" p "x # u @ t"])
qed

lemma star_lazy:
  assumes "list_all f d" and "\<And>u v q. d = u @ v \<Longrightarrow> v \<noteq> [] \<Longrightarrow> k (q, v @ t, c) = []"
  shows "\<exists>ws. concat (map k (re_run (Star False (Cls f)) p (d @ t) c)) = k (last_char p d, t, c) @ ws"
  using assms
proof (induction d arbitrary: p)
  case Nil
  then show ?case by (simp add: re_run.simps(5))
next
  case (Cons x d)
  have "k (q, v @ t, c) = []" if "d = u @ v" "v \<noteq> []" for u v q
    using Cons.prems(2) [of "x # u" v q] that by simp
  then obtain ws where
    "concat (map k (re_run (Star False (Cls f)) (Some x) (d @ t) c)) = k (last_char (Some x) d, t, c) @ ws"
    using Cons.IH [of "Some x"] Cons.prems(1) by auto
  then show ?case using Cons.prems(1) Cons.prems(2) [of "[]" "x # d" p]
    by (simp add: re_run.simps(5) [of False "Cls f" p "x # d @ t"])
qed

end
