(* ===== verification/ConfigText.thy ===== *)
theory ConfigText
  imports Regex PyValues
begin

text \<open>
  The text level of the configuration in \<open>config/utils.py\<close>: references to environment variables in the values of
  a YAML tree, and the option grammar of a dataset on the command line.  \<open>os.environ\<close> is a function.
\<close>

section \<open>Environment variables\<close>

definition var_name :: rx where
  "var_name = Seq (Cls (\<lambda>c. letter c \<or> c = CHR ''_'')) (Star True (Cls word_char))"

definition no_dollar_behind :: rx where "no_dollar_behind = not_behind (\<lambda>c. c = CHR ''$'')"

definition ENV_VAR_PATTERN :: rx where
  "ENV_VAR_PATTERN =
     Alt (seqs [no_dollar_behind, Chr (CHR ''$''), Chr (CHR ''{''), Grp 1 var_name,
            Opt (seqs [Chr (CHR '':''), Chr (CHR ''-''), Grp 2 (Star False any_char)]), Chr (CHR ''}'')])
         (seqs [no_dollar_behind, Chr (CHR ''$''), Grp 3 var_name])"

definition replace_var :: "(string \<Rightarrow> string option) \<Rightarrow> rx_match \<Rightarrow> string result" where
  "replace_var env m =
     (case re_group m 1 of
        Some v \<Rightarrow> (case env v of
            Some x \<Rightarrow> Inr x
          | None \<Rightarrow> (case re_group m 2 of Some d \<Rightarrow> Inr d | None \<Rightarrow> Inl ValueError))
      | None \<Rightarrow> (case env (the (re_group m 3)) of Some x \<Rightarrow> Inr x | None \<Rightarrow> Inl ValueError))"

text \<open>\<open>pattern.sub\<close> with a function that may raise.\<close>

fun replace_all :: "(rx_match \<Rightarrow> string result) \<Rightarrow> rx_match list \<Rightarrow> string \<Rightarrow> string result" where
  "replace_all f [] rest = Inr rest"
| "replace_all f (m # ms) rest =
     (case f m of Inl e \<Rightarrow> Inl e | Inr v \<Rightarrow> map_sum id (\<lambda>s. mt_before m @ v @ s) (replace_all f ms rest))"

definition sub_result :: "(rx_match \<Rightarrow> string result) \<Rightarrow> rx \<Rightarrow> char option \<Rightarrow> string \<Rightarrow> string result" where
  "sub_result f r p t = (case find_from r p t of (ms, rest) \<Rightarrow> replace_all f ms rest)"

text \<open>\<open>text.replace("$$", "$")\<close>.\<close>

fun unescape :: "string \<Rightarrow> string" where
  "unescape (a # b # s) = (if a = CHR ''$'' \<and> b = CHR ''$'' then CHR ''$'' # unescape s else a # unescape (b # s))"
| "unescape s = s"

definition resolve_env_var_string :: "(string \<Rightarrow> string option) \<Rightarrow> string \<Rightarrow> string result" where
  "resolve_env_var_string env text = map_sum id unescape (sub_result (replace_var env) ENV_VAR_PATTERN None text)"

text \<open>\<open>resolve_env_vars\<close> on a value inside the tree; the tree itself is a dictionary or a list.\<close>

fun resolve_value :: "(string \<Rightarrow> string option) \<Rightarrow> pyval \<Rightarrow> pyval result"
and resolve_list :: "(string \<Rightarrow> string option) \<Rightarrow> pyval list \<Rightarrow> pyval list result"
and resolve_dict :: "(string \<Rightarrow> string option) \<Rightarrow> pydict \<Rightarrow> pydict result" where
  "resolve_value env (PStr s) = map_sum id PStr (resolve_env_var_string env s)"
| "resolve_value env (PList xs) = map_sum id PList (resolve_list env xs)"
| "resolve_value env (PDict d) = map_sum id PDict (resolve_dict env d)"
| "resolve_value env v = Inr v"
| "resolve_list env [] = Inr []"
| "resolve_list env (x # xs) =
     (case resolve_value env x of Inl e \<Rightarrow> Inl e | Inr y \<Rightarrow> map_sum id (\<lambda>ys. y # ys) (resolve_list env xs))"
| "resolve_dict env [] = Inr []"
| "resolve_dict env ((k, v) # d) =
     (case resolve_value env v of Inl e \<Rightarrow> Inl e | Inr w \<Rightarrow> map_sum id (\<lambda>e. (k, w) # e) (resolve_dict env d))"

definition resolve_env_vars :: "(string \<Rightarrow> string option) \<Rightarrow> pyval \<Rightarrow> pyval result" where
  "resolve_env_vars env v = (case v of PStr s \<Rightarrow> Inr v | _ \<Rightarrow> resolve_value env v)"

section \<open>Dataset options\<close>

text \<open>Setting the value at a dotted path, which creates the dictionaries on the way.\<close>

fun insert_path :: "string list \<Rightarrow> string \<Rightarrow> pydict \<Rightarrow> pydict result" where
  "insert_path [] v d = Inr d"
| "insert_path [k] v d = Inr (AList.update k (PStr v) d)"
| "insert_path (k # l # ks) v d =
     (case map_of d k of
        None \<Rightarrow> map_sum id (\<lambda>e. AList.update k (PDict e) d) (insert_path (l # ks) v [])
      | Some (PDict e) \<Rightarrow> map_sum id (\<lambda>e'. AList.update k (PDict e') d) (insert_path (l # ks) v e)
      | Some _ \<Rightarrow> Inl ValueError)"

definition insert_option :: "pydict result \<Rightarrow> string \<Rightarrow> pydict result" where
  "insert_option r kv =
     (case r of
        Inl e \<Rightarrow> Inl e
      | Inr d \<Rightarrow> (case split_at (CHR ''='') kv of
            (key, None) \<Rightarrow> Inl ValueError
          | (key, Some v) \<Rightarrow> insert_path (split_all (CHR ''.'') key) v d))"

text \<open>The values of the remap of \<open>MakeAdapterCompatible\<close>.\<close>

definition PARSER_TARGETS :: "string list" where "PARSER_TARGETS = [''prompt'', ''system'']"

definition split_tag :: "string \<Rightarrow> string \<times> string" where
  "split_tag path =
     (case split_at (CHR '':'') path of
        (tag, Some rest) \<Rightarrow>
          if tag = ''perf'' then (''performance'', rest) else if tag = ''acc'' then (''accuracy'', rest) else (''performance'', path)
      | (tag, None) \<Rightarrow> (''performance'', path))"

definition parser_ok :: "pydict \<Rightarrow> bool" where
  "parser_ok d = (case map_of d ''parser'' of Some (PDict e) \<Rightarrow> set (map fst e) \<subseteq> set PARSER_TARGETS | _ \<Rightarrow> True)"

definition parse_dataset_string :: "string \<Rightarrow> pydict result" where
  "parse_dataset_string s =
     (let parts = split_all (CHR '','') s; (dtype, path) = split_tag (hd parts)
      in case foldl insert_option (Inr [(''path'', PStr path), (''type'', PStr dtype)]) (tl parts) of
           Inl e \<Rightarrow> Inl e
         | Inr d \<Rightarrow> if parser_ok d then Inr d else Inl ValueError)"

section \<open>Text that is written out and read back\<close>

text \<open>A value as it is meant: literal text, whose dollars are doubled, and references.\<close>

datatype template_item = Lit string | Braced string "string option" | Bare string

definition escape :: "string \<Rightarrow> string" where
  "escape s = concat (map (\<lambda>c. if c = CHR ''$'' then ''$$'' else [c]) s)"

fun render_item :: "template_item \<Rightarrow> string" where
  "render_item (Lit s) = escape s"
| "render_item (Braced v None) = ''${'' @ v @ ''}''"
| "render_item (Braced v (Some d)) = ''${'' @ v @ '':-'' @ d @ ''}''"
| "render_item (Bare v) = CHR ''$'' # v"

definition render :: "template_item list \<Rightarrow> string" where "render is = concat (map render_item is)"

fun value_of :: "(string \<Rightarrow> string option) \<Rightarrow> template_item \<Rightarrow> string result" where
  "value_of env (Lit s) = Inr s"
| "value_of env (Braced v d) =
     (case env v of Some x \<Rightarrow> Inr x | None \<Rightarrow> (case d of Some y \<Rightarrow> Inr y | None \<Rightarrow> Inl ValueError))"
| "value_of env (Bare v) = (case env v of Some x \<Rightarrow> Inr x | None \<Rightarrow> Inl ValueError)"

fun values_of :: "(string \<Rightarrow> string option) \<Rightarrow> template_item list \<Rightarrow> string result" where
  "values_of env [] = Inr []"
| "values_of env (i # is) =
     (case value_of env i of Inl e \<Rightarrow> Inl e | Inr s \<Rightarrow> map_sum id (\<lambda>t. s @ t) (values_of env is))"

definition is_name :: "string \<Rightarrow> bool" where
  "is_name v = (v \<noteq> [] \<and> (letter (hd v) \<or> hd v = CHR ''_'') \<and> list_all word_char v)"

text \<open>A reference may not follow a dollar, a bare one not be followed by a word character, and what is filled in
  holds no dollar.\<close>

fun plain_items :: "char option \<Rightarrow> template_item list \<Rightarrow> bool" where
  "plain_items p [] = True"
| "plain_items p (Lit s # is) = plain_items (last_char p s) is"
| "plain_items p (Braced v d # is) =
     (p \<noteq> Some (CHR ''$'') \<and> is_name v
      \<and> (case d of None \<Rightarrow> True | Some y \<Rightarrow> list_all (\<lambda>c. c \<noteq> CHR ''}'' \<and> c \<noteq> newline \<and> c \<noteq> CHR ''$'') y)
      \<and> plain_items (Some (CHR ''}'')) is)"
| "plain_items p (Bare v # is) =
     (p \<noteq> Some (CHR ''$'') \<and> is_name v \<and> (render is = [] \<or> \<not> word_char (hd (render is)))
      \<and> plain_items (Some (last v)) is)"

text \<open>A tree of options and its command-line form.\<close>

fun options_of :: "pydict \<Rightarrow> (string list \<times> string) list" where
  "options_of [] = []"
| "options_of ((k, PStr v) # d) = ([k], v) # options_of d"
| "options_of ((k, PDict e) # d) = map (\<lambda>(p, v). (k # p, v)) (options_of e) @ options_of d"
| "options_of ((k, _) # d) = options_of d"

definition plain_key :: "string \<Rightarrow> bool" where
  "plain_key k = list_all (\<lambda>c. c \<noteq> CHR '','' \<and> c \<noteq> CHR ''.'' \<and> c \<noteq> CHR ''='') k"

fun option_tree :: "pydict \<Rightarrow> bool" where
  "option_tree [] = True"
| "option_tree ((k, PStr v) # d) = (plain_key k \<and> CHR '','' \<notin> set v \<and> k \<notin> fst ` set d \<and> option_tree d)"
| "option_tree ((k, PDict e) # d) = (plain_key k \<and> e \<noteq> [] \<and> option_tree e \<and> k \<notin> fst ` set d \<and> option_tree d)"
| "option_tree ((k, _) # d) = False"

fun join_with :: "char \<Rightarrow> string list \<Rightarrow> string" where
  "join_with c [] = []"
| "join_with c [s] = s"
| "join_with c (s # t # ts) = s @ c # join_with c (t # ts)"

definition write_option :: "string list \<times> string \<Rightarrow> string" where
  "write_option o1 = join_with (CHR ''.'') (fst o1) @ CHR ''='' # snd o1"

definition write_dataset :: "bool \<Rightarrow> string \<Rightarrow> pydict \<Rightarrow> string" where
  "write_dataset accuracy path d =
     join_with (CHR '','') (((if accuracy then ''acc:'' else ''perf:'') @ path) # map write_option (options_of d))"

end
