(* ===== verification/ConfigTextFacts.thy ===== *)
theory ConfigTextFacts
  imports ConfigText
begin

text \<open>Text written with references and escapes is resolved to what it means, and dotted options build the dictionary
  they were written from.\<close>

section \<open>Where the pattern matches\<close>

lemma env_pattern_consuming: "consuming ENV_VAR_PATTERN"
  by (simp add: ENV_VAR_PATTERN_def Chr_def)

lemmas env_pattern = ENV_VAR_PATTERN_def no_dollar_behind_def not_behind_def Chr_def Opt_def

lemma no_match_text: "t = [] \<or> hd t \<noteq> CHR ''$'' \<Longrightarrow> rx_match_at ENV_VAR_PATTERN p t = None"
  by (cases t) (simp_all add: rx_match_at_def env_pattern)

lemma no_match_behind_dollar: "rx_match_at ENV_VAR_PATTERN (Some (CHR ''$'')) t = None"
  by (simp add: rx_match_at_def env_pattern)

lemma no_match_dollar_dollar: "rx_match_at ENV_VAR_PATTERN p (CHR ''$'' # CHR ''$'' # t) = None"
  by (simp add: rx_match_at_def env_pattern var_name_def letter_def)

lemma name_first:
  assumes "is_name v" and "t = [] \<or> \<not> word_char (hd t)"
  shows "\<exists>ws. re_run var_name p (v @ t) c = (Some (last v), t, c) # ws"
proof -
  obtain x u where v: "v = x # u" "letter x \<or> x = CHR ''_''" "list_all word_char u"
    using assms(1) by (cases v) (auto simp: is_name_def)
  obtain ws where "re_run (Star True (Cls word_char)) (Some x) (u @ t) c = (last_char (Some x) u, t, c) # ws"
    using star_greedy [OF v(3) assms(2)] by blast
  then show ?thesis using v(1,2) by (simp add: var_name_def last_char_def)
qed

lemma name_head: "is_name v \<Longrightarrow> hd v \<noteq> CHR ''{'' \<and> v \<noteq> []"
  by (auto simp: is_name_def letter_def)

lemma match_bare:
  assumes "p \<noteq> Some (CHR ''$'')" and v: "is_name v" and t: "t = [] \<or> \<not> word_char (hd t)"
  shows "\<exists>m. rx_match_at ENV_VAR_PATTERN p (CHR ''$'' # v @ t) = Some m \<and> mt_before m = [] \<and> mt_caps m = [(3, v)]
           \<and> mt_prev m = Some (last v) \<and> mt_rest m = t"
proof -
  obtain ws where w: "re_run var_name (Some (CHR ''$'')) (v @ t) [] = (Some (last v), t, []) # ws"
    using name_first [OF v t] by blast
  obtain x u where x: "v = x # u" "x \<noteq> CHR ''{''" using name_head [OF v] by (cases v) auto
  have "\<exists>ws. re_run ENV_VAR_PATTERN p (CHR ''$'' # v @ t) [] = (Some (last v), t, [(3, v)]) # ws"
    using assms(1) w x by (auto simp: env_pattern split: option.splits)
  then show ?thesis by (auto simp: rx_match_at_def)
qed

lemma match_braced:
  assumes "p \<noteq> Some (CHR ''$'')" and v: "is_name v"
  shows "\<exists>m. rx_match_at ENV_VAR_PATTERN p (''${'' @ v @ ''}'' @ t) = Some m \<and> mt_before m = [] \<and> mt_caps m = [(1, v)]
           \<and> mt_prev m = Some (CHR ''}'') \<and> mt_rest m = t"
proof -
  have t: "''}'' @ t = [] \<or> \<not> word_char (hd (''}'' @ t))" by (simp add: word_char_def letter_def is_digit_def)
  obtain ws where w: "re_run var_name (Some (CHR ''{'')) (v @ ''}'' @ t) [] = (Some (last v), ''}'' @ t, []) # ws"
    using name_first [OF v t] by blast
  have "\<exists>ws. re_run ENV_VAR_PATTERN p (''${'' @ v @ ''}'' @ t) [] = (Some (CHR ''}''), t, [(1, v)]) # ws"
    using assms(1) w by (auto simp: env_pattern split: option.splits)
  then show ?thesis by (auto simp: rx_match_at_def)
qed

lemma default_first:
  assumes d: "list_all (\<lambda>c. c \<noteq> CHR ''}'' \<and> c \<noteq> newline) d"
  shows "\<exists>zs. re_run (Seq (Grp 2 (Star False any_char)) (Chr (CHR ''}''))) q (d @ CHR ''}'' # t) c
           = (Some (CHR ''}''), t, (2, d) # c) # zs"
proof -
  define k where "k = (\<lambda>(p :: char option, t', c'). re_run (Chr (CHR ''}'')) p t'
    ((2 :: nat, take (length (d @ CHR ''}'' # t) - length t') (d @ CHR ''}'' # t)) # c'))"
  have k: "k (p, u @ CHR ''}'' # t, c) = []" if "d = e @ u" "u \<noteq> []" for e u p
    using that d by (cases u) (simp_all add: k_def Chr_def list_all_iff)
  have "list_all (\<lambda>c. c \<noteq> newline) d" using d by (simp add: list_all_iff)
  then obtain zs where z: "concat (map k (re_run (Star False (Cls (\<lambda>c. c \<noteq> newline))) q (d @ CHR ''}'' # t) c))
      = k (last_char q d, CHR ''}'' # t, c) @ zs"
    using star_lazy [of "\<lambda>c. c \<noteq> newline" d k "CHR ''}'' # t" c q] k by blast
  have "k (last_char q d, CHR ''}'' # t, c) = [(Some (CHR ''}''), t, (2, d) # c)]" by (simp add: k_def Chr_def)
  moreover have "re_run (Seq (Grp 2 (Star False any_char)) (Chr (CHR ''}''))) q (d @ CHR ''}'' # t) c
      = concat (map k (re_run (Star False (Cls (\<lambda>c. c \<noteq> newline))) q (d @ CHR ''}'' # t) c))"
    by (simp add: k_def any_char_def comp_def case_prod_unfold)
  ultimately show ?thesis using z by simp
qed

lemma match_default:
  assumes "p \<noteq> Some (CHR ''$'')" and v: "is_name v" and d: "list_all (\<lambda>c. c \<noteq> CHR ''}'' \<and> c \<noteq> newline) d"
  shows "\<exists>m. rx_match_at ENV_VAR_PATTERN p (''${'' @ v @ '':-'' @ d @ ''}'' @ t) = Some m \<and> mt_before m = []
           \<and> mt_caps m = [(2, d), (1, v)] \<and> mt_prev m = Some (CHR ''}'') \<and> mt_rest m = t"
proof -
  let ?r = "'':-'' @ d @ ''}'' @ t"
  have r: "?r = [] \<or> \<not> word_char (hd ?r)" by (simp add: word_char_def letter_def is_digit_def)
  obtain ws where w: "re_run var_name (Some (CHR ''{'')) (v @ ?r) [] = (Some (last v), ?r, []) # ws"
    using name_first [OF v r] by blast
  obtain zs where z: "re_run (Seq (Grp 2 (Star False any_char)) (Chr (CHR ''}''))) (Some (CHR ''-'')) (d @ CHR ''}'' # t) [(1, v)]
      = (Some (CHR ''}''), t, (2, d) # [(1, v)]) # zs"
    using default_first [OF d] by blast
  have "\<exists>ws. re_run ENV_VAR_PATTERN p (''${'' @ v @ ?r) [] = (Some (CHR ''}''), t, [(2, d), (1, v)]) # ws"
    using assms(1) w z by (auto simp: env_pattern comp_def case_prod_unfold split: option.splits)
  then show ?thesis by (auto simp: rx_match_at_def)
qed

section \<open>Substitution\<close>

lemma search_escaped:
  "re_search ENV_VAR_PATTERN p (escape s @ t)
   = map_option (\<lambda>m. m\<lparr>mt_before := escape s @ mt_before m\<rparr>) (re_search ENV_VAR_PATTERN (last_char p s) t)"
proof (induction s arbitrary: p)
  case Nil
  then show ?case by (simp add: escape_def option.map_ident)
next
  case (Cons x s)
  have e: "escape (x # s) = (if x = CHR ''$'' then ''$$'' else [x]) @ escape s" by (simp add: escape_def)
  show ?case
  proof (cases "x = CHR ''$''")
    case True
    then show ?thesis unfolding e using Cons.IH [of "Some x"]
      by (simp add: no_match_dollar_dollar no_match_behind_dollar option.map_comp comp_def)
  next
    case False
    then show ?thesis unfolding e using Cons.IH [of "Some x"]
      by (simp add: no_match_text option.map_comp comp_def)
  qed
qed

lemma sub_result_search:
  "sub_result f ENV_VAR_PATTERN p t =
     (case re_search ENV_VAR_PATTERN p t of
        None \<Rightarrow> Inr t
      | Some m \<Rightarrow> (case f m of
            Inl e \<Rightarrow> Inl e
          | Inr v \<Rightarrow> map_sum id (\<lambda>s. mt_before m @ v @ s) (sub_result f ENV_VAR_PATTERN (mt_prev m) (mt_rest m))))"
  unfolding sub_result_def by (simp add: find_from_consuming [OF env_pattern_consuming, of p t] split: option.splits prod.splits)

lemma replace_var_before [simp]: "replace_var env (m\<lparr>mt_before := b\<rparr>) = replace_var env m"
proof -
  have g: "re_group (m\<lparr>mt_before := b\<rparr>) = re_group m" by (simp add: re_group_def fun_eq_iff)
  show ?thesis unfolding replace_var_def g by (rule refl)
qed

lemma sub_result_escaped:
  "sub_result (replace_var env) ENV_VAR_PATTERN p (escape s @ t)
   = map_sum id (\<lambda>w. escape s @ w) (sub_result (replace_var env) ENV_VAR_PATTERN (last_char p s) t)"
  unfolding sub_result_search [of _ p] sub_result_search [of _ "last_char p s"] search_escaped
  by (auto simp: sum.map_comp comp_def id_def split: option.splits sum.splits)

lemma sub_result_match:
  assumes "rx_match_at ENV_VAR_PATTERN p t = Some m" and "mt_before m = []"
  shows "sub_result f ENV_VAR_PATTERN p t =
    (case f m of Inl e \<Rightarrow> Inl e
     | Inr v \<Rightarrow> map_sum id (\<lambda>w. v @ w) (sub_result f ENV_VAR_PATTERN (mt_prev m) (mt_rest m)))"
proof -
  have "re_search ENV_VAR_PATTERN p t = Some m" using assms(1) by (cases t) simp_all
  then show ?thesis using assms(2) unfolding sub_result_search [of f p t] by (cases "f m") simp_all
qed

lemma unescape_escape: "unescape (escape s @ t) = s @ unescape t"
proof (induction s)
  case Nil
  then show ?case by (simp add: escape_def)
next
  case (Cons x s)
  have e: "escape (x # s) = (if x = CHR ''$'' then ''$$'' else [x]) @ escape s" by (simp add: escape_def)
  have "unescape (x # u) = x # unescape u" if "x \<noteq> CHR ''$''" for u using that by (cases u) simp_all
  then show ?case using Cons by (simp add: e)
qed

lemma unescape_plain: "CHR ''$'' \<notin> set v \<Longrightarrow> unescape (v @ t) = v @ unescape t"
proof (induction v)
  case (Cons x v)
  have "unescape (x # u) = x # unescape u" if "x \<noteq> CHR ''$''" for u using that by (cases u) simp_all
  then show ?case using Cons by auto
qed simp

lemma resolved_reference:
  assumes "rx_match_at ENV_VAR_PATTERN p t = Some m" "mt_before m = []"
    and "replace_var env m = value_of env i" "\<And>v. value_of env i = Inr v \<Longrightarrow> CHR ''$'' \<notin> set v"
    and "map_sum id unescape (sub_result (replace_var env) ENV_VAR_PATTERN (mt_prev m) (mt_rest m)) = values_of env is"
  shows "map_sum id unescape (sub_result (replace_var env) ENV_VAR_PATTERN p t) = values_of env (i # is)"
  using assms(3-5) unfolding sub_result_match [OF assms(1,2)]
  by (auto simp: sum.map_comp comp_def unescape_plain simp flip: assms(5) split: sum.splits)

lemma resolve_items:
  assumes env: "\<And>n v. env n = Some v \<Longrightarrow> CHR ''$'' \<notin> set v"
  shows "plain_items p is \<Longrightarrow>
    map_sum id unescape (sub_result (replace_var env) ENV_VAR_PATTERN p (render is)) = values_of env is"
proof (induction p "is" rule: plain_items.induct)
  case (1 p)
  have "sub_result (replace_var env) ENV_VAR_PATTERN p [] = Inr []"
    by (simp add: sub_result_search no_match_text)
  then show ?case by (simp add: render_def)
next
  case (2 p s "is")
  then show ?case
    by (auto simp: render_def sub_result_escaped sum.map_comp comp_def unescape_escape split: sum.splits simp flip: 2(1) [unfolded render_def])
next
  case (3 p v d "is")
  let ?i = "Braced v d"
  have vals: "CHR ''$'' \<notin> set x" if "value_of env ?i = Inr x" for x
    using that 3(2) env by (auto simp: list_all_iff split: option.splits)
  show ?case
  proof (cases d)
    case None
    from match_braced [of p v "render is"] obtain m where
      m: "rx_match_at ENV_VAR_PATTERN p (''${'' @ v @ ''}'' @ render is) = Some m" "mt_before m = []" "mt_caps m = [(1, v)]"
        "mt_prev m = Some (CHR ''}'')" "mt_rest m = render is" using 3(2) by auto
    have r: "replace_var env m = value_of env ?i"
      using m(3) None by (simp add: replace_var_def re_group_def split: option.split)
    show ?thesis using resolved_reference [OF m(1,2) r vals, of "is"] 3 m(4,5) None by (simp add: render_def id_def)
  next
    case (Some y)
    from match_default [of p v y "render is"] obtain m where
      m: "rx_match_at ENV_VAR_PATTERN p (''${'' @ v @ '':-'' @ y @ ''}'' @ render is) = Some m" "mt_before m = []"
        "mt_caps m = [(2, y), (1, v)]" "mt_prev m = Some (CHR ''}'')" "mt_rest m = render is"
      using 3(2) Some by (auto simp: list_all_iff)
    have r: "replace_var env m = value_of env ?i"
      using m(3) Some by (simp add: replace_var_def re_group_def split: option.split)
    show ?thesis using resolved_reference [OF m(1,2) r vals, of "is"] 3 m(4,5) Some by (simp add: render_def id_def)
  qed
next
  case (4 p v "is")
  let ?i = "Bare v"
  from match_bare [of p v "render is"] obtain m where
    m: "rx_match_at ENV_VAR_PATTERN p (CHR ''$'' # v @ render is) = Some m" "mt_before m = []" "mt_caps m = [(3, v)]"
      "mt_prev m = Some (last v)" "mt_rest m = render is" using 4(2) by auto
  have r: "replace_var env m = value_of env ?i"
    using m(3) by (simp add: replace_var_def re_group_def split: option.split)
  have vals: "CHR ''$'' \<notin> set x" if "value_of env ?i = Inr x" for x
    using that env by (auto split: option.splits)
  show ?case using resolved_reference [OF m(1,2) r vals, of "is"] 4 m(4,5) by (simp add: render_def id_def)
qed

text \<open>C34. Writing a configuration value from literal text, with its dollars doubled, and references to environment
  variables, and resolving it gives the text with the values filled in, or an error when a variable without a
  default is unset.  A reference must not follow a dollar, and what is filled in must hold none: both would be
  read as escapes.\<close>

theorem written_references_are_resolved:
  assumes "plain_items None is" and "\<And>n v. env n = Some v \<Longrightarrow> CHR ''$'' \<notin> set v"
  shows "resolve_env_var_string env (render is) = values_of env is"
  using resolve_items [OF assms(2) assms(1)] by (simp add: resolve_env_var_string_def)

theorem written_references_are_resolved_witness:
  "resolve_env_var_string (\<lambda>n. if n = ''HOST'' then Some ''localhost'' else None)
     (render [Lit ''cost $5 at '', Bare ''HOST'', Lit '':'', Braced ''PORT'' (Some ''80'')]) = Inr ''cost $5 at localhost:80''"
proof -
  let ?is = "[Lit ''cost $5 at '', Bare ''HOST'', Lit '':'', Braced ''PORT'' (Some ''80'')]"
  have newline_eq: "CHR ''8'' \<noteq> newline" "CHR ''0'' \<noteq> newline"
    by (simp_all add: newline_def char_of_def)
  have "plain_items None ?is"
    by (simp add: is_name_def letter_def word_char_def is_digit_def render_def escape_def newline_eq)
  moreover have "CHR ''$'' \<notin> set v" if "(if n = ''HOST'' then Some ''localhost'' else None) = Some v" for n :: string and v
    using that by (auto split: if_splits)
  ultimately show ?thesis
    using written_references_are_resolved [of ?is "\<lambda>n. if n = ''HOST'' then Some ''localhost'' else None"] by simp
qed

text \<open>The two exceptions are real: a doubled dollar directly before a reference keeps it from being read, and
  doubled dollars in a value are collapsed.\<close>

lemma dollar_before_reference:
  "resolve_env_var_string env ''$$${X}'' = Inr ''$${X}''"
  by (simp add: resolve_env_var_string_def sub_result_search no_match_behind_dollar no_match_dollar_dollar no_match_text)

section \<open>Dataset options\<close>

lemma split_join: "ps \<noteq> [] \<Longrightarrow> (\<And>s. s \<in> set ps \<Longrightarrow> c \<notin> set s) \<Longrightarrow> split_all c (join_with c ps) = ps"
  by (induction c ps rule: join_with.induct) (simp_all add: split_all_plain split_all_append)

lemma join_avoids: "c \<noteq> x \<Longrightarrow> (\<And>s. s \<in> set ps \<Longrightarrow> x \<notin> set s) \<Longrightarrow> x \<notin> set (join_with c ps)"
  by (induction c ps rule: join_with.induct) auto

definition insert_all :: "pydict result \<Rightarrow> (string list \<times> string) list \<Rightarrow> pydict result" where
  "insert_all = foldl (\<lambda>r (p, v). case r of Inl e \<Rightarrow> Inl e | Inr d \<Rightarrow> insert_path p v d)"

lemma insert_all_simps [simp]:
  "insert_all r [] = r" "insert_all (Inl e) ps = Inl e"
  "insert_all (Inr d) ((p, v) # ps) = insert_all (insert_path p v d) ps"
  "insert_all r (ps @ qs) = insert_all (insert_all r ps) qs"
  by (induction ps) (auto simp: insert_all_def)

lemma update_last: "k \<notin> fst ` set d \<Longrightarrow> AList.update k v (d @ [(k, w)]) = d @ [(k, v)]"
  by (induction d) auto

lemma map_of_last: "k \<notin> fst ` set d \<Longrightarrow> map_of (d @ [(k, w)]) k = Some w"
  by (induction d) auto

lemma insert_all_inside:
  assumes "k \<notin> fst ` set d" and "\<forall>q\<in>set ps. fst q \<noteq> []"
  shows "insert_all (Inr (d @ [(k, PDict e)])) (map (\<lambda>(p, v). (k # p, v)) ps)
         = map_sum id (\<lambda>e. d @ [(k, PDict e)]) (insert_all (Inr e) ps)"
  using assms(2)
proof (induction ps arbitrary: e)
  case (Cons q ps)
  obtain l ks v where q: "q = (l # ks, v)" using Cons.prems by (cases q; cases "fst q") auto
  show ?case
  proof (cases "insert_path (l # ks) v e")
    case (Inr e')
    then have "insert_path (k # l # ks) v (d @ [(k, PDict e)]) = Inr (d @ [(k, PDict e')])"
      by (simp add: map_of_last [OF assms(1)] update_last [OF assms(1)] del: map_of_append)
    then show ?thesis using Cons Inr by (simp add: q del: insert_path.simps)
  qed (simp add: q map_of_last [OF assms(1)] del: map_of_append)
qed simp

lemma insert_all_new:
  assumes k: "k \<notin> fst ` set d" and ps: "ps \<noteq> []" "\<forall>q\<in>set ps. fst q \<noteq> []"
  shows "insert_all (Inr d) (map (\<lambda>(p, v). (k # p, v)) ps) = map_sum id (\<lambda>e. d @ [(k, PDict e)]) (insert_all (Inr []) ps)"
proof -
  obtain l ks v rest where q: "ps = (l # ks, v) # rest"
    using ps by (cases ps; cases "fst (hd ps)") auto
  have "map_of d k = None" using k by (simp add: map_of_eq_None_iff)
  then show ?thesis
    using insert_all_inside [OF k, of rest] ps(2)
    by (cases "insert_path (l # ks) v []") (simp_all add: q keys_update_new [OF k])
qed

lemma options_paths: "q \<in> set (options_of d) \<Longrightarrow> fst q \<noteq> []"
  by (induction d arbitrary: q rule: options_of.induct) auto

lemma options_nonempty: "option_tree d \<Longrightarrow> d \<noteq> [] \<Longrightarrow> options_of d \<noteq> []"
  by (induction d rule: option_tree.induct) auto

lemma insert_all_options:
  "option_tree d \<Longrightarrow> fst ` set d0 \<inter> fst ` set d = {} \<Longrightarrow> insert_all (Inr d0) (options_of d) = Inr (d0 @ d)"
proof (induction d arbitrary: d0 rule: option_tree.induct)
  case (2 k v d)
  then have "insert_all (Inr (d0 @ [(k, PStr v)])) (options_of d) = Inr ((d0 @ [(k, PStr v)]) @ d)" by (intro 2(1)) auto
  then show ?case using 2(3) by (simp add: keys_update_new)
next
  case (3 k e d)
  have k: "k \<notin> fst ` set d0" using 3(4) by auto
  have e: "options_of e \<noteq> []" "\<forall>q\<in>set (options_of e). fst q \<noteq> []" "insert_all (Inr []) (options_of e) = Inr e"
    using 3(1) [of "[]"] 3(3) options_nonempty [of e] options_paths by auto
  have "insert_all (Inr (d0 @ [(k, PDict e)])) (options_of d) = Inr ((d0 @ [(k, PDict e)]) @ d)"
    using 3(3,4) by (intro 3(2)) auto
  then show ?case using insert_all_new [OF k e(1,2)] e(3) by simp
qed auto

lemma options_plain:
  "option_tree d \<Longrightarrow> q \<in> set (options_of d) \<Longrightarrow> list_all plain_key (fst q) \<and> CHR '','' \<notin> set (snd q)"
  by (induction d arbitrary: q rule: option_tree.induct) auto

lemma insert_written:
  assumes "\<forall>q\<in>set ps. fst q \<noteq> [] \<and> list_all plain_key (fst q)"
  shows "foldl insert_option r (map write_option ps) = insert_all r ps"
  using assms
proof (induction ps arbitrary: r)
  case (Cons q ps)
  obtain p v where q: "q = (p, v)" by force
  have "list_all plain_key p" using Cons.prems by (simp add: q)
  then have pk: "plain_key s" if "s \<in> set p" for s using that by (simp add: list_all_iff)
  have k: "CHR ''.'' \<notin> set s" "CHR ''='' \<notin> set s" if "s \<in> set p" for s
    using pk [OF that] by (auto simp: plain_key_def list_all_iff)
  have j: "CHR ''='' \<notin> set (join_with (CHR ''.'') p)" by (rule join_avoids) (use k(2) in auto)
  have "split_at (CHR ''='') (write_option q) = (join_with (CHR ''.'') p, Some v)"
    by (simp add: write_option_def q split_at_append [OF j])
  moreover have "split_all (CHR ''.'') (join_with (CHR ''.'') p) = p"
    using Cons.prems k(1) by (intro split_join) (auto simp: q)
  ultimately have "insert_option r (write_option q) = insert_all r [q]"
    by (cases r) (simp_all add: insert_option_def q)
  then show ?case using Cons by (cases r) (simp_all add: q)
qed simp

text \<open>Every tree of dataset options that the command line can express is read back from its written form,
  with the path and the type in front.\<close>

theorem dataset_options_roundtrip:
  assumes "option_tree d" and "''path'' \<notin> fst ` set d" and "''type'' \<notin> fst ` set d"
    and "CHR '','' \<notin> set path" and "parser_ok d"
  shows "parse_dataset_string (write_dataset accuracy path d)
    = Inr ((''path'', PStr path) # (''type'', PStr (if accuracy then ''accuracy'' else ''performance'')) # d)"
proof -
  let ?tag = "if accuracy then ''acc:'' else ''perf:''"
  let ?d0 = "[(''path'', PStr path), (''type'', PStr (if accuracy then ''accuracy'' else ''performance''))]"
  have w: "CHR '','' \<notin> set (write_option q)" if "q \<in> set (options_of d)" for q
    using options_plain [OF assms(1) that] join_avoids [of "CHR ''.''" "CHR '',''" "fst q"]
    by (auto simp: write_option_def plain_key_def list_all_iff)
  have parts: "split_all (CHR '','') (write_dataset accuracy path d) = (?tag @ path) # map write_option (options_of d)"
    unfolding write_dataset_def by (rule split_join) (use assms(4) w in \<open>auto split: if_splits\<close>)
  have tag: "split_tag (?tag @ path) = (if accuracy then ''accuracy'' else ''performance'', path)"
    by (simp add: split_tag_def)
  have "foldl insert_option (Inr ?d0) (map write_option (options_of d)) = Inr (?d0 @ d)"
    using insert_written [of "options_of d" "Inr ?d0"] options_paths [of _ d] options_plain [OF assms(1)]
      insert_all_options [OF assms(1), of ?d0] assms(2,3) by auto
  moreover have "parser_ok (?d0 @ d)" using assms(5) by (simp add: parser_ok_def)
  ultimately show ?thesis by (simp add: parse_dataset_string_def parts tag)
qed

theorem dataset_options_roundtrip_witness:
  "parse_dataset_string (write_dataset True ''e.jsonl'' [(''samples'', PStr ''5''), (''parser'', PDict [(''prompt'', PStr ''q'')])])
   = Inr [(''path'', PStr ''e.jsonl''), (''type'', PStr ''accuracy''), (''samples'', PStr ''5''), (''parser'', PDict [(''prompt'', PStr ''q'')])]"
  using dataset_options_roundtrip [of "[(''samples'', PStr ''5''), (''parser'', PDict [(''prompt'', PStr ''q'')])]" "''e.jsonl''" True]
  by (simp add: plain_key_def parser_ok_def PARSER_TARGETS_def)

end
