(* ===== verification/Extractors.thy ===== *)
theory Extractors
  imports Regex PyValues
begin

text \<open>
  \<open>evaluation/extractor.py\<close>: the answer a model gave, extracted from its text.  The patterns are those of the
  source; their en dash, which is not ASCII, is left out of the classes it stands in.  JSON decoding and printing
  and the parsing of argument lists (\<open>ast\<close>) are arguments.
\<close>

section \<open>Multiple choice\<close>

definition abcd :: rx where "abcd = Grp 1 (Cls (\<lambda>c. c \<in> set ''ABCD''))"
definition abcd_any_case :: rx where "abcd_any_case = Grp 1 (Cls (\<lambda>c. upper_char c \<in> set ''ABCD''))"

definition wrapper :: rx where
  "wrapper = Alt (Seq (Chr (CHR ''*'')) (Opt (Chr (CHR ''*'')))) (Seq (Chr (CHR ''_'')) (Opt (Chr (CHR ''_''))))"

definition separator :: rx where "separator = Opt (Cls (\<lambda>c. c \<in> set '':-''))"
definition plural :: rx where "plural = Opt (Cls (\<lambda>c. lower_char c = CHR ''s''))"
definition alnum :: "char \<Rightarrow> bool" where "alnum c = (letter c \<or> is_digit c)"
definition in_braces :: "bool \<Rightarrow> rx" where "in_braces greedy = Star greedy (Cls (\<lambda>c. c \<noteq> CHR ''}''))"

definition ABCD_PATTERNS :: "rx list" where
  "ABCD_PATTERNS =
     [seqs [wrapper, iword ''Answer'', plural, spaces, separator, wrapper, spaces, abcd_any_case, word_boundary],
      seqs [line_start, spaces, Opt wrapper, iword ''Answer'', Opt (Chr (CHR '':'')), Opt wrapper, spaces,
            Opt (Chr (CHR '':'')), spaces, Opt wrapper, abcd_any_case, Opt wrapper, spaces],
      seqs [word_boundary, iword ''Answer'', plural, word_boundary, spaces, separator, spaces, Chr (CHR ''(''), spaces,
            abcd_any_case, spaces, Chr (CHR '')'')],
      seqs [word_boundary, iword ''Answer'', plural, word_boundary, spaces, separator, spaces, abcd_any_case, word_boundary],
      seqs [word_boundary, Alt (iword ''Option'') (iword ''Choice''), word_boundary, spaces, separator, spaces,
            abcd_any_case, word_boundary],
      seqs [word (char_of (92 :: nat) # ''boxed{''), in_braces False, abcd, in_braces True, Chr (CHR ''}'')],
      seqs [word (char_of (92 :: nat) # ''boxed{''), in_braces False, word (char_of (92 :: nat) # ''textbf{''), in_braces False,
            abcd, in_braces True, Chr (CHR ''}''), in_braces True, Chr (CHR ''}'')],
      seqs [word (char_of (92 :: nat) # ''boxed{''), in_braces False, word (char_of (92 :: nat) # ''text{''), in_braces False,
            abcd, in_braces True, Chr (CHR ''}''), in_braces True, Chr (CHR ''}'')],
      seqs [not_behind alnum, Cls (\<lambda>c. c \<in> set ''([''), spaces, abcd, spaces, Cls (\<lambda>c. c \<in> set '')]''), not_ahead alnum],
      seqs [not_behind alnum, wrapper, abcd, wrapper, not_ahead alnum],
      seqs [word (char_of (92 :: nat) # ''textbf{''), in_braces False, abcd, in_braces True, Chr (CHR ''}'')],
      seqs [not_behind alnum, wrapper, spaces, abcd, Chr (CHR '')''), Cls (\<lambda>c. c \<notin> set ''*_'' \<and> c \<noteq> newline),
            Star False (Cls (\<lambda>c. c \<notin> set ''*_'' \<and> c \<noteq> newline)), wrapper, not_ahead alnum],
      seqs [line_start, spaces, Opt wrapper, abcd, Opt wrapper, spaces, Opt (Cls (\<lambda>c. c \<in> set ''.)-:'')), spaces,
            Star True any_char, line_end]]"

definition choice_map :: "(char \<times> string) list" where
  "choice_map = [(CHR ''A'', ''choice1''), (CHR ''B'', ''choice2''), (CHR ''C'', ''choice3''), (CHR ''D'', ''choice4'')]"

text \<open>The matches with their priority, length and letter, in the order of the patterns.\<close>

definition abcd_matches :: "string \<Rightarrow> (nat \<times> nat \<times> char) list" where
  "abcd_matches text =
     List.map_filter (\<lambda>(prio, pat). case re_search pat None text of
         None \<Rightarrow> None
       | Some m \<Rightarrow> (let letter = upper_char (hd (the (re_group m 1)))
           in if letter \<in> set ''ABCD'' then Some (prio, length (mt_text m), letter) else None))
       (enumerate 0 ABCD_PATTERNS)"

definition abcd_fallback :: "string \<Rightarrow> string option" where
  "abcd_fallback text =
     (let stripped = (case after_prefix ''**'' text of Some r \<Rightarrow> r | None \<Rightarrow> text)
      in case stripped of
           [] \<Rightarrow> None
         | c # cs \<Rightarrow> if upper_char c \<in> set ''ABCD'' then map_of choice_map (upper_char c) else None)"

definition abcd_extract :: "string \<Rightarrow> string option \<Rightarrow> string" where
  "abcd_extract text dflt =
     (case sort_key (\<lambda>(prio, n, l). prio) (sort_key (\<lambda>(prio, n, l). n) (abcd_matches text)) of
        (prio, n, l) # ms \<Rightarrow> the (map_of choice_map l)
      | [] \<Rightarrow> (case abcd_fallback text of
            Some c \<Rightarrow> c
          | None \<Rightarrow> (case dflt of Some d \<Rightarrow> d | None \<Rightarrow> [])))"

section \<open>Boxed answers, the whole text, code\<close>

definition any_text :: "bool \<Rightarrow> rx" where "any_text greedy = Star greedy (Cls (\<lambda>_. True))"

definition BOXED_PATTERN :: rx where
  "BOXED_PATTERN =
     Alt (seqs [word ''boxed{'', Grp 1 (any_text False), Chr (CHR ''}'')])
         (seqs [word ''framebox{'', Grp 2 (any_text False), Chr (CHR ''}'')])"

definition boxed_groups :: "rx_match \<Rightarrow> string list" where
  "boxed_groups m = map (\<lambda>n. case re_group m n of Some g \<Rightarrow> g | None \<Rightarrow> []) [1, 2]"

definition boxed_extract :: "string \<Rightarrow> string option \<Rightarrow> string option" where
  "boxed_extract text dflt =
     (case filter (\<lambda>g. g \<noteq> []) (concat (map boxed_groups (rev (find_iter BOXED_PATTERN text)))) of
        g # gs \<Rightarrow> Some (strip (last (split_all (CHR '','') g)))
      | [] \<Rightarrow> (case find_iter (Plus (Cls is_digit)) text of
            [] \<Rightarrow> dflt
          | m # ms \<Rightarrow> Some (mt_text (last (m # ms)))))"

definition identity_extract :: "string \<Rightarrow> string option \<Rightarrow> string option" where
  "identity_extract text dflt = Some text"

definition PYTHON_BLOCK :: rx where
  "PYTHON_BLOCK = seqs [word ''```python'', Grp 1 (any_text False), word ''```'']"

definition PLAIN_BLOCK :: rx where
  "PLAIN_BLOCK = seqs [word ''```'', Grp 1 (any_text False), word ''```'']"

definition LANGUAGE_TAG :: rx where
  "LANGUAGE_TAG = seqs [text_start, Alt (iword ''python'') (iword ''py''), spaces, Chr newline]"

definition last_block :: "rx \<Rightarrow> string \<Rightarrow> string option" where
  "last_block pat text = (case find_iter pat text of
       [] \<Rightarrow> None | m # ms \<Rightarrow> map_option strip (re_group (last (m # ms)) 1))"

definition python_extract :: "string \<Rightarrow> string option \<Rightarrow> string option" where
  "python_extract text dflt =
     (let t = strip text
      in if t = [] then dflt
         else (case last_block PYTHON_BLOCK t of
                 Some code \<Rightarrow> Some code
               | None \<Rightarrow> (case last_block PLAIN_BLOCK t of
                     Some code \<Rightarrow> Some (re_sub LANGUAGE_TAG (\<lambda>_. []) code)
                   | None \<Rightarrow> dflt)))"

section \<open>Function calls\<close>

definition SKIP_NAMES :: "string list" where
  "SKIP_NAMES =
     [''print'', ''return'', ''if'', ''for'', ''while'', ''def'', ''class'', ''import'', ''from'', ''with'', ''assert'', ''raise'',
      ''try'', ''except'', ''len'', ''str'', ''int'', ''float'', ''list'', ''dict'', ''set'', ''tuple'', ''type'', ''isinstance'',
      ''range'', ''enumerate'', ''zip'', ''map'', ''filter'', ''Note'', ''Example'', ''Here'', ''This'', ''The'', ''For'']"

definition py_identifier :: rx where
  "py_identifier = Seq (Cls (\<lambda>c. letter c \<or> c = CHR ''_'')) (Star True (Cls word_char))"

definition FUNC_START_PATTERN :: rx where
  "FUNC_START_PATTERN = seqs [word_boundary, Grp 1 py_identifier, spaces, Chr (CHR ''('')]"

definition call_dict :: "pyval \<Rightarrow> pyval \<Rightarrow> pyval" where
  "call_dict name args = PDict [(''name'', name), (''arguments'', args)]"

text \<open>The elements of the decoded list, one after the other; any that does not fit ends the attempt.\<close>

fun native_calls :: "(string \<Rightarrow> pyval option) \<Rightarrow> pyval list \<Rightarrow> pyval list option" where
  "native_calls loads [] = Some []"
| "native_calls loads (PDict d # xs) =
     (case dget d ''function'' of
        PDict f \<Rightarrow>
          (let name = (case map_of f ''name'' of Some n \<Rightarrow> n | None \<Rightarrow> PStr []);
               raw = (case map_of f ''arguments'' of Some a \<Rightarrow> a | None \<Rightarrow> PStr ''{}'');
               args = (case raw of PStr s \<Rightarrow> (case loads s of Some v \<Rightarrow> v | None \<Rightarrow> raw) | _ \<Rightarrow> raw)
           in map_option (\<lambda>cs. call_dict name args # cs) (native_calls loads xs))
      | _ \<Rightarrow> None)"
| "native_calls loads (x # xs) = None"

fun array_calls :: "pyval list \<Rightarrow> pyval list option" where
  "array_calls [] = Some []"
| "array_calls (PDict d # xs) =
     (case map_of d ''name'' of
        None \<Rightarrow> None
      | Some n \<Rightarrow>
          (let args = (case map_of d ''arguments'' of Some a \<Rightarrow> a | None \<Rightarrow> PDict [])
           in map_option (\<lambda>cs. call_dict n args # cs) (array_calls xs)))"
| "array_calls (x # xs) = None"

definition parsed_list :: "(string \<Rightarrow> pyval option) \<Rightarrow> (pyval list \<Rightarrow> pyval list option) \<Rightarrow> string \<Rightarrow> pyval list option" where
  "parsed_list loads f text = (case loads text of
       Some (PList xs) \<Rightarrow> (case f xs of Some (c # cs) \<Rightarrow> Some (c # cs) | _ \<Rightarrow> None)
     | _ \<Rightarrow> None)"

definition try_parse_tool_calls_json :: "(string \<Rightarrow> pyval option) \<Rightarrow> string \<Rightarrow> pyval list option" where
  "try_parse_tool_calls_json loads = parsed_list loads (native_calls loads)"

definition try_parse_function_array :: "(string \<Rightarrow> pyval option) \<Rightarrow> string \<Rightarrow> pyval list option" where
  "try_parse_function_array loads = parsed_list loads array_calls"

definition has_native_tool_calls :: "(string \<Rightarrow> pyval option) \<Rightarrow> string \<Rightarrow> bool" where
  "has_native_tool_calls loads text = (try_parse_tool_calls_json loads text \<noteq> None)"

text \<open>The scan for the closing parenthesis: position, depth and the two quote flags.\<close>

fun balanced_from :: "nat \<Rightarrow> int \<Rightarrow> bool \<Rightarrow> bool \<Rightarrow> string \<Rightarrow> nat option" where
  "balanced_from i depth single double [] = None"
| "balanced_from i depth single double (c # s) =
     (if c = char_of (92 :: nat) \<and> (single \<or> double) then balanced_from (i + 2) depth single double (tl s)
      else if c = CHR 0x27 \<and> \<not> double then balanced_from (i + 1) depth (\<not> single) double s
      else if c = CHR 0x22 \<and> \<not> single then balanced_from (i + 1) depth single (\<not> double) s
      else if \<not> single \<and> \<not> double \<and> c = CHR ''('' then balanced_from (i + 1) (depth + 1) single double s
      else if \<not> single \<and> \<not> double \<and> c = CHR '')''
           then (if depth - 1 = 0 then Some i else balanced_from (i + 1) (depth - 1) single double s)
      else balanced_from (i + 1) depth single double s)"

definition find_balanced_parens :: "string \<Rightarrow> nat \<Rightarrow> nat option" where
  "find_balanced_parens text start = balanced_from start 0 False False (drop start text)"

definition SIGNATURE :: rx where
  "SIGNATURE = Seq py_identifier (Opt (seqs [spaces, Chr (CHR '':''), spaces, Plus (Cls word_char)]))"

definition looks_like_signature :: "string \<Rightarrow> bool" where
  "looks_like_signature args =
     list_all (\<lambda>p. p = [] \<or> full_match SIGNATURE p) (map strip (split_all (CHR '','') args))"

text \<open>\<open>match.start()\<close> from the text that was left.\<close>

definition match_start :: "string \<Rightarrow> rx_match \<Rightarrow> nat" where
  "match_start text m = length text - length (mt_rest m) - length (mt_text m)"

definition text_call_step ::
    "(string \<Rightarrow> pydict) \<Rightarrow> string \<Rightarrow> pyval list \<times> (nat \<times> nat) list \<Rightarrow> rx_match \<Rightarrow> pyval list \<times> (nat \<times> nat) list" where
  "text_call_step parse text st m =
     (case st of (calls, consumed) \<Rightarrow>
        (let start = match_start text m; name = the (re_group m 1); open = start + length (mt_text m) - 1
         in if list_ex (\<lambda>(s, e). s \<le> start \<and> start < e) consumed then st
            else if name \<in> set SKIP_NAMES then st
            else (case find_balanced_parens text open of
                    None \<Rightarrow> st
                  | Some close \<Rightarrow>
                      (let args = strip (take (close - (open + 1)) (drop (open + 1) text));
                           consumed' = consumed @ [(open, close + 1)]
                       in if args \<noteq> [] \<and> looks_like_signature args then (calls, consumed')
                          else (calls @ [call_dict (PStr name) (PDict (if args = [] then [] else parse args))], consumed')))))"

definition try_parse_text_function_calls :: "(string \<Rightarrow> pydict) \<Rightarrow> string \<Rightarrow> pyval list option" where
  "try_parse_text_function_calls parse text =
     (case fst (foldl (text_call_step parse text) ([], []) (find_iter FUNC_START_PATTERN text)) of
        [] \<Rightarrow> None | c # cs \<Rightarrow> Some (c # cs))"

definition function_calls :: "(string \<Rightarrow> pyval option) \<Rightarrow> (string \<Rightarrow> pydict) \<Rightarrow> string \<Rightarrow> pyval list option" where
  "function_calls loads parse text =
     (case try_parse_tool_calls_json loads text of
        Some cs \<Rightarrow> Some cs
      | None \<Rightarrow> (case try_parse_function_array loads text of
            Some cs \<Rightarrow> Some cs
          | None \<Rightarrow> try_parse_text_function_calls parse text))"

definition function_call_extract ::
    "(string \<Rightarrow> pyval option) \<Rightarrow> (pyval list \<Rightarrow> string) \<Rightarrow> (string \<Rightarrow> pydict) \<Rightarrow> string \<Rightarrow> string option \<Rightarrow> string option" where
  "function_call_extract loads dumps parse text dflt =
     (let t = strip text
      in if t = [] then dflt
         else (case function_calls loads parse t of Some cs \<Rightarrow> Some (dumps cs) | None \<Rightarrow> dflt))"

end
