(* ===== verification/ExtractorFacts.thy ===== *)
theory ExtractorFacts
  imports Extractors
begin

text \<open>What the multiple-choice extractor answers, and where it reads a letter that is none.\<close>

section \<open>What a pattern captures\<close>

fun no_groups :: "rx \<Rightarrow> bool" where
  "no_groups (Grp n r) = False"
| "no_groups (Seq r s) = (no_groups r \<and> no_groups s)"
| "no_groups (Alt r s) = (no_groups r \<and> no_groups s)"
| "no_groups (Star g r) = no_groups r"
| "no_groups r = True"

lemma no_groups_caps: "no_groups r \<Longrightarrow> (p', t', c') \<in> set (re_run r p t c) \<Longrightarrow> c' = c"
proof (induction r p t c arbitrary: p' t' c' rule: re_run.induct)
  case (2 f p t c)
  then show ?case by (cases t) (auto split: if_splits)
next
  case (3 r s p t c)
  from 3(4) obtain p1 t1 c1 where a: "(p1, t1, c1) \<in> set (re_run r p t c)" "(p', t', c') \<in> set (re_run s p1 t1 c1)" by auto
  have "c1 = c" using 3(1) [OF _ a(1)] 3(3) by simp
  then show ?case using 3(2) [OF a(1) refl refl _ a(2)] 3(3) by simp
next
  case (5 g r p t c)
  from 5(4) consider "(p', t', c') = (p, t, c)" |
      p1 t1 c1 where "(p1, t1, c1) \<in> set (re_run r p t c)" "length t1 < length t" "(p', t', c') \<in> set (re_run (Star g r) p1 t1 c1)"
    unfolding re_run.simps(5) [of g r p t c] Let_def by (auto split: if_splits)
  then show ?case
  proof cases
    case 2
    have "c1 = c" using 5(1) [OF _ 2(1)] 5(3) by simp
    moreover have "(p1, t1, c1) \<in> set (filter (\<lambda>(p', t', c'). length t' < length t) (re_run r p t c))" using 2(1,2) by simp
    ultimately show ?thesis using 5(2) [OF _ refl refl 5(3) 2(3)] by simp
  qed simp
qed (auto split: if_splits)

text \<open>A pattern that captures exactly one letter in group 1.\<close>

fun letter_rx :: "rx \<Rightarrow> bool" where
  "letter_rx (Grp n (Cls f)) = (n = 1 \<and> (\<forall>x. f x \<longrightarrow> upper_char x \<in> set ''ABCD''))"
| "letter_rx (Seq r s) = (letter_rx r \<and> no_groups s \<or> no_groups r \<and> letter_rx s)"
| "letter_rx r = False"

lemma letter_caps:
  "letter_rx r \<Longrightarrow> (p', t', c') \<in> set (re_run r p t c) \<Longrightarrow> \<exists>x. c' = (1, [x]) # c \<and> upper_char x \<in> set ''ABCD''"
proof (induction r arbitrary: p t c p' t' c' rule: letter_rx.induct)
  case (1 n f)
  then show ?case by (cases t) (auto split: if_splits)
next
  case (2 r s)
  from 2(4) obtain p1 t1 c1 where a: "(p1, t1, c1) \<in> set (re_run r p t c)" "(p', t', c') \<in> set (re_run s p1 t1 c1)" by auto
  note IH = 2(1) [OF _ a(1)] 2(2) [OF _ a(2)]
  from 2(3) consider (left) "letter_rx r" "no_groups s" | (right) "no_groups r" "letter_rx s" by auto
  then show ?case
  proof cases
    case left
    then show ?thesis using IH(1) no_groups_caps [OF left(2) a(2)] by simp
  next
    case right
    then show ?thesis using IH(2) no_groups_caps [OF right(1) a(1)] by simp
  qed
qed auto

lemma abcd_upper: "x \<in> set ''ABCD'' \<Longrightarrow> upper_char x \<in> set ''ABCD''"
  by (auto simp: upper_char_def)

lemmas pattern_parts = abcd_def abcd_any_case_def wrapper_def separator_def plural_def in_braces_def iword_def word_def spaces_def
  any_char_def word_boundary_def line_start_def line_end_def not_behind_def not_ahead_def Chr_def Opt_def

lemma abcd_patterns_letter: "pat \<in> set ABCD_PATTERNS \<Longrightarrow> letter_rx pat"
  by (auto simp: ABCD_PATTERNS_def pattern_parts upper_char_def)

lemma search_caps:
  "re_search r p t = Some m \<Longrightarrow> \<exists>q u p' t'. (p', t', mt_caps m) \<in> set (re_run r q u [])"
proof (induction t arbitrary: p m)
  case Nil
  then show ?case by (auto simp: rx_match_at_def split: list.splits) (metis list.set_intros(1))
next
  case (Cons x t)
  show ?case
  proof (cases "rx_match_at r p (x # t)")
    case None
    then obtain m' where "re_search r (Some x) t = Some m'" "m = m'\<lparr>mt_before := x # mt_before m'\<rparr>"
      using Cons.prems by auto
    then show ?thesis using Cons.IH by simp
  next
    case (Some m')
    then have "rx_match_at r p (x # t) = Some m" using Cons.prems by simp
    then show ?thesis by (auto simp: rx_match_at_def split: list.splits) (metis list.set_intros(1))
  qed
qed

definition captured_letter :: "rx_match \<Rightarrow> char" where
  "captured_letter m = upper_char (hd (the (re_group m 1)))"

lemma abcd_letter:
  "pat \<in> set ABCD_PATTERNS \<Longrightarrow> re_search pat None text = Some m \<Longrightarrow> captured_letter m \<in> set ''ABCD''"
  using letter_caps [OF abcd_patterns_letter, of pat] search_caps [of pat None "text" m]
  by (fastforce simp: captured_letter_def re_group_def)

section \<open>The first pattern decides\<close>

lemma sort_key_first:
  assumes "xs \<noteq> []" and "\<And>y. y \<in> set (tl xs) \<Longrightarrow> f (hd xs) < f y"
  shows "hd (sort_key f (sort_key g xs)) = hd xs"
proof -
  let ?s = "sort_key f (sort_key g xs)"
  have s: "set ?s = set xs" "sorted (map f ?s)" by simp_all
  then obtain a zs where z: "?s = a # zs" using assms(1) by (cases ?s) auto
  have "hd xs \<in> set ?s" using s(1) assms(1) by simp
  then have "f (hd ?s) \<le> f (hd xs)" using s(2) unfolding z by auto
  moreover have "hd ?s \<in> set xs" using s(1) z by auto
  ultimately show ?thesis using assms by (cases xs) (auto dest: leD)
qed

definition abcd_reference :: "string \<Rightarrow> string option \<Rightarrow> string" where
  "abcd_reference text dflt =
     (case List.find (\<lambda>pat. re_search pat None text \<noteq> None) ABCD_PATTERNS of
        Some pat \<Rightarrow> the (map_of choice_map (captured_letter (the (re_search pat None text))))
      | None \<Rightarrow> (case abcd_fallback text of Some c \<Rightarrow> c | None \<Rightarrow> (case dflt of Some d \<Rightarrow> d | None \<Rightarrow> [])))"

lemma matches_from:
  fixes s :: string
  defines "f \<equiv> \<lambda>(prio :: nat, pat). case re_search pat None s of
         None \<Rightarrow> None
       | Some m \<Rightarrow> (let letter = upper_char (hd (the (re_group m 1)))
           in if letter \<in> set ''ABCD'' then Some (prio, length (mt_text m), letter) else None)"
  assumes "set pats \<subseteq> set ABCD_PATTERNS"
  shows "(case List.find (\<lambda>pat. re_search pat None s \<noteq> None) pats of
       None \<Rightarrow> List.map_filter f (enumerate k pats) = []
     | Some pat \<Rightarrow> \<exists>prio n ms. List.map_filter f (enumerate k pats) = (prio, n, captured_letter (the (re_search pat None s))) # ms
         \<and> (\<forall>y\<in>set ms. prio < fst y))"
  using assms(2)
proof (induction pats arbitrary: k)
  case Nil
  then show ?case by (simp add: List.map_filter_simps)
next
  case (Cons pat pats)
  have later: "k < fst y" if "y \<in> set (List.map_filter f (enumerate (Suc k) pats))" for y
    using that by (auto simp: List.map_filter_def f_def Let_def in_set_enumerate_eq split: option.splits if_splits)
  show ?case
  proof (cases "re_search pat None s")
    case None
    then have "f (k, pat) = None" by (simp add: f_def)
    then have e: "List.map_filter f (enumerate k (pat # pats)) = List.map_filter f (enumerate (Suc k) pats)"
      by (simp add: List.map_filter_simps)
    show ?thesis using Cons.IH [of "Suc k"] Cons.prems None unfolding e by simp
  next
    case (Some m)
    then have "captured_letter m \<in> set ''ABCD''" using abcd_letter Cons.prems by auto
    then have "f (k, pat) = Some (k, length (mt_text m), captured_letter m)"
      using Some unfolding f_def captured_letter_def by (simp only: prod.case option.case Let_def if_True)
    then show ?thesis using Some later by (simp add: List.map_filter_simps)
  qed
qed

text \<open>The multiple-choice extractor answers with the letter of the first pattern, in the order of the list, that
  occurs in the text, whatever the others find; only when none occurs does the first character or the default
  count.\<close>

theorem abcd_first_pattern_decides: "abcd_extract text dflt = abcd_reference text dflt"
proof -
  note M = matches_from [of ABCD_PATTERNS "text" 0, folded abcd_matches_def]
  show ?thesis
  proof (cases "List.find (\<lambda>pat. re_search pat None text \<noteq> None) ABCD_PATTERNS")
    case None
    then have "abcd_matches text = []" using M by simp
    then show ?thesis using None by (simp add: abcd_extract_def abcd_reference_def)
  next
    case (Some pat)
    then obtain prio n ms where m: "abcd_matches text = (prio, n, captured_letter (the (re_search pat None text))) # ms"
      "\<forall>y\<in>set ms. prio < fst y" using M by auto
    let ?s = "sort_key (\<lambda>(prio, n, l). prio) (sort_key (\<lambda>(prio, n, l). n) (abcd_matches text))"
    have "hd ?s = (prio, n, captured_letter (the (re_search pat None text)))"
      using sort_key_first [of "abcd_matches text" "\<lambda>(prio, n, l). prio" "\<lambda>(prio, n, l). n"] m by (auto simp: case_prod_unfold)
    moreover have "length ?s \<noteq> 0" using m(1) by (simp only: length_sort) simp
    ultimately obtain rest where "?s = (prio, n, captured_letter (the (re_search pat None text))) # rest" by (cases ?s) auto
    then show ?thesis using Some by (simp add: abcd_extract_def abcd_reference_def)
  qed
qed

text \<open>The docstring's first example is not extracted, and ordinary words are taken for letters.\<close>

lemma answer_is_not_read: "abcd_extract ''The answer is B'' None = []"
  by code_simp

lemma words_are_read_as_letters:
  "abcd_extract ''To answer a question: Option D'' None = ''choice1''"
  by code_simp

end
