(* ===== verification/Scoring.thy ===== *)
theory Scoring
  imports CoreTypes PyText
begin

text \<open>
  Scoring accuracy outputs: the base scorer, the exact-match scorers and the hierarchical F1 of
  \<open>evaluation/scoring.py\<close>, and the accounting of \<open>commands/benchmark/accuracy.py\<close>.  The event log is the list of its
  records, data frames are lists of rows, scores exact rationals; printing tool calls, tokenizing and validating a
  product's JSON are arguments.
\<close>

section \<open>Outputs\<close>

text \<open>\<open>str(data)\<close> of a COMPLETE record; records with other payloads are printed by \<open>show_data\<close>.\<close>

record printers =
  pp_calls :: "merged_calls \<Rightarrow> string"
  pp_data :: "event_data \<Rightarrow> string"

definition data_text :: "printers \<Rightarrow> event_data \<Rightarrow> string" where
  "data_text pp d = (case d of
       NoData \<Rightarrow> [] | OutputData o' \<Rightarrow> output_str (pp_calls pp) o' | ErrorD e \<Rightarrow> error_str e | _ \<Rightarrow> pp_data pp d)"

definition iter_complete :: "event_record list \<Rightarrow> (string \<times> event_data) list" where
  "iter_complete evs = map (\<lambda>r. (ev_uuid r, ev_data r)) (filter (\<lambda>r. ev_type r = SampleEv COMPLETE) evs)"

definition get_raw_outputs :: "printers \<Rightarrow> string set option \<Rightarrow> event_record list \<Rightarrow> (string \<times> string) list" where
  "get_raw_outputs pp wanted evs =
     map (\<lambda>(u, d). (u, data_text pp d))
       (filter (\<lambda>(u, d). case wanted of None \<Rightarrow> True | Some us \<Rightarrow> u \<in> us) (iter_complete evs))"

section \<open>The base scorer\<close>

record scorer =
  sr_index_map :: "(string \<times> nat) list"
  sr_ground_truths :: "pyval list"
  sr_num_samples :: nat
  sr_extractor :: "(string \<Rightarrow> string option) option"

text \<open>What is compared: the output, or what the extractor finds in it.\<close>

definition empirical :: "scorer \<Rightarrow> string \<Rightarrow> pyval" where
  "empirical sr t = (case sr_extractor sr of
       None \<Rightarrow> PStr t
     | Some f \<Rightarrow> (case f t of Some s \<Rightarrow> PStr s | None \<Rightarrow> PNone))"

type_synonym single_score = "pyval \<Rightarrow> pyval \<Rightarrow> rat result"

fun single_scores :: "single_score \<Rightarrow> (pyval \<times> pyval) list \<Rightarrow> rat list result" where
  "single_scores f [] = Inr []"
| "single_scores f ((v, g) # rows) =
     (case f v g of Inl e \<Rightarrow> Inl e | Inr x \<Rightarrow> map_sum id (\<lambda>xs. x # xs) (single_scores f rows))"

definition own_outputs :: "scorer \<Rightarrow> (string \<times> string) list \<Rightarrow> (string \<times> string) list" where
  "own_outputs sr outputs = filter (\<lambda>(u, t). u \<in> fst ` set (sr_index_map sr)) outputs"

definition ground_truth_of :: "scorer \<Rightarrow> string \<Rightarrow> pyval result" where
  "ground_truth_of sr u = list_get (sr_ground_truths sr) (int (the (map_of (sr_index_map sr) u)))"

fun matched_rows :: "scorer \<Rightarrow> (string \<times> string) list \<Rightarrow> (pyval \<times> pyval) list result" where
  "matched_rows sr [] = Inr []"
| "matched_rows sr ((u, t) # rows) =
     (case ground_truth_of sr u of
        Inl e \<Rightarrow> Inl e | Inr g \<Rightarrow> map_sum id (\<lambda>xs. (empirical sr t, g) # xs) (matched_rows sr rows))"

definition score :: "single_score \<Rightarrow> scorer \<Rightarrow> (string \<times> string) list \<Rightarrow> (rat option \<times> nat) result" where
  "score single sr outputs =
     (let rows = own_outputs sr outputs; issued = length (sr_index_map sr)
      in if issued = 0 then Inr (None, 0)
         else if sr_num_samples sr = 0 then Inl ZeroDivisionError
         else if rows = [] then Inr (Some 0, issued div sr_num_samples sr)
         else (case matched_rows sr rows of
                 Inl e \<Rightarrow> Inl e
               | Inr ms \<Rightarrow> map_sum id (\<lambda>xs. (Some (sum_list xs / of_nat issued), issued div sr_num_samples sr))
                   (single_scores single ms)))"

definition exact_match :: single_score where
  "exact_match v g = Inr (if v = g then 1 else 0)"

definition string_match :: single_score where
  "string_match v g = (case (v, g) of
       (PStr a, PStr b) \<Rightarrow> Inr (if strip a = strip b then 1 else 0)
     | _ \<Rightarrow> Inl AttributeError)"

section \<open>Hierarchical F1\<close>

definition CATEGORY_SEPARATOR :: string where "CATEGORY_SEPARATOR = '' > ''"
definition PRED_CATEGORY_PAD :: string where "PRED_CATEGORY_PAD = ''<|__PRED_CATEGORY_PAD__|>''"

fun join_text :: "string \<Rightarrow> string list \<Rightarrow> string" where
  "join_text sep [] = []"
| "join_text sep [s] = s"
| "join_text sep (s # t # ts) = s @ sep @ join_text sep (t # ts)"

definition create_pred_pad_category :: "string \<Rightarrow> string \<Rightarrow> string" where
  "create_pred_pad_category ground_truth sep =
     (let n = length (split_on sep ground_truth) in if n > 0 then join_text sep (replicate n PRED_CATEGORY_PAD) else [])"

definition parse_response_to_category :: "(string \<Rightarrow> string option) \<Rightarrow> string \<Rightarrow> string \<Rightarrow> string \<Rightarrow> string" where
  "parse_response_to_category validate response ground_truth sep =
     (case validate response of
        Some cat \<Rightarrow> strip cat | None \<Rightarrow> create_pred_pad_category ground_truth sep)"

definition categories :: "string \<Rightarrow> string \<Rightarrow> string list" where
  "categories sep path = map strip (split_on sep path)"

definition match_hierarchical_paths :: "string \<Rightarrow> string \<Rightarrow> string \<Rightarrow> nat \<times> nat \<times> nat" where
  "match_hierarchical_paths sep predicted actual =
     (let p = categories sep predicted; t = categories sep actual
      in if p = [] \<or> t = [] then (0, length p, length t)
         else (length (takeWhile (\<lambda>(a, b). a = b) (zip p t)), length p, length t))"

definition calculate_hierarchical_f1 :: "string \<Rightarrow> (string \<times> string) list \<Rightarrow> rat" where
  "calculate_hierarchical_f1 sep pairs =
     (let (i, p, t) = foldl (\<lambda>(i, p, t) (a, b). case match_hierarchical_paths sep a b of (x, y, z) \<Rightarrow> (i + x, p + y, t + z))
            (0, 0, 0) pairs;
          hp = (if p > 0 then of_nat i / of_nat p else 0); hr = (if t > 0 then of_nat i / of_nat t else 0)
      in if hp + hr = 0 then 0 else 2 * (hp * hr) / (hp + hr))"

text \<open>\<open>str(g).strip()\<close> of a ground truth, empty for \<open>None\<close>; other values than text are printed by \<open>show\<close>.\<close>

definition truth_text :: "(pyval \<Rightarrow> string) \<Rightarrow> pyval \<Rightarrow> string" where
  "truth_text show g = (case g of PNone \<Rightarrow> [] | PStr s \<Rightarrow> strip s | _ \<Rightarrow> strip (show g))"

text \<open>\<open>ShopifyCategoryF1Scorer.score\<close>.  Without an output the frame has no index column, which raises.\<close>

definition shopify_score ::
    "(string \<Rightarrow> string option) \<Rightarrow> (pyval \<Rightarrow> string) \<Rightarrow> string \<Rightarrow> scorer \<Rightarrow> (string \<times> string) list \<Rightarrow> (rat \<times> nat) result" where
  "shopify_score validate show sep sr outputs =
     (let rows = own_outputs sr outputs
      in if rows = [] then Inl KeyError
         else (case matched_rows (sr\<lparr>sr_extractor := None\<rparr>) rows of
                 Inl e \<Rightarrow> Inl e
               | Inr ms \<Rightarrow>
                   (let pairs = map (\<lambda>((u, t), (v, g)).
                          (parse_response_to_category validate t (truth_text show g) sep, truth_text show g)) (zip rows ms)
                    in if sr_num_samples sr = 0 then Inl ZeroDivisionError
                       else Inr (calculate_hierarchical_f1 sep pairs, length pairs div sr_num_samples sr))))"

section \<open>Accounting\<close>

text \<open>\<open>dict(zip(uuids, outputs))\<close>: the last output of a sample.\<close>

definition uuid_to_text :: "(string \<times> string) list \<Rightarrow> string \<Rightarrow> string option" where
  "uuid_to_text outputs = map_of (rev outputs)"

record response_counts =
  rc_issued :: nat
  rc_scored :: nat
  rc_empty :: nat
  rc_missing :: nat

definition count_response :: "(string \<Rightarrow> string option) \<Rightarrow> response_counts \<Rightarrow> string \<Rightarrow> response_counts" where
  "count_response texts c u =
     (let c1 = c\<lparr>rc_issued := rc_issued c + 1\<rparr>
      in case texts u of
           None \<Rightarrow> c1\<lparr>rc_missing := rc_missing c1 + 1\<rparr>
         | Some t \<Rightarrow> if t \<noteq> [] then c1\<lparr>rc_scored := rc_scored c1 + 1\<rparr> else c1\<lparr>rc_empty := rc_empty c1 + 1\<rparr>)"

definition phase_response_counts :: "string list \<Rightarrow> (string \<Rightarrow> string option) \<Rightarrow> response_counts" where
  "phase_response_counts uuids texts =
     foldl (count_response texts) \<lparr>rc_issued = 0, rc_scored = 0, rc_empty = 0, rc_missing = 0\<rparr> uuids"

definition phase_texts :: "string list \<Rightarrow> (string \<Rightarrow> string option) \<Rightarrow> string list" where
  "phase_texts uuids texts = map (\<lambda>u. the (texts u)) (filter (\<lambda>u. case texts u of Some t \<Rightarrow> t \<noteq> [] | None \<Rightarrow> False) uuids)"

text \<open>The texts are tokenized in batches; the lengths are summarised by \<open>series_metric_dict\<close>.\<close>

function encode_batches :: "(string list \<Rightarrow> int list) \<Rightarrow> nat \<Rightarrow> string list \<Rightarrow> int list" where
  "encode_batches encode n ts =
     (if ts = [] \<or> n = 0 then [] else encode (take n ts) @ encode_batches encode n (drop n ts))"
  by pat_completeness auto

termination
  by (relation "measure (\<lambda>(encode, n, ts). length ts)") auto

declare encode_batches.simps [simp del]

definition phase_osl_lengths :: "(string list \<Rightarrow> int list) \<Rightarrow> string list \<Rightarrow> (string \<Rightarrow> string option) \<Rightarrow> int list option" where
  "phase_osl_lengths encode uuids texts =
     (let ts = phase_texts uuids texts in if ts = [] then None else Some (encode_batches encode 256 ts))"

record dataset_scoring =
  dg_name :: string
  dg_accuracy :: bool
  dg_scorer :: scorer
  dg_single :: single_score

text \<open>The samples whose outputs are read back: those issued for accuracy datasets; without a map, all.\<close>

definition accuracy_uuid_bound :: "(string \<times> (string \<times> nat) list) list option \<Rightarrow> dataset_scoring list \<Rightarrow> string set option" where
  "accuracy_uuid_bound idx_map cfgs =
     map_option (\<lambda>m. \<Union>dg\<in>{dg \<in> set cfgs. dg_accuracy dg}. case map_of m (dg_name dg) of None \<Rightarrow> {} | Some d \<Rightarrow> fst ` set d) idx_map"

record score_entry =
  se_dataset_name :: string
  se_score :: "rat option"
  se_unit_samples :: nat
  se_num_repeats :: nat
  se_total_samples :: nat
  se_response_counts :: "response_counts option"
  se_osl_lengths :: "int list option"

text \<open>One entry of \<open>score_accuracy\<close> for a scorer that works on the endpoint's outputs; \<open>perf_issued\<close> is the sum of
  the performance phases' issued counts, \<open>reading\<close> the outputs read once for all datasets.\<close>

definition score_entry_of ::
    "printers \<Rightarrow> (string list \<Rightarrow> int list) option \<Rightarrow> event_record list \<Rightarrow> (string \<times> string) list \<Rightarrow> nat \<Rightarrow> dataset_scoring \<Rightarrow> nat
     \<Rightarrow> score_entry result" where
  "score_entry_of pp encode evs reading perf_issued dg repeats =
     map_sum id (\<lambda>(s, n).
         \<lparr>se_dataset_name = dg_name dg, se_score = s, se_unit_samples = sr_num_samples (dg_scorer dg),
          se_num_repeats = (if dg_accuracy dg then repeats else 1),
          se_total_samples = (if dg_accuracy dg then sr_num_samples (dg_scorer dg) * repeats else perf_issued),
          se_response_counts = (if dg_accuracy dg
             then Some (phase_response_counts (map fst (sr_index_map (dg_scorer dg))) (uuid_to_text reading)) else None),
          se_osl_lengths = (if dg_accuracy dg
             then (case encode of None \<Rightarrow> None
                   | Some e \<Rightarrow> phase_osl_lengths e (map fst (sr_index_map (dg_scorer dg))) (uuid_to_text reading)) else None)\<rparr>)
       (score (dg_single dg) (dg_scorer dg) (get_raw_outputs pp None evs))"

fun score_accuracy ::
    "printers \<Rightarrow> (string list \<Rightarrow> int list) option \<Rightarrow> event_record list \<Rightarrow> (string \<times> string) list \<Rightarrow> nat \<Rightarrow> (dataset_scoring \<times> nat) list
     \<Rightarrow> score_entry list result" where
  "score_accuracy pp encode evs reading perf_issued [] = Inr []"
| "score_accuracy pp encode evs reading perf_issued ((dg, repeats) # cfgs) =
     (case score_entry_of pp encode evs reading perf_issued dg repeats of
        Inl e \<Rightarrow> Inl e
      | Inr entry \<Rightarrow> map_sum id (\<lambda>es. entry # es) (score_accuracy pp encode evs reading perf_issued cfgs))"

definition accuracy_outputs ::
    "printers \<Rightarrow> event_record list \<Rightarrow> (string \<times> (string \<times> nat) list) list option \<Rightarrow> (dataset_scoring \<times> nat) list \<Rightarrow> (string \<times> string) list" where
  "accuracy_outputs pp evs idx_map cfgs =
     get_raw_outputs pp (accuracy_uuid_bound idx_map (map fst cfgs)) evs"

definition scored_run ::
    "printers \<Rightarrow> (string list \<Rightarrow> int list) option \<Rightarrow> event_record list \<Rightarrow> (string \<times> (string \<times> nat) list) list option \<Rightarrow> nat
     \<Rightarrow> (dataset_scoring \<times> nat) list \<Rightarrow> score_entry list result" where
  "scored_run pp encode evs idx_map perf_issued cfgs =
     score_accuracy pp encode evs (accuracy_outputs pp evs idx_map cfgs) perf_issued cfgs"

end
