(* ===== verification/ScoringFacts.thy ===== *)
theory ScoringFacts
  imports Scoring
begin

text \<open>The score is the share of the issued samples, and F1 a mean of precision and recall.\<close>

section \<open>The share of the issued samples\<close>

lemma matched_rows_ok:
  assumes "\<And>u t. (u, t) \<in> set rows \<Longrightarrow> \<exists>i. map_of (sr_index_map sr) u = Some i \<and> i < length (sr_ground_truths sr)"
  shows "matched_rows sr rows = Inr (map (\<lambda>(u, t). (empirical sr t, sr_ground_truths sr ! the (map_of (sr_index_map sr) u))) rows)"
  using assms
proof (induction rows)
  case (Cons r rows)
  obtain u t where r: "r = (u, t)" by force
  obtain i where "map_of (sr_index_map sr) u = Some i" "i < length (sr_ground_truths sr)"
    using Cons.prems [of u t] r by auto
  moreover have "matched_rows sr rows = Inr (map (\<lambda>(u, t). (empirical sr t, sr_ground_truths sr ! the (map_of (sr_index_map sr) u))) rows)"
    using Cons.prems by (intro Cons.IH) auto
  ultimately show ?case by (simp add: r ground_truth_of_def list_get_nth)
qed simp

lemma single_scores_exact: "single_scores exact_match rows = Inr (map (\<lambda>(v, g). if v = g then 1 else 0) rows)"
  by (induction rows) (auto simp: exact_match_def)

lemma sum_of_hits: "(\<Sum>x\<leftarrow>xs. if P x then 1 else 0 :: rat) = of_nat (length (filter P xs))"
  by (induction xs) auto

lemma own_outputs_raw:
  "own_outputs sr (get_raw_outputs pp None evs)
   = map (\<lambda>(u, d). (u, data_text pp d)) (filter (\<lambda>(u, d). u \<in> fst ` set (sr_index_map sr)) (iter_complete evs))"
  by (simp add: own_outputs_def get_raw_outputs_def filter_map comp_def case_prod_unfold)

definition right_answer :: "scorer \<Rightarrow> printers \<Rightarrow> string \<Rightarrow> event_data \<Rightarrow> bool" where
  "right_answer sr pp u d =
     (empirical sr (data_text pp d) = sr_ground_truths sr ! the (map_of (sr_index_map sr) u))"

text \<open>The issued samples that were completed with the right answer.\<close>

definition right_samples :: "scorer \<Rightarrow> printers \<Rightarrow> event_record list \<Rightarrow> string set" where
  "right_samples sr pp evs =
     {u \<in> fst ` set (sr_index_map sr). \<exists>d. (u, d) \<in> set (iter_complete evs) \<and> right_answer sr pp u d}"

lemma count_right:
  assumes "distinct (map fst (iter_complete evs))"
  shows "length (filter (\<lambda>(u, d). right_answer sr pp u d)
      (filter (\<lambda>(u, d). u \<in> fst ` set (sr_index_map sr)) (iter_complete evs))) = card (right_samples sr pp evs)"
proof -
  let ?xs = "filter (\<lambda>(u, d). right_answer sr pp u d)
      (filter (\<lambda>(u, d). u \<in> fst ` set (sr_index_map sr)) (iter_complete evs))"
  have "distinct (map fst ?xs)" using assms by (simp add: distinct_map_filter)
  then have "length ?xs = card (fst ` set ?xs)" using distinct_card [of "map fst ?xs"] by simp
  moreover have "fst ` set ?xs = right_samples sr pp evs"
    by (auto simp: right_samples_def image_iff Bex_def split_paired_Ex) blast
  ultimately show ?thesis by simp
qed

lemma score_exact:
  assumes "dict_wf (sr_index_map sr)" "sr_index_map sr \<noteq> []" "sr_num_samples sr > 0"
    and "\<forall>i\<in>snd ` set (sr_index_map sr). i < length (sr_ground_truths sr)"
    and "distinct (map fst (iter_complete evs))"
  shows "score exact_match sr (get_raw_outputs pp None evs)
    = Inr (Some (of_nat (card (right_samples sr pp evs)) / of_nat (length (sr_index_map sr))), length (sr_index_map sr) div sr_num_samples sr)"
proof -
  let ?own = "filter (\<lambda>(u, d). u \<in> fst ` set (sr_index_map sr)) (iter_complete evs)"
  let ?rows = "own_outputs sr (get_raw_outputs pp None evs)"
  have rows: "?rows = map (\<lambda>(u, d). (u, data_text pp d)) ?own" by (rule own_outputs_raw)
  have known: "\<exists>i. map_of (sr_index_map sr) u = Some i \<and> i < length (sr_ground_truths sr)" if "(u, t) \<in> set ?rows" for u t
  proof -
    have "u \<in> fst ` set (sr_index_map sr)" using that by (auto simp: rows)
    then obtain i where i: "map_of (sr_index_map sr) u = Some i" by (metis map_of_eq_None_iff not_None_eq)
    then have "i \<in> snd ` set (sr_index_map sr)" by (metis map_of_SomeD snd_conv image_eqI)
    then show ?thesis using i assms(4) by blast
  qed
  have hits: "single_scores exact_match (map (\<lambda>(u, t). (empirical sr t, sr_ground_truths sr ! the (map_of (sr_index_map sr) u))) ?rows)
      = Inr (map (\<lambda>(u, d). if right_answer sr pp u d then 1 else 0) ?own)"
    unfolding rows single_scores_exact by (simp add: comp_def case_prod_unfold right_answer_def)
  have total: "sum_list (map (\<lambda>(u, d). if right_answer sr pp u d then 1 else 0 :: rat) ?own) = of_nat (card (right_samples sr pp evs))"
    using count_right [OF assms(5), of sr pp] sum_of_hits [of "\<lambda>(u, d). right_answer sr pp u d" ?own]
    by (simp add: case_prod_unfold)
  show ?thesis
  proof (cases "?rows = []")
    case True
    then have "?own = []" using rows by simp
    then have "card (right_samples sr pp evs) = 0" using total by simp
    then show ?thesis using True assms(2,3) by (simp add: score_def Let_def)
  next
    case False
    then show ?thesis using assms(2,3) matched_rows_ok [of ?rows sr, OF known] hits total
      by (simp add: score_def Let_def)
  qed
qed

lemma counts_by_kind:
  "rc_issued (foldl (count_response texts) c us) = rc_issued c + length us"
  "rc_missing (foldl (count_response texts) c us) = rc_missing c + length (filter (\<lambda>u. texts u = None) us)"
  "rc_empty (foldl (count_response texts) c us) = rc_empty c + length (filter (\<lambda>u. texts u = Some []) us)"
  "rc_scored (foldl (count_response texts) c us) = rc_scored c + length (filter (\<lambda>u. texts u \<noteq> None \<and> texts u \<noteq> Some []) us)"
  by (induction us arbitrary: c) (auto simp: count_response_def Let_def split: option.splits)

section \<open>What a dataset's entry says\<close>

text \<open>The outputs read for all datasets hold those of an accuracy dataset.\<close>

lemma reading_bound:
  assumes "dg \<in> fst ` set cfgs" "dg_accuracy dg" "map_of idx_map (dg_name dg) = Some (sr_index_map (dg_scorer dg))"
    and u: "u \<in> fst ` set (sr_index_map (dg_scorer dg))"
  shows "uuid_to_text (accuracy_outputs pp evs (Some idx_map) cfgs) u
       = map_option (data_text pp) (map_of (rev (iter_complete evs)) u)"
proof -
  obtain b where b: "accuracy_uuid_bound (Some idx_map) (map fst cfgs) = Some b" by (simp add: accuracy_uuid_bound_def)
  have "dg \<in> {dg \<in> set (map fst cfgs). dg_accuracy dg}" using assms(1,2) by simp
  then have "u \<in> b" using b u assms(3) unfolding accuracy_uuid_bound_def by force
  have gen: "map_of (rev (map (\<lambda>(u, d). (u, data_text pp d)) (filter (\<lambda>(u, d). u \<in> b) xs))) u
      = map_option (data_text pp) (map_of (rev xs) u)" for xs
    using \<open>u \<in> b\<close> by (induction xs) (auto simp: map_add_def split: option.splits)
  show ?thesis using gen by (simp add: uuid_to_text_def accuracy_outputs_def get_raw_outputs_def b)
qed

lemma score_accuracy_entry:
  "score_accuracy pp encode evs reading n cfgs = Inr es \<Longrightarrow> i < length cfgs \<Longrightarrow>
     length es = length cfgs \<and> score_entry_of pp encode evs reading n (fst (cfgs ! i)) (snd (cfgs ! i)) = Inr (es ! i)"
proof (induction cfgs arbitrary: es i)
  case (Cons c cfgs)
  obtain dg r where c: "c = (dg, r)" by force
  from Cons.prems(1) obtain e es' where e: "score_entry_of pp encode evs reading n dg r = Inr e"
      "score_accuracy pp encode evs reading n cfgs = Inr es'" "es = e # es'"
    by (auto simp: c split: sum.splits)
       (cases "score_accuracy pp encode evs reading n cfgs"; auto)
  show ?case
  proof (cases i)
    case 0
    have "length es' = length cfgs"
      using Cons.IH [OF e(2), of 0] e(2) by (cases cfgs) auto
    then show ?thesis using e c 0 by simp
  next
    case (Suc j)
    then show ?thesis using Cons.IH [OF e(2), of j] Cons.prems(2) e c by simp
  qed
qed simp

text \<open>C35. When every dataset's samples are in the map of issued samples and no sample completed twice, the entry of
  an exactly matched accuracy dataset counts each of its issued samples once as scored, empty or missing, where
  missing means that the log holds no completion, and its score is the number of samples completed with the
  right answer over the number issued: a lost sample counts as a wrong one.\<close>

theorem scores_account_for_every_issued_sample:
  assumes "scored_run pp encode evs (Some idx_map) n cfgs = Inr es" and "i < length cfgs" and "dg = fst (cfgs ! i)"
    and "dg_accuracy dg" and "dg_single dg = exact_match" and "sr = dg_scorer dg"
    and "map_of idx_map (dg_name dg) = Some (sr_index_map sr)" and "dict_wf (sr_index_map sr)" and "sr_index_map sr \<noteq> []"
    and "sr_num_samples sr > 0" and "\<forall>j\<in>snd ` set (sr_index_map sr). j < length (sr_ground_truths sr)"
    and "distinct (map fst (iter_complete evs))"
  shows "se_score (es ! i) = Some (of_nat (card (right_samples sr pp evs)) / of_nat (length (sr_index_map sr)))
    \<and> (\<exists>c. se_response_counts (es ! i) = Some c \<and> rc_issued c = length (sr_index_map sr)
        \<and> rc_scored c + rc_empty c + rc_missing c = rc_issued c
        \<and> rc_missing c = card {u \<in> fst ` set (sr_index_map sr). u \<notin> fst ` set (iter_complete evs)}
        \<and> card (right_samples sr pp evs) \<le> rc_scored c + rc_empty c)"
proof -
  define reading where "reading = accuracy_outputs pp evs (Some idx_map) cfgs"
  define us where "us = map fst (sr_index_map sr)"
  let ?texts = "uuid_to_text reading"
  have us: "distinct us" using assms(8) by (simp add: us_def dict_wf_def)
  have e: "score_entry_of pp encode evs reading n dg (snd (cfgs ! i)) = Inr (es ! i)"
    using score_accuracy_entry [of pp encode evs reading n cfgs es i] assms(1,2,3) by (simp add: scored_run_def reading_def)
  note sc = score_exact [OF assms(8-12), of pp]
  define c where "c = phase_response_counts us ?texts"
  have es: "se_score (es ! i) = Some (of_nat (card (right_samples sr pp evs)) / of_nat (length (sr_index_map sr)))"
    "se_response_counts (es ! i) = Some c"
    using e sc assms(4-6) by (auto simp: score_entry_of_def c_def us_def dest!: sym [of _ "es ! i"])
  have known: "?texts u = map_option (data_text pp) (map_of (rev (iter_complete evs)) u)" if "u \<in> set us" for u
    unfolding reading_def
    by (rule reading_bound [of dg]) (use assms that nth_mem [OF assms(2)] in \<open>auto simp: us_def\<close>)
  have missing_iff: "?texts u = None \<longleftrightarrow> u \<notin> fst ` set (iter_complete evs)" if "u \<in> set us" for u
    using known [OF that] by (simp add: map_of_eq_None_iff)
  have kinds: "rc_issued c = length us" "rc_missing c = length (filter (\<lambda>u. ?texts u = None) us)"
    "rc_empty c = length (filter (\<lambda>u. ?texts u = Some []) us)"
    "rc_scored c = length (filter (\<lambda>u. ?texts u \<noteq> None \<and> ?texts u \<noteq> Some []) us)"
    unfolding c_def phase_response_counts_def counts_by_kind by simp_all
  have total: "rc_scored c + rc_empty c + rc_missing c = rc_issued c"
    unfolding kinds by (induction us) auto
  have "rc_missing c = card (set (filter (\<lambda>u. ?texts u = None) us))"
    unfolding kinds(2) using us by (subst distinct_card) auto
  also have "set (filter (\<lambda>u. ?texts u = None) us) = {u \<in> fst ` set (sr_index_map sr). u \<notin> fst ` set (iter_complete evs)}"
    using missing_iff by (auto simp: us_def)
  finally have missing: "rc_missing c = card {u \<in> fst ` set (sr_index_map sr). u \<notin> fst ` set (iter_complete evs)}" .
  have "right_samples sr pp evs \<subseteq> set (filter (\<lambda>u. ?texts u \<noteq> None) us)"
    using missing_iff by (force simp: right_samples_def us_def)
  then have "card (right_samples sr pp evs) \<le> length (filter (\<lambda>u. ?texts u \<noteq> None) us)"
    by (rule order_trans [OF card_mono [OF finite_set] card_length])
  also have "\<dots> + rc_missing c = rc_issued c" unfolding kinds using sum_length_filter_compl [of "\<lambda>u. ?texts u = None" us] by simp
  finally have right: "card (right_samples sr pp evs) + rc_missing c \<le> rc_issued c" by simp
  show ?thesis
    using es total missing right kinds(1) by (intro conjI exI [of _ c]) (simp_all add: us_def)
qed

definition two_samples :: "(string \<times> nat) list" where "two_samples = [(''u1'', 0), (''u2'', 1)]"

definition example_scoring :: dataset_scoring where
  "example_scoring = \<lparr>dg_name = ''gpqa'', dg_accuracy = True,
     dg_scorer = \<lparr>sr_index_map = two_samples, sr_ground_truths = [PStr ''x'', PStr ''y''], sr_num_samples = 2, sr_extractor = None\<rparr>,
     dg_single = exact_match\<rparr>"

definition example_log :: "event_record list" where
  "example_log = [mk_sample_event (SampleEv ISSUED) 1 ''u1'' [] None NoData, mk_sample_event (SampleEv ISSUED) 2 ''u2'' [] None NoData,
     mk_sample_event (SampleEv COMPLETE) 3 ''u1'' [] None
       (OutputData \<lparr>to_output = Whole ''x'', to_reasoning = None, to_tool_calls = None\<rparr>)]"

theorem scores_account_for_every_issued_sample_witness:
  "\<exists>es c. scored_run \<lparr>pp_calls = \<lambda>_. [], pp_data = \<lambda>_. []\<rparr> None example_log (Some [(''gpqa'', two_samples)]) 0 [(example_scoring, 1)] = Inr es
     \<and> se_response_counts (es ! 0) = Some c \<and> rc_issued c = 2 \<and> rc_missing c = 1"
proof -
  let ?pp = "\<lparr>pp_calls = \<lambda>_. [], pp_data = \<lambda>_. []\<rparr>"
  have it: "iter_complete example_log = [(''u1'', OutputData \<lparr>to_output = Whole ''x'', to_reasoning = None, to_tool_calls = None\<rparr>)]"
    by (simp add: iter_complete_def example_log_def mk_sample_event_def mk_event_def)
  have sr: "sr_index_map (dg_scorer example_scoring) = two_samples" "dg_name example_scoring = ''gpqa''" "dg_accuracy example_scoring"
    "dg_single example_scoring = exact_match" "sr_num_samples (dg_scorer example_scoring) = 2"
    "sr_ground_truths (dg_scorer example_scoring) = [PStr ''x'', PStr ''y'']" by (simp_all add: example_scoring_def)
  have d: "dict_wf two_samples" "two_samples \<noteq> []" "distinct (map fst (iter_complete example_log))"
    "\<forall>j\<in>snd ` set two_samples. j < length [PStr ''x'', PStr ''y'']" "length two_samples = 2"
    by (simp_all add: two_samples_def dict_wf_def it)
  obtain es where es: "scored_run ?pp None example_log (Some [(''gpqa'', two_samples)]) 0 [(example_scoring, 1)] = Inr es"
    using score_exact [of "dg_scorer example_scoring" example_log ?pp] d
    by (auto simp: scored_run_def score_entry_of_def sr)
  have "{u \<in> fst ` set two_samples. u \<notin> fst ` set (iter_complete example_log)} = {''u2''}"
    by (auto simp: two_samples_def it)
  then show ?thesis
    using scores_account_for_every_issued_sample [OF es, of 0 example_scoring "dg_scorer example_scoring"] d es by (auto simp: sr)
qed

section \<open>F1\<close>

lemma agreeing:
  "length (takeWhile (\<lambda>(x, y). x = y) (zip xs ys)) \<le> length xs
   \<and> length (takeWhile (\<lambda>(x, y). x = y) (zip xs ys)) \<le> length ys
   \<and> (length (takeWhile (\<lambda>(x, y). x = y) (zip xs ys)) = length xs
        \<and> length (takeWhile (\<lambda>(x, y). x = y) (zip xs ys)) = length ys \<longleftrightarrow> xs = ys)"
  by (induction xs ys rule: list_induct2') auto

lemma path_counts:
  assumes "sep \<noteq> []"
  shows "match_hierarchical_paths sep a b = (i, p, t) \<Longrightarrow>
    i \<le> p \<and> i \<le> t \<and> 0 < p \<and> 0 < t \<and> (i = p \<and> i = t \<longleftrightarrow> categories sep a = categories sep b)"
proof -
  have ne: "categories sep x \<noteq> []" for x by (simp add: categories_def split_on_nonempty)
  let ?z = "zip (categories sep a) (categories sep b)"
  assume "match_hierarchical_paths sep a b = (i, p, t)"
  then have e: "i = length (takeWhile (\<lambda>(x, y). x = y) ?z)" "p = length (categories sep a)" "t = length (categories sep b)"
    using ne by (auto simp: match_hierarchical_paths_def Let_def)
  show ?thesis using e ne agreeing [of "categories sep a" "categories sep b"] by auto
qed

definition path_totals :: "string \<Rightarrow> (string \<times> string) list \<Rightarrow> nat \<times> nat \<times> nat" where
  "path_totals sep pairs =
     (\<Sum>(a, b)\<leftarrow>pairs. fst (match_hierarchical_paths sep a b),
      \<Sum>(a, b)\<leftarrow>pairs. fst (snd (match_hierarchical_paths sep a b)),
      \<Sum>(a, b)\<leftarrow>pairs. snd (snd (match_hierarchical_paths sep a b)))"

lemma totals_fold:
  "foldl (\<lambda>(i, p, t) (a, b). case match_hierarchical_paths sep a b of (x, y, z) \<Rightarrow> (i + x, p + y, t + z)) (i0, p0, t0) pairs
   = (case path_totals sep pairs of (i, p, t) \<Rightarrow> (i0 + i, p0 + p, t0 + t))"
proof (induction pairs arbitrary: i0 p0 t0)
  case (Cons q pairs)
  obtain a b x y z where "q = (a, b)" "match_hierarchical_paths sep a b = (x, y, z)" by (metis prod.exhaust)
  then show ?case using Cons by (simp add: path_totals_def)
qed (simp add: path_totals_def)

lemma totals_counts:
  assumes "sep \<noteq> []"
  shows "path_totals sep pairs = (i, p, t) \<Longrightarrow> i \<le> p \<and> i \<le> t \<and> (pairs \<noteq> [] \<longrightarrow> 0 < p \<and> 0 < t)
    \<and> (i = p \<and> i = t \<longleftrightarrow> (\<forall>(a, b)\<in>set pairs. categories sep a = categories sep b))"
proof (induction pairs arbitrary: i p t)
  case (Cons q pairs)
  obtain a b x y z where q: "q = (a, b)" "match_hierarchical_paths sep a b = (x, y, z)" by (metis prod.exhaust)
  obtain i' p' t' where r: "path_totals sep pairs = (i', p', t')" by (metis prod.exhaust)
  have "i = x + i'" "p = y + p'" "t = z + t'" using Cons.prems r q by (auto simp: path_totals_def)
  then show ?case using Cons.IH [OF r] path_counts [OF assms q(2)] q(1) by auto
qed (simp add: path_totals_def)

text \<open>The hierarchical F1 is twice the levels in common over the levels of both sides, so it lies between 0 and 1
  and is 1 exactly when every predicted path agrees with its true one at every level.\<close>

theorem hierarchical_f1_is_a_share:
  assumes "sep \<noteq> []" and "pairs \<noteq> []" and "path_totals sep pairs = (i, p, t)"
  shows "calculate_hierarchical_f1 sep pairs = 2 * of_nat i / (of_nat p + of_nat t)
    \<and> 0 \<le> calculate_hierarchical_f1 sep pairs \<and> calculate_hierarchical_f1 sep pairs \<le> 1
    \<and> (calculate_hierarchical_f1 sep pairs = 1 \<longleftrightarrow> (\<forall>(a, b)\<in>set pairs. categories sep a = categories sep b))"
proof -
  have c: "i \<le> p" "i \<le> t" "0 < p" "0 < t" "i = p \<and> i = t \<longleftrightarrow> (\<forall>(a, b)\<in>set pairs. categories sep a = categories sep b)"
    using totals_counts [OF assms(1,3)] assms(2) by auto
  let ?hp = "of_nat i / of_nat p :: rat" and ?hr = "of_nat i / of_nat t :: rat"
  have f: "calculate_hierarchical_f1 sep pairs = (if ?hp + ?hr = 0 then 0 else 2 * (?hp * ?hr) / (?hp + ?hr))"
    using c(3,4) unfolding calculate_hierarchical_f1_def totals_fold assms(3) by (simp add: Let_def)
  have v: "calculate_hierarchical_f1 sep pairs = 2 * of_nat i / (of_nat p + of_nat t)"
  proof (cases "i = 0")
    case False
    have pos: "0 < (of_nat i :: rat)" "0 < (of_nat p :: rat)" "0 < (of_nat t :: rat)" using False c by simp_all
    then have "?hp + ?hr \<noteq> 0" by (metis add_pos_pos divide_pos_pos less_irrefl)
    moreover have "?hp + ?hr = of_nat i * (of_nat p + of_nat t) / (of_nat p * of_nat t)" using pos by (simp add: field_simps)
    ultimately show ?thesis unfolding f using pos by (simp add: field_simps)
  qed (simp add: f)
  have le: "2 * (of_nat i :: rat) \<le> of_nat p + of_nat t" using c(1,2) by (metis add_mono mult_2 of_nat_le_iff)
  have pos: "0 < (of_nat p + of_nat t :: rat)" using c(3) by simp
  have one: "calculate_hierarchical_f1 sep pairs = 1 \<longleftrightarrow> 2 * (of_nat i :: rat) = of_nat p + of_nat t"
    unfolding v using pos by (auto simp: field_simps)
  have "(2 * (of_nat i :: rat) = of_nat p + of_nat t) \<longleftrightarrow> 2 * i = p + t"
    by (metis (no_types) of_nat_add of_nat_eq_iff mult_2)
  then have "calculate_hierarchical_f1 sep pairs = 1 \<longleftrightarrow> i = p \<and> i = t" using one c(1,2) by auto
  then show ?thesis using v le pos c(5) by (simp add: divide_le_eq)
qed

theorem hierarchical_f1_is_a_share_witness:
  "calculate_hierarchical_f1 '' > '' [(''A > B'', ''A > C''), (''D'', ''D'')] = 2 / 3"
proof -
  have "path_totals '' > '' [(''A > B'', ''A > C''), (''D'', ''D'')] = (2, 3, 3)"
    by (simp add: path_totals_def match_hierarchical_paths_def categories_def strip_def str_space_def)
  from hierarchical_f1_is_a_share [OF _ _ this] show ?thesis by simp
qed

end
