(* ===== verification/InlineScorer.thy ===== *)
theory InlineScorer
  imports CoreTypes Regex "HOL-Library.Multiset" "HOL-Library.Product_Lexorder"
begin

text \<open>
  \<open>AgenticInferenceInlineScorer\<close> of \<open>evaluation/scoring.py\<close>: the outputs of the performance phase of an agentic
  run, scored against the assistant turns of its dataset.  The event log is the list of its readable records, the
  data frame the list of its rows; decoding JSON and printing an identifier that is no text are arguments.
\<close>

section \<open>Patterns and tables\<close>

definition EXECUTABLE_ALIASES :: "(string \<times> string) list" where
  "EXECUTABLE_ALIASES =
     [(''python'', ''python''), (''python2'', ''python''), (''python3'', ''python''), (''py'', ''python''), (''pip'', ''pip''),
      (''pip3'', ''pip''), (''pytest'', ''pytest''), (''pylint'', ''pylint''), (''sphinx-build'', ''sphinx''),
      (''sphinx-quickstart'', ''sphinx''), (''cython'', ''cython''), (''make'', ''make''), (''conda'', ''conda''),
      (''cat'', ''cat''), (''head'', ''head''), (''tail'', ''tail''), (''less'', ''cat''), (''more'', ''cat''), (''wc'', ''wc''),
      (''diff'', ''diff''), (''grep'', ''grep''), (''egrep'', ''grep''), (''fgrep'', ''grep''), (''rg'', ''grep''), (''ag'', ''grep''),
      (''sed'', ''sed''), (''awk'', ''awk''), (''gawk'', ''awk''), (''tr'', ''tr''), (''sort'', ''sort''), (''uniq'', ''uniq''),
      (''cut'', ''cut''), (''find'', ''find''), (''ls'', ''ls''), (''locate'', ''find''), (''xargs'', ''xargs''), (''cp'', ''cp''),
      (''mv'', ''mv''), (''rm'', ''rm''), (''mkdir'', ''mkdir''), (''touch'', ''touch''), (''tee'', ''tee''), (''source'', ''source''),
      (''.'', ''source''), (''which'', ''which''), (''alias'', ''alias''), (''unset'', ''unset''), (''export'', ''export''),
      (''git'', ''git''), (''curl'', ''curl''), (''wget'', ''curl''), (''true'', ''true''), (''false'', ''false''),
      (''timeout'', ''timeout''), (''date'', ''date''), (''apt-get'', ''apt''), (''apt'', ''apt''), (''yum'', ''yum'')]"

definition SHELL_WRAPPERS :: "string list" where
  "SHELL_WRAPPERS = [''env'', ''time'', ''nice'', ''sudo'', ''exec'', ''command'']"

definition digits_rx :: rx where "digits_rx = Plus (Cls is_digit)"

definition REPEAT_SUFFIX_RE :: rx where "REPEAT_SUFFIX_RE = seqs [word ''__repeat_'', Grp 1 digits_rx, text_end]"
definition WORKFLOW_CONVERSATION_RE :: rx where
  "WORKFLOW_CONVERSATION_RE = seqs [text_start, word ''sim_'', digits_rx, text_end]"

definition three_digits :: rx where "three_digits = seqs [Cls is_digit, Cls is_digit, Cls is_digit]"

definition INTENT_RE :: rx where
  "INTENT_RE = seqs [word_boundary, iword ''intent:'', spaces, Grp 1 (Seq (Cls (\<lambda>c. lower_char c = CHR ''i'')) three_digits), word_boundary]"
definition BARE_INTENT_RE :: rx where
  "BARE_INTENT_RE = seqs [word_boundary, Chr (CHR ''I''), Grp 1 three_digits, word_boundary]"
definition COMMAND_SEPARATOR_RE :: rx where
  "COMMAND_SEPARATOR_RE = alts [word ''||'', word ''|'', word ''&&'', word '';'', Chr newline]"

definition backslash :: char where "backslash = char_of (92 :: nat)"

definition QUOTED_RE :: rx where
  "QUOTED_RE = alts
     [seqs [Chr (CHR 0x27), Star True (Cls (\<lambda>c. c \<noteq> CHR 0x27)), Chr (CHR 0x27)],
      seqs [Chr (CHR 0x22), Star True (Alt (Cls (\<lambda>c. c \<noteq> CHR 0x22 \<and> c \<noteq> backslash)) (Seq (Chr backslash) any_char)), Chr (CHR 0x22)],
      seqs [Chr (CHR 0x60), Star True (Cls (\<lambda>c. c \<noteq> CHR 0x60)), Chr (CHR 0x60)]]"

definition ENV_ASSIGNMENT_RE :: rx where
  "ENV_ASSIGNMENT_RE = seqs [text_start, Cls (\<lambda>c. letter c \<or> c = CHR ''_''), Star True (Cls word_char), Chr (CHR ''='')]"
definition PY_VERSION_SUFFIX_RE :: rx where
  "PY_VERSION_SUFFIX_RE = seqs [Chr (CHR ''.''), digits_rx, Opt (Grp 1 (Seq (Chr (CHR ''.'')) digits_rx)), text_end]"

definition is_workflow :: "string \<Rightarrow> bool" where
  "is_workflow conv = (rx_match_at WORKFLOW_CONVERSATION_RE None conv \<noteq> None)"

section \<open>Expected turns\<close>

text \<open>\<open>int(v or 0)\<close>, and \<open>str(v)\<close> where \<open>show\<close> prints what is no text.\<close>

definition turn_number :: "pyval \<Rightarrow> int result" where
  "turn_number v =
     (if \<not> truthy v then Inr 0
      else (case v of
              PInt n \<Rightarrow> Inr n | PBool b \<Rightarrow> Inr 1 | PStr s \<Rightarrow> parse_int s
            | PFloat (Fin q) \<Rightarrow> Inr (if q \<ge> 0 then \<lfloor>q\<rfloor> else \<lceil>q\<rceil>) | PFloat NaN \<Rightarrow> Inl ValueError
            | PFloat _ \<Rightarrow> Inl (OtherException ''OverflowError'') | _ \<Rightarrow> Inl TypeError))"

definition str_value :: "(pyval \<Rightarrow> string) \<Rightarrow> pyval \<Rightarrow> string" where
  "str_value show v = (case v of PStr s \<Rightarrow> s | _ \<Rightarrow> show v)"

text \<open>A missing cell is a NaN, which is the only value different from itself.\<close>

definition clean_row :: "pydict \<Rightarrow> pydict" where
  "clean_row row = map (\<lambda>(k, v). (k, if v = PFloat NaN then PNone else v)) row"

definition group_row :: "(pyval \<Rightarrow> string) \<Rightarrow> (string \<times> pydict list) list \<Rightarrow> pydict \<Rightarrow> (string \<times> pydict list) list" where
  "group_row show groups raw =
     (let row = clean_row raw; cid = dget row ''conversation_id''
      in if is_none cid then groups
         else (let c = str_value show cid
               in AList.update c ((case map_of groups c of Some rows \<Rightarrow> rows | None \<Rightarrow> []) @ [row]) groups))"

definition role_is :: "pydict \<Rightarrow> string list \<Rightarrow> bool" where
  "role_is row roles = (case dget row ''role'' of PStr r \<Rightarrow> r \<in> set roles | _ \<Rightarrow> False)"

text \<open>The sort's key raises for a turn that is no number.\<close>

fun turn_keys :: "pydict list \<Rightarrow> (int \<times> pydict) list result" where
  "turn_keys [] = Inr []"
| "turn_keys (row # rows) =
     (case turn_number (dget row ''turn'') of
        Inl e \<Rightarrow> Inl e | Inr n \<Rightarrow> map_sum id (\<lambda>ks. (n, row) # ks) (turn_keys rows))"

type_synonym expected = "((string \<times> int) \<times> pydict) list"

fun pair_turns :: "string \<Rightarrow> (int \<times> pydict) list \<Rightarrow> expected \<Rightarrow> expected" where
  "pair_turns conv ((n, row) # (m, next) # rest) ex =
     pair_turns conv ((m, next) # rest)
       (if role_is row [''user'', ''tool''] \<and> role_is next [''assistant'']
        then AList.update (conv, n) (dmerge next [(''_assistant_turn'', PInt m)]) ex else ex)"
| "pair_turns conv _ ex = ex"

fun expected_of_groups :: "(string \<times> pydict list) list \<Rightarrow> expected \<Rightarrow> expected result" where
  "expected_of_groups [] ex = Inr ex"
| "expected_of_groups ((conv, rows) # groups) ex =
     (case turn_keys rows of
        Inl e \<Rightarrow> Inl e | Inr ks \<Rightarrow> expected_of_groups groups (pair_turns conv (sort_key fst ks) ex))"

definition expected_assistant_turns :: "(pyval \<Rightarrow> string) \<Rightarrow> pydict list \<Rightarrow> expected result" where
  "expected_assistant_turns show frame = expected_of_groups (foldl (group_row show) [] frame) []"

section \<open>Issued and completed turns\<close>

text \<open>A turn of a repeat of a conversation; a model's message is the dictionary of its parts.\<close>

type_synonym turn_key = "string \<times> int \<times> int"

definition opt_str :: "string option \<Rightarrow> pyval" where "opt_str s = (case s of Some t \<Rightarrow> PStr t | None \<Rightarrow> PNone)"

definition drop_absent :: "(string \<times> string option) list \<Rightarrow> pydict" where
  "drop_absent kvs = List.map_filter (\<lambda>(k, v). map_option (\<lambda>s. (k, PStr s)) v) kvs"

definition call_values :: "merged_calls \<Rightarrow> pyval list" where
  "call_values calls = (case calls of
       RawCalls ps \<Rightarrow> map (\<lambda>p. PDict (drop_absent [(''id'', tp_id p), (''type'', tp_type p)]
           @ [(''function'', PDict (drop_absent [(''name'', tp_name p), (''arguments'', tp_arguments p)]))])) ps
     | Merged cs \<Rightarrow> map (\<lambda>c. PDict (drop_absent [(''type'', Some (tc_type c)), (''id'', tc_id c)]
           @ [(''function'', PDict (drop_absent [(''arguments'', Some (tc_arguments c)), (''name'', tc_name c)]))])) cs)"

definition model_message :: "event_data \<Rightarrow> pydict option" where
  "model_message d = (case d of
       OutputData o' \<Rightarrow>
         (case as_message_parts o' of (content, reasoning, calls) \<Rightarrow>
            Some [(''role'', PStr ''assistant''), (''content'', PStr content), (''reasoning_content'', opt_str reasoning),
                  (''tool_calls'', if merged_truthy calls then PList (call_values (the calls)) else PNone)])
     | _ \<Rightarrow> None)"

definition split_repeat :: "string \<Rightarrow> string \<times> int" where
  "split_repeat conv = (case re_search REPEAT_SUFFIX_RE None conv of
       None \<Rightarrow> (conv, 1)
     | Some m \<Rightarrow> (mt_before m, digits_value (the (re_group m 1))))"

definition turn_key_of :: "event_record \<Rightarrow> turn_key option" where
  "turn_key_of r = (case ev_turn r of
       None \<Rightarrow> None
     | Some n \<Rightarrow> if ev_conv r = [] then None else (case split_repeat (ev_conv r) of (c, k) \<Rightarrow> Some (c, k, n)))"

record turns_read =
  tr_keys :: "string \<Rightarrow> turn_key option"
  tr_completed :: "string \<Rightarrow> pydict option option"
  tr_issued :: "turn_key set"
  tr_models :: "turn_key \<Rightarrow> pydict option option"

definition read_issued :: "turn_key \<Rightarrow> string \<Rightarrow> turns_read \<Rightarrow> turns_read" where
  "read_issued key u s =
     (let s1 = s\<lparr>tr_keys := (tr_keys s)(u \<mapsto> key), tr_issued := insert key (tr_issued s)\<rparr>
      in case tr_completed s u of None \<Rightarrow> s1 | Some m \<Rightarrow> s1\<lparr>tr_models := (tr_models s)(key \<mapsto> m)\<rparr>)"

definition read_complete :: "pydict option \<Rightarrow> string \<Rightarrow> turns_read \<Rightarrow> turns_read" where
  "read_complete m u s =
     (let s1 = (if m \<noteq> None \<or> tr_completed s u = None then s\<lparr>tr_completed := (tr_completed s)(u \<mapsto> m)\<rparr> else s)
      in case tr_keys s u of
           None \<Rightarrow> s1
         | Some key \<Rightarrow> if m \<noteq> None \<or> tr_models s key = None then s1\<lparr>tr_models := (tr_models s)(key \<mapsto> m)\<rparr> else s1)"

text \<open>The records that count: issued and completed samples of an expected turn.\<close>

definition relevant_key :: "(string \<times> int) set \<Rightarrow> event_record \<Rightarrow> turn_key option" where
  "relevant_key ex r =
     (if ev_type r = SampleEv ISSUED \<or> ev_type r = SampleEv COMPLETE
      then (case turn_key_of r of Some (c, k, n) \<Rightarrow> if (c, n) \<in> ex then Some (c, k, n) else None | None \<Rightarrow> None)
      else None)"

definition read_record :: "(string \<times> int) set \<Rightarrow> turns_read \<Rightarrow> event_record \<Rightarrow> turns_read" where
  "read_record ex s r = (case relevant_key ex r of
       None \<Rightarrow> s
     | Some key \<Rightarrow> if ev_type r = SampleEv ISSUED then read_issued key (ev_uuid r) s
                   else read_complete (model_message (ev_data r)) (ev_uuid r) s)"

definition no_turns_read :: turns_read where
  "no_turns_read = \<lparr>tr_keys = Map.empty, tr_completed = Map.empty, tr_issued = {}, tr_models = Map.empty\<rparr>"

definition issued_and_completed :: "(string \<times> int) set \<Rightarrow> event_record list \<Rightarrow> turns_read" where
  "issued_and_completed ex evs = foldl (read_record ex) no_turns_read evs"

section \<open>Intents and actions\<close>

definition ground_truth_intents :: "pydict \<Rightarrow> string set" where
  "ground_truth_intents turn = (case seq_elems (dget turn ''intent_codes'') of
       None \<Rightarrow> {}
     | Some codes \<Rightarrow>
         set (map (map upper_char) (List.map_filter (\<lambda>v. case v of PStr s \<Rightarrow> if s \<noteq> [] then Some s else None | _ \<Rightarrow> None) codes)))"

text \<open>The text of a field, empty when it is missing or no text.\<close>

definition field_text :: "pydict \<Rightarrow> string \<Rightarrow> string" where
  "field_text turn f = (case dget turn f of PStr s \<Rightarrow> s | _ \<Rightarrow> [])"

definition first_some :: "'a option list \<Rightarrow> 'a option" where
  "first_some xs = (case dropWhile (\<lambda>x. x = None) xs of [] \<Rightarrow> None | x # _ \<Rightarrow> x)"

definition model_intent :: "pydict \<Rightarrow> string option" where
  "model_intent turn = first_some
     (map (\<lambda>f. map_option (\<lambda>m. map upper_char (the (re_group m 1))) (re_search INTENT_RE None (field_text turn f)))
        [''reasoning_content'', ''content'']
      @ map (\<lambda>f. case find_iter BARE_INTENT_RE (field_text turn f) of
               [] \<Rightarrow> None | m # ms \<Rightarrow> Some (CHR ''I'' # the (re_group (last (m # ms)) 1)))
        [''reasoning_content'', ''content''])"

fun drop_wrappers :: "string list \<Rightarrow> string list" where
  "drop_wrappers [] = []"
| "drop_wrappers (t # ts) =
     (if rx_match_at ENV_ASSIGNMENT_RE None t \<noteq> None \<or> t \<in> set SHELL_WRAPPERS then drop_wrappers ts else t # ts)"

definition stage_action :: "string \<Rightarrow> string option" where
  "stage_action stage = (case drop_wrappers (words stage) of
       [] \<Rightarrow> None
     | t # _ \<Rightarrow>
         (let executable = map lower_char (last (split_all (CHR ''/'') t))
          in map_of EXECUTABLE_ALIASES (re_sub PY_VERSION_SUFFIX_RE (\<lambda>_. []) executable)))"

definition command_actions :: "string \<Rightarrow> string list" where
  "command_actions command =
     List.map_filter stage_action (re_split COMMAND_SEPARATOR_RE (re_sub QUOTED_RE (\<lambda>_. '' '') command))"

definition call_command :: "(string \<Rightarrow> pyval option) \<Rightarrow> pyval \<Rightarrow> string option" where
  "call_command loads call = (case call of
       PDict d \<Rightarrow>
         (case dget d ''function'' of
            PDict fn \<Rightarrow>
              if dget fn ''name'' \<noteq> PStr ''bash'' then None
              else (case (case dget fn ''arguments'' of PStr s \<Rightarrow> loads s | v \<Rightarrow> Some v) of
                      Some (PDict args) \<Rightarrow>
                        (case (if truthy (dget args ''command'') then dget args ''command'' else dget args ''cmd'') of
                           PStr c \<Rightarrow> Some c | _ \<Rightarrow> None)
                    | _ \<Rightarrow> None)
          | _ \<Rightarrow> None)
     | _ \<Rightarrow> None)"

definition bash_actions :: "(string \<Rightarrow> pyval option) \<Rightarrow> pydict \<Rightarrow> string list" where
  "bash_actions loads turn = (case seq_elems (dget turn ''tool_calls'') of
       None \<Rightarrow> []
     | Some calls \<Rightarrow> concat (map (\<lambda>c. case call_command loads c of None \<Rightarrow> [] | Some s \<Rightarrow> command_actions s) calls))"

section \<open>The score\<close>

definition has_ground_truth :: "(string \<Rightarrow> pyval option) \<Rightarrow> string \<Rightarrow> pydict \<Rightarrow> bool" where
  "has_ground_truth loads conv gt =
     (if is_workflow conv then ground_truth_intents gt \<noteq> {} else bash_actions loads gt \<noteq> [])"

definition scorable :: "(string \<Rightarrow> pyval option) \<Rightarrow> expected \<Rightarrow> expected" where
  "scorable loads ex = filter (\<lambda>((c, n), gt). has_ground_truth loads c gt) ex"

definition turn_score :: "(string \<Rightarrow> pyval option) \<Rightarrow> string \<Rightarrow> pydict \<Rightarrow> pydict option \<Rightarrow> rat" where
  "turn_score loads conv gt answer =
     (let model = (case answer of None \<Rightarrow> [(''role'', PStr ''assistant'')] | Some m \<Rightarrow> m)
      in if is_workflow conv
         then (case model_intent model of None \<Rightarrow> 0 | Some i \<Rightarrow> if i \<in> ground_truth_intents gt then 1 else 0)
         else (let g = mset (bash_actions loads gt); m = mset (bash_actions loads model)
               in of_nat (size (g \<inter># m)) / of_nat (size (g \<union># m))))"

text \<open>\<open>round(x, 4)\<close>.\<close>

definition round4 :: "rat \<Rightarrow> rat" where
  "round4 x =
     (let y = x * 10000; f = \<lfloor>y\<rfloor>; d = y - of_int f
      in of_int (if d < 1 / 2 then f else if d > 1 / 2 then f + 1 else if even f then f else f + 1) / 10000)"

record inline_result =
  ir_score :: "rat option"
  ir_issued :: nat
  ir_expected :: nat
  ir_observed :: nat
  ir_missing :: nat
  ir_scored :: nat
  ir_domains :: "(string \<times> rat \<times> nat) list"
  ir_per_turn :: "(turn_key \<times> rat) list"
  ir_excluded :: "(string \<times> int) list"
  ir_repeats :: nat

definition domain_summary :: "(turn_key \<times> rat) list \<Rightarrow> string \<Rightarrow> bool \<Rightarrow> (string \<times> rat \<times> nat) list" where
  "domain_summary rows name workflow =
     (let xs = filter (\<lambda>((c, k, n), x). is_workflow c = workflow) rows
      in if xs = [] then [] else [(name, round4 (sum_list (map snd xs) / of_nat (length xs)), length xs)])"

definition turn_answer :: "turns_read \<Rightarrow> turn_key \<Rightarrow> pydict option" where
  "turn_answer s key = (case tr_models s key of Some (Some m) \<Rightarrow> Some m | _ \<Rightarrow> None)"

definition inline_result_of :: "(string \<Rightarrow> pyval option) \<Rightarrow> expected \<Rightarrow> turns_read \<Rightarrow> inline_result" where
  "inline_result_of loads ex s =
     (let good = scorable loads ex;
          keys = sorted_list_of_set {(c, k, n) \<in> tr_issued s. (c, n) \<in> fst ` set good};
          rows = map (\<lambda>(c, k, n). ((c, k, n), turn_score loads c (the (map_of good (c, n))) (turn_answer s (c, k, n)))) keys;
          observed = filter (\<lambda>key. turn_answer s key \<noteq> None) keys;
          total = sum_list (map snd rows)
      in \<lparr>ir_score = (if rows = [] then None else Some (round4 (total / of_nat (length rows)))),
          ir_issued = card (tr_issued s), ir_expected = length keys, ir_observed = length observed,
          ir_missing = length keys - length observed, ir_scored = length rows,
          ir_domains = domain_summary rows ''coding'' False @ domain_summary rows ''workflow'' True,
          ir_per_turn = map (\<lambda>(key, x). (key, round4 x)) rows,
          ir_excluded = sort (map fst (filter (\<lambda>((c, n), gt). \<not> has_ground_truth loads c gt) ex)),
          ir_repeats = card ((\<lambda>(c, k, n). k) ` tr_issued s)\<rparr>)"

definition inline_score ::
    "(string \<Rightarrow> pyval option) \<Rightarrow> (pyval \<Rightarrow> string) \<Rightarrow> pydict list \<Rightarrow> event_record list \<Rightarrow> inline_result result" where
  "inline_score loads show frame evs =
     map_sum id (\<lambda>ex. inline_result_of loads ex (issued_and_completed (fst ` set ex) evs)) (expected_assistant_turns show frame)"

end
