(* ===== verification/InlineScorerFacts.thy ===== *)
theory InlineScorerFacts
  imports InlineScorer
begin

text \<open>The inline score is the mean over the issued turns, each judged by the last message it was answered with.\<close>

section \<open>Reading the log\<close>

definition issued_pair :: "(string \<times> int) set \<Rightarrow> event_record \<Rightarrow> (turn_key \<times> string) option" where
  "issued_pair ex r =
     (if ev_type r = SampleEv ISSUED then map_option (\<lambda>key. (key, ev_uuid r)) (relevant_key ex r) else None)"

definition relevant_issues :: "(string \<times> int) set \<Rightarrow> event_record list \<Rightarrow> (turn_key \<times> string) list" where
  "relevant_issues ex evs = List.map_filter (issued_pair ex) evs"

definition answer_of :: "(string \<times> int) set \<Rightarrow> string \<Rightarrow> event_record \<Rightarrow> pydict option option" where
  "answer_of ex u r =
     (if ev_type r \<noteq> SampleEv ISSUED \<and> relevant_key ex r \<noteq> None \<and> ev_uuid r = u then Some (model_message (ev_data r)) else None)"

definition answers :: "(string \<times> int) set \<Rightarrow> event_record list \<Rightarrow> string \<Rightarrow> pydict option list" where
  "answers ex evs u = List.map_filter (answer_of ex u) evs"

text \<open>The last message, or the information that there was none.\<close>

definition best :: "'a option list \<Rightarrow> 'a option option" where
  "best ms = (if ms = [] then None
     else (case filter (\<lambda>m. m \<noteq> None) ms of [] \<Rightarrow> Some None | x # xs \<Rightarrow> Some (last (x # xs))))"

lemma best_snoc: "best (ms @ [m]) = (if m \<noteq> None \<or> best ms = None then Some m else best ms)"
  by (auto simp: best_def split: list.splits)

lemma map_filter_snoc: "List.map_filter f (xs @ [x]) = List.map_filter f xs @ (case f x of None \<Rightarrow> [] | Some y \<Rightarrow> [y])"
  by (simp add: List.map_filter_def split: option.split)

definition read_inv :: "(string \<times> int) set \<Rightarrow> event_record list \<Rightarrow> turns_read \<Rightarrow> bool" where
  "read_inv ex evs s =
     ((\<forall>u. tr_completed s u = best (answers ex evs u))
      \<and> (\<forall>u key. tr_keys s u = Some key \<longleftrightarrow> (key, u) \<in> set (relevant_issues ex evs))
      \<and> tr_issued s = fst ` set (relevant_issues ex evs)
      \<and> (\<forall>key u. (key, u) \<in> set (relevant_issues ex evs) \<longrightarrow> tr_models s key = best (answers ex evs u))
      \<and> (\<forall>key. key \<notin> fst ` set (relevant_issues ex evs) \<longrightarrow> tr_models s key = None))"

definition issued_once :: "(string \<times> int) set \<Rightarrow> event_record list \<Rightarrow> bool" where
  "issued_once ex evs =
     (distinct (map fst (relevant_issues ex evs)) \<and> distinct (map snd (relevant_issues ex evs)))"

lemma read_step:
  assumes inv: "read_inv ex evs s" and once: "issued_once ex (evs @ [r])"
  shows "read_inv ex (evs @ [r]) (read_record ex s r)"
proof -
  let ?I = "relevant_issues ex evs"
  have I: "relevant_issues ex (evs @ [r]) = ?I @ (case issued_pair ex r of None \<Rightarrow> [] | Some y \<Rightarrow> [y])"
    by (simp add: relevant_issues_def map_filter_snoc)
  have A: "answers ex (evs @ [r]) u = answers ex evs u @ (case answer_of ex u r of None \<Rightarrow> [] | Some y \<Rightarrow> [y])" for u
    by (simp add: answers_def map_filter_snoc)
  note i = inv [unfolded read_inv_def]
  show ?thesis
  proof (cases "relevant_key ex r")
    case None
    then have "issued_pair ex r = None" "answer_of ex u r = None" for u by (simp_all add: issued_pair_def answer_of_def)
    then show ?thesis using inv None by (simp add: read_inv_def I A read_record_def)
  next
    case (Some key)
    show ?thesis
    proof (cases "ev_type r = SampleEv ISSUED")
      case True
      let ?u = "ev_uuid r"
      have ip: "issued_pair ex r = Some (key, ?u)" using Some True by (simp add: issued_pair_def)
      have ans: "answers ex (evs @ [r]) u = answers ex evs u" for u using True by (simp add: A answer_of_def)
      have new: "key \<notin> fst ` set ?I" "?u \<notin> snd ` set ?I"
        using once by (auto simp: issued_once_def I ip)
      have st: "read_record ex s r = read_issued key ?u s" using Some True by (simp add: read_record_def)
      have k: "tr_keys (read_issued key ?u s) = (tr_keys s)(?u \<mapsto> key)" "tr_issued (read_issued key ?u s) = insert key (tr_issued s)"
        "tr_completed (read_issued key ?u s) = tr_completed s"
        "tr_models (read_issued key ?u s) = (case tr_completed s ?u of None \<Rightarrow> tr_models s | Some m \<Rightarrow> (tr_models s)(key \<mapsto> m))"
        by (auto simp: read_issued_def Let_def split: option.split)
      have old: "tr_models s key = None" using i new(1) by blast
      have m: "tr_models (read_issued key ?u s) = (\<lambda>x. if x = key then best (answers ex evs ?u) else tr_models s x)"
        unfolding k(4) using i old by (auto split: option.split)
      have "tr_keys (read_issued key ?u s) u = Some x \<longleftrightarrow> (x, u) \<in> set (?I @ [(key, ?u)])" for u x
        unfolding k(1) using i new(2) by (cases "u = ?u") (auto simp: image_iff simp del: split_paired_All)
      moreover have "tr_issued (read_issued key ?u s) = fst ` set (?I @ [(key, ?u)])" unfolding k(2) using i by simp
      moreover have "tr_models (read_issued key ?u s) x = best (answers ex evs v)" if "(x, v) \<in> set (?I @ [(key, ?u)])" for x v
        unfolding m using i new(1) that by (cases "x = key") (auto simp: rev_image_eqI simp del: split_paired_All)
      moreover have "tr_models (read_issued key ?u s) x = None" if "x \<notin> fst ` set (?I @ [(key, ?u)])" for x
        unfolding m using i that by (auto simp del: split_paired_All)
      moreover have "tr_completed (read_issued key ?u s) u = best (answers ex evs u)" for u unfolding k(3) using i by blast
      ultimately show ?thesis unfolding st read_inv_def I ip ans option.case by blast
    next
      case False
      let ?u = "ev_uuid r" and ?m = "model_message (ev_data r)"
      have ip: "issued_pair ex r = None" using False by (simp add: issued_pair_def)
      have ans: "answers ex (evs @ [r]) u = (if u = ?u then answers ex evs u @ [?m] else answers ex evs u)" for u
        using False Some by (simp add: A answer_of_def)
      have st: "read_record ex s r = read_complete ?m ?u s" using Some False by (simp add: read_record_def)
      have k: "tr_keys (read_complete ?m ?u s) = tr_keys s" "tr_issued (read_complete ?m ?u s) = tr_issued s"
        "tr_completed (read_complete ?m ?u s) = (if ?m \<noteq> None \<or> tr_completed s ?u = None then (tr_completed s)(?u \<mapsto> ?m) else tr_completed s)"
        "tr_models (read_complete ?m ?u s) = (case tr_keys s ?u of None \<Rightarrow> tr_models s
           | Some key \<Rightarrow> if ?m \<noteq> None \<or> tr_models s key = None then (tr_models s)(key \<mapsto> ?m) else tr_models s)"
        by (cases ?m; cases "tr_keys s ?u"; cases "tr_completed s ?u"; simp add: read_complete_def Let_def)+
      have c: "tr_completed (read_complete ?m ?u s) u = best (answers ex (evs @ [r]) u)" for u
        unfolding k(3) ans using i by (simp add: best_snoc)
      have d: "inj_on snd (set ?I)" "inj_on fst (set ?I)"
        using once by (auto simp: issued_once_def I ip distinct_map)
      have inj: "x = y" if "(x, ?u) \<in> set ?I" "(y, ?u) \<in> set ?I" for x y
        using inj_onD [OF d(1) _ that] by simp
      have inj': "v = w" if "(x, v) \<in> set ?I" "(x, w) \<in> set ?I" for x v w
        using inj_onD [OF d(2) _ that] by simp
      have m: "tr_models (read_complete ?m ?u s) x = best (answers ex (evs @ [r]) v)" if "(x, v) \<in> set ?I" for x v
      proof (cases "v = ?u")
        case True
        then have "tr_keys s ?u = Some x" "tr_models s x = best (answers ex evs ?u)"
          using i that by (simp_all del: split_paired_All)
        then show ?thesis unfolding k(4) ans using True by (simp add: best_snoc)
      next
        case v: False
        have "tr_models (read_complete ?m ?u s) x = tr_models s x"
        proof -
          have "tr_keys s ?u \<noteq> Some x" using i inj' [of x v ?u] that v by blast
          then show ?thesis unfolding k(4) by (auto split: option.split)
        qed
        moreover have "tr_models s x = best (answers ex evs v)" using i that by blast
        ultimately show ?thesis using v by (simp add: ans)
      qed
      have n: "tr_models (read_complete ?m ?u s) x = None" if "x \<notin> fst ` set ?I" for x
      proof -
        have "tr_models s x = None" using i that by blast
        moreover have "tr_keys s ?u \<noteq> Some x"
        proof
          assume "tr_keys s ?u = Some x"
          then have "(x, ?u) \<in> set ?I" using i by blast
          then show False using that by (simp add: rev_image_eqI)
        qed
        ultimately show ?thesis unfolding k(4) by (auto split: option.split)
      qed
      show ?thesis unfolding st read_inv_def I ip option.case append_Nil2
        using i c m n unfolding k(1,2) by blast
    qed
  qed
qed

lemma issued_once_prefix: "issued_once ex (evs @ [r]) \<Longrightarrow> issued_once ex evs"
  by (auto simp: issued_once_def relevant_issues_def map_filter_snoc)

lemma read_inv_run: "issued_once ex evs \<Longrightarrow> read_inv ex evs (issued_and_completed ex evs)"
proof (induction evs rule: rev_induct)
  case Nil
  then show ?case
    by (simp add: read_inv_def issued_and_completed_def no_turns_read_def answers_def relevant_issues_def List.map_filter_simps best_def)
next
  case (snoc r evs)
  then show ?case using read_step [of ex evs _ r] issued_once_prefix by (simp add: issued_and_completed_def)
qed

section \<open>Bounds\<close>

lemma turn_score_bounds: "0 \<le> turn_score loads c gt a \<and> turn_score loads c gt a \<le> 1"
proof -
  have "size (g \<inter># m) \<le> size (g \<union># m)" for g m :: "string multiset"
    by (rule size_mset_mono) (auto simp: subseteq_mset_def le_max_iff_disj)
  then show ?thesis
    by (auto simp: turn_score_def Let_def divide_le_eq_1 split: option.split)
qed

lemma round4_bounds: "0 \<le> x \<Longrightarrow> x \<le> 1 \<Longrightarrow> 0 \<le> round4 x \<and> round4 x \<le> 1"
proof -
  assume x: "0 \<le> x" "x \<le> 1"
  let ?y = "x * 10000"
  have f: "0 \<le> \<lfloor>?y\<rfloor>" "\<lfloor>?y\<rfloor> \<le> 10000" using x by (simp_all add: floor_le_iff)
  have "\<lfloor>?y\<rfloor> + 1 \<le> 10000" if "?y - of_int \<lfloor>?y\<rfloor> > 0"
  proof -
    have "of_int \<lfloor>?y\<rfloor> < (10000 :: rat)" using that x by linarith
    then show ?thesis by linarith
  qed
  then show ?thesis using f unfolding round4_def Let_def by (auto simp: divide_le_eq)
qed

lemma mean_bounds:
  assumes "\<forall>x\<in>set xs. 0 \<le> f x \<and> f x \<le> (1 :: rat)" "xs \<noteq> []"
  shows "0 \<le> sum_list (map f xs) / of_nat (length xs) \<and> sum_list (map f xs) / of_nat (length xs) \<le> 1"
proof -
  have "0 \<le> sum_list (map f xs) \<and> sum_list (map f xs) \<le> of_nat (length xs)" using assms(1) by (induction xs) force+
  then show ?thesis using assms(2) by (simp add: divide_le_eq)
qed

section \<open>The score\<close>

text \<open>The issued turns that have a ground truth, and what each is worth.\<close>

definition scored_issues :: "(string \<Rightarrow> pyval option) \<Rightarrow> expected \<Rightarrow> event_record list \<Rightarrow> (turn_key \<times> string) list" where
  "scored_issues loads ex evs =
     filter (\<lambda>((c, k, n), u). (c, n) \<in> fst ` set (scorable loads ex)) (relevant_issues (fst ` set ex) evs)"

definition issue_worth :: "(string \<Rightarrow> pyval option) \<Rightarrow> expected \<Rightarrow> event_record list \<Rightarrow> turn_key \<times> string \<Rightarrow> rat" where
  "issue_worth loads ex evs i = (case i of ((c, k, n), u) \<Rightarrow>
     turn_score loads c (the (map_of (scorable loads ex) (c, n)))
       (case best (answers (fst ` set ex) evs u) of Some (Some m) \<Rightarrow> Some m | _ \<Rightarrow> None))"

lemma sum_over_keys:
  assumes "distinct (map fst xs)" "\<And>key u. (key, u) \<in> set xs \<Longrightarrow> f key = g (key, u)"
  shows "sum_list (map f (sorted_list_of_set (fst ` set xs))) = (sum_list (map g xs) :: rat)"
    and "length (sorted_list_of_set (fst ` set xs)) = length xs"
proof -
  have d: "distinct xs" "inj_on fst (set xs)" using assms(1) by (simp_all add: distinct_map)
  have "sum_list (map f (sorted_list_of_set (fst ` set xs))) = sum f (fst ` set xs)"
    by (simp add: sum_list_distinct_conv_sum_set)
  also have "\<dots> = sum g (set xs)" using assms(2) by (subst sum.reindex [OF d(2)]) (auto intro!: sum.cong)
  also have "\<dots> = sum_list (map g xs)" using d(1) by (simp add: sum_list_distinct_conv_sum_set)
  finally show "sum_list (map f (sorted_list_of_set (fst ` set xs))) = sum_list (map g xs)" .
  show "length (sorted_list_of_set (fst ` set xs)) = length xs" using d by (simp add: card_image distinct_card)
qed

lemma scored_keys:
  assumes "tr_issued s = fst ` set (relevant_issues (fst ` set ex) evs)"
  shows "{(c, k, n) \<in> tr_issued s. (c, n) \<in> fst ` set (scorable loads ex)} = fst ` set (scored_issues loads ex evs)"
  unfolding assms scored_issues_def by force

text \<open>C36. When every sample and every turn of a repeat is issued once, the inline score is the mean over all issued
  turns with a ground truth: a turn is worth what the last message it was answered with is worth, wherever in
  the log that stands, and nothing without a message.  The missing and the observed turns make up the expected
  ones, and the score lies between 0 and 1.\<close>

theorem inline_score_is_the_mean_over_issued_turns:
  assumes "inline_score loads show frame evs = Inr r" and "expected_assistant_turns show frame = Inr ex"
    and "issued_once (fst ` set ex) evs" and "xs = scored_issues loads ex evs"
  shows "ir_score r = (if xs = [] then None else Some (round4 (sum_list (map (issue_worth loads ex evs) xs) / of_nat (length xs))))
    \<and> ir_scored r = length xs \<and> ir_expected r = length xs \<and> ir_observed r + ir_missing r = ir_expected r
    \<and> (case ir_score r of None \<Rightarrow> True | Some x \<Rightarrow> 0 \<le> x \<and> x \<le> 1)"
proof -
  define s where "s = issued_and_completed (fst ` set ex) evs"
  define keys where "keys = sorted_list_of_set (fst ` set xs)"
  define f where "f = (\<lambda>(c, k, n). turn_score loads c (the (map_of (scorable loads ex) (c, n))) (turn_answer s (c, k, n)))"
  have inv: "read_inv (fst ` set ex) evs s" unfolding s_def by (rule read_inv_run [OF assms(3)])
  have r: "r = inline_result_of loads ex s" using assms(1,2) by (simp add: inline_score_def s_def)
  have issued: "tr_issued s = fst ` set (relevant_issues (fst ` set ex) evs)" using inv by (simp add: read_inv_def)
  have k: "{(c, k, n) \<in> tr_issued s. (c, n) \<in> fst ` set (scorable loads ex)} = fst ` set xs"
    unfolding assms(4) by (rule scored_keys [OF issued])
  have sub: "set xs \<subseteq> set (relevant_issues (fst ` set ex) evs)" by (auto simp: assms(4) scored_issues_def)
  have dist: "distinct (map fst xs)"
    using assms(3) unfolding assms(4) scored_issues_def issued_once_def by (simp add: distinct_map_filter)
  have fg: "f key = issue_worth loads ex evs (key, u)" if "(key, u) \<in> set xs" for key u
  proof -
    have "tr_models s key = best (answers (fst ` set ex) evs u)" using inv sub that unfolding read_inv_def by blast
    then show ?thesis by (cases key) (simp add: f_def issue_worth_def turn_answer_def)
  qed
  note S = sum_over_keys [of xs f "issue_worth loads ex evs", OF dist fg, folded keys_def]
  have rows: "map (\<lambda>(c, k, n). ((c, k, n), turn_score loads c (the (map_of (scorable loads ex) (c, n))) (turn_answer s (c, k, n)))) keys
      = map (\<lambda>key. (key, f key)) keys"
    by (simp add: f_def case_prod_unfold)
  have fields: "ir_score r = (if keys = [] then None else Some (round4 (sum_list (map f keys) / of_nat (length keys))))"
    "ir_scored r = length keys" "ir_expected r = length keys" "ir_observed r = length (filter (\<lambda>key. turn_answer s key \<noteq> None) keys)"
    "ir_missing r = length keys - length (filter (\<lambda>key. turn_answer s key \<noteq> None) keys)"
    unfolding r inline_result_of_def Let_def k keys_def [symmetric] rows by (simp_all add: comp_def)
  have empty: "keys = [] \<longleftrightarrow> xs = []" using S(2) by (metis length_0_conv)
  have bound: "0 \<le> sum_list (map f keys) / of_nat (length keys) \<and> sum_list (map f keys) / of_nat (length keys) \<le> 1" if "keys \<noteq> []"
    by (rule mean_bounds [OF _ that]) (simp add: f_def turn_score_bounds case_prod_unfold)
  have "ir_observed r + ir_missing r = length keys"
    unfolding fields(4,5) using length_filter_le [of "\<lambda>key. turn_answer s key \<noteq> None" keys] by simp
  then show ?thesis using fields(1-3) S empty bound round4_bounds by auto
qed

section \<open>An example\<close>

definition example_frame :: "pydict list" where
  "example_frame =
     [[(''conversation_id'', PStr ''sim_1''), (''turn'', PInt 1), (''role'', PStr ''user''), (''content'', PStr ''hi'')],
      [(''conversation_id'', PStr ''sim_1''), (''turn'', PInt 2), (''role'', PStr ''assistant''),
       (''intent_codes'', PList [PStr ''i042''])]]"

definition example_events :: "event_record list" where
  "example_events =
     [mk_sample_event (SampleEv ISSUED) 1 ''u1'' ''sim_1'' (Some 1) NoData,
      mk_sample_event (SampleEv COMPLETE) 2 ''u1'' ''sim_1'' (Some 1)
        (OutputData \<lparr>to_output = Whole ''intent: I042'', to_reasoning = None, to_tool_calls = None\<rparr>),
      mk_sample_event (SampleEv ISSUED) 3 ''u2'' ''sim_1__repeat_2'' (Some 1) NoData]"

definition example_expected :: expected where
  "example_expected = [((''sim_1'', 1), [(''conversation_id'', PStr ''sim_1''), (''turn'', PInt 2), (''role'', PStr ''assistant''),
       (''intent_codes'', PList [PStr ''i042'']), (''_assistant_turn'', PInt 2)])]"

lemma example_turns: "expected_assistant_turns (\<lambda>_. []) example_frame = Inr example_expected"
  by code_simp

lemma example_issues: "relevant_issues (fst ` set example_expected) example_events = [((''sim_1'', 1, 1), ''u1''), ((''sim_1'', 2, 1), ''u2'')]"
  by code_simp

lemma example_scored: "scored_issues (\<lambda>_. None) example_expected example_events = [((''sim_1'', 1, 1), ''u1''), ((''sim_1'', 2, 1), ''u2'')]"
  by code_simp

lemma example_worth:
  "map (issue_worth (\<lambda>_. None) example_expected example_events) [((''sim_1'', 1, 1), ''u1''), ((''sim_1'', 2, 1), ''u2'')] = [1, 0]"
  by code_simp

theorem inline_score_is_the_mean_over_issued_turns_witness:
  "\<exists>r. inline_score (\<lambda>_. None) (\<lambda>_. []) example_frame example_events = Inr r \<and> ir_score r = Some (1 / 2) \<and> ir_expected r = 2"
proof -
  obtain r where r: "inline_score (\<lambda>_. None) (\<lambda>_. []) example_frame example_events = Inr r"
    by (simp add: inline_score_def example_turns)
  have once: "issued_once (fst ` set example_expected) example_events" by (simp add: issued_once_def example_issues)
  have half: "round4 (1 / 2) = 1 / 2" by code_simp
  from inline_score_is_the_mean_over_issued_turns [OF r example_turns once refl] show ?thesis
    using r half unfolding example_scored example_worth by simp
qed

end
