(* ===== verification/Transforms.thy ===== *)
theory Transforms
  imports PyValues PyText
begin

text \<open>
  \<open>dataset_manager/transforms.py\<close>: the transforms a dataset passes through on its way to an adapter, and the
  fusion of consecutive row processors.  A data frame is its column names and its rows, each row the list of
  its cells by column (a name may occur twice, as pandas allows after a rename).  The frame operations are
  pandas' and so a parameter, the record \<open>pandas\<close>; the laws stated of it are its documented behaviour on the
  frames concerned, and the conversion of cells between numeric types is not modelled.  The prompt tokenizer and
  the formatting of a value by a conversion or format specification are parameters too.
\<close>

text \<open>A function applied to a list until it raises.\<close>

fun map_result :: "('a \<Rightarrow> 'b result) \<Rightarrow> 'a list \<Rightarrow> 'b list result" where
  "map_result f [] = Inr []"
| "map_result f (x # xs) =
     (case f x of Inl e \<Rightarrow> Inl e | Inr y \<Rightarrow> map_sum id (\<lambda>ys. y # ys) (map_result f xs))"

section \<open>Data frames\<close>

record frame =
  fr_columns :: "string list"
  fr_rows :: "pydict list"

definition frame_wf :: "frame \<Rightarrow> bool" where
  "frame_wf df = list_all (\<lambda>row. map fst row = fr_columns df) (fr_rows df)"

text \<open>
  The operations: \<open>df.apply(f, axis=1, result_type='expand')\<close>, \<open>df[columns]\<close>, \<open>df.rename(columns=...)\<close>,
  \<open>df[key] = value\<close> and \<open>df[key] = df[key].where(notna(df[key]), value)\<close>.
\<close>

record pandas =
  pd_apply :: "(pydict \<Rightarrow> pydict result) \<Rightarrow> frame \<Rightarrow> frame result"
  pd_select :: "string list \<Rightarrow> frame \<Rightarrow> frame result"
  pd_rename :: "(string \<times> string) list \<Rightarrow> frame \<Rightarrow> frame"
  pd_assign :: "string \<Rightarrow> pyval \<Rightarrow> frame \<Rightarrow> frame result"
  pd_fill :: "string \<Rightarrow> pyval \<Rightarrow> frame \<Rightarrow> frame result"

section \<open>Transforms\<close>

datatype remap_source = Explicit string | Candidates "string list"

datatype transform =
    UserPromptFormatter string string
  | AddStaticColumns pydict bool
  | Harmonize string string "string option"
  | ColumnFilter "string list" "string list option"
  | ColumnRemap "(remap_source \<times> string) list" bool
  | FusedRowProcessor "transform list"

record text_tools =
  tt_render :: "string \<Rightarrow> pyval \<Rightarrow> string result"
  tt_harmonize :: "pyval \<Rightarrow> pyval result"
  tt_to_text :: "pyval \<Rightarrow> pyval result"
  tt_set_order :: "string list \<Rightarrow> string list"

section \<open>Formatting a prompt\<close>

text \<open>
  \<open>str.format\<close> with keyword arguments: doubled braces are literal; a field is a name and what follows it up
  to the closing brace (attribute, index, conversion, specification), which \<open>tt_render\<close> applies to the
  value.  A field without a name asks for a positional argument, and there is none.
\<close>

definition open_brace :: char where "open_brace = char_of (123 :: nat)"
definition close_brace :: char where "close_brace = char_of (125 :: nat)"

fun format_pieces :: "nat \<Rightarrow> string \<Rightarrow> (string + string) list result" where
  "format_pieces _ [] = Inr []"
| "format_pieces 0 (_ # _) = Inr []"
| "format_pieces (Suc n) (c # s) =
     (if c = open_brace then
        (case s of
           [] \<Rightarrow> Inl ValueError
         | d # s' \<Rightarrow>
             if d = open_brace then map_sum id (\<lambda>ps. Inl [open_brace] # ps) (format_pieces n s')
             else (case split_at close_brace s of
                     (_, None) \<Rightarrow> Inl ValueError
                   | (field, Some rest) \<Rightarrow> map_sum id (\<lambda>ps. Inr field # ps) (format_pieces n rest)))
      else if c = close_brace then
        (case s of
           d # s' \<Rightarrow> if d = close_brace then map_sum id (\<lambda>ps. Inl [close_brace] # ps) (format_pieces n s') else Inl ValueError
         | [] \<Rightarrow> Inl ValueError)
      else map_sum id (\<lambda>ps. Inl [c] # ps) (format_pieces n s))"

definition field_name :: "string \<Rightarrow> string" where
  "field_name field = takeWhile (\<lambda>c. c \<notin> set ''.[!:'') field"

definition format_field :: "text_tools \<Rightarrow> pydict \<Rightarrow> string \<Rightarrow> string result" where
  "format_field tt row field =
     (let name = field_name field
      in if name = [] \<or> list_all is_digit name then Inl IndexError
         else (case map_of row name of
                 None \<Rightarrow> Inl KeyError
               | Some v \<Rightarrow> tt_render tt (drop (length name) field) v))"

fun format_row_pieces :: "text_tools \<Rightarrow> pydict \<Rightarrow> (string + string) list \<Rightarrow> string result" where
  "format_row_pieces tt row [] = Inr []"
| "format_row_pieces tt row (Inl lit # ps) = map_sum id (\<lambda>t. lit @ t) (format_row_pieces tt row ps)"
| "format_row_pieces tt row (Inr field # ps) =
     (case format_field tt row field of
        Inl e \<Rightarrow> Inl e
      | Inr t \<Rightarrow> map_sum id (\<lambda>u. t @ u) (format_row_pieces tt row ps))"

definition str_format :: "text_tools \<Rightarrow> string \<Rightarrow> pydict \<Rightarrow> string result" where
  "str_format tt fmt row =
     (case format_pieces (length fmt) fmt of
        Inl e \<Rightarrow> Inl e
      | Inr ps \<Rightarrow> format_row_pieces tt row ps)"

section \<open>Row processors\<close>

definition is_row_processor :: "transform \<Rightarrow> bool" where
  "is_row_processor t =
     (case t of UserPromptFormatter _ _ \<Rightarrow> True | Harmonize _ _ _ \<Rightarrow> True | FusedRowProcessor _ \<Rightarrow> True | _ \<Rightarrow> False)"

text \<open>\<open>Harmonize.process_row\<close>: the tokens of the prompt, and their text where a column for it is named.\<close>

definition harmonize_row :: "text_tools \<Rightarrow> string \<Rightarrow> string \<Rightarrow> string option \<Rightarrow> pydict \<Rightarrow> pydict result" where
  "harmonize_row tt prompt tokenized harmonized row =
     (case map_of row prompt of
        None \<Rightarrow> Inl KeyError
      | Some p \<Rightarrow>
          (case tt_harmonize tt p of
             Inl e \<Rightarrow> Inl e
           | Inr toks \<Rightarrow>
               (case harmonized of
                  None \<Rightarrow> Inr (AList.update tokenized toks row)
                | Some h \<Rightarrow> map_sum id (\<lambda>t. AList.update h t (AList.update tokenized toks row)) (tt_to_text tt toks))))"

fun process_row :: "text_tools \<Rightarrow> transform \<Rightarrow> pydict \<Rightarrow> pydict result"
  and process_rows :: "text_tools \<Rightarrow> transform list \<Rightarrow> pydict \<Rightarrow> pydict result" where
  "process_row tt (UserPromptFormatter fmt out) row =
     map_sum id (\<lambda>t. AList.update out (PStr t) row) (str_format tt fmt row)"
| "process_row tt (Harmonize p t h) row = harmonize_row tt p t h row"
| "process_row tt (FusedRowProcessor ps) row = process_rows tt ps row"
| "process_row tt _ row = Inl NotImplementedError"
| "process_rows tt [] row = Inr row"
| "process_rows tt (p # ps) row =
     (case process_row tt p row of Inl e \<Rightarrow> Inl e | Inr row' \<Rightarrow> process_rows tt ps row')"

section \<open>Column transforms\<close>

text \<open>\<open>AddStaticColumns\<close>: a dictionary becomes one entry per row; without \<open>overwrite\<close> only gaps are filled.\<close>

definition static_value :: "pyval \<Rightarrow> nat \<Rightarrow> pyval" where
  "static_value v n = (case v of PDict _ \<Rightarrow> PList (replicate n v) | _ \<Rightarrow> v)"

definition add_static_column :: "pandas \<Rightarrow> bool \<Rightarrow> nat \<Rightarrow> string \<times> pyval \<Rightarrow> frame \<Rightarrow> frame result" where
  "add_static_column pd overwrite n kv df =
     (let (key, v) = kv
      in if overwrite then pd_assign pd key (static_value v n) df
         else if is_none v then Inr df
         else if key \<in> set (fr_columns df) then pd_fill pd key (static_value v n) df
         else pd_assign pd key (static_value v n) df)"

fun add_static_columns :: "pandas \<Rightarrow> bool \<Rightarrow> nat \<Rightarrow> pydict \<Rightarrow> frame \<Rightarrow> frame result" where
  "add_static_columns pd ow n [] df = Inr df"
| "add_static_columns pd ow n (kv # kvs) df =
     (case add_static_column pd ow n kv df of Inl e \<Rightarrow> Inl e | Inr df' \<Rightarrow> add_static_columns pd ow n kvs df')"

text \<open>\<open>ColumnFilter\<close>: the constructor's check, and the call, which extends the object's own list of columns.\<close>

definition column_filter_init :: "string list \<Rightarrow> string list option \<Rightarrow> transform result" where
  "column_filter_init required optional =
     (if (case optional of Some opts \<Rightarrow> set required \<inter> set opts \<noteq> {} | None \<Rightarrow> False) then Inl ValueError
      else Inr (ColumnFilter required optional))"

definition columns_to_keep :: "text_tools \<Rightarrow> string list \<Rightarrow> string list option \<Rightarrow> frame \<Rightarrow> string list" where
  "columns_to_keep tt required optional df =
     (case optional of
        None \<Rightarrow> required
      | Some opts \<Rightarrow> required @ tt_set_order tt (remdups (filter (\<lambda>c. c \<in> set opts) (fr_columns df))))"

text \<open>\<open>ColumnRemap\<close>: which column is renamed to what, or the error of a strict remap.\<close>

fun first_candidate :: "bool \<Rightarrow> string list \<Rightarrow> string option \<Rightarrow> string list \<Rightarrow> string option result" where
  "first_candidate strict old found [] = Inr found"
| "first_candidate strict old found (c # cs) =
     (if c \<in> set old then
        (case found of
           None \<Rightarrow> first_candidate strict old (Some c) cs
         | Some _ \<Rightarrow> if strict then Inl ValueError else first_candidate strict old found cs)
      else first_candidate strict old found cs)"

fun new_columns :: "bool \<Rightarrow> string list \<Rightarrow> (remap_source \<times> string) list \<Rightarrow> (string \<times> string) list \<Rightarrow> (string \<times> string) list result" where
  "new_columns strict old [] cols = Inr cols"
| "new_columns strict old ((Explicit src, dst) # remap) cols =
     (if src \<in> set old then new_columns strict old remap (AList.update src dst cols)
      else if strict then Inl KeyError
      else new_columns strict old remap cols)"
| "new_columns strict old ((Candidates cs, dst) # remap) cols =
     (case first_candidate strict old None cs of
        Inl e \<Rightarrow> Inl e
      | Inr None \<Rightarrow> new_columns strict old remap cols
      | Inr (Some c) \<Rightarrow> new_columns strict old remap (AList.update c dst cols))"

definition make_adapter_compatible :: transform where
  "make_adapter_compatible = ColumnRemap
     [(Candidates [''user_prompt'', ''question'', ''input'', ''input_text'', ''problem'', ''query''], ''prompt''),
      (Candidates [''system_prompt''], ''system'')] True"

section \<open>Calling a transform\<close>

text \<open>The transform comes back with the frame: a filter with optional columns has changed.\<close>

fun call_transform :: "pandas \<Rightarrow> text_tools \<Rightarrow> transform \<Rightarrow> frame \<Rightarrow> transform \<times> frame result" where
  "call_transform pd tt (Harmonize p t h) df =
     (Harmonize p t h, if t \<in> set (fr_columns df) then Inr df else pd_apply pd (process_row tt (Harmonize p t h)) df)"
| "call_transform pd tt (AddStaticColumns d ow) df =
     (AddStaticColumns d ow, add_static_columns pd ow (length (fr_rows df)) d df)"
| "call_transform pd tt (ColumnFilter req opt) df =
     (let cols = columns_to_keep tt req opt df in (ColumnFilter cols opt, pd_select pd cols df))"
| "call_transform pd tt (ColumnRemap remap strict) df =
     (ColumnRemap remap strict, map_sum id (\<lambda>cols. pd_rename pd cols df) (new_columns strict (fr_columns df) remap []))"
| "call_transform pd tt t df = (t, pd_apply pd (process_row tt t) df)"

fun run_transforms :: "pandas \<Rightarrow> text_tools \<Rightarrow> transform list \<Rightarrow> frame \<Rightarrow> transform list \<times> frame result" where
  "run_transforms pd tt [] df = ([], Inr df)"
| "run_transforms pd tt (t # ts) df =
     (case call_transform pd tt t df of
        (t', Inl e) \<Rightarrow> (t' # ts, Inl e)
      | (t', Inr df') \<Rightarrow> (case run_transforms pd tt ts df' of (ts', r) \<Rightarrow> (t' # ts', r)))"

section \<open>Fusing row processors\<close>

definition create_fused_transform :: "transform list \<Rightarrow> transform" where
  "create_fused_transform ps = (case ps of [p] \<Rightarrow> p | _ \<Rightarrow> FusedRowProcessor ps)"

definition flush_fused :: "transform list \<Rightarrow> transform list" where
  "flush_fused acc = (if acc = [] then [] else [create_fused_transform acc])"

fun fuse :: "transform list \<Rightarrow> transform list \<Rightarrow> transform list" where
  "fuse acc [] = flush_fused acc"
| "fuse acc (t # ts) =
     (if is_row_processor t then fuse (acc @ [t]) ts else flush_fused acc @ t # fuse [] ts)"

definition apply_transforms :: "pandas \<Rightarrow> text_tools \<Rightarrow> transform list \<Rightarrow> bool \<Rightarrow> frame \<Rightarrow> transform list \<times> frame result" where
  "apply_transforms pd tt ts fuse_row_processors df =
     run_transforms pd tt (if fuse_row_processors then fuse [] ts else ts) df"

end
