(* ===== verification/Adapters.thy ===== *)
theory Adapters
  imports Transforms Datasets Accumulators BenchmarkConfig
begin

text \<open>
  From a data frame to a request body and from a response body to a result: the adapters of
  \<open>openai/openai_msgspec_adapter.py\<close>, \<open>openai/completions_adapter.py\<close>, \<open>openai/openai_adapter.py\<close>,
  \<open>sglang/adapter.py\<close> and \<open>videogen/adapter.py\<close>, the transforms each asks of a data set, \<open>Dataset.load\<close> and the
  choice of a loader in \<open>dataset_manager/factory.py\<close>.  A body is the dictionary the JSON encoder is given; the
  wire structs leave out optional fields that are \<open>None\<close>.  JSON itself, pydantic's validation, and which other
  default values msgspec recognises and leaves out, are arguments.
\<close>

section \<open>API types\<close>

datatype api_type = OPENAI | OPENAI_COMPLETIONS | SGLANG | VIDEOGEN

definition default_route :: "api_type \<Rightarrow> string" where
  "default_route a = (case a of
       OPENAI \<Rightarrow> ''v1/chat/completions'' | OPENAI_COMPLETIONS \<Rightarrow> ''v1/completions''
     | SGLANG \<Rightarrow> ''generate'' | VIDEOGEN \<Rightarrow> ''v1/videos/generations'')"

section \<open>The transforms an adapter asks for\<close>

definition knob :: "model_params \<Rightarrow> string \<Rightarrow> pyval" where
  "knob mp k = dget (mp_knobs mp) k"

definition knobs :: "model_params \<Rightarrow> string list \<Rightarrow> pydict" where
  "knobs mp ks = map (\<lambda>k. (k, knob mp k)) ks"

definition streams :: "model_params \<Rightarrow> pyval" where
  "streams mp = PBool (mp_streaming mp = StreamOn)"

definition openai_metadata :: "model_params \<Rightarrow> pydict" where
  "openai_metadata mp =
     [(''model'', PStr (mp_name mp))]
     @ knobs mp [''temperature'', ''seed'', ''top_p'', ''top_k'', ''repetition_penalty'', ''presence_penalty'',
                 ''frequency_penalty'', ''chat_template_kwargs'']
     @ (if mp_streaming mp = StreamOn then [(''stream'', PBool True)] else [])
     @ [(''max_completion_tokens'', PInt (mp_max_new_tokens mp))]"

definition openai_transforms :: "model_params \<Rightarrow> transform list" where
  "openai_transforms mp =
     [ColumnFilter [''prompt''] (Some [''system'', ''messages'', ''tools'', ''tool_choice'', ''name'', ''n'', ''stop'', ''logit_bias'',
        ''user'', ''chat_template'']),
      AddStaticColumns (openai_metadata mp) True]"

definition legacy_openai_transforms :: "model_params \<Rightarrow> transform list" where
  "legacy_openai_transforms mp =
     [ColumnFilter [''prompt''] (Some [''system'', ''tools'']),
      AddStaticColumns
        ([(''model'', PStr (mp_name mp)), (''stream'', streams mp), (''max_completion_tokens'', PInt (mp_max_new_tokens mp))]
         @ knobs mp [''temperature'', ''seed'', ''top_p'', ''top_k'', ''repetition_penalty'', ''presence_penalty'', ''frequency_penalty''])
        True]"

definition harmonize :: transform where
  "harmonize = Harmonize ''prompt'' ''input_tokens'' (Some ''harmonized_prompt'')"

definition completions_metadata :: "model_params \<Rightarrow> pydict" where
  "completions_metadata mp =
     [(''model'', PStr (mp_name mp)), (''stream'', streams mp), (''max_tokens'', PInt (mp_max_new_tokens mp)),
      (''min_tokens'', PInt (mp_min_new_tokens mp)), (''skip_special_tokens'', PBool (mp_skip_special_tokens mp))]
     @ knobs mp [''temperature'', ''top_p'', ''top_k'', ''repetition_penalty'', ''presence_penalty'', ''frequency_penalty'']"

definition completions_transforms :: "model_params \<Rightarrow> transform list" where
  "completions_transforms mp =
     [harmonize, ColumnFilter [''input_tokens''] (Some ([''n'', ''stop''] @ map fst (completions_metadata mp))),
      AddStaticColumns (completions_metadata mp) True]"

definition sglang_metadata :: "model_params \<Rightarrow> pydict" where
  "sglang_metadata mp =
     foldl (\<lambda>d (k, v). if is_none v then d else AList.update k v d)
       [(''stream'', streams mp), (''max_new_tokens'', PInt 32768), (''temperature'', PFloat (Fin 1)), (''top_p'', PFloat (Fin 1)),
        (''top_k'', PInt (- 1))]
       [(''max_new_tokens'', PInt (mp_max_new_tokens mp)), (''temperature'', knob mp ''temperature''), (''top_p'', knob mp ''top_p''),
        (''top_k'', knob mp ''top_k'')]"

definition sglang_transforms :: "model_params \<Rightarrow> transform list" where
  "sglang_transforms mp =
     [harmonize, ColumnFilter [''input_tokens''] None, AddStaticColumns (sglang_metadata mp) True]"

definition VIDEO_REQUEST_FIELDS :: "string list" where
  "VIDEO_REQUEST_FIELDS =
     [''prompt'', ''negative_prompt'', ''size'', ''seconds'', ''fps'', ''num_inference_steps'', ''guidance_scale'',
      ''guidance_scale_2'', ''seed'', ''num_frames'', ''boundary_ratio'', ''latent_path'', ''output_format'', ''response_format'']"

definition videogen_transforms :: "transform list" where
  "videogen_transforms = [ColumnFilter [''prompt''] (Some (filter (\<lambda>f. f \<noteq> ''prompt'') VIDEO_REQUEST_FIELDS))]"

definition get_transforms_for_api_type :: "api_type \<Rightarrow> model_params \<Rightarrow> transform list" where
  "get_transforms_for_api_type a mp = (case a of
       OPENAI \<Rightarrow> openai_transforms mp | OPENAI_COMPLETIONS \<Rightarrow> completions_transforms mp
     | SGLANG \<Rightarrow> sglang_transforms mp | VIDEOGEN \<Rightarrow> videogen_transforms)"

section \<open>Loading a data set\<close>

definition is_column_filter :: "transform \<Rightarrow> bool" where
  "is_column_filter t = (case t of ColumnFilter _ _ \<Rightarrow> True | _ \<Rightarrow> False)"

text \<open>A data set's own filter is the projection for its schema: the adapter's is then left out, and only that.\<close>

definition load_pipeline :: "transform list \<Rightarrow> transform list \<Rightarrow> transform list" where
  "load_pipeline own adapter_ts =
     own @ filter (\<lambda>t. \<not> (list_ex is_column_filter own \<and> is_column_filter t)) adapter_ts"

text \<open>\<open>to_dict(orient='records')\<close> keeps the last of two columns of one name.\<close>

definition to_records :: "frame \<Rightarrow> pyval list" where
  "to_records df = map (\<lambda>row. PDict (dmerge [] row)) (fr_rows df)"

definition dataset_records ::
    "pandas \<Rightarrow> text_tools \<Rightarrow> transform list \<Rightarrow> (api_type \<times> model_params) option \<Rightarrow> frame option \<Rightarrow> pyval list result" where
  "dataset_records pd tt own target frame = (case frame of
       None \<Rightarrow> Inl ValueError
     | Some df \<Rightarrow>
         (let ts = load_pipeline own (case target of Some (a, mp) \<Rightarrow> get_transforms_for_api_type a mp | None \<Rightarrow> [])
          in (case (if ts = [] then Inr df else snd (apply_transforms pd tt ts True df)) of
                Inl e \<Rightarrow> Inl e
              | Inr df' \<Rightarrow>
                  if fr_columns df' \<noteq> [] \<and> fr_rows df' = [] then Inl IndexError else Inr (to_records df'))))"

definition dataset_load ::
    "pandas \<Rightarrow> text_tools \<Rightarrow> transform list \<Rightarrow> (api_type \<times> model_params) option \<Rightarrow> frame option \<Rightarrow> bool \<Rightarrow> dataset \<Rightarrow> dataset result" where
  "dataset_load pd tt own target frame force ds =
     (if \<not> force \<and> ds_data ds \<noteq> None then Inr ds
      else map_sum id (\<lambda>xs. ds\<lparr>ds_data := Some xs\<rparr>) (dataset_records pd tt own target frame))"

section \<open>Request bodies\<close>

definition get_or :: "pydict \<Rightarrow> string \<Rightarrow> pyval \<Rightarrow> pyval" where
  "get_or d k v = (case map_of d k of Some w \<Rightarrow> w | None \<Rightarrow> v)"

text \<open>The optional fields of a wire struct, as they are copied from the sample.\<close>

definition optional_fields :: "pydict \<Rightarrow> string list \<Rightarrow> pydict" where
  "optional_fields d ks = filter (\<lambda>(k, v). \<not> is_none v) (map (\<lambda>k. (k, dget d k)) ks)"

definition chat_message_from_dict :: "pyval \<Rightarrow> pyval result" where
  "chat_message_from_dict m = (case m of
       PDict d \<Rightarrow>
         (case map_of d ''role'' of
            None \<Rightarrow> Inl KeyError
          | Some r \<Rightarrow> Inr (PDict ((''role'', r) # optional_fields d [''content'', ''name'', ''tool_calls'', ''tool_call_id'', ''reasoning_content''])))
     | _ \<Rightarrow> Inl TypeError)"

definition prompt_messages :: "pydict \<Rightarrow> pyval list result" where
  "prompt_messages d =
     (case map_of d ''prompt'' of
        None \<Rightarrow> Inl ValueError
      | Some p \<Rightarrow>
          (let user = PDict ((''role'', PStr ''user'') # filter (\<lambda>(k, v). \<not> is_none v) [(''content'', p), (''name'', dget d ''name'')])
           in Inr (case map_of d ''system'' of
                     Some s \<Rightarrow> [PDict ((''role'', PStr ''system'') # filter (\<lambda>(k, v). \<not> is_none v) [(''content'', s)]), user]
                   | None \<Rightarrow> [user])))"

definition request_messages :: "pydict \<Rightarrow> pyval list result" where
  "request_messages d = (case map_of d ''messages'' of
       Some ms \<Rightarrow> (case py_tuple ms of Inl e \<Rightarrow> Inl e | Inr xs \<Rightarrow> map_result chat_message_from_dict xs)
     | None \<Rightarrow> prompt_messages d)"

definition OPENAI_OPTIONAL_FIELDS :: "string list" where
  "OPENAI_OPTIONAL_FIELDS =
     [''temperature'', ''max_completion_tokens'', ''stream'', ''seed'', ''top_p'', ''top_k'', ''repetition_penalty'', ''n'', ''stop'',
      ''presence_penalty'', ''frequency_penalty'', ''logit_bias'', ''user'', ''chat_template'', ''chat_template_kwargs'', ''tools'',
      ''tool_choice'']"

definition openai_request :: "pydict \<Rightarrow> pydict result" where
  "openai_request d = map_sum id
     (\<lambda>ms. [(''model'', get_or d ''model'' (PStr ''no-model-name'')), (''messages'', PList ms)]
        @ optional_fields d OPENAI_OPTIONAL_FIELDS)
     (request_messages d)"

definition COMPLETION_OPTIONAL_FIELDS :: "string list" where
  "COMPLETION_OPTIONAL_FIELDS =
     [''temperature'', ''max_tokens'', ''min_tokens'', ''skip_special_tokens'', ''stream'', ''top_p'', ''top_k'', ''repetition_penalty'',
      ''n'', ''stop'', ''presence_penalty'', ''frequency_penalty'']"

definition completions_request :: "pydict \<Rightarrow> pydict result" where
  "completions_request d = (case map_of d ''input_tokens'' of
       None \<Rightarrow> Inl KeyError
     | Some toks \<Rightarrow> Inr ([(''model'', get_or d ''model'' (PStr ''no-model-name'')), (''prompt'', toks)]
         @ optional_fields d COMPLETION_OPTIONAL_FIELDS))"

text \<open>Sampling parameters come from the sample or its own \<open>sampling_parameters\<close>.\<close>

definition sglang_request :: "(string \<Rightarrow> pyval \<Rightarrow> bool) \<Rightarrow> pydict \<Rightarrow> pydict result" where
  "sglang_request is_default d =
     (case (case map_of d ''sampling_parameters'' of None \<Rightarrow> Inr d | Some (PDict s) \<Rightarrow> Inr s | Some _ \<Rightarrow> Inl AttributeError) of
        Inl e \<Rightarrow> Inl e
      | Inr s \<Rightarrow>
          (let params = filter (\<lambda>(k, v). \<not> is_default k v)
                 [(''max_new_tokens'', get_or s ''max_new_tokens'' (PInt 10240)), (''temperature'', get_or s ''temperature'' (PFloat (Fin 1))),
                  (''top_k'', get_or s ''top_k'' (PInt (- 1))), (''top_p'', get_or s ''top_p'' (PFloat (Fin 1)))]
           in (case map_of d ''input_tokens'' of
                 None \<Rightarrow> Inl KeyError
               | Some toks \<Rightarrow> Inr [(''input_ids'', toks), (''sampling_params'', PDict params),
                                   (''stream'', get_or d ''stream'' (PBool False))])))"

text \<open>Pydantic's \<open>model_validate\<close> fills in the defaults; fields that are \<open>None\<close> are not sent.\<close>

definition videogen_request :: "(pydict \<Rightarrow> pydict result) \<Rightarrow> pydict \<Rightarrow> pydict result" where
  "videogen_request validate d =
     (if \<not> has_key d ''prompt'' then Inl KeyError
      else if truthy (dget d ''stream'') then Inl ValueError
      else map_sum id (filter (\<lambda>(k, v). \<not> is_none v))
        (validate (map (\<lambda>k. (k, dget d k)) (filter (has_key d) VIDEO_REQUEST_FIELDS))))"

text \<open>The older OpenAI adapter builds a generated pydantic request from these arguments.\<close>

definition legacy_openai_request :: "(pydict \<Rightarrow> pydict result) \<Rightarrow> pydict \<Rightarrow> pydict result" where
  "legacy_openai_request create d =
     (case (case map_of d ''messages'' of
              Some (PList ms) \<Rightarrow> Inr ms
            | _ \<Rightarrow> (case map_of d ''prompt'' of
                      None \<Rightarrow> Inl ValueError
                    | Some p \<Rightarrow>
                        Inr ((case map_of d ''system'' of
                                Some s \<Rightarrow> [PDict [(''role'', PStr ''system''), (''content'', s)]] | None \<Rightarrow> [])
                             @ [PDict [(''role'', PStr ''user''), (''content'', p)]]))) of
        Inl e \<Rightarrow> Inl e
      | Inr ms \<Rightarrow> create
          [(''model'', get_or d ''model'' (PStr ''no-model-name'')), (''reasoning_effort'', PStr ''medium''), (''messages'', PList ms),
           (''stream'', get_or d ''stream'' (PBool False)), (''max_completion_tokens'', get_or d ''max_completion_tokens'' (PInt 100)),
           (''temperature'', get_or d ''temperature'' (PFloat (Fin (7 / 10)))), (''seed'', dget d ''seed''),
           (''presence_penalty'', dget d ''presence_penalty''), (''frequency_penalty'', dget d ''frequency_penalty''),
           (''tools'', dget d ''tools'')])"

section \<open>Responses\<close>

record adapter_result =
  ar_id :: string
  ar_output :: "text_output option"
  ar_metadata :: pydict

definition plain_output :: "string \<Rightarrow> text_output" where
  "plain_output s = \<lparr>to_output = Whole s, to_reasoning = None, to_tool_calls = None\<rparr>"

record text_choice =
  tx_text :: string
  tx_finish_reason :: "string option"

definition completions_result :: "text_choice list \<Rightarrow> string \<Rightarrow> adapter_result result" where
  "completions_result choices query_id = (case choices of
       [] \<Rightarrow> Inl ValueError
     | c # _ \<Rightarrow> Inr \<lparr>ar_id = query_id, ar_output = Some (plain_output (tx_text c)),
         ar_metadata = (if filled (tx_finish_reason c) \<noteq> [] then [(''finish_reason'', PStr (filled (tx_finish_reason c)))] else [])\<rparr>)"

definition completions_sse :: "text_choice list \<Rightarrow> sse_choice" where
  "completions_sse choices = (case choices of
       [] \<Rightarrow> \<lparr>ch_delta = None, ch_finish_reason = None\<rparr>
     | c # _ \<Rightarrow> \<lparr>ch_delta = Some \<lparr>sd_content = Some (tx_text c), sd_reasoning_content = None, sd_reasoning = None, sd_tool_calls = None\<rparr>,
                  ch_finish_reason = tx_finish_reason c\<rparr>)"

definition openai_sse :: "sse_choice list \<Rightarrow> sse_choice option" where
  "openai_sse choices = (case choices of [] \<Rightarrow> None | c # _ \<Rightarrow> Some c)"

record sglang_response =
  sr_text :: string
  sr_output_ids :: "int list"
  sr_completion_tokens :: int
  sr_total_retractions :: int

definition sglang_result :: "sglang_response \<Rightarrow> string \<Rightarrow> adapter_result" where
  "sglang_result r query_id =
     \<lparr>ar_id = query_id, ar_output = Some (plain_output (sr_text r)),
      ar_metadata = [(''token_ids'', PList (map PInt (sr_output_ids r))), (''n_tokens'', PInt (sr_completion_tokens r))]\<rparr>"

definition sglang_sse :: "sglang_response \<Rightarrow> sglang_delta" where
  "sglang_sse r = \<lparr>sg_text = sr_text r, sg_token_delta = sr_output_ids r,
     sg_total_completion_tokens = sr_completion_tokens r, sg_has_retractions = (sr_total_retractions r > 0)\<rparr>"

text \<open>
  A video response is told by its bytes: an ISO box of type \<open>ftyp\<close> is the video itself, which is stored under the
  fallback directory (the argument, absent or empty when the variable is not set); the rest is JSON.  The result
  comes with the file to write.  \<open>payload\<close> and \<open>path\<close> validate the two response models.
\<close>

definition is_video_file :: "string \<Rightarrow> bool" where
  "is_video_file body = (length body \<ge> 8 \<and> take 4 (drop 4 body) = ''ftyp'')"

definition decode_binary_response :: "string option \<Rightarrow> string \<Rightarrow> string \<Rightarrow> (adapter_result \<times> (string \<times> string) option) result" where
  "decode_binary_response fallback_dir body query_id =
     (if filled fallback_dir = [] then Inl RuntimeError
      else (let out_path = filled fallback_dir @ ''/'' @ query_id @ ''.mp4''
            in Inr (\<lparr>ar_id = query_id, ar_output = Some (plain_output out_path),
                     ar_metadata = [(''video_id'', PStr query_id), (''video_path'', PStr out_path)]\<rparr>,
                    Some (out_path, body))))"

definition decode_json_response ::
    "(string \<Rightarrow> pyval result) \<Rightarrow> (pydict \<Rightarrow> (string \<times> string) result) \<Rightarrow> (pydict \<Rightarrow> (string \<times> string) result) \<Rightarrow> string \<Rightarrow> string
     \<Rightarrow> adapter_result result" where
  "decode_json_response loads payload path body query_id =
     (case loads body of
        Inl e \<Rightarrow> Inl e
      | Inr (PDict raw) \<Rightarrow>
          if is_str (dget raw ''video_bytes'')
          then map_sum id (\<lambda>(vid, bytes). \<lparr>ar_id = query_id, ar_output = None,
                 ar_metadata = [(''video_id'', PStr vid), (''video_bytes'', PStr bytes)]\<rparr>) (payload raw)
          else map_sum id (\<lambda>(vid, p). \<lparr>ar_id = query_id, ar_output = Some (plain_output p),
                 ar_metadata = [(''video_id'', PStr vid), (''video_path'', PStr p)]\<rparr>) (path raw)
      | Inr _ \<Rightarrow> Inl AttributeError)"

definition videogen_decode ::
    "string option \<Rightarrow> (string \<Rightarrow> pyval result) \<Rightarrow> (pydict \<Rightarrow> (string \<times> string) result) \<Rightarrow> (pydict \<Rightarrow> (string \<times> string) result)
     \<Rightarrow> string \<Rightarrow> string \<Rightarrow> (adapter_result \<times> (string \<times> string) option) result" where
  "videogen_decode fallback_dir loads payload path body query_id =
     (if is_video_file body then decode_binary_response fallback_dir body query_id
      else map_sum id (\<lambda>r. (r, None)) (decode_json_response loads payload path body query_id))"

section \<open>Choosing a loader\<close>

definition DATASET_FORMATS :: "string list" where
  "DATASET_FORMATS = [''.csv'', ''.parquet'', ''.json'', ''.jsonl'', ''huggingface'']"

text \<open>\<open>Path(p).suffix\<close>: from the last dot of the name, if that is neither its first nor its last character.\<close>

definition path_suffix :: "string \<Rightarrow> string" where
  "path_suffix p =
     (let name = last (split_all (CHR ''/'') p); parts = split_all (CHR ''.'') name
      in if length parts < 2 \<or> last parts = [] \<or> length name = Suc (length (last parts)) then [] else CHR ''.'' # last parts)"

definition get_loader :: "string \<Rightarrow> string option \<Rightarrow> string result" where
  "get_loader path fmt = (case fmt of
       Some f \<Rightarrow> Inr f
     | None \<Rightarrow> if path_suffix path \<in> set DATASET_FORMATS then Inr (path_suffix path) else Inl ValueError)"

text \<open>A predefined data set, with its presets if it has any, or a file with the transforms it is given.\<close>

datatype loader_plan =
    Predefined string "transform list option" pydict bool
  | FromFile string "string option" bool "transform list"

definition flip_remap :: "(string \<times> string) list \<Rightarrow> (remap_source \<times> string) list" where
  "flip_remap remap = map (\<lambda>(src, dst). (Explicit src, dst)) (foldl (\<lambda>d (dst, src). AList.update src dst d) [] remap)"

definition file_plan :: "string option \<Rightarrow> string option \<Rightarrow> bool \<Rightarrow> (string \<times> string) list option \<Rightarrow> loader_plan result" where
  "file_plan path fmt agentic remap = (case path of
       None \<Rightarrow> Inl ValueError
     | Some p \<Rightarrow>
         if (case fmt of Some f \<Rightarrow> f \<notin> set DATASET_FORMATS | None \<Rightarrow> False) then Inl ValueError
         else Inr (FromFile p fmt agentic
           (if agentic then []
            else (case remap of Some r \<Rightarrow> [ColumnRemap (flip_remap r) True] | None \<Rightarrow> []) @ [make_adapter_compatible])))"

definition create_loader ::
    "(string \<Rightarrow> (string \<times> transform list) list option option) \<Rightarrow> string \<Rightarrow> string option \<Rightarrow> string option \<Rightarrow> bool
     \<Rightarrow> (string \<times> string) list option \<Rightarrow> pydict \<Rightarrow> loader_plan result" where
  "create_loader predefined full_name path fmt agentic remap params =
     (case (case split_on ''::'' full_name of
              [n] \<Rightarrow> Inr (n, None) | [n, preset] \<Rightarrow> Inr (n, Some preset) | _ \<Rightarrow> Inl ValueError) of
        Inl e \<Rightarrow> Inl e
      | Inr (name, preset) \<Rightarrow>
          (case predefined name of
             None \<Rightarrow> file_plan path fmt agentic remap
           | Some presets \<Rightarrow>
               (case (case preset of
                        None \<Rightarrow> Inr None
                      | Some p \<Rightarrow> (case presets of
                            None \<Rightarrow> Inl ValueError
                          | Some ps \<Rightarrow> (case map_of ps p of None \<Rightarrow> Inl ValueError | Some ts \<Rightarrow> Inr (Some ts)))) of
                  Inl e \<Rightarrow> Inl e
                | Inr ts \<Rightarrow> Inr (Predefined name ts (AList.delete ''force_regenerate'' params)
                    (truthy (get_or params ''force_regenerate'' (PBool False)))))))"

end
