(* ===== verification/AgenticData.thy ===== *)
theory AgenticData
  imports Adapters
begin

text \<open>
  \<open>dataset_manager/agentic_inference_dataset.py\<close>: a file of conversation rows, its validation, and the samples and
  metadata the agentic strategy runs on.  The rows of a frame are dictionaries; grouping by conversation and sorting
  by turn are pandas', the record \<open>grouping\<close>.  \<open>show\<close> prints an identifier that is no text and \<open>float_text\<close> reads a
  number from text.
\<close>

section \<open>Grouping\<close>

record grouping =
  gp_groups :: "pydict list \<Rightarrow> (pyval \<times> pydict list) list"
  gp_sort :: "pydict list \<Rightarrow> pydict list"

definition py_str :: "(pyval \<Rightarrow> string) \<Rightarrow> pyval \<Rightarrow> string" where
  "py_str show v = (case v of PStr s \<Rightarrow> s | _ \<Rightarrow> show v)"

text \<open>\<open>v is None or (isinstance(v, float) and pd.isna(v))\<close>: the cell is empty.\<close>

definition no_value :: "pyval \<Rightarrow> bool" where
  "no_value v = (v = PNone \<or> v = PFloat NaN)"

definition py_int :: "pyval \<Rightarrow> int result" where
  "py_int v = (case v of
       PInt n \<Rightarrow> Inr n | PBool b \<Rightarrow> Inr (if b then 1 else 0) | PStr s \<Rightarrow> parse_int s
     | PFloat (Fin q) \<Rightarrow> Inr (if q \<ge> 0 then \<lfloor>q\<rfloor> else \<lceil>q\<rceil>) | PFloat NaN \<Rightarrow> Inl ValueError
     | PFloat _ \<Rightarrow> Inl (OtherException ''OverflowError'') | _ \<Rightarrow> Inl TypeError)"

section \<open>Validation\<close>

definition printable :: "string \<Rightarrow> bool" where
  "printable s = list_all (\<lambda>c. 32 \<le> (of_char c :: nat) \<and> (of_char c :: nat) \<le> 126) s"

fun validate_grouping :: "(pyval \<Rightarrow> string) \<Rightarrow> string list \<Rightarrow> string option \<Rightarrow> pyval list \<Rightarrow> unit result" where
  "validate_grouping show seen last_conv [] = Inr ()"
| "validate_grouping show seen last_conv (raw # ids) =
     (if no_value raw \<or> py_str show raw \<in> {[], ''nan''} then Inl InputValidationError
      else (let conv = py_str show raw
            in if \<not> printable conv then Inl InputValidationError
               else if Some conv = last_conv then validate_grouping show seen last_conv ids
               else if conv \<in> set seen then Inl InputValidationError
               else validate_grouping show (conv # seen) (Some conv) ids))"

datatype turn_state = AtStart | AtUser | AtAssistant | AtTool

definition valid_next :: "turn_state \<Rightarrow> string list" where
  "valid_next s = (case s of
       AtStart \<Rightarrow> [''user''] | AtUser \<Rightarrow> [''assistant''] | AtAssistant \<Rightarrow> [''tool'', ''user''] | AtTool \<Rightarrow> [''assistant'', ''user''])"

definition role_state :: "string \<Rightarrow> turn_state" where
  "role_state r = (if r = ''user'' then AtUser else if r = ''assistant'' then AtAssistant else AtTool)"

definition nonempty_text :: "pyval \<Rightarrow> bool" where
  "nonempty_text v = (case v of PStr s \<Rightarrow> s \<noteq> [] | _ \<Rightarrow> False)"

definition tool_result_ok :: "pyval \<Rightarrow> bool" where
  "tool_result_ok r = (case r of PDict d \<Rightarrow> nonempty_text (dget d ''tool_call_id'') \<and> has_key d ''content'' | _ \<Rightarrow> False)"

definition tool_call_ok :: "pyval \<Rightarrow> bool" where
  "tool_call_ok c = (case c of
       PDict d \<Rightarrow> nonempty_text (dget d ''id'') \<and> dget d ''type'' = PStr ''function''
         \<and> (case dget d ''function'' of
              PDict fn \<Rightarrow> nonempty_text (dget fn ''name'') \<and> (is_str (dget fn ''arguments'') \<or> is_dict (dget fn ''arguments''))
            | _ \<Rightarrow> False)
     | _ \<Rightarrow> False)"

definition nonempty_list :: "pyval \<Rightarrow> pyval list option" where
  "nonempty_list v = (case v of PList xs \<Rightarrow> if xs \<noteq> [] then Some xs else None | _ \<Rightarrow> None)"

definition empty_content :: "pydict \<Rightarrow> bool" where
  "empty_content row = (no_value (dget row ''content'') \<or> dget row ''content'' = PStr [])"

definition check_tool_row :: "turn_state \<Rightarrow> bool \<Rightarrow> pydict \<Rightarrow> unit result" where
  "check_tool_row s had_calls row =
     (if s = AtAssistant \<and> \<not> had_calls then Inl InputValidationError
      else (case nonempty_list (dget row ''tool_results'') of
              None \<Rightarrow> Inl InputValidationError
            | Some rs \<Rightarrow> if list_all tool_result_ok rs then Inr () else Inl InputValidationError))"

text \<open>An assistant row: whether it has tool calls.\<close>

definition check_assistant_row :: "pydict \<Rightarrow> bool result" where
  "check_assistant_row row =
     (case nonempty_list (dget row ''tool_calls'') of
        Some calls \<Rightarrow> if list_all tool_call_ok calls then Inr True else Inl InputValidationError
      | None \<Rightarrow> if empty_content row \<or> \<not> no_value (dget row ''tool_calls'') then Inl InputValidationError else Inr False)"

definition check_user_row :: "turn_state \<Rightarrow> bool \<Rightarrow> pydict \<Rightarrow> unit result" where
  "check_user_row s had_calls row =
     (if empty_content row \<or> (s = AtAssistant \<and> had_calls) then Inl InputValidationError else Inr ())"

definition hashable :: "pyval \<Rightarrow> bool" where
  "hashable v = (case v of PList _ \<Rightarrow> False | PDict _ \<Rightarrow> False | _ \<Rightarrow> True)"

definition structure_step :: "turn_state \<Rightarrow> bool \<Rightarrow> pydict \<Rightarrow> (turn_state \<times> bool) result" where
  "structure_step s had_calls row =
     (case dget row ''role'' of
        PStr role \<Rightarrow>
          if role \<notin> set (valid_next s) then Inl ValueError
          else if role = ''tool'' then map_sum id (\<lambda>_. (AtTool, False)) (check_tool_row s had_calls row)
          else if role = ''assistant'' then map_sum id (\<lambda>calls. (AtAssistant, calls)) (check_assistant_row row)
          else map_sum id (\<lambda>_. (AtUser, False)) (check_user_row s had_calls row)
      | v \<Rightarrow> if hashable v then Inl ValueError else Inl TypeError)"

fun structure_steps :: "turn_state \<Rightarrow> bool \<Rightarrow> pydict list \<Rightarrow> (turn_state \<times> bool) result" where
  "structure_steps s calls [] = Inr (s, calls)"
| "structure_steps s calls (row # rows) =
     (case structure_step s calls row of Inl e \<Rightarrow> Inl e | Inr (s', calls') \<Rightarrow> structure_steps s' calls' rows)"

fun validate_structure :: "grouping \<Rightarrow> (pyval \<times> pydict list) list \<Rightarrow> unit result" where
  "validate_structure gp [] = Inr ()"
| "validate_structure gp ((cid, members) # groups) =
     (case structure_steps AtStart False (gp_sort gp members) of Inl e \<Rightarrow> Inl e | Inr _ \<Rightarrow> validate_structure gp groups)"

text \<open>Sorting values that cannot be compared raises; values that are not 1 to N are rejected.\<close>

definition is_number :: "pyval \<Rightarrow> bool" where
  "is_number v = (case v of PInt _ \<Rightarrow> True | PBool _ \<Rightarrow> True | PFloat _ \<Rightarrow> True | _ \<Rightarrow> False)"

definition turns_consecutive :: "pyval list \<Rightarrow> unit result" where
  "turns_consecutive vs =
     (if length vs > 1 \<and> \<not> list_all is_str vs \<and> \<not> list_all is_number vs then Inl TypeError
      else if list_all (\<lambda>v. num_of v \<noteq> None) vs
              \<and> sort (map (\<lambda>v. the (num_of v)) vs) = map (\<lambda>i. of_nat i) [1..<Suc (length vs)] then Inr ()
      else Inl ValueError)"

fun validate_turn_numbering :: "(pyval \<times> pydict list) list \<Rightarrow> unit result" where
  "validate_turn_numbering [] = Inr ()"
| "validate_turn_numbering ((cid, members) # groups) =
     (case turns_consecutive (map (\<lambda>r. dget r ''turn'') members) of Inl e \<Rightarrow> Inl e | Inr _ \<Rightarrow> validate_turn_numbering groups)"

definition AGENTIC_COLUMN_NAMES :: "string list" where
  "AGENTIC_COLUMN_NAMES = [''conversation_id'', ''turn'', ''role'', ''content'']"

text \<open>The constructor: the required columns, then the rows that are not metadata, which must pass all three checks.\<close>

definition conversation_rows :: "frame \<Rightarrow> pydict list" where
  "conversation_rows df =
     (if ''_type'' \<in> set (fr_columns df) then filter (\<lambda>r. dget r ''_type'' \<noteq> PStr ''dataset_metadata'') (fr_rows df) else fr_rows df)"

definition agentic_init :: "(pyval \<Rightarrow> string) \<Rightarrow> grouping \<Rightarrow> frame \<Rightarrow> frame result" where
  "agentic_init show gp df =
     (if \<not> set AGENTIC_COLUMN_NAMES \<subseteq> set (fr_columns df) then Inl ValueError
      else (let rows = conversation_rows df; groups = gp_groups gp rows
            in (case validate_grouping show [] None (map (\<lambda>r. dget r ''conversation_id'') rows) of
                  Inl e \<Rightarrow> Inl e
                | Inr _ \<Rightarrow>
                    (case validate_structure gp groups of
                       Inl e \<Rightarrow> Inl e
                     | Inr _ \<Rightarrow> map_sum id (\<lambda>_. df\<lparr>fr_rows := rows\<rparr>) (validate_turn_numbering groups)))))"

section \<open>Messages of a row\<close>

definition expand_tool_result :: "pyval \<Rightarrow> pyval result" where
  "expand_tool_result r = (case r of
       PDict d \<Rightarrow>
         if is_none (dget d ''tool_call_id'') \<or> is_none (dget d ''content'') then Inl InputValidationError
         else Inr (PDict [(''role'', PStr ''tool''), (''tool_call_id'', dget d ''tool_call_id''), (''content'', dget d ''content'')])
     | _ \<Rightarrow> Inl InputValidationError)"

definition expand_tool_results :: "pydict \<Rightarrow> pyval list result" where
  "expand_tool_results row = (case dget row ''tool_results'' of PList rs \<Rightarrow> map_result expand_tool_result rs | _ \<Rightarrow> Inr [])"

definition row_message :: "pydict \<Rightarrow> pydict" where
  "row_message row =
     (let msg = filter (\<lambda>(k, v). \<not> no_value v) (map (\<lambda>k. (k, dget row k))
                  [''role'', ''content'', ''name'', ''tool_calls'', ''tool_results'', ''reasoning_content''])
      in if dget msg ''role'' = PStr ''assistant'' \<and> has_key msg ''tool_calls'' \<and> \<not> has_key msg ''content''
         then msg @ [(''content'', PNone)] else msg)"

definition row_messages :: "pydict \<Rightarrow> pyval list result" where
  "row_messages row =
     (case expand_tool_results row of
        Inl e \<Rightarrow> Inl e
      | Inr expanded \<Rightarrow>
          Inr (if expanded \<noteq> [] then expanded
               else if truthy (dget (row_message row) ''role'') then [PDict (row_message row)] else []))"

section \<open>Metadata\<close>

type_synonym turn_id = "string \<times> int"

record conversation_metadata =
  cm_samples :: "(turn_id \<times> nat option) list"
  cm_num_conversations :: nat
  cm_max_turns :: pyval
  cm_client_turns :: "(string \<times> int) list"
  cm_messages :: "(turn_id \<times> pyval list) list"
  cm_delays :: "(turn_id \<times> pyfloat) list"

definition is_client_role :: "pydict \<Rightarrow> bool" where
  "is_client_role row = (dget row ''role'' = PStr ''user'' \<or> dget row ''role'' = PStr ''tool'')"

definition system_message :: "pydict list \<Rightarrow> pyval list" where
  "system_message rows =
     (case filter (\<lambda>r. nonempty_text (dget r ''system'')) rows of
        [] \<Rightarrow> [] | r # _ \<Rightarrow> [PDict [(''role'', PStr ''system''), (''content'', dget r ''system'')]])"

text \<open>\<open>float(v)\<close> with its failures counted as zero; only positive delays are kept.\<close>

definition delay_of :: "(string \<Rightarrow> pyfloat option) \<Rightarrow> pyval \<Rightarrow> pyfloat option" where
  "delay_of float_text v =
     (if no_value v then None
      else (let f = (case v of
                       PFloat f \<Rightarrow> f | PInt n \<Rightarrow> Fin (of_int n) | PBool b \<Rightarrow> Fin (if b then 1 else 0)
                     | PStr s \<Rightarrow> (case float_text s of Some f \<Rightarrow> f | None \<Rightarrow> Fin 0) | _ \<Rightarrow> Fin 0)
            in if (case f of Fin q \<Rightarrow> q > 0 | PosInf \<Rightarrow> True | _ \<Rightarrow> False) then Some f else None))"

record conversation_build =
  cb_history :: "pyval list"
  cb_messages :: "(turn_id \<times> pyval list) list"
  cb_delays :: "(turn_id \<times> pyfloat) list"
  cb_samples :: "turn_id list"

definition add_row :: "(string \<Rightarrow> pyfloat option) \<Rightarrow> string \<Rightarrow> pydict \<Rightarrow> conversation_build \<Rightarrow> conversation_build result" where
  "add_row float_text conv row b =
     (case row_messages row of
        Inl e \<Rightarrow> Inl e
      | Inr ms \<Rightarrow>
          if is_client_role row then
            (case py_int (dget row ''turn'') of
               Inl e \<Rightarrow> Inl e
             | Inr t \<Rightarrow> Inr (b\<lparr>cb_messages := AList.update (conv, t) (cb_history b @ ms) (cb_messages b),
                              cb_history := cb_history b @ ms,
                              cb_delays := (case delay_of float_text (dget row ''delay_seconds'') of
                                 Some f \<Rightarrow> AList.update (conv, t) f (cb_delays b) | None \<Rightarrow> cb_delays b),
                              cb_samples := cb_samples b @ [(conv, t)]\<rparr>))
          else Inr (b\<lparr>cb_history := cb_history b @ ms\<rparr>))"

fun add_rows :: "(string \<Rightarrow> pyfloat option) \<Rightarrow> string \<Rightarrow> pydict list \<Rightarrow> conversation_build \<Rightarrow> conversation_build result" where
  "add_rows ft conv [] b = Inr b"
| "add_rows ft conv (row # rows) b = (case add_row ft conv row b of Inl e \<Rightarrow> Inl e | Inr b' \<Rightarrow> add_rows ft conv rows b')"

definition build_conversation ::
    "(pyval \<Rightarrow> string) \<Rightarrow> (string \<Rightarrow> pyfloat option) \<Rightarrow> grouping \<Rightarrow> pyval \<Rightarrow> pydict list \<Rightarrow> (conversation_build \<times> int) result" where
  "build_conversation show ft gp cid members =
     (let rows = gp_sort gp members
      in map_sum id (\<lambda>b. (b, int (length (filter is_client_role rows))))
           (add_rows ft (py_str show cid) rows
              \<lparr>cb_history = system_message rows, cb_messages = [], cb_delays = [], cb_samples = []\<rparr>))"

definition add_conversation :: "string \<Rightarrow> conversation_build \<times> int \<Rightarrow> conversation_metadata \<Rightarrow> conversation_metadata" where
  "add_conversation conv built m =
     m\<lparr>cm_samples := cm_samples m @ map (\<lambda>s. (s, None)) (cb_samples (fst built)),
       cm_client_turns := AList.update conv (snd built) (cm_client_turns m),
       cm_messages := foldl (\<lambda>d (k, v). AList.update k v d) (cm_messages m) (cb_messages (fst built)),
       cm_delays := foldl (\<lambda>d (k, v). AList.update k v d) (cm_delays m) (cb_delays (fst built))\<rparr>"

fun add_conversations ::
    "(pyval \<Rightarrow> string) \<Rightarrow> (string \<Rightarrow> pyfloat option) \<Rightarrow> grouping \<Rightarrow> (pyval \<times> pydict list) list \<Rightarrow> conversation_metadata
     \<Rightarrow> conversation_metadata result" where
  "add_conversations show ft gp [] m = Inr m"
| "add_conversations show ft gp ((cid, members) # groups) m =
     (case build_conversation show ft gp cid members of
        Inl e \<Rightarrow> Inl e
      | Inr built \<Rightarrow> add_conversations show ft gp groups (add_conversation (py_str show cid) built m))"

text \<open>The maximum over no conversation raises; \<open>max_turn\<close> is the largest turn value of the frame.\<close>

definition build_metadata ::
    "(pyval \<Rightarrow> string) \<Rightarrow> (string \<Rightarrow> pyfloat option) \<Rightarrow> grouping \<Rightarrow> pyval \<Rightarrow> pydict list \<Rightarrow> conversation_metadata result" where
  "build_metadata show ft gp max_turn rows =
     (let groups = gp_groups gp rows
      in (case add_conversations show ft gp groups
             \<lparr>cm_samples = [], cm_num_conversations = length groups, cm_max_turns = max_turn, cm_client_turns = [],
              cm_messages = [], cm_delays = []\<rparr> of
            Inl e \<Rightarrow> Inl e
          | Inr m \<Rightarrow> if groups = [] then Inl ValueError else Inr m))"

section \<open>Samples\<close>

definition PROPAGATED_KEYS :: "string list" where
  "PROPAGATED_KEYS = [''model'', ''max_completion_tokens'', ''max_new_tokens'', ''stream'', ''tools'']"

definition conv_defaults_step :: "(pyval \<times> pydict) list \<Rightarrow> pydict \<Rightarrow> (pyval \<times> pydict) list" where
  "conv_defaults_step ds row =
     (let cid = dget row ''conversation_id''
      in if map_of ds cid = None \<and> dget row ''role'' = PStr ''user''
         then ds @ [(cid, filter (\<lambda>(k, v). \<not> no_value v) (map (\<lambda>k. (k, dget row k)) PROPAGATED_KEYS))]
         else ds)"

definition conv_defaults :: "pydict list \<Rightarrow> (pyval \<times> pydict) list" where
  "conv_defaults rows = foldl conv_defaults_step [] rows"

definition fill_missing :: "pydict \<Rightarrow> pydict \<Rightarrow> pydict" where
  "fill_missing sample defaults = foldl (\<lambda>d (k, v). if has_key d k then d else d @ [(k, v)]) sample defaults"

definition or_value :: "pyval \<Rightarrow> pyval \<Rightarrow> pyval" where
  "or_value a b = (if truthy a then a else b)"

definition with_token_limit :: "pydict \<Rightarrow> pydict" where
  "with_token_limit sample =
     (let rest = AList.delete ''max_new_tokens'' sample;
          v = or_value (or_value (or_value (dget sample ''max_new_tokens'') (dget rest ''max_completion_tokens''))
                (dget rest ''max_tokens'')) (PInt 128)
      in AList.update ''max_tokens'' v (AList.update ''max_completion_tokens'' v (AList.update ''max_new_tokens'' v rest)))"

definition client_sample :: "(pyval \<times> pydict) list \<Rightarrow> pydict \<Rightarrow> pydict" where
  "client_sample defaults row =
     (let kept = filter (\<lambda>(k, v). \<not> no_value v) row;
          stripped = AList.delete ''delay_seconds'' (AList.delete ''tool_calls'' (AList.delete ''tool_results'' kept));
          filled = fill_missing stripped (case map_of defaults (dget row ''conversation_id'') of Some d \<Rightarrow> d | None \<Rightarrow> []);
          limited = with_token_limit filled
      in if has_key limited ''stream'' then limited else limited @ [(''stream'', PBool False)])"

fun bake_samples ::
    "(pyval \<Rightarrow> string) \<Rightarrow> (pyval \<times> pydict) list \<Rightarrow> (turn_id \<times> pyval list) list \<Rightarrow> pydict list
     \<Rightarrow> pydict list \<times> (turn_id \<times> nat) list \<Rightarrow> (pydict list \<times> (turn_id \<times> nat) list) result" where
  "bake_samples show ds pre [] acc = Inr acc"
| "bake_samples show ds pre (row # rows) (samples, index) =
     (if \<not> is_client_role row then bake_samples show ds pre rows (samples, index)
      else (case py_int (dget row ''turn'') of
              Inl e \<Rightarrow> Inl e
            | Inr t \<Rightarrow>
                (let key = (py_str show (dget row ''conversation_id''), t)
                 in (case map_of pre key of
                       None \<Rightarrow> bake_samples show ds pre rows (samples, index)
                     | Some ms \<Rightarrow>
                         bake_samples show ds pre rows
                           (samples @ [AList.update ''messages'' (PList ms) (client_sample ds row)],
                            AList.update key (length samples) index)))))"

record agentic_data =
  agd_samples :: "pydict list"
  agd_metadata :: conversation_metadata

definition bake :: "(pyval \<Rightarrow> string) \<Rightarrow> conversation_metadata \<Rightarrow> pydict list \<Rightarrow> agentic_data result" where
  "bake show m rows =
     (let records = map (dmerge []) rows
      in (case bake_samples show (conv_defaults records) (cm_messages m) records ([], []) of
            Inl e \<Rightarrow> Inl e
          | Inr (samples, index) \<Rightarrow> Inr
              \<lparr>agd_samples = samples,
               agd_metadata = m\<lparr>cm_samples :=
                 List.map_filter (\<lambda>(key, _). case map_of index key of Some i \<Rightarrow> Some (key, Some i) | None \<Rightarrow> None) (cm_samples m)\<rparr>\<rparr>))"

section \<open>Loading\<close>

text \<open>The columns the adapter would add are the defaults of rows that lack them.\<close>

definition adapter_defaults :: "transform list \<Rightarrow> pydict" where
  "adapter_defaults ts = foldl (\<lambda>d t. case t of AddStaticColumns data _ \<Rightarrow> dmerge d data | _ \<Rightarrow> d) [] ts"

definition agentic_frame ::
    "pandas \<Rightarrow> text_tools \<Rightarrow> transform list \<Rightarrow> (api_type \<times> model_params) option \<Rightarrow> frame \<Rightarrow> frame result" where
  "agentic_frame pd tt own target df =
     (case (if own = [] then Inr df else snd (apply_transforms pd tt own True df)) of
        Inl e \<Rightarrow> Inl e
      | Inr df1 \<Rightarrow>
          (let defaults = (case target of Some (a, mp) \<Rightarrow> adapter_defaults (get_transforms_for_api_type a mp) | None \<Rightarrow> [])
           in if defaults = [] then Inr df1 else snd (call_transform pd tt (AddStaticColumns defaults False) df1)))"

definition agentic_load ::
    "pandas \<Rightarrow> text_tools \<Rightarrow> (pyval \<Rightarrow> string) \<Rightarrow> (string \<Rightarrow> pyfloat option) \<Rightarrow> grouping \<Rightarrow> (pydict list \<Rightarrow> pyval) \<Rightarrow> transform list
     \<Rightarrow> bool \<Rightarrow> (api_type \<times> model_params) option \<Rightarrow> frame \<Rightarrow> (frame \<times> agentic_data) result" where
  "agentic_load pd tt show ft gp max_turn own adapter_given target df =
     (if adapter_given \<and> target = None then Inl NotImplementedError
      else (case agentic_frame pd tt own target df of
              Inl e \<Rightarrow> Inl e
            | Inr df' \<Rightarrow>
                (case build_metadata show ft gp (max_turn (fr_rows df')) (fr_rows df') of
                   Inl e \<Rightarrow> Inl e
                 | Inr m \<Rightarrow> map_sum id (\<lambda>data. (df', data)) (bake show m (fr_rows df')))))"

end
