(* ===== verification/TransformFacts.thy ===== *)
theory TransformFacts
  imports Transforms
begin

text \<open>
  Fusing consecutive row processors: what it may not change (the frame, and whether there is one) and the one
  processor for which it does.  The laws of the frame operations the proofs rest on are stated here.
\<close>

section \<open>Laws of the frame operations\<close>

text \<open>
  Applying a function to the rows of a frame that has some: the first error ends it, and rows with the same
  keys form the new frame.
\<close>

definition apply_law :: "pandas \<Rightarrow> bool" where
  "apply_law pd \<longleftrightarrow> (\<forall>f df. frame_wf df \<and> fr_rows df \<noteq> [] \<longrightarrow>
     (case map_result f (fr_rows df) of
        Inl e \<Rightarrow> pd_apply pd f df = Inl e
      | Inr rs \<Rightarrow> (\<forall>ks. list_all (\<lambda>r. map fst r = ks) rs \<longrightarrow>
           pd_apply pd f df = Inr \<lparr>fr_columns = ks, fr_rows = rs\<rparr>)))"

text \<open>The column operations keep the number of rows and the shape of the frame.\<close>

definition keeps_rows :: "frame \<Rightarrow> frame \<Rightarrow> bool" where
  "keeps_rows df df' = (frame_wf df \<longrightarrow> frame_wf df' \<and> length (fr_rows df') = length (fr_rows df))"

definition columns_law :: "pandas \<Rightarrow> bool" where
  "columns_law pd \<longleftrightarrow>
     (\<forall>cs df df'. pd_select pd cs df = Inr df' \<longrightarrow> keeps_rows df df')
     \<and> (\<forall>cs df. keeps_rows df (pd_rename pd cs df))
     \<and> (\<forall>k v df df'. pd_assign pd k v df = Inr df' \<longrightarrow> keeps_rows df df')
     \<and> (\<forall>k v df df'. pd_fill pd k v df = Inr df' \<longrightarrow> keeps_rows df df')"

lemma apply_error:
  assumes "apply_law pd" "frame_wf df" "fr_rows df \<noteq> []" "map_result f (fr_rows df) = Inl e"
  shows "pd_apply pd f df = Inl e"
proof -
  have "case map_result f (fr_rows df) of
        Inl e \<Rightarrow> pd_apply pd f df = Inl e
      | Inr rs \<Rightarrow> (\<forall>ks. list_all (\<lambda>r. map fst r = ks) rs \<longrightarrow> pd_apply pd f df = Inr \<lparr>fr_columns = ks, fr_rows = rs\<rparr>)"
    using assms(1-3) unfolding apply_law_def by blast
  then show ?thesis by (simp add: assms(4))
qed

lemma apply_ok:
  assumes "apply_law pd" "frame_wf df" "fr_rows df \<noteq> []" "map_result f (fr_rows df) = Inr rs"
    "list_all (\<lambda>r. map fst r = ks) rs"
  shows "pd_apply pd f df = Inr \<lparr>fr_columns = ks, fr_rows = rs\<rparr>"
proof -
  have "case map_result f (fr_rows df) of
        Inl e \<Rightarrow> pd_apply pd f df = Inl e
      | Inr rs \<Rightarrow> (\<forall>ks. list_all (\<lambda>r. map fst r = ks) rs \<longrightarrow> pd_apply pd f df = Inr \<lparr>fr_columns = ks, fr_rows = rs\<rparr>)"
    using assms(1-3) unfolding apply_law_def by blast
  then show ?thesis using assms(5) by (simp add: assms(4))
qed

section \<open>Row by row\<close>

lemma map_result_length: "map_result f xs = Inr ys \<Longrightarrow> length ys = length xs"
  by (induction xs arbitrary: ys) (auto split: sum.splits simp: map_sum_def)

lemma map_result_member: "map_result f xs = Inr ys \<Longrightarrow> y \<in> set ys \<Longrightarrow> \<exists>x\<in>set xs. f x = Inr y"
proof (induction xs arbitrary: ys)
  case (Cons x xs)
  then obtain z zs where z: "f x = Inr z" "map_result f xs = Inr zs" "ys = z # zs"
    by (auto split: sum.splits simp: map_sum_def)
  with Cons show ?case by auto
qed simp

lemma map_result_cong: "(\<And>x. x \<in> set xs \<Longrightarrow> f x = g x) \<Longrightarrow> map_result f xs = map_result g xs"
  by (induction xs) (auto split: sum.splits)

lemma map_result_then_ok:
  assumes "map_result f xs = Inr ys"
  shows "map_result (\<lambda>x. case f x of Inl e \<Rightarrow> Inl e | Inr y \<Rightarrow> g y) xs = map_result g ys"
  using assms
proof (induction xs arbitrary: ys)
  case (Cons x xs)
  then obtain z zs where z: "f x = Inr z" "map_result f xs = Inr zs" "ys = z # zs"
    by (auto split: sum.splits simp: map_sum_def)
  then show ?case using Cons.IH [OF z(2)] by (cases "g z") simp_all
qed simp

lemma map_result_then_error:
  assumes "map_result f xs = Inl e"
  shows "\<exists>e'. map_result (\<lambda>x. case f x of Inl e \<Rightarrow> Inl e | Inr y \<Rightarrow> g y) xs = Inl e'"
  using assms
proof (induction xs arbitrary: e)
  case (Cons x xs)
  show ?case
  proof (cases "f x")
    case (Inr z)
    then have "map_result f xs = Inl e" using Cons.prems by (auto split: sum.splits simp: map_sum_def)
    then show ?thesis using Cons.IH Inr by (cases "g z") auto
  qed simp
qed simp

section \<open>Prompt formatters\<close>

definition is_formatter :: "transform \<Rightarrow> bool" where
  "is_formatter t = (case t of UserPromptFormatter _ _ \<Rightarrow> True | _ \<Rightarrow> False)"

definition add_key :: "string \<Rightarrow> string list \<Rightarrow> string list" where
  "add_key k ks = (if k \<in> set ks then ks else ks @ [k])"

fun keys_after :: "transform list \<Rightarrow> string list \<Rightarrow> string list" where
  "keys_after [] ks = ks"
| "keys_after (UserPromptFormatter _ out # ps) ks = keys_after ps (add_key out ks)"
| "keys_after (_ # ps) ks = keys_after ps ks"

lemma row_keys_update: "map fst (AList.update k v d) = add_key k (map fst d)"
  by (simp add: add_key_def keys_update_new keys_update_old)

lemma process_rows_keys:
  "list_all is_formatter ps \<Longrightarrow> process_rows tt ps row = Inr row' \<Longrightarrow> map fst row' = keys_after ps (map fst row)"
proof (induction ps arbitrary: row)
  case (Cons p ps)
  from Cons.prems(1) obtain fmt out where p: "p = UserPromptFormatter fmt out"
    by (cases p) (auto simp: is_formatter_def)
  from Cons.prems(2) obtain t where t: "str_format tt fmt row = Inr t"
    and r: "process_rows tt ps (AList.update out (PStr t) row) = Inr row'"
    by (cases "str_format tt fmt row") (auto simp: p)
  from Cons.IH [OF _ r] Cons.prems(1) show ?case by (simp add: p row_keys_update)
qed simp

lemma call_formatter: "is_formatter p \<Longrightarrow> call_transform pd tt p df = (p, pd_apply pd (process_row tt p) df)"
  by (cases p) (simp_all add: is_formatter_def)

lemma process_rows_single: "process_rows tt [p] = process_row tt p"
  by (rule ext) (simp split: sum.splits)

lemma apply_formatters:
  assumes law: "apply_law pd" and ps: "list_all is_formatter ps" and df: "frame_wf df" "fr_rows df \<noteq> []"
  shows "pd_apply pd (process_rows tt ps) df =
    map_sum id (\<lambda>rs. \<lparr>fr_columns = keys_after ps (fr_columns df), fr_rows = rs\<rparr>) (map_result (process_rows tt ps) (fr_rows df))"
proof -
  have u: "list_all (\<lambda>r. map fst r = keys_after ps (fr_columns df)) rs"
    if "map_result (process_rows tt ps) (fr_rows df) = Inr rs" for rs
    using map_result_member [OF that] process_rows_keys [OF ps] df(1)
    by (fastforce simp: list_all_iff frame_wf_def)
  show ?thesis
    using u apply_ok [OF law df] apply_error [OF law df]
    by (cases "map_result (process_rows tt ps) (fr_rows df)") simp_all
qed

text \<open>One after the other, or one pass over the rows: the same frame, or none.\<close>

lemma fused_formatters:
  assumes law: "apply_law pd"
  shows "list_all is_formatter ps \<Longrightarrow> frame_wf df \<Longrightarrow> fr_rows df \<noteq> [] \<Longrightarrow>
    (snd (run_transforms pd tt ps df) = Inr d) = (pd_apply pd (process_rows tt ps) df = Inr d)"
proof (induction ps arbitrary: df)
  case Nil
  have "pd_apply pd (process_rows tt []) df = Inr df"
  proof -
    have "map_result (process_rows tt []) rs = Inr rs" for rs by (induction rs) auto
    then show ?thesis using apply_formatters [OF law _ Nil(2,3), of "[]" tt] by (simp del: process_rows.simps)
  qed
  then show ?case by (auto simp del: process_rows.simps)
next
  case (Cons p ps)
  then have p: "is_formatter p" "list_all is_formatter [p]" and ps: "list_all is_formatter ps" by auto
  note one = apply_formatters [OF law p(2) Cons.prems(2,3), of tt, unfolded process_rows_single]
  note all = apply_formatters [OF law Cons.prems]
  have step: "process_rows tt (p # ps) = (\<lambda>row. case process_row tt p row of Inl e \<Rightarrow> Inl e | Inr r \<Rightarrow> process_rows tt ps r)"
    by (rule ext) simp
  show ?case
  proof (cases "map_result (process_row tt p) (fr_rows df)")
    case (Inl e)
    then obtain e' where "map_result (process_rows tt (p # ps)) (fr_rows df) = Inl e'"
      unfolding step using map_result_then_error by blast
    then have "pd_apply pd (process_rows tt (p # ps)) df = Inl e'" using all [of tt] by simp
    then show ?thesis using Inl one by (simp add: call_formatter [OF p(1)] del: process_rows.simps)
  next
    case (Inr rs)
    let ?d1 = "\<lparr>fr_columns = keys_after [p] (fr_columns df), fr_rows = rs\<rparr>"
    have wf: "frame_wf ?d1"
      using map_result_member [OF Inr] process_rows_keys [OF p(2), unfolded process_rows_single] Cons.prems(2)
      by (fastforce simp: frame_wf_def list_all_iff)
    have ne: "fr_rows ?d1 \<noteq> []" using map_result_length [OF Inr] Cons.prems(3) by auto
    have "snd (run_transforms pd tt (p # ps) df) = snd (run_transforms pd tt ps ?d1)"
      using one Inr by (simp add: call_formatter [OF p(1)] split: prod.split)
    moreover have "map_result (process_rows tt (p # ps)) (fr_rows df) = map_result (process_rows tt ps) rs"
      unfolding step by (rule map_result_then_ok [OF Inr])
    moreover have "keys_after (p # ps) (fr_columns df) = keys_after ps (fr_columns ?d1)"
      using p(1) by (cases p) (auto simp: is_formatter_def)
    ultimately have "pd_apply pd (process_rows tt (p # ps)) df = pd_apply pd (process_rows tt ps) ?d1"
      and "snd (run_transforms pd tt (p # ps) df) = snd (run_transforms pd tt ps ?d1)"
      using all [of tt] apply_formatters [OF law ps wf ne, of tt] by (simp_all del: process_rows.simps)
    then show ?thesis using Cons.IH [OF ps wf ne] by (simp only:)
  qed
qed

section \<open>Whole pipelines\<close>

lemma run_append:
  "snd (run_transforms pd tt (a @ b) df) =
     (case snd (run_transforms pd tt a df) of Inl e \<Rightarrow> Inl e | Inr df' \<Rightarrow> snd (run_transforms pd tt b df'))"
proof (induction a arbitrary: df)
  case (Cons t a)
  obtain t' r where c: "call_transform pd tt t df = (t', r)" by force
  show ?case
  proof (cases r)
    case (Inr df1)
    show ?thesis using Cons.IH [of df1] unfolding Inr
      by (cases "run_transforms pd tt a df1"; cases "run_transforms pd tt (a @ b) df1") (simp add: c Inr)
  qed (simp add: c)
qed simp

lemma add_static_keeps:
  assumes "columns_law pd"
  shows "add_static_columns pd ow n kvs df = Inr df' \<Longrightarrow> keeps_rows df df'"
proof (induction kvs arbitrary: df)
  case Nil
  then show ?case by (simp add: keeps_rows_def)
next
  case (Cons kv kvs)
  then obtain d1 where d: "add_static_column pd ow n kv df = Inr d1" "add_static_columns pd ow n kvs d1 = Inr df'"
    by (auto split: sum.splits)
  have "keeps_rows df d1"
    using d(1) assms unfolding add_static_column_def columns_law_def Let_def
    by (auto split: prod.splits if_splits simp: keeps_rows_def)
  with Cons.IH [OF d(2)] show ?case by (simp add: keeps_rows_def)
qed

definition fuses_formatters_only :: "transform list \<Rightarrow> bool" where
  "fuses_formatters_only ts =
     list_all (\<lambda>t. case t of FusedRowProcessor ps \<Rightarrow> list_all is_formatter ps | _ \<Rightarrow> True) ts"

lemma apply_harmonize_keeps:
  assumes law: "apply_law pd" and df: "frame_wf df" "fr_rows df \<noteq> []"
    and r: "pd_apply pd (harmonize_row tt p t h) df = Inr d"
  shows "frame_wf d \<and> length (fr_rows d) = length (fr_rows df)"
proof (cases "map_result (harmonize_row tt p t h) (fr_rows df)")
  case (Inl e)
  then show ?thesis using apply_error [OF law df Inl] r by simp
next
  case (Inr rs)
  let ?ks = "(case h of None \<Rightarrow> \<lambda>ks. ks | Some k \<Rightarrow> add_key k) (add_key t (fr_columns df))"
  have "map fst row' = ?ks" if h: "harmonize_row tt p t h row = Inr row'" and k: "map fst row = fr_columns df" for row row'
  proof -
    from h obtain x toks where x: "map_of row p = Some x" "tt_harmonize tt x = Inr toks"
      by (auto simp: harmonize_row_def split: option.splits sum.splits)
    show ?thesis
    proof (cases h)
      case None
      then show ?thesis using h k x by (auto simp: harmonize_row_def row_keys_update)
    next
      case (Some c)
      then have "\<exists>y. row' = AList.update c y (AList.update t toks row)"
        using h x by (cases "tt_to_text tt toks") (auto simp: harmonize_row_def)
      then show ?thesis using k Some by (auto simp: row_keys_update)
    qed
  qed
  then have u: "list_all (\<lambda>r. map fst r = ?ks) rs"
    using map_result_member [OF Inr] df(1) by (fastforce simp: list_all_iff frame_wf_def)
  have "pd_apply pd (harmonize_row tt p t h) df = Inr \<lparr>fr_columns = ?ks, fr_rows = rs\<rparr>"
    by (rule apply_ok [OF law df Inr u])
  then show ?thesis using r u map_result_length [OF Inr] by (auto simp: frame_wf_def)
qed

lemma call_keeps:
  assumes law: "apply_law pd" "columns_law pd" and df: "frame_wf df" "fr_rows df \<noteq> []"
    and t: "case t of FusedRowProcessor ps \<Rightarrow> list_all is_formatter ps | _ \<Rightarrow> True"
    and r: "snd (call_transform pd tt t df) = Inr d"
  shows "frame_wf d \<and> fr_rows d \<noteq> []"
proof -
  have formatted: "frame_wf d \<and> length (fr_rows d) = length (fr_rows df)"
    if ps: "list_all is_formatter ps" and a: "pd_apply pd (process_rows tt ps) df = Inr d" for ps
  proof -
    obtain rs where m: "map_result (process_rows tt ps) (fr_rows df) = Inr rs"
      and d: "d = \<lparr>fr_columns = keys_after ps (fr_columns df), fr_rows = rs\<rparr>"
      using apply_formatters [OF law(1) ps df] a by (cases "map_result (process_rows tt ps) (fr_rows df)") auto
    have "map fst r = keys_after ps (fr_columns df)" if "r \<in> set rs" for r
      using map_result_member [OF m that] process_rows_keys [OF ps] df(1) by (auto simp: frame_wf_def list_all_iff)
    then show ?thesis using map_result_length [OF m] by (simp add: d frame_wf_def list_all_iff)
  qed
  have kept: "frame_wf d \<and> fr_rows d \<noteq> []" if "keeps_rows df d" for d
    using that df by (auto simp: keeps_rows_def)
  have len: "frame_wf d \<and> fr_rows d \<noteq> []" if "frame_wf d \<and> length (fr_rows d) = length (fr_rows df)"
    using that df(2) by auto
  show ?thesis
  proof (cases t)
    case (UserPromptFormatter fmt out)
    with r have "pd_apply pd (process_rows tt [UserPromptFormatter fmt out]) df = Inr d"
      by (simp add: process_rows_single del: process_rows.simps)
    then show ?thesis by (intro len formatted [of "[UserPromptFormatter fmt out]"]) (simp_all add: is_formatter_def)
  next
    case (AddStaticColumns data ow)
    with r add_static_keeps [OF law(2)] show ?thesis by (intro kept) (fastforce simp del: add_static_columns.simps)
  next
    case (Harmonize p c h)
    have e: "process_row tt (Harmonize p c h) = harmonize_row tt p c h" by (rule ext) simp
    show ?thesis
    proof (cases "c \<in> set (fr_columns df)")
      case True
      with r Harmonize df show ?thesis by simp
    next
      case False
      with r Harmonize have "pd_apply pd (process_row tt (Harmonize p c h)) df = Inr d" by (simp del: process_row.simps)
      then have "pd_apply pd (harmonize_row tt p c h) df = Inr d" unfolding e .
      then show ?thesis by (rule len [OF apply_harmonize_keeps [OF law(1) df]])
    qed
  next
    case (ColumnFilter req opt)
    with r law(2) show ?thesis by (intro kept) (auto simp: columns_law_def Let_def)
  next
    case (ColumnRemap pairs strict)
    with r obtain cols where "d = pd_rename pd cols df"
      by (cases "new_columns strict (fr_columns df) pairs []") auto
    with law(2) show ?thesis by (intro kept) (simp add: columns_law_def)
  next
    case (FusedRowProcessor ps)
    have e: "process_row tt (FusedRowProcessor ps) = process_rows tt ps" by (rule ext) simp
    from r t FusedRowProcessor show ?thesis
      by (intro len formatted [of ps]) (simp_all add: e del: process_row.simps)
  qed
qed

lemma flush_equiv:
  assumes law: "apply_law pd" and df: "frame_wf df" "fr_rows df \<noteq> []"
    and acc: "fuses_formatters_only (flush_fused acc)"
  shows "(snd (run_transforms pd tt (flush_fused acc) df) = Inr d) = (snd (run_transforms pd tt acc df) = Inr d)"
proof -
  consider "acc = []" | p where "acc = [p]" | p q ps where "acc = p # q # ps" by (metis neq_Nil_conv)
  then show ?thesis
  proof cases
    case (3 p q ps)
    then have f: "list_all is_formatter acc" and c: "flush_fused acc = [FusedRowProcessor acc]"
      using acc by (simp_all add: flush_fused_def create_fused_transform_def fuses_formatters_only_def)
    have e: "process_row tt (FusedRowProcessor acc) = process_rows tt acc" by (rule ext) simp
    have "snd (run_transforms pd tt (flush_fused acc) df) = pd_apply pd (process_rows tt acc) df"
      unfolding c by (simp add: e del: process_row.simps split: sum.split prod.split)
    then show ?thesis using fused_formatters [OF law f df, of tt d] by (simp only:)
  qed (simp_all add: flush_fused_def create_fused_transform_def)
qed

lemma run_keeps:
  assumes law: "apply_law pd" "columns_law pd"
  shows "frame_wf df \<Longrightarrow> fr_rows df \<noteq> [] \<Longrightarrow> fuses_formatters_only ts \<Longrightarrow> snd (run_transforms pd tt ts df) = Inr d \<Longrightarrow>
    frame_wf d \<and> fr_rows d \<noteq> []"
proof (induction ts arbitrary: df)
  case (Cons t ts)
  obtain t' r where c: "call_transform pd tt t df = (t', r)" by force
  then obtain d1 where d1: "r = Inr d1" and rest: "snd (run_transforms pd tt ts d1) = Inr d"
    using Cons.prems(4) by (cases r) (auto split: prod.splits)
  have "frame_wf d1 \<and> fr_rows d1 \<noteq> []"
    by (rule call_keeps [OF law Cons.prems(1,2), of t tt]) (use Cons.prems(3) c d1 in \<open>simp_all add: fuses_formatters_only_def\<close>)
  then show ?case using Cons.IH [OF _ _ _ rest] Cons.prems(3) by (simp add: fuses_formatters_only_def)
qed simp

lemma fuse_equiv:
  assumes law: "apply_law pd" "columns_law pd"
  shows "frame_wf df \<Longrightarrow> fr_rows df \<noteq> [] \<Longrightarrow> fuses_formatters_only (fuse acc ts) \<Longrightarrow>
    (snd (run_transforms pd tt (fuse acc ts) df) = Inr d) = (snd (run_transforms pd tt (acc @ ts) df) = Inr d)"
proof (induction ts arbitrary: acc df)
  case Nil
  then show ?case using flush_equiv [OF law(1)] by simp
next
  case (Cons t ts)
  show ?case
  proof (cases "is_row_processor t")
    case True
    then show ?thesis using Cons.IH [of df "acc @ [t]"] Cons.prems by simp
  next
    case False
    then have parts: "fuses_formatters_only (flush_fused acc)" "fuses_formatters_only [t]" "fuses_formatters_only (fuse [] ts)"
      using Cons.prems(3) by (simp_all add: fuses_formatters_only_def)
    have IH: "(snd (run_transforms pd tt (t # fuse [] ts) df') = Inr d) = (snd (run_transforms pd tt (t # ts) df') = Inr d)"
      if wf: "frame_wf df'" "fr_rows df' \<noteq> []" for df'
    proof -
      obtain t' r where c: "call_transform pd tt t df' = (t', r)" by force
      show ?thesis
      proof (cases r)
        case (Inr d1)
        have "frame_wf d1 \<and> fr_rows d1 \<noteq> []"
          by (rule call_keeps [OF law wf, of t tt]) (use parts(2) c Inr in \<open>simp_all add: fuses_formatters_only_def\<close>)
        then have "(snd (run_transforms pd tt (fuse [] ts) d1) = Inr d) = (snd (run_transforms pd tt ts d1) = Inr d)"
          using Cons.IH [of d1 "[]"] parts(3) by simp
        then show ?thesis
          by (cases "run_transforms pd tt (fuse [] ts) d1"; cases "run_transforms pd tt ts d1") (simp add: c Inr)
      qed (simp add: c)
    qed
    have "(snd (run_transforms pd tt (flush_fused acc @ t # fuse [] ts) df) = Inr d)
        = (snd (run_transforms pd tt (acc @ t # ts) df) = Inr d)" (is "?l = ?r")
    proof -
      have "?l \<longleftrightarrow> (\<exists>d1. snd (run_transforms pd tt (flush_fused acc) df) = Inr d1
          \<and> snd (run_transforms pd tt (t # fuse [] ts) d1) = Inr d)"
        unfolding run_append by (cases "snd (run_transforms pd tt (flush_fused acc) df)") simp_all
      also have "\<dots> \<longleftrightarrow> (\<exists>d1. snd (run_transforms pd tt (flush_fused acc) df) = Inr d1
          \<and> snd (run_transforms pd tt (t # ts) d1) = Inr d)"
        using run_keeps [OF law Cons.prems(1,2) parts(1), of tt] IH by blast
      also have "\<dots> \<longleftrightarrow> (\<exists>d1. snd (run_transforms pd tt acc df) = Inr d1 \<and> snd (run_transforms pd tt (t # ts) d1) = Inr d)"
        using flush_equiv [OF law(1) Cons.prems(1,2) parts(1), of tt] by simp
      also have "\<dots> \<longleftrightarrow> ?r"
        unfolding run_append by (cases "snd (run_transforms pd tt acc df)") simp_all
      finally show ?thesis .
    qed
    then show ?thesis using False by simp
  qed
qed

section \<open>The equivalence\<close>

text \<open>A frame library that works on the rows directly, for the concrete runs.\<close>

definition rename_key :: "(string \<times> string) list \<Rightarrow> string \<Rightarrow> string" where
  "rename_key cs k = (case map_of cs k of Some k' \<Rightarrow> k' | None \<Rightarrow> k)"

definition set_cells :: "(pydict \<Rightarrow> bool) \<Rightarrow> string \<Rightarrow> pyval list \<Rightarrow> frame \<Rightarrow> frame" where
  "set_cells gap k vs df = \<lparr>fr_columns = add_key k (fr_columns df),
     fr_rows = map (\<lambda>(row, v). if gap row then AList.update k v row else row) (zip (fr_rows df) vs)\<rparr>"

definition cells_of :: "pyval \<Rightarrow> frame \<Rightarrow> pyval list result" where
  "cells_of v df = (case v of
       PList vs \<Rightarrow> if length vs = length (fr_rows df) then Inr vs else Inl ValueError
     | _ \<Rightarrow> Inr (replicate (length (fr_rows df)) v))"

definition list_pandas :: pandas where
  "list_pandas = \<lparr>
     pd_apply = (\<lambda>f df. if fr_rows df = [] then Inr df
        else map_sum id (\<lambda>rs. \<lparr>fr_columns = map fst (hd rs), fr_rows = rs\<rparr>) (map_result f (fr_rows df))),
     pd_select = (\<lambda>cs df. if list_all (\<lambda>c. c \<in> set (fr_columns df)) cs
        then Inr \<lparr>fr_columns = concat (map (\<lambda>c. filter (\<lambda>k. k = c) (fr_columns df)) cs),
                  fr_rows = map (\<lambda>row. concat (map (\<lambda>c. filter (\<lambda>(k, v). k = c) row) cs)) (fr_rows df)\<rparr>
        else Inl KeyError),
     pd_rename = (\<lambda>cs df. \<lparr>fr_columns = map (rename_key cs) (fr_columns df),
        fr_rows = map (map (\<lambda>(k, v). (rename_key cs k, v))) (fr_rows df)\<rparr>),
     pd_assign = (\<lambda>k v df. map_sum id (\<lambda>vs. set_cells (\<lambda>row. True) k vs df) (cells_of v df)),
     pd_fill = (\<lambda>k v df. if k \<notin> set (fr_columns df) then Inl KeyError else map_sum id (\<lambda>vs. set_cells (\<lambda>row. dget row k \<in> {PNone, PFloat NaN}) k vs df) (cells_of v df))\<rparr>"

lemma list_pandas_apply: "apply_law list_pandas"
  unfolding apply_law_def
proof (intro allI impI)
  fix f :: "pydict \<Rightarrow> pydict result" and df
  assume df: "frame_wf df \<and> fr_rows df \<noteq> []"
  show "case map_result f (fr_rows df) of
      Inl e \<Rightarrow> pd_apply list_pandas f df = Inl e
    | Inr rs \<Rightarrow> (\<forall>ks. list_all (\<lambda>r. map fst r = ks) rs \<longrightarrow> pd_apply list_pandas f df = Inr \<lparr>fr_columns = ks, fr_rows = rs\<rparr>)"
  proof (cases "map_result f (fr_rows df)")
    case (Inr rs)
    then have "rs \<noteq> []" using df map_result_length by fastforce
    then show ?thesis using df Inr by (cases rs) (auto simp: list_pandas_def)
  qed (use df in \<open>simp add: list_pandas_def\<close>)
qed

lemma cells_of_length: "cells_of v df = Inr vs \<Longrightarrow> length vs = length (fr_rows df)"
  by (cases v) (auto simp: cells_of_def split: if_splits)

lemma set_cells_keeps:
  assumes "length vs = length (fr_rows df)" "k \<in> set (fr_columns df) \<or> (\<forall>row. gap row)"
  shows "keeps_rows df (set_cells gap k vs df)"
proof -
  have "map fst (if gap row then AList.update k v row else row) = add_key k (fr_columns df)"
    if "map fst row = fr_columns df" for row v
    using that assms(2) by (auto simp: row_keys_update add_key_def)
  then show ?thesis using assms(1)
    by (auto simp: keeps_rows_def frame_wf_def set_cells_def list_all_iff dest!: set_zip_leftD)
qed

lemma select_keys: "map fst row = cols \<Longrightarrow>
    map fst (concat (map (\<lambda>c. filter (\<lambda>(k, v). k = c) row) cs)) = concat (map (\<lambda>c. filter (\<lambda>k. k = c) cols) cs)"
proof -
  have f: "map fst (filter (\<lambda>(k, v). k = c) row) = filter (\<lambda>k. k = c) (map fst row)" for c
    by (induction row) auto
  assume "map fst row = cols"
  then show ?thesis by (simp add: map_concat f comp_def)
qed

definition plain_tools :: text_tools where
  "plain_tools = \<lparr>tt_render = (\<lambda>rest v. case v of PStr s \<Rightarrow> Inr s | _ \<Rightarrow> Inl TypeError),
     tt_harmonize = (\<lambda>v. Inr (PList [v])), tt_to_text = (\<lambda>v. Inr v), tt_set_order = id\<rparr>"

definition example_transforms :: "transform list" where
  "example_transforms =
     [UserPromptFormatter ''Q: {question}'' ''prompt'', UserPromptFormatter ''{prompt}.'' ''prompt'',
      ColumnFilter [''prompt''] (Some [''system''])]"

definition example_questions :: frame where
  "example_questions = \<lparr>fr_columns = [''question''], fr_rows = [[(''question'', PStr ''1+1'')], [(''question'', PStr ''2+2'')]]\<rparr>"

lemma rename_keys: "map fst row = ks \<Longrightarrow> map (fst \<circ> (\<lambda>(k, v). (f k, v))) row = map f ks"
  by (induction row arbitrary: ks) auto

lemma list_pandas_columns: "columns_law list_pandas"
  unfolding columns_law_def
proof (intro conjI allI impI)
  fix cs :: "string list" and df df'
  assume "pd_select list_pandas cs df = Inr df'"
  then show "keeps_rows df df'"
    by (auto simp: list_pandas_def keeps_rows_def frame_wf_def list_all_iff select_keys split: if_splits)
next
  fix cs df
  show "keeps_rows df (pd_rename list_pandas cs df)"
    by (auto simp: list_pandas_def keeps_rows_def frame_wf_def list_all_iff rename_keys)
next
  fix k v df df'
  assume "pd_assign list_pandas k v df = Inr df'"
  then obtain vs where "cells_of v df = Inr vs" "df' = set_cells (\<lambda>row. True) k vs df"
    by (cases "cells_of v df") (auto simp: list_pandas_def)
  then show "keeps_rows df df'" by (simp add: set_cells_keeps cells_of_length)
next
  fix k v df df'
  assume "pd_fill list_pandas k v df = Inr df'"
  then obtain vs where "cells_of v df = Inr vs" "k \<in> set (fr_columns df)"
      "df' = set_cells (\<lambda>row. dget row k \<in> {PNone, PFloat NaN}) k vs df"
    by (cases "cells_of v df") (auto simp: list_pandas_def split: if_splits)
  then show "keeps_rows df df'" by (simp add: set_cells_keeps cells_of_length)
qed

text \<open>C40. Fusing consecutive row processors into one pass over the rows changes nothing: a pipeline whose fused
  runs are prompt formatters yields exactly the frame that its transforms yield one after the other, and it
  yields none exactly when they do not.\<close>

lemma fusing_row_processors_changes_nothing:
  assumes "apply_law pd" "columns_law pd" "frame_wf df" "fr_rows df \<noteq> []" "fuses_formatters_only (fuse [] ts)"
  shows "(snd (apply_transforms pd tt ts True df) = Inr d) = (snd (apply_transforms pd tt ts False df) = Inr d)"
  using fuse_equiv [OF assms] by (simp add: apply_transforms_def)

lemma fusing_row_processors_changes_nothing_witness:
  "snd (apply_transforms list_pandas plain_tools example_transforms True example_questions) =
     Inr \<lparr>fr_columns = [''prompt''], fr_rows = [[(''prompt'', PStr ''Q: 1+1.'')], [(''prompt'', PStr ''Q: 2+2.'')]]\<rparr>"
proof -
  have "snd (apply_transforms list_pandas plain_tools example_transforms False example_questions) =
     Inr \<lparr>fr_columns = [''prompt''], fr_rows = [[(''prompt'', PStr ''Q: 1+1.'')], [(''prompt'', PStr ''Q: 2+2.'')]]\<rparr>"
    by code_simp
  moreover have "frame_wf example_questions" "fr_rows example_questions \<noteq> []" "fuses_formatters_only (fuse [] example_transforms)"
    by code_simp+
  ultimately show ?thesis
    using fusing_row_processors_changes_nothing [OF list_pandas_apply list_pandas_columns] by blast
qed

text \<open>
  Without the condition it may: a fused \<open>Harmonize\<close> does not see that the frame has tokens already, and replaces
  them, where the transform on its own returns the frame as it is.
\<close>

lemma fused_harmonize_replaces_tokens:
  "let ts = [UserPromptFormatter ''{question}'' ''prompt'', Harmonize ''prompt'' ''input_tokens'' None];
       df = \<lparr>fr_columns = [''question'', ''input_tokens''],
             fr_rows = [[(''question'', PStr ''q''), (''input_tokens'', PList [PInt 7])]]\<rparr>;
       cell = (\<lambda>r. map_sum id (\<lambda>d. map (\<lambda>row. dget row ''input_tokens'') (fr_rows d)) (snd r))
   in cell (apply_transforms list_pandas plain_tools ts False df) = Inr [PList [PInt 7]]
     \<and> cell (apply_transforms list_pandas plain_tools ts True df) = Inr [PList [PStr ''q'']]"
  by code_simp

text \<open>
  A filter extends its own list of required columns when it is called, so the second frame it sees must have the
  optional columns of the first.
\<close>

lemma column_filter_remembers_optional_columns:
  assumes "columns_to_keep tt req (Some opts) df = req @ [c]" "c \<notin> set (fr_columns df')"
    "\<And>cs d. c \<in> set cs \<Longrightarrow> c \<notin> set (fr_columns d) \<Longrightarrow> pd_select pd cs d = Inl KeyError"
  shows "snd (call_transform pd tt (fst (call_transform pd tt (ColumnFilter req (Some opts)) df)) df') = Inl KeyError"
  using assms by (simp add: columns_to_keep_def Let_def)

text \<open>
  A remap of fuzzy column names does not look whether its target exists: a data set that a parser has already
  given its \<open>prompt\<close> and that also has a column named like a prompt gets two columns of that name.
\<close>

lemma remap_may_duplicate_the_prompt:
  "map_sum id fr_columns (snd (call_transform list_pandas plain_tools make_adapter_compatible
     \<lparr>fr_columns = [''prompt'', ''question''], fr_rows = []\<rparr>)) = Inr [''prompt'', ''prompt'']"
  by code_simp

end
