(* ===== verification/AdapterFacts.thy ===== *)
theory AdapterFacts
  imports Adapters TransformFacts
begin

text \<open>
  From row to request: what a data set is loaded to, what of it and of the configuration a request carries, and
  where a warmup salt ends up.
\<close>

section \<open>Laws of selecting and assigning columns\<close>

text \<open>
  Selecting distinct columns that are there gives these columns; assigning a value that is no sequence (a
  dictionary once per row) sets it in every row.
\<close>

definition project :: "string list \<Rightarrow> pydict \<Rightarrow> pydict" where
  "project cs row = map (\<lambda>c. (c, dget row c)) cs"

definition select_law :: "pandas \<Rightarrow> bool" where
  "select_law pd \<longleftrightarrow> (\<forall>cs df. frame_wf df \<and> distinct (fr_columns df) \<and> distinct cs \<and> set cs \<subseteq> set (fr_columns df) \<longrightarrow>
     pd_select pd cs df = Inr \<lparr>fr_columns = cs, fr_rows = map (project cs) (fr_rows df)\<rparr>)"

definition assign_law :: "pandas \<Rightarrow> bool" where
  "assign_law pd \<longleftrightarrow> (\<forall>k v df. frame_wf df \<and> distinct (fr_columns df) \<and> seq_elems v = None \<longrightarrow>
     pd_assign pd k (static_value v (length (fr_rows df))) df =
       Inr \<lparr>fr_columns = add_key k (fr_columns df), fr_rows = map (AList.update k v) (fr_rows df)\<rparr>)"

section \<open>Adding configured columns\<close>

definition set_keys :: "pydict \<Rightarrow> pydict \<Rightarrow> pydict" where
  "set_keys row kvs = foldl (\<lambda>r (k, v). AList.update k v r) row kvs"

lemma set_keys_simps [simp]: "set_keys row [] = row" "set_keys row ((k, v) # kvs) = set_keys (AList.update k v row) kvs"
  by (simp_all add: set_keys_def)

lemma map_of_rev_keys:
  assumes "distinct (map fst xs)"
  shows "map_of (rev xs) = map_of xs"
proof (rule ext)
  fix k
  have "map_of (rev xs) k = Some v \<longleftrightarrow> map_of xs k = Some v" for v
    using assms by (simp add: map_of_eq_Some_iff rev_map [symmetric])
  then show "map_of (rev xs) k = map_of xs k"
    by (cases "map_of xs k"; cases "map_of (rev xs) k") auto
qed

lemma map_of_set_keys: "distinct (map fst kvs) \<Longrightarrow> map_of (set_keys row kvs) = map_of row ++ map_of kvs"
proof -
  assume d: "distinct (map fst kvs)"
  have "set_keys row kvs = dmerge row kvs" by (simp add: set_keys_def dmerge_def)
  then show ?thesis using d by (simp add: map_of_dmerge map_of_rev_keys)
qed

lemma add_key_distinct: "distinct ks \<Longrightarrow> distinct (add_key k ks)"
  by (simp add: add_key_def)

lemma set_add_key: "set (add_key k ks) = insert k (set ks)"
  by (auto simp: add_key_def)

lemma frame_wf_update:
  "frame_wf df \<Longrightarrow> frame_wf \<lparr>fr_columns = add_key k (fr_columns df), fr_rows = map (AList.update k v) (fr_rows df)\<rparr>"
  by (simp add: frame_wf_def list_all_iff row_keys_update)

lemma add_static_columns_overwrite:
  assumes "assign_law pd"
  shows "frame_wf df \<Longrightarrow> distinct (fr_columns df) \<Longrightarrow> list_all (\<lambda>(k, v). seq_elems v = None) kvs \<Longrightarrow> n = length (fr_rows df) \<Longrightarrow>
    \<exists>df'. add_static_columns pd True n kvs df = Inr df' \<and> fr_rows df' = map (\<lambda>row. set_keys row kvs) (fr_rows df)
      \<and> set (fr_columns df') = set (fr_columns df) \<union> fst ` set kvs \<and> distinct (fr_columns df') \<and> frame_wf df'"
proof (induction kvs arbitrary: df)
  case (Cons kv kvs)
  obtain k v where kv: "kv = (k, v)" by force
  let ?d = "\<lparr>fr_columns = add_key k (fr_columns df), fr_rows = map (AList.update k v) (fr_rows df)\<rparr>"
  have "pd_assign pd k (static_value v n) df = Inr ?d"
    using assms Cons.prems unfolding assign_law_def kv by simp
  then have s: "add_static_columns pd True n (kv # kvs) df = add_static_columns pd True n kvs ?d"
    by (simp add: kv add_static_column_def)
  have "\<exists>df'. add_static_columns pd True n kvs ?d = Inr df' \<and> fr_rows df' = map (\<lambda>row. set_keys row kvs) (fr_rows ?d)
      \<and> set (fr_columns df') = set (fr_columns ?d) \<union> fst ` set kvs \<and> distinct (fr_columns df') \<and> frame_wf df'"
    by (rule Cons.IH) (use Cons.prems in \<open>simp_all add: frame_wf_update add_key_distinct\<close>)
  then show ?case unfolding s by (auto simp: kv set_add_key comp_def)
qed auto

section \<open>From the sample to the request\<close>

lemma map_of_optional_fields:
  "map_of (optional_fields d ks) k = (if k \<in> set ks \<and> dget d k \<noteq> PNone then Some (dget d k) else None)"
  by (induction ks) (auto simp: optional_fields_def is_none_def)

lemma dget_optional_fields: "k \<in> set ks \<Longrightarrow> dget (optional_fields d ks) k = dget d k"
  by (simp add: dget_def [of "optional_fields d ks"] map_of_optional_fields)

lemma prompt_messages_cong:
  assumes "map_of d ''prompt'' = map_of e ''prompt''" "map_of d ''system'' = map_of e ''system''" "map_of d ''name'' = map_of e ''name''"
  shows "prompt_messages d = prompt_messages e"
proof -
  have "dget d ''name'' = dget e ''name''" using assms(3) by (simp add: dget_def)
  then show ?thesis unfolding prompt_messages_def assms(1,2) by (simp only:)
qed

lemma openai_request_prompt:
  assumes "map_of d ''messages'' = None" "prompt_messages d = Inr ms"
  shows "openai_request d = Inr ([(''model'', get_or d ''model'' (PStr ''no-model-name'')), (''messages'', PList ms)]
        @ optional_fields d OPENAI_OPTIONAL_FIELDS)"
  using assms by (simp add: openai_request_def request_messages_def)

lemma map_of_project: "map_of (project cs row) k = (if k \<in> set cs then Some (dget row k) else None)"
  by (induction cs) (auto simp: project_def)

lemma map_of_keys: "map_of d k \<noteq> None \<longleftrightarrow> k \<in> set (map fst d)"
  by (simp add: map_of_eq_None_iff)

definition openai_filter_columns :: "string list" where
  "openai_filter_columns = [''system'', ''messages'', ''tools'', ''tool_choice'', ''name'', ''n'', ''stop'', ''logit_bias'', ''user'', ''chat_template'']"

definition honest_set_order :: "text_tools \<Rightarrow> bool" where
  "honest_set_order tt \<longleftrightarrow> (\<forall>xs. distinct xs \<longrightarrow> distinct (tt_set_order tt xs) \<and> set (tt_set_order tt xs) = set xs)"

definition scalar_knobs :: "model_params \<Rightarrow> bool" where
  "scalar_knobs mp = list_all (\<lambda>(k, v). seq_elems v = None) (openai_metadata mp)"

lemma openai_metadata_keys:
  "distinct (map fst (openai_metadata mp))"
  "fst ` set (openai_metadata mp) \<inter> {''prompt'', ''system'', ''name'', ''messages''} = {}"
  "k \<in> fst ` set (openai_metadata mp) \<Longrightarrow> k = ''model'' \<or> k \<in> set OPENAI_OPTIONAL_FIELDS"
  by (auto simp: openai_metadata_def knobs_def OPENAI_OPTIONAL_FIELDS_def)

text \<open>Loading for the OpenAI adapter: each row is projected and the configured columns are set in it.\<close>

lemma openai_rows_loaded:
  assumes pd: "select_law pd" "assign_law pd" "honest_set_order tt"
    and df: "frame_wf df" "distinct (fr_columns df)" "fr_rows df \<noteq> []" "''prompt'' \<in> set (fr_columns df)"
    and mp: "scalar_knobs mp"
  shows "\<exists>cs. distinct cs \<and> set cs = insert ''prompt'' (set openai_filter_columns \<inter> set (fr_columns df))
    \<and> dataset_records pd tt [] (Some (OPENAI, mp)) (Some df) =
        Inr (map (\<lambda>row. PDict (dmerge [] (set_keys (project cs row) (openai_metadata mp)))) (fr_rows df))"
proof -
  let ?opts = "remdups (filter (\<lambda>c. c \<in> set openai_filter_columns) (fr_columns df))"
  let ?cs = "[''prompt''] @ tt_set_order tt ?opts"
  let ?d1 = "\<lparr>fr_columns = ?cs, fr_rows = map (project ?cs) (fr_rows df)\<rparr>"
  have o: "distinct (tt_set_order tt ?opts)" "set (tt_set_order tt ?opts) = set openai_filter_columns \<inter> set (fr_columns df)"
    using pd(3) unfolding honest_set_order_def by (metis distinct_remdups, metis distinct_remdups set_remdups set_filter Int_def inf_commute Int_Collect mem_Collect_eq)
  have "''prompt'' \<notin> set openai_filter_columns" by (simp add: openai_filter_columns_def)
  then have cs: "distinct ?cs" "set ?cs = insert ''prompt'' (set openai_filter_columns \<inter> set (fr_columns df))" "set ?cs \<subseteq> set (fr_columns df)"
    using o df(4) by auto
  have sel: "pd_select pd ?cs df = Inr ?d1"
    using pd(1) df(1,2) cs(1,3) unfolding select_law_def by blast
  have wf1: "frame_wf ?d1" by (simp add: frame_wf_def list_all_iff project_def comp_def)
  obtain df' where add: "add_static_columns pd True (length (fr_rows ?d1)) (openai_metadata mp) ?d1 = Inr df'"
    and rows: "fr_rows df' = map (\<lambda>row. set_keys row (openai_metadata mp)) (fr_rows ?d1)"
    using add_static_columns_overwrite [OF pd(2) wf1, of "openai_metadata mp" "length (fr_rows ?d1)"] cs(1) mp
    unfolding scalar_knobs_def by auto
  have t: "openai_transforms mp = [ColumnFilter [''prompt''] (Some openai_filter_columns), AddStaticColumns (openai_metadata mp) True]"
    by (simp add: openai_transforms_def openai_filter_columns_def)
  have f: "fuse [] (openai_transforms mp) = openai_transforms mp"
    by (simp add: t is_row_processor_def flush_fused_def)
  have keep: "columns_to_keep tt [''prompt''] (Some openai_filter_columns) df = ?cs"
    by (simp add: columns_to_keep_def)
  have run: "snd (apply_transforms pd tt (openai_transforms mp) True df) = Inr df'"
    unfolding apply_transforms_def if_P [OF refl] f using sel add by (simp add: t keep Let_def)
  have "dataset_records pd tt [] (Some (OPENAI, mp)) (Some df) = Inr (to_records df')"
    using run rows df(3) by (simp add: dataset_records_def load_pipeline_def get_transforms_for_api_type_def t)
  also have "to_records df' = map (\<lambda>row. PDict (dmerge [] (set_keys (project ?cs row) (openai_metadata mp)))) (fr_rows df)"
    by (simp add: to_records_def rows comp_def)
  finally show ?thesis using cs(1,2) by blast
qed

lemma dget_eq: "map_of d k = map_of e k \<Longrightarrow> dget d k = dget e k"
  by (simp add: dget_def)

lemma map_of_loaded:
  assumes "distinct cs"
  shows "map_of (dmerge [] (set_keys (project cs row) (openai_metadata mp))) = map_of (project cs row) ++ map_of (openai_metadata mp)"
proof -
  have "dict_wf (project cs row)" using assms by (simp add: dict_wf_def project_def comp_def)
  then have "dict_wf (set_keys (project cs row) (openai_metadata mp))"
    using dmerge_wf by (simp add: set_keys_def dmerge_def)
  then show ?thesis by (simp add: map_of_dmerge map_of_rev_keys dict_wf_def map_of_set_keys openai_metadata_keys(1))
qed

lemma loaded_prompt_keys:
  assumes row: "map fst row = cols" and cs: "distinct cs" "set cs = insert ''prompt'' (set openai_filter_columns \<inter> set cols)"
    and k: "k = ''prompt'' \<or> k = ''system'' \<or> k = ''name'' \<or> k = ''messages''" and p: "''prompt'' \<in> set cols"
  shows "map_of (dmerge [] (set_keys (project cs row) (openai_metadata mp))) k = map_of row k"
proof -
  have "k \<notin> fst ` set (openai_metadata mp)" using k openai_metadata_keys(2) [of mp] by blast
  then have no: "map_of (openai_metadata mp) k = None" by (simp add: map_of_eq_None_iff)
  have "k \<in> set cs \<longleftrightarrow> k \<in> set cols" using k p cs(2) by (auto simp: openai_filter_columns_def)
  also have "\<dots> \<longleftrightarrow> map_of row k \<noteq> None" using row map_of_keys [of row k] by simp
  finally have "map_of (project cs row) k = map_of row k"
    by (cases "map_of row k") (simp_all add: map_of_project dget_def)
  then show ?thesis using no by (simp add: map_of_loaded [OF cs(1)] map_add_def)
qed

lemma loaded_metadata_keys:
  assumes "distinct cs" "(k, v) \<in> set (openai_metadata mp)"
  shows "map_of (dmerge [] (set_keys (project cs row) (openai_metadata mp))) k = Some v"
  using assms openai_metadata_keys(1) by (simp add: map_of_loaded)

text \<open>Loading a data set for the OpenAI chat API turns every row into exactly one sample, in order, and the
  request made of the sample is the row's own: its messages are built from the row's prompt and system text, and
  every configured generation parameter is in it with its configured value (none if it is not configured).\<close>

lemma rows_become_configured_requests:
  assumes "select_law pd" "assign_law pd" "honest_set_order tt"
    and "frame_wf df" "distinct (fr_columns df)" "fr_rows df \<noteq> []"
    and "''prompt'' \<in> set (fr_columns df)" "''messages'' \<notin> set (fr_columns df)" "scalar_knobs mp"
  shows "\<exists>samples. dataset_records pd tt [] (Some (OPENAI, mp)) (Some df) = Inr (map PDict samples)
    \<and> list_all2 (\<lambda>row d. \<exists>ms req. prompt_messages row = Inr ms \<and> openai_request d = Inr req
          \<and> dget req ''messages'' = PList ms \<and> list_all (\<lambda>(k, v). dget req k = v) (openai_metadata mp))
        (fr_rows df) samples"
proof -
  obtain cs where cs: "distinct cs" "set cs = insert ''prompt'' (set openai_filter_columns \<inter> set (fr_columns df))"
    and load: "dataset_records pd tt [] (Some (OPENAI, mp)) (Some df) =
        Inr (map (\<lambda>row. PDict (dmerge [] (set_keys (project cs row) (openai_metadata mp)))) (fr_rows df))"
    using openai_rows_loaded [OF assms(1-7) assms(9)] by blast
  define sample where "sample row = dmerge [] (set_keys (project cs row) (openai_metadata mp))" for row
  have "\<exists>ms req. prompt_messages row = Inr ms \<and> openai_request (sample row) = Inr req
      \<and> dget req ''messages'' = PList ms \<and> list_all (\<lambda>(k, v). dget req k = v) (openai_metadata mp)"
    if "row \<in> set (fr_rows df)" for row
  proof -
    have row: "map fst row = fr_columns df" using that assms(4) by (simp add: frame_wf_def list_all_iff)
    have keys: "map_of (sample row) k = map_of row k" if "k = ''prompt'' \<or> k = ''system'' \<or> k = ''name'' \<or> k = ''messages''" for k
      unfolding sample_def by (rule loaded_prompt_keys [OF row cs that assms(7)])
    have pm: "prompt_messages (sample row) = prompt_messages row" by (rule prompt_messages_cong) (simp_all add: keys)
    have "map_of row ''prompt'' \<noteq> None" using row assms(7) map_of_keys [of row] by simp
    then obtain ms where ms: "prompt_messages row = Inr ms" by (auto simp: prompt_messages_def Let_def)
    have "map_of row ''messages'' = None" using row assms(8) by (metis map_of_keys)
    then have "map_of (sample row) ''messages'' = None" by (simp add: keys)
    note req = openai_request_prompt [OF this pm [unfolded ms]]
    let ?req = "[(''model'', get_or (sample row) ''model'' (PStr ''no-model-name'')), (''messages'', PList ms)]
        @ optional_fields (sample row) OPENAI_OPTIONAL_FIELDS"
    have "dget ?req k = v" if kv: "(k, v) \<in> set (openai_metadata mp)" for k v
    proof -
      have v: "map_of (sample row) k = Some v" unfolding sample_def by (rule loaded_metadata_keys [OF cs(1) kv])
      have k: "k = ''model'' \<or> k \<in> set OPENAI_OPTIONAL_FIELDS" "k \<noteq> ''messages''"
        using openai_metadata_keys(2) [of mp] openai_metadata_keys(3) [of k mp] kv by (force, force)
      show ?thesis
      proof (cases "k = ''model''")
        case True
        then show ?thesis using v by (simp add: dget_def get_or_def)
      next
        case False
        then have "dget ?req k = dget (optional_fields (sample row) OPENAI_OPTIONAL_FIELDS) k"
          using k(2) by (simp add: dget_def)
        then show ?thesis using k(1) False v by (simp add: dget_optional_fields) (simp add: dget_def)
      qed
    qed
    moreover have "dget ?req ''messages'' = PList ms" by (simp add: dget_def)
    ultimately show ?thesis using ms req by (auto simp: list_all_iff)
  qed
  then have "list_all2 (\<lambda>row d. \<exists>ms req. prompt_messages row = Inr ms \<and> openai_request d = Inr req
          \<and> dget req ''messages'' = PList ms \<and> list_all (\<lambda>(k, v). dget req k = v) (openai_metadata mp))
        (fr_rows df) (map sample (fr_rows df))"
    by (simp add: list_all2_conv_all_nth)
  then show ?thesis using load by (intro exI [of _ "map sample (fr_rows df)"]) (simp add: sample_def comp_def)
qed

lemma filter_key:
  "distinct (map fst row) \<Longrightarrow> c \<in> fst ` set row \<Longrightarrow> filter (\<lambda>(k, v). k = c) row = [(c, dget row c)]"
proof (induction row)
  case (Cons kv row)
  obtain k v where kv: "kv = (k, v)" by force
  show ?case
  proof (cases "k = c")
    case True
    then have "filter (\<lambda>(k, v). k = c) row = []"
      using Cons.prems(1) by (force simp: kv filter_empty_conv)
    then show ?thesis by (simp add: kv True dget_def)
  next
    case False
    then have "dget (kv # row) c = dget row c" by (simp add: kv dget_def)
    then show ?thesis using Cons False by (simp add: kv)
  qed
qed simp

lemma list_pandas_select: "select_law list_pandas"
  unfolding select_law_def
proof (intro allI impI)
  fix cs df
  assume a: "frame_wf df \<and> distinct (fr_columns df) \<and> distinct cs \<and> set cs \<subseteq> set (fr_columns df)"
  have c: "filter (\<lambda>k. k = c) (fr_columns df) = [c]" if "c \<in> set cs" for c
  proof -
    have "filter (\<lambda>k. k = c) ks = [c]" if "c \<in> set ks" "distinct ks" for ks
      using that by (induction ks) (auto simp: filter_empty_conv)
    then show ?thesis using a that by auto
  qed
  have r: "filter (\<lambda>(k, v). k = c) row = [(c, dget row c)]" if "c \<in> set cs" "row \<in> set (fr_rows df)" for c row
  proof (rule filter_key)
    have row: "map fst row = fr_columns df" using a that(2) by (simp add: frame_wf_def list_all_iff)
    then show "distinct (map fst row)" "c \<in> fst ` set row" using a that(1) by (auto simp flip: set_map)
  qed
  have "concat (map (\<lambda>c. filter (\<lambda>k. k = c) (fr_columns df)) cs) = cs"
    using c by (simp add: map_idI cong: map_cong)
  moreover have "concat (map (\<lambda>c. filter (\<lambda>(k, v). k = c) row) cs) = project cs row" if "row \<in> set (fr_rows df)" for row
    using r that by (simp add: project_def cong: map_cong)
  ultimately show "pd_select list_pandas cs df = Inr \<lparr>fr_columns = cs, fr_rows = map (project cs) (fr_rows df)\<rparr>"
    using a by (auto simp: list_pandas_def list_all_iff)
qed

lemma list_pandas_assign: "assign_law list_pandas"
  unfolding assign_law_def
proof (intro allI impI)
  fix k :: string and v df
  assume "frame_wf df \<and> distinct (fr_columns df) \<and> seq_elems v = None"
  then have "cells_of (static_value v (length (fr_rows df))) df = Inr (replicate (length (fr_rows df)) v)"
    by (cases v) (auto simp: seq_elems_def static_value_def cells_of_def)
  moreover have "map (\<lambda>(row, v). AList.update k v row) (zip rows (replicate (length rows) v)) = map (AList.update k v) rows" for rows
    by (induction rows) auto
  ultimately show "pd_assign list_pandas k (static_value v (length (fr_rows df))) df =
      Inr \<lparr>fr_columns = add_key k (fr_columns df), fr_rows = map (AList.update k v) (fr_rows df)\<rparr>"
    by (simp add: list_pandas_def set_cells_def)
qed

definition example_params :: model_params where
  "example_params = \<lparr>mp_name = ''m'', mp_min_new_tokens = 1, mp_max_new_tokens = 64, mp_skip_special_tokens = True,
     mp_streaming = StreamOn, mp_tokenizer_name = None, mp_knobs = [(''temperature'', PInt 1)]\<rparr>"

definition example_prompts :: frame where
  "example_prompts = \<lparr>fr_columns = [''prompt'', ''system'', ''answer''],
     fr_rows = [[(''prompt'', PStr ''p''), (''system'', PStr ''s''), (''answer'', PInt 1)],
                [(''prompt'', PStr ''q''), (''system'', PStr ''t''), (''answer'', PInt 2)]]\<rparr>"

lemma rows_become_configured_requests_witness:
  "\<exists>samples. dataset_records list_pandas plain_tools [] (Some (OPENAI, example_params)) (Some example_prompts) = Inr (map PDict samples)
    \<and> list_all2 (\<lambda>row d. \<exists>ms req. prompt_messages row = Inr ms \<and> openai_request d = Inr req
          \<and> dget req ''messages'' = PList ms \<and> list_all (\<lambda>(k, v). dget req k = v) (openai_metadata example_params))
        (fr_rows example_prompts) samples"
  by (rule rows_become_configured_requests [OF list_pandas_select list_pandas_assign])
    (auto simp: honest_set_order_def plain_tools_def example_prompts_def frame_wf_def scalar_knobs_def openai_metadata_def
      example_params_def knobs_def knob_def dget_def seq_elems_def)

section \<open>Where the salt goes\<close>

definition last_user_content :: "pydict \<Rightarrow> pyval \<Rightarrow> bool" where
  "last_user_content req v = (\<exists>ms m. dget req ''messages'' = PList (ms @ [PDict m]) \<and> dget m ''role'' = PStr ''user'' \<and> dget m ''content'' = v)"

lemma map_of_filter_some: "map_of xs k = Some x \<Longrightarrow> P k x \<Longrightarrow> map_of (filter (\<lambda>(k, v). P k v) xs) k = Some x"
  by (induction xs) auto

lemma legacy_prompt:
  assumes "map_of d ''messages'' = None" "map_of d ''prompt'' = Some p"
  shows "\<exists>args ms. legacy_openai_request create d = create args
    \<and> dget args ''messages'' = PList (ms @ [PDict [(''role'', PStr ''user''), (''content'', p)]])"
proof -
  define ms where "ms = (case map_of d ''system'' of Some s \<Rightarrow> [PDict [(''role'', PStr ''system''), (''content'', s)]] | None \<Rightarrow> [])"
  show ?thesis
    unfolding legacy_openai_request_def ms_def [symmetric] using assms
    by (simp del: append.simps) (rule exI, rule conjI, rule refl, rule exI [of _ ms], simp add: dget_def)
qed

text \<open>C39. A salt is never lost on the way to the endpoint.  A sample that passes the check and is salted carries the
  salted prompt in every request an adapter makes of it: as the content of the last message of a chat request of
  either chat adapter, and as the prompt of a video request; the adapters that send tokens refuse the sample.  The
  chat request is always made; the other two are when the generated classes, which keep the prompt and the messages
  they are given, accept their arguments, and the video adapter only without streaming.\<close>

lemma salt_reaches_every_request:
  assumes salted: "check_unsaltable x = None" "apply_salt r x = (Inr y, r')"
    and validate: "\<And>args v. validate args = Inr v \<Longrightarrow> dget v ''prompt'' = dget args ''prompt''"
    and create: "\<And>args v. create args = Inr v \<Longrightarrow> dget v ''messages'' = dget args ''messages''"
  shows "\<exists>d p bs d'. x = PDict d \<and> dget d ''prompt'' = PStr p \<and> length bs = 8 \<and> y = PDict d'
    \<and> (\<exists>req. openai_request d' = Inr req \<and> last_user_content req (PStr (salted_prompt bs p)))
    \<and> (\<forall>req. legacy_openai_request create d' = Inr req \<longrightarrow> last_user_content req (PStr (salted_prompt bs p)))
    \<and> ((\<forall>args. is_ok (create args)) \<longrightarrow> is_ok (legacy_openai_request create d'))
    \<and> (\<forall>req. videogen_request validate d' = Inr req \<longrightarrow> dget req ''prompt'' = PStr (salted_prompt bs p))
    \<and> ((\<forall>args. is_ok (validate args)) \<and> \<not> truthy (dget d ''stream'') \<longrightarrow> is_ok (videogen_request validate d'))
    \<and> \<not> is_ok (completions_request d') \<and> \<not> is_ok (sglang_request is_default d')"
proof -
  obtain d p where x: "x = PDict d" and p: "dget d ''prompt'' = PStr p"
    and no: "\<not> has_key d ''input_tokens''" "\<not> has_key d ''messages''"
    using salted(1) by (auto simp: check_unsaltable_None)
  obtain bs r1 where bs: "randbytes 8 r = (bs, r1)" by force
  let ?p = "PStr (salted_prompt bs p)"
  let ?d = "dmerge d [(''prompt'', ?p)]"
  have y: "y = PDict ?d" using salted(2) by (simp add: apply_salt_def bs x p)
  have len: "length bs = 8" using length_randbytes [of 8 r] by (simp add: bs)
  have keys: "map_of ?d k = (if k = ''prompt'' then Some ?p else map_of d k)" for k
    by (simp add: map_of_dmerge map_add_def)
  have get: "dget ?d k = (if k = ''prompt'' then ?p else dget d k)" for k
    by (simp add: dget_def keys)
  let ?user = "(''role'', PStr ''user'') # filter (\<lambda>(k, v). \<not> is_none v) [(''content'', ?p), (''name'', dget ?d ''name'')]"
  obtain ms where ms: "prompt_messages ?d = Inr (ms @ [PDict ?user])"
    by (cases "map_of ?d ''system''") (auto simp: prompt_messages_def keys Let_def)
  have unset: "map_of ?d ''messages'' = None" using no(2) by (simp add: keys has_key_def)
  note req = openai_request_prompt [OF this ms]
  have user: "dget ?user ''role'' = PStr ''user''" "dget ?user ''content'' = ?p"
    by (simp_all add: dget_def is_none_def)
  have chat: "last_user_content ([(''model'', get_or ?d ''model'' (PStr ''no-model-name'')), (''messages'', PList (ms @ [PDict ?user]))]
        @ optional_fields ?d OPENAI_OPTIONAL_FIELDS) ?p"
    unfolding last_user_content_def by (intro exI [of _ ms] exI [of _ ?user] conjI user) (simp add: dget_def)
  have "map_of ?d ''prompt'' = Some ?p" by (simp add: keys)
  from legacy_prompt [OF unset this, of create] have legacy: "\<exists>args. legacy_openai_request create ?d = create args \<and> last_user_content args ?p"
    unfolding last_user_content_def by (fastforce simp: dget_def)
  have "has_key ?d ''prompt''" by (simp add: has_key_def keys)
  moreover have "dget (map (\<lambda>k. (k, dget ?d k)) (filter (has_key ?d) VIDEO_REQUEST_FIELDS)) ''prompt'' = ?p"
    by (simp add: VIDEO_REQUEST_FIELDS_def has_key_def keys dget_def)
  ultimately obtain args where video: "dget args ''prompt'' = ?p" "videogen_request validate ?d =
      (if truthy (dget d ''stream'') then Inl ValueError else map_sum id (filter (\<lambda>(k, v). \<not> is_none v)) (validate args))"
    by (simp add: videogen_request_def get)
  have sent: "dget req ''prompt'' = ?p" if made: "videogen_request validate ?d = Inr req" for req
  proof -
    from made obtain v where v: "validate args = Inr v" "req = filter (\<lambda>(k, v). \<not> is_none v) v"
      unfolding video(2) by (cases "validate args") (auto split: if_splits)
    have "map_of v ''prompt'' = Some ?p"
      using validate [OF v(1)] video(1) by (auto simp: dget_def split: option.splits)
    from map_of_filter_some [OF this, of "\<lambda>k v. \<not> is_none v"] show ?thesis by (simp add: v(2) dget_def is_none_def)
  qed
  have "map_of ?d ''input_tokens'' = None" using no(1) by (simp add: keys has_key_def)
  then have tokens: "\<not> is_ok (completions_request ?d)" "\<not> is_ok (sglang_request is_default ?d)"
    by (auto simp: completions_request_def sglang_request_def Let_def split: option.split pyval.split)
  from legacy obtain old where old: "legacy_openai_request create ?d = create old" "last_user_content old ?p" by blast
  have lsent: "last_user_content req ?p" if made: "legacy_openai_request create ?d = Inr req" for req
    using old(2) create [OF made [unfolded old(1)]] by (simp add: last_user_content_def)
  have lmade: "is_ok (legacy_openai_request create ?d)" if "\<forall>args. is_ok (create args)" using that by (simp add: old(1))
  have vmade: "is_ok (videogen_request validate ?d)" if "\<forall>args. is_ok (validate args)" "\<not> truthy (dget d ''stream'')"
  proof -
    from that(1) have "is_ok (validate args)" by blast
    then show ?thesis unfolding video(2) using that(2) by (cases "validate args") simp_all
  qed
  show ?thesis
  proof (intro exI conjI)
    show "x = PDict d" by (rule x)
    show "dget d ''prompt'' = PStr p" by (rule p)
    show "length bs = 8" by (rule len)
    show "y = PDict ?d" by (rule y)
    show "\<forall>req. videogen_request validate ?d = Inr req \<longrightarrow> dget req ''prompt'' = ?p" using sent by blast
  qed (rule req, rule chat, use lsent in blast, use lmade in blast, use vmade in blast, rule tokens(1), rule tokens(2))
qed

definition example_salt_rng :: rng where
  "example_salt_rng = \<lparr>draws = id, pos = 0\<rparr>"

lemma salt_reaches_every_request_witness:
  "\<exists>bs req vid old. fst (apply_salt example_salt_rng (PDict [(''prompt'', PStr ''hi'')])) = Inr (PDict [(''prompt'', PStr ''[0001020304050607] hi'')])
    \<and> openai_request [(''prompt'', PStr ''[0001020304050607] hi'')] = Inr req \<and> last_user_content req (PStr (salted_prompt bs ''hi''))
    \<and> legacy_openai_request Inr [(''prompt'', PStr ''[0001020304050607] hi'')] = Inr old \<and> last_user_content old (PStr (salted_prompt bs ''hi''))
    \<and> videogen_request Inr [(''prompt'', PStr ''[0001020304050607] hi'')] = Inr vid \<and> dget vid ''prompt'' = PStr (salted_prompt bs ''hi'')"
proof -
  let ?x = "PDict [(''prompt'', PStr ''hi'')]" and ?d = "[(''prompt'', PStr ''[0001020304050607] hi'')]"
  have c: "check_unsaltable ?x = None" by code_simp
  have y: "fst (apply_salt example_salt_rng ?x) = Inr (PDict ?d)" by code_simp
  then have s: "apply_salt example_salt_rng ?x = (Inr (PDict ?d), snd (apply_salt example_salt_rng ?x))"
    by (metis prod.collapse)
  have "dget [(''prompt'', PStr ''hi'')] ''prompt'' = PStr ''hi''" "\<not> truthy (dget [(''prompt'', PStr ''hi'')] ''stream'')"
    by (simp_all add: dget_def)
  moreover have "is_ok (Inr args :: pydict result)" for args by simp
  ultimately obtain bs req where w: "openai_request ?d = Inr req" "last_user_content req (PStr (salted_prompt bs ''hi''))"
    "\<forall>req. legacy_openai_request Inr ?d = Inr req \<longrightarrow> last_user_content req (PStr (salted_prompt bs ''hi''))"
    "is_ok (legacy_openai_request Inr ?d)"
    "\<forall>req. videogen_request Inr ?d = Inr req \<longrightarrow> dget req ''prompt'' = PStr (salted_prompt bs ''hi'')"
    "is_ok (videogen_request Inr ?d)"
    using salt_reaches_every_request [OF c s, of Inr Inr "\<lambda>_ _. False"] by auto
  obtain old vid where "legacy_openai_request Inr ?d = Inr old" "videogen_request Inr ?d = Inr vid"
    using w(4,6) by (auto simp: is_ok_def split: sum.splits)
  with w y show ?thesis by blast
qed

end
