(* ===== verification/AgenticDataFacts.thy ===== *)
theory AgenticDataFacts
  imports AgenticData AdapterFacts Agentic
begin

text \<open>
  What an accepted conversation file is turned into: one sample per client turn, with the conversation up to that
  turn as its messages, and metadata that sends the strategy to the right sample.
\<close>

section \<open>Rows of a conversation file\<close>

definition turn_of :: "pydict \<Rightarrow> int" where
  "turn_of r = (case dget r ''turn'' of PInt n \<Rightarrow> n | _ \<Rightarrow> 0)"

definition conv_of :: "pydict \<Rightarrow> string" where
  "conv_of r = (case dget r ''conversation_id'' of PStr s \<Rightarrow> s | _ \<Rightarrow> [])"

definition key_of :: "pydict \<Rightarrow> turn_id" where
  "key_of r = (conv_of r, turn_of r)"

definition typed_row :: "pydict \<Rightarrow> bool" where
  "typed_row r = (dict_wf r \<and> dget r ''conversation_id'' = PStr (conv_of r) \<and> dget r ''turn'' = PInt (turn_of r))"

definition msgs :: "pydict \<Rightarrow> pyval list" where
  "msgs r = (case row_messages r of Inr ms \<Rightarrow> ms | Inl _ \<Rightarrow> [])"

text \<open>Grouping keeps the order of first appearance and of the rows; sorting is by turn.\<close>

definition first_seen :: "'a list \<Rightarrow> 'a list" where
  "first_seen xs = rev (remdups (rev xs))"

definition groups_law :: "grouping \<Rightarrow> bool" where
  "groups_law gp \<longleftrightarrow> (\<forall>rows. list_all typed_row rows \<longrightarrow>
     gp_groups gp rows = map (\<lambda>c. (PStr c, filter (\<lambda>r. conv_of r = c) rows)) (first_seen (map conv_of rows)))"

definition sort_law :: "grouping \<Rightarrow> bool" where
  "sort_law gp \<longleftrightarrow> (\<forall>rows. list_all typed_row rows \<longrightarrow>
     mset (gp_sort gp rows) = mset rows \<and> sorted (map turn_of (gp_sort gp rows)))"

definition conversation :: "grouping \<Rightarrow> pydict list \<Rightarrow> string \<Rightarrow> pydict list" where
  "conversation gp rows c = gp_sort gp (filter (\<lambda>r. conv_of r = c) rows)"

text \<open>What the model is to be sent for a turn: the system text, and every message of the conversation up to it.\<close>

definition messages_upto :: "grouping \<Rightarrow> pydict list \<Rightarrow> turn_id \<Rightarrow> pyval list" where
  "messages_upto gp rows k =
     system_message (conversation gp rows (fst k))
     @ concat (map msgs (takeWhile (\<lambda>r. turn_of r \<le> snd k) (conversation gp rows (fst k))))"

section \<open>One conversation\<close>

lemma add_row_eq:
  assumes "typed_row row" "row_messages row = Inr ms"
  shows "add_row ft conv row b = Inr
    (if is_client_role row then
       b\<lparr>cb_messages := AList.update (conv, turn_of row) (cb_history b @ ms) (cb_messages b), cb_history := cb_history b @ ms,
         cb_delays := (case delay_of ft (dget row ''delay_seconds'') of
            Some f \<Rightarrow> AList.update (conv, turn_of row) f (cb_delays b) | None \<Rightarrow> cb_delays b),
         cb_samples := cb_samples b @ [(conv, turn_of row)]\<rparr>
     else b\<lparr>cb_history := cb_history b @ ms\<rparr>)"
  using assms by (simp add: add_row_def typed_row_def py_int_def)

lemma add_rows_facts:
  "add_rows ft conv rs b = Inr b' \<Longrightarrow> list_all typed_row rs \<Longrightarrow> distinct (map turn_of rs) \<Longrightarrow> dict_wf (cb_messages b) \<Longrightarrow>
    cb_samples b' = cb_samples b @ map (\<lambda>r. (conv, turn_of r)) (filter is_client_role rs)
    \<and> dict_wf (cb_messages b')
    \<and> (\<forall>k. k \<notin> (\<lambda>r. (conv, turn_of r)) ` set (filter is_client_role rs) \<longrightarrow> map_of (cb_messages b') k = map_of (cb_messages b) k)
    \<and> (\<forall>xs r ys. rs = xs @ r # ys \<longrightarrow> is_client_role r \<longrightarrow>
         map_of (cb_messages b') (conv, turn_of r) = Some (cb_history b @ concat (map msgs (xs @ [r]))))"
proof (induction rs arbitrary: b)
  case (Cons row rs)
  then obtain ms where ms: "row_messages row = Inr ms"
    by (auto simp: add_row_def split: sum.splits)
  then have m: "msgs row = ms" by (simp add: msgs_def)
  have typed: "typed_row row" "list_all typed_row rs" using Cons.prems(2) by simp_all
  define b1 where "b1 = projr (add_row ft conv row b)"
  have step: "add_row ft conv row b = Inr b1"
    unfolding b1_def add_row_eq [OF typed(1) ms] by simp
  note b1 = add_row_eq [OF typed(1) ms, of ft conv b, unfolded step, simplified]
  have rest: "add_rows ft conv rs b1 = Inr b'" using Cons.prems(1) step by simp
  have wf1: "dict_wf (cb_messages b1)" using Cons.prems(4) b1 by (cases "is_client_role row") simp_all
  have h1: "cb_history b1 = cb_history b @ ms" using b1 by (cases "is_client_role row") simp_all
  have dist: "distinct (map turn_of rs)" "turn_of row \<notin> turn_of ` set rs" using Cons.prems(3) by simp_all
  note IH = Cons.IH [OF rest typed(2) dist(1) wf1]
  have s: "cb_samples b' = cb_samples b @ map (\<lambda>r. (conv, turn_of r)) (filter is_client_role (row # rs))"
    using IH b1 by (cases "is_client_role row") simp_all
  have keep: "map_of (cb_messages b') k = map_of (cb_messages b) k"
    if "k \<notin> (\<lambda>r. (conv, turn_of r)) ` set (filter is_client_role (row # rs))" for k
  proof -
    have "map_of (cb_messages b') k = map_of (cb_messages b1) k"
      by (rule IH [THEN conjunct2, THEN conjunct2, THEN conjunct1, rule_format]) (use that in auto)
    then show ?thesis using b1 that by (cases "is_client_role row") auto
  qed
  have here: "map_of (cb_messages b') (conv, turn_of row) = Some (cb_history b @ ms)" if "is_client_role row"
  proof -
    have "(conv, turn_of row) \<notin> (\<lambda>r. (conv, turn_of r)) ` set (filter is_client_role rs)" using dist(2) by auto
    then show ?thesis using IH b1 that by simp
  qed
  have split: "map_of (cb_messages b') (conv, turn_of r) = Some (cb_history b @ concat (map msgs (xs @ [r])))"
    if e: "row # rs = xs @ r # ys" and c: "is_client_role r" for xs r ys
  proof (cases xs)
    case Nil
    then show ?thesis using here e c m by simp
  next
    case (Cons x xs')
    then have "rs = xs' @ r # ys" "x = row" using e by simp_all
    then have "map_of (cb_messages b') (conv, turn_of r) = Some (cb_history b1 @ concat (map msgs (xs' @ [r])))"
      using IH c by blast
    then show ?thesis by (simp add: h1 Cons \<open>x = row\<close> m)
  qed
  show ?case using s keep split IH by blast
qed simp

lemma takeWhile_turns:
  assumes "sorted (map turn_of rs)" "distinct (map turn_of rs)" "rs = xs @ r # ys"
  shows "takeWhile (\<lambda>q. turn_of q \<le> turn_of r) rs = xs @ [r]"
proof -
  have "\<forall>x\<in>set xs. turn_of x \<le> turn_of r" "\<forall>y\<in>set ys. turn_of r < turn_of y"
    using assms by (auto simp: sorted_append order_less_le)
  then show ?thesis unfolding assms(3) by (cases ys) (auto simp: takeWhile_append2 takeWhile_eq_Nil_iff)
qed

lemma foldl_update_map_of:
  "map_of (foldl (\<lambda>d (k, v). AList.update k v d) a b) = map_of a ++ map_of (rev b)"
proof (induction b arbitrary: a)
  case (Cons p b)
  obtain k v where "p = (k, v)" by force
  with Cons show ?case by (simp add: fun_eq_iff map_add_def split: option.splits)
qed simp

lemma map_of_rev_wf: "dict_wf b \<Longrightarrow> map_of (rev b) = map_of b"
  by (simp add: dict_wf_def map_of_rev_keys)

text \<open>The build of one conversation, from its rows in turn order.\<close>

lemma build_conversation_facts:
  assumes "build_conversation show ft gp (PStr c) members = Inr (b, n)" "sort_law gp"
    and "list_all typed_row members" "distinct (map turn_of members)"
  shows "cb_samples b = map (\<lambda>r. (c, turn_of r)) (filter is_client_role (gp_sort gp members))"
    and "dict_wf (cb_messages b)"
    and "fst k \<noteq> c \<Longrightarrow> map_of (cb_messages b) k = None"
    and "r \<in> set members \<Longrightarrow> is_client_role r \<Longrightarrow>
      map_of (cb_messages b) (c, turn_of r) = Some (system_message (gp_sort gp members)
        @ concat (map msgs (takeWhile (\<lambda>q. turn_of q \<le> turn_of r) (gp_sort gp members))))"
    and "n = int (length (filter is_client_role members))"
proof -
  let ?rs = "gp_sort gp members"
  let ?b0 = "\<lparr>cb_history = system_message ?rs, cb_messages = [], cb_delays = [], cb_samples = []\<rparr>"
  have s: "mset ?rs = mset members" "sorted (map turn_of ?rs)" using assms(2,3) by (simp_all add: sort_law_def)
  have "add_rows ft c ?rs ?b0 = Inr b \<and> n = int (length (filter is_client_role ?rs))"
    using assms(1) by (cases "add_rows ft c ?rs ?b0") (auto simp: build_conversation_def py_str_def Let_def)
  then have b: "add_rows ft c ?rs ?b0 = Inr b" and n: "n = int (length (filter is_client_role ?rs))" by simp_all
  have typed: "list_all typed_row ?rs" using assms(3) s(1) by (metis list_all_iff set_mset_mset)
  have d: "distinct (map turn_of ?rs)" using assms(4) s(1) by (metis mset_map mset_eq_imp_distinct_iff)
  note f = add_rows_facts [OF b typed d, simplified]
  show "cb_samples b = map (\<lambda>r. (c, turn_of r)) (filter is_client_role ?rs)" "dict_wf (cb_messages b)"
    using f by simp_all
  show "map_of (cb_messages b) k = None" if "fst k \<noteq> c"
    using f that by (cases k) auto
  show "map_of (cb_messages b) (c, turn_of r) = Some (system_message ?rs
        @ concat (map msgs (takeWhile (\<lambda>q. turn_of q \<le> turn_of r) ?rs)))" if r: "r \<in> set members" "is_client_role r"
  proof -
    have "r \<in> set ?rs" using r(1) s(1) by (metis set_mset_mset)
    then obtain xs ys where e: "?rs = xs @ r # ys" by (meson split_list)
    have "map_of (cb_messages b) (c, turn_of r) = Some (system_message ?rs @ concat (map msgs (xs @ [r])))"
      using f e r(2) by auto
    then show ?thesis unfolding takeWhile_turns [OF s(2) d e] .
  qed
  have "length (filter is_client_role ?rs) = length (filter is_client_role members)"
    using s(1) by (metis mset_filter size_mset)
  then show "n = int (length (filter is_client_role members))" using n by simp
qed

section \<open>All conversations\<close>

lemma add_conversations_facts:
  assumes law: "sort_law gp"
  shows "add_conversations show ft gp (map (\<lambda>c. (PStr c, members c)) cs) m = Inr m' \<Longrightarrow> distinct cs \<Longrightarrow>
    (\<And>c. c \<in> set cs \<Longrightarrow> list_all typed_row (members c) \<and> distinct (map turn_of (members c))) \<Longrightarrow>
    cm_samples m' = cm_samples m @ concat (map (\<lambda>c. map (\<lambda>r. ((c, turn_of r), None)) (filter is_client_role (gp_sort gp (members c)))) cs)
    \<and> (\<forall>k. fst k \<notin> set cs \<longrightarrow> map_of (cm_messages m') k = map_of (cm_messages m) k)
    \<and> (\<forall>c r. c \<in> set cs \<longrightarrow> r \<in> set (members c) \<longrightarrow> is_client_role r \<longrightarrow>
         map_of (cm_messages m') (c, turn_of r) = Some (system_message (gp_sort gp (members c))
           @ concat (map msgs (takeWhile (\<lambda>q. turn_of q \<le> turn_of r) (gp_sort gp (members c))))))
    \<and> (\<forall>c. c \<notin> set cs \<longrightarrow> map_of (cm_client_turns m') c = map_of (cm_client_turns m) c)
    \<and> (\<forall>c. c \<in> set cs \<longrightarrow> map_of (cm_client_turns m') c = Some (int (length (filter is_client_role (members c)))))"
proof (induction cs arbitrary: m)
  case (Cons c cs)
  obtain b n where built: "build_conversation show ft gp (PStr c) (members c) = Inr (b, n)"
    using Cons.prems(1) by (auto split: sum.splits)
  let ?m1 = "add_conversation c (b, n) m"
  have rest: "add_conversations show ft gp (map (\<lambda>c. (PStr c, members c)) cs) ?m1 = Inr m'"
    using Cons.prems(1) built by (simp add: py_str_def)
  have ok: "list_all typed_row (members c)" "distinct (map turn_of (members c))" using Cons.prems(3) [of c] by simp_all
  note b = build_conversation_facts [OF built law ok]
  have fresh: "c \<notin> set cs" "distinct cs" using Cons.prems(2) by simp_all
  have tail: "list_all typed_row (members d) \<and> distinct (map turn_of (members d))" if "d \<in> set cs" for d
    using Cons.prems(3) [of d] that by simp
  note IH = Cons.IH [OF rest fresh(2) tail]
  have messages1: "map_of (cm_messages ?m1) = map_of (cm_messages m) ++ map_of (cb_messages b)"
    by (simp add: add_conversation_def foldl_update_map_of map_of_rev_wf [OF b(2)])
  have samples: "cm_samples m' = cm_samples m
      @ concat (map (\<lambda>c. map (\<lambda>r. ((c, turn_of r), None)) (filter is_client_role (gp_sort gp (members c)))) (c # cs))"
    using IH by (simp add: add_conversation_def b(1) comp_def)
  have others: "map_of (cm_messages m') k = map_of (cm_messages m) k" if "fst k \<notin> set (c # cs)" for k
    using IH that b(3) [of k] by (simp add: messages1 map_add_def del: split_paired_All)
  have turns: "map_of (cm_messages m') (d, turn_of r) = Some (system_message (gp_sort gp (members d))
      @ concat (map msgs (takeWhile (\<lambda>q. turn_of q \<le> turn_of r) (gp_sort gp (members d)))))"
    if "d \<in> set (c # cs)" "r \<in> set (members d)" "is_client_role r" for d r
  proof (cases "d = c")
    case True
    then have "map_of (cm_messages m') (c, turn_of r) = map_of (cm_messages ?m1) (c, turn_of r)"
      using IH fresh(1) by (simp del: split_paired_All)
    then show ?thesis using b(4) [of r] that True by (simp add: messages1 map_add_def)
  next
    case False
    then show ?thesis using IH that by (simp del: split_paired_All)
  qed
  have n1: "map_of (cm_client_turns ?m1) = (map_of (cm_client_turns m))(c \<mapsto> n)" by (simp add: add_conversation_def)
  have counts: "map_of (cm_client_turns m') d = Some (int (length (filter is_client_role (members d))))" if "d \<in> set (c # cs)" for d
  proof (cases "d = c")
    case True
    have "map_of (cm_client_turns m') c = map_of (cm_client_turns ?m1) c" using IH fresh(1) by (simp del: split_paired_All)
    then show ?thesis using n1 b(5) True by simp
  next
    case False
    then show ?thesis using IH that by (simp del: split_paired_All)
  qed
  have rest_counts: "map_of (cm_client_turns m') d = map_of (cm_client_turns m) d" if "d \<notin> set (c # cs)" for d
    using IH that by (simp add: n1 del: split_paired_All)
  show ?case using samples others turns counts rest_counts by blast
qed simp

section \<open>Samples\<close>

text \<open>Every client row becomes a sample when its messages are there.\<close>

definition baked_sample :: "(pyval \<times> pydict) list \<Rightarrow> (turn_id \<times> pyval list) list \<Rightarrow> pydict \<Rightarrow> pydict" where
  "baked_sample ds pre r = AList.update ''messages'' (PList (the (map_of pre (key_of r)))) (client_sample ds r)"

lemma bake_samples_facts:
  "bake_samples show ds pre rs (samples, index) = Inr (samples', index') \<Longrightarrow> list_all typed_row rs \<Longrightarrow>
    (\<And>r. r \<in> set rs \<Longrightarrow> is_client_role r \<Longrightarrow> map_of pre (key_of r) \<noteq> None) \<Longrightarrow>
    distinct (map key_of (filter is_client_role rs)) \<Longrightarrow>
    samples' = samples @ map (baked_sample ds pre) (filter is_client_role rs)
    \<and> (\<forall>j < length (filter is_client_role rs).
         map_of index' (key_of (filter is_client_role rs ! j)) = Some (length samples + j))
    \<and> (\<forall>k. k \<notin> key_of ` set (filter is_client_role rs) \<longrightarrow> map_of index' k = map_of index k)"
proof (induction rs arbitrary: samples index)
  case (Cons row rs)
  have typed: "typed_row row" "list_all typed_row rs" using Cons.prems(2) by simp_all
  have pre: "map_of pre (key_of r) \<noteq> None" if "r \<in> set rs" "is_client_role r" for r
    using Cons.prems(3) that by simp
  show ?case
  proof (cases "is_client_role row")
    case False
    have rest: "bake_samples show ds pre rs (samples, index) = Inr (samples', index')"
      using Cons.prems(1) False by simp
    have d: "distinct (map key_of (filter is_client_role rs))" using Cons.prems(4) False by simp
    show ?thesis using Cons.IH [OF rest typed(2) pre d] False by (simp del: split_paired_All)
  next
    case True
    obtain ms where ms: "map_of pre (key_of row) = Some ms" using Cons.prems(3) [of row] True by auto
    have k: "(py_str show (dget row ''conversation_id''), turn_of row) = key_of row" "py_int (dget row ''turn'') = Inr (turn_of row)"
      using typed(1) by (simp_all add: typed_row_def py_str_def py_int_def key_of_def)
    let ?samples = "samples @ [baked_sample ds pre row]" and ?index = "AList.update (key_of row) (length samples) index"
    have rest: "bake_samples show ds pre rs (?samples, ?index) = Inr (samples', index')"
      using Cons.prems(1) True by (simp add: k ms baked_sample_def)
    have d: "distinct (map key_of (filter is_client_role rs))" "key_of row \<notin> key_of ` set (filter is_client_role rs)"
      using Cons.prems(4) True by simp_all
    note IH = Cons.IH [OF rest typed(2) pre d(1)]
    have "map_of index' (key_of row) = Some (length samples)" using IH d(2) by (simp del: split_paired_All)
    moreover have "map_of index' (key_of (filter is_client_role rs ! j)) = Some (Suc (length samples + j))"
      if "j < length (filter is_client_role rs)" for j using IH that by simp
    ultimately have "map_of index' (key_of ((row # filter is_client_role rs) ! j)) = Some (length samples + j)"
      if "j < Suc (length (filter is_client_role rs))" for j using that by (cases j) simp_all
    then show ?thesis using IH True by (simp del: split_paired_All)
  qed
qed simp

lemma set_first_seen: "set (first_seen xs) = set xs" "distinct (first_seen xs)"
  by (simp_all add: first_seen_def)

lemma mset_by_groups:
  assumes "distinct cs" "\<And>x. x \<in> set xs \<Longrightarrow> f x \<in> set cs"
  shows "mset (concat (map (\<lambda>c. filter (\<lambda>x. f x = c) xs) cs)) = mset xs"
  using assms
proof (induction cs arbitrary: xs)
  case (Cons c cs)
  let ?rest = "filter (\<lambda>x. f x \<noteq> c) xs"
  have e: "filter (\<lambda>x. f x = d) ?rest = filter (\<lambda>x. f x = d) xs" if "d \<in> set cs" for d
    using Cons.prems(1) that by (auto intro: filter_cong)
  have "mset (concat (map (\<lambda>d. filter (\<lambda>x. f x = d) ?rest) cs)) = mset ?rest"
    by (rule Cons.IH) (use Cons.prems in auto)
  moreover have "map (\<lambda>d. filter (\<lambda>x. f x = d) ?rest) cs = map (\<lambda>d. filter (\<lambda>x. f x = d) xs) cs"
    by (rule map_cong [OF refl]) (rule e)
  ultimately have "mset (concat (map (\<lambda>d. filter (\<lambda>x. f x = d) xs) cs)) = mset ?rest" by (simp only:)
  moreover have "mset (filter (\<lambda>x. f x = c) xs) + mset ?rest = mset xs"
    by (simp only: mset_filter flip: multiset_partition)
  ultimately show ?case by simp
next
  case Nil
  then show ?case by (cases xs) auto
qed

section \<open>The loaded data\<close>

definition client_rows :: "pydict list \<Rightarrow> pydict list" where
  "client_rows rows = filter is_client_role rows"

text \<open>\<open>dmerge []\<close> copies a dictionary.\<close>

lemma dmerge_copy: "dict_wf row \<Longrightarrow> dmerge [] row = row"
proof -
  have "foldl (\<lambda>d (k, v). AList.update k v d) a b = a @ b" if "distinct (map fst (a @ b))" for a b :: pydict
    using that
  proof (induction b arbitrary: a)
    case (Cons p b)
    obtain k v where p: "p = (k, v)" by force
    then have "AList.update k v a = a @ [(k, v)]" using Cons.prems by (intro keys_update_new) auto
    then show ?case using Cons.IH [of "a @ [(k, v)]"] Cons.prems by (simp add: p)
  qed simp
  from this [of "[]" row] show "dict_wf row \<Longrightarrow> dmerge [] row = row" by (simp add: dmerge_def dict_wf_def)
qed

text \<open>What the metadata says of the rows it is built from.\<close>

lemma build_metadata_facts:
  assumes law: "groups_law gp" "sort_law gp" and rows: "list_all typed_row rows" "distinct (map key_of rows)"
    and m: "build_metadata show ft gp mt rows = Inr m"
  shows "mset (map fst (cm_samples m)) = mset (map key_of (client_rows rows))"
    and "r \<in> set rows \<Longrightarrow> is_client_role r \<Longrightarrow> map_of (cm_messages m) (key_of r) = Some (messages_upto gp rows (key_of r))"
    and "c \<in> conv_of ` set rows \<Longrightarrow>
      map_of (cm_client_turns m) c = Some (int (length (filter (\<lambda>r. conv_of r = c) (client_rows rows))))"
proof -
  let ?cs = "first_seen (map conv_of rows)" and ?members = "\<lambda>c. filter (\<lambda>r. conv_of r = c) rows"
  let ?m0 = "\<lparr>cm_samples = [], cm_num_conversations = length (map (\<lambda>c. (PStr c, ?members c)) ?cs), cm_max_turns = mt,
    cm_client_turns = [], cm_messages = [], cm_delays = []\<rparr>"
  have g: "gp_groups gp rows = map (\<lambda>c. (PStr c, ?members c)) ?cs" using law(1) rows(1) by (simp add: groups_law_def)
  have add: "add_conversations show ft gp (map (\<lambda>c. (PStr c, ?members c)) ?cs) ?m0 = Inr m"
    using m by (auto simp: build_metadata_def g Let_def split: sum.splits if_splits)
  have ok: "list_all typed_row (?members c) \<and> distinct (map turn_of (?members c))" for c
  proof -
    have "inj_on turn_of (set (?members c))"
      using rows(2) by (auto simp: inj_on_def key_of_def distinct_map)
    moreover have "distinct rows" using rows(2) by (simp add: distinct_map)
    ultimately show ?thesis using rows(1) by (auto simp: list_all_iff distinct_map)
  qed
  note f = add_conversations_facts [OF law(2) add set_first_seen(2) ok, simplified]
  have sorted_members: "mset (filter is_client_role (gp_sort gp (?members c))) = mset (filter is_client_role (?members c))" for c
  proof -
    have "mset (gp_sort gp (?members c)) = mset (?members c)" using law(2) ok [of c] unfolding sort_law_def by blast
    then show ?thesis by (simp only: mset_filter)
  qed
  have key: "(c, turn_of r) = key_of r" if "r \<in> set (gp_sort gp (?members c))" for c r
  proof -
    have "r \<in> set (?members c)" using that law(2) ok [of c] unfolding sort_law_def by (metis set_mset_mset)
    then show ?thesis by (simp add: key_of_def)
  qed
  have "mset (map fst (cm_samples m))
      = mset (map key_of (concat (map (\<lambda>c. filter is_client_role (gp_sort gp (?members c))) ?cs)))"
  proof -
    have e: "(\<lambda>c. map (\<lambda>r. (c, turn_of r)) (filter is_client_role (gp_sort gp (?members c))))
        = (\<lambda>c. map key_of (filter is_client_role (gp_sort gp (?members c))))"
      using key by (intro ext) simp
    have "map fst (cm_samples m) = concat (map (\<lambda>c. map (\<lambda>r. (c, turn_of r)) (filter is_client_role (gp_sort gp (?members c)))) ?cs)"
      using f by (simp add: map_concat comp_def)
    then show ?thesis unfolding e by (simp add: map_concat comp_def)
  qed
  also have "mset (concat (map (\<lambda>c. filter is_client_role (gp_sort gp (?members c))) ?cs))
      = mset (concat (map (\<lambda>c. filter (\<lambda>r. conv_of r = c) (client_rows rows)) ?cs))"
  proof -
    have "mset (filter is_client_role (gp_sort gp (?members c))) = mset (filter (\<lambda>r. conv_of r = c) (client_rows rows))" for c
      unfolding sorted_members client_rows_def by (simp add: conj_commute)
    then have "mset (concat (map (\<lambda>c. filter is_client_role (gp_sort gp (?members c))) cs))
        = mset (concat (map (\<lambda>c. filter (\<lambda>r. conv_of r = c) (client_rows rows)) cs))" for cs
      by (induction cs) (simp_all only: list.map concat.simps mset_append)
    then show ?thesis .
  qed
  then have "mset (map key_of (concat (map (\<lambda>c. filter is_client_role (gp_sort gp (?members c))) ?cs)))
      = mset (map key_of (concat (map (\<lambda>c. filter (\<lambda>r. conv_of r = c) (client_rows rows)) ?cs)))"
    by (simp only: mset_map)
  also have "mset (map key_of (concat (map (\<lambda>c. filter (\<lambda>r. conv_of r = c) (client_rows rows)) ?cs))) = mset (map key_of (client_rows rows))"
  proof -
    have "mset (concat (map (\<lambda>c. filter (\<lambda>r. conv_of r = c) (client_rows rows)) ?cs)) = mset (client_rows rows)"
      by (rule mset_by_groups) (auto simp: set_first_seen client_rows_def)
    then show ?thesis by (simp only: mset_map)
  qed
  finally show "mset (map fst (cm_samples m)) = mset (map key_of (client_rows rows))" .
  show "map_of (cm_messages m) (key_of r) = Some (messages_upto gp rows (key_of r))" if "r \<in> set rows" "is_client_role r"
    using f that by (auto simp: key_of_def messages_upto_def conversation_def set_first_seen)
  show "map_of (cm_client_turns m) c = Some (int (length (filter (\<lambda>r. conv_of r = c) (client_rows rows))))"
    if "c \<in> conv_of ` set rows"
    using f that by (auto simp: set_first_seen client_rows_def conj_commute)
qed

text \<open>Baking: one sample per client row, and every entry of the metadata points to its own.\<close>

lemma bake_facts:
  assumes rows: "list_all typed_row rows" "distinct (map key_of rows)"
    and m: "mset (map fst (cm_samples m)) = mset (map key_of (client_rows rows))"
    and pre: "\<And>r. r \<in> set rows \<Longrightarrow> is_client_role r \<Longrightarrow> map_of (cm_messages m) (key_of r) = Some (content r)"
    and b: "bake show m rows = Inr data"
  shows "agd_samples data = map (\<lambda>r. AList.update ''messages'' (PList (content r)) (client_sample (conv_defaults rows) r)) (client_rows rows)"
    and "mset (cm_samples (agd_metadata data)) =
      mset (map (\<lambda>j. (key_of (client_rows rows ! j), Some j)) [0..<length (client_rows rows)])"
    and "cm_client_turns (agd_metadata data) = cm_client_turns m"
proof -
  let ?cl = "client_rows rows"
  have copy: "map (dmerge []) rows = rows"
    using rows(1) by (induction rows) (simp_all add: typed_row_def dmerge_copy)
  obtain samples index where run: "bake_samples show (conv_defaults rows) (cm_messages m) rows ([], []) = Inr (samples, index)"
    and data: "data = \<lparr>agd_samples = samples, agd_metadata = m\<lparr>cm_samples :=
      List.map_filter (\<lambda>(key, _). case map_of index key of Some i \<Rightarrow> Some (key, Some i) | None \<Rightarrow> None) (cm_samples m)\<rparr>\<rparr>"
    using b by (auto simp: bake_def copy Let_def split: sum.splits)
  have d: "distinct (map key_of ?cl)"
    using rows(2) by (simp add: client_rows_def distinct_map inj_on_def)
  have f: "samples = map (baked_sample (conv_defaults rows) (cm_messages m)) ?cl"
    "\<And>j. j < length ?cl \<Longrightarrow> map_of index (key_of (?cl ! j)) = Some j"
    using bake_samples_facts [OF run rows(1)] pre d by (simp_all add: client_rows_def)
  have "baked_sample (conv_defaults rows) (cm_messages m) r = AList.update ''messages'' (PList (content r)) (client_sample (conv_defaults rows) r)"
    if "r \<in> set ?cl" for r using that pre by (simp add: baked_sample_def client_rows_def)
  then show "agd_samples data = map (\<lambda>r. AList.update ''messages'' (PList (content r)) (client_sample (conv_defaults rows) r)) ?cl"
    by (simp add: data f(1))
  have present: "map_of index k = Some i \<Longrightarrow> i < length ?cl \<and> key_of (?cl ! i) = k" if k: "k \<in> key_of ` set ?cl" for k i
  proof -
    obtain j where j: "j < length ?cl" "key_of (?cl ! j) = k" using k by (auto simp: in_set_conv_nth)
    then show "map_of index k = Some i \<Longrightarrow> i < length ?cl \<and> key_of (?cl ! i) = k" using f(2) by fastforce
  qed
  have keys: "k \<in> key_of ` set ?cl" if "k \<in> set (map fst (cm_samples m))" for k
    using that m by (metis set_map set_mset_mset)
  have found: "map_of index k \<noteq> None" if "k \<in> key_of ` set ?cl" for k
  proof -
    obtain j where "j < length ?cl" "key_of (?cl ! j) = k" using \<open>k \<in> key_of ` set ?cl\<close> by (auto simp: in_set_conv_nth)
    then show ?thesis using f(2) by fastforce
  qed
  let ?entry = "\<lambda>k. (k, map_of index k)"
  have "List.map_filter (\<lambda>(key, _). case map_of index key of Some i \<Rightarrow> Some (key, Some i) | None \<Rightarrow> None) es = map (?entry \<circ> fst) es"
    if "\<forall>e\<in>set es. map_of index (fst e) \<noteq> None" for es :: "(turn_id \<times> nat option) list"
    using that by (induction es) (auto simp: map_filter_simps)
  then have entries: "cm_samples (agd_metadata data) = map ?entry (map fst (cm_samples m))"
    using keys found by (simp add: data)
  have "mset (cm_samples (agd_metadata data)) = mset (map ?entry (map key_of ?cl))"
    unfolding entries using m by (simp only: mset_map)
  also have "map ?entry (map key_of ?cl) = map (\<lambda>j. (key_of (?cl ! j), Some j)) [0..<length ?cl]"
    by (rule nth_equalityI) (simp_all add: f(2))
  finally show "mset (cm_samples (agd_metadata data)) = mset (map (\<lambda>j. (key_of (?cl ! j), Some j)) [0..<length ?cl])" .
  show "cm_client_turns (agd_metadata data) = cm_client_turns m" by (simp add: data)
qed

section \<open>What validation gives\<close>

lemma turns_consecutive_distinct:
  assumes "turns_consecutive (map (\<lambda>r. dget r ''turn'') rs) = Inr ()" "list_all typed_row rs"
  shows "distinct (map turn_of rs)"
proof -
  let ?vs = "map (\<lambda>r. dget r ''turn'') rs"
  have "sort (map (\<lambda>v. the (num_of v)) ?vs) = map (\<lambda>i. of_nat i) [1..<Suc (length ?vs)]"
    using assms(1) by (auto simp: turns_consecutive_def split: if_splits)
  moreover have "distinct (map (\<lambda>i. of_nat i :: rat) [1..<Suc (length ?vs)])" by (simp add: distinct_map inj_on_def)
  ultimately have "distinct (map (\<lambda>v. the (num_of v)) ?vs)" by (metis distinct_sort)
  moreover have "map (\<lambda>v. the (num_of v)) ?vs = map (\<lambda>r. of_int (turn_of r)) rs"
    using assms(2) by (auto simp: list_all_iff typed_row_def)
  ultimately show ?thesis by (simp add: distinct_map inj_on_def comp_def)
qed

lemma numbering_members:
  "validate_turn_numbering groups = Inr () \<Longrightarrow> (c, members) \<in> set groups \<Longrightarrow>
    turns_consecutive (map (\<lambda>r. dget r ''turn'') members) = Inr ()"
  by (induction groups) (auto split: sum.splits)

lemma map_sum_Inr: "map_sum id f x = Inr y \<longleftrightarrow> (\<exists>z. x = Inr z \<and> y = f z)"
  by (cases x) auto

lemma distinct_keys_by_conversation:
  "(\<And>c. c \<in> conv_of ` set rows \<Longrightarrow> distinct (map turn_of (filter (\<lambda>r. conv_of r = c) rows))) \<Longrightarrow> distinct (map key_of rows)"
proof (induction rows)
  case (Cons r rows)
  have "distinct (map turn_of (filter (\<lambda>r. conv_of r = c) rows))" if "c \<in> conv_of ` set rows" for c
    using Cons.prems [of c] that by (auto split: if_splits)
  then have "distinct (map key_of rows)" by (rule Cons.IH)
  moreover have "key_of r \<notin> key_of ` set rows"
    using Cons.prems [of "conv_of r"] by (auto simp: key_of_def)
  ultimately show ?case by simp
qed simp

lemma accepted_rows_have_distinct_keys:
  assumes "agentic_init show gp df = Inr df1" "groups_law gp" "list_all typed_row (fr_rows df1)"
  shows "distinct (map key_of (fr_rows df1))"
proof (rule distinct_keys_by_conversation)
  let ?rows = "fr_rows df1"
  have df1: "df1 = df\<lparr>fr_rows := conversation_rows df\<rparr>"
      "validate_turn_numbering (gp_groups gp (conversation_rows df)) = Inr ()"
    using assms(1) by (auto simp: agentic_init_def Let_def map_sum_Inr split: if_splits sum.splits)
  then have num: "validate_turn_numbering (gp_groups gp ?rows) = Inr ()" by simp
  have g: "gp_groups gp ?rows = map (\<lambda>c. (PStr c, filter (\<lambda>r. conv_of r = c) ?rows)) (first_seen (map conv_of ?rows))"
    using assms(2,3) by (simp add: groups_law_def)
  fix c assume "c \<in> conv_of ` set ?rows"
  then have "(PStr c, filter (\<lambda>r. conv_of r = c) ?rows) \<in> set (gp_groups gp ?rows)"
    by (auto simp: g set_first_seen)
  from numbering_members [OF num this] assms(3)
  show "distinct (map turn_of (filter (\<lambda>r. conv_of r = c) ?rows))"
    by (intro turns_consecutive_distinct) (auto simp: list_all_iff)
qed

section \<open>What a sample keeps\<close>

lemma map_of_filter_wf:
  "dict_wf d \<Longrightarrow> map_of (filter (\<lambda>(k, v). P v) d) k = (case map_of d k of Some v \<Rightarrow> if P v then Some v else None | None \<Rightarrow> None)"
proof (induction d)
  case (Cons p d)
  obtain a v where p: "p = (a, v)" by force
  have wf: "dict_wf d" "a \<notin> fst ` set d" using Cons.prems by (simp_all add: dict_wf_def p)
  then have "map_of d a = None" by (simp add: map_of_eq_None_iff)
  then show ?case using Cons.IH [OF wf(1)] by (auto simp: p split: option.splits)
qed simp

lemma fill_missing_keeps: "map_of d k = Some v \<Longrightarrow> map_of (fill_missing d ds) k = Some v"
proof (induction ds arbitrary: d)
  case (Cons p ds)
  obtain a w where p: "p = (a, w)" by force
  let ?d = "if has_key d a then d else d @ [(a, w)]"
  have "map_of ?d k = Some v" using Cons.prems by (simp add: map_of_append)
  from Cons.IH [OF this] show ?case by (simp add: fill_missing_def p)
qed (simp add: fill_missing_def)

lemma token_limit_keeps:
  "map_of d k = Some v \<Longrightarrow> k \<noteq> ''max_new_tokens'' \<Longrightarrow> k \<noteq> ''max_completion_tokens'' \<Longrightarrow> k \<noteq> ''max_tokens'' \<Longrightarrow>
    map_of (with_token_limit d) k = Some v"
  by (simp add: with_token_limit_def Let_def delete_conv')

lemma client_sample_keeps:
  assumes "dict_wf row" "\<not> no_value (dget row k)" "k = ''conversation_id'' \<or> k = ''turn'' \<or> k = ''role''"
  shows "dget (client_sample ds row) k = dget row k"
proof -
  obtain v where v: "map_of row k = Some v" "\<not> no_value v"
    using assms(2) by (cases "map_of row k") (simp_all add: dget_def no_value_def)
  define stripped where "stripped = AList.delete ''delay_seconds'' (AList.delete ''tool_calls'' (AList.delete ''tool_results''
    (filter (\<lambda>(k, v). \<not> no_value v) row)))"
  define limited where "limited = with_token_limit
    (fill_missing stripped (case map_of ds (dget row ''conversation_id'') of Some d \<Rightarrow> d | None \<Rightarrow> []))"
  have s: "client_sample ds row = (if has_key limited ''stream'' then limited else limited @ [(''stream'', PBool False)])"
    by (simp add: client_sample_def stripped_def limited_def Let_def)
  have "map_of (filter (\<lambda>(k, v). \<not> no_value v) row) k = Some v"
    using v map_of_filter_wf [OF assms(1), of "\<lambda>v. \<not> no_value v" k] by simp
  then have "map_of stripped k = Some v" using assms(3) by (auto simp: stripped_def delete_conv')
  then have "map_of limited k = Some v"
    unfolding limited_def by (intro token_limit_keeps fill_missing_keeps) (use assms(3) in auto)
  then have "map_of (client_sample ds row) k = Some v" by (simp add: s map_of_append)
  then show ?thesis using v by (simp add: dget_def)
qed

section \<open>Filling in the configured defaults\<close>

text \<open>Filling a column that is there sets its empty cells.\<close>

definition fill_law :: "pandas \<Rightarrow> bool" where
  "fill_law pd \<longleftrightarrow> (\<forall>k v df. frame_wf df \<and> distinct (fr_columns df) \<and> k \<in> set (fr_columns df) \<and> seq_elems v = None \<and> \<not> is_dict v \<longrightarrow>
     pd_fill pd k v df = Inr (df\<lparr>fr_rows := map (\<lambda>row. if no_value (dget row k) then AList.update k v row else row) (fr_rows df)\<rparr>))"

definition plain_defaults :: "pydict \<Rightarrow> bool" where
  "plain_defaults kvs = list_all (\<lambda>(k, v). seq_elems v = None \<and> \<not> is_dict v) kvs"

definition filled_row :: "pydict \<Rightarrow> pydict \<Rightarrow> pydict \<Rightarrow> bool" where
  "filled_row kvs r r' \<longleftrightarrow> (dict_wf r \<longrightarrow> dict_wf r') \<and> (\<forall>k. k \<notin> fst ` set kvs \<longrightarrow> dget r' k = dget r k)"

lemma dget_update: "dget (AList.update k v r) j = (if j = k then v else dget r j)"
  by (simp add: dget_def)

lemma static_value_plain: "\<not> is_dict v \<Longrightarrow> static_value v n = v"
  by (cases v) (simp_all add: is_dict_def static_value_def)

lemma add_static_column_fills:
  assumes law: "assign_law pd" "fill_law pd" and df: "frame_wf df" "distinct (fr_columns df)"
    and v: "seq_elems v = None" "\<not> is_dict v"
  shows "\<exists>df'. add_static_column pd False (length (fr_rows df)) (k, v) df = Inr df' \<and> frame_wf df' \<and> distinct (fr_columns df')
    \<and> list_all2 (filled_row [(k, v)]) (fr_rows df) (fr_rows df')"
proof -
  consider (none) "v = PNone" | (fill) "v \<noteq> PNone" "k \<in> set (fr_columns df)" | (assign) "v \<noteq> PNone" "k \<notin> set (fr_columns df)" by blast
  then show ?thesis
  proof cases
    case none
    then show ?thesis using df
      by (intro exI [of _ df]) (auto simp: add_static_column_def is_none_def filled_row_def list_all2_same)
  next
    case fill
    let ?d = "df\<lparr>fr_rows := map (\<lambda>row. if no_value (dget row k) then AList.update k v row else row) (fr_rows df)\<rparr>"
    have "pd_fill pd k v df = Inr ?d" using law(2) df fill v unfolding fill_law_def by blast
    then have "add_static_column pd False (length (fr_rows df)) (k, v) df = Inr ?d"
      using fill v by (simp add: add_static_column_def is_none_def static_value_plain)
    moreover have "frame_wf ?d"
      using df(1) fill(2) by (auto simp: frame_wf_def list_all_iff row_keys_update add_key_def)
    moreover have "list_all2 (filled_row [(k, v)]) (fr_rows df) (fr_rows ?d)"
      by (auto simp: list_all2_conv_all_nth filled_row_def dget_update)
    ultimately show ?thesis using df(2) by auto
  next
    case assign
    let ?d = "\<lparr>fr_columns = add_key k (fr_columns df), fr_rows = map (AList.update k v) (fr_rows df)\<rparr>"
    have "pd_assign pd k (static_value v (length (fr_rows df))) df = Inr ?d"
      using law(1) df v unfolding assign_law_def by blast
    then have "add_static_column pd False (length (fr_rows df)) (k, v) df = Inr ?d"
      using assign by (simp add: add_static_column_def is_none_def)
    moreover have "list_all2 (filled_row [(k, v)]) (fr_rows df) (fr_rows ?d)"
      by (auto simp: list_all2_conv_all_nth filled_row_def dget_update)
    ultimately show ?thesis using frame_wf_update [OF df(1)] df(2) by (auto simp: add_key_distinct)
  qed
qed

lemma filled_row_trans: "filled_row a r s \<Longrightarrow> filled_row b s t \<Longrightarrow> filled_row (a @ b) r t"
  by (simp add: filled_row_def image_Un)

lemma add_static_columns_fill:
  assumes law: "assign_law pd" "fill_law pd"
  shows "frame_wf df \<Longrightarrow> distinct (fr_columns df) \<Longrightarrow> plain_defaults kvs \<Longrightarrow> n = length (fr_rows df) \<Longrightarrow>
    \<exists>df'. add_static_columns pd False n kvs df = Inr df' \<and> list_all2 (filled_row kvs) (fr_rows df) (fr_rows df')"
proof (induction kvs arbitrary: df)
  case Nil
  then show ?case by (auto simp: list_all2_same filled_row_def)
next
  case (Cons kv kvs)
  obtain k v where kv: "kv = (k, v)" by force
  obtain d1 where d1: "add_static_column pd False n (k, v) df = Inr d1" "frame_wf d1" "distinct (fr_columns d1)"
    and f1: "list_all2 (filled_row [(k, v)]) (fr_rows df) (fr_rows d1)"
    using add_static_column_fills [OF law Cons.prems(1,2), of v k] Cons.prems(3,4) by (auto simp: plain_defaults_def kv)
  have "n = length (fr_rows d1)" using f1 Cons.prems(4) by (auto dest: list_all2_lengthD)
  then obtain d2 where d2: "add_static_columns pd False n kvs d1 = Inr d2" "list_all2 (filled_row kvs) (fr_rows d1) (fr_rows d2)"
    using Cons.IH [OF d1(2,3)] Cons.prems(3) by (auto simp: plain_defaults_def kv)
  have "list_all2 (filled_row (kv # kvs)) (fr_rows df) (fr_rows d2)"
    using list_all2_trans [OF _ f1 d2(2), of "filled_row (kv # kvs)"] filled_row_trans [of "[(k, v)]" _ _ kvs] by (simp add: kv)
  then show ?case using d1(1) d2(1) by (auto simp: kv)
qed

lemma agentic_frame_fills:
  assumes law: "assign_law pd" "fill_law pd" and df: "frame_wf df" "distinct (fr_columns df)" and mp: "plain_defaults (openai_metadata mp)"
  shows "\<exists>df'. agentic_frame pd tt [] (Some (OPENAI, mp)) df = Inr df' \<and> list_all2 (filled_row (openai_metadata mp)) (fr_rows df) (fr_rows df')"
proof -
  have "adapter_defaults (openai_transforms mp) = openai_metadata mp"
    using openai_metadata_keys(1) by (simp add: adapter_defaults_def openai_transforms_def dmerge_copy dict_wf_def)
  then have "agentic_frame pd tt [] (Some (OPENAI, mp)) df = add_static_columns pd False (length (fr_rows df)) (openai_metadata mp) df"
    by (simp add: agentic_frame_def get_transforms_for_api_type_def openai_metadata_def)
  then show ?thesis using add_static_columns_fill [OF law df mp refl] by simp
qed

text \<open>The defaults leave what makes up a turn alone.\<close>

definition turn_keys_of :: "string list" where
  "turn_keys_of = [''conversation_id'', ''turn'', ''role'', ''content'', ''name'', ''tool_calls'', ''tool_results'', ''reasoning_content'', ''system'']"

definition same_turn :: "pydict \<Rightarrow> pydict \<Rightarrow> bool" where
  "same_turn r r' \<longleftrightarrow> (dict_wf r \<longrightarrow> dict_wf r') \<and> list_all (\<lambda>k. dget r' k = dget r k) turn_keys_of"

definition openai_metadata_names :: "string list" where
  "openai_metadata_names =
     [''model'', ''temperature'', ''seed'', ''top_p'', ''top_k'', ''repetition_penalty'', ''presence_penalty'', ''frequency_penalty'',
      ''chat_template_kwargs'', ''stream'', ''max_completion_tokens'']"

lemma openai_metadata_names: "k \<in> fst ` set (openai_metadata mp) \<Longrightarrow> k \<in> set openai_metadata_names"
  by (auto simp: openai_metadata_def knobs_def openai_metadata_names_def split: if_splits)

lemma turn_keys_free: "list_all (\<lambda>k. k \<notin> set openai_metadata_names) turn_keys_of"
  by code_simp

lemma filled_same_turn: "filled_row (openai_metadata mp) r r' \<Longrightarrow> same_turn r r'"
  using turn_keys_free openai_metadata_names [of _ mp] unfolding same_turn_def filled_row_def list_all_iff by blast

lemma same_turn_simps:
  assumes "same_turn r r'"
  shows "conv_of r' = conv_of r" "turn_of r' = turn_of r" "key_of r' = key_of r" "msgs r' = msgs r"
    "is_client_role r' = is_client_role r" "dget r' ''system'' = dget r ''system''" "typed_row r \<Longrightarrow> typed_row r'"
proof -
  have e: "dget r' ''conversation_id'' = dget r ''conversation_id''" "dget r' ''turn'' = dget r ''turn''" "dget r' ''role'' = dget r ''role''"
    "dget r' ''content'' = dget r ''content''" "dget r' ''name'' = dget r ''name''" "dget r' ''tool_calls'' = dget r ''tool_calls''"
    "dget r' ''tool_results'' = dget r ''tool_results''" "dget r' ''reasoning_content'' = dget r ''reasoning_content''"
    and s: "dget r' ''system'' = dget r ''system''"
    using assms by (simp_all add: same_turn_def turn_keys_of_def)
  show c: "conv_of r' = conv_of r" and t: "turn_of r' = turn_of r" unfolding conv_of_def turn_of_def e by simp_all
  show "key_of r' = key_of r" unfolding key_of_def c t ..
  show "is_client_role r' = is_client_role r" unfolding is_client_role_def e ..
  show "dget r' ''system'' = dget r ''system''" by (rule s)
  have m: "row_message r' = row_message r" unfolding row_message_def list.map e ..
  show "msgs r' = msgs r" unfolding msgs_def row_messages_def expand_tool_results_def e m ..
  show "typed_row r \<Longrightarrow> typed_row r'" using assms e(1,2) c t by (simp add: typed_row_def same_turn_def)
qed

lemma sort_is_sort_key:
  assumes "sort_law gp" "list_all typed_row xs" "distinct (map turn_of xs)"
  shows "gp_sort gp xs = sort_key turn_of xs"
proof -
  have s: "mset (gp_sort gp xs) = mset xs" "sorted (map turn_of (gp_sort gp xs))"
    using assms(1,2) by (simp_all add: sort_law_def)
  have one: "filter (\<lambda>x. turn_of k = turn_of x) ys = [k]" if "distinct (map turn_of ys)" "k \<in> set ys" for k ys
    using that by (induction ys) (auto simp: filter_empty_conv, metis image_eqI)
  have d: "distinct (map turn_of (gp_sort gp xs))" using assms(3) s(1) by (metis mset_map mset_eq_imp_distinct_iff)
  have "sort_key turn_of xs = gp_sort gp xs"
  proof (rule properties_for_sort_key [OF s(1) _ s(2)])
    fix k assume k: "k \<in> set (gp_sort gp xs)"
    moreover have "k \<in> set xs" using k s(1) by (metis set_mset_mset)
    ultimately show "filter (\<lambda>x. turn_of k = turn_of x) (gp_sort gp xs) = filter (\<lambda>x. turn_of k = turn_of x) xs"
      using one [OF d] one [OF assms(3)] by simp
  qed
  then show ?thesis by simp
qed

lemma list_all2_sort_key:
  assumes "\<And>x y. R x y \<Longrightarrow> f y = f x"
  shows "list_all2 R xs ys \<Longrightarrow> list_all2 R (sort_key f xs) (sort_key f ys)"
proof (induction rule: list_all2_induct)
  case (Cons x xs y ys)
  have "list_all2 R (insort_key f x as) (insort_key f y bs)" if "R x y" "list_all2 R as bs" for as bs
    using that(2,1)
  proof (induction rule: list_all2_induct)
    case (Cons a as b bs)
    then show ?case using assms [of x y] assms [of a b] by auto
  qed simp
  with Cons show ?case by simp
qed simp

lemma list_all2_filter_same:
  "list_all2 R xs ys \<Longrightarrow> (\<And>x y. R x y \<Longrightarrow> P y = P x) \<Longrightarrow> list_all2 R (filter P xs) (filter P ys)"
  by (induction rule: list_all2_induct) auto

lemma same_messages_upto:
  assumes "sort_law gp" "list_all2 same_turn rs rs'" "list_all typed_row rs" "list_all typed_row rs'" "distinct (map key_of rs)"
  shows "messages_upto gp rs' k = messages_upto gp rs k"
proof -
  obtain c t where k: "k = (c, t)" by force
  let ?m = "filter (\<lambda>r. conv_of r = c) rs" and ?m' = "filter (\<lambda>r. conv_of r = c) rs'"
  have m: "list_all2 same_turn ?m ?m'" using assms(2) by (rule list_all2_filter_same) (simp add: same_turn_simps)
  have d: "distinct (map turn_of ?m)"
  proof -
    have "inj_on turn_of (set ?m)" using assms(5) by (auto simp: inj_on_def key_of_def distinct_map)
    then show ?thesis using assms(5) by (simp add: distinct_map)
  qed
  have "map turn_of ?m' = map turn_of ?m"
    using m by (induction rule: list_all2_induct) (simp_all add: same_turn_simps)
  then have d': "distinct (map turn_of ?m')" using d by simp
  have t: "list_all typed_row ?m" "list_all typed_row ?m'" using assms(3,4) by (auto simp: list_all_iff)
  have conv: "conversation gp rs c = sort_key turn_of ?m" "conversation gp rs' c = sort_key turn_of ?m'"
    using sort_is_sort_key [OF assms(1) t(1) d] sort_is_sort_key [OF assms(1) t(2) d'] by (simp_all add: conversation_def)
  have s: "list_all2 same_turn (conversation gp rs c) (conversation gp rs' c)"
    unfolding conv by (rule list_all2_sort_key [OF _ m]) (rule same_turn_simps(2))
  have "system_message bs = system_message as" if "list_all2 same_turn as bs" for as bs
  proof -
    have "list_all2 same_turn (filter (\<lambda>r. nonempty_text (dget r ''system'')) as) (filter (\<lambda>r. nonempty_text (dget r ''system'')) bs)"
      using that by (rule list_all2_filter_same) (simp add: same_turn_simps)
    then show ?thesis unfolding system_message_def
      by (cases "filter (\<lambda>r. nonempty_text (dget r ''system'')) as"; cases "filter (\<lambda>r. nonempty_text (dget r ''system'')) bs")
        (simp_all add: same_turn_simps)
  qed
  moreover have "map msgs (takeWhile (\<lambda>r. turn_of r \<le> t) bs) = map msgs (takeWhile (\<lambda>r. turn_of r \<le> t) as)"
    if "list_all2 same_turn as bs" for as bs
    using that by (induction rule: list_all2_induct) (simp_all add: same_turn_simps)
  ultimately show ?thesis using s by (simp add: messages_upto_def k)
qed

section \<open>From the file to the strategy\<close>

text \<open>The entries as the strategy reads them: conversation, sample index, turn.\<close>

definition strategy_samples :: "agentic_data \<Rightarrow> (string \<times> int \<times> int) list" where
  "strategy_samples data =
     map (\<lambda>((c, t), i). (c, (case i of Some j \<Rightarrow> int j | None \<Rightarrow> - 1), t)) (cm_samples (agd_metadata data))"

lemma loaded_samples:
  assumes law: "groups_law gp" "sort_law gp" "assign_law pd" "fill_law pd"
    and init: "agentic_init show gp df = Inr df1"
    and df1: "frame_wf df1" "distinct (fr_columns df1)" "list_all typed_row (fr_rows df1)" "plain_defaults (openai_metadata mp)"
    and load: "agentic_load pd tt show ft gp mt [] given (Some (OPENAI, mp)) df1 = Inr (df2, data)"
  shows "list_all2 (\<lambda>r s. dget s ''conversation_id'' = PStr (conv_of r) \<and> dget s ''turn'' = PInt (turn_of r)
        \<and> dget s ''messages'' = PList (messages_upto gp (fr_rows df1) (key_of r)))
      (client_rows (fr_rows df1)) (agd_samples data)"
    and "mset (cm_samples (agd_metadata data)) =
      mset (map (\<lambda>j. (key_of (client_rows (fr_rows df1) ! j), Some j)) [0..<length (client_rows (fr_rows df1))])"
proof -
  let ?rs = "fr_rows df1"
  obtain df' where frame: "agentic_frame pd tt [] (Some (OPENAI, mp)) df1 = Inr df'"
    and filled: "list_all2 (filled_row (openai_metadata mp)) ?rs (fr_rows df')"
    using agentic_frame_fills [OF law(3,4) df1(1,2,4)] by blast
  obtain m where "df2 = df'" and m: "build_metadata show ft gp (mt (fr_rows df')) (fr_rows df') = Inr m"
    and bk: "bake show m (fr_rows df') = Inr data"
    using load by (auto simp: agentic_load_def frame map_sum_Inr split: sum.splits)
  let ?rs' = "fr_rows df'"
  have same: "list_all2 same_turn ?rs ?rs'" using filled by (rule list_all2_mono) (rule filled_same_turn)
  have keys: "distinct (map key_of ?rs)" by (rule accepted_rows_have_distinct_keys [OF init law(1) df1(3)])
  have typed': "list_all typed_row ?rs'" and kk: "map key_of ?rs' = map key_of ?rs"
    using same df1(3) by (induction rule: list_all2_induct) (simp_all add: same_turn_simps)
  have keys': "distinct (map key_of ?rs')" using keys by (simp only: kk)
  note md = build_metadata_facts [OF law(1,2) typed' keys' m]
  note b = bake_facts [OF typed' keys' md(1) md(2) bk]
  have cl: "list_all2 same_turn (client_rows ?rs) (client_rows ?rs')"
    unfolding client_rows_def by (rule list_all2_filter_same [OF same]) (rule same_turn_simps(5))
  then have ck: "map key_of (client_rows ?rs') = map key_of (client_rows ?rs)"
    by (induction rule: list_all2_induct) (simp_all add: same_turn_simps)
  show "mset (cm_samples (agd_metadata data)) = mset (map (\<lambda>j. (key_of (client_rows ?rs ! j), Some j)) [0..<length (client_rows ?rs)])"
  proof -
    have l: "length (client_rows ?rs') = length (client_rows ?rs)" using cl by (simp add: list_all2_lengthD)
    have "key_of (client_rows ?rs' ! j) = key_of (client_rows ?rs ! j)" if "j < length (client_rows ?rs)" for j
      using ck that l by (metis nth_map)
    then have "map (\<lambda>j. (key_of (client_rows ?rs' ! j), Some j)) [0..<length (client_rows ?rs)]
        = map (\<lambda>j. (key_of (client_rows ?rs ! j), Some j)) [0..<length (client_rows ?rs)]"
      by (intro map_cong) simp_all
    then show ?thesis using b(2) by (simp only: l)
  qed
  have sample: "dget s ''conversation_id'' = PStr (conv_of r) \<and> dget s ''turn'' = PInt (turn_of r)
      \<and> dget s ''messages'' = PList (messages_upto gp ?rs (key_of r))"
    if s: "s = AList.update ''messages'' (PList (messages_upto gp ?rs' (key_of r'))) (client_sample (conv_defaults ?rs') r')"
      and r: "same_turn r r'" "r' \<in> set ?rs'" for s r r'
  proof -
    have t: "typed_row r'" using typed' r(2) by (simp add: list_all_iff)
    have "\<not> no_value (dget r' ''conversation_id'')" "\<not> no_value (dget r' ''turn'')" "dict_wf r'"
      using t by (simp_all add: typed_row_def no_value_def)
    then have "dget (client_sample (conv_defaults ?rs') r') ''conversation_id'' = dget r' ''conversation_id''"
      "dget (client_sample (conv_defaults ?rs') r') ''turn'' = dget r' ''turn''"
      by (simp_all add: client_sample_keeps)
    then show ?thesis
      using t same_turn_simps [OF r(1)] same_messages_upto [OF law(2) same df1(3) typed' keys]
      by (simp add: s dget_update typed_row_def)
  qed
  show "list_all2 (\<lambda>r s. dget s ''conversation_id'' = PStr (conv_of r) \<and> dget s ''turn'' = PInt (turn_of r)
        \<and> dget s ''messages'' = PList (messages_upto gp ?rs (key_of r))) (client_rows ?rs) (agd_samples data)"
  proof (rule list_all2_all_nthI)
    show l: "length (client_rows ?rs) = length (agd_samples data)" using cl by (simp add: b(1) list_all2_lengthD)
    fix j assume j: "j < length (client_rows ?rs)"
    then have j': "j < length (client_rows ?rs')" using cl by (simp add: list_all2_lengthD)
    then have "client_rows ?rs' ! j \<in> set ?rs'" using nth_mem by (fastforce simp: client_rows_def)
    moreover have "same_turn (client_rows ?rs ! j) (client_rows ?rs' ! j)" using cl j by (rule list_all2_nthD)
    ultimately show "dget (agd_samples data ! j) ''conversation_id'' = PStr (conv_of (client_rows ?rs ! j))
        \<and> dget (agd_samples data ! j) ''turn'' = PInt (turn_of (client_rows ?rs ! j))
        \<and> dget (agd_samples data ! j) ''messages'' = PList (messages_upto gp ?rs (key_of (client_rows ?rs ! j)))"
      using j' by (intro sample [of _ "client_rows ?rs' ! j"]) (simp_all add: b(1))
  qed
qed

lemma base_convs_entry:
  "(c, ts) \<in> set (base_convs samples) \<Longrightarrow> (i, t) \<in> set ts \<Longrightarrow> (c, i, t) \<in> set samples"
  by (auto simp: base_convs_def)

lemma base_convs_sorted: "(c, ts) \<in> set (base_convs samples) \<Longrightarrow> sorted (map snd ts)"
  by (auto simp: base_convs_def)

text \<open>C38. An accepted conversation file is what the endpoint will see: every turn the strategy is given, for any
  conversation, names the sample of that turn, and the sample's messages are the system text and all messages
  of the conversation up to that turn, in turn order, whatever the order of the rows in the file; each
  conversation's turns come in increasing order, and there is exactly one entry per sample.\<close>

lemma turns_point_to_their_conversation:
  assumes "groups_law gp" "sort_law gp" "assign_law pd" "fill_law pd"
    and "agentic_init show gp df = Inr df1"
    and "frame_wf df1" "distinct (fr_columns df1)" "list_all typed_row (fr_rows df1)" "plain_defaults (openai_metadata mp)"
    and "agentic_load pd tt show ft gp mt [] given (Some (OPENAI, mp)) df1 = Inr (df2, data)"
  shows "length (cm_samples (agd_metadata data)) = length (agd_samples data)
    \<and> list_all (\<lambda>(c, turns). sorted (map snd turns)
          \<and> list_all (\<lambda>(i, t). 0 \<le> i \<and> i < int (length (agd_samples data))
              \<and> dget (agd_samples data ! nat i) ''messages'' = PList (messages_upto gp (fr_rows df1) (c, t))) turns)
        (base_convs (strategy_samples data))"
proof -
  note f = loaded_samples [OF assms]
  let ?cl = "client_rows (fr_rows df1)"
  have l: "length (agd_samples data) = length ?cl" using f(1) by (simp add: list_all2_lengthD)
  have "length (cm_samples (agd_metadata data)) = length ?cl"
    using arg_cong [OF f(2), of size] by simp
  moreover have "0 \<le> i \<and> i < int (length ?cl) \<and> dget (agd_samples data ! nat i) ''messages'' = PList (messages_upto gp (fr_rows df1) (c, t))"
    if e: "(c, turns) \<in> set (base_convs (strategy_samples data))" "(i, t) \<in> set turns" for c turns i t
  proof -
    have "(c, i, t) \<in> set (strategy_samples data)" by (rule base_convs_entry [OF e])
    then obtain o' where o': "((c, t), o') \<in> set (cm_samples (agd_metadata data))" "i = (case o' of Some j \<Rightarrow> int j | None \<Rightarrow> - 1)"
      by (auto simp: strategy_samples_def)
    then have "((c, t), o') \<in> set (map (\<lambda>j. (key_of (?cl ! j), Some j)) [0..<length ?cl])"
      using f(2) by (metis set_mset_mset)
    then obtain j where j: "j < length ?cl" "key_of (?cl ! j) = (c, t)" "o' = Some j" by auto
    then show ?thesis using o'(2) list_all2_nthD [OF f(1) j(1)] by simp
  qed
  ultimately show ?thesis using base_convs_sorted l by (fastforce simp: list_all_iff)
qed

definition list_grouping :: grouping where
  "list_grouping = \<lparr>
     gp_groups = (\<lambda>rows. map (\<lambda>c. (PStr c, filter (\<lambda>r. conv_of r = c) rows)) (first_seen (map conv_of rows))),
     gp_sort = sort_key turn_of\<rparr>"

lemma list_grouping_laws: "groups_law list_grouping" "sort_law list_grouping"
  by (simp_all add: groups_law_def sort_law_def list_grouping_def)

lemma list_pandas_fill: "fill_law list_pandas"
  unfolding fill_law_def
proof (intro allI impI)
  fix k v and df :: frame
  assume a: "frame_wf df \<and> distinct (fr_columns df) \<and> k \<in> set (fr_columns df) \<and> seq_elems v = None \<and> \<not> is_dict v"
  then have "cells_of v df = Inr (replicate (length (fr_rows df)) v)"
    by (cases v) (auto simp: seq_elems_def cells_of_def is_dict_def)
  moreover have "map (\<lambda>(row, v). if dget row k \<in> {PNone, PFloat NaN} then AList.update k v row else row) (zip rows (replicate (length rows) v))
      = map (\<lambda>row. if no_value (dget row k) then AList.update k v row else row) rows" for rows
    by (induction rows) (auto simp: no_value_def)
  ultimately show "pd_fill list_pandas k v df =
      Inr (df\<lparr>fr_rows := map (\<lambda>row. if no_value (dget row k) then AList.update k v row else row) (fr_rows df)\<rparr>)"
    using a by (simp add: list_pandas_def set_cells_def add_key_def)
qed

definition turn_row :: "string \<Rightarrow> int \<Rightarrow> string \<Rightarrow> string \<Rightarrow> pydict" where
  "turn_row c n role content =
     [(''conversation_id'', PStr c), (''turn'', PInt n), (''role'', PStr role), (''content'', PStr content)]"

definition example_conversations :: frame where
  "example_conversations = \<lparr>fr_columns = [''conversation_id'', ''turn'', ''role'', ''content''],
     fr_rows = [turn_row ''a'' 3 ''user'' ''more'', turn_row ''a'' 1 ''user'' ''hi'', turn_row ''a'' 2 ''assistant'' ''hello'',
                turn_row ''b'' 1 ''user'' ''bye'']\<rparr>"

lemma turns_point_to_their_conversation_witness:
  "\<exists>df2 data. agentic_load list_pandas plain_tools (\<lambda>_. []) (\<lambda>_. None) list_grouping (\<lambda>_. PNone) [] False
      (Some (OPENAI, example_params)) example_conversations = Inr (df2, data)
    \<and> length (cm_samples (agd_metadata data)) = length (agd_samples data)
    \<and> list_all (\<lambda>(c, turns). sorted (map snd turns)
          \<and> list_all (\<lambda>(i, t). 0 \<le> i \<and> i < int (length (agd_samples data))
              \<and> dget (agd_samples data ! nat i) ''messages'' = PList (messages_upto list_grouping (fr_rows example_conversations) (c, t))) turns)
        (base_convs (strategy_samples data))"
proof -
  have "is_ok (agentic_load list_pandas plain_tools (\<lambda>_. []) (\<lambda>_. None) list_grouping (\<lambda>_. PNone) [] False
      (Some (OPENAI, example_params)) example_conversations)"
    by code_simp
  then obtain df2 data where load: "agentic_load list_pandas plain_tools (\<lambda>_. []) (\<lambda>_. None) list_grouping (\<lambda>_. PNone) [] False
      (Some (OPENAI, example_params)) example_conversations = Inr (df2, data)"
    by (auto simp: is_ok_iff)
  have init: "agentic_init (\<lambda>_. []) list_grouping example_conversations = Inr example_conversations" by code_simp
  have df: "frame_wf example_conversations" "distinct (fr_columns example_conversations)"
    "list_all typed_row (fr_rows example_conversations)" "plain_defaults (openai_metadata example_params)"
    by code_simp+
  show ?thesis
    using load turns_point_to_their_conversation [OF list_grouping_laws list_pandas_assign list_pandas_fill init df load] by blast
qed

text \<open>
  Validation asks that a tool result has a \<open>content\<close>, loading that it is not null: a file with a null result is
  accepted and then fails to load.
\<close>

lemma null_tool_result_passes_validation:
  "let result = PDict [(''tool_call_id'', PStr ''t''), (''content'', PNone)]
   in tool_result_ok result \<and> expand_tool_result result = Inl InputValidationError"
  by code_simp

end
