(* ===== verification/AgenticFailures.thy ===== *)
theory AgenticFailures
  imports AgenticRuns
begin

text \<open>
  What a failed turn leaves behind, through the whole handling of an error response or a timeout:
  the turn, the turns its conversation had left, and the slot that is filled afterwards.
\<close>

section \<open>The turns that are dropped\<close>

fun is_sample_complete :: "effect \<Rightarrow> bool" where
  "is_sample_complete (SampleComplete r) = True"
| "is_sample_complete _ = False"

text \<open>How many of the next \<open>m\<close> stop checks let the call go on before the first that does not.\<close>

fun open_checks :: "(nat \<Rightarrow> bool) \<Rightarrow> nat \<Rightarrow> nat \<Rightarrow> nat" where
  "open_checks stops i 0 = 0"
| "open_checks stops i (Suc m) = (if stops i then 0 else Suc (open_checks stops (Suc i) m))"

lemma open_checks_le: "open_checks stops i m \<le> m"
  by (induction m arbitrary: i) auto

lemma open_checks_all: "(\<And>j. \<not> stops j) \<Longrightarrow> open_checks stops i m = m"
  by (induction m arbitrary: i) auto

lemma abort_turns_accounts:
  assumes "ag_conv_states s cid = Some c" "n = open_checks (ag_stops s) (ag_spos s) (length ts)"
  shows "\<exists>s' new c'. abort_turns cid reason ts s = (None, n, s')
    \<and> ag_conv_states s' cid = Some c' \<and> cs_completed_turns c' = cs_completed_turns c + int (min (Suc n) (length ts))
    \<and> cs_failed_turns c' = cs_failed_turns c + int (min (Suc n) (length ts))
    \<and> issued_count (ag_issuer s') = issued_count (ag_issuer s) + int n
    \<and> inflight (ag_issuer s') = inflight (ag_issuer s)
    \<and> wlog (ag_world s') = wlog (ag_world s) @ new \<and> count_if is_issued new = n
    \<and> count_if is_sample_complete new = n \<and> count_if is_send new = 0"
  using assms
proof (induction ts arbitrary: s c n)
  case (Cons t ts)
  obtain idx turn where t: "t = (idx, turn)" by force
  let ?q = "uuids (ag_world s) (upos (ag_world s))"
  let ?c = "c\<lparr>cs_completed_turns := cs_completed_turns c + 1, cs_failed_turns := cs_failed_turns c + 1\<rparr>"
  show ?case
  proof (cases "ag_stops s (ag_spos s)")
    case True
    let ?s = "s\<lparr>ag_conv_states := (ag_conv_states s)(cid \<mapsto> ?c), ag_spos := ag_spos s + 1\<rparr>"
    have "abort_turns cid reason (t # ts) s = (None, 0, ?s)"
      using Cons.prems(1) True by (simp add: t mark_turn_failed_def register_skipped_def)
    then show ?thesis using Cons.prems True by (intro exI [of _ ?s] exI [of _ "[]"] exI [of _ ?c]) simp
  next
    case False
    obtain p w new where r: "register_skipped False idx cid (Some turn) (ag_issuer s) (ag_world s) = (Some ?q, p, w)"
      and p: "issued_count p = issued_count (ag_issuer s) + 1" "inflight p = inflight (ag_issuer s)"
      and w: "wlog w = wlog (ag_world s) @ new" "count_if is_issued new = 1" "count_if is_sample_complete new = 0" "count_if is_send new = 0"
      by (auto simp: register_skipped_def new_uuid_def monotonic_ns_def emit_def)
    let ?e = "\<lparr>error_type = ''TurnAbortedByPriorFailure'', error_message = reason\<rparr>"
    let ?t = "s\<lparr>ag_conv_states := (ag_conv_states s)(cid \<mapsto> ?c), ag_spos := ag_spos s + 1, ag_issuer := p,
        ag_world := publish_synthetic_failure ?q cid (Some turn) ?e w\<rparr>"
    define k where "k = open_checks (ag_stops s) (Suc (ag_spos s)) (length ts)"
    have n: "n = Suc k" using Cons.prems(2) False by (simp add: k_def)
    obtain new2 where pub: "wlog (publish_synthetic_failure ?q cid (Some turn) ?e w) = wlog w @ new2"
      "count_if is_issued new2 = 0" "count_if is_sample_complete new2 = 1" "count_if is_send new2 = 0"
      by (auto simp: publish_synthetic_failure_def monotonic_ns_def emit_def)
    have "ag_conv_states ?t cid = Some ?c" "k = open_checks (ag_stops ?t) (ag_spos ?t) (length ts)" by (simp_all add: k_def)
    from Cons.IH [OF this] obtain s' new3 c' where ih: "abort_turns cid reason ts ?t = (None, k, s')"
      "ag_conv_states s' cid = Some c'" "cs_completed_turns c' = cs_completed_turns c + 1 + int (min (Suc k) (length ts))"
      "cs_failed_turns c' = cs_failed_turns c + 1 + int (min (Suc k) (length ts))"
      "issued_count (ag_issuer s') = issued_count p + int k" "inflight (ag_issuer s') = inflight p"
      "wlog (ag_world s') = wlog (publish_synthetic_failure ?q cid (Some turn) ?e w) @ new3"
      "count_if is_issued new3 = k" "count_if is_sample_complete new3 = k" "count_if is_send new3 = 0"
      by auto
    have "abort_turns cid reason (t # ts) s = (let (e, n, s2) = abort_turns cid reason ts ?t in (e, Suc n, s2))"
      using Cons.prems False by (simp add: t mark_turn_failed_def r)
    then have "abort_turns cid reason (t # ts) s = (None, n, s')" by (simp only: ih(1) Let_def prod.case n)
    moreover have "wlog (ag_world s') = wlog (ag_world s) @ (new @ new2 @ new3)" by (simp add: ih(7) pub(1) w(1))
    moreover have "count_if is_issued (new @ new2 @ new3) = n" "count_if is_sample_complete (new @ new2 @ new3) = n"
      "count_if is_send (new @ new2 @ new3) = 0"
      by (simp_all add: w pub ih n)
    ultimately show ?thesis using ih(2-6) p n by (auto intro!: exI [of _ "new @ new2 @ new3"])
  qed
qed (auto intro!: exI [of _ "[]"])

section \<open>What filling the slot leaves alone\<close>

text \<open>The states of the conversations that exist, and the log so far.\<close>

definition keeps :: "agentic \<Rightarrow> agentic \<Rightarrow> bool" where
  "keeps s s' = (ag_conv_states s \<subseteq>\<^sub>m ag_conv_states s' \<and> (\<exists>rest. wlog (ag_world s') = wlog (ag_world s) @ rest))"

lemma keeps_refl: "keeps s s"
  by (simp add: keeps_def)

lemma keeps_trans: "keeps s t \<Longrightarrow> keeps t u \<Longrightarrow> keeps s u"
  unfolding keeps_def by (metis append.assoc map_le_trans)

lemma keeps_same: "ag_conv_states s' = ag_conv_states s \<Longrightarrow> ag_world s' = ag_world s \<Longrightarrow> keeps s s'"
  by (simp add: keeps_def)

lemma issue_extends_log:
  assumes "issue stop i ov cid turn p w = (r, cb, p', w')"
  shows "\<exists>rest. wlog w' = wlog w @ rest"
  using issue_cases [OF assms] by (auto simp: issue_failed_def issue_sent_def Let_def)

lemma call_issue_keeps: "keeps s (snd (call_issue idx ov cid turn s))"
proof -
  obtain r cb p w where i: "issue (ag_stops s (ag_spos s)) idx ov cid (Some turn) (ag_issuer s) (ag_world s) = (r, cb, p, w)"
    by (metis prod_cases4)
  then show ?thesis using issue_extends_log [OF i] by (cases cb) (simp_all add: call_issue_def keeps_def add_callback_def)
qed

lemma request_stop_keeps: "keeps s (request_stop_issuing s)"
  by (rule keeps_same) (simp_all add: request_stop_issuing_def signal_done_if_no_inflight_def)

lemma stop_tracking_keeps: "keeps s (stop_tracking_once s)"
  by (auto simp: keeps_def stop_tracking_once_def stop_performance_tracking_def monotonic_ns_def emit_def Let_def)

lemma record_error_keeps: "keeps s (snd r) \<Longrightarrow> keeps s (record_error r)"
  by (cases r; cases "fst r") (auto simp: record_error_def keeps_def)

lemma issue_turn_now_keeps: "keeps s (snd (issue_turn_now digest cid idx turn s))"
proof -
  define s0 where "s0 = s\<lparr>ag_delay_handles := (ag_delay_handles s)(cid := None)\<rparr>"
  have base: "keeps s s0" by (rule keeps_same) (simp_all add: s0_def)
  have call: "keeps s0 (snd (call_issue idx ov cid turn s0))" for ov by (rule call_issue_keeps)
  have after: "keeps s0 (snd (case call_issue idx ov cid turn s0 of (Inl e, s1) \<Rightarrow> (Some e, s1)
      | (Inr None, s1) \<Rightarrow> (None, request_stop_issuing s1)
      | (Inr (Some qid), s1) \<Rightarrow> (None, s1\<lparr>ag_active := f s1, ag_inflight := g s1 qid, ag_timeout_handles := insert qid (ag_timeout_handles s1)\<rparr>)))"
    for ov f g
    using call [of ov] keeps_trans [OF call [of ov] request_stop_keeps]
    by (auto simp: keeps_def split: prod.split sum.split option.split)
  show ?thesis
    unfolding issue_turn_now_def Let_def s0_def [symmetric]
    using base keeps_trans [OF base after] by (auto split: option.split sum.split)
qed

definition fill_keeps :: "(agentic \<Rightarrow> agentic) \<Rightarrow> bool" where
  "fill_keeps f = (\<forall>s. keeps s (f s))"

lemma finish_keeps:
  assumes "fill_keeps fill"
  shows "keeps s (finish_with fill cid s)"
proof -
  define s0 where "s0 = s\<lparr>ag_active := (ag_active s)(cid := None)\<rparr>"
  have base: "keeps s s0" by (rule keeps_same) (simp_all add: s0_def)
  have f: "keeps t (fill t)" for t using assms by (simp add: fill_keeps_def)
  note t = stop_tracking_keeps [of s0]
  show ?thesis
    unfolding finish_with_def Let_def s0_def [symmetric]
    using keeps_trans [OF base f [of s0]] keeps_trans [OF base keeps_trans [OF t f]]
      keeps_trans [OF base keeps_trans [OF t request_stop_keeps]] by simp
qed

lemma issue_next_keeps:
  assumes "fill_keeps fill"
  shows "keeps s (snd (issue_next_with fill digest cid s))"
proof -
  have "keeps s (s\<lparr>ag_delay_handles := d\<rparr>)" for d by (rule keeps_same) simp_all
  then show ?thesis
    using finish_keeps [OF assms, of s cid] issue_turn_now_keeps [of s] keeps_refl [of s]
    by (auto simp: issue_next_with_def Let_def split: option.split prod.split)
qed

lemma get_or_create_keeps: "m \<subseteq>\<^sub>m get_or_create cid e m"
  by (auto simp: get_or_create_def map_le_def split: option.split)

lemma start_keeps:
  assumes "fill_keeps fill"
  shows "keeps s (snd (start_with fill digest s))"
proof (cases "ag_stopping s")
  case True
  then show ?thesis by (simp add: start_with_def keeps_refl)
next
  case False
  obtain inst s1 where n: "next_instance s = (inst, s1)" by force
  have same: "ag_conv_states s1 = ag_conv_states s" "ag_world s1 = ag_world s"
    using n by (auto simp: next_instance_def Let_def split: if_splits option.splits prod.splits)
  show ?thesis
  proof (cases inst)
    case None
    then show ?thesis using False n same by (auto simp: start_with_def intro!: keeps_same)
  next
    case (Some v)
    obtain lid src ts k where v: "v = (lid, src, ts, k)" by (metis prod_cases4)
    let ?s = "s1\<lparr>ag_conv_states := get_or_create lid (Some (int (length ts))) (ag_conv_states s1),
                ag_active := (ag_active s1)(lid \<mapsto> (src, ts, 0, k))\<rparr>"
    have "keeps s ?s" using same get_or_create_keeps by (simp add: keeps_def)
    from keeps_trans [OF this issue_next_keeps [OF assms, of ?s digest lid]] show ?thesis
      using False n Some v by (simp add: start_with_def)
  qed
qed

lemma fill_with_keeps:
  assumes "\<And>s. keeps s (snd (start s))"
  shows "fill_keeps (fill_with start)"
proof -
  have done_keeps: "keeps s (s\<lparr>ag_all_done := b\<rparr>)" "keeps s (signal_done_if_no_inflight s)" for s b
    by (rule keeps_same; simp add: signal_done_if_no_inflight_def)+
  show ?thesis
    using record_error_keeps [OF assms] done_keeps keeps_refl by (auto simp: fill_keeps_def fill_with_def)
qed

lemma fill_slot_keeps: "fill_keeps (fill_slot digest)"
proof -
  have "fill_keeps (fill_slot_fuel digest n)" for n
  proof (induction n)
    case 0
    then show ?case using fill_with_keeps [of "\<lambda>s. (None, s)"] keeps_refl by simp
  next
    case (Suc n)
    then show ?case using fill_with_keeps start_keeps by simp
  qed
  then show ?thesis by (simp add: fill_keeps_def fill_slot_def)
qed

section \<open>A failed turn\<close>

text \<open>The handling that leads from \<open>s\<close> to \<open>s'\<close>: the conversation \<open>cid\<close>, whose state was \<open>c\<close>, is closed in \<open>s1\<close>
  with \<open>n\<close> of its \<open>m\<close> remaining turns registered and \<open>reported\<close> synthetic completions, and what follows is the
  filling of its slot.\<close>

definition conversation_closed ::
    "(string \<Rightarrow> string) \<Rightarrow> string \<Rightarrow> string \<Rightarrow> conversation_state \<Rightarrow> nat \<Rightarrow> nat \<Rightarrow> nat \<Rightarrow> agentic \<Rightarrow> agentic \<Rightarrow> bool" where
  "conversation_closed digest qid cid c m n reported s s' =
     (\<exists>s1 new rest c'. s' = finish_conversation digest cid s1
        \<and> ag_conv_states s' cid = Some c' \<and> cs_completed_turns c' = cs_completed_turns c + 1 + int (min (Suc n) m)
        \<and> cs_failed_turns c' = cs_failed_turns c + 1 + int (min (Suc n) m)
        \<and> wlog (ag_world s') = wlog (ag_world s) @ new @ rest \<and> wlog (ag_world s1) = wlog (ag_world s) @ new
        \<and> count_if is_issued new = n \<and> count_if is_sample_complete new = reported \<and> count_if is_send new = 0
        \<and> issued_count (ag_issuer s1) = issued_count (ag_issuer s) + int n
        \<and> ag_active s1 cid = None \<and> ag_delay_handles s1 cid = None \<and> ag_inflight s1 qid = None)"

lemma abort_closes:
  assumes s: "ag_conv_states s0 cid = Some c0" "ag_active s0 cid = Some (src, ts, cursor, k)" "ag_inflight s0 qid = None"
    and c0: "cs_completed_turns c0 = cs_completed_turns c + 1" "cs_failed_turns c0 = cs_failed_turns c + 1"
    and log: "wlog (ag_world s0) = wlog (ag_world s) @ before" "count_if is_issued before = 0" "count_if is_send before = 0"
    and cnt: "issued_count (ag_issuer s0) = issued_count (ag_issuer s)"
    and n: "n = open_checks (ag_stops s0) (ag_spos s0) (length ts - cursor)"
  shows "conversation_closed digest qid cid c (length ts - cursor) n (n + count_if is_sample_complete before) s
           (abort_and_finish digest cid reason s0)"
proof -
  let ?s = "s0\<lparr>ag_delay_handles := (ag_delay_handles s0)(cid := None), ag_active := (ag_active s0)(cid := None)\<rparr>"
  have "ag_conv_states ?s cid = Some c0" "n = open_checks (ag_stops ?s) (ag_spos ?s) (length (drop cursor ts))" using s n by simp_all
  from abort_turns_accounts [OF this, of reason] obtain s1 new c' where
    a: "abort_turns cid reason (drop cursor ts) ?s = (None, n, s1)"
    and c': "ag_conv_states s1 cid = Some c'" "cs_completed_turns c' = cs_completed_turns c0 + int (min (Suc n) (length ts - cursor))"
      "cs_failed_turns c' = cs_failed_turns c0 + int (min (Suc n) (length ts - cursor))"
    and i: "issued_count (ag_issuer s1) = issued_count (ag_issuer s0) + int n"
    and w: "wlog (ag_world s1) = wlog (ag_world s0) @ new" "count_if is_issued new = n"
      "count_if is_sample_complete new = n" "count_if is_send new = 0"
    by auto
  have "cid \<in> dom (ag_conv_states ?s)" using s(1) by auto
  from abort_turns_same [OF this, of reason "drop cursor ts"] a have same: "same_turns s1 ?s" by simp
  have e: "ag_active s1 cid = None" "ag_delay_handles s1 cid = None" "ag_inflight s1 qid = None"
    using same_turnsD(1-3) [OF same] s(3) by simp_all
  have fin: "abort_and_finish digest cid reason s0 = finish_conversation digest cid s1"
    using a s(2) by (simp add: abort_and_finish_def abort_remaining_turns_def)
  have "keeps s1 (finish_conversation digest cid s1)"
    unfolding finish_conversation_def by (rule finish_keeps [OF fill_slot_keeps])
  then obtain rest where k: "ag_conv_states s1 \<subseteq>\<^sub>m ag_conv_states (finish_conversation digest cid s1)"
    "wlog (ag_world (finish_conversation digest cid s1)) = wlog (ag_world s1) @ rest" by (auto simp: keeps_def)
  have "ag_conv_states (finish_conversation digest cid s1) cid = Some c'"
    using k(1) c'(1) unfolding map_le_def by (metis domI)
  then show ?thesis
    unfolding conversation_closed_def fin
    by (intro exI [of _ s1] exI [of _ "before @ new"] exI [of _ rest] exI [of _ c'])
      (use c' c0 i cnt w log e k(2) in simp)
qed

text \<open>C11. A failed turn closes its conversation without losing a sample.  When the response of an outstanding turn
  is an error, or the turn times out, the turn counts as completed and failed, and so does every turn the
  conversation had left; each of these is issued once, without a query, and reported to the session by one
  synthetic completion (the timed-out turn by one more), as long as the stop check stays open (the turn at which
  it closes is still counted); then the conversation is not active, waits for nothing, and its slot is filled,
  which leaves these counts and the log as they are.\<close>

theorem failed_turn_accounts_for_its_conversation:
  assumes "ag_inflight s qid = Some cid" "ag_conv_states s cid = Some c" "ag_active s cid = Some (src, ts, cursor, k)"
    and "m = length ts - cursor" "n = open_checks (ag_stops s) (ag_spos s) m"
  shows "conversation_closed digest qid cid c m n n s (on_sample_complete digest qid (Some err) s)
     \<and> conversation_closed digest qid cid c m n (n + 1) s (handle_timeout digest qid cid s)"
proof
  let ?c = "c\<lparr>cs_completed_turns := cs_completed_turns c + 1, cs_failed_turns := cs_failed_turns c + 1\<rparr>"
  have mark: "mark_turn_failed cid (ag_conv_states s) = Inr ((ag_conv_states s)(cid \<mapsto> ?c))"
    using assms(2) by (simp add: mark_turn_failed_def)
  let ?s0 = "s\<lparr>ag_inflight := (ag_inflight s)(qid := None), ag_timeout_handles := ag_timeout_handles s - {qid},
      ag_conv_states := (ag_conv_states s)(cid \<mapsto> ?c)\<rparr>"
  have "conversation_closed digest qid cid c (length ts - cursor) n (n + count_if is_sample_complete []) s
      (abort_and_finish digest cid (''prior turn errored: '' @ error_type err) ?s0)"
    by (rule abort_closes [where ?c0.0 = ?c]) (use assms in simp_all)
  then show "conversation_closed digest qid cid c m n n s (on_sample_complete digest qid (Some err) s)"
    using assms(1,4) mark by (simp add: on_sample_complete_def Let_def)
next
  let ?c = "c\<lparr>cs_completed_turns := cs_completed_turns c + 1, cs_failed_turns := cs_failed_turns c + 1\<rparr>"
  let ?s = "s\<lparr>ag_inflight := (ag_inflight s)(qid := None), ag_timeout_handles := ag_timeout_handles s - {qid}\<rparr>"
  obtain conv turn s1 where e: "end_timed_out qid ?s = ((conv, turn), s1)" by (metis surj_pair)
  have s1: "ag_conv_states s1 = ag_conv_states s" "ag_active s1 = ag_active s" "ag_inflight s1 qid = None" "ag_stops s1 = ag_stops s"
    "ag_spos s1 = ag_spos s" "issued_count (ag_issuer s1) = issued_count (ag_issuer s)"
    "\<exists>before. wlog (ag_world s1) = wlog (ag_world s) @ before \<and> count_if is_issued before = 0 \<and> count_if is_send before = 0
       \<and> count_if is_sample_complete before = 0"
    using e by (auto simp: end_timed_out_def mark_inflight_complete_def add_callback_def emit_def Let_def split: if_splits option.splits)
  then obtain before where b: "wlog (ag_world s1) = wlog (ag_world s) @ before" "count_if is_issued before = 0"
    "count_if is_send before = 0" "count_if is_sample_complete before = 0" by blast
  let ?e = "\<lparr>error_type = ''TurnTimeout'', error_message = ''turn timeout after '' @ ag_turn_timeout s @ ''s''\<rparr>"
  obtain new where p: "wlog (publish_synthetic_failure qid conv turn ?e (ag_world s1)) = wlog (ag_world s1) @ new"
    "count_if is_issued new = 0" "count_if is_sample_complete new = 1" "count_if is_send new = 0"
    by (auto simp: publish_synthetic_failure_def monotonic_ns_def emit_def)
  let ?s0 = "s1\<lparr>ag_conv_states := (ag_conv_states s)(cid \<mapsto> ?c), ag_world := publish_synthetic_failure qid conv turn ?e (ag_world s1)\<rparr>"
  have mark: "mark_turn_failed cid (ag_conv_states s1) = Inr ((ag_conv_states s)(cid \<mapsto> ?c))"
    using assms(2) by (simp add: mark_turn_failed_def s1(1))
  have "conversation_closed digest qid cid c (length ts - cursor) n (n + count_if is_sample_complete (before @ new)) s
      (abort_and_finish digest cid (''prior turn timed out (query='' @ qid @ '')'') ?s0)"
    by (rule abort_closes [where ?c0.0 = ?c]) (use assms s1 b p in simp_all)
  then show "conversation_closed digest qid cid c m n (n + 1) s (handle_timeout digest qid cid s)"
    using assms(1,4) mark e b p by (simp add: handle_timeout_def Let_def)
qed

text \<open>Of three turns the first was issued and fails; the stop check stays open.\<close>

definition failing_conversation :: agentic where
  "failing_conversation = example_agentic
     \<lparr>ag_conv_states := [''a'' \<mapsto> \<lparr>cs_completed_turns = 0, cs_failed_turns = 0, cs_expected_client_turns = Some 3\<rparr>],
      ag_active := [''a'' \<mapsto> (''a'', [(0, 1), (1, 2), (0, 3)], 1, 1)], ag_inflight := [''q'' \<mapsto> ''a'']\<rparr>"

theorem failed_turn_accounts_for_its_conversation_witness:
  "conversation_closed id ''q'' ''a'' \<lparr>cs_completed_turns = 0, cs_failed_turns = 0, cs_expected_client_turns = Some 3\<rparr> 2 2 2
     failing_conversation (on_sample_complete id ''q'' (Some \<lparr>error_type = ''Timeout'', error_message = []\<rparr>) failing_conversation)
   \<and> conversation_closed id ''q'' ''a'' \<lparr>cs_completed_turns = 0, cs_failed_turns = 0, cs_expected_client_turns = Some 3\<rparr> 2 2 3
     failing_conversation (handle_timeout id ''q'' ''a'' failing_conversation)"
proof -
  have f: "ag_inflight failing_conversation ''q'' = Some ''a''"
    "ag_conv_states failing_conversation ''a'' = Some \<lparr>cs_completed_turns = 0, cs_failed_turns = 0, cs_expected_client_turns = Some 3\<rparr>"
    "ag_active failing_conversation ''a'' = Some (''a'', [(0, 1), (1, 2), (0, 3)], 1, 1)"
    "2 = length [(0 :: int, 1 :: int), (1, 2), (0, 3)] - 1"
    "2 = open_checks (ag_stops failing_conversation) (ag_spos failing_conversation) 2"
    by (simp_all add: failing_conversation_def example_agentic_def numeral_2_eq_2)
  show ?thesis using failed_turn_accounts_for_its_conversation [OF f] by simp
qed

end
