(* ===== verification/EventLog.thy ===== *)
theory EventLog
  imports PubSub
begin

text \<open>
  The event logger service: \<open>services/event_logger/writer.py\<close>, \<open>file_writer.py\<close>,
  \<open>sql_writer.py\<close> and the service of \<open>__main__.py\<close>.  The abstract base class's template method
  \<open>write\<close> takes the subclass's \<open>_write_record\<close> and \<open>flush\<close> as arguments.  A text file is
  what a flush has put on disk, what is still buffered, and the answers of the file system to the
  calls to come; a failing call may get part of its characters through.  The encoders of
  \<open>msgspec\<close> and the session of SQLAlchemy are parameters.
\<close>

section \<open>Files\<close>

definition system_error :: py_exc where "system_error = OtherException ''OSError''"

datatype io_reply = IoDone | IoFailed nat

record text_file =
  tf_disk :: string
  tf_buffer :: string
  tf_replies :: "io_reply list"

text \<open>The file system answers the calls in turn; when no answer is left, calls succeed.\<close>

definition next_reply :: "text_file \<Rightarrow> io_reply" where
  "next_reply f = (case tf_replies f of [] \<Rightarrow> IoDone | r # _ \<Rightarrow> r)"

definition reply_taken :: "text_file \<Rightarrow> text_file" where
  "reply_taken f = f\<lparr>tf_replies := tl (tf_replies f)\<rparr>"

definition tf_write :: "string \<Rightarrow> text_file \<Rightarrow> unit result \<times> text_file" where
  "tf_write s f =
     (case next_reply f of
        IoDone \<Rightarrow> (Inr (), (reply_taken f)\<lparr>tf_buffer := tf_buffer f @ s\<rparr>)
      | IoFailed n \<Rightarrow> (Inl system_error, (reply_taken f)\<lparr>tf_buffer := tf_buffer f @ take n s\<rparr>))"

definition tf_flush :: "text_file \<Rightarrow> unit result \<times> text_file" where
  "tf_flush f =
     (case next_reply f of
        IoDone \<Rightarrow> (Inr (), (reply_taken f)\<lparr>tf_disk := tf_disk f @ tf_buffer f, tf_buffer := []\<rparr>)
      | IoFailed n \<Rightarrow>
          (Inl system_error, (reply_taken f)\<lparr>tf_disk := tf_disk f @ take n (tf_buffer f), tf_buffer := drop n (tf_buffer f)\<rparr>))"

text \<open>\<open>file.close()\<close> flushes what is buffered.\<close>

definition tf_close :: "text_file \<Rightarrow> unit result \<times> text_file" where
  "tf_close f = tf_flush f"

section \<open>The base class\<close>

record record_writer =
  rw_flush_interval :: "int option"
  rw_since :: int

definition base_flush :: "'a record_writer_scheme \<Rightarrow> 'a record_writer_scheme" where
  "base_flush w = w\<lparr>rw_since := 0\<rparr>"

text \<open>\<open>RecordWriter.write\<close>.\<close>

definition record_writer_write ::
    "('r \<Rightarrow> 'a record_writer_scheme \<Rightarrow> unit result \<times> 'a record_writer_scheme)
     \<Rightarrow> ('a record_writer_scheme \<Rightarrow> unit result \<times> 'a record_writer_scheme)
     \<Rightarrow> 'r \<Rightarrow> 'a record_writer_scheme \<Rightarrow> unit result \<times> 'a record_writer_scheme" where
  "record_writer_write write_record flush_writer r w =
     (case write_record r w of
        (Inl e, w1) \<Rightarrow> (Inl e, w1)
      | (Inr _, w1) \<Rightarrow>
          (let w2 = w1\<lparr>rw_since := rw_since w1 + 1\<rparr>
           in (case rw_flush_interval w2 of
                 None \<Rightarrow> (Inr (), w2)
               | Some n \<Rightarrow> if rw_since w2 \<ge> n then flush_writer w2 else (Inr (), w2))))"

section \<open>JSONL\<close>

record jsonl_writer = record_writer +
  jw_file :: text_file
  jw_open :: bool

text \<open>Opening with mode \<open>w\<close> truncates; the file system's further answers are \<open>replies\<close>.\<close>

definition jsonl_init :: "int option \<Rightarrow> io_reply list \<Rightarrow> jsonl_writer result" where
  "jsonl_init flush_interval replies =
     (case next_reply \<lparr>tf_disk = [], tf_buffer = [], tf_replies = replies\<rparr> of
        IoFailed _ \<Rightarrow> Inl system_error
      | IoDone \<Rightarrow> Inr \<lparr>rw_flush_interval = flush_interval, rw_since = 0,
            jw_file = \<lparr>tf_disk = [], tf_buffer = [], tf_replies = tl replies\<rparr>, jw_open = True\<rparr>)"

definition jsonl_write_record :: "('r \<Rightarrow> string result) \<Rightarrow> 'r \<Rightarrow> jsonl_writer \<Rightarrow> unit result \<times> jsonl_writer" where
  "jsonl_write_record enc r w =
     (if \<not> jw_open w then (Inr (), w)
      else (case enc r of
              Inl e \<Rightarrow> (Inl e, w)
            | Inr s \<Rightarrow> map_prod id (\<lambda>f. w\<lparr>jw_file := f\<rparr>) (tf_write (s @ [CHR 0x0A]) (jw_file w))))"

definition jsonl_flush :: "jsonl_writer \<Rightarrow> unit result \<times> jsonl_writer" where
  "jsonl_flush w =
     (if \<not> jw_open w then (Inr (), base_flush w)
      else (case tf_flush (jw_file w) of
              (Inl e, f) \<Rightarrow> (Inl e, w\<lparr>jw_file := f\<rparr>)
            | (Inr u, f) \<Rightarrow> (Inr u, base_flush (w\<lparr>jw_file := f\<rparr>))))"

definition jsonl_write :: "('r \<Rightarrow> string result) \<Rightarrow> 'r \<Rightarrow> jsonl_writer \<Rightarrow> unit result \<times> jsonl_writer" where
  "jsonl_write enc = record_writer_write (jsonl_write_record enc) jsonl_flush"

text \<open>\<open>close\<close> swallows an \<open>OSError\<close> and always lets go of the file.\<close>

definition jsonl_close :: "jsonl_writer \<Rightarrow> unit result \<times> jsonl_writer" where
  "jsonl_close w =
     (if \<not> jw_open w then (Inr (), w)
      else (case (case jsonl_flush w of
                    (Inl e, w1) \<Rightarrow> (Inl e, w1)
                  | (Inr _, w1) \<Rightarrow> map_prod id (\<lambda>f. w1\<lparr>jw_file := f\<rparr>) (tf_close (jw_file w1))) of
              (Inl e, w2) \<Rightarrow> (if e = system_error then Inr () else Inl e, w2\<lparr>jw_open := False\<rparr>)
            | (Inr u, w2) \<Rightarrow> (Inr u, w2\<lparr>jw_open := False\<rparr>)))"

section \<open>SQL\<close>

record event_row =
  er_sample_uuid :: string
  er_event_type :: string
  er_timestamp_ns :: int
  er_conversation_id :: string
  er_turn :: "int option"
  er_data :: string

definition record_to_row :: "(event_data \<Rightarrow> string result) \<Rightarrow> event_record \<Rightarrow> event_row result" where
  "record_to_row enc_data r =
     map_sum id (\<lambda>d. \<lparr>er_sample_uuid = ev_uuid r, er_event_type = topic (ev_type r), er_timestamp_ns = ev_timestamp r,
         er_conversation_id = ev_conv r, er_turn = ev_turn r, er_data = d\<rparr>) (enc_data (ev_data r))"

text \<open>What the writer uses of an SQLAlchemy session, and what a reader of the table would see.\<close>

record ('row, 's) sql_ops =
  so_add :: "'row \<Rightarrow> 's \<Rightarrow> 's"
  so_commit :: "'s \<Rightarrow> unit result \<times> 's"
  so_close :: "'s \<Rightarrow> unit result \<times> 's"
  so_rows :: "'s \<Rightarrow> 'row list"
  so_new :: "'s \<Rightarrow> 'row list"

text \<open>The documented behaviour: an added row waits for the next commit, a commit that succeeds
  makes the waiting rows visible in order, and neither a failing commit nor closing takes a
  visible row away.\<close>

definition sql_add_law :: "('row, 's) sql_ops \<Rightarrow> bool" where
  "sql_add_law ops = (\<forall>row s. so_rows ops (so_add ops row s) = so_rows ops s \<and> so_new ops (so_add ops row s) = so_new ops s @ [row])"

definition sql_commit_law :: "('row, 's) sql_ops \<Rightarrow> bool" where
  "sql_commit_law ops =
     (\<forall>s. case so_commit ops s of
            (Inl _, s') \<Rightarrow> so_rows ops s' = so_rows ops s
          | (Inr _, s') \<Rightarrow> so_rows ops s' = so_rows ops s @ so_new ops s \<and> so_new ops s' = [])"

definition sql_close_law :: "('row, 's) sql_ops \<Rightarrow> bool" where
  "sql_close_law ops = (\<forall>s. so_rows ops (snd (so_close ops s)) = so_rows ops s)"

record 's sql_writer = record_writer +
  sw_session :: 's
  sw_has_session :: bool
  sw_has_engine :: bool

definition sql_init :: "int option \<Rightarrow> 's result \<Rightarrow> 's sql_writer result" where
  "sql_init flush_interval session =
     map_sum id (\<lambda>s. \<lparr>rw_flush_interval = flush_interval, rw_since = 0, sw_session = s, sw_has_session = True,
        sw_has_engine = True\<rparr>) session"

definition sql_write_record ::
    "('row, 's) sql_ops \<Rightarrow> ('r \<Rightarrow> 'row result) \<Rightarrow> 'r \<Rightarrow> 's sql_writer \<Rightarrow> unit result \<times> 's sql_writer" where
  "sql_write_record ops to_row r w =
     (if \<not> sw_has_session w then (Inr (), w)
      else (case to_row r of
              Inl e \<Rightarrow> (Inl e, w)
            | Inr row \<Rightarrow> (Inr (), w\<lparr>sw_session := so_add ops row (sw_session w)\<rparr>)))"

definition sql_flush :: "('row, 's) sql_ops \<Rightarrow> 's sql_writer \<Rightarrow> unit result \<times> 's sql_writer" where
  "sql_flush ops w =
     (if \<not> sw_has_session w then (Inr (), base_flush w)
      else (case so_commit ops (sw_session w) of
              (Inl e, s) \<Rightarrow> (Inl e, w\<lparr>sw_session := s\<rparr>)
            | (Inr u, s) \<Rightarrow> (Inr u, base_flush (w\<lparr>sw_session := s\<rparr>))))"

definition sql_write ::
    "('row, 's) sql_ops \<Rightarrow> ('r \<Rightarrow> 'row result) \<Rightarrow> 'r \<Rightarrow> 's sql_writer \<Rightarrow> unit result \<times> 's sql_writer" where
  "sql_write ops to_row = record_writer_write (sql_write_record ops to_row) (sql_flush ops)"

text \<open>\<open>close\<close>: an exception leaves before the engine is disposed of.\<close>

definition sql_close :: "('row, 's) sql_ops \<Rightarrow> 's sql_writer \<Rightarrow> unit result \<times> 's sql_writer" where
  "sql_close ops w =
     (case (if \<not> sw_has_session w then (Inr (), w)
            else map_prod id (\<lambda>w1. w1\<lparr>sw_has_session := False\<rparr>)
              (case sql_flush ops w of
                 (Inl e, w1) \<Rightarrow> (Inl e, w1)
               | (Inr _, w1) \<Rightarrow> map_prod id (\<lambda>s. w1\<lparr>sw_session := s\<rparr>) (so_close ops (sw_session w1)))) of
        (Inl e, w2) \<Rightarrow> (Inl e, w2)
      | (Inr _, w2) \<Rightarrow> (Inr (), w2\<lparr>sw_has_engine := False\<rparr>))"

section \<open>The service\<close>

datatype 's writer = JSONL jsonl_writer | SQL "'s sql_writer"

datatype writer_kind = JsonlKind | SqlKind

text \<open>\<open>_WRITER_REGISTRY\<close>.\<close>

definition writer_registry :: "bool \<Rightarrow> (string \<times> writer_kind) list" where
  "writer_registry has_sqlalchemy = (''jsonl'', JsonlKind) # (if has_sqlalchemy then [(''sql'', SqlKind)] else [])"

text \<open>The encoders of records and rows and the session, as the writers use them.\<close>

record 's log_env =
  le_encode :: "event_record \<Rightarrow> string result"
  le_encode_data :: "event_data \<Rightarrow> string result"
  le_sql :: "(event_row, 's) sql_ops"

fun writer_write :: "'s log_env \<Rightarrow> event_record \<Rightarrow> 's writer \<Rightarrow> unit result \<times> 's writer" where
  "writer_write env r (JSONL w) = map_prod id JSONL (jsonl_write (le_encode env) r w)"
| "writer_write env r (SQL w) = map_prod id SQL (sql_write (le_sql env) (record_to_row (le_encode_data env)) r w)"

fun writer_flush :: "'s log_env \<Rightarrow> 's writer \<Rightarrow> unit result \<times> 's writer" where
  "writer_flush env (JSONL w) = map_prod id JSONL (jsonl_flush w)"
| "writer_flush env (SQL w) = map_prod id SQL (sql_flush (le_sql env) w)"

fun writer_close :: "'s log_env \<Rightarrow> 's writer \<Rightarrow> unit result \<times> 's writer" where
  "writer_close env (JSONL w) = map_prod id JSONL (jsonl_close w)"
| "writer_close env (SQL w) = map_prod id SQL (sql_close (le_sql env) w)"

text \<open>A loop over the writers ends with the first exception.\<close>

fun each_writer :: "('w \<Rightarrow> unit result \<times> 'w) \<Rightarrow> 'w list \<Rightarrow> unit result \<times> 'w list" where
  "each_writer f [] = (Inr (), [])"
| "each_writer f (w # ws) =
     (case f w of
        (Inl e, w') \<Rightarrow> (Inl e, w' # ws)
      | (Inr _, w') \<Rightarrow> map_prod id ((#) w') (each_writer f ws))"

definition flush_and_close :: "'s log_env \<Rightarrow> 's writer \<Rightarrow> unit result \<times> 's writer" where
  "flush_and_close env w =
     (case writer_flush env w of (Inl e, w1) \<Rightarrow> (Inl e, w1) | (Inr _, w1) \<Rightarrow> writer_close env w1)"

text \<open>The writers a cleared list let go of stay in \<open>el_released\<close>: their files and tables remain.
  \<open>el_stop_scheduled\<close> is the \<open>call_soon\<close> of \<open>_request_stop\<close>.\<close>

record 's event_logger =
  el_writers :: "'s writer list"
  el_released :: "'s writer list"
  el_shutdown_received :: bool
  el_closed :: bool
  el_has_loop :: bool
  el_loop_running :: bool
  el_has_event :: bool
  el_event_set :: bool
  el_stop_scheduled :: bool

record log_dir =
  ld_exists :: bool
  ld_mkdir :: "unit result"
  ld_is_dir :: bool
  ld_writable :: bool

text \<open>What \<open>writer_class(log_dir / "events", flush_interval=flush_interval)\<close> makes; the file system's
  answers for the file and the session the engine gives are arguments.\<close>

fun writer_new :: "int option \<Rightarrow> io_reply list \<Rightarrow> 's result \<Rightarrow> writer_kind \<Rightarrow> 's writer result" where
  "writer_new flush_interval replies session JsonlKind = map_sum id JSONL (jsonl_init flush_interval replies)"
| "writer_new flush_interval replies session SqlKind = map_sum id SQL (sql_init flush_interval session)"

fun writers_init :: "(writer_kind \<Rightarrow> 's writer result) \<Rightarrow> writer_kind list \<Rightarrow> 's writer list result" where
  "writers_init mk [] = Inr []"
| "writers_init mk (k # ks) =
     (case mk k of
        Inl e \<Rightarrow> Inl e
      | Inr w \<Rightarrow> map_sum id ((#) w) (writers_init mk ks))"

definition event_logger_init ::
    "log_dir \<Rightarrow> (writer_kind \<Rightarrow> 's writer result) \<Rightarrow> writer_kind list \<Rightarrow> bool \<Rightarrow> bool \<Rightarrow> 's event_logger result" where
  "event_logger_init dir mk kinds has_loop has_event =
     (case (if \<not> ld_exists dir then ld_mkdir dir else Inr ()) of
        Inl e \<Rightarrow> Inl e
      | Inr _ \<Rightarrow>
          if \<not> ld_is_dir dir then Inl (OtherException ''NotADirectoryError'')
          else if \<not> ld_writable dir then Inl (OtherException ''PermissionError'')
          else map_sum id (\<lambda>ws. \<lparr>el_writers = ws, el_released = [], el_shutdown_received = False, el_closed = False,
                 el_has_loop = has_loop, el_loop_running = True, el_has_event = has_event, el_event_set = False,
                 el_stop_scheduled = False\<rparr>) (writers_init mk kinds))"

definition write_record_to_writers :: "'s log_env \<Rightarrow> event_record \<Rightarrow> 's event_logger \<Rightarrow> unit result \<times> 's event_logger" where
  "write_record_to_writers env r s = map_prod id (\<lambda>ws. s\<lparr>el_writers := ws\<rparr>) (each_writer (writer_write env r) (el_writers s))"

definition clear_writers :: "'s event_logger \<Rightarrow> 's event_logger" where
  "clear_writers s = s\<lparr>el_writers := [], el_released := el_released s @ el_writers s\<rparr>"

definition close_writers_and_stop :: "'s log_env \<Rightarrow> 's event_logger \<Rightarrow> unit result \<times> 's event_logger" where
  "close_writers_and_stop env s =
     (case each_writer (flush_and_close env) (el_writers s) of
        (Inl e, ws) \<Rightarrow> (Inl e, s\<lparr>el_writers := ws\<rparr>)
      | (Inr _, ws) \<Rightarrow>
          (let s1 = clear_writers (s\<lparr>el_writers := ws\<rparr>)
           in (Inr (), if el_has_loop s1 then s1\<lparr>el_stop_scheduled := True\<rparr> else s1)))"

definition is_ended :: "event_record \<Rightarrow> bool" where
  "is_ended r = (ev_type r = SessionEv ENDED)"

text \<open>The loop of \<open>process\<close>; the boolean is \<open>saw_shutdown\<close>.\<close>

fun process_loop ::
    "'s log_env \<Rightarrow> event_record list \<Rightarrow> bool \<Rightarrow> 's event_logger \<Rightarrow> bool result \<times> 's event_logger" where
  "process_loop env [] saw s = (Inr saw, s)"
| "process_loop env (r # rs) saw s =
     (if el_shutdown_received s then process_loop env rs saw s
      else (let s1 = (if is_ended r then s\<lparr>el_shutdown_received := True\<rparr> else s)
            in (case write_record_to_writers env r s1 of
                  (Inl e, s2) \<Rightarrow> (Inl e, s2)
                | (Inr _, s2) \<Rightarrow> process_loop env rs (saw \<or> is_ended r) s2)))"

definition logger_process :: "'s log_env \<Rightarrow> event_record list \<Rightarrow> 's event_logger \<Rightarrow> unit result \<times> 's event_logger" where
  "logger_process env rs s =
     (case process_loop env rs False s of
        (Inl e, s1) \<Rightarrow> (Inl e, s1)
      | (Inr saw, s1) \<Rightarrow> if saw then close_writers_and_stop env s1 else (Inr (), s1))"

definition logger_close :: "'s log_env \<Rightarrow> 's event_logger \<Rightarrow> unit result \<times> 's event_logger" where
  "logger_close env s =
     (case each_writer (flush_and_close env) (el_writers s) of
        (Inl e, ws) \<Rightarrow> (Inl e, s\<lparr>el_writers := ws\<rparr>)
      | (Inr _, ws) \<Rightarrow> (Inr (), (clear_writers (s\<lparr>el_writers := ws\<rparr>))\<lparr>el_closed := True\<rparr>))"

definition request_stop :: "'s log_env \<Rightarrow> 's event_logger \<Rightarrow> unit result \<times> 's event_logger" where
  "request_stop env s =
     (case logger_close env s of
        (Inl e, s1) \<Rightarrow> (Inl e, s1)
      | (Inr _, s1) \<Rightarrow>
          (Inr (), if el_has_event s1 then s1\<lparr>el_event_set := True\<rparr>
                   else if el_has_loop s1 \<and> el_loop_running s1 then s1\<lparr>el_loop_running := False\<rparr> else s1))"

text \<open>What the loop runs: a batch the subscriber scheduled, the callback \<open>_request_stop\<close>, and the
  two signal handlers.  An exception ends the task or callback it left and nothing else.\<close>

datatype logger_event = LogBatch "event_record list" | StopCallback | LogSigterm | LogSigint

fun logger_step :: "'s log_env \<Rightarrow> 's event_logger \<Rightarrow> logger_event \<Rightarrow> 's event_logger" where
  "logger_step env s (LogBatch rs) = snd (logger_process env rs s)"
| "logger_step env s StopCallback =
     (if el_stop_scheduled s then snd (request_stop env (s\<lparr>el_stop_scheduled := False\<rparr>)) else s)"
| "logger_step env s LogSigterm = snd (request_stop env s)"
| "logger_step env s LogSigint = s"

text \<open>The process ends when the event is set, or its loop was stopped.\<close>

definition logger_exits :: "'s event_logger \<Rightarrow> bool" where
  "logger_exits s = (if el_has_event s then el_event_set s else \<not> el_loop_running s)"

end
