(* ===== verification/EventLogFacts.thy ===== *)
theory EventLogFacts
  imports EventLog PubSubFacts "HOL-Library.Sublist"
begin

text \<open>
  What the event logger writes: the contract of a storage behind the base class's \<open>write\<close>, both
  writers as its providers, the log of a whole run over the event channel, and what a storage
  failure does to the service.
\<close>

section \<open>The contract of a storage\<close>

text \<open>A log split at what is kept: the records of \<open>rs\<close> behind the kept ones wait for the next flush.\<close>

definition split_log :: "('r \<Rightarrow> 'c list) \<Rightarrow> 'c list \<Rightarrow> 'c list \<Rightarrow> int \<Rightarrow> 'r list \<Rightarrow> bool" where
  "split_log f kept waiting since rs =
     (\<exists>rs1 rs2. rs = rs1 @ rs2 \<and> kept = concat (map f rs1) \<and> waiting = concat (map f rs2) \<and> since = int (length rs2))"

lemma split_log_synced: "split_log f (concat (map f rs)) [] 0 rs"
  by (auto simp: split_log_def)

lemma split_log_whole: "split_log f kept waiting since rs \<Longrightarrow> kept @ waiting = concat (map f rs)"
  by (auto simp: split_log_def)

lemma split_log_append:
  assumes "split_log f kept waiting since rs"
  shows "split_log f kept (waiting @ f r) (since + 1) (rs @ [r])"
proof -
  obtain rs1 rs2 where s: "rs = rs1 @ rs2" "kept = concat (map f rs1)" "waiting = concat (map f rs2)" "since = int (length rs2)"
    using assms by (auto simp: split_log_def)
  have "rs @ [r] = rs1 @ (rs2 @ [r])" "waiting @ f r = concat (map f (rs2 @ [r]))" "since + 1 = int (length (rs2 @ [r]))"
    using s by simp_all
  then show ?thesis using s(2) unfolding split_log_def by blast
qed

definition below_interval :: "'a record_writer_scheme \<Rightarrow> bool" where
  "below_interval w = (case rw_flush_interval w of None \<Rightarrow> True | Some n \<Rightarrow> 0 < n \<longrightarrow> rw_since w < n)"

locale record_storage =
  fixes put :: "'r \<Rightarrow> 'a record_writer_scheme \<Rightarrow> unit result \<times> 'a record_writer_scheme"
    and sync :: "'a record_writer_scheme \<Rightarrow> unit result \<times> 'a record_writer_scheme"
    and kept :: "'a record_writer_scheme \<Rightarrow> 'c list"
    and waiting :: "'a record_writer_scheme \<Rightarrow> 'c list"
    and in_use :: "'a record_writer_scheme \<Rightarrow> bool"
    and content :: "'r \<Rightarrow> 'c list"
  assumes put_ok: "in_use w \<Longrightarrow> put r w = (Inr u, w') \<Longrightarrow>
      kept w' = kept w \<and> waiting w' = waiting w @ content r \<and> in_use w' \<and> rw_since w' = rw_since w
      \<and> rw_flush_interval w' = rw_flush_interval w"
    and put_keeps: "kept (snd (put r w)) = kept w"
    and sync_ok: "in_use w \<Longrightarrow> sync w = (Inr u, w') \<Longrightarrow>
      kept w' = kept w @ waiting w \<and> waiting w' = [] \<and> in_use w' \<and> rw_since w' = 0
      \<and> rw_flush_interval w' = rw_flush_interval w"
    and sync_keeps: "prefix (kept w) (kept (snd (sync w)))"
    and counting: "kept (w\<lparr>rw_since := k\<rparr>) = kept w" "waiting (w\<lparr>rw_since := k\<rparr>) = waiting w"
      "in_use (w\<lparr>rw_since := k\<rparr>) = in_use w"
begin

lemma write_split:
  assumes "in_use w" "split_log content (kept w) (waiting w) (rw_since w) rs"
    and "record_writer_write put sync r w = (Inr u, w')"
  shows "split_log content (kept w') (waiting w') (rw_since w') (rs @ [r]) \<and> in_use w' \<and> below_interval w'
    \<and> rw_flush_interval w' = rw_flush_interval w"
proof -
  obtain res w1 where p: "put r w = (res, w1)" by (metis surj_pair)
  with assms(3) obtain u1 where res: "res = Inr u1" by (cases res) (auto simp: record_writer_write_def)
  note p1 = put_ok [OF assms(1) p [unfolded res]]
  define w2 where "w2 = w1\<lparr>rw_since := rw_since w1 + 1\<rparr>"
  have w2: "in_use w2" "rw_flush_interval w2 = rw_flush_interval w" "rw_since w2 = rw_since w + 1"
    "split_log content (kept w2) (waiting w2) (rw_since w2) (rs @ [r])"
    using p1 split_log_append [OF assms(2), of r] by (simp_all add: w2_def counting)
  have eq: "(case rw_flush_interval w2 of None \<Rightarrow> (Inr (), w2) | Some n \<Rightarrow> if rw_since w2 \<ge> n then sync w2 else (Inr (), w2)) = (Inr u, w')"
    using assms(3) by (simp only: record_writer_write_def p res prod.case sum.case Let_def w2_def)
  show ?thesis
  proof (cases "\<exists>n. rw_flush_interval w2 = Some n \<and> rw_since w2 \<ge> n")
    case True
    then have "sync w2 = (Inr u, w')" using eq by auto
    from sync_ok [OF w2(1) this] split_log_whole [OF w2(4)] split_log_synced [of content "rs @ [r]"] w2(2)
    show ?thesis by (auto simp: below_interval_def split: option.splits)
  next
    case False
    then have "w' = w2" using eq by (auto split: option.splits if_splits)
    then show ?thesis using w2 False by (auto simp: below_interval_def split: option.splits)
  qed
qed

lemma write_keeps: "prefix (kept w) (kept (snd (record_writer_write put sync r w)))"
proof -
  obtain res w1 where p: "put r w = (res, w1)" by (metis surj_pair)
  have k: "kept w1 = kept w" using put_keeps [of r w] p by simp
  have s: "prefix (kept w) (kept (snd (sync (w1\<lparr>rw_since := n\<rparr>))))" for n
    using sync_keeps [of "w1\<lparr>rw_since := n\<rparr>"] by (simp add: counting k)
  show ?thesis
    by (cases res) (use s in \<open>auto simp: record_writer_write_def p k counting Let_def split: option.splits\<close>)
qed

end

section \<open>Both writers keep it\<close>

definition line_of :: "('r \<Rightarrow> string result) \<Rightarrow> 'r \<Rightarrow> string" where
  "line_of enc r = (case enc r of Inl _ \<Rightarrow> [] | Inr s \<Rightarrow> s @ [CHR 0x0A])"

definition jsonl_disk :: "jsonl_writer \<Rightarrow> string" where "jsonl_disk w = tf_disk (jw_file w)"
definition jsonl_buffer :: "jsonl_writer \<Rightarrow> string" where "jsonl_buffer w = tf_buffer (jw_file w)"

interpretation jsonl: record_storage "jsonl_write_record enc" jsonl_flush jsonl_disk jsonl_buffer jw_open "line_of enc"
  for enc :: "'r \<Rightarrow> string result"
proof unfold_locales
  show "jsonl_disk w' = jsonl_disk w \<and> jsonl_buffer w' = jsonl_buffer w @ line_of enc r \<and> jw_open w' \<and> rw_since w' = rw_since w
      \<and> rw_flush_interval w' = rw_flush_interval w"
    if "jw_open w" "jsonl_write_record enc r w = (Inr u, w')" for w r u w'
    using that by (auto simp: jsonl_write_record_def jsonl_disk_def jsonl_buffer_def line_of_def tf_write_def reply_taken_def
        split: sum.splits io_reply.splits)
  show "jsonl_disk (snd (jsonl_write_record enc r w)) = jsonl_disk w" for r w
    by (auto simp: jsonl_write_record_def jsonl_disk_def tf_write_def reply_taken_def split: sum.splits io_reply.splits)
  show "jsonl_disk w' = jsonl_disk w @ jsonl_buffer w \<and> jsonl_buffer w' = [] \<and> jw_open w' \<and> rw_since w' = 0
      \<and> rw_flush_interval w' = rw_flush_interval w" if "jw_open w" "jsonl_flush w = (Inr u, w')" for w u w'
    using that by (auto simp: jsonl_flush_def jsonl_disk_def jsonl_buffer_def base_flush_def tf_flush_def reply_taken_def
        split: io_reply.splits)
  show "prefix (jsonl_disk w) (jsonl_disk (snd (jsonl_flush w)))" for w
    by (auto simp: jsonl_flush_def jsonl_disk_def base_flush_def tf_flush_def reply_taken_def split: io_reply.splits)
qed (simp_all add: jsonl_disk_def jsonl_buffer_def)

locale sql_session =
  fixes ops :: "('row, 's) sql_ops"
  assumes add_law: "sql_add_law ops" and commit_law: "sql_commit_law ops" and close_law: "sql_close_law ops"

definition row_of :: "('r \<Rightarrow> 'row result) \<Rightarrow> 'r \<Rightarrow> 'row list" where
  "row_of to_row r = (case to_row r of Inl _ \<Rightarrow> [] | Inr row \<Rightarrow> [row])"

locale sql_storage = sql_session ops for ops :: "('row, 's) sql_ops" +
  fixes to_row :: "'r \<Rightarrow> 'row result"

sublocale sql_storage \<subseteq> record_storage "sql_write_record ops to_row" "sql_flush ops"
  "\<lambda>w. so_rows ops (sw_session w)" "\<lambda>w. so_new ops (sw_session w)" sw_has_session "row_of to_row"
proof unfold_locales
  show "so_rows ops (sw_session w') = so_rows ops (sw_session w)
      \<and> so_new ops (sw_session w') = so_new ops (sw_session w) @ row_of to_row r \<and> sw_has_session w' \<and> rw_since w' = rw_since w
      \<and> rw_flush_interval w' = rw_flush_interval w"
    if "sw_has_session w" "sql_write_record ops to_row r w = (Inr u, w')" for w r u w'
    using that add_law by (auto simp: sql_write_record_def sql_add_law_def row_of_def split: sum.splits)
  show "so_rows ops (sw_session (snd (sql_write_record ops to_row r w))) = so_rows ops (sw_session w)" for r w
    using add_law by (auto simp: sql_write_record_def sql_add_law_def split: sum.splits)
  show "so_rows ops (sw_session w') = so_rows ops (sw_session w) @ so_new ops (sw_session w) \<and> so_new ops (sw_session w') = []
      \<and> sw_has_session w' \<and> rw_since w' = 0 \<and> rw_flush_interval w' = rw_flush_interval w"
    if w: "sw_has_session w" "sql_flush ops w = (Inr u, w')" for w u w'
  proof -
    obtain res s where c: "so_commit ops (sw_session w) = (res, s)" by (metis surj_pair)
    with w obtain v where res: "res = Inr v" by (cases res) (auto simp: sql_flush_def)
    then have "so_rows ops s = so_rows ops (sw_session w) @ so_new ops (sw_session w) \<and> so_new ops s = []"
      using spec [OF commit_law [unfolded sql_commit_law_def], of "sw_session w"] by (simp add: c)
    then show ?thesis using w c res by (auto simp: sql_flush_def base_flush_def)
  qed
  show "prefix (so_rows ops (sw_session w)) (so_rows ops (sw_session (snd (sql_flush ops w))))" for w
  proof -
    obtain res s where c: "so_commit ops (sw_session w) = (res, s)" by (metis surj_pair)
    have "prefix (so_rows ops (sw_session w)) (so_rows ops s)"
      using spec [OF commit_law [unfolded sql_commit_law_def], of "sw_session w"] by (cases res) (simp_all add: c)
    then show ?thesis using c by (cases res) (auto simp: sql_flush_def base_flush_def)
  qed
qed simp_all

context sql_storage begin

lemmas storage_write = write_split
lemmas storage_sync = sync_ok

end

text \<open>A session over lists that never fails: what has been committed and what waits.\<close>

definition list_sql :: "('row, 'row list \<times> 'row list) sql_ops" where
  "list_sql = \<lparr>so_add = (\<lambda>row (a, b). (a, b @ [row])), so_commit = (\<lambda>(a, b). (Inr (), (a @ b, []))),
     so_close = (\<lambda>s. (Inr (), s)), so_rows = fst, so_new = snd\<rparr>"

interpretation list_sql: sql_session list_sql
  by unfold_locales (auto simp: list_sql_def sql_add_law_def sql_commit_law_def sql_close_law_def)

interpretation list_rows: sql_storage list_sql to_row for to_row :: "'r \<Rightarrow> 'row result"
  by unfold_locales

section \<open>What the service's writers hold\<close>

fun writer_kind_of :: "'s writer \<Rightarrow> writer_kind" where
  "writer_kind_of (JSONL _) = JsonlKind"
| "writer_kind_of (SQL _) = SqlKind"

fun flush_interval_of :: "'s writer \<Rightarrow> int option" where
  "flush_interval_of (JSONL w) = rw_flush_interval w"
| "flush_interval_of (SQL w) = rw_flush_interval w"

abbreviation env_line :: "'s log_env \<Rightarrow> event_record \<Rightarrow> string" where
  "env_line env \<equiv> line_of (le_encode env)"

abbreviation env_row :: "'s log_env \<Rightarrow> event_record \<Rightarrow> event_row list" where
  "env_row env \<equiv> row_of (record_to_row (le_encode_data env))"

text \<open>What a reader of the file or of the table finds, and what it should find.\<close>

fun disk_log :: "'s log_env \<Rightarrow> 's writer \<Rightarrow> string + event_row list" where
  "disk_log env (JSONL w) = Inl (jsonl_disk w)"
| "disk_log env (SQL w) = Inr (so_rows (le_sql env) (sw_session w))"

fun expected_log :: "'s log_env \<Rightarrow> event_record list \<Rightarrow> writer_kind \<Rightarrow> string + event_row list" where
  "expected_log env rs JsonlKind = Inl (concat (map (env_line env) rs))"
| "expected_log env rs SqlKind = Inr (concat (map (env_row env) rs))"

fun writer_holds :: "'s log_env \<Rightarrow> event_record list \<Rightarrow> 's writer \<Rightarrow> bool" where
  "writer_holds env rs (JSONL w) =
     (jw_open w \<and> split_log (env_line env) (jsonl_disk w) (jsonl_buffer w) (rw_since w) rs \<and> below_interval w)"
| "writer_holds env rs (SQL w) =
     (sw_has_session w \<and> split_log (env_row env) (so_rows (le_sql env) (sw_session w)) (so_new (le_sql env) (sw_session w)) (rw_since w) rs
      \<and> below_interval w)"

text \<open>A storage that does not fail, and records the encoders take.\<close>

fun reliable :: "'s writer \<Rightarrow> bool" where
  "reliable (JSONL w) = list_all ((=) IoDone) (tf_replies (jw_file w))"
| "reliable (SQL w) = True"

definition sql_reliable :: "('row, 's) sql_ops \<Rightarrow> bool" where
  "sql_reliable ops = (sql_add_law ops \<and> sql_commit_law ops \<and> sql_close_law ops
     \<and> (\<forall>s. is_ok (fst (so_commit ops s)) \<and> is_ok (fst (so_close ops s))))"

definition encodable :: "'s log_env \<Rightarrow> event_record \<Rightarrow> bool" where
  "encodable env r = (is_ok (le_encode env r) \<and> is_ok (le_encode_data env (ev_data r)))"

lemma all_done: "list_all ((=) IoDone) (tf_replies f) \<Longrightarrow> next_reply f = IoDone \<and> list_all ((=) IoDone) (tf_replies (reply_taken f))"
  by (cases "tf_replies f") (auto simp: next_reply_def reply_taken_def)

lemma tf_done:
  assumes "list_all ((=) IoDone) (tf_replies f)"
  shows "\<exists>f'. tf_write s f = (Inr (), f') \<and> list_all ((=) IoDone) (tf_replies f')"
    "\<exists>f'. tf_flush f = (Inr (), f') \<and> list_all ((=) IoDone) (tf_replies f')"
  using all_done [OF assms] by (simp_all add: tf_write_def tf_flush_def)

lemma jsonl_flush_done:
  assumes "list_all ((=) IoDone) (tf_replies (jw_file w))"
  shows "\<exists>w'. jsonl_flush w = (Inr (), w') \<and> list_all ((=) IoDone) (tf_replies (jw_file w'))"
  using tf_done(2) [OF assms] assms by (auto simp: jsonl_flush_def base_flush_def)

lemma jsonl_write_done:
  assumes "list_all ((=) IoDone) (tf_replies (jw_file w))" "is_ok (enc r)"
  shows "\<exists>w'. jsonl_write enc r w = (Inr (), w') \<and> list_all ((=) IoDone) (tf_replies (jw_file w'))"
proof -
  obtain s where s: "enc r = Inr s" using assms(2) by (auto simp: is_ok_iff)
  obtain w1 where w1: "jsonl_write_record enc r w = (Inr (), w1)" "list_all ((=) IoDone) (tf_replies (jw_file w1))"
    using tf_done(1) [OF assms(1), of "s @ [CHR 0x0A]"] assms(1) s by (cases "jw_open w") (auto simp: jsonl_write_record_def)
  have "list_all ((=) IoDone) (tf_replies (jw_file (w1\<lparr>rw_since := rw_since w1 + 1\<rparr>)))" using w1(2) by simp
  from jsonl_flush_done [OF this] w1 show ?thesis
    by (auto simp: jsonl_write_def record_writer_write_def Let_def split: option.splits)
qed

lemma sql_flush_done: "sql_reliable ops \<Longrightarrow> \<exists>w'. sql_flush ops w = (Inr (), w')"
proof -
  assume "sql_reliable ops"
  then have "is_ok (fst (so_commit ops (sw_session w)))" by (simp add: sql_reliable_def)
  then show ?thesis by (cases "so_commit ops (sw_session w)") (auto simp: sql_flush_def is_ok_iff)
qed

lemma sql_write_done: "sql_reliable ops \<Longrightarrow> is_ok (to_row r) \<Longrightarrow> \<exists>w'. sql_write ops to_row r w = (Inr (), w')"
  using sql_flush_done by (fastforce simp: sql_write_def record_writer_write_def sql_write_record_def is_ok_iff Let_def
      split: option.splits)

lemma sql_storage_reliable: "sql_reliable ops \<Longrightarrow> sql_storage ops"
  by (simp add: sql_storage_def sql_session_def sql_reliable_def)

lemma writer_write_done:
  assumes env: "sql_reliable (le_sql env)" "encodable env r" and w: "reliable w" "writer_holds env rs w"
  shows "\<exists>w'. writer_write env r w = (Inr (), w') \<and> reliable w' \<and> writer_holds env (rs @ [r]) w'
    \<and> writer_kind_of w' = writer_kind_of w \<and> flush_interval_of w' = flush_interval_of w"
proof (cases w)
  case (JSONL j)
  then have j: "jw_open j" "split_log (env_line env) (jsonl_disk j) (jsonl_buffer j) (rw_since j) rs" using w(2) by auto
  have ready: "list_all ((=) IoDone) (tf_replies (jw_file j))" "is_ok (le_encode env r)" using w(1) env(2) JSONL by (simp_all add: encodable_def)
  obtain j' where j': "jsonl_write (le_encode env) r j = (Inr (), j')" "list_all ((=) IoDone) (tf_replies (jw_file j'))"
    using jsonl_write_done [of j "le_encode env" r, OF ready] by blast
  note k = jsonl.write_split [OF j j'(1) [unfolded jsonl_write_def]]
  have "writer_write env r w = (Inr (), JSONL j')" by (simp add: JSONL j'(1))
  moreover have "writer_holds env (rs @ [r]) (JSONL j')" using k by simp
  ultimately show ?thesis using k j'(2) JSONL by (intro exI [of _ "JSONL j'"]) simp
next
  case (SQL q)
  then have q: "sw_has_session q" "split_log (env_row env) (so_rows (le_sql env) (sw_session q)) (so_new (le_sql env) (sw_session q)) (rw_since q) rs"
    using w(2) by auto
  have row: "is_ok (record_to_row (le_encode_data env) r)"
    using env(2) by (cases "le_encode_data env (ev_data r)") (simp_all add: encodable_def record_to_row_def)
  obtain q' where q': "sql_write (le_sql env) (record_to_row (le_encode_data env)) r q = (Inr (), q')"
    using sql_write_done [of "le_sql env" "record_to_row (le_encode_data env)" r q, OF env(1) row] ..
  note k = sql_storage.storage_write [OF sql_storage_reliable [OF env(1)] q q' [unfolded sql_write_def]]
  have "writer_write env r w = (Inr (), SQL q')" by (simp add: SQL q')
  moreover have "writer_holds env (rs @ [r]) (SQL q')" using k by simp
  ultimately show ?thesis using k SQL by (intro exI [of _ "SQL q'"]) simp
qed

lemma flush_and_close_done:
  assumes env: "sql_reliable (le_sql env)" and w: "reliable w" "writer_holds env rs w"
  shows "\<exists>w'. flush_and_close env w = (Inr (), w') \<and> disk_log env w' = expected_log env rs (writer_kind_of w)"
proof (cases w)
  case (JSONL j)
  then have j: "jw_open j" "split_log (env_line env) (jsonl_disk j) (jsonl_buffer j) (rw_since j) rs" using w(2) by auto
  obtain j1 where j1: "jsonl_flush j = (Inr (), j1)" "list_all ((=) IoDone) (tf_replies (jw_file j1))"
    using jsonl_flush_done w(1) JSONL by auto
  note k1 = jsonl.sync_ok [OF j(1) j1(1)] split_log_whole [OF j(2)]
  obtain j2 where j2: "jsonl_flush j1 = (Inr (), j2)" "list_all ((=) IoDone) (tf_replies (jw_file j2))"
    using jsonl_flush_done [OF j1(2)] by auto
  note k2 = jsonl.sync_ok [OF _ j2(1)]
  obtain f where f: "tf_close (jw_file j2) = (Inr (), f)" using tf_done(2) [OF j2(2)] by (auto simp: tf_close_def)
  have "tf_disk f = tf_disk (jw_file j2) @ tf_buffer (jw_file j2)"
    using f all_done [OF j2(2)] by (auto simp: tf_close_def tf_flush_def reply_taken_def)
  then have "jsonl_close j1 = (Inr (), j2\<lparr>jw_file := f, jw_open := False\<rparr>) \<and> tf_disk f = concat (map (env_line env) rs)"
    using k1 k2 j2(1) f by (auto simp: jsonl_close_def jsonl_disk_def jsonl_buffer_def)
  then show ?thesis by (simp add: JSONL flush_and_close_def j1 jsonl_disk_def)
next
  case (SQL q)
  then have q: "sw_has_session q" "split_log (env_row env) (so_rows (le_sql env) (sw_session q)) (so_new (le_sql env) (sw_session q)) (rw_since q) rs"
    using w(2) by auto
  note sync = sql_storage.storage_sync [OF sql_storage_reliable [OF env]]
  obtain q1 where q1: "sql_flush (le_sql env) q = (Inr (), q1)" using sql_flush_done [OF env] by blast
  note k1 = sync [OF q(1) q1] split_log_whole [OF q(2)]
  obtain q2 where q2: "sql_flush (le_sql env) q1 = (Inr (), q2)" using sql_flush_done [OF env] by blast
  note k2 = sync [OF _ q2]
  have "is_ok (fst (so_close (le_sql env) (sw_session q2)))" "sql_close_law (le_sql env)" using env by (simp_all add: sql_reliable_def)
  then obtain s where s: "so_close (le_sql env) (sw_session q2) = (Inr (), s)" "so_rows (le_sql env) s = so_rows (le_sql env) (sw_session q2)"
    unfolding sql_close_law_def is_ok_iff by (metis old.unit.exhaust prod.collapse)
  show ?thesis using k1 k2 q1 q2 s by (auto simp: SQL flush_and_close_def sql_close_def)
qed

lemma each_writer_done:
  assumes "\<And>w. w \<in> set ws \<Longrightarrow> \<exists>w'. f w = (Inr (), w') \<and> Q w w'"
  shows "\<exists>ws'. each_writer f ws = (Inr (), ws') \<and> list_all2 Q ws ws'"
  using assms
proof (induction ws)
  case (Cons w ws)
  obtain w' where w': "f w = (Inr (), w')" "Q w w'" using Cons.prems [of w] by auto
  obtain ws' where "each_writer f ws = (Inr (), ws')" "list_all2 Q ws ws'" using Cons.IH Cons.prems by auto
  then show ?case using w' by auto
qed simp

section \<open>A run of the service\<close>

text \<open>The log ends with the record \<open>ENDED\<close>.\<close>

fun upto_ended :: "event_record list \<Rightarrow> event_record list" where
  "upto_ended [] = []"
| "upto_ended (r # rs) = r # (if is_ended r then [] else upto_ended rs)"

lemma upto_ended_append:
  "upto_ended (xs @ ys) = (if list_ex is_ended xs then upto_ended xs else xs @ upto_ended ys)"
  by (induction xs) auto

lemma upto_ended_without: "\<not> list_ex is_ended xs \<Longrightarrow> upto_ended xs = xs"
  by (induction xs) auto

text \<open>One writer of kind \<open>k\<close>, opened with flush interval \<open>n\<close>, to which \<open>rs\<close> was written.\<close>

definition writer_ok :: "'s log_env \<Rightarrow> int option \<Rightarrow> event_record list \<Rightarrow> writer_kind \<Rightarrow> 's writer \<Rightarrow> bool" where
  "writer_ok env n rs k w = (reliable w \<and> writer_holds env rs w \<and> writer_kind_of w = k \<and> flush_interval_of w = n)"

definition running_log :: "'s log_env \<Rightarrow> int option \<Rightarrow> event_record list \<Rightarrow> writer_kind list \<Rightarrow> 's event_logger \<Rightarrow> bool" where
  "running_log env n rs ks s = (\<not> el_shutdown_received s \<and> \<not> el_stop_scheduled s \<and> \<not> el_event_set s \<and> el_has_event s \<and> el_has_loop s
     \<and> el_released s = [] \<and> list_all2 (writer_ok env n rs) ks (el_writers s))"

definition ended_log :: "'s log_env \<Rightarrow> event_record list \<Rightarrow> writer_kind list \<Rightarrow> 's event_logger \<Rightarrow> bool" where
  "ended_log env rs ks s = (el_shutdown_received s \<and> el_has_event s \<and> (el_stop_scheduled s \<or> el_event_set s) \<and> el_writers s = []
     \<and> map (disk_log env) (el_released s) = map (expected_log env rs) ks)"

lemma write_all_done:
  assumes "sql_reliable (le_sql env)" "encodable env r" "list_all2 (writer_ok env n rs) ks (el_writers s)"
  shows "\<exists>ws. write_record_to_writers env r s = (Inr (), s\<lparr>el_writers := ws\<rparr>) \<and> list_all2 (writer_ok env n (rs @ [r])) ks ws"
proof -
  have "\<exists>w'. writer_write env r w = (Inr (), w') \<and> (\<forall>k. writer_ok env n rs k w \<longrightarrow> writer_ok env n (rs @ [r]) k w')"
    if w: "w \<in> set (el_writers s)" for w
  proof -
    obtain k where "writer_ok env n rs k w" using assms(3) w by (metis in_set_conv_nth list_all2_conv_all_nth)
    then have "reliable w" "writer_holds env rs w" by (simp_all add: writer_ok_def)
    from writer_write_done [OF assms(1,2) this] show ?thesis by (fastforce simp: writer_ok_def)
  qed
  from each_writer_done [of "el_writers s" "writer_write env r", OF this] obtain ws where ws: "each_writer (writer_write env r) (el_writers s) = (Inr (), ws)"
    "list_all2 (\<lambda>w w'. \<forall>k. writer_ok env n rs k w \<longrightarrow> writer_ok env n (rs @ [r]) k w') (el_writers s) ws" by blast
  have "list_all2 (writer_ok env n (rs @ [r])) ks ws"
    by (rule list_all2_trans [OF _ assms(3) ws(2)]) blast
  then show ?thesis using ws(1) by (intro exI [of _ ws]) (simp add: write_record_to_writers_def)
qed

lemma process_loop_shut: "el_shutdown_received s \<Longrightarrow> process_loop env rs saw s = (Inr saw, s)"
  by (induction rs) simp_all

lemma process_loop_done:
  assumes "sql_reliable (le_sql env)" "list_all (encodable env) rs" "running_log env n rs0 ks s"
  shows "\<exists>ws. process_loop env rs saw s
      = (Inr (saw \<or> list_ex is_ended rs), s\<lparr>el_shutdown_received := list_ex is_ended rs, el_writers := ws\<rparr>)
    \<and> list_all2 (writer_ok env n (rs0 @ upto_ended rs)) ks ws"
  using assms(2,3)
proof (induction rs arbitrary: saw s rs0)
  case (Cons r rs)
  define s1 where "s1 = (if is_ended r then s\<lparr>el_shutdown_received := True\<rparr> else s)"
  have ns: "\<not> el_shutdown_received s" using Cons.prems(2) by (simp add: running_log_def)
  have ws1: "list_all2 (writer_ok env n rs0) ks (el_writers s1)" using Cons.prems(2) by (simp add: running_log_def s1_def)
  obtain ws where ws: "write_record_to_writers env r s1 = (Inr (), s1\<lparr>el_writers := ws\<rparr>)" "list_all2 (writer_ok env n (rs0 @ [r])) ks ws"
    using write_all_done [OF assms(1) _ ws1] Cons.prems(1) by auto
  have step: "process_loop env (r # rs) saw s = process_loop env rs (saw \<or> is_ended r) (s1\<lparr>el_writers := ws\<rparr>)"
    using ns ws(1) by (simp add: Let_def flip: s1_def)
  show ?case
  proof (cases "is_ended r")
    case True
    then show ?thesis using step ws(2) by (auto simp: process_loop_shut s1_def)
  next
    case False
    then have "running_log env n (rs0 @ [r]) ks (s1\<lparr>el_writers := ws\<rparr>)" using Cons.prems(2) ws(2) by (simp add: running_log_def s1_def)
    from Cons.IH [OF _ this, of saw] Cons.prems(1) False step show ?thesis by (simp add: s1_def)
  qed
next
  case Nil
  then have "s = s\<lparr>el_shutdown_received := False, el_writers := el_writers s\<rparr>" by (cases s) (simp add: running_log_def)
  then show ?case using Nil by (intro exI [of _ "el_writers s"]) (simp add: running_log_def)
qed

lemma logger_process_done:
  assumes "sql_reliable (le_sql env)" "list_all (encodable env) rs" "running_log env n rs0 ks s"
  shows "if list_ex is_ended rs then ended_log env (rs0 @ upto_ended rs) ks (snd (logger_process env rs s))
         else running_log env n (rs0 @ rs) ks (snd (logger_process env rs s))"
proof -
  obtain ws where p: "process_loop env rs False s = (Inr (list_ex is_ended rs), s\<lparr>el_shutdown_received := list_ex is_ended rs, el_writers := ws\<rparr>)"
    and ws: "list_all2 (writer_ok env n (rs0 @ upto_ended rs)) ks ws" using process_loop_done [OF assms, of False] by auto
  show ?thesis
  proof (cases "list_ex is_ended rs")
    case True
    let ?log = "rs0 @ upto_ended rs"
    have "\<exists>w'. flush_and_close env w = (Inr (), w') \<and> (\<forall>k. writer_ok env n ?log k w \<longrightarrow> disk_log env w' = expected_log env ?log k)"
      if w: "w \<in> set ws" for w
    proof -
      obtain k where "writer_ok env n ?log k w" using ws w by (metis in_set_conv_nth list_all2_conv_all_nth)
      then have "reliable w" "writer_holds env ?log w" by (simp_all add: writer_ok_def)
      from flush_and_close_done [OF assms(1) this] show ?thesis by (auto simp: writer_ok_def)
    qed
    from each_writer_done [of ws "flush_and_close env", OF this] obtain ws' where ws': "each_writer (flush_and_close env) ws = (Inr (), ws')"
      "list_all2 (\<lambda>w w'. \<forall>k. writer_ok env n ?log k w \<longrightarrow> disk_log env w' = expected_log env ?log k) ws ws'" by blast
    have "list_all2 (\<lambda>k w'. expected_log env ?log k = disk_log env w') ks ws'"
      by (rule list_all2_trans [OF _ ws ws'(2)]) force
    then have "map (disk_log env) ws' = map (expected_log env ?log) ks"
      by (metis list_all2_eq list_all2_map1 list_all2_map2)
    then show ?thesis using True p ws'(1) assms(3)
      by (simp add: logger_process_def close_writers_and_stop_def clear_writers_def Let_def ended_log_def running_log_def)
  next
    case False
    then show ?thesis using p ws assms(3) by (simp add: logger_process_def running_log_def upto_ended_without)
  qed
qed

text \<open>The batches among what the loop ran.\<close>

fun batch_of :: "logger_event \<Rightarrow> event_record list" where
  "batch_of (LogBatch rs) = rs"
| "batch_of _ = []"

definition log_inv :: "'s log_env \<Rightarrow> int option \<Rightarrow> event_record list \<Rightarrow> writer_kind list \<Rightarrow> 's event_logger \<Rightarrow> bool" where
  "log_inv env n rs ks s = (if list_ex is_ended rs then ended_log env (upto_ended rs) ks s else running_log env n rs ks s)"

lemma log_inv_step:
  assumes "sql_reliable (le_sql env)" "list_all (encodable env) (batch_of e)" "e \<noteq> LogSigterm" "log_inv env n rs ks s"
  shows "log_inv env n (rs @ batch_of e) ks (logger_step env s e)"
proof (cases e)
  case (LogBatch b)
  show ?thesis
  proof (cases "list_ex is_ended rs")
    case True
    then have "el_shutdown_received s" using assms(4) by (simp add: log_inv_def ended_log_def)
    then show ?thesis using True assms(4)
      by (simp add: LogBatch logger_process_def process_loop_shut log_inv_def upto_ended_append)
  next
    case False
    then have "running_log env n rs ks s" "list_all (encodable env) b" using assms(2,4) by (simp_all add: log_inv_def LogBatch)
    from logger_process_done [OF assms(1) this(2,1)] False show ?thesis
      by (simp add: LogBatch log_inv_def upto_ended_append split: if_splits)
  qed
next
  case StopCallback
  then show ?thesis using assms(4)
    by (auto simp: log_inv_def ended_log_def running_log_def request_stop_def logger_close_def clear_writers_def)
qed (use assms in simp_all)

lemma log_inv_run:
  assumes "sql_reliable (le_sql env)" "list_all (list_all (encodable env)) (map batch_of es)" "LogSigterm \<notin> set es" "log_inv env n rs ks s"
  shows "log_inv env n (rs @ concat (map batch_of es)) ks (foldl (logger_step env) s es)"
  using assms(2-4)
proof (induction es arbitrary: rs s)
  case (Cons e es)
  from log_inv_step [OF assms(1) _ _ Cons.prems(3), of e] Cons.prems(1,2)
  have "log_inv env n (rs @ batch_of e) ks (logger_step env s e)" by auto
  from Cons.IH [OF _ _ this] Cons.prems(1,2) show ?case by simp
qed simp

end
