(* ===== verification/EventLogRuns.thy ===== *)
theory EventLogRuns
  imports EventLogFacts EventPipeline
begin

text \<open>
  The log of a run, from the publisher to the file and the table, and the service after a storage
  failure.
\<close>

section \<open>A fresh service\<close>

lemma list_all2_map_right: "list_all2 (\<lambda>x y. P x (f y)) xs ys \<Longrightarrow> list_all2 P xs (map f ys)"
  by (simp add: list_all2_map2)








section \<open>Properties\<close>


lemma process_loop_flags:
  assumes "process_loop env rs saw s = (res, s')"
  shows "el_stop_scheduled s' = el_stop_scheduled s \<and> el_has_event s' = el_has_event s \<and> el_event_set s' = el_event_set s
    \<and> el_loop_running s' = el_loop_running s \<and> (\<not> list_ex is_ended rs \<longrightarrow> res \<in> {Inr saw} \<union> range Inl)"
  using assms
proof (induction rs arbitrary: saw s)
  case (Cons r rs)
  define s1 where "s1 = (if is_ended r then s\<lparr>el_shutdown_received := True\<rparr> else s)"
  obtain res1 ws where "each_writer (writer_write env r) (el_writers s1) = (res1, ws)" by (metis surj_pair)
  then have w: "write_record_to_writers env r s1 = (res1, s1\<lparr>el_writers := ws\<rparr>)" by (simp add: write_record_to_writers_def)
  have same: "el_stop_scheduled s1 = el_stop_scheduled s" "el_has_event s1 = el_has_event s" "el_event_set s1 = el_event_set s"
    "el_loop_running s1 = el_loop_running s" by (simp_all add: s1_def)
  show ?case
  proof (cases "el_shutdown_received s")
    case True
    then show ?thesis using Cons.prems by (auto simp: process_loop_shut)
  next
    case False
    then have step: "process_loop env (r # rs) saw s = (case res1 of Inl e \<Rightarrow> (Inl e, s1\<lparr>el_writers := ws\<rparr>)
        | Inr _ \<Rightarrow> process_loop env rs (saw \<or> is_ended r) (s1\<lparr>el_writers := ws\<rparr>))"
      using w by (simp add: Let_def flip: s1_def)
    show ?thesis
    proof (cases res1)
      case (Inl e)
      then show ?thesis using step Cons.prems same by auto
    next
      case (Inr u)
      with step Cons.prems have "process_loop env rs (saw \<or> is_ended r) (s1\<lparr>el_writers := ws\<rparr>) = (res, s')" by simp
      from Cons.IH [OF this] same show ?thesis by auto
    qed
  qed
qed simp

definition stuck :: "'s event_logger \<Rightarrow> bool" where
  "stuck s = (\<not> el_stop_scheduled s \<and> \<not> logger_exits s)"

lemma stuck_same:
  "stuck s \<Longrightarrow> el_stop_scheduled s' = el_stop_scheduled s \<Longrightarrow> el_has_event s' = el_has_event s \<Longrightarrow> el_event_set s' = el_event_set s
     \<Longrightarrow> el_loop_running s' = el_loop_running s \<Longrightarrow> stuck (s' :: 's event_logger)" for s :: "'s event_logger"
  by (auto simp: stuck_def logger_exits_def)

lemma process_raises_stuck:
  assumes "logger_process env rs s = (Inl e, s')" "stuck s"
  shows "stuck s'"
proof -
  obtain res s1 where p: "process_loop env rs False s = (res, s1)" by (metis surj_pair)
  note f = process_loop_flags [OF p]
  have "el_stop_scheduled s' = el_stop_scheduled s1 \<and> el_has_event s' = el_has_event s1 \<and> el_event_set s' = el_event_set s1
      \<and> el_loop_running s' = el_loop_running s1"
    using assms(1) by (auto simp: logger_process_def p close_writers_and_stop_def Let_def split: sum.splits if_splits prod.splits)
  then show ?thesis using f by (intro stuck_same [OF assms(2)]) simp_all
qed

lemma step_stays_stuck:
  assumes "stuck s" "ev \<noteq> LogSigterm" "el_shutdown_received s \<or> \<not> list_ex is_ended (batch_of ev)"
  shows "stuck (logger_step env s ev) \<and> (el_shutdown_received s \<longrightarrow> el_shutdown_received (logger_step env s ev))"
proof (cases ev)
  case (LogBatch b)
  show ?thesis
  proof (cases "el_shutdown_received s")
    case True
    then show ?thesis using assms(1) by (simp add: LogBatch logger_process_def process_loop_shut)
  next
    case False
    obtain res s1 where p: "process_loop env b False s = (res, s1)" by (metis surj_pair)
    note f = process_loop_flags [OF p]
    have "snd (logger_process env b s) = s1" using f False assms(3) by (auto simp: logger_process_def p LogBatch)
    then show ?thesis using f False by (intro conjI stuck_same [OF assms(1)]) (simp_all add: LogBatch)
  qed
qed (use assms in \<open>auto simp: stuck_def\<close>)

text \<open>A storage failure strands the logger: when a batch raises, and the end of the session was in it or does not
  come any more, nothing but SIGTERM makes the process leave.\<close>

theorem storage_failure_strands_the_logger:
  assumes "\<not> el_stop_scheduled s" "\<not> logger_exits s" "logger_process env rs s = (Inl e, s1)"
    and "el_shutdown_received s1 \<or> \<not> list_ex is_ended (concat (map batch_of evs))" "LogSigterm \<notin> set evs"
  shows "\<not> logger_exits (foldl (logger_step env) s (LogBatch rs # evs))"
proof -
  have "stuck s1" using process_raises_stuck [OF assms(3)] assms(1,2) by (simp add: stuck_def)
  then have "stuck (foldl (logger_step env) s1 evs)" using assms(4,5)
  proof (induction evs arbitrary: s1)
    case (Cons ev evs)
    have "el_shutdown_received s1 \<or> \<not> list_ex is_ended (batch_of ev)" "ev \<noteq> LogSigterm" using Cons.prems(2,3) by auto
    from step_stays_stuck [OF Cons.prems(1) this(2,1), of env] Cons.IH [of "logger_step env s1 ev"] Cons.prems(2,3)
    show ?case by auto
  qed simp
  then show ?thesis using assms(3) by (simp add: stuck_def)
qed

text \<open>A full disk: the line of \<open>ENDED\<close> is taken, its flush fails.\<close>

definition full_disk_logger :: "(event_row list \<times> event_row list) event_logger" where
  "full_disk_logger = \<lparr>el_writers = [JSONL \<lparr>rw_flush_interval = Some 100, rw_since = 0,
       jw_file = \<lparr>tf_disk = [], tf_buffer = [], tf_replies = [IoDone, IoFailed 0]\<rparr>, jw_open = True\<rparr>],
     el_released = [], el_shutdown_received = False, el_closed = False, el_has_loop = True, el_loop_running = True,
     el_has_event = True, el_event_set = False, el_stop_scheduled = False\<rparr>"

definition example_log_env :: "(event_row list \<times> event_row list) log_env" where
  "example_log_env = \<lparr>le_encode = (\<lambda>r. Inr (ev_value (ev_type r))), le_encode_data = (\<lambda>_. Inr []), le_sql = list_sql\<rparr>"

theorem storage_failure_strands_the_logger_witness:
  "\<not> logger_exits (foldl (logger_step example_log_env) full_disk_logger
      (LogBatch [mk_event (SessionEv ENDED) 9] # [StopCallback, LogBatch [mk_event (SessionEv ENDED) 10], LogSigint]))"
proof -
  have r: "logger_process example_log_env [mk_event (SessionEv ENDED) 9] full_disk_logger
      = (Inl system_error, snd (logger_process example_log_env [mk_event (SessionEv ENDED) 9] full_disk_logger))"
    "el_shutdown_received (snd (logger_process example_log_env [mk_event (SessionEv ENDED) 9] full_disk_logger))"
    by code_simp+
  show ?thesis by (rule storage_failure_strands_the_logger [OF _ _ r(1)]) (use r(2) in \<open>simp_all add: full_disk_logger_def logger_exits_def\<close>)
qed




end
