(* ===== verification/Services.thy ===== *)
theory Services
  imports EventLog RunOutcome
begin

text \<open>
  The service processes of a run: the launcher of \<open>services/launcher.py\<close> and the life cycle
  \<open>MetricsPipeline\<close> of \<open>commands/benchmark/pipeline.py\<close>.  A child process is the time at which it will
  exit if nothing more is done to it, and how long it takes to die of SIGTERM and of SIGKILL, if it does;
  the clock is the argument \<open>now\<close> of the calls that read it.  Waiting without a timeout may never
  return, which is \<open>None\<close>.
\<close>

section \<open>Child processes\<close>

record process =
  pr_pid :: int
  pr_cmd :: "string list"
  pr_exit :: "(rat \<times> int) option"
  pr_term_delay :: "rat option"
  pr_kill_delay :: "rat option"
  pr_refuses :: bool
  pr_terminated :: bool
  pr_killed :: bool

definition timeout_expired :: py_exc where "timeout_expired = OtherException ''TimeoutExpired''"

definition process_poll :: "rat \<Rightarrow> process \<Rightarrow> int option" where
  "process_poll now p = (case pr_exit p of None \<Rightarrow> None | Some (x, code) \<Rightarrow> if x \<le> now then Some code else None)"

text \<open>A signal makes the process exit after a delay, unless it exits before.\<close>

definition sooner :: "(rat \<times> int) option \<Rightarrow> rat \<Rightarrow> rat option \<Rightarrow> int \<Rightarrow> (rat \<times> int) option" where
  "sooner exit now delay code =
     (case delay of
        None \<Rightarrow> exit
      | Some d \<Rightarrow>
          (case exit of
             None \<Rightarrow> Some (now + d, code)
           | Some (x, c) \<Rightarrow> if x \<le> now + d then Some (x, c) else Some (now + d, code)))"

text \<open>\<open>Popen.send_signal\<close> does nothing to a process that has exited.\<close>

definition process_terminate :: "rat \<Rightarrow> process \<Rightarrow> unit result \<times> process" where
  "process_terminate now p =
     (if process_poll now p \<noteq> None then (Inr (), p)
      else if pr_refuses p then (Inl system_error, p)
      else (Inr (), p\<lparr>pr_exit := sooner (pr_exit p) now (pr_term_delay p) (- 15), pr_terminated := True\<rparr>))"

definition process_kill :: "rat \<Rightarrow> process \<Rightarrow> unit result \<times> process" where
  "process_kill now p =
     (if process_poll now p \<noteq> None then (Inr (), p)
      else if pr_refuses p then (Inl system_error, p)
      else (Inr (), p\<lparr>pr_exit := sooner (pr_exit p) now (pr_kill_delay p) (- 9), pr_killed := True\<rparr>))"

text \<open>\<open>wait(timeout)\<close>: whether the process exited, and when the call returned; \<open>wait()\<close>.\<close>

definition wait_timeout :: "rat \<Rightarrow> rat \<Rightarrow> process \<Rightarrow> bool \<times> rat" where
  "wait_timeout now d p =
     (case pr_exit p of
        None \<Rightarrow> (False, now + d)
      | Some (x, _) \<Rightarrow> if x \<le> now then (True, now) else if x \<le> now + d then (True, x) else (False, now + d))"

definition wait_forever :: "rat \<Rightarrow> process \<Rightarrow> rat option" where
  "wait_forever now p = map_option (\<lambda>(x, _). max now x) (pr_exit p)"

section \<open>The launcher\<close>

record service_config =
  sc_module :: string
  sc_args :: "string list"

definition service_command :: "string \<Rightarrow> string \<Rightarrow> nat \<Rightarrow> service_config \<Rightarrow> string list" where
  "service_command executable readiness_path i svc =
     [executable, ''-m'', sc_module svc] @ sc_args svc @ [''--readiness-path'', readiness_path, ''--readiness-id'', digits i]"

text \<open>\<open>Popen\<close> of the \<open>i\<close>-th command gives a process or raises.\<close>

fun spawn_services ::
    "(nat \<Rightarrow> string list \<Rightarrow> process result) \<Rightarrow> string \<Rightarrow> string \<Rightarrow> nat \<Rightarrow> service_config list \<Rightarrow> process list \<Rightarrow> unit result \<times> process list" where
  "spawn_services popen executable path i [] ps = (Inr (), ps)"
| "spawn_services popen executable path i (svc # svcs) ps =
     (case popen i (service_command executable path i svc) of
        Inl e \<Rightarrow> (Inl e, ps)
      | Inr p \<Rightarrow> spawn_services popen executable path (Suc i) svcs (ps @ [p]))"

text \<open>The first signal that cannot be sent ends \<open>kill_all\<close>.\<close>

fun kill_all :: "rat \<Rightarrow> process list \<Rightarrow> unit result \<times> process list" where
  "kill_all now [] = (Inr (), [])"
| "kill_all now (p # ps) =
     (if process_poll now p = None
      then (case process_kill now p of
              (Inl e, p') \<Rightarrow> (Inl e, p' # ps)
            | (Inr _, p') \<Rightarrow> map_prod id ((#) p') (kill_all now ps))
      else map_prod id ((#) p) (kill_all now ps))"

definition crashed :: "rat \<Rightarrow> process list \<Rightarrow> (int \<times> int) list" where
  "crashed now ps =
     concat (map (\<lambda>p. case process_poll now p of None \<Rightarrow> [] | Some code \<Rightarrow> if code \<noteq> 0 then [(pr_pid p, code)] else []) ps)"

definition launch_failed :: "py_exc \<Rightarrow> rat \<Rightarrow> process list \<Rightarrow> unit result \<times> process list" where
  "launch_failed e now ps =
     (if \<not> is_exception e then (Inl e, ps)
      else (case kill_all now ps of
              (Inl e', ps') \<Rightarrow> (Inl e', ps')
            | (Inr _, ps') \<Rightarrow> (Inl (if crashed now ps \<noteq> [] then RuntimeError else e), ps')))"

record launch_env =
  la_executable :: string
  la_readiness_path :: string
  la_popen :: "nat \<Rightarrow> string list \<Rightarrow> process result"
  la_ready :: "unit result \<times> rat"

text \<open>\<open>launch\<close>: spawning takes no time, the wait for readiness ends as \<open>la_ready\<close> says.\<close>

definition launch :: "launch_env \<Rightarrow> service_config list \<Rightarrow> rat \<Rightarrow> process list \<Rightarrow> unit result \<times> rat \<times> process list" where
  "launch env svcs now ps =
     (if svcs = [] then (Inr (), now, ps)
      else (case spawn_services (la_popen env) (la_executable env) (la_readiness_path env) 0 svcs ps of
              (Inl e, ps1) \<Rightarrow> (case launch_failed e now ps1 of (r, ps2) \<Rightarrow> (r, now, ps2))
            | (Inr _, ps1) \<Rightarrow>
                (case la_ready env of
                   (Inr _, t) \<Rightarrow> (Inr (), t, ps1)
                 | (Inl e, t) \<Rightarrow> (case launch_failed e t ps1 of (r, ps2) \<Rightarrow> (r, t, ps2)))))"

text \<open>The second loop of \<open>terminate_all\<close>: a process that outlives the deadline is killed and given five
  seconds; neither a refused signal nor a process that does not die ends the loop.\<close>

fun reap_all :: "rat \<Rightarrow> rat \<Rightarrow> process list \<Rightarrow> rat \<times> process list" where
  "reap_all deadline now [] = (now, [])"
| "reap_all deadline now (p # ps) =
     (case wait_timeout now (max 0 (deadline - now)) p of
        (True, t) \<Rightarrow> map_prod id ((#) p) (reap_all deadline t ps)
      | (False, t) \<Rightarrow>
          (case process_kill t p of
             (Inl _, p') \<Rightarrow> map_prod id ((#) p') (reap_all deadline t ps)
           | (Inr _, p') \<Rightarrow> map_prod id ((#) p') (reap_all deadline (snd (wait_timeout t 5 p')) ps)))"

definition terminate_all :: "rat \<Rightarrow> rat \<Rightarrow> process list \<Rightarrow> rat \<times> process list" where
  "terminate_all timeout now ps = reap_all (now + timeout) now (map (\<lambda>p. snd (process_terminate now p)) ps)"

text \<open>\<open>wait_for_exit\<close>: here a refused signal and a process that survives SIGKILL raise.\<close>

fun wait_until :: "rat option \<Rightarrow> rat \<Rightarrow> process list \<Rightarrow> (unit result \<times> rat \<times> process list) option" where
  "wait_until deadline now [] = Some (Inr (), now, [])"
| "wait_until deadline now (p # ps) =
     (case deadline of
        None \<Rightarrow>
          (case wait_forever now p of
             None \<Rightarrow> None
           | Some t \<Rightarrow> map_option (map_prod id (map_prod id ((#) p))) (wait_until deadline t ps))
      | Some d \<Rightarrow>
          (case wait_timeout now (max 0 (d - now)) p of
             (True, t) \<Rightarrow> map_option (map_prod id (map_prod id ((#) p))) (wait_until deadline t ps)
           | (False, t) \<Rightarrow>
               (case process_kill t p of
                  (Inl e, p') \<Rightarrow> Some (Inl e, t, p' # ps)
                | (Inr _, p') \<Rightarrow>
                    (case wait_timeout t 5 p' of
                       (True, t') \<Rightarrow> map_option (map_prod id (map_prod id ((#) p'))) (wait_until deadline t' ps)
                     | (False, t') \<Rightarrow> Some (Inl timeout_expired, t', p' # ps)))))"

definition wait_for_exit :: "rat option \<Rightarrow> rat \<Rightarrow> process list \<Rightarrow> (unit result \<times> rat \<times> process list) option" where
  "wait_for_exit timeout now ps = wait_until (map_option ((+) now) timeout) now ps"

section \<open>The services' command lines\<close>

record profile =
  pf_name :: string
  pf_metric :: string
  pf_superpass_unit :: string
  pf_superpass_size :: "int option"
  pf_cov_bounds :: "rat list"
  pf_warmup_driver :: string
  pf_tokenize_batch_size :: int
  pf_supported :: bool

definition window_profile :: "rat list \<Rightarrow> string \<Rightarrow> bool \<Rightarrow> profile" where
  "window_profile bounds name supported =
     \<lparr>pf_name = name, pf_metric = ''window'', pf_superpass_unit = ''samples'', pf_superpass_size = None,
      pf_cov_bounds = bounds, pf_warmup_driver = ''tpot_p50'', pf_tokenize_batch_size = 4096, pf_supported = supported\<rparr>"

definition profiles :: "rat list \<Rightarrow> (string \<times> profile) list" where
  "profiles bounds =
     [(''concurrency'', window_profile bounds ''concurrency'' True),
      (''poisson'', window_profile bounds ''poisson'' True),
      (''offline'', window_profile bounds ''offline'' False),
      (''agentic'', \<lparr>pf_name = ''agentic'', pf_metric = ''natl'', pf_superpass_unit = ''trajectories'', pf_superpass_size = Some 32,
          pf_cov_bounds = [1/10, 15/100], pf_warmup_driver = ''tpot_p50'', pf_tokenize_batch_size = 512, pf_supported = False\<rparr>)]"

definition load_pattern_profile :: "(string \<times> string) list" where
  "load_pattern_profile =
     [(''agentic_inference'', ''agentic''), (''poisson'', ''poisson''), (''max_throughput'', ''offline''),
      (''offline'', ''offline''), (''concurrency'', ''concurrency'')]"

definition profile_for_load_pattern :: "rat list \<Rightarrow> string \<Rightarrow> profile option" where
  "profile_for_load_pattern bounds lp = Option.bind (map_of load_pattern_profile lp) (map_of (profiles bounds))"

fun load_pattern_value :: "load_pattern_type \<Rightarrow> string" where
  "load_pattern_value MAX_THROUGHPUT = ''max_throughput''"
| "load_pattern_value POISSON = ''poisson''"
| "load_pattern_value CONCURRENCY = ''concurrency''"
| "load_pattern_value AGENTIC_INFERENCE = ''agentic_inference''"
| "load_pattern_value BURST = ''burst''"
| "load_pattern_value STEP = ''step''"

definition steady_state_profile ::
    "rat list \<Rightarrow> bool \<Rightarrow> load_pattern_type \<Rightarrow> bool \<Rightarrow> bool \<Rightarrow> string option \<Rightarrow> string option" where
  "steady_state_profile bounds enabled lp accuracy_only enable_streaming tokenizer_name =
     (if \<not> enabled then None
      else if accuracy_only then None
      else if \<not> enable_streaming then None
      else if tokenizer_name \<in> {None, Some []} then None
      else if lp = AGENTIC_INFERENCE then None
      else (case profile_for_load_pattern bounds (load_pattern_value lp) of
              None \<Rightarrow> None
            | Some p \<Rightarrow> if pf_supported p then Some (pf_name p) else None))"

text \<open>\<open>str\<close> of a float is the argument \<open>str_float\<close>.\<close>

record aggregator_options =
  ao_socket_dir :: string
  ao_pub_socket_name :: string
  ao_metrics_socket_name :: string
  ao_metrics_output_dir :: string
  ao_enable_streaming :: bool
  ao_tokenizer_name :: "string option"
  ao_drain_timeout_s :: "rat option"
  ao_tokenizer_workers :: nat
  ao_enable_isl :: bool
  ao_early_stopping :: bool
  ao_steady_state_profile :: "string option"

definition build_aggregator_args :: "(rat \<Rightarrow> string) \<Rightarrow> aggregator_options \<Rightarrow> string list" where
  "build_aggregator_args str_float o' =
     [''--socket-dir'', ao_socket_dir o', ''--socket-name'', ao_pub_socket_name o',
      ''--metrics-socket'', ao_metrics_socket_name o', ''--metrics-output-dir'', ao_metrics_output_dir o']
     @ (if ao_enable_streaming o' then [''--streaming''] else [])
     @ (if ao_early_stopping o' then [''--early-stopping''] else [])
     @ (case ao_tokenizer_name o' of None \<Rightarrow> [] | Some t \<Rightarrow> [''--tokenizer'', t])
     @ (case ao_drain_timeout_s o' of None \<Rightarrow> [] | Some d \<Rightarrow> [''--drain-timeout'', str_float d])
     @ (case ao_steady_state_profile o' of None \<Rightarrow> [] | Some p \<Rightarrow> [''--steady-state-profile'', p])
     @ [''--tokenizer-workers'', digits (ao_tokenizer_workers o')]
     @ [if ao_enable_isl o' then ''--metrics-isl'' else ''--no-metrics-isl'']"

definition build_event_logger_args :: "string \<Rightarrow> string \<Rightarrow> string \<Rightarrow> string list" where
  "build_event_logger_args event_log_dir socket_dir pub_socket_name =
     [''--log-dir'', event_log_dir, ''--socket-dir'', socket_dir, ''--socket-name'', pub_socket_name, ''--writers'', ''jsonl'']"

section \<open>The pipeline\<close>

datatype exit_callback = LeaveScope | ClosePublisher | CloseSubscriber | KillServices

text \<open>\<open>mp_stack\<close> holds the callbacks in the order they were registered; \<open>mp_procs\<close> are the launcher's.\<close>

record pipeline =
  mp_stack :: "exit_callback list option"
  mp_procs :: "process list option"
  mp_publisher :: bool
  mp_subscriber :: bool
  mp_scope_open :: bool
  mp_now :: rat

definition pipeline_init :: "rat \<Rightarrow> pipeline" where
  "pipeline_init now = \<lparr>mp_stack = None, mp_procs = None, mp_publisher = False, mp_subscriber = False,
     mp_scope_open = False, mp_now = now\<rparr>"

text \<open>The callbacks swallow what closing raises.\<close>

fun run_exit_callback :: "pipeline \<Rightarrow> exit_callback \<Rightarrow> pipeline" where
  "run_exit_callback m LeaveScope = m\<lparr>mp_scope_open := False\<rparr>"
| "run_exit_callback m ClosePublisher = m\<lparr>mp_publisher := False\<rparr>"
| "run_exit_callback m CloseSubscriber = m\<lparr>mp_subscriber := False\<rparr>"
| "run_exit_callback m KillServices =
     (case mp_procs m of
        None \<Rightarrow> m
      | Some ps \<Rightarrow> (case terminate_all 5 (mp_now m) ps of (t, ps') \<Rightarrow> m\<lparr>mp_now := t, mp_procs := Some ps'\<rparr>))"

text \<open>\<open>ExitStack.__exit__\<close>: last in, first out.\<close>

definition unwind :: "exit_callback list \<Rightarrow> pipeline \<Rightarrow> pipeline" where
  "unwind cbs m = foldl run_exit_callback m (rev cbs)"

record start_world =
  sw_scope :: "unit result"
  sw_publisher :: "unit result"
  sw_has_socket_dir :: bool
  sw_subscriber :: "unit result"
  sw_subscriber_start :: "unit result"
  sw_launch :: launch_env

text \<open>The body of \<open>start\<close>: what it raised, the callbacks registered so far, and the pipeline.\<close>

definition start_body :: "start_world \<Rightarrow> service_config list \<Rightarrow> pipeline \<Rightarrow> unit result \<times> exit_callback list \<times> pipeline" where
  "start_body w svcs m =
     (case sw_scope w of
        Inl e \<Rightarrow> (Inl e, [], m)
      | Inr _ \<Rightarrow>
          (let m1 = m\<lparr>mp_scope_open := True\<rparr>
           in (case sw_publisher w of
                 Inl e \<Rightarrow> (Inl e, [LeaveScope], m1)
               | Inr _ \<Rightarrow>
                   (let m2 = m1\<lparr>mp_publisher := True\<rparr>
                    in if \<not> sw_has_socket_dir w then (Inl RuntimeError, [LeaveScope, ClosePublisher], m2)
                       else (case sw_subscriber w of
                               Inl e \<Rightarrow> (Inl e, [LeaveScope, ClosePublisher], m2)
                             | Inr _ \<Rightarrow>
                                 (let m3 = m2\<lparr>mp_subscriber := True\<rparr>
                                  in (case sw_subscriber_start w of
                                        Inl e \<Rightarrow> (Inl e, [LeaveScope, ClosePublisher], m3)
                                      | Inr _ \<Rightarrow>
                                          (case launch (sw_launch w) svcs (mp_now m3) [] of
                                             (r, t, ps) \<Rightarrow>
                                               (r, [LeaveScope, ClosePublisher, CloseSubscriber],
                                                m3\<lparr>mp_procs := Some ps, mp_now := t\<rparr>)))))))))"

definition pipeline_start :: "start_world \<Rightarrow> service_config list \<Rightarrow> pipeline \<Rightarrow> unit result \<times> pipeline" where
  "pipeline_start w svcs m =
     (case start_body w svcs m of
        (Inr _, cbs, m1) \<Rightarrow> (Inr (), m1\<lparr>mp_stack := Some cbs\<rparr>)
      | (Inl e, cbs, m1) \<Rightarrow> (Inl e, unwind (if mp_procs m1 \<noteq> None then cbs @ [KillServices] else cbs) m1))"

definition pipeline_aexit :: "bool \<Rightarrow> pipeline \<Rightarrow> pipeline" where
  "pipeline_aexit raised m =
     (case mp_stack m of
        None \<Rightarrow> m
      | Some cbs \<Rightarrow>
          (let m1 = m\<lparr>mp_stack := None\<rparr>
           in unwind (if mp_procs m1 \<noteq> None \<and> (mp_publisher m1 \<or> raised) then cbs @ [KillServices] else cbs) m1))"

section \<open>Draining\<close>

record drain_world =
  dw_close :: "unit result"
  dw_abort :: "rat option"
  dw_grace :: rat
  dw_cancel :: "rat option"

text \<open>The wait for the services: the thread waits without a timeout; after an abort and its grace the
  processes that remain are killed, and the thread's wait goes on.\<close>

definition kill_time :: "drain_world \<Rightarrow> rat \<Rightarrow> rat option" where
  "kill_time w now = map_option (\<lambda>a. max now a + dw_grace w) (dw_abort w)"

definition drain_services :: "drain_world \<Rightarrow> rat \<Rightarrow> process list \<Rightarrow> (unit result \<times> rat \<times> process list) option" where
  "drain_services w now ps =
     (case (wait_for_exit None now ps, kill_time w now) of
        (done, None) \<Rightarrow> done
      | (done, Some k) \<Rightarrow>
          (case done of
             Some (r, x, ps') \<Rightarrow> if x \<le> k then done else
               (case kill_all k ps of (Inl e, ps1) \<Rightarrow> Some (Inl e, k, ps1) | (Inr _, ps1) \<Rightarrow> wait_for_exit None k ps1)
           | None \<Rightarrow>
               (case kill_all k ps of (Inl e, ps1) \<Rightarrow> Some (Inl e, k, ps1) | (Inr _, ps1) \<Rightarrow> wait_for_exit None k ps1)))"

text \<open>A cancellation at \<open>c\<close> ends the wait that is not over by then.\<close>

definition drain_wait :: "drain_world \<Rightarrow> rat \<Rightarrow> process list \<Rightarrow> (unit result \<times> rat \<times> process list) option" where
  "drain_wait w now ps =
     (case dw_cancel w of
        None \<Rightarrow> drain_services w now ps
      | Some c \<Rightarrow>
          (let cancelled = Some (Inl cancelled_error, max now c,
                 (case kill_time w now of None \<Rightarrow> ps | Some k \<Rightarrow> if k \<le> max now c then snd (kill_all k ps) else ps))
           in (case drain_services w now ps of
                 None \<Rightarrow> cancelled
               | Some (r, x, ps') \<Rightarrow> if x \<le> max now c then Some (r, x, ps') else cancelled)))"

text \<open>\<open>drain_and_build_report\<close> up to the snapshot, from which \<open>drained_report\<close> goes on.\<close>

definition pipeline_drain :: "drain_world \<Rightarrow> pipeline \<Rightarrow> (unit result \<times> pipeline) option" where
  "pipeline_drain w m =
     (if \<not> mp_publisher m then Some (Inl AssertionError, m)
      else (case mp_procs m of
              None \<Rightarrow> Some (Inl AssertionError, m)
            | Some ps \<Rightarrow>
                (let m1 = m\<lparr>mp_publisher := False\<rparr>
                 in (case dw_close w of
                       Inl e \<Rightarrow> Some (Inl e, m1)
                     | Inr _ \<Rightarrow>
                         map_option (\<lambda>(r, t, ps'). (r, m1\<lparr>mp_now := t, mp_procs := Some ps'\<rparr>)) (drain_wait w (mp_now m1) ps)))))"

end
