(* ===== verification/ServicesFacts.thy ===== *)
theory ServicesFacts
  imports Services
begin

text \<open>
  When waiting for the services returns, how long tearing them down takes, and what is left of them.
\<close>

section \<open>Time and exits\<close>

text \<open>A process that is no longer of concern at \<open>t\<close>: it exited, was sent SIGKILL, or cannot be signalled.\<close>

definition dealt_with :: "rat \<Rightarrow> process \<Rightarrow> bool" where
  "dealt_with t p = (process_poll t p \<noteq> None \<or> pr_killed p \<or> pr_refuses p)"

lemma poll_later: "process_poll t p \<noteq> None \<Longrightarrow> t \<le> t' \<Longrightarrow> process_poll t' p \<noteq> None"
  by (auto simp: process_poll_def split: option.splits if_splits)

lemma dealt_with_later: "dealt_with t p \<Longrightarrow> t \<le> t' \<Longrightarrow> dealt_with t' p"
  using poll_later by (auto simp: dealt_with_def)

lemma wait_timeout_spec:
  assumes "wait_timeout now d p = (ok, t)" "0 \<le> d"
  shows "now \<le> t" "t \<le> now + d" "ok \<Longrightarrow> process_poll t p \<noteq> None"
  using assms by (auto simp: wait_timeout_def process_poll_def split: option.splits if_splits)

lemma kill_spec:
  assumes "process_kill t p = (r, p')"
  shows "dealt_with t p'"
  using assms by (auto simp: process_kill_def dealt_with_def process_poll_def split: if_splits)

lemma reap_all_spec:
  assumes "reap_all deadline now ps = (t, ps')"
  shows "now \<le> t \<and> t \<le> max now deadline + 5 * of_nat (length ps) \<and> list_all (dealt_with t) ps' \<and> length ps' = length ps"
  using assms
proof (induction ps arbitrary: now t ps')
  case (Cons p ps)
  obtain ok t1 where w: "wait_timeout now (max 0 (deadline - now)) p = (ok, t1)" by (metis surj_pair)
  have t1: "now \<le> t1" "t1 \<le> max now deadline" using wait_timeout_spec(1,2) [OF w] by auto
  show ?case
  proof (cases ok)
    case True
    obtain ps1 where r: "reap_all deadline t1 ps = (t, ps1)" "ps' = p # ps1"
      using Cons.prems w True by (cases "reap_all deadline t1 ps") simp
    have "dealt_with t1 p" using wait_timeout_spec(3) [OF w] True by (simp add: dealt_with_def)
    then show ?thesis using Cons.IH [OF r(1)] t1 r(2) dealt_with_later by auto
  next
    case False
    obtain res p' where k: "process_kill t1 p = (res, p')" by (metis surj_pair)
    define t2 where "t2 = (case res of Inl _ \<Rightarrow> t1 | Inr _ \<Rightarrow> snd (wait_timeout t1 5 p'))"
    have t2: "t1 \<le> t2" "t2 \<le> t1 + 5" using wait_timeout_spec(1,2) [of t1 5 p'] by (cases res; cases "wait_timeout t1 5 p'"; simp add: t2_def)+
    obtain ps1 where r: "reap_all deadline t2 ps = (t, ps1)" "ps' = p' # ps1"
      using Cons.prems w False k by (cases res; cases "reap_all deadline t2 ps") (simp_all add: t2_def)
    have "dealt_with t2 p'" using kill_spec [OF k] t2 dealt_with_later by blast
    then show ?thesis using Cons.IH [OF r(1)] t1 t2 r(2) dealt_with_later by (auto simp: max_def split: if_splits)
  qed
qed simp

lemma terminate_all_spec:
  assumes "terminate_all timeout now ps = (t, ps')" "0 \<le> timeout"
  shows "t \<le> now + timeout + 5 * of_nat (length ps)" "list_all (dealt_with t) ps'" "length ps' = length ps"
  using reap_all_spec [OF assms(1) [unfolded terminate_all_def]] assms(2) by simp_all

section \<open>Waiting without a timeout\<close>

lemma wait_all_spec:
  "wait_until None now ps =
     (if list_all (\<lambda>p. pr_exit p \<noteq> None) ps
      then Some (Inr (), foldl (\<lambda>t p. max t (fst (the (pr_exit p)))) now ps, ps) else None)"
proof (induction ps arbitrary: now)
  case (Cons p ps)
  then show ?case by (cases "pr_exit p") (auto simp: wait_forever_def)
qed simp

lemma foldl_max_ge: "now \<le> foldl (\<lambda>t p. max t (g p)) now ps" for now :: "'a :: linorder"
  by (induction ps arbitrary: now) (simp, metis foldl_Cons max.coboundedI1 max.cobounded1 order.trans)

lemma foldl_max_member: "p \<in> set ps \<Longrightarrow> g p \<le> foldl (\<lambda>t p. max t (g p)) now ps" for now :: "'a :: linorder"
proof (induction ps arbitrary: now)
  case (Cons q ps)
  show ?case
  proof (cases "p = q")
    case True
    have "g q \<le> max now (g q)" by simp
    also have "\<dots> \<le> foldl (\<lambda>t p. max t (g p)) (max now (g q)) ps" by (rule foldl_max_ge)
    finally show ?thesis unfolding True foldl_Cons .
  next
    case False
    then have "p \<in> set ps" using Cons.prems by simp
    from Cons.IH [OF this, of "max now (g q)"] show ?thesis unfolding foldl_Cons .
  qed
qed simp

lemma foldl_max_le: "now \<le> b \<Longrightarrow> \<forall>p\<in>set ps. g p \<le> b \<Longrightarrow> foldl (\<lambda>t p. max t (g p)) now ps \<le> b" for now :: "'a :: linorder"
  by (induction ps arbitrary: now) simp_all

lemma waited_all:
  assumes "wait_for_exit None now ps = Some (r, t, ps')"
  shows "r = Inr ()" "ps' = ps" "now \<le> t" "list_all (\<lambda>p. process_poll t p \<noteq> None) ps"
proof -
  have all: "list_all (\<lambda>p. pr_exit p \<noteq> None) ps" and eq: "r = Inr ()" "ps' = ps" "t = foldl (\<lambda>t p. max t (fst (the (pr_exit p)))) now ps"
    using assms by (auto simp: wait_for_exit_def wait_all_spec split: if_splits)
  show "r = Inr ()" "ps' = ps" "now \<le> t" by (simp_all only: eq foldl_max_ge)
  have "process_poll t p \<noteq> None" if p: "p \<in> set ps" for p
  proof -
    obtain x c where "pr_exit p = Some (x, c)" using all p by (auto simp: list_all_iff)
    moreover have "fst (the (pr_exit p)) \<le> t" unfolding eq by (rule foldl_max_member [OF p])
    ultimately show ?thesis by (simp add: process_poll_def)
  qed
  then show "list_all (\<lambda>p. process_poll t p \<noteq> None) ps" by (simp add: list_all_iff)
qed

section \<open>Killing\<close>

definition killable :: "rat \<Rightarrow> process \<Rightarrow> bool" where
  "killable d p = (\<not> pr_refuses p \<and> (\<exists>k. pr_kill_delay p = Some k \<and> 0 \<le> k \<and> k \<le> d))"

lemma kill_killable:
  assumes "killable d p" "process_poll now p = None"
  shows "\<exists>p' x c. process_kill now p = (Inr (), p') \<and> pr_exit p' = Some (x, c) \<and> x \<le> now + d"
  using assms by (fastforce simp: killable_def process_kill_def sooner_def split: option.splits)

lemma kill_all_killable:
  assumes "list_all (killable d) ps" "0 \<le> d"
  shows "\<exists>ps'. kill_all now ps = (Inr (), ps') \<and> list_all (\<lambda>p. \<exists>x c. pr_exit p = Some (x, c) \<and> x \<le> now + d) ps'"
  using assms(1)
proof (induction ps)
  case (Cons p ps)
  then obtain ps' where ps': "kill_all now ps = (Inr (), ps')" "list_all (\<lambda>p. \<exists>x c. pr_exit p = Some (x, c) \<and> x \<le> now + d) ps'" by auto
  show ?case
  proof (cases "process_poll now p")
    case None
    from kill_killable [OF _ None] Cons.prems show ?thesis using None ps' by fastforce
  next
    case (Some code)
    then have "\<exists>x c. pr_exit p = Some (x, c) \<and> x \<le> now + d"
      using assms(2) by (auto simp: process_poll_def split: option.splits if_splits)
    then show ?thesis using Some ps' by simp
  qed
qed simp

lemma wait_bounded:
  assumes "list_all (\<lambda>p. \<exists>x c. pr_exit p = Some (x, c) \<and> x \<le> b) ps" "now \<le> b"
  shows "\<exists>t. wait_for_exit None now ps = Some (Inr (), t, ps) \<and> t \<le> b"
proof -
  have "list_all (\<lambda>p. pr_exit p \<noteq> None) ps" "\<forall>p\<in>set ps. fst (the (pr_exit p)) \<le> b"
    using assms(1) by (auto simp: list_all_iff)
  then show ?thesis using foldl_max_le [OF assms(2)] by (simp add: wait_for_exit_def wait_all_spec)
qed

lemma killed_wait:
  assumes "list_all (killable d) ps" "0 \<le> d"
  shows "\<exists>t ps1. (case kill_all k ps of (Inl e, ps1) \<Rightarrow> Some (Inl e, k, ps1) | (Inr _, ps1) \<Rightarrow> wait_for_exit None k ps1) = Some (Inr (), t, ps1)
    \<and> t \<le> k + d"
  using kill_all_killable [OF assms, of k] wait_bounded [of "k + d" _ k] assms(2) by fastforce

lemma drain_services_returns:
  assumes "list_all (killable d) ps" "0 \<le> d"
  shows "drain_services w now ps = None \<longleftrightarrow> dw_abort w = None \<and> \<not> list_all (\<lambda>p. pr_exit p \<noteq> None) ps"
    "dw_abort w = Some a \<Longrightarrow> \<exists>t ps'. drain_services w now ps = Some (Inr (), t, ps') \<and> t \<le> max now a + dw_grace w + d"
proof -
  have bounded: "\<exists>t ps'. drain_services w now ps = Some (Inr (), t, ps') \<and> t \<le> max now a + dw_grace w + d" if a: "dw_abort w = Some a" for a
  proof (cases "wait_for_exit None now ps")
    case None
    then show ?thesis using killed_wait [OF assms] a by (simp add: drain_services_def kill_time_def)
  next
    case (Some fin)
    obtain r x ps' where d: "fin = (r, x, ps')" by (metis prod_cases3)
    with Some have "r = Inr ()" using waited_all(1) by blast
    then have fin: "wait_for_exit None now ps = Some (Inr (), x, ps')" using Some d by simp
    show ?thesis
    proof (cases "x \<le> max now a + dw_grace w")
      case True
      then have "drain_services w now ps = Some (Inr (), x, ps')" using a fin by (simp add: drain_services_def kill_time_def)
      moreover have "x \<le> max now a + dw_grace w + d" using True assms(2) by linarith
      ultimately show ?thesis by blast
    next
      case False
      then show ?thesis using killed_wait [OF assms, of "max now a + dw_grace w"] a fin
        by (simp add: drain_services_def kill_time_def)
    qed
  qed
  then show "dw_abort w = Some a \<Longrightarrow> \<exists>t ps'. drain_services w now ps = Some (Inr (), t, ps') \<and> t \<le> max now a + dw_grace w + d" .
  show "drain_services w now ps = None \<longleftrightarrow> dw_abort w = None \<and> \<not> list_all (\<lambda>p. pr_exit p \<noteq> None) ps"
  proof (cases "dw_abort w")
    case None
    then show ?thesis by (simp add: drain_services_def kill_time_def wait_for_exit_def wait_all_spec)
  next
    case (Some a)
    then show ?thesis using bounded [OF Some] by auto
  qed
qed

section \<open>What an end of the pipeline leaves\<close>

definition procs_of :: "pipeline \<Rightarrow> process list" where
  "procs_of m = (case mp_procs m of None \<Rightarrow> [] | Some ps \<Rightarrow> ps)"

definition services_settled :: "pipeline \<Rightarrow> bool" where
  "services_settled m = list_all (dealt_with (mp_now m)) (procs_of m)"

lemma settled_frame: "services_settled (m\<lparr>mp_scope_open := b\<rparr>) = services_settled m" "services_settled (m\<lparr>mp_publisher := b\<rparr>) = services_settled m"
  "services_settled (m\<lparr>mp_subscriber := b\<rparr>) = services_settled m" "services_settled (m\<lparr>mp_stack := s\<rparr>) = services_settled m"
  by (simp_all add: services_settled_def procs_of_def)

lemma kill_services_settles: "services_settled (run_exit_callback m KillServices)"
proof (cases "mp_procs m")
  case (Some ps)
  obtain t ps' where "terminate_all 5 (mp_now m) ps = (t, ps')" by (metis surj_pair)
  then show ?thesis using Some terminate_all_spec(2) [of 5 "mp_now m" ps t ps'] by (simp add: services_settled_def procs_of_def)
qed (simp add: services_settled_def procs_of_def)

lemma callback_keeps_settled: "services_settled m \<Longrightarrow> services_settled (run_exit_callback m c)"
  by (cases c) (simp_all add: settled_frame kill_services_settles del: run_exit_callback.simps(4))

lemma callbacks_keep_settled: "services_settled m \<Longrightarrow> services_settled (foldl run_exit_callback m cs)"
  by (induction cs arbitrary: m) (simp_all add: callback_keeps_settled)

lemma callback_flags:
  "\<not> mp_scope_open m \<Longrightarrow> \<not> mp_scope_open (run_exit_callback m c)" "\<not> mp_publisher m \<Longrightarrow> \<not> mp_publisher (run_exit_callback m c)"
  "mp_stack (run_exit_callback m c) = mp_stack m"
  by (cases c; simp split: option.splits prod.splits)+

lemma callbacks_flags:
  "\<not> mp_scope_open m \<or> LeaveScope \<in> set cs \<Longrightarrow> \<not> mp_scope_open (foldl run_exit_callback m cs)"
  "\<not> mp_publisher m \<or> ClosePublisher \<in> set cs \<Longrightarrow> \<not> mp_publisher (foldl run_exit_callback m cs)"
  "mp_stack (foldl run_exit_callback m cs) = mp_stack m"
  by (induction cs arbitrary: m) (auto simp: callback_flags)

lemma unwind_killing: "services_settled (unwind (cbs @ [KillServices]) m)"
  by (simp add: unwind_def callbacks_keep_settled kill_services_settles del: run_exit_callback.simps)

lemma unwind_flags:
  "\<not> mp_scope_open m \<or> LeaveScope \<in> set cs \<Longrightarrow> \<not> mp_scope_open (unwind cs m)"
  "\<not> mp_publisher m \<or> ClosePublisher \<in> set cs \<Longrightarrow> \<not> mp_publisher (unwind cs m)"
  "mp_stack (unwind cs m) = mp_stack m"
  by (simp_all add: unwind_def callbacks_flags)

lemma unwind_settled: "services_settled m \<Longrightarrow> services_settled (unwind cs m)"
  by (simp add: unwind_def callbacks_keep_settled)

text \<open>What \<open>start\<close> has registered when its body ends.\<close>

lemma start_body_spec:
  assumes "start_body w svcs (pipeline_init now) = (r, cbs, m)"
  shows "mp_stack m = None" "mp_scope_open m \<longrightarrow> LeaveScope \<in> set cbs" "mp_publisher m \<longrightarrow> ClosePublisher \<in> set cbs"
    "is_ok r \<Longrightarrow> mp_procs m \<noteq> None \<and> mp_publisher m \<and> set cbs = {LeaveScope, ClosePublisher, CloseSubscriber}"
  using assms by (auto simp: start_body_def pipeline_init_def Let_def is_ok_def split: sum.splits if_splits prod.splits)

text \<open>The whole life of a pipeline: its start, then the drain if the run gets there, then \<open>__aexit__\<close>, with an
  exception under way or not.\<close>

definition pipeline_run :: "start_world \<Rightarrow> service_config list \<Rightarrow> drain_world option \<Rightarrow> bool \<Rightarrow> rat \<Rightarrow> (unit result \<times> pipeline) option" where
  "pipeline_run w svcs dw raised now =
     (case pipeline_start w svcs (pipeline_init now) of
        (Inl e, m1) \<Rightarrow> Some (Inl e, m1)
      | (Inr _, m1) \<Rightarrow>
          (case dw of
             None \<Rightarrow> Some (Inr (), pipeline_aexit raised m1)
           | Some w' \<Rightarrow> map_option (map_prod id (pipeline_aexit raised)) (pipeline_drain w' m1)))"

lemma aexit_flags:
  assumes "mp_stack m = Some cbs" "LeaveScope \<in> set cbs" "ClosePublisher \<in> set cbs"
  shows "\<not> mp_scope_open (pipeline_aexit raised m)" "\<not> mp_publisher (pipeline_aexit raised m)" "mp_stack (pipeline_aexit raised m) = None"
  using assms by (simp_all add: pipeline_aexit_def Let_def unwind_flags)

lemma aexit_settled:
  assumes "mp_stack m = Some cbs" "services_settled m \<or> mp_procs m \<noteq> None \<and> (mp_publisher m \<or> raised)"
  shows "services_settled (pipeline_aexit raised m)"
  using assms unwind_killing unwind_settled settled_frame(4) by (auto simp: pipeline_aexit_def Let_def)

lemma drained_settled:
  assumes "pipeline_drain w m = Some (r, m')" "mp_publisher m" "mp_procs m = Some ps"
  shows "mp_stack m' = mp_stack m" "mp_procs m' \<noteq> None" "is_ok r \<Longrightarrow> services_settled m'"
proof -
  show "mp_stack m' = mp_stack m" "mp_procs m' \<noteq> None"
    using assms by (auto simp: pipeline_drain_def Let_def split: sum.splits option.splits)
  show "services_settled m'" if ok: "is_ok r"
  proof -
    have d: "drain_wait w (mp_now m) ps = Some (r, mp_now m', procs_of m')"
      using assms ok by (auto simp: pipeline_drain_def procs_of_def Let_def is_ok_def split: sum.splits)
    have "drain_services w (mp_now m) ps = Some (r, mp_now m', procs_of m')"
      using d ok by (auto simp: drain_wait_def Let_def split: option.splits if_splits)
    then obtain n q where "wait_for_exit None n q = Some (r, mp_now m', procs_of m')"
      using ok by (auto simp: drain_services_def split: option.splits if_splits prod.splits sum.splits)
    from waited_all(2,4) [OF this] show ?thesis by (simp add: services_settled_def dealt_with_def list_all_iff)
  qed
qed

lemma pipeline_start_spec:
  assumes "pipeline_start w svcs (pipeline_init now) = (r, m)"
  shows "is_ok r \<Longrightarrow> \<exists>cbs ps. mp_stack m = Some cbs \<and> set cbs = {LeaveScope, ClosePublisher, CloseSubscriber}
      \<and> mp_procs m = Some ps \<and> mp_publisher m"
    "\<not> is_ok r \<Longrightarrow> services_settled m \<and> \<not> mp_scope_open m \<and> \<not> mp_publisher m \<and> mp_stack m = None"
proof -
  obtain r' cbs m' where b: "start_body w svcs (pipeline_init now) = (r', cbs, m')" by (metis prod_cases3)
  note spec = start_body_spec [OF b]
  show "\<exists>cbs ps. mp_stack m = Some cbs \<and> set cbs = {LeaveScope, ClosePublisher, CloseSubscriber}
      \<and> mp_procs m = Some ps \<and> mp_publisher m" if "is_ok r"
    using assms that spec(4) by (cases r') (auto simp: pipeline_start_def b)
  show "services_settled m \<and> \<not> mp_scope_open m \<and> \<not> mp_publisher m \<and> mp_stack m = None" if "\<not> is_ok r"
  proof -
    define cs where "cs = (if mp_procs m' \<noteq> None then cbs @ [KillServices] else cbs)"
    have m: "m = unwind cs m'" using assms that by (cases r') (auto simp: pipeline_start_def b cs_def)
    have "set cbs \<subseteq> set cs" by (auto simp: cs_def)
    then have "\<not> mp_scope_open m" "\<not> mp_publisher m" "mp_stack m = None"
      unfolding m using spec(1-3) unwind_flags [where m = m' and cs = cs] by auto
    moreover have "services_settled m"
    proof (cases "mp_procs m' = None")
      case True
      then have "services_settled m'" by (simp add: services_settled_def procs_of_def)
      then show ?thesis unfolding m by (rule unwind_settled)
    next
      case False
      then show ?thesis unfolding m cs_def by (simp add: unwind_killing)
    qed
    ultimately show ?thesis by simp
  qed
qed

text \<open>C37. No service process outlives its pipeline.  When the pipeline is left, after a start that failed, after a
  run that raised before or during the drain, or after a drain that ended well, every service process it spawned
  has exited, or was sent SIGKILL, or cannot be signalled; the ZMQ scope is left, the publisher closed and nothing
  remains to be undone.  The case that is left out is a drain that fails while nothing is raised at the end of the
  pipeline.\<close>

theorem no_service_outlives_the_pipeline:
  assumes "pipeline_run w svcs dw raised now = Some (r, m)"
    "is_ok r \<or> raised \<or> dw = None \<or> \<not> is_ok (fst (pipeline_start w svcs (pipeline_init now)))"
  shows "services_settled m \<and> \<not> mp_scope_open m \<and> \<not> mp_publisher m \<and> mp_stack m = None"
proof -
  obtain r1 m1 where s: "pipeline_start w svcs (pipeline_init now) = (r1, m1)" by (metis surj_pair)
  note start = pipeline_start_spec [OF s]
  show ?thesis
  proof (cases r1)
    case (Inl e)
    then have "m = m1" using assms(1) s by (simp add: pipeline_run_def)
    with start(2) Inl show ?thesis by simp
  next
    case (Inr u)
    then obtain cbs ps where c: "mp_stack m1 = Some cbs" "set cbs = {LeaveScope, ClosePublisher, CloseSubscriber}"
      "mp_procs m1 = Some ps" "mp_publisher m1" using start(1) by auto
    show ?thesis
    proof (cases dw)
      case None
      then have "m = pipeline_aexit raised m1" using assms(1) s Inr by (simp add: pipeline_run_def)
      then show ?thesis using aexit_flags [OF c(1)] aexit_settled [OF c(1)] c by simp
    next
      case (Some w')
      then obtain m2 where d: "pipeline_drain w' m1 = Some (r, m2)" and m: "m = pipeline_aexit raised m2"
        using assms(1) s Inr by (auto simp: pipeline_run_def)
      note drained = drained_settled [OF d c(4,3)]
      have "services_settled m2 \<or> raised" using assms(2) drained(3) Some s Inr by auto
      then show ?thesis
        using aexit_flags [of m2 cbs] aexit_settled [of m2 cbs] drained(1,2) c(1,2) by (auto simp: m)
    qed
  qed
qed

text \<open>Two services that never exit and die only of SIGKILL, in a run that ends before it is drained.\<close>

definition stubborn :: process where
  "stubborn = \<lparr>pr_pid = 7, pr_cmd = [], pr_exit = None, pr_term_delay = None, pr_kill_delay = Some 1, pr_refuses = False,
     pr_terminated = False, pr_killed = False\<rparr>"

definition example_start_world :: start_world where
  "example_start_world = \<lparr>sw_scope = Inr (), sw_publisher = Inr (), sw_has_socket_dir = True, sw_subscriber = Inr (),
     sw_subscriber_start = Inr (),
     sw_launch = \<lparr>la_executable = ''python'', la_readiness_path = ''ready'', la_popen = (\<lambda>i cmd. Inr (stubborn\<lparr>pr_cmd := cmd\<rparr>)),
       la_ready = (Inr (), 2)\<rparr>\<rparr>"

definition example_services :: "service_config list" where
  "example_services = [\<lparr>sc_module = ''aggregator'', sc_args = []\<rparr>, \<lparr>sc_module = ''event_logger'', sc_args = []\<rparr>]"

theorem no_service_outlives_the_pipeline_witness:
  "\<exists>m. pipeline_run example_start_world example_services None False 0 = Some (Inr (), m)
    \<and> services_settled m \<and> \<not> mp_scope_open m \<and> \<not> mp_publisher m \<and> length (procs_of m) = 2"
proof -
  obtain m where m: "pipeline_run example_start_world example_services None False 0 = Some (Inr (), m)" "length (procs_of m) = 2"
  proof -
    have "map_option (\<lambda>(r, m). (r, length (procs_of m))) (pipeline_run example_start_world example_services None False 0) = Some (Inr (), 2)"
      by code_simp
    then show ?thesis using that by (auto split: option.splits)
  qed
  with no_service_outlives_the_pipeline [OF m(1)] show ?thesis by simp
qed

end
