(* ===== verification/Spec2Isabelle.thy ===== *)
theory Spec2Isabelle
  imports Strategies SessionProtocol MetricsTable SuperPass EarlyStopping ConnectionPool SseStream
    Accumulators AgenticRuns TokenQueueFacts EventPipeline FinalPublish ClientRuns Readiness CpuAffinity
    Rulesets OutputCaching Compliance
    BenchmarkPhases RunOutcome TrendFacts SteadyFacts ConfigTextFacts ExtractorFacts ScoringFacts InlineScorerFacts
    AgenticDataFacts AgenticFailures EventLogRuns ServicesFacts
begin

text \<open>
  A verification development of the MLPerf inference endpoint benchmark client (Python, under
  \<open>src/src/inference_endpoint/\<close>; paths below are relative to that directory).

  The program and its parts.  A run is configured (\<open>config/\<close>), its data is loaded and its phases are planned
  (\<open>commands/benchmark/execute.py\<close>).  A session (\<open>load_generator/\<close>) then drives one phase after the other on
  an event loop: a load strategy decides when the next sample of a sample order is issued, the phase issuer
  gives it an id, publishes an ISSUED record and hands a query to the HTTP client (\<open>endpoint_client/\<close>).  The
  client deals queries to worker processes over push/pull sockets; a worker sends the request on a pooled
  connection, accumulates the response (streamed or not) and sends chunks and a result back.  Every event of a
  sample is published (\<open>async_utils/transport/zmq/pubsub.py\<close>) to the metrics aggregator
  (\<open>async_utils/services/metrics_aggregator/\<close>), which keeps a table of samples in flight, counters, series,
  a token-counting queue and snapshots.  At the end the session's ENDED record drains the aggregator, its
  final snapshot becomes the report (\<open>metrics/report.py\<close>), accuracy is scored, and audits and the compliance
  checker decide whether the result may be submitted (\<open>commands/audit.py\<close>, \<open>compliance/\<close>).

  How the theories correspond to the code.

  Foundations.  \<open>Prelude\<close>: exceptions as the values \<open>py_exc\<close>, results as sums, dictionaries as association
  lists, generic lemmas and the collections \<open>frame_simps\<close> and \<open>inv_intros\<close>.  \<open>PyValues\<close>: dynamically typed values
  (dataset rows, configuration dictionaries, result files).  \<open>PyText\<close>: the string methods the code calls, and
  \<open>Regex\<close>: the part of Python's \<open>re\<close> it uses, as a backtracking matcher that lists matches in the order \<open>re\<close>
  tries them.  \<open>CoreTypes\<close>: \<open>core/types.py\<close> and \<open>core/record.py\<close>.
  \<open>Simulation\<close>: the locale of a machine that refines an abstract specification.

  Configuration.  \<open>RuntimeSettings\<close>: \<open>config/runtime_settings.py\<close>, load patterns, \<open>metrics/metric.py\<close>,
  \<open>load_generator/delay.py\<close>.  \<open>Rulesets\<close>: \<open>config/rulesets/\<close>, the registry and \<open>apply_user_config\<close>.
  \<open>BenchmarkConfig\<close>: the validators of \<open>config/schema.py\<close> in the order pydantic runs them, resolved defaults and
  pinned seeds; an accepted configuration is consistent and validating it again changes nothing.
  \<open>ConfigText\<close>: \<open>config/utils.py\<close>, environment references and the dataset strings of the command line;
  \<open>ConfigTextFacts\<close> shows that what is written in either notation is read back.
  \<open>CpuAffinity\<close>: \<open>endpoint_client/cpu_affinity.py\<close>; the plan partitions the cores.

  Data sets and adapters.  \<open>Transforms\<close> (\<open>dataset_manager/transforms.py\<close>: pipelines of data-frame transforms and
  their fusion), \<open>Adapters\<close> (\<open>openai/\<close>, \<open>sglang/adapter.py\<close>, \<open>videogen/\<close>, \<open>Dataset.load\<close> and
  \<open>dataset_manager/factory.py\<close>: from row to request and from response to result), \<open>AgenticData\<close>
  (\<open>agentic_inference_dataset.py\<close>: validation, metadata and samples of multi-turn files).  \<open>TransformFacts\<close>
  shows when fusion changes nothing, \<open>AdapterFacts\<close> that every row becomes its own configured request and that a
  salt is never lost, \<open>AgenticDataFacts\<close> that the strategy's turns point to samples holding their conversation.

  Load generation.  \<open>SampleOrder\<close> (\<open>sample_order.py\<close>; the locale \<open>sample_source\<close> is the contract of the four
  orders), \<open>Datasets\<close> (\<open>dataset.py\<close>: access, salting), \<open>PhaseIssuer\<close> and \<open>Session\<close> (\<open>session.py\<close>),
  \<open>Strategies\<close> (\<open>strategy.py\<close>; the locale \<open>issue_port\<close> is what a strategy knows of its phase), \<open>Agentic\<close>
  (\<open>agentic_inference_strategy.py\<close>, \<open>conversation_manager.py\<close>).  \<open>SessionFacts\<close> and \<open>SessionProtocol\<close> prove the
  invariants of the session's step relation \<open>reach\<close> and the protocol of its log; \<open>AgenticFacts\<close>,
  \<open>AgenticPlan\<close>, \<open>AgenticRuns\<close> and \<open>AgenticFailures\<close> the bounds, the wake-up guarantee and the failure accounting
  of the agentic strategy, the last for the whole handling of an error response and of a timeout.  \<open>BenchmarkPhases\<close>: set-up and \<open>_build_phases\<close>; every planned phase can start and has a limit.

  The HTTP client.  \<open>ConnectionPool\<close> and \<open>HttpProtocol\<close> (\<open>endpoint_client/http.py\<close>), \<open>SseStream\<close> and
  \<open>Accumulators\<close> (stream cutting in \<open>worker.py\<close>, the OpenAI and SGLang accumulators), \<open>Worker\<close> (\<open>worker.py\<close> as
  steps between awaits), \<open>Transport\<close> (\<open>transport.py\<close>, \<open>ready_check.py\<close>, \<open>http_client.py\<close>).  \<open>WorkerFacts\<close>,
  \<open>TransportFacts\<close> and \<open>Readiness\<close> prove the parts, \<open>ClientRuns\<close> their composition: no query gets two results.

  Metrics.  \<open>MetricsTable\<close>, \<open>TokenQueue\<close>, \<open>Registry\<close>, \<open>Aggregator\<close>, \<open>FinalPublish\<close> (the files of that name in the
  aggregator service), \<open>SuperPass\<close> (the collector and replay parser of \<open>steady_state_diagnostics.py\<close>),
  \<open>EarlyStopping\<close> (\<open>metrics/early_stopping.py\<close>), \<open>PubSub\<close> (\<open>pubsub.py\<close>).  \<open>TokenQueueFacts\<close> and \<open>PubSubFacts\<close>
  show that queue and channel refine a bag and a first-in first-out queue; \<open>AggregatorFacts\<close> and
  \<open>AggregatorRuns\<close> that the service never raises and its counters agree; \<open>EventPipeline\<close> composes session,
  channel and aggregator; \<open>Report\<close> continues to the report and its summaries.  \<open>TrendTests\<close> (intervals, change
  point, trend tests) and \<open>SteadyState\<close> (gates, plateaus, verdict) model the analysis of the super-pass series
  in \<open>steady_state_diagnostics.py\<close>; \<open>TrendFacts\<close> shows that the change point is the one Pettitt's test
  defines, \<open>SteadyFacts\<close> that a verdict is given exactly when an admissible, long enough plateau exists.

  The event log and the service processes.  \<open>EventLog\<close>: \<open>async_utils/services/event_logger/\<close>, the JSONL and SQL
  writers with their flush interval, and the service that feeds them, stops at ENDED and reacts to signals; the
  locales \<open>record_storage\<close> and \<open>sql_session\<close> of \<open>EventLogFacts\<close> are what a writer promises and what it needs of a
  database session, and \<open>EventLogRuns\<close> composes publisher, channel and logger: the log is what was published.
  \<open>Services\<close>: \<open>services/launcher.py\<close> and the pipeline of \<open>commands/benchmark/pipeline.py\<close>, with processes as the
  times at which they exit; \<open>ServicesFacts\<close> shows when waiting for them returns, how long tearing them down takes,
  and that none outlives its pipeline.

  Results.  \<open>RunOutcome\<close>: watchdog and interrupt handler, \<open>finalize_benchmark\<close>, \<open>run_benchmark\<close> and the exit
  codes; \<open>OutputCaching\<close>: the audit, \<open>Compliance\<close>: \<open>compliance/checker.py\<close>.  \<open>Extractors\<close>:
  \<open>evaluation/extractor.py\<close>; \<open>Scoring\<close>: the scorers of \<open>evaluation/scoring.py\<close> that compute on their own data, and
  the accounting of \<open>commands/benchmark/accuracy.py\<close>; \<open>InlineScorer\<close>: the scorer of agentic runs.
  \<open>ExtractorFacts\<close>, \<open>ScoringFacts\<close> and \<open>InlineScorerFacts\<close> show which pattern decides an answer, that a score
  accounts for every sample issued (a missing output counts as wrong), and that it is a share.

  How the state corresponds.  An object is a record with its attributes as fields, its methods are functions
  that return the object updated; an enum or union is a datatype.  Code between two awaits, a callback or a
  handler is one step; the step relations (\<open>reach\<close>, \<open>pool_reach\<close>, \<open>mp_reach\<close>) and the runs over lists of events
  (agentic strategy, aggregator, worker, channels) allow every order the event loop and the sockets allow.
  What a library or the operating system answers (a socket accepts or fails, a timer fires, a file can be
  written, a third-party scorer's scores) is an argument or an event.

  Numbers.  Python's integers are \<open>int\<close>, floats are exact rationals (reals where logarithms and roots occur):
  rounding is not modelled, so statements about sums and rates are about the exact values.  A random generator
  is a record of a stream of draws and a position; \<open>random.Random\<close> of a seed is a parameter.

  Loops and fuel.  Loops are structural recursion or functions with a termination proof; loops that may run
  on are partial functions into options (\<open>bracket\<close> in \<open>EarlyStopping\<close>, proved to return on its domain).  Three
  loops take a bound that is proved or seen to suffice: filling a slot of the agentic strategy (the budget of
  conversations not yet started: each round starts one), the wait for the workers (eleven rounds of a tenth of
  the timeout: the deadline passes before the last), and the bound a phase's stop check gives a burst.

  Parameters and hypotheses.  The tokenizer, chat templates, the HDR histogram, msgpack and JSON codecs, the
  salt digest, pydantic's dump and parse and the operations of data frames (records \<open>pandas\<close> and \<open>grouping\<close>,
  with laws like \<open>apply_law\<close> and \<open>groups_law\<close>) are arguments.  Where a theorem relies on one, its
  hypothesis states the documented behaviour (a codec decodes what it encoded, a digest is a function) and its
  witness instantiates it.

  Interfaces.  \<open>sample_source\<close>, \<open>issue_port\<close> and \<open>simulation\<close> are interpreted on the program's own definitions
  (\<open>wr\<close>, \<open>sq\<close>, \<open>rp\<close>, \<open>sg\<close>, \<open>ord\<close>; \<open>issuer\<close>; \<open>tq\<close>), as is \<open>record_storage\<close> on both writers of the event log.

  Idealisations.  The binomial tail of early stopping is the exact one that the program's incomplete beta
  approximates.  The wire between publisher and subscriber loses nothing once a frame is accepted: a PUB socket's
  high-water mark is not modelled.  Series hold unbounded integers where the code has 64-bit arrays.  Publishing and
  handing a query to the client do not raise in the phase issuer.  Of a response's metadata only the finish reason and
  the worker's id are kept.  Applying a function to the rows of a data frame does not convert their numbers.

  Not modelled.  \<open>openai/openai_types_gen.py\<close> is generated and declarative.  The scorers that call a judge, a
  sandbox or a metric library (ROUGE, LiveCodeBench, SWE-bench, the legacy DeepSeek evaluation) compute with code
  that is not in the repository.  The predefined data sets download and reshape public data with pandas; process launch,
  file and database writers, rendering, plots, progress bars, command-line parsing, profiling and the
  development servers under \<open>testing/\<close> and \<open>utils/\<close> are input and output around the core.
\<close>

end
